(* ===== verification/Tuya_Prelude.thy ===== *)
theory Tuya_Prelude
  imports Main "HOL-Library.Word"
begin

unbundle bit_operations_syntax

text \<open>
  Shared vocabulary of the development: the fixed-width integer types of the C sources, the
  status codes returned by the adapter layer, C pointers as optional values, the C library's
  \<open>memcpy\<close> and \<open>memset\<close> on byte lists, and the lemmas on words and lists that the
  component theories rely on.
  The status codes of \<open>tuya_error_code.h\<close> are constructors of one datatype: the header is not
  part of the repository and the code only ever compares codes for equality.
\<close>

section \<open>Types of the C sources\<close>

type_synonym u8 = "8 word"
type_synonym u16 = "16 word"
type_synonym u32 = "32 word"
type_synonym u64 = "64 word"

text \<open>A byte buffer; \<open>None\<close> is the null pointer.\<close>

type_synonym bytes = "u8 list"
type_synonym byte_ptr = "u8 list option"

datatype OPERATE_RET =
    OPRT_OK
  | OPRT_COM_ERROR
  | OPRT_SOCK_ERR
  | OPRT_RECV_ERR
  | OPRT_INVALID_PARM
  | OPRT_MALLOC_FAILED
  | OPRT_NOT_SUPPORTED
  | OPRT_NOT_FOUND
  | OPRT_EXCEED_UPPER_LIMIT
  | OPRT_RESOURCE_NOT_READY
  | OPRT_FILE_OPEN_FAILED
  | OPRT_FILE_READ_FAILED
  | OPRT_FILE_WRITE_FAILED
  | OPRT_OS_ADAPTER_MUTEX_CREAT_FAILED
  | OPRT_OS_ADAPTER_MUTEX_LOCK_FAILED
  | OPRT_OS_ADAPTER_MUTEX_UNLOCK_FAILED
  | OPRT_OS_ADAPTER_MUTEX_RELEASE_FAILED
  | OPRT_OS_ADAPTER_SEM_WAIT_FAILED
  | OPRT_OS_ADAPTER_SEM_POST_FAILED
  | OPRT_OS_ADAPTER_SEM_RELEASE_FAILED
  | OPRT_OS_ADAPTER_THRD_CREAT_FAILED
  | OPRT_OS_ADAPTER_QUEUE_CREAT_FAILED
  | OPRT_OS_ADAPTER_QUEUE_SEND_FAIL
  | OPRT_OS_ADAPTER_QUEUE_RECV_FAIL

section \<open>Proof collections\<close>

named_theorems word_nat \<open>moving comparisons and arithmetic of words to natural numbers\<close>

declare word_less_nat_alt [word_nat]
declare word_le_nat_alt [word_nat]

section \<open>Words\<close>

lemma unat_add_small [word_nat]:
  fixes a b :: "'a::len word"
  assumes "unat a + unat b < 2 ^ LENGTH('a)"
  shows "unat (a + b) = unat a + unat b"
  using assms by (simp add: unat_word_ariths)

lemma unat_sub_ge [word_nat]:
  fixes a b :: "'a::len word"
  assumes "unat b \<le> unat a"
  shows "unat (a - b) = unat a - unat b"
  using assms by (simp add: unat_sub word_le_nat_alt)

lemma unat_mult_small [word_nat]:
  fixes a b :: "'a::len word"
  assumes "unat a * unat b < 2 ^ LENGTH('a)"
  shows "unat (a * b) = unat a * unat b"
  using assms by (simp add: unat_word_ariths)

lemma unat_u8_less [simp]: "unat (x :: u8) < 256"
  using unsigned_less [of x, where 'a = nat] by simp

lemma unat_u32_less [simp]: "unat (x :: u32) < 4294967296"
  using unsigned_less [of x, where 'a = nat] by simp

lemma word_eq_unat: "(a :: 'a::len word) = b \<longleftrightarrow> unat a = unat b"
  by (simp add: word_unat_eq_iff)

lemma unat_pos_iff: "0 < unat (x :: 'a::len word) \<longleftrightarrow> x \<noteq> 0"
  by (simp add: unat_eq_0 [symmetric])

section \<open>Text\<close>

text \<open>Decimal output of \<open>printf\<close> with \<open>%d\<close> and \<open>%llu\<close>, for numbers that are not negative.\<close>

fun dec_digits :: "nat \<Rightarrow> string" where
  "dec_digits n = (if n < 10 then [char_of (48 + n)] else dec_digits (n div 10) @ [char_of (48 + n mod 10)])"

declare dec_digits.simps [simp del]

section \<open>Byte copies\<close>

text \<open>Error numbers that several components meet: not permitted, interrupted by a signal handler, busy.\<close>

definition EPERM :: int where "EPERM = 1"
definition EINTR :: int where "EINTR = 4"
definition EBUSY :: int where "EBUSY = 16"

text \<open>\<open>memcpy(&dst[off], src, n)\<close> on the byte list \<open>dst\<close>.\<close>

definition memcpy_at :: "'a list \<Rightarrow> nat \<Rightarrow> 'a list \<Rightarrow> nat \<Rightarrow> 'a list" where
  "memcpy_at dst off src n = take off dst @ take n src @ drop (off + n) dst"

lemma length_memcpy_at [simp]:
  "off + n \<le> length dst \<Longrightarrow> n \<le> length src \<Longrightarrow> length (memcpy_at dst off src n) = length dst"
  by (simp add: memcpy_at_def)

lemma memcpy_at_0 [simp]: "memcpy_at dst 0 src n = take n src @ drop n dst"
  by (simp add: memcpy_at_def)

lemma take_memcpy_at [simp]:
  "k \<le> off \<Longrightarrow> off \<le> length dst \<Longrightarrow> take k (memcpy_at dst off src n) = take k dst"
  by (simp add: memcpy_at_def min_def)

lemma drop_memcpy_at [simp]:
  "off + n \<le> k \<Longrightarrow> off + n \<le> length dst \<Longrightarrow> n \<le> length src \<Longrightarrow>
    drop k (memcpy_at dst off src n) = drop k dst"
  by (simp add: memcpy_at_def)

section \<open>Lists\<close>

lemma take_drop_split: "a \<le> b \<Longrightarrow> take b xs = take a xs @ take (b - a) (drop a xs)"
  by (metis le_add_diff_inverse take_add)

lemma drop_split: "a \<le> b \<Longrightarrow> drop a xs = take (b - a) (drop a xs) @ drop b xs"
  by (metis append_take_drop_id drop_drop le_add_diff_inverse2)

end
