(* ===== verification/Fifo_Spec.thy ===== *)
theory Fifo_Spec
  imports Tuya_Prelude
begin

text \<open>
  The interface of a bounded byte FIFO: what a client of a ring buffer may rely on, stated over
  the abstract contents, and the facts about whole sessions of writes and reads that follow from
  it. The bound \<open>lim\<close> is the number of bytes one call can express.
\<close>

datatype fifo_op = Put bytes | Get nat

text \<open>
  A session: the bytes accepted by the writes, the bytes delivered by the reads, the final state.
\<close>

fun fifo_run ::
  "('q \<Rightarrow> bytes \<Rightarrow> nat \<times> 'q) \<Rightarrow> ('q \<Rightarrow> nat \<Rightarrow> bytes \<times> 'q) \<Rightarrow> 'q \<Rightarrow> fifo_op list \<Rightarrow> bytes \<times> bytes \<times> 'q" where
  "fifo_run put get q [] = ([], [], q)"
| "fifo_run put get q (Put d # ops) =
     (let (n, q') = put q d; (a, r, q'') = fifo_run put get q' ops in (take n d @ a, r, q''))"
| "fifo_run put get q (Get k # ops) =
     (let (d, q') = get q k; (a, r, q'') = fifo_run put get q' ops in (a, d @ r, q''))"

fun fifo_op_ok :: "nat \<Rightarrow> fifo_op \<Rightarrow> bool" where
  "fifo_op_ok lim (Put d) = (length d < lim)"
| "fifo_op_ok lim (Get k) = (k < lim)"

locale byte_fifo =
  fixes inv :: "'q \<Rightarrow> bool"
    and contents :: "'q \<Rightarrow> bytes"
    and cap :: "'q \<Rightarrow> nat"
    and put :: "'q \<Rightarrow> bytes \<Rightarrow> nat \<times> 'q"
    and get :: "'q \<Rightarrow> nat \<Rightarrow> bytes \<times> 'q"
    and lim :: nat
  assumes bounded: "inv q \<Longrightarrow> length (contents q) \<le> cap q"
    and put_count: "inv q \<Longrightarrow> length d < lim \<Longrightarrow>
          fst (put q d) = min (length d) (cap q - length (contents q))"
    and put_inv: "inv q \<Longrightarrow> length d < lim \<Longrightarrow> inv (snd (put q d))"
    and put_contents: "inv q \<Longrightarrow> length d < lim \<Longrightarrow>
          contents (snd (put q d)) = contents q @ take (min (length d) (cap q - length (contents q))) d"
    and put_cap: "inv q \<Longrightarrow> length d < lim \<Longrightarrow> cap (snd (put q d)) = cap q"
    and get_result: "inv q \<Longrightarrow> k < lim \<Longrightarrow> fst (get q k) = take k (contents q)"
    and get_inv: "inv q \<Longrightarrow> k < lim \<Longrightarrow> inv (snd (get q k))"
    and get_contents: "inv q \<Longrightarrow> k < lim \<Longrightarrow> contents (snd (get q k)) = drop k (contents q)"
    and get_cap: "inv q \<Longrightarrow> k < lim \<Longrightarrow> cap (snd (get q k)) = cap q"
begin

lemma stream:
  assumes "inv q" "list_all (fifo_op_ok lim) ops" "fifo_run put get q ops = (a, r, q')"
  shows "inv q' \<and> cap q' = cap q \<and> contents q @ a = r @ contents q'"
  using assms
proof (induction ops arbitrary: q a r q')
  case Nil
  then show ?case by simp
next
  case (Cons x ops)
  show ?case
  proof (cases x)
    case (Put d)
    obtain n q1 where p: "put q d = (n, q1)" by force
    obtain a1 r1 q2 where run: "fifo_run put get q1 ops = (a1, r1, q2)" by (metis prod_cases3)
    have d: "length d < lim" using Cons.prems Put by simp
    have "inv q1" "cap q1 = cap q" "contents q1 = contents q @ take n d"
      using put_inv [OF Cons.prems(1) d] put_cap [OF Cons.prems(1) d]
        put_contents [OF Cons.prems(1) d] put_count [OF Cons.prems(1) d] p by simp_all
    with Cons.IH [OF _ _ run] Cons.prems Put p run show ?thesis by auto
  next
    case (Get k)
    obtain d q1 where p: "get q k = (d, q1)" by force
    obtain a1 r1 q2 where run: "fifo_run put get q1 ops = (a1, r1, q2)" by (metis prod_cases3)
    have k: "k < lim" using Cons.prems Get by simp
    have "inv q1" "cap q1 = cap q" "contents q1 = drop k (contents q)" "d = take k (contents q)"
      using get_inv [OF Cons.prems(1) k] get_cap [OF Cons.prems(1) k]
        get_contents [OF Cons.prems(1) k] get_result [OF Cons.prems(1) k] p by simp_all
    moreover have "a = a1" "r = d @ r1" "q' = q2" using Cons.prems(3) Get p run by simp_all
    moreover have "inv q2 \<and> cap q2 = cap q1 \<and> contents q1 @ a1 = r1 @ contents q2"
      using Cons.IH [OF \<open>inv q1\<close> _ run] Cons.prems(2) by simp
    ultimately show ?thesis by (metis append.assoc append_take_drop_id)
  qed
qed

lemma put_get:
  assumes "inv q" "contents q = []" "length d \<le> cap q" "length d < lim"
  shows "fst (get (snd (put q d)) (length d)) = d"
  using assms by (simp add: get_result put_inv put_contents)

end

end
