(* ===== verification/Tuya_Ringbuf.thy ===== *)
theory Tuya_Ringbuf
  imports Tuya_Prelude Fifo_Spec
begin

text \<open>
  The byte ring buffer of \<open>include/utilities/src/tuya_ringbuf.c\<close>: its control block as a record
  over 32-bit positions, one definition per function of the file, the FIFO abstraction
  \<open>rb_contents\<close> and the lemmas that every operation implements the FIFO operation on it.
  A handle is an optional control block (\<open>None\<close> is NULL); operations return the number of
  bytes transferred together with the updated buffer, as the code updates it in place.
\<close>

section \<open>Model\<close>

datatype RINGBUFF_TYPE_E = OVERFLOW_STOP_TYPE | OVERFLOW_COVERAGE_TYPE

record ringbuff =
  rb_type :: RINGBUFF_TYPE_E
  rb_in :: u32
  rb_out :: u32
  rb_len :: u32
  rb_buff :: bytes

text \<open>\<open>sizeof(__RINGBUFF_T)\<close>: a 4-byte enum, one byte and its padding, three 32-bit words.\<close>

definition RINGBUFF_SIZE :: nat where
  "RINGBUFF_SIZE = 20"

definition GET_MIN :: "u32 \<Rightarrow> u32 \<Rightarrow> u32" where
  "GET_MIN x y = (if x < y then x else y)"

definition ringbuff_init :: "ringbuff \<Rightarrow> u32 \<Rightarrow> ringbuff" where
  "ringbuff_init rb len = rb\<lparr>rb_in := 0, rb_out := 0, rb_len := len\<rparr>"

text \<open>
  \<open>out_ok\<close> says that the output handle pointer is not NULL; \<open>ringbuff_malloc n\<close> is the block
  \<open>RINGBUFF_MALLOC(n)\<close> returns, \<open>None\<close> for NULL.
\<close>

definition tuya_ring_buff_create ::
  "(nat \<Rightarrow> byte_ptr) \<Rightarrow> u32 \<Rightarrow> RINGBUFF_TYPE_E \<Rightarrow> bool \<Rightarrow> OPERATE_RET \<times> ringbuff option" where
  "tuya_ring_buff_create ringbuff_malloc len type out_ok =
     (if type = OVERFLOW_COVERAGE_TYPE then (OPRT_NOT_SUPPORTED, None)
      else if \<not> out_ok \<or> len = 0 then (OPRT_INVALID_PARM, None)
      else case ringbuff_malloc (RINGBUFF_SIZE + unat len) of
        None \<Rightarrow> (OPRT_MALLOC_FAILED, None)
      | Some blk \<Rightarrow>
          (OPRT_OK,
           Some (ringbuff_init
             \<lparr>rb_type = type, rb_in = 0, rb_out = 0, rb_len = 0, rb_buff = drop RINGBUFF_SIZE blk\<rparr>
             len)))"

text \<open>The result carries whether \<open>RINGBUFF_FREE\<close> was called on the control block.\<close>

definition tuya_ring_buff_free :: "ringbuff option \<Rightarrow> OPERATE_RET \<times> bool" where
  "tuya_ring_buff_free h = (case h of None \<Rightarrow> (OPRT_INVALID_PARM, False) | Some rb \<Rightarrow> (OPRT_OK, True))"

definition tuya_ring_buff_reset :: "ringbuff option \<Rightarrow> OPERATE_RET \<times> ringbuff option" where
  "tuya_ring_buff_reset h =
     (case h of None \<Rightarrow> (OPRT_INVALID_PARM, None)
      | Some rb \<Rightarrow> (OPRT_OK, Some (ringbuff_init rb (rb_len rb))))"

definition tuya_ring_buff_free_size_get :: "ringbuff option \<Rightarrow> u32" where
  "tuya_ring_buff_free_size_get h =
     (case h of None \<Rightarrow> 0
      | Some rb \<Rightarrow>
          (let size = (if rb_in rb = rb_out rb then rb_len rb
                       else if rb_out rb > rb_in rb then rb_out rb - rb_in rb
                       else rb_len rb - (rb_in rb - rb_out rb))
           in size - 1))"

definition tuya_ring_buff_used_size_get :: "ringbuff option \<Rightarrow> u32" where
  "tuya_ring_buff_used_size_get h =
     (case h of None \<Rightarrow> 0
      | Some rb \<Rightarrow>
          (if rb_in rb = rb_out rb then 0
           else if rb_in rb > rb_out rb then rb_in rb - rb_out rb
           else rb_len rb - (rb_out rb - rb_in rb)))"

definition tuya_ring_buff_write ::
  "ringbuff option \<Rightarrow> byte_ptr \<Rightarrow> u32 \<Rightarrow> u32 \<times> ringbuff option" where
  "tuya_ring_buff_write h data len0 =
     (case (h, data) of
        (Some rb, Some pdata) \<Rightarrow>
          if len0 = 0 then (0, h)
          else let free_len = tuya_ring_buff_free_size_get (Some rb);
                   len = GET_MIN free_len len0
          in if len = 0 then (0, h)
          else let tmp_len = GET_MIN (rb_len rb - rb_in rb) len;
                   rb1 = rb\<lparr>rb_buff := memcpy_at (rb_buff rb) (unat (rb_in rb)) pdata (unat tmp_len),
                            rb_in := rb_in rb + tmp_len\<rparr>;
                   len1 = len - tmp_len;
                   rb2 = (if len1 > 0
                          then rb1\<lparr>rb_buff := memcpy_at (rb_buff rb1) 0
                                                (drop (unat tmp_len) pdata) (unat len1),
                                   rb_in := len1\<rparr>
                          else rb1);
                   rb3 = (if rb_in rb2 \<ge> rb_len rb2 then rb2\<lparr>rb_in := 0\<rparr> else rb2)
          in (tmp_len + len1, Some rb3)
      | _ \<Rightarrow> (0, h))"

text \<open>Reading returns the updated output buffer as well.\<close>

definition tuya_ring_buff_read ::
  "ringbuff option \<Rightarrow> byte_ptr \<Rightarrow> u32 \<Rightarrow> u32 \<times> byte_ptr \<times> ringbuff option" where
  "tuya_ring_buff_read h data len0 =
     (case (h, data) of
        (Some rb, Some pdata) \<Rightarrow>
          if len0 = 0 then (0, data, h)
          else let used_len = tuya_ring_buff_used_size_get (Some rb);
                   len = GET_MIN used_len len0
          in if len = 0 then (0, data, h)
          else let tmp_len = GET_MIN (rb_len rb - rb_out rb) len;
                   pdata1 = memcpy_at pdata 0 (drop (unat (rb_out rb)) (rb_buff rb)) (unat tmp_len);
                   rb1 = rb\<lparr>rb_out := rb_out rb + tmp_len\<rparr>;
                   len1 = len - tmp_len;
                   (pdata2, rb2) =
                     (if len1 > 0
                      then (memcpy_at pdata1 (unat tmp_len) (rb_buff rb1) (unat len1),
                            rb1\<lparr>rb_out := len1\<rparr>)
                      else (pdata1, rb1));
                   rb3 = (if rb_out rb2 \<ge> rb_len rb2 then rb2\<lparr>rb_out := 0\<rparr> else rb2)
          in (tmp_len + len1, Some pdata2, Some rb3)
      | _ \<Rightarrow> (0, data, h))"

definition tuya_ring_buff_discard :: "ringbuff option \<Rightarrow> u32 \<Rightarrow> u32 \<times> ringbuff option" where
  "tuya_ring_buff_discard h len0 =
     (case h of None \<Rightarrow> (0, None)
      | Some rb \<Rightarrow>
          if len0 = 0 then (0, h)
          else let used_len = tuya_ring_buff_used_size_get (Some rb);
                   len = GET_MIN used_len len0
          in if len = 0 then (0, h)
          else let tmp_len = GET_MIN (rb_len rb - rb_out rb) len;
                   rb1 = rb\<lparr>rb_out := rb_out rb + tmp_len\<rparr>;
                   len1 = len - tmp_len;
                   rb2 = (if len1 > 0 then rb1\<lparr>rb_out := len1\<rparr> else rb1);
                   rb3 = (if rb_out rb2 \<ge> rb_len rb2 then rb2\<lparr>rb_out := 0\<rparr> else rb2)
          in (tmp_len + len1, Some rb3))"

definition tuya_ring_buff_peek :: "ringbuff option \<Rightarrow> byte_ptr \<Rightarrow> u32 \<Rightarrow> u32 \<times> byte_ptr" where
  "tuya_ring_buff_peek h data len0 =
     (case (h, data) of
        (Some rb, Some pdata) \<Rightarrow>
          if len0 = 0 then (0, data)
          else let used_len = tuya_ring_buff_used_size_get (Some rb);
                   len = GET_MIN len0 used_len
          in if len = 0 then (0, data)
          else let tmp_len = GET_MIN (rb_len rb - rb_out rb) len;
                   pdata1 = memcpy_at pdata 0 (drop (unat (rb_out rb)) (rb_buff rb)) (unat tmp_len);
                   len1 = len - tmp_len;
                   pdata2 = (if len1 > 0
                             then memcpy_at pdata1 (unat tmp_len) (rb_buff rb) (unat len1)
                             else pdata1)
          in (tmp_len + len1, Some pdata2)
      | _ \<Rightarrow> (0, data))"

section \<open>Invariant and abstraction\<close>

definition rb_inv :: "ringbuff \<Rightarrow> bool" where
  "rb_inv rb \<longleftrightarrow> rb_in rb < rb_len rb \<and> rb_out rb < rb_len rb
      \<and> length (rb_buff rb) = unat (rb_len rb)"

definition rb_contents :: "ringbuff \<Rightarrow> bytes" where
  "rb_contents rb =
     (let i = unat (rb_in rb); j = unat (rb_out rb)
      in if j \<le> i then take (i - j) (drop j (rb_buff rb))
         else drop j (rb_buff rb) @ take i (rb_buff rb))"

definition rb_capacity :: "ringbuff \<Rightarrow> nat" where
  "rb_capacity rb = unat (rb_len rb) - 1"

section \<open>Sizes\<close>

lemma unat_GET_MIN [simp]: "unat (GET_MIN x y) = min (unat x) (unat y)"
  by (auto simp: GET_MIN_def word_nat)

lemma rb_inv_nat:
  "rb_inv rb \<longleftrightarrow> unat (rb_in rb) < unat (rb_len rb) \<and> unat (rb_out rb) < unat (rb_len rb)
      \<and> length (rb_buff rb) = unat (rb_len rb)"
  by (simp add: rb_inv_def word_nat)

lemma length_rb_contents:
  assumes "rb_inv rb"
  shows "length (rb_contents rb) =
    (if unat (rb_out rb) \<le> unat (rb_in rb) then unat (rb_in rb) - unat (rb_out rb)
     else unat (rb_len rb) - unat (rb_out rb) + unat (rb_in rb))"
  using assms by (auto simp: rb_contents_def rb_inv_nat Let_def)

lemma rb_contents_bound: "rb_inv rb \<Longrightarrow> length (rb_contents rb) \<le> rb_capacity rb"
  by (auto simp: length_rb_contents rb_capacity_def rb_inv_nat)

lemma rb_used_size:
  assumes "rb_inv rb"
  shows "unat (tuya_ring_buff_used_size_get (Some rb)) = length (rb_contents rb)"
  using assms
  by (auto simp: tuya_ring_buff_used_size_get_def length_rb_contents rb_inv_nat word_nat word_eq_unat)

lemma rb_free_size:
  assumes "rb_inv rb"
  shows "unat (tuya_ring_buff_free_size_get (Some rb)) = rb_capacity rb - length (rb_contents rb)"
  using assms
  by (auto simp: tuya_ring_buff_free_size_get_def length_rb_contents rb_inv_nat rb_capacity_def
      word_nat word_eq_unat Let_def)

section \<open>Slices of the storage\<close>

definition ring_slice :: "'a list \<Rightarrow> nat \<Rightarrow> nat \<Rightarrow> 'a list" where
  "ring_slice buf j i = (if j \<le> i then take (i - j) (drop j buf) else drop j buf @ take i buf)"

lemma rb_contents_slice: "rb_contents rb = ring_slice (rb_buff rb) (unat (rb_out rb)) (unat (rb_in rb))"
  by (simp add: rb_contents_def ring_slice_def Let_def)

lemma length_ring_slice:
  "i < length buf \<Longrightarrow> j < length buf \<Longrightarrow>
    length (ring_slice buf j i) = (if j \<le> i then i - j else length buf - j + i)"
  by (auto simp: ring_slice_def)

lemma ring_slice_write_straight:
  assumes "n \<le> length src" "i + n \<le> length buf" "j \<le> i \<or> i + n < j"
  shows "ring_slice (memcpy_at buf i src n) j (i + n) = ring_slice buf j i @ take n src"
  using assms by (auto simp: ring_slice_def memcpy_at_def drop_take)

lemma ring_slice_write_end:
  assumes "n \<le> length src" "i + n = length buf" "0 < j" "j \<le> i"
  shows "ring_slice (memcpy_at buf i src n) j 0 = ring_slice buf j i @ take n src"
  using assms by (simp add: ring_slice_def memcpy_at_def drop_take)

lemma ring_slice_write_wrap:
  assumes "t = length buf - i" "i < length buf" "t + k \<le> length src" "k < j" "j \<le> i"
  shows "ring_slice (memcpy_at (memcpy_at buf i src t) 0 (drop t src) k) j k
       = ring_slice buf j i @ take (t + k) src"
  unfolding take_add using assms by (simp add: ring_slice_def memcpy_at_def drop_take)

lemma ring_slice_read_straight:
  assumes n: "n \<le> length (ring_slice buf j i)" and "i < length buf" "j < length buf" "j + n < length buf"
  shows "ring_slice buf (j + n) i = drop n (ring_slice buf j i)"
    and "take n (drop j buf) = take n (ring_slice buf j i)"
proof -
  have n': "n \<le> (if j \<le> i then i - j else length buf - j + i)"
    using n assms(2,3) by (simp only: length_ring_slice)
  show "ring_slice buf (j + n) i = drop n (ring_slice buf j i)"
    using n' assms(2-4) by (auto simp: ring_slice_def drop_take add.commute)
  show "take n (drop j buf) = take n (ring_slice buf j i)"
    using n' assms(2-4) by (auto simp: ring_slice_def)
qed

lemma ring_slice_read_wrap:
  assumes "t = length buf - j" "j < length buf" "i < j" "k \<le> i"
  shows "ring_slice buf k i = drop (t + k) (ring_slice buf j i)"
    and "take t (drop j buf) @ take k buf = take (t + k) (ring_slice buf j i)"
  using assms by (auto simp: ring_slice_def drop_take)

section \<open>Writing\<close>

text \<open>The state a write of \<open>len\<close> bytes that fit leaves behind.\<close>

definition rb_store :: "ringbuff \<Rightarrow> bytes \<Rightarrow> u32 \<Rightarrow> ringbuff" where
  "rb_store rb pdata len =
     (let tmp_len = GET_MIN (rb_len rb - rb_in rb) len;
          rb1 = rb\<lparr>rb_buff := memcpy_at (rb_buff rb) (unat (rb_in rb)) pdata (unat tmp_len), rb_in := rb_in rb + tmp_len\<rparr>;
          rb2 = (if len - tmp_len > 0
                 then rb1\<lparr>rb_buff := memcpy_at (rb_buff rb1) 0 (drop (unat tmp_len) pdata) (unat (len - tmp_len)), rb_in := len - tmp_len\<rparr>
                 else rb1)
      in if rb_in rb2 \<ge> rb_len rb2 then rb2\<lparr>rb_in := 0\<rparr> else rb2)"

lemma rb_store_fields [simp]:
  "rb_len (rb_store rb pdata len) = rb_len rb" "rb_type (rb_store rb pdata len) = rb_type rb"
  by (auto simp: rb_store_def Let_def)

lemma rb_store_spec:
  assumes inv: "rb_inv rb" and n: "unat len = n" "0 < n" and room: "n \<le> rb_capacity rb - length (rb_contents rb)"
    and src: "n \<le> length pdata"
  shows "rb_inv (rb_store rb pdata len) \<and> rb_contents (rb_store rb pdata len) = rb_contents rb @ take n pdata"
proof -
  define L i j where "L = unat (rb_len rb)" and "i = unat (rb_in rb)" and "j = unat (rb_out rb)"
  define tmp where "tmp = GET_MIN (rb_len rb - rb_in rb) len"
  have bnd: "i < L" "j < L" "length (rb_buff rb) = L" "L < 2 ^ 32"
    using inv by (simp_all add: rb_inv_nat L_def i_def j_def)
  have utmp: "unat tmp = min (L - i) n" using bnd n by (simp add: tmp_def word_nat L_def i_def)
  have ulen1: "unat (len - tmp) = n - min (L - i) n" using utmp n by (simp add: word_nat)
  have uin: "unat (rb_in rb + tmp) = i + min (L - i) n" using bnd utmp by (simp add: word_nat i_def)
  have room: "n \<le> L - 1 - length (rb_contents rb)" using room by (simp add: rb_capacity_def L_def)
  have clen: "length (rb_contents rb) = (if j \<le> i then i - j else L - j + i)"
    using inv by (simp add: length_rb_contents i_def j_def L_def)
  note defs = rb_store_def Let_def word_nat
  note nats = rb_contents_slice rb_inv_nat i_def [symmetric] j_def [symmetric] L_def [symmetric]
  consider (straight) "i + n < L" | (full) "i + n = L" | (wrap) "L < i + n" by linarith
  then show ?thesis
  proof cases
    case straight
    then have "rb_store rb pdata len = rb\<lparr>rb_buff := memcpy_at (rb_buff rb) i pdata n, rb_in := rb_in rb + tmp\<rparr>"
      using bnd utmp ulen1 uin by (simp add: defs tmp_def [symmetric] L_def [symmetric] i_def [symmetric])
    moreover have "ring_slice (memcpy_at (rb_buff rb) i pdata n) j (i + n) = ring_slice (rb_buff rb) j i @ take n pdata"
      using straight room clen src bnd by (intro ring_slice_write_straight) (auto split: if_splits)
    ultimately show ?thesis using straight bnd utmp uin src by (simp add: nats)
  next
    case full
    then have "min (L - i) n = n" by simp
    with full have "rb_store rb pdata len = rb\<lparr>rb_buff := memcpy_at (rb_buff rb) i pdata n, rb_in := 0\<rparr>"
      using bnd utmp ulen1 uin by (simp add: defs tmp_def [symmetric] L_def [symmetric] i_def [symmetric])
    moreover have "ring_slice (memcpy_at (rb_buff rb) i pdata n) j 0 = ring_slice (rb_buff rb) j i @ take n pdata"
      using full room clen src bnd by (intro ring_slice_write_end) (auto split: if_splits)
    ultimately show ?thesis using full bnd src by (simp add: nats)
  next
    case wrap
    define k where "k = n - (L - i)"
    have k: "k < j" "j \<le> i" "0 < k" using wrap room clen bnd by (auto simp: k_def split: if_splits)
    then have "rb_store rb pdata len =
        rb\<lparr>rb_buff := memcpy_at (memcpy_at (rb_buff rb) i pdata (L - i)) 0 (drop (L - i) pdata) k, rb_in := len - tmp\<rparr>"
      using wrap bnd utmp ulen1 by (simp add: defs tmp_def [symmetric] L_def [symmetric] i_def [symmetric] k_def)
    moreover have "ring_slice (memcpy_at (memcpy_at (rb_buff rb) i pdata (L - i)) 0 (drop (L - i) pdata) k) j k
        = ring_slice (rb_buff rb) j i @ take (L - i + k) pdata"
      using wrap k src bnd by (intro ring_slice_write_wrap) (auto simp: k_def)
    ultimately show ?thesis using wrap bnd utmp ulen1 src k by (simp add: nats k_def)
  qed
qed

lemma rb_write_spec:
  assumes inv: "rb_inv rb"
    and n: "n = min (unat len0) (rb_capacity rb - length (rb_contents rb))"
    and src: "n \<le> length pdata"
  shows "\<exists>rb'. tuya_ring_buff_write (Some rb) (Some pdata) len0 = (of_nat n, Some rb')
     \<and> rb_inv rb' \<and> rb_contents rb' = rb_contents rb @ take n pdata
     \<and> rb_len rb' = rb_len rb \<and> rb_type rb' = rb_type rb"
proof -
  define len where "len = GET_MIN (tuya_ring_buff_free_size_get (Some rb)) len0"
  have ulen: "unat len = n" using n inv by (simp add: len_def rb_free_size min.commute)
  show ?thesis
  proof (cases "n = 0")
    case True
    then have "len = 0" using ulen by (simp add: unat_eq_0)
    then show ?thesis using True inv by (auto simp: tuya_ring_buff_write_def len_def Let_def)
  next
    case False
    have len0: "len \<noteq> 0" "len0 \<noteq> 0" using ulen False n by auto
    have "tuya_ring_buff_write (Some rb) (Some pdata) len0 = (len, Some (rb_store rb pdata len))"
      using len0 unfolding tuya_ring_buff_write_def Let_def rb_store_def len_def by simp
    moreover have "len = of_nat n" using ulen [symmetric] by simp
    ultimately show ?thesis using rb_store_spec [OF inv ulen _ _ src] n False by auto
  qed
qed

section \<open>Reading, peeking and discarding\<close>

text \<open>
  The three consumers compute the same clipped length and the same two pieces; the output
  position they leave is the one below, and the bytes they copy are a prefix of the contents.
\<close>

definition rb_advance :: "ringbuff \<Rightarrow> u32 \<Rightarrow> ringbuff" where
  "rb_advance rb len =
     (let tmp_len = GET_MIN (rb_len rb - rb_out rb) len;
          rb1 = rb\<lparr>rb_out := rb_out rb + tmp_len\<rparr>;
          rb2 = (if len - tmp_len > 0 then rb1\<lparr>rb_out := len - tmp_len\<rparr> else rb1)
      in if rb_out rb2 \<ge> rb_len rb2 then rb2\<lparr>rb_out := 0\<rparr> else rb2)"

definition rb_copy_out :: "ringbuff \<Rightarrow> bytes \<Rightarrow> u32 \<Rightarrow> bytes" where
  "rb_copy_out rb pdata len =
     (let tmp_len = GET_MIN (rb_len rb - rb_out rb) len;
          pdata1 = memcpy_at pdata 0 (drop (unat (rb_out rb)) (rb_buff rb)) (unat tmp_len)
      in if len - tmp_len > 0
         then memcpy_at pdata1 (unat tmp_len) (rb_buff rb) (unat (len - tmp_len))
         else pdata1)"

lemma rb_advance_spec:
  assumes inv: "rb_inv rb" and n: "unat len \<le> length (rb_contents rb)"
  shows "rb_inv (rb_advance rb len)"
    and "rb_contents (rb_advance rb len) = drop (unat len) (rb_contents rb)"
    and "rb_len (rb_advance rb len) = rb_len rb"
    and "rb_in (rb_advance rb len) = rb_in rb"
proof -
  define L i j where "L = unat (rb_len rb)" and "i = unat (rb_in rb)" and "j = unat (rb_out rb)"
  have bnd: "i < L" "j < L" "length (rb_buff rb) = L" "L < 2 ^ 32"
    using inv by (simp_all add: rb_inv_nat L_def i_def j_def)
  have clen: "unat len \<le> (if j \<le> i then i - j else L - j + i)"
    using inv n by (simp only: length_rb_contents i_def j_def L_def)
  define tmp where "tmp = GET_MIN (rb_len rb - rb_out rb) len"
  have utmp: "unat tmp = min (L - j) (unat len)" using bnd by (simp add: tmp_def word_nat L_def j_def)
  have ulen1: "unat (len - tmp) = unat len - min (L - j) (unat len)" using utmp by (simp add: word_nat)
  have uout: "unat (rb_out rb + tmp) = j + min (L - j) (unat len)"
    using bnd utmp by (simp add: word_nat j_def)
  note defs = rb_advance_def Let_def tmp_def [symmetric] word_nat L_def [symmetric]
  consider (straight) "j + unat len < L" | (full) "j + unat len = L" | (wrap) "L < j + unat len" by linarith
  then have "rb_inv (rb_advance rb len) \<and>
      rb_contents (rb_advance rb len) = drop (unat len) (rb_contents rb)"
  proof cases
    case straight
    then have r: "rb_advance rb len = rb\<lparr>rb_out := rb_out rb + tmp\<rparr>"
      using bnd utmp ulen1 uout by (simp add: defs)
    have "ring_slice (rb_buff rb) (j + unat len) i = drop (unat len) (ring_slice (rb_buff rb) j i)"
      using straight clen bnd by (intro ring_slice_read_straight) (auto simp: length_ring_slice)
    then show ?thesis using straight bnd utmp uout
      by (simp add: r rb_contents_slice rb_inv_nat i_def j_def L_def)
  next
    case full
    then have r: "rb_advance rb len = rb\<lparr>rb_out := 0\<rparr>"
      using bnd utmp ulen1 uout by (simp add: defs)
    have "ring_slice (rb_buff rb) 0 i = drop (unat len + 0) (ring_slice (rb_buff rb) j i)"
      using full clen bnd by (intro ring_slice_read_wrap) (auto split: if_splits)
    then show ?thesis using full bnd
      by (simp add: r rb_contents_slice rb_inv_nat i_def j_def L_def)
  next
    case wrap
    then have r: "rb_advance rb len = rb\<lparr>rb_out := len - tmp\<rparr>"
      using bnd utmp ulen1 clen by (auto simp: defs split: if_splits)
    have "ring_slice (rb_buff rb) (unat len - (L - j)) i
        = drop ((L - j) + (unat len - (L - j))) (ring_slice (rb_buff rb) j i)"
      using wrap clen bnd by (intro ring_slice_read_wrap) (auto split: if_splits)
    then show ?thesis using wrap bnd ulen1 clen
      by (auto simp: r rb_contents_slice rb_inv_nat i_def [symmetric] j_def [symmetric]
          L_def [symmetric] split: if_splits)
  qed
  then show "rb_inv (rb_advance rb len)"
    and "rb_contents (rb_advance rb len) = drop (unat len) (rb_contents rb)" by auto
  show "rb_len (rb_advance rb len) = rb_len rb" and "rb_in (rb_advance rb len) = rb_in rb"
    by (auto simp: rb_advance_def Let_def)
qed

lemma rb_copy_out_spec:
  assumes inv: "rb_inv rb" and n: "unat len \<le> length (rb_contents rb)"
    and dst: "unat len \<le> length pdata"
  shows "rb_copy_out rb pdata len = take (unat len) (rb_contents rb) @ drop (unat len) pdata"
proof -
  define L i j where "L = unat (rb_len rb)" and "i = unat (rb_in rb)" and "j = unat (rb_out rb)"
  have bnd: "i < L" "j < L" "length (rb_buff rb) = L"
    using inv by (simp_all add: rb_inv_nat L_def i_def j_def)
  have clen: "unat len \<le> (if j \<le> i then i - j else L - j + i)"
    using inv n by (simp only: length_rb_contents i_def j_def L_def)
  define tmp where "tmp = GET_MIN (rb_len rb - rb_out rb) len"
  have utmp: "unat tmp = min (L - j) (unat len)" using bnd by (simp add: tmp_def word_nat L_def j_def)
  have ulen1: "unat (len - tmp) = unat len - min (L - j) (unat len)" using utmp by (simp add: word_nat)
  have cs: "rb_contents rb = ring_slice (rb_buff rb) j i" by (simp add: rb_contents_slice i_def j_def)
  note defs = rb_copy_out_def Let_def tmp_def [symmetric] word_nat j_def [symmetric]
  show ?thesis
  proof (cases "unat len \<le> L - j")
    case True
    have "take (unat len) (drop j (rb_buff rb)) = take (unat len) (rb_contents rb)"
      using True clen bnd by (auto simp: cs ring_slice_def split: if_splits)
    then show ?thesis using True utmp ulen1 by (simp add: defs)
  next
    case False
    define k where "k = unat len - (L - j)"
    have k: "k \<le> i" "i < j" "unat len = (L - j) + k" "0 < k"
      using False clen bnd by (auto simp: k_def split: if_splits)
    have "take (L - j) (drop j (rb_buff rb)) @ take k (rb_buff rb) = take (unat len) (rb_contents rb)"
      unfolding cs k(3) using k(1,2) bnd by (intro ring_slice_read_wrap) auto
    moreover have "rb_copy_out rb pdata len =
        (take (L - j) (drop j (rb_buff rb)) @ take k (rb_buff rb)) @ drop (unat len) pdata"
      using False utmp ulen1 k bnd dst by (simp add: defs memcpy_at_def add.commute)
    ultimately show ?thesis by simp
  qed
qed

lemma rb_consume_len:
  assumes "rb_inv rb"
  shows "unat (GET_MIN (tuya_ring_buff_used_size_get (Some rb)) len0)
       = min (unat len0) (length (rb_contents rb))"
  using assms by (simp add: rb_used_size min.commute)

lemma rb_discard_advance:
  assumes inv: "rb_inv rb"
    and len_def: "len = GET_MIN (tuya_ring_buff_used_size_get (Some rb)) len0"
  shows "tuya_ring_buff_discard (Some rb) len0 =
    (if len = 0 then (0, Some rb) else (len, Some (rb_advance rb len)))"
proof (cases "len0 = 0")
  case True
  then have "len = 0" by (simp add: len_def GET_MIN_def)
  with True show ?thesis by (simp add: tuya_ring_buff_discard_def)
next
  case False
  then show ?thesis
    unfolding tuya_ring_buff_discard_def rb_advance_def len_def Let_def by simp
qed

lemma rb_peek_copy:
  assumes inv: "rb_inv rb"
    and len_def: "len = GET_MIN (tuya_ring_buff_used_size_get (Some rb)) len0"
  shows "tuya_ring_buff_peek (Some rb) (Some pdata) len0 =
    (if len = 0 then (0, Some pdata) else (len, Some (rb_copy_out rb pdata len)))"
proof (cases "len0 = 0")
  case True
  then have "len = 0" by (simp add: len_def GET_MIN_def)
  with True show ?thesis by (simp add: tuya_ring_buff_peek_def)
next
  case False
  have "GET_MIN len0 (tuya_ring_buff_used_size_get (Some rb)) = len"
    by (auto simp: len_def GET_MIN_def)
  with False show ?thesis
    unfolding tuya_ring_buff_peek_def rb_copy_out_def Let_def by simp
qed

lemma rb_read_peek_discard:
  assumes inv: "rb_inv rb"
  shows "tuya_ring_buff_read (Some rb) (Some pdata) len0 =
    (fst (tuya_ring_buff_peek (Some rb) (Some pdata) len0),
     snd (tuya_ring_buff_peek (Some rb) (Some pdata) len0),
     snd (tuya_ring_buff_discard (Some rb) len0))"
proof -
  define len where "len = GET_MIN (tuya_ring_buff_used_size_get (Some rb)) len0"
  have "tuya_ring_buff_read (Some rb) (Some pdata) len0 =
    (if len = 0 then (0, Some pdata, Some rb)
     else (len, Some (rb_copy_out rb pdata len), Some (rb_advance rb len)))"
  proof (cases "len0 = 0")
    case True
    then have "len = 0" by (simp add: len_def GET_MIN_def)
    with True show ?thesis by (simp add: tuya_ring_buff_read_def)
  next
    case False
    then show ?thesis
      unfolding tuya_ring_buff_read_def rb_advance_def rb_copy_out_def len_def Let_def
      by simp
  qed
  then show ?thesis
    by (simp add: rb_peek_copy [OF inv len_def] rb_discard_advance [OF inv len_def])
qed

section \<open>The ring buffer implements the byte FIFO interface\<close>

definition rb_put :: "ringbuff \<Rightarrow> bytes \<Rightarrow> nat \<times> ringbuff" where
  "rb_put rb d =
     (let (n, h) = tuya_ring_buff_write (Some rb) (Some d) (of_nat (length d)) in (unat n, the h))"

definition rb_get :: "ringbuff \<Rightarrow> nat \<Rightarrow> bytes \<times> ringbuff" where
  "rb_get rb k =
     (let (n, d, h) = tuya_ring_buff_read (Some rb) (Some (replicate k 0)) (of_nat k)
      in (take (unat n) (the d), the h))"

lemma unat_of_nat_u32: "n < 2 ^ 32 \<Longrightarrow> unat (of_nat n :: u32) = n"
  by (simp add: unat_of_nat)

lemma rb_put_spec:
  assumes inv: "rb_inv rb" and d: "length d < 2 ^ 32"
    and n: "n = min (length d) (rb_capacity rb - length (rb_contents rb))"
  shows "fst (rb_put rb d) = n"
    and "rb_inv (snd (rb_put rb d))"
    and "rb_contents (snd (rb_put rb d)) = rb_contents rb @ take n d"
    and "rb_capacity (snd (rb_put rb d)) = rb_capacity rb"
proof -
  have "n \<le> length d" and un: "unat (of_nat n :: u32) = n"
    using n d by (auto intro: unat_of_nat_u32)
  then obtain rb' where "tuya_ring_buff_write (Some rb) (Some d) (of_nat (length d)) = (of_nat n, Some rb')"
    "rb_inv rb'" "rb_contents rb' = rb_contents rb @ take n d" "rb_len rb' = rb_len rb"
    using rb_write_spec [OF inv, of n "of_nat (length d)" d] n d by (auto simp: unat_of_nat_u32)
  then show "fst (rb_put rb d) = n" "rb_inv (snd (rb_put rb d))"
    "rb_contents (snd (rb_put rb d)) = rb_contents rb @ take n d"
    "rb_capacity (snd (rb_put rb d)) = rb_capacity rb"
    using un by (simp_all add: rb_put_def rb_capacity_def)
qed

lemma rb_peek_spec:
  assumes inv: "rb_inv rb" and n: "n = min (unat len0) (length (rb_contents rb))"
    and dst: "n \<le> length pdata"
  shows "tuya_ring_buff_peek (Some rb) (Some pdata) len0 =
    (of_nat n, Some (take n (rb_contents rb) @ drop n pdata))"
proof -
  define len where "len = GET_MIN (tuya_ring_buff_used_size_get (Some rb)) len0"
  have u: "unat len = n" using inv n by (simp only: len_def rb_consume_len)
  then have "of_nat n = len" by auto
  with u show ?thesis
    using rb_copy_out_spec [OF inv, of len pdata] n dst
    by (auto simp: rb_peek_copy [OF inv len_def])
qed

lemma rb_discard_spec:
  assumes inv: "rb_inv rb" and n: "n = min (unat len0) (length (rb_contents rb))"
  shows "\<exists>rb'. tuya_ring_buff_discard (Some rb) len0 = (of_nat n, Some rb')
     \<and> rb_inv rb' \<and> rb_contents rb' = drop n (rb_contents rb) \<and> rb_len rb' = rb_len rb"
proof -
  define len where "len = GET_MIN (tuya_ring_buff_used_size_get (Some rb)) len0"
  have u: "unat len = n" using inv n by (simp only: len_def rb_consume_len)
  then have "of_nat n = len" by auto
  with u show ?thesis
    using rb_advance_spec [OF inv, of len] n inv by (auto simp: rb_discard_advance [OF inv len_def])
qed

lemma rb_read_spec:
  assumes inv: "rb_inv rb" and n: "n = min (unat len0) (length (rb_contents rb))"
    and dst: "n \<le> length pdata"
  shows "\<exists>rb'. tuya_ring_buff_read (Some rb) (Some pdata) len0 =
      (of_nat n, Some (take n (rb_contents rb) @ drop n pdata), Some rb')
     \<and> rb_inv rb' \<and> rb_contents rb' = drop n (rb_contents rb) \<and> rb_len rb' = rb_len rb"
  using rb_discard_spec [OF inv n] rb_peek_spec [OF inv n dst]
  by (auto simp: rb_read_peek_discard [OF inv])

lemma rb_get_spec:
  assumes inv: "rb_inv rb" and k: "k < 2 ^ 32"
  shows "fst (rb_get rb k) = take k (rb_contents rb)"
    and "rb_inv (snd (rb_get rb k))"
    and "rb_contents (snd (rb_get rb k)) = drop k (rb_contents rb)"
    and "rb_capacity (snd (rb_get rb k)) = rb_capacity rb"
proof -
  define n where "n = min k (length (rb_contents rb))"
  have "n \<le> length (replicate k (0::u8))" and un: "unat (of_nat n :: u32) = n"
    using k by (auto simp: n_def intro: unat_of_nat_u32)
  then obtain rb' where "tuya_ring_buff_read (Some rb) (Some (replicate k 0)) (of_nat k) =
      (of_nat n, Some (take n (rb_contents rb) @ drop n (replicate k 0)), Some rb')"
    "rb_inv rb'" "rb_contents rb' = drop n (rb_contents rb)" "rb_len rb' = rb_len rb"
    using rb_read_spec [OF inv, of n "of_nat k" "replicate k 0"] k by (auto simp: unat_of_nat_u32 n_def)
  then show "fst (rb_get rb k) = take k (rb_contents rb)" "rb_inv (snd (rb_get rb k))"
    "rb_contents (snd (rb_get rb k)) = drop k (rb_contents rb)"
    "rb_capacity (snd (rb_get rb k)) = rb_capacity rb"
    using un by (auto simp: rb_get_def rb_capacity_def n_def min_def)
qed

interpretation ring: byte_fifo rb_inv rb_contents rb_capacity rb_put rb_get "2 ^ 32"
  by unfold_locales (simp_all add: rb_contents_bound rb_put_spec rb_get_spec)

section \<open>Properties\<close>

text \<open>
  C4: Stream integrity of the ring buffer. Over any sequence of writes and reads, whatever their
  sizes, the bytes that were in the buffer followed by the bytes the writes accepted are exactly
  the bytes the reads delivered followed by the bytes still in the buffer: nothing is lost,
  duplicated, reordered or overwritten, and the buffer stays well formed and below its capacity.
\<close>

theorem ring_buff_stream:
  assumes "rb_inv rb" and "list_all (fifo_op_ok (2 ^ 32)) ops"
    and "fifo_run rb_put rb_get rb ops = (accepted, delivered, rb')"
  shows "rb_inv rb' \<and> rb_contents rb @ accepted = delivered @ rb_contents rb'
    \<and> length (rb_contents rb') \<le> unat (rb_len rb) - 1"
  using ring.stream [OF assms] ring.bounded [of rb'] by (auto simp: rb_capacity_def)

definition rb_example :: ringbuff where
  "rb_example = \<lparr>rb_type = OVERFLOW_STOP_TYPE, rb_in = 1, rb_out = 2, rb_len = 4, rb_buff = [1, 2, 3, 4]\<rparr>"

lemma rb_example_inv: "rb_inv rb_example"
  by (simp add: rb_inv_def rb_example_def)

theorem ring_buff_stream_witness:
  "fifo_run rb_put rb_get rb_example [Get 2, Put [7, 8, 9], Get 3] =
     ([7, 8], [3, 4, 1, 7, 8], rb_example\<lparr>rb_in := 3, rb_out := 3, rb_buff := [1, 7, 8, 4]\<rparr>)
   \<and> rb_inv (rb_example\<lparr>rb_in := 3, rb_out := 3, rb_buff := [1, 7, 8, 4]\<rparr>)"
proof -
  have run: "fifo_run rb_put rb_get rb_example [Get 2, Put [7, 8, 9], Get 3] =
     ([7, 8], [3, 4, 1, 7, 8], rb_example\<lparr>rb_in := 3, rb_out := 3, rb_buff := [1, 7, 8, 4]\<rparr>)"
    by code_simp
  show ?thesis using ring_buff_stream [OF rb_example_inv _ run] run by simp
qed

text \<open>
  A write into a well-formed buffer appends the longest prefix of the data that fits, returns
  its length, keeps the buffer well formed and changes neither its length nor its type; the buffer
  holds at most one byte less than its length.
\<close>

theorem ring_buff_write_appends:
  assumes "rb_inv rb" and "n = min (unat len) (unat (rb_len rb) - 1 - length (rb_contents rb))"
    and "n \<le> length data"
  obtains rb' where "tuya_ring_buff_write (Some rb) (Some data) len = (of_nat n, Some rb')"
    and "rb_inv rb'" and "rb_contents rb' = rb_contents rb @ take n data"
    and "rb_len rb' = rb_len rb" and "rb_type rb' = rb_type rb"
  using rb_write_spec [OF assms(1), of n len data] assms by (auto simp: rb_capacity_def)

theorem ring_buff_write_appends_witness:
  "\<exists>rb'. tuya_ring_buff_write (Some rb_example) (Some [9, 9]) 2 = (of_nat 0, Some rb')
     \<and> rb_contents rb' = rb_contents rb_example @ take 0 [9, 9] \<and> rb_contents rb_example = [3, 4, 1]"
proof -
  have c: "rb_contents rb_example = [3, 4, 1]" by code_simp
  have n: "(0::nat) = min (unat (2 :: u32)) (unat (rb_len rb_example) - 1 - length (rb_contents rb_example))"
    unfolding c by (simp add: rb_example_def)
  obtain rb' where "tuya_ring_buff_write (Some rb_example) (Some [9, 9]) 2 = (of_nat 0, Some rb')"
    "rb_contents rb' = rb_contents rb_example @ take 0 [9, 9]"
    by (rule ring_buff_write_appends [OF rb_example_inv n, of "[9, 9]"]) auto
  with c show ?thesis by blast
qed

text \<open>
  A read copies the oldest bytes, in order and at most as many as asked for and as there are,
  to the front of the output buffer, leaves the rest of the output buffer alone and removes exactly
  those bytes; a peek copies the same bytes and a discard removes the same bytes.
\<close>

theorem ring_buff_read_consumes:
  assumes "rb_inv rb" and "n = min (unat len) (length (rb_contents rb))" and "n \<le> length data"
  shows "\<exists>rb'. tuya_ring_buff_read (Some rb) (Some data) len =
            (of_nat n, Some (take n (rb_contents rb) @ drop n data), Some rb')
          \<and> tuya_ring_buff_peek (Some rb) (Some data) len =
            (of_nat n, Some (take n (rb_contents rb) @ drop n data))
          \<and> tuya_ring_buff_discard (Some rb) len = (of_nat n, Some rb')
          \<and> rb_inv rb' \<and> rb_contents rb' = drop n (rb_contents rb) \<and> rb_len rb' = rb_len rb"
  using rb_discard_spec [OF assms(1,2)] rb_peek_spec [OF assms] rb_read_peek_discard [OF assms(1), of data len]
  by auto

theorem ring_buff_read_consumes_witness:
  "\<exists>rb'. tuya_ring_buff_read (Some rb_example) (Some [0, 0, 0, 5]) 2 = (2, Some [3, 4, 0, 5], Some rb')
     \<and> rb_contents rb' = [1]"
proof -
  have c: "rb_contents rb_example = [3, 4, 1]" by code_simp
  have n: "(2::nat) = min (unat (2 :: u32)) (length (rb_contents rb_example))" by (simp add: c)
  show ?thesis using ring_buff_read_consumes [OF rb_example_inv n, of "[0, 0, 0, 5]"] by (auto simp: c)
qed

text \<open>
  A buffer created with room for \<open>len\<close> bytes is empty and well formed, and what is then
  written to it, up to \<open>len - 1\<close> bytes, is what the next read returns, leaving it empty.
\<close>

theorem ring_buff_create_roundtrip:
  assumes "ringbuff_malloc (RINGBUFF_SIZE + unat len) = Some blk"
    and "length blk = RINGBUFF_SIZE + unat len" and "len \<noteq> 0"
    and "length d < unat len"
  shows "\<exists>rb rb' rb''. tuya_ring_buff_create ringbuff_malloc len OVERFLOW_STOP_TYPE True = (OPRT_OK, Some rb)
     \<and> tuya_ring_buff_write (Some rb) (Some d) (of_nat (length d)) = (of_nat (length d), Some rb')
     \<and> tuya_ring_buff_read (Some rb') (Some (replicate (length d) 0)) (of_nat (length d))
         = (of_nat (length d), Some d, Some rb'') \<and> rb_contents rb'' = []"
proof -
  have ln: "unat len < 2 ^ 32" by simp
  have ud: "unat (of_nat (length d) :: u32) = length d" using assms(4) ln by (intro unat_of_nat_u32) linarith
  define rb where "rb = ringbuff_init
    \<lparr>rb_type = OVERFLOW_STOP_TYPE, rb_in = 0, rb_out = 0, rb_len = 0, rb_buff = drop RINGBUFF_SIZE blk\<rparr> len"
  have inv: "rb_inv rb" and c: "rb_contents rb = []" and l: "rb_len rb = len"
    using assms by (auto simp: rb_def ringbuff_init_def rb_inv_nat rb_contents_def unat_pos_iff)
  have cr: "tuya_ring_buff_create ringbuff_malloc len OVERFLOW_STOP_TYPE True = (OPRT_OK, Some rb)"
    using assms by (simp add: tuya_ring_buff_create_def rb_def)
  obtain rb' where w: "tuya_ring_buff_write (Some rb) (Some d) (of_nat (length d)) = (of_nat (length d), Some rb')"
    "rb_inv rb'" "rb_contents rb' = d"
    using rb_write_spec [OF inv, of "length d" "of_nat (length d)" d] assms(4) ud
    by (auto simp: c l rb_capacity_def)
  obtain rb'' where "tuya_ring_buff_read (Some rb') (Some (replicate (length d) 0)) (of_nat (length d))
      = (of_nat (length d), Some d, Some rb'')" "rb_contents rb'' = []"
    using rb_read_spec [OF w(2), of "length d" "of_nat (length d)" "replicate (length d) 0"] ud
    by (auto simp: w(3))
  with cr w(1) show ?thesis by blast
qed

theorem ring_buff_create_roundtrip_witness:
  "\<exists>rb rb' rb''. tuya_ring_buff_create (\<lambda>n. Some (replicate n 0)) 3 OVERFLOW_STOP_TYPE True = (OPRT_OK, Some rb)
     \<and> tuya_ring_buff_write (Some rb) (Some [5, 6]) (of_nat (length [5 :: u8, 6])) = (of_nat (length [5 :: u8, 6]), Some rb')
     \<and> tuya_ring_buff_read (Some rb') (Some (replicate (length [5 :: u8, 6]) 0)) (of_nat (length [5 :: u8, 6]))
         = (of_nat (length [5 :: u8, 6]), Some [5, 6], Some rb'') \<and> rb_contents rb'' = []"
  by (rule ring_buff_create_roundtrip [where blk = "replicate 23 0"]) (simp_all add: RINGBUFF_SIZE_def)

end
