(* ===== verification/Byte_Memory.thy ===== *)
theory Byte_Memory
  imports Tuya_Prelude
begin

text \<open>
  Byte-addressed memory of a 64-bit little-endian Linux target (the configuration of
  \<open>default.config\<close>): a map from addresses to bytes, the 64-bit loads and stores the compiled code
  performs, \<open>memcpy\<close> and \<open>memset\<close>, and unsigned 64-bit arithmetic on natural numbers with its
  wrap-around written out.
\<close>

type_synonym memory = "nat \<Rightarrow> u8"

definition two64 :: nat where
  "two64 = 18446744073709551616"

definition add64 :: "nat \<Rightarrow> nat \<Rightarrow> nat" where
  "add64 a b = (a + b) mod two64"

definition sub64 :: "nat \<Rightarrow> nat \<Rightarrow> nat" where
  "sub64 a b = (a + two64 - b) mod two64"

lemma add64_small [simp]: "a + b < two64 \<Longrightarrow> add64 a b = a + b"
  by (simp add: add64_def)

lemma sub64_ge [simp]: "b \<le> a \<Longrightarrow> a < two64 \<Longrightarrow> sub64 a b = a - b"
proof -
  assume "b \<le> a" "a < two64"
  then have "a + two64 - b = (a - b) + two64" and "a - b < two64" by linarith+
  then show ?thesis by (simp only: sub64_def mod_add_self2 mod_less)
qed

lemma add64_less [simp]: "add64 a b < two64"
  by (simp add: add64_def two64_def)

lemma sub64_less [simp]: "sub64 a b < two64"
  by (simp add: sub64_def two64_def)

lemma two64_pos [simp]: "0 < two64"
  by (simp add: two64_def)

section \<open>Loads and stores\<close>

fun le_value :: "bytes \<Rightarrow> nat" where
  "le_value [] = 0"
| "le_value (b # bs) = unat b + 256 * le_value bs"

definition ld64 :: "memory \<Rightarrow> nat \<Rightarrow> nat" where
  "ld64 m a = le_value (map m [a, a + 1, a + 2, a + 3, a + 4, a + 5, a + 6, a + 7])"

definition st64 :: "memory \<Rightarrow> nat \<Rightarrow> nat \<Rightarrow> memory" where
  "st64 m a v = (\<lambda>x. if a \<le> x \<and> x < a + 8 then of_nat (v div 256 ^ (x - a)) else m x)"

definition mem_copy :: "memory \<Rightarrow> nat \<Rightarrow> nat \<Rightarrow> nat \<Rightarrow> memory" where
  "mem_copy m dst src n = (\<lambda>x. if dst \<le> x \<and> x < dst + n then m (src + (x - dst)) else m x)"

definition mem_set :: "memory \<Rightarrow> nat \<Rightarrow> u8 \<Rightarrow> nat \<Rightarrow> memory" where
  "mem_set m dst v n = (\<lambda>x. if dst \<le> x \<and> x < dst + n then v else m x)"

lemma le_value_bound: "le_value bs < 256 ^ length bs"
proof (induction bs)
  case (Cons b bs)
  have "unat b \<le> 255" using unat_u8_less [of b] by linarith
  with Cons show ?case by simp
qed simp

lemma ld64_less [simp]: "ld64 m a < two64"
  using le_value_bound [of "map m [a, a + 1, a + 2, a + 3, a + 4, a + 5, a + 6, a + 7]"]
  by (simp add: ld64_def two64_def)

lemma ld64_cong: "(\<And>x. a \<le> x \<Longrightarrow> x < a + 8 \<Longrightarrow> m x = m' x) \<Longrightarrow> ld64 m a = ld64 m' a"
  by (simp add: ld64_def)

lemma st64_other [simp]: "x < a \<or> a + 8 \<le> x \<Longrightarrow> st64 m a v x = m x"
  by (auto simp: st64_def)

lemma ld64_st64_other [simp]: "b + 8 \<le> a \<or> a + 8 \<le> b \<Longrightarrow> ld64 (st64 m a v) b = ld64 m b"
  by (rule ld64_cong) auto

lemma unat_of_nat_u8: "unat (of_nat n :: u8) = n mod 256"
  by (simp add: unat_of_nat take_bit_eq_mod)

lemma le_digits: "n mod 256 + 256 * (n div 256 mod 256 ^ k) = n mod 256 ^ Suc k" for n :: nat
  by (simp add: mod_mult2_eq mult.commute)

lemma le_value_digits: "le_value (map (\<lambda>i. of_nat (v div 256 ^ i)) [0..<k]) = v mod 256 ^ k"
proof (induction k arbitrary: v)
  case (Suc k)
  have "map (\<lambda>i. of_nat (v div 256 ^ i) :: u8) [0..<Suc k]
      = of_nat v # map (\<lambda>i. of_nat (v div 256 div 256 ^ i)) [0..<k]"
    by (simp add: upt_conv_Cons map_Suc_upt [symmetric] div_mult2_eq [symmetric] del: upt_Suc)
  then show ?case using Suc [of "v div 256"] by (simp add: unat_of_nat_u8 le_digits del: upt_Suc)
qed simp

lemma ld64_st64_same [simp]: "v < two64 \<Longrightarrow> ld64 (st64 m a v) a = v"
proof -
  assume v: "v < two64"
  have eight: "[0..<8] = [0, 1, 2, 3, 4, 5, 6, 7 :: nat]" by (simp add: upt_conv_Cons)
  have "ld64 (st64 m a v) a = le_value (map (\<lambda>i. of_nat (v div 256 ^ i)) [0..<8])"
    unfolding eight by (simp add: ld64_def st64_def)
  also have "\<dots> = v" using v by (subst le_value_digits) (simp add: two64_def)
  finally show ?thesis .
qed

lemma mem_set_other [simp]: "x < a \<or> a + n \<le> x \<Longrightarrow> mem_set m a v n x = m x"
  by (auto simp: mem_set_def)

lemma mem_copy_other [simp]: "x < a \<or> a + n \<le> x \<Longrightarrow> mem_copy m a b n x = m x"
  by (auto simp: mem_copy_def)

end
