(* ===== verification/Tuya_Mem_Heap.thy ===== *)
theory Tuya_Mem_Heap
  imports Byte_Memory
begin

text \<open>
  The heap manager of \<open>include/utilities/src/tuya_mem_heap.c\<close>, translated function by function
  over byte memory. A block is a 64-bit size word, in a free block followed by the 64-bit link to
  the next free block, and ends with a one-byte state tag (the \<open>dog\<close>); user data of a used block
  starts where the link of a free block is. Addresses and sizes are natural numbers below \<open>2^64\<close>
  with the wrap-around of \<open>unsigned long\<close> written out. A heap handle is an index into
  \<open>mem_heap_list\<close>, \<open>None\<close> being the null handle. Loops over the free list and over the blocks
  are partial functions: \<open>None\<close> means that the loop does not end.
  Calls through the context's function pointers are recorded as events.
  The configuration is the Linux one: \<open>MEM_ALIGN_NUM = 8\<close>, 64-bit pointers, assertions and
  free-fill off, the anti-fragmentation search on, as the file's own settings say.
\<close>

section \<open>State\<close>

definition MEM_ALIGN_NUM :: nat where "MEM_ALIGN_NUM = 8"
definition MEM_BLOCK_MIN_SIZE :: nat where "MEM_BLOCK_MIN_SIZE = 24"
definition FIT_FIND_DEPTH :: nat where "FIT_FIND_DEPTH = 3"
definition MEM_BLOCK_HEAD_SIZE :: nat where "MEM_BLOCK_HEAD_SIZE = 8"
definition MEM_HEAP_MIN_SIZE :: nat where "MEM_HEAP_MIN_SIZE = MEM_BLOCK_MIN_SIZE + MEM_BLOCK_HEAD_SIZE"
definition MEM_BLOCK_STAT_USE :: u8 where "MEM_BLOCK_STAT_USE = 0x55"
definition MEM_BLOCK_STAT_FREE :: u8 where "MEM_BLOCK_STAT_FREE = 0xaa"
definition MEM_HEAP_LIST_NUM :: nat where "MEM_HEAP_LIST_NUM = 4"
definition MEM_DBG_LEAK_MAGIC :: nat where "MEM_DBG_LEAK_MAGIC = 0x13572468"

text \<open>\<open>sizeof(MEM_DbgLeak_t)\<close>: a pointer, a \<open>long\<close> and two \<open>unsigned long\<close>.\<close>

definition MEM_DBG_LEAK_SIZE :: nat where "MEM_DBG_LEAK_SIZE = 32"

record MEM_Heap_t =
  hp_free_list :: nat
  hp_base :: nat
  hp_size :: nat
  hp_free :: nat
  hp_free_watermark :: nat

record MEM_HeapStatus_t =
  st_size :: nat
  st_free :: nat
  st_free_largest :: nat
  st_valid :: nat
  st_used_block :: nat
  st_free_block :: nat

record heap_state_t =
  total_size :: nat
  free_size :: nat
  free_watermark :: nat
  max_free_block_size :: nat

text \<open>The three function pointers of the context; 0 is NULL.\<close>

record heap_context_t =
  enter_critical :: nat
  exit_critical :: nat
  dbg_output :: nat

datatype heap_msg =
    MsgHeapInit nat nat
  | MsgCreateParams
  | MsgDeleteParams
  | MsgDogTag nat nat
  | MsgMightBeFreed nat
  | MsgReallocDogTag nat nat
  | MsgMemUse nat nat nat nat
  | MsgStatusError nat nat nat
  | MsgDamaged
  | MsgStatus MEM_HeapStatus_t

datatype heap_event = EnterCritical | ExitCritical | DbgOutput heap_msg

record heap_sys =
  hs_mem :: memory
  hs_heaps :: "MEM_Heap_t list"
  hs_free_size :: nat
  hs_free_watermark :: nat
  hs_ctx :: heap_context_t
  hs_events :: "heap_event list"

type_synonym heap_handle = "nat option"

definition hs_event :: "heap_event \<Rightarrow> heap_sys \<Rightarrow> heap_sys" where
  "hs_event e s = s\<lparr>hs_events := hs_events s @ [e]\<rparr>"

definition hs_heap :: "heap_sys \<Rightarrow> nat \<Rightarrow> MEM_Heap_t" where
  "hs_heap s i = hs_heaps s ! i"

definition hs_set_heap :: "nat \<Rightarrow> MEM_Heap_t \<Rightarrow> heap_sys \<Rightarrow> heap_sys" where
  "hs_set_heap i h s = s\<lparr>hs_heaps := (hs_heaps s)[i := h]\<rparr>"

section \<open>Blocks\<close>

definition ALIGN_UP :: "nat \<Rightarrow> nat" where
  "ALIGN_UP x = unat ((of_nat x + of_nat (MEM_ALIGN_NUM - 1)) AND NOT (of_nat (MEM_ALIGN_NUM - 1)) :: u64)"

definition ALIGN_DOWN :: "nat \<Rightarrow> nat" where
  "ALIGN_DOWN x = unat (of_nat x AND NOT (of_nat (MEM_ALIGN_NUM - 1)) :: u64)"

definition blk_size :: "memory \<Rightarrow> nat \<Rightarrow> nat" where
  "blk_size m b = ld64 m b"

definition blk_next :: "memory \<Rightarrow> nat \<Rightarrow> nat" where
  "blk_next m b = ld64 m (b + 8)"

definition set_blk_size :: "memory \<Rightarrow> nat \<Rightarrow> nat \<Rightarrow> memory" where
  "set_blk_size m b n = st64 m b n"

definition set_blk_next :: "memory \<Rightarrow> nat \<Rightarrow> nat \<Rightarrow> memory" where
  "set_blk_next m b n = st64 m (b + 8) n"

definition MEM_DOG_ADDR :: "memory \<Rightarrow> nat \<Rightarrow> nat" where
  "MEM_DOG_ADDR m b = sub64 (add64 b (blk_size m b)) 1"

definition MEM_LEAK_DBG_ADDR :: "memory \<Rightarrow> nat \<Rightarrow> nat" where
  "MEM_LEAK_DBG_ADDR m b = sub64 (sub64 (add64 b (blk_size m b)) MEM_DBG_LEAK_SIZE) MEM_ALIGN_NUM"

definition set_dog :: "memory \<Rightarrow> nat \<Rightarrow> u8 \<Rightarrow> memory" where
  "set_dog m b v = m(MEM_DOG_ADDR m b := v)"

section \<open>Creation and deletion\<close>

definition mem_heap_init :: "heap_sys \<Rightarrow> nat \<Rightarrow> nat \<Rightarrow> nat \<Rightarrow> int \<times> heap_sys" where
  "mem_heap_init s i ptr sz =
     (let h = (hs_heap s i)\<lparr>hp_base := ptr, hp_size := sz\<rparr>;
          ptr' = ALIGN_UP ptr;
          sz' = ALIGN_DOWN (sub64 sz (sub64 ptr' ptr))
      in if sz' < MEM_HEAP_MIN_SIZE then (-1, hs_set_heap i h s)
         else let m1 = set_blk_next (hs_mem s) ptr' 0;
                  m2 = set_blk_size m1 ptr' sz';
                  m3 = set_dog m2 ptr' MEM_BLOCK_STAT_FREE;
                  fs = add64 (hs_free_size s) sz'
         in (0, (hs_set_heap i
                   (h\<lparr>hp_free_list := ptr', hp_free := sz', hp_free_watermark := sz'\<rparr>) s)
                 \<lparr>hs_mem := m3, hs_free_size := fs, hs_free_watermark := fs\<rparr>))"

text \<open>The first unused slot of \<open>mem_heap_list\<close>, \<open>MEM_HEAP_LIST_NUM\<close> if there is none.\<close>

definition find_free_slot :: "MEM_Heap_t list \<Rightarrow> nat" where
  "find_free_slot hs = length (takeWhile (\<lambda>h. hp_size h \<noteq> 0) (take MEM_HEAP_LIST_NUM hs))"

definition MEM_HeapCreate :: "heap_sys \<Rightarrow> nat \<Rightarrow> nat \<Rightarrow> heap_handle \<times> heap_sys" where
  "MEM_HeapCreate s ptr sz =
     (if ptr = 0 \<or> sz = 0 then (None, hs_event (DbgOutput MsgCreateParams) s)
      else let s1 = hs_event EnterCritical s;
               i = find_free_slot (hs_heaps s1);
               (hdl, s2) =
                 (if i < MEM_HEAP_LIST_NUM then
                    (let (rt, s') = mem_heap_init s1 i ptr sz
                     in if rt \<noteq> 0 then (None, hs_set_heap i ((hs_heap s' i)\<lparr>hp_size := 0\<rparr>) s')
                        else (Some i, s'))
                  else (None, s1))
           in (hdl, hs_event ExitCritical s2))"

definition heap_zero :: MEM_Heap_t where
  "heap_zero = \<lparr>hp_free_list = 0, hp_base = 0, hp_size = 0, hp_free = 0, hp_free_watermark = 0\<rparr>"

definition MEM_HeapDelete :: "heap_sys \<Rightarrow> heap_handle \<Rightarrow> heap_sys" where
  "MEM_HeapDelete s hdl =
     (case hdl of None \<Rightarrow> hs_event (DbgOutput MsgDeleteParams) s
      | Some i \<Rightarrow>
          (let s1 = hs_event EnterCritical s;
               s2 = (if i < MEM_HEAP_LIST_NUM then hs_set_heap i heap_zero s1 else s1)
           in hs_event ExitCritical s2))"

section \<open>Allocation\<close>

text \<open>
  The inner loop of \<open>mem_chunk_get\<close>: continue after the first fit for a block that fits at least
  as tightly, at most \<open>FIT_FIND_DEPTH\<close> times.
\<close>

partial_function (option) fit_loop ::
  "memory \<Rightarrow> nat \<Rightarrow> nat \<Rightarrow> nat \<Rightarrow> nat \<Rightarrow> nat \<Rightarrow> nat \<Rightarrow> (nat \<times> nat) option" where
  "fit_loop m sz pre_block_bak this_block_bak pre_block this_block find_num =
     (if this_block_bak = 0 then Some (pre_block, this_block)
      else let hit = (blk_size m this_block_bak \<ge> sz
                        \<and> blk_size m this_block_bak \<le> blk_size m this_block);
               this_block' = (if hit then this_block_bak else this_block);
               pre_block' = (if hit then pre_block_bak else pre_block);
               find_num' = (if hit then find_num + 1 else find_num)
           in if find_num' \<ge> FIT_FIND_DEPTH then Some (pre_block', this_block')
              else fit_loop m sz this_block_bak (blk_next m this_block_bak)
                     pre_block' this_block' find_num')"

text \<open>The outer loop: the first fit, then the inner loop; \<open>(0, 0)\<close> when no block fits.\<close>

partial_function (option) chunk_find :: "memory \<Rightarrow> nat \<Rightarrow> nat \<Rightarrow> nat \<Rightarrow> (nat \<times> nat) option" where
  "chunk_find m sz pre_block this_block =
     (if this_block = 0 then Some (0, 0)
      else if blk_size m this_block \<ge> sz
      then fit_loop m sz this_block (blk_next m this_block) pre_block this_block 0
      else chunk_find m sz this_block (blk_next m this_block))"

text \<open>Result: the block (0 for NULL), the new head of the free list and the new memory.\<close>

definition mem_chunk_get :: "memory \<Rightarrow> nat \<Rightarrow> nat \<Rightarrow> (nat \<times> nat \<times> memory) option" where
  "mem_chunk_get m free_list sz =
     Option.bind (chunk_find m sz 0 free_list) (\<lambda>(pre_block, this_block).
       if this_block = 0 then Some (0, free_list, m)
       else if sub64 (blk_size m this_block) sz \<ge> MEM_HEAP_MIN_SIZE
       then (let m1 = set_blk_size m this_block (sub64 (blk_size m this_block) sz);
                 m2 = set_dog m1 this_block MEM_BLOCK_STAT_FREE;
                 new_block = add64 this_block (blk_size m2 this_block);
                 m3 = set_blk_size m2 new_block sz;
                 m4 = set_dog m3 new_block MEM_BLOCK_STAT_USE
             in Some (new_block, free_list, m4))
       else (let (fl, m1) =
                   (if pre_block \<noteq> 0
                    then (free_list, set_blk_next m pre_block (blk_next m this_block))
                    else (blk_next m this_block, m));
                 m2 = set_dog m1 this_block MEM_BLOCK_STAT_USE
             in Some (this_block, fl, m2)))"

definition alloc_size :: "nat \<Rightarrow> nat" where
  "alloc_size sz = add64 (ALIGN_UP (add64 sz 1)) MEM_BLOCK_HEAD_SIZE"

text \<open>Result: the address handed to the caller (0 for NULL) and the new state.\<close>

definition MEM_Allocate :: "heap_sys \<Rightarrow> heap_handle \<Rightarrow> nat \<Rightarrow> (nat \<times> heap_sys) option" where
  "MEM_Allocate s hdl size0 =
     (case hdl of None \<Rightarrow> Some (0, s)
      | Some i \<Rightarrow>
         if size0 = 0 then Some (0, s)
         else let sz = (if size0 < 4 then 4 else size0);
                  new_size = alloc_size sz
         in if new_size < sz then Some (0, s)
         else let s1 = hs_event EnterCritical s; h = hs_heap s1 i
         in Option.bind (mem_chunk_get (hs_mem s1) (hp_free_list h) new_size)
              (\<lambda>(block, fl, m).
                 let s2 =
                   (if block \<noteq> 0 then
                      (let n = blk_size m block;
                           hfree = sub64 (hp_free h) n;
                           gfree = sub64 (hs_free_size s1) n
                       in (hs_set_heap i
                             (h\<lparr>hp_free_list := fl, hp_free := hfree,
                                hp_free_watermark := min (hp_free_watermark h) hfree\<rparr>) s1)
                            \<lparr>hs_mem := m, hs_free_size := gfree,
                             hs_free_watermark := min (hs_free_watermark s1) gfree\<rparr>)
                    else s1);
                     s3 = hs_event ExitCritical s2
                 in Some (if block \<noteq> 0 then add64 block MEM_BLOCK_HEAD_SIZE else 0, s3)))"

definition MEM_AllocateDebug ::
  "heap_sys \<Rightarrow> heap_handle \<Rightarrow> nat \<Rightarrow> nat \<Rightarrow> nat \<Rightarrow> (nat \<times> heap_sys) option" where
  "MEM_AllocateDebug s hdl sz filename line =
     (let new_size = ALIGN_UP sz
      in Option.bind (MEM_Allocate s hdl (add64 new_size MEM_DBG_LEAK_SIZE))
           (\<lambda>(p, s1).
              if p \<noteq> 0 then
                (let block = sub64 p MEM_BLOCK_HEAD_SIZE;
                     leak = MEM_LEAK_DBG_ADDR (hs_mem s1) block;
                     m1 = st64 (hs_mem s1) leak filename;
                     m2 = st64 m1 (leak + 8) line;
                     m3 = st64 m2 (leak + 16) sz;
                     m4 = st64 m3 (leak + 24) MEM_DBG_LEAK_MAGIC
                 in Some (p, s1\<lparr>hs_mem := m4\<rparr>))
              else Some (p, s1)))"

section \<open>Deallocation\<close>

text \<open>The walk to the insertion point: the last free block below \<open>free_block\<close> and its successor.\<close>

partial_function (option) free_pos :: "memory \<Rightarrow> nat \<Rightarrow> nat \<Rightarrow> nat \<Rightarrow> (nat \<times> nat) option" where
  "free_pos m free_block pre_block next_block =
     (if next_block \<noteq> 0 \<and> next_block < free_block
      then free_pos m free_block next_block (blk_next m next_block)
      else Some (pre_block, next_block))"

text \<open>Insertion and merging with the left neighbour: head of the list, block to merge into, memory.\<close>

definition free_link :: "memory \<Rightarrow> nat \<Rightarrow> nat \<Rightarrow> nat \<Rightarrow> nat \<Rightarrow> nat \<times> nat \<times> memory" where
  "free_link m free_list free_block pre_block next_block =
     (let m1 = set_blk_next m free_block next_block
      in if pre_block = 0 then (free_block, free_block, m1)
         else if add64 pre_block (blk_size m1 pre_block) = free_block
         then (free_list, pre_block,
               set_blk_size m1 pre_block (add64 (blk_size m1 pre_block) (blk_size m1 free_block)))
         else (free_list, free_block, set_blk_next m1 pre_block free_block))"

text \<open>Merging with the right neighbour.\<close>

definition free_merge :: "memory \<Rightarrow> nat \<Rightarrow> nat \<Rightarrow> memory" where
  "free_merge m pre_block next_block =
     (if next_block \<noteq> 0 \<and> add64 pre_block (blk_size m pre_block) = next_block
      then let m1 = set_blk_size m pre_block (add64 (blk_size m pre_block) (blk_size m next_block))
           in set_blk_next m1 pre_block (blk_next m1 next_block)
      else m)"

definition MEM_Deallocate :: "heap_sys \<Rightarrow> heap_handle \<Rightarrow> nat \<Rightarrow> heap_sys option" where
  "MEM_Deallocate s hdl ptr =
     (case hdl of None \<Rightarrow> Some s
      | Some i \<Rightarrow>
         if ptr = 0 then Some s
         else let free_block = sub64 ptr MEM_BLOCK_HEAD_SIZE;
                  pdog = MEM_DOG_ADDR (hs_mem s) free_block
         in if hs_mem s pdog \<noteq> MEM_BLOCK_STAT_USE
         then let s1 = hs_event (DbgOutput (MsgDogTag ptr (blk_size (hs_mem s) free_block))) s
              in Some (if hs_mem s pdog = MEM_BLOCK_STAT_FREE
                       then hs_event (DbgOutput (MsgMightBeFreed ptr)) s1 else s1)
         else let s1 = hs_event EnterCritical s;
                  h = hs_heap s1 i;
                  m1 = (hs_mem s1)(pdog := MEM_BLOCK_STAT_FREE);
                  n = blk_size m1 free_block
         in Option.bind (free_pos m1 free_block 0 (hp_free_list h))
              (\<lambda>(pre_block, next_block).
                 let (fl, pre_block', m2) = free_link m1 (hp_free_list h) free_block pre_block next_block;
                     m3 = free_merge m2 pre_block' next_block;
                     s2 = (hs_set_heap i (h\<lparr>hp_free_list := fl, hp_free := add64 (hp_free h) n\<rparr>) s1)
                            \<lparr>hs_mem := m3, hs_free_size := add64 (hs_free_size s1) n\<rparr>
                 in Some (hs_event ExitCritical s2)))"

section \<open>Status walk\<close>

text \<open>
  The loop of \<open>MEM_HeapStatus\<close>. Result: the code stored in \<open>result\<close> at \<open>EXIT\<close>, the address
  reached, the free-list position, the counters and the events of the loop.
\<close>

partial_function (option) status_loop ::
  "memory \<Rightarrow> nat \<Rightarrow> nat \<Rightarrow> nat \<Rightarrow> MEM_HeapStatus_t \<Rightarrow> heap_event list \<Rightarrow>
    (nat \<times> nat \<times> nat \<times> MEM_HeapStatus_t \<times> heap_event list) option" where
  "status_loop m top_addr addr freeBlockp st ev =
     (if \<not> addr < top_addr then Some (0, addr, freeBlockp, st, ev)
      else if m (MEM_DOG_ADDR m addr) = MEM_BLOCK_STAT_USE then
        (if addr = freeBlockp then Some (1, addr, freeBlockp, st, ev)
         else let leak = MEM_LEAK_DBG_ADDR m addr;
                  ev' = (if ld64 m (leak + 24) = MEM_DBG_LEAK_MAGIC
                         then ev @ [ExitCritical,
                                DbgOutput (MsgMemUse (ld64 m leak) (ld64 m (leak + 8)) addr (ld64 m (leak + 16))),
                                EnterCritical]
                         else ev)
              in status_loop m top_addr (add64 addr (blk_size m addr)) freeBlockp
                   (st\<lparr>st_used_block := st_used_block st + 1\<rparr>) ev')
      else if m (MEM_DOG_ADDR m addr) = MEM_BLOCK_STAT_FREE then
        (if addr \<noteq> freeBlockp then Some (2, addr, freeBlockp, st, ev)
         else let thisSize = sub64 (sub64 (blk_size m addr) MEM_BLOCK_HEAD_SIZE) 1
              in status_loop m top_addr (add64 addr (blk_size m addr)) (blk_next m freeBlockp)
                   (st\<lparr>st_free := add64 (st_free st) thisSize,
                       st_free_largest := max (st_free_largest st) thisSize,
                       st_free_block := st_free_block st + 1\<rparr>) ev)
      else Some (3, addr, freeBlockp, st, ev))"

definition status_zero :: MEM_HeapStatus_t where
  "status_zero = \<lparr>st_size = 0, st_free = 0, st_free_largest = 0, st_valid = 0, st_used_block = 0,
     st_free_block = 0\<rparr>"

text \<open>\<open>st_in\<close> is the caller's status variable, \<open>None\<close> for a null pointer.\<close>

definition MEM_HeapStatus ::
  "heap_sys \<Rightarrow> heap_handle \<Rightarrow> MEM_HeapStatus_t option \<Rightarrow> (MEM_HeapStatus_t option \<times> heap_sys) option" where
  "MEM_HeapStatus s hdl st_in =
     (case (hdl, st_in) of
        (Some i, Some _) \<Rightarrow>
          (let h = hs_heap s i;
               st = status_zero\<lparr>st_size := hp_size h\<rparr>;
               addr = ALIGN_UP (hp_base h);
               top_addr = ALIGN_DOWN (add64 (hp_base h) (hp_size h));
               s1 = hs_event EnterCritical s
           in Option.bind (status_loop (hs_mem s) top_addr addr (hp_free_list h) st [])
                (\<lambda>(res, addr', fb, st', ev).
                   let st'' = (if res = 0 \<and> addr' = top_addr \<and> fb = 0 then st'\<lparr>st_valid := 1\<rparr> else st');
                       s2 = s1\<lparr>hs_events := hs_events s1 @ ev\<rparr>;
                       s3 = hs_event ExitCritical s2;
                       s4 = (if res \<noteq> 0
                             then hs_event (DbgOutput (MsgStatusError res addr' (blk_size (hs_mem s) addr'))) s3
                             else s3)
                   in Some (Some st'', s4)))
      | _ \<Rightarrow> Some (st_in, s))"

section \<open>Public interface\<close>

definition tuya_mem_heap_init :: "heap_sys \<Rightarrow> heap_context_t option \<Rightarrow> int \<times> heap_sys" where
  "tuya_mem_heap_init s ctx =
     (case ctx of None \<Rightarrow> (-1, s)
      | Some c \<Rightarrow>
          if enter_critical c = 0 \<or> exit_critical c = 0 \<or> dbg_output c = 0 then (-1, s)
          else (0, s\<lparr>hs_ctx := c\<rparr>))"

text \<open>The second result is what is stored through \<open>handle\<close>, if anything.\<close>

definition tuya_mem_heap_create ::
  "heap_sys \<Rightarrow> nat \<Rightarrow> u32 \<Rightarrow> bool \<Rightarrow> int \<times> heap_handle \<times> heap_sys" where
  "tuya_mem_heap_create s start_addr sz handle_ok =
     (let s1 = hs_event (DbgOutput (MsgHeapInit (unat sz) start_addr)) s;
          (hdl, s2) = MEM_HeapCreate s1 start_addr (unat sz)
      in case hdl of None \<Rightarrow> (-1, None, s2)
         | Some i \<Rightarrow> (0, if handle_ok then Some i else None, s2))"

definition tuya_mem_heap_delete :: "heap_sys \<Rightarrow> heap_handle \<Rightarrow> int \<times> heap_sys" where
  "tuya_mem_heap_delete s hdl = (0, MEM_HeapDelete s hdl)"

text \<open>The loop over \<open>mem_heap_list\<close> for the null handle, given the indices still to visit.\<close>

fun heap_scan_alloc ::
  "(heap_sys \<Rightarrow> nat \<Rightarrow> (nat \<times> heap_sys) option) \<Rightarrow> heap_sys \<Rightarrow> u32 \<Rightarrow> nat list \<Rightarrow> (nat \<times> heap_sys) option" where
  "heap_scan_alloc alloc s sz [] = Some (0, s)"
| "heap_scan_alloc alloc s sz (i # is) =
     (if hp_size (hs_heap s i) > 0 then
        (if hp_free (hs_heap s i) > unat (sz + of_nat MEM_BLOCK_MIN_SIZE) then
           Option.bind (alloc s i)
             (\<lambda>(p, s'). if p \<noteq> 0 then Some (p, s') else heap_scan_alloc alloc s' sz is)
         else heap_scan_alloc alloc s sz is)
      else Some (0, s))"

definition tuya_mem_heap_malloc :: "heap_sys \<Rightarrow> heap_handle \<Rightarrow> u32 \<Rightarrow> (nat \<times> heap_sys) option" where
  "tuya_mem_heap_malloc s hdl sz =
     (case hdl of Some i \<Rightarrow> MEM_Allocate s (Some i) (unat sz)
      | None \<Rightarrow> heap_scan_alloc (\<lambda>s i. MEM_Allocate s (Some i) (unat sz)) s sz [0..<MEM_HEAP_LIST_NUM])"

definition tuya_mem_heap_calloc :: "heap_sys \<Rightarrow> heap_handle \<Rightarrow> u32 \<Rightarrow> (nat \<times> heap_sys) option" where
  "tuya_mem_heap_calloc s hdl sz =
     Option.bind (tuya_mem_heap_malloc s hdl sz) (\<lambda>(p, s1).
       Some (p, if p \<noteq> 0 then s1\<lparr>hs_mem := mem_set (hs_mem s1) p 0 (unat sz)\<rparr> else s1))"

fun heap_scan_free :: "heap_sys \<Rightarrow> nat \<Rightarrow> nat list \<Rightarrow> heap_sys option" where
  "heap_scan_free s ptr [] = Some s"
| "heap_scan_free s ptr (i # is) =
     (if hp_size (hs_heap s i) > 0 then
        (if ptr > hp_base (hs_heap s i) \<and> ptr < add64 (hp_base (hs_heap s i)) (hp_size (hs_heap s i))
         then MEM_Deallocate s (Some i) ptr
         else heap_scan_free s ptr is)
      else Some s)"

definition tuya_mem_heap_free :: "heap_sys \<Rightarrow> heap_handle \<Rightarrow> nat \<Rightarrow> heap_sys option" where
  "tuya_mem_heap_free s hdl ptr =
     (case hdl of Some i \<Rightarrow> MEM_Deallocate s (Some i) ptr
      | None \<Rightarrow> heap_scan_free s ptr [0..<MEM_HEAP_LIST_NUM])"

text \<open>Here \<open>size + 1\<close> is computed in \<open>unsigned int\<close>.\<close>

definition realloc_size :: "u32 \<Rightarrow> nat" where
  "realloc_size sz = add64 (ALIGN_UP (unat (sz + 1))) MEM_BLOCK_HEAD_SIZE"

definition tuya_mem_heap_realloc ::
  "heap_sys \<Rightarrow> heap_handle \<Rightarrow> nat \<Rightarrow> u32 \<Rightarrow> (nat \<times> heap_sys) option" where
  "tuya_mem_heap_realloc s hdl ptr sz0 =
     (if ptr = 0 then tuya_mem_heap_malloc s hdl sz0
      else let old_block = sub64 ptr MEM_BLOCK_HEAD_SIZE;
               pdog = MEM_DOG_ADDR (hs_mem s) old_block
      in if hs_mem s pdog \<noteq> MEM_BLOCK_STAT_USE
      then Some (0, hs_event (DbgOutput (MsgReallocDogTag ptr (blk_size (hs_mem s) old_block))) s)
      else let sz = (if sz0 < 4 then 4 else sz0)
      in if realloc_size sz \<le> blk_size (hs_mem s) old_block then Some (ptr, s)
      else Option.bind (tuya_mem_heap_malloc s hdl sz) (\<lambda>(tmp, s1).
             if tmp = 0 then Some (0, s1)
             else let n = sub64 (blk_size (hs_mem s1) old_block) MEM_BLOCK_HEAD_SIZE;
                      s2 = s1\<lparr>hs_mem := mem_copy (hs_mem s1) tmp ptr n\<rparr>
                  in Option.bind (tuya_mem_heap_free s2 hdl ptr) (\<lambda>s3. Some (tmp, s3))))"

text \<open>The return type is \<open>int\<close>.\<close>

definition tuya_mem_heap_available :: "heap_sys \<Rightarrow> heap_handle \<Rightarrow> int" where
  "tuya_mem_heap_available s hdl =
     (case hdl of None \<Rightarrow> sint (of_nat (hs_free_size s) :: u32)
      | Some i \<Rightarrow> sint (of_nat (hp_free (hs_heap s i)) :: u32))"

fun heap_scan_size :: "heap_sys \<Rightarrow> nat \<Rightarrow> nat list \<Rightarrow> nat" where
  "heap_scan_size s acc [] = acc"
| "heap_scan_size s acc (i # is) =
     (if hp_size (hs_heap s i) > 0 then heap_scan_size s (add64 acc (hp_size (hs_heap s i))) is else acc)"

definition tuya_mem_heap_state :: "heap_sys \<Rightarrow> heap_handle \<Rightarrow> heap_state_t option \<Rightarrow> heap_state_t option" where
  "tuya_mem_heap_state s hdl state =
     (case state of None \<Rightarrow> None
      | Some st \<Rightarrow>
         (case hdl of
            None \<Rightarrow> Some (st\<lparr>free_size := hs_free_size s, free_watermark := hs_free_watermark s,
                     total_size := heap_scan_size s (total_size st) [0..<MEM_HEAP_LIST_NUM]\<rparr>)
          | Some i \<Rightarrow> Some (st\<lparr>total_size := hp_size (hs_heap s i), free_size := hp_free (hs_heap s i),
                     free_watermark := hp_free_watermark (hs_heap s i)\<rparr>)))"

definition tuya_mem_heap_debug_malloc ::
  "heap_sys \<Rightarrow> heap_handle \<Rightarrow> u32 \<Rightarrow> nat \<Rightarrow> nat \<Rightarrow> (nat \<times> heap_sys) option" where
  "tuya_mem_heap_debug_malloc s hdl sz filename line =
     (case hdl of Some i \<Rightarrow> MEM_AllocateDebug s (Some i) (unat sz) filename line
      | None \<Rightarrow> heap_scan_alloc (\<lambda>s i. MEM_AllocateDebug s (Some i) (unat sz) filename line) s sz
                  [0..<MEM_HEAP_LIST_NUM])"

definition tuya_mem_heap_debug_calloc ::
  "heap_sys \<Rightarrow> heap_handle \<Rightarrow> u32 \<Rightarrow> nat \<Rightarrow> nat \<Rightarrow> (nat \<times> heap_sys) option" where
  "tuya_mem_heap_debug_calloc s hdl sz filename line =
     Option.bind (tuya_mem_heap_debug_malloc s hdl sz filename line) (\<lambda>(p, s1).
       Some (p, if p \<noteq> 0 then s1\<lparr>hs_mem := mem_set (hs_mem s1) p 0 (unat sz)\<rparr> else s1))"

definition tuya_mem_heap_debug_realloc ::
  "heap_sys \<Rightarrow> heap_handle \<Rightarrow> nat \<Rightarrow> u32 \<Rightarrow> nat \<Rightarrow> nat \<Rightarrow> (nat \<times> heap_sys) option" where
  "tuya_mem_heap_debug_realloc s hdl ptr sz filename line =
     Option.bind (tuya_mem_heap_debug_malloc s hdl sz filename line) (\<lambda>(tmp, s1).
       if tmp = 0 then Some (0, s1)
       else let s2 = s1\<lparr>hs_mem := mem_copy (hs_mem s1) tmp ptr (unat sz)\<rparr>
            in Option.bind (tuya_mem_heap_free s2 hdl ptr) (\<lambda>s3. Some (tmp, s3)))"

text \<open>What \<open>tuya_mem_heap_diagnose\<close> does for one heap.\<close>

definition diagnose_one :: "heap_sys \<Rightarrow> nat \<Rightarrow> heap_sys option" where
  "diagnose_one s i =
     Option.bind (MEM_HeapStatus s (Some i) (Some status_zero)) (\<lambda>(st, s1).
       case st of None \<Rightarrow> Some s1
       | Some memst \<Rightarrow>
          (let s2 = (if st_valid memst = 0 then hs_event (DbgOutput MsgDamaged) s1 else s1)
           in Some (hs_event (DbgOutput (MsgStatus memst)) s2)))"

fun heap_scan_diagnose :: "heap_sys \<Rightarrow> nat list \<Rightarrow> heap_sys option" where
  "heap_scan_diagnose s [] = Some s"
| "heap_scan_diagnose s (i # is) =
     (if hp_size (hs_heap s i) > 0
      then Option.bind (diagnose_one s i) (\<lambda>s'. heap_scan_diagnose s' is)
      else Some s)"

definition tuya_mem_heap_diagnose :: "heap_sys \<Rightarrow> heap_handle \<Rightarrow> (int \<times> heap_sys) option" where
  "tuya_mem_heap_diagnose s hdl =
     Option.bind
       (case hdl of Some i \<Rightarrow> diagnose_one s i
        | None \<Rightarrow> heap_scan_diagnose s [0..<MEM_HEAP_LIST_NUM])
       (\<lambda>s'. Some (0, s'))"

declare fit_loop.simps [code] chunk_find.simps [code] free_pos.simps [code] status_loop.simps [code]

section \<open>Alignment\<close>

lemma and_not_mask: "x AND NOT (mask n) = push_bit n (drop_bit n x)" for x :: "'a::len word"
  by (rule bit_word_eqI) (auto simp: bit_simps)

lemma align_mask: "unat (x AND - 8 :: u64) = unat x div 8 * 8"
proof -
  have m: "mask 3 = (7 :: u64)" by (simp add: mask_eq_exp_minus_1)
  have "(- 8 :: u64) = NOT (mask 3)" by (simp only: m) simp
  then have e: "x AND - 8 = push_bit 3 (drop_bit 3 x)" by (simp only: and_not_mask)
  have d: "unat (drop_bit 3 x) = unat x div 8"
    by (simp add: drop_bit_eq_div unat_div)
  have "unat x div 8 * 8 \<le> unat x" by (rule div_times_less_eq_dividend)
  then have "unat x div 8 * 8 < 2 ^ LENGTH(64)"
    using unsigned_less [of x, where 'a = nat] by (rule le_less_trans)
  then have "unat (drop_bit 3 x * 8) = unat x div 8 * 8"
    by (subst unat_mult_small) (simp_all add: d)
  then show ?thesis unfolding e by (simp add: push_bit_eq_mult)
qed

lemma ALIGN_DOWN_eq: "x < two64 \<Longrightarrow> ALIGN_DOWN x = x div 8 * 8"
  by (simp add: ALIGN_DOWN_def MEM_ALIGN_NUM_def align_mask unat_of_nat take_bit_eq_mod two64_def)

lemma ALIGN_UP_eq: "x + 7 < two64 \<Longrightarrow> ALIGN_UP x = (x + 7) div 8 * 8"
proof -
  assume x: "x + 7 < two64"
  then have "unat (of_nat x + 7 :: u64) = x + 7"
    by (simp add: unat_word_ariths unat_of_nat take_bit_eq_mod two64_def)
  then show ?thesis by (simp add: ALIGN_UP_def MEM_ALIGN_NUM_def align_mask)
qed

end
