(* ===== verification/Mem_Heap_Layout.thy ===== *)
theory Mem_Heap_Layout
  imports Tuya_Mem_Heap
begin

text \<open>
  What a well-formed heap is, over a list of blocks \<open>(address, size, used)\<close> in address order: the
  blocks tile the heap area, their headers and state tags are in memory, and the free list links
  exactly the free ones. The theory relates the loops of \<open>tuya_mem_heap.c\<close> over the free list to
  this list.
\<close>

section \<open>Tiling\<close>

type_synonym block = "nat \<times> nat \<times> bool"

text \<open>
  \<open>mn\<close> is the least block size. With 24 bytes (every request was at least 8 bytes) the tag of a
  free block is reliable; a free 16-byte block keeps its link where its tag is.
\<close>

fun layout :: "nat \<Rightarrow> memory \<Rightarrow> nat \<Rightarrow> block list \<Rightarrow> nat \<Rightarrow> bool" where
  "layout mn m a [] e = (a = e)"
| "layout mn m a ((b, n, u) # bs) e =
     (b = a \<and> mn \<le> n \<and> 8 dvd n \<and> ld64 m b = n
      \<and> (u \<longrightarrow> m (b + n - 1) = MEM_BLOCK_STAT_USE)
      \<and> (\<not> u \<and> 24 \<le> mn \<longrightarrow> m (b + n - 1) = MEM_BLOCK_STAT_FREE)
      \<and> layout mn m (a + n) bs e)"

definition free_addrs :: "block list \<Rightarrow> nat list" where
  "free_addrs bs = [b. (b, n, u) \<leftarrow> bs, \<not> u]"

definition free_bytes :: "block list \<Rightarrow> nat" where
  "free_bytes bs = sum_list [n. (b, n, u) \<leftarrow> bs, \<not> u]"

definition used_bytes :: "block list \<Rightarrow> nat" where
  "used_bytes bs = sum_list [n. (b, n, u) \<leftarrow> bs, u]"

text \<open>No two neighbouring blocks are both free.\<close>

fun coalesced :: "block list \<Rightarrow> bool" where
  "coalesced ((b, n, u) # (b', n', u') # bs) = ((u \<or> u') \<and> coalesced ((b', n', u') # bs))"
| "coalesced bs = True"

lemma free_addrs_simps [simp]:
  "free_addrs [] = []"
  "free_addrs ((b, n, u) # bs) = (if u then free_addrs bs else b # free_addrs bs)"
  "free_addrs (xs @ ys) = free_addrs xs @ free_addrs ys"
  by (auto simp: free_addrs_def)

lemma free_bytes_simps [simp]:
  "free_bytes [] = 0"
  "free_bytes ((b, n, u) # bs) = (if u then free_bytes bs else n + free_bytes bs)"
  "free_bytes (xs @ ys) = free_bytes xs + free_bytes ys"
  by (auto simp: free_bytes_def)

lemma used_bytes_simps [simp]:
  "used_bytes [] = 0"
  "used_bytes ((b, n, u) # bs) = (if u then n + used_bytes bs else used_bytes bs)"
  "used_bytes (xs @ ys) = used_bytes xs + used_bytes ys"
  by (auto simp: used_bytes_def)

lemma set_free_addrs: "b \<in> set (free_addrs bs) \<longleftrightarrow> (\<exists>n. (b, n, False) \<in> set bs)"
  by (auto simp: free_addrs_def)

lemma free_addrs_split:
  assumes "free_addrs bs = us @ b # vs"
  shows "\<exists>xs n ys. bs = xs @ (b, n, False) # ys \<and> free_addrs xs = us \<and> free_addrs ys = vs"
  using assms
proof (induction bs arbitrary: us)
  case (Cons c bs)
  obtain a n u where c: "c = (a, n, u)" by (cases c)
  show ?case
  proof (cases "u \<or> us \<noteq> []")
    case True
    then obtain us' where "free_addrs bs = us' @ b # vs" "us = (if u then us' else a # us')"
      using Cons.prems c by (cases us) (auto split: if_splits)
    with Cons.IH obtain xs k ys where "bs = xs @ (b, k, False) # ys" "free_addrs xs = us'"
      "free_addrs ys = vs" by blast
    then show ?thesis using c \<open>us = _\<close> by (intro exI [of _ "c # xs"] exI [of _ k] exI [of _ ys]) auto
  next
    case False
    then show ?thesis using Cons.prems c by (intro exI [of _ "[]"]) auto
  qed
qed simp

lemma layout_append:
  "layout mn m a (xs @ ys) e \<longleftrightarrow> (\<exists>c. layout mn m a xs c \<and> layout mn m c ys e)"
  by (induction xs arbitrary: a) auto

lemma layout_le: "layout mn m a bs e \<Longrightarrow> a \<le> e"
proof (induction bs arbitrary: a)
  case (Cons c bs)
  then show ?case by (cases c) (auto dest: add_leD1)
qed simp

lemma layout_member:
  assumes "layout mn m a bs e" "(b, n, u) \<in> set bs"
  shows "a \<le> b \<and> b + n \<le> e \<and> mn \<le> n \<and> 8 dvd n \<and> ld64 m b = n
     \<and> (u \<longrightarrow> m (b + n - 1) = MEM_BLOCK_STAT_USE)
     \<and> (\<not> u \<and> 24 \<le> mn \<longrightarrow> m (b + n - 1) = MEM_BLOCK_STAT_FREE)"
  using assms
proof (induction bs arbitrary: a)
  case (Cons c bs)
  obtain c0 c1 c2 where c: "c = (c0, c1, c2)" by (cases c)
  show ?case
  proof (cases "c = (b, n, u)")
    case True
    then show ?thesis using Cons.prems c layout_le by fastforce
  next
    case False
    then show ?thesis using Cons.IH [of "a + c1"] Cons.prems c by auto
  qed
qed simp

lemma layout_aligned:
  assumes "layout mn m a bs e" "(b, n, u) \<in> set bs" "8 dvd a"
  shows "8 dvd b"
  using assms
proof (induction bs arbitrary: a)
  case (Cons c bs)
  obtain c0 c1 c2 where c: "c = (c0, c1, c2)" by (cases c)
  then show ?case using Cons.IH [of "a + c1"] Cons.prems by (auto simp: dvd_add)
qed simp

lemma layout_disjoint:
  assumes "layout mn m a bs e" "(b, n, u) \<in> set bs" "(b', n', u') \<in> set bs"
  shows "(b, n, u) = (b', n', u') \<or> b + n \<le> b' \<or> b' + n' \<le> b"
  using assms
proof (induction bs arbitrary: a)
  case (Cons c bs)
  obtain c0 c1 c2 where c: "c = (c0, c1, c2)" by (cases c)
  have "layout mn m (a + c1) bs e" "c0 = a" using Cons.prems c by auto
  then show ?case
    using Cons.IH [of "a + c1"] Cons.prems c layout_member [of mn m "a + c1" bs e] by fastforce
qed simp

lemma layout_same_addr:
  assumes "layout mn m a bs e" "(b, n, u) \<in> set bs" "(b, n', u') \<in> set bs" "0 < mn"
  shows "n = n' \<and> u = u'"
  using layout_disjoint [OF assms(1-3)] layout_member [OF assms(1,2)] layout_member [OF assms(1,3)]
    assms(4) by auto

text \<open>Only headers and reliable tags matter to the tiling.\<close>

lemma layout_cong:
  assumes "layout mn m a bs e"
    and "\<And>b n u x. (b, n, u) \<in> set bs \<Longrightarrow> b \<le> x \<Longrightarrow> x < b + 8 \<Longrightarrow> m' x = m x"
    and "\<And>b n u. (b, n, u) \<in> set bs \<Longrightarrow> u \<or> 24 \<le> mn \<Longrightarrow> m' (b + n - 1) = m (b + n - 1)"
  shows "layout mn m' a bs e"
  using assms
proof (induction bs arbitrary: a)
  case (Cons c bs)
  obtain b n u where c: "c = (b, n, u)" by (cases c)
  have "ld64 m' b = ld64 m b" using Cons.prems(2) [of b n u] c by (intro ld64_cong) auto
  moreover have "layout mn m' (a + n) bs e"
  proof (rule Cons.IH)
    show "layout mn m (a + n) bs e" using Cons.prems(1) c by simp
  qed (meson Cons.prems(2,3) list.set_intros(2))+
  ultimately show ?case using Cons.prems(1) Cons.prems(3) [of b n u] c by auto
qed simp

lemma layout_cong_range:
  assumes "layout mn m a bs e" "16 \<le> mn" "\<And>x. a \<le> x \<Longrightarrow> x < e \<Longrightarrow> m' x = m x"
  shows "layout mn m' a bs e"
proof (rule layout_cong [OF assms(1)])
  fix b n u assume "(b, n, u) \<in> set bs"
  then have "a \<le> b \<and> b + n \<le> e \<and> 16 \<le> n" using layout_member [OF assms(1)] assms(2) by fastforce
  then show "m' (b + n - 1) = m (b + n - 1)" "\<And>x. b \<le> x \<Longrightarrow> x < b + 8 \<Longrightarrow> m' x = m x"
    using assms(3) by auto
qed

section \<open>The free list\<close>

fun path :: "memory \<Rightarrow> nat \<Rightarrow> nat list \<Rightarrow> nat \<Rightarrow> bool" where
  "path m p [] q = (p = q)"
| "path m p (x # xs) q = (p = x \<and> x \<noteq> 0 \<and> path m (blk_next m x) xs q)"

definition lastz :: "nat list \<Rightarrow> nat" where
  "lastz us = (if us = [] then 0 else last us)"

lemma lastz_simps [simp]: "lastz [] = 0" "lastz (us @ [u]) = u"
  by (simp_all add: lastz_def)

lemma path_append: "path m p (xs @ ys) q \<longleftrightarrow> (\<exists>r. path m p xs r \<and> path m r ys q)"
  by (induction xs arbitrary: p) auto

lemma path_cong: "(\<And>x. x \<in> set xs \<Longrightarrow> blk_next m' x = blk_next m x) \<Longrightarrow> path m' p xs q = path m p xs q"
  by (induction xs arbitrary: p) auto

lemma path_nonzero: "path m p xs q \<Longrightarrow> 0 \<notin> set xs"
  by (induction xs arbitrary: p) auto

lemma path_null: "path m 0 xs q \<Longrightarrow> xs = [] \<and> q = 0"
  by (cases xs) auto

lemma path_start: "path m p xs 0 \<Longrightarrow> p \<noteq> 0 \<Longrightarrow> \<exists>ys. xs = p # ys \<and> path m (blk_next m p) ys 0"
  by (cases xs) auto

lemma fit_loop_finds:
  assumes "path m q rs 0" "F = ws @ rs" "lastz ws = p"
    "F = us @ t # vs" "lastz us = p0" "sz \<le> blk_size m t"
  shows "\<exists>us' t' vs'. fit_loop m sz p q p0 t k = Some (lastz us', t')
    \<and> F = us' @ t' # vs' \<and> sz \<le> blk_size m t' \<and> blk_size m t' \<le> blk_size m t"
  using assms
proof (induction rs arbitrary: p q p0 t k us vs ws)
  case Nil
  then show ?case by (auto simp: fit_loop.simps [of m sz p 0])
next
  case (Cons r rs)
  then have q: "q = r" "r \<noteq> 0" and nx: "path m (blk_next m r) rs 0" by auto
  define hit where "hit \<longleftrightarrow> sz \<le> blk_size m r \<and> blk_size m r \<le> blk_size m t"
  let ?us = "if hit then ws else us" let ?t = "if hit then r else t"
  let ?vs = "if hit then rs else vs"
  have F: "F = ?us @ ?t # ?vs" "lastz ?us = (if hit then p else p0)" "sz \<le> blk_size m ?t"
    "blk_size m ?t \<le> blk_size m t"
    using Cons.prems hit_def by auto
  have step: "fit_loop m sz p q p0 t k =
      (if (if hit then k + 1 else k) \<ge> FIT_FIND_DEPTH then Some (if hit then p else p0, ?t)
       else fit_loop m sz r (blk_next m r) (if hit then p else p0) ?t (if hit then k + 1 else k))"
    using q by (subst fit_loop.simps) (simp add: hit_def Let_def)
  have "\<exists>us' t' vs'. fit_loop m sz r (blk_next m r) (if hit then p else p0) ?t (if hit then k + 1 else k)
      = Some (lastz us', t') \<and> F = us' @ t' # vs' \<and> sz \<le> blk_size m t' \<and> blk_size m t' \<le> blk_size m ?t"
    by (rule Cons.IH [OF nx, of "ws @ [r]" r ?us ?t ?vs]) (use Cons.prems F in auto)
  then show ?case unfolding step using F by (smt (verit, best) le_trans)
qed

lemma chunk_find_finds:
  assumes "path m q rs 0" "F = ws @ rs" "lastz ws = p" "\<forall>x\<in>set ws. blk_size m x < sz"
  shows "(\<forall>x\<in>set F. blk_size m x < sz) \<and> chunk_find m sz p q = Some (0, 0)
    \<or> (\<exists>us t vs. chunk_find m sz p q = Some (lastz us, t) \<and> F = us @ t # vs \<and> sz \<le> blk_size m t)"
  using assms
proof (induction rs arbitrary: p q ws)
  case Nil
  then show ?case by (simp add: chunk_find.simps [of m sz p 0])
next
  case (Cons r rs)
  then have q: "q = r" "r \<noteq> 0" and nx: "path m (blk_next m r) rs 0" by auto
  show ?case
  proof (cases "sz \<le> blk_size m r")
    case True
    have "chunk_find m sz p q = fit_loop m sz r (blk_next m r) p r 0"
      using q True by (subst chunk_find.simps) simp
    with fit_loop_finds [OF nx, of F "ws @ [r]" r ws r rs p sz 0] Cons.prems True
    show ?thesis by auto
  next
    case False
    have "chunk_find m sz p q = chunk_find m sz r (blk_next m r)"
      using q False by (subst chunk_find.simps) simp
    with Cons.IH [OF nx, of "ws @ [r]" r] Cons.prems False show ?thesis by auto
  qed
qed

lemma free_pos_finds:
  assumes "path m q rs 0" "sorted_wrt (<) (ws @ rs)" "lastz ws = p" "\<forall>x\<in>set ws. x < b"
  shows "\<exists>us vs. ws @ rs = us @ vs \<and> (\<forall>x\<in>set us. x < b) \<and> (\<forall>x\<in>set vs. b \<le> x)
    \<and> free_pos m b p q = Some (lastz us, if vs = [] then 0 else hd vs)"
  using assms
proof (induction rs arbitrary: p q ws)
  case Nil
  then show ?case by (auto simp: free_pos.simps [of m b p 0])
next
  case (Cons r rs)
  then have q: "q = r" "r \<noteq> 0" and nx: "path m (blk_next m r) rs 0" by auto
  show ?case
  proof (cases "r < b")
    case True
    have "free_pos m b p q = free_pos m b r (blk_next m r)"
      using q True by (subst free_pos.simps) simp
    with Cons.IH [OF nx, of "ws @ [r]" r] Cons.prems True show ?thesis by auto
  next
    case False
    have "free_pos m b p q = Some (p, r)" using q False by (subst free_pos.simps) simp
    moreover have "\<forall>x\<in>set (r # rs). b \<le> x" using Cons.prems(2) False
      by (auto simp: sorted_wrt_append)
    ultimately show ?thesis using Cons.prems by (intro exI [of _ ws] exI [of _ "r # rs"]) auto
  qed
qed

end
