(* ===== verification/Mem_Heap_Steps.thy ===== *)
theory Mem_Heap_Steps
  imports Mem_Heap_Layout
begin

text \<open>
  The free-list surgery of \<open>mem_chunk_get\<close> and \<open>MEM_Deallocate\<close> on a well-formed heap area:
  what each leaves as blocks, as free list and as memory.
\<close>

text \<open>The area \<open>[a, e)\<close> with free list head \<open>fl\<close> consists of the blocks \<open>bs\<close>.\<close>

definition area_rep :: "nat \<Rightarrow> memory \<Rightarrow> nat \<Rightarrow> nat \<Rightarrow> nat \<Rightarrow> block list \<Rightarrow> bool" where
  "area_rep mn m fl a e bs \<longleftrightarrow>
     16 \<le> mn \<and> 0 < a \<and> 8 dvd a \<and> e < two64 \<and> layout mn m a bs e \<and> path m fl (free_addrs bs) 0"

text \<open>The address lies in a free block.\<close>

definition in_free :: "block list \<Rightarrow> nat \<Rightarrow> bool" where
  "in_free bs x \<longleftrightarrow> (\<exists>b n. (b, n, False) \<in> set bs \<and> b \<le> x \<and> x < b + n)"

lemma in_freeI: "(b, n, False) \<in> set bs \<Longrightarrow> b \<le> x \<Longrightarrow> x < b + n \<Longrightarrow> in_free bs x"
  by (auto simp: in_free_def)

lemma ld64_upd_other [simp]: "x < b \<or> b + 8 \<le> x \<Longrightarrow> ld64 (m(x := v)) b = ld64 m b"
  by (rule ld64_cong) auto

lemma area_member:
  assumes "area_rep mn m fl a e bs" "(b, n, u) \<in> set bs"
  shows "a \<le> b" "b + n \<le> e" "b + n < two64" "16 \<le> n" "mn \<le> n" "8 dvd n" "ld64 m b = n" "0 < b" "8 dvd b"
  using layout_member [of mn m a bs e b n u] layout_aligned [of mn m a bs e b n u] assms
  by (auto simp: area_rep_def)

lemma area_dog:
  assumes "area_rep mn m fl a e bs" "(b, n, u) \<in> set bs"
  shows "MEM_DOG_ADDR m b = b + n - 1"
  using area_member [OF assms] by (simp add: MEM_DOG_ADDR_def blk_size_def)

lemma area_tag:
  assumes "area_rep mn m fl a e bs" "(b, n, u) \<in> set bs"
  shows "u \<Longrightarrow> m (b + n - 1) = MEM_BLOCK_STAT_USE"
    "\<not> u \<Longrightarrow> 24 \<le> mn \<Longrightarrow> m (b + n - 1) = MEM_BLOCK_STAT_FREE"
  using layout_member [of mn m a bs e b n u] assms by (auto simp: area_rep_def)

lemma area_disjoint:
  assumes "area_rep mn m fl a e bs" "(b, n, u) \<in> set bs" "(b', n', u') \<in> set bs" "b \<noteq> b'"
  shows "b + n \<le> b' \<or> b' + n' \<le> b"
  using layout_disjoint [of mn m a bs e b n u b' n' u'] assms by (auto simp: area_rep_def)

lemma free_apart:
  assumes "area_rep mn m fl a e bs" "x \<in> set (free_addrs bs)" "(q, k, u) \<in> set bs" "x \<noteq> q"
  shows "x + 16 \<le> q \<or> q + k \<le> x" "x + 8 \<le> q \<or> q + 8 \<le> x"
proof -
  obtain n where n: "(x, n, False) \<in> set bs" using assms(2) by (auto simp: set_free_addrs)
  show "x + 16 \<le> q \<or> q + k \<le> x"
    using area_disjoint [OF assms(1) n assms(3,4)] area_member(4) [OF assms(1) n] by linarith
  then show "x + 8 \<le> q \<or> q + 8 \<le> x" using area_member(4) [OF assms(1,3)] by linarith
qed

text \<open>Replacing the blocks of one block's range.\<close>

lemma layout_replace:
  assumes "layout mn m a (xs @ (b, n, u) # ys) e" "16 \<le> mn"
    and "\<And>x. x < b \<or> b + n \<le> x \<Longrightarrow> m' x = m x" "layout mn m' b zs (b + n)"
  shows "layout mn m' a (xs @ zs @ ys) e"
proof -
  have l: "layout mn m a xs b" "layout mn m (b + n) ys e"
    using assms(1) by (auto simp: layout_append)
  have "layout mn m' a xs b" by (rule layout_cong_range [OF l(1) assms(2)]) (simp add: assms(3))
  moreover have "layout mn m' (b + n) ys e"
    by (rule layout_cong_range [OF l(2) assms(2)]) (simp add: assms(3))
  ultimately show ?thesis using assms(4) by (auto simp: layout_append)
qed

text \<open>Writing inside one block keeps the links of the other free blocks.\<close>

lemma next_outside:
  assumes "area_rep mn m fl a e bs" "(b, n, u) \<in> set bs" "x \<in> set (free_addrs bs)" "x \<noteq> b"
    and "\<And>y. y < b \<or> b + n \<le> y \<Longrightarrow> m' y = m y"
  shows "blk_next m' x = blk_next m x"
proof -
  have "x + 16 \<le> b \<or> b + n \<le> x" by (rule free_apart(1) [OF assms(1,3,2,4)])
  then show ?thesis
    unfolding blk_next_def using assms(5) by (intro ld64_cong) auto
qed

lemma layout_set_next:
  assumes "layout mn m a bs e" "16 \<le> mn" "(p, k, False) \<in> set bs"
  shows "layout mn (set_blk_next m p v) a bs e"
proof (rule layout_cong [OF assms(1)])
  have p: "16 \<le> k" "mn \<le> k" using layout_member [OF assms(1,3)] assms(2) by auto
  fix b n u assume b: "(b, n, u) \<in> set bs"
  have n: "16 \<le> n" "mn \<le> n" using layout_member [OF assms(1) b] assms(2) by auto
  have d: "(b, n, u) = (p, k, False) \<or> b + n \<le> p \<or> p + k \<le> b"
    by (rule layout_disjoint [OF assms(1) b assms(3)])
  show "set_blk_next m p v x = m x" if "b \<le> x" "x < b + 8" for x
    using d that n p by (auto simp: set_blk_next_def)
  show "set_blk_next m p v (b + n - 1) = m (b + n - 1)" if "u \<or> 24 \<le> mn"
    unfolding set_blk_next_def by (rule st64_other) (use d that n p in auto)
qed

lemma path_relink:
  assumes "path m fl (us @ [p]) r" "path m q vs 0" "q < two64"
    and "\<And>x. x \<in> set us \<union> set vs \<Longrightarrow> x + 8 \<le> p \<or> p + 8 \<le> x"
  shows "path (set_blk_next m p q) fl (us @ p # vs) 0"
proof -
  let ?m = "set_blk_next m p q"
  have same: "blk_next ?m x = blk_next m x" if "x \<in> set us \<union> set vs" for x
    using assms(4) [OF that] by (auto simp: blk_next_def set_blk_next_def)
  have "path m fl us p" "p \<noteq> 0" using assms(1) by (auto simp: path_append)
  moreover have "path ?m fl us p = path m fl us p" "path ?m q vs 0 = path m q vs 0"
    by (rule path_cong; simp add: same)+
  moreover have "blk_next ?m p = q" using assms(3) by (simp add: blk_next_def set_blk_next_def)
  ultimately show ?thesis using assms(2) by (auto simp: path_append)
qed

lemma sorted_free_addrs:
  "layout mn m a bs e \<Longrightarrow> 0 < mn \<Longrightarrow> sorted_wrt (<) (free_addrs bs)"
proof (induction bs arbitrary: a)
  case (Cons c bs)
  obtain b n u where c: "c = (b, n, u)" by (cases c)
  have l: "layout mn m (a + n) bs e" "b = a" "mn \<le> n" using Cons.prems c by auto
  have "b < x" if "x \<in> set (free_addrs bs)" for x
    using that layout_member [OF l(1)] l Cons.prems(2) by (fastforce simp: set_free_addrs)
  then show ?case using Cons.IH [OF l(1) Cons.prems(2)] c by auto
qed simp

lemma free_below: 
  assumes "layout mn m a (xs @ (b, n, u) # ys) e" "0 < mn"
  shows "x \<in> set (free_addrs xs) \<Longrightarrow> x < b" "x \<in> set (free_addrs ys) \<Longrightarrow> b < x"
proof -
  have l: "layout mn m a xs b" "layout mn m (b + n) ys e" "mn \<le> n"
    using assms(1) by (auto simp: layout_append)
  show "x < b" if "x \<in> set (free_addrs xs)"
    using that layout_member [OF l(1)] assms(2) by (fastforce simp: set_free_addrs)
  show "b < x" if "x \<in> set (free_addrs ys)"
    using that layout_member [OF l(2)] assms(2) l(3) by (fastforce simp: set_free_addrs)
qed

section \<open>Taking a block\<close>

text \<open>The blocks after \<open>mem_chunk_get\<close> took \<open>sz\<close> bytes from the free block \<open>(b, n)\<close>.\<close>

definition take_block :: "nat \<Rightarrow> block list \<Rightarrow> nat \<Rightarrow> nat \<Rightarrow> block list \<Rightarrow> block list" where
  "take_block sz xs b n ys =
     (if n - sz \<ge> MEM_HEAP_MIN_SIZE then xs @ (b, n - sz, False) # (b + (n - sz), sz, True) # ys
      else xs @ (b, n, True) # ys)"

definition taken_addr :: "nat \<Rightarrow> nat \<Rightarrow> nat \<Rightarrow> nat" where
  "taken_addr sz b n = (if n - sz \<ge> MEM_HEAP_MIN_SIZE then b + (n - sz) else b)"

definition taken_size :: "nat \<Rightarrow> nat \<Rightarrow> nat" where
  "taken_size sz n = (if n - sz \<ge> MEM_HEAP_MIN_SIZE then sz else n)"

definition split_mem :: "memory \<Rightarrow> nat \<Rightarrow> nat \<Rightarrow> nat \<Rightarrow> memory" where
  "split_mem m b k sz =
     (st64 ((st64 m b k)(b + k - 1 := MEM_BLOCK_STAT_FREE)) (b + k) sz)(b + k + sz - 1 := MEM_BLOCK_STAT_USE)"

lemma split_mem_facts:
  assumes "32 \<le> k" "16 \<le> sz" "b + k + sz < two64"
  shows "ld64 (split_mem m b k sz) b = k" "ld64 (split_mem m b k sz) (b + k) = sz"
    "split_mem m b k sz (b + k - 1) = MEM_BLOCK_STAT_FREE"
    "split_mem m b k sz (b + k + sz - 1) = MEM_BLOCK_STAT_USE"
    "blk_next (split_mem m b k sz) b = blk_next m b"
    "x < b \<or> b + (k + sz) \<le> x \<Longrightarrow> split_mem m b k sz x = m x"
proof -
  have e: "ld64 (m'(b + k - 1 := v)) b = ld64 m' b"
    "ld64 (m'(b + k + sz - 1 := v)) b = ld64 m' b" "ld64 (m'(b + k + sz - 1 := v)) (b + k) = ld64 m' (b + k)"
    "ld64 (m'(b + k - 1 := v)) (b + 8) = ld64 m' (b + 8)"
    "ld64 (m'(b + k + sz - 1 := v)) (b + 8) = ld64 m' (b + 8)" for m' v
    using assms by (auto intro!: ld64_upd_other)
  show "ld64 (split_mem m b k sz) b = k" "ld64 (split_mem m b k sz) (b + k) = sz"
    "blk_next (split_mem m b k sz) b = blk_next m b"
    using assms by (simp_all add: split_mem_def blk_next_def e del: fun_upd_apply One_nat_def)
  show "split_mem m b k sz (b + k - 1) = MEM_BLOCK_STAT_FREE"
    "split_mem m b k sz (b + k + sz - 1) = MEM_BLOCK_STAT_USE"
    "x < b \<or> b + (k + sz) \<le> x \<Longrightarrow> split_mem m b k sz x = m x"
    using assms by (auto simp: split_mem_def)
qed

lemma area_split:
  assumes r: "area_rep mn m fl a e bs" and bs: "bs = xs @ (b, k + sz, False) # ys"
    and k: "32 \<le> k" and sz: "mn \<le> sz" "8 dvd sz" and mn: "mn \<le> 24"
  shows "area_rep mn (split_mem m b k sz) fl a e (xs @ (b, k, False) # (b + k, sz, True) # ys)"
proof -
  let ?m = "split_mem m b k sz"
  have b: "(b, k + sz, False) \<in> set bs" using bs by simp
  have d: "8 dvd k" using area_member(6) [OF r b] sz(2) by (metis dvd_add_left_iff)
  have bd: "b + k + sz < two64" using area_member(3) [OF r b] by simp
  have s16: "16 \<le> sz" using r sz by (simp add: area_rep_def)
  note f = split_mem_facts [OF k s16 bd, where m = m]
  have "layout mn ?m a (xs @ [(b, k, False), (b + k, sz, True)] @ ys) e"
  proof (rule layout_replace)
    show "layout mn m a (xs @ (b, k + sz, False) # ys) e" "16 \<le> mn"
      using r bs by (auto simp: area_rep_def)
    show "layout mn ?m b [(b, k, False), (b + k, sz, True)] (b + (k + sz))"
      using f k d sz mn by simp
  qed (rule f(6))
  moreover have "path ?m fl (free_addrs bs) 0 = path m fl (free_addrs bs) 0"
  proof (rule path_cong)
    fix x assume x: "x \<in> set (free_addrs bs)"
    show "blk_next ?m x = blk_next m x"
      using next_outside [OF r b x, of ?m] f(5,6) by (cases "x = b") auto
  qed
  ultimately show ?thesis using r bs by (simp add: area_rep_def)
qed

definition unlink :: "memory \<Rightarrow> nat \<Rightarrow> nat \<Rightarrow> nat \<Rightarrow> nat \<times> memory" where
  "unlink m fl p b =
     (if p \<noteq> 0 then (fl, set_blk_next m p (blk_next m b)) else (blk_next m b, m))"

lemma area_unlink:
  assumes r: "area_rep mn m fl a e bs" and bs: "bs = xs @ (b, n, False) # ys"
    and u: "unlink m fl (lastz (free_addrs xs)) b = (fl', m')"
  shows "layout mn m' a bs e" "path m' fl' (free_addrs (xs @ ys)) 0"
    "m' x \<noteq> m x \<Longrightarrow> in_free bs x"
proof -
  have p: "path m fl (free_addrs xs @ b # free_addrs ys) 0" and l: "layout mn m a bs e"
    and mn: "16 \<le> mn" using r bs by (simp_all add: area_rep_def)
  then have nb: "path m (blk_next m b) (free_addrs ys) 0" by (auto simp: path_append)
  have nz: "0 \<notin> set (free_addrs xs)" using path_nonzero [OF p] by simp
  show "layout mn m' a bs e" "path m' fl' (free_addrs (xs @ ys)) 0" "m' x \<noteq> m x \<Longrightarrow> in_free bs x"
  proof (atomize (full), cases "free_addrs xs" rule: rev_cases)
    case Nil
    then show "layout mn m' a bs e \<and> path m' fl' (free_addrs (xs @ ys)) 0 \<and> (m' x \<noteq> m x \<longrightarrow> in_free bs x)"
      using u l nb by (auto simp: unlink_def)
  next
    case (snoc us q)
    then have q: "q \<noteq> 0" "q \<in> set (free_addrs xs)" using nz by auto
    then obtain k where k: "(q, k, False) \<in> set bs" using bs by (auto simp: set_free_addrs)
    have m': "m' = set_blk_next m q (blk_next m b)" "fl' = fl" using u q snoc by (auto simp: unlink_def)
    have srt: "sorted_wrt (<) (us @ q # b # free_addrs ys)"
      using sorted_free_addrs [OF l] mn bs snoc by simp
    have "path m' fl' (us @ q # free_addrs ys) 0"
      unfolding m'
    proof (rule path_relink [OF _ nb])
      show "path m fl (us @ [q]) b" using p snoc by (auto simp: path_append)
      show "blk_next m b < two64" by (simp add: blk_next_def)
      fix x assume "x \<in> set us \<union> set (free_addrs ys)"
      then have "x \<in> set (free_addrs bs)" "x \<noteq> q" using bs snoc srt by (auto simp: sorted_wrt_append)
      then show "x + 8 \<le> q \<or> q + 8 \<le> x" using free_apart [OF r _ k] by simp
    qed
    moreover have "layout mn m' a bs e" unfolding m' by (rule layout_set_next [OF l mn k])
    moreover have "m' x \<noteq> m x \<longrightarrow> in_free bs x"
      unfolding m' set_blk_next_def using area_member(4) [OF r k] k
      by (cases "q + 8 \<le> x \<and> x < q + 16") (auto intro!: in_freeI [OF k])
    ultimately show "layout mn m' a bs e \<and> path m' fl' (free_addrs (xs @ ys)) 0
        \<and> (m' x \<noteq> m x \<longrightarrow> in_free bs x)" using snoc by simp
  qed
qed

lemma area_take_whole:
  assumes r: "area_rep mn m fl a e bs" and bs: "bs = xs @ (b, n, False) # ys"
    and u: "unlink m fl (lastz (free_addrs xs)) b = (fl', m1)"
    and m': "m' = m1(b + n - 1 := MEM_BLOCK_STAT_USE)"
  shows "area_rep mn m' fl' a e (xs @ (b, n, True) # ys)" "m' x \<noteq> m x \<Longrightarrow> in_free bs x"
proof -
  note un = area_unlink [OF r bs u]
  have b: "(b, n, False) \<in> set bs" using bs by simp
  note mem = area_member [OF r b]
  have nb: "x \<noteq> b" if "x \<in> set (free_addrs (xs @ ys))" for x
    using that free_below [of mn m a xs b n False ys e] r bs by (fastforce simp: area_rep_def)
  have l1: "layout mn m1 a (xs @ (b, n, False) # ys) e" using un(1) bs by simp
  have "layout mn m' a (xs @ [(b, n, True)] @ ys) e"
  proof (rule layout_replace [OF l1])
    have "ld64 m1 b = n" using layout_member [OF un(1) b] by simp
    then have "ld64 m' b = n" using mem unfolding m' by (subst ld64_upd_other) auto
    then show "layout mn m' b [(b, n, True)] (b + n)" using mem m' by simp
  qed (use r m' mem in \<open>auto simp: area_rep_def\<close>)
  moreover have "path m' fl' (free_addrs (xs @ ys)) 0 = path m1 fl' (free_addrs (xs @ ys)) 0"
  proof (rule path_cong)
    fix x assume x: "x \<in> set (free_addrs (xs @ ys))"
    then have "x + 16 \<le> b \<or> b + n \<le> x" using free_apart(1) [OF r _ b] nb [OF x] bs by auto
    then show "blk_next m' x = blk_next m1 x"
      unfolding blk_next_def m' using mem by (intro ld64_upd_other) auto
  qed
  ultimately show "area_rep mn m' fl' a e (xs @ (b, n, True) # ys)"
    using r un(2) by (simp add: area_rep_def)
  show "in_free bs x" if "m' x \<noteq> m x"
  proof (cases "x = b + n - 1")
    case True
    then show ?thesis using in_freeI [OF b, of x] mem by simp
  next
    case False
    then show ?thesis using un(3) that m' by simp
  qed
qed

text \<open>The two ways in which a fitting free block \<open>t\<close> is taken: its end is cut off, or all of it is unlinked.\<close>

lemma chunk_get_split:
  assumes r: "area_rep mn m fl a e (xs @ (t, k + sz, False) # ys)" and sz: "mn \<le> sz" "8 dvd sz" and mn: "mn \<le> 24"
    and k: "MEM_HEAP_MIN_SIZE \<le> k" and find: "chunk_find m sz 0 fl = Some (pre, t)"
  shows "mem_chunk_get m fl sz = Some (t + k, fl, split_mem m t k sz)"
    "area_rep mn (split_mem m t k sz) fl a e (xs @ (t, k, False) # (t + k, sz, True) # ys)"
    "split_mem m t k sz x \<noteq> m x \<Longrightarrow> in_free (xs @ (t, k + sz, False) # ys) x"
proof -
  have b: "(t, k + sz, False) \<in> set (xs @ (t, k + sz, False) # ys)" by simp
  note mem = area_member [OF r b]
  have k32: "32 \<le> k" using k by (auto simp: MEM_HEAP_MIN_SIZE_def MEM_BLOCK_MIN_SIZE_def MEM_BLOCK_HEAD_SIZE_def)
  have s16: "16 \<le> sz" using r sz by (simp add: area_rep_def)
  have bd: "t + k + sz < two64" using mem(3) by simp
  let ?m1 = "st64 m t k" let ?m2 = "?m1(t + k - 1 := MEM_BLOCK_STAT_FREE)"
  have d1: "MEM_DOG_ADDR ?m1 t = t + k - 1" using bd k32 by (simp add: MEM_DOG_ADDR_def blk_size_def)
  have d2: "ld64 ?m2 t = k" using k32 bd by (subst ld64_upd_other) auto
  have d3: "MEM_DOG_ADDR (st64 ?m2 (t + k) sz) (t + k) = t + k + sz - 1"
    using bd s16 by (simp add: MEM_DOG_ADDR_def blk_size_def)
  have "add64 t k = t + k" "sub64 (blk_size m t) sz = k" using bd mem(7) by (simp_all add: blk_size_def)
  then show "mem_chunk_get m fl sz = Some (t + k, fl, split_mem m t k sz)"
    using find mem(8) d1 d2 d3 k
    by (simp add: mem_chunk_get_def set_blk_size_def set_dog_def Let_def split_mem_def blk_size_def)
  show "area_rep mn (split_mem m t k sz) fl a e (xs @ (t, k, False) # (t + k, sz, True) # ys)"
    by (rule area_split [OF r _ k32 sz mn]) simp
  show "split_mem m t k sz x \<noteq> m x \<Longrightarrow> in_free (xs @ (t, k + sz, False) # ys) x"
    using split_mem_facts(6) [OF k32 s16 bd, of x m] in_freeI [OF b, of x] by (meson not_le)
qed

lemma chunk_get_whole:
  assumes r: "area_rep mn m fl a e bs" and bs: "bs = xs @ (t, n, False) # ys" and n: "sz \<le> n" "\<not> MEM_HEAP_MIN_SIZE \<le> n - sz"
    and find: "chunk_find m sz 0 fl = Some (lastz (free_addrs xs), t)" and u: "unlink m fl (lastz (free_addrs xs)) t = (fl', m1)"
  shows "mem_chunk_get m fl sz = Some (t, fl', m1(t + n - 1 := MEM_BLOCK_STAT_USE))"
proof -
  have b: "(t, n, False) \<in> set bs" using bs by simp
  note mem = area_member [OF r b]
  have "ld64 m1 t = n" using layout_member [OF area_unlink(1) [OF r bs u] b] by simp
  then have "MEM_DOG_ADDR m1 t = t + n - 1" using mem by (simp add: MEM_DOG_ADDR_def blk_size_def)
  moreover have "blk_size m t = n" "sub64 n sz = n - sz" using mem n by (simp_all add: blk_size_def)
  ultimately show ?thesis using find mem(8) n u
    by (simp add: mem_chunk_get_def set_dog_def Let_def unlink_def split: if_splits)
qed

text \<open>
  \<open>mem_chunk_get\<close> fails exactly when no free block is large enough, and otherwise takes its
  block from one free block that is.
\<close>

lemma mem_chunk_get_takes:
  assumes r: "area_rep mn m fl a e bs" and sz: "mn \<le> sz" "8 dvd sz" and mn: "mn \<le> 24"
  shows "(\<forall>b n. (b, n, False) \<in> set bs \<longrightarrow> n < sz) \<and> mem_chunk_get m fl sz = Some (0, fl, m)
    \<or> (\<exists>xs b n ys fl' m'. bs = xs @ (b, n, False) # ys \<and> sz \<le> n
         \<and> mem_chunk_get m fl sz = Some (taken_addr sz b n, fl', m')
         \<and> area_rep mn m' fl' a e (take_block sz xs b n ys)
         \<and> (\<forall>x. m' x \<noteq> m x \<longrightarrow> in_free bs x))"
proof -
  have p: "path m fl (free_addrs bs) 0" using r by (simp add: area_rep_def)
  have szs: "blk_size m b = n" if "(b, n, u) \<in> set bs" for b n u
    using area_member(7) [OF r that] by (simp add: blk_size_def)
  consider (none) "\<forall>x\<in>set (free_addrs bs). blk_size m x < sz" "chunk_find m sz 0 fl = Some (0, 0)"
    | (some) us t vs where "chunk_find m sz 0 fl = Some (lastz us, t)" "free_addrs bs = us @ t # vs"
        "sz \<le> blk_size m t"
    using chunk_find_finds [OF p, of "free_addrs bs" "[]" 0 sz] by auto
  then show ?thesis
  proof cases
    case none
    then show ?thesis using szs by (fastforce simp: mem_chunk_get_def set_free_addrs)
  next
    case some
    obtain xs n ys where bs: "bs = xs @ (t, n, False) # ys" and us: "free_addrs xs = us"
      using free_addrs_split [OF some(2)] by blast
    have n: "sz \<le> n" using szs [of t n False] some(3) bs by simp
    show ?thesis
    proof (cases "MEM_HEAP_MIN_SIZE \<le> n - sz")
      case True
      have b: "bs = xs @ (t, n - sz + sz, False) # ys" using bs n by simp
      note sp = chunk_get_split [OF r [unfolded b] sz mn True some(1)]
      moreover have "take_block sz xs t n ys = xs @ (t, n - sz, False) # (t + (n - sz), sz, True) # ys"
        "taken_addr sz t n = t + (n - sz)" using True by (simp_all add: take_block_def taken_addr_def)
      ultimately show ?thesis using b bs n by metis
    next
      case False
      obtain fl' m1 where u: "unlink m fl (lastz (free_addrs xs)) t = (fl', m1)" by force
      let ?m = "m1(t + n - 1 := MEM_BLOCK_STAT_USE)"
      note get = chunk_get_whole [OF r bs n False some(1) [folded us] u]
      show ?thesis
        using get area_take_whole [OF r bs u, of ?m] bs n False
        by (intro disjI2 exI [of _ xs] exI [of _ t] exI [of _ n] exI [of _ ys] exI [of _ fl']
             exI [of _ ?m]) (auto simp: take_block_def taken_addr_def)
    qed
  qed
qed

section \<open>Giving a block back\<close>

lemma area_mark_free:
  assumes r: "area_rep mn m fl a e bs" and bs: "bs = xs @ (b, n, True) # ys"
    and m1: "m1 = m(b + n - 1 := MEM_BLOCK_STAT_FREE)"
  shows "layout mn m1 a (xs @ (b, n, False) # ys) e" "path m1 fl (free_addrs xs @ free_addrs ys) 0"
proof -
  have b: "(b, n, True) \<in> set bs" using bs by simp
  note mem = area_member [OF r b]
  have l: "layout mn m a (xs @ (b, n, True) # ys) e" using r bs by (simp add: area_rep_def)
  have mn: "16 \<le> mn" using r by (simp add: area_rep_def)
  have "ld64 m1 b = n" unfolding m1 using mem by (subst ld64_upd_other) auto
  moreover have out: "m1 x = m x" if "x < b \<or> b + n \<le> x" for x using that mem m1 by auto
  ultimately have "layout mn m1 a (xs @ [(b, n, False)] @ ys) e"
    using mem m1 by (intro layout_replace [OF l mn]) auto
  then show "layout mn m1 a (xs @ (b, n, False) # ys) e" by simp
  have "path m1 fl (free_addrs bs) 0 = path m fl (free_addrs bs) 0"
  proof (rule path_cong)
    fix x assume x: "x \<in> set (free_addrs bs)"
    then have "x \<noteq> b" using free_below [OF l] mn bs by fastforce
    then show "blk_next m1 x = blk_next m x" using next_outside [OF r b x] out by blast
  qed
  then show "path m1 fl (free_addrs xs @ free_addrs ys) 0" using r bs by (simp add: area_rep_def)
qed

lemma free_pos_between:
  assumes l: "layout mn m a (xs @ (b, n, False) # ys) e" and mn: "0 < mn"
    and p: "path m fl (free_addrs xs @ free_addrs ys) 0"
  shows "free_pos m b 0 fl = Some (lastz (free_addrs xs), if free_addrs ys = [] then 0 else hd (free_addrs ys))"
proof -
  have "sorted_wrt (<) (free_addrs xs @ b # free_addrs ys)" using sorted_free_addrs [OF l mn] by simp
  then have "sorted_wrt (<) ([] @ free_addrs xs @ free_addrs ys)" by (auto simp: sorted_wrt_append)
  from free_pos_finds [OF p this, of 0 b] obtain us vs where
    e: "free_addrs xs @ free_addrs ys = us @ vs" and u: "\<forall>x\<in>set us. x < b" and v: "\<forall>x\<in>set vs. b \<le> x"
    and f: "free_pos m b 0 fl = Some (lastz us, if vs = [] then 0 else hd vs)" by auto
  have "us = filter (\<lambda>x. x < b) (us @ vs)" "vs = filter (\<lambda>x. \<not> x < b) (us @ vs)"
    using u v by (auto simp: filter_empty_conv not_less intro!: filter_True [symmetric])
  have lt: "\<forall>x\<in>set (free_addrs xs). x < b" "\<forall>x\<in>set (free_addrs ys). b \<le> x"
    using free_below [OF l mn] by (auto simp: less_imp_le)
  then have "free_addrs xs = filter (\<lambda>x. x < b) (free_addrs xs @ free_addrs ys)"
    "free_addrs ys = filter (\<lambda>x. \<not> x < b) (free_addrs xs @ free_addrs ys)"
    using lt by (auto simp: filter_empty_conv not_less intro!: filter_True [symmetric])
  with \<open>us = _\<close> \<open>vs = _\<close> show ?thesis using e f by metis
qed

text \<open>The blocks after the block \<open>(b, n)\<close> between \<open>xs\<close> and \<open>ys\<close> was given back.\<close>

definition free_left :: "block list \<Rightarrow> nat \<Rightarrow> nat \<Rightarrow> block list \<times> nat \<times> nat" where
  "free_left xs b n =
     (if xs \<noteq> [] \<and> \<not> snd (snd (last xs)) then (butlast xs, fst (last xs), fst (snd (last xs)) + n)
      else (xs, b, n))"

fun free_right :: "nat \<Rightarrow> block list \<Rightarrow> nat \<times> block list" where
  "free_right k [] = (k, [])"
| "free_right k ((q, j, u) # ys) = (if u then (k, (q, j, u) # ys) else (k + j, ys))"

definition give_block :: "block list \<Rightarrow> nat \<Rightarrow> nat \<Rightarrow> block list \<Rightarrow> block list" where
  "give_block xs b n ys =
     (let (xs', p, k) = free_left xs b n; (k', ys') = free_right k ys in xs' @ (p, k', False) # ys')"

definition hdz :: "nat list \<Rightarrow> nat" where
  "hdz vs = (if vs = [] then 0 else hd vs)"

lemma path_hdz: "path m q vs 0 \<Longrightarrow> q = hdz vs"
  by (cases vs) (auto simp: hdz_def)

lemma layout_merge:
  assumes l: "layout mn m a (xs @ (p, k, False) # (b, n, False) # ys) e" and mn: "16 \<le> mn" and e: "e < two64"
  shows "layout mn (st64 m p (k + n)) a (xs @ (p, k + n, False) # ys) e"
proof -
  obtain c where c: "layout mn m a xs c" "layout mn m c ((p, k, False) # (b, n, False) # ys) e"
    using l by (auto simp: layout_append)
  then have eq: "c = p" "b = p + k" "mn \<le> k" "mn \<le> n" "8 dvd k" "8 dvd n"
    and y: "layout mn m (p + k + n) ys e" and dog: "24 \<le> mn \<longrightarrow> m (p + k + n - 1) = MEM_BLOCK_STAT_FREE"
    by auto
  have lt: "k + n < two64" using layout_le [OF y] e by simp
  let ?m = "st64 m p (k + n)"
  have "layout mn ?m a xs p" by (rule layout_cong_range [OF _ mn]) (use c eq in auto)
  moreover have "layout mn ?m (p + k + n) ys e"
    by (rule layout_cong_range [OF y mn]) (use eq mn in \<open>auto intro!: st64_other\<close>)
  moreover have "?m (p + k + n - 1) = m (p + k + n - 1)" by (rule st64_other) (use eq mn in auto)
  ultimately show ?thesis using eq lt dog by (auto simp: layout_append add.assoc)
qed

lemma next_set_size:
  assumes "area_rep mn m0 fl a e bs" "(p, k, u) \<in> set bs" "x = p \<or> x \<in> set (free_addrs bs)"
  shows "blk_next (st64 m p v) x = blk_next m x"
proof -
  have "x + 16 \<le> p \<or> p \<le> x"
    using free_apart(1) [OF assms(1) _ assms(2), of x] assms(3) by (cases "x = p") auto
  then show ?thesis unfolding blk_next_def by (intro ld64_st64_other) auto
qed

lemma layout_last:
  assumes "layout mn m a xs b" "(p, k, u) \<in> set xs" "p + k = b" "0 < mn"
  shows "\<exists>xs'. xs = xs' @ [(p, k, u)]"
proof (cases xs rule: rev_cases)
  case Nil
  then show ?thesis using assms(2) by simp
next
  case (snoc xs' c)
  obtain c0 c1 c2 where c: "c = (c0, c1, c2)" by (cases c)
  have "c0 + c1 = b" "mn \<le> c1" using assms(1) snoc c by (auto simp: layout_append)
  moreover have "mn \<le> k" using layout_member [OF assms(1,2)] by simp
  ultimately have "(p, k, u) = c"
    using layout_disjoint [OF assms(1,2), of c0 c1 c2] snoc c assms(3,4) by auto
  then show ?thesis using snoc by simp
qed

lemma layout_first:
  assumes "layout mn m c ys e" "c \<in> set (free_addrs ys)" "0 < mn"
  shows "\<exists>j ys'. ys = (c, j, False) # ys'"
proof (cases ys)
  case Nil
  then show ?thesis using assms(2) by simp
next
  case (Cons d ys')
  obtain d0 d1 d2 where d: "d = (d0, d1, d2)" by (cases d)
  then have d': "(c, d1, d2) \<in> set ys" using assms(1) Cons by auto
  obtain j where "(c, j, False) \<in> set ys" using assms(2) by (auto simp: set_free_addrs)
  then have "\<not> d2" using layout_same_addr [OF assms(1) d' _ assms(3)] by blast
  then show ?thesis using d Cons assms(1) by auto
qed

lemma free_merge_step:
  assumes r: "area_rep mn m fl a e (xs @ (p, k, False) # ys)" and f: "free_right k ys = (k', ys')"
  shows "area_rep mn (free_merge m p (hdz (free_addrs ys))) fl a e (xs @ (p, k', False) # ys')"
    "free_merge m p (hdz (free_addrs ys)) x \<noteq> m x \<Longrightarrow> p \<le> x \<and> x < p + 16"
proof -
  let ?bs = "xs @ (p, k, False) # ys" let ?q = "hdz (free_addrs ys)"
  have pb: "(p, k, False) \<in> set ?bs" by simp
  note mem = area_member [OF r pb]
  have mn: "16 \<le> mn" "e < two64" and l: "layout mn m a ?bs e" using r by (auto simp: area_rep_def)
  have ly: "layout mn m (p + k) ys e" using l by (auto simp: layout_append)
  have size: "blk_size m p = k" using mem by (simp add: blk_size_def)
  have nz: "0 \<notin> set (free_addrs ?bs)" using r path_nonzero unfolding area_rep_def by blast
  have "area_rep mn (free_merge m p ?q) fl a e (xs @ (p, k', False) # ys')
      \<and> (free_merge m p ?q x \<noteq> m x \<longrightarrow> p \<le> x \<and> x < p + 16)"
  proof (cases "?q \<noteq> 0 \<and> p + k = ?q")
    case True
    then have "p + k \<in> set (free_addrs ys)" by (auto simp: hdz_def split: if_splits)
    then obtain j zs where ys: "ys = (p + k, j, False) # zs" using layout_first [OF ly] mn by auto
    have q: "?q = p + k" using True by simp
    have jb: "(p + k, j, False) \<in> set ?bs" using ys by simp
    note memj = area_member [OF r jb]
    let ?m1 = "st64 m p (k + j)" let ?m2 = "set_blk_next ?m1 p (blk_next ?m1 (p + k))"
    have fm: "free_merge m p ?q = ?m2"
      using True size memj by (simp add: free_merge_def set_blk_size_def Let_def blk_size_def)
    have l1: "layout mn ?m1 a (xs @ (p, k + j, False) # zs) e"
      using layout_merge [of mn m a xs p k "p + k" j zs e] l ys mn by simp
    have same: "blk_next ?m1 x = blk_next m x" if "x \<in> set (free_addrs ?bs)" for x
      using next_set_size [OF r pb] that by blast
    have p1: "path ?m1 fl (free_addrs ?bs) 0"
      using r same path_cong [of "free_addrs ?bs" ?m1 m fl 0] by (simp add: area_rep_def)
    have "path ?m2 fl (free_addrs xs @ p # free_addrs zs) 0"
    proof (rule path_relink)
      show "path ?m1 fl (free_addrs xs @ [p]) (p + k)" "path ?m1 (blk_next ?m1 (p + k)) (free_addrs zs) 0"
        using p1 ys by (auto simp: path_append)
      show "blk_next ?m1 (p + k) < two64" by (simp add: blk_next_def)
      fix x assume x: "x \<in> set (free_addrs xs) \<union> set (free_addrs zs)"
      have "x \<noteq> p" using free_below [OF l] x ys mn by fastforce
      then show "x + 8 \<le> p \<or> p + 8 \<le> x" using free_apart(2) [OF r _ pb, of x] x ys by auto
    qed
    moreover have "layout mn ?m2 a (xs @ (p, k + j, False) # zs) e"
      by (rule layout_set_next [OF l1 mn(1), of p "k + j"]) simp
    moreover have "?m2 x \<noteq> m x \<longrightarrow> p \<le> x \<and> x < p + 16"
      by (cases "p \<le> x \<and> x < p + 16") (auto simp: set_blk_next_def)
    ultimately show ?thesis using r f ys fm by (auto simp: area_rep_def)
  next
    case False
    then have "free_merge m p ?q = m" using size mem by (auto simp: free_merge_def)
    moreover have "(k', ys') = (k, ys)"
    proof (cases ys)
      case (Cons d zs)
      obtain d0 d1 d2 where d: "d = (d0, d1, d2)" by (cases d)
      have "d0 = p + k" using ly Cons d by auto
      then have d2 using False Cons d nz by (auto simp: hdz_def split: if_splits)
      then show ?thesis using f Cons d by simp
    qed (use f in simp)
    ultimately show ?thesis using r by simp
  qed
  then show "area_rep mn (free_merge m p ?q) fl a e (xs @ (p, k', False) # ys')"
    "free_merge m p ?q x \<noteq> m x \<Longrightarrow> p \<le> x \<and> x < p + 16" by auto
qed

text \<open>
  Linking a released block \<open>b\<close>: its next field is written first, giving \<open>m2\<close>; then the block before it
  either grows over it or is made to point to it.
\<close>

lemma free_link_head:
  assumes r: "area_rep mn m fl a e (xs @ (b, n, True) # ys)"
    and m1: "m1 = m(b + n - 1 := MEM_BLOCK_STAT_FREE)" and m2: "m2 = set_blk_next m1 b (hdz (free_addrs ys))"
  shows "layout mn m2 a (xs @ (b, n, False) # ys) e" "path m2 fl (free_addrs xs) (hdz (free_addrs ys))"
    "path m2 (hdz (free_addrs ys)) (free_addrs ys) 0" "path m2 b (b # free_addrs ys) 0"
    "m2 x \<noteq> m1 x \<Longrightarrow> in_free (xs @ (b, n, False) # ys) x"
proof -
  let ?bs = "xs @ (b, n, True) # ys" let ?bs' = "xs @ (b, n, False) # ys" let ?q = "hdz (free_addrs ys)"
  have mn: "16 \<le> mn" "e < two64" "0 < a" "8 dvd a" using r by (auto simp: area_rep_def)
  have b: "(b, n, True) \<in> set ?bs" and b': "(b, n, False) \<in> set ?bs'" by simp_all
  note mem = area_member [OF r b]
  note mf = area_mark_free [OF r refl m1]
  show l2: "layout mn m2 a ?bs' e" unfolding m2 by (rule layout_set_next [OF mf(1) mn(1) b'])
  have nb: "x \<noteq> b" if "x \<in> set (free_addrs xs) \<union> set (free_addrs ys)" for x
    using that free_below [OF l2] mn(1) by fastforce
  have apart: "x + 16 \<le> b \<or> b + n \<le> x" if "x \<in> set (free_addrs xs) \<union> set (free_addrs ys)" for x
    using free_apart(1) [OF r _ b] nb [OF that] that by auto
  have "path m2 fl (free_addrs xs @ free_addrs ys) 0 = path m1 fl (free_addrs xs @ free_addrs ys) 0"
  proof (rule path_cong)
    fix x assume "x \<in> set (free_addrs xs @ free_addrs ys)"
    then show "blk_next m2 x = blk_next m1 x"
      unfolding m2 blk_next_def set_blk_next_def using apart [of x] mem(4) by (intro ld64_st64_other) auto
  qed
  then obtain t where t: "path m2 fl (free_addrs xs) t" "path m2 t (free_addrs ys) 0"
    using mf(2) by (auto simp: path_append)
  then have tq: "t = ?q" using path_hdz by blast
  then show "path m2 fl (free_addrs xs) ?q" "path m2 ?q (free_addrs ys) 0" using t by simp_all
  have qb: "?q < two64"
  proof (cases "free_addrs ys")
    case (Cons x vs)
    then obtain j where "(x, j, False) \<in> set ?bs" using set_free_addrs [of x ys] by auto
    from area_member(3) [OF r this] show ?thesis using Cons by (simp add: hdz_def)
  qed (simp add: hdz_def)
  then show "path m2 b (b # free_addrs ys) 0"
    using t tq mem by (simp add: blk_next_def set_blk_next_def m2)
  show "in_free ?bs' x" if "m2 x \<noteq> m1 x"
    using that mem(4) in_freeI [OF b', of x] by (cases "b + 8 \<le> x \<and> x < b + 16") (auto simp: set_blk_next_def m2)
qed

lemma free_link_join:
  assumes r: "area_rep mn m fl a e (xs @ (b, n, True) # ys)"
    and m1: "m1 = m(b + n - 1 := MEM_BLOCK_STAT_FREE)" and m2: "m2 = set_blk_next m1 b (hdz (free_addrs ys))"
    and zs: "xs = zs @ [(c, j, False)]"
  shows "free_link m1 fl b c (hdz (free_addrs ys)) = (fl, c, st64 m2 c (j + n))
    \<and> area_rep mn (st64 m2 c (j + n)) fl a e (zs @ (c, j + n, False) # ys)
    \<and> (st64 m2 c (j + n) x \<noteq> m1 x \<longrightarrow> in_free (xs @ (b, n, False) # ys) x)"
proof -
  let ?bs = "xs @ (b, n, True) # ys" let ?bs' = "xs @ (b, n, False) # ys" let ?m3 = "st64 m2 c (j + n)"
  have mn: "16 \<le> mn" "e < two64" "0 < a" "8 dvd a" using r by (auto simp: area_rep_def)
  have b: "(b, n, True) \<in> set ?bs" "(b, n, False) \<in> set ?bs'" and c: "(c, j, False) \<in> set ?bs" "(c, j, False) \<in> set ?bs'"
    using zs by simp_all
  note mem = area_member [OF r b(1)] and memc = area_member [OF r c(1)] and h = free_link_head [OF r m1 m2]
  have sz: "blk_size m2 c = j" "blk_size m2 b = n" "c + j = b"
    using layout_member [OF h(1) c(2)] layout_member [OF h(1) b(2)] h(1) zs by (auto simp: blk_size_def layout_append)
  then have "free_link m1 fl b c (hdz (free_addrs ys)) = (fl, c, ?m3)"
    using memc mem by (simp add: free_link_def set_blk_size_def Let_def flip: m2)
  moreover have "layout mn ?m3 a (zs @ (c, j + n, False) # ys) e"
    using layout_merge [of mn m2 a zs c j b n ys e] h(1) zs mn by simp
  moreover have "path ?m3 fl (free_addrs zs @ c # free_addrs ys) 0 = path m2 fl (free_addrs zs @ c # free_addrs ys) 0"
    by (rule path_cong, rule next_set_size [OF r c(1)]) (use zs in auto)
  moreover have "path m2 fl (free_addrs zs @ c # free_addrs ys) 0"
    using h(2,3) zs by (auto simp: path_append)
  moreover have "?m3 x \<noteq> m1 x \<longrightarrow> in_free ?bs' x"
    using h(5) [of x] in_freeI [OF c(2), of x] memc(4) by (cases "c \<le> x \<and> x < c + 8") auto
  ultimately show ?thesis using mn by (simp add: area_rep_def)
qed

lemma free_link_insert:
  assumes r: "area_rep mn m fl a e (xs @ (b, n, True) # ys)"
    and m1: "m1 = m(b + n - 1 := MEM_BLOCK_STAT_FREE)" and m2: "m2 = set_blk_next m1 b (hdz (free_addrs ys))"
    and us: "free_addrs xs = us @ [c]" and j: "(c, j, False) \<in> set xs" and nj: "c + j \<noteq> b"
  shows "free_link m1 fl b c (hdz (free_addrs ys)) = (fl, b, set_blk_next m2 c b)
    \<and> area_rep mn (set_blk_next m2 c b) fl a e (xs @ (b, n, False) # ys)
    \<and> (set_blk_next m2 c b x \<noteq> m1 x \<longrightarrow> in_free (xs @ (b, n, False) # ys) x)"
proof -
  let ?bs = "xs @ (b, n, True) # ys" let ?bs' = "xs @ (b, n, False) # ys" let ?m3 = "set_blk_next m2 c b"
  have mn: "16 \<le> mn" "e < two64" "0 < a" "8 dvd a" using r by (auto simp: area_rep_def)
  have b: "(b, n, True) \<in> set ?bs" "(b, n, False) \<in> set ?bs'" and c: "(c, j, False) \<in> set ?bs" "(c, j, False) \<in> set ?bs'"
    using j by simp_all
  note mem = area_member [OF r b(1)] and memc = area_member [OF r c(1)] and h = free_link_head [OF r m1 m2]
  have lx: "layout mn m2 a xs b" using h(1) by (auto simp: layout_append)
  have sz: "blk_size m2 c = j" "blk_size m2 b = n" "c + j \<le> b"
    using layout_member [OF h(1) c(2)] layout_member [OF h(1) b(2)] layout_member [OF lx j] by (auto simp: blk_size_def)
  then have "free_link m1 fl b c (hdz (free_addrs ys)) = (fl, b, ?m3)"
    using nj memc mem by (simp add: free_link_def Let_def flip: m2)
  moreover have "path ?m3 fl (us @ c # b # free_addrs ys) 0"
  proof (rule path_relink [OF _ h(4)])
    show "path m2 fl (us @ [c]) (hdz (free_addrs ys))" "b < two64" using h(2) us mem by auto
    fix x assume x: "x \<in> set us \<union> set (b # free_addrs ys)"
    have "sorted_wrt (<) (us @ [c])" using sorted_free_addrs [OF lx] mn us by simp
    moreover have "c < b" using sz memc by simp
    moreover have "b < x" if "x \<in> set (free_addrs ys)" using free_below(2) [OF h(1)] that mn by simp
    ultimately have "x \<noteq> c" "x = b \<or> x \<in> set (free_addrs ?bs)" using x us by (auto simp: sorted_wrt_append)
    then show "x + 8 \<le> c \<or> c + 8 \<le> x"
      using free_apart(2) [OF r _ c(1), of x] sz memc by auto
  qed
  moreover have "layout mn ?m3 a ?bs' e" by (rule layout_set_next [OF h(1) mn(1) c(2)])
  moreover have "?m3 x \<noteq> m1 x \<longrightarrow> in_free ?bs' x"
    using h(5) [of x] in_freeI [OF c(2), of x] memc(4)
    by (cases "c + 8 \<le> x \<and> x < c + 16") (auto simp: set_blk_next_def [of m2])
  ultimately show ?thesis using mn us by (simp add: area_rep_def)
qed

text \<open>The block before \<open>b\<close> takes it in exactly when it is free.\<close>

lemma free_left_same:
  assumes "free_left xs b n = (xs', p, k)" "layout mn m a xs b" "0 < mn" "\<forall>c j. (c, j, False) \<in> set xs \<longrightarrow> c + j \<noteq> b"
  shows "(xs', p, k) = (xs, b, n)"
proof (cases xs rule: rev_cases)
  case (snoc zs d)
  obtain d0 d1 d2 where d: "d = (d0, d1, d2)" by (cases d)
  have "d0 + d1 = b" using assms(2) snoc d by (auto simp: layout_append)
  then have d2 using assms(4) snoc d by (cases d2) auto
  then show ?thesis using assms(1) snoc d by (auto simp: free_left_def)
qed (use assms(1) in \<open>simp add: free_left_def\<close>)

lemma free_link_step:
  assumes r: "area_rep mn m fl a e (xs @ (b, n, True) # ys)"
    and m1: "m1 = m(b + n - 1 := MEM_BLOCK_STAT_FREE)" and f: "free_left xs b n = (xs', p, k)"
  shows "\<exists>fl' m2. free_link m1 fl b (lastz (free_addrs xs)) (hdz (free_addrs ys)) = (fl', p, m2)
    \<and> area_rep mn m2 fl' a e (xs' @ (p, k, False) # ys)
    \<and> (\<forall>x. m2 x \<noteq> m1 x \<longrightarrow> in_free (xs @ (b, n, False) # ys) x)"
proof -
  define m2 where "m2 = set_blk_next m1 b (hdz (free_addrs ys))"
  note h = free_link_head [OF r m1 m2_def]
  have mn: "16 \<le> mn" "e < two64" "0 < a" "8 dvd a" using r by (auto simp: area_rep_def)
  have lx: "layout mn m2 a xs b" using h(1) by (auto simp: layout_append)
  show ?thesis
  proof (cases "free_addrs xs" rule: rev_cases)
    case Nil
    then have "(c, j, False) \<notin> set xs" for c j using set_free_addrs [of c xs] by auto
    then have "(xs', p, k) = (xs, b, n)" using free_left_same [OF f lx] mn by simp
    then show ?thesis using h mn Nil by (auto simp: free_link_def area_rep_def simp flip: m2_def)
  next
    case (snoc us c)
    then obtain j where j: "(c, j, False) \<in> set xs" using set_free_addrs [of c xs] by auto
    show ?thesis
    proof (cases "c + j = b")
      case True
      then obtain zs where zs: "xs = zs @ [(c, j, False)]" using layout_last [OF lx j] mn by auto
      then have "xs' = zs" "p = c" "k = j + n" using f by (auto simp: free_left_def)
      then show ?thesis using free_link_join [OF r m1 m2_def zs] snoc by auto
    next
      case False
      have "c' + j' \<noteq> b" if c': "(c', j', False) \<in> set xs" for c' j'
      proof
        assume b: "c' + j' = b"
        then have "\<exists>zs. xs = zs @ [(c', j', False)]" using layout_last [OF lx c'] mn by auto
        then have "c' = c" using snoc by auto
        then show False using layout_same_addr [OF lx j, of j' False] c' b False mn by simp
      qed
      then have "(xs', p, k) = (xs, b, n)" using free_left_same [OF f lx] mn by simp
      then show ?thesis using free_link_insert [OF r m1 m2_def snoc j False] snoc by auto
    qed
  qed
qed

end
