(* ===== verification/Allocator_Spec.thy ===== *)
theory Allocator_Spec
  imports Byte_Memory
begin

text \<open>
  The contract between a dynamic memory manager and its clients: live regions do not overlap, a
  successful request yields a fresh region of at least the requested size, neither requests nor
  releases disturb the bytes of other live regions, and clients may store into their regions.
  A live region is a pair of address and capacity; address 0 is the null pointer.
\<close>

text \<open>Clients take the two operations they call as arguments.\<close>

type_synonym 'a malloc_fn = "'a \<Rightarrow> nat \<Rightarrow> (nat \<times> 'a) option"
type_synonym 'a free_fn = "'a \<Rightarrow> nat \<Rightarrow> 'a option"

fun alloc_many :: "('s \<Rightarrow> nat \<Rightarrow> (nat \<times> 's) option) \<Rightarrow> 's \<Rightarrow> nat list \<Rightarrow> (nat list \<times> 's) option" where
  "alloc_many alloc s [] = Some ([], s)"
| "alloc_many alloc s (n # ns) =
     Option.bind (alloc s n) (\<lambda>(p, s1).
       Option.bind (alloc_many alloc s1 ns) (\<lambda>(ps, s2). Some (p # ps, s2)))"

definition in_region :: "nat \<times> nat \<Rightarrow> nat \<Rightarrow> bool" where
  "in_region r x \<longleftrightarrow> fst r \<le> x \<and> x < fst r + snd r"

definition apart :: "nat \<times> nat \<Rightarrow> nat \<times> nat \<Rightarrow> bool" where
  "apart r r' \<longleftrightarrow> fst r + snd r \<le> fst r' \<or> fst r' + snd r' \<le> fst r"

text \<open>The regions of the successful requests among \<open>ps\<close> for the sizes \<open>ns\<close>.\<close>

definition granted :: "nat list \<Rightarrow> nat list \<Rightarrow> (nat \<times> nat) list" where
  "granted ps ns = filter (\<lambda>(p, n). p \<noteq> 0) (zip ps ns)"

lemma granted_simps [simp]:
  "granted [] ns = []"
  "granted (p # ps) (n # ns) = (if p \<noteq> 0 then (p, n) # granted ps ns else granted ps ns)"
  by (simp_all add: granted_def)

locale allocator =
  fixes rep :: "'s \<Rightarrow> (nat \<times> nat) set \<Rightarrow> bool"
    and peek :: "'s \<Rightarrow> nat \<Rightarrow> u8"
    and poke :: "'s \<Rightarrow> nat \<Rightarrow> u8 \<Rightarrow> 's"
    and alloc :: "'s \<Rightarrow> nat \<Rightarrow> (nat \<times> 's) option"
    and release :: "'s \<Rightarrow> nat \<Rightarrow> 's option"
    and lim :: nat
  assumes live_apart: "rep s L \<Longrightarrow> r \<in> L \<Longrightarrow> r' \<in> L \<Longrightarrow> r = r' \<or> apart r r'"
    and live_nonnull: "rep s L \<Longrightarrow> (p, n) \<in> L \<Longrightarrow> 0 < p \<and> 0 < n"
    and alloc_result: "rep s L \<Longrightarrow> 0 < n \<Longrightarrow> n < lim \<Longrightarrow>
          \<exists>p s' L'. alloc s n = Some (p, s') \<and> rep s' L'
            \<and> (\<forall>r\<in>L. \<forall>x. in_region r x \<longrightarrow> peek s' x = peek s x)
            \<and> (p = 0 \<and> L' = L \<or> (\<exists>c\<ge>n. (p, c) \<notin> L \<and> L' = insert (p, c) L))"
    and release_result: "rep s L \<Longrightarrow> (p, c) \<in> L \<Longrightarrow>
          \<exists>s'. release s p = Some s' \<and> rep s' (L - {(p, c)})
            \<and> (\<forall>r\<in>L - {(p, c)}. \<forall>x. in_region r x \<longrightarrow> peek s' x = peek s x)"
    and poke_live: "rep s L \<Longrightarrow> r \<in> L \<Longrightarrow> in_region r x \<Longrightarrow> rep (poke s x v) L"
    and peek_poke: "peek (poke s x v) y = (if y = x then v else peek s y)"
begin

text \<open>Any sequence of requests terminates and grants pairwise disjoint regions.\<close>

lemma many:
  assumes "rep s L" "\<forall>n\<in>set ns. 0 < n \<and> n < lim"
  shows "\<exists>ps s' L'. alloc_many alloc s ns = Some (ps, s') \<and> length ps = length ns \<and> rep s' L' \<and> L \<subseteq> L'
     \<and> (\<forall>r\<in>L. \<forall>x. in_region r x \<longrightarrow> peek s' x = peek s x)
     \<and> (\<forall>(p, n)\<in>set (granted ps ns). \<exists>c\<ge>n. (p, c) \<in> L' - L)
     \<and> sorted_wrt apart (granted ps ns)"
  using assms
proof (induction ns arbitrary: s L)
  case Nil
  then show ?case by auto
next
  case (Cons n ns)
  then obtain p s1 L1 where a: "alloc s n = Some (p, s1)" "rep s1 L1"
    "\<forall>r\<in>L. \<forall>x. in_region r x \<longrightarrow> peek s1 x = peek s x"
    and p: "p = 0 \<and> L1 = L \<or> (\<exists>c\<ge>n. (p, c) \<notin> L \<and> L1 = insert (p, c) L)"
    using alloc_result [of s L n] by auto
  have sub: "L \<subseteq> L1" using p by auto
  obtain ps s' L' where m: "alloc_many alloc s1 ns = Some (ps, s')" "length ps = length ns" "rep s' L'"
    "L1 \<subseteq> L'" "\<forall>r\<in>L1. \<forall>x. in_region r x \<longrightarrow> peek s' x = peek s1 x"
    "\<forall>(p, n)\<in>set (granted ps ns). \<exists>c\<ge>n. (p, c) \<in> L' - L1" "sorted_wrt apart (granted ps ns)"
    using Cons.IH [OF a(2)] Cons.prems(2) by auto
  have new: "(\<exists>c\<ge>n. (p, c) \<in> L' - L) \<and> (\<forall>r\<in>set (granted ps ns). apart (p, n) r)" if p0: "p \<noteq> 0"
  proof -
    obtain c where c: "n \<le> c" "(p, c) \<in> L1" "(p, c) \<notin> L" using p p0 by auto
    have "apart (p, n) (q, k)" if q: "(q, k) \<in> set (granted ps ns)" for q k
    proof -
      obtain d where d: "k \<le> d" "(q, d) \<in> L'" "(q, d) \<notin> L1" using m(6) q by auto
      moreover have "(p, c) \<in> L'" "(p, c) \<noteq> (q, d)" using c m(4) d by auto
      ultimately show ?thesis
        using live_apart [OF m(3), of "(p, c)" "(q, d)"] c(1) by (auto simp: apart_def)
    qed
    then show ?thesis using c m(4) by auto
  qed
  have "\<forall>r\<in>L. \<forall>x. in_region r x \<longrightarrow> peek s' x = peek s x" using a(3) m(5) sub by auto
  moreover have "\<forall>(q, k)\<in>set (granted ps ns). \<exists>c\<ge>k. (q, c) \<in> L' - L" using m(6) sub by blast
  ultimately show ?case using a m sub new
    by (intro exI [of _ "p # ps"] exI [of _ s'] exI [of _ L']) auto
qed

text \<open>A value stored in a live region survives later requests and releases of other regions.\<close>

lemma keeps_value:
  assumes "rep s L" "(p, c) \<in> L" "in_region (p, c) x" "(q, d) \<in> L" "q \<noteq> p" "0 < n" "n < lim"
  shows "\<exists>s1 p' s2. release (poke s x v) q = Some s1 \<and> alloc s1 n = Some (p', s2) \<and> peek s2 x = v"
proof -
  have r: "rep (poke s x v) L" by (rule poke_live [OF assms(1,2,3)])
  obtain s1 where s1: "release (poke s x v) q = Some s1" "rep s1 (L - {(q, d)})"
    "\<forall>r\<in>L - {(q, d)}. \<forall>y. in_region r y \<longrightarrow> peek s1 y = peek (poke s x v) y"
    using release_result [OF r assms(4)] by blast
  have pc: "(p, c) \<in> L - {(q, d)}" using assms(2,5) by simp
  obtain p' s2 where "alloc s1 n = Some (p', s2)"
    "\<forall>r\<in>L - {(q, d)}. \<forall>y. in_region r y \<longrightarrow> peek s2 y = peek s1 y"
    using alloc_result [OF s1(2) assms(6,7)] by blast
  moreover from this have "peek s2 x = peek s1 x" using pc assms(3) by blast
  moreover have "peek s1 x = peek (poke s x v) x" using s1(3) pc assms(3) by blast
  ultimately show ?thesis using s1(1) by (simp add: peek_poke)
qed

end

end
