(* ===== verification/Mem_Heap_Correct.thy ===== *)
theory Mem_Heap_Correct
  imports Mem_Heap_Steps Allocator_Spec
begin

text \<open>
  Correctness of allocation and deallocation in one heap: the invariant of a heap of
  \<open>mem_heap_list\<close>, the effect of \<open>MEM_Allocate\<close> and \<open>MEM_Deallocate\<close> on its blocks, and the
  allocator interface that clients rely on.
\<close>

section \<open>The heap invariant\<close>

definition heap_lo :: "MEM_Heap_t \<Rightarrow> nat" where
  "heap_lo h = ALIGN_UP (hp_base h)"

definition heap_hi :: "MEM_Heap_t \<Rightarrow> nat" where
  "heap_hi h = ALIGN_DOWN (add64 (hp_base h) (hp_size h))"

definition heap_rep :: "nat \<Rightarrow> heap_sys \<Rightarrow> nat \<Rightarrow> block list \<Rightarrow> bool" where
  "heap_rep mn s i bs \<longleftrightarrow>
     i < length (hs_heaps s)
     \<and> area_rep mn (hs_mem s) (hp_free_list (hs_heap s i)) (heap_lo (hs_heap s i)) (heap_hi (hs_heap s i)) bs
     \<and> coalesced bs \<and> hp_free (hs_heap s i) = free_bytes bs
     \<and> free_bytes bs \<le> hs_free_size s \<and> hs_free_size s + used_bytes bs < two64"

lemma coalesced_Cons:
  "coalesced ((b, n, u) # bs) \<longleftrightarrow> (bs = [] \<or> u \<or> snd (snd (hd bs))) \<and> coalesced bs"
  by (cases bs) (auto simp: coalesced.simps)

lemma coalesced_append:
  "coalesced (xs @ ys) \<longleftrightarrow> coalesced xs \<and> coalesced ys
     \<and> (xs = [] \<or> ys = [] \<or> snd (snd (last xs)) \<or> snd (snd (hd ys)))"
proof (induction xs)
  case (Cons c xs)
  obtain b n u where "c = (b, n, u)" by (cases c)
  then show ?case using Cons by (cases xs) (auto simp: coalesced_Cons)
qed simp

lemma coalesced_take_block:
  "coalesced (xs @ (b, n, False) # ys) \<Longrightarrow> coalesced (take_block sz xs b n ys)"
  by (auto simp: take_block_def coalesced_append coalesced_Cons)

lemma coalesced_give_block:
  assumes "coalesced (xs @ (b, n, True) # ys)"
  shows "coalesced (give_block xs b n ys)"
proof -
  obtain xs' p k where l: "free_left xs b n = (xs', p, k)" by (metis prod_cases3)
  obtain k' ys' where r: "free_right k ys = (k', ys')" by force
  have c: "coalesced xs" "coalesced ys" using assms by (auto simp: coalesced_append coalesced_Cons)
  have x: "coalesced xs'" "xs' = [] \<or> snd (snd (last xs'))"
  proof (atomize (full), cases xs rule: rev_cases)
    case Nil
    then show "coalesced xs' \<and> (xs' = [] \<or> snd (snd (last xs')))" using l by (auto simp: free_left_def)
  next
    case (snoc zs d)
    then show "coalesced xs' \<and> (xs' = [] \<or> snd (snd (last xs')))"
      using l c(1) by (auto simp: free_left_def coalesced_append split: if_splits)
  qed
  have y: "coalesced ys' \<and> (ys' = [] \<or> snd (snd (hd ys')))"
  proof (cases ys)
    case Nil
    then show ?thesis using r by simp
  next
    case (Cons d zs)
    obtain d0 d1 d2 where "d = (d0, d1, d2)" by (cases d)
    then show ?thesis using r c(2) Cons by (auto simp: coalesced_Cons split: if_splits)
  qed
  show ?thesis using x y l r by (auto simp: give_block_def coalesced_append coalesced_Cons)
qed

lemma free_bytes_take_block:
  "sz \<le> n \<Longrightarrow> free_bytes (take_block sz xs b n ys) + taken_size sz n = free_bytes (xs @ (b, n, False) # ys)"
  by (auto simp: take_block_def taken_size_def MEM_HEAP_MIN_SIZE_def MEM_BLOCK_MIN_SIZE_def)

lemma used_bytes_take_block:
  "sz \<le> n \<Longrightarrow> used_bytes (take_block sz xs b n ys) = used_bytes (xs @ (b, n, False) # ys) + taken_size sz n"
  by (simp add: take_block_def taken_size_def)

lemma free_bytes_give_block:
  "free_bytes (give_block xs b n ys) = free_bytes (xs @ (b, n, True) # ys) + n"
proof -
  obtain xs' p k where l: "free_left xs b n = (xs', p, k)" by (metis prod_cases3)
  obtain k' ys' where r: "free_right k ys = (k', ys')" by force
  have "free_bytes xs' + k = free_bytes xs + n"
  proof (cases xs rule: rev_cases)
    case (snoc zs d)
    obtain d0 d1 d2 where "d = (d0, d1, d2)" by (cases d)
    then show ?thesis using snoc l by (auto simp: free_left_def split: if_splits)
  qed (use l in \<open>simp add: free_left_def\<close>)
  moreover have "k' + free_bytes ys' = k + free_bytes ys"
  proof (cases ys)
    case (Cons d zs)
    obtain d0 d1 d2 where "d = (d0, d1, d2)" by (cases d)
    then show ?thesis using r Cons by (auto split: if_splits)
  qed (use r in simp)
  ultimately show ?thesis using l r by (simp add: give_block_def)
qed

lemma used_bytes_give_block:
  "used_bytes (give_block xs b n ys) + n = used_bytes (xs @ (b, n, True) # ys)"
proof -
  obtain xs' p k where l: "free_left xs b n = (xs', p, k)" by (metis prod_cases3)
  obtain k' ys' where r: "free_right k ys = (k', ys')" by force
  have "used_bytes xs' = used_bytes xs"
  proof (cases xs rule: rev_cases)
    case (snoc zs d)
    obtain d0 d1 d2 where "d = (d0, d1, d2)" by (cases d)
    then show ?thesis using snoc l by (auto simp: free_left_def split: if_splits)
  qed (use l in \<open>simp add: free_left_def\<close>)
  moreover have "used_bytes ys' = used_bytes ys"
  proof (cases ys)
    case (Cons d zs)
    obtain d0 d1 d2 where "d = (d0, d1, d2)" by (cases d)
    then show ?thesis using r Cons by (auto split: if_splits)
  qed (use r in simp)
  ultimately show ?thesis using l r by (simp add: give_block_def)
qed

definition used_blocks :: "block list \<Rightarrow> (nat \<times> nat) set" where
  "used_blocks bs = {(b, n). (b, n, True) \<in> set bs}"

lemma used_blocks_simps [simp]:
  "used_blocks [] = {}"
  "used_blocks ((b, n, u) # bs) = (if u then insert (b, n) (used_blocks bs) else used_blocks bs)"
  "used_blocks (xs @ ys) = used_blocks xs \<union> used_blocks ys"
  by (auto simp: used_blocks_def)

lemma used_blocks_take:
  "used_blocks (take_block sz xs b n ys)
     = insert (taken_addr sz b n, taken_size sz n) (used_blocks (xs @ (b, n, False) # ys))"
  by (auto simp: take_block_def taken_addr_def taken_size_def)

lemma used_blocks_give: "used_blocks (give_block xs b n ys) = used_blocks (xs @ ys)"
proof -
  obtain xs' p k where l: "free_left xs b n = (xs', p, k)" by (metis prod_cases3)
  obtain k' ys' where r: "free_right k ys = (k', ys')" by force
  have "used_blocks xs' = used_blocks xs"
  proof (cases xs rule: rev_cases)
    case (snoc zs d)
    obtain d0 d1 d2 where "d = (d0, d1, d2)" by (cases d)
    then show ?thesis using snoc l by (auto simp: free_left_def split: if_splits)
  qed (use l in \<open>simp add: free_left_def\<close>)
  moreover have "used_blocks ys' = used_blocks ys"
  proof (cases ys)
    case (Cons d zs)
    obtain d0 d1 d2 where "d = (d0, d1, d2)" by (cases d)
    then show ?thesis using r Cons by (auto split: if_splits)
  qed (use r in simp)
  ultimately show ?thesis using l r by (simp add: give_block_def)
qed

section \<open>Allocation\<close>

lemma alloc_size_eq: "n + 16 < two64 \<Longrightarrow> alloc_size n = (n + 8) div 8 * 8 + 8"
proof -
  assume n: "n + 16 < two64"
  have "(n + 8) div 8 * 8 \<le> n + 8" by (rule div_times_less_eq_dividend)
  then show ?thesis using n by (simp add: alloc_size_def ALIGN_UP_eq MEM_BLOCK_HEAD_SIZE_def)
qed

lemma alloc_size_bounds:
  assumes "n + 16 < two64"
  shows "n + 9 \<le> alloc_size n" "alloc_size n \<le> n + 16" "8 dvd alloc_size n" "16 \<le> alloc_size n"
    "8 \<le> n \<Longrightarrow> 24 \<le> alloc_size n"
  using assms by (simp_all add: alloc_size_eq)

definition request :: "nat \<Rightarrow> nat" where
  "request n = alloc_size (if n < 4 then 4 else n)"

definition locked :: "heap_sys \<Rightarrow> heap_event list" where
  "locked s = hs_events s @ [EnterCritical, ExitCritical]"

lemma hs_heap_set [simp]:
  "hs_heap (hs_set_heap i h s) j = (if i = j \<and> i < length (hs_heaps s) then h else hs_heap s j)"
  by (cases "i = j") (simp_all add: hs_heap_def hs_set_heap_def list_update_beyond not_less)

lemma hs_frame [simp]:
  "hs_heap (hs_event e s) j = hs_heap s j" "hs_mem (hs_event e s) = hs_mem s"
  "hs_heap (s\<lparr>hs_mem := m\<rparr>) j = hs_heap s j" "hs_heap (s\<lparr>hs_free_size := f\<rparr>) j = hs_heap s j"
  "hs_heap (s\<lparr>hs_free_watermark := f\<rparr>) j = hs_heap s j" "hs_heap (s\<lparr>hs_events := ev\<rparr>) j = hs_heap s j"
  "hs_heaps (hs_event e s) = hs_heaps s" "hs_free_size (hs_event e s) = hs_free_size s"
  "hs_events (hs_event e s) = hs_events s @ [e]" "hs_mem (hs_set_heap i h s) = hs_mem s"
  "length (hs_heaps (hs_set_heap i h s)) = length (hs_heaps s)"
  "hs_free_size (hs_set_heap i h s) = hs_free_size s" "hs_events (hs_set_heap i h s) = hs_events s"
  by (simp_all add: hs_event_def hs_heap_def hs_set_heap_def)

lemma hs_frame_watermark: "hs_free_watermark (hs_event e s) = hs_free_watermark s"
  by (simp add: hs_event_def)

text \<open>The parts of the state that an operation on heap \<open>i\<close> leaves alone.\<close>

definition same_heaps :: "nat \<Rightarrow> heap_sys \<Rightarrow> heap_sys \<Rightarrow> bool" where
  "same_heaps i s s' \<longleftrightarrow> length (hs_heaps s') = length (hs_heaps s)
     \<and> hp_base (hs_heap s' i) = hp_base (hs_heap s i) \<and> hp_size (hs_heap s' i) = hp_size (hs_heap s i)
     \<and> (\<forall>j. j \<noteq> i \<longrightarrow> hs_heap s' j = hs_heap s j)"

lemma MEM_Allocate_takes:
  assumes r: "heap_rep mn s i bs" and n0: "0 < n0" "n0 + 16 < two64"
    and mn: "mn \<le> request n0" "mn \<le> 24"
  shows "(\<forall>b n. (b, n, False) \<in> set bs \<longrightarrow> n < request n0)
        \<and> MEM_Allocate s (Some i) n0 = Some (0, s\<lparr>hs_events := locked s\<rparr>)
    \<or> (\<exists>xs b n ys s'. bs = xs @ (b, n, False) # ys \<and> request n0 \<le> n
         \<and> MEM_Allocate s (Some i) n0 = Some (taken_addr (request n0) b n + 8, s')
         \<and> heap_rep mn s' i (take_block (request n0) xs b n ys)
         \<and> (\<forall>x. hs_mem s' x \<noteq> hs_mem s x \<longrightarrow> in_free bs x)
         \<and> hs_events s' = locked s \<and> same_heaps i s s'
         \<and> hs_free_size s' + taken_size (request n0) n = hs_free_size s)"
proof -
  let ?h = "hs_heap s i" let ?z = "request n0" let ?m = "hs_mem s" let ?fl = "hp_free_list ?h"
  have ar: "area_rep mn ?m ?fl (heap_lo ?h) (heap_hi ?h) bs" using r by (simp add: heap_rep_def)
  have sz: "8 dvd ?z" "16 \<le> ?z"
    using n0 alloc_size_bounds [of "if n0 < 4 then 4 else n0"] by (auto simp: request_def two64_def)
  have ok: "(?z < (if n0 < 4 then 4 else n0)) = False"
    using n0 alloc_size_bounds(1) [of "if n0 < 4 then 4 else n0"] by (auto simp: request_def two64_def)
  consider (none) "\<forall>b n. (b, n, False) \<in> set bs \<longrightarrow> n < ?z" "mem_chunk_get ?m ?fl ?z = Some (0, ?fl, ?m)"
    | (some) xs b n ys fl' m' where "bs = xs @ (b, n, False) # ys" "?z \<le> n"
        "mem_chunk_get ?m ?fl ?z = Some (taken_addr ?z b n, fl', m')"
        "area_rep mn m' fl' (heap_lo ?h) (heap_hi ?h) (take_block ?z xs b n ys)"
        "\<forall>x. m' x \<noteq> ?m x \<longrightarrow> in_free bs x"
    using mem_chunk_get_takes [OF ar mn(1) sz(1) mn(2)] by blast
  then show ?thesis
  proof cases
    case none
    have "MEM_Allocate s (Some i) n0 = Some (0, s\<lparr>hs_events := locked s\<rparr>)"
      unfolding MEM_Allocate_def Let_def request_def [symmetric] using n0(1) ok none(2)
      by (simp add: locked_def hs_event_def)
    then show ?thesis using none(1) by blast
  next
    case some
    let ?b = "taken_addr ?z b n" let ?n = "taken_size ?z n"
    have t: "(?b, ?n, True) \<in> set (take_block ?z xs b n ys)"
      by (simp add: take_block_def taken_addr_def taken_size_def)
    note mem = area_member [OF some(4) t]
    have fb: "free_bytes (take_block ?z xs b n ys) + ?n = free_bytes bs"
      using free_bytes_take_block [OF some(2)] some(1) by simp
    have ub: "used_bytes (take_block ?z xs b n ys) = used_bytes bs + ?n"
      using used_bytes_take_block [OF some(2)] some(1) by simp
    have sub: "sub64 (hp_free ?h) ?n = free_bytes (take_block ?z xs b n ys)"
      "sub64 (hs_free_size s) ?n + ?n = hs_free_size s" 
      using r fb by (auto simp: heap_rep_def)
    have i: "i < length (hs_heaps s)" using r by (simp add: heap_rep_def)
    have bs: "blk_size m' ?b = ?n" using mem by (simp add: blk_size_def)
    define s' where "s' = hs_event ExitCritical
                 ((hs_set_heap i (?h\<lparr>hp_free_list := fl', hp_free := sub64 (hp_free ?h) ?n,
                    hp_free_watermark := min (hp_free_watermark ?h) (sub64 (hp_free ?h) ?n)\<rparr>)
                    (hs_event EnterCritical s))
                   \<lparr>hs_mem := m', hs_free_size := sub64 (hs_free_size s) ?n,
                    hs_free_watermark := min (hs_free_watermark s) (sub64 (hs_free_size s) ?n)\<rparr>)"
    have al: "MEM_Allocate s (Some i) n0 = Some (?b + 8, s')"
      unfolding MEM_Allocate_def Let_def request_def [symmetric] using n0(1) ok mem some(3) bs
      by (simp add: s'_def MEM_BLOCK_HEAD_SIZE_def hs_frame_watermark)
    moreover have "heap_rep mn s' i (take_block ?z xs b n ys)"
      using i some(4) sub r fb ub coalesced_take_block some(1)
      by (auto simp: heap_rep_def s'_def heap_lo_def heap_hi_def)
    moreover have "hs_free_size s' + ?n = hs_free_size s" "hs_events s' = locked s" "hs_mem s' = m'"
      using sub(2) by (simp_all add: s'_def locked_def)
    moreover have "same_heaps i s s'" using i by (simp add: same_heaps_def s'_def)
    ultimately show ?thesis using some(1,2,5) by blast
  qed
qed

section \<open>Deallocation\<close>

lemma MEM_Deallocate_gives:
  assumes r: "heap_rep mn s i bs" and bs: "bs = xs @ (b, n, True) # ys"
  shows "\<exists>s'. MEM_Deallocate s (Some i) (b + 8) = Some s'
     \<and> heap_rep mn s' i (give_block xs b n ys)
     \<and> (\<forall>x. hs_mem s' x \<noteq> hs_mem s x \<longrightarrow> in_free (xs @ (b, n, False) # ys) x)
     \<and> hs_events s' = locked s \<and> same_heaps i s s' \<and> hs_free_size s' = hs_free_size s + n"
proof -
  let ?h = "hs_heap s i" let ?fl = "hp_free_list ?h" let ?bs' = "xs @ (b, n, False) # ys"
  have ar: "area_rep mn (hs_mem s) ?fl (heap_lo ?h) (heap_hi ?h) (xs @ (b, n, True) # ys)"
    and i: "i < length (hs_heaps s)" using r bs by (simp_all add: heap_rep_def)
  have b: "(b, n, True) \<in> set (xs @ (b, n, True) # ys)" and b': "(b, n, False) \<in> set ?bs'" by simp_all
  note mem = area_member [OF ar b]
  have fs: "hs_free_size s + n < two64" using r bs by (simp add: heap_rep_def)
  define m1 where "m1 = (hs_mem s)(b + n - 1 := MEM_BLOCK_STAT_FREE)"
  note mf = area_mark_free [OF ar refl m1_def]
  have mn: "0 < mn" using ar by (simp add: area_rep_def)
  obtain xs' p k where fl: "free_left xs b n = (xs', p, k)" by (metis prod_cases3)
  obtain k' ys' where fr: "free_right k ys = (k', ys')" by force
  obtain fl' m2 where link: "free_link m1 ?fl b (lastz (free_addrs xs)) (hdz (free_addrs ys)) = (fl', p, m2)"
    and a2: "area_rep mn m2 fl' (heap_lo ?h) (heap_hi ?h) (xs' @ (p, k, False) # ys)"
    and c2: "\<And>x. m2 x \<noteq> m1 x \<Longrightarrow> in_free ?bs' x"
    using free_link_step [OF ar m1_def fl] by blast
  let ?m3 = "free_merge m2 p (hdz (free_addrs ys))"
  note a3 = free_merge_step [OF a2 fr]
  have pos: "free_pos m1 b 0 ?fl = Some (lastz (free_addrs xs), hdz (free_addrs ys))"
    using free_pos_between [OF mf(1) mn mf(2)] by (simp add: hdz_def)
  have sz: "blk_size m1 b = n" using layout_member [OF mf(1) b'] by (simp add: blk_size_def)
  define s' where "s' = hs_event ExitCritical
       ((hs_set_heap i (?h\<lparr>hp_free_list := fl', hp_free := hp_free ?h + n\<rparr>) (hs_event EnterCritical s))
         \<lparr>hs_mem := ?m3, hs_free_size := hs_free_size s + n\<rparr>)"
  have dog: "MEM_DOG_ADDR (hs_mem s) b = b + n - 1" by (rule area_dog [OF ar b])
  have fb: "hp_free ?h + n < two64" using r fs by (simp add: heap_rep_def)
  have "MEM_Deallocate s (Some i) (b + 8) = Some s'"
    using mem area_tag(1) [OF ar b] pos sz link fs fb dog
    by (simp add: MEM_Deallocate_def MEM_BLOCK_HEAD_SIZE_def s'_def Let_def m1_def [symmetric] del: One_nat_def)
  moreover have "heap_rep mn s' i (give_block xs b n ys)"
    using i a3(1) r fs fb fl fr coalesced_give_block [of xs b n ys] free_bytes_give_block [of xs b n ys]
      used_bytes_give_block [of xs b n ys] bs
    by (simp add: heap_rep_def s'_def heap_lo_def heap_hi_def give_block_def)
  moreover have "hs_events s' = locked s" "same_heaps i s s'" "hs_free_size s' = hs_free_size s + n"
    using i by (simp_all add: s'_def same_heaps_def locked_def)
  moreover have "in_free ?bs' x" if "hs_mem s' x \<noteq> hs_mem s x" for x
  proof (cases "m1 x = hs_mem s x \<and> m2 x = m1 x")
    case True
    then have "p \<le> x \<and> x < p + 16" using that a3(2) [of x] by (simp add: s'_def)
    moreover have "\<exists>j. (p, j, False) \<in> set ?bs'"
      using fl by (cases xs rule: rev_cases) (auto simp: free_left_def split: if_splits)
    then obtain j where "(p, j, False) \<in> set ?bs'" by blast
    moreover have "16 \<le> j" using layout_member [OF mf(1) \<open>(p, j, False) \<in> set ?bs'\<close>] ar
      by (simp add: area_rep_def)
    ultimately show ?thesis using in_freeI [of p j ?bs' x] by simp
  next
    case False
    then show ?thesis using c2 [of x] in_freeI [OF b', of x] mem(4) by (cases "x = b + n - 1") (auto simp: m1_def)
  qed
  ultimately show ?thesis by blast
qed

text \<open>A second release of a released block and a release with a damaged tag are refused.\<close>

lemma MEM_Deallocate_refuses:
  assumes "hs_mem s (MEM_DOG_ADDR (hs_mem s) (sub64 p 8)) \<noteq> MEM_BLOCK_STAT_USE" "p \<noteq> 0"
  shows "\<exists>ev. MEM_Deallocate s (Some i) p = Some (s\<lparr>hs_events := hs_events s @ ev\<rparr>)
     \<and> EnterCritical \<notin> set ev \<and> ExitCritical \<notin> set ev"
  using assms by (auto simp: MEM_Deallocate_def MEM_BLOCK_HEAD_SIZE_def Let_def hs_event_def)

section \<open>The heap as an allocator\<close>

text \<open>The region a caller owns in a used block: after the header, before the tag.\<close>

definition payload :: "nat \<times> nat \<Rightarrow> nat \<times> nat" where
  "payload bn = (fst bn + 8, snd bn - 9)"

definition heap_live :: "nat \<Rightarrow> heap_sys \<Rightarrow> (nat \<times> nat) set \<Rightarrow> bool" where
  "heap_live i s L \<longleftrightarrow> (\<exists>bs. heap_rep 16 s i bs \<and> L = payload ` used_blocks bs)"

definition heap_poke :: "heap_sys \<Rightarrow> nat \<Rightarrow> u8 \<Rightarrow> heap_sys" where
  "heap_poke s x v = s\<lparr>hs_mem := (hs_mem s)(x := v)\<rparr>"

definition heap_request :: "nat \<Rightarrow> heap_sys \<Rightarrow> nat \<Rightarrow> (nat \<times> heap_sys) option" where
  "heap_request i s n = tuya_mem_heap_malloc s (Some i) (of_nat n)"

definition heap_release :: "nat \<Rightarrow> heap_sys \<Rightarrow> nat \<Rightarrow> heap_sys option" where
  "heap_release i s p = tuya_mem_heap_free s (Some i) p"

lemma used_not_free:
  assumes "area_rep mn m fl a e bs" "(b, n) \<in> used_blocks bs" "b \<le> x" "x < b + n"
  shows "\<not> in_free bs x"
proof
  assume "in_free bs x"
  then obtain c k where c: "(c, k, False) \<in> set bs" "c \<le> x" "x < c + k" by (auto simp: in_free_def)
  have b: "(b, n, True) \<in> set bs" using assms(2) by (simp add: used_blocks_def)
  have "b = c" using area_disjoint [OF assms(1) b c(1)] c assms(3,4) by (cases "b = c") auto
  then show False using layout_same_addr [of mn m a bs e b n True k False] b c assms(1)
    by (auto simp: area_rep_def)
qed

lemma payload_region: "in_region (payload (b, n)) x \<Longrightarrow> b \<le> x \<and> x < b + n"
  by (auto simp: in_region_def payload_def)

lemma payload_in_block:
  assumes "area_rep mn m fl a e bs" "(b, n) \<in> used_blocks bs" "in_region (payload (b, n)) x"
  shows "b + 8 \<le> x" "x < b + n - 1" "16 \<le> n"
  using assms area_member(4) [OF assms(1), of b n True]
  by (auto simp: in_region_def payload_def used_blocks_def)

text \<open>Stores inside the payload of a used block keep the heap well-formed.\<close>

lemma write_rep:
  assumes r: "heap_rep mn s i bs" and u: "(b, n) \<in> used_blocks bs"
    and x: "\<And>x. m' x \<noteq> hs_mem s x \<Longrightarrow> b + 8 \<le> x \<and> x < b + n - 1"
  shows "heap_rep mn (s\<lparr>hs_mem := m'\<rparr>) i bs"
proof -
  let ?h = "hs_heap s i"
  have ar: "area_rep mn (hs_mem s) (hp_free_list ?h) (heap_lo ?h) (heap_hi ?h) bs"
    using r by (simp add: heap_rep_def)
  have b: "(b, n, True) \<in> set bs" using u by (simp add: used_blocks_def)
  have l: "layout mn (hs_mem s) (heap_lo ?h) bs (heap_hi ?h)" using ar by (simp add: area_rep_def)
  have same: "m' y = hs_mem s y" if "y < b + 8 \<or> b + n - 1 \<le> y" for y
    using x [of y] that by (cases "m' y = hs_mem s y") auto
  have "layout mn m' (heap_lo ?h) bs (heap_hi ?h)"
  proof (rule layout_cong [OF l])
    fix c k w assume c: "(c, k, w) \<in> set bs"
    have d: "(b, n, True) = (c, k, w) \<or> b + n \<le> c \<or> c + k \<le> b" by (rule layout_disjoint [OF l b c])
    have k: "16 \<le> k" by (rule area_member(4) [OF ar c])
    show "m' y = hs_mem s y" if "c \<le> y" "y < c + 8" for y using d k that by (intro same) auto
    show "m' (c + k - 1) = hs_mem s (c + k - 1)" using d k by (intro same) auto
  qed
  moreover have "path m' (hp_free_list ?h) (free_addrs bs) 0 = path (hs_mem s) (hp_free_list ?h) (free_addrs bs) 0"
  proof (rule path_cong)
    fix y assume y: "y \<in> set (free_addrs bs)"
    have "y \<noteq> b" using y layout_same_addr [OF l b, of _ False] area_rep_def ar by (auto simp: set_free_addrs)
    then show "blk_next m' y = blk_next (hs_mem s) y"
      by (rule next_outside [OF ar b y]) (rule same, auto)
  qed
  ultimately show ?thesis using r by (simp add: heap_rep_def area_rep_def)
qed

lemma poke_rep:
  assumes "heap_rep mn s i bs" "(b, n) \<in> used_blocks bs" "b + 8 \<le> x" "x < b + n - 1"
  shows "heap_rep mn (heap_poke s x v) i bs"
  unfolding heap_poke_def by (rule write_rep [OF assms(1,2)]) (use assms(3,4) in \<open>auto split: if_splits\<close>)

lemma request_bounds:
  assumes "n < 2 ^ 32"
  shows "16 \<le> request n" "n + 9 \<le> request n" "8 \<le> n \<Longrightarrow> 24 \<le> request n" "n + 16 < two64"
  using assms alloc_size_bounds [of "if n < 4 then 4 else n"] by (auto simp: request_def two64_def)

lemma heap_request_eq: "n < 2 ^ 32 \<Longrightarrow> heap_request i s n = MEM_Allocate s (Some i) n"
  by (simp add: heap_request_def tuya_mem_heap_malloc_def unat_of_nat take_bit_eq_mod)

lemma taken_size_ge: "sz \<le> n \<Longrightarrow> sz \<le> taken_size sz n"
  by (simp add: taken_size_def)

lemma heap_live_rep: "heap_live i s L \<Longrightarrow> \<exists>bs. heap_rep 16 s i bs \<and> L = payload ` used_blocks bs
    \<and> area_rep 16 (hs_mem s) (hp_free_list (hs_heap s i)) (heap_lo (hs_heap s i)) (heap_hi (hs_heap s i)) bs"
  by (auto simp: heap_live_def heap_rep_def)

lemma heap_alloc_result:
  assumes "heap_live i s L" "0 < n" "n < 2 ^ 32"
  shows "\<exists>p s' L'. heap_request i s n = Some (p, s') \<and> heap_live i s' L'
      \<and> (\<forall>r\<in>L. \<forall>x. in_region r x \<longrightarrow> hs_mem s' x = hs_mem s x)
      \<and> (p = 0 \<and> L' = L \<or> (\<exists>c\<ge>n. (p, c) \<notin> L \<and> L' = insert (p, c) L))"
proof -
  obtain bs where bs: "heap_rep 16 s i bs" "L = payload ` used_blocks bs"
    and ar: "area_rep 16 (hs_mem s) (hp_free_list (hs_heap s i)) (heap_lo (hs_heap s i)) (heap_hi (hs_heap s i)) bs"
    using heap_live_rep [OF assms(1)] by blast
  note rb = request_bounds [OF assms(3)]
  consider (none) "MEM_Allocate s (Some i) n = Some (0, s\<lparr>hs_events := locked s\<rparr>)"
    | (some) xs b k ys s' where "bs = xs @ (b, k, False) # ys" "request n \<le> k"
        "MEM_Allocate s (Some i) n = Some (taken_addr (request n) b k + 8, s')"
        "heap_rep 16 s' i (take_block (request n) xs b k ys)"
        "\<forall>x. hs_mem s' x \<noteq> hs_mem s x \<longrightarrow> in_free bs x"
    using MEM_Allocate_takes [OF bs(1) assms(2) rb(4) rb(1)] by auto
  then show ?thesis
  proof cases
    case none
    then show ?thesis using assms bs by (auto simp: heap_request_eq heap_live_def heap_rep_def)
  next
    case some
    let ?t = "(taken_addr (request n) b k, taken_size (request n) k)"
    have "snd (payload ?t) \<ge> n" using taken_size_ge [OF some(2)] rb(2) by (simp add: payload_def)
    moreover have "heap_live i s' (insert (payload ?t) L)"
      using some(4) used_blocks_take [of "request n" xs b k ys] some(1) bs(2)
      unfolding heap_live_def by (metis image_insert)
    moreover have "hs_mem s' x = hs_mem s x" if r: "r \<in> L" "in_region r x" for r x
    proof -
      obtain q j where q: "(q, j) \<in> used_blocks bs" "r = payload (q, j)" using r(1) bs(2) by auto
      have "\<not> in_free bs x"
        using used_not_free [OF ar q(1)] payload_region r(2) q(2) by blast
      then show ?thesis using some(5) by blast
    qed
    moreover have "payload ?t \<notin> L"
    proof
      assume "payload ?t \<in> L"
      then obtain c j where c: "(c, j) \<in> used_blocks bs" "c = taken_addr (request n) b k"
        using bs(2) by (auto simp: payload_def)
      have "(b, k, False) \<in> set bs" using some(1) by simp
      then have "in_free bs c" using c(2) some(2) rb(1)
        by (intro in_freeI) (auto simp: taken_addr_def MEM_HEAP_MIN_SIZE_def)
      then show False using used_not_free [OF ar c(1)] area_member(4) [OF ar, of c j True] c(1)
        by (auto simp: used_blocks_def)
    qed
    ultimately show ?thesis
      using some(3) assms(3) by (auto simp: heap_request_eq payload_def)
  qed
qed

lemma used_split: "(b, n) \<in> used_blocks bs \<Longrightarrow> \<exists>xs ys. bs = xs @ (b, n, True) # ys"
  by (auto simp: used_blocks_def dest: split_list)

lemma used_remove:
  assumes "area_rep mn m fl a e bs" "bs = xs @ (b, n, True) # ys"
  shows "used_blocks (xs @ ys) = used_blocks bs - {(b, n)}"
proof -
  have l: "layout mn m a xs b" "layout mn m (b + n) ys e" "16 \<le> mn" "mn \<le> n"
    using assms by (auto simp: area_rep_def layout_append)
  have "(b, n) \<notin> used_blocks xs" "(b, n) \<notin> used_blocks ys"
    using layout_member [OF l(1), of b n True] layout_member [OF l(2), of b n True] l(3,4)
    by (auto simp: used_blocks_def)
  then show ?thesis using assms(2) by auto
qed

lemma payload_inj:
  assumes "area_rep mn m fl a e bs"
  shows "inj_on payload (used_blocks bs)"
  using area_member(4) [OF assms]
  by (intro inj_onI) (fastforce simp: payload_def used_blocks_def)

lemma heap_release_result:
  assumes "heap_live i s L" "(p, c) \<in> L"
  shows "\<exists>s'. heap_release i s p = Some s' \<and> heap_live i s' (L - {(p, c)})
      \<and> (\<forall>r\<in>L - {(p, c)}. \<forall>x. in_region r x \<longrightarrow> hs_mem s' x = hs_mem s x)"
proof -
  obtain bs where bs: "heap_rep 16 s i bs" "L = payload ` used_blocks bs"
    and ar: "area_rep 16 (hs_mem s) (hp_free_list (hs_heap s i)) (heap_lo (hs_heap s i)) (heap_hi (hs_heap s i)) bs"
    using heap_live_rep [OF assms(1)] by blast
  obtain b n where b: "(b, n) \<in> used_blocks bs" "(p, c) = payload (b, n)" using bs(2) assms(2) by auto
  obtain xs ys where xs: "bs = xs @ (b, n, True) # ys" using used_split [OF b(1)] by blast
  obtain s' where s': "MEM_Deallocate s (Some i) (b + 8) = Some s'" "heap_rep 16 s' i (give_block xs b n ys)"
    "\<forall>x. hs_mem s' x \<noteq> hs_mem s x \<longrightarrow> in_free (xs @ (b, n, False) # ys) x"
    using MEM_Deallocate_gives [OF bs(1) xs] by blast
  have rm: "used_blocks (xs @ ys) = used_blocks bs - {(b, n)}" by (rule used_remove [OF ar xs])
  have L': "payload ` used_blocks (xs @ ys) = L - {(p, c)}"
    unfolding rm bs(2) b(2) using inj_on_image_set_diff [OF payload_inj [OF ar], of "used_blocks bs" "{(b, n)}"] b(1)
    by simp
  have keep: "hs_mem s' x = hs_mem s x" if r: "r \<in> L - {(p, c)}" and x: "in_region r x" for r x
  proof (rule ccontr)
    assume "hs_mem s' x \<noteq> hs_mem s x"
    then have f: "in_free (xs @ (b, n, False) # ys) x" using s'(3) by blast
    obtain q k where q: "(q, k) \<in> used_blocks bs" "r = payload (q, k)" "(q, k) \<noteq> (b, n)" using r b(2) bs(2) by auto
    have in_q: "q \<le> x" "x < q + k" using payload_region x q(2) by blast+
    have mq: "(q, k, True) \<in> set bs" "(b, n, True) \<in> set bs" using q(1) b(1) by (simp_all add: used_blocks_def)
    have "q \<noteq> b" using layout_same_addr [of 16 "hs_mem s" _ bs _ q k True n True] mq q(3) ar
      by (auto simp: area_rep_def)
    then have "\<not> (b \<le> x \<and> x < b + n)" using area_disjoint [OF ar mq] in_q by auto
    then have "in_free bs x" using f xs by (auto simp: in_free_def)
    then show False using used_not_free [OF ar q(1)] in_q by blast
  qed
  have p: "p = b + 8" using b(2) by (simp add: payload_def)
  have "heap_live i s' (L - {(p, c)})"
    using s'(2) used_blocks_give [of xs b n ys] L' unfolding heap_live_def by metis
  then show ?thesis using s'(1) keep p by (auto simp: heap_release_def tuya_mem_heap_free_def)
qed

interpretation heap: allocator "heap_live i" hs_mem heap_poke "heap_request i" "heap_release i" "2 ^ 32" for i
proof unfold_locales
  fix s L r r' assume "heap_live i s L" "r \<in> L" "r' \<in> L"
  then obtain bs where bs: "heap_rep 16 s i bs" "L = payload ` used_blocks bs"
    and ar: "area_rep 16 (hs_mem s) (hp_free_list (hs_heap s i)) (heap_lo (hs_heap s i)) (heap_hi (hs_heap s i)) bs"
    using heap_live_rep by blast
  obtain b n b' n' where b: "(b, n, True) \<in> set bs" "(b', n', True) \<in> set bs"
    "r = payload (b, n)" "r' = payload (b', n')"
    using \<open>r \<in> L\<close> \<open>r' \<in> L\<close> bs(2) by (auto simp: used_blocks_def)
  show "r = r' \<or> apart r r'"
    using layout_disjoint [of 16 _ _ bs _ b n True b' n' True] b area_member(4) [OF ar b(1)] area_member(4) [OF ar b(2)] ar
    by (fastforce simp: apart_def payload_def area_rep_def)
next
  fix s L p n assume "heap_live i s L" "(p, n) \<in> L"
  then show "0 < p \<and> 0 < n" using heap_live_rep [of i s L] area_member(4)
    by (fastforce simp: payload_def used_blocks_def)
next
  fix s L r x v assume h: "heap_live i s L" "r \<in> L" "in_region r x"
  then obtain bs where bs: "heap_rep 16 s i bs" "L = payload ` used_blocks bs"
    and ar: "area_rep 16 (hs_mem s) (hp_free_list (hs_heap s i)) (heap_lo (hs_heap s i)) (heap_hi (hs_heap s i)) bs"
    using heap_live_rep by blast
  obtain b n where b: "(b, n) \<in> used_blocks bs" "r = payload (b, n)" using h(2) bs(2) by auto
  show "heap_live i (heap_poke s x v) L"
    using poke_rep [OF bs(1) b(1)] payload_in_block [OF ar b(1)] h(3) b(2) bs(2) unfolding heap_live_def by blast
qed (use heap_alloc_result heap_release_result in \<open>simp_all add: heap_poke_def\<close>)

end
