(* ===== verification/Mem_Heap_Api.thy ===== *)
theory Mem_Heap_Api
  imports Mem_Heap_Correct
begin

text \<open>
  The public functions of \<open>tuya_mem_heap.c\<close> on well-formed heaps: creation establishes the
  invariant, the status walk reports what the blocks say, requests and releases have the effects
  the allocator interface promises, reallocation keeps the data, and the leak record of a debug
  allocation stays clear of the caller's bytes.
\<close>

section \<open>Creation\<close>

lemma align_up_bounds:
  assumes "x + 7 < two64"
  shows "x \<le> ALIGN_UP x" "ALIGN_UP x \<le> x + 7" "8 dvd ALIGN_UP x"
  using assms by (simp_all add: ALIGN_UP_eq)

lemma align_room:
  fixes lo x :: nat
  assumes "8 dvd lo" "lo \<le> x"
  shows "(x - lo) div 8 * 8 = x div 8 * 8 - lo" "lo \<le> x div 8 * 8"
proof -
  obtain q where q: "lo = 8 * q" using assms(1) by (auto elim: dvdE)
  have "((x - lo) + 8 * q) div 8 = (x - lo) div 8 + q" by simp
  moreover have "(x - lo) + 8 * q = x" using assms(2) q by simp
  ultimately have "x div 8 = (x - lo) div 8 + q" by simp
  then show "(x - lo) div 8 * 8 = x div 8 * 8 - lo" "lo \<le> x div 8 * 8" using q by simp_all
qed

text \<open>The state after the creation of heap \<open>i\<close> over \<open>[p, p + sz)\<close>.\<close>

lemma mem_heap_init_rep:
  assumes i: "i < length (hs_heaps s)" and p: "0 < p" "p + sz + 7 < two64"
    and sz: "ALIGN_UP p + 32 \<le> ALIGN_DOWN (p + sz)"
    and fs: "hs_free_size s + sz < two64" and e: "mem_heap_init s i p sz = (rc, s')"
  shows "rc = 0" "heap_rep 24 s' i [(ALIGN_UP p, ALIGN_DOWN (p + sz) - ALIGN_UP p, False)]"
    "hp_size (hs_heap s' i) = sz" "hp_base (hs_heap s' i) = p" "hs_events s' = hs_events s"
proof -
  let ?lo = "ALIGN_UP p" let ?n = "ALIGN_DOWN (p + sz) - ?lo"
  have lo: "p \<le> ?lo" "?lo \<le> p + 7" "8 dvd ?lo" using align_up_bounds [of p] p by simp_all
  have hi: "ALIGN_DOWN (p + sz) = (p + sz) div 8 * 8" using p by (simp add: ALIGN_DOWN_eq)
  have le: "(p + sz) div 8 * 8 \<le> p + sz" by (rule div_times_less_eq_dividend)
  have los: "?lo \<le> p + sz" using sz hi le by simp
  have n: "ALIGN_DOWN (sub64 sz (sub64 ?lo p)) = ?n"
  proof -
    have "?lo - p \<le> sz" "p + sz - ?lo = sz - (?lo - p)" using los lo by simp_all
    then show ?thesis using lo p los align_room(1) [OF lo(3) los] hi by (simp add: ALIGN_DOWN_eq)
  qed
  have nb: "32 \<le> ?n" "?lo + ?n < two64" "?n \<le> sz" "8 dvd ?n"
    using sz hi le p lo los by (auto intro!: dvd_diff_nat)
  define lo where "lo = ?lo"
  define n where "n = ?n"
  have hn: "ALIGN_DOWN (p + sz) = lo + n" using sz by (simp add: n_def lo_def)
  note nb = nb [folded n_def lo_def] and lo = lo [folded lo_def]
  let ?m2 = "st64 (st64 (hs_mem s) (lo + 8) 0) lo n"
  have dog: "MEM_DOG_ADDR ?m2 lo = lo + n - 1" using nb by (simp add: MEM_DOG_ADDR_def blk_size_def)
  let ?m3 = "?m2(lo + n - 1 := MEM_BLOCK_STAT_FREE)"
  have m3: "ld64 ?m3 lo = ld64 ?m2 lo" "ld64 ?m3 (lo + 8) = ld64 ?m2 (lo + 8)"
    by (rule ld64_upd_other, use nb in linarith)+
  have f: "ld64 ?m3 lo = n" "blk_next ?m3 lo = 0"
    unfolding blk_next_def by (rule trans [OF m3(1)], use nb in simp, rule trans [OF m3(2)], simp)
  have small: "\<not> n < MEM_HEAP_MIN_SIZE"
    using nb by (simp add: MEM_HEAP_MIN_SIZE_def MEM_BLOCK_MIN_SIZE_def MEM_BLOCK_HEAD_SIZE_def)
  have fs': "add64 (hs_free_size s) n = hs_free_size s + n" using nb fs by simp
  have e': "rc = 0 \<and> s' = (hs_set_heap i ((hs_heap s i)\<lparr>hp_base := p, hp_size := sz, hp_free_list := lo,
      hp_free := n, hp_free_watermark := n\<rparr>) s)
      \<lparr>hs_mem := ?m3, hs_free_size := hs_free_size s + n, hs_free_watermark := hs_free_size s + n\<rparr>"
    using e small dog fs' \<open>ALIGN_DOWN (sub64 sz (sub64 ?lo p)) = ?n\<close> [folded n_def lo_def]
    by (simp add: mem_heap_init_def Let_def set_blk_next_def set_blk_size_def set_dog_def lo_def [symmetric])
  have "area_rep 24 ?m3 lo lo (lo + n) [(lo, n, False)]"
    using f nb lo p by (auto simp: area_rep_def)
  then have "heap_rep 24 s' i [(lo, n, False)]"
    using e' i nb fs p hn by (simp add: heap_rep_def heap_lo_def heap_hi_def lo_def)
  then show "heap_rep 24 s' i [(?lo, ?n, False)]" by (simp add: lo_def n_def)
  show "rc = 0" "hp_size (hs_heap s' i) = sz" "hp_base (hs_heap s' i) = p" "hs_events s' = hs_events s"
    using e' i by simp_all
qed

section \<open>The status walk\<close>

fun status_of :: "MEM_HeapStatus_t \<Rightarrow> block list \<Rightarrow> MEM_HeapStatus_t" where
  "status_of st [] = st"
| "status_of st ((b, n, u) # bs) =
     status_of (if u then st\<lparr>st_used_block := st_used_block st + 1\<rparr>
                else st\<lparr>st_free := st_free st + (n - 9), st_free_largest := max (st_free_largest st) (n - 9),
                        st_free_block := st_free_block st + 1\<rparr>) bs"

lemma status_loop_counts:
  assumes "layout mn m a bs e" "24 \<le> mn" "path m fl (free_addrs bs) 0" "0 < a" "e < two64"
    "st_free st + free_bytes bs < two64"
  shows "\<exists>ev'. status_loop m e a fl st ev = Some (0, e, 0, status_of st bs, ev')"
  using assms
proof (induction bs arbitrary: a fl st ev)
  case Nil
  then show ?case by (subst status_loop.simps) auto
next
  case (Cons c bs)
  obtain b n u where c: "c = (b, n, u)" by (cases c)
  have l: "layout mn m (a + n) bs e" "b = a" "24 \<le> n" "ld64 m a = n"
    "m (a + n - 1) = (if u then MEM_BLOCK_STAT_USE else MEM_BLOCK_STAT_FREE)"
    using Cons.prems c by auto
  have le: "a + n \<le> e" by (rule layout_le [OF l(1)])
  have dog: "MEM_DOG_ADDR m a = a + n - 1" "add64 a (blk_size m a) = a + n" "a < e" "blk_size m a = n"
    using l le Cons.prems(5) by (auto simp: MEM_DOG_ADDR_def blk_size_def)
  have tags: "MEM_BLOCK_STAT_FREE \<noteq> MEM_BLOCK_STAT_USE"
    by (simp add: MEM_BLOCK_STAT_FREE_def MEM_BLOCK_STAT_USE_def)
  show ?case
  proof (cases u)
    case True
    have p: "path m fl (free_addrs bs) 0" using Cons.prems(3) c True by simp
    have "a \<noteq> fl"
    proof
      assume "a = fl"
      then obtain ys where "free_addrs bs = a # ys" using path_start [OF p] Cons.prems(4) by auto
      then obtain k where "(a, k, False) \<in> set bs" using set_free_addrs [of a bs] by auto
      then show False using layout_member [OF l(1), of a k False] l(3) by simp
    qed
    then have "\<exists>ev''. status_loop m e a fl st ev
        = status_loop m e (a + n) fl (st\<lparr>st_used_block := st_used_block st + 1\<rparr>) ev''"
      using dog l(5) True by (subst status_loop.simps) (auto simp: Let_def)
    then obtain ev'' where step: "status_loop m e a fl st ev
        = status_loop m e (a + n) fl (st\<lparr>st_used_block := st_used_block st + 1\<rparr>) ev''" by blast
    show ?thesis unfolding step
      using Cons.IH [OF l(1) Cons.prems(2) p _ Cons.prems(5), of "st\<lparr>st_used_block := st_used_block st + 1\<rparr>" ev'']
        Cons.prems c True by simp
  next
    case False
    have p: "fl = a" "path m (blk_next m a) (free_addrs bs) 0" using Cons.prems(3) c False l(2) by auto
    have sub: "sub64 (sub64 n MEM_BLOCK_HEAD_SIZE) 1 = n - 9" "add64 (st_free st) (n - 9) = st_free st + (n - 9)"
      using l(3) le Cons.prems(5,6) c False by (simp_all add: MEM_BLOCK_HEAD_SIZE_def)
    let ?st = "st\<lparr>st_free := st_free st + (n - 9), st_free_largest := max (st_free_largest st) (n - 9),
        st_free_block := st_free_block st + 1\<rparr>"
    have step: "status_loop m e a fl st ev = status_loop m e (a + n) (blk_next m a) ?st ev"
      using dog l(5) False tags p(1) sub by (subst status_loop.simps) (simp add: Let_def)
    show ?thesis unfolding step
      using Cons.IH [OF l(1) Cons.prems(2) p(2) _ Cons.prems(5), of ?st ev] Cons.prems c False l(3) by simp
  qed
qed

lemma status_of_counts:
  "st_used_block (status_of st bs) = st_used_block st + length (filter (\<lambda>(b, n, u). u) bs)"
  "st_free_block (status_of st bs) = st_free_block st + length (free_addrs bs)"
  "st_size (status_of st bs) = st_size st"
  by (induction bs arbitrary: st) auto

lemma status_of_free:
  assumes "\<forall>(b, n, u)\<in>set bs. 9 \<le> n"
  shows "st_free (status_of st bs) + 9 * length (free_addrs bs) = st_free st + free_bytes bs"
  using assms
proof (induction bs arbitrary: st)
  case (Cons c bs)
  obtain b n u where c: "c = (b, n, u)" by (cases c)
  let ?st = "st\<lparr>st_free := st_free st + (n - 9), st_free_largest := max (st_free_largest st) (n - 9),
      st_free_block := st_free_block st + 1\<rparr>"
  have ok: "\<forall>(b, n, u)\<in>set bs. 9 \<le> n" "9 \<le> n" using Cons.prems c by auto
  show ?case
  proof (cases u)
    case True
    then show ?thesis using Cons.IH [OF ok(1)] c by simp
  next
    case False
    then show ?thesis using Cons.IH [OF ok(1), of ?st] ok(2) c by simp
  qed
qed simp

section \<open>Reallocation\<close>

lemma heap_rep_used:
  assumes "heap_rep mn s i bs" "(b, n) \<in> used_blocks bs"
  shows "MEM_DOG_ADDR (hs_mem s) b = b + n - 1" "hs_mem s (b + n - 1) = MEM_BLOCK_STAT_USE"
    "blk_size (hs_mem s) b = n" "16 \<le> n" "b + n < two64" "0 < b"
proof -
  have b: "(b, n, True) \<in> set bs" using assms(2) by (simp add: used_blocks_def)
  have ar: "area_rep mn (hs_mem s) (hp_free_list (hs_heap s i)) (heap_lo (hs_heap s i)) (heap_hi (hs_heap s i)) bs"
    using assms(1) by (simp add: heap_rep_def)
  show "MEM_DOG_ADDR (hs_mem s) b = b + n - 1" by (rule area_dog [OF ar b])
  show "hs_mem s (b + n - 1) = MEM_BLOCK_STAT_USE" by (rule area_tag(1) [OF ar b]) simp
  show "blk_size (hs_mem s) b = n" "16 \<le> n" "b + n < two64" "0 < b"
    using area_member [OF ar b] by (simp_all add: blk_size_def)
qed

lemma copy_rep:
  assumes r: "heap_rep mn s i bs" and u: "(b, n) \<in> used_blocks bs" and k: "k + 9 \<le> n"
  shows "heap_rep mn (s\<lparr>hs_mem := mem_copy (hs_mem s) (b + 8) src k\<rparr>) i bs"
  by (rule write_rep [OF r u]) (use k in \<open>auto simp: mem_copy_def split: if_splits\<close>)

lemma realloc_size_eq:
  assumes "unat sz + 1 < 2 ^ 32" "4 \<le> sz"
  shows "realloc_size sz = request (unat sz)"
proof -
  have "unat (sz + 1) = unat sz + 1" using assms(1) by (simp add: unat_word_ariths)
  moreover have "add64 (unat sz) 1 = unat sz + 1" using assms(1) by (intro add64_small) (simp add: two64_def)
  ultimately show ?thesis
    using assms(2) by (simp add: realloc_size_def request_def alloc_size_def word_le_nat_alt two64_def)
qed

section \<open>A free block without a tag\<close>

lemma ld64_top: "ld64 m a < 2 ^ 56 \<Longrightarrow> m (a + 7) = 0"
proof -
  assume "ld64 m a < 2 ^ 56"
  then have "unat (m (a + 7)) = 0" by (simp add: ld64_def)
  then show ?thesis by (simp add: unat_eq_0)
qed

lemma path_next_bound:
  assumes "path m p xs 0" "b \<in> set xs" "\<And>x. x \<in> set xs \<Longrightarrow> x < k" "0 < k"
  shows "blk_next m b < k"
  using assms
proof (induction xs arbitrary: p)
  case (Cons x xs)
  show ?case
  proof (cases "b = x")
    case True
    then show ?thesis using Cons.prems path_hdz [of m "blk_next m x" xs] by (cases xs) (auto simp: hdz_def)
  next
    case False
    then show ?thesis using Cons by auto
  qed
qed simp

text \<open>The walk ended with an error code and left the validity field alone.\<close>

definition stops :: "nat \<Rightarrow> (nat \<times> nat \<times> nat \<times> MEM_HeapStatus_t \<times> heap_event list) option \<Rightarrow> bool" where
  "stops v r = (case r of Some (res, _, _, st, _) \<Rightarrow> res \<noteq> 0 \<and> st_valid st = v | None \<Rightarrow> False)"

lemma stops_Some [simp]: "stops v (Some (res, a, fl, st, ev)) \<longleftrightarrow> res \<noteq> 0 \<and> st_valid st = v"
  by (simp add: stops_def)

lemma status_loop_stops:
  assumes "layout mn m a bs e" "16 \<le> mn" "path m fl (free_addrs bs) 0" "0 < a" "e < two64"
    "(b, n, False) \<in> set bs" "m (b + n - 1) = 0" "st_valid st = v"
  shows "stops v (status_loop m e a fl st ev)"
  using assms
proof (induction bs arbitrary: a fl st ev)
  case (Cons c bs)
  obtain d k u where c: "c = (d, k, u)" by (cases c)
  have l: "layout mn m (a + k) bs e" "d = a" "16 \<le> k" "ld64 m a = k"
    using Cons.prems c by auto
  have le: "a + k \<le> e" by (rule layout_le [OF l(1)])
  have dog: "MEM_DOG_ADDR m a = a + k - 1" "add64 a (blk_size m a) = a + k" "a < e" "blk_size m a = k"
    using l le Cons.prems(5) by (auto simp: MEM_DOG_ADDR_def blk_size_def)
  have tags: "MEM_BLOCK_STAT_FREE \<noteq> MEM_BLOCK_STAT_USE" "0 \<noteq> MEM_BLOCK_STAT_USE" "0 \<noteq> MEM_BLOCK_STAT_FREE"
    by (simp_all add: MEM_BLOCK_STAT_FREE_def MEM_BLOCK_STAT_USE_def)
  consider "u" "m (a + k - 1) = MEM_BLOCK_STAT_USE" | "\<not> u" "m (a + k - 1) = MEM_BLOCK_STAT_FREE" "fl = a"
    | "\<not> u" "m (a + k - 1) \<noteq> MEM_BLOCK_STAT_FREE" "fl = a"
    using Cons.prems(1,3) c by (cases u) auto
  then show ?case
  proof cases
    case 1
    have m: "(b, n, False) \<in> set bs" using Cons.prems(6) c 1(1) by auto
    have p: "path m fl (free_addrs bs) 0" using Cons.prems(3) c 1(1) by simp
    show ?thesis
      using dog 1 Cons.IH [OF l(1) Cons.prems(2) p _ Cons.prems(5) m Cons.prems(7)] Cons.prems(4,8)
      by (subst status_loop.simps) (auto simp: Let_def)
  next
    case 2
    have "(b, n) \<noteq> (d, k)" using 2 Cons.prems(7) tags l(2) by auto
    then have m: "(b, n, False) \<in> set bs" using Cons.prems(6) c by auto
    have p: "path m (blk_next m a) (free_addrs bs) 0" using Cons.prems(3) c 2 l(2) by simp
    show ?thesis
      using dog 2 tags Cons.IH [OF l(1) Cons.prems(2) p _ Cons.prems(5) m Cons.prems(7)] Cons.prems(4,8)
      by (subst status_loop.simps) (auto simp: Let_def)
  next
    case 3
    then show ?thesis using dog Cons.prems(8) by (subst status_loop.simps) (auto simp: stops_def)
  qed
qed simp

section \<open>A concrete system\<close>

text \<open>An empty system, and the system with one heap of 1024 bytes at address 4096.\<close>

definition empty_sys :: heap_sys where
  "empty_sys = \<lparr>hs_mem = (\<lambda>_. 0), hs_heaps = replicate 4 heap_zero, hs_free_size = 0,
     hs_free_watermark = 0, hs_ctx = \<lparr>enter_critical = 1, exit_critical = 1, dbg_output = 1\<rparr>, hs_events = []\<rparr>"

definition demo_sys :: heap_sys where
  "demo_sys = snd (snd (tuya_mem_heap_create empty_sys 4096 1024 True))"

lemma empty_sys_slot: "find_free_slot (hs_heaps empty_sys) = 0"
  by (simp add: find_free_slot_def empty_sys_def heap_zero_def MEM_HEAP_LIST_NUM_def numeral_eq_Suc)

lemma create_gives_rep:
  assumes "length (hs_heaps s) = MEM_HEAP_LIST_NUM" "find_free_slot (hs_heaps s) < MEM_HEAP_LIST_NUM"
    and "0 < p" "p + unat sz + 7 < two64" "ALIGN_UP p + 32 \<le> ALIGN_DOWN (p + unat sz)"
    and "hs_free_size s + unat sz < two64"
  shows "\<exists>s'. tuya_mem_heap_create s p sz True = (0, Some (find_free_slot (hs_heaps s)), s')
    \<and> heap_rep 24 s' (find_free_slot (hs_heaps s)) [(ALIGN_UP p, ALIGN_DOWN (p + unat sz) - ALIGN_UP p, False)]
    \<and> hs_events s' = hs_events s @ [DbgOutput (MsgHeapInit (unat sz) p), EnterCritical, ExitCritical]"
proof -
  let ?i = "find_free_slot (hs_heaps s)"
  let ?s1 = "hs_event EnterCritical (hs_event (DbgOutput (MsgHeapInit (unat sz) p)) s)"
  obtain rc s' where e: "mem_heap_init ?s1 ?i p (unat sz) = (rc, s')" by force
  have i: "?i < length (hs_heaps ?s1)" using assms(1,2) by simp
  note f = mem_heap_init_rep [OF i assms(3,4,5) _ e]
  have "unat sz \<noteq> 0"
  proof
    assume "unat sz = 0"
    then show False using assms(4,5) align_up_bounds(1) [of p] div_times_less_eq_dividend [of p 8]
      by (simp add: ALIGN_DOWN_eq)
  qed
  then have "tuya_mem_heap_create s p sz True = (0, Some ?i, hs_event ExitCritical s')"
    using e f(1) assms(2,3,6)
    by (simp add: tuya_mem_heap_create_def MEM_HeapCreate_def Let_def)
  moreover have "heap_rep 24 (hs_event ExitCritical s') ?i
      [(ALIGN_UP p, ALIGN_DOWN (p + unat sz) - ALIGN_UP p, False)]"
    using f(2) assms(6) by (simp add: heap_rep_def)
  ultimately show ?thesis using f(5) assms(6) by simp
qed

lemma demo_rep: "heap_rep 24 demo_sys 0 [(4096, 1024, False)]"
  using create_gives_rep [of empty_sys 4096 1024]
  by (simp add: empty_sys_slot ALIGN_UP_eq ALIGN_DOWN_eq two64_def demo_sys_def)
    (auto simp: empty_sys_def MEM_HEAP_LIST_NUM_def)

lemma layout_weaken: "layout mn m a bs e \<Longrightarrow> 16 \<le> mn \<Longrightarrow> layout 16 m a bs e"
proof (induction bs arbitrary: a)
  case (Cons c bs)
  obtain b n u where c: "c = (b, n, u)" by (cases c)
  then have "layout 16 m (a + n) bs e" using Cons by simp
  then show ?case using Cons.prems c by auto
qed simp

lemma heap_rep_weaken: "heap_rep mn s i bs \<Longrightarrow> heap_rep 16 s i bs"
  by (auto simp: heap_rep_def area_rep_def dest: layout_weaken)

lemma demo_live: "heap_live 0 demo_sys {}"
  using heap_rep_weaken [OF demo_rep] by (auto simp: heap_live_def)

lemma live_block:
  assumes "heap_live i s L" "(p, c) \<in> L"
  shows "\<exists>bs. heap_rep 16 s i bs \<and> L = payload ` used_blocks bs \<and> (p - 8, c + 9) \<in> used_blocks bs
     \<and> 8 < p \<and> 7 \<le> c \<and> 8 dvd c + 9"
proof -
  obtain bs where bs: "heap_rep 16 s i bs" "L = payload ` used_blocks bs"
    and ar: "area_rep 16 (hs_mem s) (hp_free_list (hs_heap s i)) (heap_lo (hs_heap s i)) (heap_hi (hs_heap s i)) bs"
    using heap_live_rep [OF assms(1)] by blast
  obtain b n where b: "(b, n) \<in> used_blocks bs" "p = b + 8" "c = n - 9"
    using bs(2) assms(2) by (auto simp: payload_def)
  then have "16 \<le> n" "0 < b" "8 dvd n" using area_member [OF ar, of b n True] by (auto simp: used_blocks_def)
  then have "(p - 8, c + 9) = (b, n)" "8 < p" "7 \<le> c" "8 dvd c + 9" using b by auto
  then show ?thesis using bs b(1) by auto
qed

lemma live_copy:
  assumes "heap_live i s L" "(p, c) \<in> L" "k \<le> c"
  shows "heap_live i (s\<lparr>hs_mem := mem_copy (hs_mem s) p src k\<rparr>) L"
proof -
  obtain bs where bs: "heap_rep 16 s i bs" "L = payload ` used_blocks bs" "(p - 8, c + 9) \<in> used_blocks bs" "8 < p"
    using live_block [OF assms(1,2)] by blast
  then show ?thesis using copy_rep [OF bs(1,3), of k src] assms(3) by (auto simp: heap_live_def)
qed

lemma u32_room: "unat (x :: u32) + 16 < two64"
  using unat_u32_less [of x] unfolding two64_def by linarith

lemma request_le:
  assumes "4 \<le> n" "n + 16 < two64" "n + 9 \<le> k" "8 dvd k"
  shows "request n \<le> k"
proof -
  obtain q where q: "k = 8 * q" using assms(4) by (auto elim: dvdE)
  have "(n + 8) div 8 < q" using assms(3) q by (intro less_mult_imp_div_less) simp
  then have "(n + 8) div 8 * 8 + 8 \<le> k" using q by simp
  then show ?thesis using assms by (simp add: request_def alloc_size_eq)
qed

lemma malloc_request: "tuya_mem_heap_malloc s (Some i) sz = heap_request i s (unat sz)"
  by (simp add: heap_request_def)

text \<open>
  The last step of a growing reallocation: copy the old block into the new region and release it.
\<close>

lemma realloc_move:
  assumes L: "heap_live i s L" and pc: "(p, c) \<in> L" and qd: "(q, d) \<in> L" "q \<noteq> p" and k: "c < d"
  shows "\<exists>s'. tuya_mem_heap_free (s\<lparr>hs_mem := mem_copy (hs_mem s) q p (c + 1)\<rparr>) (Some i) p = Some s'
     \<and> heap_live i s' (L - {(p, c)}) \<and> (\<forall>j<c. hs_mem s' (q + j) = hs_mem s (p + j))
     \<and> (\<forall>r\<in>L - {(p, c), (q, d)}. \<forall>x. in_region r x \<longrightarrow> hs_mem s' x = hs_mem s x)"
proof -
  let ?s = "s\<lparr>hs_mem := mem_copy (hs_mem s) q p (c + 1)\<rparr>"
  have live: "heap_live i ?s L" by (rule live_copy [OF L qd(1)]) (use k in simp)
  obtain s' where s': "heap_release i ?s p = Some s'" "heap_live i s' (L - {(p, c)})"
    and keep: "\<forall>r\<in>L - {(p, c)}. \<forall>x. in_region r x \<longrightarrow> hs_mem s' x = hs_mem ?s x"
    using heap_release_result [OF live pc] by blast
  have "hs_mem s' (q + j) = hs_mem s (p + j)" if "j < c" for j
  proof -
    have "in_region (q, d) (q + j)" "(q, d) \<in> L - {(p, c)}" using that k qd by (auto simp: in_region_def)
    then have "hs_mem s' (q + j) = hs_mem ?s (q + j)" using keep by blast
    then show ?thesis using that by (simp add: mem_copy_def)
  qed
  moreover have "hs_mem s' x = hs_mem s x" if r: "r \<in> L - {(p, c), (q, d)}" and x: "in_region r x" for r x
  proof -
    have "apart r (q, d)" using heap.live_apart [OF L, of r "(q, d)"] r qd by auto
    then have "\<not> (q \<le> x \<and> x < q + (c + 1))" using x k by (auto simp: apart_def in_region_def)
    moreover have "hs_mem s' x = hs_mem ?s x" using keep r x by blast
    ultimately show ?thesis by (auto simp: mem_copy_def)
  qed
  ultimately show ?thesis using s' by (auto simp: heap_release_def)
qed

text \<open>The leak record of a debug allocation in a block of \<open>n\<close> bytes at \<open>b\<close>.\<close>

definition leak_mem :: "memory \<Rightarrow> nat \<Rightarrow> nat \<Rightarrow> nat \<Rightarrow> nat \<Rightarrow> memory" where
  "leak_mem m a file line sz =
     st64 (st64 (st64 (st64 m a file) (a + 8) line) (a + 16) sz) (a + 24) MEM_DBG_LEAK_MAGIC"

lemma leak_mem_facts:
  assumes "file < two64" "line < two64" "sz < two64"
  shows "ld64 (leak_mem m a file line sz) a = file" "ld64 (leak_mem m a file line sz) (a + 8) = line"
    "ld64 (leak_mem m a file line sz) (a + 16) = sz"
    "ld64 (leak_mem m a file line sz) (a + 24) = MEM_DBG_LEAK_MAGIC"
    "leak_mem m a file line sz x \<noteq> m x \<Longrightarrow> a \<le> x \<and> x < a + 32"
proof -
  show "leak_mem m a file line sz x \<noteq> m x \<Longrightarrow> a \<le> x \<and> x < a + 32"
    by (cases "a \<le> x \<and> x < a + 32") (auto simp: leak_mem_def)
qed (use assms in \<open>simp_all add: leak_mem_def MEM_DBG_LEAK_MAGIC_def two64_def\<close>)

lemma live_write:
  assumes "heap_live i s L" "(p, c) \<in> L" "\<And>x. m' x \<noteq> hs_mem s x \<Longrightarrow> in_region (p, c) x"
  shows "heap_live i (s\<lparr>hs_mem := m'\<rparr>) L"
proof -
  obtain bs where bs: "heap_rep 16 s i bs" "L = payload ` used_blocks bs" "(p - 8, c + 9) \<in> used_blocks bs" "8 < p"
    using live_block [OF assms(1,2)] by blast
  have "heap_rep 16 (s\<lparr>hs_mem := m'\<rparr>) i bs"
    by (rule write_rep [OF bs(1,3)]) (use assms(3) bs(4) in \<open>fastforce simp: in_region_def\<close>)
  then show ?thesis using bs(2) by (auto simp: heap_live_def)
qed

text \<open>
  The record at the end of a live region of a debug allocation: where it is, that it stays inside
  the region and what it holds.
\<close>

lemma leak_record:
  assumes L: "heap_live i s L" and pc: "(p, c) \<in> L" and c: "z + 32 \<le> c" "8 dvd z"
    and v: "file < two64" "line < two64" "sz < two64"
    and m: "m = leak_mem (hs_mem s) (MEM_LEAK_DBG_ADDR (hs_mem s) (sub64 p 8)) file line sz"
  shows "heap_live i (s\<lparr>hs_mem := m\<rparr>) L" "\<And>x. m x \<noteq> hs_mem s x \<Longrightarrow> in_region (p, c) x"
    "\<exists>a. p + z \<le> a \<and> a + 32 \<le> p + c \<and> a = MEM_LEAK_DBG_ADDR m (p - 8)
       \<and> ld64 m a = file \<and> ld64 m (a + 8) = line \<and> ld64 m (a + 16) = sz \<and> ld64 m (a + 24) = MEM_DBG_LEAK_MAGIC"
proof -
  obtain bs where bs: "heap_rep 16 s i bs" "(p - 8, c + 9) \<in> used_blocks bs" and p8: "8 < p" "8 dvd c + 9"
    using live_block [OF L pc] by blast
  note u = heap_rep_used [OF bs]
  have sp: "sub64 p 8 = p - 8" using p8 u(5) by simp
  define a where "a = p + c - 39"
  have la: "MEM_LEAK_DBG_ADDR m' (p - 8) = a" if "blk_size m' (p - 8) = c + 9" for m'
    using that u(5) p8(1) c(1) by (simp add: MEM_LEAK_DBG_ADDR_def MEM_DBG_LEAK_SIZE_def MEM_ALIGN_NUM_def a_def)
  have zc: "z + 39 \<le> c"
  proof -
    obtain q t where "z = 8 * q" "c + 9 = 8 * t" using c(2) p8(2) by (auto elim!: dvdE)
    then show ?thesis using c(1) by presburger
  qed
  have ma: "m = leak_mem (hs_mem s) a file line sz" unfolding m sp la [OF u(3)] ..
  note f = leak_mem_facts [OF v, of "hs_mem s" a, folded ma]
  show bd: "in_region (p, c) x" if "m x \<noteq> hs_mem s x" for x
    using f(5) [OF that] zc by (auto simp: in_region_def a_def)
  show live: "heap_live i (s\<lparr>hs_mem := m\<rparr>) L" by (rule live_write [OF L pc bd])
  obtain bs' where "heap_rep 16 (s\<lparr>hs_mem := m\<rparr>) i bs'" "(p - 8, c + 9) \<in> used_blocks bs'"
    using live_block [OF live pc] by blast
  then have "blk_size m (p - 8) = c + 9" using heap_rep_used(3) by fastforce
  then have "MEM_LEAK_DBG_ADDR m (p - 8) = a" by (rule la)
  then show "\<exists>a. p + z \<le> a \<and> a + 32 \<le> p + c \<and> a = MEM_LEAK_DBG_ADDR m (p - 8)
       \<and> ld64 m a = file \<and> ld64 m (a + 8) = line \<and> ld64 m (a + 16) = sz \<and> ld64 m (a + 24) = MEM_DBG_LEAK_MAGIC"
    using f(1-4) zc by (intro exI [of _ a]) (auto simp: a_def)
qed

text \<open>Serving a request from a heap whose only free block is the first one.\<close>

lemma take_first:
  assumes r: "heap_rep mn s i ((b, n, False) # ys)" and ys: "\<forall>(c, k, u)\<in>set ys. u"
    and k: "0 < k" "k + 16 < two64" "mn \<le> request k" "mn \<le> 24" and n: "request k + 32 \<le> n"
  shows "\<exists>s'. MEM_Allocate s (Some i) k = Some (b + (n - request k) + 8, s')
     \<and> heap_rep mn s' i ((b, n - request k, False) # (b + (n - request k), request k, True) # ys)"
proof -
  have first: "xs = [] \<and> c = b \<and> j = n \<and> zs = ys" if e: "(b, n, False) # ys = xs @ (c, j, False) # zs" for xs c j zs
    using e ys by (cases xs) auto
  have split: "n - request k \<ge> MEM_HEAP_MIN_SIZE"
    using n by (simp add: MEM_HEAP_MIN_SIZE_def MEM_BLOCK_MIN_SIZE_def MEM_BLOCK_HEAD_SIZE_def)
  have big: "\<not> (\<forall>c j. (c, j, False) \<in> set ((b, n, False) # ys) \<longrightarrow> j < request k)" using n by auto
  obtain xs c j zs s' where e: "(b, n, False) # ys = xs @ (c, j, False) # zs"
    "MEM_Allocate s (Some i) k = Some (taken_addr (request k) c j + 8, s')"
    "heap_rep mn s' i (take_block (request k) xs c j zs)"
    using MEM_Allocate_takes [OF r k] big by blast
  then show ?thesis using first [OF e(1)] split by (simp add: taken_addr_def take_block_def)
qed

lemma demo_alloc:
  "\<exists>s. heap_rep 24 s 0 [(4096, 912, False), (5008, 112, True)] \<and> heap_live 0 s {(5016, 103)}"
proof -
  have r: "request 100 = 112" by (simp add: request_def alloc_size_eq two64_def)
  obtain s where s: "heap_rep 24 s 0 [(4096, 912, False), (5008, 112, True)]"
    using take_first [OF demo_rep, of 100] r by (auto simp: two64_def)
  moreover have "payload ` used_blocks [(4096, 912, False), (5008, 112, True)] = {(5016, 103)}"
    by (simp add: payload_def)
  ultimately show ?thesis using heap_rep_weaken [OF s] unfolding heap_live_def by metis
qed

text \<open>Three four-byte requests, the second one released: its block of sixteen bytes is free.\<close>

lemma demo_small:
  "\<exists>s. heap_rep 16 s 0 [(4096, 976, False), (5072, 16, True), (5088, 16, False), (5104, 16, True)]"
proof -
  have r: "request 4 = 16" by (simp add: request_def alloc_size_eq two64_def)
  have t: "(4 :: nat) + 16 < two64" by (simp add: two64_def)
  obtain s1 where s1: "heap_rep 16 s1 0 [(4096, 1008, False), (5104, 16, True)]"
    using take_first [OF heap_rep_weaken [OF demo_rep], of 4] r t by auto
  obtain s2 where s2: "heap_rep 16 s2 0 [(4096, 992, False), (5088, 16, True), (5104, 16, True)]"
    using take_first [OF s1, of 4] r t by auto
  obtain s3 where s3: "heap_rep 16 s3 0 [(4096, 976, False), (5072, 16, True), (5088, 16, True), (5104, 16, True)]"
    using take_first [OF s2, of 4] r t by auto
  show ?thesis
    using MEM_Deallocate_gives [OF s3, of "[(4096, 976, False), (5072, 16, True)]" 5088 16 "[(5104, 16, True)]"]
    by (auto simp: give_block_def free_left_def)
qed

section \<open>Properties\<close>

text \<open>
  Creating a heap over a large enough address range succeeds in the first unused slot of
  \<open>mem_heap_list\<close> and leaves one free block that covers the aligned part of the range, under one
  critical section.
\<close>

theorem heap_create_rep:
  assumes "length (hs_heaps s) = MEM_HEAP_LIST_NUM" "find_free_slot (hs_heaps s) < MEM_HEAP_LIST_NUM"
    and "0 < p" "p + unat sz + 7 < two64" "ALIGN_UP p + 32 \<le> ALIGN_DOWN (p + unat sz)"
    and "hs_free_size s + unat sz < two64"
  shows "\<exists>s'. tuya_mem_heap_create s p sz True = (0, Some (find_free_slot (hs_heaps s)), s')
    \<and> heap_rep 24 s' (find_free_slot (hs_heaps s)) [(ALIGN_UP p, ALIGN_DOWN (p + unat sz) - ALIGN_UP p, False)]
    \<and> hs_events s' = hs_events s @ [DbgOutput (MsgHeapInit (unat sz) p), EnterCritical, ExitCritical]"
  using assms by (rule create_gives_rep)

theorem heap_create_rep_witness:
  "\<exists>s'. tuya_mem_heap_create empty_sys 4096 1024 True = (0, Some 0, s')
    \<and> heap_rep 24 s' 0 [(4096, 1024, False)]
    \<and> hs_events s' = [DbgOutput (MsgHeapInit 1024 4096), EnterCritical, ExitCritical]"
  using heap_create_rep [of empty_sys 4096 1024]
  by (simp add: empty_sys_slot ALIGN_UP_eq ALIGN_DOWN_eq two64_def)
    (simp add: empty_sys_def MEM_HEAP_LIST_NUM_def)

text \<open>
  C1: Any sequence of requests to a heap ends, and the regions it grants are disjoint from each
  other and from everything live before, whose bytes stay as they were.
\<close>

theorem heap_requests_disjoint:
  assumes "heap_live i s L" "\<forall>n\<in>set ns. 0 < n \<and> n < 2 ^ 32"
  shows "\<exists>ps s' L'. alloc_many (\<lambda>s n. tuya_mem_heap_malloc s (Some i) (of_nat n)) s ns = Some (ps, s')
     \<and> length ps = length ns \<and> heap_live i s' L' \<and> L \<subseteq> L'
     \<and> (\<forall>r\<in>L. \<forall>x. in_region r x \<longrightarrow> hs_mem s' x = hs_mem s x)
     \<and> (\<forall>(p, n)\<in>set (granted ps ns). \<exists>c\<ge>n. (p, c) \<in> L' - L)
     \<and> sorted_wrt apart (granted ps ns)"
  using heap.many [OF assms] by (simp add: heap_request_def [abs_def])

theorem heap_requests_disjoint_witness:
  "\<exists>ps s' L'. alloc_many (\<lambda>s n. tuya_mem_heap_malloc s (Some 0) (of_nat n)) demo_sys [100, 4, 200] = Some (ps, s')
     \<and> length ps = 3 \<and> heap_live 0 s' L' \<and> sorted_wrt apart (granted ps [100, 4, 200])"
  using heap_requests_disjoint [OF demo_live, of "[100, 4, 200]"] by auto

text \<open>
  A request fails only when no free block can hold header, data and tag; otherwise it takes
  the block from one free block that can (splitting it when at least a minimal heap block is left
  over), keeps the invariant and the free-byte accounting, and runs under one critical section.
\<close>

theorem heap_malloc_outcome:
  assumes "heap_rep mn s i bs" "0 < sz" "mn \<le> request (unat sz)" "mn \<le> 24"
  shows "(\<forall>b n. (b, n, False) \<in> set bs \<longrightarrow> n < request (unat sz))
        \<and> tuya_mem_heap_malloc s (Some i) sz = Some (0, s\<lparr>hs_events := locked s\<rparr>)
    \<or> (\<exists>xs b n ys s'. bs = xs @ (b, n, False) # ys \<and> request (unat sz) \<le> n
         \<and> tuya_mem_heap_malloc s (Some i) sz = Some (taken_addr (request (unat sz)) b n + 8, s')
         \<and> heap_rep mn s' i (take_block (request (unat sz)) xs b n ys)
         \<and> (\<forall>x. hs_mem s' x \<noteq> hs_mem s x \<longrightarrow> in_free bs x)
         \<and> hs_events s' = locked s \<and> same_heaps i s s'
         \<and> hs_free_size s' + taken_size (request (unat sz)) n = hs_free_size s)"
  unfolding tuya_mem_heap_malloc_def option.case
  by (rule MEM_Allocate_takes [OF assms(1) _ _ assms(3,4)])
    (use assms(2) u32_room in \<open>simp_all add: word_less_nat_alt\<close>)

theorem heap_malloc_outcome_witness:
  "\<exists>s'. tuya_mem_heap_malloc demo_sys (Some 0) 100 = Some (5016, s')
     \<and> heap_rep 24 s' 0 [(4096, 912, False), (5008, 112, True)]
     \<and> hs_events s' = locked demo_sys"
proof -
  have "request (unat (100 :: u32)) = 112" by (simp add: request_def alloc_size_eq two64_def)
  then show ?thesis
    using heap_malloc_outcome [OF demo_rep, of 100]
    by (auto simp: append_eq_Cons_conv Cons_eq_append_conv taken_addr_def take_block_def MEM_HEAP_MIN_SIZE_def
        MEM_BLOCK_MIN_SIZE_def MEM_BLOCK_HEAD_SIZE_def)
qed

text \<open>
  C2: Releasing a live block ends, removes exactly that block, joins it with free neighbours on
  both sides so that no two free blocks touch, adds its size to both free counters and changes
  memory only in blocks that are free afterwards, under one critical section.
\<close>

theorem heap_free_reclaims:
  assumes "heap_rep mn s i (xs @ (b, n, True) # ys)"
  shows "\<exists>s'. tuya_mem_heap_free s (Some i) (b + 8) = Some s'
     \<and> heap_rep mn s' i (give_block xs b n ys) \<and> coalesced (give_block xs b n ys)
     \<and> used_blocks (give_block xs b n ys) = used_blocks (xs @ (b, n, True) # ys) - {(b, n)}
     \<and> hp_free (hs_heap s' i) = hp_free (hs_heap s i) + n \<and> hs_free_size s' = hs_free_size s + n
     \<and> (\<forall>x. hs_mem s' x \<noteq> hs_mem s x \<longrightarrow> in_free (xs @ (b, n, False) # ys) x)
     \<and> hs_events s' = locked s \<and> same_heaps i s s'"
proof -
  obtain s' where s': "MEM_Deallocate s (Some i) (b + 8) = Some s'" "heap_rep mn s' i (give_block xs b n ys)"
    "\<forall>x. hs_mem s' x \<noteq> hs_mem s x \<longrightarrow> in_free (xs @ (b, n, False) # ys) x"
    "hs_events s' = locked s" "same_heaps i s s'" "hs_free_size s' = hs_free_size s + n"
    using MEM_Deallocate_gives [OF assms refl] by blast
  moreover have "used_blocks (give_block xs b n ys) = used_blocks (xs @ (b, n, True) # ys) - {(b, n)}"
    using used_remove [OF _ refl] assms unfolding used_blocks_give heap_rep_def by blast
  ultimately show ?thesis
    using assms free_bytes_give_block [of xs b n ys] by (simp add: tuya_mem_heap_free_def heap_rep_def)
qed

theorem heap_free_reclaims_witness:
  "\<exists>s s'. heap_rep 24 s 0 [(4096, 912, False), (5008, 112, True)]
     \<and> tuya_mem_heap_free s (Some 0) 5016 = Some s' \<and> heap_rep 24 s' 0 [(4096, 1024, False)]"
proof -
  obtain s where s: "heap_rep 24 s 0 [(4096, 912, False), (5008, 112, True)]" using demo_alloc by blast
  then show ?thesis
    using heap_free_reclaims [of 24 s 0 "[(4096, 912, False)]" 5008 112 "[]"]
    by (auto simp: give_block_def free_left_def)
qed

text \<open>
  In a heap that only ever served requests of at least eight bytes, \<open>MEM_HeapStatus\<close> walks
  every block to the end and reports the heap valid, with the numbers of used and free blocks and
  the bytes that remain allocatable.
\<close>

theorem heap_status_reports:
  assumes "heap_rep 24 s i bs"
  shows "\<exists>st s'. MEM_HeapStatus s (Some i) (Some st0) = Some (Some st, s') \<and> hs_mem s' = hs_mem s
     \<and> hs_heaps s' = hs_heaps s
     \<and> st_valid st = 1 \<and> st_size st = hp_size (hs_heap s i)
     \<and> st_used_block st = length (filter (\<lambda>(b, n, u). u) bs)
     \<and> st_free_block st = length (free_addrs bs)
     \<and> st_free st + 9 * length (free_addrs bs) = hp_free (hs_heap s i)"
proof -
  let ?h = "hs_heap s i" let ?st = "status_zero\<lparr>st_size := hp_size ?h\<rparr>"
  have ar: "layout 24 (hs_mem s) (heap_lo ?h) bs (heap_hi ?h)" "path (hs_mem s) (hp_free_list ?h) (free_addrs bs) 0"
    "0 < heap_lo ?h" "heap_hi ?h < two64" "free_bytes bs < two64" "hp_free ?h = free_bytes bs"
    using assms by (auto simp: heap_rep_def area_rep_def)
  obtain ev where ev: "status_loop (hs_mem s) (heap_hi ?h) (heap_lo ?h) (hp_free_list ?h) ?st []
      = Some (0, heap_hi ?h, 0, status_of ?st bs, ev)"
    using status_loop_counts [OF ar(1) _ ar(2-4), of ?st "[]"] ar(5) by (auto simp: status_zero_def)
  have "\<forall>(b, n, u)\<in>set bs. 9 \<le> n" using layout_member [OF ar(1)] by fastforce
  note free = status_of_free [OF this, of ?st]
  show ?thesis
    using ev ar(6) free status_of_counts [of ?st bs]
    by (simp add: MEM_HeapStatus_def Let_def heap_lo_def heap_hi_def status_zero_def)
qed

theorem heap_status_reports_witness:
  "\<exists>st s'. MEM_HeapStatus demo_sys (Some 0) (Some status_zero) = Some (Some st, s')
     \<and> st_valid st = 1 \<and> st_used_block st = 0 \<and> st_free_block st = 1"
  using heap_status_reports [OF demo_rep, of status_zero] by auto

text \<open>The case in which reallocation moves the data from \<open>(p, c)\<close> to the new region \<open>(q, d)\<close>.\<close>

lemma realloc_relocate:
  assumes L: "heap_live i s1 (insert (q, d) L)" and pc: "(p, c) \<in> L" and d: "(q, d) \<notin> L" "c < d"
    and keep: "\<forall>r\<in>L. \<forall>x. in_region r x \<longrightarrow> hs_mem s1 x = hs_mem s x"
  shows "\<exists>s'. tuya_mem_heap_free (s1\<lparr>hs_mem := mem_copy (hs_mem s1) q p
        (sub64 (blk_size (hs_mem s1) (p - 8)) MEM_BLOCK_HEAD_SIZE)\<rparr>) (Some i) p = Some s'
    \<and> heap_live i s' (insert (q, d) (L - {(p, c)})) \<and> (\<forall>j<c. hs_mem s' (q + j) = hs_mem s (p + j))
    \<and> (\<forall>r\<in>L - {(p, c)}. \<forall>x. in_region r x \<longrightarrow> hs_mem s' x = hs_mem s x)"
proof -
  have m: "(p, c) \<in> insert (q, d) L" "(q, d) \<in> insert (q, d) L" using pc by auto
  have "q \<noteq> p" using heap.live_apart [OF L m] d(1) pc heap.live_nonnull [OF L] m by (fastforce simp: apart_def)
  obtain bs where "heap_rep 16 s1 i bs" "(p - 8, c + 9) \<in> used_blocks bs" using live_block [OF L m(1)] by blast
  then have n: "sub64 (blk_size (hs_mem s1) (p - 8)) MEM_BLOCK_HEAD_SIZE = c + 1"
    using heap_rep_used [of 16 s1 i bs "p - 8" "c + 9"] by (simp add: MEM_BLOCK_HEAD_SIZE_def)
  obtain s' where s': "tuya_mem_heap_free (s1\<lparr>hs_mem := mem_copy (hs_mem s1) q p (c + 1)\<rparr>) (Some i) p = Some s'"
    "heap_live i s' (insert (q, d) L - {(p, c)})" "\<forall>j<c. hs_mem s' (q + j) = hs_mem s1 (p + j)"
    "\<forall>r\<in>insert (q, d) L - {(p, c), (q, d)}. \<forall>x. in_region r x \<longrightarrow> hs_mem s' x = hs_mem s1 x"
    using realloc_move [OF L m \<open>q \<noteq> p\<close> d(2)] by blast
  have "hs_mem s' (q + j) = hs_mem s (p + j)" if "j < c" for j
    using s'(3) keep pc that by (force simp: in_region_def)
  moreover have "hs_mem s' x = hs_mem s x" if "r \<in> L - {(p, c)}" "in_region r x" for r x
  proof -
    have "r \<in> insert (q, d) L - {(p, c), (q, d)}" using that(1) d by auto
    then show ?thesis using s'(4) keep that by auto
  qed
  moreover have "insert (q, d) L - {(p, c)} = insert (q, d) (L - {(p, c)})" using \<open>q \<noteq> p\<close> by auto
  ultimately show ?thesis using s'(1,2) n by auto
qed

text \<open>
  Reallocation of a live region returns the same region when it is large enough; otherwise it
  returns null and leaves everything live as it was, or moves the data: the new region starts with
  the bytes of the old one, which is released. No other live region changes.
\<close>

theorem heap_realloc_moves_data:
  assumes L: "heap_live i s L" and pc: "(p, c) \<in> L" and sz: "unat sz + 1 < 2 ^ 32"
  shows "\<exists>p' s' L'. tuya_mem_heap_realloc s (Some i) p sz = Some (p', s') \<and> heap_live i s' L'
     \<and> (\<forall>r\<in>L - {(p, c)}. \<forall>x. in_region r x \<longrightarrow> hs_mem s' x = hs_mem s x)
     \<and> (p' = 0 \<and> L' = L \<or> p' = p \<and> s' = s \<and> unat sz \<le> c \<and> L' = L
        \<or> (\<exists>c'\<ge>unat sz. L' = insert (p', c') (L - {(p, c)}) \<and> (\<forall>j<c. hs_mem s' (p' + j) = hs_mem s (p + j))))"
proof -
  define z where "z = (if sz < 4 then 4 else sz)"
  have z: "4 \<le> z" "unat z + 1 < 2 ^ 32" "unat sz \<le> unat z" using sz by (auto simp: z_def word_le_nat_alt word_less_nat_alt)
  obtain bs where bs: "heap_rep 16 s i bs" "L = payload ` used_blocks bs" "(p - 8, c + 9) \<in> used_blocks bs"
    and p: "8 < p" "7 \<le> c" "8 dvd c + 9" using live_block [OF L pc] by blast
  note u = heap_rep_used [OF bs(1,3)]
  have old: "sub64 p MEM_BLOCK_HEAD_SIZE = p - 8" using p(1) u(5) by (simp add: MEM_BLOCK_HEAD_SIZE_def)
  have rs: "realloc_size z = request (unat z)" by (rule realloc_size_eq [OF z(2,1)])
  have zr: "unat z + 9 \<le> request (unat z)" using request_bounds(2) [of "unat z"] z(2) by simp
  show ?thesis
  proof (cases "request (unat z) \<le> c + 9")
    case True
    then have "tuya_mem_heap_realloc s (Some i) p sz = Some (p, s)"
      using p old u rs by (simp add: tuya_mem_heap_realloc_def Let_def z_def [symmetric])
    then show ?thesis using L zr z(3) True by auto
  next
    case False
    obtain q s1 L1 where a: "heap_request i s (unat z) = Some (q, s1)" "heap_live i s1 L1"
      and keep: "\<forall>r\<in>L. \<forall>x. in_region r x \<longrightarrow> hs_mem s1 x = hs_mem s x"
      and q: "q = 0 \<and> L1 = L \<or> (\<exists>d\<ge>unat z. (q, d) \<notin> L \<and> L1 = insert (q, d) L)"
      using heap_alloc_result [OF L, of "unat z"] z by (auto simp: word_le_nat_alt)
    have re: "tuya_mem_heap_realloc s (Some i) p sz =
        (if q = 0 then Some (0, s1)
         else Option.bind (tuya_mem_heap_free (s1\<lparr>hs_mem := mem_copy (hs_mem s1) q p
           (sub64 (blk_size (hs_mem s1) (p - 8)) MEM_BLOCK_HEAD_SIZE)\<rparr>) (Some i) p) (\<lambda>s3. Some (q, s3)))"
      using p old u rs False a(1)
      by (simp add: tuya_mem_heap_realloc_def Let_def z_def [symmetric] malloc_request)
    show ?thesis
    proof (cases "q = 0")
      case True
      have "L1 = L" using q True heap.live_nonnull [OF a(2), of 0] by auto
      then show ?thesis using re True a(2) keep by auto
    next
      case False
      then obtain d where d: "unat z \<le> d" "(q, d) \<notin> L" "L1 = insert (q, d) L" using q by auto
      have "\<not> unat z + 9 \<le> c + 9"
        using request_le [of "unat z" "c + 9"] \<open>\<not> request (unat z) \<le> c + 9\<close> p(3) z u32_room [of z]
        by (auto simp: word_le_nat_alt)
      then have "c < d" using d(1) by simp
      from realloc_relocate [OF a(2) [unfolded d(3)] pc d(2) this keep] show ?thesis
        using re False z(3) d(1) by (elim exE conjE) (auto intro: order_trans)
    qed
  qed
qed

theorem heap_realloc_moves_data_witness:
  "\<exists>s p' s' L'. heap_live 0 s {(5016, 103)} \<and> tuya_mem_heap_realloc s (Some 0) 5016 200 = Some (p', s')
     \<and> heap_live 0 s' L' \<and> (p' = 0 \<or> (\<forall>j<103. hs_mem s' (p' + j) = hs_mem s (5016 + j)))"
proof -
  obtain s where s: "heap_live 0 s {(5016, 103)}" using demo_alloc by blast
  obtain p' s' L' where e: "tuya_mem_heap_realloc s (Some 0) 5016 200 = Some (p', s')" "heap_live 0 s' L'"
    and "p' = 0 \<and> L' = {(5016, 103)} \<or> p' = 5016 \<and> s' = s \<and> unat (200 :: u32) \<le> 103 \<and> L' = {(5016, 103)}
      \<or> (\<exists>c'\<ge>unat (200 :: u32). L' = insert (p', c') ({(5016, 103)} - {(5016, 103)})
           \<and> (\<forall>j<103. hs_mem s' (p' + j) = hs_mem s (5016 + j)))"
    using heap_realloc_moves_data [OF s, of 5016 103 200] by auto
  then have "p' = 0 \<or> (\<forall>j<103. hs_mem s' (p' + j) = hs_mem s (5016 + j))" by auto
  then show ?thesis using s e by blast
qed

text \<open>
  A debug allocation keeps its leak record inside the block it was given, clear of the bytes
  the caller asked for: the record reads back what was stored and the caller's region is followed
  by it.
\<close>

theorem heap_debug_record_clear:
  assumes L: "heap_live i s L" and sz: "0 < sz" "unat sz + 40 < 2 ^ 32" and fl: "file < two64" "line < two64"
  shows "\<exists>p s' L'. tuya_mem_heap_debug_malloc s (Some i) sz file line = Some (p, s') \<and> heap_live i s' L'
     \<and> (\<forall>r\<in>L. \<forall>x. in_region r x \<longrightarrow> hs_mem s' x = hs_mem s x)
     \<and> (p = 0 \<and> L' = L
        \<or> (\<exists>c a. L' = insert (p, c) L \<and> p + unat sz \<le> a \<and> a + 32 \<le> p + c
            \<and> a = MEM_LEAK_DBG_ADDR (hs_mem s') (p - 8)
            \<and> ld64 (hs_mem s') a = file \<and> ld64 (hs_mem s') (a + 8) = line
            \<and> ld64 (hs_mem s') (a + 16) = unat sz \<and> ld64 (hs_mem s') (a + 24) = MEM_DBG_LEAK_MAGIC))"
proof -
  define z where "z = ALIGN_UP (unat sz)"
  have z: "unat sz \<le> z" "z \<le> unat sz + 7" "8 dvd z"
    using align_up_bounds [of "unat sz"] u32_room [of sz] by (simp_all add: z_def)
  have al: "add64 z 32 = z + 32" using z(2) sz(2) by (intro add64_small) (simp add: two64_def)
  have lt: "z + 32 < 2 ^ 32" using z(2) sz(2) by simp
  obtain p s1 L1 where a: "heap_request i s (z + 32) = Some (p, s1)" "heap_live i s1 L1"
    and keep: "\<forall>r\<in>L. \<forall>x. in_region r x \<longrightarrow> hs_mem s1 x = hs_mem s x"
    and p: "p = 0 \<and> L1 = L \<or> (\<exists>c\<ge>z + 32. (p, c) \<notin> L \<and> L1 = insert (p, c) L)"
    using heap_alloc_result [OF L, of "z + 32"] lt by auto
  have unf: "tuya_mem_heap_debug_malloc s (Some i) sz file line =
      Some (p, if p \<noteq> 0 then s1\<lparr>hs_mem := leak_mem (hs_mem s1)
         (MEM_LEAK_DBG_ADDR (hs_mem s1) (sub64 p 8)) file line (unat sz)\<rparr> else s1)"
    using a(1) lt al
    by (simp add: tuya_mem_heap_debug_malloc_def MEM_AllocateDebug_def heap_request_eq z_def [symmetric]
        MEM_DBG_LEAK_SIZE_def MEM_BLOCK_HEAD_SIZE_def leak_mem_def Let_def)
  show ?thesis
  proof (cases "p = 0")
    case True
    have "L1 = L" using p True heap.live_nonnull [OF a(2), of 0] by auto
    then show ?thesis using unf True a(2) keep by auto
  next
    case False
    then obtain c where c: "z + 32 \<le> c" "(p, c) \<notin> L" "L1 = insert (p, c) L" using p by auto
    have pc: "(p, c) \<in> L1" using c(3) by simp
    have szb: "unat sz < two64" using u32_room [of sz] by simp
    define m where "m = leak_mem (hs_mem s1) (MEM_LEAK_DBG_ADDR (hs_mem s1) (sub64 p 8)) file line (unat sz)"
    note rec = leak_record [OF a(2) pc c(1) z(3) fl szb m_def]
    have "m x = hs_mem s x" if "r \<in> L" "in_region r x" for r x
    proof -
      have "apart r (p, c)" using heap.live_apart [OF a(2), of r "(p, c)"] that(1) c by auto
      then have "\<not> in_region (p, c) x" using that(2) by (auto simp: apart_def in_region_def)
      then have "m x = hs_mem s1 x" using rec(2) by blast
      then show ?thesis using keep that by simp
    qed
    moreover obtain r where "p + unat sz \<le> r" "r + 32 \<le> p + c" "r = MEM_LEAK_DBG_ADDR m (p - 8)"
      "ld64 m r = file" "ld64 m (r + 8) = line" "ld64 m (r + 16) = unat sz" "ld64 m (r + 24) = MEM_DBG_LEAK_MAGIC"
      using rec(3) z(1) by auto
    moreover have "tuya_mem_heap_debug_malloc s (Some i) sz file line = Some (p, s1\<lparr>hs_mem := m\<rparr>)"
      using unf False by (simp add: m_def)
    ultimately show ?thesis
      using rec(1) c(3) by (intro exI [of _ p] exI [of _ "s1\<lparr>hs_mem := m\<rparr>"] exI [of _ L1]) auto
  qed
qed

theorem heap_debug_record_clear_witness:
  "\<exists>p s' L'. tuya_mem_heap_debug_malloc demo_sys (Some 0) 100 7 42 = Some (p, s') \<and> heap_live 0 s' L'
     \<and> (p = 0 \<or> ld64 (hs_mem s') (MEM_LEAK_DBG_ADDR (hs_mem s') (p - 8) + 24) = MEM_DBG_LEAK_MAGIC)"
  using heap_debug_record_clear [OF demo_live, of 100 7 42] by (auto simp: two64_def)

text \<open>
  A free block of sixteen bytes (a released request of at most seven bytes) keeps its list link
  where its tag is, so in an address space below \<open>2^56\<close> its tag byte is zero and \<open>MEM_HeapStatus\<close>
  reports the intact heap as damaged.
\<close>

theorem small_free_block_reported_damaged:
  assumes r: "heap_rep 16 s i bs" and b: "(b, 16, False) \<in> set bs" and hi: "heap_hi (hs_heap s i) \<le> 2 ^ 56"
  shows "hs_mem s (MEM_DOG_ADDR (hs_mem s) b) = 0
    \<and> (\<exists>st s'. MEM_HeapStatus s (Some i) (Some st0) = Some (Some st, s') \<and> st_valid st = 0)"
proof (rule conjI)
  let ?h = "hs_heap s i" let ?st = "status_zero\<lparr>st_size := hp_size ?h\<rparr>"
  have ar: "area_rep 16 (hs_mem s) (hp_free_list ?h) (heap_lo ?h) (heap_hi ?h) bs"
    using r by (simp add: heap_rep_def)
  then have p: "layout 16 (hs_mem s) (heap_lo ?h) bs (heap_hi ?h)" "path (hs_mem s) (hp_free_list ?h) (free_addrs bs) 0"
    "0 < heap_lo ?h" "heap_hi ?h < two64" by (auto simp: area_rep_def)
  have "blk_next (hs_mem s) b < 2 ^ 56"
  proof (rule path_next_bound [OF p(2)])
    show "b \<in> set (free_addrs bs)" using b by (auto simp: set_free_addrs)
    fix x assume "x \<in> set (free_addrs bs)"
    then obtain n where "(x, n, False) \<in> set bs" by (auto simp: set_free_addrs)
    then show "x < 2 ^ 56" using area_member(2,4) [OF ar] hi by fastforce
  qed simp
  then have z: "hs_mem s (b + 16 - 1) = 0" using ld64_top [of "hs_mem s" "b + 8"] by (simp add: blk_next_def)
  then show "hs_mem s (MEM_DOG_ADDR (hs_mem s) b) = 0" using area_dog [OF ar b] by simp
  have "stops 0 (status_loop (hs_mem s) (heap_hi ?h) (heap_lo ?h) (hp_free_list ?h) ?st [])"
    by (rule status_loop_stops [OF p(1) _ p(2-4) b z]) (simp_all add: status_zero_def)
  then show "\<exists>st s'. MEM_HeapStatus s (Some i) (Some st0) = Some (Some st, s') \<and> st_valid st = 0"
    by (auto simp: MEM_HeapStatus_def Let_def heap_lo_def heap_hi_def stops_def split: option.splits)
qed

theorem small_free_block_reported_damaged_witness:
  "\<exists>s st s'. heap_rep 16 s 0 [(4096, 976, False), (5072, 16, True), (5088, 16, False), (5104, 16, True)]
     \<and> MEM_HeapStatus s (Some 0) (Some status_zero) = Some (Some st, s') \<and> st_valid st = 0"
proof -
  obtain s where s: "heap_rep 16 s 0 [(4096, 976, False), (5072, 16, True), (5088, 16, False), (5104, 16, True)]"
    using demo_small by blast
  have "heap_hi (hs_heap s 0) = 5120" using s by (auto simp: heap_rep_def area_rep_def)
  then show ?thesis using small_free_block_reported_damaged [OF s, of 5088 status_zero] s by auto
qed

end
