(* ===== verification/Tkl_Memory.thy ===== *)
theory Tkl_Memory
  imports Mem_Heap_Api
begin

text \<open>
  The system memory interface of \<open>src/tkl_memory.c\<close>: a heap of 512 MB set up by the first
  \<open>tkl_system_malloc\<close> over an area obtained from the C library, and thin wrappers around
  \<open>tuya_mem_heap.c\<close>. The address the C library's \<open>malloc\<close> returns for the area is the argument
  \<open>buf\<close> (0 when it fails). Sizes are \<open>size_t\<close> values that the heap functions take as
  \<open>unsigned int\<close>.
\<close>

definition MAX_HEAP_SIZE :: nat where
  "MAX_HEAP_SIZE = 512 * 1024 * 1024"

record tkl_mem =
  tm_sys :: heap_sys
  tm_handle :: heap_handle

definition heap_ctx :: heap_context_t where
  "heap_ctx = \<lparr>enter_critical = 1, exit_critical = 2, dbg_output = 3\<rparr>"

definition heap_init :: "nat \<Rightarrow> tkl_mem \<Rightarrow> tkl_mem" where
  "heap_init buf t =
     (let (_, s1) = tuya_mem_heap_init (tm_sys t) (Some heap_ctx);
          (rc, h, s2) = tuya_mem_heap_create s1 buf (of_nat MAX_HEAP_SIZE) True
      in t\<lparr>tm_sys := s2, tm_handle := (if rc = 0 then h else tm_handle t)\<rparr>)"

definition tkl_system_malloc :: "nat \<Rightarrow> tkl_mem \<Rightarrow> nat \<Rightarrow> (nat \<times> tkl_mem) option" where
  "tkl_system_malloc buf t size_b =
     (let t1 = (if tm_handle t = None then heap_init buf t else t)
      in Option.bind (tuya_mem_heap_malloc (tm_sys t1) (tm_handle t1) (of_nat size_b))
           (\<lambda>(p, s). Some (p, t1\<lparr>tm_sys := s\<rparr>)))"

definition tkl_system_free :: "tkl_mem \<Rightarrow> nat \<Rightarrow> tkl_mem option" where
  "tkl_system_free t ptr =
     (if ptr \<noteq> 0
      then Option.bind (tuya_mem_heap_free (tm_sys t) (tm_handle t) ptr) (\<lambda>s. Some (t\<lparr>tm_sys := s\<rparr>))
      else Some t)"

text \<open>The product is computed in \<open>size_t\<close> and then passed as \<open>unsigned int\<close>.\<close>

definition tkl_system_calloc :: "tkl_mem \<Rightarrow> u64 \<Rightarrow> u64 \<Rightarrow> (nat \<times> tkl_mem) option" where
  "tkl_system_calloc t nitems size_b =
     Option.bind (tuya_mem_heap_calloc (tm_sys t) (tm_handle t) (ucast (nitems * size_b)))
       (\<lambda>(p, s). Some (p, t\<lparr>tm_sys := s\<rparr>))"

definition tkl_system_realloc :: "tkl_mem \<Rightarrow> nat \<Rightarrow> nat \<Rightarrow> (nat \<times> tkl_mem) option" where
  "tkl_system_realloc t ptr size_b =
     Option.bind (tuya_mem_heap_realloc (tm_sys t) (tm_handle t) ptr (of_nat size_b))
       (\<lambda>(p, s). Some (p, t\<lparr>tm_sys := s\<rparr>))"

definition tkl_system_get_free_heap_size :: "tkl_mem \<Rightarrow> int" where
  "tkl_system_get_free_heap_size t = tuya_mem_heap_available (tm_sys t) (tm_handle t)"

definition tkl_system_psram_malloc :: "nat \<Rightarrow> tkl_mem \<Rightarrow> nat \<Rightarrow> (nat \<times> tkl_mem) option" where
  "tkl_system_psram_malloc buf t size_b = tkl_system_malloc buf t size_b"

definition tkl_system_psram_free :: "tkl_mem \<Rightarrow> nat \<Rightarrow> tkl_mem option" where
  "tkl_system_psram_free t ptr = tkl_system_free t ptr"

definition tkl_system_psram_calloc :: "tkl_mem \<Rightarrow> u64 \<Rightarrow> u64 \<Rightarrow> (nat \<times> tkl_mem) option" where
  "tkl_system_psram_calloc t nitems size_b = tkl_system_calloc t nitems size_b"

definition tkl_system_psram_realloc :: "tkl_mem \<Rightarrow> nat \<Rightarrow> nat \<Rightarrow> (nat \<times> tkl_mem) option" where
  "tkl_system_psram_realloc t ptr size_b = tkl_system_realloc t ptr size_b"

definition tkl_system_psram_get_free_heap_size :: "tkl_mem \<Rightarrow> int" where
  "tkl_system_psram_get_free_heap_size t = tkl_system_get_free_heap_size t"

text \<open>\<open>memset\<close> and \<open>memcpy\<close> return their first argument.\<close>

definition tkl_system_memset :: "memory \<Rightarrow> nat \<Rightarrow> int \<Rightarrow> nat \<Rightarrow> nat \<times> memory" where
  "tkl_system_memset m src ch n = (src, mem_set m src (of_int ch) n)"

definition tkl_system_memcpy :: "memory \<Rightarrow> nat \<Rightarrow> nat \<Rightarrow> nat \<Rightarrow> nat \<times> memory" where
  "tkl_system_memcpy m src dst n = (src, mem_copy m src dst n)"

text \<open>The program's state before the first call: zeroed static data.\<close>

definition tkl_mem_start :: "memory \<Rightarrow> tkl_mem" where
  "tkl_mem_start m = \<lparr>tm_sys = \<lparr>hs_mem = m, hs_heaps = replicate 4 heap_zero, hs_free_size = 0,
     hs_free_watermark = 0, hs_ctx = \<lparr>enter_critical = 0, exit_critical = 0, dbg_output = 0\<rparr>, hs_events = []\<rparr>,
     tm_handle = None\<rparr>"

section \<open>Set-up\<close>

lemma start_slot: "find_free_slot (replicate 4 heap_zero) = 0"
  by (simp add: find_free_slot_def heap_zero_def MEM_HEAP_LIST_NUM_def numeral_eq_Suc)

lemma max_heap_unat: "unat (of_nat MAX_HEAP_SIZE :: u32) = MAX_HEAP_SIZE"
  by (simp add: MAX_HEAP_SIZE_def)

lemma heap_area:
  assumes "0 < buf" "buf + MAX_HEAP_SIZE + 7 < two64"
  shows "ALIGN_UP buf + MAX_HEAP_SIZE - 15 \<le> ALIGN_DOWN (buf + MAX_HEAP_SIZE)"
    "ALIGN_DOWN (buf + MAX_HEAP_SIZE) \<le> buf + MAX_HEAP_SIZE" "buf \<le> ALIGN_UP buf"
proof -
  show le: "ALIGN_DOWN (buf + MAX_HEAP_SIZE) \<le> buf + MAX_HEAP_SIZE" "buf \<le> ALIGN_UP buf"
    using assms div_times_less_eq_dividend [of "buf + MAX_HEAP_SIZE" 8] align_up_bounds(1) [of buf]
    by (simp_all add: ALIGN_DOWN_eq)
  have "buf + MAX_HEAP_SIZE < (buf + MAX_HEAP_SIZE) div 8 * 8 + 8"
    using dividend_less_div_times [of 8 "buf + MAX_HEAP_SIZE"] by simp
  then show "ALIGN_UP buf + MAX_HEAP_SIZE - 15 \<le> ALIGN_DOWN (buf + MAX_HEAP_SIZE)"
    using assms align_up_bounds(2) [of buf] by (simp add: ALIGN_DOWN_eq)
qed

lemma heap_init_rep:
  assumes "0 < buf" "buf + MAX_HEAP_SIZE + 7 < two64"
  shows "tm_handle (heap_init buf (tkl_mem_start m)) = Some 0"
    "heap_rep 24 (tm_sys (heap_init buf (tkl_mem_start m))) 0
       [(ALIGN_UP buf, ALIGN_DOWN (buf + MAX_HEAP_SIZE) - ALIGN_UP buf, False)]"
proof -
  let ?s = "tm_sys (tkl_mem_start m)\<lparr>hs_ctx := heap_ctx\<rparr>"
  have h: "hs_heaps ?s = replicate 4 heap_zero" "hs_free_size ?s = 0" by (simp_all add: tkl_mem_start_def)
  obtain s' where s': "tuya_mem_heap_create ?s buf (of_nat MAX_HEAP_SIZE) True = (0, Some 0, s')"
    "heap_rep 24 s' 0 [(ALIGN_UP buf, ALIGN_DOWN (buf + MAX_HEAP_SIZE) - ALIGN_UP buf, False)]"
    using create_gives_rep [of ?s buf "of_nat MAX_HEAP_SIZE"] assms h heap_area [OF assms]
    unfolding max_heap_unat by (auto simp: start_slot MEM_HEAP_LIST_NUM_def two64_def MAX_HEAP_SIZE_def)
  have "tuya_mem_heap_init (tm_sys (tkl_mem_start m)) (Some heap_ctx) = (0, ?s)"
    by (simp add: tuya_mem_heap_init_def heap_ctx_def)
  then show "tm_handle (heap_init buf (tkl_mem_start m)) = Some 0"
    "heap_rep 24 (tm_sys (heap_init buf (tkl_mem_start m))) 0
       [(ALIGN_UP buf, ALIGN_DOWN (buf + MAX_HEAP_SIZE) - ALIGN_UP buf, False)]"
    using s' by (simp_all add: heap_init_def)
qed

section \<open>System memory as an allocator\<close>

definition tkl_live :: "nat \<Rightarrow> tkl_mem \<Rightarrow> (nat \<times> nat) set \<Rightarrow> bool" where
  "tkl_live i t L \<longleftrightarrow> tm_handle t = Some i \<and> heap_live i (tm_sys t) L"

definition tkl_poke :: "tkl_mem \<Rightarrow> nat \<Rightarrow> u8 \<Rightarrow> tkl_mem" where
  "tkl_poke t x v = t\<lparr>tm_sys := heap_poke (tm_sys t) x v\<rparr>"

definition tkl_peek :: "tkl_mem \<Rightarrow> nat \<Rightarrow> u8" where
  "tkl_peek t x = hs_mem (tm_sys t) x"

interpretation tkl: allocator "tkl_live i" tkl_peek tkl_poke "tkl_system_malloc buf" tkl_system_free "2 ^ 32" for i buf
proof unfold_locales
  fix t L r r' assume "tkl_live i t L" "r \<in> L" "r' \<in> L"
  then show "r = r' \<or> apart r r'" using heap.live_apart unfolding tkl_live_def by blast
next
  fix t L p n assume "tkl_live i t L" "(p, n) \<in> L"
  then show "0 < p \<and> 0 < n" using heap.live_nonnull unfolding tkl_live_def by blast
next
  fix t L and n :: nat assume h: "tkl_live i t L" "0 < n" "n < 2 ^ 32"
  then have l: "heap_live i (tm_sys t) L" "tm_handle t = Some i" by (auto simp: tkl_live_def)
  obtain p s L' where "heap_request i (tm_sys t) n = Some (p, s)" "heap_live i s L'"
    "\<forall>r\<in>L. \<forall>x. in_region r x \<longrightarrow> hs_mem s x = hs_mem (tm_sys t) x"
    "p = 0 \<and> L' = L \<or> (\<exists>c\<ge>n. (p, c) \<notin> L \<and> L' = insert (p, c) L)"
    using heap_alloc_result [OF l(1) h(2,3)] by blast
  then show "\<exists>p t' L'. tkl_system_malloc buf t n = Some (p, t') \<and> tkl_live i t' L'
      \<and> (\<forall>r\<in>L. \<forall>x. in_region r x \<longrightarrow> tkl_peek t' x = tkl_peek t x)
      \<and> (p = 0 \<and> L' = L \<or> (\<exists>c\<ge>n. (p, c) \<notin> L \<and> L' = insert (p, c) L))"
    using l(2) by (intro exI [of _ p] exI [of _ "t\<lparr>tm_sys := s\<rparr>"] exI [of _ L'])
      (simp add: tkl_system_malloc_def heap_request_def tkl_live_def tkl_peek_def)
next
  fix t L p c assume h: "tkl_live i t L" "(p, c) \<in> L"
  then have l: "heap_live i (tm_sys t) L" "tm_handle t = Some i" by (auto simp: tkl_live_def)
  have "p \<noteq> 0" using heap.live_nonnull [OF l(1) h(2)] by simp
  then show "\<exists>t'. tkl_system_free t p = Some t' \<and> tkl_live i t' (L - {(p, c)})
      \<and> (\<forall>r\<in>L - {(p, c)}. \<forall>x. in_region r x \<longrightarrow> tkl_peek t' x = tkl_peek t x)"
    using heap_release_result [OF l(1) h(2)] l(2)
    by (auto simp: tkl_system_free_def heap_release_def tkl_live_def tkl_peek_def)
next
  fix t L r x v assume "tkl_live i t L" "r \<in> L" "in_region r x"
  then show "tkl_live i (tkl_poke t x v) L" using heap.poke_live by (auto simp: tkl_live_def tkl_poke_def)
qed (simp add: tkl_poke_def tkl_peek_def heap_poke_def)

text \<open>A concrete memory with three live blocks of at least 40 bytes.\<close>

lemma demo_blocks:
  "\<exists>t q c p d e k. tkl_live 0 t {(q, c), (p, d), (e, k)} \<and> 40 \<le> c \<and> 40 \<le> d \<and> 40 \<le> k
     \<and> q \<noteq> p \<and> q \<noteq> e \<and> p \<noteq> e"
proof -
  have a: "0 < (4096 :: nat)" "4096 + MAX_HEAP_SIZE + 7 < two64" by (simp_all add: MAX_HEAP_SIZE_def two64_def)
  let ?t = "heap_init 4096 (tkl_mem_start (\<lambda>_. 0))"
  note i = heap_init_rep [OF a, of "\<lambda>_. 0"]
  have al: "ALIGN_UP 4096 = 4096" "ALIGN_DOWN (4096 + MAX_HEAP_SIZE) = 4096 + MAX_HEAP_SIZE"
    by (simp_all add: ALIGN_UP_eq ALIGN_DOWN_eq two64_def MAX_HEAP_SIZE_def)
  have r: "request 40 = 56" by (simp add: request_def alloc_size_eq two64_def)
  have t: "(40 :: nat) + 16 < two64" by (simp add: two64_def)
  let ?u = "\<lambda>k. (4096 + (MAX_HEAP_SIZE - k), 56, True)"
  obtain s1 where s1: "heap_rep 16 s1 0 [(4096, MAX_HEAP_SIZE - 56, False), ?u 56]"
    using take_first [OF heap_rep_weaken [OF i(2)], of 40] al r t by (auto simp: MAX_HEAP_SIZE_def)
  obtain s2 where s2: "heap_rep 16 s2 0 [(4096, MAX_HEAP_SIZE - 112, False), ?u 112, ?u 56]"
    using take_first [OF s1, of 40] r t by (auto simp: MAX_HEAP_SIZE_def)
  obtain s3 where s3: "heap_rep 16 s3 0 [(4096, MAX_HEAP_SIZE - 168, False), ?u 168, ?u 112, ?u 56]"
    using take_first [OF s2, of 40] r t by (auto simp: MAX_HEAP_SIZE_def)
  let ?L = "{(4104 + (MAX_HEAP_SIZE - 168), 47), (4104 + (MAX_HEAP_SIZE - 112), 47), (4104 + (MAX_HEAP_SIZE - 56), 47 :: nat)}"
  have "payload ` used_blocks [(4096, MAX_HEAP_SIZE - 168, False), ?u 168, ?u 112, ?u 56] = ?L"
    by (simp add: payload_def)
  then have "heap_live 0 s3 ?L" using s3 unfolding heap_live_def by metis
  then have "tkl_live 0 (?t\<lparr>tm_sys := s3\<rparr>) ?L" using i(1) by (simp add: tkl_live_def)
  moreover have "4104 + (MAX_HEAP_SIZE - 168) \<noteq> 4104 + (MAX_HEAP_SIZE - 112)"
    "4104 + (MAX_HEAP_SIZE - 168) \<noteq> 4104 + (MAX_HEAP_SIZE - 56)"
    "4104 + (MAX_HEAP_SIZE - 112) \<noteq> 4104 + (MAX_HEAP_SIZE - 56)" by (simp_all add: MAX_HEAP_SIZE_def)
  moreover have "(40 :: nat) \<le> 47" by simp
  ultimately show ?thesis by blast
qed

section \<open>Properties\<close>

text \<open>
  When the C library provides the area, the first \<open>tkl_system_malloc\<close> of the program, for up to
  72 bytes less than 512 MB, sets the heap up and returns a non-null region inside the area.
\<close>

theorem tkl_first_malloc_succeeds:
  assumes "0 < buf" "buf + MAX_HEAP_SIZE + 7 < two64" "0 < n" "n + 72 \<le> MAX_HEAP_SIZE"
  shows "\<exists>p t. tkl_system_malloc buf (tkl_mem_start m) n = Some (p, t) \<and> tm_handle t = Some 0
     \<and> buf < p \<and> p + n \<le> buf + MAX_HEAP_SIZE \<and> (\<exists>c\<ge>n. heap_live 0 (tm_sys t) {(p, c)})"
proof -
  let ?lo = "ALIGN_UP buf" let ?k = "ALIGN_DOWN (buf + MAX_HEAP_SIZE) - ?lo" let ?z = "request n"
  note area = heap_area [OF assms(1,2)] and init = heap_init_rep [OF assms(1,2), of m]
  have n32: "n < 2 ^ 32" using assms(4) by (simp add: MAX_HEAP_SIZE_def)
  note rb = request_bounds [OF n32]
  have n16: "n + 16 < two64" by (rule rb(4))
  have zb: "?z \<le> n + 24" using alloc_size_bounds(2) [of "if n < 4 then 4 else n"] n16
    by (auto simp: request_def two64_def)
  have fit: "?z + 32 \<le> ?k" using area assms(4) zb by (simp add: MAX_HEAP_SIZE_def)
  obtain s where s: "MEM_Allocate (tm_sys (heap_init buf (tkl_mem_start m))) (Some 0) n = Some (?lo + (?k - ?z) + 8, s)"
    "heap_rep 16 s 0 [(?lo, ?k - ?z, False), (?lo + (?k - ?z), ?z, True)]"
    using take_first [OF heap_rep_weaken [OF init(2)], of n] assms(3) n16 rb(1) fit by auto
  let ?p = "?lo + (?k - ?z) + 8"
  have "tkl_system_malloc buf (tkl_mem_start m) n = Some (?p, (heap_init buf (tkl_mem_start m))\<lparr>tm_sys := s\<rparr>)"
    using s(1) init(1) n32
    by (simp add: tkl_system_malloc_def tuya_mem_heap_malloc_def tkl_mem_start_def unat_of_nat take_bit_eq_mod)
  moreover have "buf < ?p" "?p + n \<le> buf + MAX_HEAP_SIZE" using area fit rb(2) by linarith+
  moreover have "heap_live 0 s {(?p, ?z - 9)}" "n \<le> ?z - 9"
    using s(2) rb(2) by (auto simp: heap_live_def payload_def intro!: exI [of _ "[(?lo, ?k - ?z, False), (?lo + (?k - ?z), ?z, True)]"])
  ultimately show ?thesis using init(1) by auto
qed

theorem tkl_first_malloc_succeeds_witness:
  "\<exists>p t. tkl_system_malloc 4096 (tkl_mem_start (\<lambda>_. 0)) 100 = Some (p, t) \<and> 4096 < p \<and> tm_handle t = Some 0"
  using tkl_first_malloc_succeeds [of 4096 100 "\<lambda>_. 0"] by (auto simp: MAX_HEAP_SIZE_def two64_def)

text \<open>
  Before the first \<open>tkl_system_malloc\<close>, \<open>tkl_system_calloc\<close> and \<open>tkl_system_realloc\<close> of a null
  pointer do not set the heap up: they return null for every size.
\<close>

theorem tkl_calloc_before_malloc_fails:
  "tkl_system_calloc (tkl_mem_start m) nitems n = Some (0, tkl_mem_start m)
   \<and> tkl_system_realloc (tkl_mem_start m) 0 k = Some (0, tkl_mem_start m)"
proof -
  have z: "hs_heap (tm_sys (tkl_mem_start m)) 0 = heap_zero" by (simp add: hs_heap_def tkl_mem_start_def)
  have u: "[0..<MEM_HEAP_LIST_NUM] = 0 # [1..<MEM_HEAP_LIST_NUM]"
    by (simp add: MEM_HEAP_LIST_NUM_def upt_conv_Cons)
  have "tuya_mem_heap_malloc (tm_sys (tkl_mem_start m)) None w = Some (0, tm_sys (tkl_mem_start m))" for w
    by (simp add: tuya_mem_heap_malloc_def u z heap_zero_def)
  then show ?thesis
    by (simp add: tkl_system_calloc_def tkl_system_realloc_def tuya_mem_heap_calloc_def
        tuya_mem_heap_realloc_def tkl_mem_start_def)
qed

section \<open>A concrete memory\<close>

text \<open>A heap whose first block is free and large grants the next request.\<close>

lemma malloc_from_first:
  assumes "heap_rep 16 (tm_sys t) 0 ((a, k, False) # ys)" "\<forall>(c, j, u)\<in>set ys. u" "tm_handle t = Some 0" "0 < n" "n < 100" "200 \<le> k"
  shows "\<exists>s p. tkl_system_malloc buf t n = Some (p, t\<lparr>tm_sys := s\<rparr>) \<and> p \<noteq> 0 \<and>
    heap_rep 16 s 0 ((a, k - request n, False) # (a + (k - request n), request n, True) # ys) \<and> request n \<le> 124"
proof -
  have n: "n < 2 ^ 32" "n + 16 < two64" using assms(5) by (simp_all add: two64_def)
  note rb = request_bounds [OF n(1)]
  have zb: "request n \<le> n + 24" using alloc_size_bounds(2) [of "if n < 4 then 4 else n"] n(2) by (auto simp: request_def two64_def)
  have "16 \<le> request n" using rb by linarith
  from take_first [OF assms(1,2,4) n(2) this] zb assms(5,6) obtain s where
    s: "MEM_Allocate (tm_sys t) (Some 0) n = Some (a + (k - request n) + 8, s)"
       "heap_rep 16 s 0 ((a, k - request n, False) # (a + (k - request n), request n, True) # ys)" by auto
  have "tkl_system_malloc buf t n = Some (a + (k - request n) + 8, t\<lparr>tm_sys := s\<rparr>)"
    using s(1) assms(3) n by (simp add: tkl_system_malloc_def tuya_mem_heap_malloc_def unat_of_nat take_bit_eq_mod)
  then show ?thesis using s(2) zb assms(5) by auto
qed

lemma example_memory:
  assumes "0 < n" "n < 100"
  shows "\<exists>t q c t1 p t2 h. tkl_live 0 t {(q, c)} \<and> q \<noteq> 0 \<and> tkl_system_malloc 4096 t n = Some (p, t1) \<and> p \<noteq> 0
    \<and> tkl_system_malloc 4096 t1 40 = Some (h, t2) \<and> h \<noteq> 0"
proof -
  have a: "0 < (4096 :: nat)" "4096 + MAX_HEAP_SIZE + 7 < two64" by (simp_all add: MAX_HEAP_SIZE_def two64_def)
  let ?t = "heap_init 4096 (tkl_mem_start (\<lambda>_. 0))"
  note i = heap_init_rep [OF a, of "\<lambda>_. 0"]
  have al: "ALIGN_UP 4096 = 4096" "ALIGN_DOWN (4096 + MAX_HEAP_SIZE) = 4096 + MAX_HEAP_SIZE"
    by (simp_all add: ALIGN_UP_eq ALIGN_DOWN_eq two64_def MAX_HEAP_SIZE_def)
  have r0: "heap_rep 16 (tm_sys ?t) 0 ((4096, MAX_HEAP_SIZE, False) # [])" using heap_rep_weaken [OF i(2)] al by simp
  from malloc_from_first [OF r0 _ i(1), of 40 4096] obtain s1 where
    s1: "heap_rep 16 s1 0 [(4096, MAX_HEAP_SIZE - request 40, False), (4096 + (MAX_HEAP_SIZE - request 40), request 40, True)]"
      "request 40 \<le> 124" by (auto simp: MAX_HEAP_SIZE_def)
  let ?q = "4096 + (MAX_HEAP_SIZE - request 40) + 8"
  have "heap_live 0 s1 {(?q, request 40 - 9)}"
    using s1(1) by (auto simp: heap_live_def payload_def intro!: exI [of _ "[(4096, MAX_HEAP_SIZE - request 40, False), (4096 + (MAX_HEAP_SIZE - request 40), request 40, True)]"])
  then have live: "tkl_live 0 (?t\<lparr>tm_sys := s1\<rparr>) {(?q, request 40 - 9)}" using i(1) by (simp add: tkl_live_def)
  have h1: "heap_rep 16 (tm_sys (?t\<lparr>tm_sys := s1\<rparr>)) 0 ((4096, MAX_HEAP_SIZE - request 40, False) # [(4096 + (MAX_HEAP_SIZE - request 40), request 40, True)])"
    "tm_handle (?t\<lparr>tm_sys := s1\<rparr>) = Some 0" "200 \<le> MAX_HEAP_SIZE - request 40"
    using s1 i(1) by (simp_all add: MAX_HEAP_SIZE_def)
  from malloc_from_first [OF h1(1) _ h1(2) assms h1(3), of 4096] obtain s2 p where
    s2: "tkl_system_malloc 4096 (?t\<lparr>tm_sys := s1\<rparr>) n = Some (p, ?t\<lparr>tm_sys := s2\<rparr>)" "p \<noteq> 0" "request n \<le> 124"
      "heap_rep 16 s2 0 ((4096, MAX_HEAP_SIZE - request 40 - request n, False) # (4096 + (MAX_HEAP_SIZE - request 40 - request n), request n, True)
          # [(4096 + (MAX_HEAP_SIZE - request 40), request 40, True)])" by auto
  have h2: "heap_rep 16 (tm_sys (?t\<lparr>tm_sys := s2\<rparr>)) 0 ((4096, MAX_HEAP_SIZE - request 40 - request n, False)
        # (4096 + (MAX_HEAP_SIZE - request 40 - request n), request n, True) # [(4096 + (MAX_HEAP_SIZE - request 40), request 40, True)])"
    "tm_handle (?t\<lparr>tm_sys := s2\<rparr>) = Some 0" "200 \<le> MAX_HEAP_SIZE - request 40 - request n"
    using s2 s1(2) i(1) by (simp_all add: MAX_HEAP_SIZE_def)
  from malloc_from_first [OF h2(1) _ h2(2) _ _ h2(3), of 40 4096] obtain s3 h where
    "tkl_system_malloc 4096 (?t\<lparr>tm_sys := s2\<rparr>) 40 = Some (h, ?t\<lparr>tm_sys := s3\<rparr>)" "h \<noteq> 0" by auto
  moreover have "?q \<noteq> 0" by simp
  ultimately show ?thesis using live s2(1,2) by blast
qed

end
