(* ===== verification/Tuya_List.thy ===== *)
theory Tuya_List
  imports Tuya_Prelude
begin

text \<open>
  The circular doubly linked list of \<open>include/utilities/src/tuya_list.c\<close>. The \<open>next\<close> and \<open>prev\<close>
  fields of all nodes are two maps over node addresses (0 is NULL), so aliasing between nodes is
  explicit; the list of node addresses behind a head is the abstract value, and every operation is
  shown to implement the corresponding operation on it.
\<close>

record list_store =
  nxt :: "nat \<Rightarrow> nat"
  prv :: "nat \<Rightarrow> nat"

definition set_next :: "nat \<Rightarrow> nat \<Rightarrow> list_store \<Rightarrow> list_store" where
  "set_next a v s = s\<lparr>nxt := (nxt s)(a := v)\<rparr>"

definition set_prev :: "nat \<Rightarrow> nat \<Rightarrow> list_store \<Rightarrow> list_store" where
  "set_prev a v s = s\<lparr>prv := (prv s)(a := v)\<rparr>"

definition INIT_LIST_HEAD :: "list_store \<Rightarrow> nat \<Rightarrow> list_store" where
  "INIT_LIST_HEAD s p = set_prev p p (set_next p p s)"

definition list_add :: "list_store \<Rightarrow> nat \<Rightarrow> nat \<Rightarrow> nat \<Rightarrow> list_store" where
  "list_add s pNew pPrev pNext =
     set_next pPrev pNew (set_prev pNew pPrev (set_next pNew pNext (set_prev pNext pNew s)))"

definition list_del :: "list_store \<Rightarrow> nat \<Rightarrow> nat \<Rightarrow> list_store" where
  "list_del s pPrev pNext = set_next pPrev pNext (set_prev pNext pPrev s)"

definition tuya_list_empty :: "list_store \<Rightarrow> nat \<Rightarrow> bool" where
  "tuya_list_empty s pHead \<longleftrightarrow> nxt s pHead = pHead"

definition tuya_list_add :: "list_store \<Rightarrow> nat \<Rightarrow> nat \<Rightarrow> list_store" where
  "tuya_list_add s pNew pHead = list_add s pNew pHead (nxt s pHead)"

definition tuya_list_add_tail :: "list_store \<Rightarrow> nat \<Rightarrow> nat \<Rightarrow> list_store" where
  "tuya_list_add_tail s pNew pHead = list_add s pNew (prv s pHead) pHead"

definition tuya_list_splice :: "list_store \<Rightarrow> nat \<Rightarrow> nat \<Rightarrow> list_store" where
  "tuya_list_splice s pList pHead =
     (let pFirst = nxt s pList
      in if pFirst \<noteq> pList then
           (let pLast = prv s pList;
                pAt = nxt s pHead
            in set_prev pAt pLast (set_next pLast pAt (set_next pHead pFirst (set_prev pFirst pHead s))))
         else s)"

definition tuya_list_del :: "list_store \<Rightarrow> nat \<Rightarrow> list_store" where
  "tuya_list_del s pEntry = list_del s (prv s pEntry) (nxt s pEntry)"

definition tuya_list_del_init :: "list_store \<Rightarrow> nat \<Rightarrow> list_store" where
  "tuya_list_del_init s pEntry = INIT_LIST_HEAD (list_del s (prv s pEntry) (nxt s pEntry)) pEntry"

text \<open>
  \<open>tuya_list_for_each\<close> from \<open>pos\<close>: the nodes visited when the body does not break; \<open>None\<close> when the
  traversal does not end.
\<close>

partial_function (option) tuya_list_for_each :: "list_store \<Rightarrow> nat \<Rightarrow> nat \<Rightarrow> nat list option" where
  "tuya_list_for_each s head pos =
     (if pos \<noteq> 0 \<and> pos \<noteq> head
      then Option.bind (tuya_list_for_each s head (nxt s pos)) (\<lambda>ps. Some (pos # ps))
      else Some [])"

declare tuya_list_for_each.simps [code]

section \<open>The list behind a head\<close>

fun seg :: "list_store \<Rightarrow> nat \<Rightarrow> nat list \<Rightarrow> nat \<Rightarrow> bool" where
  "seg s a [] b = (nxt s a = b \<and> prv s b = a)"
| "seg s a (x # xs) b = (nxt s a = x \<and> prv s x = a \<and> seg s x xs b)"

definition dlist :: "list_store \<Rightarrow> nat \<Rightarrow> nat list \<Rightarrow> bool" where
  "dlist s h xs \<longleftrightarrow> seg s h xs h \<and> distinct (h # xs)"

lemma store_simps [simp]:
  "nxt (set_next a v s) = (nxt s)(a := v)" "prv (set_next a v s) = prv s"
  "prv (set_prev a v s) = (prv s)(a := v)" "nxt (set_prev a v s) = nxt s"
  by (simp_all add: set_next_def set_prev_def)

lemma seg_append: "seg s a (xs @ y # ys) b \<longleftrightarrow> seg s a xs y \<and> seg s y ys b"
  by (induction xs arbitrary: a) auto

lemma seg_cong:
  assumes "\<And>x. x \<in> set (a # xs) \<Longrightarrow> nxt s' x = nxt s x" "\<And>x. x \<in> set (xs @ [b]) \<Longrightarrow> prv s' x = prv s x"
  shows "seg s' a xs b = seg s a xs b"
  using assms by (induction xs arbitrary: a) auto

lemma seg_ends: "seg s a xs b \<Longrightarrow> nxt s a = hd (xs @ [b])" "seg s a xs b \<Longrightarrow> prv s b = last (a # xs)"
  by (induction xs arbitrary: a) auto

text \<open>
  Moving the last link of a segment: \<open>s'\<close> agrees with \<open>s\<close> on the segment's inside.
\<close>

lemma seg_retarget:
  assumes "seg s a xs b" "distinct (a # xs)"
    and "\<And>x. x \<in> set (butlast (a # xs)) \<Longrightarrow> nxt s' x = nxt s x" "\<And>x. x \<in> set xs \<Longrightarrow> prv s' x = prv s x"
    and "nxt s' (last (a # xs)) = c" "prv s' c = last (a # xs)"
  shows "seg s' a xs c"
  using assms by (induction xs arbitrary: a) (auto split: if_splits)

lemma dlist_init [simp]: "dlist (INIT_LIST_HEAD s h) h []"
  by (simp add: dlist_def INIT_LIST_HEAD_def)

lemma dlist_empty: "dlist s h xs \<Longrightarrow> tuya_list_empty s h \<longleftrightarrow> xs = []"
  by (cases xs) (auto simp: dlist_def tuya_list_empty_def)

text \<open>Insertion between two neighbours.\<close>

lemma seg_insert:
  assumes "seg s h (xs @ ys) h" "distinct (h # xs @ ys)" "n \<notin> set (h # xs @ ys)"
    and p: "p = last (h # xs)" and q: "q = hd (ys @ [h])"
  shows "seg (list_add s n p q) h (xs @ n # ys) h"
proof -
  let ?s = "list_add s n p q"
  have pq: "p \<in> set (h # xs)" "q \<in> set (ys @ [h])" "p \<noteq> n" "q \<noteq> n"
    using assms(3) p q by (auto simp: hd_append split: if_splits)
  have nx: "nxt ?s x = (if x = p then n else if x = n then q else nxt s x)" for x
    by (simp add: list_add_def)
  have pv: "prv ?s x = (if x = n then p else if x = q then n else prv s x)" for x
    by (simp add: list_add_def)
  have "seg s h xs q"
    using assms(1) q by (cases ys) (auto simp: seg_append)
  then have "seg ?s h xs n"
  proof (rule seg_retarget)
    show "distinct (h # xs)" using assms(2) by simp
    show "nxt ?s x = nxt s x" if "x \<in> set (butlast (h # xs))" for x
    proof -
      have "x \<noteq> p" using that p \<open>distinct (h # xs)\<close>
        by (metis append_butlast_last_id distinct_butlast list.distinct(1) not_distinct_conv_prefix)
      moreover have "x \<noteq> n" using that assms(3) in_set_butlastD [of x "h # xs"] by auto
      ultimately show ?thesis using nx by simp
    qed
    show "prv ?s x = prv s x" if "x \<in> set xs" for x
      using that pv assms(2,3) q by (cases ys) auto
    show "nxt ?s (last (h # xs)) = n" "prv ?s n = last (h # xs)" unfolding p [symmetric] by (simp_all add: nx pv)
  qed
  moreover have "seg ?s n ys h"
  proof (cases ys)
    case Nil
    then show ?thesis using nx pv q pq by auto
  next
    case (Cons y zs)
    have "seg s y zs h" using assms(1) Cons by (simp add: seg_append)
    moreover have "p \<notin> set (y # zs)" "q \<notin> set (zs @ [h])" "n \<notin> set (y # zs @ [h])"
      using pq(1) assms(2,3) Cons q by auto
    then have "seg ?s y zs h = seg s y zs h" by (intro seg_cong) (auto simp: nx pv)
    ultimately show ?thesis using nx pv q Cons pq by auto
  qed
  ultimately show ?thesis by (simp add: seg_append)
qed

section \<open>Operations\<close>

lemma dlist_add:
  assumes "dlist s h xs" "n \<notin> set (h # xs)"
  shows "dlist (tuya_list_add s n h) h (n # xs)"
  using seg_insert [of s h "[]" xs n h "hd (xs @ [h])"] assms seg_ends(1) [of s h xs h]
  by (auto simp: dlist_def tuya_list_add_def)

lemma dlist_add_tail:
  assumes "dlist s h xs" "n \<notin> set (h # xs)"
  shows "dlist (tuya_list_add_tail s n h) h (xs @ [n])"
  using seg_insert [of s h xs "[]" n "last (h # xs)" h] assms seg_ends(2) [of s h xs h]
  by (auto simp: dlist_def tuya_list_add_tail_def)

lemma dlist_frame:
  assumes "dlist s h xs" "\<And>x. x \<in> set (h # xs) \<Longrightarrow> nxt s' x = nxt s x \<and> prv s' x = prv s x"
  shows "dlist s' h xs"
  using assms seg_cong [of h xs s' s h] by (auto simp: dlist_def)

text \<open>Removal, and that the fields of the removed node are left as they were.\<close>

lemma seg_remove:
  assumes "seg s h (xs @ e # ys) h" "distinct (h # xs @ e # ys)"
  shows "seg (tuya_list_del s e) h (xs @ ys) h"
proof -
  let ?s = "tuya_list_del s e" let ?p = "last (h # xs)" let ?q = "hd (ys @ [h])"
  have e: "prv s e = ?p" "nxt s e = ?q"
    using assms(1) seg_ends(2) [of s h xs e] seg_ends(1) [of s e ys h] by (auto simp: seg_append)
  have nx: "nxt ?s x = (if x = ?p then ?q else nxt s x)" for x
    unfolding tuya_list_del_def list_del_def e by simp
  have pv: "prv ?s x = (if x = ?q then ?p else prv s x)" for x
    unfolding tuya_list_del_def list_del_def e by simp
  have "seg s h xs e" using assms(1) by (simp add: seg_append)
  then have front: "seg ?s h xs ?q"
  proof (rule seg_retarget)
    show d: "distinct (h # xs)" using assms(2) by simp
    show "nxt ?s x = nxt s x" if "x \<in> set (butlast (h # xs))" for x
    proof -
      have "x \<noteq> ?p" using that d
        by (metis append_butlast_last_id distinct_butlast list.distinct(1) not_distinct_conv_prefix)
      then show ?thesis using nx by simp
    qed
    show "prv ?s x = prv s x" if "x \<in> set xs" for x
      using that pv assms(2) by (cases ys) auto
    show "nxt ?s ?p = ?q" "prv ?s ?q = ?p" using nx pv by presburger+
  qed
  show ?thesis
  proof (cases ys)
    case Nil
    then show ?thesis using front by simp
  next
    case (Cons y zs)
    have "seg s y zs h" using assms(1) Cons by (simp add: seg_append)
    moreover have "?p \<in> set (h # xs)" by simp
    then have "seg ?s y zs h = seg s y zs h"
      using assms(2) Cons by (intro seg_cong) (auto simp: nx pv)
    ultimately show ?thesis using front Cons by (simp add: seg_append)
  qed
qed

lemma dlist_del:
  assumes "dlist s h (xs @ e # ys)"
  shows "dlist (tuya_list_del s e) h (xs @ ys)"
  using assms seg_remove [of s h xs e ys] by (auto simp: dlist_def)

lemma list_del_local:
  assumes "dlist s h xs" "e \<in> set xs" "x \<notin> set (h # xs)"
  shows "nxt (tuya_list_del s e) x = nxt s x" "prv (tuya_list_del s e) x = prv s x"
proof -
  obtain ys zs where xs: "xs = ys @ e # zs" using split_list [OF assms(2)] by blast
  have "prv s e \<in> set (h # xs)" "nxt s e \<in> set (h # xs)"
    using assms(1) xs seg_ends(2) [of s h ys e] seg_ends(1) [of s e zs h]
    by (auto simp: dlist_def seg_append hd_append split: if_splits)
  then show "nxt (tuya_list_del s e) x = nxt s x" "prv (tuya_list_del s e) x = prv s x"
    using assms(3) by (auto simp: tuya_list_del_def list_del_def)
qed

lemma for_each_visits:
  assumes "seg s a xs h" "h \<notin> set xs" "0 \<notin> set xs"
  shows "tuya_list_for_each s h (nxt s a) = Some xs"
  using assms
proof (induction xs arbitrary: a)
  case Nil
  then show ?case by (subst tuya_list_for_each.simps) simp
next
  case (Cons x xs)
  then show ?case by (subst tuya_list_for_each.simps) auto
qed

section \<open>Properties\<close>

text \<open>
  C16: The list operations implement the operations on the sequence of nodes behind a head: adding
  at the front and at the back, removing any node (with re-initialisation leaving it a list of its
  own), the emptiness test and the traversal.
\<close>

theorem list_ops_refine:
  assumes "dlist s h xs" "0 \<notin> set xs"
  shows "(tuya_list_empty s h \<longleftrightarrow> xs = [])
    \<and> tuya_list_for_each s h (nxt s h) = Some xs
    \<and> (n \<notin> set (h # xs) \<longrightarrow> dlist (tuya_list_add s n h) h (n # xs) \<and> dlist (tuya_list_add_tail s n h) h (xs @ [n]))
    \<and> (\<forall>e\<in>set xs. dlist (tuya_list_del s e) h (remove1 e xs)
         \<and> dlist (tuya_list_del_init s e) h (remove1 e xs) \<and> dlist (tuya_list_del_init s e) e [])"
proof (intro conjI ballI impI)
  show "tuya_list_empty s h \<longleftrightarrow> xs = []" by (rule dlist_empty [OF assms(1)])
  show "tuya_list_for_each s h (nxt s h) = Some xs"
    using assms by (intro for_each_visits) (auto simp: dlist_def)
  show "dlist (tuya_list_add s n h) h (n # xs)" "dlist (tuya_list_add_tail s n h) h (xs @ [n])" if "n \<notin> set (h # xs)"
    using dlist_add dlist_add_tail assms(1) that by blast+
  fix e assume e: "e \<in> set xs"
  obtain ys zs where xs: "xs = ys @ e # zs" using split_list [OF e] by blast
  have d: "distinct (h # xs)" using assms(1) by (simp add: dlist_def)
  then have r: "remove1 e xs = ys @ zs" using xs by (simp add: remove1_append)
  show del: "dlist (tuya_list_del s e) h (remove1 e xs)" using dlist_del assms(1) xs r by metis
  have e2: "tuya_list_del_init s e = INIT_LIST_HEAD (tuya_list_del s e) e"
    by (simp add: tuya_list_del_init_def tuya_list_del_def)
  show "dlist (tuya_list_del_init s e) h (remove1 e xs)"
    unfolding e2 by (rule dlist_frame [OF del]) (use d xs r in \<open>auto simp: INIT_LIST_HEAD_def\<close>)
  show "dlist (tuya_list_del_init s e) e []" unfolding e2 by simp
qed

definition demo_list :: list_store where
  "demo_list = tuya_list_add_tail (tuya_list_add_tail (INIT_LIST_HEAD \<lparr>nxt = id, prv = id\<rparr> 1) 2 1) 3 1"

theorem list_ops_refine_witness:
  "dlist demo_list 1 [2, 3] \<and> dlist (tuya_list_del demo_list 2) 1 [3]
   \<and> dlist (tuya_list_add demo_list 4 1) 1 [4, 2, 3]"
proof -
  have d: "dlist demo_list 1 [2, 3]"
    by (simp add: demo_list_def dlist_def tuya_list_add_tail_def list_add_def INIT_LIST_HEAD_def)
  show ?thesis using list_ops_refine [OF d, of 4] d by simp
qed

text \<open>
  Splicing a list in front of another one yields the concatenation behind the second head and
  keeps every other list.
\<close>

theorem list_splice_concat:
  assumes "dlist s l ys" "dlist s h xs" "set (l # ys) \<inter> set (h # xs) = {}"
  shows "dlist (tuya_list_splice s l h) h (ys @ xs)
    \<and> (\<forall>k zs. dlist s k zs \<and> set (k # zs) \<inter> set (l # ys @ h # xs) = {} \<longrightarrow> dlist (tuya_list_splice s l h) k zs)"
proof (cases ys)
  case Nil
  then have "tuya_list_splice s l h = s" using assms(1) by (simp add: tuya_list_splice_def dlist_def)
  then show ?thesis using assms(2) Nil by simp
next
  case (Cons y zs)
  let ?s = "tuya_list_splice s l h" let ?t = "last ys" let ?q = "hd (xs @ [h])"
  have f: "nxt s l = y" "prv s l = ?t" "nxt s h = ?q"
    using assms(1,2) Cons seg_ends(2) [of s l ys l] seg_ends(1) [of s h xs h] by (auto simp: dlist_def)
  have yl: "y \<noteq> l" using assms(1) Cons by (auto simp: dlist_def)
  have nx: "nxt ?s x = (if x = ?t then ?q else if x = h then y else nxt s x)" for x
    using f yl by (simp add: tuya_list_splice_def Let_def)
  have pv: "prv ?s x = (if x = ?q then ?t else if x = y then h else prv s x)" for x
    using f yl by (simp add: tuya_list_splice_def Let_def)
  have mem: "?t \<in> set ys" "y \<in> set ys" "?q \<in> set (h # xs)"
    using Cons by (auto simp: hd_append split: if_splits)
  have dj: "?t \<notin> set (h # xs)" "y \<notin> set (h # xs)" "?q \<notin> set (l # ys)" "h \<notin> set (l # ys)"
    using assms(3) mem by auto
  have dys: "distinct ys" "distinct (h # xs)" using assms(1,2) by (auto simp: dlist_def)
  have sy: "seg s y zs l" using assms(1) Cons by (simp add: dlist_def)
  have front: "seg ?s y zs ?q"
  proof (rule seg_retarget [OF sy])
    show "distinct (y # zs)" using dys Cons by simp
    show "nxt ?s x = nxt s x" if "x \<in> set (butlast (y # zs))" for x
    proof -
      have "x \<noteq> ?t" using that dys(1) Cons
        by (metis append_butlast_last_id distinct_butlast list.distinct(1) not_distinct_conv_prefix)
      moreover have "x \<noteq> h" using that in_set_butlastD [of x "y # zs"] dj(4) Cons by auto
      ultimately show ?thesis using nx by simp
    qed
    show "prv ?s x = prv s x" if "x \<in> set zs" for x using that pv dj Cons dys by auto
    show "nxt ?s (last (y # zs)) = ?q" "prv ?s ?q = last (y # zs)" using nx pv Cons by auto
  qed
  have "seg ?s h (ys @ xs) h"
  proof (cases xs)
    case Nil
    then show ?thesis using front Cons nx pv dj by auto
  next
    case c: (Cons x xs')
    have "seg s x xs' h" using assms(2) c by (simp add: dlist_def)
    moreover have "seg ?s x xs' h = seg s x xs' h"
      by (rule seg_cong) (use nx pv dj dys c mem in \<open>auto split: if_splits\<close>)
    ultimately show ?thesis using front Cons c nx pv dj by (auto simp: seg_append)
  qed
  moreover have "dlist ?s k ws" if "dlist s k ws" "set (k # ws) \<inter> set (l # ys @ h # xs) = {}" for k ws
    by (rule dlist_frame [OF that(1)]) (use that(2) mem nx pv in auto)
  ultimately show ?thesis using dys assms(3) by (auto simp: dlist_def)
qed

theorem list_splice_concat_witness:
  "dlist demo_list 1 [2, 3] \<and> dlist (tuya_list_splice (INIT_LIST_HEAD demo_list 5) 1 5) 5 [2, 3]"
proof -
  have d: "dlist demo_list 1 [2, 3]"
    by (simp add: demo_list_def dlist_def tuya_list_add_tail_def list_add_def INIT_LIST_HEAD_def)
  have "dlist (INIT_LIST_HEAD demo_list 5) 1 [2, 3]"
    by (rule dlist_frame [OF d]) (auto simp: INIT_LIST_HEAD_def)
  then show ?thesis using list_splice_concat [of "INIT_LIST_HEAD demo_list 5" 1 "[2, 3]" 5 "[]"] d by simp
qed

end
