(* ===== verification/Tuya_Queue.thy ===== *)
theory Tuya_Queue
  imports Tuya_List Tkl_Memory
begin

text \<open>
  The copying queue of \<open>include/utilities/src/tuya_queue.c\<close>: a bounded double-ended queue of
  equally sized items, each in a block of its own, linked by \<open>tuya_list.c\<close>. The queue and item
  structures are kept as one map per field, indexed by their addresses; the blocks come from the
  memory manager, whose operations \<open>malloc\<close> and \<open>free\<close> are arguments of the functions that call
  them (\<open>tkl_system_malloc\<close> and \<open>tkl_system_free\<close> in the program). Mutex calls are recorded as
  events. Item pointers are byte lists, \<open>None\<close> being NULL.
\<close>

datatype ENQUEUE_POLICY_E = POLICY_SEND_TO_BACK | POLICY_SEND_TO_FRONT | POLICY_MAX

record TUYA_QUEUE_T =
  item_size :: u32
  queue_len :: u32
  queue_free :: u32

datatype lock_event = Lock nat | Unlock nat

record 'a queue_sys =
  qs_mem :: 'a
  qs_list :: list_store
  qs_data :: "nat \<Rightarrow> bytes"
  qs_queue :: "nat \<Rightarrow> TUYA_QUEUE_T"
  qs_locks :: "lock_event list"

text \<open>\<open>sizeof(QUEUE_ITEM_T)\<close>, \<open>sizeof(TUYA_QUEUE_T)\<close> and the address of the member \<open>head\<close>.\<close>

definition QUEUE_ITEM_SIZE :: nat where "QUEUE_ITEM_SIZE = 16"
definition QUEUE_SIZE :: nat where "QUEUE_SIZE = 40"
definition queue_head :: "nat \<Rightarrow> nat" where "queue_head q = q + 24"

definition QUEUE_LOCK :: "nat \<Rightarrow> 'a queue_sys \<Rightarrow> 'a queue_sys" where
  "QUEUE_LOCK q s = s\<lparr>qs_locks := qs_locks s @ [Lock q]\<rparr>"

definition QUEUE_UNLOCK :: "nat \<Rightarrow> 'a queue_sys \<Rightarrow> 'a queue_sys" where
  "QUEUE_UNLOCK q s = s\<lparr>qs_locks := qs_locks s @ [Unlock q]\<rparr>"

definition set_queue :: "nat \<Rightarrow> TUYA_QUEUE_T \<Rightarrow> 'a queue_sys \<Rightarrow> 'a queue_sys" where
  "set_queue q v s = s\<lparr>qs_queue := (qs_queue s)(q := v)\<rparr>"

definition enqueue ::
  "'a malloc_fn \<Rightarrow> 'a free_fn \<Rightarrow> 'a queue_sys \<Rightarrow> nat \<Rightarrow> byte_ptr \<Rightarrow> ENQUEUE_POLICY_E \<Rightarrow>
    (OPERATE_RET \<times> 'a queue_sys) option" where
  "enqueue malloc free s handle item policy =
     (case item of None \<Rightarrow> Some (OPRT_INVALID_PARM, s)
      | Some it \<Rightarrow>
         if handle = 0 \<or> policy = POLICY_MAX then Some (OPRT_INVALID_PARM, s)
         else let queue = qs_queue s handle
         in Option.bind (malloc (qs_mem s) (QUEUE_ITEM_SIZE + unat (item_size queue))) (\<lambda>(queue_item, a).
              let s1 = s\<lparr>qs_mem := a\<rparr>
              in if queue_item = 0 then Some (OPRT_MALLOC_FAILED, s1)
              else let s2 = s1\<lparr>qs_list := INIT_LIST_HEAD (qs_list s1) queue_item,
                             qs_data := (qs_data s1)(queue_item := take (unat (item_size queue)) it)\<rparr>;
                       s3 = QUEUE_LOCK handle s2
              in if queue_free queue > 0
                 then let s4 = s3\<lparr>qs_list :=
                             (if policy = POLICY_SEND_TO_BACK
                              then tuya_list_add_tail (qs_list s3) queue_item (queue_head handle)
                              else tuya_list_add (qs_list s3) queue_item (queue_head handle))\<rparr>;
                          s5 = set_queue handle (queue\<lparr>queue_free := queue_free queue - 1\<rparr>) s4
                      in Some (OPRT_OK, QUEUE_UNLOCK handle s5)
                 else Option.bind (free (qs_mem s3) queue_item) (\<lambda>a'.
                        Some (OPRT_EXCEED_UPPER_LIMIT, QUEUE_UNLOCK handle (s3\<lparr>qs_mem := a'\<rparr>)))))"

text \<open>
  \<open>handle_ok\<close>: the out-pointer is not NULL; \<open>lock_rt\<close>: what \<open>tkl_mutex_create_init\<close> returns.
  The second result is the handle stored, 0 when none is.
\<close>

definition tuya_queue_create ::
  "'a malloc_fn \<Rightarrow> 'a free_fn \<Rightarrow> OPERATE_RET \<Rightarrow> 'a queue_sys \<Rightarrow> u32 \<Rightarrow> u32 \<Rightarrow> bool \<Rightarrow>
    (OPERATE_RET \<times> nat \<times> 'a queue_sys) option" where
  "tuya_queue_create malloc free lock_rt s len isize handle_ok =
     (if \<not> handle_ok \<or> len = 0 \<or> isize = 0 then Some (OPRT_INVALID_PARM, 0, s)
      else Option.bind (malloc (qs_mem s) QUEUE_SIZE) (\<lambda>(queue, a).
        let s1 = s\<lparr>qs_mem := a\<rparr>
        in if queue = 0 then Some (OPRT_MALLOC_FAILED, 0, s1)
        else if lock_rt \<noteq> OPRT_OK
        then Option.bind (free (qs_mem s1) queue) (\<lambda>a'. Some (OPRT_COM_ERROR, 0, s1\<lparr>qs_mem := a'\<rparr>))
        else let s2 = set_queue queue \<lparr>item_size = isize, queue_len = len, queue_free = len\<rparr> s1;
                 s3 = s2\<lparr>qs_list := INIT_LIST_HEAD (qs_list s2) (queue_head queue)\<rparr>
             in Some (OPRT_OK, queue, s3)))"

definition tuya_queue_input ::
  "'a malloc_fn \<Rightarrow> 'a free_fn \<Rightarrow> 'a queue_sys \<Rightarrow> nat \<Rightarrow> byte_ptr \<Rightarrow> (OPERATE_RET \<times> 'a queue_sys) option" where
  "tuya_queue_input malloc free s handle item = enqueue malloc free s handle item POLICY_SEND_TO_BACK"

definition tuya_queue_input_instant ::
  "'a malloc_fn \<Rightarrow> 'a free_fn \<Rightarrow> 'a queue_sys \<Rightarrow> nat \<Rightarrow> byte_ptr \<Rightarrow> (OPERATE_RET \<times> 'a queue_sys) option" where
  "tuya_queue_input_instant malloc free s handle item = enqueue malloc free s handle item POLICY_SEND_TO_FRONT"

text \<open>\<open>want\<close>: the caller's buffer is not NULL; the second result is what is copied there.\<close>

definition tuya_queue_output ::
  "'a free_fn \<Rightarrow> 'a queue_sys \<Rightarrow> nat \<Rightarrow> bool \<Rightarrow> (OPERATE_RET \<times> byte_ptr \<times> 'a queue_sys) option" where
  "tuya_queue_output free s handle want =
     (if handle = 0 then Some (OPRT_INVALID_PARM, None, s)
      else let queue = qs_queue s handle; s1 = QUEUE_LOCK handle s
      in if queue_free queue < queue_len queue
         then let queue_item = nxt (qs_list s1) (queue_head handle);
                  out = (if want then Some (take (unat (item_size queue)) (qs_data s1 queue_item)) else None);
                  s2 = s1\<lparr>qs_list := tuya_list_del (qs_list s1) queue_item\<rparr>
              in Option.bind (free (qs_mem s2) queue_item) (\<lambda>a.
                   let s3 = set_queue handle (queue\<lparr>queue_free := queue_free queue + 1\<rparr>) (s2\<lparr>qs_mem := a\<rparr>)
                   in Some (OPRT_OK, out, QUEUE_UNLOCK handle s3))
         else Some (OPRT_NOT_FOUND, None, QUEUE_UNLOCK handle s1))"

definition tuya_queue_peek ::
  "'a queue_sys \<Rightarrow> nat \<Rightarrow> bool \<Rightarrow> OPERATE_RET \<times> byte_ptr \<times> 'a queue_sys" where
  "tuya_queue_peek s handle want =
     (if handle = 0 \<or> \<not> want then (OPRT_INVALID_PARM, None, s)
      else let queue = qs_queue s handle; s1 = QUEUE_LOCK handle s
      in if queue_free queue < queue_len queue
         then let queue_item = nxt (qs_list s1) (queue_head handle)
              in (OPRT_OK, Some (take (unat (item_size queue)) (qs_data s1 queue_item)), QUEUE_UNLOCK handle s1)
         else (OPRT_NOT_FOUND, None, QUEUE_UNLOCK handle s1))"

text \<open>
  The callback gets the item and the caller's context and says whether to continue; it may change
  the context only.
\<close>

partial_function (option) traverse_loop ::
  "('c \<Rightarrow> bytes \<Rightarrow> bool \<times> 'c) \<Rightarrow> list_store \<Rightarrow> (nat \<Rightarrow> bytes) \<Rightarrow> nat \<Rightarrow> nat \<Rightarrow> 'c \<Rightarrow> 'c option" where
  "traverse_loop cb l d head p ctx =
     (if p \<noteq> 0 \<and> p \<noteq> head
      then (case cb ctx (d p) of (go, ctx') \<Rightarrow>
              if \<not> go then Some ctx' else traverse_loop cb l d head (nxt l p) ctx')
      else Some ctx)"

definition tuya_queue_traverse ::
  "'a queue_sys \<Rightarrow> nat \<Rightarrow> ('c \<Rightarrow> bytes \<Rightarrow> bool \<times> 'c) option \<Rightarrow> 'c \<Rightarrow> (OPERATE_RET \<times> 'c \<times> 'a queue_sys) option" where
  "tuya_queue_traverse s handle cb ctx =
     (case cb of None \<Rightarrow> Some (OPRT_INVALID_PARM, ctx, s)
      | Some f \<Rightarrow>
         if handle = 0 then Some (OPRT_INVALID_PARM, ctx, s)
         else let s1 = QUEUE_LOCK handle s
         in Option.bind (traverse_loop f (qs_list s1) (qs_data s1) (queue_head handle)
                  (nxt (qs_list s1) (queue_head handle)) ctx)
              (\<lambda>ctx'. Some (OPRT_OK, ctx', QUEUE_UNLOCK handle s1)))"

partial_function (option) clear_loop ::
  "'a free_fn \<Rightarrow> 'a queue_sys \<Rightarrow> nat \<Rightarrow> nat \<Rightarrow> 'a queue_sys option" where
  "clear_loop free s head p =
     (let n = nxt (qs_list s) p
      in if p \<noteq> head
         then let s1 = s\<lparr>qs_list := tuya_list_del (qs_list s) p\<rparr>
              in Option.bind (free (qs_mem s1) p) (\<lambda>a. clear_loop free (s1\<lparr>qs_mem := a\<rparr>) head n)
         else Some s)"

definition tuya_queue_clear :: "'a free_fn \<Rightarrow> 'a queue_sys \<Rightarrow> nat \<Rightarrow> (OPERATE_RET \<times> 'a queue_sys) option" where
  "tuya_queue_clear free s handle =
     (if handle = 0 then Some (OPRT_INVALID_PARM, s)
      else let s1 = QUEUE_LOCK handle s
      in Option.bind (clear_loop free s1 (queue_head handle) (nxt (qs_list s1) (queue_head handle)))
           (\<lambda>s2. let queue = qs_queue s2 handle;
                     s3 = set_queue handle (queue\<lparr>queue_free := queue_len queue\<rparr>) s2
                 in Some (OPRT_OK, QUEUE_UNLOCK handle s3)))"

text \<open>The byte offset \<open>count * item_size\<close> into the caller's buffer is a 32-bit product.\<close>

partial_function (option) batch_loop ::
  "list_store \<Rightarrow> (nat \<Rightarrow> bytes) \<Rightarrow> u32 \<Rightarrow> nat \<Rightarrow> u32 \<Rightarrow> u32 \<Rightarrow> nat \<Rightarrow> u32 \<Rightarrow> u32 \<Rightarrow> bytes \<Rightarrow>
    (u32 \<times> u32 \<times> bytes) option" where
  "batch_loop l d isize head start num p index count items =
     (if p \<noteq> 0 \<and> p \<noteq> head
      then if index < start then batch_loop l d isize head start num (nxt l p) (index + 1) count items
      else if count \<ge> num then Some (index, count, items)
      else batch_loop l d isize head start num (nxt l p) index (count + 1)
             (memcpy_at items (unat (count * isize)) (d p) (unat isize))
      else Some (index, count, items))"

text \<open>\<open>items\<close> is the caller's buffer; the second result is its final content.\<close>

definition tuya_queue_get_batch ::
  "'a queue_sys \<Rightarrow> nat \<Rightarrow> u32 \<Rightarrow> byte_ptr \<Rightarrow> u32 \<Rightarrow> (OPERATE_RET \<times> byte_ptr \<times> 'a queue_sys) option" where
  "tuya_queue_get_batch s handle start items num =
     (case items of None \<Rightarrow> Some (OPRT_INVALID_PARM, None, s)
      | Some buf \<Rightarrow>
         if handle = 0 \<or> num = 0 then Some (OPRT_INVALID_PARM, Some buf, s)
         else let queue = qs_queue s handle; s1 = QUEUE_LOCK handle s
         in Option.bind (batch_loop (qs_list s1) (qs_data s1) (item_size queue) (queue_head handle) start num
                  (nxt (qs_list s1) (queue_head handle)) 0 0 buf)
              (\<lambda>(index, count, buf').
                 Some (if index \<noteq> start \<or> count \<noteq> num then OPRT_NOT_FOUND else OPRT_OK,
                       Some buf', QUEUE_UNLOCK handle s1)))"

fun delete_loop :: "'a free_fn \<Rightarrow> 'a queue_sys \<Rightarrow> nat \<Rightarrow> nat \<Rightarrow> OPERATE_RET \<Rightarrow> (OPERATE_RET \<times> 'a queue_sys) option" where
  "delete_loop free s handle 0 op_ret = Some (op_ret, s)"
| "delete_loop free s handle (Suc count) op_ret =
     (if op_ret = OPRT_OK
      then Option.bind (tuya_queue_output free s handle False) (\<lambda>(r, _, s'). delete_loop free s' handle count r)
      else Some (op_ret, s))"

definition tuya_queue_delete_batch ::
  "'a free_fn \<Rightarrow> 'a queue_sys \<Rightarrow> nat \<Rightarrow> u32 \<Rightarrow> (OPERATE_RET \<times> 'a queue_sys) option" where
  "tuya_queue_delete_batch free s handle num =
     (if handle = 0 \<or> num = 0 then Some (OPRT_INVALID_PARM, s)
      else delete_loop free s handle (unat num) OPRT_OK)"

definition tuya_queue_get_free_num :: "'a queue_sys \<Rightarrow> nat \<Rightarrow> u32" where
  "tuya_queue_get_free_num s handle = (if handle = 0 then 0 else queue_free (qs_queue s handle))"

definition tuya_queue_get_used_num :: "'a queue_sys \<Rightarrow> nat \<Rightarrow> u32 \<times> 'a queue_sys" where
  "tuya_queue_get_used_num s handle =
     (if handle = 0 then (0, s)
      else let queue = qs_queue s handle
           in (queue_len queue - queue_free queue, QUEUE_UNLOCK handle (QUEUE_LOCK handle s)))"

definition tuya_queue_get_max_num :: "'a queue_sys \<Rightarrow> nat \<Rightarrow> u32" where
  "tuya_queue_get_max_num s handle = (if handle = 0 then 0 else queue_len (qs_queue s handle))"

text \<open>\<open>lock_rt\<close>: what \<open>tkl_mutex_release\<close> returns.\<close>

definition tuya_queue_release ::
  "'a free_fn \<Rightarrow> OPERATE_RET \<Rightarrow> 'a queue_sys \<Rightarrow> nat \<Rightarrow> (OPERATE_RET \<times> 'a queue_sys) option" where
  "tuya_queue_release free lock_rt s handle =
     (if handle = 0 then Some (OPRT_INVALID_PARM, s)
      else Option.bind (tuya_queue_clear free s handle) (\<lambda>(_, s1).
             Option.bind (free (qs_mem s1) handle) (\<lambda>a. Some (lock_rt, s1\<lparr>qs_mem := a\<rparr>))))"

declare traverse_loop.simps [code] clear_loop.simps [code] batch_loop.simps [code]

section \<open>The queue behind a handle\<close>

text \<open>
  Handle \<open>q\<close> holds the items \<open>xs\<close> in the blocks \<open>ps\<close>; \<open>L\<close> are all live blocks of the memory
  manager. The invariant is independent of the memory manager: its part is that the queue
  structure and the items own blocks of \<open>L\<close>.
\<close>

definition own_blocks :: "(nat \<times> nat) set \<Rightarrow> nat \<Rightarrow> nat \<Rightarrow> nat list \<Rightarrow> bool" where
  "own_blocks L q n ps \<longleftrightarrow>
     (\<exists>c\<ge>QUEUE_SIZE. (q, c) \<in> L) \<and> (\<forall>p\<in>set ps. \<exists>c\<ge>n. (p, c) \<in> L) \<and> q \<notin> set ps"

definition queue_shape :: "'a queue_sys \<Rightarrow> nat \<Rightarrow> (nat \<times> nat) set \<Rightarrow> nat list \<Rightarrow> bytes list \<Rightarrow> bool" where
  "queue_shape s q L ps xs \<longleftrightarrow>
     dlist (qs_list s) (queue_head q) ps \<and> map (qs_data s) ps = xs
     \<and> own_blocks L q (QUEUE_ITEM_SIZE + unat (item_size (qs_queue s q))) ps
     \<and> (\<forall>x\<in>set xs. length x = unat (item_size (qs_queue s q)))
     \<and> unat (queue_free (qs_queue s q)) + length xs = unat (queue_len (qs_queue s q))"

lemma queue_field_simps [simp]:
  "qs_mem (QUEUE_LOCK q s) = qs_mem s" "qs_list (QUEUE_LOCK q s) = qs_list s" "qs_data (QUEUE_LOCK q s) = qs_data s"
  "qs_queue (QUEUE_LOCK q s) = qs_queue s"
  "qs_mem (QUEUE_UNLOCK q s) = qs_mem s" "qs_list (QUEUE_UNLOCK q s) = qs_list s"
  "qs_data (QUEUE_UNLOCK q s) = qs_data s" "qs_queue (QUEUE_UNLOCK q s) = qs_queue s"
  "qs_mem (set_queue q v s) = qs_mem s" "qs_list (set_queue q v s) = qs_list s"
  "qs_data (set_queue q v s) = qs_data s" "qs_queue (set_queue q v s) = (qs_queue s)(q := v)"
  by (simp_all add: QUEUE_LOCK_def QUEUE_UNLOCK_def set_queue_def)

lemma queue_shape_mono: "queue_shape s q L ps xs \<Longrightarrow> L \<subseteq> L' \<Longrightarrow> queue_shape s q L' ps xs"
  unfolding queue_shape_def own_blocks_def by blast

lemma queue_shape_fields:
  assumes "queue_shape s q L ps xs" "qs_list s' = qs_list s" "qs_queue s' q = qs_queue s q"
    "\<And>p. p \<in> set ps \<Longrightarrow> qs_data s' p = qs_data s p"
  shows "queue_shape s' q L ps xs"
  using assms unfolding queue_shape_def by (auto cong: map_cong)

context allocator
begin

text \<open>The queue and the memory manager together.\<close>

definition queue_rep :: "'s queue_sys \<Rightarrow> nat \<Rightarrow> (nat \<times> nat) set \<Rightarrow> nat list \<Rightarrow> bytes list \<Rightarrow> bool" where
  "queue_rep s q L ps xs \<longleftrightarrow> rep (qs_mem s) L \<and> queue_shape s q L ps xs"

lemma queue_repD:
  assumes "queue_rep s q L ps xs"
  shows "rep (qs_mem s) L" "queue_shape s q L ps xs" "dlist (qs_list s) (queue_head q) ps" "map (qs_data s) ps = xs"
    "length ps = length xs" "q \<noteq> 0" "0 \<notin> set ps"
  using assms live_nonnull unfolding queue_rep_def queue_shape_def own_blocks_def by (auto, fastforce+)

lemma fresh_node:
  assumes r: "queue_rep s q L ps xs" and r': "rep a (insert (p, c) L)" and p: "(p, c) \<notin> L"
  shows "p \<notin> set (queue_head q # ps)" "p \<noteq> q"
proof -
  obtain d where d: "(q, d) \<in> L" "40 \<le> d" using r by (auto simp: queue_rep_def queue_shape_def own_blocks_def QUEUE_SIZE_def)
  have c: "0 < c" using live_nonnull [OF r'] by auto
  have "apart (p, c) (q, d)" using live_apart [OF r', of "(p, c)" "(q, d)"] d p by auto
  then have "p \<noteq> q + 24" "p \<noteq> q" using c d(2) by (auto simp: apart_def)
  moreover have "p \<notin> set ps"
  proof
    assume "p \<in> set ps"
    then obtain k where k: "(p, k) \<in> L" using r by (auto simp: queue_rep_def queue_shape_def own_blocks_def)
    then have "0 < k" using live_nonnull [OF r'] by auto
    then show False using live_apart [OF r', of "(p, c)" "(p, k)"] k p c by (auto simp: apart_def)
  qed
  ultimately show "p \<notin> set (queue_head q # ps)" "p \<noteq> q" by (simp_all add: queue_head_def)
qed

text \<open>An insertion that got its block \<open>(p, c)\<close>: with a free slot it is linked in, otherwise released.\<close>

lemma enqueue_room:
  assumes r: "queue_rep s q L ps xs" and it: "length it \<ge> unat (item_size (qs_queue s q))" and pol: "policy \<noteq> POLICY_MAX"
    and al: "alloc (qs_mem s) (QUEUE_ITEM_SIZE + unat (item_size (qs_queue s q))) = Some (p, a)" "rep a (insert (p, c) L)" "p \<noteq> 0"
    and c: "QUEUE_ITEM_SIZE + unat (item_size (qs_queue s q)) \<le> c" "(p, c) \<notin> L"
    and new: "p \<notin> set (queue_head q # ps)" "p \<noteq> q" and lst: "dlist (INIT_LIST_HEAD (qs_list s) p) (queue_head q) ps"
    and free: "queue_free (qs_queue s q) > 0"
  shows "\<exists>s'. enqueue alloc release s q (Some it) policy = Some (OPRT_OK, s') \<and> length xs < unat (queue_len (qs_queue s q))
    \<and> item_size (qs_queue s' q) = item_size (qs_queue s q) \<and> queue_len (qs_queue s' q) = queue_len (qs_queue s q)
    \<and> (if policy = POLICY_SEND_TO_BACK
       then queue_rep s' q (insert (p, c) L) (ps @ [p]) (xs @ [take (unat (item_size (qs_queue s q))) it])
       else queue_rep s' q (insert (p, c) L) (p # ps) (take (unat (item_size (qs_queue s q))) it # xs))"
proof -
  note d = queue_repD [OF r]
  let ?q = "qs_queue s q" let ?n = "unat (item_size ?q)"
  let ?l = "if policy = POLICY_SEND_TO_BACK then tuya_list_add_tail (INIT_LIST_HEAD (qs_list s) p) p (queue_head q)
      else tuya_list_add (INIT_LIST_HEAD (qs_list s) p) p (queue_head q)"
  have "\<exists>s'. enqueue alloc release s q (Some it) policy = Some (OPRT_OK, s') \<and> qs_mem s' = a \<and> qs_list s' = ?l
      \<and> qs_data s' = (qs_data s)(p := take ?n it) \<and> qs_queue s' = (qs_queue s)(q := ?q\<lparr>queue_free := queue_free ?q - 1\<rparr>)"
    using al(1,3) d(6) pol free by (simp add: enqueue_def Let_def)
  then obtain s' where s': "enqueue alloc release s q (Some it) policy = Some (OPRT_OK, s')" "qs_mem s' = a"
    "qs_list s' = ?l" "qs_data s' = (qs_data s)(p := take ?n it)"
    "qs_queue s' q = ?q\<lparr>queue_free := queue_free ?q - 1\<rparr>" by auto
  have fr: "unat (queue_free ?q - 1) + 1 = unat (queue_free ?q)" "0 < unat (queue_free ?q)"
    using free by (auto simp: unat_sub_ge word_less_nat_alt)
  have len: "unat (queue_free ?q) + length xs = unat (queue_len ?q)" using d(2) by (simp add: queue_shape_def)
  have data: "map ((qs_data s)(p := take ?n it)) ps = xs" using d(4) new by (auto cong: map_cong)
  have "if policy = POLICY_SEND_TO_BACK then queue_rep s' q (insert (p, c) L) (ps @ [p]) (xs @ [take ?n it])
        else queue_rep s' q (insert (p, c) L) (p # ps) (take ?n it # xs)"
    using dlist_add [OF lst new(1)] dlist_add_tail [OF lst new(1)] new(2) d(2) fr len data it al(2) c s'
    by (auto simp: queue_rep_def queue_shape_def own_blocks_def)
  moreover have "length xs < unat (queue_len ?q)" using fr len by simp
  ultimately show ?thesis using s'(1,5) by auto
qed

lemma enqueue_full:
  assumes r: "queue_rep s q L ps xs" and pol: "policy \<noteq> POLICY_MAX"
    and al: "alloc (qs_mem s) (QUEUE_ITEM_SIZE + unat (item_size (qs_queue s q))) = Some (p, a)" "rep a (insert (p, c) L)" "p \<noteq> 0"
    and c: "(p, c) \<notin> L" and new: "p \<notin> set (queue_head q # ps)" and lst: "dlist (INIT_LIST_HEAD (qs_list s) p) (queue_head q) ps"
    and free: "\<not> queue_free (qs_queue s q) > 0"
  shows "\<exists>s'. enqueue alloc release s q (Some it) policy = Some (OPRT_EXCEED_UPPER_LIMIT, s')
    \<and> length xs = unat (queue_len (qs_queue s q)) \<and> qs_queue s' = qs_queue s \<and> queue_rep s' q L ps xs"
proof -
  note d = queue_repD [OF r]
  let ?n = "unat (item_size (qs_queue s q))"
  obtain a' where a': "release a p = Some a'" "rep a' L"
    using release_result [of a "insert (p, c) L" p c] al(2) c by auto
  have "\<exists>s'. enqueue alloc release s q (Some it) policy = Some (OPRT_EXCEED_UPPER_LIMIT, s') \<and> qs_mem s' = a'
      \<and> qs_list s' = INIT_LIST_HEAD (qs_list s) p \<and> qs_data s' = (qs_data s)(p := take ?n it) \<and> qs_queue s' = qs_queue s"
    using al a'(1) free d(6) pol by (simp add: enqueue_def Let_def)
  then obtain s' where s': "enqueue alloc release s q (Some it) policy = Some (OPRT_EXCEED_UPPER_LIMIT, s')"
    "qs_mem s' = a'" "qs_list s' = INIT_LIST_HEAD (qs_list s) p" "qs_data s' = (qs_data s)(p := take ?n it)"
    "qs_queue s' = qs_queue s" by blast
  have "map (qs_data s') ps = xs" using d(4) new s'(4) by (auto cong: map_cong)
  then have "queue_rep s' q L ps xs" using s' a'(2) lst d(2) by (auto simp: queue_rep_def queue_shape_def)
  moreover have "length xs = unat (queue_len (qs_queue s q))" using d(2) free by (auto simp: queue_shape_def word_gt_0)
  ultimately show ?thesis using s' by auto
qed

lemma enqueue_cases:
  assumes r: "queue_rep s q L ps xs" and it: "length it \<ge> unat (item_size (qs_queue s q))"
    and lim: "QUEUE_ITEM_SIZE + unat (item_size (qs_queue s q)) < lim" and pol: "policy \<noteq> POLICY_MAX"
  shows "\<exists>ret s'. enqueue alloc release s q (Some it) policy = Some (ret, s')
     \<and> item_size (qs_queue s' q) = item_size (qs_queue s q) \<and> queue_len (qs_queue s' q) = queue_len (qs_queue s q)
     \<and> (ret = OPRT_MALLOC_FAILED \<and> queue_rep s' q L ps xs
        \<or> ret = OPRT_EXCEED_UPPER_LIMIT \<and> length xs = unat (queue_len (qs_queue s q)) \<and> queue_rep s' q L ps xs
        \<or> ret = OPRT_OK \<and> length xs < unat (queue_len (qs_queue s q))
          \<and> (\<exists>p c. (p, c) \<notin> L \<and>
              (if policy = POLICY_SEND_TO_BACK
               then queue_rep s' q (insert (p, c) L) (ps @ [p]) (xs @ [take (unat (item_size (qs_queue s q))) it])
               else queue_rep s' q (insert (p, c) L) (p # ps) (take (unat (item_size (qs_queue s q))) it # xs))))"
proof -
  note d = queue_repD [OF r]
  let ?q = "qs_queue s q" let ?n = "unat (item_size ?q)"
  obtain p a L' where al: "alloc (qs_mem s) (QUEUE_ITEM_SIZE + ?n) = Some (p, a)" "rep a L'"
    and p: "p = 0 \<and> L' = L \<or> (\<exists>c\<ge>QUEUE_ITEM_SIZE + ?n. (p, c) \<notin> L \<and> L' = insert (p, c) L)"
    using alloc_result [OF d(1) _ lim] by (auto simp: QUEUE_ITEM_SIZE_def)
  show ?thesis
  proof (cases "p = 0")
    case True
    have "L' = L" using p True live_nonnull [OF al(2)] by auto
    moreover have "queue_shape (s\<lparr>qs_mem := a\<rparr>) q L ps xs" by (rule queue_shape_fields [OF d(2)]) simp_all
    ultimately show ?thesis using al True d(6) pol by (simp add: enqueue_def queue_rep_def)
  next
    case False
    then obtain c where c: "QUEUE_ITEM_SIZE + ?n \<le> c" "(p, c) \<notin> L" "L' = insert (p, c) L" using p by auto
    have new: "p \<notin> set (queue_head q # ps)" "p \<noteq> q" using fresh_node [OF r _ c(2)] al(2) c(3) by simp_all
    have lst: "dlist (INIT_LIST_HEAD (qs_list s) p) (queue_head q) ps"
      by (rule dlist_frame [OF d(3)]) (use new in \<open>auto simp: INIT_LIST_HEAD_def\<close>)
    note al' = al(1) al(2) [unfolded c(3)] False
    show ?thesis
    proof (cases "queue_free ?q > 0")
      case True
      from enqueue_room [OF r it pol al' c(1,2) new lst True] show ?thesis using c(2)
        by (elim exE conjE) (intro exI conjI, assumption+, blast)
    next
      case False
      from enqueue_full [OF r pol al' c(2) new(1) lst False, of it] show ?thesis by auto
    qed
  qed
qed

lemma output_empty:
  assumes r: "queue_rep s q L ps []"
  shows "tuya_queue_output release s q want = Some (OPRT_NOT_FOUND, None, QUEUE_UNLOCK q (QUEUE_LOCK q s))
     \<and> queue_rep (QUEUE_UNLOCK q (QUEUE_LOCK q s)) q L ps []"
proof -
  note d = queue_repD [OF r]
  have "\<not> queue_free (qs_queue s q) < queue_len (qs_queue s q)"
    using d(2) by (simp add: queue_shape_def word_less_nat_alt)
  moreover have "queue_shape (QUEUE_UNLOCK q (QUEUE_LOCK q s)) q L ps []"
    by (rule queue_shape_fields [OF d(2)]) simp_all
  ultimately show ?thesis using d(1,6) by (simp add: tuya_queue_output_def queue_rep_def Let_def)
qed

text \<open>Taking the first item off the list and giving its block back.\<close>

lemma drop_first:
  assumes r: "rep a L" and l: "dlist l (queue_head q) (p # ps)" and o: "own_blocks L q n (p # ps)"
  shows "nxt l (queue_head q) = p" "p \<noteq> queue_head q"
    "nxt (tuya_list_del l p) (queue_head q) = nxt l p"
    "dlist (tuya_list_del l p) (queue_head q) ps"
    "\<exists>c a'. (p, c) \<in> L \<and> release a p = Some a' \<and> rep a' (L - {(p, c)}) \<and> own_blocks (L - {(p, c)}) q n ps"
proof -
  show "nxt l (queue_head q) = p" "p \<noteq> queue_head q" "nxt (tuya_list_del l p) (queue_head q) = nxt l p"
    using l by (auto simp: dlist_def tuya_list_del_def list_del_def)
  show "dlist (tuya_list_del l p) (queue_head q) ps" using dlist_del [of _ _ "[]" p ps] l by simp
  obtain c where c: "(p, c) \<in> L" using o by (auto simp: own_blocks_def)
  have "p \<notin> set ps" using l by (simp add: dlist_def)
  then have "own_blocks (L - {(p, c)}) q n ps" using o by (fastforce simp: own_blocks_def)
  then show "\<exists>c a'. (p, c) \<in> L \<and> release a p = Some a' \<and> rep a' (L - {(p, c)}) \<and> own_blocks (L - {(p, c)}) q n ps"
    using release_result [OF r c] c by blast
qed

lemma output_first:
  assumes r: "queue_rep s q L (p # ps) (x # xs)"
  shows "\<exists>c s'. tuya_queue_output release s q want = Some (OPRT_OK, if want then Some x else None, s')
     \<and> (p, c) \<in> L \<and> queue_rep s' q (L - {(p, c)}) ps xs
     \<and> item_size (qs_queue s' q) = item_size (qs_queue s q) \<and> queue_len (qs_queue s' q) = queue_len (qs_queue s q)"
proof -
  note d = queue_repD [OF r]
  let ?q = "qs_queue s q" let ?n = "QUEUE_ITEM_SIZE + unat (item_size ?q)"
  have o: "own_blocks L q ?n (p # ps)" and x: "qs_data s p = x" using d(2) by (auto simp: queue_shape_def)
  note f = drop_first [OF d(1,3) o]
  obtain c a where c: "(p, c) \<in> L" "release (qs_mem s) p = Some a" "rep a (L - {(p, c)})"
    "own_blocks (L - {(p, c)}) q ?n ps" using f(5) by blast
  have len: "unat (queue_free ?q) + Suc (length xs) = unat (queue_len ?q)" using d(2) by (simp add: queue_shape_def)
  then have lt: "queue_free ?q < queue_len ?q" by (simp add: word_less_nat_alt)
  have inc: "unat (queue_free ?q + 1) = unat (queue_free ?q) + 1"
  proof (subst unat_add_small)
    have "unat (queue_len ?q) < 4294967296" by (rule unat_u32_less)
    then have "unat (queue_free ?q) + 1 < 4294967296" using len by linarith
    then show "unat (queue_free ?q) + unat (1 :: u32) < 2 ^ LENGTH(32)" by simp
  qed simp
  have lx: "length x = unat (item_size ?q)" using d(2) by (simp add: queue_shape_def)
  have "\<exists>s'. tuya_queue_output release s q want = Some (OPRT_OK, if want then Some x else None, s')
      \<and> qs_mem s' = a \<and> qs_list s' = tuya_list_del (qs_list s) p \<and> qs_data s' = qs_data s
      \<and> qs_queue s' q = ?q\<lparr>queue_free := queue_free ?q + 1\<rparr>"
    using d(6) lt c(2) f(1) x lx by (simp add: tuya_queue_output_def Let_def)
  then obtain s' where s': "tuya_queue_output release s q want = Some (OPRT_OK, if want then Some x else None, s')"
    "qs_mem s' = a" "qs_list s' = tuya_list_del (qs_list s) p" "qs_data s' = qs_data s"
    "qs_queue s' q = ?q\<lparr>queue_free := queue_free ?q + 1\<rparr>" by blast
  have "queue_rep s' q (L - {(p, c)}) ps xs"
    using s' c(3,4) f(4) d(2) len inc by (simp add: queue_rep_def queue_shape_def)
  then show ?thesis using s' c(1) by auto
qed

text \<open>The blocks owned by the items.\<close>

definition item_blocks :: "(nat \<times> nat) set \<Rightarrow> nat list \<Rightarrow> (nat \<times> nat) set" where
  "item_blocks L ps = {(p, c) \<in> L. p \<in> set ps}"

lemma same_block: "rep a L \<Longrightarrow> (p, c) \<in> L \<Longrightarrow> (p, d) \<in> L \<Longrightarrow> c = d"
  using live_apart [of a L "(p, c)" "(p, d)"] live_nonnull [of a L p] by (auto simp: apart_def)

lemma clear_loop_frees:
  assumes "rep (qs_mem s) L" "dlist (qs_list s) (queue_head q) ps" "own_blocks L q n ps"
  shows "\<exists>s'. clear_loop release s (queue_head q) (nxt (qs_list s) (queue_head q)) = Some s'
     \<and> rep (qs_mem s') (L - item_blocks L ps) \<and> dlist (qs_list s') (queue_head q) []
     \<and> qs_queue s' = qs_queue s \<and> own_blocks (L - item_blocks L ps) q n []"
  using assms
proof (induction ps arbitrary: s L)
  case Nil
  have "nxt (qs_list s) (queue_head q) = queue_head q" using Nil(2) by (simp add: dlist_def)
  then have "clear_loop release s (queue_head q) (nxt (qs_list s) (queue_head q)) = Some s"
    by (subst clear_loop.simps) simp
  then show ?case using Nil by (simp add: item_blocks_def)
next
  case (Cons p ps)
  note f = drop_first [OF Cons.prems]
  obtain c a where c: "(p, c) \<in> L" "release (qs_mem s) p = Some a" "rep a (L - {(p, c)})"
    "own_blocks (L - {(p, c)}) q n ps" using f(5) by blast
  let ?s = "s\<lparr>qs_list := tuya_list_del (qs_list s) p, qs_mem := a\<rparr>"
  have step: "clear_loop release s (queue_head q) (nxt (qs_list s) (queue_head q))
      = clear_loop release ?s (queue_head q) (nxt (qs_list ?s) (queue_head q))"
    using c(2) f(1-3) by (subst clear_loop.simps) (simp add: Let_def)
  have "L - {(p, c)} - item_blocks (L - {(p, c)}) ps = L - item_blocks L (p # ps)"
    using same_block [OF Cons.prems(1) c(1)] by (auto simp: item_blocks_def)
  then show ?case using Cons.IH [of ?s "L - {(p, c)}"] c(3,4) f(4) step by simp
qed

lemma clear_empties:
  assumes r: "queue_rep s q L ps xs"
  shows "\<exists>s'. tuya_queue_clear release s q = Some (OPRT_OK, s') \<and> queue_rep s' q (L - item_blocks L ps) [] []
     \<and> item_size (qs_queue s' q) = item_size (qs_queue s q) \<and> queue_len (qs_queue s' q) = queue_len (qs_queue s q)"
proof -
  note d = queue_repD [OF r]
  let ?n = "QUEUE_ITEM_SIZE + unat (item_size (qs_queue s q))" let ?s = "QUEUE_LOCK q s"
  have o: "own_blocks L q ?n ps" using d(2) by (simp add: queue_shape_def)
  obtain s' where s': "clear_loop release ?s (queue_head q) (nxt (qs_list ?s) (queue_head q)) = Some s'"
    "rep (qs_mem s') (L - item_blocks L ps)" "dlist (qs_list s') (queue_head q) []" "qs_queue s' = qs_queue ?s"
    "own_blocks (L - item_blocks L ps) q ?n []"
    using clear_loop_frees [of ?s L q ps ?n] d(1,3) o by auto
  then show ?thesis using d(6)
    by (auto simp: tuya_queue_clear_def Let_def queue_rep_def queue_shape_def)
qed

lemma create_cases:
  assumes r: "rep (qs_mem s) L" and lim: "QUEUE_SIZE < lim" and n: "len \<noteq> 0" "isize \<noteq> 0"
  shows "\<exists>ret q s'. tuya_queue_create alloc release lock_rt s len isize True = Some (ret, q, s')
     \<and> (ret = OPRT_OK \<and> lock_rt = OPRT_OK \<and> (\<exists>c. (q, c) \<notin> L \<and> queue_rep s' q (insert (q, c) L) [] [])
          \<and> item_size (qs_queue s' q) = isize \<and> queue_len (qs_queue s' q) = len
        \<or> (ret = OPRT_MALLOC_FAILED \<or> ret = OPRT_COM_ERROR \<and> lock_rt \<noteq> OPRT_OK) \<and> q = 0 \<and> rep (qs_mem s') L)"
proof -
  obtain q a L' where al: "alloc (qs_mem s) QUEUE_SIZE = Some (q, a)" "rep a L'"
    and q: "q = 0 \<and> L' = L \<or> (\<exists>c\<ge>QUEUE_SIZE. (q, c) \<notin> L \<and> L' = insert (q, c) L)"
    using alloc_result [OF r _ lim] by (auto simp: QUEUE_SIZE_def)
  show ?thesis
  proof (cases "q = 0")
    case True
    have "L' = L" using q True live_nonnull [OF al(2)] by auto
    then show ?thesis using al True n by (simp add: tuya_queue_create_def)
  next
    case False
    then obtain c where c: "QUEUE_SIZE \<le> c" "(q, c) \<notin> L" "L' = insert (q, c) L" using q by auto
    show ?thesis
    proof (cases "lock_rt = OPRT_OK")
      case True
      then show ?thesis using al False n c
        by (auto simp: tuya_queue_create_def queue_rep_def queue_shape_def own_blocks_def Let_def)
    next
      case no: False
      obtain a' where "release a q = Some a'" "rep a' L"
        using release_result [of a L' q c] al(2) c by auto
      then show ?thesis using al False n no by (simp add: tuya_queue_create_def)
    qed
  qed
qed

lemma release_frees:
  assumes r: "queue_rep s q L ps xs"
  shows "\<exists>c s'. tuya_queue_release release lock_rt s q = Some (lock_rt, s') \<and> (q, c) \<in> L
     \<and> rep (qs_mem s') (L - item_blocks L ps - {(q, c)})"
proof -
  obtain s' where s': "tuya_queue_clear release s q = Some (OPRT_OK, s')" "queue_rep s' q (L - item_blocks L ps) [] []"
    using clear_empties [OF r] by blast
  obtain c where c: "(q, c) \<in> L - item_blocks L ps"
    using queue_repD(2) [OF s'(2)] by (auto simp: queue_shape_def own_blocks_def)
  obtain a where "release (qs_mem s') q = Some a" "rep a (L - item_blocks L ps - {(q, c)})"
    using release_result [OF queue_repD(1) [OF s'(2)] c] by blast
  then show ?thesis using s'(1) c queue_repD(6) [OF r] by (auto simp: tuya_queue_release_def)
qed

end

section \<open>Walks\<close>

text \<open>What a callback that stops when it answers false has seen.\<close>

fun visit :: "('c \<Rightarrow> bytes \<Rightarrow> bool \<times> 'c) \<Rightarrow> bytes list \<Rightarrow> 'c \<Rightarrow> 'c" where
  "visit cb [] ctx = ctx"
| "visit cb (x # xs) ctx = (case cb ctx x of (go, ctx') \<Rightarrow> if go then visit cb xs ctx' else ctx')"

lemma traverse_visits:
  assumes "seg l a ps h" "h \<notin> set ps" "0 \<notin> set ps"
  shows "traverse_loop cb l d h (nxt l a) ctx = Some (visit cb (map d ps) ctx)"
  using assms
proof (induction ps arbitrary: a ctx)
  case Nil
  then show ?case by (subst traverse_loop.simps) simp
next
  case (Cons p ps)
  then show ?case by (subst traverse_loop.simps) (auto split: prod.splits)
qed

lemma memcpy_chunks:
  assumes "length x = n" "k * n + n \<le> length buf"
  shows "take ((k + 1) * n) (memcpy_at buf (k * n) x n) = take (k * n) buf @ x"
    "drop ((k + 1) * n) (memcpy_at buf (k * n) x n) = drop ((k + 1) * n) buf"
    "length (memcpy_at buf (k * n) x n) = length buf"
  using assms by (simp_all add: memcpy_at_def add.commute)

lemma u32_suc: "(x :: u32) < y \<Longrightarrow> unat (x + 1) = unat x + 1"
proof (subst unat_add_small)
  assume "x < y"
  then have "unat x + 1 < 4294967296" using unat_u32_less [of y] by (simp add: word_less_nat_alt del: unat_u32_less)
  then show "unat x + unat (1 :: u32) < 2 ^ LENGTH(32)" by simp
qed simp

lemma batch_skips:
  assumes "seg l a ps h" "h \<notin> set ps" "0 \<notin> set ps" "unat index + length ps < unat start"
  shows "\<exists>index'. batch_loop l d n h start num (nxt l a) index count buf = Some (index', count, buf) \<and> index' \<noteq> start"
  using assms
proof (induction ps arbitrary: a index)
  case Nil
  then show ?case by (subst batch_loop.simps) auto
next
  case (Cons p ps)
  have lt: "index < start" using Cons.prems(4) by (simp add: word_less_nat_alt)
  note u = u32_suc [OF lt]
  have "batch_loop l d n h start num (nxt l a) index count buf = batch_loop l d n h start num (nxt l p) (index + 1) count buf"
    using Cons.prems lt by (subst batch_loop.simps) auto
  then show ?case using Cons.IH [of p "index + 1"] Cons.prems u by simp
qed

lemma batch_reaches:
  assumes "seg l a (ps @ qs) h" "h \<notin> set (ps @ qs)" "0 \<notin> set (ps @ qs)" "unat index + length ps = unat start"
  shows "\<exists>b. seg l b qs h
    \<and> batch_loop l d n h start num (nxt l a) index count buf = batch_loop l d n h start num (nxt l b) start count buf"
  using assms
proof (induction ps arbitrary: a index)
  case Nil
  then have "index = start" by (simp add: word_eq_unat)
  then show ?case using Nil by auto
next
  case (Cons p ps)
  have lt: "index < start" using Cons.prems(4) by (simp add: word_less_nat_alt)
  note u = u32_suc [OF lt]
  have "batch_loop l d n h start num (nxt l a) index count buf = batch_loop l d n h start num (nxt l p) (index + 1) count buf"
    using Cons.prems lt by (subst batch_loop.simps) auto
  then show ?case using Cons.IH [of p "index + 1"] Cons.prems u by simp
qed

lemma batch_copies:
  assumes "seg l a ps h" "h \<notin> set ps" "0 \<notin> set ps" "\<forall>p\<in>set ps. length (d p) = unat n"
    "count \<le> num" "unat num * unat n \<le> length buf" "unat num * unat n < 2 ^ 32"
  shows "\<exists>count' buf'. batch_loop l d n h start num (nxt l a) start count buf = Some (start, count', buf')
     \<and> unat count' = unat count + min (length ps) (unat num - unat count) \<and> length buf' = length buf
     \<and> take (unat count' * unat n) buf' = take (unat count * unat n) buf @ concat (map d (take (unat num - unat count) ps))
     \<and> drop (unat count' * unat n) buf' = drop (unat count' * unat n) buf"
  using assms
proof (induction ps arbitrary: a count buf)
  case Nil
  then show ?case by (subst batch_loop.simps) auto
next
  case (Cons p ps)
  have p: "p \<noteq> 0" "p \<noteq> h" "nxt l a = p" "seg l p ps h" "length (d p) = unat n" using Cons.prems by auto
  show ?case
  proof (cases "count < num")
    case False
    then have "count = num" using Cons.prems(5) by simp
    then show ?thesis using p by (subst batch_loop.simps) auto
  next
    case True
    note u = u32_suc [OF True]
    have cn: "unat count * unat n + unat n \<le> unat num * unat n"
      using True mult_le_mono1 [of "unat count + 1" "unat num" "unat n"] by (simp add: word_less_nat_alt)
    have pr: "unat (count * n) = unat count * unat n"
      using cn Cons.prems(7) by (subst unat_mult_small) auto
    let ?buf = "memcpy_at buf (unat count * unat n) (d p) (unat n)"
    have room: "unat count * unat n + unat n \<le> length buf" using cn Cons.prems(6) by simp
    note ch = memcpy_chunks [OF p(5) room]
    have step: "batch_loop l d n h start num (nxt l a) start count buf
        = batch_loop l d n h start num (nxt l p) start (count + 1) ?buf"
      using p True pr by (subst batch_loop.simps) auto
    have le: "count + 1 \<le> num" using True u by (simp add: word_le_nat_alt word_less_nat_alt)
    obtain count' buf' where ih: "batch_loop l d n h start num (nxt l p) start (count + 1) ?buf = Some (start, count', buf')"
      "unat count' = unat (count + 1) + min (length ps) (unat num - unat (count + 1))" "length buf' = length ?buf"
      "take (unat count' * unat n) buf' = take (unat (count + 1) * unat n) ?buf @ concat (map d (take (unat num - unat (count + 1)) ps))"
      "drop (unat count' * unat n) buf' = drop (unat count' * unat n) ?buf"
      using Cons.IH [OF p(4) _ _ _ le, of ?buf] Cons.prems ch(3) by auto
    have less: "unat count < unat num" using True by (simp add: word_less_nat_alt)
    then have "unat num - unat count = Suc (unat num - unat (count + 1))" using u by simp
    then have tk: "take (unat num - unat count) (p # ps) = p # take (unat num - unat (count + 1)) ps" by simp
    have ge: "unat count * unat n + unat n \<le> unat count' * unat n"
      using ih(2) u mult_le_mono1 [of "unat count + 1" "unat count'" "unat n"] by simp
    have "drop (unat count' * unat n) ?buf = drop (unat count' * unat n) buf"
      by (rule drop_memcpy_at) (use ge room p(5) in simp_all)
    moreover have "take (unat (count + 1) * unat n) ?buf = take (unat count * unat n) buf @ d p" using ch(1) u by simp
    ultimately show ?thesis using step ih tk ch(3) u less by auto
  qed
qed

section \<open>Sessions\<close>

text \<open>
  The queue as its clients see it: a bounded double-ended queue of byte strings of fixed length.
  \<open>spec_step\<close> says which answers are allowed in which state and what the next state is; running
  out of memory is the one answer the state does not determine.
\<close>

datatype queue_op = Input bytes | Instant bytes | Output bool | Clear

fun spec_step :: "nat \<Rightarrow> nat \<Rightarrow> bytes list \<Rightarrow> queue_op \<Rightarrow> OPERATE_RET \<times> byte_ptr \<Rightarrow> bytes list option" where
  "spec_step cap n xs (Input d) (r, out) =
     (if r = OPRT_OK \<and> length xs < cap then Some (xs @ [take n d])
      else if r = OPRT_EXCEED_UPPER_LIMIT \<and> length xs = cap \<or> r = OPRT_MALLOC_FAILED then Some xs else None)"
| "spec_step cap n xs (Instant d) (r, out) =
     (if r = OPRT_OK \<and> length xs < cap then Some (take n d # xs)
      else if r = OPRT_EXCEED_UPPER_LIMIT \<and> length xs = cap \<or> r = OPRT_MALLOC_FAILED then Some xs else None)"
| "spec_step cap n xs (Output want) (r, out) =
     (case xs of [] \<Rightarrow> if r = OPRT_NOT_FOUND \<and> out = None then Some [] else None
      | x # xs' \<Rightarrow> if r = OPRT_OK \<and> out = (if want then Some x else None) then Some xs' else None)"
| "spec_step cap n xs Clear (r, out) = (if r = OPRT_OK then Some [] else None)"

fun spec_run :: "nat \<Rightarrow> nat \<Rightarrow> bytes list \<Rightarrow> queue_op list \<Rightarrow> (OPERATE_RET \<times> byte_ptr) list \<Rightarrow> bytes list option" where
  "spec_run cap n xs [] [] = Some xs"
| "spec_run cap n xs (op # ops) (r # rs) =
     (case spec_step cap n xs op r of None \<Rightarrow> None | Some xs' \<Rightarrow> spec_run cap n xs' ops rs)"
| "spec_run cap n xs ops rs = None"

text \<open>One call and a sequence of calls on the queue \<open>q\<close>.\<close>

fun queue_step ::
  "'a malloc_fn \<Rightarrow> 'a free_fn \<Rightarrow> 'a queue_sys \<Rightarrow> nat \<Rightarrow> queue_op \<Rightarrow> ((OPERATE_RET \<times> byte_ptr) \<times> 'a queue_sys) option" where
  "queue_step malloc free s q (Input d) =
     map_option (\<lambda>(r, s'). ((r, None), s')) (tuya_queue_input malloc free s q (Some d))"
| "queue_step malloc free s q (Instant d) =
     map_option (\<lambda>(r, s'). ((r, None), s')) (tuya_queue_input_instant malloc free s q (Some d))"
| "queue_step malloc free s q (Output want) =
     map_option (\<lambda>(r, out, s'). ((r, out), s')) (tuya_queue_output free s q want)"
| "queue_step malloc free s q Clear = map_option (\<lambda>(r, s'). ((r, None), s')) (tuya_queue_clear free s q)"

fun queue_run ::
  "'a malloc_fn \<Rightarrow> 'a free_fn \<Rightarrow> 'a queue_sys \<Rightarrow> nat \<Rightarrow> queue_op list \<Rightarrow> ((OPERATE_RET \<times> byte_ptr) list \<times> 'a queue_sys) option" where
  "queue_run malloc free s q [] = Some ([], s)"
| "queue_run malloc free s q (op # ops) =
     Option.bind (queue_step malloc free s q op) (\<lambda>(r, s1).
       Option.bind (queue_run malloc free s1 q ops) (\<lambda>(rs, s2). Some (r # rs, s2)))"

fun op_fits :: "nat \<Rightarrow> queue_op \<Rightarrow> bool" where
  "op_fits n (Input d) = (n \<le> length d)"
| "op_fits n (Instant d) = (n \<le> length d)"
| "op_fits n op = True"

text \<open>
  The mutex: a call adds one lock and the unlock of the same mutex to the events, or none at all, so
  that after any sequence of calls every lock taken has been given back before the next one.
\<close>

lemma clear_loop_locks: "clear_loop free s head p = Some s' \<Longrightarrow> qs_locks s' = qs_locks s"
  by (rule clear_loop.raw_induct [where P = "\<lambda>free s head p s'. qs_locks s' = qs_locks s"])
    (fastforce simp: Let_def split: if_splits bind_splits)+

lemma enqueue_locks:
  "enqueue malloc free s q it policy = Some (r, s') \<Longrightarrow>
     qs_locks s' = qs_locks s \<or> qs_locks s' = qs_locks s @ [Lock q, Unlock q]"
  by (auto simp: enqueue_def Let_def QUEUE_LOCK_def QUEUE_UNLOCK_def set_queue_def split: if_splits bind_splits option.splits)

lemma queue_step_locks:
  assumes "queue_step malloc free s q op = Some (r, s')"
  shows "qs_locks s' = qs_locks s \<or> qs_locks s' = qs_locks s @ [Lock q, Unlock q]"
proof (cases op)
  case Clear
  then show ?thesis using assms clear_loop_locks
    by (fastforce simp: tuya_queue_clear_def Let_def QUEUE_LOCK_def QUEUE_UNLOCK_def set_queue_def split: if_splits bind_splits)
qed (use assms in \<open>auto dest!: enqueue_locks simp: tuya_queue_input_def tuya_queue_input_instant_def tuya_queue_output_def
       Let_def QUEUE_LOCK_def QUEUE_UNLOCK_def set_queue_def split: if_splits bind_splits\<close>)

lemma queue_run_locks:
  "queue_run malloc free s q ops = Some (rs, s') \<Longrightarrow>
     \<exists>k\<le>length ops. qs_locks s' = qs_locks s @ concat (replicate k [Lock q, Unlock q])"
proof (induction ops arbitrary: s rs)
  case (Cons op ops)
  then obtain r s1 rs1 where s1: "queue_step malloc free s q op = Some (r, s1)" "queue_run malloc free s1 q ops = Some (rs1, s')"
    by (auto split: bind_splits)
  obtain k where k: "k \<le> length ops" "qs_locks s' = qs_locks s1 @ concat (replicate k [Lock q, Unlock q])"
    using Cons.IH [OF s1(2)] by blast
  from queue_step_locks [OF s1(1)] show ?case
  proof
    assume "qs_locks s1 = qs_locks s"
    then show ?thesis using k by (intro exI [of _ k]) simp
  next
    assume "qs_locks s1 = qs_locks s @ [Lock q, Unlock q]"
    then show ?thesis using k by (intro exI [of _ "Suc k"]) simp
  qed
qed (auto intro: exI [of _ 0])

context allocator
begin

text \<open>A queue of \<open>cap\<close> items of \<open>n\<close> bytes with contents \<open>xs\<close>, whatever blocks it uses.\<close>

definition queue_holds :: "'s queue_sys \<Rightarrow> nat \<Rightarrow> nat \<Rightarrow> nat \<Rightarrow> bytes list \<Rightarrow> bool" where
  "queue_holds s q cap n xs \<longleftrightarrow> (\<exists>L ps. queue_rep s q L ps xs)
     \<and> unat (queue_len (qs_queue s q)) = cap \<and> unat (item_size (qs_queue s q)) = n"

lemma step_refines:
  assumes "queue_holds s q cap n xs" "op_fits n op" "QUEUE_ITEM_SIZE + n < lim"
  shows "\<exists>r s' xs'. queue_step alloc release s q op = Some (r, s') \<and> spec_step cap n xs op r = Some xs'
     \<and> queue_holds s' q cap n xs'"
proof -
  obtain L ps where r: "queue_rep s q L ps xs" and f: "unat (queue_len (qs_queue s q)) = cap" "unat (item_size (qs_queue s q)) = n"
    using assms(1) by (auto simp: queue_holds_def)
  have enq: "\<exists>ret s' xs'. enqueue alloc release s q (Some d) policy = Some (ret, s') \<and> queue_holds s' q cap n xs'
      \<and> (ret = OPRT_OK \<and> length xs < cap \<and> xs' = (if policy = POLICY_SEND_TO_BACK then xs @ [take n d] else take n d # xs)
        \<or> (ret = OPRT_EXCEED_UPPER_LIMIT \<and> length xs = cap \<or> ret = OPRT_MALLOC_FAILED) \<and> xs' = xs)"
    if "n \<le> length d" "policy \<noteq> POLICY_MAX" for d policy
    using enqueue_cases [OF r, of d policy] that assms(3) f unfolding queue_holds_def by (auto split: if_splits) metis+
  show ?thesis
  proof (cases op)
    case (Input d)
    then show ?thesis using enq [of d POLICY_SEND_TO_BACK] assms(2) by (fastforce simp: tuya_queue_input_def)
  next
    case (Instant d)
    then show ?thesis using enq [of d POLICY_SEND_TO_FRONT] assms(2) by (fastforce simp: tuya_queue_input_instant_def)
  next
    case (Output want)
    show ?thesis
    proof (cases xs)
      case Nil
      then show ?thesis using output_empty [of s q L ps want] r f Output by (auto simp: queue_holds_def)
    next
      case (Cons x xs')
      then obtain p ps' where ps: "ps = p # ps'" using queue_repD(5) [OF r] by (cases ps) auto
      then show ?thesis using output_first [of s q L p ps' x xs' want] r f Output Cons
        by (fastforce simp: queue_holds_def)
    qed
  next
    case Clear
    then show ?thesis using clear_empties [OF r] f by (fastforce simp: queue_holds_def)
  qed
qed

lemma run_refines:
  assumes "queue_holds s q cap n xs" "list_all (op_fits n) ops" "QUEUE_ITEM_SIZE + n < lim"
  shows "\<exists>rs s' xs'. queue_run alloc release s q ops = Some (rs, s') \<and> spec_run cap n xs ops rs = Some xs'
     \<and> queue_holds s' q cap n xs'"
  using assms(1,2)
proof (induction ops arbitrary: s xs)
  case (Cons op ops)
  obtain r s1 xs1 where s1: "queue_step alloc release s q op = Some (r, s1)" "spec_step cap n xs op r = Some xs1"
    "queue_holds s1 q cap n xs1" using step_refines [OF Cons.prems(1) _ assms(3), of op] Cons.prems(2)
    by (metis list.pred_inject(2))
  then show ?case using Cons.IH [OF s1(3)] Cons.prems(2) by fastforce
qed auto

end

section \<open>Properties\<close>

text \<open>A queue of two four-byte places that holds one item, in live blocks of a concrete memory.\<close>

definition demo_queue :: "tkl_mem \<Rightarrow> nat \<Rightarrow> nat \<Rightarrow> tkl_mem queue_sys" where
  "demo_queue t q p = \<lparr>qs_mem = t,
     qs_list = tuya_list_add_tail (INIT_LIST_HEAD \<lparr>nxt = id, prv = id\<rparr> (queue_head q)) p (queue_head q),
     qs_data = (\<lambda>_. [1, 2, 3, 4]), qs_queue = (\<lambda>_. \<lparr>item_size = 4, queue_len = 2, queue_free = 1\<rparr>), qs_locks = []\<rparr>"

lemma demo_queue_rep:
  "\<exists>t q p L. tkl.queue_rep 0 (demo_queue t q p) q L [p] [[1, 2, 3, 4]]
     \<and> tkl.queue_holds 0 (demo_queue t q p) q 2 4 [[1, 2, 3, 4]]"
proof -
  obtain t q c p d e k where b: "tkl_live 0 t {(q, c), (p, d), (e, k)}" "QUEUE_SIZE \<le> c" "QUEUE_ITEM_SIZE + 4 \<le> d" "q \<noteq> p"
    using demo_blocks by (auto simp: QUEUE_SIZE_def QUEUE_ITEM_SIZE_def)
  have "apart (q, c) (p, d)" "0 < d" using tkl.live_apart [OF b(1), of "(q, c)" "(p, d)"] b(4) tkl.live_nonnull [OF b(1)] by auto
  then have "p \<noteq> queue_head q" using b(2) by (auto simp: apart_def queue_head_def QUEUE_SIZE_def)
  then have "dlist (tuya_list_add_tail (INIT_LIST_HEAD \<lparr>nxt = id, prv = id\<rparr> (queue_head q)) p (queue_head q)) (queue_head q) [p]"
    using dlist_add_tail [OF dlist_init, of p "queue_head q"] by simp
  then have "tkl.queue_rep 0 (demo_queue t q p) q {(q, c), (p, d), (e, k)} [p] [[1, 2, 3, 4]]"
    using b unfolding tkl.queue_rep_def by (auto simp: queue_shape_def own_blocks_def demo_queue_def)
  moreover have "tkl.queue_holds 0 (demo_queue t q p) q 2 4 [[1, 2, 3, 4]]"
    unfolding tkl.queue_holds_def using calculation by (auto simp: demo_queue_def)
  ultimately show ?thesis by blast
qed

text \<open>
  C5: Every sequence of inputs at the back or the front, outputs and clears on a queue ends, and its
  answers and the final contents are those of the bounded double-ended queue, up to running out of
  memory, which leaves the contents alone. The mutex calls made are lock and unlock of the queue's
  mutex in turn, at most one pair per operation: every lock taken is given back on every path.
\<close>

theorem queue_session_refines:
  assumes "tkl.queue_holds i s q cap n xs" "list_all (op_fits n) ops" "QUEUE_ITEM_SIZE + n < 2 ^ 32"
  shows "\<exists>rs s' xs'. queue_run (tkl_system_malloc buf) tkl_system_free s q ops = Some (rs, s')
     \<and> spec_run cap n xs ops rs = Some xs' \<and> tkl.queue_holds i s' q cap n xs' \<and> length xs' \<le> cap
     \<and> (\<exists>k\<le>length ops. qs_locks s' = qs_locks s @ concat (replicate k [Lock q, Unlock q]))"
proof -
  obtain rs s' xs' where r: "queue_run (tkl_system_malloc buf) tkl_system_free s q ops = Some (rs, s')"
    "spec_run cap n xs ops rs = Some xs'" "tkl.queue_holds i s' q cap n xs'"
    using tkl.run_refines [OF assms] by blast
  moreover have "length xs' \<le> cap"
    using r(3) unfolding tkl.queue_holds_def tkl.queue_rep_def by (auto simp: queue_shape_def)
  moreover note queue_run_locks [OF r(1)]
  ultimately show ?thesis by blast
qed

theorem queue_session_refines_witness:
  "\<exists>s q rs s' xs'. tkl.queue_holds 0 s q 2 4 [[1, 2, 3, 4]]
     \<and> queue_run (tkl_system_malloc 4096) tkl_system_free s q [Input [5, 6, 7, 8], Output True, Instant [9, 9, 9, 9]] = Some (rs, s')
     \<and> tkl.queue_holds 0 s' q 2 4 xs'"
proof -
  obtain t q p where h: "tkl.queue_holds 0 (demo_queue t q p) q 2 4 [[1, 2, 3, 4]]" using demo_queue_rep by blast
  have f: "list_all (op_fits 4) [Input [5, 6, 7, 8], Output True, Instant [9, 9, 9, 9]]" "QUEUE_ITEM_SIZE + 4 < 2 ^ 32"
    by (simp_all add: QUEUE_ITEM_SIZE_def)
  show ?thesis using queue_session_refines [OF h f, of 4096] h by blast
qed

text \<open>
  \<open>tuya_queue_get_batch\<close> succeeds exactly when \<open>num\<close> items follow position \<open>start\<close>; then the
  caller's buffer starts with those items one after another, and its rest is untouched. The queue is
  not changed.
\<close>

theorem queue_get_batch_copies:
  assumes r: "tkl.queue_rep i s q L ps xs" and num: "num \<noteq> 0"
    and buf: "unat num * unat (item_size (qs_queue s q)) \<le> length buf"
      "unat num * unat (item_size (qs_queue s q)) < 2 ^ 32"
  shows "\<exists>ret buf' s'. tuya_queue_get_batch s q start (Some buf) num = Some (ret, Some buf', s')
     \<and> tkl.queue_rep i s' q L ps xs \<and> length buf' = length buf
     \<and> (unat start + unat num \<le> length xs \<longrightarrow> ret = OPRT_OK
          \<and> buf' = concat (take (unat num) (drop (unat start) xs)) @ drop (unat num * unat (item_size (qs_queue s q))) buf)
     \<and> (\<not> unat start + unat num \<le> length xs \<longrightarrow> ret = OPRT_NOT_FOUND)"
proof -
  note d = tkl.queue_repD [OF r]
  let ?n = "item_size (qs_queue s q)" let ?l = "qs_list s" let ?h = "queue_head q" let ?s = "QUEUE_UNLOCK q (QUEUE_LOCK q s)"
  have seg: "seg ?l ?h ps ?h" "?h \<notin> set ps" "0 \<notin> set ps" using d(3,7) by (auto simp: dlist_def)
  have ln: "\<forall>p\<in>set ps. length (qs_data s p) = unat ?n" using d(2) by (auto simp: queue_shape_def)
  have rep: "tkl.queue_rep i ?s q L ps xs"
    using d(1,2) queue_shape_fields [OF d(2), of ?s] unfolding tkl.queue_rep_def by simp
  have unf: "tuya_queue_get_batch s q start (Some buf) num =
      map_option (\<lambda>(index, count, buf'). (if index \<noteq> start \<or> count \<noteq> num then OPRT_NOT_FOUND else OPRT_OK, Some buf', ?s))
        (batch_loop ?l (qs_data s) ?n ?h start num (nxt ?l ?h) 0 0 buf)"
    using num d(6) by (auto simp: tuya_queue_get_batch_def Let_def map_option_case split: option.splits)
  show ?thesis
  proof (cases "length ps < unat start")
    case True
    then obtain index' where "batch_loop ?l (qs_data s) ?n ?h start num (nxt ?l ?h) 0 0 buf = Some (index', 0, buf)" "index' \<noteq> start"
      using batch_skips [OF seg, of 0 start "qs_data s" ?n num 0 buf] by auto
    then show ?thesis using unf rep True d(5) by auto
  next
    case False
    let ?qs = "drop (unat start) ps"
    obtain b where b: "seg ?l b ?qs ?h" "batch_loop ?l (qs_data s) ?n ?h start num (nxt ?l ?h) 0 0 buf
        = batch_loop ?l (qs_data s) ?n ?h start num (nxt ?l b) start 0 buf"
      using batch_reaches [of ?l ?h "take (unat start) ps" ?qs ?h 0 start "qs_data s" ?n num 0 buf] seg False by auto
    have sub: "?h \<notin> set ?qs" "0 \<notin> set ?qs" "\<forall>p\<in>set ?qs. length (qs_data s p) = unat ?n"
      using seg ln in_set_dropD by fastforce+
    obtain count' buf' where c: "batch_loop ?l (qs_data s) ?n ?h start num (nxt ?l b) start 0 buf = Some (start, count', buf')"
      "unat count' = min (length ?qs) (unat num)" "length buf' = length buf"
      "take (unat count' * unat ?n) buf' = concat (map (qs_data s) (take (unat num) ?qs))"
      "drop (unat count' * unat ?n) buf' = drop (unat count' * unat ?n) buf"
      using batch_copies [OF b(1) sub _ buf, of 0 start] by auto
    have cn: "count' = num \<longleftrightarrow> unat start + unat num \<le> length xs"
      using c(2) d(5) False by (auto simp: word_eq_unat)
    have "buf' = concat (take (unat num) (drop (unat start) xs)) @ drop (unat num * unat ?n) buf" if "count' = num"
      using c(4,5) that append_take_drop_id [of "unat num * unat ?n" buf'] d(4) by (auto simp: take_map drop_map)
    then show ?thesis using unf b(2) c(1,3) cn rep by auto
  qed
qed

theorem queue_get_batch_copies_witness:
  "\<exists>s q L ps ret buf' s'. tkl.queue_rep 0 s q L ps [[1, 2, 3, 4]]
     \<and> tuya_queue_get_batch s q 0 (Some [0, 0, 0, 0, 7]) 1 = Some (ret, Some buf', s') \<and> ret = OPRT_OK \<and> buf' = [1, 2, 3, 4, 7]"
proof -
  obtain t q p L where h: "tkl.queue_rep 0 (demo_queue t q p) q L [p] [[1, 2, 3, 4]]" using demo_queue_rep by blast
  have n: "item_size (qs_queue (demo_queue t q p) q) = 4" by (simp add: demo_queue_def)
  show ?thesis
    using queue_get_batch_copies [OF h, of 1 "[0, 0, 0, 0, 7]" 0] h n by fastforce
qed

text \<open>
  Creating a queue and releasing it again, with any use in between, gives back exactly the
  blocks it took: after release the live blocks are those of before without the queue's and the
  items' blocks. Creation either fails without taking memory or yields an empty queue of the
  requested capacity.
\<close>

theorem queue_create_release:
  assumes "tkl_live i (qs_mem s) L" "len \<noteq> 0" "isize \<noteq> 0"
  shows "\<exists>ret q s'. tuya_queue_create (tkl_system_malloc buf) tkl_system_free lock_rt s len isize True = Some (ret, q, s')
     \<and> (ret = OPRT_OK \<and> tkl.queue_holds i s' q (unat len) (unat isize) []
          \<and> (\<exists>c. (q, c) \<notin> L \<and> tkl.queue_rep i s' q (insert (q, c) L) [] [])
        \<or> (ret = OPRT_MALLOC_FAILED \<or> ret = OPRT_COM_ERROR) \<and> q = 0 \<and> tkl_live i (qs_mem s') L)
     \<and> (\<forall>s2 L2 ps xs. tkl.queue_rep i s2 q L2 ps xs \<longrightarrow>
          (\<exists>c s3. tuya_queue_release tkl_system_free rt s2 q = Some (rt, s3) \<and> (q, c) \<in> L2
             \<and> tkl_live i (qs_mem s3) (L2 - {(p, c) \<in> L2. p \<in> set ps} - {(q, c)})))"
proof -
  have lim: "QUEUE_SIZE < 2 ^ 32" by (simp add: QUEUE_SIZE_def)
  obtain ret q s' where c: "tuya_queue_create (tkl_system_malloc buf) tkl_system_free lock_rt s len isize True = Some (ret, q, s')"
    "ret = OPRT_OK \<and> lock_rt = OPRT_OK \<and> (\<exists>c. (q, c) \<notin> L \<and> tkl.queue_rep i s' q (insert (q, c) L) [] [])
          \<and> item_size (qs_queue s' q) = isize \<and> queue_len (qs_queue s' q) = len
     \<or> (ret = OPRT_MALLOC_FAILED \<or> ret = OPRT_COM_ERROR \<and> lock_rt \<noteq> OPRT_OK) \<and> q = 0 \<and> tkl_live i (qs_mem s') L"
    using tkl.create_cases [OF assms(1) lim assms(2,3), of buf lock_rt] by blast
  have rel: "\<exists>c s3. tuya_queue_release tkl_system_free rt s2 q = Some (rt, s3) \<and> (q, c) \<in> L2
       \<and> tkl_live i (qs_mem s3) (L2 - {(p, c) \<in> L2. p \<in> set ps} - {(q, c)})"
    if "tkl.queue_rep i s2 q L2 ps xs" for s2 L2 ps xs
    using tkl.release_frees [OF that, of rt] unfolding tkl.item_blocks_def by blast
  show ?thesis using c rel unfolding tkl.queue_holds_def by blast
qed

theorem queue_create_release_witness:
  "\<exists>s L ret q s'. tkl_live 0 (qs_mem s) L
     \<and> tuya_queue_create (tkl_system_malloc 4096) tkl_system_free OPRT_OK s 8 16 True = Some (ret, q, s')"
proof -
  obtain t q p L where h: "tkl.queue_rep 0 (demo_queue t q p) q L [p] [[1, 2, 3, 4]]" using demo_queue_rep by blast
  show ?thesis
    using queue_create_release [OF tkl.queue_repD(1) [OF h], of 8 16 4096 OPRT_OK OPRT_OK] tkl.queue_repD(1) [OF h] by auto
qed

end
