(* ===== verification/Crc32_Table.thy ===== *)
theory Crc32_Table
  imports Tuya_Prelude
begin

text \<open>
  The CRC of \<open>include/utilities/src/tuya_hashmap.c\<close>: its table of 256 feedback terms, the
  table-driven checksum over a byte string, and the proof that both are the bit-by-bit division by
  the polynomial \<open>edb88320\<close> that the comments of the file describe.
\<close>

definition crc32_tab :: "u32 list" where
  "crc32_tab =
  [0x00000000, 0x77073096, 0xee0e612c, 0x990951ba, 0x076dc419, 0x706af48f,
   0xe963a535, 0x9e6495a3, 0x0edb8832, 0x79dcb8a4, 0xe0d5e91e, 0x97d2d988,
   0x09b64c2b, 0x7eb17cbd, 0xe7b82d07, 0x90bf1d91, 0x1db71064, 0x6ab020f2,
   0xf3b97148, 0x84be41de, 0x1adad47d, 0x6ddde4eb, 0xf4d4b551, 0x83d385c7,
   0x136c9856, 0x646ba8c0, 0xfd62f97a, 0x8a65c9ec, 0x14015c4f, 0x63066cd9,
   0xfa0f3d63, 0x8d080df5, 0x3b6e20c8, 0x4c69105e, 0xd56041e4, 0xa2677172,
   0x3c03e4d1, 0x4b04d447, 0xd20d85fd, 0xa50ab56b, 0x35b5a8fa, 0x42b2986c,
   0xdbbbc9d6, 0xacbcf940, 0x32d86ce3, 0x45df5c75, 0xdcd60dcf, 0xabd13d59,
   0x26d930ac, 0x51de003a, 0xc8d75180, 0xbfd06116, 0x21b4f4b5, 0x56b3c423,
   0xcfba9599, 0xb8bda50f, 0x2802b89e, 0x5f058808, 0xc60cd9b2, 0xb10be924,
   0x2f6f7c87, 0x58684c11, 0xc1611dab, 0xb6662d3d, 0x76dc4190, 0x01db7106,
   0x98d220bc, 0xefd5102a, 0x71b18589, 0x06b6b51f, 0x9fbfe4a5, 0xe8b8d433,
   0x7807c9a2, 0x0f00f934, 0x9609a88e, 0xe10e9818, 0x7f6a0dbb, 0x086d3d2d,
   0x91646c97, 0xe6635c01, 0x6b6b51f4, 0x1c6c6162, 0x856530d8, 0xf262004e,
   0x6c0695ed, 0x1b01a57b, 0x8208f4c1, 0xf50fc457, 0x65b0d9c6, 0x12b7e950,
   0x8bbeb8ea, 0xfcb9887c, 0x62dd1ddf, 0x15da2d49, 0x8cd37cf3, 0xfbd44c65,
   0x4db26158, 0x3ab551ce, 0xa3bc0074, 0xd4bb30e2, 0x4adfa541, 0x3dd895d7,
   0xa4d1c46d, 0xd3d6f4fb, 0x4369e96a, 0x346ed9fc, 0xad678846, 0xda60b8d0,
   0x44042d73, 0x33031de5, 0xaa0a4c5f, 0xdd0d7cc9, 0x5005713c, 0x270241aa,
   0xbe0b1010, 0xc90c2086, 0x5768b525, 0x206f85b3, 0xb966d409, 0xce61e49f,
   0x5edef90e, 0x29d9c998, 0xb0d09822, 0xc7d7a8b4, 0x59b33d17, 0x2eb40d81,
   0xb7bd5c3b, 0xc0ba6cad, 0xedb88320, 0x9abfb3b6, 0x03b6e20c, 0x74b1d29a,
   0xead54739, 0x9dd277af, 0x04db2615, 0x73dc1683, 0xe3630b12, 0x94643b84,
   0x0d6d6a3e, 0x7a6a5aa8, 0xe40ecf0b, 0x9309ff9d, 0x0a00ae27, 0x7d079eb1,
   0xf00f9344, 0x8708a3d2, 0x1e01f268, 0x6906c2fe, 0xf762575d, 0x806567cb,
   0x196c3671, 0x6e6b06e7, 0xfed41b76, 0x89d32be0, 0x10da7a5a, 0x67dd4acc,
   0xf9b9df6f, 0x8ebeeff9, 0x17b7be43, 0x60b08ed5, 0xd6d6a3e8, 0xa1d1937e,
   0x38d8c2c4, 0x4fdff252, 0xd1bb67f1, 0xa6bc5767, 0x3fb506dd, 0x48b2364b,
   0xd80d2bda, 0xaf0a1b4c, 0x36034af6, 0x41047a60, 0xdf60efc3, 0xa867df55,
   0x316e8eef, 0x4669be79, 0xcb61b38c, 0xbc66831a, 0x256fd2a0, 0x5268e236,
   0xcc0c7795, 0xbb0b4703, 0x220216b9, 0x5505262f, 0xc5ba3bbe, 0xb2bd0b28,
   0x2bb45a92, 0x5cb36a04, 0xc2d7ffa7, 0xb5d0cf31, 0x2cd99e8b, 0x5bdeae1d,
   0x9b64c2b0, 0xec63f226, 0x756aa39c, 0x026d930a, 0x9c0906a9, 0xeb0e363f,
   0x72076785, 0x05005713, 0x95bf4a82, 0xe2b87a14, 0x7bb12bae, 0x0cb61b38,
   0x92d28e9b, 0xe5d5be0d, 0x7cdcefb7, 0x0bdbdf21, 0x86d3d2d4, 0xf1d4e242,
   0x68ddb3f8, 0x1fda836e, 0x81be16cd, 0xf6b9265b, 0x6fb077e1, 0x18b74777,
   0x88085ae6, 0xff0f6a70, 0x66063bca, 0x11010b5c, 0x8f659eff, 0xf862ae69,
   0x616bffd3, 0x166ccf45, 0xa00ae278, 0xd70dd2ee, 0x4e048354, 0x3903b3c2,
   0xa7672661, 0xd06016f7, 0x4969474d, 0x3e6e77db, 0xaed16a4a, 0xd9d65adc,
   0x40df0b66, 0x37d83bf0, 0xa9bcae53, 0xdebb9ec5, 0x47b2cf7f, 0x30b5ffe9,
   0xbdbdf21c, 0xcabac28a, 0x53b39330, 0x24b4a3a6, 0xbad03605, 0xcdd70693,
   0x54de5729, 0x23d967bf, 0xb3667a2e, 0xc4614ab8, 0x5d681b02, 0x2a6f2b94,
   0xb40bbe37, 0xc30c8ea1, 0x5a05df1b, 0x2d02ef8d]"

definition crc_update :: "u32 \<Rightarrow> u8 \<Rightarrow> u32" where
  "crc_update crc32val b =
     crc32_tab ! unat ((crc32val XOR ucast b) AND 0xff) XOR drop_bit 8 crc32val"

definition crc32_hashmap :: "bytes \<Rightarrow> u32" where
  "crc32_hashmap s = foldl crc_update 0 s"

section \<open>The polynomial\<close>

definition crc_step :: "u32 \<Rightarrow> u32" where
  "crc_step c = (if bit c 0 then drop_bit 1 c XOR 0xedb88320 else drop_bit 1 c)"

definition crc_byte :: "u32 \<Rightarrow> u32" where
  "crc_byte c = crc_step (crc_step (crc_step (crc_step (crc_step (crc_step (crc_step (crc_step c)))))))"

definition byte_values :: "u32 list" where
  "byte_values =
  [0, 1, 2, 3, 4, 5, 6, 7, 8, 9, 10, 11, 12, 13, 14, 15, 16, 17, 18, 19,
   20, 21, 22, 23, 24, 25, 26, 27, 28, 29, 30, 31, 32, 33, 34, 35, 36, 37, 38, 39,
   40, 41, 42, 43, 44, 45, 46, 47, 48, 49, 50, 51, 52, 53, 54, 55, 56, 57, 58, 59,
   60, 61, 62, 63, 64, 65, 66, 67, 68, 69, 70, 71, 72, 73, 74, 75, 76, 77, 78, 79,
   80, 81, 82, 83, 84, 85, 86, 87, 88, 89, 90, 91, 92, 93, 94, 95, 96, 97, 98, 99,
   100, 101, 102, 103, 104, 105, 106, 107, 108, 109, 110, 111, 112, 113, 114, 115, 116, 117, 118, 119,
   120, 121, 122, 123, 124, 125, 126, 127, 128, 129, 130, 131, 132, 133, 134, 135, 136, 137, 138, 139,
   140, 141, 142, 143, 144, 145, 146, 147, 148, 149, 150, 151, 152, 153, 154, 155, 156, 157, 158, 159,
   160, 161, 162, 163, 164, 165, 166, 167, 168, 169, 170, 171, 172, 173, 174, 175, 176, 177, 178, 179,
   180, 181, 182, 183, 184, 185, 186, 187, 188, 189, 190, 191, 192, 193, 194, 195, 196, 197, 198, 199,
   200, 201, 202, 203, 204, 205, 206, 207, 208, 209, 210, 211, 212, 213, 214, 215, 216, 217, 218, 219,
   220, 221, 222, 223, 224, 225, 226, 227, 228, 229, 230, 231, 232, 233, 234, 235, 236, 237, 238, 239,
   240, 241, 242, 243, 244, 245, 246, 247, 248, 249, 250, 251, 252, 253, 254, 255]"

lemma crc_rows:
  "crc_byte 0 = 0x00000000" "crc_byte 1 = 0x77073096" "crc_byte 2 = 0xee0e612c" "crc_byte 3 = 0x990951ba"
  "crc_byte 4 = 0x076dc419" "crc_byte 5 = 0x706af48f" "crc_byte 6 = 0xe963a535" "crc_byte 7 = 0x9e6495a3"
  "crc_byte 8 = 0x0edb8832" "crc_byte 9 = 0x79dcb8a4" "crc_byte 10 = 0xe0d5e91e" "crc_byte 11 = 0x97d2d988"
  "crc_byte 12 = 0x09b64c2b" "crc_byte 13 = 0x7eb17cbd" "crc_byte 14 = 0xe7b82d07" "crc_byte 15 = 0x90bf1d91"
  "crc_byte 16 = 0x1db71064" "crc_byte 17 = 0x6ab020f2" "crc_byte 18 = 0xf3b97148" "crc_byte 19 = 0x84be41de"
  "crc_byte 20 = 0x1adad47d" "crc_byte 21 = 0x6ddde4eb" "crc_byte 22 = 0xf4d4b551" "crc_byte 23 = 0x83d385c7"
  "crc_byte 24 = 0x136c9856" "crc_byte 25 = 0x646ba8c0" "crc_byte 26 = 0xfd62f97a" "crc_byte 27 = 0x8a65c9ec"
  "crc_byte 28 = 0x14015c4f" "crc_byte 29 = 0x63066cd9" "crc_byte 30 = 0xfa0f3d63" "crc_byte 31 = 0x8d080df5"
  "crc_byte 32 = 0x3b6e20c8" "crc_byte 33 = 0x4c69105e" "crc_byte 34 = 0xd56041e4" "crc_byte 35 = 0xa2677172"
  "crc_byte 36 = 0x3c03e4d1" "crc_byte 37 = 0x4b04d447" "crc_byte 38 = 0xd20d85fd" "crc_byte 39 = 0xa50ab56b"
  "crc_byte 40 = 0x35b5a8fa" "crc_byte 41 = 0x42b2986c" "crc_byte 42 = 0xdbbbc9d6" "crc_byte 43 = 0xacbcf940"
  "crc_byte 44 = 0x32d86ce3" "crc_byte 45 = 0x45df5c75" "crc_byte 46 = 0xdcd60dcf" "crc_byte 47 = 0xabd13d59"
  "crc_byte 48 = 0x26d930ac" "crc_byte 49 = 0x51de003a" "crc_byte 50 = 0xc8d75180" "crc_byte 51 = 0xbfd06116"
  "crc_byte 52 = 0x21b4f4b5" "crc_byte 53 = 0x56b3c423" "crc_byte 54 = 0xcfba9599" "crc_byte 55 = 0xb8bda50f"
  "crc_byte 56 = 0x2802b89e" "crc_byte 57 = 0x5f058808" "crc_byte 58 = 0xc60cd9b2" "crc_byte 59 = 0xb10be924"
  "crc_byte 60 = 0x2f6f7c87" "crc_byte 61 = 0x58684c11" "crc_byte 62 = 0xc1611dab" "crc_byte 63 = 0xb6662d3d"
  "crc_byte 64 = 0x76dc4190" "crc_byte 65 = 0x01db7106" "crc_byte 66 = 0x98d220bc" "crc_byte 67 = 0xefd5102a"
  "crc_byte 68 = 0x71b18589" "crc_byte 69 = 0x06b6b51f" "crc_byte 70 = 0x9fbfe4a5" "crc_byte 71 = 0xe8b8d433"
  "crc_byte 72 = 0x7807c9a2" "crc_byte 73 = 0x0f00f934" "crc_byte 74 = 0x9609a88e" "crc_byte 75 = 0xe10e9818"
  "crc_byte 76 = 0x7f6a0dbb" "crc_byte 77 = 0x086d3d2d" "crc_byte 78 = 0x91646c97" "crc_byte 79 = 0xe6635c01"
  "crc_byte 80 = 0x6b6b51f4" "crc_byte 81 = 0x1c6c6162" "crc_byte 82 = 0x856530d8" "crc_byte 83 = 0xf262004e"
  "crc_byte 84 = 0x6c0695ed" "crc_byte 85 = 0x1b01a57b" "crc_byte 86 = 0x8208f4c1" "crc_byte 87 = 0xf50fc457"
  "crc_byte 88 = 0x65b0d9c6" "crc_byte 89 = 0x12b7e950" "crc_byte 90 = 0x8bbeb8ea" "crc_byte 91 = 0xfcb9887c"
  "crc_byte 92 = 0x62dd1ddf" "crc_byte 93 = 0x15da2d49" "crc_byte 94 = 0x8cd37cf3" "crc_byte 95 = 0xfbd44c65"
  "crc_byte 96 = 0x4db26158" "crc_byte 97 = 0x3ab551ce" "crc_byte 98 = 0xa3bc0074" "crc_byte 99 = 0xd4bb30e2"
  "crc_byte 100 = 0x4adfa541" "crc_byte 101 = 0x3dd895d7" "crc_byte 102 = 0xa4d1c46d" "crc_byte 103 = 0xd3d6f4fb"
  "crc_byte 104 = 0x4369e96a" "crc_byte 105 = 0x346ed9fc" "crc_byte 106 = 0xad678846" "crc_byte 107 = 0xda60b8d0"
  "crc_byte 108 = 0x44042d73" "crc_byte 109 = 0x33031de5" "crc_byte 110 = 0xaa0a4c5f" "crc_byte 111 = 0xdd0d7cc9"
  "crc_byte 112 = 0x5005713c" "crc_byte 113 = 0x270241aa" "crc_byte 114 = 0xbe0b1010" "crc_byte 115 = 0xc90c2086"
  "crc_byte 116 = 0x5768b525" "crc_byte 117 = 0x206f85b3" "crc_byte 118 = 0xb966d409" "crc_byte 119 = 0xce61e49f"
  "crc_byte 120 = 0x5edef90e" "crc_byte 121 = 0x29d9c998" "crc_byte 122 = 0xb0d09822" "crc_byte 123 = 0xc7d7a8b4"
  "crc_byte 124 = 0x59b33d17" "crc_byte 125 = 0x2eb40d81" "crc_byte 126 = 0xb7bd5c3b" "crc_byte 127 = 0xc0ba6cad"
  "crc_byte 128 = 0xedb88320" "crc_byte 129 = 0x9abfb3b6" "crc_byte 130 = 0x03b6e20c" "crc_byte 131 = 0x74b1d29a"
  "crc_byte 132 = 0xead54739" "crc_byte 133 = 0x9dd277af" "crc_byte 134 = 0x04db2615" "crc_byte 135 = 0x73dc1683"
  "crc_byte 136 = 0xe3630b12" "crc_byte 137 = 0x94643b84" "crc_byte 138 = 0x0d6d6a3e" "crc_byte 139 = 0x7a6a5aa8"
  "crc_byte 140 = 0xe40ecf0b" "crc_byte 141 = 0x9309ff9d" "crc_byte 142 = 0x0a00ae27" "crc_byte 143 = 0x7d079eb1"
  "crc_byte 144 = 0xf00f9344" "crc_byte 145 = 0x8708a3d2" "crc_byte 146 = 0x1e01f268" "crc_byte 147 = 0x6906c2fe"
  "crc_byte 148 = 0xf762575d" "crc_byte 149 = 0x806567cb" "crc_byte 150 = 0x196c3671" "crc_byte 151 = 0x6e6b06e7"
  "crc_byte 152 = 0xfed41b76" "crc_byte 153 = 0x89d32be0" "crc_byte 154 = 0x10da7a5a" "crc_byte 155 = 0x67dd4acc"
  "crc_byte 156 = 0xf9b9df6f" "crc_byte 157 = 0x8ebeeff9" "crc_byte 158 = 0x17b7be43" "crc_byte 159 = 0x60b08ed5"
  "crc_byte 160 = 0xd6d6a3e8" "crc_byte 161 = 0xa1d1937e" "crc_byte 162 = 0x38d8c2c4" "crc_byte 163 = 0x4fdff252"
  "crc_byte 164 = 0xd1bb67f1" "crc_byte 165 = 0xa6bc5767" "crc_byte 166 = 0x3fb506dd" "crc_byte 167 = 0x48b2364b"
  "crc_byte 168 = 0xd80d2bda" "crc_byte 169 = 0xaf0a1b4c" "crc_byte 170 = 0x36034af6" "crc_byte 171 = 0x41047a60"
  "crc_byte 172 = 0xdf60efc3" "crc_byte 173 = 0xa867df55" "crc_byte 174 = 0x316e8eef" "crc_byte 175 = 0x4669be79"
  "crc_byte 176 = 0xcb61b38c" "crc_byte 177 = 0xbc66831a" "crc_byte 178 = 0x256fd2a0" "crc_byte 179 = 0x5268e236"
  "crc_byte 180 = 0xcc0c7795" "crc_byte 181 = 0xbb0b4703" "crc_byte 182 = 0x220216b9" "crc_byte 183 = 0x5505262f"
  "crc_byte 184 = 0xc5ba3bbe" "crc_byte 185 = 0xb2bd0b28" "crc_byte 186 = 0x2bb45a92" "crc_byte 187 = 0x5cb36a04"
  "crc_byte 188 = 0xc2d7ffa7" "crc_byte 189 = 0xb5d0cf31" "crc_byte 190 = 0x2cd99e8b" "crc_byte 191 = 0x5bdeae1d"
  "crc_byte 192 = 0x9b64c2b0" "crc_byte 193 = 0xec63f226" "crc_byte 194 = 0x756aa39c" "crc_byte 195 = 0x026d930a"
  "crc_byte 196 = 0x9c0906a9" "crc_byte 197 = 0xeb0e363f" "crc_byte 198 = 0x72076785" "crc_byte 199 = 0x05005713"
  "crc_byte 200 = 0x95bf4a82" "crc_byte 201 = 0xe2b87a14" "crc_byte 202 = 0x7bb12bae" "crc_byte 203 = 0x0cb61b38"
  "crc_byte 204 = 0x92d28e9b" "crc_byte 205 = 0xe5d5be0d" "crc_byte 206 = 0x7cdcefb7" "crc_byte 207 = 0x0bdbdf21"
  "crc_byte 208 = 0x86d3d2d4" "crc_byte 209 = 0xf1d4e242" "crc_byte 210 = 0x68ddb3f8" "crc_byte 211 = 0x1fda836e"
  "crc_byte 212 = 0x81be16cd" "crc_byte 213 = 0xf6b9265b" "crc_byte 214 = 0x6fb077e1" "crc_byte 215 = 0x18b74777"
  "crc_byte 216 = 0x88085ae6" "crc_byte 217 = 0xff0f6a70" "crc_byte 218 = 0x66063bca" "crc_byte 219 = 0x11010b5c"
  "crc_byte 220 = 0x8f659eff" "crc_byte 221 = 0xf862ae69" "crc_byte 222 = 0x616bffd3" "crc_byte 223 = 0x166ccf45"
  "crc_byte 224 = 0xa00ae278" "crc_byte 225 = 0xd70dd2ee" "crc_byte 226 = 0x4e048354" "crc_byte 227 = 0x3903b3c2"
  "crc_byte 228 = 0xa7672661" "crc_byte 229 = 0xd06016f7" "crc_byte 230 = 0x4969474d" "crc_byte 231 = 0x3e6e77db"
  "crc_byte 232 = 0xaed16a4a" "crc_byte 233 = 0xd9d65adc" "crc_byte 234 = 0x40df0b66" "crc_byte 235 = 0x37d83bf0"
  "crc_byte 236 = 0xa9bcae53" "crc_byte 237 = 0xdebb9ec5" "crc_byte 238 = 0x47b2cf7f" "crc_byte 239 = 0x30b5ffe9"
  "crc_byte 240 = 0xbdbdf21c" "crc_byte 241 = 0xcabac28a" "crc_byte 242 = 0x53b39330" "crc_byte 243 = 0x24b4a3a6"
  "crc_byte 244 = 0xbad03605" "crc_byte 245 = 0xcdd70693" "crc_byte 246 = 0x54de5729" "crc_byte 247 = 0x23d967bf"
  "crc_byte 248 = 0xb3667a2e" "crc_byte 249 = 0xc4614ab8" "crc_byte 250 = 0x5d681b02" "crc_byte 251 = 0x2a6f2b94"
  "crc_byte 252 = 0xb40bbe37" "crc_byte 253 = 0xc30c8ea1" "crc_byte 254 = 0x5a05df1b" "crc_byte 255 = 0x2d02ef8d"
  by (simp_all add: crc_byte_def crc_step_def)

lemma byte_values_eq: "byte_values = map of_nat [0..<256]"
  by (simp add: byte_values_def upt_rec)

lemma crc32_tab_rows: "crc32_tab = map crc_byte byte_values"
  by (simp only: crc32_tab_def byte_values_def list.map crc_rows)

lemma crc32_tab_nth: "i < 256 \<Longrightarrow> crc32_tab ! i = crc_byte (of_nat i)"
  by (simp add: crc32_tab_rows byte_values_eq)

lemma crc_step_xor: "crc_step (x XOR y) = crc_step x XOR crc_step y"
  by (auto simp: crc_step_def bit_xor_iff drop_bit_xor ac_simps)

lemma crc_byte_xor: "crc_byte (x XOR y) = crc_byte x XOR crc_byte y"
  by (simp add: crc_byte_def crc_step_xor)

lemma crc_byte_high:
  assumes "\<And>k. k < 8 \<Longrightarrow> \<not> bit y k"
  shows "crc_byte y = drop_bit 8 y"
proof -
  have s: "crc_step (drop_bit k y) = drop_bit (k + 1) y" if "k < 8" for k
    using assms [OF that] by (simp add: crc_step_def bit_drop_bit_eq)
  show ?thesis
    using s [of 0] s [of 1] s [of 2] s [of 3] s [of 4] s [of 5] s [of 6] s [of 7]
    by (simp add: crc_byte_def numeral_eq_Suc)
qed

lemma mask_parts: "z = (z AND 0xff) XOR (z AND NOT 0xff)" for z :: u32
proof -
  have "0xff = (mask 8 :: u32)" by (simp add: mask_eq_exp_minus_1)
  then show ?thesis by (simp only:) (rule bit_word_eqI, auto simp: bit_simps)
qed

lemma crc_update_byte: "crc_update c b = crc_byte (c XOR ucast b)"
proof -
  let ?z = "c XOR (ucast b :: u32)"
  have m: "(0xff :: u32) = mask 8" by (simp add: mask_eq_exp_minus_1)
  have lt: "unat (?z AND 0xff) < 256"
    unfolding m take_bit_eq_mask [symmetric] unsigned_take_bit_eq
    using take_bit_nat_less_exp [of 8 "unat ?z"] by simp
  have "crc_byte ?z = crc_byte (?z AND 0xff) XOR crc_byte (?z AND NOT 0xff)"
    by (subst mask_parts, rule crc_byte_xor)
  moreover have "crc_byte (?z AND NOT 0xff) = drop_bit 8 (?z AND NOT 0xff)"
    by (rule crc_byte_high) (simp only: m, simp add: bit_simps)
  moreover have "drop_bit 8 (?z AND NOT 0xff) = drop_bit 8 c"
    by (rule bit_word_eqI) (simp only: m, auto simp: bit_simps dest: bit_imp_le_length)
  moreover have "crc32_tab ! unat (?z AND 0xff) = crc_byte (?z AND 0xff)"
    using crc32_tab_nth [OF lt] by simp
  ultimately show ?thesis by (simp add: crc_update_def)
qed

section \<open>Properties\<close>

text \<open>
  C19: The table-driven checksum of the hash map is the bit-by-bit CRC with the reflected polynomial
  \<open>edb88320\<close>, start value 0 and no final inversion, for every byte string; in particular each of the
  256 table entries is the result of eight shift steps on its index.
\<close>

theorem crc32_table_is_polynomial:
  "crc32_hashmap s = foldl (\<lambda>c b. crc_byte (c XOR ucast b)) 0 s
   \<and> length crc32_tab = 256 \<and> (\<forall>i. i < 256 \<longrightarrow> crc32_tab ! i = crc_byte (of_nat i))"
  by (simp add: crc32_hashmap_def crc_update_byte [abs_def] crc32_tab_nth crc32_tab_rows byte_values_eq)

theorem crc32_table_is_polynomial_witness:
  "crc32_tab ! 255 = crc_byte 255 \<and> crc32_hashmap [1] = crc_byte 1"
  using crc32_table_is_polynomial [of "[1]"] by simp

end
