(* ===== verification/Tuya_Hlist.thy ===== *)
theory Tuya_Hlist
  imports Tuya_Prelude
begin

text \<open>
  The hash list of \<open>include/utilities/include/tuya_hlist.h\<close>. A head is one pointer cell, a node a
  \<open>next\<close> cell and a pointer \<open>pprev\<close> to the cell that points to the node. Since \<open>next\<close> and \<open>first\<close>
  are the first members of their structures, a cell has the address of its node or head: \<open>cell\<close> maps
  cell addresses to the pointer stored there (0 is NULL) and \<open>pprev\<close> node addresses to cells.
\<close>

record hlist_store =
  cell :: "nat \<Rightarrow> nat"
  pprev :: "nat \<Rightarrow> nat"

definition set_cell :: "nat \<Rightarrow> nat \<Rightarrow> hlist_store \<Rightarrow> hlist_store" where
  "set_cell a v s = s\<lparr>cell := (cell s)(a := v)\<rparr>"

definition set_pprev :: "nat \<Rightarrow> nat \<Rightarrow> hlist_store \<Rightarrow> hlist_store" where
  "set_pprev a v s = s\<lparr>pprev := (pprev s)(a := v)\<rparr>"

definition INIT_HLIST_HEAD :: "hlist_store \<Rightarrow> nat \<Rightarrow> hlist_store" where
  "INIT_HLIST_HEAD s h = set_cell h 0 s"

definition tuya_init_hlist_node :: "hlist_store \<Rightarrow> nat \<Rightarrow> hlist_store" where
  "tuya_init_hlist_node s h = set_pprev h 0 (set_cell h 0 s)"

definition tuya_hlist_empty :: "hlist_store \<Rightarrow> nat \<Rightarrow> bool" where
  "tuya_hlist_empty s h \<longleftrightarrow> cell s h = 0"

definition tuya_hlist_unhashed :: "hlist_store \<Rightarrow> nat \<Rightarrow> bool" where
  "tuya_hlist_unhashed s h \<longleftrightarrow> pprev s h = 0"

definition hlist_del :: "hlist_store \<Rightarrow> nat \<Rightarrow> hlist_store" where
  "hlist_del s n =
     (let nx = cell s n; pp = pprev s n; s1 = set_cell pp nx s
      in if nx \<noteq> 0 then set_pprev nx pp s1 else s1)"

definition tuya_hlist_del :: "hlist_store \<Rightarrow> nat \<Rightarrow> hlist_store" where
  "tuya_hlist_del s n = hlist_del s n"

definition tuya_hlist_del_init :: "hlist_store \<Rightarrow> nat \<Rightarrow> hlist_store" where
  "tuya_hlist_del_init s n =
     (if \<not> tuya_hlist_unhashed s n then tuya_init_hlist_node (hlist_del s n) n else s)"

definition tuya_hlist_add_head :: "hlist_store \<Rightarrow> nat \<Rightarrow> nat \<Rightarrow> hlist_store" where
  "tuya_hlist_add_head s n h =
     (let first = cell s h;
          s1 = set_cell n first s;
          s2 = (if first \<noteq> 0 then set_pprev first n s1 else s1)
      in set_pprev n h (set_cell h n s2))"

definition tuya_hlist_add_before :: "hlist_store \<Rightarrow> nat \<Rightarrow> nat \<Rightarrow> hlist_store" where
  "tuya_hlist_add_before s n nx =
     (let s1 = set_pprev n (pprev s nx) s;
          s2 = set_cell n nx s1;
          s3 = set_pprev nx n s2
      in set_cell (pprev s3 n) n s3)"

definition tuya_hlist_add_after :: "hlist_store \<Rightarrow> nat \<Rightarrow> nat \<Rightarrow> hlist_store" where
  "tuya_hlist_add_after s n nx =
     (let s1 = set_cell nx (cell s n) s;
          s2 = set_cell n nx s1;
          s3 = set_pprev nx n s2
      in if cell s3 nx \<noteq> 0 then set_pprev (cell s3 nx) nx s3 else s3)"

text \<open>\<open>HLIST_FOR_EACH\<close> from \<open>pos\<close>: the nodes visited when the body does not leave the loop.\<close>

partial_function (option) HLIST_FOR_EACH :: "hlist_store \<Rightarrow> nat \<Rightarrow> nat list option" where
  "HLIST_FOR_EACH s pos =
     (if pos \<noteq> 0 then Option.bind (HLIST_FOR_EACH s (cell s pos)) (\<lambda>ps. Some (pos # ps)) else Some [])"

declare HLIST_FOR_EACH.simps [code]

section \<open>The list behind a cell\<close>

fun hseg :: "hlist_store \<Rightarrow> nat \<Rightarrow> nat list \<Rightarrow> bool" where
  "hseg s c [] = (cell s c = 0)"
| "hseg s c (x # xs) = (cell s c = x \<and> x \<noteq> 0 \<and> pprev s x = c \<and> hseg s x xs)"

definition hlist :: "hlist_store \<Rightarrow> nat \<Rightarrow> nat list \<Rightarrow> bool" where
  "hlist s h xs \<longleftrightarrow> hseg s h xs \<and> distinct (h # xs)"

lemma hstore_simps [simp]:
  "cell (set_cell a v s) = (cell s)(a := v)" "pprev (set_cell a v s) = pprev s"
  "pprev (set_pprev a v s) = (pprev s)(a := v)" "cell (set_pprev a v s) = cell s"
  by (simp_all add: set_cell_def set_pprev_def)

lemma hseg_cong:
  assumes "\<And>x. x \<in> set (c # xs) \<Longrightarrow> cell s' x = cell s x" "\<And>x. x \<in> set xs \<Longrightarrow> pprev s' x = pprev s x"
  shows "hseg s' c xs = hseg s c xs"
  using assms by (induction xs arbitrary: c) auto

lemma hlist_frame:
  assumes "hlist s h xs" "\<And>x. x \<in> set (h # xs) \<Longrightarrow> cell s' x = cell s x" "\<And>x. x \<in> set xs \<Longrightarrow> pprev s' x = pprev s x"
  shows "hlist s' h xs"
  using assms hseg_cong [of h xs s' s] by (simp add: hlist_def)

lemma hlist_empty: "hlist s h xs \<Longrightarrow> tuya_hlist_empty s h \<longleftrightarrow> xs = []"
  by (cases xs) (auto simp: hlist_def tuya_hlist_empty_def)

lemma hlist_add_head:
  assumes "hlist s h xs" "n \<notin> set (h # xs)" "n \<noteq> 0"
  shows "hlist (tuya_hlist_add_head s n h) h (n # xs)"
proof (cases xs)
  case Nil
  then show ?thesis using assms by (simp add: hlist_def tuya_hlist_add_head_def)
next
  case (Cons y ys)
  let ?s = "tuya_hlist_add_head s n h"
  have "hseg ?s y ys = hseg s y ys"
    by (rule hseg_cong) (use assms Cons in \<open>auto simp: tuya_hlist_add_head_def Let_def hlist_def\<close>)
  then show ?thesis using assms Cons by (auto simp: hlist_def tuya_hlist_add_head_def Let_def)
qed

text \<open>Unlinking a node: its predecessor cell takes over its successor.\<close>

lemma hseg_del:
  assumes "hseg s c (xs @ n # ys)" "distinct (c # xs @ n # ys)"
  shows "hseg (hlist_del s n) c (xs @ ys)"
  using assms
proof (induction xs arbitrary: c)
  case Nil
  then show ?case
  proof (cases ys)
    case (Cons y zs)
    have "hseg (hlist_del s n) y zs = hseg s y zs"
      by (rule hseg_cong) (use Nil Cons in \<open>auto simp: hlist_del_def Let_def\<close>)
    then show ?thesis using Nil Cons by (auto simp: hlist_del_def Let_def)
  qed (auto simp: hlist_del_def Let_def)
next
  case (Cons x xs)
  have pp: "\<exists>p. pprev s n = p \<and> p \<in> set (x # xs)"
  proof -
    have "pprev s n \<in> set (a # zs)" if "hseg s a (zs @ n # ys)" for a zs
      using that by (induction zs arbitrary: a) auto
    then show ?thesis using Cons.prems(1) by auto
  qed
  have nx: "cell s n = 0 \<or> cell s n \<in> set ys"
  proof -
    have "cell s n = 0 \<or> cell s n \<in> set ys" if "hseg s a (zs @ n # ys)" for a zs
      using that by (induction zs arbitrary: a) (auto, cases ys, auto)
    then show ?thesis using Cons.prems(1) by auto
  qed
  have "cell (hlist_del s n) c = cell s c" "pprev (hlist_del s n) x = pprev s x"
    using pp nx Cons.prems by (auto simp: hlist_del_def Let_def)
  then show ?case using Cons by auto
qed

lemma hlist_del:
  assumes "hlist s h (xs @ n # ys)"
  shows "hlist (hlist_del s n) h (xs @ ys)"
  using assms hseg_del [of s h xs n ys] by (auto simp: hlist_def)

text \<open>Inserting in front of a node and behind one.\<close>

lemma hseg_add_before:
  assumes "hseg s c (xs @ y # ys)" "distinct (c # xs @ y # ys)" "n \<notin> set (c # xs @ y # ys)" "n \<noteq> 0"
  shows "hseg (tuya_hlist_add_before s n y) c (xs @ n # y # ys)"
  using assms
proof (induction xs arbitrary: c)
  case Nil
  have "hseg (tuya_hlist_add_before s n y) y ys = hseg s y ys"
    by (rule hseg_cong) (use Nil in \<open>auto simp: tuya_hlist_add_before_def Let_def\<close>)
  then show ?case using Nil by (auto simp: tuya_hlist_add_before_def Let_def)
next
  case (Cons x xs)
  have "pprev s y \<in> set (a # zs)" if "hseg s a (zs @ y # ys)" for a zs
    using that by (induction zs arbitrary: a) auto
  then have "pprev s y \<in> set (x # xs)" using Cons.prems(1) by simp
  then have "cell (tuya_hlist_add_before s n y) c = cell s c" "pprev (tuya_hlist_add_before s n y) x = pprev s x"
    using Cons.prems by (auto simp: tuya_hlist_add_before_def Let_def)
  then show ?case using Cons by auto
qed

lemma hseg_add_after:
  assumes "hseg s c (xs @ y # ys)" "distinct (c # xs @ y # ys)" "n \<notin> set (c # xs @ y # ys)" "n \<noteq> 0"
  shows "hseg (tuya_hlist_add_after s y n) c (xs @ y # n # ys)"
  using assms
proof (induction xs arbitrary: c)
  case Nil
  have "cell (tuya_hlist_add_after s y n) c = cell s c" "pprev (tuya_hlist_add_after s y n) y = pprev s y"
    using Nil by (cases ys; auto simp: tuya_hlist_add_after_def Let_def)+
  moreover have "hseg (tuya_hlist_add_after s y n) y (n # ys)"
  proof (cases ys)
    case Nil': Nil
    then show ?thesis using Nil by (auto simp: tuya_hlist_add_after_def Let_def)
  next
    case (Cons z zs)
    have "hseg (tuya_hlist_add_after s y n) z zs = hseg s z zs"
      by (rule hseg_cong) (use Nil Cons in \<open>auto simp: tuya_hlist_add_after_def Let_def\<close>)
    then show ?thesis using Nil Cons by (auto simp: tuya_hlist_add_after_def Let_def)
  qed
  ultimately show ?case using Nil by simp
next
  case (Cons x xs)
  have "cell s y = 0 \<or> cell s y \<in> set ys" if "hseg s a (zs @ y # ys)" for a zs
    using that by (induction zs arbitrary: a) (auto, cases ys, auto)
  then have "cell s y = 0 \<or> cell s y \<in> set ys" using Cons.prems(1) by (metis append_Cons)
  then have "cell (tuya_hlist_add_after s y n) c = cell s c" "pprev (tuya_hlist_add_after s y n) x = pprev s x"
    using Cons.prems by (auto simp: tuya_hlist_add_after_def Let_def)
  then show ?case using Cons by auto
qed

lemma for_each_hseg:
  assumes "hseg s c xs"
  shows "HLIST_FOR_EACH s (cell s c) = Some xs"
  using assms
proof (induction xs arbitrary: c)
  case Nil
  then show ?case by (subst HLIST_FOR_EACH.simps) simp
next
  case (Cons x xs)
  then show ?case by (subst HLIST_FOR_EACH.simps) auto
qed

lemma hlist_pprev_nonnull:
  assumes "hlist s h (ys @ y # zs)" "h \<noteq> 0"
  shows "pprev s y \<noteq> 0"
proof -
  have "pprev s y \<noteq> 0" if "hseg s c (ys @ y # zs)" "c \<noteq> 0" for c
    using that by (induction ys arbitrary: c) auto
  from this [of h] show ?thesis using assms by (simp add: hlist_def)
qed

text \<open>Deletion with re-initialisation: a linked node leaves the list and is unhashed, an unhashed one stays as it is.\<close>

lemma hlist_del_init:
  assumes "hlist s h (ys @ y # zs)" "h \<noteq> 0"
  shows "hlist (tuya_hlist_del_init s y) h (ys @ zs)" "tuya_hlist_unhashed (tuya_hlist_del_init s y) y"
    "cell (tuya_hlist_del_init s y) y = 0"
proof -
  have i: "tuya_hlist_del_init s y = tuya_init_hlist_node (hlist_del s y) y"
    using hlist_pprev_nonnull [OF assms] by (simp add: tuya_hlist_del_init_def tuya_hlist_unhashed_def)
  have n: "y \<notin> set (h # ys @ zs)" using assms(1) by (auto simp: hlist_def)
  show "hlist (tuya_hlist_del_init s y) h (ys @ zs)" unfolding i
    by (rule hlist_frame [OF hlist_del [OF assms(1)]]) (use n in \<open>auto simp: tuya_init_hlist_node_def\<close>)
  show "tuya_hlist_unhashed (tuya_hlist_del_init s y) y" "cell (tuya_hlist_del_init s y) y = 0"
    unfolding i by (simp_all add: tuya_hlist_unhashed_def tuya_init_hlist_node_def)
qed

section \<open>Properties\<close>

text \<open>
  C17: The hash list operations implement the operations on the sequence of nodes behind a head:
  insertion at the front, in front of and behind a node, removal of any node, the emptiness test
  and the traversal. \<open>tuya_hlist_add_after(n, next)\<close> inserts its second argument behind its first.
  \<open>tuya_hlist_del_init\<close> removes a node of a list whose head is not at address 0 and leaves it unhashed with
  an empty link, and of an unhashed node it changes nothing; an initialised head is the empty list.
\<close>

theorem hlist_ops_refine:
  assumes "hlist s h xs" "n \<noteq> 0" "n \<notin> set (h # xs)"
  shows "(tuya_hlist_empty s h \<longleftrightarrow> xs = []) \<and> HLIST_FOR_EACH s (cell s h) = Some xs
    \<and> hlist (tuya_hlist_add_head s n h) h (n # xs)
    \<and> (\<forall>ys y zs. xs = ys @ y # zs \<longrightarrow> hlist (tuya_hlist_add_before s n y) h (ys @ n # y # zs)
         \<and> hlist (tuya_hlist_add_after s y n) h (ys @ y # n # zs) \<and> hlist (tuya_hlist_del s y) h (ys @ zs)
         \<and> (h \<noteq> 0 \<longrightarrow> hlist (tuya_hlist_del_init s y) h (ys @ zs) \<and> tuya_hlist_unhashed (tuya_hlist_del_init s y) y
              \<and> cell (tuya_hlist_del_init s y) y = 0))
    \<and> (tuya_hlist_unhashed s n \<longrightarrow> tuya_hlist_del_init s n = s)
    \<and> hlist (INIT_HLIST_HEAD s h) h []"
proof (intro conjI allI impI)
  show "tuya_hlist_empty s h \<longleftrightarrow> xs = []" by (rule hlist_empty [OF assms(1)])
  show "HLIST_FOR_EACH s (cell s h) = Some xs" using assms(1) by (intro for_each_hseg) (simp add: hlist_def)
  show "hlist (tuya_hlist_add_head s n h) h (n # xs)" by (rule hlist_add_head [OF assms(1,3,2)])
  fix ys y zs assume xs: "xs = ys @ y # zs"
  show "hlist (tuya_hlist_add_before s n y) h (ys @ n # y # zs)"
    using assms xs hseg_add_before [of s h ys y zs n] by (auto simp: hlist_def)
  show "hlist (tuya_hlist_add_after s y n) h (ys @ y # n # zs)"
    using assms xs hseg_add_after [of s h ys y zs n] by (auto simp: hlist_def)
  show "hlist (tuya_hlist_del s y) h (ys @ zs)" using assms(1) xs hlist_del by (simp add: tuya_hlist_del_def)
  assume h: "h \<noteq> 0"
  show "hlist (tuya_hlist_del_init s y) h (ys @ zs)" "tuya_hlist_unhashed (tuya_hlist_del_init s y) y"
    "cell (tuya_hlist_del_init s y) y = 0" using hlist_del_init [OF _ h] assms(1) xs by simp_all
next
  show "tuya_hlist_del_init s n = s" if "tuya_hlist_unhashed s n" using that by (simp add: tuya_hlist_del_init_def)
  show "hlist (INIT_HLIST_HEAD s h) h []" by (simp add: hlist_def INIT_HLIST_HEAD_def)
qed

definition demo_hlist :: hlist_store where
  "demo_hlist = tuya_hlist_add_head (tuya_hlist_add_head \<lparr>cell = (\<lambda>_. 0), pprev = (\<lambda>_. 0)\<rparr> 3 1) 2 1"

theorem hlist_ops_refine_witness:
  "hlist demo_hlist 1 [2, 3] \<and> hlist (tuya_hlist_add_after demo_hlist 2 4) 1 [2, 4, 3]
   \<and> hlist (tuya_hlist_del demo_hlist 2) 1 [3]
   \<and> hlist (tuya_hlist_del_init demo_hlist 2) 1 [3] \<and> tuya_hlist_unhashed (tuya_hlist_del_init demo_hlist 2) 2"
proof -
  have h: "hlist demo_hlist 1 [2, 3]" by (simp add: demo_hlist_def hlist_def tuya_hlist_add_head_def Let_def)
  have "\<forall>ys y zs. [2, 3] = ys @ y # zs \<longrightarrow> hlist (tuya_hlist_add_before demo_hlist 4 y) 1 (ys @ 4 # y # zs)
         \<and> hlist (tuya_hlist_add_after demo_hlist y 4) 1 (ys @ y # 4 # zs) \<and> hlist (tuya_hlist_del demo_hlist y) 1 (ys @ zs)
         \<and> hlist (tuya_hlist_del_init demo_hlist y) 1 (ys @ zs) \<and> tuya_hlist_unhashed (tuya_hlist_del_init demo_hlist y) y"
    using hlist_ops_refine [OF h, of 4] by simp
  from this [rule_format, of "[]" 2 "[3]"] show ?thesis using h by simp
qed

end
