(* ===== verification/Tuya_Hashmap.thy ===== *)
theory Tuya_Hashmap
  imports Crc32_Table Tuya_Hlist Tkl_Memory
begin

text \<open>
  The hash map of \<open>include/utilities/src/tuya_hashmap.c\<close>: a table of hash lists whose elements
  carry a key string and a data pointer. Structures are kept as one map per field, indexed by
  address; a key is the string its pointer refers to (bytes without the terminating NUL), data are
  addresses with 0 for NULL. Blocks come from the memory manager, whose operations are arguments
  (\<open>tkl_system_malloc\<close> and \<open>tkl_system_free\<close> in the program).
\<close>

definition MAP_MISSING :: int where "MAP_MISSING = -2"
definition MAP_OMEM :: int where "MAP_OMEM = -1"
definition MAP_OK :: int where "MAP_OK = 0"

record HASHMAP_T =
  hm_size :: int
  hm_table_size :: u32
  hm_list :: nat

record 'a hm_sys =
  hs_alloc :: 'a
  hs_cells :: hlist_store
  hs_key :: "nat \<Rightarrow> bytes"
  hs_data :: "nat \<Rightarrow> nat"
  hs_map :: "nat \<Rightarrow> HASHMAP_T"

text \<open>Structure sizes, and the addresses of the members \<open>node\<close> and \<open>data\<close> of an element.\<close>

definition MAP_SIZE :: nat where "MAP_SIZE = 16"
definition ELEMENT_SIZE :: nat where "ELEMENT_SIZE = 32"
definition node_of :: "nat \<Rightarrow> nat" where "node_of e = e + 16"
definition element_of :: "nat \<Rightarrow> nat" where "element_of pos = pos - 16"
definition data_ptr :: "nat \<Rightarrow> nat" where "data_ptr e = e + 8"
definition data_element :: "nat \<Rightarrow> nat" where "data_element iter = iter - 8"
definition bucket :: "HASHMAP_T \<Rightarrow> nat \<Rightarrow> nat" where "bucket h i = hm_list h + 8 * i"

definition hash_mix :: "u32 \<Rightarrow> u32" where
  "hash_mix k0 =
     (let k1 = k0 + push_bit 12 k0; k2 = k1 XOR drop_bit 22 k1; k3 = k2 + push_bit 4 k2;
          k4 = k3 XOR drop_bit 9 k3; k5 = k4 + push_bit 10 k4; k6 = k5 XOR drop_bit 2 k5;
          k7 = k6 + push_bit 7 k6; k8 = k7 XOR drop_bit 12 k7
      in drop_bit 3 k8 * 2654435761)"

definition hashmap_hash_int :: "HASHMAP_T \<Rightarrow> bytes \<Rightarrow> u32" where
  "hashmap_hash_int m keystring = hash_mix (crc32_hashmap keystring) mod hm_table_size m"

text \<open>\<open>strlen(a) == strlen(b) && strcmp(a, b) == 0\<close>.\<close>

definition same_key :: "bytes \<Rightarrow> bytes \<Rightarrow> bool" where
  "same_key a b \<longleftrightarrow> length a = length b \<and> a = b"

text \<open>The search along a chain from the node \<open>pos\<close>; 0 when no element has the key.\<close>

partial_function (option) find_from :: "'a hm_sys \<Rightarrow> bytes \<Rightarrow> nat \<Rightarrow> nat option" where
  "find_from s key pos =
     (if pos \<noteq> 0
      then if same_key key (hs_key s (element_of pos)) then Some (element_of pos)
           else find_from s key (cell (hs_cells s) pos)
      else Some 0)"

definition hash_find_next_element :: "'a hm_sys \<Rightarrow> nat \<Rightarrow> nat option" where
  "hash_find_next_element s cur = find_from s (hs_key s cur) (cell (hs_cells s) (node_of cur))"

definition hash_find :: "'a hm_sys \<Rightarrow> nat \<Rightarrow> bytes \<Rightarrow> nat option" where
  "hash_find s m key =
     (let lst = bucket (hs_map s m) (unat (hashmap_hash_int (hs_map s m) key))
      in if tuya_hlist_empty (hs_cells s) lst then Some 0 else find_from s key (cell (hs_cells s) lst))"

definition set_map :: "nat \<Rightarrow> HASHMAP_T \<Rightarrow> 'a hm_sys \<Rightarrow> 'a hm_sys" where
  "set_map m v s = s\<lparr>hs_map := (hs_map s)(m := v)\<rparr>"

definition tuya_hashmap_free :: "('a \<Rightarrow> nat \<Rightarrow> 'a option) \<Rightarrow> 'a hm_sys \<Rightarrow> nat \<Rightarrow> 'a hm_sys option" where
  "tuya_hashmap_free free s m =
     Option.bind (if hm_list (hs_map s m) \<noteq> 0 then free (hs_alloc s) (hm_list (hs_map s m)) else Some (hs_alloc s))
       (\<lambda>a. Option.bind (free a m) (\<lambda>a'. Some (s\<lparr>hs_alloc := a'\<rparr>)))"

definition tuya_hashmap_new ::
  "('a \<Rightarrow> nat \<Rightarrow> (nat \<times> 'a) option) \<Rightarrow> ('a \<Rightarrow> nat \<Rightarrow> 'a option) \<Rightarrow> 'a hm_sys \<Rightarrow> u32 \<Rightarrow> (nat \<times> 'a hm_sys) option" where
  "tuya_hashmap_new malloc free s table_size =
     (if table_size = 0 then Some (0, s)
      else Option.bind (malloc (hs_alloc s) MAP_SIZE) (\<lambda>(m, a).
        let s1 = s\<lparr>hs_alloc := a\<rparr>
        in if m = 0 then Some (0, s1)
        else let s2 = set_map m \<lparr>hm_size = 0, hm_table_size = 0, hm_list = 0\<rparr> s1
        in Option.bind (malloc (hs_alloc s2) (unat table_size * 8)) (\<lambda>(l, a2).
             let s3 = set_map m ((hs_map s2 m)\<lparr>hm_list := l\<rparr>) (s2\<lparr>hs_alloc := a2\<rparr>)
             in if l = 0 then Option.bind (tuya_hashmap_free free s3 m) (\<lambda>s4. Some (0, s4))
             else let c = hs_cells s3;
                      c' = c\<lparr>cell := (\<lambda>x. if \<exists>i<unat table_size. x = l + 8 * i then 0 else cell c x)\<rparr>;
                      s4 = set_map m ((hs_map s3 m)\<lparr>hm_table_size := table_size\<rparr>) (s3\<lparr>hs_cells := c'\<rparr>)
                  in Some (m, s4))))"

definition tuya_hashmap_put ::
  "('a \<Rightarrow> nat \<Rightarrow> (nat \<times> 'a) option) \<Rightarrow> 'a hm_sys \<Rightarrow> nat \<Rightarrow> bytes \<Rightarrow> nat \<Rightarrow> (int \<times> 'a hm_sys) option" where
  "tuya_hashmap_put malloc s m key data =
     Option.bind (malloc (hs_alloc s) ELEMENT_SIZE) (\<lambda>(element, a).
       let s1 = s\<lparr>hs_alloc := a\<rparr>
       in if element = 0 then Some (MAP_OMEM, s1)
       else let s2 = s1\<lparr>hs_cells := tuya_init_hlist_node (hs_cells s1) (node_of element)\<rparr>;
                s3 = s2\<lparr>hs_key := (hs_key s2)(element := key), hs_data := (hs_data s2)(element := data)\<rparr>;
                h = hs_map s3 m;
                cur = unat (hashmap_hash_int h key);
                s4 = s3\<lparr>hs_cells := tuya_hlist_add_head (hs_cells s3) (node_of element) (bucket h cur)\<rparr>
            in Some (MAP_OK, set_map m (h\<lparr>hm_size := hm_size h + 1\<rparr>) s4))"

text \<open>The second result is the pointer stored through \<open>arg\<close>.\<close>

definition tuya_hashmap_get :: "'a hm_sys \<Rightarrow> nat \<Rightarrow> bytes \<Rightarrow> (int \<times> nat) option" where
  "tuya_hashmap_get s m key =
     Option.bind (hash_find s m key) (\<lambda>element.
       if element = 0 then Some (MAP_MISSING, 0) else Some (MAP_OK, hs_data s element))"

text \<open>The iterator is the address of the current element's \<open>data\<close> member, 0 to start.\<close>

definition tuya_hashmap_data_traversal :: "'a hm_sys \<Rightarrow> nat \<Rightarrow> bytes \<Rightarrow> nat \<Rightarrow> (int \<times> nat) option" where
  "tuya_hashmap_data_traversal s m key iter =
     Option.bind (if iter = 0 then hash_find s m key else hash_find_next_element s (data_element iter)) (\<lambda>element.
       if element = 0 then Some (MAP_MISSING, 0) else Some (MAP_OK, data_ptr element))"

text \<open>
  The search loop of \<open>tuya_hashmap_remove\<close>; its result is the value of \<open>tmp_element\<close> after the
  loop, which is the last element visited when the loop runs to the end.
\<close>

partial_function (option) remove_search :: "'a hm_sys \<Rightarrow> bytes \<Rightarrow> nat \<Rightarrow> nat \<Rightarrow> nat \<Rightarrow> nat option" where
  "remove_search s key data pos tmp_element =
     (if pos \<noteq> 0
      then let tmp = element_of pos
           in if same_key key (hs_key s tmp) \<and> (data = 0 \<or> hs_data s tmp = data) then Some tmp
              else remove_search s key data (cell (hs_cells s) pos) tmp
      else Some tmp_element)"

definition tuya_hashmap_remove ::
  "('a \<Rightarrow> nat \<Rightarrow> 'a option) \<Rightarrow> 'a hm_sys \<Rightarrow> nat \<Rightarrow> bytes \<Rightarrow> nat \<Rightarrow> (int \<times> 'a hm_sys) option" where
  "tuya_hashmap_remove free s m key data =
     (let h = hs_map s m; lst = bucket h (unat (hashmap_hash_int h key))
      in if tuya_hlist_empty (hs_cells s) lst then Some (MAP_MISSING, s)
      else Option.bind (remove_search s key data (cell (hs_cells s) lst) 0) (\<lambda>tmp_element.
        if tmp_element = 0 then Some (MAP_MISSING, s)
        else let s1 = s\<lparr>hs_cells := hlist_del (hs_cells s) (node_of tmp_element)\<rparr>
             in Option.bind (free (hs_alloc s1) tmp_element) (\<lambda>a.
                  let s2 = s1\<lparr>hs_alloc := a\<rparr>; h2 = hs_map s2 m
                  in Some (MAP_OK, set_map m (h2\<lparr>hm_size := hm_size h2 - 1\<rparr>) s2))))"

definition tuya_hashmap_length :: "'a hm_sys \<Rightarrow> nat \<Rightarrow> int" where
  "tuya_hashmap_length s m = (if m \<noteq> 0 then hm_size (hs_map s m) else 0)"

declare find_from.simps [code] remove_search.simps [code]

section \<open>The map behind a handle\<close>

lemma set_map_simps [simp]:
  "hs_alloc (set_map m v s) = hs_alloc s" "hs_cells (set_map m v s) = hs_cells s" "hs_key (set_map m v s) = hs_key s"
  "hs_data (set_map m v s) = hs_data s" "hs_map (set_map m v s) = (hs_map s)(m := v)"
  by (simp_all add: set_map_def)

definition hash_of :: "'a hm_sys \<Rightarrow> nat \<Rightarrow> bytes \<Rightarrow> nat" where
  "hash_of s m key = unat (hashmap_hash_int (hs_map s m) key)"

text \<open>
  Map \<open>m\<close> holds the elements \<open>bks ! i\<close> in bucket \<open>i\<close>, most recent first.
\<close>

definition map_shape :: "'a hm_sys \<Rightarrow> nat \<Rightarrow> (nat \<times> nat) set \<Rightarrow> nat list list \<Rightarrow> bool" where
  "map_shape s m L bks \<longleftrightarrow>
     (\<exists>c. (m, c) \<in> L) \<and> (\<exists>c\<ge>8 * length bks. (hm_list (hs_map s m), c) \<in> L)
     \<and> hm_list (hs_map s m) \<noteq> m
     \<and> 0 < unat (hm_table_size (hs_map s m)) \<and> length bks = unat (hm_table_size (hs_map s m))
     \<and> (\<forall>i<length bks. hlist (hs_cells s) (bucket (hs_map s m) i) (map node_of (bks ! i)))
     \<and> (\<forall>i<length bks. \<forall>e\<in>set (bks ! i). hash_of s m (hs_key s e) = i)
     \<and> (\<forall>e\<in>set (concat bks). e \<noteq> m \<and> e \<noteq> hm_list (hs_map s m) \<and> (\<exists>c\<ge>ELEMENT_SIZE. (e, c) \<in> L))
     \<and> hm_size (hs_map s m) = int (length (concat bks))"

text \<open>The values of a key, most recent first.\<close>

definition entries :: "'a hm_sys \<Rightarrow> nat \<Rightarrow> nat list list \<Rightarrow> bytes \<Rightarrow> nat list" where
  "entries s m bks key = map (hs_data s) (filter (\<lambda>e. hs_key s e = key) (bks ! hash_of s m key))"

lemma hash_of_less: "map_shape s m L bks \<Longrightarrow> hash_of s m key < length bks"
  by (simp add: map_shape_def hash_of_def hashmap_hash_int_def unat_mod)

lemma map_shape_alloc [simp]: "map_shape (s\<lparr>hs_alloc := a\<rparr>) m L bks \<longleftrightarrow> map_shape s m L bks"
  by (simp add: map_shape_def hash_of_def)

lemma same_key_eq [simp]: "same_key a b \<longleftrightarrow> a = b"
  by (auto simp: same_key_def)

lemma element_node [simp]: "element_of (node_of e) = e" "node_of e \<noteq> 0"
  by (simp_all add: element_of_def node_of_def)

lemma find_from_first:
  assumes "hseg (hs_cells s) c (map node_of es)" "0 \<notin> set es"
  shows "find_from s key (cell (hs_cells s) c) = Some (case filter (\<lambda>e. hs_key s e = key) es of [] \<Rightarrow> 0 | e # _ \<Rightarrow> e)"
  using assms
proof (induction es arbitrary: c)
  case Nil
  then show ?case by (subst find_from.simps) simp
next
  case (Cons e es)
  then show ?case by (subst find_from.simps) auto
qed

lemma remove_search_finds:
  assumes "hseg (hs_cells s) c (map node_of es)"
  shows "remove_search s key data (cell (hs_cells s) c) t =
    Some (case filter (\<lambda>e. hs_key s e = key \<and> (data = 0 \<or> hs_data s e = data)) es of
            [] \<Rightarrow> last (t # es) | e # _ \<Rightarrow> e)"
  using assms
proof (induction es arbitrary: c t)
  case Nil
  then show ?case by (subst remove_search.simps) simp
next
  case (Cons e es)
  then show ?case by (subst remove_search.simps) (auto simp: Let_def split: list.splits)
qed

lemma hlist_add_head_local:
  assumes "hlist c h xs"
  shows "x \<notin> {n, h} \<Longrightarrow> cell (tuya_hlist_add_head c n h) x = cell c x"
    "x \<notin> set (n # xs) \<Longrightarrow> pprev (tuya_hlist_add_head c n h) x = pprev c x"
  using assms by (cases xs; auto simp: tuya_hlist_add_head_def Let_def hlist_def)+

lemma hlist_del_local:
  assumes "hlist c h (ys @ n # zs)"
  shows "x \<notin> set (h # ys) \<Longrightarrow> cell (hlist_del c n) x = cell c x"
    "x \<notin> set zs \<Longrightarrow> pprev (hlist_del c n) x = pprev c x"
proof -
  have "pprev c n \<in> set (a # ys)" if "hseg c a (ys @ n # zs)" for a
    using that by (induction ys arbitrary: a) auto
  moreover have "cell c n = 0 \<or> cell c n \<in> set zs" if "hseg c a (ys @ n # zs)" for a
    using that by (induction ys arbitrary: a) (auto, cases zs, auto)
  ultimately have "pprev c n \<in> set (h # ys)" "cell c n = 0 \<or> cell c n \<in> set zs"
    using assms unfolding hlist_def by blast+
  then show "x \<notin> set (h # ys) \<Longrightarrow> cell (hlist_del c n) x = cell c x"
    "x \<notin> set zs \<Longrightarrow> pprev (hlist_del c n) x = pprev c x"
    by (auto simp: hlist_del_def Let_def)
qed

lemma inj_node: "inj_on node_of A"
  by (auto simp: inj_on_def node_of_def)

lemma node_eq [simp]: "node_of a = node_of b \<longleftrightarrow> a = b"
  by (simp add: node_of_def)

lemma node_mem [simp]: "node_of e \<in> node_of ` A \<longleftrightarrow> e \<in> A"
  by (auto simp: node_of_def)

lemma concat_update_Cons:
  assumes "i < length bks"
  shows "set (concat (bks[i := e # bks ! i])) = insert e (set (concat bks))"
    "length (concat (bks[i := e # bks ! i])) = Suc (length (concat bks))"
proof -
  have u: "bks[i := e # bks ! i] = take i bks @ (e # bks ! i) # drop (Suc i) bks"
    using assms by (rule upd_conv_take_nth_drop)
  have b: "bks = take i bks @ (bks ! i) # drop (Suc i) bks" using assms by (rule id_take_nth_drop)
  have "concat (bks[i := e # bks ! i]) = concat (take i bks) @ e # bks ! i @ concat (drop (Suc i) bks)"
    unfolding u by simp
  moreover have "concat bks = concat (take i bks) @ bks ! i @ concat (drop (Suc i) bks)"
    by (subst b) simp
  ultimately show "set (concat (bks[i := e # bks ! i])) = insert e (set (concat bks))"
    "length (concat (bks[i := e # bks ! i])) = Suc (length (concat bks))" by auto
qed

lemma entries_add:
  assumes hash: "\<forall>k. hash_of s' m k = hash_of s m k" and e: "e \<notin> set (bks ! hash_of s m k)"
    and key: "hs_key s' = (hs_key s)(e := key)" and data: "hs_data s' = (hs_data s)(e := v)"
    and k: "hash_of s m k < length bks"
  shows "entries s' m (bks[hash_of s m key := e # bks ! hash_of s m key]) k =
    (if k = key then v # entries s m bks key else entries s m bks k)"
proof -
  have f: "filter (\<lambda>x. hs_key s' x = k) (bks ! hash_of s m k) = filter (\<lambda>x. hs_key s x = k) (bks ! hash_of s m k)"
    using e key by (intro filter_cong) auto
  have d: "map (hs_data s') (filter (\<lambda>x. hs_key s x = k) (bks ! hash_of s m k))
      = map (hs_data s) (filter (\<lambda>x. hs_key s x = k) (bks ! hash_of s m k))"
    using e data by (intro map_cong) auto
  consider "k = key" | "k \<noteq> key" "hash_of s m k = hash_of s m key" | "k \<noteq> key" "hash_of s m k \<noteq> hash_of s m key" by blast
  then show ?thesis
  proof cases
    case 1
    then show ?thesis using f d k hash key data by (simp add: entries_def)
  next
    case 2
    then have "hs_key s' e \<noteq> k" using key by simp
    then show ?thesis using f d k hash 2 by (simp add: entries_def)
  next
    case 3
    then show ?thesis using f d hash by (simp add: entries_def)
  qed
qed

lemma bucket_inj: "bucket h i = bucket h j \<longleftrightarrow> i = j"
  by (simp add: bucket_def)

context allocator
begin

definition map_rep :: "'s hm_sys \<Rightarrow> nat \<Rightarrow> (nat \<times> nat) set \<Rightarrow> nat list list \<Rightarrow> bool" where
  "map_rep s m L bks \<longleftrightarrow> rep (hs_alloc s) L \<and> map_shape s m L bks"

lemma map_repD:
  assumes "map_rep s m L bks"
  shows "rep (hs_alloc s) L" "map_shape s m L bks" "0 \<notin> set (concat bks)"
    "i < length bks \<Longrightarrow> hlist (hs_cells s) (bucket (hs_map s m) i) (map node_of (bks ! i))"
    "i < length bks \<Longrightarrow> e \<in> set (bks ! i) \<Longrightarrow> hash_of s m (hs_key s e) = i \<and> e \<in> set (concat bks)"
    "e \<in> set (concat bks) \<Longrightarrow> \<exists>c\<ge>ELEMENT_SIZE. (e, c) \<in> L"
proof -
  show r: "rep (hs_alloc s) L" and sh: "map_shape s m L bks" using assms by (simp_all add: map_rep_def)
  show live: "e \<in> set (concat bks) \<Longrightarrow> \<exists>c\<ge>ELEMENT_SIZE. (e, c) \<in> L" for e
    using sh unfolding map_shape_def by blast
  show "0 \<notin> set (concat bks)"
  proof
    assume "0 \<in> set (concat bks)"
    then obtain c where "(0, c) \<in> L" using live by blast
    then show False using live_nonnull [OF r] by blast
  qed
  show "i < length bks \<Longrightarrow> hlist (hs_cells s) (bucket (hs_map s m) i) (map node_of (bks ! i))"
    using sh unfolding map_shape_def by blast
  show "hash_of s m (hs_key s e) = i \<and> e \<in> set (concat bks)" if "i < length bks" "e \<in> set (bks ! i)"
    using sh that unfolding map_shape_def by (auto intro!: bexI [of _ "bks ! i"])
qed

lemma node_not_bucket:
  assumes r: "rep a L" and e: "(e, c) \<in> L" "17 \<le> c" and l: "(hm_list h, d) \<in> L" "8 * i < d" and ne: "e \<noteq> hm_list h"
  shows "node_of e \<noteq> bucket h i"
  using live_apart [OF r e(1) l(1)] e(2) l(2) ne by (auto simp: apart_def node_of_def bucket_def)

lemma map_nodes_apart:
  assumes r: "map_rep s m L bks" and e: "e \<in> set (concat bks)" and i: "i < length bks"
  shows "node_of e \<noteq> bucket (hs_map s m) i"
proof -
  have "\<exists>c\<ge>ELEMENT_SIZE. (e, c) \<in> L" by (rule map_repD(6) [OF r e])
  then obtain c where c: "(e, c) \<in> L" "17 \<le> c" by (auto simp: ELEMENT_SIZE_def)
  obtain d where d: "(hm_list (hs_map s m), d) \<in> L" "8 * length bks \<le> d" "e \<noteq> hm_list (hs_map s m)"
    using map_repD(2) [OF r] e by (auto simp: map_shape_def)
  show ?thesis by (rule node_not_bucket [OF map_repD(1) [OF r] c d(1) _ d(3)]) (use d(2) i in simp)
qed

lemma buckets_disjoint:
  assumes "map_rep s m L bks" "i < length bks" "j < length bks" "i \<noteq> j"
  shows "set (bks ! i) \<inter> set (bks ! j) = {}"
  using map_repD(5) [OF assms(1)] assms(2-4) by blast

lemma buckets_apart:
  assumes r: "map_rep s m L bks" and j: "j < length bks" and i: "i < length bks" and ne: "j \<noteq> i"
  shows "node_of ` set (bks ! j) \<inter> node_of ` set (bks ! i) = {}"
    "bucket (hs_map s m) i \<notin> node_of ` set (bks ! j)" "bucket (hs_map s m) j \<noteq> bucket (hs_map s m) i"
proof -
  show "node_of ` set (bks ! j) \<inter> node_of ` set (bks ! i) = {}" using buckets_disjoint [OF r j i ne] by auto
  show "bucket (hs_map s m) i \<notin> node_of ` set (bks ! j)"
  proof
    assume "bucket (hs_map s m) i \<in> node_of ` set (bks ! j)"
    then obtain e where e: "bucket (hs_map s m) i = node_of e" "e \<in> set (bks ! j)" by blast
    then have "e \<in> set (concat bks)" using map_repD(5) [OF r j] by blast
    then show False using map_nodes_apart [OF r _ i] e(1) by metis
  qed
  show "bucket (hs_map s m) j \<noteq> bucket (hs_map s m) i" using ne by (simp add: bucket_inj)
qed

text \<open>A fresh block is none of the map's blocks.\<close>

lemma fresh_element:
  assumes r: "map_rep s m L bks" and r': "rep a (insert (e, c) L)" and e: "(e, c) \<notin> L" "ELEMENT_SIZE \<le> c"
  shows "e \<notin> set (concat bks)" "e \<noteq> m" "e \<noteq> hm_list (hs_map s m)" "e \<noteq> 0"
    "i < length bks \<Longrightarrow> node_of e \<noteq> bucket (hs_map s m) i"
proof -
  have ne: "e \<noteq> x" if "(x, d) \<in> L" for x d
  proof
    assume "e = x"
    then show False using live_apart [OF r', of "(e, c)" "(x, d)"] live_nonnull [OF r'] e(1) that by (auto simp: apart_def)
  qed
  obtain d where d: "(hm_list (hs_map s m), d) \<in> L" "8 * length bks \<le> d"
    using map_repD(2) [OF r] by (auto simp: map_shape_def)
  show "e \<notin> set (concat bks)" using ne map_repD(6) [OF r] by blast
  show "e \<noteq> m" using ne map_repD(2) [OF r] by (auto simp: map_shape_def)
  show l: "e \<noteq> hm_list (hs_map s m)" using ne d by blast
  show "e \<noteq> 0" using live_nonnull [OF r', of e c] by simp
  show "node_of e \<noteq> bucket (hs_map s m) i" if "i < length bks"
    by (rule node_not_bucket [OF r', of e c "hs_map s m" d]) (use e(2) d that l in \<open>auto simp: ELEMENT_SIZE_def\<close>)
qed

text \<open>Hanging a fresh element \<open>e\<close> at the head of bucket \<open>i\<close> leaves every bucket a well-formed chain.\<close>

lemma put_lists:
  assumes r: "map_rep s m L bks" and r': "rep a (insert (e, c) L)" and e: "(e, c) \<notin> L" "ELEMENT_SIZE \<le> c"
    and i: "i < length bks" and j: "j < length bks"
  defines "c1 \<equiv> tuya_hlist_add_head (tuya_init_hlist_node (hs_cells s) (node_of e)) (node_of e) (bucket (hs_map s m) i)"
  shows "hlist c1 (bucket (hs_map s m) j) (map node_of ((bks[i := e # bks ! i]) ! j))"
proof -
  note d = map_repD [OF r] and f = fresh_element [OF r r' e]
  let ?h = "hs_map s m" let ?c0 = "tuya_init_hlist_node (hs_cells s) (node_of e)"
  have lists0: "hlist ?c0 (bucket ?h j) (map node_of (bks ! j))" if j: "j < length bks" for j
  proof (rule hlist_frame [OF d(4) [OF j]])
    have "e \<notin> set (bks ! j)" using f(1) j by auto
    then show "cell ?c0 x = cell (hs_cells s) x" if "x \<in> set (bucket ?h j # map node_of (bks ! j))" for x
      using that f(5) [OF j] by (auto simp: tuya_init_hlist_node_def node_of_def)
    show "pprev ?c0 x = pprev (hs_cells s) x" if "x \<in> set (map node_of (bks ! j))" for x
      using that \<open>e \<notin> set (bks ! j)\<close> by (auto simp: tuya_init_hlist_node_def node_of_def)
  qed
  show ?thesis
  proof (cases "j = i")
    case True
    have "node_of e \<notin> set (bucket ?h i # map node_of (bks ! i))" using f(1) f(5) [OF i] i by auto
    then show ?thesis using hlist_add_head [OF lists0 [OF i], of "node_of e"] True i by (simp add: c1_def)
  next
    case False
    note ap = buckets_apart [OF r j i False]
    have ej: "node_of e \<notin> node_of ` set (bks ! j)" using f(1) j by auto
    have "hlist c1 (bucket ?h j) (map node_of (bks ! j))"
    proof (rule hlist_frame [OF lists0 [OF j]])
      show "cell c1 x = cell ?c0 x" if "x \<in> set (bucket ?h j # map node_of (bks ! j))" for x
        unfolding c1_def
        by (rule hlist_add_head_local(1) [OF lists0 [OF i]]) (use that f(5) [OF j] ej ap in \<open>auto, metis imageI\<close>)
      show "pprev c1 x = pprev ?c0 x" if "x \<in> set (map node_of (bks ! j))" for x
        unfolding c1_def by (rule hlist_add_head_local(2) [OF lists0 [OF i]]) (use that ej ap(1) in auto)
    qed
    then show ?thesis using False j by simp
  qed
qed

lemma put_cases:
  assumes r: "map_rep s m L bks" and lim: "ELEMENT_SIZE < lim"
  shows "\<exists>ret s'. tuya_hashmap_put alloc s m key data = Some (ret, s')
     \<and> (\<forall>k. hash_of s' m k = hash_of s m k)
     \<and> (ret = MAP_OMEM \<and> map_rep s' m L bks \<and> hs_key s' = hs_key s \<and> hs_data s' = hs_data s
        \<or> (\<exists>e c. ret = MAP_OK \<and> (e, c) \<notin> L \<and> e \<notin> set (concat bks)
             \<and> map_rep s' m (insert (e, c) L) (bks[hash_of s m key := e # bks ! hash_of s m key])
             \<and> hs_key s' = (hs_key s)(e := key) \<and> hs_data s' = (hs_data s)(e := data)))"
proof -
  note d = map_repD [OF r]
  let ?h = "hs_map s m" let ?i = "hash_of s m key" let ?b = "bucket ?h ?i"
  have i: "?i < length bks" by (rule hash_of_less [OF d(2)])
  obtain e a L' where al: "alloc (hs_alloc s) ELEMENT_SIZE = Some (e, a)" "rep a L'"
    and e: "e = 0 \<and> L' = L \<or> (\<exists>c\<ge>ELEMENT_SIZE. (e, c) \<notin> L \<and> L' = insert (e, c) L)"
    using alloc_result [OF d(1) _ lim] by (auto simp: ELEMENT_SIZE_def)
  show ?thesis
  proof (cases "e = 0")
    case True
    have "L' = L" using e True live_nonnull [OF al(2)] by auto
    then show ?thesis using al True d(2)
      by (auto simp: tuya_hashmap_put_def map_rep_def hash_of_def)
  next
    case False
    then obtain c where c: "ELEMENT_SIZE \<le> c" "(e, c) \<notin> L" "L' = insert (e, c) L" using e by auto
    note f = fresh_element [OF r al(2) [unfolded c(3)] c(2,1)]
    let ?c0 = "tuya_init_hlist_node (hs_cells s) (node_of e)"
    let ?c1 = "tuya_hlist_add_head ?c0 (node_of e) ?b"
    define s' where "s' = set_map m (?h\<lparr>hm_size := hm_size ?h + 1\<rparr>)
      (s\<lparr>hs_alloc := a, hs_cells := ?c1, hs_key := (hs_key s)(e := key), hs_data := (hs_data s)(e := data)\<rparr>)"
    have put: "tuya_hashmap_put alloc s m key data = Some (MAP_OK, s')"
      using al False by (simp add: tuya_hashmap_put_def s'_def Let_def hash_of_def)
    have hash: "hash_of s' m k = hash_of s m k" for k by (simp add: s'_def hash_of_def hashmap_hash_int_def)
    note lists = put_lists [OF r al(2) [unfolded c(3)] c(2,1) i]
    have sh: "(\<exists>c. (m, c) \<in> L) \<and> (\<exists>c\<ge>8 * length bks. (hm_list ?h, c) \<in> L) \<and> hm_list ?h \<noteq> m
        \<and> 0 < unat (hm_table_size ?h) \<and> length bks = unat (hm_table_size ?h) \<and> hm_size ?h = int (length (concat bks))"
      "\<forall>x\<in>set (concat bks). x \<noteq> m \<and> x \<noteq> hm_list ?h \<and> (\<exists>c\<ge>ELEMENT_SIZE. (x, c) \<in> L)"
      using d(2) unfolding map_shape_def by blast+
    have keys: "hash_of s' m (hs_key s' x) = j" if "j < length bks" "x \<in> set ((bks[?i := e # bks ! ?i]) ! j)" for j x
      using that hash d(5) [OF that(1)] f(1) i by (cases "j = ?i") (auto simp: s'_def)
    have els: "set (concat (bks[?i := e # bks ! ?i])) = insert e (set (concat bks))"
      "length (concat (bks[?i := e # bks ! ?i])) = Suc (length (concat bks))"
      using concat_update_Cons [OF i] by auto
    have elems: "\<forall>x\<in>insert e (set (concat bks)). x \<noteq> m \<and> x \<noteq> hm_list ?h \<and> (\<exists>c'\<ge>ELEMENT_SIZE. (x, c') \<in> insert (e, c) L)"
      using sh(2) f(2,3) c(1) by blast
    have "map_shape s' m (insert (e, c) L) (bks[?i := e # bks ! ?i])"
      unfolding map_shape_def els
    proof (intro conjI)
      show "\<exists>c'. (m, c') \<in> insert (e, c) L" "\<exists>c'\<ge>8 * length (bks[?i := e # bks ! ?i]). (hm_list (hs_map s' m), c') \<in> insert (e, c) L"
        using sh(1) by (auto simp: s'_def)
    qed (use sh(1) elems keys lists in \<open>simp_all add: s'_def bucket_def\<close>)
    then have "map_rep s' m (insert (e, c) L) (bks[?i := e # bks ! ?i])"
      using al(2) c(3) by (simp add: map_rep_def s'_def)
    then show ?thesis using put c(2) f(1) hash by (intro exI [of _ MAP_OK] exI [of _ s']) (auto simp: s'_def)
  qed
qed

lemma get_first:
  assumes r: "map_rep s m L bks"
  shows "tuya_hashmap_get s m key =
    Some (case entries s m bks key of [] \<Rightarrow> (MAP_MISSING, 0) | v # _ \<Rightarrow> (MAP_OK, v))"
proof -
  note d = map_repD [OF r]
  let ?i = "hash_of s m key" let ?es = "bks ! ?i"
  have i: "?i < length bks" by (rule hash_of_less [OF d(2)])
  have h: "hlist (hs_cells s) (bucket (hs_map s m) ?i) (map node_of ?es)" by (rule d(4) [OF i])
  have z: "0 \<notin> set ?es" using d(3) i by auto
  have e: "entries s m bks key = map (hs_data s) (filter (\<lambda>e. hs_key s e = key) ?es)"
    by (simp add: entries_def)
  have f: "hash_find s m key = Some (case filter (\<lambda>e. hs_key s e = key) ?es of [] \<Rightarrow> 0 | e # _ \<Rightarrow> e)"
    using hlist_empty [OF h] find_from_first [of s "bucket (hs_map s m) ?i" ?es key] h z
    by (auto simp: hash_find_def Let_def hash_of_def hlist_def)
  show ?thesis
  proof (cases "filter (\<lambda>e. hs_key s e = key) ?es")
    case Nil
    then show ?thesis using f e by (simp add: tuya_hashmap_get_def)
  next
    case (Cons x xs)
    then have "x \<in> set (filter (\<lambda>e. hs_key s e = key) ?es)" by simp
    then have "x \<noteq> 0" using z by (cases "x = 0") auto
    then show ?thesis using f e Cons by (simp add: tuya_hashmap_get_def)
  qed
qed

text \<open>Taking one element out of its bucket and releasing it.\<close>

lemma unlink_element:
  assumes r: "map_rep s m L bks" and i: "i < length bks" and es: "bks ! i = xs @ t # ys"
    and s': "s' = set_map m ((hs_map s m)\<lparr>hm_size := hm_size (hs_map s m) - 1\<rparr>)
               (s\<lparr>hs_cells := hlist_del (hs_cells s) (node_of t), hs_alloc := a\<rparr>)"
    and a: "rep a (L - {(t, c)})" and tc: "(t, c) \<in> L"
  shows "map_rep s' m (L - {(t, c)}) (bks[i := xs @ ys])"
proof -
  note d = map_repD [OF r]
  let ?h = "hs_map s m" let ?c1 = "hlist_del (hs_cells s) (node_of t)"
  have hi: "hlist (hs_cells s) (bucket ?h i) (map node_of xs @ node_of t # map node_of ys)" using d(4) [OF i] es by simp
  have dist: "distinct (xs @ t # ys)" using hi by (auto simp: hlist_def distinct_map)
  have lists: "hlist ?c1 (bucket ?h j) (map node_of ((bks[i := xs @ ys]) ! j))" if j: "j < length bks" for j
  proof (cases "j = i")
    case True
    then show ?thesis using hlist_del [OF hi] i by simp
  next
    case False
    note ap = buckets_apart [OF r j i False] and ap' = buckets_apart(2) [OF r i j False [symmetric]]
    have "hlist ?c1 (bucket ?h j) (map node_of (bks ! j))"
    proof (rule hlist_frame [OF d(4) [OF j]])
      show "cell ?c1 x = cell (hs_cells s) x" if "x \<in> set (bucket ?h j # map node_of (bks ! j))" for x
      proof (rule hlist_del_local(1) [OF hi])
        show "x \<notin> set (bucket ?h i # map node_of xs)" using that ap ap' es by (auto, metis imageI)
      qed
      show "pprev ?c1 x = pprev (hs_cells s) x" if "x \<in> set (map node_of (bks ! j))" for x
        by (rule hlist_del_local(2) [OF hi]) (use that ap(1) es in auto)
    qed
    then show ?thesis using False by simp
  qed
  have hash: "hash_of s' m k = hash_of s m k" for k by (simp add: s' hash_of_def hashmap_hash_int_def)
  have keys: "hash_of s' m (hs_key s' x) = j" if "j < length bks" "x \<in> set ((bks[i := xs @ ys]) ! j)" for j x
    using that hash d(5) [OF that(1)] i es by (cases "j = i") (auto simp: s')
  have cb: "concat bks = concat (take i bks) @ (xs @ t # ys) @ concat (drop (Suc i) bks)"
    using id_take_nth_drop [OF i] es by (metis concat.simps(2) concat_append)
  have cu: "concat (bks[i := xs @ ys]) = concat (take i bks) @ (xs @ ys) @ concat (drop (Suc i) bks)"
    by (simp add: upd_conv_take_nth_drop [OF i])
  have tn: "t \<notin> set (concat (bks[i := xs @ ys]))"
  proof
    assume "t \<in> set (concat (bks[i := xs @ ys]))"
    then obtain es where "es \<in> set (bks[i := xs @ ys])" "t \<in> set es" by auto
    then obtain j where "j < length bks" "t \<in> set ((bks[i := xs @ ys]) ! j)" by (metis in_set_conv_nth length_list_update)
    then have j: "j < length bks" "j \<noteq> i" "t \<in> set (bks ! j)" using dist i by (cases "j = i"; auto)+
    then show False using buckets_disjoint [OF r j(1) i j(2)] es by auto
  qed
  have sub: "set (concat (bks[i := xs @ ys])) \<subseteq> set (concat bks)" "length (concat bks) = Suc (length (concat (bks[i := xs @ ys])))"
    unfolding cu cb by auto
  have tb: "t \<in> set (concat bks)" unfolding cb by simp
  have sh: "(\<exists>c. (m, c) \<in> L) \<and> (\<exists>c\<ge>8 * length bks. (hm_list ?h, c) \<in> L) \<and> hm_list ?h \<noteq> m
        \<and> 0 < unat (hm_table_size ?h) \<and> length bks = unat (hm_table_size ?h) \<and> hm_size ?h = int (length (concat bks))"
      "\<forall>x\<in>set (concat bks). x \<noteq> m \<and> x \<noteq> hm_list ?h \<and> (\<exists>c\<ge>ELEMENT_SIZE. (x, c) \<in> L)"
    using d(2) unfolding map_shape_def by blast+
  have els: "\<forall>x\<in>set (concat (bks[i := xs @ ys])). x \<noteq> m \<and> x \<noteq> hm_list ?h \<and> (\<exists>c'\<ge>ELEMENT_SIZE. (x, c') \<in> L - {(t, c)})"
    using sh(2) sub(1) tn by blast
  have own: "(\<exists>c'. (m, c') \<in> L - {(t, c)}) \<and> (\<exists>c'\<ge>8 * length bks. (hm_list ?h, c') \<in> L - {(t, c)})"
    using sh tb by blast
  have "map_shape s' m (L - {(t, c)}) (bks[i := xs @ ys])"
    unfolding map_shape_def using sh(1) sub(2) els own keys lists by (simp add: s' bucket_def)
  then show ?thesis using a by (simp add: map_rep_def s')
qed

lemma remove_from_bucket:
  assumes r: "map_rep s m L bks" and ne: "bks ! hash_of s m key \<noteq> []"
    and t: "t = (case filter (\<lambda>e. hs_key s e = key \<and> (data = 0 \<or> hs_data s e = data)) (bks ! hash_of s m key) of
                   [] \<Rightarrow> last (bks ! hash_of s m key) | e # _ \<Rightarrow> e)"
    and es: "bks ! hash_of s m key = xs @ t # ys"
  shows "\<exists>c s'. tuya_hashmap_remove release s m key data = Some (MAP_OK, s') \<and> (t, c) \<in> L
     \<and> map_rep s' m (L - {(t, c)}) (bks[hash_of s m key := xs @ ys])
     \<and> hs_key s' = hs_key s \<and> hs_data s' = hs_data s \<and> (\<forall>k. hash_of s' m k = hash_of s m k)"
proof -
  note d = map_repD [OF r]
  let ?i = "hash_of s m key" let ?b = "bucket (hs_map s m) ?i" let ?es = "bks ! ?i"
  have i: "?i < length bks" by (rule hash_of_less [OF d(2)])
  have h: "hlist (hs_cells s) ?b (map node_of ?es)" by (rule d(4) [OF i])
  have tb: "t \<in> set (concat bks)" using d(5) [OF i, of t] es by simp
  then obtain c where c: "(t, c) \<in> L" using d(6) by blast
  obtain a where a: "release (hs_alloc s) t = Some a" "rep a (L - {(t, c)})"
    using release_result [OF d(1) c] by blast
  let ?s' = "set_map m ((hs_map s m)\<lparr>hm_size := hm_size (hs_map s m) - 1\<rparr>)
               (s\<lparr>hs_cells := hlist_del (hs_cells s) (node_of t), hs_alloc := a\<rparr>)"
  have "remove_search s key data (cell (hs_cells s) ?b) 0 = Some t"
    using remove_search_finds [of s ?b ?es key data 0] h ne t by (auto simp: hlist_def split: list.splits)
  moreover have "\<not> tuya_hlist_empty (hs_cells s) ?b" using hlist_empty [OF h] ne by simp
  moreover have "t \<noteq> 0" using tb d(3) by metis
  ultimately have "tuya_hashmap_remove release s m key data = Some (MAP_OK, ?s')"
    using a(1) by (simp add: tuya_hashmap_remove_def Let_def hash_of_def)
  moreover have "map_rep ?s' m (L - {(t, c)}) (bks[?i := xs @ ys])"
    by (rule unlink_element [OF r i es refl a(2) c])
  ultimately show ?thesis using c
    by (intro exI [of _ c] exI [of _ ?s']) (simp add: hash_of_def hashmap_hash_int_def)
qed

end

section \<open>Creation\<close>

context allocator
begin

lemma new_cases:
  assumes r: "rep (hs_alloc s) L" and n: "0 < n" "unat n * 8 < lim" "MAP_SIZE < lim"
  shows "\<exists>m s'. tuya_hashmap_new alloc release s n = Some (m, s')
     \<and> (m = 0 \<and> rep (hs_alloc s') L
        \<or> (\<exists>c l d. (m, c) \<notin> L \<and> (l, d) \<notin> L \<and> map_rep s' m (insert (l, d) (insert (m, c) L)) (replicate (unat n) [])))"
proof -
  have un: "0 < unat n * 8" "n \<noteq> 0" using n(1) by (auto simp: word_less_nat_alt)
  obtain m a L' where al: "alloc (hs_alloc s) MAP_SIZE = Some (m, a)" "rep a L'"
    and m: "m = 0 \<and> L' = L \<or> (\<exists>c\<ge>MAP_SIZE. (m, c) \<notin> L \<and> L' = insert (m, c) L)"
    using alloc_result [OF r _ n(3)] by (auto simp: MAP_SIZE_def)
  show ?thesis
  proof (cases "m = 0")
    case True
    have "L' = L" using m True live_nonnull [OF al(2)] by auto
    then show ?thesis using al True un(2) by (simp add: tuya_hashmap_new_def)
  next
    case False
    then obtain c where c: "(m, c) \<notin> L" "L' = insert (m, c) L" using m by auto
    obtain l a2 L2 where al2: "alloc a (unat n * 8) = Some (l, a2)" "rep a2 L2"
      and l: "l = 0 \<and> L2 = L' \<or> (\<exists>d\<ge>unat n * 8. (l, d) \<notin> L' \<and> L2 = insert (l, d) L')"
      using alloc_result [OF al(2) un(1) n(2)] by auto
    show ?thesis
    proof (cases "l = 0")
      case True
      have "L2 = L'" using l True live_nonnull [OF al2(2)] by auto
      then obtain a3 where "release a2 m = Some a3" "rep a3 L"
        using release_result [of a2 L2 m c] al2(2) c by auto
      then show ?thesis using al al2 True False un(2)
        by (simp add: tuya_hashmap_new_def tuya_hashmap_free_def Let_def)
    next
      case l0: False
      then obtain d where d: "unat n * 8 \<le> d" "(l, d) \<notin> L'" "L2 = insert (l, d) L'" using l by auto
      have "l \<noteq> m"
      proof
        assume "l = m"
        then show False using live_apart [OF al2(2), of "(l, d)" "(m, c)"] live_nonnull [OF al2(2)] d c by (auto simp: apart_def)
      qed
      let ?c = "(hs_cells s)\<lparr>cell := (\<lambda>x. if \<exists>i<unat n. x = l + 8 * i then 0 else cell (hs_cells s) x)\<rparr>"
      define s' where "s' = s\<lparr>hs_alloc := a2, hs_cells := ?c,
        hs_map := (hs_map s)(m := \<lparr>hm_size = 0, hm_table_size = n, hm_list = l\<rparr>)\<rparr>"
      have "tuya_hashmap_new alloc release s n = Some (m, s')"
        using al(1) al2(1) False l0 un(2)
        by (simp add: tuya_hashmap_new_def Let_def s'_def set_map_def)
      moreover have ld: "\<exists>c'\<ge>8 * unat n. c' = d \<or> (l, c') \<in> L" using d(1) by (intro exI [of _ d]) simp
      then have "map_rep s' m L2 (replicate (unat n) [])"
        using al2(2) d c n(1) \<open>l \<noteq> m\<close>
        by (auto simp: map_rep_def map_shape_def s'_def bucket_def hlist_def word_less_nat_alt)
      ultimately show ?thesis using c d by blast
    qed
  qed
qed

end

section \<open>Properties\<close>

text \<open>
  C6: After \<open>tuya_hashmap_put\<close> succeeds, the key's values are the new value followed by the older
  ones, \<open>tuya_hashmap_get\<close> returns the new value, every other key is looked up as before and the
  length has grown by one; when memory runs out nothing changes.
\<close>

theorem hashmap_put_get:
  assumes r: "tkl.map_rep i s m L bks"
  shows "\<exists>ret s' L' bks'. tuya_hashmap_put (tkl_system_malloc buf) s m key data = Some (ret, s')
     \<and> tkl.map_rep i s' m L' bks'
     \<and> (ret = MAP_OK \<and> tuya_hashmap_get s' m key = Some (MAP_OK, data)
          \<and> entries s' m bks' key = data # entries s m bks key
          \<and> (\<forall>k. k \<noteq> key \<longrightarrow> tuya_hashmap_get s' m k = tuya_hashmap_get s m k \<and> entries s' m bks' k = entries s m bks k)
          \<and> hm_size (hs_map s' m) = hm_size (hs_map s m) + 1
        \<or> ret = MAP_OMEM \<and> (\<forall>k. tuya_hashmap_get s' m k = tuya_hashmap_get s m k))"
proof -
  have lim: "ELEMENT_SIZE < 2 ^ 32" by (simp add: ELEMENT_SIZE_def)
  let ?i = "hash_of s m key"
  obtain ret s' where p: "tuya_hashmap_put (tkl_system_malloc buf) s m key data = Some (ret, s')"
    "\<forall>k. hash_of s' m k = hash_of s m k"
    and c: "ret = MAP_OMEM \<and> tkl.map_rep i s' m L bks \<and> hs_key s' = hs_key s \<and> hs_data s' = hs_data s
        \<or> (\<exists>e c. ret = MAP_OK \<and> (e, c) \<notin> L \<and> e \<notin> set (concat bks)
             \<and> tkl.map_rep i s' m (insert (e, c) L) (bks[?i := e # bks ! ?i])
             \<and> hs_key s' = (hs_key s)(e := key) \<and> hs_data s' = (hs_data s)(e := data))"
    using tkl.put_cases [OF r lim, of buf key data] by blast
  from c show ?thesis
  proof
    assume a: "ret = MAP_OMEM \<and> tkl.map_rep i s' m L bks \<and> hs_key s' = hs_key s \<and> hs_data s' = hs_data s"
    then have "entries s' m bks k = entries s m bks k" for k using p(2) by (simp add: entries_def)
    then have "tuya_hashmap_get s' m k = tuya_hashmap_get s m k" for k
      using tkl.get_first [OF r] tkl.get_first [of i s' m L bks] a by simp
    then show ?thesis using p(1) a by (intro exI [of _ ret] exI [of _ s'] exI [of _ L] exI [of _ bks]) simp
  next
    assume "\<exists>e c. ret = MAP_OK \<and> (e, c) \<notin> L \<and> e \<notin> set (concat bks)
             \<and> tkl.map_rep i s' m (insert (e, c) L) (bks[?i := e # bks ! ?i])
             \<and> hs_key s' = (hs_key s)(e := key) \<and> hs_data s' = (hs_data s)(e := data)"
    then obtain e c where e: "ret = MAP_OK" "e \<notin> set (concat bks)" "tkl.map_rep i s' m (insert (e, c) L) (bks[?i := e # bks ! ?i])"
      "hs_key s' = (hs_key s)(e := key)" "hs_data s' = (hs_data s)(e := data)" by blast
    let ?bks = "bks[?i := e # bks ! ?i]"
    have ent: "entries s' m ?bks k = (if k = key then data # entries s m bks key else entries s m bks k)" for k
      by (rule entries_add [OF p(2) _ e(4,5) hash_of_less [OF tkl.map_repD(2) [OF r]]])
        (use e(2) hash_of_less [OF tkl.map_repD(2) [OF r]] in auto)
    have get: "tuya_hashmap_get s' m k = Some (case entries s' m ?bks k of [] \<Rightarrow> (MAP_MISSING, 0) | v # _ \<Rightarrow> (MAP_OK, v))" for k
      by (rule tkl.get_first [OF e(3)])
    have "hm_size (hs_map s' m) = hm_size (hs_map s m) + 1"
      using tkl.map_repD(2) [OF e(3)] tkl.map_repD(2) [OF r]
        concat_update_Cons(2) [OF hash_of_less [OF tkl.map_repD(2) [OF r]], of key e] by (simp add: map_shape_def)
    then show ?thesis using p(1) e(1,3) ent get tkl.get_first [OF r]
      by (intro exI [of _ ret] exI [of _ s'] exI [of _ "insert (e, c) L"] exI [of _ ?bks]) simp
  qed
qed

text \<open>A map with one bucket and one element, in live blocks of a concrete memory.\<close>

definition demo_map :: "tkl_mem \<Rightarrow> nat \<Rightarrow> nat \<Rightarrow> nat \<Rightarrow> tkl_mem hm_sys" where
  "demo_map t m l e = \<lparr>hs_alloc = t,
     hs_cells = tuya_hlist_add_head \<lparr>cell = (\<lambda>_. 0), pprev = (\<lambda>_. 0)\<rparr> (node_of e) l,
     hs_key = (\<lambda>_. [97]), hs_data = (\<lambda>_. 7), hs_map = (\<lambda>_. \<lparr>hm_size = 1, hm_table_size = 1, hm_list = l\<rparr>)\<rparr>"

lemma demo_map_rep: "\<exists>t m l e L. tkl.map_rep 0 (demo_map t m l e) m L [[e]]"
proof -
  obtain t m c l d e k where b: "tkl_live 0 t {(m, c), (l, d), (e, k)}" "40 \<le> c" "40 \<le> d" "40 \<le> k"
    "m \<noteq> l" "m \<noteq> e" "l \<noteq> e" using demo_blocks by blast
  have "apart (e, k) (l, d)" using tkl.live_apart [OF b(1), of "(e, k)" "(l, d)"] b(7) by auto
  then have ne: "node_of e \<noteq> l" using b(3,4) by (auto simp: apart_def node_of_def)
  have hl: "hlist (hs_cells (demo_map t m l e)) l [node_of e]"
    using ne by (simp add: demo_map_def hlist_def tuya_hlist_add_head_def Let_def)
  have hash: "hash_of (demo_map t m l e) m x = 0" for x by (simp add: hash_of_def demo_map_def hashmap_hash_int_def)
  have "map_shape (demo_map t m l e) m {(m, c), (l, d), (e, k)} [[e]]"
    unfolding map_shape_def using b hl hash by (auto simp: demo_map_def bucket_def ELEMENT_SIZE_def)
  moreover have "hs_alloc (demo_map t m l e) = t" by (simp add: demo_map_def)
  ultimately show ?thesis using b(1) unfolding tkl.map_rep_def
    by (intro exI [of _ t] exI [of _ m] exI [of _ l] exI [of _ e] exI [of _ "{(m, c), (l, d), (e, k)}"]) simp
qed

theorem hashmap_put_get_witness:
  "\<exists>s m L bks ret s'. tkl.map_rep 0 s m L bks \<and> tuya_hashmap_put (tkl_system_malloc 4096) s m [98] 9 = Some (ret, s')
     \<and> (ret = MAP_OK \<and> tuya_hashmap_get s' m [98] = Some (MAP_OK, 9) \<or> ret = MAP_OMEM)"
proof -
  obtain t m l e L where r: "tkl.map_rep 0 (demo_map t m l e) m L [[e]]" using demo_map_rep by blast
  obtain ret s' where "tuya_hashmap_put (tkl_system_malloc 4096) (demo_map t m l e) m [98] 9 = Some (ret, s')"
     "ret = MAP_OK \<and> tuya_hashmap_get s' m [98] = Some (MAP_OK, 9) \<or> ret = MAP_OMEM"
    using hashmap_put_get [OF r, of 4096 "[98]" 9] by (elim exE conjE disjE) simp_all
  then show ?thesis using r
    by (intro exI [of _ "demo_map t m l e"] exI [of _ m] exI [of _ L] exI [of _ "[[e]]"] exI [of _ ret] exI [of _ s']) simp
qed

text \<open>
  \<open>tuya_hashmap_remove\<close> of a key (and value, if one is given) that the map holds removes the
  most recent matching element and releases its block; the other elements of the map stay.
\<close>

theorem hashmap_remove_present:
  assumes r: "tkl.map_rep i s m L bks"
    and t: "filter (\<lambda>e. hs_key s e = key \<and> (data = 0 \<or> hs_data s e = data)) (bks ! hash_of s m key) = t # ts"
  shows "\<exists>c s'. tuya_hashmap_remove tkl_system_free s m key data = Some (MAP_OK, s') \<and> (t, c) \<in> L
     \<and> tkl.map_rep i s' m (L - {(t, c)}) (bks[hash_of s m key := remove1 t (bks ! hash_of s m key)])
     \<and> hs_key s' = hs_key s \<and> hs_data s' = hs_data s"
proof -
  let ?es = "bks ! hash_of s m key"
  have "t \<in> set (filter (\<lambda>e. hs_key s e = key \<and> (data = 0 \<or> hs_data s e = data)) ?es)" using t by simp
  then have m: "t \<in> set ?es" by simp
  then obtain xs ys where es: "?es = xs @ t # ys" "t \<notin> set xs" by (meson split_list_first)
  then have rm: "remove1 t ?es = xs @ ys" by (simp add: remove1_append)
  have ne: "?es \<noteq> []" using m by auto
  have h: "t = (case filter (\<lambda>e. hs_key s e = key \<and> (data = 0 \<or> hs_data s e = data)) ?es of
      [] \<Rightarrow> last ?es | e # _ \<Rightarrow> e)" unfolding t by simp
  obtain c s' where "tuya_hashmap_remove tkl_system_free s m key data = Some (MAP_OK, s')" "(t, c) \<in> L"
      "tkl.map_rep i s' m (L - {(t, c)}) (bks[hash_of s m key := xs @ ys])"
      "hs_key s' = hs_key s" "hs_data s' = hs_data s"
    using tkl.remove_from_bucket [OF r ne h es(1)] by (elim exE conjE)
  then show ?thesis unfolding rm by (intro exI [of _ c] exI [of _ s']) simp
qed

theorem hashmap_remove_present_witness:
  "\<exists>s m L e c s'. tkl.map_rep 0 s m L [[e]] \<and> tuya_hashmap_remove tkl_system_free s m [97] 0 = Some (MAP_OK, s')
     \<and> tkl.map_rep 0 s' m (L - {(e, c)}) [[]]"
proof -
  obtain t m l e L where r: "tkl.map_rep 0 (demo_map t m l e) m L [[e]]" using demo_map_rep by blast
  have h: "hash_of (demo_map t m l e) m [97] = 0" by (simp add: hash_of_def demo_map_def hashmap_hash_int_def)
  have f: "filter (\<lambda>e'. hs_key (demo_map t m l e) e' = [97] \<and> ((0 :: nat) = 0 \<or> hs_data (demo_map t m l e) e' = 0))
      ([[e]] ! hash_of (demo_map t m l e) m [97]) = [e]" by (simp add: h) (simp add: demo_map_def)
  have "\<exists>c s'. tuya_hashmap_remove tkl_system_free (demo_map t m l e) m [97] 0 = Some (MAP_OK, s')
     \<and> tkl.map_rep 0 s' m (L - {(e, c)}) [[]]"
    using hashmap_remove_present [OF r f] h by simp blast
  then obtain c s' where "tuya_hashmap_remove tkl_system_free (demo_map t m l e) m [97] 0 = Some (MAP_OK, s')"
     "tkl.map_rep 0 s' m (L - {(e, c)}) [[]]" by (elim exE conjE)
  then show ?thesis using r
    by (intro exI [of _ "demo_map t m l e"] exI [of _ m] exI [of _ L] exI [of _ e] exI [of _ c] exI [of _ s']) simp
qed

text \<open>
  C18: When no element matches but the key's bucket is not empty, \<open>tuya_hashmap_remove\<close> does not
  answer \<open>MAP_MISSING\<close>: the loop leaves \<open>tmp_element\<close> at the bucket's last element, which is
  removed and released although its key or value is another one.
\<close>

theorem hashmap_remove_missing_drops_last:
  assumes r: "tkl.map_rep i s m L bks" and es: "bks ! hash_of s m key = xs @ [t]"
    and none: "\<forall>e\<in>set (bks ! hash_of s m key). \<not> (hs_key s e = key \<and> (data = 0 \<or> hs_data s e = data))"
  shows "\<exists>c s'. tuya_hashmap_remove tkl_system_free s m key data = Some (MAP_OK, s') \<and> (t, c) \<in> L
     \<and> tkl.map_rep i s' m (L - {(t, c)}) (bks[hash_of s m key := xs])"
proof -
  have f: "filter (\<lambda>e. hs_key s e = key \<and> (data = 0 \<or> hs_data s e = data)) (bks ! hash_of s m key) = []"
    using none by (simp add: filter_empty_conv)
  have ne: "bks ! hash_of s m key \<noteq> []" and l: "t = last (bks ! hash_of s m key)" using es by simp_all
  have t: "t = (case filter (\<lambda>e. hs_key s e = key \<and> (data = 0 \<or> hs_data s e = data)) (bks ! hash_of s m key) of
      [] \<Rightarrow> last (bks ! hash_of s m key) | e # _ \<Rightarrow> e)" unfolding f using l by simp
  obtain c s' where "tuya_hashmap_remove tkl_system_free s m key data = Some (MAP_OK, s')" "(t, c) \<in> L"
      "tkl.map_rep i s' m (L - {(t, c)}) (bks[hash_of s m key := xs @ []])"
    using tkl.remove_from_bucket [OF r ne t es] by (elim exE conjE)
  then show ?thesis by (intro exI [of _ c] exI [of _ s']) simp
qed

theorem hashmap_remove_missing_drops_last_witness:
  "\<exists>s m L e c s'. tkl.map_rep 0 s m L [[e]] \<and> hs_key s e \<noteq> [98]
     \<and> tuya_hashmap_remove tkl_system_free s m [98] 0 = Some (MAP_OK, s') \<and> tkl.map_rep 0 s' m (L - {(e, c)}) [[]]"
proof -
  obtain t m l e L where r: "tkl.map_rep 0 (demo_map t m l e) m L [[e]]" using demo_map_rep by blast
  have h: "hash_of (demo_map t m l e) m [98] = 0" by (simp add: hash_of_def demo_map_def hashmap_hash_int_def)
  have k: "hs_key (demo_map t m l e) e \<noteq> [98]" by (simp add: demo_map_def)
  have "\<exists>c s'. tuya_hashmap_remove tkl_system_free (demo_map t m l e) m [98] 0 = Some (MAP_OK, s')
     \<and> tkl.map_rep 0 s' m (L - {(e, c)}) [[]]"
    using hashmap_remove_missing_drops_last [OF r, of "[98]" "[]" e 0] h k by simp blast
  then obtain c s' where "tuya_hashmap_remove tkl_system_free (demo_map t m l e) m [98] 0 = Some (MAP_OK, s')"
     "tkl.map_rep 0 s' m (L - {(e, c)}) [[]]" by (elim exE conjE)
  then show ?thesis using r k
    by (intro exI [of _ "demo_map t m l e"] exI [of _ m] exI [of _ L] exI [of _ e] exI [of _ c] exI [of _ s']) simp
qed

end
