(* ===== verification/Tuya_Tools.thy ===== *)
theory Tuya_Tools
  imports Byte_Memory "HOL-Library.Signed_Division" "HOL-Library.Multiset"
begin

text \<open>
  The string, number and buffer helpers of \<open>tuya_tools.c\<close>, over byte memory: every pointer argument
  is an address, so that aliasing of source and destination is part of the model.  C strings are
  read up to their first zero byte by loops that may run on, hence \<open>partial_function (option)\<close>;
  \<open>int\<close> lengths are integers, so that negative ones take the branches they take in C.
\<close>

section \<open>Strings\<close>

partial_function (option) strlen_at :: "memory \<Rightarrow> nat \<Rightarrow> nat option" where
  "strlen_at m a = (if m a = 0 then Some 0 else Option.bind (strlen_at m (a + 1)) (\<lambda>n. Some (n + 1)))"

definition tuya_strlen :: "memory \<Rightarrow> nat \<Rightarrow> nat option" where
  "tuya_strlen m str = strlen_at m str"

definition tuya_strcpy :: "memory \<Rightarrow> nat \<Rightarrow> nat \<Rightarrow> (nat \<times> memory) option" where
  "tuya_strcpy m dst src = Option.bind (strlen_at m src) (\<lambda>n. Some (dst, mem_copy m dst src (n + 1)))"

definition tuya_strcat :: "memory \<Rightarrow> nat \<Rightarrow> nat \<Rightarrow> (nat \<times> memory) option" where
  "tuya_strcat m dst src = Option.bind (strlen_at m dst) (\<lambda>k.
     Option.bind (strlen_at m src) (\<lambda>n. Some (dst, mem_copy m (dst + k) src (n + 1))))"

text \<open>\<open>__TOLOWER\<close>, on a byte promoted to \<open>int\<close>.\<close>

definition TOLOWER :: "u8 \<Rightarrow> int" where
  "TOLOWER c = (if 65 \<le> uint c \<and> uint c \<le> 90 then uint c - 65 + 97 else uint c)"

partial_function (option) strncasecmp_loop :: "memory \<Rightarrow> nat \<Rightarrow> nat \<Rightarrow> nat \<Rightarrow> nat \<Rightarrow> int option" where
  "strncasecmp_loop m p1 p2 cnt n =
     (let result = TOLOWER (m p1) - TOLOWER (m p2) in
      if result \<noteq> 0 then Some result
      else if n \<le> cnt + 1 then Some result
      else if m p1 = 0 then Some (-1)
      else if m p2 = 0 then Some 1
      else strncasecmp_loop m (p1 + 1) (p2 + 1) (cnt + 1) n)"

definition tuya_strncasecmp :: "memory \<Rightarrow> nat \<Rightarrow> nat \<Rightarrow> nat \<Rightarrow> int option" where
  "tuya_strncasecmp m s1 s2 n = (if s1 = s2 then Some 0 else strncasecmp_loop m s1 s2 0 n)"

partial_function (option) strcmp_loop :: "memory \<Rightarrow> nat \<Rightarrow> nat \<Rightarrow> int option" where
  "strcmp_loop m src dst =
     (let ret = uint (m src) - uint (m dst) in
      if ret = 0 \<and> m dst \<noteq> 0 then strcmp_loop m (src + 1) (dst + 1) else Some ret)"

definition tuya_strcmp :: "memory \<Rightarrow> nat \<Rightarrow> nat \<Rightarrow> int option" where
  "tuya_strcmp m src dst = Option.bind (strcmp_loop m src dst)
     (\<lambda>ret. Some (if ret < 0 then -1 else if ret > 0 then 1 else ret))"

text \<open>The search runs downwards from the position \<open>index\<close> places before the last character.\<close>

function find_char_loop :: "memory \<Rightarrow> nat \<Rightarrow> u8 \<Rightarrow> int \<Rightarrow> int" where
  "find_char_loop m str ch i =
     (if i \<ge> 0 then (if m (nat (int str + i)) = ch then i else find_char_loop m str ch (i - 1)) else -2)"
  by auto
termination by (relation "measure (\<lambda>(m, str, ch, i). nat (i + 1))") auto

definition tuya_find_char_with_reverse_idx :: "memory \<Rightarrow> nat \<Rightarrow> int \<Rightarrow> u8 \<Rightarrow> int option" where
  "tuya_find_char_with_reverse_idx m str index ch =
     (if str = 0 then Some (-1)
      else Option.bind (strlen_at m str) (\<lambda>len.
        Some (if index \<ge> int len then -1 else find_char_loop m str ch (int len - 1 - index))))"

section \<open>Hexadecimal text\<close>

definition tuya_asc2hex :: "u8 \<Rightarrow> u8" where
  "tuya_asc2hex asccode =
     (if 48 \<le> asccode \<and> asccode \<le> 57 then asccode - 48
      else if 97 \<le> asccode \<and> asccode \<le> 102 then asccode - 97 + 10
      else if 65 \<le> asccode \<and> asccode \<le> 70 then asccode - 65 + 10
      else 0)"

function ascs2hex_loop :: "memory \<Rightarrow> nat \<Rightarrow> nat \<Rightarrow> int \<Rightarrow> nat \<Rightarrow> memory" where
  "ascs2hex_loop m hex ascs lenstr i =
     (if int i < lenstr
      then let h4 = tuya_asc2hex (m (ascs + i)); l4 = tuya_asc2hex (m (ascs + (i + 1)))
           in ascs2hex_loop (m(hex + i div 2 := push_bit 4 h4 + l4)) hex ascs lenstr (i + 2)
      else m)"
  by auto
termination by (relation "measure (\<lambda>(m, hex, ascs, l, i). nat (l - int i))") auto

definition tuya_ascs2hex :: "memory \<Rightarrow> nat \<Rightarrow> nat \<Rightarrow> int \<Rightarrow> memory" where
  "tuya_ascs2hex m hex ascs srclen =
     (let lenstr = (if srclen smod 2 \<noteq> 0 then srclen - srclen smod 2 else srclen)
      in if lenstr = 0 then m else ascs2hex_loop m hex ascs lenstr 0)"

definition hex_digit :: "u8 \<Rightarrow> u8" where
  "hex_digit v = (let dd = 48 + v in if dd > 57 then dd + 7 else dd)"

function hex2str_loop :: "memory \<Rightarrow> nat \<Rightarrow> nat \<Rightarrow> int \<Rightarrow> nat \<Rightarrow> memory" where
  "hex2str_loop m str hex hexlen i =
     (if int i < hexlen
      then let ddh = hex_digit (m (hex + i) div 16); ddl = hex_digit (m (hex + i) mod 16)
           in hex2str_loop (m(str + i * 2 := ddh, str + (i * 2 + 1) := ddl)) str hex hexlen (i + 1)
      else m)"
  by auto
termination by (relation "measure (\<lambda>(m, str, hex, l, i). nat (l - int i))") auto

text \<open>
  The indices are of type \<open>int\<close>: for a length whose double is not, the last of them overflows, which
  is undefined (\<open>None\<close>).
\<close>

definition tuya_hex2str :: "memory \<Rightarrow> nat \<Rightarrow> nat \<Rightarrow> int \<Rightarrow> memory option" where
  "tuya_hex2str m str hex hexlen =
     (if hexlen * 2 < - (2 ^ 31) \<or> 2 ^ 31 \<le> hexlen * 2 then None
      else Some ((hex2str_loop m str hex hexlen 0)(nat (int str + hexlen * 2) := 0)))"

section \<open>Decimal numbers\<close>

text \<open>\<open>None\<close> is the result \<open>FALSE\<close>, which leaves \<open>*number\<close> alone.\<close>

fun str2num_loop :: "memory \<Rightarrow> nat \<Rightarrow> nat \<Rightarrow> nat \<Rightarrow> u32 \<Rightarrow> u32 option" where
  "str2num_loop m str 0 i value = Some value"
| "str2num_loop m str (Suc k) i value =
     (if m (str + i) \<ge> 48 \<and> m (str + i) \<le> 57
      then str2num_loop m str k (i + 1) (value * 10 + ucast (m (str + i) - 48))
      else None)"

definition tuya_str2num :: "memory \<Rightarrow> nat \<Rightarrow> u8 \<Rightarrow> u32 option" where
  "tuya_str2num m str len = str2num_loop m str (unat len) 0 0"

text \<open>
  The counter \<open>i\<close> is a byte and wraps, while the bound \<open>index + len\<close> is a 32-bit number; \<open>None\<close> is
  the loop that never ends.
\<close>

partial_function (option) intArray2int_loop :: "memory \<Rightarrow> nat \<Rightarrow> u32 \<Rightarrow> u8 \<Rightarrow> u32 \<Rightarrow> u32 option" where
  "intArray2int_loop m arr lim i num =
     (if (ucast i :: u32) < lim
      then intArray2int_loop m arr lim (i + 1) (num * 10 + ucast (m (arr + unat i)))
      else Some num)"

definition tuya_intArray2int :: "memory \<Rightarrow> nat \<Rightarrow> u32 \<Rightarrow> u8 \<Rightarrow> u32 option" where
  "tuya_intArray2int m intArray index len =
     (if index \<ge> ucast len then Some (-1)
      else intArray2int_loop m intArray (index + ucast len) (ucast index) 0)"

fun buff_reverse_loop :: "memory \<Rightarrow> nat \<Rightarrow> nat \<Rightarrow> nat \<Rightarrow> nat \<Rightarrow> memory" where
  "buff_reverse_loop m buf len 0 i = m"
| "buff_reverse_loop m buf len (Suc k) i =
     buff_reverse_loop (m(buf + i := m (buf + len - 1 - i), buf + len - 1 - i := m (buf + i))) buf len k (i + 1)"

definition tuya_buff_reverse :: "memory \<Rightarrow> nat \<Rightarrow> u16 \<Rightarrow> memory" where
  "tuya_buff_reverse m buf len = buff_reverse_loop m buf (unat len) (unat len div 2) 0"

fun data_reverse_loop :: "memory \<Rightarrow> nat \<Rightarrow> nat \<Rightarrow> nat \<Rightarrow> nat \<Rightarrow> memory" where
  "data_reverse_loop m dst src 0 i = m"
| "data_reverse_loop m dst src (Suc k) i = data_reverse_loop (m(dst + i := m (src + k))) dst src k (i + 1)"

definition tuya_data_reverse :: "memory \<Rightarrow> nat \<Rightarrow> nat \<Rightarrow> u16 \<Rightarrow> memory" where
  "tuya_data_reverse m dst src srclen = data_reverse_loop m dst src (unat srclen) 0"

text \<open>The \<open>do\<close> loop counts the decimal digits, the \<open>for\<close> loop stores them from the last to the first.\<close>

function count_digits :: "u32 \<Rightarrow> u8 \<Rightarrow> u8" where
  "count_digits tmp i = (let tmp' = tmp div 10; i' = i + 1 in if tmp' \<noteq> 0 then count_digits tmp' i' else i')"
  by auto
termination
proof (relation "measure (\<lambda>(t, i). unat t)")
  fix t t' :: u32
  assume "t' = t div 10" "t' \<noteq> 0"
  then have "unat t' = unat t div 10" "0 < unat t'" by (simp add: unat_div, simp add: unat_pos_iff)
  then have "unat t' < unat t" by linarith
  then show "((t', i'), t, i) \<in> measure (\<lambda>(t, i). unat t)" for i i' :: u8 by simp
qed simp

function digits_loop :: "memory \<Rightarrow> nat \<Rightarrow> u32 \<Rightarrow> u8 \<Rightarrow> memory \<times> u8" where
  "digits_loop m arr tmp i =
     (if tmp \<noteq> 0 then digits_loop (m(arr + unat i := ucast (tmp mod 10))) arr (tmp div 10) (i + 1) else (m, i))"
  by auto
termination
proof (relation "measure (\<lambda>(m, a, t, i). unat t)")
  fix t :: u32
  assume "t \<noteq> 0"
  then have "unat (t div 10) < unat t" by (simp add: unat_div unat_pos_iff)
  then show "((m', a, t div 10, i'), m, a, t, i) \<in> measure (\<lambda>(m, a, t, i). unat t)" for m m' :: memory and a i i'
    by simp
qed simp

definition tuya_int2intArray :: "memory \<Rightarrow> u32 \<Rightarrow> nat \<Rightarrow> u8 \<Rightarrow> u32 \<times> memory" where
  "tuya_int2intArray m num intArray len =
     (if len < count_digits num 0 then (0, m)
      else let (m', i) = digits_loop m intArray num 0
           in (ucast i, tuya_buff_reverse m' intArray (ucast i)))"

section \<open>Sorting\<close>

definition sort_swap :: "u8 \<Rightarrow> memory \<Rightarrow> nat \<Rightarrow> nat \<Rightarrow> memory" where
  "sort_swap is_ascend m buf i =
     (if is_ascend \<noteq> 0
      then (if m (buf + i) > m (buf + (i + 1)) then m(buf + i := m (buf + (i + 1)), buf + (i + 1) := m (buf + i)) else m)
      else (if m (buf + i) < m (buf + (i + 1)) then m(buf + i := m (buf + (i + 1)), buf + (i + 1) := m (buf + i)) else m))"

function sort_pass :: "u8 \<Rightarrow> memory \<Rightarrow> nat \<Rightarrow> int \<Rightarrow> nat \<Rightarrow> memory" where
  "sort_pass is_ascend m buf lim i =
     (if int i < lim then sort_pass is_ascend (sort_swap is_ascend m buf i) buf lim (i + 1) else m)"
  by auto
termination by (relation "measure (\<lambda>(a, m, b, l, i). nat (l - int i))") auto

function sort_loop :: "u8 \<Rightarrow> memory \<Rightarrow> nat \<Rightarrow> int \<Rightarrow> int \<Rightarrow> memory" where
  "sort_loop is_ascend m buf len j =
     (if j < len then sort_loop is_ascend (sort_pass is_ascend m buf (len - j) 0) buf len (j + 1) else m)"
  by auto
termination by (relation "measure (\<lambda>(a, m, b, l, j). nat (l - j))") auto

definition tuya_byte_sort :: "u8 \<Rightarrow> memory \<Rightarrow> nat \<Rightarrow> int \<Rightarrow> memory" where
  "tuya_byte_sort is_ascend m buf len = sort_loop is_ascend m buf len 1"

section \<open>Bit counts and check sums\<close>

lemma clear_lower_bit_less: "num \<noteq> 0 \<Longrightarrow> unat (num AND (num - 1)) < unat num" for num :: u32
proof -
  assume n: "num \<noteq> 0"
  have "unat (num AND (num - 1)) \<le> unat (num - 1)" by (metis word_and_le1 word_le_nat_alt)
  also have "\<dots> = unat num - 1" using n by (simp add: unat_minus_one)
  also have "\<dots> < unat num" using n by (simp add: unat_pos_iff)
  finally show ?thesis .
qed

function bit1_loop :: "u32 \<Rightarrow> u32 \<Rightarrow> u32" where
  "bit1_loop num cnt = (if num \<noteq> 0 then bit1_loop (num AND (num - 1)) (cnt + 1) else cnt)"
  by auto
termination by (relation "measure (\<lambda>(n, c). unat n)") (auto simp: clear_lower_bit_less)

definition tuya_bit1_count :: "u32 \<Rightarrow> u32" where
  "tuya_bit1_count num = bit1_loop num 0"

lemma top_bit_iff: "temp AND 0x80000000 \<noteq> 0 \<longleftrightarrow> 2 ^ 31 \<le> unat temp" for temp :: u32
proof -
  have "temp AND 0x80000000 \<noteq> 0 \<longleftrightarrow> bit temp 31" using and_exp_eq_0_iff_not_bit [of temp 31] by simp
  also have "\<dots> \<longleftrightarrow> odd (unat temp div 2 ^ 31)" 
    using bit_unsigned_iff [of temp 31, where 'a = nat] by (simp add: bit_iff_odd [of "unat temp"])
  also have "\<dots> \<longleftrightarrow> 2 ^ 31 \<le> unat temp"
  proof -
    have "unat temp div 2 ^ 31 = (if 2 ^ 31 \<le> unat temp then 1 else 0)"
      using unat_u32_less [of temp] by (intro div_nat_eqI) auto
    then show ?thesis by simp
  qed
  finally show ?thesis .
qed

lemma unat_shift_1: "unat (push_bit 1 temp) = 2 * unat temp mod 2 ^ 32" for temp :: u32
  by (simp add: push_bit_eq_mult unat_word_ariths mult.commute)

lemma shift_out_less: "temp AND 0x80000000 \<noteq> 0 \<Longrightarrow> unat (push_bit 1 temp) < unat temp" for temp :: u32
proof -
  assume "temp AND 0x80000000 \<noteq> 0"
  then have t: "2147483648 \<le> unat temp" by (simp add: top_bit_iff)
  have u: "unat temp < 4294967296" by (rule unat_u32_less)
  have "2 * unat temp = 4294967296 + (2 * unat temp - 4294967296)" "2 * unat temp - 4294967296 < 4294967296"
    using t u by linarith+
  then have "2 * unat temp mod 4294967296 = 2 * unat temp - 4294967296" by (metis mod_add_self1 mod_less)
  then have "unat (push_bit 1 temp) = 2 * unat temp - 4294967296" using unat_shift_1 [of temp] by simp
  then show ?thesis using t u by linarith
qed

function leading_loop :: "u32 \<Rightarrow> u32 \<Rightarrow> u32" where
  "leading_loop temp cnt = (if temp AND 0x80000000 \<noteq> 0 then leading_loop (push_bit 1 temp) (cnt + 1) else cnt)"
  by auto
termination by (relation "measure (\<lambda>(t, c). unat t)") (simp, simp only: in_measure prod.case, rule shift_out_less)

definition tuya_leading_zeros_count :: "u32 \<Rightarrow> u32" where
  "tuya_leading_zeros_count num = leading_loop (NOT num) 0"

fun sum8_loop :: "memory \<Rightarrow> nat \<Rightarrow> nat \<Rightarrow> nat \<Rightarrow> u8 \<Rightarrow> u8" where
  "sum8_loop m buf 0 idx s = s"
| "sum8_loop m buf (Suc k) idx s = sum8_loop m buf k (idx + 1) (s + m (buf + idx))"

definition tuya_check_sum8 :: "memory \<Rightarrow> nat \<Rightarrow> u32 \<Rightarrow> u8" where
  "tuya_check_sum8 m buf len = sum8_loop m buf (unat len) 0 0"

fun sum16_loop :: "memory \<Rightarrow> nat \<Rightarrow> nat \<Rightarrow> nat \<Rightarrow> u16 \<Rightarrow> u16" where
  "sum16_loop m buf 0 idx s = s"
| "sum16_loop m buf (Suc k) idx s = sum16_loop m buf k (idx + 1) (s + ucast (m (buf + idx)))"

definition tuya_check_sum16 :: "memory \<Rightarrow> nat \<Rightarrow> u32 \<Rightarrow> u16" where
  "tuya_check_sum16 m buf len = sum16_loop m buf (unat len) 0 0"


section \<open>Views of memory\<close>

definition bytes_at :: "memory \<Rightarrow> nat \<Rightarrow> nat \<Rightarrow> bytes" where
  "bytes_at m a n = map (\<lambda>i. m (a + i)) [0..<n]"

definition cstring :: "memory \<Rightarrow> nat \<Rightarrow> bytes \<Rightarrow> bool" where
  "cstring m a x \<longleftrightarrow> bytes_at m a (length x) = x \<and> m (a + length x) = 0 \<and> 0 \<notin> set x"

lemma length_bytes_at [simp]: "length (bytes_at m a n) = n"
  by (simp add: bytes_at_def)

lemma bytes_at_nth [simp]: "i < n \<Longrightarrow> bytes_at m a n ! i = m (a + i)"
  by (simp add: bytes_at_def)

lemma bytes_at_eq_iff: "bytes_at m a n = xs \<longleftrightarrow> length xs = n \<and> (\<forall>i<n. m (a + i) = xs ! i)"
  by (auto simp: list_eq_iff_nth_eq)

lemma bytes_at_0 [simp]: "bytes_at m a 0 = []"
  by (simp add: bytes_at_def)

lemma bytes_at_Suc: "bytes_at m a (Suc n) = m a # bytes_at m (a + 1) n"
  by (simp add: list_eq_iff_nth_eq nth_Cons split: nat.split)

lemma bytes_at_snoc: "bytes_at m a (Suc n) = bytes_at m a n @ [m (a + n)]"
  by (simp add: bytes_at_def)

lemma bytes_at_cong: "(\<And>i. i < n \<Longrightarrow> m (a + i) = m' (a + i)) \<Longrightarrow> bytes_at m a n = bytes_at m' a n"
  by (simp add: bytes_at_def)

lemma bytes_at_append: "bytes_at m a (k + l) = bytes_at m a k @ bytes_at m (a + k) l"
  by (auto simp: list_eq_iff_nth_eq nth_append)

lemma cstring_Nil [simp]: "cstring m a [] \<longleftrightarrow> m a = 0"
  by (simp add: cstring_def)

lemma cstring_Cons [simp]: "cstring m a (c # x) \<longleftrightarrow> m a = c \<and> c \<noteq> 0 \<and> cstring m (a + 1) x"
  by (auto simp: cstring_def bytes_at_Suc)

declare find_char_loop.simps [simp del] ascs2hex_loop.simps [simp del] hex2str_loop.simps [simp del]
  count_digits.simps [simp del] digits_loop.simps [simp del] sort_pass.simps [simp del] sort_loop.simps [simp del]
  bit1_loop.simps [simp del] leading_loop.simps [simp del]

section \<open>String comparison\<close>

lemma uint_pos_iff [simp]: "0 < uint c \<longleftrightarrow> c \<noteq> 0"
  using uint_0_iff [of c] unsigned_greater_eq [of c, where 'a = int] by linarith

lemma strlen_cstring: "cstring m a x \<Longrightarrow> strlen_at m a = Some (length x)"
proof (induction x arbitrary: a)
  case Nil
  then show ?case by (subst strlen_at.simps) simp
next
  case (Cons c x)
  then show ?case by (subst strlen_at.simps) simp
qed

lemma strcmp_loop_cstring:
  "cstring m a x \<Longrightarrow> cstring m b y \<Longrightarrow>
    \<exists>r. strcmp_loop m a b = Some r \<and> (r = 0 \<longleftrightarrow> x = y) \<and> (r < 0 \<longleftrightarrow> ord_class.lexordp x y)"
proof (induction x arbitrary: a b y)
  case Nil
  then show ?case by (cases y; subst strcmp_loop.simps) (auto simp: Let_def uint_0_iff)
next
  case (Cons c x)
  show ?case
  proof (cases y)
    case Nil
    then show ?thesis using Cons.prems by (subst strcmp_loop.simps) (auto simp: Let_def uint_0_iff)
  next
    case (Cons d z)
    note y = this
    show ?thesis
    proof (cases "c = d")
      case True
      then show ?thesis using Cons.prems Cons.IH [of "a + 1" "b + 1" z] y
        by (subst strcmp_loop.simps) simp
    next
      case False
      then show ?thesis using Cons.prems y by (subst strcmp_loop.simps) (auto simp: Let_def word_less_def word_uint_eq_iff)
    qed
  qed
qed

lemma strcmp_lexicographic:
  "cstring m a x \<Longrightarrow> cstring m b y \<Longrightarrow>
    tuya_strcmp m a b = Some (if x = y then 0 else if ord_class.lexordp x y then -1 else 1)"
  using strcmp_loop_cstring [of m a x b y] by (auto simp: tuya_strcmp_def)

lemma TOLOWER_0 [simp]: "TOLOWER c = 0 \<longleftrightarrow> c = 0"
  by (auto simp: TOLOWER_def uint_0_iff)

text \<open>
  The loop of \<open>tuya_strncasecmp\<close> compares at most \<open>n\<close> characters; reaching the end of both strings
  before that is answered with \<open>-1\<close>.
\<close>

lemma strncasecmp_loop_cstring:
  "cstring m a x \<Longrightarrow> cstring m b y \<Longrightarrow> cnt < n \<Longrightarrow>
    \<exists>r. strncasecmp_loop m a b cnt n = Some r
      \<and> (r = 0 \<longleftrightarrow> n \<le> cnt + length x + 1
            \<and> map TOLOWER (take (n - cnt) (x @ [0])) = map TOLOWER (take (n - cnt) (y @ [0])))
      \<and> (map TOLOWER x = map TOLOWER y \<and> cnt + length x + 1 < n \<longrightarrow> r = -1)"
proof (induction x arbitrary: a b y cnt)
  case Nil
  then obtain k where k: "n - cnt = Suc k" by (metis Suc_diff_Suc)
  show ?case
  proof (cases y)
    case Nil
    then show ?thesis using Nil.prems \<open>cstring m a []\<close> k by (subst strncasecmp_loop.simps) (auto simp: Let_def)
  next
    case (Cons d z)
    then show ?thesis using Nil.prems k by (subst strncasecmp_loop.simps) (auto simp: Let_def)
  qed
next
  case (Cons c x)
  then obtain k where k: "n - cnt = Suc k" by (metis Suc_diff_Suc)
  show ?case
  proof (cases y)
    case Nil
    then show ?thesis using Cons.prems k by (subst strncasecmp_loop.simps) (auto simp: Let_def)
  next
    case (Cons d z)
    show ?thesis
    proof (cases "TOLOWER c = TOLOWER d \<and> cnt + 1 < n")
      case True
      then have "n - Suc cnt = k" using k by simp
      then show ?thesis using True Cons.prems Cons.IH [of "a + 1" "b + 1" z "cnt + 1"] Cons k
        by (subst strncasecmp_loop.simps) (auto simp: Let_def)
    next
      case False
      then have "TOLOWER c = TOLOWER d \<longrightarrow> k = 0" using k by linarith
      then show ?thesis using False Cons.prems Cons k by (subst strncasecmp_loop.simps) (auto simp: Let_def)
    qed
  qed
qed

section \<open>Hexadecimal round trip\<close>

lemma asc2hex_hex_digit: "unat v < 16 \<Longrightarrow> tuya_asc2hex (hex_digit v) = v"
proof -
  assume "unat v < 16"
  then have "unat v \<in> set [0..<16]" by simp
  moreover have "\<forall>k\<in>set [0..<16]. tuya_asc2hex (hex_digit (of_nat k)) = of_nat k"
    by (simp add: upt_conv_Cons hex_digit_def tuya_asc2hex_def)
  ultimately have "tuya_asc2hex (hex_digit (of_nat (unat v))) = of_nat (unat v)" by blast
  then show ?thesis by simp
qed

lemma hex_pack: "push_bit 4 (tuya_asc2hex (hex_digit (b div 16))) + tuya_asc2hex (hex_digit (b mod 16)) = b"
proof -
  have "unat (b div 16) < 16" "unat (b mod 16) < 16"
    using unat_u8_less [of b] by (simp_all add: unat_div unat_mod less_mult_imp_div_less)
  then show ?thesis by (simp add: asc2hex_hex_digit push_bit_eq_mult div_mult_mod_eq)
qed

lemma hex2str_loop_writes:
  assumes "str + 2 * n \<le> hex \<or> hex + n \<le> str" "i \<le> n"
  shows "hex2str_loop m str hex (int n) i = (\<lambda>x. if str + 2 * i \<le> x \<and> x < str + 2 * n
      then let b = m (hex + (x - str) div 2) in hex_digit (if even (x - str) then b div 16 else b mod 16)
      else m x)" (is "_ = ?f m i")
  using assms(2)
proof (induction "n - i" arbitrary: i m)
  case 0
  then show ?case by (subst hex2str_loop.simps) (auto simp: fun_eq_iff)
next
  case (Suc k)
  then have i: "i < n" "k = n - (i + 1)" by simp_all
  let ?m = "m(str + i * 2 := hex_digit (m (hex + i) div 16), str + (i * 2 + 1) := hex_digit (m (hex + i) mod 16))"
  have "hex2str_loop m str hex (int n) i = hex2str_loop ?m str hex (int n) (i + 1)"
    using i by (subst hex2str_loop.simps) (simp add: Let_def)
  also have "\<dots> = ?f ?m (i + 1)" using i Suc.hyps(1) [of "i + 1" ?m] by simp
  also have "\<dots> = ?f m i"
  proof
    fix x
    have same: "?m (hex + (x - str) div 2) = m (hex + (x - str) div 2)"
      if "str + 2 * (i + 1) \<le> x" "x < str + 2 * n" using that assms(1) by auto
    consider "x = str + 2 * i" | "x = str + 2 * i + 1" | "str + 2 * (i + 1) \<le> x" "x < str + 2 * n"
      | "x < str + 2 * i" | "str + 2 * n \<le> x" by atomize_elim arith
    then show "?f ?m (i + 1) x = ?f m i x"
    proof cases
      case 3
      then show ?thesis by (simp only: same if_True simp_thms) (simp add: Let_def)
    qed (use i in \<open>auto simp: Let_def\<close>)
  qed
  finally show ?case .
qed

lemma ascs2hex_loop_writes:
  assumes "out \<le> ascs \<or> ascs + 2 * n \<le> out" "i \<le> n"
  shows "ascs2hex_loop m out ascs (int (2 * n)) (2 * i) = (\<lambda>x. if out + i \<le> x \<and> x < out + n
      then push_bit 4 (tuya_asc2hex (m (ascs + 2 * (x - out)))) + tuya_asc2hex (m (ascs + (2 * (x - out) + 1)))
      else m x)" (is "_ = ?f m i")
  using assms(2)
proof (induction "n - i" arbitrary: i m)
  case 0
  then show ?case by (subst ascs2hex_loop.simps) (auto simp: fun_eq_iff)
next
  case (Suc k)
  then have i: "i < n" "k = n - (i + 1)" by simp_all
  let ?m = "m(out + i := push_bit 4 (tuya_asc2hex (m (ascs + 2 * i))) + tuya_asc2hex (m (ascs + (2 * i + 1))))"
  have "ascs2hex_loop m out ascs (int (2 * n)) (2 * i) = ascs2hex_loop ?m out ascs (int (2 * n)) (2 * (i + 1))"
    using i by (subst ascs2hex_loop.simps) (simp add: Let_def)
  also have "\<dots> = ?f ?m (i + 1)" using i Suc.hyps(1) [of "i + 1" ?m] by simp
  also have "\<dots> = ?f m i"
  proof
    fix x
    have same: "?m (ascs + 2 * (x - out)) = m (ascs + 2 * (x - out))"
      "?m (ascs + (2 * (x - out) + 1)) = m (ascs + (2 * (x - out) + 1))"
      if "out + (i + 1) \<le> x" "x < out + n" using that assms(1) by auto
    consider "x = out + i" | "out + (i + 1) \<le> x" "x < out + n" | "x < out + i" | "out + n \<le> x" by linarith
    then show "?f ?m (i + 1) x = ?f m i x"
    proof cases
      case 2
      then show ?thesis by (simp only: same if_True simp_thms) simp
    qed (use i in auto)
  qed
  finally show ?case .
qed

lemma hex2str_returns: "(\<exists>m'. tuya_hex2str m str hex (int n) = Some m') \<longleftrightarrow> n < 2 ^ 30"
  by (simp add: tuya_hex2str_def)

lemma hex2str_at:
  assumes d: "str + 2 * n \<le> hex \<or> hex + n \<le> str" and r: "tuya_hex2str m str hex (int n) = Some m'"
  shows "i < n \<Longrightarrow> m' (str + 2 * i) = hex_digit (m (hex + i) div 16)"
    and "i < n \<Longrightarrow> m' (str + (2 * i + 1)) = hex_digit (m (hex + i) mod 16)"
    and "m' (str + 2 * n) = 0"
    and "x < str \<or> str + 2 * n < x \<Longrightarrow> m' x = m x"
proof -
  have e: "nat (int str + int n * 2) = str + 2 * n" by simp
  have m': "m' = (hex2str_loop m str hex (int n) 0)(str + 2 * n := 0)"
    using r unfolding tuya_hex2str_def e by (simp split: if_splits)
  note w = hex2str_loop_writes [OF d le0, of m]
  show "i < n \<Longrightarrow> m' (str + 2 * i) = hex_digit (m (hex + i) div 16)"
    unfolding m' w by (simp add: Let_def)
  show "i < n \<Longrightarrow> m' (str + (2 * i + 1)) = hex_digit (m (hex + i) mod 16)"
    unfolding m' w by (simp add: Let_def)
  show "m' (str + 2 * n) = 0"
    unfolding m' by simp
  show "x < str \<or> str + 2 * n < x \<Longrightarrow> m' x = m x"
    unfolding m' w by auto
qed

lemma ascs2hex_even: "l = 2 * int n \<or> l = 2 * int n + 1 \<Longrightarrow>
    tuya_ascs2hex m out ascs l = ascs2hex_loop m out ascs (int (2 * n)) (2 * 0)"
proof -
  assume l: "l = 2 * int n \<or> l = 2 * int n + 1"
  then have "l smod 2 = (if l = 2 * int n then 0 else 1)" by (auto simp: smod_int_alt_def sgn_if)
  then have e: "(if l smod 2 \<noteq> 0 then l - l smod 2 else l) = int (2 * n)" using l by auto
  show ?thesis unfolding tuya_ascs2hex_def e
    by (cases n) (simp_all add: ascs2hex_loop.simps [of m out ascs 0])
qed

text \<open>
  C15: \<open>tuya_hex2str\<close> is defined for exactly the lengths below \<open>2 ^ 30\<close> (of its \<open>int\<close> argument, not
  negative); it writes two digits per byte and a terminating zero, and \<open>tuya_ascs2hex\<close> of that text
  gives the bytes back, for every content and length, with the terminator counted in or not, and also
  when the decoder writes into the text buffer itself; nothing outside the two output buffers changes.
\<close>

theorem hex_roundtrip:
  assumes d: "str + 2 * n \<le> hex \<or> hex + n \<le> str" and o: "out \<le> str \<or> str + 2 * n \<le> out"
    and l: "l = 2 * int n \<or> l = 2 * int n + 1"
  shows "((\<exists>m'. tuya_hex2str m str hex (int n) = Some m') \<longleftrightarrow> n < 2 ^ 30)
    \<and> (\<forall>m' m''. tuya_hex2str m str hex (int n) = Some m' \<and> m'' = tuya_ascs2hex m' out str l \<longrightarrow>
         bytes_at m'' out n = bytes_at m hex n
       \<and> (\<forall>i<n. m' (str + 2 * i) = hex_digit (m (hex + i) div 16)
              \<and> m' (str + (2 * i + 1)) = hex_digit (m (hex + i) mod 16))
       \<and> m' (str + 2 * n) = 0
       \<and> (\<forall>x. (x < out \<or> out + n \<le> x) \<and> (x < str \<or> str + 2 * n < x) \<longrightarrow> m'' x = m x))"
proof (intro conjI allI impI hex2str_returns; elim conjE)
  fix m' m''
  assume r: "tuya_hex2str m str hex (int n) = Some m'" and m'': "m'' = tuya_ascs2hex m' out str l"
  note at = hex2str_at [OF d r]
  have a: "m'' = (\<lambda>x. if out + 0 \<le> x \<and> x < out + n
      then push_bit 4 (tuya_asc2hex (m' (str + 2 * (x - out)))) + tuya_asc2hex (m' (str + (2 * (x - out) + 1)))
      else m' x)"
    unfolding m'' ascs2hex_even [OF l] by (rule ascs2hex_loop_writes [OF o]) simp
  show "bytes_at m'' out n = bytes_at m hex n"
    unfolding a by (simp add: bytes_at_eq_iff at hex_pack del: add_Suc_right One_nat_def)
  show "m'' x = m x" if "x < out \<or> out + n \<le> x" "x < str \<or> str + 2 * n < x" for x
  proof -
    have "\<not> (out + 0 \<le> x \<and> x < out + n)" using that(1) by linarith
    then have "m'' x = m' x" unfolding a by (simp only: if_False)
    then show ?thesis using at(4) [OF that(2)] by simp
  qed
qed (use hex2str_at(1-3) [OF d] in blast)+

theorem hex_roundtrip_witness:
  "\<exists>m'. tuya_hex2str (\<lambda>x. of_nat x) 100 10 2 = Some m' \<and> bytes_at (tuya_ascs2hex m' 100 100 5) 100 2 = [10, 11]"
proof -
  have l: "bytes_at (\<lambda>x. of_nat x :: u8) 10 2 = [10, 11]" by (simp add: bytes_at_def numeral_2_eq_2)
  note rt = hex_roundtrip [of 100 2 10 100 5 "\<lambda>x. of_nat x"]
  obtain m' where m': "tuya_hex2str (\<lambda>x. of_nat x) 100 10 (int 2) = Some m'" using rt by auto
  then have "bytes_at (tuya_ascs2hex m' 100 100 5) 100 2 = bytes_at (\<lambda>x. of_nat x :: u8) 10 2" using rt by simp
  then show ?thesis using l m' by simp
qed

section \<open>Bubble sort\<close>

definition in_order :: "u8 \<Rightarrow> u8 \<Rightarrow> u8 \<Rightarrow> bool" where
  "in_order is_ascend a b \<longleftrightarrow> (if is_ascend \<noteq> 0 then a \<le> b else b \<le> a)"

lemma in_order_trans: "in_order d a b \<Longrightarrow> in_order d b c \<Longrightarrow> in_order d a c"
  by (auto simp: in_order_def split: if_splits)

lemma in_order_refl [simp]: "in_order d a a"
  by (simp add: in_order_def)

lemma sort_swap_cases:
  "sort_swap d m buf i = (if in_order d (m (buf + i)) (m (buf + (i + 1))) then m
     else m(buf + i := m (buf + (i + 1)), buf + (i + 1) := m (buf + i)))"
  by (auto simp: sort_swap_def in_order_def)

lemma mset_bytes_swap:
  assumes "i + 1 < n"
  shows "mset (bytes_at (m(buf + i := m (buf + (i + 1)), buf + (i + 1) := m (buf + i))) buf n) = mset (bytes_at m buf n)"
proof -
  let ?xs = "bytes_at m buf n"
  have "bytes_at (m(buf + i := m (buf + (i + 1)), buf + (i + 1) := m (buf + i))) buf n
      = ?xs[i := ?xs ! (i + 1), i + 1 := ?xs ! i]"
    using assms by (auto simp: list_eq_iff_nth_eq nth_list_update)
  also have "mset \<dots> = mset ?xs" using assms by (intro mset_swap) simp_all
  finally show ?thesis .
qed

text \<open>One pass moves the largest of the first \<open>lim + 1\<close> elements to position \<open>lim\<close>.\<close>

lemma sort_pass_bubbles:
  assumes "i \<le> lim" "\<forall>k\<le>i. in_order d (m (buf + k)) (m (buf + i))"
  shows "let m' = sort_pass d m buf (int lim) i in
     (\<forall>k\<le>lim. in_order d (m' (buf + k)) (m' (buf + lim)))
     \<and> (\<forall>x. x < buf \<or> buf + lim < x \<longrightarrow> m' x = m x)
     \<and> mset (bytes_at m' buf (lim + 1)) = mset (bytes_at m buf (lim + 1))"
  using assms
proof (induction "lim - i" arbitrary: i m)
  case 0
  then show ?case by (subst sort_pass.simps) auto
next
  case (Suc k)
  then have i: "i < lim" "k = lim - (i + 1)" by simp_all
  let ?m = "sort_swap d m buf i"
  have run: "sort_pass d m buf (int lim) i = sort_pass d ?m buf (int lim) (i + 1)"
    using i by (subst sort_pass.simps) simp
  have "in_order d (?m (buf + k)) (?m (buf + (i + 1)))" if k: "k \<le> i + 1" for k
  proof -
    consider "k = i + 1" | "k = i" | "k < i" using k by atomize_elim arith
    then show ?thesis
    proof cases
      case 3
      then have "in_order d (m (buf + k)) (m (buf + i))" using Suc.prems by simp
      then show ?thesis using 3 in_order_trans [of d "m (buf + k)" "m (buf + i)" "m (buf + (i + 1))"]
        by (simp add: sort_swap_cases)
    next
      case 2
      have "in_order d (m (buf + (i + 1))) (m (buf + i))" if "\<not> in_order d (m (buf + i)) (m (buf + (i + 1)))"
        using that by (simp add: in_order_def split: if_splits)
      then show ?thesis using 2 by (simp add: sort_swap_cases)
    qed simp
  qed
  then have ih: "let m' = sort_pass d ?m buf (int lim) (i + 1) in
     (\<forall>k\<le>lim. in_order d (m' (buf + k)) (m' (buf + lim)))
     \<and> (\<forall>x. x < buf \<or> buf + lim < x \<longrightarrow> m' x = ?m x)
     \<and> mset (bytes_at m' buf (lim + 1)) = mset (bytes_at ?m buf (lim + 1))"
    using Suc.hyps(1) [of "i + 1" ?m] i by simp
  have "mset (bytes_at ?m buf (lim + 1)) = mset (bytes_at m buf (lim + 1))"
    using i mset_bytes_swap [of i "lim + 1" m buf] by (simp add: sort_swap_cases)
  moreover have "?m x = m x" if "x < buf \<or> buf + lim < x" for x
    using that i by (auto simp: sort_swap_cases)
  ultimately show ?case using ih unfolding run Let_def by simp
qed

definition suffix_sorted :: "u8 \<Rightarrow> memory \<Rightarrow> nat \<Rightarrow> nat \<Rightarrow> nat \<Rightarrow> bool" where
  "suffix_sorted d m buf n k \<longleftrightarrow> (\<forall>a b. a < b \<longrightarrow> b < n \<longrightarrow> k \<le> b \<longrightarrow> in_order d (m (buf + a)) (m (buf + b)))"

lemma sort_pass_suffix:
  assumes "lim < n" "suffix_sorted d m buf n (lim + 1)"
  shows "let m' = sort_pass d m buf (int lim) 0 in suffix_sorted d m' buf n lim
     \<and> (\<forall>x. x < buf \<or> buf + n \<le> x \<longrightarrow> m' x = m x) \<and> mset (bytes_at m' buf n) = mset (bytes_at m buf n)"
proof -
  let ?m = "sort_pass d m buf (int lim) 0"
  have b: "\<forall>k\<le>lim. in_order d (?m (buf + k)) (?m (buf + lim))"
      "\<forall>x. x < buf \<or> buf + lim < x \<longrightarrow> ?m x = m x"
      "mset (bytes_at ?m buf (lim + 1)) = mset (bytes_at m buf (lim + 1))"
    using sort_pass_bubbles [of 0 lim d m buf] by (simp_all add: Let_def)
  have "set (bytes_at ?m buf (lim + 1)) = set (bytes_at m buf (lim + 1))" by (rule mset_eq_setD [OF b(3)])
  moreover have "set (bytes_at m' buf (lim + 1)) = (\<lambda>k. m' (buf + k)) ` {..lim}" for m'
    unfolding bytes_at_def by (simp only: set_map set_upt) (auto simp: atLeast0LessThan lessThan_Suc_atMost)
  ultimately have "(\<lambda>k. ?m (buf + k)) ` {..lim} = (\<lambda>k. m (buf + k)) ` {..lim}" by simp
  then have old: "\<exists>k'\<le>lim. ?m (buf + k) = m (buf + k')" if "k \<le> lim" for k
    using that by (metis (no_types, lifting) atMost_iff image_iff)
  have "in_order d (?m (buf + x)) (?m (buf + y))" if xy: "x < y" "y < n" "lim \<le> y" for x y
  proof (cases "y = lim")
    case False
    then have y: "?m (buf + y) = m (buf + y)" "lim + 1 \<le> y" using b(2) xy by auto
    obtain x' where "x' < y" "?m (buf + x) = m (buf + x')"
    proof (cases "x \<le> lim")
      case True
      then obtain k where "k \<le> lim" "?m (buf + x) = m (buf + k)" using old by blast
      then show ?thesis using that [of k] y(2) by simp
    qed (use that [of x] xy b(2) in simp)
    then show ?thesis using assms(2) xy y unfolding suffix_sorted_def by simp
  qed (use b(1) xy in simp)
  then have "suffix_sorted d ?m buf n lim" by (simp add: suffix_sorted_def)
  moreover have "mset (bytes_at ?m buf n) = mset (bytes_at m buf n)"
  proof -
    have n: "n = (lim + 1) + (n - (lim + 1))" using assms(1) by simp
    have "bytes_at ?m (buf + (lim + 1)) k = bytes_at m (buf + (lim + 1)) k" for k
      using b(2) by (intro bytes_at_cong) simp
    then show ?thesis by (subst (1 2) n, subst (1 2) bytes_at_append) (simp only: mset_append b(3))
  qed
  ultimately show ?thesis using b(2) assms(1) by (simp add: Let_def)
qed

lemma sort_loop_sorts:
  assumes "1 \<le> j" "j \<le> n" "suffix_sorted d m buf n (n + 1 - j)"
  shows "let m' = sort_loop d m buf (int n) (int j) in suffix_sorted d m' buf n 1
     \<and> (\<forall>x. x < buf \<or> buf + n \<le> x \<longrightarrow> m' x = m x) \<and> mset (bytes_at m' buf n) = mset (bytes_at m buf n)"
  using assms
proof (induction "n - j" arbitrary: j m)
  case 0
  then show ?case by (subst sort_loop.simps) (auto simp: Let_def)
next
  case (Suc k)
  then have j: "j < n" "k = n - (j + 1)" by simp_all
  let ?m = "sort_pass d m buf (int (n - j)) 0"
  have run: "sort_loop d m buf (int n) (int j) = sort_loop d ?m buf (int n) (int (j + 1))"
    using j by (subst sort_loop.simps) (simp add: of_nat_diff add.commute)
  have "suffix_sorted d m buf n (n - j + 1)" using Suc.prems j by (simp add: Suc_diff_le)
  then have p: "suffix_sorted d ?m buf n (n - j)" "\<forall>x. x < buf \<or> buf + n \<le> x \<longrightarrow> ?m x = m x"
      "mset (bytes_at ?m buf n) = mset (bytes_at m buf n)"
    using sort_pass_suffix [of "n - j" n d m buf] Suc.prems(1) j by (simp_all add: Let_def)
  then show ?case using Suc.hyps(1) [of "j + 1" ?m] j unfolding run Let_def by (simp add: p(2,3))
qed

text \<open>
  \<open>tuya_byte_sort\<close> leaves in the buffer the sorted sequence of its bytes, ascending or
  descending as the flag asks, for every content and length, and changes nothing else.
\<close>

theorem byte_sort_sorts:
  "bytes_at (tuya_byte_sort d m buf (int n)) buf n
     = (if d \<noteq> 0 then sort (bytes_at m buf n) else rev (sort (bytes_at m buf n)))
   \<and> (\<forall>x. x < buf \<or> buf + n \<le> x \<longrightarrow> tuya_byte_sort d m buf (int n) x = m x)"
proof (cases "n = 0")
  case True
  then show ?thesis by (simp add: tuya_byte_sort_def sort_loop.simps [of d m buf 0])
next
  case False
  let ?m = "tuya_byte_sort d m buf (int n)"
  have l: "suffix_sorted d ?m buf n 1" "\<forall>x. x < buf \<or> buf + n \<le> x \<longrightarrow> ?m x = m x"
      "mset (bytes_at ?m buf n) = mset (bytes_at m buf n)"
    using sort_loop_sorts [of 1 n d m buf] False
    by (simp_all add: tuya_byte_sort_def Let_def suffix_sorted_def)
  have "sorted_wrt (in_order d) (bytes_at ?m buf n)"
    using l(1) by (simp add: sorted_wrt_iff_nth_less suffix_sorted_def)
  then have "bytes_at ?m buf n = (if d \<noteq> 0 then sort (bytes_at m buf n) else rev (sort (bytes_at m buf n)))"
  proof (cases "d = 0")
    case True
    assume "sorted_wrt (in_order d) (bytes_at ?m buf n)"
    then have "sorted (rev (bytes_at ?m buf n))" using True by (simp add: sorted_wrt_rev in_order_def [abs_def])
    then have "sort (bytes_at m buf n) = rev (bytes_at ?m buf n)" using l(3) by (intro properties_for_sort) simp_all
    then show ?thesis using True by simp
  next
    case False
    assume "sorted_wrt (in_order d) (bytes_at ?m buf n)"
    then have "sorted (bytes_at ?m buf n)" using False by (simp add: in_order_def [abs_def])
    then have "sort (bytes_at m buf n) = bytes_at ?m buf n" using l(3) by (intro properties_for_sort) simp_all
    then show ?thesis using False by simp
  qed
  then show ?thesis using l(2) by blast
qed

theorem byte_sort_sorts_witness:
  "bytes_at (tuya_byte_sort 0 (\<lambda>x. if x = 11 then 7 else 3) 10 3) 10 3 = [7, 3, 3]
   \<and> tuya_byte_sort 0 (\<lambda>x. if x = 11 then 7 else 3) 10 3 13 = 3"
proof -
  have "bytes_at (\<lambda>x. if x = 11 then 7 else (3 :: u8)) 10 3 = [3, 7, 3]"
    by (simp add: bytes_at_def numeral_3_eq_3)
  then show ?thesis
    using byte_sort_sorts [of 0 "\<lambda>x. if x = 11 then 7 else 3" 10 3] by simp
qed

section \<open>Reversal and decimal digits\<close>

lemma buff_reverse_loop_writes:
  assumes "i + k = len div 2"
  shows "buff_reverse_loop m buf len k i
    = (\<lambda>x. if buf + i \<le> x \<and> x < buf + (len - i) then m (buf + len - 1 - (x - buf)) else m x)" (is "_ = ?f m i")
  using assms
proof (induction k arbitrary: i m)
  case 0
  have "x = buf + len - 1 - (x - buf)" if "buf + i \<le> x" "x < buf + (len - i)" for x
    using 0 that by linarith
  then show ?case by (auto simp: fun_eq_iff)
next
  case (Suc k)
  let ?m = "m(buf + i := m (buf + len - 1 - i), buf + len - 1 - i := m (buf + i))"
  have i: "2 * i + 2 \<le> len" using Suc.prems by linarith
  have "i + 1 + k = len div 2" using Suc.prems by simp
  from Suc.IH [OF this, of ?m] have "buff_reverse_loop m buf len (Suc k) i = ?f ?m (i + 1)"
    by (simp only: buff_reverse_loop.simps)
  also have "\<dots> = ?f m i"
  proof
    fix x
    have same: "?m (buf + len - 1 - (x - buf)) = m (buf + len - 1 - (x - buf))"
      if "buf + (i + 1) \<le> x" "x < buf + (len - (i + 1))"
    proof -
      have "buf + len - 1 - (x - buf) \<noteq> buf + i" "buf + len - 1 - (x - buf) \<noteq> buf + len - 1 - i" using that i by linarith+
      then show ?thesis by simp
    qed
    consider "x = buf + i" | "x = buf + len - 1 - i" | "buf + (i + 1) \<le> x" "x < buf + (len - (i + 1))"
      | "x < buf + i" | "buf + (len - i) \<le> x" using i by atomize_elim arith
    then show "?f ?m (i + 1) x = ?f m i x"
    proof cases
      case 3
      then have "buf + i \<le> x \<and> x < buf + (len - i)" by linarith
      then show ?thesis using 3 same by simp
    next
      case 2
      then have "x - buf = len - 1 - i" "buf + i \<le> x" "x < buf + (len - i)" "\<not> x < buf + (len - (i + 1))" using i by linarith+
      then show ?thesis using 2 i by simp
    qed (use i in auto)
  qed
  finally show ?case .
qed

lemma buff_reverse_rev: "bytes_at (tuya_buff_reverse m buf len) buf (unat len) = rev (bytes_at m buf (unat len))"
  by (simp add: tuya_buff_reverse_def buff_reverse_loop_writes list_eq_iff_nth_eq rev_nth)

lemma buff_reverse_other: "x < buf \<or> buf + unat len \<le> x \<Longrightarrow> tuya_buff_reverse m buf len x = m x"
  by (auto simp: tuya_buff_reverse_def buff_reverse_loop_writes)

fun digits :: "nat \<Rightarrow> nat list" where
  "digits t = (if t = 0 then [] else t mod 10 # digits (t div 10))"

declare digits.simps [simp del]

lemma digits_0 [simp]: "digits 0 = []"
  by (simp add: digits.simps)

lemma digits_value: "foldr (\<lambda>d v. v * 10 + d) (digits t) 0 = t"
  by (induction t rule: digits.induct) (subst digits.simps, simp)

lemma length_digits: "t < 10 ^ n \<Longrightarrow> length (digits t) \<le> n"
proof (induction n arbitrary: t)
  case (Suc n)
  then have "t div 10 < 10 ^ n" by (simp add: less_mult_imp_div_less)
  then show ?case using Suc.IH [of "t div 10"] by (subst digits.simps) simp
qed simp

lemma digits_range: "t \<noteq> 0 \<Longrightarrow> 10 ^ (length (digits t) - 1) \<le> t \<and> t < 10 ^ length (digits t)"
proof (induction t rule: less_induct)
  case (less t)
  have l: "length (digits t) = Suc (length (digits (t div 10)))" using less.prems by (subst digits.simps) simp
  show ?case
  proof (cases "t div 10 = 0")
    case True
    then show ?thesis using less.prems l by simp
  next
    case False
    then have b: "10 ^ (length (digits (t div 10)) - 1) \<le> t div 10" "t div 10 < 10 ^ length (digits (t div 10))"
      using less.IH [of "t div 10"] less.prems by simp_all
    obtain k where k: "length (digits (t div 10)) = Suc k" 
      using False digits.simps [of "t div 10"] by simp
    show ?thesis using b unfolding l k
      by (simp add: less_eq_div_iff_mult_less_eq div_less_iff_less_mult mult.commute)
  qed
qed

lemma length_digits_u32: "length (digits (unat (t :: u32))) \<le> 10"
  using length_digits [of "unat t" 10] unat_u32_less [of t] by simp

lemma unat_div_10: "unat (t div 10 :: u32) = unat t div 10"
  by (simp add: unat_div)

lemma unat_mod_10: "unat (t mod 10 :: u32) = unat t mod 10"
  by (simp add: unat_mod)

lemma u8_Suc: "unat i + 1 < 256 \<Longrightarrow> unat (i + 1 :: u8) = unat i + 1"
  by (simp add: unat_word_ariths)

lemma count_digits_eq:
  "t \<noteq> 0 \<Longrightarrow> unat i + length (digits (unat t)) < 256 \<Longrightarrow> unat (count_digits t i) = unat i + length (digits (unat t))"
proof (induction t i rule: count_digits.induct)
  case (1 t i)
  have nz: "unat t \<noteq> 0" using 1(2) by (simp add: unat_eq_0)
  have l: "length (digits (unat t)) = Suc (length (digits (unat (t div 10))))"
    using nz unat_div_10 [of t] by (subst digits.simps) simp
  have s: "unat (i + 1) = unat i + 1" using 1(3) l by (intro u8_Suc) simp
  show ?case
  proof (cases "t div 10 = 0")
    case True
    then show ?thesis using l s by (subst count_digits.simps) simp
  next
    case False
    then show ?thesis using 1(1) [OF refl refl False] 1(3) l s by (subst count_digits.simps) (simp add: Let_def)
  qed
qed

lemma digits_loop_writes:
  "unat i + length (digits (unat t)) < 256 \<Longrightarrow> \<exists>m' j. digits_loop m arr t i = (m', j)
     \<and> unat j = unat i + length (digits (unat t))
     \<and> map unat (bytes_at m' (arr + unat i) (length (digits (unat t)))) = digits (unat t)
     \<and> (\<forall>x. x < arr + unat i \<or> arr + unat i + length (digits (unat t)) \<le> x \<longrightarrow> m' x = m x)"
proof (induction m arr t i rule: digits_loop.induct)
  case (1 m arr t i)
  show ?case
  proof (cases "t = 0")
    case True
    then show ?thesis by (subst digits_loop.simps) simp
  next
    case False
    let ?m = "m(arr + unat i := ucast (t mod 10))"
    have nz: "unat t \<noteq> 0" using False by (simp add: unat_eq_0)
    have l: "digits (unat t) = unat t mod 10 # digits (unat (t div 10))"
      using nz unat_div_10 [of t] by (subst digits.simps) simp
    have s: "unat (i + 1) = unat i + 1" using 1(2) l by (intro u8_Suc) simp
    have d: "unat (ucast (t mod 10) :: u8) = unat t mod 10"
      by (simp add: unsigned_ucast_eq take_bit_eq_mod unat_mod_10)
    obtain m' j where r: "digits_loop ?m arr (t div 10) (i + 1) = (m', j)"
       "unat j = unat (i + 1) + length (digits (unat (t div 10)))"
       "map unat (bytes_at m' (arr + unat (i + 1)) (length (digits (unat (t div 10))))) = digits (unat (t div 10))"
       "\<forall>x. x < arr + unat (i + 1) \<or> arr + unat (i + 1) + length (digits (unat (t div 10))) \<le> x \<longrightarrow> m' x = ?m x"
      using 1(1) [OF False] 1(2) l s by (elim meta_impE) (simp, elim exE conjE)
    have "digits_loop m arr t i = (m', j)" using False r(1) by (subst digits_loop.simps) simp
    moreover have "m' (arr + unat i) = ucast (t mod 10)" using r(4) s by simp
    ultimately show ?thesis using r(2-4) l s d
      by (intro exI [of _ m'] exI [of _ j]) (auto simp: bytes_at_Suc)
  qed
qed

lemma intArray2int_loop_value:
  "unat i + k = n \<Longrightarrow> n < 256 \<Longrightarrow> intArray2int_loop m arr (of_nat n) i num
     = Some (foldl (\<lambda>v b. v * 10 + ucast b) num (bytes_at m (arr + unat i) k))"
proof (induction k arbitrary: i num)
  case 0
  then have "\<not> (ucast i :: u32) < of_nat n" by (simp add: word_less_nat_alt unat_of_nat unsigned_ucast_eq take_bit_eq_mod)
  then show ?case by (subst intArray2int_loop.simps) simp
next
  case (Suc k)
  then have lt: "(ucast i :: u32) < of_nat n" by (simp add: word_less_nat_alt unat_of_nat unsigned_ucast_eq take_bit_eq_mod)
  have s: "unat (i + 1) = unat i + 1" using Suc.prems by (intro u8_Suc) simp
  show ?case using lt Suc.IH [of "i + 1"] Suc.prems s by (subst intArray2int_loop.simps) (simp add: bytes_at_Suc)
qed

lemma foldl_of_nat:
  "foldl (\<lambda>v b. v * 10 + ucast b) (of_nat a :: u32) bs = of_nat (foldl (\<lambda>v d. v * 10 + d) a (map unat bs))"
proof (induction bs arbitrary: a)
  case (Cons b bs)
  have "of_nat a * 10 + ucast b = (of_nat (a * 10 + unat b) :: u32)" by simp
  then show ?case using Cons.IH [of "a * 10 + unat b"] by simp
qed simp

lemma unat_ucast_u8 [simp]: "unat (ucast (j :: u8) :: u16) = unat j" "unat (ucast j :: u32) = unat j"
proof -
  have b: "unat j < 256" by (rule unat_u8_less)
  have "unat j < 2 ^ 16" "unat j < 2 ^ 32" by (rule less_trans [OF b], simp)+
  then show "unat (ucast j :: u16) = unat j" "unat (ucast j :: u32) = unat j"
    by (simp_all add: unsigned_ucast_eq take_bit_nat_eq_self del: unat_u8_less)
qed

lemma digits_read_back:
  assumes "map unat (bytes_at m arr n) = rev (digits (unat num))" "n < 256" "0 < n"
  shows "tuya_intArray2int m arr 0 (of_nat n) = Some num"
proof -
  have u: "ucast (of_nat n :: u8) = (of_nat n :: u32)" 
    using assms(2) by (simp add: word_eq_unat unat_of_nat)
  have nz: "(of_nat n :: u32) \<noteq> 0" using assms by (simp add: word_eq_unat unat_of_nat)
  have "tuya_intArray2int m arr 0 (of_nat n) = intArray2int_loop m arr (of_nat n) 0 0"
    using nz u by (simp add: tuya_intArray2int_def)
  also have "\<dots> = Some (foldl (\<lambda>v b. v * 10 + ucast b) 0 (bytes_at m arr n))"
    using intArray2int_loop_value [of 0 n n m arr 0] assms(2) by simp
  also have "foldl (\<lambda>v b. v * 10 + ucast b) (0 :: u32) (bytes_at m arr n)
      = of_nat (foldl (\<lambda>v d. v * 10 + d) 0 (rev (digits (unat num))))"
    using foldl_of_nat [of 0 "bytes_at m arr n"] assms(1) by simp
  also have "\<dots> = num" by (simp add: foldl_conv_foldr digits_value)
  finally show ?thesis .
qed

text \<open>
  \<open>tuya_int2intArray\<close> stores the decimal digits of a positive number, most significant first,
  when the array is long enough, and \<open>tuya_intArray2int\<close> of that array returns the number; an array
  that is too short gets nothing and the result 0.  The number 0 also gives no digit and the
  result 0, although one digit is reserved for it.
\<close>

theorem int_array_roundtrip:
  assumes r: "tuya_int2intArray m num arr len = (k, m')"
  shows "if num = 0 \<or> len < count_digits num 0 then k = 0 \<and> m' = m
     else tuya_intArray2int m' arr 0 (ucast k) = Some num
       \<and> 10 ^ (unat k - 1) \<le> unat num \<and> unat num < 10 ^ unat k \<and> unat k \<le> unat len
       \<and> (\<forall>x. x < arr \<or> arr + unat k \<le> x \<longrightarrow> m' x = m x)"
proof (cases "num = 0 \<or> len < count_digits num 0")
  case True
  then show ?thesis using r
    by (auto simp: tuya_int2intArray_def digits_loop.simps [of m arr 0] tuya_buff_reverse_def split: if_splits)
next
  case False
  let ?n = "length (digits (unat num))"
  have n: "?n < 256" using length_digits_u32 [of num] by simp
  have nz: "unat num \<noteq> 0" using False by (simp add: unat_eq_0)
  obtain m1 j where d: "digits_loop m arr num 0 = (m1, j)" "unat j = ?n" "map unat (bytes_at m1 arr ?n) = digits (unat num)"
      "\<forall>x. x < arr \<or> arr + ?n \<le> x \<longrightarrow> m1 x = m x"
    using digits_loop_writes [of 0 num m arr] n by (simp, elim exE conjE)
  have k: "k = ucast j" "m' = tuya_buff_reverse m1 arr (ucast j)" using r False d(1) by (auto simp: tuya_int2intArray_def)
  have uj: "unat (ucast j :: u16) = ?n" "unat k = ?n" "ucast k = (of_nat ?n :: u8)"
    using n d(2) by (simp_all add: k word_eq_unat unat_of_nat unsigned_ucast_eq [of "ucast j :: u32"] take_bit_eq_mod)
  have rg: "10 ^ (?n - 1) \<le> unat num" "unat num < 10 ^ ?n" using digits_range [OF nz] by simp_all
  have "bytes_at m' arr ?n = rev (bytes_at m1 arr ?n)" using buff_reverse_rev [of m1 arr "ucast j"] by (simp only: uj k(2))
  then have "map unat (bytes_at m' arr ?n) = rev (digits (unat num))" using d(3)
    by (simp only: rev_map [symmetric])
  then have "tuya_intArray2int m' arr 0 (ucast k) = Some num"
    unfolding uj(3) using n rg(2) nz by (intro digits_read_back) (auto intro: ccontr)
  moreover have "\<forall>x. x < arr \<or> arr + ?n \<le> x \<longrightarrow> m' x = m x"
    using d(4) buff_reverse_other [of _ arr "ucast j" m1] by (simp only: k(2) uj(1)) simp
  moreover have "?n \<le> unat len"
    using False count_digits_eq [of num 0] n by (simp add: word_less_nat_alt not_less)
  ultimately show ?thesis using False rg uj(2) by simp
qed

theorem int_array_roundtrip_witness:
  "\<exists>k m'. tuya_int2intArray (\<lambda>_. 0) 2025 100 8 = (k, m') \<and> tuya_intArray2int m' 100 0 (ucast k) = Some 2025"
proof -
  obtain k m' where r: "tuya_int2intArray (\<lambda>_. 0) 2025 100 8 = (k, m')" by fastforce
  have "count_digits 2025 0 = 4" by (simp add: count_digits.simps [of 2025] count_digits.simps [of 202] count_digits.simps [of 20] count_digits.simps [of 2])
  then have "tuya_intArray2int m' 100 0 (ucast k) = Some 2025" using int_array_roundtrip [OF r] by simp
  then show ?thesis using r by blast
qed

section \<open>Case-insensitive comparison\<close>

text \<open>
  On two different buffers holding C strings, \<open>tuya_strncasecmp\<close> with a positive \<open>n\<close> returns,
  and answers 0 exactly when the first \<open>n\<close> characters agree up to case and the first string has at
  least \<open>n\<close> characters counting its terminator; strings that agree completely but are shorter are
  answered with \<open>-1\<close>, as if they differed.
\<close>

theorem strncasecmp_result:
  assumes "cstring m a x" "cstring m b y" "a \<noteq> b" "0 < n"
  shows "\<exists>r. tuya_strncasecmp m a b n = Some r
    \<and> (r = 0 \<longleftrightarrow> n \<le> length x + 1 \<and> map TOLOWER (take n (x @ [0])) = map TOLOWER (take n (y @ [0])))
    \<and> (map TOLOWER x = map TOLOWER y \<and> length x + 1 < n \<longrightarrow> r = -1)"
  using strncasecmp_loop_cstring [OF assms(1,2), of 0 n] assms(3,4) by (simp add: tuya_strncasecmp_def)

theorem strncasecmp_result_witness:
  "tuya_strncasecmp ((\<lambda>_. 0)(100 := 65, 200 := 97)) 100 200 2 = Some 0
   \<and> tuya_strncasecmp ((\<lambda>_. 0)(100 := 65, 200 := 97)) 100 200 8 = Some (-1)"
proof -
  let ?m = "(\<lambda>_. 0)(100 := 65, 200 := 97) :: memory"
  have c: "cstring ?m 100 [65]" "cstring ?m 200 [97]" by simp_all
  have l: "TOLOWER 65 = TOLOWER 97" by (simp add: TOLOWER_def)
  show ?thesis using strncasecmp_result [OF c, of 2] strncasecmp_result [OF c, of 8] l by auto
qed

section \<open>Bit counts\<close>

fun pop :: "nat \<Rightarrow> nat" where
  "pop n = (if n = 0 then 0 else n mod 2 + pop (n div 2))"

declare pop.simps [simp del]

lemma pop_0 [simp]: "pop 0 = 0"
  by (simp add: pop.simps)

lemma pop_double [simp]: "pop (2 * k) = pop k" "pop (Suc (2 * k)) = Suc (pop k)"
  using pop.simps [of "2 * k"] pop.simps [of "Suc (2 * k)"] by simp_all

lemma pop_clear_lowest: "n \<noteq> 0 \<Longrightarrow> pop n = Suc (pop (n AND (n - 1)))"
proof (induction n rule: less_induct)
  case (less n)
  show ?case
  proof (cases "even n")
    case True
    then obtain k where k: "n = 2 * k" by auto
    then have c: "n AND (n - 1) = 2 * (k AND (k - 1))"
      using less.prems and_rec [of n "n - 1"] by (cases k) auto
    show ?thesis using less.IH [of k] less.prems k c by simp
  next
    case False
    then obtain k where k: "n = 2 * k + 1" by (auto elim: oddE)
    then have "n AND (n - 1) = 2 * k" using and_rec [of n "2 * k"] by simp
    then show ?thesis using k by simp
  qed
qed

lemma pop_bits: "n < 2 ^ k \<Longrightarrow> pop n = length (filter (bit n) [0..<k])"
proof (induction k arbitrary: n)
  case (Suc k)
  have u: "[0..<Suc k] = 0 # map Suc [0..<k]" by (simp add: upt_conv_Cons map_Suc_upt del: upt_Suc)
  have d: "bit n \<circ> Suc = bit (n div 2)" by (auto simp: fun_eq_iff bit_Suc)
  have "pop (n div 2) = length (filter (bit (n div 2)) [0..<k])" using Suc by (intro Suc.IH) simp
  moreover have "pop n = n mod 2 + pop (n div 2)" by (cases "n = 0") (simp_all add: pop.simps [of n])
  ultimately show ?case unfolding u by (simp add: filter_map d bit_0 odd_iff_mod_2_eq_one)
qed simp

lemma bit1_loop_count: "bit1_loop num cnt = cnt + of_nat (pop (unat num))"
proof (induction num cnt rule: bit1_loop.induct)
  case (1 num cnt)
  show ?case
  proof (cases "num = 0")
    case False
    have "unat (num AND (num - 1)) = unat num AND (unat num - 1)"
      using False by (simp add: unsigned_and_eq unat_minus_one)
    then have "pop (unat num) = Suc (pop (unat (num AND (num - 1))))"
      using pop_clear_lowest [of "unat num"] False by (simp add: unat_eq_0)
    then show ?thesis using 1 [OF False] False by (subst bit1_loop.simps) simp
  qed (subst bit1_loop.simps, simp)
qed

text \<open>After \<open>k\<close> shifts of the complement, the top bit tells whether the next leading bit is zero too.\<close>

lemma leading_loop_count:
  assumes "unat num < 2 ^ j" "j \<le> 32" "unat temp = 2 ^ 32 - (unat num + 1) * 2 ^ (32 - j)"
  shows "\<exists>r. leading_loop temp cnt = cnt + of_nat r \<and> r \<le> j \<and> unat num < 2 ^ (j - r)
     \<and> (unat num = 0 \<longrightarrow> r = j) \<and> (unat num \<noteq> 0 \<longrightarrow> r < j \<and> 2 ^ (j - 1 - r) \<le> unat num)"
  using assms
proof (induction j arbitrary: temp cnt)
  case 0
  then have "unat temp = 0" by simp
  then show ?case using 0 by (subst leading_loop.simps) (simp add: top_bit_iff)
next
  case (Suc j)
  define e where "e = 32 - Suc j"
  have p: "(2 :: nat) ^ 32 = 2 ^ Suc j * 2 ^ e" "(2 :: nat) ^ 31 = 2 ^ j * 2 ^ e"
    using Suc.prems(2) by (simp_all flip: power_add add: e_def)
  have t: "unat temp = (2 ^ Suc j - (unat num + 1)) * 2 ^ e"
    using Suc.prems(3) unfolding p(1) e_def [symmetric] by (simp add: diff_mult_distrib)
  have top: "2 ^ 31 \<le> unat temp \<longleftrightarrow> unat num < 2 ^ j"
    unfolding t p(2) using Suc.prems(1) by auto
  show ?case
  proof (cases "unat num < 2 ^ j")
    case True
    then have c: "temp AND 0x80000000 \<noteq> 0" using top by (simp only: top_bit_iff)
    have "unat (push_bit 1 temp) = 2 * unat temp mod 2 ^ 32" by (rule unat_shift_1)
    also have "2 * unat temp = 2 ^ 32 + (2 ^ 32 - (unat num + 1) * 2 ^ (32 - j))"
    proof -
      have "32 - j = Suc e" using Suc.prems(2) by (simp add: e_def)
      moreover have "(2 ^ Suc j - (unat num + 1)) = 2 ^ j + (2 ^ j - (unat num + 1))" using True by simp
      ultimately show ?thesis unfolding t p(1) by (simp add: add_mult_distrib diff_mult_distrib algebra_simps)
    qed
    also have "\<dots> mod 2 ^ 32 = 2 ^ 32 - (unat num + 1) * 2 ^ (32 - j)" by simp
    finally obtain r where r: "leading_loop (push_bit 1 temp) (cnt + 1) = (cnt + 1) + of_nat r" "r \<le> j" "unat num < 2 ^ (j - r)"
      "unat num = 0 \<longrightarrow> r = j" "unat num \<noteq> 0 \<longrightarrow> r < j \<and> 2 ^ (j - 1 - r) \<le> unat num"
      using Suc.IH [OF True, of "push_bit 1 temp" "cnt + 1"] Suc.prems(2) by auto
    have "leading_loop temp cnt = cnt + of_nat (Suc r)" using r(1) c by (subst leading_loop.simps) simp
    then show ?thesis using r(2-5) by (intro exI [of _ "Suc r"]) auto
  next
    case False
    then have c: "temp AND 0x80000000 = 0" using top top_bit_iff [of temp] by blast
    then show ?thesis using False Suc.prems(1) by (subst leading_loop.simps) (auto intro!: exI [of _ 0])
  qed
qed

text \<open>
  \<open>tuya_bit1_count\<close> returns the number of one bits, and \<open>tuya_leading_zeros_count\<close> the number
  of zero bits above the highest one bit, 32 for the number 0.
\<close>

theorem bit_counts:
  "unat (tuya_bit1_count num) = length (filter (bit num) [0..<32])
   \<and> (\<exists>r. tuya_leading_zeros_count num = of_nat r \<and> r \<le> 32
        \<and> (if num = 0 then r = 32 else 2 ^ (31 - r) \<le> unat num \<and> unat num < 2 ^ (32 - r)))"
proof -
  have u: "unat num < 2 ^ 32" using unat_u32_less [of num] by simp
  have "bit num = bit (unat num)" by (simp add: fun_eq_iff bit_unsigned_iff)
  then have "pop (unat num) = length (filter (bit num) [0..<32])" using pop_bits [OF u] by simp
  moreover have "length (filter (bit num) [0..<32]) < 2 ^ 32"
    using length_filter_le [of "bit num" "[0..<32]"] by simp
  ultimately have "unat (tuya_bit1_count num) = length (filter (bit num) [0..<32])"
    by (simp add: tuya_bit1_count_def bit1_loop_count unat_of_nat)
  moreover have "unat (NOT num) = 2 ^ 32 - (unat num + 1) * 2 ^ (32 - 32)"
  proof -
    have "NOT num = -1 - num" by (simp add: not_eq_complement)
    then show ?thesis by (simp add: unat_sub unsigned_minus_1_eq_mask mask_eq_exp_minus_1)
  qed
  ultimately show ?thesis
    using leading_loop_count [OF u le_refl, of "NOT num" 0] by (auto simp: tuya_leading_zeros_count_def unat_eq_0)
qed

end
