(* ===== verification/Tkl_Queue.thy ===== *)
theory Tkl_Queue
  imports Tuya_Prelude "HOL-Library.Signed_Division"
begin

text \<open>
  The blocking message queue of \<open>tkl_queue.c\<close>: a bounded ring of message pointers guarded by one
  mutex and two condition variables (\<open>rpa_queue\<close>), and the copying message interface above it
  (\<open>tkl_queue\<close>).
  Every call runs in at most two atomic stages, because all shared fields are read and written with
  the mutex held: from the entry to the return or to \<open>pthread_cond_wait\<close>, which gives the mutex up,
  and from the wake-up to the return.  The second half of the theory interleaves the stages of any
  number of threads.
  Results of \<open>malloc\<close> and of the pthread functions are arguments; the pthread calls made are
  recorded in \<open>rq_calls\<close>, newest first.  The outer \<open>None\<close> of a stage is a null or out-of-bounds
  access to the ring.
\<close>

section \<open>The ring of pointers\<close>

datatype cond_var = not_empty | not_full

type_synonym timespec = "int \<times> int"

datatype pthread_call =
    MutexLock
  | MutexUnlock
  | CondSignal cond_var
  | CondWait cond_var
  | CondTimedwait cond_var timespec
  | CondDestroy cond_var
  | MutexDestroy

record rpa_queue_t =
  rq_data :: "nat list option"
  rq_nelts :: u32
  rq_in :: u32
  rq_out :: u32
  rq_bounds :: u32
  rq_full_waiters :: u32
  rq_empty_waiters :: u32
  rq_terminated :: bool
  rq_calls :: "pthread_call list"

definition RPA_WAIT_NONE :: int where "RPA_WAIT_NONE = 0"
definition RPA_WAIT_FOREVER :: int where "RPA_WAIT_FOREVER = -1"
definition TKL_QUEUE_WAIT_FROEVER :: u32 where "TKL_QUEUE_WAIT_FROEVER = 0xFFFFFFFF"

definition rpa_queue_full :: "rpa_queue_t \<Rightarrow> bool" where
  "rpa_queue_full q \<longleftrightarrow> rq_nelts q = rq_bounds q"

definition rpa_queue_empty :: "rpa_queue_t \<Rightarrow> bool" where
  "rpa_queue_empty q \<longleftrightarrow> rq_nelts q = 0"

definition pcall :: "pthread_call \<Rightarrow> rpa_queue_t \<Rightarrow> rpa_queue_t" where
  "pcall c q = q\<lparr>rq_calls := c # rq_calls q\<rparr>"

text \<open>The carry loop of \<open>set_timeout\<close>, on seconds and milliseconds.\<close>

function carry_loop :: "int \<Rightarrow> int \<Rightarrow> int \<times> int" where
  "carry_loop sec ms = (if ms > 1000 then carry_loop (sec + 1) (ms - 1000) else (sec, ms))"
  by auto
termination by (relation "measure (\<lambda>(s, ms). nat ms)") auto

definition set_timeout :: "timespec \<Rightarrow> int \<Rightarrow> timespec" where
  "set_timeout now wait_ms =
     (let sec = fst now + wait_ms sdiv 1000;
          ms = snd now sdiv 1000000 + wait_ms smod 1000;
          (sec', ms') = carry_loop sec ms
      in (sec', ms' * 1000000))"

definition rpa_queue_destroy :: "rpa_queue_t \<Rightarrow> rpa_queue_t" where
  "rpa_queue_destroy q = pcall MutexDestroy (pcall (CondDestroy not_full) (pcall (CondDestroy not_empty) q))"

text \<open>
  \<open>rpa_queue_create\<close>: \<open>m1\<close> to \<open>m4\<close> tell whether the four small allocations succeed, \<open>r1\<close> to \<open>r3\<close>
  are the results of the pthread initialisers, and \<open>d\<close> is the element array the last \<open>malloc\<close>
  returns (its result is not tested).
\<close>

definition rpa_queue_create ::
    "bool \<Rightarrow> bool \<Rightarrow> bool \<Rightarrow> bool \<Rightarrow> int \<Rightarrow> int \<Rightarrow> int \<Rightarrow> nat list option \<Rightarrow> u32 \<Rightarrow> rpa_queue_t option" where
  "rpa_queue_create m1 m2 m3 m4 r1 r2 r3 d queue_capacity =
     (if \<not> m1 then None
      else if \<not> m2 then None
      else if \<not> m3 then None
      else if \<not> m4 then None
      else if r1 \<noteq> 0 then None
      else if r2 \<noteq> 0 then None
      else if r3 \<noteq> 0 then None
      else Some \<lparr>rq_data = d, rq_nelts = 0, rq_in = 0, rq_out = 0, rq_bounds = queue_capacity,
                 rq_full_waiters = 0, rq_empty_waiters = 0, rq_terminated = False, rq_calls = []\<rparr>)"

text \<open>The common end of both push functions, with the mutex held: store, count, signal, unlock.\<close>

definition push_store :: "int \<Rightarrow> rpa_queue_t \<Rightarrow> nat \<Rightarrow> (bool \<times> rpa_queue_t) option" where
  "push_store sig q data =
     (case rq_data q of
        None \<Rightarrow> None
      | Some d \<Rightarrow>
          if unat (rq_in q) < length d
          then let q1 = q\<lparr>rq_data := Some (d[unat (rq_in q) := data]), rq_in := rq_in q + 1\<rparr>;
                   q2 = (if rq_in q1 \<ge> rq_bounds q1 then q1\<lparr>rq_in := rq_in q1 - rq_bounds q1\<rparr> else q1);
                   q3 = q2\<lparr>rq_nelts := rq_nelts q2 + 1\<rparr>
               in if rq_empty_waiters q3 \<noteq> 0
                  then Some (sig = 0, pcall MutexUnlock (pcall (CondSignal not_empty) q3))
                  else Some (True, pcall MutexUnlock q3)
          else None)"

definition rpa_queue_trypush :: "int \<Rightarrow> int \<Rightarrow> rpa_queue_t \<Rightarrow> nat \<Rightarrow> (bool \<times> rpa_queue_t) option" where
  "rpa_queue_trypush lock sig q data =
     (if rq_terminated q then Some (False, q)
      else if lock \<noteq> 0 then Some (False, q)
      else let q0 = pcall MutexLock q
           in if rpa_queue_full q0 then Some (False, pcall MutexUnlock q0)
              else push_store sig q0 data)"

text \<open>\<open>None\<close> in the first component: the thread is inside \<open>pthread_cond_wait\<close>.\<close>

definition wait_call :: "cond_var \<Rightarrow> timespec \<Rightarrow> int \<Rightarrow> pthread_call" where
  "wait_call c now wait_ms =
     (if wait_ms = RPA_WAIT_FOREVER then CondWait c else CondTimedwait c (set_timeout now wait_ms))"

definition rpa_queue_timedpush ::
    "int \<Rightarrow> int \<Rightarrow> timespec \<Rightarrow> rpa_queue_t \<Rightarrow> nat \<Rightarrow> int \<Rightarrow> (bool option \<times> rpa_queue_t) option" where
  "rpa_queue_timedpush lock sig now q data wait_ms =
     (if wait_ms = RPA_WAIT_NONE
      then map_option (\<lambda>(b, q'). (Some b, q')) (rpa_queue_trypush lock sig q data)
      else if rq_terminated q then Some (Some False, q)
      else if lock \<noteq> 0 then Some (Some False, q)
      else let q0 = pcall MutexLock q
           in if rpa_queue_full q0
              then (if \<not> rq_terminated q0
                    then Some (None, pcall (wait_call not_full now wait_ms)
                                       (q0\<lparr>rq_full_waiters := rq_full_waiters q0 + 1\<rparr>))
                    else Some (Some False, pcall MutexUnlock q0))
              else map_option (\<lambda>(b, q'). (Some b, q')) (push_store sig q0 data))"

text \<open>The rest of \<open>rpa_queue_timedpush\<close> after the wait returned \<open>rv\<close>, with the mutex held again.\<close>

definition timedpush_resume :: "int \<Rightarrow> int \<Rightarrow> rpa_queue_t \<Rightarrow> nat \<Rightarrow> (bool \<times> rpa_queue_t) option" where
  "timedpush_resume rv sig q data =
     (let q1 = q\<lparr>rq_full_waiters := rq_full_waiters q - 1\<rparr>
      in if rv \<noteq> 0 then Some (False, pcall MutexUnlock q1)
         else if rpa_queue_full q1 then Some (False, pcall MutexUnlock q1)
         else push_store sig q1 data)"

definition pop_take :: "int \<Rightarrow> rpa_queue_t \<Rightarrow> (bool \<times> nat \<times> rpa_queue_t) option" where
  "pop_take sig q =
     (case rq_data q of
        None \<Rightarrow> None
      | Some d \<Rightarrow>
          if unat (rq_out q) < length d
          then let data = d ! unat (rq_out q);
                   q1 = q\<lparr>rq_nelts := rq_nelts q - 1, rq_out := rq_out q + 1\<rparr>;
                   q2 = (if rq_out q1 \<ge> rq_bounds q1 then q1\<lparr>rq_out := rq_out q1 - rq_bounds q1\<rparr> else q1)
               in if rq_full_waiters q2 \<noteq> 0
                  then Some (sig = 0, data, pcall MutexUnlock (pcall (CondSignal not_full) q2))
                  else Some (True, data, pcall MutexUnlock q2)
          else None)"

text \<open>The pointer returned with \<open>False\<close> is what \<open>*data\<close> holds: 0 unless the ring was read.\<close>

definition rpa_queue_trypop :: "int \<Rightarrow> int \<Rightarrow> rpa_queue_t \<Rightarrow> (bool \<times> nat \<times> rpa_queue_t) option" where
  "rpa_queue_trypop lock sig q =
     (if rq_terminated q then Some (False, 0, q)
      else if lock \<noteq> 0 then Some (False, 0, q)
      else let q0 = pcall MutexLock q
           in if rpa_queue_empty q0 then Some (False, 0, pcall MutexUnlock q0)
              else pop_take sig q0)"

definition rpa_queue_timedpop ::
    "int \<Rightarrow> int \<Rightarrow> timespec \<Rightarrow> rpa_queue_t \<Rightarrow> int \<Rightarrow> (bool option \<times> nat \<times> rpa_queue_t) option" where
  "rpa_queue_timedpop lock sig now q wait_ms =
     (if wait_ms = RPA_WAIT_NONE
      then map_option (\<lambda>(b, p, q'). (Some b, p, q')) (rpa_queue_trypop lock sig q)
      else if rq_terminated q then Some (Some False, 0, q)
      else if lock \<noteq> 0 then Some (Some False, 0, q)
      else let q0 = pcall MutexLock q
           in if rpa_queue_empty q0
              then (if \<not> rq_terminated q0
                    then Some (None, 0, pcall (wait_call not_empty now wait_ms)
                                          (q0\<lparr>rq_empty_waiters := rq_empty_waiters q0 + 1\<rparr>))
                    else Some (Some False, 0, pcall MutexUnlock q0))
              else map_option (\<lambda>(b, p, q'). (Some b, p, q')) (pop_take sig q0))"

definition timedpop_resume :: "int \<Rightarrow> int \<Rightarrow> rpa_queue_t \<Rightarrow> (bool \<times> nat \<times> rpa_queue_t) option" where
  "timedpop_resume rv sig q =
     (let q1 = q\<lparr>rq_empty_waiters := rq_empty_waiters q - 1\<rparr>
      in if rv \<noteq> 0 then Some (False, 0, pcall MutexUnlock q1)
         else if rpa_queue_empty q1 then Some (False, 0, pcall MutexUnlock q1)
         else pop_take sig q1)"

section \<open>The message interface\<close>

text \<open>
  The buffers obtained from \<open>malloc\<close> and not yet released are a map from pointers to contents.
  \<open>tq_post\<close> and \<open>tq_fetch\<close> hold the threads that wait inside a post (with their buffer) or a fetch.
\<close>

record tkl_queue_sys =
  tq_queue :: rpa_queue_t
  tq_msgsize :: nat
  tq_bufs :: "nat \<rightharpoonup> bytes"
  tq_post :: "nat \<rightharpoonup> nat"
  tq_fetch :: "nat set"

definition tkl_queue_create_init ::
    "bool \<Rightarrow> bool \<Rightarrow> rpa_queue_t option \<Rightarrow> int \<Rightarrow> int \<Rightarrow> OPERATE_RET \<times> (rpa_queue_t \<times> int) option" where
  "tkl_queue_create_init handle_null malloc_ok created msgsize msgcount =
     (if handle_null \<or> msgsize = 0 \<or> msgcount = 0 then (OPRT_INVALID_PARM, None)
      else if \<not> malloc_ok then (OPRT_MALLOC_FAILED, None)
      else case created of
             None \<Rightarrow> (OPRT_OS_ADAPTER_QUEUE_CREAT_FAILED, None)
           | Some q \<Rightarrow> (OPRT_OK, Some (q, msgsize)))"

definition wait_ms_of :: "u32 \<Rightarrow> int" where
  "wait_ms_of timeout = (if timeout = TKL_QUEUE_WAIT_FROEVER then RPA_WAIT_FOREVER else sint timeout)"

text \<open>\<open>tkl_queue_post\<close> by thread \<open>t\<close>, where \<open>malloc\<close> returned \<open>buf\<close>; \<open>None\<close> in the result: waiting.\<close>

definition post_result :: "bool \<Rightarrow> OPERATE_RET" where
  "post_result b = (if b then OPRT_OK else OPRT_OS_ADAPTER_QUEUE_SEND_FAIL)"

definition tkl_queue_post ::
    "bool \<Rightarrow> nat \<Rightarrow> int \<Rightarrow> int \<Rightarrow> timespec \<Rightarrow> tkl_queue_sys \<Rightarrow> nat \<Rightarrow> bytes option \<Rightarrow> u32
      \<Rightarrow> (OPERATE_RET option \<times> tkl_queue_sys) option" where
  "tkl_queue_post handle_null buf lock sig now s t data timeout =
     (case data of
        None \<Rightarrow> Some (Some OPRT_INVALID_PARM, s)
      | Some msg \<Rightarrow>
          if handle_null then Some (Some OPRT_INVALID_PARM, s)
          else if buf = 0 then Some (Some OPRT_MALLOC_FAILED, s)
          else let s1 = s\<lparr>tq_bufs := (tq_bufs s)(buf \<mapsto> take (tq_msgsize s) msg)\<rparr>
               in case rpa_queue_timedpush lock sig now (tq_queue s1) buf (wait_ms_of timeout) of
                    None \<Rightarrow> None
                  | Some (Some b, q) \<Rightarrow> Some (Some (post_result b), s1\<lparr>tq_queue := q\<rparr>)
                  | Some (None, q) \<Rightarrow> Some (None, s1\<lparr>tq_queue := q, tq_post := (tq_post s1)(t \<mapsto> buf)\<rparr>))"

definition post_resume :: "int \<Rightarrow> int \<Rightarrow> tkl_queue_sys \<Rightarrow> nat \<Rightarrow> (OPERATE_RET \<times> tkl_queue_sys) option" where
  "post_resume rv sig s t =
     (case tq_post s t of
        None \<Rightarrow> None
      | Some buf \<Rightarrow>
          case timedpush_resume rv sig (tq_queue s) buf of
            None \<Rightarrow> None
          | Some (b, q) \<Rightarrow> Some (post_result b, s\<lparr>tq_queue := q, tq_post := (tq_post s)(t := None)\<rparr>))"

text \<open>The end of \<open>tkl_queue_fetch\<close>: copy the message out and release its buffer.\<close>

definition fetch_finish :: "tkl_queue_sys \<Rightarrow> bool \<Rightarrow> nat \<Rightarrow> (OPERATE_RET \<times> bytes \<times> tkl_queue_sys) option" where
  "fetch_finish s b buf =
     (if \<not> b then Some (OPRT_OS_ADAPTER_QUEUE_RECV_FAIL, [], s)
      else if buf = 0 then Some (OPRT_OK, [], s)
      else case tq_bufs s buf of
             None \<Rightarrow> None
           | Some msg \<Rightarrow> Some (OPRT_OK, take (tq_msgsize s) msg, s\<lparr>tq_bufs := (tq_bufs s)(buf := None)\<rparr>))"

definition tkl_queue_fetch ::
    "bool \<Rightarrow> int \<Rightarrow> int \<Rightarrow> timespec \<Rightarrow> tkl_queue_sys \<Rightarrow> nat \<Rightarrow> u32 \<Rightarrow> (OPERATE_RET option \<times> bytes \<times> tkl_queue_sys) option" where
  "tkl_queue_fetch handle_null lock sig now s t timeout =
     (if handle_null then Some (Some OPRT_INVALID_PARM, [], s)
      else case rpa_queue_timedpop lock sig now (tq_queue s) (wait_ms_of timeout) of
        None \<Rightarrow> None
      | Some (Some b, buf, q) \<Rightarrow>
          map_option (\<lambda>(r, m, s'). (Some r, m, s')) (fetch_finish (s\<lparr>tq_queue := q\<rparr>) b buf)
      | Some (None, buf, q) \<Rightarrow> Some (None, [], s\<lparr>tq_queue := q, tq_fetch := insert t (tq_fetch s)\<rparr>))"

definition fetch_resume :: "int \<Rightarrow> int \<Rightarrow> tkl_queue_sys \<Rightarrow> nat \<Rightarrow> (OPERATE_RET \<times> bytes \<times> tkl_queue_sys) option" where
  "fetch_resume rv sig s t =
     (case timedpop_resume rv sig (tq_queue s) of
        None \<Rightarrow> None
      | Some (b, buf, q) \<Rightarrow> fetch_finish (s\<lparr>tq_queue := q, tq_fetch := tq_fetch s - {t}\<rparr>) b buf)"

text \<open>
  \<open>tkl_queue_free\<close> of the structure at the address \<open>handle\<close> destroys the pthread objects and gives the structure back;
  the first result is what is passed to \<open>free\<close>.  The ring, its array, the pthread objects' memory and the
  messages still queued are not released.
\<close>

definition tkl_queue_free :: "nat \<Rightarrow> tkl_queue_sys \<Rightarrow> nat list \<times> tkl_queue_sys" where
  "tkl_queue_free handle s =
     (if handle = 0 then ([], s)
      else let s1 = s\<lparr>tq_queue := rpa_queue_destroy (tq_queue s)\<rparr> in ([handle], s1))"

section \<open>Interleaving\<close>

text \<open>
  One atomic stage of one thread.  A waiting thread may be woken at any moment with any result of
  the wait, which covers signals, time-outs, interruptions and spurious wake-ups.  \<open>malloc\<close> fails or
  returns a pointer that is not in use, and \<open>pthread_cond_signal\<close> on the initialised condition
  variable returns 0; \<open>pthread_mutex_lock\<close> may fail.
\<close>

datatype tq_event =
    Post nat bytes "OPERATE_RET option"
  | PostWoken nat bytes OPERATE_RET
  | Fetch nat bytes "OPERATE_RET option"
  | FetchWoken nat bytes OPERATE_RET

inductive tq_step :: "tkl_queue_sys \<Rightarrow> tq_event \<Rightarrow> tkl_queue_sys \<Rightarrow> bool" where
  post: "tq_step s (Post t msg r) s'"
    if "t \<notin> dom (tq_post s)" "t \<notin> tq_fetch s" "length msg = tq_msgsize s" "buf = 0 \<or> buf \<notin> dom (tq_bufs s)"
      "tkl_queue_post False buf lock 0 now s t (Some msg) timeout = Some (r, s')"
| post_woken: "tq_step s (PostWoken t msg r) s'"
    if "tq_post s t = Some buf" "tq_bufs s buf = Some msg" "post_resume rv 0 s t = Some (r, s')"
| fetch: "tq_step s (Fetch t msg r) s'"
    if "t \<notin> dom (tq_post s)" "t \<notin> tq_fetch s" "tkl_queue_fetch False lock 0 now s t timeout = Some (r, msg, s')"
| fetch_woken: "tq_step s (FetchWoken t msg r) s'"
    if "t \<in> tq_fetch s" "fetch_resume rv 0 s t = Some (r, msg, s')"

inductive tq_run :: "tkl_queue_sys \<Rightarrow> tq_event list \<Rightarrow> tkl_queue_sys \<Rightarrow> bool" where
  start: "tq_run s [] s"
| more: "tq_run s (evs @ [ev]) s''" if "tq_run s evs s'" "tq_step s' ev s''"

fun sent :: "tq_event \<Rightarrow> bytes list" where
  "sent (Post t msg (Some OPRT_OK)) = [msg]"
| "sent (PostWoken t msg OPRT_OK) = [msg]"
| "sent _ = []"

fun received :: "tq_event \<Rightarrow> bytes list" where
  "received (Fetch t msg (Some OPRT_OK)) = [msg]"
| "received (FetchWoken t msg OPRT_OK) = [msg]"
| "received _ = []"

section \<open>The ring holds a list\<close>

declare carry_loop.simps [simp del]

definition rq_slots :: "nat list \<Rightarrow> nat \<Rightarrow> nat \<Rightarrow> nat \<Rightarrow> nat list" where
  "rq_slots d b out n = map (\<lambda>i. d ! ((out + i) mod b)) [0..<n]"

definition rq_inv :: "rpa_queue_t \<Rightarrow> nat list \<Rightarrow> bool" where
  "rq_inv q ps \<longleftrightarrow> (\<exists>d. rq_data q = Some d \<and> length d = unat (rq_bounds q)
     \<and> unat (rq_in q) < unat (rq_bounds q) \<and> unat (rq_out q) < unat (rq_bounds q)
     \<and> unat (rq_nelts q) = length ps \<and> length ps \<le> unat (rq_bounds q)
     \<and> unat (rq_in q) = (unat (rq_out q) + length ps) mod unat (rq_bounds q)
     \<and> ps = rq_slots d (unat (rq_bounds q)) (unat (rq_out q)) (length ps))"

lemma rq_slots_simps [simp]: "length (rq_slots d b out n) = n" "i < n \<Longrightarrow> rq_slots d b out n ! i = d ! ((out + i) mod b)"
  by (simp_all add: rq_slots_def)

lemma pcall_simps [simp]:
  "rq_data (pcall c q) = rq_data q" "rq_nelts (pcall c q) = rq_nelts q" "rq_in (pcall c q) = rq_in q"
  "rq_out (pcall c q) = rq_out q" "rq_bounds (pcall c q) = rq_bounds q" "rq_terminated (pcall c q) = rq_terminated q"
  "rq_full_waiters (pcall c q) = rq_full_waiters q" "rq_empty_waiters (pcall c q) = rq_empty_waiters q"
  "rq_calls (pcall c q) = c # rq_calls q"
  by (simp_all add: pcall_def)

lemma rq_inv_frame [simp]:
  "rq_inv (pcall c q) ps = rq_inv q ps"
  "rq_inv (q\<lparr>rq_full_waiters := w\<rparr>) ps = rq_inv q ps" "rq_inv (q\<lparr>rq_empty_waiters := w\<rparr>) ps = rq_inv q ps"
  by (simp_all add: rq_inv_def)

lemma mod_suc_wrap: "i < b \<Longrightarrow> (if b \<le> Suc i then Suc i - b else Suc i) = Suc i mod b" for i b :: nat
  by (cases "Suc i = b") auto

lemma mod_slots_inj: "i < j \<Longrightarrow> j < b \<Longrightarrow> (out + i) mod b \<noteq> (out + j) mod b" for i j b out :: nat
proof
  assume ij: "i < j" "j < b" and "(out + i) mod b = (out + j) mod b"
  then have "b dvd (out + j) - (out + i)" by (metis mod_eq_dvd_iff_nat add_le_cancel_left less_or_eq_imp_le)
  then show False using ij by (simp add: nat_dvd_not_less)
qed

text \<open>Advancing a ring position, in 32-bit arithmetic.\<close>

lemma u32_next: "unat i < unat b \<Longrightarrow> unat (i + 1) = Suc (unat i)" for i b :: u32
proof -
  assume "unat i < unat b"
  then have "Suc (unat i) < 4294967296" using unat_u32_less [of b] by linarith
  then show ?thesis by (simp add: unat_word_ariths)
qed

lemma advance:
  fixes i b :: u32
  assumes "unat i < unat b"
  shows "unat (if i + 1 \<ge> b then i + 1 - b else i + 1) = Suc (unat i) mod unat b"
proof -
  have u: "unat (i + 1) = Suc (unat i)" by (rule u32_next [OF assms])
  show ?thesis unfolding mod_suc_wrap [OF assms, symmetric] using u by (simp add: word_le_nat_alt unat_sub_ge)
qed

lemma push_store_inv:
  assumes "rq_inv q ps" "length ps < unat (rq_bounds q)"
  shows "\<exists>q'. push_store 0 q p = Some (True, q') \<and> rq_inv q' (ps @ [p]) \<and> rq_bounds q' = rq_bounds q
     \<and> rq_terminated q' = rq_terminated q \<and> rq_full_waiters q' = rq_full_waiters q \<and> rq_empty_waiters q' = rq_empty_waiters q
     \<and> rq_calls q' = MutexUnlock # (if rq_empty_waiters q \<noteq> 0 then [CondSignal not_empty] else []) @ rq_calls q"
proof -
  obtain d where d: "rq_data q = Some d" "length d = unat (rq_bounds q)" "unat (rq_in q) < unat (rq_bounds q)"
      "unat (rq_out q) < unat (rq_bounds q)" "unat (rq_nelts q) = length ps"
      "unat (rq_in q) = (unat (rq_out q) + length ps) mod unat (rq_bounds q)"
      "ps = rq_slots d (unat (rq_bounds q)) (unat (rq_out q)) (length ps)"
    using assms(1) unfolding rq_inv_def by blast
  let ?b = "unat (rq_bounds q)" let ?o = "unat (rq_out q)"
  have n: "unat (rq_nelts q + 1) = Suc (length ps)"
    using d(5) assms(2) u32_next [of "rq_nelts q" "rq_bounds q"] by simp
  have "ps @ [p] = rq_slots (d[unat (rq_in q) := p]) ?b ?o (Suc (length ps))"
  proof (rule nth_equalityI)
    fix i assume i: "i < length (ps @ [p])"
    show "(ps @ [p]) ! i = rq_slots (d[unat (rq_in q) := p]) ?b ?o (Suc (length ps)) ! i"
    proof (cases "i = length ps")
      case True
      then show ?thesis using d(2,3,6) by simp
    next
      case False
      then have i': "i < length ps" using i by simp
      then have "(?o + i) mod ?b \<noteq> unat (rq_in q)" using d(6) mod_slots_inj [of i "length ps" ?b ?o] assms(2) by simp
      then have "rq_slots (d[unat (rq_in q) := p]) ?b ?o (Suc (length ps)) ! i = d ! ((?o + i) mod ?b)" using i' by simp
      also have "\<dots> = ps ! i" using i' by (subst d(7)) simp
      finally show ?thesis using i' by (simp add: nth_append)
    qed
  qed simp
  moreover have "Suc (unat (rq_in q)) mod ?b = (?o + Suc (length ps)) mod ?b" using d(6) by (simp add: mod_Suc_eq)
  moreover have "Suc (unat (rq_in q)) mod ?b < ?b" using d(3) by (intro mod_less_divisor) simp
  ultimately show ?thesis using d(1,2,3,4) n assms(2) advance [OF d(3)]
    by (auto simp: push_store_def rq_inv_def Let_def)
qed

lemma pop_take_inv:
  assumes "rq_inv q (p # ps)"
  shows "\<exists>q'. pop_take 0 q = Some (True, p, q') \<and> rq_inv q' ps \<and> rq_bounds q' = rq_bounds q
     \<and> rq_terminated q' = rq_terminated q \<and> rq_full_waiters q' = rq_full_waiters q \<and> rq_empty_waiters q' = rq_empty_waiters q
     \<and> rq_calls q' = MutexUnlock # (if rq_full_waiters q \<noteq> 0 then [CondSignal not_full] else []) @ rq_calls q"
proof -
  obtain d where d: "rq_data q = Some d" "length d = unat (rq_bounds q)" "unat (rq_in q) < unat (rq_bounds q)"
      "unat (rq_out q) < unat (rq_bounds q)" "unat (rq_nelts q) = Suc (length ps)" "Suc (length ps) \<le> unat (rq_bounds q)"
      "unat (rq_in q) = (unat (rq_out q) + Suc (length ps)) mod unat (rq_bounds q)"
      "p # ps = rq_slots d (unat (rq_bounds q)) (unat (rq_out q)) (Suc (length ps))"
    using assms unfolding rq_inv_def by auto
  let ?b = "unat (rq_bounds q)" let ?o = "unat (rq_out q)"
  have n: "unat (rq_nelts q - 1) = length ps" using d(5) by (subst unat_sub_ge) simp_all
  have p: "d ! ?o = p" using d(4,8) by (metis rq_slots_simps(2) nth_Cons_0 add_0_right mod_less zero_less_Suc)
  have "ps = rq_slots d ?b (Suc ?o mod ?b) (length ps)"
  proof (rule nth_equalityI)
    fix i assume i: "i < length ps"
    then have "ps ! i = (p # ps) ! Suc i" by simp
    also have "\<dots> = d ! ((?o + Suc i) mod ?b)" using i by (subst d(8)) simp
    also have "(?o + Suc i) mod ?b = (Suc ?o mod ?b + i) mod ?b" by (simp add: mod_add_left_eq)
    finally show "ps ! i = rq_slots d ?b (Suc ?o mod ?b) (length ps) ! i" using i by simp
  qed simp
  moreover have "unat (rq_in q) = (Suc ?o mod ?b + length ps) mod ?b" using d(7) by (simp add: mod_add_left_eq)
  moreover have "Suc ?o mod ?b < ?b" using d(4) by (intro mod_less_divisor) simp
  ultimately show ?thesis using d(1-6) n p advance [OF d(4)]
    by (auto simp: pop_take_def rq_inv_def Let_def)
qed

lemma rq_full_iff: "rq_inv q ps \<Longrightarrow> rpa_queue_full q \<longleftrightarrow> length ps = unat (rq_bounds q)"
  by (auto simp: rq_inv_def rpa_queue_full_def word_eq_unat)

lemma rq_empty_iff: "rq_inv q ps \<Longrightarrow> rpa_queue_empty q \<longleftrightarrow> ps = []"
  by (auto simp: rq_inv_def rpa_queue_empty_def word_eq_unat)

lemma rq_inv_le: "rq_inv q ps \<Longrightarrow> length ps \<le> unat (rq_bounds q)"
  by (auto simp: rq_inv_def)

text \<open>
  The calls of a stage that returns, newest first: none at all, or the mutex is taken first and
  released last, with signals in between; a stage that resumes a wait already holds the mutex.
\<close>

definition unlocked :: "pthread_call list \<Rightarrow> bool" where
  "unlocked cs \<longleftrightarrow> cs = [] \<or> (\<exists>mid. cs = MutexUnlock # mid @ [MutexLock] \<and> set mid \<subseteq> range CondSignal)"

definition unlocked_again :: "pthread_call list \<Rightarrow> bool" where
  "unlocked_again cs \<longleftrightarrow> (\<exists>mid. cs = MutexUnlock # mid \<and> set mid \<subseteq> range CondSignal)"

definition rq_same :: "rpa_queue_t \<Rightarrow> rpa_queue_t \<Rightarrow> bool" where
  "rq_same q q' \<longleftrightarrow> rq_bounds q' = rq_bounds q \<and> rq_terminated q' = rq_terminated q"

lemma unlockedI [intro, simp]:
  "unlocked []" "unlocked [MutexUnlock, MutexLock]" "unlocked [MutexUnlock, CondSignal c, MutexLock]"
  "unlocked_again [MutexUnlock]" "unlocked_again [MutexUnlock, CondSignal c]"
  by (auto simp: unlocked_def unlocked_again_def)

lemma timedpush_stage:
  assumes q: "rq_inv q ps" "\<not> rq_terminated q"
  shows "\<exists>r q' cs. rpa_queue_timedpush lock 0 now q p w = Some (r, q') \<and> rq_same q q' \<and> rq_calls q' = cs @ rq_calls q
     \<and> rq_empty_waiters q' = rq_empty_waiters q
     \<and> (r = Some True \<and> length ps < unat (rq_bounds q) \<and> rq_inv q' (ps @ [p]) \<and> rq_full_waiters q' = rq_full_waiters q
          \<and> unlocked cs \<and> (rq_empty_waiters q \<noteq> 0 \<longrightarrow> CondSignal not_empty \<in> set cs)
        \<or> r = Some False \<and> (lock \<noteq> 0 \<or> w = 0 \<and> length ps = unat (rq_bounds q)) \<and> rq_inv q' ps
          \<and> rq_full_waiters q' = rq_full_waiters q \<and> unlocked cs
        \<or> r = None \<and> w \<noteq> 0 \<and> length ps = unat (rq_bounds q) \<and> rq_inv q' ps \<and> rq_full_waiters q' = rq_full_waiters q + 1
          \<and> cs = [wait_call not_full now w, MutexLock])"
proof (cases "lock \<noteq> 0")
  case True
  then show ?thesis using q
    by (auto simp: rpa_queue_timedpush_def rpa_queue_trypush_def RPA_WAIT_NONE_def rq_same_def)
next
  case False
  let ?q = "pcall MutexLock q"
  have full: "rpa_queue_full ?q \<longleftrightarrow> length ps = unat (rq_bounds q)"
    using rq_full_iff [of ?q ps] q(1) by simp
  show ?thesis
  proof (cases "length ps = unat (rq_bounds q)")
    case True
    then show ?thesis using False full q
      by (auto simp: rpa_queue_timedpush_def rpa_queue_trypush_def RPA_WAIT_NONE_def Let_def rq_same_def)
  next
    case room: False
    then have lt: "length ps < unat (rq_bounds ?q)" using rq_inv_le [OF q(1)] by simp
    obtain q' where s: "push_store 0 ?q p = Some (True, q')" "rq_inv q' (ps @ [p])" "rq_bounds q' = rq_bounds q"
      "rq_terminated q' = rq_terminated q" "rq_full_waiters q' = rq_full_waiters q" "rq_empty_waiters q' = rq_empty_waiters q"
      "rq_calls q' = MutexUnlock # (if rq_empty_waiters q \<noteq> 0 then [CondSignal not_empty] else []) @ MutexLock # rq_calls q"
      using push_store_inv [of ?q ps p] q(1) lt by auto
    have "rpa_queue_timedpush lock 0 now q p w = Some (Some True, q')"
      using False room full s(1) q(2) by (simp add: rpa_queue_timedpush_def rpa_queue_trypush_def Let_def)
    then show ?thesis using s(2-7) lt
      by (intro exI [of _ "Some True"] exI [of _ q']
            exI [of _ "MutexUnlock # (if rq_empty_waiters q \<noteq> 0 then [CondSignal not_empty] else []) @ [MutexLock]"])
        (auto simp: rq_same_def)
  qed
qed

lemma push_resume_stage:
  assumes q: "rq_inv q ps" "\<not> rq_terminated q"
  shows "\<exists>r q' cs. timedpush_resume rv 0 q p = Some (r, q') \<and> rq_same q q' \<and> rq_calls q' = cs @ rq_calls q
     \<and> rq_empty_waiters q' = rq_empty_waiters q \<and> rq_full_waiters q' = rq_full_waiters q - 1 \<and> unlocked_again cs
     \<and> (if r then length ps < unat (rq_bounds q) \<and> rq_inv q' (ps @ [p]) \<and> (rq_empty_waiters q \<noteq> 0 \<longrightarrow> CondSignal not_empty \<in> set cs)
        else rq_inv q' ps \<and> (rv \<noteq> 0 \<or> length ps = unat (rq_bounds q)))"
proof -
  let ?q = "q\<lparr>rq_full_waiters := rq_full_waiters q - 1\<rparr>"
  have full: "rpa_queue_full ?q \<longleftrightarrow> length ps = unat (rq_bounds q)" using rq_full_iff [of ?q ps] q(1) by simp
  show ?thesis
  proof (cases "rv \<noteq> 0 \<or> length ps = unat (rq_bounds q)")
    case True
    then show ?thesis using full q by (auto simp: timedpush_resume_def Let_def rq_same_def)
  next
    case False
    then have lt: "length ps < unat (rq_bounds ?q)" using rq_inv_le [OF q(1)] by simp
    obtain q' where s: "push_store 0 ?q p = Some (True, q')" "rq_inv q' (ps @ [p])" "rq_bounds q' = rq_bounds q"
      "rq_terminated q' = rq_terminated q" "rq_full_waiters q' = rq_full_waiters q - 1" "rq_empty_waiters q' = rq_empty_waiters q"
      "rq_calls q' = MutexUnlock # (if rq_empty_waiters q \<noteq> 0 then [CondSignal not_empty] else []) @ rq_calls q"
      using push_store_inv [of ?q ps p] q(1) lt by auto
    have "timedpush_resume rv 0 q p = Some (True, q')" using False full s(1) by (simp add: timedpush_resume_def Let_def)
    then show ?thesis using s(2-7) lt
      by (intro exI [of _ True] exI [of _ q']
            exI [of _ "MutexUnlock # (if rq_empty_waiters q \<noteq> 0 then [CondSignal not_empty] else [])"])
        (auto simp: rq_same_def)
  qed
qed

lemma timedpop_stage:
  assumes q: "rq_inv q ps" "\<not> rq_terminated q"
  shows "\<exists>r p q' cs. rpa_queue_timedpop lock 0 now q w = Some (r, p, q') \<and> rq_same q q' \<and> rq_calls q' = cs @ rq_calls q
     \<and> rq_full_waiters q' = rq_full_waiters q
     \<and> (r = Some True \<and> (\<exists>ps'. ps = p # ps' \<and> rq_inv q' ps') \<and> rq_empty_waiters q' = rq_empty_waiters q
          \<and> unlocked cs \<and> (rq_full_waiters q \<noteq> 0 \<longrightarrow> CondSignal not_full \<in> set cs)
        \<or> r = Some False \<and> (lock \<noteq> 0 \<or> w = 0 \<and> ps = []) \<and> rq_inv q' ps
          \<and> rq_empty_waiters q' = rq_empty_waiters q \<and> unlocked cs
        \<or> r = None \<and> w \<noteq> 0 \<and> ps = [] \<and> rq_inv q' ps \<and> rq_empty_waiters q' = rq_empty_waiters q + 1
          \<and> cs = [wait_call not_empty now w, MutexLock])"
proof (cases "lock \<noteq> 0")
  case True
  then show ?thesis using q
    by (auto simp: rpa_queue_timedpop_def rpa_queue_trypop_def RPA_WAIT_NONE_def rq_same_def)
next
  case False
  let ?q = "pcall MutexLock q"
  have empty: "rpa_queue_empty ?q \<longleftrightarrow> ps = []" using rq_empty_iff [of ?q ps] q(1) by simp
  show ?thesis
  proof (cases ps)
    case Nil
    then show ?thesis using False empty q
      by (auto simp: rpa_queue_timedpop_def rpa_queue_trypop_def RPA_WAIT_NONE_def Let_def rq_same_def)
  next
    case (Cons p ps')
    obtain q' where s: "pop_take 0 ?q = Some (True, p, q')" "rq_inv q' ps'" "rq_bounds q' = rq_bounds q"
      "rq_terminated q' = rq_terminated q" "rq_full_waiters q' = rq_full_waiters q" "rq_empty_waiters q' = rq_empty_waiters q"
      "rq_calls q' = MutexUnlock # (if rq_full_waiters q \<noteq> 0 then [CondSignal not_full] else []) @ MutexLock # rq_calls q"
      using pop_take_inv [of ?q p ps'] q(1) Cons by auto
    have "rpa_queue_timedpop lock 0 now q w = Some (Some True, p, q')"
      using False empty Cons s(1) q(2) by (simp add: rpa_queue_timedpop_def rpa_queue_trypop_def Let_def)
    then show ?thesis using s(2-7) Cons
      by (intro exI [of _ "Some True"] exI [of _ p] exI [of _ q']
            exI [of _ "MutexUnlock # (if rq_full_waiters q \<noteq> 0 then [CondSignal not_full] else []) @ [MutexLock]"])
        (auto simp: rq_same_def)
  qed
qed

lemma pop_resume_stage:
  assumes q: "rq_inv q ps" "\<not> rq_terminated q"
  shows "\<exists>r p q' cs. timedpop_resume rv 0 q = Some (r, p, q') \<and> rq_same q q' \<and> rq_calls q' = cs @ rq_calls q
     \<and> rq_full_waiters q' = rq_full_waiters q \<and> rq_empty_waiters q' = rq_empty_waiters q - 1 \<and> unlocked_again cs
     \<and> (if r then (\<exists>ps'. ps = p # ps' \<and> rq_inv q' ps') \<and> (rq_full_waiters q \<noteq> 0 \<longrightarrow> CondSignal not_full \<in> set cs)
        else rq_inv q' ps \<and> (rv \<noteq> 0 \<or> ps = []))"
proof -
  let ?q = "q\<lparr>rq_empty_waiters := rq_empty_waiters q - 1\<rparr>"
  have empty: "rpa_queue_empty ?q \<longleftrightarrow> ps = []" using rq_empty_iff [of ?q ps] q(1) by simp
  show ?thesis
  proof (cases "rv \<noteq> 0 \<or> ps = []")
    case True
    then show ?thesis using empty q by (auto simp: timedpop_resume_def Let_def rq_same_def)
  next
    case False
    then obtain p ps' where ps: "ps = p # ps'" by (cases ps) auto
    obtain q' where s: "pop_take 0 ?q = Some (True, p, q')" "rq_inv q' ps'" "rq_bounds q' = rq_bounds q"
      "rq_terminated q' = rq_terminated q" "rq_full_waiters q' = rq_full_waiters q" "rq_empty_waiters q' = rq_empty_waiters q - 1"
      "rq_calls q' = MutexUnlock # (if rq_full_waiters q \<noteq> 0 then [CondSignal not_full] else []) @ rq_calls q"
      using pop_take_inv [of ?q p ps'] q(1) ps by auto
    have "timedpop_resume rv 0 q = Some (True, p, q')" using False empty s(1) by (simp add: timedpop_resume_def Let_def)
    then show ?thesis using s(2-7) ps
      by (intro exI [of _ True] exI [of _ p] exI [of _ q']
            exI [of _ "MutexUnlock # (if rq_full_waiters q \<noteq> 0 then [CondSignal not_full] else [])"])
        (auto simp: rq_same_def)
  qed
qed

section \<open>Invariant of the message queue\<close>

text \<open>
  The queued pointers \<open>ps\<close> and those held by waiting posters are distinct live buffers, the queued
  ones hold the messages \<open>msgs\<close>, and the waiter counts are the numbers of waiting threads.
\<close>

definition tq_shape :: "tkl_queue_sys \<Rightarrow> nat list \<Rightarrow> bytes list \<Rightarrow> bool" where
  "tq_shape s ps msgs \<longleftrightarrow> \<not> rq_terminated (tq_queue s)
     \<and> distinct ps \<and> inj_on (tq_post s) (dom (tq_post s)) \<and> ran (tq_post s) \<inter> set ps = {}
     \<and> (\<forall>p \<in> set ps \<union> ran (tq_post s). p \<noteq> 0 \<and> (\<exists>m. tq_bufs s p = Some m \<and> length m = tq_msgsize s))
     \<and> map (tq_bufs s) ps = map Some msgs"

definition tq_waiters :: "tkl_queue_sys \<Rightarrow> bool" where
  "tq_waiters s \<longleftrightarrow> finite (dom (tq_post s)) \<and> finite (tq_fetch s)
     \<and> rq_full_waiters (tq_queue s) = of_nat (card (dom (tq_post s)))
     \<and> rq_empty_waiters (tq_queue s) = of_nat (card (tq_fetch s))"

definition tq_inv :: "tkl_queue_sys \<Rightarrow> bytes list \<Rightarrow> bool" where
  "tq_inv s msgs \<longleftrightarrow> (\<exists>ps. rq_inv (tq_queue s) ps \<and> tq_shape s ps msgs) \<and> tq_waiters s"

lemma tq_shape_buf:
  assumes "tq_shape s ps msgs" "buf \<notin> dom (tq_bufs s)"
  shows "buf \<notin> set ps" "buf \<notin> ran (tq_post s)"
  using assms by (auto simp: tq_shape_def)

lemma map_bufs_upd: "buf \<notin> set ps \<Longrightarrow> map (m(buf := x)) ps = map m ps"
  by (induction ps) auto

lemma tq_shape_alloc:
  assumes "tq_shape s ps msgs" "buf \<notin> dom (tq_bufs s)" "length msg = tq_msgsize s"
  shows "tq_shape (s\<lparr>tq_bufs := (tq_bufs s)(buf \<mapsto> msg)\<rparr>) ps msgs"
  using assms tq_shape_buf [OF assms(1,2)] by (auto simp: tq_shape_def map_bufs_upd)

lemma tq_shape_queue [simp]:
  "rq_terminated q = rq_terminated (tq_queue s) \<Longrightarrow> tq_shape (s\<lparr>tq_queue := q\<rparr>) ps msgs = tq_shape s ps msgs"
  "tq_shape (s\<lparr>tq_fetch := F\<rparr>) ps msgs = tq_shape s ps msgs"
  by (simp_all add: tq_shape_def)

lemma tq_shape_snoc:
  assumes "tq_shape s ps msgs" "tq_bufs s buf = Some msg" "buf \<noteq> 0" "length msg = tq_msgsize s" "buf \<notin> set ps" "buf \<notin> ran (tq_post s)"
  shows "tq_shape s (ps @ [buf]) (msgs @ [msg])"
  using assms by (auto simp: tq_shape_def)

lemma tq_shape_block:
  assumes "tq_shape s ps msgs" "t \<notin> dom (tq_post s)" "tq_bufs s buf = Some msg" "buf \<noteq> 0" "length msg = tq_msgsize s"
    "buf \<notin> set ps" "buf \<notin> ran (tq_post s)"
  shows "tq_shape (s\<lparr>tq_post := (tq_post s)(t \<mapsto> buf)\<rparr>) ps msgs"
proof -
  have "tq_post s t = None" using assms(2) by (simp add: domIff)
  then have r: "ran ((tq_post s)(t \<mapsto> buf)) = insert buf (ran (tq_post s))" by (rule ran_map_upd)
  have "inj_on ((tq_post s)(t \<mapsto> buf)) (dom ((tq_post s)(t \<mapsto> buf)))"
    using assms(1,7) by (auto simp: tq_shape_def inj_on_def ran_def)
  then show ?thesis using assms r by (auto simp: tq_shape_def)
qed

lemma tq_shape_unblock:
  assumes "tq_shape s ps msgs" "tq_post s t = Some buf"
  shows "tq_shape (s\<lparr>tq_post := (tq_post s)(t := None)\<rparr>) ps msgs" "buf \<notin> ran ((tq_post s)(t := None))"
    "buf \<notin> set ps" "buf \<noteq> 0" "\<exists>m. tq_bufs s buf = Some m \<and> length m = tq_msgsize s"
proof -
  have sub: "ran ((tq_post s)(t := None)) \<subseteq> ran (tq_post s)" by (auto simp: ran_def)
  have inj: "inj_on (tq_post s) (dom (tq_post s))" using assms(1) by (simp add: tq_shape_def)
  then have "inj_on ((tq_post s)(t := None)) (dom ((tq_post s)(t := None)))" by (auto simp: inj_on_def)
  then show "tq_shape (s\<lparr>tq_post := (tq_post s)(t := None)\<rparr>) ps msgs" using assms(1) sub
    by (simp add: tq_shape_def) blast
  have "t' = t" if "tq_post s t' = Some buf" for t' using inj_onD [OF inj, of t' t] that assms(2) by auto
  then show "buf \<notin> ran ((tq_post s)(t := None))" by (auto simp: ran_def)
  show "buf \<notin> set ps" "buf \<noteq> 0" "\<exists>m. tq_bufs s buf = Some m \<and> length m = tq_msgsize s"
    using assms by (auto simp: tq_shape_def ran_def)
qed

lemma tq_shape_pop:
  assumes "tq_shape s (p # ps) msgs"
  shows "\<exists>msg rest. msgs = msg # rest \<and> tq_bufs s p = Some msg \<and> length msg = tq_msgsize s \<and> p \<noteq> 0
     \<and> tq_shape (s\<lparr>tq_bufs := (tq_bufs s)(p := None)\<rparr>) ps rest"
proof -
  obtain msg rest where m: "msgs = msg # rest" "tq_bufs s p = Some msg" using assms by (cases msgs) (auto simp: tq_shape_def)
  have "p \<notin> set ps" "p \<notin> ran (tq_post s)" "p \<noteq> 0" "length msg = tq_msgsize s" using assms m by (auto simp: tq_shape_def)
  then show ?thesis using assms m by (auto simp: tq_shape_def map_bufs_upd)
qed

lemma tq_waiters_simps [simp]: "tq_waiters (s\<lparr>tq_bufs := b\<rparr>) = tq_waiters s"
  by (simp add: tq_waiters_def)

section \<open>Every stage keeps the invariant\<close>

lemma post_step:
  assumes i: "tq_inv s msgs" and t: "t \<notin> dom (tq_post s)" and l: "length msg = tq_msgsize s"
    and b: "buf = 0 \<or> buf \<notin> dom (tq_bufs s)"
  shows "\<exists>r s' msgs' cs. tkl_queue_post False buf lock 0 now s t (Some msg) timeout = Some (r, s') \<and> tq_inv s' msgs'
     \<and> msgs' = msgs @ sent (Post t msg r) \<and> rq_calls (tq_queue s') = cs @ rq_calls (tq_queue s)
     \<and> (if r = None then cs = [wait_call not_full now (wait_ms_of timeout), MutexLock] else unlocked cs)
     \<and> (r = Some OPRT_OK \<and> rq_empty_waiters (tq_queue s) \<noteq> 0 \<longrightarrow> CondSignal not_empty \<in> set cs)"
proof (cases "buf = 0")
  case True
  then show ?thesis using i by (auto simp: tkl_queue_post_def)
next
  case False
  then have nb: "buf \<notin> dom (tq_bufs s)" using b by simp
  obtain ps where p: "rq_inv (tq_queue s) ps" "tq_shape s ps msgs" and w: "tq_waiters s" using i by (auto simp: tq_inv_def)
  let ?s = "s\<lparr>tq_bufs := (tq_bufs s)(buf \<mapsto> msg)\<rparr>"
  note fresh = tq_shape_buf [OF p(2) nb]
  have sh: "tq_shape ?s ps msgs" by (rule tq_shape_alloc [OF p(2) nb l])
  have bm: "tq_bufs ?s buf = Some msg" by simp
  have nt: "\<not> rq_terminated (tq_queue s)" using p(2) by (simp add: tq_shape_def)
  obtain r q' cs where st: "rpa_queue_timedpush lock 0 now (tq_queue s) buf (wait_ms_of timeout) = Some (r, q')"
     "rq_same (tq_queue s) q'" "rq_calls q' = cs @ rq_calls (tq_queue s)" "rq_empty_waiters q' = rq_empty_waiters (tq_queue s)"
     and c: "r = Some True \<and> rq_inv q' (ps @ [buf]) \<and> rq_full_waiters q' = rq_full_waiters (tq_queue s)
          \<and> unlocked cs \<and> (rq_empty_waiters (tq_queue s) \<noteq> 0 \<longrightarrow> CondSignal not_empty \<in> set cs)
        \<or> r = Some False \<and> rq_inv q' ps \<and> rq_full_waiters q' = rq_full_waiters (tq_queue s) \<and> unlocked cs
        \<or> r = None \<and> rq_inv q' ps \<and> rq_full_waiters q' = rq_full_waiters (tq_queue s) + 1
          \<and> cs = [wait_call not_full now (wait_ms_of timeout), MutexLock]"
    using timedpush_stage [OF p(1) nt, of lock now buf "wait_ms_of timeout"] by blast
  have tm: "rq_terminated q' = rq_terminated (tq_queue s)" using st(2) by (simp add: rq_same_def)
  have tk: "take (tq_msgsize s) msg = msg" using l by simp
  from c show ?thesis
  proof (elim disjE conjE)
    assume r: "r = Some True" and q: "rq_inv q' (ps @ [buf])" and fw: "rq_full_waiters q' = rq_full_waiters (tq_queue s)"
      and u: "unlocked cs" "rq_empty_waiters (tq_queue s) \<noteq> 0 \<longrightarrow> CondSignal not_empty \<in> set cs"
    have "tq_shape ?s (ps @ [buf]) (msgs @ [msg])" using tq_shape_snoc [OF sh bm False] l fresh by simp
    then have "tq_inv (?s\<lparr>tq_queue := q'\<rparr>) (msgs @ [msg])" using q w fw st(4) tm by (auto simp: tq_inv_def tq_waiters_def)
    moreover have "tkl_queue_post False buf lock 0 now s t (Some msg) timeout = Some (Some OPRT_OK, ?s\<lparr>tq_queue := q'\<rparr>)"
      using False st(1) r tk by (simp add: tkl_queue_post_def post_result_def)
    ultimately show ?thesis using u st(3)
      by (intro exI [of _ "Some OPRT_OK"] exI [of _ "?s\<lparr>tq_queue := q'\<rparr>"] exI [of _ "msgs @ [msg]"] exI [of _ cs]) simp
  next
    assume r: "r = Some False" and q: "rq_inv q' ps" "rq_full_waiters q' = rq_full_waiters (tq_queue s)" and u: "unlocked cs"
    have "tq_inv (?s\<lparr>tq_queue := q'\<rparr>) msgs" using q w st(4) tm sh by (auto simp: tq_inv_def tq_waiters_def)
    moreover have "tkl_queue_post False buf lock 0 now s t (Some msg) timeout = Some (Some OPRT_OS_ADAPTER_QUEUE_SEND_FAIL, ?s\<lparr>tq_queue := q'\<rparr>)"
      using False st(1) r tk by (simp add: tkl_queue_post_def post_result_def)
    ultimately show ?thesis using u st(3)
      by (intro exI [of _ "Some OPRT_OS_ADAPTER_QUEUE_SEND_FAIL"] exI [of _ "?s\<lparr>tq_queue := q'\<rparr>"] exI [of _ msgs] exI [of _ cs]) simp
  next
    assume r: "r = None" and q: "rq_inv q' ps" "rq_full_waiters q' = rq_full_waiters (tq_queue s) + 1"
      and cs: "cs = [wait_call not_full now (wait_ms_of timeout), MutexLock]"
    let ?s' = "?s\<lparr>tq_queue := q', tq_post := (tq_post s)(t \<mapsto> buf)\<rparr>"
    have "tq_shape (?s\<lparr>tq_post := (tq_post ?s)(t \<mapsto> buf)\<rparr>) ps msgs"
      using tq_shape_block [OF sh _ bm False] t l fresh by simp
    then have "tq_shape ?s' ps msgs" using tm by (simp add: tq_shape_def)
    moreover have "tq_waiters ?s'" using w t q(2) st(4) by (auto simp: tq_waiters_def card_insert_disjoint)
    ultimately have "tq_inv ?s' msgs" using q(1) by (auto simp: tq_inv_def)
    moreover have "tkl_queue_post False buf lock 0 now s t (Some msg) timeout = Some (None, ?s')"
      using False st(1) r tk by (simp add: tkl_queue_post_def)
    ultimately show ?thesis using cs st(3)
      by (intro exI [of _ None] exI [of _ ?s'] exI [of _ msgs] exI [of _ cs]) simp
  qed
qed

lemma word_pred: "0 < n \<Longrightarrow> (of_nat n - 1 :: u32) = of_nat (n - 1)"
  by (simp add: of_nat_diff)

lemma post_woken_step:
  assumes i: "tq_inv s msgs" and t: "tq_post s t = Some buf" and m: "tq_bufs s buf = Some msg"
  shows "\<exists>r s' msgs' cs. post_resume rv 0 s t = Some (r, s') \<and> tq_inv s' msgs'
     \<and> msgs' = msgs @ sent (PostWoken t msg r) \<and> rq_calls (tq_queue s') = cs @ rq_calls (tq_queue s) \<and> unlocked_again cs
     \<and> (r = OPRT_OK \<and> rq_empty_waiters (tq_queue s) \<noteq> 0 \<longrightarrow> CondSignal not_empty \<in> set cs)"
proof -
  obtain ps where p: "rq_inv (tq_queue s) ps" "tq_shape s ps msgs" and w: "tq_waiters s" using i by (auto simp: tq_inv_def)
  let ?s = "s\<lparr>tq_post := (tq_post s)(t := None)\<rparr>"
  note un = tq_shape_unblock [OF p(2) t]
  have nt: "\<not> rq_terminated (tq_queue s)" using p(2) by (simp add: tq_shape_def)
  obtain r q' cs where st: "timedpush_resume rv 0 (tq_queue s) buf = Some (r, q')"
     "rq_same (tq_queue s) q'" "rq_calls q' = cs @ rq_calls (tq_queue s)" "rq_empty_waiters q' = rq_empty_waiters (tq_queue s)"
     "rq_full_waiters q' = rq_full_waiters (tq_queue s) - 1" "unlocked_again cs"
     and c: "if r then length ps < unat (rq_bounds (tq_queue s)) \<and> rq_inv q' (ps @ [buf]) \<and> (rq_empty_waiters (tq_queue s) \<noteq> 0 \<longrightarrow> CondSignal not_empty \<in> set cs)
        else rq_inv q' ps \<and> (rv \<noteq> 0 \<or> length ps = unat (rq_bounds (tq_queue s)))"
    using push_resume_stage [OF p(1) nt, of rv buf] by blast
  let ?s' = "?s\<lparr>tq_queue := q'\<rparr>"
  have td: "t \<in> dom (tq_post s)" using t by auto
  then have "0 < card (dom (tq_post s))" using w by (auto simp: tq_waiters_def card_gt_0_iff)
  then have "of_nat (card (dom (tq_post s) - {t})) = (of_nat (card (dom (tq_post s))) - 1 :: u32)"
    using word_pred card_Diff_singleton [OF td] by metis
  then have ws: "tq_waiters ?s'" using w st(4,5) by (simp add: tq_waiters_def)
  have tm: "rq_terminated q' = rq_terminated (tq_queue ?s)" using st(2) by (simp add: rq_same_def)
  have run: "post_resume rv 0 s t = Some (post_result r, ?s')" using t st(1) by (simp add: post_resume_def)
  show ?thesis
  proof (cases r)
    case True
    have "tq_shape ?s (ps @ [buf]) (msgs @ [msg])"
      using tq_shape_snoc [OF un(1), of buf msg] un m by auto
    then have "tq_inv ?s' (msgs @ [msg])" using c True ws tm by (auto simp: tq_inv_def)
    then show ?thesis using run True c st(3,6) by (auto simp: post_result_def)
  next
    case False
    then have "tq_inv ?s' msgs" using c ws tm un(1) by (auto simp: tq_inv_def)
    then show ?thesis using run False c st(3,6) by (auto simp: post_result_def)
  qed
qed

lemma fetch_finish_ok:
  assumes "tq_shape s (p # ps) msgs"
  shows "\<exists>msg rest. msgs = msg # rest \<and> fetch_finish s True p = Some (OPRT_OK, msg, s\<lparr>tq_bufs := (tq_bufs s)(p := None)\<rparr>)
     \<and> tq_shape (s\<lparr>tq_bufs := (tq_bufs s)(p := None)\<rparr>) ps rest"
  using tq_shape_pop [OF assms] by (auto simp: fetch_finish_def)

lemma fetch_step:
  assumes i: "tq_inv s msgs" and t: "t \<notin> tq_fetch s"
  shows "\<exists>r msg s' msgs' cs. tkl_queue_fetch False lock 0 now s t timeout = Some (r, msg, s') \<and> tq_inv s' msgs'
     \<and> msgs = received (Fetch t msg r) @ msgs' \<and> rq_calls (tq_queue s') = cs @ rq_calls (tq_queue s)
     \<and> (if r = None then cs = [wait_call not_empty now (wait_ms_of timeout), MutexLock] else unlocked cs)
     \<and> (r = Some OPRT_OK \<and> rq_full_waiters (tq_queue s) \<noteq> 0 \<longrightarrow> CondSignal not_full \<in> set cs)"
proof -
  obtain ps where p: "rq_inv (tq_queue s) ps" "tq_shape s ps msgs" and w: "tq_waiters s" using i by (auto simp: tq_inv_def)
  have nt: "\<not> rq_terminated (tq_queue s)" using p(2) by (simp add: tq_shape_def)
  obtain r ptr q' cs where st: "rpa_queue_timedpop lock 0 now (tq_queue s) (wait_ms_of timeout) = Some (r, ptr, q')"
     "rq_same (tq_queue s) q'" "rq_calls q' = cs @ rq_calls (tq_queue s)" "rq_full_waiters q' = rq_full_waiters (tq_queue s)"
     and c: "r = Some True \<and> (\<exists>ps'. ps = ptr # ps' \<and> rq_inv q' ps') \<and> rq_empty_waiters q' = rq_empty_waiters (tq_queue s)
          \<and> unlocked cs \<and> (rq_full_waiters (tq_queue s) \<noteq> 0 \<longrightarrow> CondSignal not_full \<in> set cs)
        \<or> r = Some False \<and> rq_inv q' ps \<and> rq_empty_waiters q' = rq_empty_waiters (tq_queue s) \<and> unlocked cs
        \<or> r = None \<and> rq_inv q' ps \<and> rq_empty_waiters q' = rq_empty_waiters (tq_queue s) + 1
          \<and> cs = [wait_call not_empty now (wait_ms_of timeout), MutexLock]"
    using timedpop_stage [OF p(1) nt, of lock now "wait_ms_of timeout"] by blast
  let ?s = "s\<lparr>tq_queue := q'\<rparr>"
  have tm: "rq_terminated q' = rq_terminated (tq_queue s)" using st(2) by (simp add: rq_same_def)
  from c show ?thesis
  proof (elim disjE conjE exE)
    fix ps' assume r: "r = Some True" and ps: "ps = ptr # ps'" "rq_inv q' ps'"
      and e: "rq_empty_waiters q' = rq_empty_waiters (tq_queue s)" and u: "unlocked cs" "rq_full_waiters (tq_queue s) \<noteq> 0 \<longrightarrow> CondSignal not_full \<in> set cs"
    have "tq_shape ?s (ptr # ps') msgs" using p(2) ps(1) tm by simp
    then obtain msg rest where f: "msgs = msg # rest"
       "fetch_finish ?s True ptr = Some (OPRT_OK, msg, ?s\<lparr>tq_bufs := (tq_bufs ?s)(ptr := None)\<rparr>)"
       "tq_shape (?s\<lparr>tq_bufs := (tq_bufs ?s)(ptr := None)\<rparr>) ps' rest" using fetch_finish_ok by blast
    have "tq_inv (?s\<lparr>tq_bufs := (tq_bufs ?s)(ptr := None)\<rparr>) rest"
      using f(3) ps(2) w st(4) e by (auto simp: tq_inv_def tq_waiters_def)
    then show ?thesis using f(1,2) st(1,3) r u by (auto simp: tkl_queue_fetch_def)
  next
    assume r: "r = Some False" and q: "rq_inv q' ps" "rq_empty_waiters q' = rq_empty_waiters (tq_queue s)" and u: "unlocked cs"
    have "tq_inv ?s msgs" using q w st(4) tm p(2) by (auto simp: tq_inv_def tq_waiters_def)
    then show ?thesis using st(1,3) r u by (auto simp: tkl_queue_fetch_def fetch_finish_def)
  next
    assume r: "r = None" and q: "rq_inv q' ps" "rq_empty_waiters q' = rq_empty_waiters (tq_queue s) + 1"
      and cs: "cs = [wait_call not_empty now (wait_ms_of timeout), MutexLock]"
    let ?s' = "s\<lparr>tq_queue := q', tq_fetch := insert t (tq_fetch s)\<rparr>"
    have "tq_shape ?s' ps msgs" using p(2) tm by (simp add: tq_shape_def)
    moreover have "tq_waiters ?s'" using w t q(2) st(4) by (auto simp: tq_waiters_def)
    ultimately have "tq_inv ?s' msgs" using q(1) by (auto simp: tq_inv_def)
    then show ?thesis using st(1,3) r cs by (auto simp: tkl_queue_fetch_def)
  qed
qed

lemma fetch_woken_step:
  assumes i: "tq_inv s msgs" and t: "t \<in> tq_fetch s"
  shows "\<exists>r msg s' msgs' cs. fetch_resume rv 0 s t = Some (r, msg, s') \<and> tq_inv s' msgs'
     \<and> msgs = received (FetchWoken t msg r) @ msgs' \<and> rq_calls (tq_queue s') = cs @ rq_calls (tq_queue s) \<and> unlocked_again cs
     \<and> (r = OPRT_OK \<and> rq_full_waiters (tq_queue s) \<noteq> 0 \<longrightarrow> CondSignal not_full \<in> set cs)"
proof -
  obtain ps where p: "rq_inv (tq_queue s) ps" "tq_shape s ps msgs" and w: "tq_waiters s" using i by (auto simp: tq_inv_def)
  have nt: "\<not> rq_terminated (tq_queue s)" using p(2) by (simp add: tq_shape_def)
  obtain r ptr q' cs where st: "timedpop_resume rv 0 (tq_queue s) = Some (r, ptr, q')"
     "rq_same (tq_queue s) q'" "rq_calls q' = cs @ rq_calls (tq_queue s)" "rq_full_waiters q' = rq_full_waiters (tq_queue s)"
     "rq_empty_waiters q' = rq_empty_waiters (tq_queue s) - 1" "unlocked_again cs"
     and c: "if r then (\<exists>ps'. ps = ptr # ps' \<and> rq_inv q' ps') \<and> (rq_full_waiters (tq_queue s) \<noteq> 0 \<longrightarrow> CondSignal not_full \<in> set cs)
        else rq_inv q' ps \<and> (rv \<noteq> 0 \<or> ps = [])"
    using pop_resume_stage [OF p(1) nt, of rv] by blast
  let ?s = "s\<lparr>tq_queue := q', tq_fetch := tq_fetch s - {t}\<rparr>"
  have "0 < card (tq_fetch s)" using w t by (auto simp: tq_waiters_def card_gt_0_iff)
  then have "of_nat (card (tq_fetch s - {t})) = (of_nat (card (tq_fetch s)) - 1 :: u32)"
    using word_pred card_Diff_singleton [OF t] by metis
  then have ws: "tq_waiters ?s" using w st(4,5) by (simp add: tq_waiters_def)
  have sh: "tq_shape ?s ps msgs" using p(2) st(2) by (simp add: tq_shape_def rq_same_def)
  show ?thesis
  proof (cases r)
    case True
    then obtain ps' where ps: "ps = ptr # ps'" "rq_inv q' ps'" using c by auto
    obtain msg rest where f: "msgs = msg # rest"
       "fetch_finish ?s True ptr = Some (OPRT_OK, msg, ?s\<lparr>tq_bufs := (tq_bufs ?s)(ptr := None)\<rparr>)"
       "tq_shape (?s\<lparr>tq_bufs := (tq_bufs ?s)(ptr := None)\<rparr>) ps' rest" using fetch_finish_ok [of ?s ptr ps'] sh ps(1) by blast
    have "tq_inv (?s\<lparr>tq_bufs := (tq_bufs ?s)(ptr := None)\<rparr>) rest"
      using f(3) ps(2) ws by (auto simp: tq_inv_def)
    then show ?thesis using f(1,2) st(1,3,6) True c by (auto simp: fetch_resume_def)
  next
    case False
    then have "tq_inv ?s msgs" using sh ws c by (auto simp: tq_inv_def)
    then show ?thesis using st(1,3,6) False c by (auto simp: fetch_resume_def fetch_finish_def)
  qed
qed

lemma tq_step_inv:
  assumes "tq_step s ev s'" "tq_inv s msgs"
  shows "\<exists>msgs'. tq_inv s' msgs' \<and> msgs @ sent ev = received ev @ msgs'"
  using assms
proof cases
  case (post t msg buf lock now timeout r)
  then show ?thesis using post_step [OF assms(2), of t msg buf lock now timeout] by auto
next
  case (post_woken t buf msg rv r)
  then show ?thesis using post_woken_step [OF assms(2), of t buf msg rv] by auto
next
  case (fetch t lock now timeout r msg)
  then show ?thesis using fetch_step [OF assms(2), of t lock now timeout] by auto
next
  case (fetch_woken t rv r msg)
  then show ?thesis using fetch_woken_step [OF assms(2), of t rv] by auto
qed

lemma tq_run_inv:
  "tq_run s evs s' \<Longrightarrow> tq_inv s msgs \<Longrightarrow>
    \<exists>msgs'. tq_inv s' msgs' \<and> msgs @ concat (map sent evs) = concat (map received evs) @ msgs'"
proof (induction rule: tq_run.induct)
  case (more s evs s' ev s'')
  then obtain msgs1 where m: "tq_inv s' msgs1" "msgs @ concat (map sent evs) = concat (map received evs) @ msgs1" by blast
  obtain msgs2 where "tq_inv s'' msgs2" "msgs1 @ sent ev = received ev @ msgs2" using tq_step_inv [OF more.hyps(2) m(1)] by blast
  then show ?case using m(2) by (intro exI [of _ msgs2]) (simp, metis append.assoc)
qed simp

lemma push_store_bounds: "push_store sig q p = Some (b, q') \<Longrightarrow> rq_bounds q' = rq_bounds q"
  by (auto simp: push_store_def Let_def split: option.splits if_splits)

lemma pop_take_bounds: "pop_take sig q = Some (b, p, q') \<Longrightarrow> rq_bounds q' = rq_bounds q"
  by (auto simp: pop_take_def Let_def split: option.splits if_splits)

lemma stage_bounds:
  "rpa_queue_timedpush lock sig now q p w = Some (r, q') \<Longrightarrow> rq_bounds q' = rq_bounds q"
  "timedpush_resume rv sig q p = Some (b, q') \<Longrightarrow> rq_bounds q' = rq_bounds q"
  "rpa_queue_timedpop lock sig now q w = Some (r, p, q') \<Longrightarrow> rq_bounds q' = rq_bounds q"
  "timedpop_resume rv sig q = Some (b, p, q') \<Longrightarrow> rq_bounds q' = rq_bounds q"
  by (auto simp: rpa_queue_timedpush_def rpa_queue_trypush_def timedpush_resume_def Let_def
      rpa_queue_timedpop_def rpa_queue_trypop_def timedpop_resume_def
      dest!: push_store_bounds pop_take_bounds split: if_splits)

lemma fetch_finish_queue: "fetch_finish s b p = Some (r, m, s') \<Longrightarrow> tq_queue s' = tq_queue s"
  by (auto simp: fetch_finish_def split: if_splits option.splits)

lemma tq_step_bounds: "tq_step s ev s' \<Longrightarrow> rq_bounds (tq_queue s') = rq_bounds (tq_queue s)"
  by (erule tq_step.cases)
    (auto simp: tkl_queue_post_def post_resume_def tkl_queue_fetch_def fetch_resume_def Let_def
      dest!: stage_bounds fetch_finish_queue split: if_splits option.splits)

lemma tq_run_bounds: "tq_run s evs s' \<Longrightarrow> rq_bounds (tq_queue s') = rq_bounds (tq_queue s)"
  by (induction rule: tq_run.induct) (auto dest: tq_step_bounds)

definition tq_start :: "rpa_queue_t \<Rightarrow> int \<Rightarrow> tkl_queue_sys" where
  "tq_start q msgsize = \<lparr>tq_queue = q, tq_msgsize = nat msgsize, tq_bufs = Map.empty, tq_post = Map.empty, tq_fetch = {}\<rparr>"

lemma tq_start_inv:
  assumes "rpa_queue_create True True True True 0 0 0 (Some d) cap = Some q" "length d = unat cap" "cap \<noteq> 0"
  shows "tq_inv (tq_start q msgsize) []" "rq_bounds q = cap"
  using assms by (auto simp: rpa_queue_create_def tq_inv_def tq_start_def rq_inv_def tq_shape_def tq_waiters_def rq_slots_def
      unat_pos_iff)

text \<open>
  C3: From a created queue, under every interleaving of any number of posting and fetching threads,
  with wake-ups, time-outs and failing allocations at any point, the messages received are the
  first of the messages accepted, in order, each once and byte for byte; those in between are at
  most as many as the queue was created for and sit in distinct live buffers.
\<close>

theorem tkl_queue_fifo:
  assumes "rpa_queue_create True True True True 0 0 0 (Some d) cap = Some q" "length d = unat cap"
    and "tkl_queue_create_init False True (Some q) msgsize (sint cap) = (OPRT_OK, Some (q, msgsize))"
    and "tq_run (tq_start q msgsize) evs s"
  shows "\<exists>msgs. concat (map sent evs) = concat (map received evs) @ msgs \<and> length msgs \<le> unat cap \<and> tq_inv s msgs"
proof -
  have "cap \<noteq> 0" using assms(3) by (auto simp: tkl_queue_create_init_def split: if_splits)
  note st = tq_start_inv [OF assms(1,2) this]
  obtain msgs where m: "tq_inv s msgs" "concat (map sent evs) = concat (map received evs) @ msgs"
    using tq_run_inv [OF assms(4) st(1)] by auto
  have "rq_bounds (tq_queue s) = cap" using tq_run_bounds [OF assms(4)] st(2) by (simp add: tq_start_def)
  moreover obtain ps where "rq_inv (tq_queue s) ps" "map (tq_bufs s) ps = map Some msgs"
    using m(1) by (auto simp: tq_inv_def tq_shape_def)
  ultimately have "length msgs \<le> unat cap" using rq_inv_le [of "tq_queue s" ps] by (auto dest: map_eq_imp_length_eq)
  then show ?thesis using m by blast
qed

text \<open>
  In every reachable state every stage of every thread returns or goes to wait: no access of the
  ring or of a message buffer is out of bounds or after release.  A stage that returns has released
  the mutex if it took it, a stage that waits has taken it once (the wait gives it up), and a
  successful post or fetch has signalled the other side whenever threads wait there.
\<close>

theorem tkl_queue_stages_complete:
  assumes "rpa_queue_create True True True True 0 0 0 (Some d) cap = Some q" "length d = unat cap" "cap \<noteq> 0"
    and "tq_run (tq_start q msgsize) evs s"
  shows "(\<forall>t msg buf lock now timeout. t \<notin> dom (tq_post s) \<and> length msg = tq_msgsize s \<and> (buf = 0 \<or> buf \<notin> dom (tq_bufs s)) \<longrightarrow>
      (\<exists>r s' cs. tkl_queue_post False buf lock 0 now s t (Some msg) timeout = Some (r, s') \<and> rq_calls (tq_queue s') = cs @ rq_calls (tq_queue s)
        \<and> (if r = None then cs = [wait_call not_full now (wait_ms_of timeout), MutexLock] else unlocked cs)
        \<and> (r = Some OPRT_OK \<and> of_nat (card (tq_fetch s)) \<noteq> (0 :: u32) \<longrightarrow> CondSignal not_empty \<in> set cs)))
    \<and> (\<forall>t lock now timeout. t \<notin> tq_fetch s \<longrightarrow>
      (\<exists>r msg s' cs. tkl_queue_fetch False lock 0 now s t timeout = Some (r, msg, s') \<and> rq_calls (tq_queue s') = cs @ rq_calls (tq_queue s)
        \<and> (if r = None then cs = [wait_call not_empty now (wait_ms_of timeout), MutexLock] else unlocked cs)
        \<and> (r = Some OPRT_OK \<and> of_nat (card (dom (tq_post s))) \<noteq> (0 :: u32) \<longrightarrow> CondSignal not_full \<in> set cs)))
    \<and> (\<forall>t rv. t \<in> dom (tq_post s) \<longrightarrow>
      (\<exists>r s' cs. post_resume rv 0 s t = Some (r, s') \<and> rq_calls (tq_queue s') = cs @ rq_calls (tq_queue s) \<and> unlocked_again cs))
    \<and> (\<forall>t rv. t \<in> tq_fetch s \<longrightarrow>
      (\<exists>r msg s' cs. fetch_resume rv 0 s t = Some (r, msg, s') \<and> rq_calls (tq_queue s') = cs @ rq_calls (tq_queue s) \<and> unlocked_again cs))"
    (is "?post \<and> ?fetch \<and> ?pw \<and> ?fw")
proof -
  obtain msgs where i: "tq_inv s msgs" using tq_run_inv [OF assms(4) tq_start_inv(1) [OF assms(1-3)]] by blast
  have w: "rq_full_waiters (tq_queue s) = of_nat (card (dom (tq_post s)))"
    "rq_empty_waiters (tq_queue s) = of_nat (card (tq_fetch s))" using i by (auto simp: tq_inv_def tq_waiters_def)
  have "?post" using post_step [OF i] unfolding w by blast
  moreover have "?fetch" using fetch_step [OF i] unfolding w by blast
  moreover have "?pw"
  proof (intro allI impI)
    fix t rv assume "t \<in> dom (tq_post s)"
    then obtain buf where b: "tq_post s t = Some buf" by blast
    then obtain msg where "tq_bufs s buf = Some msg" using i by (auto simp: tq_inv_def tq_shape_def ran_def)
    then show "\<exists>r s' cs. post_resume rv 0 s t = Some (r, s') \<and> rq_calls (tq_queue s') = cs @ rq_calls (tq_queue s) \<and> unlocked_again cs"
      using post_woken_step [OF i b, of msg rv] by blast
  qed
  moreover have "?fw" using fetch_woken_step [OF i] by blast
  ultimately show ?thesis by blast
qed

text \<open>
  \<open>set_timeout\<close> of a non-negative delay adds exactly the delay to the current time rounded down
  to milliseconds.  Its nanosecond field is below one second, except that it is exactly one second
  when the milliseconds of the clock and of the delay add up to 1000, which
  \<open>pthread_cond_timedwait\<close> rejects.
\<close>

theorem set_timeout_value:
  assumes "0 \<le> nsec" "nsec < 1000000000" "0 \<le> wait_ms" "set_timeout (sec, nsec) wait_ms = (s, n)"
  shows "s * 1000 + n div 1000000 = sec * 1000 + nsec div 1000000 + wait_ms \<and> 1000000 dvd n \<and> 0 \<le> n
     \<and> (if nsec div 1000000 + wait_ms mod 1000 = 1000 then n = 1000000000 else n < 1000000000)"
proof -
  have sd: "wait_ms sdiv 1000 = wait_ms div 1000" "nsec sdiv 1000000 = nsec div 1000000" "wait_ms smod 1000 = wait_ms mod 1000"
    using assms(1,3) by (simp_all add: signed_divide_int_def signed_modulo_int_def sgn_if)
  define ms where "ms = nsec div 1000000 + wait_ms mod 1000"
  have ms: "0 \<le> ms" "ms \<le> 1998" using assms(1,2) by (auto simp: ms_def pos_imp_zdiv_nonneg_iff)
  have "carry_loop a ms = (if ms > 1000 then (a + 1, ms - 1000) else (a, ms))" for a
    using ms by (simp add: carry_loop.simps [of a ms] carry_loop.simps [of "a + 1"])
  then have r: "(s, n) = (if ms > 1000 then (sec + wait_ms div 1000 + 1, (ms - 1000) * 1000000) else (sec + wait_ms div 1000, ms * 1000000))"
    using assms(4) sd by (auto simp: set_timeout_def Let_def ms_def)
  define k m c where "k = wait_ms div 1000" and "m = wait_ms mod 1000" and "c = nsec div 1000000"
  have w: "wait_ms = 1000 * k + m" "ms = c + m" by (simp_all add: k_def m_def c_def ms_def)
  have "s * 1000 + n div 1000000 = sec * 1000 + c + wait_ms \<and> 1000000 dvd n \<and> 0 \<le> n
     \<and> (if c + m = 1000 then n = 1000000000 else n < 1000000000)"
    using r ms unfolding k_def [symmetric] by (auto simp: w split: if_splits)
  then show ?thesis unfolding m_def c_def .
qed

section \<open>A concrete session\<close>

definition demo_rq :: rpa_queue_t where
  "demo_rq = \<lparr>rq_data = Some [0, 0], rq_nelts = 0, rq_in = 0, rq_out = 0, rq_bounds = 2,
     rq_full_waiters = 0, rq_empty_waiters = 0, rq_terminated = False, rq_calls = []\<rparr>"

lemma demo_rq_create: "rpa_queue_create True True True True 0 0 0 (Some [0, 0]) 2 = Some demo_rq"
  by (simp add: rpa_queue_create_def demo_rq_def)

lemma demo_run:
  "\<exists>s. tq_run (tq_start demo_rq 1) [Fetch 2 [] None, Post 1 [7] (Some OPRT_OK), FetchWoken 2 [7] OPRT_OK] s \<and> tq_fetch s = {}"
proof -
  let ?s0 = "tq_start demo_rq 1"
  let ?q1 = "demo_rq\<lparr>rq_empty_waiters := 1, rq_calls := [CondWait not_empty, MutexLock]\<rparr>"
  let ?s1 = "?s0\<lparr>tq_queue := ?q1, tq_fetch := {2}\<rparr>"
  let ?q2 = "?q1\<lparr>rq_data := Some [5, 0], rq_nelts := 1, rq_in := 1,
       rq_calls := [MutexUnlock, CondSignal not_empty, MutexLock, CondWait not_empty, MutexLock]\<rparr>"
  let ?s2 = "?s1\<lparr>tq_queue := ?q2, tq_bufs := [5 \<mapsto> [7]]\<rparr>"
  let ?s3 = "?s2\<lparr>tq_queue := pcall MutexUnlock (?q2\<lparr>rq_nelts := 0, rq_out := 1, rq_empty_waiters := 0\<rparr>),
       tq_bufs := [5 \<mapsto> [7]](5 := None), tq_fetch := {}\<rparr>"
  have f1: "tkl_queue_fetch False 0 0 (0, 0) ?s0 2 0xFFFFFFFF = Some (None, [], ?s1)"
    by (simp add: tkl_queue_fetch_def tq_start_def demo_rq_def wait_ms_of_def TKL_QUEUE_WAIT_FROEVER_def RPA_WAIT_FOREVER_def
        rpa_queue_timedpop_def RPA_WAIT_NONE_def rpa_queue_empty_def Let_def wait_call_def pcall_def)
  have f2: "tkl_queue_post False 5 0 0 (0, 0) ?s1 1 (Some [7]) 0 = Some (Some OPRT_OK, ?s2)"
    by (simp add: tkl_queue_post_def tq_start_def wait_ms_of_def TKL_QUEUE_WAIT_FROEVER_def rpa_queue_timedpush_def RPA_WAIT_NONE_def
        rpa_queue_trypush_def demo_rq_def rpa_queue_full_def push_store_def Let_def post_result_def pcall_def word_le_nat_alt)
  have f3: "fetch_resume 0 0 ?s2 2 = Some (OPRT_OK, [7], ?s3)"
    by (simp add: fetch_resume_def timedpop_resume_def rpa_queue_empty_def pop_take_def Let_def fetch_finish_def
        tq_start_def demo_rq_def pcall_def word_le_nat_alt)
  have "tq_step ?s0 (Fetch 2 [] None) ?s1" by (rule tq_step.fetch [OF _ _ f1]) (simp_all add: tq_start_def)
  moreover have "tq_step ?s1 (Post 1 [7] (Some OPRT_OK)) ?s2" by (rule tq_step.post [OF _ _ _ _ f2]) (simp_all add: tq_start_def)
  moreover have "tq_step ?s2 (FetchWoken 2 [7] OPRT_OK) ?s3" by (rule tq_step.fetch_woken [OF _ f3]) simp
  ultimately have "tq_run ?s0 ((([] @ [Fetch 2 [] None]) @ [Post 1 [7] (Some OPRT_OK)]) @ [FetchWoken 2 [7] OPRT_OK]) ?s3"
    using tq_run.start by (intro tq_run.more)
  then show ?thesis by (intro exI [of _ ?s3]) simp
qed

theorem tkl_queue_fifo_witness:
  "\<exists>s msgs. tq_run (tq_start demo_rq 1) [Fetch 2 [] None, Post 1 [7] (Some OPRT_OK), FetchWoken 2 [7] OPRT_OK] s
     \<and> [[7]] = [[7]] @ msgs \<and> tq_inv s msgs"
proof -
  obtain s where s: "tq_run (tq_start demo_rq 1) [Fetch 2 [] None, Post 1 [7] (Some OPRT_OK), FetchWoken 2 [7] OPRT_OK] s"
    using demo_run by blast
  have c: "tkl_queue_create_init False True (Some demo_rq) 1 (sint (2 :: u32)) = (OPRT_OK, Some (demo_rq, 1))"
    by (simp add: tkl_queue_create_init_def)
  have l: "length [0, 0] = unat (2 :: u32)" by simp
  obtain msgs where "concat (map sent [Fetch 2 [] None, Post 1 [7] (Some OPRT_OK), FetchWoken 2 [7] OPRT_OK])
      = concat (map received [Fetch 2 [] None, Post 1 [7] (Some OPRT_OK), FetchWoken 2 [7] OPRT_OK]) @ msgs" "tq_inv s msgs"
    using tkl_queue_fifo [OF demo_rq_create l c s] by (elim exE conjE)
  then show ?thesis using s by (intro exI [of _ s] exI [of _ msgs]) simp
qed

theorem tkl_queue_stages_complete_witness:
  "\<exists>s r msg s'. tq_run (tq_start demo_rq 1) [Fetch 2 [] None, Post 1 [7] (Some OPRT_OK), FetchWoken 2 [7] OPRT_OK] s
     \<and> tkl_queue_fetch False 0 0 (3, 0) s 9 20 = Some (r, msg, s')"
proof -
  obtain s where s: "tq_run (tq_start demo_rq 1) [Fetch 2 [] None, Post 1 [7] (Some OPRT_OK), FetchWoken 2 [7] OPRT_OK] s" "tq_fetch s = {}"
    using demo_run by blast
  have l: "length [0, 0] = unat (2 :: u32)" "(2 :: u32) \<noteq> 0" by simp_all
  have t: "9 \<notin> tq_fetch s" using s(2) by simp
  note f = conjunct1 [OF conjunct2 [OF tkl_queue_stages_complete [OF demo_rq_create l s(1)]], rule_format]
  obtain r msg s' where "tkl_queue_fetch False 0 0 (3, 0) s 9 20 = Some (r, msg, s')"
    using f [OF t, of 0 "(3, 0)" 20] by (elim exE conjE)
  then show ?thesis using s(1) by (intro exI conjI)
qed

theorem set_timeout_value_witness:
  "set_timeout (10, 999000000) 2001 = (12, 1000000000)"
proof -
  obtain s n where r: "set_timeout (10, 999000000) 2001 = (s, n)" by fastforce
  show ?thesis using set_timeout_value [OF _ _ _ r] r by auto
qed

end
