(* ===== verification/Posix_World.thy ===== *)
theory Posix_World
  imports Tuya_Prelude "HOL-Library.State_Monad"
begin

text \<open>
  The Linux side of the peripheral adapters.  The drivers under \<open>tuyaos_adapter/src\<close> reach the
  hardware only through system calls, so the kernel is a parameter: a function \<open>os\<close> that takes the
  state of the world and a call and gives the reply and the new state.  A driver runs in the state
  monad over a \<open>machine\<close>: the world, the log of the calls with their replies (newest first) and the
  driver's own static variables.
  The second half is a small weakest-precondition calculus for such programs; its rules are
  collected in \<open>wp_rules\<close>.
\<close>

section \<open>System calls\<close>

record i2c_msg =
  im_addr :: u16
  im_flags :: nat
  im_len :: u16
  im_buf :: bytes

text \<open>A transfer of the SPI device: the bytes sent (absent for a zero pointer) and whether bytes are stored.\<close>

record spi_ioc_transfer =
  st_tx :: byte_ptr
  st_rx :: bool
  st_len :: u32
  st_speed_hz :: u32
  st_bits_per_word :: u8

datatype ioctl_req =
    GPIO_GET_LINEHANDLE_IOCTL u32 u32 u32
  | GPIO_GET_LINEEVENT_IOCTL u32 u32
  | GPIOHANDLE_SET_LINE_VALUES_IOCTL u8
  | GPIOHANDLE_GET_LINE_VALUES_IOCTL
  | I2C_TENBIT nat
  | I2C_SLAVE u16
  | I2C_SMBUS_QUICK
  | I2C_RDWR "i2c_msg list"
  | SPI_IOC_WR_MODE u8
  | SPI_IOC_WR_BITS_PER_WORD u8
  | SPI_IOC_WR_MAX_SPEED_HZ u32
  | SPI_IOC_WR_LSB_FIRST u8
  | SPI_IOC_MESSAGE "spi_ioc_transfer list"
  | SIOCGIFFLAGS string
  | SIOCGIFADDR string
  | SIOCGIFNETMASK string
  | SIOCSIFFLAGS string u16
  | SIOCSIFADDR string string
  | SIOCGIFHWADDR string
  | SIOCSIFHWADDR string bytes
  | SIOCGIFINDEX string
  | SIOCSIWMODE string nat
  | SIOCGIWMODE string
  | SIOCGIWFREQ string
  | SIOCSIWFREQ string bytes

text \<open>The terminal settings; \<open>c_cc\<close> lists the control characters by index.\<close>

record termios =
  c_iflag :: u32
  c_oflag :: u32
  c_cflag :: u32
  c_lflag :: u32
  c_cc :: "nat \<Rightarrow> u8"
  c_ispeed :: u32
  c_ospeed :: u32

datatype sys_call =
    Stat string
  | Open string
  | Close int
  | Write int bytes
  | Read int nat
  | Ioctl int ioctl_req
  | Poll int
  | Usleep nat
  | Lock
  | Unlock
  | Thread_Create nat
  | Thread_Cancel nat
  | Thread_Join nat
  | Thread_Detach
  | Sleep nat
  | Socket nat
  | Bind int string nat
  | Sendto int bytes string nat
  | Recvfrom int nat
  | Select int
  | Fcntl int
  | Tcgetattr int
  | Tcsetattr int termios
  | If_Nameindex
  | If_Freenameindex
  | Family_Socket nat nat
  | Bind_Packet int int
  | Setsockopt int
  | Creat string nat
  | Unlink string
  | Read_Text int
  | Access string
  | Open_Dir string
  | Close_Dir
  | Make_Dir string nat
  | System string
  | Popen string
  | Pclose
  | Malloc nat
  | Free int
  | Iw_Get_Range_Info int string
  | Iw_Scan int string
  | Iw_Get_Basic_Config int string

text \<open>
  The result, the value of \<open>errno\<close> after a failure, and what the call stores through its pointer
  argument: the descriptor in a GPIO request, the line values, the bytes read, for \<open>poll\<close> the
  events in \<open>sr_fd\<close>, for \<open>select\<close> whether the descriptor is ready, the terminal settings.  The names that
  \<open>if_nameindex\<close> gives are stored as bytes, each with its terminating zero.  A number stored through a
  pointer (interface flags, index, operating mode) is in \<open>sr_fd\<close>, and so is the address of a new block of
  memory; structures of the wireless extensions and the text of a file or pipe are in \<open>sr_data\<close>.
\<close>

record sys_reply =
  sr_rc :: int
  sr_errno :: int
  sr_fd :: int
  sr_data :: bytes
  sr_tio :: termios

definition zero_tio :: termios where
  "zero_tio = \<lparr>c_iflag = 0, c_oflag = 0, c_cflag = 0, c_lflag = 0, c_cc = \<lambda>_. 0, c_ispeed = 0, c_ospeed = 0\<rparr>"

text \<open>A reply without an error.\<close>

definition reply :: "int \<Rightarrow> int \<Rightarrow> bytes \<Rightarrow> sys_reply" where
  "reply rc fd d = \<lparr>sr_rc = rc, sr_errno = 0, sr_fd = fd, sr_data = d, sr_tio = zero_tio\<rparr>"

lemma reply_simps [simp]:
  "sr_rc (reply rc fd d) = rc" "sr_errno (reply rc fd d) = 0" "sr_fd (reply rc fd d) = fd" "sr_data (reply rc fd d) = d"
  "sr_tio (reply rc fd d) = zero_tio"
  by (simp_all add: reply_def)

type_synonym 'w kernel = "'w \<Rightarrow> sys_call \<Rightarrow> sys_reply \<times> 'w"

record ('w, 'd) machine =
  m_os :: 'w
  m_log :: "(sys_call \<times> sys_reply) list"
  m_dev :: 'd

type_synonym ('w, 'd, 'a) prog = "(('w, 'd) machine, 'a) state"

definition syscall :: "'w kernel \<Rightarrow> sys_call \<Rightarrow> ('w, 'd, sys_reply) prog" where
  "syscall os c = State (\<lambda>s. let (r, w) = os (m_os s) c in (r, s\<lparr>m_os := w, m_log := (c, r) # m_log s\<rparr>))"

definition dev :: "('w, 'd, 'd) prog" where
  "dev = State (\<lambda>s. (m_dev s, s))"

definition set_dev :: "('d \<Rightarrow> 'd) \<Rightarrow> ('w, 'd, unit) prog" where
  "set_dev f = State (\<lambda>s. ((), s\<lparr>m_dev := f (m_dev s)\<rparr>))"

abbreviation ret :: "'a \<Rightarrow> ('w, 'd, 'a) prog" where
  "ret \<equiv> State_Monad.return"

definition lock :: "'w kernel \<Rightarrow> ('w, 'd, unit) prog" where
  "lock os = do { syscall os Lock; ret () }"

definition unlock :: "'w kernel \<Rightarrow> ('w, 'd, unit) prog" where
  "unlock os = do { syscall os Unlock; ret () }"

text \<open>What a call stores at the start of a buffer.\<close>

definition store_into :: "bytes \<Rightarrow> bytes \<Rightarrow> bytes" where
  "store_into buf d = d @ drop (length d) buf"

definition text_bytes :: "string \<Rightarrow> bytes" where
  "text_bytes = map of_char"

definition snprintf :: "nat \<Rightarrow> string \<Rightarrow> string" where
  "snprintf len s = take (len - 1) s"

text \<open>A sequence of calls, with the result of each.\<close>

fun run_ops :: "('op \<Rightarrow> ('w, 'd, 'a) prog) \<Rightarrow> 'op list \<Rightarrow> ('w, 'd, 'a list) prog" where
  "run_ops exec [] = ret []"
| "run_ops exec (x # xs) = do { r \<leftarrow> exec x; rs \<leftarrow> run_ops exec xs; ret (r # rs) }"

lemma run_ops_length: "run_state (run_ops exec ops) s = (rs, s') \<Longrightarrow> length rs = length ops"
  by (induction ops arbitrary: s rs s') (auto split: prod.splits)

section \<open>Weakest preconditions\<close>

named_theorems wp_rules \<open>rules of the weakest-precondition calculus\<close>

definition wp :: "('s, 'a) state \<Rightarrow> ('a \<Rightarrow> 's \<Rightarrow> bool) \<Rightarrow> 's \<Rightarrow> bool" where
  "wp m Q s \<longleftrightarrow> (case run_state m s of (r, s') \<Rightarrow> Q r s')"

lemma wp_bind [wp_rules]: "wp m (\<lambda>r. wp (f r) Q) s \<Longrightarrow> wp (State_Monad.bind m f) Q s"
  by (simp add: wp_def split: prod.splits)

lemma wp_return [wp_rules]: "Q x s \<Longrightarrow> wp (State_Monad.return x) Q s"
  by (simp add: wp_def)

lemma wp_if [wp_rules]: "(b \<Longrightarrow> wp x Q s) \<Longrightarrow> (\<not> b \<Longrightarrow> wp y Q s) \<Longrightarrow> wp (if b then x else y) Q s"
  by simp

lemma wp_case_option [wp_rules]:
  "(o' = None \<Longrightarrow> wp x Q s) \<Longrightarrow> (\<And>v. o' = Some v \<Longrightarrow> wp (f v) Q s) \<Longrightarrow> wp (case o' of None \<Rightarrow> x | Some v \<Rightarrow> f v) Q s"
  by (cases o') simp_all

lemma wp_let [wp_rules]: "wp (f x) Q s \<Longrightarrow> wp (let y = x in f y) Q s"
  by simp

lemma wp_dev [wp_rules]: "Q (m_dev s) s \<Longrightarrow> wp dev Q s"
  by (simp add: wp_def dev_def)

lemma wp_set_dev [wp_rules]: "Q () (s\<lparr>m_dev := f (m_dev s)\<rparr>) \<Longrightarrow> wp (set_dev f) Q s"
  by (simp add: wp_def set_dev_def)

lemma wp_case_prod [wp_rules]: "(\<And>a b. x = (a, b) \<Longrightarrow> wp (f a b) Q s) \<Longrightarrow> wp (case x of (a, b) \<Rightarrow> f a b) Q s"
  by (cases x) simp

lemma wp_mono: "wp m Q s \<Longrightarrow> (\<And>r s'. Q r s' \<Longrightarrow> R r s') \<Longrightarrow> wp m R s"
  by (auto simp: wp_def split: prod.splits)

lemma wpD: "wp m Q s \<Longrightarrow> run_state m s = (r, s') \<Longrightarrow> Q r s'"
  by (simp add: wp_def)

section \<open>The mutex\<close>

text \<open>How often the driver's mutex is held, read off the log.\<close>

fun held :: "(sys_call \<times> sys_reply) list \<Rightarrow> int" where
  "held [] = 0"
| "held ((Lock, r) # l) = held l + 1"
| "held ((Unlock, r) # l) = held l - 1"
| "held (_ # l) = held l"

abbreviation depth :: "('w, 'd) machine \<Rightarrow> int" where
  "depth s \<equiv> held (m_log s)"

lemma held_other: "c \<noteq> Lock \<Longrightarrow> c \<noteq> Unlock \<Longrightarrow> held ((c, r) # l) = held l"
  by (cases c) simp_all

lemma wp_syscall:
  "(\<And>r w. os (m_os s) c = (r, w) \<Longrightarrow> Q r (s\<lparr>m_os := w, m_log := (c, r) # m_log s\<rparr>)) \<Longrightarrow> wp (syscall os c) Q s"
  by (auto simp: wp_def syscall_def split: prod.splits)

lemma run_syscall: "run_state (syscall os c) s = (fst (os (m_os s) c), s\<lparr>m_os := snd (os (m_os s) c), m_log := (c, fst (os (m_os s) c)) # m_log s\<rparr>)"
  by (simp add: syscall_def case_prod_beta)

lemma wp_lock [wp_rules]:
  "(\<And>s'. m_dev s' = m_dev s \<Longrightarrow> depth s' = depth s + 1 \<Longrightarrow> Q () s') \<Longrightarrow> wp (lock os) Q s"
  unfolding lock_def by (rule wp_bind, rule wp_syscall, rule wp_return) simp

lemma wp_unlock [wp_rules]:
  "(\<And>s'. m_dev s' = m_dev s \<Longrightarrow> depth s' = depth s - 1 \<Longrightarrow> Q () s') \<Longrightarrow> wp (unlock os) Q s"
  unfolding unlock_def by (rule wp_bind, rule wp_syscall, rule wp_return) simp

text \<open>Helpers that neither touch the driver's variables nor the mutex.\<close>

named_theorems quiet_rules \<open>programs that leave driver state and mutex alone\<close>

definition quiet :: "('w, 'd, 'a) prog \<Rightarrow> bool" where
  "quiet m \<longleftrightarrow> (\<forall>s. wp m (\<lambda>r s'. m_dev s' = m_dev s \<and> depth s' = depth s) s)"

lemma quiet_return [quiet_rules]: "quiet (ret x)"
  by (simp add: quiet_def wp_def)

lemma quiet_bind [quiet_rules]: "quiet m \<Longrightarrow> (\<And>x. quiet (f x)) \<Longrightarrow> quiet (State_Monad.bind m f)"
  unfolding quiet_def by (intro allI wp_bind, rule wp_mono, erule spec, rule wp_mono, blast, simp)

lemma quiet_if [quiet_rules]: "quiet x \<Longrightarrow> quiet y \<Longrightarrow> quiet (if b then x else y)"
  by simp

lemma quiet_syscall: "c \<noteq> Lock \<Longrightarrow> c \<noteq> Unlock \<Longrightarrow> quiet (syscall os c)"
  by (auto simp: quiet_def wp_def syscall_def held_other split: prod.splits)

lemma quiet_calls [quiet_rules]:
  "quiet (syscall os (Stat p))" "quiet (syscall os (Open p))" "quiet (syscall os (Close fd))" "quiet (syscall os (Write fd b))"
  "quiet (syscall os (Read fd n))" "quiet (syscall os (Ioctl fd i))" "quiet (syscall os (Poll fd))" "quiet (syscall os (Usleep n))" "quiet (syscall os (Thread_Create n))"
  "quiet (syscall os (Socket k))" "quiet (syscall os If_Nameindex)" "quiet (syscall os If_Freenameindex)"
  by (auto intro: quiet_syscall)

lemma wp_quiet: "quiet m \<Longrightarrow> (\<And>r s'. m_dev s' = m_dev s \<Longrightarrow> depth s' = depth s \<Longrightarrow> Q r s') \<Longrightarrow> wp m Q s"
  by (rule wp_mono [of m "\<lambda>r s'. m_dev s' = m_dev s \<and> depth s' = depth s" s]) (auto simp: quiet_def)

end
