(* ===== verification/Fd_Ledger.thy ===== *)
theory Fd_Ledger
  imports Posix_World
begin

text \<open>
  Accounting for file descriptors.  The log of a machine tells which descriptors are open; a driver
  keeps some of them in its static variables.  The locale \<open>fd_owner\<close> states what a driver has to say
  about itself, the descriptors its variables hold and the invariant they satisfy, and provides the
  rules for opening, closing, storing and dropping descriptors; \<open>fd_driver\<close> adds its operations and
  shows that no sequence of them loses a descriptor, closes one twice or keeps the mutex.
\<close>

section \<open>Descriptors in the log\<close>

text \<open>
  \<open>fds_fresh\<close> says that the kernel hands out only descriptors that are not open, \<open>closes_ok\<close> that the
  driver closes only open ones.
\<close>

fun new_fd :: "sys_call \<Rightarrow> sys_reply \<Rightarrow> int option" where
  "new_fd (Open p) r = (if sr_rc r \<ge> 0 then Some (sr_rc r) else None)"
| "new_fd (Socket k) r = (if sr_rc r \<ge> 0 then Some (sr_rc r) else None)"
| "new_fd (Family_Socket f k) r = (if sr_rc r \<ge> 0 then Some (sr_rc r) else None)"
| "new_fd (Creat p m) r = (if sr_rc r \<ge> 0 then Some (sr_rc r) else None)"
| "new_fd (Ioctl fd (GPIO_GET_LINEHANDLE_IOCTL a b c)) r = (if sr_rc r \<ge> 0 then Some (sr_fd r) else None)"
| "new_fd (Ioctl fd (GPIO_GET_LINEEVENT_IOCTL a b)) r = (if sr_rc r \<ge> 0 then Some (sr_fd r) else None)"
| "new_fd _ r = None"

fun open_fds :: "(sys_call \<times> sys_reply) list \<Rightarrow> int set" where
  "open_fds [] = {}"
| "open_fds ((Close fd, r) # l) = open_fds l - {fd}"
| "open_fds ((c, r) # l) = (case new_fd c r of None \<Rightarrow> open_fds l | Some fd \<Rightarrow> insert fd (open_fds l))"

text \<open>\<open>socket\<close> has only one negative result.\<close>

fun socket_ok :: "sys_call \<Rightarrow> sys_reply \<Rightarrow> bool" where
  "socket_ok (Socket k) r \<longleftrightarrow> -1 \<le> sr_rc r"
| "socket_ok (Family_Socket f k) r \<longleftrightarrow> -1 \<le> sr_rc r"
| "socket_ok _ r \<longleftrightarrow> True"

fun fds_fresh :: "(sys_call \<times> sys_reply) list \<Rightarrow> bool" where
  "fds_fresh [] = True"
| "fds_fresh ((c, r) # l) \<longleftrightarrow> fds_fresh l \<and> socket_ok c r \<and> (case new_fd c r of None \<Rightarrow> True | Some fd \<Rightarrow> 0 \<le> fd \<and> fd \<notin> open_fds l)"

fun closes_ok :: "(sys_call \<times> sys_reply) list \<Rightarrow> bool" where
  "closes_ok [] = True"
| "closes_ok ((Close fd, r) # l) \<longleftrightarrow> fd \<in> open_fds l \<and> closes_ok l"
| "closes_ok ((c, r) # l) \<longleftrightarrow> closes_ok l"

fun is_close :: "sys_call \<Rightarrow> bool" where
  "is_close (Close fd) = True"
| "is_close _ = False"

lemma open_fds_other:
  "\<not> is_close c \<Longrightarrow> open_fds ((c, r) # l) = (case new_fd c r of None \<Rightarrow> open_fds l | Some fd \<Rightarrow> insert fd (open_fds l))"
  "\<not> is_close c \<Longrightarrow> closes_ok ((c, r) # l) = closes_ok l"
  by (cases c, simp_all)+

text \<open>The descriptors \<open>own\<close> are exactly the open ones, each held in one place.\<close>

definition balanced :: "('k \<rightharpoonup> int) \<Rightarrow> (sys_call \<times> sys_reply) list \<Rightarrow> bool" where
  "balanced own l \<longleftrightarrow> closes_ok l \<and> open_fds l = ran own \<and> inj_on own (dom own)"

section \<open>Drivers that own descriptors\<close>

locale fd_owner =
  fixes fds :: "'d \<Rightarrow> 'k \<rightharpoonup> int"
    and ok :: "'d \<Rightarrow> bool"
    and boot :: 'd
  assumes boot_fds: "fds boot = Map.empty"
    and boot_ok: "ok boot"
begin

text \<open>The descriptors in \<open>xs\<close> are open but only in local variables.\<close>

definition acc :: "int list \<Rightarrow> ('w, 'd) machine \<Rightarrow> bool" where
  "acc xs s \<longleftrightarrow> ok (m_dev s) \<and> (fds_fresh (m_log s) \<longrightarrow>
     closes_ok (m_log s) \<and> open_fds (m_log s) = set xs \<union> ran (fds (m_dev s)) \<and> distinct xs \<and> (\<forall>x\<in>set xs. 0 \<le> x)
     \<and> set xs \<inter> ran (fds (m_dev s)) = {} \<and> inj_on (fds (m_dev s)) (dom (fds (m_dev s))))"

definition safe :: "('w, 'd, 'a) prog \<Rightarrow> bool" where
  "safe m \<longleftrightarrow> (\<forall>s. acc [] s \<longrightarrow> wp m (\<lambda>r s'. acc [] s' \<and> depth s' = depth s) s)"

lemma acc_ok: "acc xs s \<Longrightarrow> ok (m_dev s)"
  by (simp add: acc_def)

lemma acc_boot: "m_log s = [] \<Longrightarrow> m_dev s = boot \<Longrightarrow> acc [] s"
  by (simp add: acc_def boot_fds boot_ok)

lemma acc_balanced: "acc [] s \<Longrightarrow> fds_fresh (m_log s) \<Longrightarrow> balanced (fds (m_dev s)) (m_log s)"
  by (simp add: acc_def balanced_def)

lemma acc_new:
  assumes "acc xs s" "\<not> is_close c" "m_log s' = (c, r) # m_log s" "m_dev s' = m_dev s"
  shows "acc (case new_fd c r of None \<Rightarrow> xs | Some fd \<Rightarrow> fd # xs) s'"
  using assms by (auto simp: acc_def open_fds_other split: option.split)

lemma acc_close:
  assumes "acc (c # xs) s" "m_log s' = (Close c, r) # m_log s" "m_dev s' = m_dev s"
  shows "acc xs s'"
  using assms by (auto simp: acc_def)

lemma acc_close2:
  assumes "acc (f # c # xs) s" "m_log s' = (Close c, r) # m_log s" "m_dev s' = m_dev s"
  shows "acc (f # xs) s'"
  using assms by (auto simp: acc_def)

lemma acc_same:
  assumes "acc xs s" "fds d' = fds (m_dev s)" "ok d'"
  shows "acc xs (s\<lparr>m_dev := d'\<rparr>)"
  using assms by (simp add: acc_def)

lemma acc_cong: "acc xs s \<Longrightarrow> m_log s' = m_log s \<Longrightarrow> m_dev s' = m_dev s \<Longrightarrow> acc xs s'"
  by (simp add: acc_def)

text \<open>Filling an empty place and emptying a full one.\<close>

lemma acc_store:
  assumes "acc (f # xs) s" "fds (m_dev s) k = None" "0 \<le> f \<Longrightarrow> fds d' = (fds (m_dev s))(k \<mapsto> f)" "ok d'"
  shows "acc xs (s\<lparr>m_dev := d'\<rparr>)"
proof -
  have "ran (fds d') = insert f (ran (fds (m_dev s)))" if "0 \<le> f" using assms(2,3) that by simp
  moreover have "inj_on (fds d') (dom (fds d'))" if "0 \<le> f" "f \<notin> ran (fds (m_dev s))" "inj_on (fds (m_dev s)) (dom (fds (m_dev s)))"
    using that assms(2) unfolding assms(3) [OF that(1)] by (auto simp: inj_on_def ran_def)
  ultimately show ?thesis using assms(1,4) by (auto simp: acc_def)
qed

lemma acc_clear:
  assumes "acc xs s" "fds (m_dev s) k = Some f" "fds d' = (fds (m_dev s))(k := None)" "ok d'"
  shows "acc xs (s\<lparr>m_os := w, m_log := (Close f, r) # m_log s, m_dev := d'\<rparr>)"
proof -
  have r: "ran (fds d') = ran (fds (m_dev s)) - {f}" "inj_on (fds d') (dom (fds d'))" if "inj_on (fds (m_dev s)) (dom (fds (m_dev s)))"
  proof -
    have "fds (m_dev s) k' \<noteq> Some f" if "k' \<noteq> k" for k'
      using \<open>inj_on _ _\<close> that assms(2) by (metis domI inj_onD)
    then show "ran (fds d') = ran (fds (m_dev s)) - {f}" unfolding assms(3) using assms(2)
      by (auto simp: ran_def) (metis option.inject)
    show "inj_on (fds d') (dom (fds d'))" using \<open>inj_on _ _\<close> unfolding assms(3) by (auto simp: inj_on_def)
  qed
  show ?thesis using assms(1,2,4) r by (auto simp: acc_def ran_def)
qed

subsection \<open>Rules for programs\<close>

lemma wp_acc_call:
  assumes "acc xs s" "\<not> is_close c" "c \<noteq> Lock" "c \<noteq> Unlock"
    "\<And>r s'. m_dev s' = m_dev s \<Longrightarrow> depth s' = depth s \<Longrightarrow> acc (case new_fd c r of None \<Rightarrow> xs | Some fd \<Rightarrow> fd # xs) s' \<Longrightarrow> Q r s'"
  shows "wp (syscall os c) Q s"
proof (rule wp_syscall)
  fix r w
  let ?s = "s\<lparr>m_os := w, m_log := (c, r) # m_log s\<rparr>"
  have "acc (case new_fd c r of None \<Rightarrow> xs | Some fd \<Rightarrow> fd # xs) ?s" using assms(1,2) by (rule acc_new) simp_all
  then show "Q r ?s" using assms(3,4) by (intro assms(5)) (simp_all add: held_other)
qed

lemma wp_close_second:
  assumes "acc (f # c # xs) s" "\<And>r s'. m_dev s' = m_dev s \<Longrightarrow> depth s' = depth s \<Longrightarrow> acc (f # xs) s' \<Longrightarrow> Q r s'"
  shows "wp (syscall os (Close c)) Q s"
  by (rule wp_syscall) (rule assms(2), simp_all add: acc_close2 [OF assms(1)])

lemma wp_close_first:
  assumes "acc (c # xs) s" "\<And>r s'. m_dev s' = m_dev s \<Longrightarrow> depth s' = depth s \<Longrightarrow> acc xs s' \<Longrightarrow> Q r s'"
  shows "wp (syscall os (Close c)) Q s"
  by (rule wp_syscall) (rule assms(2), simp_all add: acc_close [OF assms(1)])

text \<open>Closing a descriptor the driver holds and forgetting it.\<close>

lemma wp_close_held:
  assumes "acc xs s" "fds (m_dev s) k = Some f" "fds (g (m_dev s)) = (fds (m_dev s))(k := None)" "ok (g (m_dev s))"
    "\<And>s'. m_dev s' = g (m_dev s) \<Longrightarrow> depth s' = depth s \<Longrightarrow> acc xs s' \<Longrightarrow> Q () s'"
  shows "wp (State_Monad.bind (syscall os (Close f)) (\<lambda>_. set_dev g)) Q s"
  by (rule wp_bind, rule wp_syscall, rule wp_set_dev, rule assms(5)) (simp_all add: acc_clear [OF assms(1-4)])

lemma acc_lock:
  assumes "acc xs s" "m_log s' = (c, r) # m_log s" "m_dev s' = m_dev s" "c = Lock \<or> c = Unlock"
  shows "acc xs s'"
  using assms by (auto simp: acc_def)

lemma wp_lock_acc:
  assumes "acc xs s" "\<And>s'. m_dev s' = m_dev s \<Longrightarrow> depth s' = depth s + 1 \<Longrightarrow> acc xs s' \<Longrightarrow> Q () s'"
  shows "wp (lock os) Q s"
  unfolding lock_def by (intro wp_bind wp_syscall wp_return assms(2)) (simp_all add: acc_lock [OF assms(1)])

lemma wp_unlock_acc:
  assumes "acc xs s" "\<And>s'. m_dev s' = m_dev s \<Longrightarrow> depth s' = depth s - 1 \<Longrightarrow> acc xs s' \<Longrightarrow> Q () s'"
  shows "wp (unlock os) Q s"
  unfolding unlock_def by (intro wp_bind wp_syscall wp_return assms(2)) (simp_all add: acc_lock [OF assms(1)])

lemma wp_safe:
  assumes "safe m" "acc [] s" "\<And>r s'. acc [] s' \<Longrightarrow> depth s' = depth s \<Longrightarrow> Q r s'"
  shows "wp m Q s"
proof -
  have "wp m (\<lambda>r s'. acc [] s' \<and> depth s' = depth s) s" using assms(1,2) by (simp add: safe_def)
  then show ?thesis by (rule wp_mono) (simp add: assms(3))
qed

lemma safe_return: "safe (ret x)"
  by (simp add: safe_def wp_def)

lemma safe_bind: "safe m \<Longrightarrow> (\<And>x. safe (f x)) \<Longrightarrow> safe (State_Monad.bind m f)"
  unfolding safe_def
  by (intro allI impI wp_bind, rule wp_safe [unfolded safe_def], assumption, assumption, rule wp_mono, blast, simp)

lemma safe_run_ops: "(\<And>x. safe (exec x)) \<Longrightarrow> safe (run_ops exec ops)"
  by (induction ops) (auto intro!: safe_bind safe_return)

subsection \<open>Programs that hold no descriptor on the way\<close>

definition kept :: "('w, 'd, 'a) prog \<Rightarrow> bool" where
  "kept m \<longleftrightarrow> (\<forall>s. acc [] s \<longrightarrow> wp m (\<lambda>r. acc []) s)"

lemma kept_bind: "kept m \<Longrightarrow> (\<And>x. kept (f x)) \<Longrightarrow> kept (State_Monad.bind m f)"
  unfolding kept_def by (intro allI impI wp_bind) (blast intro: wp_mono)

lemma kept_return: "kept (ret x)"
  by (simp add: kept_def wp_def)

lemma kept_if: "kept x \<Longrightarrow> kept y \<Longrightarrow> kept (if b then x else y)"
  by simp

lemma kept_case_option: "kept x \<Longrightarrow> (\<And>v. kept (f v)) \<Longrightarrow> kept (case o' of None \<Rightarrow> x | Some v \<Rightarrow> f v)"
  by (cases o') simp_all

lemma kept_let: "(\<And>y. kept (f y)) \<Longrightarrow> kept (let y = x in f y)"
  by simp

lemma kept_dev: "kept dev"
  unfolding kept_def by (intro allI impI wp_dev)

lemma kept_set_dev: "(\<And>d. ok d \<Longrightarrow> ok (f d) \<and> fds (f d) = fds d) \<Longrightarrow> kept (set_dev f)"
  unfolding kept_def by (intro allI impI wp_set_dev) (auto intro: acc_same simp: acc_ok)

lemma kept_call: "\<not> is_close c \<Longrightarrow> (\<And>r. new_fd c r = None) \<Longrightarrow> kept (syscall os c)"
  unfolding kept_def by (intro allI impI wp_syscall) (auto simp: acc_def open_fds_other)

lemma kept_lock: "kept (lock os)" "kept (unlock os)"
  unfolding lock_def unlock_def by (intro kept_bind kept_return kept_call; simp)+

lemma keptD: "kept m \<Longrightarrow> acc [] s \<Longrightarrow> wp m (\<lambda>r. acc []) s"
  by (simp add: kept_def)

text \<open>Open a file, make one call on it and close it.\<close>

lemma kept_open_use_close:
  fixes os :: "'w kernel"
  assumes "\<And>fd. kept (x fd)" "\<And>fd wr. kept (f fd wr)" "\<And>fd. \<not> is_close (c fd)" "\<And>fd. c fd \<noteq> Lock" "\<And>fd. c fd \<noteq> Unlock"
    "\<And>fd r. new_fd (c fd) r = None"
  shows "kept (State_Monad.bind (syscall os (Open p)) (\<lambda>fd. if sr_rc fd < 0 then x fd
    else State_Monad.bind (syscall os (c fd)) (\<lambda>wr. State_Monad.bind (syscall os (Close (sr_rc fd))) (\<lambda>_. f fd wr))))"
  unfolding kept_def
proof (intro allI impI wp_bind)
  fix s :: "('w, 'd) machine"
  assume "acc [] s"
  then show "wp (syscall os (Open p)) (\<lambda>fd. wp (if sr_rc fd < 0 then x fd
    else State_Monad.bind (syscall os (c fd)) (\<lambda>wr. State_Monad.bind (syscall os (Close (sr_rc fd))) (\<lambda>_. f fd wr))) (\<lambda>r. acc [])) s"
  proof (rule wp_acc_call)
    fix fd and s1 :: "('w, 'd) machine"
    assume a: "acc (case new_fd (Open p) fd of None \<Rightarrow> [] | Some fd' \<Rightarrow> [fd']) s1"
    have "wp (State_Monad.bind (syscall os (c fd)) (\<lambda>wr. State_Monad.bind (syscall os (Close (sr_rc fd))) (\<lambda>_. f fd wr))) (\<lambda>r. acc []) s1"
      if "acc [sr_rc fd] s1" using that
      by (intro wp_bind, elim wp_acc_call) (auto intro!: wp_bind assms(3-5) keptD [OF assms(2)] elim!: wp_close_first simp: assms(6))
    then show "wp (if sr_rc fd < 0 then x fd
    else State_Monad.bind (syscall os (c fd)) (\<lambda>wr. State_Monad.bind (syscall os (Close (sr_rc fd))) (\<lambda>_. f fd wr))) (\<lambda>r. acc []) s1"
      using a by (auto intro!: keptD [OF assms(1)] split: if_splits)
  qed simp_all
qed

lemma wp_quiet_kept:
  assumes "quiet m" "kept m" "acc [] s" "\<And>r s'. m_dev s' = m_dev s \<Longrightarrow> depth s' = depth s \<Longrightarrow> acc [] s' \<Longrightarrow> Q r s'"
  shows "wp m Q s"
  using assms keptD [OF assms(2,3)] unfolding quiet_def wp_def by (auto split: prod.splits)

lemma kept_run_ops: "(\<And>x. kept (exec x)) \<Longrightarrow> kept (run_ops exec ops)"
  by (induction ops) (auto intro!: kept_bind kept_return)

subsection \<open>Sockets for one query\<close>

lemma safe_call:
  assumes "\<not> is_close c" "c \<noteq> Lock" "c \<noteq> Unlock" "\<And>r. new_fd c r = None"
  shows "safe (syscall os c)"
  unfolding safe_def
  by (intro allI impI, erule wp_acc_call) (use assms in simp_all)

text \<open>A descriptor from \<open>socket\<close> that one call uses and \<open>close\<close> releases.\<close>

lemma close_safe:
  assumes "\<And>x. safe (f x)" "acc [fd] s" "depth s = n"
  shows "wp (State_Monad.bind (syscall os (Close fd)) f) (\<lambda>r s'. acc [] s' \<and> depth s' = n) s"
  by (intro wp_bind, rule wp_close_first [OF assms(2)]) (auto intro: wp_safe [OF assms(1)] simp: assms(3))

lemma ioctl_acc:
  assumes "acc [fd] s" "\<And>fd r. new_fd (Ioctl fd i) r = None"
    "\<And>r s'. acc [fd] s' \<Longrightarrow> depth s' = depth s \<Longrightarrow> Q r s'"
  shows "wp (syscall os (Ioctl fd i)) Q s"
  by (rule wp_acc_call [OF assms(1)]) (use assms(2,3) in simp_all)

lemma socket_acc:
  assumes "acc [] s" "\<And>r s'. sr_rc r = -1 \<Longrightarrow> acc [] s' \<Longrightarrow> depth s' = depth s \<Longrightarrow> Q r s'"
    "\<And>r s'. sr_rc r \<noteq> -1 \<Longrightarrow> acc [sr_rc r] s' \<Longrightarrow> depth s' = depth s \<Longrightarrow> Q r s'"
  shows "wp (syscall os (Socket k)) Q s"
proof (rule wp_syscall)
  fix r w
  let ?s = "s\<lparr>m_os := w, m_log := (Socket k, r) # m_log s\<rparr>"
  have a: "acc (case new_fd (Socket k) r of None \<Rightarrow> [] | Some fd \<Rightarrow> [fd]) ?s"
    by (rule acc_new [OF assms(1)]) simp_all
  have "acc [sr_rc r] ?s" if "sr_rc r < -1" using that acc_ok [OF assms(1)] by (simp add: acc_def)
  moreover have "acc [sr_rc r] ?s" if "0 \<le> sr_rc r" using a that by simp
  moreover have "acc [] ?s" if "sr_rc r = -1" using a that by simp
  ultimately show "Q r ?s" using assms(2,3) [of r ?s] by (cases "sr_rc r = -1"; cases "sr_rc r < -1") (simp_all add: held_other)
qed

text \<open>Programs that hold one descriptor at the start and have released it at the end.\<close>

definition ends :: "int \<Rightarrow> ('w, 'd, 'a) prog \<Rightarrow> bool" where
  "ends fd m \<longleftrightarrow> (\<forall>s. acc [fd] s \<longrightarrow> wp m (\<lambda>r s'. acc [] s' \<and> depth s' = depth s) s)"

lemma ends_close: "(\<And>x. safe (f x)) \<Longrightarrow> ends fd (State_Monad.bind (syscall os (Close fd)) f)"
  unfolding ends_def by (auto intro: close_safe)

lemma ends_call:
  assumes "\<not> is_close c" "c \<noteq> Lock" "c \<noteq> Unlock" "\<And>r. new_fd c r = None" "\<And>r. ends fd (f r)"
  shows "ends fd (State_Monad.bind (syscall os c) f)"
  unfolding ends_def
proof (intro allI impI wp_bind, erule wp_acc_call)
  fix s r and s' :: "('a, 'd) machine"
  assume a: "acc (case new_fd c r of None \<Rightarrow> [fd] | Some fd' \<Rightarrow> [fd', fd]) s'" "depth s' = depth s"
  have "acc [fd] s'" using a(1) assms(4) by simp
  then have "wp (f r) (\<lambda>r s''. acc [] s'' \<and> depth s'' = depth s') s'" using assms(5) unfolding ends_def by blast
  then show "wp (f r) (\<lambda>r s'. acc [] s' \<and> depth s' = depth s) s'" unfolding a(2) .
qed (use assms in simp_all)

lemma ends_if: "ends fd x \<Longrightarrow> ends fd y \<Longrightarrow> ends fd (if b then x else y)"
  by simp

lemma safe_open:
  assumes "\<not> is_close c" "c \<noteq> Lock" "c \<noteq> Unlock" "\<And>r. new_fd c r = (if sr_rc r \<ge> 0 then Some (sr_rc r) else None)"
    and "\<And>r. sr_rc r < 0 \<Longrightarrow> safe (f r)" "\<And>r. 0 \<le> sr_rc r \<Longrightarrow> ends (sr_rc r) (f r)"
  shows "safe (State_Monad.bind (syscall os c) f)"
  unfolding safe_def
proof (intro allI impI wp_bind, erule wp_acc_call)
  fix s r and s' :: "('a, 'd) machine"
  assume a: "acc (case new_fd c r of None \<Rightarrow> [] | Some fd \<Rightarrow> [fd]) s'" "depth s' = depth s"
  show "wp (f r) (\<lambda>r s'. acc [] s' \<and> depth s' = depth s) s'"
  proof (cases "0 \<le> sr_rc r")
    case True
    then have "ends (sr_rc r) (f r)" "acc [sr_rc r] s'" using a assms(4,6) by auto
    then have "wp (f r) (\<lambda>r s''. acc [] s'' \<and> depth s'' = depth s') s'" unfolding ends_def by blast
    then show ?thesis unfolding a(2) .
  next
    case False
    then have "safe (f r)" "acc [] s'" using a assms(4,5) by auto
    then have "wp (f r) (\<lambda>r s''. acc [] s'' \<and> depth s'' = depth s') s'" unfolding safe_def by blast
    then show ?thesis unfolding a(2) .
  qed
qed (use assms in simp_all)

lemmas kept_rules = kept_bind kept_return kept_if kept_case_option kept_let kept_dev kept_lock

end

text \<open>A driver all of whose operations respect the ledger.\<close>

locale fd_driver = fd_owner fds ok boot
  for fds :: "'d \<Rightarrow> 'k \<rightharpoonup> int" and ok :: "'d \<Rightarrow> bool" and boot :: 'd +
  fixes exec :: "'w kernel \<Rightarrow> 'op \<Rightarrow> ('w, 'd, 'a) prog"
  assumes exec_safe: "safe (exec os x)"
begin

lemma session_accounted:
  assumes "run_state (run_ops (exec os) ops) \<lparr>m_os = w, m_log = [], m_dev = boot\<rparr> = (rs, s)"
  shows "ok (m_dev s)" "held (m_log s) = 0" "fds_fresh (m_log s) \<Longrightarrow> balanced (fds (m_dev s)) (m_log s)"
proof -
  let ?s = "\<lparr>m_os = w, m_log = [], m_dev = boot\<rparr>"
  have "wp (run_ops (exec os) ops) (\<lambda>r s'. acc [] s' \<and> depth s' = depth ?s) ?s"
    by (rule wp_safe [OF safe_run_ops [OF exec_safe] acc_boot]) simp_all
  then have "acc [] s \<and> depth s = depth ?s" using assms by (rule wpD)
  then show "ok (m_dev s)" "held (m_log s) = 0" "fds_fresh (m_log s) \<Longrightarrow> balanced (fds (m_dev s)) (m_log s)"
    by (auto simp: acc_balanced intro: acc_ok)
qed

end

end
