(* ===== verification/Tkl_Pwm.thy ===== *)
theory Tkl_Pwm
  imports Fd_Ledger
begin

text \<open>
  The PWM adapter of \<open>tkl_pwm.c\<close>, which drives the kernel's sysfs interface under
  \<open>/sys/class/pwm\<close> by writing text files, and keeps one context per channel under a mutex.
  The kernel is the parameter \<open>os\<close> of every operation.
\<close>

section \<open>Types and constants\<close>

datatype TUYA_PWM_POLARITY_E = TUYA_PWM_NEGATIVE | TUYA_PWM_POSITIVE
datatype TUYA_PWM_COUNT_E = TUYA_PWM_CNT_UP | TUYA_PWM_CNT_UP_AND_DOWN

record TUYA_PWM_BASE_CFG_T =
  polarity :: TUYA_PWM_POLARITY_E
  count_mode :: TUYA_PWM_COUNT_E
  duty :: u32
  cycle :: u32
  frequency :: u32

record pwm_ctx_t =
  inited :: bool
  exported :: bool
  enabled :: bool
  cfg :: TUYA_PWM_BASE_CFG_T

type_synonym pwm_dev = "int \<Rightarrow> pwm_ctx_t"

definition PWM_SYSFS_CHIP :: nat where "PWM_SYSFS_CHIP = 0"
definition PWM_SYSFS_CHANNEL_BASE :: int where "PWM_SYSFS_CHANNEL_BASE = 0"
definition TUYA_PWM_DUTY_SCALE :: u32 where "TUYA_PWM_DUTY_SCALE = 10000"
definition TUYA_PWM_NUM_MAX :: int where "TUYA_PWM_NUM_MAX = 12"

text \<open>The error numbers of Linux that the adapter mentions.\<close>

definition ENOENT :: int where "ENOENT = 2"
definition EIO :: int where "EIO = 5"
definition EACCES :: int where "EACCES = 13"
definition ENODEV :: int where "ENODEV = 19"
definition EINVAL :: int where "EINVAL = 22"
definition ETIMEDOUT :: int where "ETIMEDOUT = 110"

lemmas errno_defs = EPERM_def ENOENT_def EIO_def EACCES_def EBUSY_def ENODEV_def EINVAL_def ETIMEDOUT_def

text \<open>A zeroed context, as static storage and \<open>memset\<close> give it.\<close>

definition zero_cfg :: TUYA_PWM_BASE_CFG_T where
  "zero_cfg = \<lparr>polarity = TUYA_PWM_NEGATIVE, count_mode = TUYA_PWM_CNT_UP, duty = 0, cycle = 0, frequency = 0\<rparr>"

definition zero_ctx :: pwm_ctx_t where
  "zero_ctx = \<lparr>inited = False, exported = False, enabled = False, cfg = zero_cfg\<rparr>"

section \<open>Files\<close>

definition path_exists :: "'w kernel \<Rightarrow> string option \<Rightarrow> ('w, pwm_dev, bool) prog" where
  "path_exists os path =
     (case path of
        None \<Rightarrow> ret False
      | Some p \<Rightarrow> do { r \<leftarrow> syscall os (Stat p); ret (sr_rc r = 0) })"

definition write_text_file :: "'w kernel \<Rightarrow> string option \<Rightarrow> string option \<Rightarrow> ('w, pwm_dev, int) prog" where
  "write_text_file os path value =
     (case path of
        None \<Rightarrow> ret (- EINVAL)
      | Some p \<Rightarrow>
          case value of
            None \<Rightarrow> ret (- EINVAL)
          | Some v \<Rightarrow> do {
              fd \<leftarrow> syscall os (Open p);
              if sr_rc fd < 0 then ret (- sr_errno fd)
              else do {
                wr \<leftarrow> syscall os (Write (sr_rc fd) (text_bytes v));
                syscall os (Close (sr_rc fd));
                if sr_rc wr < 0 then ret (- sr_errno wr)
                else if sr_rc wr \<noteq> int (length v) then ret (- EIO)
                else ret 0
              }
            })"

text \<open>A directory buffer of length 0 is not written.\<close>

definition pwm_sysfs_paths :: "nat \<Rightarrow> nat \<Rightarrow> nat \<Rightarrow> nat \<Rightarrow> string option \<times> string option" where
  "pwm_sysfs_paths chip channel chip_dir_len pwm_dir_len =
     (if chip_dir_len > 0 then Some (snprintf chip_dir_len (''/sys/class/pwm/pwmchip'' @ dec_digits chip)) else None,
      if pwm_dir_len > 0
      then Some (snprintf pwm_dir_len (''/sys/class/pwm/pwmchip'' @ dec_digits chip @ ''/pwm'' @ dec_digits channel))
      else None)"

section \<open>Period and duty cycle\<close>

definition period_ns_from_frequency :: "u32 \<Rightarrow> u64" where
  "period_ns_from_frequency freq = (if freq = 0 then 0 else 1000000000 div ucast freq)"

definition duty_ns_from_cfg :: "u64 \<Rightarrow> TUYA_PWM_BASE_CFG_T option \<Rightarrow> u64" where
  "duty_ns_from_cfg period_ns c =
     (case c of
        None \<Rightarrow> 0
      | Some c \<Rightarrow>
          if period_ns = 0 then 0
          else if cycle c \<noteq> 0 \<and> duty c \<le> cycle c then (period_ns * ucast (duty c)) div ucast (cycle c)
          else let d = (if duty c > TUYA_PWM_DUTY_SCALE then TUYA_PWM_DUTY_SCALE else duty c)
               in (period_ns * ucast d) div ucast TUYA_PWM_DUTY_SCALE)"

definition clamp_duty :: "u64 \<Rightarrow> u64 \<Rightarrow> u64" where
  "clamp_duty duty_ns period_ns = (if duty_ns > period_ns then period_ns else duty_ns)"

section \<open>Sysfs operations\<close>

fun wait_exported :: "'w kernel \<Rightarrow> string option \<Rightarrow> nat \<Rightarrow> ('w, pwm_dev, int) prog" where
  "wait_exported os pwm_dir 0 = ret (- ETIMEDOUT)"
| "wait_exported os pwm_dir (Suc n) = do {
     e \<leftarrow> path_exists os pwm_dir;
     if e then ret 0
     else do { syscall os (Usleep (10 * 1000)); wait_exported os pwm_dir n }
   }"

definition ensure_exported_locked :: "'w kernel \<Rightarrow> nat \<Rightarrow> nat \<Rightarrow> ('w, pwm_dev, int) prog" where
  "ensure_exported_locked os chip channel =
     (let (chip_dir, pwm_dir) = pwm_sysfs_paths chip channel 96 128 in do {
        c \<leftarrow> path_exists os chip_dir;
        if \<not> c then ret (- ENOENT)
        else do {
          e \<leftarrow> path_exists os pwm_dir;
          if e then ret 0
          else do {
            rt \<leftarrow> write_text_file os (Some (snprintf 128 (the chip_dir @ ''/export''))) (Some (snprintf 32 (dec_digits channel)));
            if rt < 0 \<and> rt \<noteq> - EBUSY then ret rt
            else wait_exported os pwm_dir 50
          }
        }
      })"

definition unexport_locked :: "'w kernel \<Rightarrow> nat \<Rightarrow> nat \<Rightarrow> ('w, pwm_dev, int) prog" where
  "unexport_locked os chip channel =
     (let (chip_dir, pwm_dir) = pwm_sysfs_paths chip channel 96 128 in do {
        c \<leftarrow> path_exists os chip_dir;
        if \<not> c then ret (- ENOENT)
        else do {
          e \<leftarrow> path_exists os pwm_dir;
          if \<not> e then ret 0
          else write_text_file os (Some (snprintf 128 (the chip_dir @ ''/unexport''))) (Some (snprintf 32 (dec_digits channel)))
        }
      })"

text \<open>The attribute file \<open>name\<close> of a channel.\<close>

definition attr_path :: "nat \<Rightarrow> nat \<Rightarrow> string \<Rightarrow> string" where
  "attr_path chip channel name = snprintf 160 (the (snd (pwm_sysfs_paths chip channel 0 128)) @ name)"

definition set_enable_locked :: "'w kernel \<Rightarrow> nat \<Rightarrow> nat \<Rightarrow> bool \<Rightarrow> ('w, pwm_dev, int) prog" where
  "set_enable_locked os chip channel enable =
     write_text_file os (Some (attr_path chip channel ''/enable'')) (Some (if enable then ''1'' else ''0''))"

definition set_period_locked :: "'w kernel \<Rightarrow> nat \<Rightarrow> nat \<Rightarrow> u64 \<Rightarrow> ('w, pwm_dev, int) prog" where
  "set_period_locked os chip channel period_ns =
     write_text_file os (Some (attr_path chip channel ''/period'')) (Some (snprintf 32 (dec_digits (unat period_ns))))"

definition set_duty_locked :: "'w kernel \<Rightarrow> nat \<Rightarrow> nat \<Rightarrow> u64 \<Rightarrow> ('w, pwm_dev, int) prog" where
  "set_duty_locked os chip channel duty_ns =
     write_text_file os (Some (attr_path chip channel ''/duty_cycle'')) (Some (snprintf 32 (dec_digits (unat duty_ns))))"

definition set_polarity_locked :: "'w kernel \<Rightarrow> nat \<Rightarrow> nat \<Rightarrow> TUYA_PWM_POLARITY_E \<Rightarrow> ('w, pwm_dev, int) prog" where
  "set_polarity_locked os chip channel pol =
     write_text_file os (Some (attr_path chip channel ''/polarity''))
       (Some (if pol = TUYA_PWM_NEGATIVE then ''inversed'' else ''normal''))"

definition map_errno_to_oprt :: "int \<Rightarrow> OPERATE_RET" where
  "map_errno_to_oprt err =
     (if err \<ge> 0 then OPRT_OK
      else if - err = EINVAL then OPRT_INVALID_PARM
      else if - err = ENOENT \<or> - err = ENODEV then OPRT_NOT_FOUND
      else if - err = EPERM \<or> - err = EACCES then OPRT_COM_ERROR
      else OPRT_COM_ERROR)"

definition ch_valid :: "int \<Rightarrow> bool" where
  "ch_valid ch_id \<longleftrightarrow> ch_id \<ge> 0 \<and> ch_id < TUYA_PWM_NUM_MAX"

abbreviation chan :: "int \<Rightarrow> nat" where
  "chan ch_id \<equiv> nat (PWM_SYSFS_CHANNEL_BASE + ch_id)"

definition upd_ctx :: "int \<Rightarrow> (pwm_ctx_t \<Rightarrow> pwm_ctx_t) \<Rightarrow> pwm_dev \<Rightarrow> pwm_dev" where
  "upd_ctx ch f d = d(ch := f (d ch))"

section \<open>Operations\<close>

text \<open>Leave the critical section and return the translated error.\<close>

definition fail_with :: "'w kernel \<Rightarrow> int \<Rightarrow> ('w, pwm_dev, OPERATE_RET) prog" where
  "fail_with os err = do { unlock os; ret (map_errno_to_oprt err) }"

definition leave :: "'w kernel \<Rightarrow> OPERATE_RET \<Rightarrow> ('w, pwm_dev, OPERATE_RET) prog" where
  "leave os r = do { unlock os; ret r }"

definition tkl_pwm_init :: "'w kernel \<Rightarrow> int \<Rightarrow> TUYA_PWM_BASE_CFG_T option \<Rightarrow> ('w, pwm_dev, OPERATE_RET) prog" where
  "tkl_pwm_init os ch_id c =
     (case c of
        None \<Rightarrow> ret OPRT_INVALID_PARM
      | Some c \<Rightarrow>
          if \<not> ch_valid ch_id then ret OPRT_INVALID_PARM
          else do {
            lock os;
            err \<leftarrow> ensure_exported_locked os PWM_SYSFS_CHIP (chan ch_id);
            if err < 0 then fail_with os err
            else do {
              set_enable_locked os PWM_SYSFS_CHIP (chan ch_id) False;
              err \<leftarrow> set_polarity_locked os PWM_SYSFS_CHIP (chan ch_id) (polarity c);
              if err < 0 then fail_with os err
              else let period_ns = period_ns_from_frequency (frequency c) in
                if period_ns = 0 then leave os OPRT_INVALID_PARM
                else let duty_ns = clamp_duty (duty_ns_from_cfg period_ns (Some c)) period_ns in do {
                  err \<leftarrow> set_period_locked os PWM_SYSFS_CHIP (chan ch_id) period_ns;
                  if err < 0 then fail_with os err
                  else do {
                    err \<leftarrow> set_duty_locked os PWM_SYSFS_CHIP (chan ch_id) duty_ns;
                    if err < 0 then fail_with os err
                    else do {
                      set_dev (upd_ctx ch_id (\<lambda>x. \<lparr>inited = True, exported = True, enabled = False, cfg = c\<rparr>));
                      leave os OPRT_OK
                    }
                  }
                }
            }
          })"

definition tkl_pwm_deinit :: "'w kernel \<Rightarrow> int \<Rightarrow> ('w, pwm_dev, OPERATE_RET) prog" where
  "tkl_pwm_deinit os ch_id =
     (if \<not> ch_valid ch_id then ret OPRT_INVALID_PARM
      else do {
        lock os;
        d \<leftarrow> dev;
        (if enabled (d ch_id)
         then do {
           set_enable_locked os PWM_SYSFS_CHIP (chan ch_id) False;
           set_dev (upd_ctx ch_id (enabled_update (\<lambda>_. False)))
         }
         else ret ());
        unexport_locked os PWM_SYSFS_CHIP (chan ch_id);
        set_dev (upd_ctx ch_id (\<lambda>_. zero_ctx));
        leave os OPRT_OK
      })"

text \<open>The common body of \<open>tkl_pwm_start\<close> and \<open>tkl_pwm_stop\<close>, which differ in one flag.\<close>

definition pwm_switch :: "'w kernel \<Rightarrow> int \<Rightarrow> bool \<Rightarrow> ('w, pwm_dev, OPERATE_RET) prog" where
  "pwm_switch os ch_id on =
     (if \<not> ch_valid ch_id then ret OPRT_INVALID_PARM
      else do {
        lock os;
        d \<leftarrow> dev;
        if \<not> inited (d ch_id) then leave os OPRT_INVALID_PARM
        else do {
          err \<leftarrow> set_enable_locked os PWM_SYSFS_CHIP (chan ch_id) on;
          if err < 0 then fail_with os err
          else do {
            set_dev (upd_ctx ch_id (enabled_update (\<lambda>_. on)));
            leave os OPRT_OK
          }
        }
      })"

definition tkl_pwm_start :: "'w kernel \<Rightarrow> int \<Rightarrow> ('w, pwm_dev, OPERATE_RET) prog" where
  "tkl_pwm_start os ch_id = pwm_switch os ch_id True"

definition tkl_pwm_stop :: "'w kernel \<Rightarrow> int \<Rightarrow> ('w, pwm_dev, OPERATE_RET) prog" where
  "tkl_pwm_stop os ch_id = pwm_switch os ch_id False"

fun multi_loop :: "(int \<Rightarrow> ('w, pwm_dev, OPERATE_RET) prog) \<Rightarrow> int list \<Rightarrow> ('w, pwm_dev, OPERATE_RET) prog" where
  "multi_loop f [] = ret OPRT_OK"
| "multi_loop f (ch # chs) = do { rt \<leftarrow> f ch; if rt \<noteq> OPRT_OK then ret rt else multi_loop f chs }"

definition tkl_pwm_multichannel_start :: "'w kernel \<Rightarrow> int list option \<Rightarrow> u8 \<Rightarrow> ('w, pwm_dev, OPERATE_RET) prog" where
  "tkl_pwm_multichannel_start os chs num =
     (case chs of
        None \<Rightarrow> ret OPRT_INVALID_PARM
      | Some l \<Rightarrow> if num = 0 then ret OPRT_INVALID_PARM else multi_loop (tkl_pwm_start os) (take (unat num) l))"

definition tkl_pwm_multichannel_stop :: "'w kernel \<Rightarrow> int list option \<Rightarrow> u8 \<Rightarrow> ('w, pwm_dev, OPERATE_RET) prog" where
  "tkl_pwm_multichannel_stop os chs num =
     (case chs of
        None \<Rightarrow> ret OPRT_INVALID_PARM
      | Some l \<Rightarrow> if num = 0 then ret OPRT_INVALID_PARM else multi_loop (tkl_pwm_stop os) (take (unat num) l))"

definition tkl_pwm_duty_set :: "'w kernel \<Rightarrow> int \<Rightarrow> u32 \<Rightarrow> ('w, pwm_dev, OPERATE_RET) prog" where
  "tkl_pwm_duty_set os ch_id dty =
     (if \<not> ch_valid ch_id then ret OPRT_INVALID_PARM
      else do {
        lock os;
        d \<leftarrow> dev;
        if \<not> inited (d ch_id) then leave os OPRT_INVALID_PARM
        else let c = (cfg (d ch_id))\<lparr>duty := dty\<rparr>;
                 period_ns = period_ns_from_frequency (frequency c);
                 duty_ns = clamp_duty (duty_ns_from_cfg period_ns (Some c)) period_ns in do {
          err \<leftarrow> set_duty_locked os PWM_SYSFS_CHIP (chan ch_id) duty_ns;
          if err < 0 then fail_with os err
          else do {
            set_dev (upd_ctx ch_id (cfg_update (\<lambda>_. c)));
            leave os OPRT_OK
          }
        }
      })"

text \<open>Switch the output back on if it was on before a change; continue with \<open>k\<close> unless that fails.\<close>

definition re_enable ::
    "'w kernel \<Rightarrow> int \<Rightarrow> bool \<Rightarrow> ('w, pwm_dev, OPERATE_RET) prog \<Rightarrow> ('w, pwm_dev, OPERATE_RET) prog" where
  "re_enable os ch_id was_enabled k =
     (if was_enabled
      then do {
        err \<leftarrow> set_enable_locked os PWM_SYSFS_CHIP (chan ch_id) True;
        if err < 0 then fail_with os err else k
      }
      else k)"

definition tkl_pwm_frequency_set :: "'w kernel \<Rightarrow> int \<Rightarrow> u32 \<Rightarrow> ('w, pwm_dev, OPERATE_RET) prog" where
  "tkl_pwm_frequency_set os ch_id freq =
     (if \<not> ch_valid ch_id \<or> freq = 0 then ret OPRT_INVALID_PARM
      else do {
        lock os;
        d \<leftarrow> dev;
        if \<not> inited (d ch_id) then leave os OPRT_INVALID_PARM
        else let was_enabled = enabled (d ch_id) in do {
          set_enable_locked os PWM_SYSFS_CHIP (chan ch_id) False;
          let c = (cfg (d ch_id))\<lparr>frequency := freq\<rparr>;
              period_ns = period_ns_from_frequency (frequency c);
              duty_ns = clamp_duty (duty_ns_from_cfg period_ns (Some c)) period_ns in do {
            err \<leftarrow> set_period_locked os PWM_SYSFS_CHIP (chan ch_id) period_ns;
            if err < 0 then fail_with os err
            else do {
              err \<leftarrow> set_duty_locked os PWM_SYSFS_CHIP (chan ch_id) duty_ns;
              if err < 0 then fail_with os err
              else re_enable os ch_id was_enabled (do {
                set_dev (upd_ctx ch_id (\<lambda>x. x\<lparr>cfg := c, enabled := was_enabled\<rparr>));
                leave os OPRT_OK
              })
            }
          }
        }
      })"

definition tkl_pwm_polarity_set :: "'w kernel \<Rightarrow> int \<Rightarrow> TUYA_PWM_POLARITY_E \<Rightarrow> ('w, pwm_dev, OPERATE_RET) prog" where
  "tkl_pwm_polarity_set os ch_id pol =
     (if \<not> ch_valid ch_id then ret OPRT_INVALID_PARM
      else do {
        lock os;
        d \<leftarrow> dev;
        if \<not> inited (d ch_id) then leave os OPRT_INVALID_PARM
        else let was_enabled = enabled (d ch_id) in do {
          set_enable_locked os PWM_SYSFS_CHIP (chan ch_id) False;
          err \<leftarrow> set_polarity_locked os PWM_SYSFS_CHIP (chan ch_id) pol;
          if err < 0 then fail_with os err
          else re_enable os ch_id was_enabled (do {
            set_dev (upd_ctx ch_id (\<lambda>x. x\<lparr>cfg := (cfg x)\<lparr>polarity := pol\<rparr>, enabled := was_enabled\<rparr>));
            leave os OPRT_OK
          })
        }
      })"

definition tkl_pwm_info_set :: "'w kernel \<Rightarrow> int \<Rightarrow> TUYA_PWM_BASE_CFG_T option \<Rightarrow> ('w, pwm_dev, OPERATE_RET) prog" where
  "tkl_pwm_info_set os ch_id info =
     (case info of
        None \<Rightarrow> ret OPRT_INVALID_PARM
      | Some i \<Rightarrow>
          if \<not> ch_valid ch_id then ret OPRT_INVALID_PARM
          else do {
            lock os;
            d \<leftarrow> dev;
            unlock os;
            let was_inited = inited (d ch_id); was_enabled = enabled (d ch_id) in
            if \<not> was_inited
            then do {
              rt \<leftarrow> tkl_pwm_init os ch_id (Some i);
              if rt \<noteq> OPRT_OK then ret rt
              else if was_enabled then tkl_pwm_start os ch_id else ret OPRT_OK
            }
            else do {
              (if was_enabled then do { tkl_pwm_stop os ch_id; ret () } else ret ());
              rt \<leftarrow> tkl_pwm_polarity_set os ch_id (polarity i);
              if rt \<noteq> OPRT_OK then ret rt
              else do {
                rt \<leftarrow> tkl_pwm_frequency_set os ch_id (frequency i);
                if rt \<noteq> OPRT_OK then ret rt
                else do {
                  rt \<leftarrow> tkl_pwm_duty_set os ch_id (duty i);
                  if rt \<noteq> OPRT_OK then ret rt
                  else do {
                    lock os;
                    set_dev (upd_ctx ch_id (cfg_update (\<lambda>_. i)));
                    unlock os;
                    if was_enabled then tkl_pwm_start os ch_id else ret OPRT_OK
                  }
                }
              }
            }
          })"

definition tkl_pwm_info_get :: "'w kernel \<Rightarrow> int \<Rightarrow> bool \<Rightarrow> ('w, pwm_dev, OPERATE_RET \<times> TUYA_PWM_BASE_CFG_T option) prog" where
  "tkl_pwm_info_get os ch_id info_null =
     (if \<not> ch_valid ch_id \<or> info_null then ret (OPRT_INVALID_PARM, None)
      else do {
        lock os;
        d \<leftarrow> dev;
        if \<not> inited (d ch_id) then do { unlock os; ret (OPRT_INVALID_PARM, None) }
        else do { unlock os; ret (OPRT_OK, Some (cfg (d ch_id))) }
      })"

definition tkl_pwm_cap_start :: "int \<Rightarrow> 'c \<Rightarrow> ('w, pwm_dev, OPERATE_RET) prog" where
  "tkl_pwm_cap_start ch_id c = ret OPRT_NOT_SUPPORTED"

definition tkl_pwm_cap_stop :: "int \<Rightarrow> ('w, pwm_dev, OPERATE_RET) prog" where
  "tkl_pwm_cap_stop ch_id = ret OPRT_NOT_SUPPORTED"

section \<open>Helpers leave contexts and mutex alone\<close>

lemma quiet_case_option [quiet_rules]:
  "quiet x \<Longrightarrow> (\<And>v. quiet (f v)) \<Longrightarrow> quiet (case o' of None \<Rightarrow> x | Some v \<Rightarrow> f v)"
  by (cases o') simp_all

lemma quiet_path_exists [quiet_rules]: "quiet (path_exists os path)"
  unfolding path_exists_def by (intro quiet_rules)

lemma quiet_write_text_file [quiet_rules]: "quiet (write_text_file os path value)"
  unfolding write_text_file_def by (intro quiet_rules)

lemma quiet_wait_exported [quiet_rules]: "quiet (wait_exported os dir n)"
  by (induction n) (simp_all only: wait_exported.simps, (intro quiet_rules | assumption)+)

lemma quiet_sysfs:
  "quiet (ensure_exported_locked os chip ch)" "quiet (unexport_locked os chip ch)" "quiet (set_enable_locked os chip ch on)"
  "quiet (set_period_locked os chip ch p)" "quiet (set_duty_locked os chip ch p)" "quiet (set_polarity_locked os chip ch pol)"
  by (simp_all only: ensure_exported_locked_def unexport_locked_def set_enable_locked_def set_period_locked_def
      set_duty_locked_def set_polarity_locked_def pwm_sysfs_paths_def Let_def prod.case) (intro quiet_rules)+

lemmas wp_sysfs [wp_rules] = quiet_sysfs [THEN wp_quiet]

lemma map_errno_fails: "err < 0 \<Longrightarrow> map_errno_to_oprt err \<noteq> OPRT_OK"
  by (simp add: map_errno_to_oprt_def)

lemma wp_fail_with [wp_rules]:
  "(\<And>s'. m_dev s' = m_dev s \<Longrightarrow> depth s' = depth s - 1 \<Longrightarrow> Q (map_errno_to_oprt err) s') \<Longrightarrow> wp (fail_with os err) Q s"
  unfolding fail_with_def by (intro wp_rules)

lemma wp_leave [wp_rules]:
  "(\<And>s'. m_dev s' = m_dev s \<Longrightarrow> depth s' = depth s - 1 \<Longrightarrow> Q r s') \<Longrightarrow> wp (leave os r) Q s"
  unfolding leave_def by (intro wp_rules)

lemma wp_re_enable [wp_rules]:
  assumes "\<And>s' err. m_dev s' = m_dev s \<Longrightarrow> depth s' = depth s - 1 \<Longrightarrow> err < 0 \<Longrightarrow> Q (map_errno_to_oprt err) s'"
    "\<And>s'. m_dev s' = m_dev s \<Longrightarrow> depth s' = depth s \<Longrightarrow> wp k Q s'"
  shows "wp (re_enable os ch on k) Q s"
  unfolding re_enable_def by (intro wp_rules) (use assms in auto)

section \<open>Effect of each operation\<close>

text \<open>
  An operation either fails and changes no context, or succeeds and changes one context by \<open>f\<close>;
  in both cases it gives the mutex back.
\<close>

definition effect :: "(pwm_ctx_t \<Rightarrow> bool) \<Rightarrow> int \<Rightarrow> (pwm_ctx_t \<Rightarrow> pwm_ctx_t) \<Rightarrow> ('w, pwm_dev, OPERATE_RET) prog \<Rightarrow> bool" where
  "effect P ch f m \<longleftrightarrow> (\<forall>s. wp m (\<lambda>r s'. depth s' = depth s
     \<and> (if r = OPRT_OK then ch_valid ch \<and> P (m_dev s ch) \<and> m_dev s' = upd_ctx ch f (m_dev s) else m_dev s' = m_dev s)) s)"

lemma init_effect:
  "effect (\<lambda>_. \<exists>i. c = Some i \<and> period_ns_from_frequency (frequency i) \<noteq> 0) ch
     (\<lambda>_. \<lparr>inited = True, exported = True, enabled = False, cfg = the c\<rparr>) (tkl_pwm_init os ch c)"
  unfolding effect_def tkl_pwm_init_def
  by (intro allI wp_rules) (auto simp: map_errno_fails)

lemma switch_effect: "effect inited ch (enabled_update (\<lambda>_. on)) (pwm_switch os ch on)"
  unfolding effect_def pwm_switch_def by (intro allI wp_rules) (auto simp: map_errno_fails)

lemma duty_effect: "effect inited ch (\<lambda>x. x\<lparr>cfg := (cfg x)\<lparr>duty := dty\<rparr>\<rparr>) (tkl_pwm_duty_set os ch dty)"
  unfolding effect_def tkl_pwm_duty_set_def by (intro allI wp_rules) (auto simp: map_errno_fails upd_ctx_def)

lemma frequency_effect:
  "effect (\<lambda>x. inited x \<and> freq \<noteq> 0) ch (\<lambda>x. x\<lparr>cfg := (cfg x)\<lparr>frequency := freq\<rparr>\<rparr>) (tkl_pwm_frequency_set os ch freq)"
  unfolding effect_def tkl_pwm_frequency_set_def by (intro allI wp_rules) (auto simp: map_errno_fails upd_ctx_def)

lemma polarity_effect:
  "effect inited ch (\<lambda>x. x\<lparr>cfg := (cfg x)\<lparr>polarity := pol\<rparr>\<rparr>) (tkl_pwm_polarity_set os ch pol)"
  unfolding effect_def tkl_pwm_polarity_set_def by (intro allI wp_rules) (auto simp: map_errno_fails upd_ctx_def)

lemma deinit_effect: "effect (\<lambda>_. True) ch (\<lambda>_. zero_ctx) (tkl_pwm_deinit os ch)"
  unfolding effect_def tkl_pwm_deinit_def by (intro allI wp_rules) (auto simp: upd_ctx_def)

lemma wp_effect:
  assumes "effect P ch f m"
    and "\<And>r s'. depth s' = depth s \<Longrightarrow> r = OPRT_OK \<Longrightarrow> ch_valid ch \<Longrightarrow> P (m_dev s ch) \<Longrightarrow> m_dev s' = upd_ctx ch f (m_dev s) \<Longrightarrow> Q r s'"
    and "\<And>r s'. depth s' = depth s \<Longrightarrow> r \<noteq> OPRT_OK \<Longrightarrow> m_dev s' = m_dev s \<Longrightarrow> Q r s'"
  shows "wp m Q s"
proof -
  have "wp m (\<lambda>r s'. depth s' = depth s
     \<and> (if r = OPRT_OK then ch_valid ch \<and> P (m_dev s ch) \<and> m_dev s' = upd_ctx ch f (m_dev s) else m_dev s' = m_dev s)) s"
    using assms(1) by (simp add: effect_def)
  then show ?thesis by (rule wp_mono) (auto intro: assms(2,3) split: if_splits)
qed

section \<open>Invariant of the channel contexts\<close>

definition ctx_ok :: "pwm_ctx_t \<Rightarrow> bool" where
  "ctx_ok x \<longleftrightarrow> (enabled x \<longrightarrow> inited x) \<and> (inited x \<longrightarrow> exported x \<and> frequency (cfg x) \<noteq> 0)"

definition pwm_inv :: "pwm_dev \<Rightarrow> bool" where
  "pwm_inv d \<longleftrightarrow> (\<forall>ch. ctx_ok (d ch) \<and> (\<not> ch_valid ch \<longrightarrow> d ch = zero_ctx))"

definition keeps_inv :: "('w, pwm_dev, 'a) prog \<Rightarrow> bool" where
  "keeps_inv m \<longleftrightarrow> (\<forall>s. pwm_inv (m_dev s) \<longrightarrow> wp m (\<lambda>r s'. pwm_inv (m_dev s') \<and> depth s' = depth s) s)"

lemma upd_ctx_compose:
  "upd_ctx ch f (upd_ctx ch g d) = upd_ctx ch (\<lambda>x. f (g x)) d" "upd_ctx ch f d ch = f (d ch)"
  "c \<noteq> ch \<Longrightarrow> upd_ctx ch f d c = d c"
  by (auto simp: upd_ctx_def)

lemma pwm_inv_upd: "pwm_inv d \<Longrightarrow> ch_valid ch \<Longrightarrow> ctx_ok (f (d ch)) \<Longrightarrow> pwm_inv (upd_ctx ch f d)"
  by (auto simp: pwm_inv_def upd_ctx_def)

lemma pwm_inv_ctx: "pwm_inv d \<Longrightarrow> ctx_ok (d ch)"
  by (simp add: pwm_inv_def)

lemma effect_keeps:
  assumes "effect P ch f m" "\<And>x. P x \<Longrightarrow> ctx_ok x \<Longrightarrow> ctx_ok (f x)"
  shows "keeps_inv m"
  unfolding keeps_inv_def
  by (intro allI impI, rule wp_effect [OF assms(1)]) (use assms(2) in \<open>simp_all add: pwm_inv_upd pwm_inv_ctx\<close>)

lemma period_nonzero: "period_ns_from_frequency freq \<noteq> 0 \<Longrightarrow> freq \<noteq> 0"
  by (auto simp: period_ns_from_frequency_def)

lemmas ctx_defs = ctx_ok_def zero_ctx_def

lemma keeps_ops:
  "keeps_inv (tkl_pwm_init os ch c)" "keeps_inv (tkl_pwm_deinit os ch)" "keeps_inv (pwm_switch os ch on)"
  "keeps_inv (tkl_pwm_duty_set os ch dty)" "keeps_inv (tkl_pwm_frequency_set os ch freq)" "keeps_inv (tkl_pwm_polarity_set os ch pol)"
  by (rule effect_keeps [OF init_effect] effect_keeps [OF deinit_effect] effect_keeps [OF switch_effect]
      effect_keeps [OF duty_effect] effect_keeps [OF frequency_effect] effect_keeps [OF polarity_effect];
      auto simp: ctx_defs dest: period_nonzero)+

lemma keeps_bind: "keeps_inv m \<Longrightarrow> (\<And>x. keeps_inv (f x)) \<Longrightarrow> keeps_inv (State_Monad.bind m f)"
  unfolding keeps_inv_def
  by (intro allI impI wp_bind, rule wp_mono, erule allE, erule mp, assumption, rule wp_mono, blast, simp)

lemma keeps_return: "keeps_inv (ret x)"
  by (simp add: keeps_inv_def wp_def)

lemma keeps_multi: "(\<And>ch. keeps_inv (f ch)) \<Longrightarrow> keeps_inv (multi_loop f chs)"
  by (induction chs) (auto intro!: keeps_bind keeps_return)

lemma keeps_multichannel:
  "keeps_inv (tkl_pwm_multichannel_start os chs num)" "keeps_inv (tkl_pwm_multichannel_stop os chs num)"
  by (auto simp: tkl_pwm_multichannel_start_def tkl_pwm_multichannel_stop_def tkl_pwm_start_def tkl_pwm_stop_def
      intro!: keeps_return keeps_multi keeps_ops split: option.split)

text \<open>
  \<open>tkl_pwm_info_set\<close> on an initialised channel runs stop, polarity, frequency, duty and start in
  that order; when it succeeds, the channel has the new configuration and its old on/off state.
\<close>

lemma info_set_effect:
  assumes "pwm_inv (m_dev s)"
  shows "wp (tkl_pwm_info_set os ch info) (\<lambda>r s'. pwm_inv (m_dev s') \<and> depth s' = depth s
     \<and> (\<forall>c. c \<noteq> ch \<longrightarrow> m_dev s' c = m_dev s c)
     \<and> (r = OPRT_OK \<longrightarrow> ch_valid ch \<and> info = Some (cfg (m_dev s' ch)) \<and> inited (m_dev s' ch) \<and> enabled (m_dev s' ch) = enabled (m_dev s ch))) s"
  unfolding tkl_pwm_info_set_def tkl_pwm_start_def tkl_pwm_stop_def
  using assms pwm_inv_ctx [OF assms, of ch]
  by (intro wp_rules init_effect [THEN wp_effect] switch_effect [THEN wp_effect] polarity_effect [THEN wp_effect]
      frequency_effect [THEN wp_effect] duty_effect [THEN wp_effect])
    (simp_all add: upd_ctx_compose pwm_inv_upd ctx_ok_def period_nonzero)

lemma keeps_info_set: "keeps_inv (tkl_pwm_info_set os ch info)"
  unfolding keeps_inv_def by (intro allI impI, rule wp_mono, erule info_set_effect) simp

lemma info_get_reads:
  "wp (tkl_pwm_info_get os ch null) (\<lambda>r s'. m_dev s' = m_dev s \<and> depth s' = depth s
     \<and> r = (if ch_valid ch \<and> \<not> null \<and> inited (m_dev s ch) then (OPRT_OK, Some (cfg (m_dev s ch))) else (OPRT_INVALID_PARM, None))) s"
  unfolding tkl_pwm_info_get_def by (intro wp_rules) auto

section \<open>Sessions\<close>

datatype pwm_op =
    Init int "TUYA_PWM_BASE_CFG_T option"
  | Deinit int
  | Start int
  | Stop int
  | Multi_Start "int list option" u8
  | Multi_Stop "int list option" u8
  | Duty_Set int u32
  | Frequency_Set int u32
  | Polarity_Set int TUYA_PWM_POLARITY_E
  | Info_Set int "TUYA_PWM_BASE_CFG_T option"

fun pwm_exec :: "'w kernel \<Rightarrow> pwm_op \<Rightarrow> ('w, pwm_dev, OPERATE_RET) prog" where
  "pwm_exec os (Init ch c) = tkl_pwm_init os ch c"
| "pwm_exec os (Deinit ch) = tkl_pwm_deinit os ch"
| "pwm_exec os (Start ch) = tkl_pwm_start os ch"
| "pwm_exec os (Stop ch) = tkl_pwm_stop os ch"
| "pwm_exec os (Multi_Start chs n) = tkl_pwm_multichannel_start os chs n"
| "pwm_exec os (Multi_Stop chs n) = tkl_pwm_multichannel_stop os chs n"
| "pwm_exec os (Duty_Set ch v) = tkl_pwm_duty_set os ch v"
| "pwm_exec os (Frequency_Set ch v) = tkl_pwm_frequency_set os ch v"
| "pwm_exec os (Polarity_Set ch v) = tkl_pwm_polarity_set os ch v"
| "pwm_exec os (Info_Set ch i) = tkl_pwm_info_set os ch i"

lemma keeps_exec: "keeps_inv (pwm_exec os x)"
  by (cases x) (simp_all add: keeps_ops keeps_multichannel keeps_info_set tkl_pwm_start_def tkl_pwm_stop_def)

lemma keeps_session: "keeps_inv (run_ops (pwm_exec os) ops)"
  by (induction ops) (auto intro!: keeps_bind keeps_return keeps_exec)

lemma pwm_inv_start: "pwm_inv (\<lambda>_. zero_ctx)"
  by (simp add: pwm_inv_def ctx_defs)

text \<open>The driver keeps no descriptor: every helper closes what it opens.\<close>

interpretation pwm: fd_owner "\<lambda>_ :: pwm_dev. Map.empty :: unit \<rightharpoonup> int" "\<lambda>_. True" "\<lambda>_. zero_ctx"
  by unfold_locales simp_all

lemma kept_set: "pwm.kept (set_dev f)"
  by (rule pwm.kept_set_dev) simp

lemma kept_stat: "pwm.kept (syscall os (Stat p))" "pwm.kept (syscall os (Usleep n))"
  by (rule pwm.kept_call; simp)+

lemma kept_write_text: "pwm.kept (write_text_file os p v)"
  unfolding write_text_file_def Let_def
  by (intro pwm.kept_case_option pwm.kept_return pwm.kept_open_use_close pwm.kept_if) simp_all

lemma kept_path_exists: "pwm.kept (path_exists os p)"
  unfolding path_exists_def by (intro pwm.kept_rules kept_stat)

lemma kept_wait_exported: "pwm.kept (wait_exported os p n)"
  by (induction n) (auto intro!: pwm.kept_rules kept_path_exists kept_stat)

lemmas kept_helpers = pwm.kept_rules kept_set kept_write_text kept_path_exists kept_wait_exported

lemma kept_locked:
  "pwm.kept (ensure_exported_locked os c n)" "pwm.kept (unexport_locked os c n)" "pwm.kept (set_enable_locked os c n on)"
  "pwm.kept (set_period_locked os c n v)" "pwm.kept (set_duty_locked os c n v)" "pwm.kept (set_polarity_locked os c n pol)"
  unfolding ensure_exported_locked_def unexport_locked_def set_enable_locked_def set_period_locked_def set_duty_locked_def
    set_polarity_locked_def case_prod_beta
  by (intro kept_helpers)+

lemma kept_fail_leave: "pwm.kept (fail_with os e)" "pwm.kept (leave os r)" "pwm.kept f \<Longrightarrow> pwm.kept (re_enable os ch on f)"
  unfolding fail_with_def leave_def re_enable_def by (intro kept_helpers kept_locked; assumption?)+

lemma kept_exec: "pwm.kept (pwm_exec os x)"
proof -
  have switch: "pwm.kept (pwm_switch os ch on)" for ch on
    unfolding pwm_switch_def by (intro kept_helpers kept_locked kept_fail_leave)
  have init: "pwm.kept (tkl_pwm_init os ch c)" for ch c
    unfolding tkl_pwm_init_def by (intro kept_helpers kept_locked kept_fail_leave)
  have pol: "pwm.kept (tkl_pwm_polarity_set os ch v)" for ch v
    unfolding tkl_pwm_polarity_set_def by (intro kept_helpers kept_locked kept_fail_leave)
  have freq: "pwm.kept (tkl_pwm_frequency_set os ch v)" for ch v
    unfolding tkl_pwm_frequency_set_def by (intro kept_helpers kept_locked kept_fail_leave)
  have duty: "pwm.kept (tkl_pwm_duty_set os ch v)" for ch v
    unfolding tkl_pwm_duty_set_def by (intro kept_helpers kept_locked kept_fail_leave)
  have loop: "(\<And>ch. pwm.kept (f ch)) \<Longrightarrow> pwm.kept (multi_loop f chs)" for f :: "int \<Rightarrow> ('a, pwm_dev, OPERATE_RET) prog" and chs
    by (induction chs) (auto intro!: kept_helpers)
  show ?thesis
    by (cases x) (auto intro!: kept_helpers kept_locked kept_fail_leave switch init pol freq duty loop
        simp: tkl_pwm_deinit_def tkl_pwm_multichannel_start_def tkl_pwm_multichannel_stop_def tkl_pwm_info_set_def
          tkl_pwm_start_def tkl_pwm_stop_def)
qed

text \<open>
  C14: For every behaviour of the kernel, failing calls included, and every sequence of PWM calls on
  any channels, the contexts stay well-formed (an enabled channel is initialised, an initialised one
  is exported and has a nonzero frequency, no context outside the array is touched) and every call
  gives back the mutex it took.  Every file that was opened has been closed, once, if the kernel
  never hands out a descriptor that is in use.
\<close>

theorem pwm_session_invariant:
  assumes "run_state (run_ops (pwm_exec os) ops) \<lparr>m_os = w, m_log = [], m_dev = \<lambda>_. zero_ctx\<rparr> = (rs, s)"
  shows "(\<forall>ch. (enabled (m_dev s ch) \<longrightarrow> inited (m_dev s ch))
        \<and> (inited (m_dev s ch) \<longrightarrow> ch_valid ch \<and> exported (m_dev s ch) \<and> frequency (cfg (m_dev s ch)) \<noteq> 0))
     \<and> held (m_log s) = 0 \<and> length rs = length ops
     \<and> (fds_fresh (m_log s) \<longrightarrow> closes_ok (m_log s) \<and> open_fds (m_log s) = {})"
proof -
  let ?s = "\<lparr>m_os = w, m_log = [], m_dev = \<lambda>_. zero_ctx\<rparr>"
  have "pwm_inv (m_dev s) \<and> depth s = 0"
    using keeps_session [of os ops] pwm_inv_start assms by (auto simp: keeps_inv_def dest!: spec [of _ ?s] wpD)
  moreover have "pwm.acc [] ?s" by (rule pwm.acc_boot) simp_all
  then have "pwm.acc [] s" using wpD [OF pwm.keptD [OF pwm.kept_run_ops [OF kept_exec]] assms] by simp
  then have "fds_fresh (m_log s) \<longrightarrow> closes_ok (m_log s) \<and> open_fds (m_log s) = {}" by (simp add: pwm.acc_def)
  ultimately show ?thesis using run_ops_length [OF assms] by (auto simp: pwm_inv_def ctx_ok_def zero_ctx_def)
qed

text \<open>A kernel that accepts everything.\<close>

definition yes_kernel :: "unit kernel" where
  "yes_kernel w c = (reply (case c of Write fd b \<Rightarrow> int (length b) | _ \<Rightarrow> 0) 0 [], w)"

definition demo_cfg :: TUYA_PWM_BASE_CFG_T where
  "demo_cfg = zero_cfg\<lparr>duty := 5000, cycle := 10000, frequency := 1000\<rparr>"

theorem pwm_session_invariant_witness:
  "\<exists>rs s. run_state (run_ops (pwm_exec yes_kernel) [Init 2 (Some demo_cfg), Start 2]) \<lparr>m_os = (), m_log = [], m_dev = \<lambda>_. zero_ctx\<rparr> = (rs, s)
     \<and> held (m_log s) = 0 \<and> length rs = 2"
proof -
  obtain rs s where r: "run_state (run_ops (pwm_exec yes_kernel) [Init 2 (Some demo_cfg), Start 2])
      \<lparr>m_os = (), m_log = [], m_dev = \<lambda>_. zero_ctx\<rparr> = (rs, s)" by fastforce
  show ?thesis using pwm_session_invariant [OF r] r by simp
qed

text \<open>
  After any session, when \<open>tkl_pwm_info_set\<close> reports success, \<open>tkl_pwm_info_get\<close> of that channel
  returns exactly the configuration that was set, the channel is on or off as before, and no other
  channel changed.
\<close>

theorem pwm_info_roundtrip:
  assumes "run_state (run_ops (pwm_exec os) ops) \<lparr>m_os = w, m_log = [], m_dev = \<lambda>_. zero_ctx\<rparr> = (rs, s)"
    and "run_state (tkl_pwm_info_set os ch info) s = (OPRT_OK, s')"
    and "run_state (tkl_pwm_info_get os ch False) s' = (r, s'')"
  shows "r = (OPRT_OK, info) \<and> enabled (m_dev s'' ch) = enabled (m_dev s ch) \<and> (\<forall>c. c \<noteq> ch \<longrightarrow> m_dev s'' c = m_dev s c)"
proof -
  have "pwm_inv (m_dev s)"
    using keeps_session [of os ops] pwm_inv_start assms(1)
    by (auto simp: keeps_inv_def dest!: spec [of _ "\<lparr>m_os = w, m_log = [], m_dev = \<lambda>_. zero_ctx\<rparr>"] wpD)
  note i = wpD [OF info_set_effect [OF this] assms(2)]
  show ?thesis using i wpD [OF info_get_reads assms(3)] by auto
qed

lemma yes_write: "(\<And>s'. m_dev s' = m_dev s \<Longrightarrow> Q 0 s') \<Longrightarrow> wp (write_text_file yes_kernel (Some p) (Some v)) Q s"
  by (simp add: wp_def write_text_file_def syscall_def yes_kernel_def text_bytes_def)

lemma yes_export: "(\<And>s'. m_dev s' = m_dev s \<Longrightarrow> Q 0 s') \<Longrightarrow> wp (ensure_exported_locked yes_kernel chip ch) Q s"
  by (simp add: wp_def ensure_exported_locked_def pwm_sysfs_paths_def path_exists_def syscall_def yes_kernel_def)

lemma yes_info_set: "\<not> inited (m_dev s 2) \<Longrightarrow> \<not> enabled (m_dev s 2) \<Longrightarrow> wp (tkl_pwm_info_set yes_kernel 2 (Some demo_cfg)) (\<lambda>r s'. r = OPRT_OK) s"
  unfolding tkl_pwm_info_set_def tkl_pwm_init_def set_enable_locked_def set_polarity_locked_def set_period_locked_def set_duty_locked_def
    option.case Let_def
  by (intro wp_bind wp_return wp_if wp_dev wp_set_dev wp_lock wp_unlock wp_leave yes_write yes_export)
    (simp_all add: ch_valid_def TUYA_PWM_NUM_MAX_def demo_cfg_def zero_cfg_def period_ns_from_frequency_def)

theorem pwm_info_roundtrip_witness:
  "\<exists>s s'. run_state (tkl_pwm_info_set yes_kernel 2 (Some demo_cfg)) s = (OPRT_OK, s')
     \<and> fst (run_state (tkl_pwm_info_get yes_kernel 2 False) s') = (OPRT_OK, Some demo_cfg)"
proof -
  let ?s = "\<lparr>m_os = (), m_log = [], m_dev = \<lambda>_. zero_ctx\<rparr>"
  have p: "run_state (run_ops (pwm_exec yes_kernel) []) ?s = ([], ?s)" by simp
  obtain r s' where i: "run_state (tkl_pwm_info_set yes_kernel 2 (Some demo_cfg)) ?s = (r, s')" by fastforce
  then have ok: "r = OPRT_OK" using wpD [OF yes_info_set i] by (simp add: zero_ctx_def)
  obtain r' s'' where g: "run_state (tkl_pwm_info_get yes_kernel 2 False) s' = (r', s'')" by fastforce
  have "r' = (OPRT_OK, Some demo_cfg)" using pwm_info_roundtrip [OF p i [unfolded ok] g] by simp
  then show ?thesis using i ok g by (intro exI [of _ ?s] exI [of _ s']) simp
qed

section \<open>Arithmetic\<close>

lemma unat_ucast_u32_u64 [simp]: "unat (ucast (x :: u32) :: u64) = unat x"
proof -
  have b: "unat x < 4294967296" by (rule unat_u32_less)
  have "unat x < 2 ^ 64" by (rule less_trans [OF b]) simp
  then show ?thesis by (simp add: unsigned_ucast_eq take_bit_nat_eq_self del: unat_u32_less)
qed

lemma period_value: "unat (period_ns_from_frequency freq) = 1000000000 div unat freq"
  by (simp add: period_ns_from_frequency_def unat_div)

lemma scaled_value:
  assumes "unat p \<le> 1000000000"
  shows "unat ((p * ucast (x :: u32)) div ucast (y :: u32) :: u64) = unat p * unat x div unat y"
proof -
  have "unat p * unat x \<le> 1000000000 * 4294967295"
    using assms unat_u32_less [of x] by (intro mult_le_mono) linarith+
  then have "unat (p * ucast x) = unat p * unat x" by (subst unat_mult_small) simp_all
  then show ?thesis by (simp add: unat_div)
qed

text \<open>
  The pulse written to the kernel is the exact quotient, computed in 64 bits without wrap-around
  for every frequency, duty and cycle, and never exceeds the period.
\<close>

theorem pwm_duty_exact:
  "let p = period_ns_from_frequency (frequency c) in unat p = 1000000000 div unat (frequency c)
    \<and> unat (clamp_duty (duty_ns_from_cfg p (Some c)) p)
        = (if cycle c \<noteq> 0 \<and> duty c \<le> cycle c then unat p * unat (duty c) div unat (cycle c)
           else unat p * min (unat (duty c)) 10000 div 10000)
    \<and> clamp_duty (duty_ns_from_cfg p (Some c)) p \<le> p"
proof -
  define p where "p = period_ns_from_frequency (frequency c)"
  have b: "unat p \<le> 1000000000" unfolding p_def period_value by (cases "unat (frequency c)") simp_all
  have m: "unat (if TUYA_PWM_DUTY_SCALE < duty c then TUYA_PWM_DUTY_SCALE else duty c) = min (unat (duty c)) 10000"
    by (simp add: TUYA_PWM_DUTY_SCALE_def word_less_nat_alt min_def)
  have d: "unat (duty_ns_from_cfg p (Some c)) = (if cycle c \<noteq> 0 \<and> duty c \<le> cycle c then unat p * unat (duty c) div unat (cycle c)
           else unat p * min (unat (duty c)) 10000 div 10000)"
  proof (cases "p = 0")
    case False
    have "unat TUYA_PWM_DUTY_SCALE = 10000" by (simp add: TUYA_PWM_DUTY_SCALE_def)
    then show ?thesis using False m by (simp only: duty_ns_from_cfg_def Let_def option.case if_False if_distrib [of unat] scaled_value [OF b])
  qed (simp add: duty_ns_from_cfg_def)
  have "unat p * unat (duty c) div unat (cycle c) \<le> unat p" if "cycle c \<noteq> 0" "duty c \<le> cycle c"
  proof -
    have "unat p * unat (duty c) \<le> unat p * unat (cycle c)" using that(2) by (simp add: word_le_nat_alt)
    then have "unat p * unat (duty c) div unat (cycle c) \<le> unat p * unat (cycle c) div unat (cycle c)" by (rule div_le_mono)
    then show ?thesis using that(1) by (simp add: unat_eq_0)
  qed
  moreover have "unat p * min (unat (duty c)) 10000 div 10000 \<le> unat p"
    using div_le_mono [of "unat p * min (unat (duty c)) 10000" "unat p * 10000" 10000] by simp
  ultimately have le: "duty_ns_from_cfg p (Some c) \<le> p" using d by (auto simp: word_le_nat_alt)
  then show ?thesis using d unfolding Let_def p_def [symmetric] by (simp add: clamp_duty_def) (simp add: p_def period_value)
qed

end
