(* ===== verification/Tkl_Gpio.thy ===== *)
theory Tkl_Gpio
  imports Fd_Ledger
begin

text \<open>
  The GPIO adapter of \<open>tkl_gpio.c\<close> over the Linux GPIO character device: 64 pin contexts under one
  mutex, a line handle opened on first use, an event descriptor and a polling thread for interrupts.
\<close>

section \<open>Types\<close>

datatype TUYA_GPIO_LEVEL_E = TUYA_GPIO_LEVEL_LOW | TUYA_GPIO_LEVEL_HIGH | TUYA_GPIO_LEVEL_NONE
datatype TUYA_GPIO_DRCT_E = TUYA_GPIO_INPUT | TUYA_GPIO_OUTPUT
datatype TUYA_GPIO_MODE_E =
  TUYA_GPIO_PULLUP | TUYA_GPIO_PULLDOWN | TUYA_GPIO_HIGH_IMPEDANCE | TUYA_GPIO_FLOATING
  | TUYA_GPIO_PUSH_PULL | TUYA_GPIO_OPENDRAIN | TUYA_GPIO_OPENDRAIN_PULLUP
datatype TUYA_GPIO_IRQ_E =
  TUYA_GPIO_IRQ_RISE | TUYA_GPIO_IRQ_FALL | TUYA_GPIO_IRQ_RISE_FALL | TUYA_GPIO_IRQ_LOW | TUYA_GPIO_IRQ_HIGH

record TUYA_GPIO_BASE_CFG_T =
  mode :: TUYA_GPIO_MODE_E
  direct :: TUYA_GPIO_DRCT_E
  level :: TUYA_GPIO_LEVEL_E

text \<open>A callback is named by a number, 0 being the null pointer.\<close>

record TUYA_GPIO_IRQ_T =
  irq_mode :: TUYA_GPIO_IRQ_E
  irq_cb :: nat
  irq_arg :: nat

record gpiohandle_request =
  hr_lineoffset :: u32
  hr_flags :: u32
  hr_default :: u32
  hr_fd :: int

record gpioevent_request =
  er_lineoffset :: u32
  er_eventflags :: u32
  er_fd :: int

record gpio_pin_ctx_t =
  pin_id :: nat
  base_cfg :: TUYA_GPIO_BASE_CFG_T
  handle_fd :: int
  irq_cfg :: TUYA_GPIO_IRQ_T
  event_fd :: int
  irq_thread_started :: bool
  irq_enabled :: bool
  event_req :: gpioevent_request
  hreq :: gpiohandle_request
  hreq_valid :: bool

record gpio_dev =
  g_gpio_pins :: "nat \<Rightarrow> gpio_pin_ctx_t"
  g_gpio_inited :: bool

definition PIN_COUNT :: nat where "PIN_COUNT = 64"

definition GPIOHANDLE_REQUEST_INPUT :: u32 where "GPIOHANDLE_REQUEST_INPUT = 1"
definition GPIOHANDLE_REQUEST_OUTPUT :: u32 where "GPIOHANDLE_REQUEST_OUTPUT = 2"
definition GPIOHANDLE_REQUEST_OPEN_DRAIN :: u32 where "GPIOHANDLE_REQUEST_OPEN_DRAIN = 8"
definition GPIOHANDLE_REQUEST_BIAS_PULL_UP :: u32 where "GPIOHANDLE_REQUEST_BIAS_PULL_UP = 32"
definition GPIOHANDLE_REQUEST_BIAS_PULL_DOWN :: u32 where "GPIOHANDLE_REQUEST_BIAS_PULL_DOWN = 64"
definition GPIOEVENT_REQUEST_RISING_EDGE :: u32 where "GPIOEVENT_REQUEST_RISING_EDGE = 1"
definition GPIOEVENT_REQUEST_FALLING_EDGE :: u32 where "GPIOEVENT_REQUEST_FALLING_EDGE = 2"
definition GPIOEVENT_REQUEST_BOTH_EDGES :: u32 where "GPIOEVENT_REQUEST_BOTH_EDGES = 3"
definition POLLIN :: int where "POLLIN = 1"
definition EVENT_DATA_SIZE :: nat where "EVENT_DATA_SIZE = 16"

definition zero_hreq :: gpiohandle_request where
  "zero_hreq = \<lparr>hr_lineoffset = 0, hr_flags = 0, hr_default = 0, hr_fd = 0\<rparr>"

definition zero_ereq :: gpioevent_request where
  "zero_ereq = \<lparr>er_lineoffset = 0, er_eventflags = 0, er_fd = 0\<rparr>"

definition zero_pin :: gpio_pin_ctx_t where
  "zero_pin = \<lparr>pin_id = 0, base_cfg = \<lparr>mode = TUYA_GPIO_PULLUP, direct = TUYA_GPIO_INPUT, level = TUYA_GPIO_LEVEL_LOW\<rparr>,
     handle_fd = 0, irq_cfg = \<lparr>irq_mode = TUYA_GPIO_IRQ_RISE, irq_cb = 0, irq_arg = 0\<rparr>, event_fd = 0,
     irq_thread_started = False, irq_enabled = False, event_req = zero_ereq, hreq = zero_hreq, hreq_valid = False\<rparr>"

section \<open>Helpers\<close>

definition upd_pin :: "nat \<Rightarrow> (gpio_pin_ctx_t \<Rightarrow> gpio_pin_ctx_t) \<Rightarrow> gpio_dev \<Rightarrow> gpio_dev" where
  "upd_pin p f d = d\<lparr>g_gpio_pins := (g_gpio_pins d)(p := f (g_gpio_pins d p))\<rparr>"

definition get_pin :: "nat \<Rightarrow> ('w, gpio_dev, gpio_pin_ctx_t) prog" where
  "get_pin p = do { d \<leftarrow> dev; ret (g_gpio_pins d p) }"

definition gpio_global_init_once :: "('w, gpio_dev, unit) prog" where
  "gpio_global_init_once = set_dev (\<lambda>d.
     if g_gpio_inited d then d
     else \<lparr>g_gpio_pins = (\<lambda>i. if i < PIN_COUNT then zero_pin\<lparr>pin_id := i, handle_fd := -1, event_fd := -1\<rparr> else g_gpio_pins d i),
           g_gpio_inited = True\<rparr>)"

fun open_first :: "'w kernel \<Rightarrow> string list \<Rightarrow> ('w, gpio_dev, int) prog" where
  "open_first os [] = ret (-1)"
| "open_first os (c # cs) = do { r \<leftarrow> syscall os (Open c); if sr_rc r \<ge> 0 then ret (sr_rc r) else open_first os cs }"

definition gpiochip_open_best_effort :: "'w kernel \<Rightarrow> ('w, gpio_dev, int) prog" where
  "gpiochip_open_best_effort os = open_first os [''/dev/gpiochip0'', ''/dev/gpiochip1'', ''/dev/gpiochip2'', ''/dev/gpiochip3'']"

definition tuya_level_to_u32 :: "TUYA_GPIO_LEVEL_E \<Rightarrow> u32" where
  "tuya_level_to_u32 l = (if l = TUYA_GPIO_LEVEL_HIGH then 1 else 0)"

definition u32_to_tuya_level :: "u8 \<Rightarrow> TUYA_GPIO_LEVEL_E" where
  "u32_to_tuya_level v = (if v \<noteq> 0 then TUYA_GPIO_LEVEL_HIGH else TUYA_GPIO_LEVEL_LOW)"

definition mode_to_handle_flags :: "TUYA_GPIO_MODE_E \<Rightarrow> u32" where
  "mode_to_handle_flags m =
     (let flags = (if m = TUYA_GPIO_OPENDRAIN \<or> m = TUYA_GPIO_OPENDRAIN_PULLUP then GPIOHANDLE_REQUEST_OPEN_DRAIN else 0);
          flags = (if m = TUYA_GPIO_PULLUP \<or> m = TUYA_GPIO_OPENDRAIN_PULLUP then flags OR GPIOHANDLE_REQUEST_BIAS_PULL_UP else flags)
      in if m = TUYA_GPIO_PULLDOWN then flags OR GPIOHANDLE_REQUEST_BIAS_PULL_DOWN else flags)"

definition ensure_line_handle_locked :: "'w kernel \<Rightarrow> nat \<Rightarrow> ('w, gpio_dev, int) prog" where
  "ensure_line_handle_locked os p = do {
     pin \<leftarrow> get_pin p;
     if handle_fd pin \<ge> 0 \<and> hreq_valid pin then ret 0
     else do {
       chip_fd \<leftarrow> gpiochip_open_best_effort os;
       if chip_fd < 0 then ret (-1)
       else let out = (direct (base_cfg pin) = TUYA_GPIO_OUTPUT);
                flags = mode_to_handle_flags (mode (base_cfg pin)) OR (if out then GPIOHANDLE_REQUEST_OUTPUT else GPIOHANDLE_REQUEST_INPUT);
                off = of_nat (pin_id pin);
                def = (if out then tuya_level_to_u32 (level (base_cfg pin)) else 0) in do {
         r \<leftarrow> syscall os (Ioctl chip_fd (GPIO_GET_LINEHANDLE_IOCTL off flags def));
         syscall os (Close chip_fd);
         if sr_rc r < 0 then ret (-1)
         else do {
           set_dev (upd_pin p (\<lambda>x. x\<lparr>handle_fd := sr_fd r,
              hreq := \<lparr>hr_lineoffset = off, hr_flags = flags, hr_default = def, hr_fd = sr_fd r\<rparr>, hreq_valid := True\<rparr>));
           ret 0
         }
       }
     }
   }"

definition close_line_handle_locked :: "'w kernel \<Rightarrow> nat \<Rightarrow> ('w, gpio_dev, unit) prog" where
  "close_line_handle_locked os p = do {
     pin \<leftarrow> get_pin p;
     (if handle_fd pin \<ge> 0
      then do { syscall os (Close (handle_fd pin)); set_dev (upd_pin p (\<lambda>x. x\<lparr>handle_fd := -1\<rparr>)) }
      else ret ());
     set_dev (upd_pin p (\<lambda>x. x\<lparr>hreq_valid := False, hreq := zero_hreq\<rparr>))
   }"

definition close_event_fd_locked :: "'w kernel \<Rightarrow> nat \<Rightarrow> ('w, gpio_dev, unit) prog" where
  "close_event_fd_locked os p = do {
     pin \<leftarrow> get_pin p;
     (if event_fd pin \<ge> 0
      then do { syscall os (Close (event_fd pin)); set_dev (upd_pin p (\<lambda>x. x\<lparr>event_fd := -1\<rparr>)) }
      else ret ());
     set_dev (upd_pin p (\<lambda>x. x\<lparr>event_req := zero_ereq\<rparr>))
   }"

definition event_flags :: "TUYA_GPIO_IRQ_E \<Rightarrow> u32" where
  "event_flags m = (case m of
      TUYA_GPIO_IRQ_RISE \<Rightarrow> GPIOEVENT_REQUEST_RISING_EDGE
    | TUYA_GPIO_IRQ_FALL \<Rightarrow> GPIOEVENT_REQUEST_FALLING_EDGE
    | _ \<Rightarrow> GPIOEVENT_REQUEST_BOTH_EDGES)"

definition request_event_fd_locked :: "'w kernel \<Rightarrow> nat \<Rightarrow> ('w, gpio_dev, int) prog" where
  "request_event_fd_locked os p = do {
     pin \<leftarrow> get_pin p;
     if event_fd pin \<ge> 0 then ret 0
     else do {
       chip_fd \<leftarrow> gpiochip_open_best_effort os;
       if chip_fd < 0 then ret (-1)
       else let off = of_nat (pin_id pin); flags = event_flags (irq_mode (irq_cfg pin)) in do {
         r \<leftarrow> syscall os (Ioctl chip_fd (GPIO_GET_LINEEVENT_IOCTL off flags));
         syscall os (Close chip_fd);
         if sr_rc r < 0 then ret (-1)
         else do {
           set_dev (upd_pin p (\<lambda>x. x\<lparr>event_fd := sr_fd r,
              event_req := \<lparr>er_lineoffset = off, er_eventflags = flags, er_fd = sr_fd r\<rparr>\<rparr>));
           ret 0
         }
       }
     }
   }"

definition irq_mode_match_level :: "TUYA_GPIO_IRQ_E \<Rightarrow> TUYA_GPIO_LEVEL_E \<Rightarrow> bool" where
  "irq_mode_match_level m l =
     (if m = TUYA_GPIO_IRQ_LOW then l = TUYA_GPIO_LEVEL_LOW
      else if m = TUYA_GPIO_IRQ_HIGH then l = TUYA_GPIO_LEVEL_HIGH
      else True)"

section \<open>Operations\<close>

definition gpio_ret :: "int \<Rightarrow> OPERATE_RET" where
  "gpio_ret rc = (if rc = 0 then OPRT_OK else OPRT_COM_ERROR)"

definition tkl_gpio_init :: "'w kernel \<Rightarrow> nat \<Rightarrow> TUYA_GPIO_BASE_CFG_T option \<Rightarrow> ('w, gpio_dev, OPERATE_RET) prog" where
  "tkl_gpio_init os p c =
     (case c of
        None \<Rightarrow> ret OPRT_INVALID_PARM
      | Some c \<Rightarrow>
          if p \<ge> PIN_COUNT then ret OPRT_INVALID_PARM
          else do {
            lock os;
            gpio_global_init_once;
            set_dev (upd_pin p (\<lambda>x. x\<lparr>pin_id := p, base_cfg := c\<rparr>));
            close_line_handle_locked os p;
            rc \<leftarrow> (if direct c = TUYA_GPIO_OUTPUT then ensure_line_handle_locked os p else ret 0);
            unlock os;
            ret (gpio_ret rc)
          })"

definition tkl_gpio_deinit :: "'w kernel \<Rightarrow> nat \<Rightarrow> ('w, gpio_dev, OPERATE_RET) prog" where
  "tkl_gpio_deinit os p =
     (if p \<ge> PIN_COUNT then ret OPRT_INVALID_PARM
      else do {
        lock os;
        gpio_global_init_once;
        set_dev (upd_pin p (\<lambda>x. x\<lparr>irq_enabled := False\<rparr>));
        close_event_fd_locked os p;
        close_line_handle_locked os p;
        unlock os;
        ret OPRT_OK
      })"

definition tkl_gpio_write :: "'w kernel \<Rightarrow> nat \<Rightarrow> TUYA_GPIO_LEVEL_E \<Rightarrow> ('w, gpio_dev, OPERATE_RET) prog" where
  "tkl_gpio_write os p l =
     (if p \<ge> PIN_COUNT then ret OPRT_INVALID_PARM
      else do {
        lock os;
        gpio_global_init_once;
        set_dev (upd_pin p (\<lambda>x. x\<lparr>pin_id := p, base_cfg := (base_cfg x)\<lparr>level := l\<rparr>\<rparr>));
        e \<leftarrow> ensure_line_handle_locked os p;
        if e \<noteq> 0 then do { unlock os; ret OPRT_COM_ERROR }
        else do {
          pin \<leftarrow> get_pin p;
          r \<leftarrow> syscall os (Ioctl (handle_fd pin) (GPIOHANDLE_SET_LINE_VALUES_IOCTL (ucast (tuya_level_to_u32 l))));
          unlock os;
          ret (gpio_ret (sr_rc r))
        }
      })"

text \<open>The level read, if the call succeeds, is the second result.\<close>

definition tkl_gpio_read :: "'w kernel \<Rightarrow> nat \<Rightarrow> bool \<Rightarrow> ('w, gpio_dev, OPERATE_RET \<times> TUYA_GPIO_LEVEL_E option) prog" where
  "tkl_gpio_read os p level_null =
     (if level_null then ret (OPRT_INVALID_PARM, None)
      else if p \<ge> PIN_COUNT then ret (OPRT_INVALID_PARM, None)
      else do {
        lock os;
        gpio_global_init_once;
        set_dev (upd_pin p (\<lambda>x. x\<lparr>pin_id := p\<rparr>));
        e \<leftarrow> ensure_line_handle_locked os p;
        if e \<noteq> 0 then do { unlock os; ret (OPRT_COM_ERROR, None) }
        else do {
          pin \<leftarrow> get_pin p;
          r \<leftarrow> syscall os (Ioctl (handle_fd pin) GPIOHANDLE_GET_LINE_VALUES_IOCTL);
          let v = (case sr_data r of [] \<Rightarrow> 0 | b # _ \<Rightarrow> b); l = u32_to_tuya_level v in
          if sr_rc r = 0
          then do {
            set_dev (upd_pin p (\<lambda>x. x\<lparr>base_cfg := (base_cfg x)\<lparr>level := l\<rparr>\<rparr>));
            unlock os;
            ret (OPRT_OK, Some l)
          }
          else do { unlock os; ret (OPRT_COM_ERROR, None) }
        }
      })"

definition tkl_gpio_irq_init :: "'w kernel \<Rightarrow> nat \<Rightarrow> TUYA_GPIO_IRQ_T option \<Rightarrow> ('w, gpio_dev, OPERATE_RET) prog" where
  "tkl_gpio_irq_init os p c =
     (case c of
        None \<Rightarrow> ret OPRT_INVALID_PARM
      | Some c \<Rightarrow>
          if p \<ge> PIN_COUNT then ret OPRT_INVALID_PARM
          else do {
            lock os;
            gpio_global_init_once;
            set_dev (upd_pin p (\<lambda>x. x\<lparr>pin_id := p, irq_cfg := c\<rparr>));
            close_line_handle_locked os p;
            e \<leftarrow> request_event_fd_locked os p;
            if e \<noteq> 0 then do { unlock os; ret OPRT_COM_ERROR }
            else do {
              pin \<leftarrow> get_pin p;
              (if \<not> irq_thread_started pin
               then do {
                 r \<leftarrow> syscall os (Thread_Create p);
                 set_dev (upd_pin p (\<lambda>x. x\<lparr>irq_thread_started := (sr_rc r = 0)\<rparr>))
               }
               else ret ());
              unlock os;
              ret OPRT_OK
            }
          })"

definition gpio_irq_set :: "'w kernel \<Rightarrow> nat \<Rightarrow> bool \<Rightarrow> ('w, gpio_dev, OPERATE_RET) prog" where
  "gpio_irq_set os p on =
     (if p \<ge> PIN_COUNT then ret OPRT_INVALID_PARM
      else do {
        lock os;
        gpio_global_init_once;
        set_dev (upd_pin p (\<lambda>x. x\<lparr>pin_id := p, irq_enabled := on\<rparr>));
        unlock os;
        ret OPRT_OK
      })"

definition tkl_gpio_irq_enable :: "'w kernel \<Rightarrow> nat \<Rightarrow> ('w, gpio_dev, OPERATE_RET) prog" where
  "tkl_gpio_irq_enable os p = gpio_irq_set os p True"

definition tkl_gpio_irq_disable :: "'w kernel \<Rightarrow> nat \<Rightarrow> ('w, gpio_dev, OPERATE_RET) prog" where
  "tkl_gpio_irq_disable os p = gpio_irq_set os p False"

text \<open>
  One round of the loop of \<open>gpio_irq_thread\<close> for pin \<open>p\<close>: \<open>Ended\<close> is its \<open>return NULL\<close>, \<open>Quiet\<close> a
  \<open>continue\<close>, \<open>Called\<close> a round that ran the callback with its argument.
\<close>

datatype irq_round = Ended | Quiet | Called nat nat

definition gpio_irq_thread :: "'w kernel \<Rightarrow> nat \<Rightarrow> ('w, gpio_dev, irq_round) prog" where
  "gpio_irq_thread os p = do {
     lock os;
     pin \<leftarrow> get_pin p;
     unlock os;
     let efd = event_fd pin; c = irq_cfg pin in
     if efd < 0 then ret Ended
     else do {
       prc \<leftarrow> syscall os (Poll efd);
       if sr_rc prc \<le> 0 then ret Quiet
       else if sr_fd prc AND POLLIN = 0 then ret Quiet
       else do {
         n \<leftarrow> syscall os (Read efd EVENT_DATA_SIZE);
         if sr_rc n \<noteq> int EVENT_DATA_SIZE then ret Ended
         else if \<not> irq_enabled pin \<or> irq_cb c = 0 then ret Quiet
         else if irq_mode c = TUYA_GPIO_IRQ_LOW \<or> irq_mode c = TUYA_GPIO_IRQ_HIGH
         then do {
           (r, l) \<leftarrow> tkl_gpio_read os (pin_id pin) False;
           if r = OPRT_OK \<and> \<not> irq_mode_match_level (irq_mode c) (the l) then ret Quiet
           else ret (Called (irq_cb c) (irq_arg c))
         }
         else ret (Called (irq_cb c) (irq_arg c))
       }
     }
   }"

section \<open>File descriptors\<close>

text \<open>Where the driver keeps descriptors: the line handle (\<open>True\<close>) and the event descriptor of each pin.\<close>

definition gpio_fds :: "gpio_dev \<Rightarrow> nat \<times> bool \<rightharpoonup> int" where
  "gpio_fds d k = (let fd = (if snd k then handle_fd (g_gpio_pins d (fst k)) else event_fd (g_gpio_pins d (fst k)))
     in if g_gpio_inited d \<and> fst k < PIN_COUNT \<and> 0 \<le> fd then Some fd else None)"

definition gpio_ok :: "gpio_dev \<Rightarrow> bool" where
  "gpio_ok d \<longleftrightarrow> (g_gpio_inited d \<longrightarrow> (\<forall>p<PIN_COUNT. handle_fd (g_gpio_pins d p) \<ge> 0 \<longrightarrow> hreq_valid (g_gpio_pins d p)))"

definition gpio_start :: gpio_dev where
  "gpio_start = \<lparr>g_gpio_pins = \<lambda>_. zero_pin, g_gpio_inited = False\<rparr>"

interpretation gpio: fd_owner gpio_fds gpio_ok gpio_start
  by unfold_locales (simp_all add: gpio_fds_def gpio_ok_def gpio_start_def fun_eq_iff)

lemma wp_open_first:
  fixes s :: "('w, gpio_dev) machine"
  assumes "gpio.acc xs s" "\<And>r s'. m_dev s' = m_dev s \<Longrightarrow> depth s' = depth s \<Longrightarrow> gpio.acc (if r < 0 then xs else r # xs) s' \<Longrightarrow> Q r s'"
  shows "wp (open_first os cs) Q s"
  using assms
proof (induction cs arbitrary: s)
  case (Cons c cs)
  show ?case unfolding open_first.simps
  proof (rule wp_bind, rule gpio.wp_acc_call [OF Cons.prems(1)])
    fix r and s' :: "('w, gpio_dev) machine"
    assume s': "m_dev s' = m_dev s" "depth s' = depth s" "gpio.acc (case new_fd (Open c) r of None \<Rightarrow> xs | Some fd \<Rightarrow> fd # xs) s'"
    show "wp (if 0 \<le> sr_rc r then ret (sr_rc r) else open_first os cs) Q s'"
    proof (rule wp_if)
      assume "0 \<le> sr_rc r"
      then show "wp (ret (sr_rc r)) Q s'" using s' by (intro wp_return Cons.prems(2)) simp_all
    next
      assume "\<not> 0 \<le> sr_rc r"
      then show "wp (open_first os cs) Q s'" using s' by (intro Cons.IH Cons.prems(2)) simp_all
    qed
  qed simp_all
qed (auto simp: wp_def)

lemma wp_get_pin [wp_rules]: "Q (g_gpio_pins (m_dev s) p) s \<Longrightarrow> wp (get_pin p) Q s"
  unfolding get_pin_def by (intro wp_rules)

lemma upd_pin_simps [simp]:
  "g_gpio_inited (upd_pin p f d) = g_gpio_inited d" "g_gpio_pins (upd_pin p f d) = (g_gpio_pins d)(p := f (g_gpio_pins d p))"
  by (simp_all add: upd_pin_def)

text \<open>The state in which the locked helpers run.\<close>

definition ready :: "('w, gpio_dev) machine \<Rightarrow> bool" where
  "ready s \<longleftrightarrow> gpio.acc [] s \<and> g_gpio_inited (m_dev s)"

lemma ready_acc: "ready s \<Longrightarrow> gpio.acc [] s" "ready s \<Longrightarrow> g_gpio_inited (m_dev s)" "ready s \<Longrightarrow> gpio_ok (m_dev s)"
  by (auto simp: ready_def intro: gpio.acc_ok)

lemma ready_cong: "gpio.acc [] s' \<Longrightarrow> ready s \<Longrightarrow> m_dev s' = m_dev s \<Longrightarrow> ready s'"
  by (simp add: ready_def)

lemma ready_upd:
  assumes "ready s" "handle_fd (f (g_gpio_pins (m_dev s) p)) = handle_fd (g_gpio_pins (m_dev s) p)"
    "event_fd (f (g_gpio_pins (m_dev s) p)) = event_fd (g_gpio_pins (m_dev s) p)"
    "handle_fd (g_gpio_pins (m_dev s) p) \<ge> 0 \<Longrightarrow> hreq_valid (g_gpio_pins (m_dev s) p) \<Longrightarrow> hreq_valid (f (g_gpio_pins (m_dev s) p))"
  shows "ready (s\<lparr>m_dev := upd_pin p f (m_dev s)\<rparr>)"
proof -
  have "gpio_fds (upd_pin p f (m_dev s)) = gpio_fds (m_dev s)" using assms(2,3) by (auto simp: gpio_fds_def fun_eq_iff)
  moreover have "gpio_ok (upd_pin p f (m_dev s))" using ready_acc(3) [OF assms(1)] assms(2,4) by (auto simp: gpio_ok_def)
  ultimately show ?thesis using ready_acc [OF assms(1)] by (simp add: ready_def gpio.acc_same)
qed

text \<open>Keeping a fresh descriptor in an empty place of a pin.\<close>

lemma ready_store:
  assumes "ready s" "p < PIN_COUNT" "gpio_fds (m_dev s) (p, b) = None" "gpio.acc [fd] s'" "m_dev s' = m_dev s"
    "gpio_ok (upd_pin p f (m_dev s))"
    "handle_fd (f (g_gpio_pins (m_dev s) p)) = (if b then fd else handle_fd (g_gpio_pins (m_dev s) p))"
    "event_fd (f (g_gpio_pins (m_dev s) p)) = (if b then event_fd (g_gpio_pins (m_dev s) p) else fd)"
  shows "ready (s'\<lparr>m_dev := upd_pin p f (m_dev s)\<rparr>)"
proof -
  have "gpio_fds (upd_pin p f (m_dev s)) = (gpio_fds (m_dev s'))((p, b) \<mapsto> fd)" if "0 \<le> fd"
    using that assms(2,5,7,8) ready_acc(2) [OF assms(1)] by (auto simp: gpio_fds_def fun_eq_iff)
  then have "gpio.acc [] (s'\<lparr>m_dev := upd_pin p f (m_dev s)\<rparr>)"
    using assms(3,5,6) by (intro gpio.acc_store [OF assms(4)]) simp_all
  then show ?thesis using ready_acc(2) [OF assms(1)] by (simp add: ready_def)
qed

text \<open>Open the chip, make a request through it, close the chip, and keep the descriptor obtained.\<close>

lemma wp_request:
  fixes s :: "('w, gpio_dev) machine"
  assumes "gpio.acc [] s" "\<And>c r. new_fd (Ioctl c req) r = (if sr_rc r \<ge> 0 then Some (sr_fd r) else None)"
    and fail: "\<And>s'. m_dev s' = m_dev s \<Longrightarrow> depth s' = depth s \<Longrightarrow> gpio.acc [] s' \<Longrightarrow> Q (- 1) s'"
    and ok: "\<And>r s'. m_dev s' = m_dev s \<Longrightarrow> depth s' = depth s \<Longrightarrow> gpio.acc [sr_fd r] s' \<Longrightarrow> Q 0 (s'\<lparr>m_dev := f r (m_dev s)\<rparr>)"
  shows "wp (State_Monad.bind (gpiochip_open_best_effort os) (\<lambda>chip_fd. if chip_fd < 0 then ret (- 1)
      else State_Monad.bind (syscall os (Ioctl chip_fd req)) (\<lambda>r. State_Monad.bind (syscall os (Close chip_fd))
        (\<lambda>_. if sr_rc r < 0 then ret (- 1) else State_Monad.bind (set_dev (f r)) (\<lambda>_. ret 0))))) Q s"
  unfolding gpiochip_open_best_effort_def
proof (rule wp_bind, rule wp_open_first [OF assms(1)], rule wp_if)
  fix c and s1 :: "('w, gpio_dev) machine"
  assume "m_dev s1 = m_dev s" "depth s1 = depth s" "gpio.acc (if c < 0 then [] else [c]) s1" "c < 0"
  then show "wp (ret (- 1)) Q s1" by (intro wp_return fail) simp_all
next
  fix c and s1 :: "('w, gpio_dev) machine"
  assume s1: "m_dev s1 = m_dev s" "depth s1 = depth s" "gpio.acc (if c < 0 then [] else [c]) s1" and c: "\<not> c < 0"
  then have a: "gpio.acc [c] s1" by simp
  show "wp (State_Monad.bind (syscall os (Ioctl c req)) (\<lambda>r. State_Monad.bind (syscall os (Close c))
        (\<lambda>_. if sr_rc r < 0 then ret (- 1) else State_Monad.bind (set_dev (f r)) (\<lambda>_. ret 0)))) Q s1"
  proof (rule wp_bind, rule gpio.wp_acc_call [OF a], simp_all only: is_close.simps not_False_eq_True sys_call.distinct simp_thms)
    fix r and s2 :: "('w, gpio_dev) machine"
    assume s2: "m_dev s2 = m_dev s1" "depth s2 = depth s1"
      "gpio.acc (case new_fd (Ioctl c req) r of None \<Rightarrow> [c] | Some fd \<Rightarrow> [fd, c]) s2"
    show "wp (State_Monad.bind (syscall os (Close c))
        (\<lambda>_. if sr_rc r < 0 then ret (- 1) else State_Monad.bind (set_dev (f r)) (\<lambda>_. ret 0))) Q s2"
    proof (cases "sr_rc r < 0")
      case True
      then have "gpio.acc [c] s2" using s2(3) assms(2) by simp
      then show ?thesis using True s1 s2 by (intro wp_bind, elim gpio.wp_close_first) (auto intro!: wp_rules fail)
    next
      case False
      then have "gpio.acc [sr_fd r, c] s2" using s2(3) assms(2) by simp
      then show ?thesis using False s1 s2
        by (intro wp_bind, elim gpio.wp_close_second) (auto intro!: wp_rules dest!: ok [rotated -1])
    qed
  qed
qed

lemma ensure_ready:
  assumes "ready s" "p < PIN_COUNT" "\<And>r s'. ready s' \<Longrightarrow> depth s' = depth s \<Longrightarrow> Q r s'"
  shows "wp (ensure_line_handle_locked os p) Q s"
proof -
  let ?pin = "g_gpio_pins (m_dev s) p"
  have "ready (s'\<lparr>m_dev := upd_pin p (\<lambda>x. x\<lparr>handle_fd := fd, hreq := h, hreq_valid := True\<rparr>) (m_dev s)\<rparr>)"
    if "\<not> (0 \<le> handle_fd ?pin \<and> hreq_valid ?pin)" "gpio.acc [fd] s'" "m_dev s' = m_dev s" for s' :: "('a, gpio_dev) machine" and fd h
    using that assms(2) ready_acc(2,3) [OF assms(1)]
    by (intro ready_store [OF assms(1,2), of True]) (auto simp: gpio_fds_def gpio_ok_def)
  then show ?thesis unfolding ensure_line_handle_locked_def Let_def
    by (intro wp_bind wp_get_pin wp_if wp_return assms(3) wp_request ready_acc [OF assms(1)]) (auto intro: assms(1) ready_cong)
qed

lemma request_event_ready:
  assumes "ready s" "p < PIN_COUNT" "\<And>r s'. ready s' \<Longrightarrow> depth s' = depth s \<Longrightarrow> Q r s'"
  shows "wp (request_event_fd_locked os p) Q s"
proof -
  have "ready (s'\<lparr>m_dev := upd_pin p (\<lambda>x. x\<lparr>event_fd := fd, event_req := h\<rparr>) (m_dev s)\<rparr>)"
    if "\<not> 0 \<le> event_fd (g_gpio_pins (m_dev s) p)" "gpio.acc [fd] s'" "m_dev s' = m_dev s" for s' :: "('a, gpio_dev) machine" and fd h
    using that assms(2) ready_acc(2,3) [OF assms(1)]
    by (intro ready_store [OF assms(1,2), of False]) (auto simp: gpio_fds_def gpio_ok_def)
  then show ?thesis unfolding request_event_fd_locked_def Let_def
    by (intro wp_bind wp_get_pin wp_if wp_return assms(3) wp_request ready_acc [OF assms(1)]) (auto intro: assms(1) ready_cong)
qed

text \<open>Closing a descriptor of a pin, if there is one, and clearing the request it came from.\<close>

lemma close_ready:
  assumes "ready s" "p < PIN_COUNT"
    and fd: "fd = (if b then handle_fd (g_gpio_pins (m_dev s) p) else event_fd (g_gpio_pins (m_dev s) p))"
    and fh: "\<And>x. handle_fd (f x) = (if b then -1 else handle_fd x)" and fe: "\<And>x. event_fd (f x) = (if b then event_fd x else -1)"
    and fv: "\<And>x. hreq_valid (f x) = hreq_valid x"
    and gh: "\<And>x. handle_fd (g x) = handle_fd x" and ge: "\<And>x. event_fd (g x) = event_fd x" and gv: "\<And>x. \<not> b \<Longrightarrow> hreq_valid (g x) = hreq_valid x"
    and post: "\<And>s'. ready s' \<Longrightarrow> depth s' = depth s \<Longrightarrow>
      (if b then handle_fd (g_gpio_pins (m_dev s') p) else event_fd (g_gpio_pins (m_dev s') p)) < 0 \<Longrightarrow> Q () s'"
  shows "wp (State_Monad.bind (if fd \<ge> 0 then State_Monad.bind (syscall os (Close fd)) (\<lambda>_. set_dev (upd_pin p f)) else ret ())
    (\<lambda>_. set_dev (upd_pin p g))) Q s"
proof -
  note r = ready_acc [OF assms(1)]
  have fin: "wp (set_dev (upd_pin p g)) Q s'"
    if "ready s'" "depth s' = depth s" "(if b then handle_fd (g_gpio_pins (m_dev s') p) else event_fd (g_gpio_pins (m_dev s') p)) < 0" for s'
    using that gh ge gv by (intro wp_set_dev post ready_upd) (auto split: if_splits)
  have "wp (State_Monad.bind (syscall os (Close fd)) (\<lambda>_. set_dev (upd_pin p f))) (\<lambda>_. wp (set_dev (upd_pin p g)) Q) s" if "fd \<ge> 0"
  proof (rule gpio.wp_close_held [OF r(1), of "(p, b)"])
    show "gpio_fds (m_dev s) (p, b) = Some fd" using that fd r(2) assms(2) by (simp add: gpio_fds_def split: if_splits)
    show "gpio_fds (upd_pin p f (m_dev s)) = (gpio_fds (m_dev s))((p, b) := None)"
      using fh fe by (auto simp: gpio_fds_def fun_eq_iff)
    show "gpio_ok (upd_pin p f (m_dev s))" using r(3) fh fv by (auto simp: gpio_ok_def split: if_splits)
  next
    fix s' :: "('a, gpio_dev) machine"
    assume "m_dev s' = upd_pin p f (m_dev s)" "depth s' = depth s" "gpio.acc [] s'"
    then show "wp (set_dev (upd_pin p g)) Q s'" using r(2) fh fe by (intro fin) (simp_all add: ready_def)
  qed
  then show ?thesis using assms(1) fd by (intro wp_bind [of "if _ then _ else _"] wp_if wp_return fin) auto
qed

lemma close_line_ready:
  assumes "ready s" "p < PIN_COUNT"
    "\<And>s'. ready s' \<Longrightarrow> depth s' = depth s \<Longrightarrow> handle_fd (g_gpio_pins (m_dev s') p) < 0 \<Longrightarrow> Q () s'"
  shows "wp (close_line_handle_locked os p) Q s"
  unfolding close_line_handle_locked_def
  by (rule wp_bind, rule wp_get_pin, rule close_ready [where b = True]) (simp_all add: assms)

lemma close_event_ready:
  assumes "ready s" "p < PIN_COUNT"
    "\<And>s'. ready s' \<Longrightarrow> depth s' = depth s \<Longrightarrow> event_fd (g_gpio_pins (m_dev s') p) < 0 \<Longrightarrow> Q () s'"
  shows "wp (close_event_fd_locked os p) Q s"
  unfolding close_event_fd_locked_def
  by (rule wp_bind, rule wp_get_pin, rule close_ready [where b = False]) (simp_all add: assms)

lemma init_once_ready:
  fixes s :: "('w, gpio_dev) machine"
  assumes "gpio.acc [] s" "\<And>s'. ready s' \<Longrightarrow> depth s' = depth s \<Longrightarrow> Q () s'"
  shows "wp gpio_global_init_once Q s"
  unfolding gpio_global_init_once_def
proof (intro wp_set_dev assms(2))
  let ?d = "\<lparr>g_gpio_pins = (\<lambda>i. if i < PIN_COUNT then zero_pin\<lparr>pin_id := i, handle_fd := -1, event_fd := -1\<rparr> else g_gpio_pins (m_dev s) i),
     g_gpio_inited = True\<rparr>"
  show "ready (s\<lparr>m_dev := if g_gpio_inited (m_dev s) then m_dev s else ?d\<rparr>)"
  proof (cases "g_gpio_inited (m_dev s)")
    case True
    then show ?thesis using assms(1) by (simp add: ready_def)
  next
    case False
    have "gpio_fds ?d = gpio_fds (m_dev s)" using False by (auto simp: gpio_fds_def fun_eq_iff)
    then show ?thesis using False assms(1) by (simp add: ready_def gpio.acc_same gpio_ok_def)
  qed
qed simp

lemmas gpio_wp = wp_bind wp_return wp_if wp_case_option wp_let wp_get_pin wp_set_dev
  gpio.wp_lock_acc [where xs = "[]"] gpio.wp_unlock_acc [where xs = "[]"] init_once_ready ensure_ready request_event_ready
  close_line_ready close_event_ready gpio.wp_acc_call [where xs = "[]"]

lemma acc_upd:
  assumes "ready s" "gpio.acc [] s'" "m_dev s' = m_dev s" "handle_fd (f (g_gpio_pins (m_dev s) p)) = handle_fd (g_gpio_pins (m_dev s) p)"
    "event_fd (f (g_gpio_pins (m_dev s) p)) = event_fd (g_gpio_pins (m_dev s) p)"
    "hreq_valid (f (g_gpio_pins (m_dev s) p)) = hreq_valid (g_gpio_pins (m_dev s) p)"
  shows "gpio.acc [] (s'\<lparr>m_dev := upd_pin p f (m_dev s)\<rparr>)"
  using ready_upd [of s' f p] ready_cong [OF assms(2,1,3)] assms(3-6) by (simp add: ready_def)

lemma safe_init: "gpio.safe (tkl_gpio_init os p c)"
  unfolding gpio.safe_def tkl_gpio_init_def
  by (intro allI impI gpio_wp) (auto intro!: ready_upd acc_upd simp: ready_acc)

lemma safe_deinit: "gpio.safe (tkl_gpio_deinit os p)"
  unfolding gpio.safe_def tkl_gpio_deinit_def
  by (intro allI impI gpio_wp) (auto intro!: ready_upd acc_upd simp: ready_acc)

lemma safe_write: "gpio.safe (tkl_gpio_write os p l)"
  unfolding gpio.safe_def tkl_gpio_write_def
  by (intro allI impI gpio_wp) (auto intro!: ready_upd acc_upd simp: ready_acc)

lemma safe_irq_set: "gpio.safe (gpio_irq_set os p on)"
  unfolding gpio.safe_def gpio_irq_set_def
  by (intro allI impI gpio_wp) (auto intro!: ready_upd acc_upd simp: ready_acc)

lemma safe_read: "gpio.safe (tkl_gpio_read os p null)"
  unfolding gpio.safe_def tkl_gpio_read_def
  by (intro allI impI gpio_wp) (auto intro!: ready_upd acc_upd intro: ready_cong simp: ready_acc)

lemma safe_irq_init: "gpio.safe (tkl_gpio_irq_init os p c)"
  unfolding gpio.safe_def tkl_gpio_irq_init_def
  by (intro allI impI gpio_wp) (auto intro!: ready_upd acc_upd intro: ready_cong simp: ready_acc)

lemma safe_irq_thread: "gpio.safe (gpio_irq_thread os p)"
  unfolding gpio.safe_def gpio_irq_thread_def
  by (intro allI impI gpio_wp gpio.wp_safe [OF safe_read] wp_case_prod) auto

section \<open>Sessions\<close>

datatype gpio_op =
    G_Init nat "TUYA_GPIO_BASE_CFG_T option"
  | G_Deinit nat
  | G_Write nat TUYA_GPIO_LEVEL_E
  | G_Read nat bool
  | G_Irq_Init nat "TUYA_GPIO_IRQ_T option"
  | G_Irq_Enable nat
  | G_Irq_Disable nat
  | G_Irq_Round nat

fun gpio_exec :: "'w kernel \<Rightarrow> gpio_op \<Rightarrow> ('w, gpio_dev, unit) prog" where
  "gpio_exec os (G_Init p c) = do { tkl_gpio_init os p c; ret () }"
| "gpio_exec os (G_Deinit p) = do { tkl_gpio_deinit os p; ret () }"
| "gpio_exec os (G_Write p l) = do { tkl_gpio_write os p l; ret () }"
| "gpio_exec os (G_Read p n) = do { tkl_gpio_read os p n; ret () }"
| "gpio_exec os (G_Irq_Init p c) = do { tkl_gpio_irq_init os p c; ret () }"
| "gpio_exec os (G_Irq_Enable p) = do { tkl_gpio_irq_enable os p; ret () }"
| "gpio_exec os (G_Irq_Disable p) = do { tkl_gpio_irq_disable os p; ret () }"
| "gpio_exec os (G_Irq_Round p) = do { gpio_irq_thread os p; ret () }"

interpretation gpio_driver: fd_driver gpio_fds gpio_ok gpio_start gpio_exec
proof
  show "gpio.safe (gpio_exec os x)" for os :: "'w kernel" and x
    by (cases x) (auto intro!: gpio.safe_bind gpio.safe_return safe_init safe_deinit safe_write safe_read safe_irq_init safe_irq_set
        safe_irq_thread simp: tkl_gpio_irq_enable_def tkl_gpio_irq_disable_def)
qed

abbreviation gpio_boot :: "'w \<Rightarrow> ('w, gpio_dev) machine" where
  "gpio_boot w \<equiv> \<lparr>m_os = w, m_log = [], m_dev = gpio_start\<rparr>"

text \<open>
  C13: For every kernel that hands out only descriptors that are not in use, and every sequence of
  GPIO calls and interrupt rounds on any pins, with any call failing at any point, the descriptors
  left open are exactly those the pin contexts hold, no descriptor is held twice, none is closed
  that is not open, and the mutex is free.
\<close>

theorem gpio_fds_accounted:
  assumes "run_state (run_ops (gpio_exec os) ops) (gpio_boot w) = (rs, s)" "fds_fresh (m_log s)"
  shows "balanced (gpio_fds (m_dev s)) (m_log s) \<and> held (m_log s) = 0"
  using gpio_driver.session_accounted(2,3) [OF assms(1)] assms(2) by simp

text \<open>A kernel whose world is the next unused descriptor.\<close>

definition counting_kernel :: "int kernel" where
  "counting_kernel n c = (case c of
      Open p \<Rightarrow> (reply n 0 [], n + 1)
    | Ioctl fd i \<Rightarrow> (reply 0 n [], n + 1)
    | _ \<Rightarrow> (reply 0 0 [], n))"

definition demo_output :: TUYA_GPIO_BASE_CFG_T where
  "demo_output = \<lparr>mode = TUYA_GPIO_PUSH_PULL, direct = TUYA_GPIO_OUTPUT, level = TUYA_GPIO_LEVEL_HIGH\<rparr>"

lemmas gpio_run_defs = tkl_gpio_init_def lock_def unlock_def syscall_def gpio_global_init_once_def
  set_dev_def dev_def get_pin_def close_line_handle_locked_def ensure_line_handle_locked_def gpiochip_open_best_effort_def Let_def

theorem gpio_fds_accounted_witness:
  "\<exists>rs s. run_state (run_ops (gpio_exec counting_kernel) [G_Init 5 (Some demo_output)]) (gpio_boot 3) = (rs, s)
     \<and> fds_fresh (m_log s) \<and> balanced (gpio_fds (m_dev s)) (m_log s)"
proof -
  obtain rs s where r: "run_state (run_ops (gpio_exec counting_kernel) [G_Init 5 (Some demo_output)]) (gpio_boot 3) = (rs, s)" by fastforce
  have f: "fds_fresh (m_log s)" using r
    by (auto simp: gpio_start_def gpio_run_defs counting_kernel_def demo_output_def PIN_COUNT_def zero_pin_def)
  show ?thesis using gpio_fds_accounted [OF r f] r f by blast
qed

end
