(* ===== verification/Tkl_I2c.thy ===== *)
theory Tkl_I2c
  imports Fd_Ledger
begin

text \<open>
  The I2C master of \<open>tkl_i2c.c\<close> over \<open>/dev/i2c-N\<close>: six port contexts under one mutex.  A write without
  stop condition is kept in the context and joined to the next read from the same address as one
  \<open>I2C_RDWR\<close> transaction.
\<close>

section \<open>Types\<close>

datatype TUYA_IIC_ROLE_E = TUYA_IIC_MODE_MASTER | TUYA_IIC_MODE_SLAVE
datatype TUYA_IIC_SPEED_E =
  TUYA_IIC_BUS_SPEED_100K | TUYA_IIC_BUS_SPEED_400K | TUYA_IIC_BUS_SPEED_1M | TUYA_IIC_BUS_SPEED_3_4M
datatype TUYA_IIC_ADDR_MODE_E = TUYA_IIC_ADDRESS_7BIT | TUYA_IIC_ADDRESS_10BIT

record TUYA_IIC_BASE_CFG_T =
  iic_role :: TUYA_IIC_ROLE_E
  iic_speed :: TUYA_IIC_SPEED_E
  iic_addr_width :: TUYA_IIC_ADDR_MODE_E

record tkl_i2c_ctx_t =
  fd :: int
  initialized :: bool
  pending_valid :: bool
  pending_addr :: u16
  pending_buf :: bytes
  pending_len :: u32
  last_count :: u32

type_synonym i2c_dev = "int \<Rightarrow> tkl_i2c_ctx_t"

definition TUYA_I2C_NUM_MAX :: int where "TUYA_I2C_NUM_MAX = 6"
definition TKL_I2C_MAX_PORT :: int where "TKL_I2C_MAX_PORT = 6"
definition I2C_M_RD :: nat where "I2C_M_RD = 1"

text \<open>A context cleared by \<open>memset\<close>, as the static array starts; \<open>pending_buf\<close> has 32 bytes.\<close>

definition zero_i2c :: tkl_i2c_ctx_t where
  "zero_i2c = \<lparr>fd = 0, initialized = False, pending_valid = False, pending_addr = 0, pending_buf = replicate 32 0,
     pending_len = 0, last_count = 0\<rparr>"

definition upd_i2c :: "int \<Rightarrow> (tkl_i2c_ctx_t \<Rightarrow> tkl_i2c_ctx_t) \<Rightarrow> i2c_dev \<Rightarrow> i2c_dev" where
  "upd_i2c port f d = d(port := f (d port))"

lemma upd_i2c_apply [simp]: "upd_i2c port f d p = (if p = port then f (d port) else d p)"
  by (simp add: upd_i2c_def)

definition i2c_port_bad :: "int \<Rightarrow> bool" where
  "i2c_port_bad port \<longleftrightarrow> port < 0 \<or> port \<ge> TUYA_I2C_NUM_MAX \<or> port \<ge> TKL_I2C_MAX_PORT"

section \<open>The bus\<close>

definition prv_open_bus :: "'w kernel \<Rightarrow> int \<Rightarrow> ('w, i2c_dev, int) prog" where
  "prv_open_bus os port = do {
     r \<leftarrow> syscall os (Open (snprintf 32 (''/dev/i2c-'' @ dec_digits (nat port))));
     if sr_rc r < 0 then ret (-1) else ret (sr_rc r)
   }"

definition prv_set_slave :: "'w kernel \<Rightarrow> int \<Rightarrow> u16 \<Rightarrow> TUYA_IIC_ADDR_MODE_E \<Rightarrow> ('w, i2c_dev, OPERATE_RET) prog" where
  "prv_set_slave os f dev_addr addr_mode = do {
     ten \<leftarrow> (if addr_mode = TUYA_IIC_ADDRESS_10BIT
             then do { r \<leftarrow> syscall os (Ioctl f (I2C_TENBIT 1)); ret (sr_rc r) }
             else do { syscall os (Ioctl f (I2C_TENBIT 0)); ret 0 });
     if ten < 0 then ret OPRT_COM_ERROR
     else do {
       r \<leftarrow> syscall os (Ioctl f (I2C_SLAVE dev_addr));
       if sr_rc r < 0 then ret OPRT_COM_ERROR else ret OPRT_OK
     }
   }"

definition prv_probe_addr :: "'w kernel \<Rightarrow> int \<Rightarrow> ('w, i2c_dev, OPERATE_RET) prog" where
  "prv_probe_addr os f = do {
     r \<leftarrow> syscall os (Ioctl f I2C_SMBUS_QUICK);
     if sr_rc r < 0 then ret OPRT_COM_ERROR else ret OPRT_OK
   }"

section \<open>Operations\<close>

text \<open>Give the mutex back and return.\<close>

definition i2c_leave :: "'w kernel \<Rightarrow> 'a \<Rightarrow> ('w, i2c_dev, 'a) prog" where
  "i2c_leave os r = do { unlock os; ret r }"

definition tkl_i2c_init :: "'w kernel \<Rightarrow> int \<Rightarrow> TUYA_IIC_BASE_CFG_T option \<Rightarrow> ('w, i2c_dev, OPERATE_RET) prog" where
  "tkl_i2c_init os port cfg =
     (if cfg = None then ret OPRT_INVALID_PARM
      else if i2c_port_bad port then ret OPRT_INVALID_PARM
      else do {
        lock os;
        d \<leftarrow> dev;
        if initialized (d port) then i2c_leave os OPRT_OK
        else do {
          f \<leftarrow> prv_open_bus os port;
          if f < 0 then i2c_leave os OPRT_COM_ERROR
          else do {
            set_dev (upd_i2c port (\<lambda>c. c\<lparr>fd := f, initialized := True, pending_valid := False, pending_len := 0,
              pending_addr := 0, last_count := 0\<rparr>));
            i2c_leave os OPRT_OK
          }
        }
      })"

definition tkl_i2c_deinit :: "'w kernel \<Rightarrow> int \<Rightarrow> ('w, i2c_dev, OPERATE_RET) prog" where
  "tkl_i2c_deinit os port =
     (if i2c_port_bad port then ret OPRT_INVALID_PARM
      else do {
        lock os;
        d \<leftarrow> dev;
        (if initialized (d port)
         then do { syscall os (Close (fd (d port))); set_dev (upd_i2c port (\<lambda>_. zero_i2c\<lparr>fd := -1\<rparr>)) }
         else ret ());
        i2c_leave os OPRT_OK
      })"

definition tkl_i2c_master_send ::
  "'w kernel \<Rightarrow> int \<Rightarrow> u16 \<Rightarrow> byte_ptr \<Rightarrow> u32 \<Rightarrow> bool \<Rightarrow> ('w, i2c_dev, OPERATE_RET) prog" where
  "tkl_i2c_master_send os port dev_addr data sz xfer_pending =
     (if i2c_port_bad port then ret OPRT_INVALID_PARM
      else do {
        lock os;
        d \<leftarrow> dev;
        if \<not> initialized (d port) then i2c_leave os OPRT_COM_ERROR
        else do {
          set_dev (upd_i2c port (\<lambda>c. c\<lparr>last_count := 0\<rparr>));
          if sz = 0
          then do {
            r \<leftarrow> prv_set_slave os (fd (d port)) dev_addr TUYA_IIC_ADDRESS_7BIT;
            if r \<noteq> OPRT_OK then i2c_leave os r
            else do { r \<leftarrow> prv_probe_addr os (fd (d port)); i2c_leave os r }
          }
          else case data of
            None \<Rightarrow> i2c_leave os OPRT_INVALID_PARM
          | Some bs \<Rightarrow>
              if xfer_pending
              then let copy_len = (if sz > 32 then 32 else sz) in do {
                set_dev (upd_i2c port (\<lambda>c. c\<lparr>pending_buf := memcpy_at (pending_buf c) 0 bs (unat copy_len), pending_len := copy_len,
                  pending_addr := dev_addr, pending_valid := True, last_count := copy_len\<rparr>));
                i2c_leave os OPRT_OK
              }
              else do {
                r \<leftarrow> prv_set_slave os (fd (d port)) dev_addr TUYA_IIC_ADDRESS_7BIT;
                if r \<noteq> OPRT_OK then i2c_leave os r
                else do {
                  wr \<leftarrow> syscall os (Write (fd (d port)) (take (unat sz) bs));
                  if sr_rc wr < 0 then i2c_leave os OPRT_COM_ERROR
                  else do {
                    set_dev (upd_i2c port (\<lambda>c. c\<lparr>last_count := of_int (sr_rc wr)\<rparr>));
                    i2c_leave os OPRT_OK
                  }
                }
              }
        }
      })"

text \<open>
  The buffer goes in with its contents and comes back with what the kernel stored.  A read message
  carries no bytes to the kernel.
\<close>

definition rdwr_msgs :: "tkl_i2c_ctx_t \<Rightarrow> u16 \<Rightarrow> u32 \<Rightarrow> i2c_msg list" where
  "rdwr_msgs c dev_addr sz =
     [\<lparr>im_addr = dev_addr, im_flags = 0, im_len = ucast (pending_len c), im_buf = take (unat (pending_len c)) (pending_buf c)\<rparr>,
      \<lparr>im_addr = dev_addr, im_flags = I2C_M_RD, im_len = ucast sz, im_buf = []\<rparr>]"

definition tkl_i2c_master_receive ::
  "'w kernel \<Rightarrow> int \<Rightarrow> u16 \<Rightarrow> byte_ptr \<Rightarrow> u32 \<Rightarrow> bool \<Rightarrow> ('w, i2c_dev, OPERATE_RET \<times> byte_ptr) prog" where
  "tkl_i2c_master_receive os port dev_addr data sz xfer_pending =
     (if i2c_port_bad port then ret (OPRT_INVALID_PARM, data)
      else case data of
        None \<Rightarrow> ret (OPRT_INVALID_PARM, data)
      | Some bs \<Rightarrow>
        if sz = 0 then ret (OPRT_INVALID_PARM, data)
        else do {
          lock os;
          d \<leftarrow> dev;
          if \<not> initialized (d port) then i2c_leave os (OPRT_COM_ERROR, data)
          else do {
            set_dev (upd_i2c port (\<lambda>c. c\<lparr>last_count := 0\<rparr>));
            if pending_valid (d port) \<and> pending_addr (d port) = dev_addr
            then do {
              r \<leftarrow> syscall os (Ioctl (fd (d port)) (I2C_RDWR (rdwr_msgs (d port) dev_addr sz)));
              set_dev (upd_i2c port (\<lambda>c. c\<lparr>pending_valid := False, pending_len := 0\<rparr>));
              if sr_rc r < 0 then i2c_leave os (OPRT_COM_ERROR, Some (store_into bs (sr_data r)))
              else do {
                set_dev (upd_i2c port (\<lambda>c. c\<lparr>last_count := sz\<rparr>));
                i2c_leave os (OPRT_OK, Some (store_into bs (sr_data r)))
              }
            }
            else do {
              r \<leftarrow> prv_set_slave os (fd (d port)) dev_addr TUYA_IIC_ADDRESS_7BIT;
              if r \<noteq> OPRT_OK then i2c_leave os (r, data)
              else do {
                rd \<leftarrow> syscall os (Read (fd (d port)) (unat sz));
                if sr_rc rd < 0 then i2c_leave os (OPRT_COM_ERROR, Some (store_into bs (sr_data rd)))
                else do {
                  set_dev (upd_i2c port (\<lambda>c. c\<lparr>last_count := of_int (sr_rc rd)\<rparr>));
                  i2c_leave os (OPRT_OK, Some (store_into bs (sr_data rd)))
                }
              }
            }
          }
        })"

definition tkl_i2c_get_data_count :: "'w kernel \<Rightarrow> int \<Rightarrow> ('w, i2c_dev, int) prog" where
  "tkl_i2c_get_data_count os port =
     (if i2c_port_bad port then ret (-1)
      else do {
        lock os;
        d \<leftarrow> dev;
        i2c_leave os (sint (last_count (d port)))
      })"

text \<open>The remaining entry points do nothing; \<open>tkl_i2c_get_status\<close> also clears the six flags of the status.\<close>

definition tkl_i2c_irq_init :: "int \<Rightarrow> 'cb \<Rightarrow> OPERATE_RET" where
  "tkl_i2c_irq_init port cb = OPRT_NOT_SUPPORTED"

definition tkl_i2c_irq_enable :: "int \<Rightarrow> OPERATE_RET" where
  "tkl_i2c_irq_enable port = OPRT_NOT_SUPPORTED"

definition tkl_i2c_irq_disable :: "int \<Rightarrow> OPERATE_RET" where
  "tkl_i2c_irq_disable port = OPRT_NOT_SUPPORTED"

definition tkl_i2c_set_slave_addr :: "int \<Rightarrow> u16 \<Rightarrow> OPERATE_RET" where
  "tkl_i2c_set_slave_addr port dev_addr = OPRT_NOT_SUPPORTED"

definition tkl_i2c_slave_send :: "int \<Rightarrow> byte_ptr \<Rightarrow> u32 \<Rightarrow> OPERATE_RET" where
  "tkl_i2c_slave_send port data sz = OPRT_NOT_SUPPORTED"

definition tkl_i2c_slave_receive :: "int \<Rightarrow> byte_ptr \<Rightarrow> u32 \<Rightarrow> OPERATE_RET" where
  "tkl_i2c_slave_receive port data sz = OPRT_NOT_SUPPORTED"

definition tkl_i2c_get_status :: "int \<Rightarrow> bool list option \<Rightarrow> OPERATE_RET \<times> bool list option" where
  "tkl_i2c_get_status port status =
     (case status of None \<Rightarrow> (OPRT_INVALID_PARM, None) | Some _ \<Rightarrow> (OPRT_NOT_SUPPORTED, Some (replicate 6 False)))"

definition tkl_i2c_reset :: "int \<Rightarrow> OPERATE_RET" where
  "tkl_i2c_reset port = OPRT_OK"

definition tkl_i2c_ioctl :: "int \<Rightarrow> u32 \<Rightarrow> 'arg \<Rightarrow> OPERATE_RET" where
  "tkl_i2c_ioctl port cmd args = OPRT_NOT_SUPPORTED"

section \<open>Invariant and descriptors\<close>

definition i2c_ctx_ok :: "tkl_i2c_ctx_t \<Rightarrow> bool" where
  "i2c_ctx_ok c \<longleftrightarrow> length (pending_buf c) = 32 \<and> unat (pending_len c) \<le> 32 \<and> (pending_valid c \<longrightarrow> initialized c \<and> pending_len c \<noteq> 0)"

definition i2c_ok :: "i2c_dev \<Rightarrow> bool" where
  "i2c_ok d \<longleftrightarrow> (\<forall>port. i2c_ctx_ok (d port) \<and> (i2c_port_bad port \<longrightarrow> d port = zero_i2c))"

definition i2c_fds :: "i2c_dev \<Rightarrow> int \<rightharpoonup> int" where
  "i2c_fds d port = (if initialized (d port) then Some (fd (d port)) else None)"

definition i2c_start :: i2c_dev where
  "i2c_start = (\<lambda>_. zero_i2c)"

interpretation i2c: fd_owner i2c_fds i2c_ok i2c_start
  by unfold_locales (simp_all add: i2c_fds_def i2c_ok_def i2c_ctx_ok_def i2c_start_def zero_i2c_def fun_eq_iff)

lemma i2c_quiet: "quiet (prv_set_slave os f a w)" "quiet (prv_probe_addr os f)" "quiet (prv_open_bus os port)"
  unfolding prv_set_slave_def prv_probe_addr_def prv_open_bus_def by (intro quiet_rules)+

lemma i2c_kept: "i2c.kept (prv_set_slave os f a w)" "i2c.kept (prv_probe_addr os f)"
  unfolding prv_set_slave_def prv_probe_addr_def by (intro i2c.kept_rules i2c.kept_call; simp)+

lemma open_bus_acc:
  assumes "i2c.acc [] s" "\<And>r s'. m_dev s' = m_dev s \<Longrightarrow> depth s' = depth s \<Longrightarrow> i2c.acc (if r < 0 then [] else [r]) s' \<Longrightarrow> Q r s'"
  shows "wp (prv_open_bus os port) Q s"
  unfolding prv_open_bus_def
  by (rule wp_bind, rule i2c.wp_acc_call [OF assms(1)]) (auto intro!: wp_rules assms(2))

lemma i2c_leave_acc:
  assumes "i2c.acc [] s" "\<And>s'. m_dev s' = m_dev s \<Longrightarrow> depth s' = depth s - 1 \<Longrightarrow> i2c.acc [] s' \<Longrightarrow> Q r s'"
  shows "wp (i2c_leave os r) Q s"
  unfolding i2c_leave_def by (rule wp_bind, rule i2c.wp_unlock_acc [OF assms(1)], rule wp_return, rule assms(2))

text \<open>An update of one context that keeps its descriptor.\<close>

lemma i2c_acc_upd:
  assumes "i2c.acc [] s" "\<forall>p. fd (d' p) = fd (m_dev s p) \<and> initialized (d' p) = initialized (m_dev s p)
    \<and> (i2c_ctx_ok (m_dev s p) \<longrightarrow> i2c_ctx_ok (d' p)) \<and> (i2c_port_bad p \<longrightarrow> d' p = m_dev s p)"
  shows "i2c.acc [] (s\<lparr>m_dev := d'\<rparr>)"
  using assms i2c.acc_ok [OF assms(1)]
  by (intro i2c.acc_same) (auto simp: i2c_fds_def i2c_ok_def fun_eq_iff)

lemma i2c_acc_open:
  assumes "i2c.acc [r] s" "m_dev s = d" "\<not> i2c_port_bad port" "\<not> initialized (d port)"
    "fd (f (d port)) = r" "initialized (f (d port))" "i2c_ctx_ok (d port) \<Longrightarrow> i2c_ctx_ok (f (d port))"
  shows "i2c.acc [] (s\<lparr>m_dev := upd_i2c port f d\<rparr>)"
  using assms i2c.acc_ok [OF assms(1)]
  by (intro i2c.acc_store [OF assms(1), of port]) (auto simp: i2c_fds_def upd_i2c_def i2c_ok_def fun_eq_iff)

lemma i2c_acc_close:
  assumes "i2c.acc [] s" "\<not> i2c_port_bad port" "initialized (m_dev s port)" "\<And>s'. i2c.acc [] s' \<Longrightarrow> depth s' = depth s \<Longrightarrow> Q () s'"
  shows "wp (State_Monad.bind (syscall os (Close (fd (m_dev s port)))) (\<lambda>_. set_dev (upd_i2c port (\<lambda>_. zero_i2c\<lparr>fd := -1\<rparr>)))) Q s"
  using assms i2c.acc_ok [OF assms(1)]
  by (intro i2c.wp_close_held [OF assms(1), of port])
    (auto simp: i2c_fds_def upd_i2c_def i2c_ok_def fun_eq_iff zero_i2c_def i2c_ctx_ok_def)

lemmas i2c_wp = wp_bind wp_return wp_if wp_case_option wp_let wp_dev wp_set_dev
  i2c.wp_lock_acc [where xs = "[]"] i2c_leave_acc open_bus_acc i2c.wp_quiet_kept [OF i2c_quiet(1) i2c_kept(1)]
  i2c.wp_quiet_kept [OF i2c_quiet(2) i2c_kept(2)] i2c.wp_acc_call [where xs = "[]"]

lemma i2c_safe_init: "i2c.safe (tkl_i2c_init os port c)"
  unfolding i2c.safe_def tkl_i2c_init_def
  by (intro allI impI i2c_wp) (auto intro!: i2c_acc_open simp: i2c_ctx_ok_def)

lemma i2c_safe_deinit: "i2c.safe (tkl_i2c_deinit os port)"
  unfolding i2c.safe_def tkl_i2c_deinit_def
  by (intro allI impI wp_if wp_return wp_bind [of "lock os"] wp_bind [of dev] wp_dev wp_bind [of "if _ then _ else _"]
      i2c.wp_lock_acc [where xs = "[]"] i2c_leave_acc i2c_acc_close) auto

lemma i2c_safe_receive: "i2c.safe (tkl_i2c_master_receive os port a b n x)"
  unfolding i2c.safe_def tkl_i2c_master_receive_def
  by (intro allI impI i2c_wp) (auto intro!: i2c_acc_upd simp: i2c_ctx_ok_def split: if_splits)

lemma i2c_safe_send:
  assumes "\<And>bs. b = Some bs \<Longrightarrow> unat n \<le> length bs"
  shows "i2c.safe (tkl_i2c_master_send os port a b n x)"
  unfolding i2c.safe_def tkl_i2c_master_send_def
  by (intro allI impI i2c_wp) (auto intro!: i2c_acc_upd dest!: assms simp: i2c_ctx_ok_def word_less_nat_alt split: if_splits)

lemma i2c_safe_count: "i2c.safe (tkl_i2c_get_data_count os port)"
  unfolding i2c.safe_def tkl_i2c_get_data_count_def by (intro allI impI i2c_wp) auto

section \<open>Sessions\<close>

text \<open>Only the first \<open>size\<close> bytes of the data of a send matter: a caller's buffer has exactly that length here.\<close>

datatype i2c_op =
    I_Init int "TUYA_IIC_BASE_CFG_T option"
  | I_Deinit int
  | I_Send int u16 bytes bool
  | I_Send_Null int u16 u32 bool
  | I_Receive int u16 byte_ptr u32
  | I_Count int

fun i2c_exec :: "'w kernel \<Rightarrow> i2c_op \<Rightarrow> ('w, i2c_dev, unit) prog" where
  "i2c_exec os (I_Init port c) = do { tkl_i2c_init os port c; ret () }"
| "i2c_exec os (I_Deinit port) = do { tkl_i2c_deinit os port; ret () }"
| "i2c_exec os (I_Send port a bs x) = do { tkl_i2c_master_send os port a (Some bs) (of_nat (length bs)) x; ret () }"
| "i2c_exec os (I_Send_Null port a n x) = do { tkl_i2c_master_send os port a None n x; ret () }"
| "i2c_exec os (I_Receive port a b n) = do { tkl_i2c_master_receive os port a b n False; ret () }"
| "i2c_exec os (I_Count port) = do { tkl_i2c_get_data_count os port; ret () }"

lemma unat_of_length: "unat (of_nat n :: u32) \<le> n"
  by (simp add: unat_of_nat)

interpretation i2c_driver: fd_driver i2c_fds i2c_ok i2c_start i2c_exec
proof
  show "i2c.safe (i2c_exec os x)" for os :: "'w kernel" and x
    by (cases x) (auto intro!: i2c.safe_bind i2c.safe_return i2c_safe_init i2c_safe_deinit i2c_safe_send i2c_safe_receive i2c_safe_count
        unat_of_length)
qed

abbreviation i2c_boot :: "'w \<Rightarrow> ('w, i2c_dev) machine" where
  "i2c_boot w \<equiv> \<lparr>m_os = w, m_log = [], m_dev = i2c_start\<rparr>"

text \<open>
  For every kernel and every sequence of I2C calls, failing ones included, a pending write is
  1 to 32 bytes long and belongs to an initialised port, contexts outside the array are untouched and
  the mutex is free; if the kernel hands out only unused descriptors, those left open are exactly
  the descriptors of the initialised ports, each once, and none was closed twice.
\<close>

theorem i2c_session_accounted:
  assumes "run_state (run_ops (i2c_exec os) ops) (i2c_boot w) = (rs, s)"
  shows "(\<forall>port. (pending_valid (m_dev s port) \<longrightarrow> initialized (m_dev s port) \<and> unat (pending_len (m_dev s port)) \<in> {1..32})
      \<and> (i2c_port_bad port \<longrightarrow> m_dev s port = zero_i2c))
    \<and> held (m_log s) = 0 \<and> (fds_fresh (m_log s) \<longrightarrow> balanced (i2c_fds (m_dev s)) (m_log s))"
proof -
  note a = i2c_driver.session_accounted [OF assms]
  have "unat (pending_len (m_dev s port)) \<in> {1..32}" if "pending_valid (m_dev s port)" for port
    using a(1) that by (auto simp: i2c_ok_def i2c_ctx_ok_def unat_gt_0 Suc_le_eq)
  then show ?thesis using a by (auto simp: i2c_ok_def i2c_ctx_ok_def)
qed

section \<open>A register read\<close>

text \<open>Calls that leave the pending write of a port to an address alone.\<close>

fun spares :: "int \<Rightarrow> u16 \<Rightarrow> i2c_op \<Rightarrow> bool" where
  "spares port a (I_Deinit p) \<longleftrightarrow> p \<noteq> port"
| "spares port a (I_Send p b bs x) \<longleftrightarrow> p \<noteq> port \<or> \<not> x \<or> bs = []"
| "spares port a (I_Receive p b buf n) \<longleftrightarrow> p \<noteq> port \<or> b \<noteq> a"
| "spares port a _ \<longleftrightarrow> True"

definition pend_view :: "tkl_i2c_ctx_t \<Rightarrow> int \<times> bool \<times> bool \<times> u16 \<times> bytes \<times> u32" where
  "pend_view c = (fd c, initialized c, pending_valid c, pending_addr c, pending_buf c, pending_len c)"

lemmas i2c_frame_wp = wp_bind wp_return wp_if wp_case_option wp_let wp_dev wp_set_dev wp_lock wp_unlock
  wp_quiet [OF i2c_quiet(1)] wp_quiet [OF i2c_quiet(2)] wp_quiet [OF i2c_quiet(3)]
  wp_quiet [OF quiet_calls(3)] wp_quiet [OF quiet_calls(4)] wp_quiet [OF quiet_calls(5)] wp_quiet [OF quiet_calls(6)]

lemma spares_frame:
  assumes "spares port a x" "initialized (m_dev s port)" "pending_addr (m_dev s port) = a"
  shows "wp (i2c_exec os x) (\<lambda>r s'. pend_view (m_dev s' port) = pend_view (m_dev s port)) s"
  using assms
  by (cases x; simp only: i2c_exec.simps tkl_i2c_init_def tkl_i2c_deinit_def tkl_i2c_master_send_def tkl_i2c_master_receive_def
      tkl_i2c_get_data_count_def i2c_leave_def)
    (intro i2c_frame_wp; auto simp: pend_view_def)+

lemma spares_session:
  assumes "\<forall>x\<in>set ops. spares port a x" "initialized (m_dev s port)" "pending_addr (m_dev s port) = a"
    "run_state (run_ops (i2c_exec os) ops) s = (rs, s')"
  shows "pend_view (m_dev s' port) = pend_view (m_dev s port)"
  using assms
proof (induction ops arbitrary: s rs)
  case (Cons x ops)
  obtain r s1 where r: "run_state (i2c_exec os x) s = (r, s1)" by (metis surj_pair)
  then obtain rs' where rs': "run_state (run_ops (i2c_exec os) ops) s1 = (rs', s')" using Cons.prems(4) by (auto split: prod.splits)
  have v: "pend_view (m_dev s1 port) = pend_view (m_dev s port)"
    using wpD [OF spares_frame [OF _ Cons.prems(2,3)] r] Cons.prems(1) by simp
  then have "initialized (m_dev s1 port)" "pending_addr (m_dev s1 port) = a" using Cons.prems(2,3) by (simp_all add: pend_view_def)
  then show ?case using Cons.IH [OF _ _ _ rs'] Cons.prems(1) v by simp
qed simp

lemma send_pending:
  assumes "run_state (tkl_i2c_master_send os port a (Some bs) n True) s = (OPRT_OK, s')" "n \<noteq> 0"
  shows "\<not> i2c_port_bad port \<and> pend_view (m_dev s' port) = (fd (m_dev s port), True, True, a,
    memcpy_at (pending_buf (m_dev s port)) 0 bs (unat (min 32 n)), min 32 n)"
proof -
  have "wp (tkl_i2c_master_send os port a (Some bs) n True) (\<lambda>r s'. r = OPRT_OK \<longrightarrow> \<not> i2c_port_bad port
    \<and> pend_view (m_dev s' port) = (fd (m_dev s port), True, True, a, memcpy_at (pending_buf (m_dev s port)) 0 bs (unat (min 32 n)), min 32 n)) s"
    unfolding tkl_i2c_master_send_def i2c_leave_def
    by (intro i2c_frame_wp) (auto simp: assms(2) pend_view_def min_def)
  from wpD [OF this assms(1)] show ?thesis by simp
qed

lemma ucast_u16: "(ucast (w :: u32) :: u16) = of_nat (unat w)" "(of_nat (k mod 65536) :: u16) = of_nat k"
  by (simp add: of_nat_unat) (simp add: word_unat_eq_iff unat_of_nat take_bit_eq_mod)

lemma receive_combined:
  assumes "run_state (tkl_i2c_master_receive os port a (Some buf) n x) s = ((r, b), s')" "n \<noteq> 0" "\<not> i2c_port_bad port"
    "initialized (m_dev s port)" "pending_valid (m_dev s port)" "pending_addr (m_dev s port) = a"
  shows "\<exists>lk rep ul. m_log s' = [(Unlock, ul), (Ioctl (fd (m_dev s port)) (I2C_RDWR (rdwr_msgs (m_dev s port) a n)), rep), (Lock, lk)] @ m_log s
    \<and> (r, b) = (if sr_rc rep < 0 then OPRT_COM_ERROR else OPRT_OK, Some (store_into buf (sr_data rep)))
    \<and> last_count (m_dev s' port) = (if sr_rc rep < 0 then 0 else n) \<and> \<not> pending_valid (m_dev s' port)"
proof -
  let ?c = "Ioctl (fd (m_dev s port)) (I2C_RDWR (rdwr_msgs (m_dev s port) a n))"
  obtain lk w1 where 1: "os (m_os s) Lock = (lk, w1)" by (metis surj_pair)
  obtain rep w2 where 2: "os w1 ?c = (rep, w2)" by (metis surj_pair)
  obtain ul w3 where 3: "os w2 Unlock = (ul, w3)" by (metis surj_pair)
  show ?thesis
    using assms 1 2 3 by (intro exI [of _ lk] exI [of _ rep] exI [of _ ul])
      (auto simp: tkl_i2c_master_receive_def lock_def unlock_def i2c_leave_def syscall_def dev_def set_dev_def split: if_splits)
qed

text \<open>
  A write of \<open>bs\<close> without stop condition, any calls that leave it pending (on other ports, plain
  writes, reads from other addresses, failing calls), then a read of \<open>n\<close> bytes from the same address:
  the read makes exactly one bus call under the mutex, a combined transaction that writes the first
  32 bytes of \<open>bs\<close> and reads \<open>n\<close> modulo 65536 bytes; it reports success and the count \<open>n\<close> exactly when
  the kernel accepts it, and the pending write is used up either way.
\<close>

theorem i2c_register_read:
  assumes "run_state (tkl_i2c_master_send os port a (Some bs) (of_nat (length bs)) True) s0 = (OPRT_OK, s1)"
    "0 < length bs" "length bs < 2 ^ 32"
    and "\<forall>x\<in>set ops. spares port a x" "run_state (run_ops (i2c_exec os) ops) s1 = (rs, s2)"
    and "run_state (tkl_i2c_master_receive os port a (Some buf) n x) s2 = ((r, b), s3)" "n \<noteq> 0"
  shows "\<exists>lk rep ul. m_log s3 = [(Unlock, ul),
        (Ioctl (fd (m_dev s0 port)) (I2C_RDWR
          [\<lparr>im_addr = a, im_flags = 0, im_len = of_nat (min 32 (length bs)), im_buf = take 32 bs\<rparr>,
           \<lparr>im_addr = a, im_flags = I2C_M_RD, im_len = of_nat (unat n mod 65536), im_buf = []\<rparr>]), rep), (Lock, lk)] @ m_log s2
    \<and> (r, b) = (if sr_rc rep < 0 then OPRT_COM_ERROR else OPRT_OK, Some (store_into buf (sr_data rep)))
    \<and> last_count (m_dev s3 port) = (if sr_rc rep < 0 then 0 else n) \<and> \<not> pending_valid (m_dev s3 port)"
proof -
  let ?l = "of_nat (length bs) :: u32"
  have l: "unat ?l = length bs" using assms(3) by (simp add: unat_of_nat)
  then have "?l \<noteq> 0" using assms(2) by (metis unat_0 less_irrefl)
  note v1 = send_pending [OF assms(1) this]
  have "initialized (m_dev s1 port)" "pending_addr (m_dev s1 port) = a" using v1 by (simp_all add: pend_view_def)
  with v1 have v2: "pend_view (m_dev s2 port) = (fd (m_dev s0 port), True, True, a,
      memcpy_at (pending_buf (m_dev s0 port)) 0 bs (unat (min 32 ?l)), min 32 ?l)"
    using spares_session [OF assms(4) _ _ assms(5)] by simp
  have m: "unat (min 32 ?l) = min 32 (length bs)" using l by (simp add: min_def word_le_nat_alt)
  have p: "fd (m_dev s2 port) = fd (m_dev s0 port)" "initialized (m_dev s2 port)" "pending_valid (m_dev s2 port)" "pending_addr (m_dev s2 port) = a"
    using v2 by (simp_all add: pend_view_def)
  have msgs: "rdwr_msgs (m_dev s2 port) a n = [\<lparr>im_addr = a, im_flags = 0, im_len = of_nat (min 32 (length bs)), im_buf = take 32 bs\<rparr>,
           \<lparr>im_addr = a, im_flags = I2C_M_RD, im_len = of_nat (unat n mod 65536), im_buf = []\<rparr>]"
    using v2 m by (simp add: rdwr_msgs_def pend_view_def ucast_u16 min_def del: of_nat_unat)
  show ?thesis using receive_combined [OF assms(6,7) conjunct1 [OF v1] p(2-4)] unfolding msgs p(1) .
qed

text \<open>A bus on which every call succeeds and reads give the byte 7.\<close>

definition sevens_kernel :: "int kernel" where
  "sevens_kernel n c = (case c of
      Open p \<Rightarrow> (reply n 0 [], n + 1)
    | _ \<Rightarrow> (reply 0 0 [7], n))"

lemmas i2c_run_defs = tkl_i2c_init_def tkl_i2c_master_send_def tkl_i2c_master_receive_def prv_open_bus_def i2c_leave_def
  lock_def unlock_def syscall_def set_dev_def dev_def sevens_kernel_def i2c_start_def zero_i2c_def i2c_port_bad_def
  TUYA_I2C_NUM_MAX_def TKL_I2C_MAX_PORT_def

theorem i2c_session_accounted_witness:
  "\<exists>rs s. run_state (run_ops (i2c_exec sevens_kernel) [I_Init 1 (Some \<lparr>iic_role = TUYA_IIC_MODE_MASTER,
       iic_speed = TUYA_IIC_BUS_SPEED_400K, iic_addr_width = TUYA_IIC_ADDRESS_7BIT\<rparr>), I_Send 1 80 [3] True]) (i2c_boot 5) = (rs, s)
     \<and> pending_valid (m_dev s 1) \<and> unat (pending_len (m_dev s 1)) \<in> {1..32} \<and> held (m_log s) = 0"
proof -
  obtain rs s where r: "run_state (run_ops (i2c_exec sevens_kernel) [I_Init 1 (Some \<lparr>iic_role = TUYA_IIC_MODE_MASTER,
       iic_speed = TUYA_IIC_BUS_SPEED_400K, iic_addr_width = TUYA_IIC_ADDRESS_7BIT\<rparr>), I_Send 1 80 [3] True]) (i2c_boot 5) = (rs, s)"
    by (metis surj_pair)
  have "pending_valid (m_dev s 1)" using r by (auto simp: i2c_run_defs)
  then show ?thesis using i2c_session_accounted [OF r] r by blast
qed

theorem i2c_register_read_witness:
  "\<exists>s0 s1 s3. run_state (tkl_i2c_master_send sevens_kernel 1 80 (Some [3]) (of_nat (length [3 :: u8])) True) s0 = (OPRT_OK, s1)
     \<and> run_state (tkl_i2c_master_receive sevens_kernel 1 80 (Some [0, 0]) 2 False) s1 = ((OPRT_OK, Some [7, 0]), s3)
     \<and> \<not> pending_valid (m_dev s3 1)"
proof -
  let ?s = "\<lparr>m_os = 5, m_log = [], m_dev = (\<lambda>_. zero_i2c\<lparr>fd := 4, initialized := True\<rparr>)\<rparr>"
  obtain r s1 where "run_state (tkl_i2c_master_send sevens_kernel 1 80 (Some [3]) (of_nat (length [3 :: u8])) True) ?s = (r, s1)"
    by (metis surj_pair)
  then have 1: "run_state (tkl_i2c_master_send sevens_kernel 1 80 (Some [3]) (of_nat (length [3 :: u8])) True) ?s = (OPRT_OK, s1)"
    by (auto simp: i2c_run_defs)
  obtain q b s3 where 3: "run_state (tkl_i2c_master_receive sevens_kernel 1 80 (Some [0, 0]) 2 False) s1 = ((q, b), s3)"
    by (metis surj_pair)
  have n: "\<not> pending_valid (m_dev s3 1)" using i2c_register_read [OF 1 _ _ _ _ 3, of "[]" "[]"] by auto
  have "q = OPRT_OK" "b = Some [7, 0]" using 1 3 by (auto simp: i2c_run_defs store_into_def)
  then show ?thesis using 1 3 n by blast
qed

end
