(* ===== verification/Tkl_Spi.thy ===== *)
theory Tkl_Spi
  imports Fd_Ledger "HOL-Library.Signed_Division"
begin

text \<open>
  The SPI master of \<open>tkl_spi.c\<close> over \<open>/dev/spidevB.C\<close>: six port contexts under one mutex, configured
  when the port is opened, with plain reads and writes, full-duplex and write-then-read transfers.
\<close>

section \<open>Types\<close>

datatype TUYA_SPI_MODE_E = TUYA_SPI_MODE0 | TUYA_SPI_MODE1 | TUYA_SPI_MODE2 | TUYA_SPI_MODE3
datatype TUYA_SPI_BIT_ORDER_E = TUYA_SPI_ORDER_MSB2LSB | TUYA_SPI_ORDER_LSB2MSB
datatype TUYA_SPI_ROLE_E =
  TUYA_SPI_ROLE_INACTIVE | TUYA_SPI_ROLE_MASTER | TUYA_SPI_ROLE_SLAVE | TUYA_SPI_ROLE_MASTER_SIMPLEX | TUYA_SPI_ROLE_SLAVE_SIMPLEX
datatype TUYA_SPI_DATABITS_E = TUYA_SPI_DATA_BIT8 | TUYA_SPI_DATA_BIT16
datatype TUYA_SPI_TYPE_E = TUYA_SPI_AUTO_TYPE | TUYA_SPI_SOFT_TYPE | TUYA_SPI_SOFT_ONE_WIRE_TYPE

record TUYA_SPI_BASE_CFG_T =
  spi_role :: TUYA_SPI_ROLE_E
  spi_mode :: TUYA_SPI_MODE_E
  spi_type :: TUYA_SPI_TYPE_E
  databits :: TUYA_SPI_DATABITS_E
  bitorder :: TUYA_SPI_BIT_ORDER_E
  freq_hz :: u32
  spi_dma_flags :: u32

record tkl_spi_ctx_t =
  spi_fd :: int
  spi_initialized :: bool
  spi_last_count :: u32
  spi_cfg :: TUYA_SPI_BASE_CFG_T

type_synonym spi_dev = "int \<Rightarrow> tkl_spi_ctx_t"

definition TUYA_SPI_NUM_MAX :: int where "TUYA_SPI_NUM_MAX = 6"
definition TKL_SPI_MAX_PORT :: int where "TKL_SPI_MAX_PORT = 6"

text \<open>A context cleared by \<open>memset\<close>.\<close>

definition zero_spi :: tkl_spi_ctx_t where
  "zero_spi = \<lparr>spi_fd = 0, spi_initialized = False, spi_last_count = 0,
     spi_cfg = \<lparr>spi_role = TUYA_SPI_ROLE_INACTIVE, spi_mode = TUYA_SPI_MODE0, spi_type = TUYA_SPI_AUTO_TYPE,
       databits = TUYA_SPI_DATA_BIT8, bitorder = TUYA_SPI_ORDER_MSB2LSB, freq_hz = 0, spi_dma_flags = 0\<rparr>\<rparr>"

definition upd_spi :: "int \<Rightarrow> (tkl_spi_ctx_t \<Rightarrow> tkl_spi_ctx_t) \<Rightarrow> spi_dev \<Rightarrow> spi_dev" where
  "upd_spi port f d = d(port := f (d port))"

lemma upd_spi_apply [simp]: "upd_spi port f d p = (if p = port then f (d port) else d p)"
  by (simp add: upd_spi_def)

definition spi_port_bad :: "int \<Rightarrow> bool" where
  "spi_port_bad port \<longleftrightarrow> port < 0 \<or> port \<ge> TUYA_SPI_NUM_MAX \<or> port \<ge> TKL_SPI_MAX_PORT"

section \<open>Configuration\<close>

definition prv_spi_dev_path :: "int \<Rightarrow> nat \<Rightarrow> string" where
  "prv_spi_dev_path port buf_len =
     snprintf buf_len (''/dev/spidev'' @ dec_digits (nat (port sdiv 2)) @ ''.'' @ dec_digits (nat (port smod 2)))"

definition prv_mode_to_linux :: "TUYA_SPI_MODE_E \<Rightarrow> u8" where
  "prv_mode_to_linux m = (case m of TUYA_SPI_MODE0 \<Rightarrow> 0 | TUYA_SPI_MODE1 \<Rightarrow> 1 | TUYA_SPI_MODE2 \<Rightarrow> 2 | TUYA_SPI_MODE3 \<Rightarrow> 3)"

definition prv_bits_to_linux :: "TUYA_SPI_DATABITS_E \<Rightarrow> u8" where
  "prv_bits_to_linux b = (case b of TUYA_SPI_DATA_BIT16 \<Rightarrow> 16 | TUYA_SPI_DATA_BIT8 \<Rightarrow> 8)"

definition prv_apply_cfg :: "'w kernel \<Rightarrow> int \<Rightarrow> TUYA_SPI_BASE_CFG_T \<Rightarrow> ('w, spi_dev, OPERATE_RET) prog" where
  "prv_apply_cfg os f cfg = do {
     r \<leftarrow> syscall os (Ioctl f (SPI_IOC_WR_MODE (prv_mode_to_linux (spi_mode cfg))));
     if sr_rc r < 0 then ret OPRT_COM_ERROR
     else do {
       r \<leftarrow> syscall os (Ioctl f (SPI_IOC_WR_BITS_PER_WORD (prv_bits_to_linux (databits cfg))));
       if sr_rc r < 0 then ret OPRT_COM_ERROR
       else do {
         r \<leftarrow> syscall os (Ioctl f (SPI_IOC_WR_MAX_SPEED_HZ (freq_hz cfg)));
         if sr_rc r < 0 then ret OPRT_COM_ERROR
         else do {
           syscall os (Ioctl f (SPI_IOC_WR_LSB_FIRST (if bitorder cfg = TUYA_SPI_ORDER_LSB2MSB then 1 else 0)));
           ret OPRT_OK
         }
       }
     }
   }"

section \<open>Operations\<close>

definition spi_leave :: "'w kernel \<Rightarrow> 'a \<Rightarrow> ('w, spi_dev, 'a) prog" where
  "spi_leave os r = do { unlock os; ret r }"

definition tkl_spi_init :: "'w kernel \<Rightarrow> int \<Rightarrow> TUYA_SPI_BASE_CFG_T option \<Rightarrow> ('w, spi_dev, OPERATE_RET) prog" where
  "tkl_spi_init os port cfg =
     (case cfg of
        None \<Rightarrow> ret OPRT_INVALID_PARM
      | Some c \<Rightarrow>
        if spi_port_bad port then ret OPRT_INVALID_PARM
        else if spi_role c \<noteq> TUYA_SPI_ROLE_MASTER \<and> spi_role c \<noteq> TUYA_SPI_ROLE_MASTER_SIMPLEX then ret OPRT_NOT_SUPPORTED
        else do {
          lock os;
          d \<leftarrow> dev;
          if spi_initialized (d port) then spi_leave os OPRT_OK
          else do {
            r \<leftarrow> syscall os (Open (prv_spi_dev_path port 32));
            if sr_rc r < 0 then spi_leave os OPRT_COM_ERROR
            else do {
              rt \<leftarrow> prv_apply_cfg os (sr_rc r) c;
              if rt \<noteq> OPRT_OK
              then do { syscall os (Close (sr_rc r)); spi_leave os rt }
              else do {
                set_dev (upd_spi port (\<lambda>x. x\<lparr>spi_fd := sr_rc r, spi_initialized := True, spi_last_count := 0, spi_cfg := c\<rparr>));
                spi_leave os OPRT_OK
              }
            }
          }
        })"

definition tkl_spi_deinit :: "'w kernel \<Rightarrow> int \<Rightarrow> ('w, spi_dev, OPERATE_RET) prog" where
  "tkl_spi_deinit os port =
     (if spi_port_bad port then ret OPRT_INVALID_PARM
      else do {
        lock os;
        d \<leftarrow> dev;
        (if spi_initialized (d port)
         then do { syscall os (Close (spi_fd (d port))); set_dev (upd_spi port (\<lambda>_. zero_spi\<lparr>spi_fd := -1\<rparr>)) }
         else ret ());
        spi_leave os OPRT_OK
      })"

definition tkl_spi_send :: "'w kernel \<Rightarrow> int \<Rightarrow> byte_ptr \<Rightarrow> u32 \<Rightarrow> ('w, spi_dev, OPERATE_RET) prog" where
  "tkl_spi_send os port data sz =
     (if spi_port_bad port then ret OPRT_INVALID_PARM
      else case data of
        None \<Rightarrow> ret OPRT_INVALID_PARM
      | Some bs \<Rightarrow>
        if sz = 0 then ret OPRT_INVALID_PARM
        else do {
          lock os;
          d \<leftarrow> dev;
          if \<not> spi_initialized (d port) then spi_leave os OPRT_COM_ERROR
          else do {
            wr \<leftarrow> syscall os (Write (spi_fd (d port)) (take (unat sz) bs));
            if sr_rc wr < 0
            then do { set_dev (upd_spi port (\<lambda>x. x\<lparr>spi_last_count := 0\<rparr>)); spi_leave os OPRT_COM_ERROR }
            else do { set_dev (upd_spi port (\<lambda>x. x\<lparr>spi_last_count := of_int (sr_rc wr)\<rparr>)); spi_leave os OPRT_OK }
          }
        })"

text \<open>A receive buffer goes in with its contents and comes back with what the kernel stored.\<close>

definition tkl_spi_recv :: "'w kernel \<Rightarrow> int \<Rightarrow> byte_ptr \<Rightarrow> u32 \<Rightarrow> ('w, spi_dev, OPERATE_RET \<times> byte_ptr) prog" where
  "tkl_spi_recv os port data sz =
     (if spi_port_bad port then ret (OPRT_INVALID_PARM, data)
      else case data of
        None \<Rightarrow> ret (OPRT_INVALID_PARM, data)
      | Some bs \<Rightarrow>
        if sz = 0 then ret (OPRT_INVALID_PARM, data)
        else do {
          lock os;
          d \<leftarrow> dev;
          if \<not> spi_initialized (d port) then spi_leave os (OPRT_COM_ERROR, data)
          else do {
            rd \<leftarrow> syscall os (Read (spi_fd (d port)) (unat sz));
            if sr_rc rd < 0
            then do {
              set_dev (upd_spi port (\<lambda>x. x\<lparr>spi_last_count := 0\<rparr>));
              spi_leave os (OPRT_COM_ERROR, Some (store_into bs (sr_data rd)))
            }
            else do {
              set_dev (upd_spi port (\<lambda>x. x\<lparr>spi_last_count := of_int (sr_rc rd)\<rparr>));
              spi_leave os (OPRT_OK, Some (store_into bs (sr_data rd)))
            }
          }
        })"

definition tkl_spi_transfer ::
  "'w kernel \<Rightarrow> int \<Rightarrow> byte_ptr \<Rightarrow> byte_ptr \<Rightarrow> u32 \<Rightarrow> ('w, spi_dev, OPERATE_RET \<times> byte_ptr) prog" where
  "tkl_spi_transfer os port send_buf receive_buf len =
     (if spi_port_bad port then ret (OPRT_INVALID_PARM, receive_buf)
      else if send_buf = None \<or> receive_buf = None \<or> len = 0 then ret (OPRT_INVALID_PARM, receive_buf)
      else do {
        lock os;
        d \<leftarrow> dev;
        if \<not> spi_initialized (d port) then spi_leave os (OPRT_COM_ERROR, receive_buf)
        else do {
          set_dev (upd_spi port (\<lambda>x. x\<lparr>spi_last_count := 0\<rparr>));
          r \<leftarrow> syscall os (Ioctl (spi_fd (d port)) (SPI_IOC_MESSAGE
            [\<lparr>st_tx = map_option (take (unat len)) send_buf, st_rx = True, st_len = len, st_speed_hz = freq_hz (spi_cfg (d port)),
              st_bits_per_word = prv_bits_to_linux (databits (spi_cfg (d port)))\<rparr>]));
          if sr_rc r < 0 then spi_leave os (OPRT_COM_ERROR, map_option (\<lambda>b. store_into b (sr_data r)) receive_buf)
          else do {
            set_dev (upd_spi port (\<lambda>x. x\<lparr>spi_last_count := len\<rparr>));
            spi_leave os (OPRT_OK, map_option (\<lambda>b. store_into b (sr_data r)) receive_buf)
          }
        }
      })"

definition tkl_spi_transfer_with_length ::
  "'w kernel \<Rightarrow> int \<Rightarrow> byte_ptr \<Rightarrow> u32 \<Rightarrow> byte_ptr \<Rightarrow> u32 \<Rightarrow> ('w, spi_dev, OPERATE_RET \<times> byte_ptr) prog" where
  "tkl_spi_transfer_with_length os port send_buf send_len receive_buf receive_len =
     (if spi_port_bad port then ret (OPRT_INVALID_PARM, receive_buf)
      else do {
        lock os;
        d \<leftarrow> dev;
        if \<not> spi_initialized (d port) then spi_leave os (OPRT_COM_ERROR, receive_buf)
        else do {
          set_dev (upd_spi port (\<lambda>x. x\<lparr>spi_last_count := 0\<rparr>));
          if send_len = 0 \<and> receive_len = 0 then spi_leave os (OPRT_INVALID_PARM, receive_buf)
          else if receive_len = 0
          then do { unlock os; r \<leftarrow> tkl_spi_send os port send_buf send_len; ret (r, receive_buf) }
          else if send_len = 0
          then do { unlock os; tkl_spi_recv os port receive_buf receive_len }
          else let speed = freq_hz (spi_cfg (d port)); bits = prv_bits_to_linux (databits (spi_cfg (d port))) in do {
            r \<leftarrow> syscall os (Ioctl (spi_fd (d port)) (SPI_IOC_MESSAGE
              [\<lparr>st_tx = map_option (take (unat send_len)) send_buf, st_rx = False, st_len = send_len, st_speed_hz = speed, st_bits_per_word = bits\<rparr>,
               \<lparr>st_tx = None, st_rx = receive_buf \<noteq> None, st_len = receive_len, st_speed_hz = speed, st_bits_per_word = bits\<rparr>]));
            if sr_rc r < 0 then spi_leave os (OPRT_COM_ERROR, map_option (\<lambda>b. store_into b (sr_data r)) receive_buf)
            else do {
              set_dev (upd_spi port (\<lambda>x. x\<lparr>spi_last_count := send_len + receive_len\<rparr>));
              spi_leave os (OPRT_OK, map_option (\<lambda>b. store_into b (sr_data r)) receive_buf)
            }
          }
        }
      })"

definition tkl_spi_get_data_count :: "'w kernel \<Rightarrow> int \<Rightarrow> ('w, spi_dev, int) prog" where
  "tkl_spi_get_data_count os port =
     (if spi_port_bad port then ret (-1)
      else do {
        lock os;
        d \<leftarrow> dev;
        spi_leave os (sint (spi_last_count (d port)))
      })"

text \<open>The remaining entry points; the status has three flags, all cleared.\<close>

definition tkl_spi_abort_transfer :: "int \<Rightarrow> OPERATE_RET" where
  "tkl_spi_abort_transfer port = OPRT_OK"

definition tkl_spi_get_status :: "int \<Rightarrow> bool list option \<Rightarrow> OPERATE_RET \<times> bool list option" where
  "tkl_spi_get_status port status =
     (case status of None \<Rightarrow> (OPRT_INVALID_PARM, None) | Some _ \<Rightarrow> (OPRT_OK, Some (replicate 3 False)))"

definition tkl_spi_irq_init :: "int \<Rightarrow> 'cb \<Rightarrow> OPERATE_RET" where
  "tkl_spi_irq_init port cb = OPRT_NOT_SUPPORTED"

definition tkl_spi_irq_enable :: "int \<Rightarrow> OPERATE_RET" where
  "tkl_spi_irq_enable port = OPRT_NOT_SUPPORTED"

definition tkl_spi_irq_disable :: "int \<Rightarrow> OPERATE_RET" where
  "tkl_spi_irq_disable port = OPRT_NOT_SUPPORTED"

definition tkl_spi_ioctl :: "int \<Rightarrow> u32 \<Rightarrow> 'arg \<Rightarrow> OPERATE_RET" where
  "tkl_spi_ioctl port cmd args = OPRT_NOT_SUPPORTED"

definition tkl_spi_get_max_dma_data_length :: u32 where
  "tkl_spi_get_max_dma_data_length = 0"

section \<open>Invariant and descriptors\<close>

definition spi_ok :: "spi_dev \<Rightarrow> bool" where
  "spi_ok d \<longleftrightarrow> (\<forall>port. (spi_port_bad port \<longrightarrow> d port = zero_spi)
     \<and> (spi_initialized (d port) \<longrightarrow> spi_role (spi_cfg (d port)) \<in> {TUYA_SPI_ROLE_MASTER, TUYA_SPI_ROLE_MASTER_SIMPLEX}))"

definition spi_fds :: "spi_dev \<Rightarrow> int \<rightharpoonup> int" where
  "spi_fds d port = (if spi_initialized (d port) then Some (spi_fd (d port)) else None)"

definition spi_start :: spi_dev where
  "spi_start = (\<lambda>_. zero_spi)"

interpretation spi: fd_owner spi_fds spi_ok spi_start
  by unfold_locales (simp_all add: spi_fds_def spi_ok_def spi_start_def zero_spi_def fun_eq_iff)

lemma apply_cfg_acc:
  assumes "spi.acc xs s" "\<And>r s'. m_dev s' = m_dev s \<Longrightarrow> depth s' = depth s \<Longrightarrow> spi.acc xs s' \<Longrightarrow> Q r s'"
  shows "wp (prv_apply_cfg os f c) Q s"
  unfolding prv_apply_cfg_def
  by (intro wp_bind wp_if wp_return spi.wp_acc_call [where xs = xs] assms) (auto intro: assms)

lemma spi_leave_acc:
  assumes "spi.acc [] s" "\<And>s'. m_dev s' = m_dev s \<Longrightarrow> depth s' = depth s - 1 \<Longrightarrow> spi.acc [] s' \<Longrightarrow> Q r s'"
  shows "wp (spi_leave os r) Q s"
  unfolding spi_leave_def by (rule wp_bind, rule spi.wp_unlock_acc [OF assms(1)], rule wp_return, rule assms(2))

lemma spi_acc_upd:
  assumes "spi.acc [] s" "\<forall>p. spi_fd (d' p) = spi_fd (m_dev s p) \<and> spi_initialized (d' p) = spi_initialized (m_dev s p)
    \<and> spi_cfg (d' p) = spi_cfg (m_dev s p) \<and> (spi_port_bad p \<longrightarrow> d' p = m_dev s p)"
  shows "spi.acc [] (s\<lparr>m_dev := d'\<rparr>)"
  using assms spi.acc_ok [OF assms(1)] by (intro spi.acc_same) (auto simp: spi_fds_def spi_ok_def fun_eq_iff)

lemma spi_acc_open:
  assumes "spi.acc [r] s" "m_dev s = d" "\<not> spi_port_bad port" "\<not> spi_initialized (d port)" "spi_fd (f (d port)) = r"
    "spi_initialized (f (d port))" "spi_role (spi_cfg (f (d port))) \<in> {TUYA_SPI_ROLE_MASTER, TUYA_SPI_ROLE_MASTER_SIMPLEX}"
  shows "spi.acc [] (s\<lparr>m_dev := upd_spi port f d\<rparr>)"
  using assms spi.acc_ok [OF assms(1)]
  by (intro spi.acc_store [OF assms(1), of port]) (auto simp: spi_fds_def spi_ok_def fun_eq_iff)

lemma spi_acc_close:
  assumes "spi.acc [] s" "\<not> spi_port_bad port" "spi_initialized (m_dev s port)" "\<And>s'. spi.acc [] s' \<Longrightarrow> depth s' = depth s \<Longrightarrow> Q () s'"
  shows "wp (State_Monad.bind (syscall os (Close (spi_fd (m_dev s port)))) (\<lambda>_. set_dev (upd_spi port (\<lambda>_. zero_spi\<lparr>spi_fd := -1\<rparr>)))) Q s"
  using assms spi.acc_ok [OF assms(1)]
  by (intro spi.wp_close_held [OF assms(1), of port]) (auto simp: spi_fds_def spi_ok_def fun_eq_iff zero_spi_def)

lemmas spi_wp = wp_bind wp_return wp_if wp_case_option wp_let wp_dev wp_set_dev
  spi.wp_lock_acc [where xs = "[]"] spi.wp_unlock_acc [where xs = "[]"] spi_leave_acc spi.wp_acc_call [where xs = "[]"]

lemma spi_safe_init:
  fixes os :: "'w kernel"
  shows "spi.safe (tkl_spi_init os port c)"
proof -
  have "wp (State_Monad.bind (prv_apply_cfg os f c) (\<lambda>rt. if rt \<noteq> OPRT_OK then State_Monad.bind (syscall os (Close f)) (\<lambda>_. spi_leave os rt)
      else State_Monad.bind (set_dev (upd_spi port (\<lambda>x. x\<lparr>spi_fd := f, spi_initialized := True, spi_last_count := 0, spi_cfg := c\<rparr>)))
        (\<lambda>_. spi_leave os OPRT_OK))) (\<lambda>r s'. spi.acc [] s' \<and> depth s' = n) s"
    if "spi.acc [f] s" "\<not> spi_port_bad port" "\<not> spi_initialized (m_dev s port)" "depth s = n + 1"
      "spi_role c \<in> {TUYA_SPI_ROLE_MASTER, TUYA_SPI_ROLE_MASTER_SIMPLEX}" for f c n and s :: "('w, spi_dev) machine"
  proof (rule wp_bind, rule apply_cfg_acc [OF that(1)], rule wp_if)
    fix r and s' :: "('w, spi_dev) machine"
    assume s': "m_dev s' = m_dev s" "depth s' = depth s" "spi.acc [f] s'"
    show "wp (State_Monad.bind (syscall os (Close f)) (\<lambda>_. spi_leave os r)) (\<lambda>r s'. spi.acc [] s' \<and> depth s' = n) s'"
      using s' that(4) by (intro wp_bind, elim spi.wp_close_first) (auto intro!: spi_leave_acc)
    show "wp (State_Monad.bind (set_dev (upd_spi port (\<lambda>x. x\<lparr>spi_fd := f, spi_initialized := True, spi_last_count := 0, spi_cfg := c\<rparr>)))
        (\<lambda>_. spi_leave os OPRT_OK)) (\<lambda>r s'. spi.acc [] s' \<and> depth s' = n) s'"
      using s' that by (intro wp_bind wp_set_dev spi_leave_acc spi_acc_open) auto
  qed
  note body = this
  show ?thesis unfolding spi.safe_def tkl_spi_init_def
    by (intro allI impI wp_case_option wp_if wp_return wp_bind [of "lock os"] wp_bind [of dev] wp_dev wp_bind [of "syscall os (Open _)"]
        spi.wp_lock_acc [where xs = "[]"] spi_leave_acc spi.wp_acc_call [where xs = "[]"] body) auto
qed

lemma spi_safe_deinit:
  fixes os :: "'w kernel"
  shows "spi.safe (tkl_spi_deinit os port)"
  unfolding spi.safe_def tkl_spi_deinit_def
  by (intro allI impI wp_if wp_return wp_bind [of "lock os"] wp_bind [of dev] wp_dev wp_bind [of "if _ then _ else _"]
      spi.wp_lock_acc [where xs = "[]"] spi_leave_acc spi_acc_close) auto

lemma spi_safe_send: "spi.safe (tkl_spi_send os port b n)"
  unfolding spi.safe_def tkl_spi_send_def
  by (intro allI impI spi_wp) (auto intro!: spi_acc_upd split: if_splits)

lemma spi_safe_recv: "spi.safe (tkl_spi_recv os port b n)"
  unfolding spi.safe_def tkl_spi_recv_def
  by (intro allI impI spi_wp) (auto intro!: spi_acc_upd split: if_splits)

lemma spi_safe_transfer: "spi.safe (tkl_spi_transfer os port b c n)"
  unfolding spi.safe_def tkl_spi_transfer_def
  by (intro allI impI spi_wp) (auto intro!: spi_acc_upd split: if_splits)

lemma spi_safe_transfer_with_length: "spi.safe (tkl_spi_transfer_with_length os port b n c k)"
  unfolding spi.safe_def tkl_spi_transfer_with_length_def
  by (intro allI impI spi_wp spi.wp_safe [OF spi_safe_send] spi.wp_safe [OF spi_safe_recv]) (auto intro!: spi_acc_upd split: if_splits)

lemma spi_safe_count: "spi.safe (tkl_spi_get_data_count os port)"
  unfolding spi.safe_def tkl_spi_get_data_count_def by (intro allI impI spi_wp) auto

section \<open>Sessions\<close>

datatype spi_op =
    S_Init int "TUYA_SPI_BASE_CFG_T option"
  | S_Deinit int
  | S_Send int byte_ptr u32
  | S_Recv int byte_ptr u32
  | S_Transfer int byte_ptr byte_ptr u32
  | S_Transfer_With_Length int byte_ptr u32 byte_ptr u32
  | S_Count int

fun spi_exec :: "'w kernel \<Rightarrow> spi_op \<Rightarrow> ('w, spi_dev, unit) prog" where
  "spi_exec os (S_Init port c) = do { tkl_spi_init os port c; ret () }"
| "spi_exec os (S_Deinit port) = do { tkl_spi_deinit os port; ret () }"
| "spi_exec os (S_Send port b n) = do { tkl_spi_send os port b n; ret () }"
| "spi_exec os (S_Recv port b n) = do { tkl_spi_recv os port b n; ret () }"
| "spi_exec os (S_Transfer port b c n) = do { tkl_spi_transfer os port b c n; ret () }"
| "spi_exec os (S_Transfer_With_Length port b n c k) = do { tkl_spi_transfer_with_length os port b n c k; ret () }"
| "spi_exec os (S_Count port) = do { tkl_spi_get_data_count os port; ret () }"

interpretation spi_driver: fd_driver spi_fds spi_ok spi_start spi_exec
proof
  show "spi.safe (spi_exec os x)" for os :: "'w kernel" and x
    by (cases x) (auto intro!: spi.safe_bind spi.safe_return spi_safe_init spi_safe_deinit spi_safe_send spi_safe_recv spi_safe_transfer
        spi_safe_transfer_with_length spi_safe_count)
qed

abbreviation spi_boot :: "'w \<Rightarrow> ('w, spi_dev) machine" where
  "spi_boot w \<equiv> \<lparr>m_os = w, m_log = [], m_dev = spi_start\<rparr>"

text \<open>
  For every kernel and every sequence of SPI calls, failing ones included, an initialised port is a
  master, contexts outside the array are untouched and the mutex is free; if the kernel hands out
  only unused descriptors, those left open are exactly the descriptors of the initialised ports,
  each once, and none was closed twice, also when the configuration of a port is rejected.
\<close>

theorem spi_session_accounted:
  assumes "run_state (run_ops (spi_exec os) ops) (spi_boot w) = (rs, s)"
  shows "(\<forall>port. (spi_initialized (m_dev s port) \<longrightarrow> \<not> spi_port_bad port
        \<and> spi_role (spi_cfg (m_dev s port)) \<in> {TUYA_SPI_ROLE_MASTER, TUYA_SPI_ROLE_MASTER_SIMPLEX})
      \<and> (spi_port_bad port \<longrightarrow> m_dev s port = zero_spi))
    \<and> held (m_log s) = 0 \<and> (fds_fresh (m_log s) \<longrightarrow> balanced (spi_fds (m_dev s)) (m_log s))"
proof -
  note a = spi_driver.session_accounted [OF assms]
  have "\<not> spi_port_bad port" if "spi_initialized (m_dev s port)" for port
    using a(1) that by (auto simp: spi_ok_def zero_spi_def dest!: spec [of _ port])
  then show ?thesis using a by (auto simp: spi_ok_def)
qed

section \<open>A write followed by a read\<close>

lemmas spi_run_defs = tkl_spi_transfer_with_length_def tkl_spi_send_def tkl_spi_recv_def lock_def unlock_def spi_leave_def syscall_def
  dev_def set_dev_def Let_def

lemma spi_combined:
  assumes "run_state (tkl_spi_transfer_with_length os port sb n rb k) s = ((r, b), s')" "\<not> spi_port_bad port"
    "spi_initialized (m_dev s port)" "n \<noteq> 0" "k \<noteq> 0"
  shows "\<exists>lk rep ul. m_log s' = [(Unlock, ul), (Ioctl (spi_fd (m_dev s port)) (SPI_IOC_MESSAGE
        [\<lparr>st_tx = map_option (take (unat n)) sb, st_rx = False, st_len = n, st_speed_hz = freq_hz (spi_cfg (m_dev s port)),
            st_bits_per_word = prv_bits_to_linux (databits (spi_cfg (m_dev s port)))\<rparr>,
         \<lparr>st_tx = None, st_rx = rb \<noteq> None, st_len = k, st_speed_hz = freq_hz (spi_cfg (m_dev s port)),
            st_bits_per_word = prv_bits_to_linux (databits (spi_cfg (m_dev s port)))\<rparr>]), rep), (Lock, lk)] @ m_log s
    \<and> (r, b) = (if sr_rc rep < 0 then OPRT_COM_ERROR else OPRT_OK, map_option (\<lambda>x. store_into x (sr_data rep)) rb)
    \<and> spi_last_count (m_dev s' port) = (if sr_rc rep < 0 then 0 else n + k)"
    (is "\<exists>lk rep ul. m_log s' = [_, (?c, rep), _] @ _ \<and> _")
proof -
  obtain lk w1 where 1: "os (m_os s) Lock = (lk, w1)" by (metis surj_pair)
  obtain rep w2 where 2: "os w1 ?c = (rep, w2)" by (metis surj_pair)
  obtain ul w3 where 3: "os w2 Unlock = (ul, w3)" by (metis surj_pair)
  show ?thesis using assms 1 2 3 by (intro exI [of _ lk] exI [of _ rep] exI [of _ ul]) (auto simp: spi_run_defs split: if_splits)
qed

lemma spi_send_run:
  assumes "\<not> spi_port_bad port" "spi_initialized (m_dev s port)" "n \<noteq> 0" "os (m_os s) Lock = (l, w1)"
    "os w1 (Write (spi_fd (m_dev s port)) (take (unat n) sb)) = (rep, w2)" "os w2 Unlock = (u, w3)"
  shows "run_state (tkl_spi_send os port (Some sb) n) s = (if sr_rc rep < 0 then OPRT_COM_ERROR else OPRT_OK,
    s\<lparr>m_os := w3, m_log := [(Unlock, u), (Write (spi_fd (m_dev s port)) (take (unat n) sb), rep), (Lock, l)] @ m_log s,
      m_dev := upd_spi port (\<lambda>x. x\<lparr>spi_last_count := (if sr_rc rep < 0 then 0 else of_int (sr_rc rep))\<rparr>) (m_dev s)\<rparr>)"
  using assms by (simp add: tkl_spi_send_def lock_def unlock_def spi_leave_def syscall_def dev_def set_dev_def)

lemma spi_write_only:
  assumes "run_state (tkl_spi_transfer_with_length os port (Some sb) n rb 0) s = ((r, b), s')" "\<not> spi_port_bad port"
    "spi_initialized (m_dev s port)" "n \<noteq> 0"
  shows "\<exists>l1 u1 l2 rep u2. m_log s' = [(Unlock, u2), (Write (spi_fd (m_dev s port)) (take (unat n) sb), rep), (Lock, l2), (Unlock, u1), (Lock, l1)] @ m_log s
    \<and> (r, b) = (if sr_rc rep < 0 then OPRT_COM_ERROR else OPRT_OK, rb)
    \<and> spi_last_count (m_dev s' port) = (if sr_rc rep < 0 then 0 else of_int (sr_rc rep))"
proof -
  obtain l1 w1 where 1: "os (m_os s) Lock = (l1, w1)" by (metis surj_pair)
  obtain u1 w2 where 2: "os w1 Unlock = (u1, w2)" by (metis surj_pair)
  obtain l2 w3 where 3: "os w2 Lock = (l2, w3)" by (metis surj_pair)
  obtain rep w4 where 4: "os w3 (Write (spi_fd (m_dev s port)) (take (unat n) sb)) = (rep, w4)" by (metis surj_pair)
  obtain u2 w5 where 5: "os w4 Unlock = (u2, w5)" by (metis surj_pair)
  let ?s = "s\<lparr>m_dev := upd_spi port (\<lambda>x. x\<lparr>spi_last_count := 0\<rparr>) (m_dev s), m_os := w2, m_log := [(Unlock, u1), (Lock, l1)] @ m_log s\<rparr>"
  have t: "run_state (tkl_spi_transfer_with_length os port (Some sb) n rb 0) s = (case run_state (tkl_spi_send os port (Some sb) n) ?s of (r, s') \<Rightarrow> ((r, rb), s'))"
    using assms(2-4) 1 2 by (simp add: tkl_spi_transfer_with_length_def lock_def unlock_def syscall_def dev_def set_dev_def)
  let ?s' = "?s\<lparr>m_os := w5, m_log := [(Unlock, u2), (Write (spi_fd (m_dev ?s port)) (take (unat n) sb), rep), (Lock, l2)] @ m_log ?s,
      m_dev := upd_spi port (\<lambda>x. x\<lparr>spi_last_count := (if sr_rc rep < 0 then 0 else of_int (sr_rc rep))\<rparr>) (m_dev ?s)\<rparr>"
  have u: "run_state (tkl_spi_send os port (Some sb) n) ?s = (if sr_rc rep < 0 then OPRT_COM_ERROR else OPRT_OK, ?s')"
    by (rule spi_send_run) (use assms(2-4) 3 4 5 in simp_all)
  have "(r, b) = (if sr_rc rep < 0 then OPRT_COM_ERROR else OPRT_OK, rb)" "s' = ?s'"
    using assms(1) unfolding t u prod.case by (elim Pair_inject, simp only:)+
  then show ?thesis
    by (intro exI [of _ l1] exI [of _ u1] exI [of _ l2] exI [of _ rep] exI [of _ u2]) simp
qed

text \<open>
  On an initialised port, \<open>tkl_spi_transfer_with_length\<close> with both lengths positive makes exactly one
  bus call under the mutex, which sends the bytes of the first buffer and then reads into the
  second at the configured speed and word size; with a zero receive length it makes exactly one
  write.  Success and the data count follow the reply of the kernel; the count of a combined
  transfer is the sum of the lengths in 32 bits.
\<close>

theorem spi_write_then_read:
  assumes "run_state (tkl_spi_transfer_with_length os port (Some sb) n (Some rb) k) s = ((r, b), s')"
    and "\<not> spi_port_bad port" "spi_initialized (m_dev s port)" "n \<noteq> 0"
  defines "c \<equiv> spi_cfg (m_dev s port)" and "f \<equiv> spi_fd (m_dev s port)"
  defines "t \<equiv> \<lambda>tx rx l. \<lparr>st_tx = tx, st_rx = rx, st_len = l, st_speed_hz = freq_hz c, st_bits_per_word = prv_bits_to_linux (databits c)\<rparr>"
  defines "call \<equiv> if k = 0 then Write f (take (unat n) sb) else Ioctl f (SPI_IOC_MESSAGE [t (Some (take (unat n) sb)) False n, t None True k])"
  shows "\<exists>log rep. m_log s' = log @ m_log s \<and> filter (\<lambda>x. fst x \<notin> {Lock, Unlock}) log = [(call, rep)] \<and> held log = 0
    \<and> r = (if sr_rc rep < 0 then OPRT_COM_ERROR else OPRT_OK)
    \<and> b = Some (if k = 0 then rb else store_into rb (sr_data rep))
    \<and> unat (spi_last_count (m_dev s' port)) = (if sr_rc rep < 0 then 0 else if k = 0 then nat (sr_rc rep) mod 2 ^ 32 else (unat n + unat k) mod 2 ^ 32)"
proof (cases "k = 0")
  case True
  obtain l1 u1 l2 rep u2 where w: "m_log s' = [(Unlock, u2), (Write f (take (unat n) sb), rep), (Lock, l2), (Unlock, u1), (Lock, l1)] @ m_log s"
    "(r, b) = (if sr_rc rep < 0 then OPRT_COM_ERROR else OPRT_OK, Some rb)"
    "spi_last_count (m_dev s' port) = (if sr_rc rep < 0 then 0 else of_int (sr_rc rep))"
    using spi_write_only [OF assms(1) [unfolded True] assms(2-4)] unfolding f_def by blast
  have "unat (of_int (sr_rc rep) :: u32) = nat (sr_rc rep) mod 2 ^ 32" if "\<not> sr_rc rep < 0"
    using that by (simp add: uint_word_of_int nat_mod_distrib flip: nat_uint_eq)
  then show ?thesis unfolding w(1) using True w(2,3)
    by (intro exI [of _ "[(Unlock, u2), (Write f (take (unat n) sb), rep), (Lock, l2), (Unlock, u1), (Lock, l1)]"] exI [of _ rep])
      (simp add: call_def)
next
  case False
  let ?c = "Ioctl f (SPI_IOC_MESSAGE [t (Some (take (unat n) sb)) False n, t None True k])"
  obtain lk rep ul where w: "m_log s' = [(Unlock, ul), (?c, rep), (Lock, lk)] @ m_log s"
    "(r, b) = (if sr_rc rep < 0 then OPRT_COM_ERROR else OPRT_OK, Some (store_into rb (sr_data rep)))"
    "spi_last_count (m_dev s' port) = (if sr_rc rep < 0 then 0 else n + k)"
    using spi_combined [OF assms(1-4) False] unfolding f_def t_def c_def by auto
  show ?thesis unfolding w(1) using False w(2,3)
    by (intro exI [of _ "[(Unlock, ul), (?c, rep), (Lock, lk)]"] exI [of _ rep]) (simp add: call_def unat_word_ariths)
qed

text \<open>A bus on which every call succeeds.\<close>

definition spi_yes_kernel :: "int kernel" where
  "spi_yes_kernel n c = (reply n 0 [9], n)"

definition demo_spi :: TUYA_SPI_BASE_CFG_T where
  "demo_spi = \<lparr>spi_role = TUYA_SPI_ROLE_MASTER, spi_mode = TUYA_SPI_MODE3, spi_type = TUYA_SPI_AUTO_TYPE,
     databits = TUYA_SPI_DATA_BIT8, bitorder = TUYA_SPI_ORDER_MSB2LSB, freq_hz = 1000000, spi_dma_flags = 0\<rparr>"

theorem spi_session_accounted_witness:
  "\<exists>rs s. run_state (run_ops (spi_exec spi_yes_kernel) [S_Init 2 (Some demo_spi)]) (spi_boot 4) = (rs, s)
     \<and> spi_initialized (m_dev s 2) \<and> held (m_log s) = 0 \<and> fds_fresh (m_log s) \<and> balanced (spi_fds (m_dev s)) (m_log s)"
proof -
  obtain rs s where r: "run_state (run_ops (spi_exec spi_yes_kernel) [S_Init 2 (Some demo_spi)]) (spi_boot 4) = (rs, s)"
    by (metis surj_pair)
  have "spi_initialized (m_dev s 2) \<and> fds_fresh (m_log s)" using r
    by (auto simp: tkl_spi_init_def spi_run_defs spi_start_def zero_spi_def spi_yes_kernel_def demo_spi_def spi_port_bad_def
        TUYA_SPI_NUM_MAX_def TKL_SPI_MAX_PORT_def prv_apply_cfg_def)
  then show ?thesis using spi_session_accounted [OF r] r by blast
qed

theorem spi_write_then_read_witness:
  "\<exists>s s' b. run_state (tkl_spi_transfer_with_length spi_yes_kernel 2 (Some [1]) 1 (Some [0, 0]) 2) s = ((OPRT_OK, b), s')
     \<and> b = Some [9, 0] \<and> unat (spi_last_count (m_dev s' 2)) = 3"
proof -
  let ?s = "\<lparr>m_os = 4, m_log = [], m_dev = (\<lambda>_. zero_spi\<lparr>spi_fd := 7, spi_initialized := True, spi_cfg := demo_spi\<rparr>)\<rparr>"
  obtain r b s' where r: "run_state (tkl_spi_transfer_with_length spi_yes_kernel 2 (Some [1]) 1 (Some [0, 0]) 2) ?s = ((r, b), s')"
    by (metis surj_pair)
  have p: "\<not> spi_port_bad 2" by (simp add: spi_port_bad_def TUYA_SPI_NUM_MAX_def TKL_SPI_MAX_PORT_def)
  have ok: "r = OPRT_OK" using r p by (auto simp: spi_run_defs spi_yes_kernel_def)
  then have "b = Some [9, 0]" using r p by (auto simp: spi_run_defs spi_yes_kernel_def store_into_def)
  moreover have "unat (spi_last_count (m_dev s' 2)) = 3" using spi_write_then_read [OF r p] ok by (auto split: if_splits)
  ultimately show ?thesis using r ok by blast
qed

end
