(* ===== verification/C_Stdio.thy ===== *)
theory C_Stdio
  imports Tuya_Prelude "HOL-Library.Monad_Syntax" "HOL-Library.AList" "HOL-Library.Sublist"
begin

text \<open>
  The C library's files, as far as \<open>tkl_fs.c\<close>, \<open>tkl_flash.c\<close> and \<open>tkl_ota.c\<close> use them: paths, the
  kernel's files, and buffered streams.
  A regular file has two contents: what the kernel holds, which every process sees, and what is on
  the medium, which \<open>fsync\<close> brings up to date.  A stream adds the bytes written to it that are still
  in its buffer.  A crash of the process loses the buffers, a loss of power the kernel's contents
  too.
  Paths are compared as strings: there are no links, \<open>.\<close> is the only relative directory, and a
  path does not end in a slash.  \<open>fs_allow\<close> is what the permissions grant, \<open>fs_room\<close> by how many
  bytes files may still grow, \<open>fs_bufsiz\<close> the size of a stream buffer.
  A stream is a number, 0 the null pointer; numbers are not used again, so that a use after
  \<open>fclose\<close> is visible.  An operation gives \<open>None\<close> where C leaves the behaviour undefined.
\<close>

section \<open>Files\<close>

text \<open>Permission bits, and for a regular file the kernel's content and that of the medium.\<close>

datatype node = Dir u32 | Reg u32 bytes bytes

text \<open>The last operation of a stream: C forbids some successions.\<close>

datatype direction = Idle | Reading | Writing

record stream =
  st_ino :: nat
  st_rd :: bool
  st_wr :: bool
  st_app :: bool
  st_pos :: nat
  st_pend :: bytes
  st_eof :: bool
  st_err :: bool
  st_last :: direction
  st_cloexec :: bool

text \<open>
  The type of a directory entry, \<open>d_type\<close>: a file system that does not record it (\<open>fs_types\<close> is false)
  answers \<open>DT_UNKNOWN\<close>.
\<close>

datatype d_type = DT_UNKNOWN | DT_FIFO | DT_CHR | DT_DIR | DT_BLK | DT_REG | DT_LNK | DT_SOCK

record fs =
  fs_names :: "(string \<times> nat) list"
  fs_nodes :: "nat \<rightharpoonup> node"
  fs_next_ino :: nat
  fs_streams :: "nat \<rightharpoonup> stream"
  fs_dirs :: "nat \<rightharpoonup> (string \<times> d_type) list"
  fs_next :: nat
  fs_room :: nat
  fs_bufsiz :: nat
  fs_umask :: u32
  fs_allow :: "string \<Rightarrow> u32 \<Rightarrow> bool"
  fs_types :: bool

text \<open>Conversions to C types: \<open>size_t\<close> of an \<open>int\<close>, and the \<open>int\<close> of a larger number.\<close>

definition c_size :: "int \<Rightarrow> nat" where "c_size n = nat (n mod 2 ^ 64)"
definition c_int :: "int \<Rightarrow> int" where "c_int n = signed_take_bit 31 n"

text \<open>The bytes of a file after writing \<open>d\<close> at \<open>pos\<close>; a gap is filled with zeros.\<close>

definition overlay :: "bytes \<Rightarrow> nat \<Rightarrow> bytes \<Rightarrow> bytes" where
  "overlay old pos d =
     (if d = [] then old else take pos (old @ replicate (pos - length old) 0) @ d @ drop (pos + length d) old)"

definition node_of :: "fs \<Rightarrow> string \<Rightarrow> node option" where
  "node_of s p = do { i \<leftarrow> map_of (fs_names s) p; fs_nodes s i }"

definition content :: "fs \<Rightarrow> nat \<Rightarrow> bytes" where
  "content s i = (case fs_nodes s i of Some (Reg perm c d) \<Rightarrow> c | _ \<Rightarrow> [])"

definition dirname :: "string \<Rightarrow> string" where
  "dirname p = (if CHR ''/'' \<in> set p then rev (tl (dropWhile (\<lambda>c. c \<noteq> CHR ''/'') (rev p))) else ''.'')"

definition basename :: "string \<Rightarrow> string" where
  "basename p = rev (takeWhile (\<lambda>c. c \<noteq> CHR ''/'') (rev p))"

definition dir_ok :: "fs \<Rightarrow> string \<Rightarrow> bool" where
  "dir_ok s p \<longleftrightarrow> p = ''.'' \<or> p = [] \<or> (case node_of s p of Some (Dir perm) \<Rightarrow> True | _ \<Rightarrow> False)"

definition add_node :: "fs \<Rightarrow> string \<Rightarrow> node \<Rightarrow> fs" where
  "add_node s p n =
     s\<lparr>fs_names := fs_names s @ [(p, fs_next_ino s)], fs_nodes := (fs_nodes s)(fs_next_ino s \<mapsto> n),
       fs_next_ino := fs_next_ino s + 1\<rparr>"

definition c_mkdir :: "fs \<Rightarrow> string \<Rightarrow> u32 \<Rightarrow> int \<times> fs" where
  "c_mkdir s p mode =
     (if node_of s p \<noteq> None \<or> \<not> dir_ok s (dirname p) \<or> \<not> fs_allow s (dirname p) 2 then (-1, s)
      else (0, add_node s p (Dir (mode AND NOT (fs_umask s)))))"

definition under :: "string \<Rightarrow> string \<Rightarrow> bool" where
  "under p q \<longleftrightarrow> prefix (p @ ''/'') q"

text \<open>An unlinked file lives on while a stream has it open: only the name goes.\<close>

definition c_remove :: "fs \<Rightarrow> string \<Rightarrow> int \<times> fs" where
  "c_remove s p =
     (case node_of s p of
        None \<Rightarrow> (-1, s)
      | Some (Dir perm) \<Rightarrow>
          if (\<exists>q \<in> set (map fst (fs_names s)). under p q) \<or> \<not> fs_allow s (dirname p) 2 then (-1, s)
          else (0, s\<lparr>fs_names := AList.delete p (fs_names s)\<rparr>)
      | Some (Reg perm c d) \<Rightarrow>
          if fs_allow s (dirname p) 2 then (0, s\<lparr>fs_names := AList.delete p (fs_names s)\<rparr>) else (-1, s))"

definition same_kind :: "node \<Rightarrow> node \<Rightarrow> bool" where
  "same_kind a b \<longleftrightarrow> (case (a, b) of (Dir x, Dir y) \<Rightarrow> True | (Reg x c d, Reg y e f) \<Rightarrow> True | _ \<Rightarrow> False)"

definition rename_path :: "string \<Rightarrow> string \<Rightarrow> string \<Rightarrow> string" where
  "rename_path old new q = (if q = old then new else if under old q then new @ drop (length old) q else q)"

text \<open>\<open>rename\<close> replaces an existing target of the same kind, a directory only if it is empty.\<close>

definition c_rename :: "fs \<Rightarrow> string \<Rightarrow> string \<Rightarrow> int \<times> fs" where
  "c_rename s old new =
     (case node_of s old of
        None \<Rightarrow> (-1, s)
      | Some n \<Rightarrow>
          if old = new then (0, s)
          else if under old new \<or> \<not> dir_ok s (dirname new) \<or> \<not> fs_allow s (dirname old) 2 \<or> \<not> fs_allow s (dirname new) 2
          then (-1, s)
          else if (\<exists>q \<in> set (map fst (fs_names s)). under new q) then (-1, s)
          else if (case node_of s new of None \<Rightarrow> False | Some n' \<Rightarrow> \<not> same_kind n n') then (-1, s)
          else (0, s\<lparr>fs_names := map (\<lambda>(q, i). (rename_path old new q, i)) (AList.delete new (fs_names s))\<rparr>))"

text \<open>\<open>F_OK\<close> is 0, \<open>R_OK\<close> 4, \<open>W_OK\<close> 2, \<open>X_OK\<close> 1; other modes are invalid.\<close>

definition c_access :: "fs \<Rightarrow> string \<Rightarrow> int \<Rightarrow> int" where
  "c_access s p mode =
     (if node_of s p = None \<or> mode < 0 \<or> 7 < mode then -1
      else if mode = 0 \<or> fs_allow s p (of_int mode) then 0 else -1)"

text \<open>\<open>st_mode\<close> and \<open>st_size\<close> of \<open>stat\<close>; the size of a directory is taken as 0.\<close>

definition c_stat :: "fs \<Rightarrow> string \<Rightarrow> (u32 \<times> nat) option" where
  "c_stat s p =
     (case node_of s p of
        None \<Rightarrow> None
      | Some (Dir perm) \<Rightarrow> Some (0x4000 OR perm, 0)
      | Some (Reg perm c d) \<Rightarrow> Some (0x8000 OR perm, length c))"

section \<open>The kernel's view of a file\<close>

text \<open>A write at an offset: as many bytes as the room allows.\<close>

definition fit :: "fs \<Rightarrow> nat \<Rightarrow> nat \<Rightarrow> nat \<Rightarrow> nat" where
  "fit s i pos n = min n (length (content s i) + fs_room s - pos)"

definition set_content :: "fs \<Rightarrow> nat \<Rightarrow> bytes \<Rightarrow> fs" where
  "set_content s i c =
     (case fs_nodes s i of
        Some (Reg perm c0 d) \<Rightarrow>
          s\<lparr>fs_nodes := (fs_nodes s)(i \<mapsto> Reg perm c d), fs_room := fs_room s + length c0 - length c\<rparr>
      | _ \<Rightarrow> s)"

definition kwrite :: "fs \<Rightarrow> nat \<Rightarrow> nat \<Rightarrow> bytes \<Rightarrow> nat \<times> fs" where
  "kwrite s i pos d =
     (let n = fit s i pos (length d) in (n, set_content s i (overlay (content s i) pos (take n d))))"

definition c_fsync :: "fs \<Rightarrow> int \<Rightarrow> int \<times> fs" where
  "c_fsync s fd =
     (case fs_streams s (nat fd) of
        None \<Rightarrow> (-1, s)
      | Some st \<Rightarrow>
          if fd < 0 then (-1, s)
          else case fs_nodes s (st_ino st) of
                 Some (Reg perm c d) \<Rightarrow> (0, s\<lparr>fs_nodes := (fs_nodes s)(st_ino st \<mapsto> Reg perm c c)\<rparr>)
               | _ \<Rightarrow> (0, s))"

definition c_ftruncate :: "fs \<Rightarrow> int \<Rightarrow> u64 \<Rightarrow> int \<times> fs" where
  "c_ftruncate s fd len =
     (case fs_streams s (nat fd) of
        None \<Rightarrow> (-1, s)
      | Some st \<Rightarrow>
          let c = content s (st_ino st); n = unat len
          in if fd < 0 \<or> sint len < 0 \<or> \<not> st_wr st \<or> length c + fs_room s < n then (-1, s)
             else (0, set_content s (st_ino st) (take n c @ replicate (n - length c) 0)))"

text \<open>
  What is left when the process dies, and when the power fails.  The power failure takes away the
  contents that were not synchronised; directory entries (creations, removals, renamings and
  permissions) are taken to be on the medium as soon as the call returns, as on a file system whose
  metadata is written through.  A loss of directory entries is not modelled.
\<close>

definition crash :: "fs \<Rightarrow> fs" where
  "crash s = s\<lparr>fs_streams := Map.empty, fs_dirs := Map.empty\<rparr>"

definition medium :: "node \<Rightarrow> node" where
  "medium n = (case n of Dir perm \<Rightarrow> Dir perm | Reg perm c d \<Rightarrow> Reg perm d d)"

definition power_loss :: "fs \<Rightarrow> fs" where
  "power_loss s = (crash s)\<lparr>fs_nodes := (\<lambda>i. map_option medium (fs_nodes s i))\<rparr>"

section \<open>Streams\<close>

definition put_stream :: "fs \<Rightarrow> nat \<Rightarrow> stream \<Rightarrow> fs" where
  "put_stream s f st = s\<lparr>fs_streams := (fs_streams s)(f \<mapsto> st)\<rparr>"

text \<open>A mode string: \<open>r\<close>, \<open>w\<close> or \<open>a\<close>, then \<open>b\<close> and \<open>+\<close> in any order.\<close>

datatype open_kind = Open_r | Open_w | Open_a

fun parse_mode :: "string \<Rightarrow> (open_kind \<times> bool) option" where
  "parse_mode [] = None"
| "parse_mode (c # cs) =
     (if c = CHR ''r'' then Some (Open_r, CHR ''+'' \<in> set cs)
      else if c = CHR ''w'' then Some (Open_w, CHR ''+'' \<in> set cs)
      else if c = CHR ''a'' then Some (Open_a, CHR ''+'' \<in> set cs)
      else None)"

definition new_stream :: "nat \<Rightarrow> open_kind \<Rightarrow> bool \<Rightarrow> stream" where
  "new_stream i k upd =
     \<lparr>st_ino = i, st_rd = (k = Open_r \<or> upd), st_wr = (k \<noteq> Open_r \<or> upd), st_app = (k = Open_a),
      st_pos = 0, st_pend = [], st_eof = False, st_err = False, st_last = Idle, st_cloexec = False\<rparr>"

text \<open>The rights that opening needs.\<close>

definition need :: "open_kind \<Rightarrow> bool \<Rightarrow> u32" where
  "need k upd = (if upd then 6 else if k = Open_r then 4 else 2)"

definition open_ino :: "fs \<Rightarrow> nat \<Rightarrow> open_kind \<Rightarrow> bool \<Rightarrow> nat \<times> fs" where
  "open_ino s i k upd = (fs_next s, (put_stream s (fs_next s) (new_stream i k upd))\<lparr>fs_next := fs_next s + 1\<rparr>)"

definition c_fopen :: "fs \<Rightarrow> string \<Rightarrow> string \<Rightarrow> nat \<times> fs" where
  "c_fopen s p mode =
     (case parse_mode mode of
        None \<Rightarrow> (0, s)
      | Some (k, upd) \<Rightarrow>
          case map_of (fs_names s) p of
            None \<Rightarrow>
              if k = Open_r \<or> \<not> dir_ok s (dirname p) \<or> \<not> fs_allow s (dirname p) 2 then (0, s)
              else open_ino (add_node s p (Reg (0x1B6 AND NOT (fs_umask s)) [] [])) (fs_next_ino s) k upd
          | Some i \<Rightarrow>
              if \<not> fs_allow s p (need k upd) then (0, s)
              else case fs_nodes s i of
                     None \<Rightarrow> (0, s)
                   | Some (Dir perm) \<Rightarrow> if k = Open_r \<and> \<not> upd then open_ino s i k upd else (0, s)
                   | Some (Reg perm c d) \<Rightarrow> open_ino (if k = Open_w then set_content s i [] else s) i k upd)"

text \<open>The buffer goes to the kernel; what does not fit is lost and the error flag set.\<close>

definition flush_stream :: "fs \<Rightarrow> nat \<Rightarrow> stream \<Rightarrow> nat \<times> stream \<times> fs" where
  "flush_stream s f st =
     (let pos = (if st_app st then length (content s (st_ino st)) else st_pos st);
          (n, s') = kwrite s (st_ino st) pos (st_pend st);
          st' = st\<lparr>st_pos := pos + n, st_pend := [], st_err := st_err st \<or> n < length (st_pend st)\<rparr>
      in if st_pend st = [] then (0, st, s) else (n, st', put_stream s' f st'))"

definition c_fflush1 :: "fs \<Rightarrow> nat \<Rightarrow> (int \<times> fs) option" where
  "c_fflush1 s f = do {
     st \<leftarrow> fs_streams s f;
     let (n, st', s') = flush_stream s f st;
     Some (if n = length (st_pend st) then 0 else -1, put_stream s' f (if st_last st' = Writing then st'\<lparr>st_last := Idle\<rparr> else st'))
   }"

fun flush_all :: "fs \<Rightarrow> nat list \<Rightarrow> int \<times> fs" where
  "flush_all s [] = (0, s)"
| "flush_all s (f # fs) =
     (case c_fflush1 s f of
        None \<Rightarrow> flush_all s fs
      | Some (r, s') \<Rightarrow> case flush_all s' fs of (r', s'') \<Rightarrow> (if r = 0 then r' else r, s''))"

text \<open>The null pointer stands for all streams.\<close>

definition c_fflush :: "fs \<Rightarrow> nat \<Rightarrow> (int \<times> fs) option" where
  "c_fflush s f = (if f = 0 then Some (flush_all s [1..<fs_next s]) else c_fflush1 s f)"

definition c_fclose :: "fs \<Rightarrow> nat \<Rightarrow> (int \<times> fs) option" where
  "c_fclose s f = do {
     (r, s') \<leftarrow> c_fflush1 s f;
     Some (r, s'\<lparr>fs_streams := (fs_streams s')(f := None)\<rparr>)
   }"

definition c_fwrite :: "fs \<Rightarrow> nat \<Rightarrow> bytes \<Rightarrow> (nat \<times> fs) option" where
  "c_fwrite s f d = do {
     st \<leftarrow> fs_streams s f;
     if \<not> st_wr st then Some (0, put_stream s f (st\<lparr>st_err := True\<rparr>))
     else if st_last st = Reading \<and> \<not> st_eof st then None
     else if d = [] then Some (0, s)
     else let st1 = st\<lparr>st_pend := st_pend st @ d, st_last := Writing, st_eof := False\<rparr>
          in if length (st_pend st1) \<le> fs_bufsiz s then Some (length d, put_stream s f st1)
             else let (n, st2, s2) = flush_stream s f st1
                  in Some (length d - (length (st_pend st1) - n), s2)
   }"

text \<open>Up to \<open>n\<close> bytes; the end-of-file flag is set when fewer are there and stays set.\<close>

definition c_fread :: "fs \<Rightarrow> nat \<Rightarrow> nat \<Rightarrow> (bytes \<times> fs) option" where
  "c_fread s f n = do {
     st \<leftarrow> fs_streams s f;
     if \<not> st_rd st then Some ([], put_stream s f (st\<lparr>st_err := True\<rparr>))
     else if st_last st = Writing then None
     else if n = 0 then Some ([], s)
     else let d = (if st_eof st then [] else take n (drop (st_pos st) (content s (st_ino st))))
          in Some (d, put_stream s f (st\<lparr>st_pos := st_pos st + length d, st_eof := st_eof st \<or> length d < n, st_last := Reading\<rparr>))
   }"

definition c_fgetc :: "fs \<Rightarrow> nat \<Rightarrow> (int \<times> fs) option" where
  "c_fgetc s f = do { (d, s') \<leftarrow> c_fread s f 1; Some (case d of [] \<Rightarrow> -1 | c # _ \<Rightarrow> uint c, s') }"

text \<open>A line with its newline, at most \<open>n\<close> bytes; \<open>None\<close> inside is the null pointer.\<close>

fun read_line :: "fs \<Rightarrow> nat \<Rightarrow> nat \<Rightarrow> (bytes \<times> fs) option" where
  "read_line s f 0 = Some ([], s)"
| "read_line s f (Suc n) = do {
     (d, s1) \<leftarrow> c_fread s f 1;
     case d of
       [] \<Rightarrow> Some ([], s1)
     | c # _ \<Rightarrow>
         if c = 10 then Some ([c], s1)
         else do { (ds, s2) \<leftarrow> read_line s1 f n; Some (c # ds, s2) }
   }"

definition c_fgets :: "fs \<Rightarrow> nat \<Rightarrow> int \<Rightarrow> (byte_ptr \<times> fs) option" where
  "c_fgets s f len =
     (if len \<le> 0 then Some (None, s)
      else do { (d, s') \<leftarrow> read_line s f (nat len - 1);
                Some (if d = [] \<and> len \<noteq> 1 then None else Some (d @ [0]), s') })"

definition c_feof :: "fs \<Rightarrow> nat \<Rightarrow> int option" where
  "c_feof s f = do { st \<leftarrow> fs_streams s f; Some (if st_eof st then 1 else 0) }"

definition SEEK_SET :: int where "SEEK_SET = 0"
definition SEEK_CUR :: int where "SEEK_CUR = 1"
definition SEEK_END :: int where "SEEK_END = 2"

definition seek_base :: "fs \<Rightarrow> stream \<Rightarrow> int \<Rightarrow> int option" where
  "seek_base s st whence =
     (if whence = SEEK_SET then Some 0
      else if whence = SEEK_CUR then Some (int (st_pos st))
      else if whence = SEEK_END then Some (int (length (content s (st_ino st))))
      else None)"

definition c_fseek :: "fs \<Rightarrow> nat \<Rightarrow> int \<Rightarrow> int \<Rightarrow> (int \<times> fs) option" where
  "c_fseek s f offs whence = do {
     st \<leftarrow> fs_streams s f;
     let (n, st1, s1) = flush_stream s f st;
     case seek_base s1 st1 whence of
       None \<Rightarrow> Some (-1, s1)
     | Some b \<Rightarrow>
         if n \<noteq> length (st_pend st) \<or> b + offs < 0 then Some (-1, s1)
         else Some (0, put_stream s1 f (st1\<lparr>st_pos := nat (b + offs), st_eof := False, st_last := Idle\<rparr>))
   }"

definition c_ftell :: "fs \<Rightarrow> nat \<Rightarrow> int option" where
  "c_ftell s f = do {
     st \<leftarrow> fs_streams s f;
     Some (if st_app st \<and> st_pend st \<noteq> [] then int (length (content s (st_ino st)) + length (st_pend st))
           else int (st_pos st + length (st_pend st)))
   }"

definition c_fileno :: "fs \<Rightarrow> nat \<Rightarrow> int option" where
  "c_fileno s f = do { st \<leftarrow> fs_streams s f; Some (int f) }"

definition c_set_cloexec :: "fs \<Rightarrow> int \<Rightarrow> fs" where
  "c_set_cloexec s fd =
     (case fs_streams s (nat fd) of None \<Rightarrow> s | Some st \<Rightarrow> put_stream s (nat fd) (st\<lparr>st_cloexec := True\<rparr>))"

section \<open>Directories\<close>

definition node_type :: "fs \<Rightarrow> nat \<Rightarrow> d_type" where
  "node_type s i =
     (if \<not> fs_types s then DT_UNKNOWN
      else case fs_nodes s i of
             Some (Dir perm) \<Rightarrow> DT_DIR | Some (Reg perm c d) \<Rightarrow> DT_REG | None \<Rightarrow> DT_UNKNOWN)"

definition dir_entries :: "fs \<Rightarrow> string \<Rightarrow> (string \<times> d_type) list" where
  "dir_entries s p =
     (let here = (if fs_types s then DT_DIR else DT_UNKNOWN) in [(''.'', here), (''..'', here)]) @
     map (\<lambda>(q, i). (basename q, node_type s i)) (filter (\<lambda>(q, i). dirname q = p) (fs_names s))"

definition c_opendir :: "fs \<Rightarrow> string \<Rightarrow> nat \<times> fs" where
  "c_opendir s p =
     (if \<not> dir_ok s p \<or> \<not> fs_allow s p 4 then (0, s)
      else (fs_next s, s\<lparr>fs_dirs := (fs_dirs s)(fs_next s \<mapsto> dir_entries s p), fs_next := fs_next s + 1\<rparr>))"

definition c_readdir :: "fs \<Rightarrow> nat \<Rightarrow> ((string \<times> d_type) option \<times> fs) option" where
  "c_readdir s d = do {
     es \<leftarrow> fs_dirs s d;
     Some (case es of [] \<Rightarrow> (None, s) | e # es' \<Rightarrow> (Some e, s\<lparr>fs_dirs := (fs_dirs s)(d \<mapsto> es')\<rparr>))
   }"

definition c_closedir :: "fs \<Rightarrow> nat \<Rightarrow> (int \<times> fs) option" where
  "c_closedir s d = do { es \<leftarrow> fs_dirs s d; Some (0, s\<lparr>fs_dirs := (fs_dirs s)(d := None)\<rparr>) }"

end
