(* ===== verification/Stdio_Laws.thy ===== *)
theory Stdio_Laws
  imports C_Stdio
begin

text \<open>
  Laws of the files and streams of \<open>C_Stdio\<close>: the invariant that every operation keeps, and what a
  stream shows of its file while part of the data is still in its buffer.
\<close>

section \<open>Overlays\<close>

lemma overlay_Nil [simp]: "overlay old pos [] = old"
  by (simp add: overlay_def)

lemma length_overlay: "d \<noteq> [] \<Longrightarrow> length (overlay old pos d) = max (length old) (pos + length d)"
  by (auto simp: overlay_def max_def min_def)

lemma length_overlay_ge: "length old \<le> length (overlay old pos d)"
  by (cases "d = []") (simp_all add: length_overlay)

lemma overlay_nth:
  "d \<noteq> [] \<Longrightarrow> i < length (overlay old pos d) \<Longrightarrow>
   overlay old pos d ! i = (if pos \<le> i \<and> i < pos + length d then d ! (i - pos) else if i < length old then old ! i else 0)"
  by (auto simp: overlay_def nth_append min_def length_overlay split: if_splits)

lemma overlay_append: "overlay (overlay old pos d) (pos + length d) e = overlay old pos (d @ e)"
proof (cases "d = [] \<or> e = []")
  case False
  show ?thesis
  proof (rule nth_equalityI)
    show len: "length (overlay (overlay old pos d) (pos + length d) e) = length (overlay old pos (d @ e))"
      using False by (simp add: length_overlay)
    fix i assume i: "i < length (overlay (overlay old pos d) (pos + length d) e)"
    then have i2: "i < length (overlay old pos (d @ e))" by (simp only: len)
    have "i < length (overlay old pos d) \<or> pos + length d \<le> i" using False by (auto simp: length_overlay)
    then show "overlay (overlay old pos d) (pos + length d) e ! i = overlay old pos (d @ e) ! i"
      using i i2 False by (auto simp: overlay_nth nth_append length_overlay)
  qed
qed auto

lemma overlay_read_same: "take (length d) (drop pos (overlay old pos d)) = d"
  by (cases "d = []") (simp_all add: overlay_def)

lemma overlay_read_other:
  assumes "q + n \<le> pos \<or> pos + length d \<le> q" and "q + n \<le> length old"
  shows "take n (drop q (overlay old pos d)) = take n (drop q old)"
proof (cases "d = []")
  case False
  have "length old \<le> length (overlay old pos d)" by (rule length_overlay_ge)
  then show ?thesis
    using assms False by (intro nth_equalityI) (auto simp: overlay_nth)
qed simp

lemma overlay_empty: "overlay [] 0 d = d"
  by (simp add: overlay_def)

section \<open>The invariant\<close>

definition is_reg :: "node \<Rightarrow> bool" where
  "is_reg n \<longleftrightarrow> (case n of Dir _ \<Rightarrow> False | Reg _ _ _ \<Rightarrow> True)"

lemma is_reg_simps [simp]: "\<not> is_reg (Dir p)" "is_reg (Reg p c d)"
  by (simp_all add: is_reg_def)

lemma is_regE: "is_reg n \<Longrightarrow> (\<And>p c d. n = Reg p c d \<Longrightarrow> P) \<Longrightarrow> P"
  by (cases n) simp_all

text \<open>A stream has a number in use and a file, writes only to regular files, and buffers only what was written.\<close>

definition wf_stream :: "fs \<Rightarrow> nat \<Rightarrow> stream \<Rightarrow> bool" where
  "wf_stream s f st \<longleftrightarrow>
     f \<noteq> 0 \<and> f < fs_next s \<and> (\<exists>n. fs_nodes s (st_ino st) = Some n \<and> (st_wr st \<longrightarrow> is_reg n))
     \<and> (st_pend st \<noteq> [] \<longrightarrow> st_wr st \<and> st_last st = Writing)"

definition wf_fs :: "fs \<Rightarrow> bool" where
  "wf_fs s \<longleftrightarrow>
     0 < fs_next s \<and> distinct (map fst (fs_names s)) \<and> (\<forall>(p, i) \<in> set (fs_names s). i \<in> dom (fs_nodes s))
     \<and> (\<forall>i. fs_next_ino s \<le> i \<longrightarrow> fs_nodes s i = None)
     \<and> (\<forall>f st. fs_streams s f = Some st \<longrightarrow> wf_stream s f st \<and> length (st_pend st) \<le> fs_bufsiz s)
     \<and> (\<forall>d. fs_dirs s d \<noteq> None \<longrightarrow> d \<noteq> 0 \<and> d < fs_next s)"

text \<open>Changes to the nodes that keep every node and its kind.\<close>

definition kinds_kept :: "fs \<Rightarrow> fs \<Rightarrow> bool" where
  "kinds_kept s s' \<longleftrightarrow>
     (\<forall>i. fs_nodes s i = None \<longleftrightarrow> fs_nodes s' i = None)
     \<and> (\<forall>i n n'. fs_nodes s i = Some n \<longrightarrow> fs_nodes s' i = Some n' \<longrightarrow> is_reg n = is_reg n')"

definition frame :: "fs \<Rightarrow> fs \<Rightarrow> bool" where
  "frame s s' \<longleftrightarrow>
     kinds_kept s s' \<and> fs_names s' = fs_names s \<and> fs_next_ino s' = fs_next_ino s \<and> fs_dirs s' = fs_dirs s
     \<and> fs_next s' = fs_next s \<and> fs_bufsiz s' = fs_bufsiz s \<and> fs_umask s' = fs_umask s \<and> fs_allow s' = fs_allow s"

lemma frame_refl [simp]: "frame s s"
  by (auto simp: frame_def kinds_kept_def)

lemma frame_trans: "frame s t \<Longrightarrow> frame t u \<Longrightarrow> frame s u"
  unfolding frame_def kinds_kept_def by (metis not_None_eq)

lemma frame_put_stream [simp]: "frame s (put_stream s f st)"
  by (auto simp: frame_def kinds_kept_def put_stream_def)

lemma frame_set_content [simp]: "frame s (set_content s i c)"
  by (auto simp: frame_def kinds_kept_def set_content_def split: option.split node.split)

lemma frame_wf_stream: "frame s s' \<Longrightarrow> wf_stream s f st \<Longrightarrow> wf_stream s' f st"
  unfolding frame_def kinds_kept_def wf_stream_def by (metis not_None_eq)

lemma frame_wf:
  assumes "frame s s'" "wf_fs s"
    and "\<And>f st. fs_streams s' f = Some st \<Longrightarrow> wf_stream s' f st \<and> length (st_pend st) \<le> fs_bufsiz s'"
  shows "wf_fs s'"
proof -
  have "\<forall>(p, i) \<in> set (fs_names s'). i \<in> dom (fs_nodes s')" "\<forall>i. fs_next_ino s' \<le> i \<longrightarrow> fs_nodes s' i = None"
    using assms(1,2) unfolding frame_def kinds_kept_def wf_fs_def by (fastforce simp: dom_def)+
  then show ?thesis using assms unfolding wf_fs_def frame_def by simp
qed

lemma wf_streamD: "wf_fs s \<Longrightarrow> fs_streams s f = Some st \<Longrightarrow> wf_stream s f st"
  by (simp add: wf_fs_def)

lemma wf_put_stream:
  "wf_fs s \<Longrightarrow> wf_stream s f st \<Longrightarrow> length (st_pend st) \<le> fs_bufsiz s \<Longrightarrow> wf_fs (put_stream s f st)"
  by (rule frame_wf [OF frame_put_stream])
     (auto simp: put_stream_def wf_fs_def wf_stream_def split: if_splits)

lemma set_content_streams [simp]: "fs_streams (set_content s i c) = fs_streams s"
  by (simp add: set_content_def split: option.split node.split)

lemma set_content_bufsiz [simp]: "fs_bufsiz (set_content s i c) = fs_bufsiz s"
  by (simp add: set_content_def split: option.split node.split)

lemma wf_set_content: "wf_fs s \<Longrightarrow> wf_fs (set_content s i c)"
  by (rule frame_wf [OF frame_set_content]) (auto simp: wf_fs_def intro: frame_wf_stream [OF frame_set_content])

subsection \<open>Flushing\<close>

lemma flush_stream_Nil: "st_pend st = [] \<Longrightarrow> flush_stream s f st = (0, st, s)"
  by (simp add: flush_stream_def Let_def split: prod.split)

definition wpos :: "fs \<Rightarrow> stream \<Rightarrow> nat" where
  "wpos s st = (if st_app st then length (content s (st_ino st)) else st_pos st)"

lemma flush_stream_cons:
  assumes "st_pend st \<noteq> []"
  shows "flush_stream s f st =
    (let n = fit s (st_ino st) (wpos s st) (length (st_pend st));
         st' = st\<lparr>st_pos := wpos s st + n, st_pend := [], st_err := st_err st \<or> n < length (st_pend st)\<rparr>
     in (n, st', put_stream (set_content s (st_ino st) (overlay (content s (st_ino st)) (wpos s st) (take n (st_pend st)))) f st'))"
  using assms by (simp add: flush_stream_def kwrite_def wpos_def Let_def)

lemma flush_stream_frame: "flush_stream s f st = (n, st', s') \<Longrightarrow> frame s s'"
  by (cases "st_pend st = []")
     (auto simp: flush_stream_Nil flush_stream_cons Let_def intro: frame_trans [OF frame_set_content frame_put_stream])

lemma flush_stream_st:
  "flush_stream s f st = (n, st', s') \<Longrightarrow>
   st_pend st' = [] \<and> st_ino st' = st_ino st \<and> st_wr st' = st_wr st \<and> st_rd st' = st_rd st
   \<and> st_last st' = st_last st \<and> st_app st' = st_app st \<and> n \<le> length (st_pend st)"
  by (cases "st_pend st = []") (auto simp: flush_stream_Nil flush_stream_cons Let_def fit_def)

lemma flush_stream_wf:
  assumes "wf_fs s" "wf_stream s f st" "flush_stream s f st = (n, st', s')"
  shows "wf_fs s' \<and> wf_stream s' f st'"
proof -
  have st: "wf_stream s f st'"
    using assms(2) flush_stream_st [OF assms(3)] by (simp add: wf_stream_def)
  moreover have "wf_fs s'"
  proof (cases "st_pend st = []")
    case True with assms show ?thesis by (simp add: flush_stream_Nil)
  next
    case False
    with assms(3) obtain c where s': "s' = put_stream (set_content s (st_ino st) c) f st'"
      by (auto simp: flush_stream_cons Let_def)
    show ?thesis unfolding s'
      by (rule wf_put_stream) (use assms(1) st flush_stream_st [OF assms(3)] in
            \<open>simp_all add: wf_set_content frame_wf_stream [OF frame_set_content]\<close>)
  qed
  ultimately show ?thesis using frame_wf_stream [OF flush_stream_frame [OF assms(3)]] by simp
qed

subsection \<open>Operations on streams\<close>

lemma c_fflush1_wf:
  assumes "wf_fs s" "c_fflush1 s f = Some (r, s')"
  shows "wf_fs s'"
proof -
  obtain st where st: "fs_streams s f = Some st" using assms(2) by (auto simp: c_fflush1_def split: bind_splits)
  obtain n st1 s1 where fl: "flush_stream s f st = (n, st1, s1)" by (metis surj_pair)
  from flush_stream_wf [OF assms(1) wf_streamD [OF assms(1) st] fl] have w: "wf_fs s1" "wf_stream s1 f st1" by auto
  from assms(2) st fl have "s' = put_stream s1 f (if st_last st1 = Writing then st1\<lparr>st_last := Idle\<rparr> else st1)"
    by (simp add: c_fflush1_def)
  then show ?thesis using w flush_stream_st [OF fl] by (auto intro!: wf_put_stream simp: wf_stream_def)
qed

lemma flush_all_wf: "wf_fs s \<Longrightarrow> flush_all s fl = (r, s') \<Longrightarrow> wf_fs s'"
  by (induction fl arbitrary: s r s') (auto split: option.splits prod.splits dest: c_fflush1_wf)

lemma c_fflush_wf: "wf_fs s \<Longrightarrow> c_fflush s f = Some (r, s') \<Longrightarrow> wf_fs s'"
  by (auto simp: c_fflush_def split: if_splits dest: c_fflush1_wf flush_all_wf)

lemma wf_drop_stream: "wf_fs s \<Longrightarrow> wf_fs (s\<lparr>fs_streams := (fs_streams s)(f := None)\<rparr>)"
  by (auto simp: wf_fs_def wf_stream_def)

lemma c_fclose_wf: "wf_fs s \<Longrightarrow> c_fclose s f = Some (r, s') \<Longrightarrow> wf_fs s'"
  by (auto simp: c_fclose_def split: bind_splits dest: c_fflush1_wf intro: wf_drop_stream)

lemma c_fwrite_wf:
  assumes wf: "wf_fs s" and op: "c_fwrite s f d = Some (n, s')"
  shows "wf_fs s'"
proof -
  from op obtain st where st: "fs_streams s f = Some st" by (auto simp: c_fwrite_def split: bind_splits)
  note w = wf_streamD [OF wf st]
  let ?st1 = "st\<lparr>st_pend := st_pend st @ d, st_last := Writing, st_eof := False\<rparr>"
  have w1: "wf_stream s f ?st1" if "st_wr st" using w that by (simp add: wf_stream_def)
  have b: "length (st_pend st) \<le> fs_bufsiz s" using wf st by (simp add: wf_fs_def)
  obtain n2 st2 s2 where fl: "flush_stream s f ?st1 = (n2, st2, s2)" by (metis surj_pair)
  have "\<not> st_wr st \<and> s' = put_stream s f (st\<lparr>st_err := True\<rparr>) \<or> s' = s
    \<or> st_wr st \<and> length (st_pend ?st1) \<le> fs_bufsiz s \<and> s' = put_stream s f ?st1 \<or> st_wr st \<and> s' = s2"
    using op st fl by (simp add: c_fwrite_def Let_def split: if_splits)
  then show ?thesis
  proof (elim disjE conjE)
    assume "s' = put_stream s f (st\<lparr>st_err := True\<rparr>)"
    then show ?thesis using wf w b by (auto intro!: wf_put_stream simp: wf_stream_def)
  next
    assume "st_wr st" "length (st_pend ?st1) \<le> fs_bufsiz s" "s' = put_stream s f ?st1"
    then show ?thesis using wf w1 by (auto intro!: wf_put_stream)
  next
    assume "st_wr st" "s' = s2"
    then show ?thesis using flush_stream_wf [OF wf w1 fl] by blast
  qed (use wf in simp)
qed

lemma c_fread_wf:
  assumes wf: "wf_fs s" and op: "c_fread s f n = Some (d, s')"
  shows "wf_fs s'"
proof -
  from op obtain st where st: "fs_streams s f = Some st" by (auto simp: c_fread_def split: bind_splits)
  note w = wf_streamD [OF wf st]
  have b: "length (st_pend st) \<le> fs_bufsiz s" using wf st by (simp add: wf_fs_def)
  have "s' = put_stream s f (st\<lparr>st_err := True\<rparr>) \<or> s' = s
    \<or> st_last st \<noteq> Writing
      \<and> s' = put_stream s f (st\<lparr>st_pos := st_pos st + length d, st_eof := st_eof st \<or> length d < n, st_last := Reading\<rparr>)"
    using op st by (auto simp: c_fread_def Let_def split: if_splits)
  then show ?thesis using wf w b by (auto intro!: wf_put_stream simp: wf_stream_def)
qed

lemma c_fgetc_wf: "wf_fs s \<Longrightarrow> c_fgetc s f = Some (r, s') \<Longrightarrow> wf_fs s'"
  by (auto simp: c_fgetc_def split: bind_splits dest: c_fread_wf)

lemma read_line_wf: "wf_fs s \<Longrightarrow> read_line s f n = Some (d, s') \<Longrightarrow> wf_fs s'"
proof (induction n arbitrary: s d)
  case (Suc n)
  then obtain d1 s1 where r: "c_fread s f 1 = Some (d1, s1)" by (auto split: bind_splits)
  note w = c_fread_wf [OF Suc.prems(1) r]
  show ?case using Suc.prems(2) Suc.IH [OF w] r w by (auto split: bind_splits list.splits if_splits)
qed simp

lemma c_fgets_wf: "wf_fs s \<Longrightarrow> c_fgets s f n = Some (d, s') \<Longrightarrow> wf_fs s'"
  by (auto simp: c_fgets_def split: bind_splits if_splits dest: read_line_wf)

lemma c_fseek_wf:
  assumes "wf_fs s" "c_fseek s f offs wh = Some (r, s')"
  shows "wf_fs s'"
proof -
  obtain st where st: "fs_streams s f = Some st" using assms(2) by (auto simp: c_fseek_def split: bind_splits)
  obtain n st1 s1 where fl: "flush_stream s f st = (n, st1, s1)" by (metis surj_pair)
  from flush_stream_wf [OF assms(1) wf_streamD [OF assms(1) st] fl] have w: "wf_fs s1" "wf_stream s1 f st1" by auto
  from assms(2) st fl have "s' = s1 \<or> (\<exists>p. s' = put_stream s1 f (st1\<lparr>st_pos := p, st_eof := False, st_last := Idle\<rparr>))"
    by (auto simp: c_fseek_def split: option.splits if_splits)
  then show ?thesis using w flush_stream_st [OF fl] by (auto intro!: wf_put_stream simp: wf_stream_def)
qed

subsection \<open>Operations on names\<close>

lemma wf_map_of: "wf_fs s \<Longrightarrow> map_of (fs_names s) p = Some i \<Longrightarrow> \<exists>n. fs_nodes s i = Some n"
  by (fastforce simp: wf_fs_def dest!: map_of_SomeD)

lemma node_of_None: "wf_fs s \<Longrightarrow> node_of s p = None \<longleftrightarrow> p \<notin> fst ` set (fs_names s)"
  by (auto simp: node_of_def map_of_eq_None_iff [symmetric] split: bind_splits dest: wf_map_of)

lemma wf_add_node:
  assumes "wf_fs s" "node_of s p = None"
  shows "wf_fs (add_node s p n)"
proof -
  let ?s' = "add_node s p n"
  have new: "fs_nodes s (fs_next_ino s) = None" using assms(1) by (simp add: wf_fs_def)
  have "wf_stream ?s' f st \<and> length (st_pend st) \<le> fs_bufsiz ?s'" if "fs_streams ?s' f = Some st" for f st
  proof -
    have st: "fs_streams s f = Some st" using that by (simp add: add_node_def)
    have b: "length (st_pend st) \<le> fs_bufsiz s" using assms(1) st by (simp add: wf_fs_def)
    show ?thesis using wf_streamD [OF assms(1) st] b new by (auto simp: add_node_def wf_stream_def)
  qed
  then show ?thesis
    using assms node_of_None [OF assms(1)] by (auto simp: wf_fs_def add_node_def)
qed

lemma wf_names:
  assumes "wf_fs s" "distinct (map fst ns)" "snd ` set ns \<subseteq> snd ` set (fs_names s)"
  shows "wf_fs (s\<lparr>fs_names := ns\<rparr>)"
proof -
  have "i \<in> dom (fs_nodes s)" if "(p, i) \<in> set ns" for p i
  proof -
    from that assms(3) obtain q where "(q, i) \<in> set (fs_names s)" by force
    then show ?thesis using assms(1) by (auto simp: wf_fs_def)
  qed
  then show ?thesis using assms(1,2) by (auto simp: wf_fs_def wf_stream_def)
qed

lemma c_mkdir_wf: "wf_fs s \<Longrightarrow> c_mkdir s p m = (r, s') \<Longrightarrow> wf_fs s'"
  by (auto simp: c_mkdir_def split: if_splits intro: wf_add_node)

lemma wf_delete_name: "wf_fs s \<Longrightarrow> wf_fs (s\<lparr>fs_names := AList.delete p (fs_names s)\<rparr>)"
  by (rule wf_names) (auto simp: wf_fs_def AList.delete_eq distinct_map_filter)

lemma c_remove_wf: "wf_fs s \<Longrightarrow> c_remove s p = (r, s') \<Longrightarrow> wf_fs s'"
  by (auto simp: c_remove_def split: if_splits option.splits node.splits intro: wf_delete_name)

lemma rename_path_inj:
  assumes "rename_path old new q = rename_path old new r" "q \<noteq> new" "r \<noteq> new" "\<not> under new q" "\<not> under new r"
  shows "q = r"
proof -
  have u: "q = old \<or> under old q \<Longrightarrow> \<exists>x. q = old @ x \<and> (x = [] \<or> hd x = CHR ''/'') \<and> rename_path old new q = new @ x" for q
    by (auto simp: rename_path_def under_def prefix_def)
  have n: "\<not> (q = old \<or> under old q) \<Longrightarrow> rename_path old new q = q" for q by (simp add: rename_path_def)
  have clash: "x \<noteq> [] \<Longrightarrow> hd x = CHR ''/'' \<Longrightarrow> under new (new @ x)" for x
    by (cases x) (auto simp: under_def)
  show ?thesis
  proof (cases "q = old \<or> under old q"; cases "r = old \<or> under old r")
    assume "q = old \<or> under old q" "r = old \<or> under old r"
    from u [OF this(1)] u [OF this(2)] assms(1) show ?thesis by auto
  next
    assume a: "q = old \<or> under old q" "\<not> (r = old \<or> under old r)"
    from u [OF a(1)] n [OF a(2)] assms(1) obtain x where "r = new @ x" "x = [] \<or> hd x = CHR ''/''" by auto
    with clash [of x] assms(3,5) show ?thesis by auto
  next
    assume a: "\<not> (q = old \<or> under old q)" "r = old \<or> under old r"
    from u [OF a(2)] n [OF a(1)] assms(1) obtain x where "q = new @ x" "x = [] \<or> hd x = CHR ''/''" by auto
    with clash [of x] assms(2,4) show ?thesis by auto
  next
    assume "\<not> (q = old \<or> under old q)" "\<not> (r = old \<or> under old r)"
    with n assms(1) show ?thesis by metis
  qed
qed

lemma c_rename_wf:
  assumes wf: "wf_fs s" and op: "c_rename s old new = (r, s')"
  shows "wf_fs s'"
proof -
  let ?ns = "AList.delete new (fs_names s)"
  let ?ren = "map (\<lambda>(q, i). (rename_path old new q, i)) ?ns"
  have "s' = s \<or> (\<forall>q \<in> fst ` set (fs_names s). \<not> under new q) \<and> s' = s\<lparr>fs_names := ?ren\<rparr>"
    using op by (auto simp: c_rename_def split: option.splits if_splits)
  then show ?thesis
  proof
    assume a: "(\<forall>q \<in> fst ` set (fs_names s). \<not> under new q) \<and> s' = s\<lparr>fs_names := ?ren\<rparr>"
    have d: "distinct (map fst ?ns)" using wf by (simp add: wf_fs_def AList.delete_eq distinct_map_filter)
    have "inj_on (rename_path old new) (fst ` set ?ns)"
      using a by (intro inj_onI, elim rename_path_inj) (auto simp: AList.delete_eq)
    moreover have "map fst ?ren = map (rename_path old new) (map fst ?ns)" by (simp add: case_prod_beta)
    ultimately have "distinct (map fst ?ren)" using d by (simp only: distinct_map set_map)
    moreover have "snd ` set ?ren \<subseteq> snd ` set (fs_names s)"
      by (auto simp: AList.delete_eq case_prod_beta image_image)
    ultimately show ?thesis using wf_names [OF wf] a by blast
  qed (use wf in simp)
qed

lemma wf_open_ino:
  assumes "wf_fs s" "fs_nodes s i = Some n" "k = Open_r \<and> \<not> u \<or> is_reg n"
  shows "wf_fs (snd (open_ino s i k u))"
proof -
  let ?s' = "snd (open_ino s i k u)"
  have "wf_stream ?s' f st \<and> length (st_pend st) \<le> fs_bufsiz ?s'" if "fs_streams ?s' f = Some st" for f st
  proof (cases "f = fs_next s")
    case True
    then have "st = new_stream i k u" using that by (simp add: open_ino_def put_stream_def)
    moreover have "fs_next s \<noteq> 0" using assms(1) by (simp add: wf_fs_def)
    ultimately show ?thesis using True assms by (auto simp: open_ino_def put_stream_def wf_stream_def new_stream_def)
  next
    case False
    then have st: "fs_streams s f = Some st" using that by (simp add: open_ino_def put_stream_def)
    have b: "length (st_pend st) \<le> fs_bufsiz s" using assms(1) st by (simp add: wf_fs_def)
    show ?thesis using wf_streamD [OF assms(1) st] b by (auto simp: open_ino_def put_stream_def wf_stream_def)
  qed
  then show ?thesis using assms(1) by (auto simp: wf_fs_def open_ino_def put_stream_def)
qed

lemma c_fopen_wf:
  assumes wf: "wf_fs s" and op: "c_fopen s p m = (f, s')"
  shows "wf_fs s'"
proof -
  have w: "s' = snd (c_fopen s p m)" using op by simp
  show ?thesis
  proof (cases "parse_mode m")
    case None then show ?thesis using wf w by (simp add: c_fopen_def)
  next
    case (Some ku)
    obtain k u where ku: "parse_mode m = Some (k, u)" using Some by (cases ku) simp
    show ?thesis
    proof (cases "map_of (fs_names s) p")
      case None
      then have "node_of s p = None" by (simp add: node_of_def)
      then have "wf_fs (add_node s p (Reg x c d))" for x c d using wf by (rule wf_add_node [rotated])
      then show ?thesis using w wf None ku
        by (auto simp: c_fopen_def intro!: wf_open_ino) (auto simp: add_node_def)
    next
      case (Some i)
      then obtain nd where nd: "fs_nodes s i = Some nd" using wf_map_of [OF wf] by blast
      show ?thesis
      proof (cases nd)
        case (Dir perm)
        then show ?thesis using w wf Some ku nd by (auto simp: c_fopen_def intro!: wf_open_ino)
      next
        case (Reg perm c d)
        then have "fs_nodes (set_content s i []) i = Some (Reg perm [] d)" using nd by (simp add: set_content_def)
        from wf_open_ino [OF wf_set_content [OF wf] this] wf_open_ino [OF wf nd] show ?thesis
          using w wf Some ku nd Reg by (auto simp: c_fopen_def)
      qed
    qed
  qed
qed

lemma wf_nodes:
  assumes "wf_fs s" "fs_nodes s i = Some (Reg a c d)"
  shows "wf_fs (s\<lparr>fs_nodes := (fs_nodes s)(i \<mapsto> Reg a' c' d')\<rparr>)"
proof -
  have "frame s (s\<lparr>fs_nodes := (fs_nodes s)(i \<mapsto> Reg a' c' d')\<rparr>)"
    using assms(2) by (auto simp: frame_def kinds_kept_def)
  from frame_wf [OF this assms(1)] frame_wf_stream [OF this] assms(1) show ?thesis by (simp add: wf_fs_def)
qed

lemma c_fsync_wf: "wf_fs s \<Longrightarrow> c_fsync s fd = (r, s') \<Longrightarrow> wf_fs s'"
  by (auto simp: c_fsync_def split: option.splits if_splits node.splits intro: wf_nodes)

lemma c_ftruncate_wf: "wf_fs s \<Longrightarrow> c_ftruncate s fd len = (r, s') \<Longrightarrow> wf_fs s'"
  by (auto simp: c_ftruncate_def Let_def split: option.splits if_splits intro: wf_set_content)

lemma c_set_cloexec_wf:
  assumes "wf_fs s" shows "wf_fs (c_set_cloexec s fd)"
proof (cases "fs_streams s (nat fd)")
  case (Some st)
  then have "length (st_pend st) \<le> fs_bufsiz s" using assms by (simp add: wf_fs_def)
  then show ?thesis using assms wf_streamD [OF assms Some] Some
    by (auto simp: c_set_cloexec_def wf_stream_def intro!: wf_put_stream)
qed (use assms in \<open>simp add: c_set_cloexec_def\<close>)

lemma c_opendir_wf: "wf_fs s \<Longrightarrow> c_opendir s p = (d, s') \<Longrightarrow> wf_fs s'"
  by (auto simp: c_opendir_def wf_fs_def wf_stream_def split: if_splits) (meson less_SucI)+

lemma wf_dirs: "wf_fs s \<Longrightarrow> fs_dirs s d = Some es \<Longrightarrow> wf_fs (s\<lparr>fs_dirs := (fs_dirs s)(d := es')\<rparr>)"
  by (auto simp: wf_fs_def wf_stream_def)

lemma c_readdir_wf: "wf_fs s \<Longrightarrow> c_readdir s d = Some (e, s') \<Longrightarrow> wf_fs s'"
  by (auto simp: c_readdir_def split: bind_splits list.splits intro: wf_dirs)

lemma c_closedir_wf: "wf_fs s \<Longrightarrow> c_closedir s d = Some (r, s') \<Longrightarrow> wf_fs s'"
  by (auto simp: c_closedir_def split: bind_splits intro: wf_dirs)

lemmas stdio_wf = c_mkdir_wf c_remove_wf c_rename_wf c_fopen_wf c_fsync_wf c_ftruncate_wf c_set_cloexec_wf
  c_opendir_wf c_readdir_wf c_closedir_wf c_fflush_wf c_fclose_wf c_fwrite_wf c_fread_wf c_fgetc_wf c_fgets_wf c_fseek_wf

section \<open>What a stream shows of its file\<close>

text \<open>
  The file as it will be once the buffer is written, the position after the buffer, and the largest
  size the file can have.
\<close>

definition st_view :: "fs \<Rightarrow> nat \<Rightarrow> bytes" where
  "st_view s f = (case fs_streams s f of None \<Rightarrow> [] | Some st \<Rightarrow> overlay (content s (st_ino st)) (st_pos st) (st_pend st))"

definition st_end :: "fs \<Rightarrow> nat \<Rightarrow> nat" where
  "st_end s f = (case fs_streams s f of None \<Rightarrow> 0 | Some st \<Rightarrow> st_pos st + length (st_pend st))"

definition cap :: "fs \<Rightarrow> nat \<Rightarrow> nat" where
  "cap s i = length (content s i) + fs_room s"

text \<open>Stream \<open>f\<close> may write to the regular file \<open>i\<close> at its own position.\<close>

definition writer :: "fs \<Rightarrow> nat \<Rightarrow> nat \<Rightarrow> bool" where
  "writer s f i \<longleftrightarrow>
     (\<exists>st. fs_streams s f = Some st \<and> st_wr st \<and> \<not> st_app st \<and> st_ino st = i \<and> (st_last st = Reading \<longrightarrow> st_eof st))
     \<and> (\<exists>n. fs_nodes s i = Some n \<and> is_reg n)"

text \<open>Only stream \<open>f\<close> and file \<open>i\<close> change.\<close>

definition only :: "nat \<Rightarrow> nat \<Rightarrow> fs \<Rightarrow> fs \<Rightarrow> bool" where
  "only f i s s' \<longleftrightarrow>
     frame s s' \<and> (\<forall>g. g \<noteq> f \<longrightarrow> fs_streams s' g = fs_streams s g) \<and> (\<forall>j. j \<noteq> i \<longrightarrow> fs_nodes s' j = fs_nodes s j)"

lemma only_refl [simp]: "only f i s s"
  by (simp add: only_def)

lemma only_trans: "only f i s t \<Longrightarrow> only f i t u \<Longrightarrow> only f i s u"
  by (auto simp: only_def intro: frame_trans)

lemma only_put_stream [simp]: "only f i s (put_stream s f st)"
  using frame_put_stream [of s f st] by (simp add: only_def put_stream_def)

lemma only_set_content [simp]: "only f i s (set_content s i c)"
  using frame_set_content [of s i c] by (auto simp: only_def set_content_def split: option.split node.split)

lemma content_put_stream [simp]: "content (put_stream s f st) i = content s i"
  by (simp add: content_def put_stream_def)

lemma put_stream_simps [simp]:
  "fs_streams (put_stream s f st) f = Some st" "fs_room (put_stream s f st) = fs_room s"
  "fs_bufsiz (put_stream s f st) = fs_bufsiz s" "fs_nodes (put_stream s f st) = fs_nodes s"
  by (simp_all add: put_stream_def)

lemma content_set_content:
  "fs_nodes s i = Some n \<Longrightarrow> is_reg n \<Longrightarrow> content (set_content s i c) i = c"
  by (auto simp: content_def set_content_def elim!: is_regE)

lemma nodes_set_content:
  "fs_nodes s i = Some n \<Longrightarrow> is_reg n \<Longrightarrow> \<exists>n'. fs_nodes (set_content s i c) i = Some n' \<and> is_reg n'"
  by (auto simp: set_content_def elim!: is_regE)

lemma cap_set_content:
  "fs_nodes s i = Some n \<Longrightarrow> is_reg n \<Longrightarrow> length c \<le> cap s i \<Longrightarrow> cap (set_content s i c) i = cap s i"
  by (auto simp: cap_def content_def set_content_def elim!: is_regE)

lemma cap_put_stream [simp]: "cap (put_stream s f st) i = cap s i"
  by (simp add: cap_def)

lemma overlay_cap: "length old \<le> m \<Longrightarrow> pos + length d \<le> m \<Longrightarrow> length (overlay old pos d) \<le> m"
  by (cases "d = []") (simp_all add: length_overlay)

lemma fit_all: "pos + n \<le> cap s i \<Longrightarrow> fit s i pos n = n"
  by (simp add: fit_def cap_def)

text \<open>Flushing a buffer that fits.\<close>

lemma flush_stream_fits:
  assumes "\<not> st_app st" "st_ino st = i" "fs_nodes s i = Some n" "is_reg n" "st_pos st + length (st_pend st) \<le> cap s i"
    and "fs_streams s f = Some st0"
  shows "\<exists>s'. flush_stream s f st = (length (st_pend st), st\<lparr>st_pos := st_pos st + length (st_pend st), st_pend := []\<rparr>, s')
    \<and> only f i s s' \<and> content s' i = overlay (content s i) (st_pos st) (st_pend st) \<and> cap s' i = cap s i
    \<and> (\<exists>n'. fs_nodes s' i = Some n' \<and> is_reg n')"
proof (cases "st_pend st = []")
  case True
  then show ?thesis using assms by (simp add: flush_stream_Nil)
next
  case False
  let ?c = "overlay (content s i) (st_pos st) (st_pend st)"
  have len: "length ?c \<le> cap s i" using assms(5) by (intro overlay_cap) (simp_all add: cap_def)
  let ?st = "st\<lparr>st_pos := st_pos st + length (st_pend st), st_pend := []\<rparr>"
  let ?s' = "put_stream (set_content s i ?c) f ?st"
  have "flush_stream s f st = (length (st_pend st), ?st, ?s')"
    using False assms(1,2,5) by (simp add: flush_stream_cons wpos_def Let_def fit_all)
  then show ?thesis
    using assms(3,4) len content_set_content [OF assms(3,4)] nodes_set_content [OF assms(3,4)] cap_set_content [OF assms(3,4)]
    by (intro exI [of _ ?s']) (auto intro: only_trans [OF only_set_content only_put_stream])
qed

lemma fwrite_view:
  assumes w: "writer s f i" and room: "st_end s f + length d \<le> cap s i"
  shows "\<exists>s'. c_fwrite s f d = Some (length d, s') \<and> writer s' f i \<and> only f i s s' \<and> cap s' i = cap s i
    \<and> st_view s' f = overlay (st_view s f) (st_end s f) d \<and> st_end s' f = st_end s f + length d"
proof -
  from w obtain st n where st: "fs_streams s f = Some st" "st_wr st" "\<not> st_app st" "st_ino st = i" "st_last st = Reading \<longrightarrow> st_eof st"
    and n: "fs_nodes s i = Some n" "is_reg n" by (auto simp: writer_def)
  let ?st1 = "st\<lparr>st_pend := st_pend st @ d, st_last := Writing, st_eof := False\<rparr>"
  show ?thesis
  proof (cases "d = []")
    case True then show ?thesis using st w by (simp add: c_fwrite_def)
  next
    case d: False
    show ?thesis
    proof (cases "length (st_pend ?st1) \<le> fs_bufsiz s")
      case True
      then show ?thesis using st n d
        by (auto simp: c_fwrite_def writer_def st_view_def st_end_def overlay_append)
    next
      case False
      from flush_stream_fits [of ?st1 i s n f st] st n room obtain s' where
        fl: "flush_stream s f ?st1 = (length (st_pend ?st1), ?st1\<lparr>st_pos := st_pos st + length (st_pend ?st1), st_pend := []\<rparr>, s')"
        and o: "only f i s s'" "content s' i = overlay (content s i) (st_pos st) (st_pend st @ d)" "cap s' i = cap s i"
          "\<exists>n'. fs_nodes s' i = Some n' \<and> is_reg n'"
        by (auto simp: st_end_def)
      have s': "fs_streams s' f = Some (?st1\<lparr>st_pos := st_pos st + length (st_pend ?st1), st_pend := []\<rparr>)"
        using fl d by (auto simp: flush_stream_cons Let_def put_stream_def)
      show ?thesis using st d False fl o s'
        by (auto simp: c_fwrite_def writer_def Let_def st_view_def st_end_def overlay_append)
    qed
  qed
qed

text \<open>After \<open>fflush\<close> the kernel has what the stream shows.\<close>

lemma fflush_view:
  assumes w: "writer s f i" and room: "st_end s f \<le> cap s i"
  shows "\<exists>s' st'. c_fflush1 s f = Some (0, s') \<and> writer s' f i \<and> only f i s s' \<and> cap s' i = cap s i \<and> content s' i = st_view s f
    \<and> fs_streams s' f = Some st' \<and> st_pend st' = [] \<and> st_pos st' = st_end s f \<and> (\<exists>st. fs_streams s f = Some st \<and> st_rd st' = st_rd st)"
proof -
  from w obtain st n where st: "fs_streams s f = Some st" "st_wr st" "\<not> st_app st" "st_ino st = i" "st_last st = Reading \<longrightarrow> st_eof st"
    and n: "fs_nodes s i = Some n" "is_reg n" by (auto simp: writer_def)
  from flush_stream_fits [of st i s n f st] st n room obtain s' where
    fl: "flush_stream s f st = (length (st_pend st), st\<lparr>st_pos := st_pos st + length (st_pend st), st_pend := []\<rparr>, s')"
    and o: "only f i s s'" "content s' i = overlay (content s i) (st_pos st) (st_pend st)" "cap s' i = cap s i"
      "\<exists>n'. fs_nodes s' i = Some n' \<and> is_reg n'"
    by (auto simp: st_end_def)
  let ?st' = "let st1 = st\<lparr>st_pos := st_pos st + length (st_pend st), st_pend := []\<rparr>
              in if st_last st1 = Writing then st1\<lparr>st_last := Idle\<rparr> else st1"
  show ?thesis using st o
    by (intro exI [of _ "put_stream s' f ?st'"] exI [of _ ?st'])
       (auto simp: c_fflush1_def fl writer_def st_view_def st_end_def Let_def intro: only_trans)
qed

section \<open>Opening and closing\<close>

definition size_at :: "fs \<Rightarrow> string \<Rightarrow> nat" where
  "size_at s p = (case map_of (fs_names s) p of None \<Rightarrow> 0 | Some i \<Rightarrow> length (content s i))"

lemma open_ino_simps [simp]:
  "fst (open_ino s i k u) = fs_next s" "fs_streams (snd (open_ino s i k u)) (fs_next s) = Some (new_stream i k u)"
  "fs_nodes (snd (open_ino s i k u)) = fs_nodes s" "fs_names (snd (open_ino s i k u)) = fs_names s"
  "fs_room (snd (open_ino s i k u)) = fs_room s" "content (snd (open_ino s i k u)) j = content s j"
  "fs_allow (snd (open_ino s i k u)) = fs_allow s"
  by (simp_all add: open_ino_def put_stream_def content_def)

text \<open>A file opened with \<open>w\<close> is empty and may grow by its old size and the room.\<close>

lemma fopen_w:
  assumes wf: "wf_fs s" and m: "parse_mode m = Some (Open_w, u)" and op: "c_fopen s p m = (h, s1)" and h: "h \<noteq> 0"
  shows "\<exists>i. map_of (fs_names s1) p = Some i \<and> writer s1 h i \<and> fs_streams s1 h = Some (new_stream i Open_w u)
    \<and> content s1 i = [] \<and> cap s1 i = size_at s p + fs_room s \<and> fs_allow s1 = fs_allow s"
proof (cases "map_of (fs_names s) p")
  case None
  then have n: "p \<notin> fst ` set (fs_names s)" by (simp add: map_of_eq_None_iff)
  show ?thesis using op h None m n
    by (auto simp: c_fopen_def open_ino_def add_node_def put_stream_def writer_def content_def cap_def size_at_def new_stream_def
             map_add_Some_iff split: if_splits)
next
  case (Some i)
  then obtain nd where nd: "fs_nodes s i = Some nd" using wf_map_of [OF wf] by blast
  then show ?thesis using op h Some m
    by (auto simp: c_fopen_def open_ino_def set_content_def put_stream_def writer_def content_def cap_def size_at_def new_stream_def
             split: if_splits node.splits)
qed

lemma fopen_existing:
  assumes "parse_mode m = Some (k, u)" "k \<noteq> Open_w" "map_of (fs_names s) p = Some i" "fs_nodes s i = Some (Reg a c d)"
    and "fs_allow s p (need k u)"
  shows "c_fopen s p m = open_ino s i k u"
  using assms by (simp add: c_fopen_def)

lemma only_names: "only f i s s' \<Longrightarrow> fs_names s' = fs_names s \<and> fs_allow s' = fs_allow s \<and> fs_next s' = fs_next s"
  by (simp add: only_def frame_def)

text \<open>Closing a stream whose buffer fits leaves in the file what the stream showed.\<close>

lemma fclose_view:
  assumes w: "writer s f i" and room: "st_end s f \<le> cap s i"
  shows "\<exists>s'. c_fclose s f = Some (0, s') \<and> only f i s s' \<and> content s' i = st_view s f \<and> fs_streams s' f = None
    \<and> (\<exists>n. fs_nodes s' i = Some n \<and> is_reg n) \<and> cap s' i = cap s i"
proof -
  from fflush_view [OF assms] obtain s1 where f: "c_fflush1 s f = Some (0, s1)" "writer s1 f i" "only f i s s1"
      "content s1 i = st_view s f" "cap s1 i = cap s i" by blast
  let ?s' = "s1\<lparr>fs_streams := (fs_streams s1)(f := None)\<rparr>"
  have "only f i s1 ?s'" "content ?s' i = content s1 i" "cap ?s' i = cap s1 i"
    by (auto simp: only_def frame_def kinds_kept_def content_def cap_def)
  then show ?thesis using f only_trans by (intro exI [of _ ?s']) (auto simp: c_fclose_def writer_def)
qed

end
