(* ===== verification/Tkl_Fs.thy ===== *)
theory Tkl_Fs
  imports Stdio_Laws
begin

text \<open>
  The file interface of \<open>tkl_fs.c\<close>, one definition per function, over the files and streams of
  \<open>C_Stdio\<close>.  A null test of an output pointer is a boolean argument, and what is stored through
  the pointer a component of the result (\<open>None\<close>: nothing is stored).  The outer \<open>None\<close> is undefined
  behaviour: a null, closed or foreign handle, or a value that was never set.
\<close>

section \<open>Files by name\<close>

definition tkl_fs_mkdir :: "fs \<Rightarrow> string \<Rightarrow> int \<times> fs" where
  "tkl_fs_mkdir s path = c_mkdir s path 0x1ED"

definition tkl_fs_remove :: "fs \<Rightarrow> string \<Rightarrow> int \<times> fs" where
  "tkl_fs_remove s path = c_remove s path"

definition tkl_fs_mode :: "fs \<Rightarrow> string \<Rightarrow> bool \<Rightarrow> int \<times> u32 option" where
  "tkl_fs_mode s path mode_null =
     (if mode_null then (-1, None)
      else case c_stat s path of None \<Rightarrow> (-1, None) | Some (md, sz) \<Rightarrow> (0, Some md))"

definition tkl_fs_is_exist :: "fs \<Rightarrow> string \<Rightarrow> bool \<Rightarrow> int \<times> bool option" where
  "tkl_fs_is_exist s path is_exist_null =
     (if is_exist_null then (-1, None) else (0, Some (c_access s path 0 = 0)))"

definition tkl_fs_rename :: "fs \<Rightarrow> string \<Rightarrow> string \<Rightarrow> int \<times> fs" where
  "tkl_fs_rename s path_old path_new = c_rename s path_old path_new"

section \<open>Directories\<close>

definition tkl_dir_open :: "fs \<Rightarrow> string \<Rightarrow> bool \<Rightarrow> int \<times> nat option \<times> fs" where
  "tkl_dir_open s path dir_null =
     (if dir_null then (-1, None, s)
      else case c_opendir s path of (d, s') \<Rightarrow> if d = 0 then (-1, None, s') else (0, Some d, s'))"

definition tkl_dir_close :: "fs \<Rightarrow> nat \<Rightarrow> (int \<times> fs) option" where
  "tkl_dir_close s dir = c_closedir s dir"

definition tkl_dir_read :: "fs \<Rightarrow> nat \<Rightarrow> bool \<Rightarrow> (int \<times> (string \<times> d_type) option \<times> fs) option" where
  "tkl_dir_read s dir info_null =
     (if info_null then Some (-1, None, s)
      else do { (dp, s') \<leftarrow> c_readdir s dir;
                Some (case dp of None \<Rightarrow> (-1, None, s') | Some e \<Rightarrow> (0, Some e, s')) })"

text \<open>A directory entry is a name and a type; the null pointer is \<open>None\<close>.\<close>

definition tkl_dir_name :: "(string \<times> d_type) option \<Rightarrow> bool \<Rightarrow> int \<times> string option" where
  "tkl_dir_name info name_null =
     (if name_null then (-1, None) else case info of None \<Rightarrow> (-1, None) | Some dp \<Rightarrow> (0, Some (fst dp)))"

definition tkl_dir_is_directory :: "(string \<times> d_type) option \<Rightarrow> bool \<Rightarrow> (int \<times> bool option) option" where
  "tkl_dir_is_directory info is_dir_null =
     (if is_dir_null then Some (-1, None) else case info of None \<Rightarrow> None | Some dp \<Rightarrow> Some (0, Some (snd dp = DT_DIR)))"

definition tkl_dir_is_regular :: "(string \<times> d_type) option \<Rightarrow> bool \<Rightarrow> (int \<times> bool option) option" where
  "tkl_dir_is_regular info is_regular_null =
     (if is_regular_null then Some (-1, None) else case info of None \<Rightarrow> None | Some dp \<Rightarrow> Some (0, Some (snd dp = DT_REG)))"

section \<open>Streams\<close>

definition tkl_fopen :: "fs \<Rightarrow> string \<Rightarrow> string \<Rightarrow> nat \<times> fs" where
  "tkl_fopen s path mode = c_fopen s path mode"

definition tkl_fclose :: "fs \<Rightarrow> nat \<Rightarrow> (int \<times> fs) option" where
  "tkl_fclose s file = c_fclose s file"

text \<open>The bytes stored in the buffer and the result.\<close>

definition tkl_fread :: "fs \<Rightarrow> int \<Rightarrow> nat \<Rightarrow> (int \<times> bytes \<times> fs) option" where
  "tkl_fread s bytes file = do { (d, s') \<leftarrow> c_fread s file (c_size bytes); Some (c_int (int (length d)), d, s') }"

text \<open>A count beyond the end of the buffer would read past it.\<close>

definition tkl_fwrite :: "fs \<Rightarrow> bytes \<Rightarrow> int \<Rightarrow> nat \<Rightarrow> (int \<times> fs) option" where
  "tkl_fwrite s buf bytes file =
     (if length buf < c_size bytes then None
      else do { (n, s') \<leftarrow> c_fwrite s file (take (c_size bytes) buf); Some (c_int (int n), s') })"

definition tkl_fsync :: "fs \<Rightarrow> int \<Rightarrow> int \<times> fs" where
  "tkl_fsync s fd = c_fsync s fd"

definition tkl_fgets :: "fs \<Rightarrow> int \<Rightarrow> nat \<Rightarrow> (byte_ptr \<times> fs) option" where
  "tkl_fgets s len file = c_fgets s file len"

definition tkl_feof :: "fs \<Rightarrow> nat \<Rightarrow> int option" where
  "tkl_feof s file = c_feof s file"

definition tkl_fseek :: "fs \<Rightarrow> nat \<Rightarrow> int \<Rightarrow> int \<Rightarrow> (int \<times> fs) option" where
  "tkl_fseek s file offs whence = c_fseek s file offs whence"

definition tkl_ftell :: "fs \<Rightarrow> nat \<Rightarrow> int option" where
  "tkl_ftell s file = c_ftell s file"

text \<open>The result of \<open>stat\<close> is not tested: for a missing file the size was never set.\<close>

definition tkl_fgetsize :: "fs \<Rightarrow> string \<Rightarrow> int option" where
  "tkl_fgetsize s filepath = do { (md, sz) \<leftarrow> c_stat s filepath; Some (c_int (int sz)) }"

definition tkl_faccess :: "fs \<Rightarrow> string \<Rightarrow> int \<Rightarrow> int" where
  "tkl_faccess s filepath mode = c_access s filepath mode"

definition tkl_fgetc :: "fs \<Rightarrow> nat \<Rightarrow> (int \<times> fs) option" where
  "tkl_fgetc s file = c_fgetc s file"

definition tkl_fflush :: "fs \<Rightarrow> nat \<Rightarrow> (int \<times> fs) option" where
  "tkl_fflush s file = c_fflush s file"

definition tkl_fileno :: "fs \<Rightarrow> nat \<Rightarrow> int option" where
  "tkl_fileno s file = c_fileno s file"

definition tkl_ftruncate :: "fs \<Rightarrow> int \<Rightarrow> u64 \<Rightarrow> int \<times> fs" where
  "tkl_ftruncate s fd len = c_ftruncate s fd len"

section \<open>Sessions\<close>

datatype fs_op =
    Mkdir string | Remove string | Mode string bool | IsExist string bool | Rename string string
  | DirOpen string bool | DirClose nat | DirRead nat bool
  | Fopen string string | Fclose nat | Fread int nat | Fwrite bytes int nat | Fsync int | Fgets int nat | Feof nat
  | Fseek nat int int | Ftell nat | Fgetsize string | Faccess string int | Fgetc nat | Fflush nat | Fileno nat
  | Ftruncate int u64

text \<open>The state a call leaves; \<open>None\<close> if its behaviour is undefined.\<close>

fun fs_step :: "fs \<Rightarrow> fs_op \<Rightarrow> fs option" where
  "fs_step s (Mkdir p) = Some (snd (tkl_fs_mkdir s p))"
| "fs_step s (Remove p) = Some (snd (tkl_fs_remove s p))"
| "fs_step s (Mode p z) = (let r = tkl_fs_mode s p z in Some s)"
| "fs_step s (IsExist p z) = (let r = tkl_fs_is_exist s p z in Some s)"
| "fs_step s (Rename p q) = Some (snd (tkl_fs_rename s p q))"
| "fs_step s (DirOpen p z) = Some (snd (snd (tkl_dir_open s p z)))"
| "fs_step s (DirClose d) = map_option snd (tkl_dir_close s d)"
| "fs_step s (DirRead d z) = map_option (snd \<circ> snd) (tkl_dir_read s d z)"
| "fs_step s (Fopen p m) = Some (snd (tkl_fopen s p m))"
| "fs_step s (Fclose f) = map_option snd (tkl_fclose s f)"
| "fs_step s (Fread n f) = map_option (snd \<circ> snd) (tkl_fread s n f)"
| "fs_step s (Fwrite b n f) = map_option snd (tkl_fwrite s b n f)"
| "fs_step s (Fsync fd) = Some (snd (tkl_fsync s fd))"
| "fs_step s (Fgets n f) = map_option snd (tkl_fgets s n f)"
| "fs_step s (Feof f) = map_option (\<lambda>_. s) (tkl_feof s f)"
| "fs_step s (Fseek f o' w) = map_option snd (tkl_fseek s f o' w)"
| "fs_step s (Ftell f) = map_option (\<lambda>_. s) (tkl_ftell s f)"
| "fs_step s (Fgetsize p) = map_option (\<lambda>_. s) (tkl_fgetsize s p)"
| "fs_step s (Faccess p m) = (let r = tkl_faccess s p m in Some s)"
| "fs_step s (Fgetc f) = map_option snd (tkl_fgetc s f)"
| "fs_step s (Fflush f) = map_option snd (tkl_fflush s f)"
| "fs_step s (Fileno f) = map_option (\<lambda>_. s) (tkl_fileno s f)"
| "fs_step s (Ftruncate fd n) = Some (snd (tkl_ftruncate s fd n))"

fun fs_session :: "fs \<Rightarrow> fs_op list \<Rightarrow> fs option" where
  "fs_session s [] = Some s"
| "fs_session s (c # cs) = do { s' \<leftarrow> fs_step s c; fs_session s' cs }"

definition start_fs :: "nat \<Rightarrow> nat \<Rightarrow> fs" where
  "start_fs room bufsiz =
     \<lparr>fs_names = [], fs_nodes = Map.empty, fs_next_ino = 0, fs_streams = Map.empty, fs_dirs = Map.empty, fs_next = 1,
      fs_room = room, fs_bufsiz = bufsiz, fs_umask = 0x12, fs_allow = (\<lambda>p m. True), fs_types = True\<rparr>"

lemma wf_start_fs: "wf_fs (start_fs room bufsiz)"
  by (simp add: wf_fs_def start_fs_def)

lemmas tkl_fs_defs = tkl_fs_mkdir_def tkl_fs_remove_def tkl_fs_rename_def tkl_dir_open_def tkl_dir_close_def tkl_dir_read_def
  tkl_fopen_def tkl_fclose_def tkl_fread_def tkl_fwrite_def tkl_fsync_def tkl_fgets_def tkl_fseek_def tkl_fgetc_def
  tkl_fflush_def tkl_ftruncate_def

lemma fs_step_wf:
  assumes wf: "wf_fs s" and op: "fs_step s c = Some s'"
  shows "wf_fs s'"
proof -
  note snd_wf = c_mkdir_wf [OF wf surjective_pairing] c_remove_wf [OF wf surjective_pairing] c_rename_wf [OF wf surjective_pairing]
    c_fopen_wf [OF wf surjective_pairing] c_fsync_wf [OF wf surjective_pairing] c_ftruncate_wf [OF wf surjective_pairing]
  note opt_wf = c_readdir_wf [OF wf] c_closedir_wf [OF wf] c_fflush_wf [OF wf] c_fclose_wf [OF wf] c_fwrite_wf [OF wf]
    c_fread_wf [OF wf] c_fgetc_wf [OF wf] c_fgets_wf [OF wf] c_fseek_wf [OF wf] c_opendir_wf [OF wf]
  show ?thesis using op wf
    by (cases c) (auto simp: tkl_fs_defs Let_def snd_wf split: bind_splits prod.splits option.splits if_splits dest: opt_wf)
qed

text \<open>
  Over any session of calls of the file interface, on files and streams in any well-formed state,
  every name leads to a file, every open handle is a number in use that belongs to a file, a stream
  writes only to a regular file and buffers only bytes that were written, and no name occurs twice.
\<close>

theorem tkl_fs_session_wf:
  assumes "wf_fs s" "fs_session s cs = Some s'"
  shows "wf_fs s'"
  using assms by (induction cs arbitrary: s) (auto split: bind_splits dest: fs_step_wf)

theorem tkl_fs_session_wf_witness:
  "wf_fs (start_fs 100 8) \<and>
   fs_session (start_fs 100 8) [Mkdir ''d'', Fopen ''d/a'' ''wb'', Fwrite [1, 2, 3] 3 1, Fclose 1, Rename ''d/a'' ''d/b'', Fopen ''d/b'' ''r'', Fread 9 2] \<noteq> None
   \<and> wf_fs (the (fs_session (start_fs 100 8) [Mkdir ''d'', Fopen ''d/a'' ''wb'', Fwrite [1, 2, 3] 3 1, Fclose 1, Rename ''d/a'' ''d/b'', Fopen ''d/b'' ''r'', Fread 9 2]))"
proof -
  have ok: "fs_session (start_fs 100 8) [Mkdir ''d'', Fopen ''d/a'' ''wb'', Fwrite [1, 2, 3] 3 1, Fclose 1, Rename ''d/a'' ''d/b'', Fopen ''d/b'' ''r'', Fread 9 2] \<noteq> None"
    by code_simp
  then obtain s' where s': "fs_session (start_fs 100 8) [Mkdir ''d'', Fopen ''d/a'' ''wb'', Fwrite [1, 2, 3] 3 1, Fclose 1, Rename ''d/a'' ''d/b'', Fopen ''d/b'' ''r'', Fread 9 2] = Some s'"
    by blast
  from tkl_fs_session_wf [OF wf_start_fs this] s' wf_start_fs show ?thesis by simp
qed

section \<open>Writing a file and reading it back\<close>

fun fwrite_all :: "fs \<Rightarrow> nat \<Rightarrow> bytes list \<Rightarrow> (int list \<times> fs) option" where
  "fwrite_all s file [] = Some ([], s)"
| "fwrite_all s file (d # ds) = do {
     (r, s1) \<leftarrow> tkl_fwrite s d (int (length d)) file;
     (rs, s2) \<leftarrow> fwrite_all s1 file ds;
     Some (r # rs, s2)
   }"

lemma c_size_nat [simp]: "n < 2 ^ 63 \<Longrightarrow> c_size (int n) = n"
  by (simp add: c_size_def)

lemma c_int_small: "0 \<le> n \<Longrightarrow> n < 2147483648 \<Longrightarrow> c_int n = n"
  by (simp add: c_int_def signed_take_bit_int_eq_self)

lemma tkl_fwrite_view:
  assumes "writer s f i" "st_end s f + length d \<le> cap s i" "length d < 2147483648"
  shows "\<exists>s'. tkl_fwrite s d (int (length d)) f = Some (int (length d), s') \<and> writer s' f i \<and> only f i s s' \<and> cap s' i = cap s i
    \<and> st_view s' f = overlay (st_view s f) (st_end s f) d \<and> st_end s' f = st_end s f + length d"
  using fwrite_view [OF assms(1,2)] assms(3) by (auto simp: tkl_fwrite_def c_int_small)

lemma tkl_fwrite_wf: "wf_fs s \<Longrightarrow> tkl_fwrite s b n f = Some (r, s') \<Longrightarrow> wf_fs s'"
  by (auto simp: tkl_fwrite_def split: if_splits bind_splits dest: c_fwrite_wf)

lemma tkl_fwrite_rd:
  assumes "tkl_fwrite s b n f = Some (r, s')" "fs_streams s f = Some st"
  shows "st_rd (the (fs_streams s' f)) = st_rd st"
proof -
  let ?st1 = "st\<lparr>st_pend := st_pend st @ take (c_size n) b, st_last := Writing, st_eof := False\<rparr>"
  obtain n2 st2 s2 where fl: "flush_stream s f ?st1 = (n2, st2, s2)" by (metis surj_pair)
  have "take (c_size n) b \<noteq> [] \<Longrightarrow> fs_streams s2 f = Some st2"
    using fl by (auto simp: flush_stream_cons Let_def)
  with flush_stream_st [OF fl] assms fl show ?thesis
    by (auto simp: tkl_fwrite_def c_fwrite_def Let_def split: if_splits)
qed

lemma fwrite_all_view:
  assumes "writer s f i" "st_end s f + length (concat ds) \<le> cap s i" "\<forall>d \<in> set ds. length d < 2147483648"
  shows "\<exists>s'. fwrite_all s f ds = Some (map (\<lambda>d. int (length d)) ds, s') \<and> writer s' f i \<and> only f i s s' \<and> cap s' i = cap s i
    \<and> st_view s' f = overlay (st_view s f) (st_end s f) (concat ds) \<and> st_end s' f = st_end s f + length (concat ds)"
  using assms
proof (induction ds arbitrary: s)
  case Nil then show ?case by (intro exI [of _ s]) simp
next
  case (Cons d ds)
  from tkl_fwrite_view [of s f i d] Cons.prems obtain s1 where
    s1: "tkl_fwrite s d (int (length d)) f = Some (int (length d), s1)" "writer s1 f i" "only f i s s1" "cap s1 i = cap s i"
      "st_view s1 f = overlay (st_view s f) (st_end s f) d" "st_end s1 f = st_end s f + length d" by auto
  from Cons.IH [of s1] s1 Cons.prems obtain s2 where
    s2: "fwrite_all s1 f ds = Some (map (\<lambda>d. int (length d)) ds, s2)" "writer s2 f i" "only f i s1 s2" "cap s2 i = cap s1 i"
      "st_view s2 f = overlay (st_view s1 f) (st_end s1 f) (concat ds)" "st_end s2 f = st_end s1 f + length (concat ds)" by auto
  show ?case using s1 s2 only_trans [OF s1(3) s2(3)] by (intro exI [of _ s2]) (simp add: overlay_append)
qed

lemma block_le_concat: "d \<in> set ds \<Longrightarrow> length d \<le> sum_list (map length ds)"
  by (rule member_le_sum_list) auto

text \<open>
  C12: A file that \<open>tkl_fopen\<close> opens for writing, that takes any list of blocks by \<open>tkl_fwrite\<close> and is
  closed by \<open>tkl_fclose\<close>, holds exactly the blocks in order, whatever it held before: every call
  reports the full length, the size of the file is the total length, and a stream opened for reading
  delivers the first bytes asked for, all of them when the count is large enough.  The disk must have
  room for the data and the size must be below 2 GB.
\<close>

theorem tkl_fs_write_read:
  assumes "wf_fs s" "tkl_fopen s p ''wb'' = (h, s1)" "h \<noteq> 0"
    and "length (concat ds) \<le> size_at s p + fs_room s" "length (concat ds) < 2147483648" "fs_allow s p 4"
  shows "\<exists>s2 s3 h' s4. fwrite_all s1 h ds = Some (map (\<lambda>d. int (length d)) ds, s2) \<and> tkl_fclose s2 h = Some (0, s3)
    \<and> tkl_fgetsize s3 p = Some (int (length (concat ds)))
    \<and> tkl_fopen s3 p ''rb'' = (h', s4) \<and> h' \<noteq> 0
    \<and> (\<forall>n. 0 \<le> n \<longrightarrow> n < 2147483648 \<longrightarrow> (\<exists>s5. tkl_fread s4 n h' =
          Some (min n (int (length (concat ds))), take (nat n) (concat ds), s5)))"
proof -
  let ?all = "concat ds"
  from fopen_w [OF assms(1) _ assms(2) [unfolded tkl_fopen_def] assms(3), of False] obtain i where
    i: "map_of (fs_names s1) p = Some i" "writer s1 h i" "fs_streams s1 h = Some (new_stream i Open_w False)" "content s1 i = []"
      "cap s1 i = size_at s p + fs_room s" "fs_allow s1 = fs_allow s" by auto
  have v: "st_view s1 h = []" "st_end s1 h = 0" using i by (simp_all add: st_view_def st_end_def new_stream_def)
  have small: "\<forall>d \<in> set ds. length d < 2147483648"
    using assms(5) by (auto simp: length_concat dest: block_le_concat)
  from fwrite_all_view [OF i(2) _ small] v assms(4) i(5) obtain s2 where
    s2: "fwrite_all s1 h ds = Some (map (\<lambda>d. int (length d)) ds, s2)" "writer s2 h i" "only h i s1 s2" "cap s2 i = cap s1 i"
      "st_view s2 h = ?all" "st_end s2 h = length ?all" by (auto simp: overlay_empty)
  from fclose_view [OF s2(2)] s2 assms(4) i(5) obtain s3 perm dk where
    s3: "c_fclose s2 h = Some (0, s3)" "only h i s2 s3" "fs_nodes s3 i = Some (Reg perm ?all dk)"
    by (auto simp: content_def elim!: is_regE)
  have n3: "map_of (fs_names s3) p = Some i" "fs_allow s3 p 4"
    using only_names [OF s2(3)] only_names [OF s3(2)] i assms(6) by simp_all
  have o4: "c_fopen s3 p ''rb'' = open_ino s3 i Open_r False"
    by (rule fopen_existing) (use n3 s3(3) in \<open>simp_all add: need_def\<close>)
  have pos: "fs_next s3 \<noteq> 0"
    using c_fopen_wf [OF assms(1) assms(2) [unfolded tkl_fopen_def]] only_names [OF s2(3)] only_names [OF s3(2)] by (simp add: wf_fs_def)
  let ?s4 = "snd (open_ino s3 i Open_r False)"
  have rd: "\<exists>s5. tkl_fread ?s4 n (fs_next s3) = Some (min n (int (length ?all)), take (nat n) ?all, s5)"
    if "0 \<le> n" "n < 2147483648" for n
    using that s3(3) assms(5) by (auto simp: tkl_fread_def c_fread_def new_stream_def content_def c_size_def c_int_small Let_def)
  have "tkl_fgetsize s3 p = Some (int (length ?all))"
    using n3 s3(3) assms(5) by (simp add: tkl_fgetsize_def c_stat_def node_of_def c_int_small)
  moreover have "tkl_fopen s3 p ''rb'' = (fs_next s3, ?s4)" by (simp add: tkl_fopen_def o4 open_ino_def)
  ultimately show ?thesis using s2(1) s3(1) pos rd by (auto simp: tkl_fclose_def)
qed

theorem tkl_fs_write_read_witness:
  "wf_fs (start_fs 10 4) \<and> fst (tkl_fopen (start_fs 10 4) ''a'' ''wb'') = 1 \<and>
   (\<exists>s2 s3. fwrite_all (snd (tkl_fopen (start_fs 10 4) ''a'' ''wb'')) 1 [[1, 2], [3, 4, 5]] = Some ([2, 3], s2)
     \<and> tkl_fclose s2 1 = Some (0, s3) \<and> tkl_fgetsize s3 ''a'' = Some 5)"
proof -
  have "fst (tkl_fopen (start_fs 10 4) ''a'' ''wb'') = 1" by code_simp
  then have f: "tkl_fopen (start_fs 10 4) ''a'' ''wb'' = (1, snd (tkl_fopen (start_fs 10 4) ''a'' ''wb''))"
    by (metis prod.collapse)
  have "size_at (start_fs 10 4) ''a'' + fs_room (start_fs 10 4) = 10" by code_simp
  moreover have "fs_allow (start_fs 10 4) ''a'' 4" by (simp add: start_fs_def)
  ultimately obtain s2 s3 where "fwrite_all (snd (tkl_fopen (start_fs 10 4) ''a'' ''wb'')) 1 [[1, 2], [3, 4, 5]] = Some ([2, 3], s2)"
      "tkl_fclose s2 1 = Some (0, s3)" "tkl_fgetsize s3 ''a'' = Some 5"
    using tkl_fs_write_read [OF wf_start_fs f, of "[[1, 2], [3, 4, 5]]"] by (auto simp del: fwrite_all.simps)
  then show ?thesis using wf_start_fs f by (metis fst_conv)
qed

end
