(* ===== verification/Byte_Device.thy ===== *)
theory Byte_Device
  imports Stdio_Laws
begin

text \<open>
  The contract of a store of bytes that can be read and written at any address: a write replaces the
  bytes at its address, a read returns them and changes nothing.  What follows from it, and not from
  how the store works, is proved here once: writes that stay inside one area never disturb another.
\<close>

locale byte_device =
  fixes ok :: "'d \<Rightarrow> bool"
    and img :: "'d \<Rightarrow> bytes"
    and limit :: "'d \<Rightarrow> nat"
    and wr :: "'d \<Rightarrow> nat \<Rightarrow> bytes \<Rightarrow> 'd option"
    and rd :: "'d \<Rightarrow> nat \<Rightarrow> nat \<Rightarrow> (bytes \<times> 'd) option"
  assumes wr_img: "ok d \<Longrightarrow> a + length b \<le> limit d \<Longrightarrow>
      \<exists>d'. wr d a b = Some d' \<and> ok d' \<and> img d' = overlay (img d) a b \<and> limit d' = limit d"
    and rd_img: "ok d \<Longrightarrow> a + n \<le> limit d \<Longrightarrow> a + n \<le> length (img d) \<Longrightarrow>
      \<exists>d'. rd d a n = Some (take n (drop a (img d)), d') \<and> ok d' \<and> img d' = img d \<and> limit d' = limit d"
begin

fun writes :: "'d \<Rightarrow> (nat \<times> bytes) list \<Rightarrow> 'd option" where
  "writes d [] = Some d"
| "writes d ((a, b) # ws) = (case wr d a b of None \<Rightarrow> None | Some d' \<Rightarrow> writes d' ws)"

text \<open>All of \<open>ws\<close> lie in the area of \<open>len\<close> bytes at \<open>lo\<close>.\<close>

definition within :: "nat \<Rightarrow> nat \<Rightarrow> (nat \<times> bytes) list \<Rightarrow> bool" where
  "within lo len ws \<longleftrightarrow> (\<forall>(a, b) \<in> set ws. lo \<le> a \<and> a + length b \<le> lo + len)"

lemma writes_outside:
  assumes "ok d" "within lo len ws" "lo + len \<le> limit d" "q + n \<le> lo \<or> lo + len \<le> q" "q + n \<le> length (img d)"
  shows "\<exists>d'. writes d ws = Some d' \<and> ok d' \<and> limit d' = limit d \<and> take n (drop q (img d')) = take n (drop q (img d))
    \<and> length (img d) \<le> length (img d')"
  using assms
proof (induction ws arbitrary: d)
  case (Cons w ws)
  obtain a b where w: "w = (a, b)" by fastforce
  have in1: "lo \<le> a" "a + length b \<le> lo + len" and ws: "within lo len ws" using Cons.prems(2) w by (auto simp: within_def)
  from wr_img [of d a b] Cons.prems in1 obtain d1 where
    d1: "wr d a b = Some d1" "ok d1" "img d1 = overlay (img d) a b" "limit d1 = limit d" by auto
  have same: "take n (drop q (img d1)) = take n (drop q (img d))"
    unfolding d1(3) using Cons.prems(4,5) in1 by (intro overlay_read_other) auto
  have len: "length (img d) \<le> length (img d1)" unfolding d1(3) by (rule length_overlay_ge)
  from Cons.IH [of d1] d1 ws Cons.prems len obtain d' where
    "writes d1 ws = Some d'" "ok d'" "limit d' = limit d1" "take n (drop q (img d')) = take n (drop q (img d1))"
    "length (img d1) \<le> length (img d')" by auto
  then show ?case using w d1 same len by auto
qed simp

lemma read_undisturbed:
  assumes "ok d" "within lo len ws" "lo + len \<le> limit d" "q + n \<le> lo \<or> lo + len \<le> q" "q + n \<le> length (img d)" "q + n \<le> limit d"
  shows "\<exists>d' d''. writes d ws = Some d' \<and> ok d' \<and> rd d' q n = Some (take n (drop q (img d)), d'')"
proof -
  from writes_outside [OF assms(1-5)] obtain d' where d': "writes d ws = Some d'" "ok d'" "limit d' = limit d"
    "take n (drop q (img d')) = take n (drop q (img d))" "length (img d) \<le> length (img d')" by blast
  with rd_img [of d' q n] assms(5,6) show ?thesis by auto
qed

end

end
