(* ===== verification/Tkl_Flash.thy ===== *)
theory Tkl_Flash
  imports Tkl_Fs Byte_Device
begin

text \<open>
  The flash of \<open>tkl_flash.c\<close>: a file of 256 MB, created on first use and accessed through one
  stream that stays open.  The state is the file system with the static variable \<open>s_flash_file\<close>.
  \<open>kv_protected\<close> is the build option \<open>KV_PROTECTED_ENABLE\<close>; the path is the default one.
\<close>

section \<open>Layout\<close>

datatype TUYA_FLASH_TYPE_E =
    TUYA_FLASH_TYPE_BTL0 | TUYA_FLASH_TYPE_BTL1 | TUYA_FLASH_TYPE_STACK | TUYA_FLASH_TYPE_APP_BIN | TUYA_FLASH_TYPE_APP
  | TUYA_FLASH_TYPE_OTA | TUYA_FLASH_TYPE_USER0 | TUYA_FLASH_TYPE_USER1 | TUYA_FLASH_TYPE_KV_DATA | TUYA_FLASH_TYPE_KV_SWAP
  | TUYA_FLASH_TYPE_KV_KEY | TUYA_FLASH_TYPE_UF | TUYA_FLASH_TYPE_INFO | TUYA_FLASH_TYPE_KV_UF | TUYA_FLASH_TYPE_KV_PROTECT
  | TUYA_FLASH_TYPE_RCD | TUYA_FLASH_TYPE_RSV0 | TUYA_FLASH_TYPE_RSV1 | TUYA_FLASH_TYPE_RSV2 | TUYA_FLASH_TYPE_RSV3
  | TUYA_FLASH_TYPE_RSV4 | TUYA_FLASH_TYPE_RSV5 | TUYA_FLASH_TYPE_RSV6 | TUYA_FLASH_TYPE_RSV7 | TUYA_FLASH_TYPE_ALL
  | TUYA_FLASH_TYPE_MAX

record TUYA_FLASH_PARTITION_T =
  fp_block_size :: u32
  fp_start_addr :: u32
  fp_size :: u32

text \<open>The code only ever fills the first partition of an information record.\<close>

record TUYA_FLASH_BASE_INFO_T =
  fi_partition_num :: u32
  fi_partition0 :: TUYA_FLASH_PARTITION_T

definition FLASH_FILE_PATH :: string where "FLASH_FILE_PATH = ''./tuyadb''"
definition FLASH_FILE_NAME :: string where "FLASH_FILE_NAME = FLASH_FILE_PATH @ ''/tuyadb''"
definition FLASH_FILE_SIZE :: nat where "FLASH_FILE_SIZE = 256 * 1024 * 1024"
definition PARTITION_SIZE :: nat where "PARTITION_SIZE = 4096"

definition SIMPLE_FLASH_KEY_ADDR :: u32 where "SIMPLE_FLASH_KEY_ADDR = 0"
definition SIMPLE_FLASH_START :: u32 where "SIMPLE_FLASH_START = SIMPLE_FLASH_KEY_ADDR + of_nat PARTITION_SIZE"
definition SIMPLE_FLASH_SIZE :: u32 where "SIMPLE_FLASH_SIZE = 0x8000"
definition UF_PARTITION_START :: u32 where "UF_PARTITION_START = SIMPLE_FLASH_START + SIMPLE_FLASH_SIZE"
definition UF_PARTITION_SIZE :: u32 where "UF_PARTITION_SIZE = 0x18000"
definition RCD_FILE_START :: u32 where "RCD_FILE_START = UF_PARTITION_START + UF_PARTITION_SIZE"
definition RCD_FILE_SIZE :: u32 where "RCD_FILE_SIZE = 0x19000"
definition SIMPLE_FLASH_KV_PROTECTED_START :: u32 where "SIMPLE_FLASH_KV_PROTECTED_START = RCD_FILE_START + RCD_FILE_SIZE"
definition SIMPLE_FLASH_KV_PROTECTED_SIZE :: u32 where "SIMPLE_FLASH_KV_PROTECTED_SIZE = 0x1000"

record flash =
  fl_fs :: fs
  s_flash_file :: nat

section \<open>Operations\<close>

definition tkl_flash_read :: "flash \<Rightarrow> u32 \<Rightarrow> u32 \<Rightarrow> (OPERATE_RET \<times> bytes \<times> flash) option" where
  "tkl_flash_read fl addr sz =
     (if s_flash_file fl = 0 then Some (OPRT_RESOURCE_NOT_READY, [], fl)
      else do {
        (r, s1) \<leftarrow> tkl_fseek (fl_fs fl) (s_flash_file fl) (uint addr) SEEK_SET;
        if 0 \<noteq> r then Some (OPRT_FILE_OPEN_FAILED, [], fl\<lparr>fl_fs := s1\<rparr>)
        else do {
          (ret, d, s2) \<leftarrow> tkl_fread s1 (c_int (uint sz)) (s_flash_file fl);
          Some (if sz \<noteq> of_int ret then OPRT_FILE_READ_FAILED else OPRT_OK, d, fl\<lparr>fl_fs := s2\<rparr>)
        }
      })"

definition tkl_flash_write :: "flash \<Rightarrow> u32 \<Rightarrow> bytes \<Rightarrow> u32 \<Rightarrow> (OPERATE_RET \<times> flash) option" where
  "tkl_flash_write fl addr src sz =
     (if s_flash_file fl = 0 then Some (OPRT_RESOURCE_NOT_READY, fl)
      else do {
        (r, s1) \<leftarrow> tkl_fseek (fl_fs fl) (s_flash_file fl) (uint addr) SEEK_SET;
        if 0 \<noteq> r then Some (OPRT_FILE_OPEN_FAILED, fl\<lparr>fl_fs := s1\<rparr>)
        else do {
          (n, s2) \<leftarrow> tkl_fwrite s1 src (c_int (uint sz)) (s_flash_file fl);
          if sz \<noteq> of_int n then Some (OPRT_FILE_WRITE_FAILED, fl\<lparr>fl_fs := s2\<rparr>)
          else do {
            (_, s3) \<leftarrow> tkl_fflush s2 (s_flash_file fl);
            fd \<leftarrow> tkl_fileno s3 (s_flash_file fl);
            Some (OPRT_OK, fl\<lparr>fl_fs := snd (tkl_fsync s3 fd)\<rparr>)
          }
        }
      })"

definition tkl_flash_erase :: "flash \<Rightarrow> u32 \<Rightarrow> u32 \<Rightarrow> OPERATE_RET \<times> flash" where
  "tkl_flash_erase fl addr sz = (OPRT_OK, fl)"

text \<open>The loop that fills the new file; \<open>malloc_ok\<close> is the outcome of the allocation.\<close>

function flash_fill :: "fs \<Rightarrow> nat \<Rightarrow> bytes \<Rightarrow> nat \<Rightarrow> fs option" where
  "flash_fill s file data offset =
     (if offset < FLASH_FILE_SIZE
      then do { (_, s1) \<leftarrow> tkl_fwrite s data (int PARTITION_SIZE) file; flash_fill s1 file data (offset + PARTITION_SIZE) }
      else Some s)"
  by pat_completeness auto
termination by (relation "measure (\<lambda>(s, file, data, offset). FLASH_FILE_SIZE - offset)") (auto simp: PARTITION_SIZE_def)

declare flash_fill.simps [simp del]

definition flash_file_init :: "bool \<Rightarrow> flash \<Rightarrow> (OPERATE_RET \<times> flash) option" where
  "flash_file_init malloc_ok fl =
     (if \<not> malloc_ok then Some (OPRT_MALLOC_FAILED, fl)
      else do {
        s1 \<leftarrow> flash_fill (fl_fs fl) (s_flash_file fl) (replicate PARTITION_SIZE 0xFF) 0;
        (_, s2) \<leftarrow> tkl_fflush s1 (s_flash_file fl);
        fd \<leftarrow> tkl_fileno s2 (s_flash_file fl);
        Some (OPRT_OK, fl\<lparr>fl_fs := snd (tkl_fsync s2 fd)\<rparr>)
      })"

text \<open>The first part of \<open>tkl_flash_get_one_type_info\<close>: open the file, or create and fill it.\<close>

definition flash_open :: "bool \<Rightarrow> flash \<Rightarrow> flash option" where
  "flash_open malloc_ok fl =
     (if s_flash_file fl = 0
      then do {
        fl1 \<leftarrow> (if snd (tkl_fs_is_exist (fl_fs fl) FLASH_FILE_NAME False) = Some False
               then do {
                 let (_, s1) = tkl_fs_mkdir (fl_fs fl) FLASH_FILE_PATH;
                 let (f, s2) = tkl_fopen s1 FLASH_FILE_NAME ''wb+'';
                 (_, fl') \<leftarrow> flash_file_init malloc_ok \<lparr>fl_fs = s2, s_flash_file = f\<rparr>;
                 Some fl'
               }
               else (let (f, s1) = tkl_fopen (fl_fs fl) FLASH_FILE_NAME ''rb+'' in Some \<lparr>fl_fs = s1, s_flash_file = f\<rparr>));
        fd \<leftarrow> tkl_fileno (fl_fs fl1) (s_flash_file fl1);
        Some (if 0 \<le> fd then fl1\<lparr>fl_fs := c_set_cloexec (fl_fs fl1) fd\<rparr> else fl1)
      }
      else Some fl)"

definition one_partition :: "u32 \<Rightarrow> u32 \<Rightarrow> TUYA_FLASH_BASE_INFO_T" where
  "one_partition start sz =
     \<lparr>fi_partition_num = 1, fi_partition0 = \<lparr>fp_block_size = of_nat PARTITION_SIZE, fp_start_addr = start, fp_size = sz\<rparr>\<rparr>"

definition flash_type_info :: "bool \<Rightarrow> TUYA_FLASH_TYPE_E \<Rightarrow> TUYA_FLASH_BASE_INFO_T option" where
  "flash_type_info kv_protected type =
     (case type of
        TUYA_FLASH_TYPE_UF \<Rightarrow> Some (one_partition UF_PARTITION_START UF_PARTITION_SIZE)
      | TUYA_FLASH_TYPE_KV_DATA \<Rightarrow> Some (one_partition SIMPLE_FLASH_START SIMPLE_FLASH_SIZE)
      | TUYA_FLASH_TYPE_KV_KEY \<Rightarrow> Some (one_partition SIMPLE_FLASH_KEY_ADDR (of_nat PARTITION_SIZE))
      | TUYA_FLASH_TYPE_KV_PROTECT \<Rightarrow>
          if kv_protected then Some (one_partition SIMPLE_FLASH_KV_PROTECTED_START SIMPLE_FLASH_KV_PROTECTED_SIZE) else None
      | TUYA_FLASH_TYPE_RCD \<Rightarrow> Some (one_partition RCD_FILE_START RCD_FILE_SIZE)
      | _ \<Rightarrow> None)"

text \<open>No value of the enumeration exceeds \<open>TUYA_FLASH_TYPE_MAX\<close>, so that the range test never fires.\<close>

definition tkl_flash_get_one_type_info ::
    "bool \<Rightarrow> bool \<Rightarrow> flash \<Rightarrow> TUYA_FLASH_TYPE_E \<Rightarrow> bool \<Rightarrow> (OPERATE_RET \<times> TUYA_FLASH_BASE_INFO_T option \<times> flash) option" where
  "tkl_flash_get_one_type_info kv_protected malloc_ok fl type info_null = do {
     fl1 \<leftarrow> flash_open malloc_ok fl;
     if info_null then Some (OPRT_INVALID_PARM, None, fl1)
     else case flash_type_info kv_protected type of
            None \<Rightarrow> Some (OPRT_INVALID_PARM, None, fl1)
          | Some info \<Rightarrow> Some (OPRT_OK, Some info, fl1)
   }"

definition tkl_flash_lock :: "u32 \<Rightarrow> u32 \<Rightarrow> OPERATE_RET" where
  "tkl_flash_lock addr sz = OPRT_NOT_SUPPORTED"

definition tkl_flash_unlock :: "u32 \<Rightarrow> u32 \<Rightarrow> OPERATE_RET" where
  "tkl_flash_unlock addr sz = OPRT_NOT_SUPPORTED"

definition tuya_iot_license_read :: "string option \<times> string option \<Rightarrow> OPERATE_RET" where
  "tuya_iot_license_read license = OPRT_NOT_SUPPORTED"

section \<open>The flash as a byte device\<close>

definition flash_ino :: "flash \<Rightarrow> nat" where
  "flash_ino fl = the (map_of (fs_names (fl_fs fl)) FLASH_FILE_NAME)"

definition flash_img :: "flash \<Rightarrow> bytes" where
  "flash_img fl = content (fl_fs fl) (flash_ino fl)"

text \<open>The largest address that a call can reach: the room on the disk and the counts of \<open>int\<close>.\<close>

definition flash_limit :: "flash \<Rightarrow> nat" where
  "flash_limit fl = min (cap (fl_fs fl) (flash_ino fl)) 2147483647"

text \<open>The file is open for reading and writing, with an empty buffer.\<close>

definition flash_ok :: "flash \<Rightarrow> bool" where
  "flash_ok fl \<longleftrightarrow> wf_fs (fl_fs fl) \<and> s_flash_file fl \<noteq> 0 \<and>
     (\<exists>st. fs_streams (fl_fs fl) (s_flash_file fl) = Some st \<and> st_rd st \<and> st_wr st \<and> \<not> st_app st \<and> st_pend st = []
        \<and> map_of (fs_names (fl_fs fl)) FLASH_FILE_NAME = Some (st_ino st))"

lemma flash_okE:
  assumes "flash_ok fl"
  obtains st n where "wf_fs (fl_fs fl)" "s_flash_file fl \<noteq> 0" "fs_streams (fl_fs fl) (s_flash_file fl) = Some st"
    "st_rd st" "st_wr st" "\<not> st_app st" "st_pend st = []" "st_ino st = flash_ino fl"
    "map_of (fs_names (fl_fs fl)) FLASH_FILE_NAME = Some (flash_ino fl)" "fs_nodes (fl_fs fl) (flash_ino fl) = Some n" "is_reg n"
proof -
  from assms obtain st where st: "wf_fs (fl_fs fl)" "s_flash_file fl \<noteq> 0" "fs_streams (fl_fs fl) (s_flash_file fl) = Some st"
    "st_rd st" "st_wr st" "\<not> st_app st" "st_pend st = []" "map_of (fs_names (fl_fs fl)) FLASH_FILE_NAME = Some (st_ino st)"
    by (auto simp: flash_ok_def)
  moreover from this have "flash_ino fl = st_ino st" by (simp add: flash_ino_def)
  ultimately show ?thesis using that wf_streamD [OF st(1,3)] by (auto simp: wf_stream_def)
qed

text \<open>Seeking with an empty buffer.\<close>

lemma fseek_set:
  assumes "fs_streams s f = Some st" "st_pend st = []"
  shows "c_fseek s f (int a) SEEK_SET = Some (0, put_stream s f (st\<lparr>st_pos := a, st_eof := False, st_last := Idle\<rparr>))"
  using assms by (simp add: c_fseek_def flush_stream_Nil seek_base_def SEEK_SET_def)

lemma uint_of_nat_u32: "n < 4294967296 \<Longrightarrow> uint (of_nat n :: u32) = int n"
  by (simp add: uint_nat unat_of_nat take_bit_nat_eq_self)

lemma flash_same:
  assumes "flash_ok fl" "only (s_flash_file fl) (flash_ino fl) (fl_fs fl) s'" "wf_fs s'"
    and "fs_streams s' (s_flash_file fl) = Some st'" "st_rd st'" "st_wr st'" "\<not> st_app st'" "st_pend st' = []" "st_ino st' = flash_ino fl"
  shows "flash_ok (fl\<lparr>fl_fs := s'\<rparr>)" "flash_ino (fl\<lparr>fl_fs := s'\<rparr>) = flash_ino fl"
  using assms only_names [OF assms(2)] by (auto simp: flash_ok_def flash_ino_def)

lemma flash_seek:
  assumes ok: "flash_ok fl" and a: "a < 4294967296"
  obtains s1 st1 where "tkl_fseek (fl_fs fl) (s_flash_file fl) (uint (of_nat a :: u32)) SEEK_SET = Some (0, s1)" "wf_fs s1"
    "s1 = put_stream (fl_fs fl) (s_flash_file fl) st1"
    "st_rd st1" "st_wr st1" "\<not> st_app st1" "st_pend st1 = []" "st_pos st1 = a" "\<not> st_eof st1" "st_last st1 = Idle" "st_ino st1 = flash_ino fl"
proof -
  from ok obtain st nd where st: "wf_fs (fl_fs fl)" "s_flash_file fl \<noteq> 0" "fs_streams (fl_fs fl) (s_flash_file fl) = Some st"
    "st_rd st" "st_wr st" "\<not> st_app st" "st_pend st = []" "st_ino st = flash_ino fl" by (elim flash_okE)
  let ?st1 = "st\<lparr>st_pos := a, st_eof := False, st_last := Idle\<rparr>"
  have "wf_fs (put_stream (fl_fs fl) (s_flash_file fl) ?st1)"
    using st wf_streamD [OF st(1,3)] by (intro wf_put_stream) (auto simp: wf_stream_def)
  with fseek_set [OF st(3,7)] st a show ?thesis by (intro that [of _ ?st1]) (simp_all add: tkl_fseek_def uint_of_nat_u32)
qed

lemma flash_read_ok:
  assumes ok: "flash_ok fl" and lim: "a + n \<le> flash_limit fl" and len: "a + n \<le> length (flash_img fl) \<or> n = 0"
  shows "\<exists>fl'. tkl_flash_read fl (of_nat a) (of_nat n) = Some (OPRT_OK, take n (drop a (flash_img fl)), fl')
    \<and> flash_ok fl' \<and> flash_img fl' = flash_img fl \<and> flash_limit fl' = flash_limit fl"
proof -
  let ?f = "s_flash_file fl" and ?d = "take n (drop a (flash_img fl))"
  have small: "a < 4294967296" "n < 2147483648" using lim by (auto simp: flash_limit_def)
  from flash_seek [OF ok small(1)] obtain s1 st1 where seek: "tkl_fseek (fl_fs fl) ?f (uint (of_nat a :: u32)) SEEK_SET = Some (0, s1)"
    and s1: "wf_fs s1" "s1 = put_stream (fl_fs fl) ?f st1"
    and st1: "st_rd st1" "st_wr st1" "\<not> st_app st1" "st_pend st1 = []" "st_pos st1 = a" "\<not> st_eof st1" "st_last st1 = Idle" "st_ino st1 = flash_ino fl" .
  have d: "length ?d = n" using len by auto
  obtain s2 st2 where rd: "c_fread s1 ?f n = Some (?d, s2)" and s2: "s2 = put_stream s1 ?f st2"
    and st2: "st_rd st2" "st_wr st2" "\<not> st_app st2" "st_pend st2 = []" "st_ino st2 = flash_ino fl"
  proof (cases "n = 0")
    case True
    show ?thesis by (rule that [of s1 st1]) (use True st1 s1 in \<open>auto simp: c_fread_def put_stream_def\<close>)
  next
    case False
    show ?thesis
      by (rule that [of _ "st1\<lparr>st_pos := a + length ?d, st_eof := False, st_last := Reading\<rparr>"])
         (use False st1 s1 d in \<open>auto simp: c_fread_def flash_img_def Let_def\<close>)
  qed
  have o: "only ?f (flash_ino fl) (fl_fs fl) s2" unfolding s2 s1(2) by (rule only_trans [OF only_put_stream only_put_stream])
  have r: "tkl_flash_read fl (of_nat a) (of_nat n) = Some (OPRT_OK, ?d, fl\<lparr>fl_fs := s2\<rparr>)"
    using ok seek rd small d by (simp add: tkl_flash_read_def tkl_fread_def uint_of_nat_u32 c_int_small flash_ok_def)
  show ?thesis
    using flash_same [OF ok o c_fread_wf [OF s1(1) rd], of st2] st2 s2 s1 r by (simp add: flash_img_def flash_limit_def)
qed

text \<open>After a successful write the medium holds what the kernel holds.\<close>

definition durable :: "fs \<Rightarrow> nat \<Rightarrow> bool" where
  "durable s i \<longleftrightarrow> (\<exists>perm c. fs_nodes s i = Some (Reg perm c c))"

text \<open>Flushing the stream and synchronising its file, as both writers of the flash file do.\<close>

lemma flush_sync:
  assumes wf: "wf_fs s" and w: "writer s f i" and room: "st_end s f \<le> cap s i" and f: "f \<noteq> 0"
  obtains s3 s4 st4 where "tkl_fflush s f = Some (0, s3)" "tkl_fileno s3 f = Some (int f)" "tkl_fsync s3 (int f) = (0, s4)"
    "wf_fs s4" "only f i s s4" "content s4 i = st_view s f" "cap s4 i = cap s i" "durable s4 i"
    "fs_streams s4 f = Some st4" "st_pend st4 = []" "st_wr st4" "\<not> st_app st4" "st_ino st4 = i"
    "st_rd st4 = st_rd (the (fs_streams s f))"
proof -
  from fflush_view [OF w room] obtain s3 st3 where
    s3: "c_fflush1 s f = Some (0, s3)" "writer s3 f i" "only f i s s3" "cap s3 i = cap s i" "content s3 i = st_view s f"
      "fs_streams s3 f = Some st3" "st_pend st3 = []" "\<exists>st. fs_streams s f = Some st \<and> st_rd st3 = st_rd st" by blast
  from s3(2,5,6) obtain perm dk where n3: "fs_nodes s3 i = Some (Reg perm (st_view s f) dk)"
    and st3: "st_wr st3" "\<not> st_app st3" "st_ino st3 = i"
    by (auto simp: writer_def content_def elim!: is_regE)
  let ?s4 = "s3\<lparr>fs_nodes := (fs_nodes s3)(i \<mapsto> Reg perm (st_view s f) (st_view s f))\<rparr>"
  have "tkl_fsync s3 (int f) = (0, ?s4)" using s3(6) st3(3) n3 by (simp add: tkl_fsync_def c_fsync_def)
  moreover have "wf_fs ?s4" by (rule wf_nodes [OF c_fflush1_wf [OF wf s3(1)] n3])
  moreover have "only f i s ?s4" by (rule only_trans [OF s3(3)]) (use n3 in \<open>auto simp: only_def frame_def kinds_kept_def\<close>)
  moreover have "cap ?s4 i = cap s i" "content ?s4 i = st_view s f" "durable ?s4 i"
    using n3 s3(4) by (simp_all add: cap_def content_def durable_def)
  ultimately show ?thesis using s3 st3 f by (intro that [of s3 ?s4 st3]) (auto simp: tkl_fflush_def c_fflush_def tkl_fileno_def c_fileno_def)
qed

lemma flash_write_ok:
  assumes ok: "flash_ok fl" and lim: "a + length b \<le> flash_limit fl"
  shows "\<exists>fl'. tkl_flash_write fl (of_nat a) b (of_nat (length b)) = Some (OPRT_OK, fl')
    \<and> flash_ok fl' \<and> flash_img fl' = overlay (flash_img fl) a b \<and> flash_limit fl' = flash_limit fl
    \<and> durable (fl_fs fl') (flash_ino fl') \<and> fs_allow (fl_fs fl') = fs_allow (fl_fs fl)"
proof -
  let ?f = "s_flash_file fl" and ?i = "flash_ino fl"
  have small: "a < 4294967296" "length b < 2147483648" using lim by (auto simp: flash_limit_def)
  from ok obtain nd where nd: "fs_nodes (fl_fs fl) ?i = Some nd" "is_reg nd" and f: "?f \<noteq> 0" by (elim flash_okE)
  from flash_seek [OF ok small(1)] obtain s1 st1 where seek: "tkl_fseek (fl_fs fl) ?f (uint (of_nat a :: u32)) SEEK_SET = Some (0, s1)"
    and s1: "wf_fs s1" "s1 = put_stream (fl_fs fl) ?f st1"
    and st1: "st_rd st1" "st_wr st1" "\<not> st_app st1" "st_pend st1 = []" "st_pos st1 = a" "\<not> st_eof st1" "st_last st1 = Idle" "st_ino st1 = ?i" .
  have w1: "writer s1 ?f ?i" using st1 nd s1 by (simp add: writer_def)
  have v1: "st_view s1 ?f = flash_img fl" "st_end s1 ?f = a" "cap s1 ?i = cap (fl_fs fl) ?i"
    using st1 s1 by (simp_all add: st_view_def st_end_def flash_img_def)
  from tkl_fwrite_view [OF w1, of b] v1 lim small obtain s2 where
    s2: "tkl_fwrite s1 b (int (length b)) ?f = Some (int (length b), s2)" "writer s2 ?f ?i" "only ?f ?i s1 s2"
      "cap s2 ?i = cap (fl_fs fl) ?i" "st_view s2 ?f = overlay (flash_img fl) a b" "st_end s2 ?f = a + length b"
    by (auto simp: flash_limit_def)
  have rd2: "st_rd (the (fs_streams s2 ?f))" using tkl_fwrite_rd [OF s2(1), of st1] st1 s1 by simp
  have "st_end s2 ?f \<le> cap s2 ?i" using s2 lim by (simp add: flash_limit_def)
  from flush_sync [OF tkl_fwrite_wf [OF s1(1) s2(1)] s2(2) this f] obtain s3 s4 st4 where
    s4: "tkl_fflush s2 ?f = Some (0, s3)" "tkl_fileno s3 ?f = Some (int ?f)" "tkl_fsync s3 (int ?f) = (0, s4)"
      "wf_fs s4" "only ?f ?i s2 s4" "content s4 ?i = st_view s2 ?f" "cap s4 ?i = cap s2 ?i" "durable s4 ?i"
    and st4: "fs_streams s4 ?f = Some st4" "st_pend st4 = []" "st_wr st4" "\<not> st_app st4" "st_ino st4 = ?i"
      "st_rd st4 = st_rd (the (fs_streams s2 ?f))" .
  have o: "only ?f ?i (fl_fs fl) s4"
    unfolding s1(2) by (rule only_trans [OF only_put_stream only_trans [OF s2(3) [unfolded s1(2)] s4(5)]])
  have r: "tkl_flash_write fl (of_nat a) b (of_nat (length b)) = Some (OPRT_OK, fl\<lparr>fl_fs := s4\<rparr>)"
    using f seek s2(1) s4 small by (simp add: tkl_flash_write_def uint_of_nat_u32 c_int_small)
  show ?thesis
    using r flash_same [OF ok o s4(4) st4(1)] st4 rd2 s4 s2 only_names [OF o] by (auto simp: flash_img_def flash_limit_def)
qed

text \<open>The two calls as operations of a byte device: the data on success.\<close>

definition flash_wr :: "flash \<Rightarrow> nat \<Rightarrow> bytes \<Rightarrow> flash option" where
  "flash_wr fl a b =
     (case tkl_flash_write fl (of_nat a) b (of_nat (length b)) of Some (OPRT_OK, fl') \<Rightarrow> Some fl' | _ \<Rightarrow> None)"

definition flash_rd :: "flash \<Rightarrow> nat \<Rightarrow> nat \<Rightarrow> (bytes \<times> flash) option" where
  "flash_rd fl a n = (case tkl_flash_read fl (of_nat a) (of_nat n) of Some (OPRT_OK, d, fl') \<Rightarrow> Some (d, fl') | _ \<Rightarrow> None)"

interpretation flash_dev: byte_device flash_ok flash_img flash_limit flash_wr flash_rd
proof
  fix d :: flash and a :: nat and b :: bytes
  assume "flash_ok d" "a + length b \<le> flash_limit d"
  from flash_write_ok [OF this] show "\<exists>d'. flash_wr d a b = Some d' \<and> flash_ok d' \<and> flash_img d' = overlay (flash_img d) a b \<and> flash_limit d' = flash_limit d"
    by (auto simp: flash_wr_def)
next
  fix d :: flash and a n :: nat
  assume "flash_ok d" "a + n \<le> flash_limit d" "a + n \<le> length (flash_img d)"
  from flash_read_ok [OF this(1,2) disjI1 [OF this(3)]]
  show "\<exists>d'. flash_rd d a n = Some (take n (drop a (flash_img d)), d') \<and> flash_ok d' \<and> flash_img d' = flash_img d \<and> flash_limit d' = flash_limit d"
    by (auto simp: flash_rd_def)
qed

section \<open>Opening the flash\<close>

lemma wf_power_loss: "wf_fs s \<Longrightarrow> wf_fs (power_loss s)"
  by (auto simp: wf_fs_def power_loss_def crash_def dom_def)

lemma power_loss_simps [simp]: "fs_names (power_loss s) = fs_names s" "fs_allow (power_loss s) = fs_allow s"
  by (simp_all add: power_loss_def crash_def)

lemma cloexec_simps [simp]:
  "content (c_set_cloexec s fd) i = content s i" "cap (c_set_cloexec s fd) i = cap s i" "fs_names (c_set_cloexec s fd) = fs_names s"
  "fs_allow (c_set_cloexec s fd) = fs_allow s"
  by (simp_all add: c_set_cloexec_def cap_def content_def put_stream_def split: option.split)

text \<open>The last step of opening: a stream without data in its buffer.\<close>

lemma flash_ok_cloexec:
  assumes "wf_fs s" "f \<noteq> 0" "fs_streams s f = Some st" "st_rd st" "st_wr st" "\<not> st_app st" "st_pend st = []"
    and "map_of (fs_names s) FLASH_FILE_NAME = Some (st_ino st)"
  shows "flash_ok \<lparr>fl_fs = c_set_cloexec s (int f), s_flash_file = f\<rparr>"
    and "flash_img \<lparr>fl_fs = c_set_cloexec s (int f), s_flash_file = f\<rparr> = content s (st_ino st)"
    and "flash_limit \<lparr>fl_fs = c_set_cloexec s (int f), s_flash_file = f\<rparr> = min (cap s (st_ino st)) 2147483647"
proof -
  have "fs_streams (c_set_cloexec s (int f)) f = Some (st\<lparr>st_cloexec := True\<rparr>)" using assms(3) by (simp add: c_set_cloexec_def)
  then show "flash_ok \<lparr>fl_fs = c_set_cloexec s (int f), s_flash_file = f\<rparr>"
    using assms c_set_cloexec_wf [OF assms(1), of "int f"] by (simp add: flash_ok_def)
qed (use assms in \<open>simp_all add: flash_img_def flash_ino_def flash_limit_def\<close>)

lemma flash_open_existing:
  assumes wf: "wf_fs s" and n: "map_of (fs_names s) FLASH_FILE_NAME = Some i" "fs_nodes s i = Some (Reg perm c d)"
    and allow: "fs_allow s FLASH_FILE_NAME 6"
  shows "\<exists>fl. flash_open m \<lparr>fl_fs = s, s_flash_file = 0\<rparr> = Some fl \<and> flash_ok fl \<and> flash_img fl = c
    \<and> flash_limit fl = min (cap s i) 2147483647"
proof -
  let ?s1 = "snd (open_ino s i Open_r True)" and ?f = "fs_next s"
  let ?s2 = "c_set_cloexec ?s1 (int ?f)"
  have ex: "snd (tkl_fs_is_exist s FLASH_FILE_NAME False) \<noteq> Some False"
    using n by (simp add: tkl_fs_is_exist_def c_access_def node_of_def)
  have "c_fopen s FLASH_FILE_NAME ''rb+'' = open_ino s i Open_r True"
    by (rule fopen_existing) (use n allow in \<open>simp_all add: need_def\<close>)
  then have op: "tkl_fopen s FLASH_FILE_NAME ''rb+'' = (?f, ?s1)" by (simp add: tkl_fopen_def open_ino_def)
  have wf1: "wf_fs ?s1" by (rule wf_open_ino [OF wf n(2)]) simp
  have pos: "?f \<noteq> 0" using wf by (simp add: wf_fs_def)
  have r: "flash_open m \<lparr>fl_fs = s, s_flash_file = 0\<rparr> = Some \<lparr>fl_fs = ?s2, s_flash_file = ?f\<rparr>"
    using ex op by (simp add: flash_open_def tkl_fileno_def c_fileno_def)
  show ?thesis
    using flash_ok_cloexec [OF wf1 pos, of "new_stream i Open_r True"] n r by (auto simp: new_stream_def content_def cap_def)
qed

text \<open>
  C8: A \<open>tkl_flash_write\<close> that has room on the disk reports success, and the bytes are on the medium: not
  only does \<open>tkl_flash_read\<close> return them at once, they are also read back after a loss of power that
  destroys every buffer of the process and of the kernel, once \<open>tkl_flash_get_one_type_info\<close> has opened
  the file again.  Every address and length that fits the file and an \<open>int\<close> is allowed, also beyond the
  current end of the file.
\<close>

theorem flash_write_persists:
  assumes "flash_ok fl" "a + length b \<le> flash_limit fl" "fs_allow (fl_fs fl) FLASH_FILE_NAME 6"
  shows "\<exists>fl1. tkl_flash_write fl (of_nat a) b (of_nat (length b)) = Some (OPRT_OK, fl1)
    \<and> (\<exists>fl2. tkl_flash_read fl1 (of_nat a) (of_nat (length b)) = Some (OPRT_OK, b, fl2))
    \<and> (\<exists>info fl3 fl4. tkl_flash_get_one_type_info kv m \<lparr>fl_fs = power_loss (fl_fs fl1), s_flash_file = 0\<rparr> TUYA_FLASH_TYPE_UF False
          = Some (OPRT_OK, info, fl3)
        \<and> tkl_flash_read fl3 (of_nat a) (of_nat (length b)) = Some (OPRT_OK, b, fl4))"
proof -
  let ?n = "length b"
  from flash_write_ok [OF assms(1,2)] obtain fl1 where fl1: "tkl_flash_write fl (of_nat a) b (of_nat ?n) = Some (OPRT_OK, fl1)"
    "flash_ok fl1" "flash_img fl1 = overlay (flash_img fl) a b" "flash_limit fl1 = flash_limit fl" "durable (fl_fs fl1) (flash_ino fl1)"
    "fs_allow (fl_fs fl1) = fs_allow (fl_fs fl)" by blast
  have len: "a + ?n \<le> length (flash_img fl1) \<or> ?n = 0" using fl1(3) by (cases "b = []") (simp_all add: length_overlay)
  have b: "take ?n (drop a (flash_img fl1)) = b" unfolding fl1(3) by (rule overlay_read_same)
  have rd1: "\<exists>fl2. tkl_flash_read fl1 (of_nat a) (of_nat ?n) = Some (OPRT_OK, b, fl2)"
    using flash_read_ok [OF fl1(2) _ len] fl1(4) assms(2) b by auto
  from fl1(5) obtain perm c where node: "fs_nodes (fl_fs fl1) (flash_ino fl1) = Some (Reg perm c c)" by (auto simp: durable_def)
  let ?s = "power_loss (fl_fs fl1)"
  have node': "fs_nodes ?s (flash_ino fl1) = Some (Reg perm c c)" using node by (simp add: power_loss_def medium_def)
  have c: "c = flash_img fl1" "cap ?s (flash_ino fl1) = cap (fl_fs fl1) (flash_ino fl1)"
    using node node' by (simp_all add: flash_img_def content_def cap_def power_loss_def crash_def medium_def)
  have "wf_fs ?s" "map_of (fs_names ?s) FLASH_FILE_NAME = Some (flash_ino fl1)" "fs_allow ?s FLASH_FILE_NAME 6"
    using fl1(2,6) assms(3) by (auto simp: wf_power_loss elim: flash_okE)
  from flash_open_existing [OF this(1,2) node' this(3), of m] obtain fl3 where
    fl3: "flash_open m \<lparr>fl_fs = ?s, s_flash_file = 0\<rparr> = Some fl3" "flash_ok fl3" "flash_img fl3 = c" "flash_limit fl3 = flash_limit fl1"
    by (auto simp: c(2) flash_limit_def [of fl1])
  with flash_read_ok [of fl3 a ?n] len fl1(4) assms(2) b c have "\<exists>fl4. tkl_flash_read fl3 (of_nat a) (of_nat ?n) = Some (OPRT_OK, b, fl4)"
    by auto
  with fl1(1) rd1 fl3(1) show ?thesis
    by (simp add: tkl_flash_get_one_type_info_def flash_type_info_def)
qed

subsection \<open>The first start\<close>

lemma flash_fill_view:
  assumes "writer s f i" "wf_fs s" "offset + PARTITION_SIZE * k = FLASH_FILE_SIZE" "length data = PARTITION_SIZE"
    and "st_end s f + PARTITION_SIZE * k \<le> cap s i" "fs_streams s f = Some st"
  shows "\<exists>s'. flash_fill s f data offset = Some s' \<and> writer s' f i \<and> wf_fs s' \<and> only f i s s' \<and> cap s' i = cap s i
    \<and> st_view s' f = overlay (st_view s f) (st_end s f) (concat (replicate k data)) \<and> st_end s' f = st_end s f + PARTITION_SIZE * k
    \<and> st_rd (the (fs_streams s' f)) = st_rd st"
  using assms
proof (induction k arbitrary: s offset st)
  case 0
  then have "flash_fill s f data offset = Some s" by (subst flash_fill.simps) simp
  then show ?case using 0 by (intro exI [of _ s]) simp
next
  case (Suc k)
  have off: "offset < FLASH_FILE_SIZE" "offset + PARTITION_SIZE + PARTITION_SIZE * k = FLASH_FILE_SIZE"
    using Suc.prems(3) by (simp_all add: PARTITION_SIZE_def)
  have len: "length data < 2147483648" using Suc.prems(4) by (simp add: PARTITION_SIZE_def)
  from tkl_fwrite_view [OF Suc.prems(1) _ len] Suc.prems(4,5) obtain s1 where
    s1: "tkl_fwrite s data (int PARTITION_SIZE) f = Some (int PARTITION_SIZE, s1)" "writer s1 f i" "only f i s s1" "cap s1 i = cap s i"
      "st_view s1 f = overlay (st_view s f) (st_end s f) data" "st_end s1 f = st_end s f + PARTITION_SIZE" by auto
  obtain st1 where st1: "fs_streams s1 f = Some st1" using s1(2) by (auto simp: writer_def)
  with tkl_fwrite_rd [OF s1(1) Suc.prems(6)] have rd: "st_rd st1 = st_rd st" by simp
  have step: "flash_fill s f data offset = flash_fill s1 f data (offset + PARTITION_SIZE)"
    using off s1(1) by (subst flash_fill.simps) simp
  from Suc.IH [OF s1(2) tkl_fwrite_wf [OF Suc.prems(2) s1(1)] off(2) Suc.prems(4) _ st1] s1 Suc.prems(5) obtain s2 where
    s2: "flash_fill s1 f data (offset + PARTITION_SIZE) = Some s2" "writer s2 f i" "wf_fs s2" "only f i s1 s2" "cap s2 i = cap s1 i"
      "st_view s2 f = overlay (st_view s1 f) (st_end s1 f) (concat (replicate k data))" "st_end s2 f = st_end s1 f + PARTITION_SIZE * k"
      "st_rd (the (fs_streams s2 f)) = st_rd st1" by auto
  have "overlay (st_view s1 f) (st_end s1 f) (concat (replicate k data)) = overlay (st_view s f) (st_end s f) (concat (replicate (Suc k) data))"
    using s1(5,6) Suc.prems(4) overlay_append [of "st_view s f" "st_end s f" data] by simp
  then show ?case using step s1 s2 rd only_trans [OF s1(3) s2(4)] by (intro exI [of _ s2]) simp
qed

lemma fill_pattern: "concat (replicate k (replicate n x)) = replicate (n * k) x"
  by (induction k) (simp_all add: replicate_add)

text \<open>After \<open>mkdir\<close> the directory is there, unless something else has its name.\<close>

lemma flash_dirnames [simp]: "dirname FLASH_FILE_NAME = FLASH_FILE_PATH" "dirname FLASH_FILE_PATH = ''.''" "FLASH_FILE_NAME \<noteq> FLASH_FILE_PATH"
  by code_simp+

definition flash_fresh :: "fs \<Rightarrow> bool" where
  "flash_fresh s \<longleftrightarrow> wf_fs s \<and> node_of s FLASH_FILE_NAME = None \<and> (node_of s FLASH_FILE_PATH = None \<or> dir_ok s FLASH_FILE_PATH)
     \<and> fs_allow s ''.'' 2 \<and> fs_allow s FLASH_FILE_PATH 2 \<and> FLASH_FILE_SIZE \<le> fs_room s"

lemma flash_mkdir:
  assumes "flash_fresh s" "tkl_fs_mkdir s FLASH_FILE_PATH = (r, s1)"
  shows "wf_fs s1" "map_of (fs_names s1) FLASH_FILE_NAME = None" "dir_ok s1 FLASH_FILE_PATH" "fs_allow s1 FLASH_FILE_PATH 2"
    "FLASH_FILE_SIZE \<le> fs_room s1"
proof -
  have wf: "wf_fs s" and none: "map_of (fs_names s) FLASH_FILE_NAME = None"
    using assms(1) node_of_None [of s FLASH_FILE_NAME] by (auto simp: flash_fresh_def map_of_eq_None_iff)
  show "wf_fs s1" using c_mkdir_wf [OF wf] assms(2) by (simp add: tkl_fs_mkdir_def)
  show "map_of (fs_names s1) FLASH_FILE_NAME = None" "fs_allow s1 FLASH_FILE_PATH 2" "FLASH_FILE_SIZE \<le> fs_room s1"
    using assms none by (auto simp: flash_fresh_def tkl_fs_mkdir_def c_mkdir_def add_node_def split: if_splits)
  show "dir_ok s1 FLASH_FILE_PATH"
  proof (cases "node_of s FLASH_FILE_PATH = None")
    case True
    then have "map_of (fs_names s) FLASH_FILE_PATH = None" using node_of_None [OF wf] by (simp add: map_of_eq_None_iff)
    then show ?thesis using True assms
      by (auto simp: flash_fresh_def tkl_fs_mkdir_def c_mkdir_def dir_ok_def [of s "''.''"] add_node_def split: if_splits)
         (simp add: dir_ok_def node_of_def map_add_def)
  next
    case False
    then show ?thesis using assms by (auto simp: flash_fresh_def tkl_fs_mkdir_def c_mkdir_def)
  qed
qed

lemma flash_file_created:
  assumes "flash_fresh s" "tkl_fs_mkdir s FLASH_FILE_PATH = (r, s1)" "tkl_fopen s1 FLASH_FILE_NAME ''wb+'' = (f, s2)"
  shows "\<exists>i. f \<noteq> 0 \<and> wf_fs s2 \<and> writer s2 f i \<and> map_of (fs_names s2) FLASH_FILE_NAME = Some i \<and> FLASH_FILE_SIZE \<le> cap s2 i
    \<and> fs_streams s2 f = Some (new_stream i Open_w True) \<and> st_view s2 f = [] \<and> st_end s2 f = 0"
proof -
  note m = flash_mkdir [OF assms(1,2)]
  have op: "c_fopen s1 FLASH_FILE_NAME ''wb+'' = (f, s2)" using assms(3) by (simp add: tkl_fopen_def)
  have f: "f \<noteq> 0" using op m by (auto simp: c_fopen_def open_ino_def wf_fs_def add_node_def)
  have pm: "parse_mode ''wb+'' = Some (Open_w, True)" by simp
  from fopen_w [OF m(1) pm op f] obtain i where
    i: "map_of (fs_names s2) FLASH_FILE_NAME = Some i" "writer s2 f i" "fs_streams s2 f = Some (new_stream i Open_w True)"
      "content s2 i = []" "cap s2 i = size_at s1 FLASH_FILE_NAME + fs_room s1" by auto
  then show ?thesis using f m c_fopen_wf [OF m(1) op]
    by (intro exI [of _ i]) (auto simp: st_view_def st_end_def new_stream_def)
qed

lemma flash_open_fresh:
  assumes "flash_fresh s"
  shows "\<exists>fl. flash_open True \<lparr>fl_fs = s, s_flash_file = 0\<rparr> = Some fl \<and> flash_ok fl
    \<and> flash_img fl = replicate FLASH_FILE_SIZE 0xFF \<and> FLASH_FILE_SIZE \<le> flash_limit fl"
proof -
  obtain r s1 where s1: "tkl_fs_mkdir s FLASH_FILE_PATH = (r, s1)" by (metis surj_pair)
  obtain f s2 where s2: "tkl_fopen s1 FLASH_FILE_NAME ''wb+'' = (f, s2)" by (metis surj_pair)
  from flash_file_created [OF assms s1 s2] obtain i where i: "f \<noteq> 0" "wf_fs s2" "writer s2 f i" "map_of (fs_names s2) FLASH_FILE_NAME = Some i"
    "FLASH_FILE_SIZE \<le> cap s2 i" "fs_streams s2 f = Some (new_stream i Open_w True)" "st_view s2 f = []" "st_end s2 f = 0" by blast
  let ?data = "replicate PARTITION_SIZE (0xFF :: u8)"
  have sz: "0 + PARTITION_SIZE * 65536 = FLASH_FILE_SIZE" by (simp add: PARTITION_SIZE_def FLASH_FILE_SIZE_def)
  from flash_fill_view [OF i(3,2) sz _ _ i(6), of ?data] i(5,7,8) sz obtain s3 where
    s3: "flash_fill s2 f ?data 0 = Some s3" "writer s3 f i" "wf_fs s3" "only f i s2 s3" "cap s3 i = cap s2 i"
      "st_view s3 f = replicate FLASH_FILE_SIZE 0xFF" "st_end s3 f = FLASH_FILE_SIZE" "st_rd (the (fs_streams s3 f))"
    by (auto simp: fill_pattern overlay_empty new_stream_def)
  have "st_end s3 f \<le> cap s3 i" using s3 i(5) by simp
  from flush_sync [OF s3(3,2) this i(1)] obtain s4 s5 st5 where
    s5: "tkl_fflush s3 f = Some (0, s4)" "tkl_fileno s4 f = Some (int f)" "tkl_fsync s4 (int f) = (0, s5)"
      "wf_fs s5" "only f i s3 s5" "content s5 i = st_view s3 f" "cap s5 i = cap s3 i"
    and st5: "fs_streams s5 f = Some st5" "st_pend st5 = []" "st_wr st5" "\<not> st_app st5" "st_ino st5 = i"
      "st_rd st5 = st_rd (the (fs_streams s3 f))" .
  have name: "map_of (fs_names s5) FLASH_FILE_NAME = Some (st_ino st5)"
    using only_names [OF s3(4)] only_names [OF s5(5)] i(4) st5(5) by simp
  have ex: "snd (tkl_fs_is_exist s FLASH_FILE_NAME False) = Some False"
    using assms by (simp add: flash_fresh_def tkl_fs_is_exist_def c_access_def)
  have fd: "tkl_fileno s5 f = Some (int f)" using st5(1) by (simp add: tkl_fileno_def c_fileno_def)
  have "flash_open True \<lparr>fl_fs = s, s_flash_file = 0\<rparr> = Some \<lparr>fl_fs = c_set_cloexec s5 (int f), s_flash_file = f\<rparr>"
    using ex s1 s2 s3(1) s5(1-3) fd by (simp add: flash_open_def flash_file_init_def)
  then show ?thesis
    using flash_ok_cloexec [OF s5(4) i(1) st5(1) _ st5(3,4,2) name] s3 s5 st5 i(5) by (auto simp: FLASH_FILE_SIZE_def)
qed

text \<open>
  On a device without a flash file, the first \<open>tkl_flash_get_one_type_info\<close> (for a type that has a
  partition) creates the directory and the file and fills all 256 MB with \<open>0xFF\<close>, in blocks of 4 KB; every
  later read inside the file succeeds and returns erased bytes.  The loop ends although its
  file is longer than any buffer.
\<close>

theorem flash_first_start:
  assumes "flash_fresh s" "flash_type_info kv type = Some info"
  shows "\<exists>fl. tkl_flash_get_one_type_info kv True \<lparr>fl_fs = s, s_flash_file = 0\<rparr> type False = Some (OPRT_OK, Some info, fl)
    \<and> length (flash_img fl) = FLASH_FILE_SIZE
    \<and> (\<forall>a n. a + n \<le> FLASH_FILE_SIZE \<longrightarrow> (\<exists>fl'. tkl_flash_read fl (of_nat a) (of_nat n) = Some (OPRT_OK, replicate n 0xFF, fl')))"
proof -
  from flash_open_fresh [OF assms(1)] obtain fl where fl: "flash_open True \<lparr>fl_fs = s, s_flash_file = 0\<rparr> = Some fl" "flash_ok fl"
    "flash_img fl = replicate FLASH_FILE_SIZE 0xFF" "FLASH_FILE_SIZE \<le> flash_limit fl" by blast
  have "\<exists>fl'. tkl_flash_read fl (of_nat a) (of_nat n) = Some (OPRT_OK, replicate n 0xFF, fl')" if "a + n \<le> FLASH_FILE_SIZE" for a n
    using flash_read_ok [OF fl(2), of a n] fl(3,4) that by (auto simp: min_def)
  then show ?thesis using fl assms(2) by (simp add: tkl_flash_get_one_type_info_def)
qed

text \<open>Every partition lies in the file, and different ones do not overlap.\<close>

definition part_of :: "bool \<Rightarrow> TUYA_FLASH_TYPE_E \<Rightarrow> (nat \<times> nat) option" where
  "part_of kv type =
     map_option (\<lambda>i. (unat (fp_start_addr (fi_partition0 i)), unat (fp_size (fi_partition0 i)))) (flash_type_info kv type)"

lemma part_of_simps:
  "part_of kv TUYA_FLASH_TYPE_UF = Some (0x9000, 0x18000)" "part_of kv TUYA_FLASH_TYPE_KV_DATA = Some (0x1000, 0x8000)"
  "part_of kv TUYA_FLASH_TYPE_KV_KEY = Some (0, 0x1000)" "part_of kv TUYA_FLASH_TYPE_RCD = Some (0x21000, 0x19000)"
  "part_of True TUYA_FLASH_TYPE_KV_PROTECT = Some (0x3A000, 0x1000)" "part_of False TUYA_FLASH_TYPE_KV_PROTECT = None"
  by (simp_all add: part_of_def flash_type_info_def one_partition_def UF_PARTITION_START_def UF_PARTITION_SIZE_def SIMPLE_FLASH_START_def
      SIMPLE_FLASH_SIZE_def SIMPLE_FLASH_KEY_ADDR_def PARTITION_SIZE_def RCD_FILE_START_def RCD_FILE_SIZE_def
      SIMPLE_FLASH_KV_PROTECTED_START_def SIMPLE_FLASH_KV_PROTECTED_SIZE_def)

lemma part_of_cases:
  assumes "part_of kv type = Some p"
  shows "(type, p) \<in> {(TUYA_FLASH_TYPE_UF, 0x9000, 0x18000), (TUYA_FLASH_TYPE_KV_DATA, 0x1000, 0x8000), (TUYA_FLASH_TYPE_KV_KEY, 0, 0x1000),
    (TUYA_FLASH_TYPE_RCD, 0x21000, 0x19000), (TUYA_FLASH_TYPE_KV_PROTECT, 0x3A000, 0x1000)}"
proof (cases "type = TUYA_FLASH_TYPE_UF \<or> type = TUYA_FLASH_TYPE_KV_DATA \<or> type = TUYA_FLASH_TYPE_KV_KEY \<or> type = TUYA_FLASH_TYPE_RCD
    \<or> type = TUYA_FLASH_TYPE_KV_PROTECT")
  case True
  then show ?thesis using assms by (cases kv) (auto simp: part_of_simps)
next
  case False
  then have "flash_type_info kv type = None" by (auto simp: flash_type_info_def split: TUYA_FLASH_TYPE_E.split)
  then show ?thesis using assms by (simp add: part_of_def)
qed

lemma parts_disjoint:
  "part_of kv t1 = Some (a1, n1) \<Longrightarrow> part_of kv t2 = Some (a2, n2) \<Longrightarrow> t1 \<noteq> t2 \<Longrightarrow> a2 + n2 \<le> a1 \<or> a1 + n1 \<le> a2"
  by (drule part_of_cases, drule part_of_cases) auto

lemma parts_inside: "part_of kv t = Some (a, n) \<Longrightarrow> a + n \<le> FLASH_FILE_SIZE"
  by (drule part_of_cases) (auto simp: FLASH_FILE_SIZE_def)

text \<open>
  The partitions that \<open>tkl_flash_get_one_type_info\<close> hands out keep the components that use them apart:
  any sequence of \<open>tkl_flash_write\<close> calls inside one partition succeeds and leaves every byte of the
  other partitions as it was, with and without the protected partition of the build option.
\<close>

theorem flash_partitions_isolated:
  assumes "flash_ok fl" "FLASH_FILE_SIZE \<le> length (flash_img fl)" "FLASH_FILE_SIZE \<le> flash_limit fl"
    and "part_of kv t1 = Some (a1, n1)" "part_of kv t2 = Some (a2, n2)" "t1 \<noteq> t2" "flash_dev.within a1 n1 ws"
  shows "\<exists>fl1 fl2. flash_dev.writes fl ws = Some fl1
    \<and> tkl_flash_read fl1 (of_nat a2) (of_nat n2) = Some (OPRT_OK, take n2 (drop a2 (flash_img fl)), fl2)"
proof -
  note lim = parts_inside [OF assms(4)] parts_inside [OF assms(5)]
  from flash_dev.writes_outside [OF assms(1,7), of a2 n2] parts_disjoint [OF assms(4-6)] lim assms(2,3)
  obtain fl1 where fl1: "flash_dev.writes fl ws = Some fl1" "flash_ok fl1" "flash_limit fl1 = flash_limit fl"
    "take n2 (drop a2 (flash_img fl1)) = take n2 (drop a2 (flash_img fl))" "length (flash_img fl) \<le> length (flash_img fl1)" by auto
  with flash_read_ok [OF fl1(2), of a2 n2] lim assms(2,3) show ?thesis by auto
qed

section \<open>Examples\<close>

definition example_flash :: flash where
  "example_flash =
     \<lparr>fl_fs = (start_fs 100 4)\<lparr>fs_names := [(FLASH_FILE_NAME, 0)], fs_nodes := [0 \<mapsto> Reg 0 [1, 2, 3, 4, 5] [1, 2, 3, 4, 5]],
         fs_next_ino := 1, fs_streams := [1 \<mapsto> new_stream 0 Open_r True], fs_next := 2\<rparr>, s_flash_file = 1\<rparr>"

lemma example_flash_ok: "flash_ok example_flash"
  by (simp add: flash_ok_def example_flash_def start_fs_def wf_fs_def wf_stream_def new_stream_def)

lemma example_flash_limit: "flash_limit example_flash = 105"
  by (simp add: flash_limit_def flash_ino_def example_flash_def start_fs_def cap_def content_def)

theorem flash_write_persists_witness:
  "flash_ok example_flash \<and> 3 + length [9, 8, 7 :: u8] \<le> flash_limit example_flash \<and> fs_allow (fl_fs example_flash) FLASH_FILE_NAME 6 \<and>
   (\<exists>fl1 info fl3 fl4. tkl_flash_write example_flash 3 [9, 8, 7] 3 = Some (OPRT_OK, fl1)
      \<and> tkl_flash_get_one_type_info False True \<lparr>fl_fs = power_loss (fl_fs fl1), s_flash_file = 0\<rparr> TUYA_FLASH_TYPE_UF False = Some (OPRT_OK, info, fl3)
      \<and> tkl_flash_read fl3 3 3 = Some (OPRT_OK, [9, 8, 7], fl4))"
proof -
  have "fs_allow (fl_fs example_flash) FLASH_FILE_NAME 6" by (simp add: example_flash_def start_fs_def)
  moreover from flash_write_persists [OF example_flash_ok _ this, of 3 "[9, 8, 7]" False True]
  have "\<exists>fl1 info fl3 fl4. tkl_flash_write example_flash 3 [9, 8, 7] 3 = Some (OPRT_OK, fl1)
      \<and> tkl_flash_get_one_type_info False True \<lparr>fl_fs = power_loss (fl_fs fl1), s_flash_file = 0\<rparr> TUYA_FLASH_TYPE_UF False = Some (OPRT_OK, info, fl3)
      \<and> tkl_flash_read fl3 3 3 = Some (OPRT_OK, [9, 8, 7], fl4)"
    by (simp add: example_flash_limit) blast
  ultimately show ?thesis using example_flash_ok by (simp add: example_flash_limit)
qed

lemma start_fs_fresh: "flash_fresh (start_fs 300000000 4096)"
  by (simp add: flash_fresh_def wf_start_fs) (simp add: start_fs_def node_of_def FLASH_FILE_SIZE_def)

theorem flash_first_start_witness:
  "flash_fresh (start_fs 300000000 4096) \<and>
   (\<exists>info fl fl'. flash_type_info False TUYA_FLASH_TYPE_UF = Some info
     \<and> tkl_flash_get_one_type_info False True \<lparr>fl_fs = start_fs 300000000 4096, s_flash_file = 0\<rparr> TUYA_FLASH_TYPE_UF False = Some (OPRT_OK, Some info, fl)
     \<and> tkl_flash_read fl 36864 5 = Some (OPRT_OK, [0xFF, 0xFF, 0xFF, 0xFF, 0xFF], fl'))"
proof -
  obtain info where info: "flash_type_info False TUYA_FLASH_TYPE_UF = Some info" by (simp add: flash_type_info_def)
  have "36864 + 5 \<le> FLASH_FILE_SIZE" by (simp add: FLASH_FILE_SIZE_def)
  with flash_first_start [OF start_fs_fresh info] obtain fl fl' where
    "tkl_flash_get_one_type_info False True \<lparr>fl_fs = start_fs 300000000 4096, s_flash_file = 0\<rparr> TUYA_FLASH_TYPE_UF False = Some (OPRT_OK, Some info, fl)"
    "tkl_flash_read fl (of_nat 36864) (of_nat 5) = Some (OPRT_OK, replicate 5 0xFF, fl')" by blast
  moreover have "replicate 5 (0xFF :: u8) = [0xFF, 0xFF, 0xFF, 0xFF, 0xFF]" by (simp add: numeral_eq_Suc)
  ultimately show ?thesis using info start_fs_fresh by auto
qed

theorem flash_partitions_isolated_witness:
  "part_of False TUYA_FLASH_TYPE_KV_DATA = Some (0x1000, 0x8000) \<and> part_of False TUYA_FLASH_TYPE_UF = Some (0x9000, 0x18000) \<and>
   (\<exists>fl fl1 fl2. flash_ok fl \<and> flash_dev.writes fl [(0x1000, [1, 2]), (0x1001, [3])] = Some fl1
     \<and> tkl_flash_read fl1 0x9000 0x18000 = Some (OPRT_OK, take 0x18000 (drop 0x9000 (flash_img fl)), fl2))"
proof -
  from flash_open_fresh [OF start_fs_fresh] obtain fl where fl: "flash_ok fl" "flash_img fl = replicate FLASH_FILE_SIZE 0xFF"
    "FLASH_FILE_SIZE \<le> flash_limit fl" by blast
  have "flash_dev.within 0x1000 0x8000 [(0x1000, [1, 2 :: u8]), (0x1001, [3])]" by (simp add: flash_dev.within_def)
  from flash_partitions_isolated [OF fl(1) _ fl(3) part_of_simps(2) part_of_simps(1) _ this] fl(2)
  obtain fl1 fl2 where "flash_dev.writes fl [(0x1000, [1, 2]), (0x1001, [3])] = Some fl1"
     "tkl_flash_read fl1 0x9000 0x18000 = Some (OPRT_OK, take 0x18000 (drop 0x9000 (flash_img fl)), fl2)"
    by (auto simp del: flash_dev.writes.simps)
  then show ?thesis using fl(1) part_of_simps by blast
qed

section \<open>A full disk\<close>

text \<open>
  The results of \<open>fflush\<close> and \<open>fsync\<close> are not tested, so that \<open>tkl_flash_write\<close> reports success for data that
  never reaches the file: a block that fits the stream buffer, written at an address that the full disk
  does not allow, gives \<open>OPRT_OK\<close> and leaves the flash as it was.
\<close>

theorem flash_write_lost_on_full_disk:
  assumes ok: "flash_ok fl" and a: "a < 4294967296" "cap (fl_fs fl) (flash_ino fl) \<le> a"
    and b: "b \<noteq> []" "length b \<le> fs_bufsiz (fl_fs fl)" "length b < 2147483648"
  shows "\<exists>fl'. tkl_flash_write fl (of_nat a) b (of_nat (length b)) = Some (OPRT_OK, fl') \<and> flash_img fl' = flash_img fl"
proof -
  let ?f = "s_flash_file fl" and ?i = "flash_ino fl"
  from ok obtain nd where nd: "fs_nodes (fl_fs fl) ?i = Some nd" "is_reg nd" and f: "?f \<noteq> 0" by (elim flash_okE)
  then obtain perm c d where reg: "fs_nodes (fl_fs fl) ?i = Some (Reg perm c d)" by (elim is_regE) simp
  from flash_seek [OF ok a(1)] obtain s1 st1 where seek: "tkl_fseek (fl_fs fl) ?f (uint (of_nat a :: u32)) SEEK_SET = Some (0, s1)"
    and s1: "s1 = put_stream (fl_fs fl) ?f st1"
    and st1: "st_wr st1" "\<not> st_app st1" "st_pend st1 = []" "st_pos st1 = a" "st_last st1 = Idle" "st_ino st1 = ?i" .
  let ?st2 = "st1\<lparr>st_pend := b, st_last := Writing, st_eof := False\<rparr>"
  let ?s2 = "put_stream s1 ?f ?st2"
  have wr: "tkl_fwrite s1 b (int (length b)) ?f = Some (int (length b), ?s2)"
    using st1 s1 b by (simp add: tkl_fwrite_def c_fwrite_def c_int_small)
  have fit0: "fit ?s2 ?i a (length b) = 0" using a(2) by (simp add: fit_def s1 cap_def)
  have set: "set_content ?s2 ?i (content ?s2 ?i) = ?s2" using reg by (simp add: set_content_def content_def s1 fun_upd_idem)
  define s3 where "s3 = put_stream ?s2 ?f (?st2\<lparr>st_pos := a, st_pend := [], st_err := True, st_last := Idle\<rparr>)"
  have fl: "tkl_fflush ?s2 ?f = Some (-1, s3)"
    using f b st1 fit0 set by (simp add: tkl_fflush_def c_fflush_def c_fflush1_def flush_stream_cons wpos_def Let_def s3_def put_stream_def)
  have fd: "tkl_fileno s3 ?f = Some (int ?f)" by (simp add: s3_def tkl_fileno_def c_fileno_def)
  obtain r s4 where s4: "tkl_fsync s3 (int ?f) = (r, s4)" by (metis surj_pair)
  have w: "tkl_flash_write fl (of_nat a) b (of_nat (length b)) = Some (OPRT_OK, fl\<lparr>fl_fs := s4\<rparr>)"
    using f seek wr fl fd s4 a b by (simp add: tkl_flash_write_def uint_of_nat_u32 c_int_small)
  have "content s4 ?i = content (fl_fs fl) ?i" "fs_names s4 = fs_names (fl_fs fl)"
    using s4 reg st1(6) by (auto simp: tkl_fsync_def c_fsync_def s3_def s1 content_def put_stream_def)
  then show ?thesis using w by (simp add: flash_img_def flash_ino_def)
qed

theorem flash_write_lost_on_full_disk_witness:
  "flash_ok example_flash \<and> cap (fl_fs example_flash) (flash_ino example_flash) \<le> 105 \<and>
   (\<exists>fl'. tkl_flash_write example_flash 105 [1, 2] 2 = Some (OPRT_OK, fl') \<and> flash_img fl' = [1, 2, 3, 4, 5])"
proof -
  have c: "cap (fl_fs example_flash) (flash_ino example_flash) = 105" "fs_bufsiz (fl_fs example_flash) = 4"
    "flash_img example_flash = [1, 2, 3, 4, 5]"
    by (simp_all add: flash_ino_def flash_img_def example_flash_def start_fs_def cap_def content_def)
  from flash_write_lost_on_full_disk [OF example_flash_ok, of 105 "[1, 2]"] c example_flash_ok show ?thesis by simp
qed

end
