(* ===== verification/Tkl_Ota.thy ===== *)
theory Tkl_Ota
  imports Tkl_Fs
begin

text \<open>
  The firmware update of \<open>tkl_ota.c\<close>: the packets of the image are appended to a file.  A packet that
  does not reach the end of the image keeps its last 100 bytes back: they are reported as
  \<open>remain_len\<close> and come again with the next packet.  \<open>None\<close> is undefined behaviour: a stream that is
  null or already closed, or a count beyond the packet.
\<close>

section \<open>The code\<close>

datatype TUYA_OTA_TYPE_E = TUYA_OTA_FULL | TUYA_OTA_DIFF

definition ota_type_num :: "TUYA_OTA_TYPE_E \<Rightarrow> u32" where
  "ota_type_num t = (case t of TUYA_OTA_FULL \<Rightarrow> 1 | TUYA_OTA_DIFF \<Rightarrow> 2)"

datatype TUYA_OTA_PATH_E =
    TUYA_OTA_PATH_AIR | TUYA_OTA_PATH_UART | TUYA_OTA_PATH_BLE | TUYA_OTA_PATH_ZIGBEE | TUYA_OTA_PATH_SEC_A | TUYA_OTA_PATH_SEC_B
  | TUYA_OTA_PATH_INVALID

record TUYA_OTA_DATA_T =
  od_total_len :: u32
  od_start_addr :: u32
  od_offset :: u32
  od_data :: bytes
  od_len :: u32

record ota =
  ot_fs :: fs
  s_upgrade_fd :: nat

datatype outcome = Returned OPERATE_RET | Exited int

definition OTA_PATH :: string where "OTA_PATH = ''./tuyadb/ota''"

definition tkl_ota_get_ability :: "OPERATE_RET \<times> u32 \<times> u32" where
  "tkl_ota_get_ability = (OPRT_OK, -1, ota_type_num TUYA_OTA_FULL OR ota_type_num TUYA_OTA_DIFF)"

definition tkl_ota_start_notify :: "ota \<Rightarrow> u32 \<Rightarrow> TUYA_OTA_TYPE_E \<Rightarrow> TUYA_OTA_PATH_E \<Rightarrow> (OPERATE_RET \<times> ota) option" where
  "tkl_ota_start_notify o1 image_size type path = do {
     s1 \<leftarrow> (if s_upgrade_fd o1 \<noteq> 0 then do { (_, s) \<leftarrow> c_fclose (ot_fs o1) (s_upgrade_fd o1); Some s } else Some (ot_fs o1));
     let (f, s2) = c_fopen s1 OTA_PATH ''w+b'';
     Some (if f = 0 then OPRT_COM_ERROR else OPRT_OK, \<lparr>ot_fs = s2, s_upgrade_fd = f\<rparr>)
   }"

text \<open>\<open>fwrite\<close> of \<open>n\<close> bytes of the packet; the count it returns is not used.\<close>

definition ota_fwrite :: "ota \<Rightarrow> bytes \<Rightarrow> u32 \<Rightarrow> ota option" where
  "ota_fwrite o1 data n =
     (if length data < unat n then None
      else do { (_, s) \<leftarrow> c_fwrite (ot_fs o1) (s_upgrade_fd o1) (take (unat n) data); Some (o1\<lparr>ot_fs := s\<rparr>) })"

definition tkl_ota_data_process :: "ota \<Rightarrow> TUYA_OTA_DATA_T \<Rightarrow> (OPERATE_RET \<times> u32 \<times> ota) option" where
  "tkl_ota_data_process o1 pack =
     (if od_offset pack + od_len pack \<noteq> od_total_len pack
      then do { o2 \<leftarrow> ota_fwrite o1 (od_data pack) (od_len pack - 100); Some (OPRT_OK, 100, o2) }
      else do { o2 \<leftarrow> ota_fwrite o1 (od_data pack) (od_len pack); Some (OPRT_OK, 0, o2) })"

text \<open>\<open>exit\<close> writes the buffers of all streams and ends the process.\<close>

definition tkl_ota_end_notify :: "ota \<Rightarrow> bool \<Rightarrow> (outcome \<times> ota) option" where
  "tkl_ota_end_notify o1 reset = do {
     (_, s1) \<leftarrow> c_fclose (ot_fs o1) (s_upgrade_fd o1);
     Some (if reset then (Exited 1, o1\<lparr>ot_fs := crash (snd (flush_all s1 [1..<fs_next s1]))\<rparr>)
           else (Returned OPRT_OK, o1\<lparr>ot_fs := s1\<rparr>))
   }"

section \<open>Transferring an image\<close>







text \<open>
  \<open>tkl_ota_end_notify\<close> closes the file but leaves \<open>s_upgrade_fd\<close> set.  After an update that ends without a
  reset, the next \<open>tkl_ota_start_notify\<close> closes the same stream again and a second \<open>tkl_ota_end_notify\<close> does
  too: both are undefined behaviour, whatever the state.
\<close>

theorem ota_restart_undefined:
  assumes "s_upgrade_fd o1 \<noteq> 0" "tkl_ota_end_notify o1 False = Some (r, o2)"
  shows "tkl_ota_start_notify o2 sz ty path = None \<and> tkl_ota_end_notify o2 reset = None"
proof -
  from assms(2) obtain s1 where s1: "c_fclose (ot_fs o1) (s_upgrade_fd o1) = Some s1" "o2 = o1\<lparr>ot_fs := snd s1\<rparr>"
    by (auto simp: tkl_ota_end_notify_def split: bind_splits)
  then have "fs_streams (ot_fs o2) (s_upgrade_fd o2) = None" by (auto simp: c_fclose_def split: bind_splits)
  then have "c_fclose (ot_fs o2) (s_upgrade_fd o2) = None" by (simp add: c_fclose_def c_fflush1_def)
  then show ?thesis using assms(1) s1(2) by (simp add: tkl_ota_start_notify_def tkl_ota_end_notify_def)
qed

text \<open>A packet of fewer than 100 bytes that is not the last makes the count wrap: the code reads past the packet.\<close>

lemma ota_short_packet:
  assumes "unat (od_len p) < 100" "length (od_data p) = unat (od_len p)" "od_offset p + od_len p \<noteq> od_total_len p"
  shows "tkl_ota_data_process o1 p = None"
proof -
  have m: "- 100 = (4294967196 :: u32)" by simp
  have "od_len p - 100 = od_len p + 4294967196" using m by (metis diff_conv_add_uminus)
  moreover have "unat (od_len p + 4294967196) = unat (od_len p) + unat (4294967196 :: u32)"
    by (rule unat_add_small) (use assms(1) in simp)
  ultimately have "unat (od_len p) < unat (od_len p - 100)" by (simp only:) simp
  then show ?thesis using assms(2,3) by (simp add: tkl_ota_data_process_def ota_fwrite_def)
qed

section \<open>Examples\<close>

definition ota_disk :: fs where
  "ota_disk = snd (tkl_fs_mkdir (start_fs 1000 64) ''./tuyadb'')"






theorem ota_restart_undefined_witness:
  "\<exists>o1 r o2. s_upgrade_fd o1 \<noteq> 0 \<and> tkl_ota_end_notify o1 False = Some (r, o2)
     \<and> tkl_ota_start_notify o2 150 TUYA_OTA_FULL TUYA_OTA_PATH_AIR = None"
proof -
  let ?o1 = "\<lparr>ot_fs = snd (c_fopen ota_disk OTA_PATH ''w+b''), s_upgrade_fd = 1\<rparr>"
  have "tkl_ota_end_notify ?o1 False \<noteq> None" by code_simp
  then obtain r o2 where o2: "tkl_ota_end_notify ?o1 False = Some (r, o2)" by auto
  have "s_upgrade_fd ?o1 \<noteq> 0" by simp
  with ota_restart_undefined [OF this o2] o2 show ?thesis by blast
qed

end
