(* ===== verification/Tkl_Mutex.thy ===== *)
theory Tkl_Mutex
  imports Tkl_Memory
begin

text \<open>
  The mutex of \<open>tkl_mutex.c\<close>: a block of the system memory that holds a POSIX mutex.
  A mutex has the kind it was initialised with and is free or held by a thread a number of times; \<open>t\<close> is
  the calling thread.  The memory manager's operations are arguments, as are the results of the attribute calls.
  A call gives \<open>Fault\<close> where its behaviour is undefined (no mutex at the address), \<open>Wait\<close> when the
  thread has to wait, and \<open>Done\<close> with its result.
\<close>

datatype 'r run = Fault | Wait | Done 'r

fun run_bind :: "'r run \<Rightarrow> ('r \<Rightarrow> 'q run) \<Rightarrow> 'q run" where
  "run_bind Fault g = Fault"
| "run_bind Wait g = Wait"
| "run_bind (Done x) g = g x"

definition of_option :: "'r option \<Rightarrow> 'r run" where
  "of_option x = (case x of None \<Rightarrow> Fault | Some v \<Rightarrow> Done v)"

lemma of_option_simps [simp]: "of_option None = Fault" "of_option (Some v) = Done v"
  by (simp_all add: of_option_def)

lemma run_bind_DoneE:
  assumes "run_bind m g = Done y" obtains x where "m = Done x" "g x = Done y"
  using assms by (cases m) auto

section \<open>POSIX mutexes\<close>

datatype mutex_kind = PTHREAD_MUTEX_NORMAL | PTHREAD_MUTEX_RECURSIVE | PTHREAD_MUTEX_ERRORCHECK

text \<open>An attribute object holds the kind; a new one holds the default kind of Linux.\<close>

definition pthread_mutexattr_init :: mutex_kind where
  "pthread_mutexattr_init = PTHREAD_MUTEX_NORMAL"

definition pthread_mutexattr_settype :: "mutex_kind \<Rightarrow> mutex_kind \<Rightarrow> mutex_kind" where
  "pthread_mutexattr_settype attr k = k"

record pmutex =
  pm_kind :: mutex_kind
  pm_owner :: "nat option"
  pm_depth :: nat

definition pthread_mutex_init :: "mutex_kind \<Rightarrow> pmutex" where
  "pthread_mutex_init attr = \<lparr>pm_kind = attr, pm_owner = None, pm_depth = 0\<rparr>"

definition EAGAIN :: int where "EAGAIN = 11"
definition EDEADLK :: int where "EDEADLK = 35"

text \<open>
  \<open>None\<close> means that the thread has to wait.  A thread that locks a mutex it holds already counts once
  more, in 32 bits, if the mutex is recursive; it waits for itself if the mutex is a normal one and gets an
  error if the mutex checks for errors.
\<close>

definition pthread_mutex_lock :: "nat \<Rightarrow> pmutex \<Rightarrow> (int \<times> pmutex) option" where
  "pthread_mutex_lock t m =
     (case pm_owner m of
        None \<Rightarrow> Some (0, m\<lparr>pm_owner := Some t, pm_depth := 1\<rparr>)
      | Some u \<Rightarrow>
          if u \<noteq> t then None
          else (case pm_kind m of
                  PTHREAD_MUTEX_NORMAL \<Rightarrow> None
                | PTHREAD_MUTEX_RECURSIVE \<Rightarrow>
                    if pm_depth m + 1 < 2 ^ 32 then Some (0, m\<lparr>pm_depth := pm_depth m + 1\<rparr>) else Some (EAGAIN, m)
                | PTHREAD_MUTEX_ERRORCHECK \<Rightarrow> Some (EDEADLK, m)))"

text \<open>Unlocking a normal mutex that the thread does not hold is undefined, \<open>None\<close>; the other kinds refuse it.\<close>

definition pthread_mutex_unlock :: "nat \<Rightarrow> pmutex \<Rightarrow> (int \<times> pmutex) option" where
  "pthread_mutex_unlock t m =
     (if pm_owner m \<noteq> Some t then (if pm_kind m = PTHREAD_MUTEX_NORMAL then None else Some (EPERM, m))
      else if pm_depth m \<le> 1 then Some (0, m\<lparr>pm_owner := None, pm_depth := 0\<rparr>)
      else Some (0, m\<lparr>pm_depth := pm_depth m - 1\<rparr>))"

definition pthread_mutex_destroy :: "pmutex \<Rightarrow> int" where
  "pthread_mutex_destroy m = (if pm_owner m = None then 0 else EBUSY)"

section \<open>The adapter\<close>

record 'a mutex_sys =
  mx_mem :: 'a
  mx_locks :: "nat \<rightharpoonup> pmutex"

text \<open>\<open>sizeof(TKL_MUTEX_MANAGE)\<close>, the size of a \<open>pthread_mutex_t\<close>.\<close>

definition TKL_MUTEX_SIZE :: nat where "TKL_MUTEX_SIZE = 40"

text \<open>
  \<open>r1\<close> to \<open>r4\<close> are the results of \<open>pthread_mutexattr_init\<close>, \<open>pthread_mutexattr_settype\<close>,
  \<open>pthread_mutex_init\<close> and \<open>pthread_mutexattr_destroy\<close>, and \<open>attr\<close> is the attribute object.  The second result is the handle stored, 0 when none is.
\<close>

definition tkl_mutex_create_init ::
    "'a malloc_fn \<Rightarrow> int \<Rightarrow> int \<Rightarrow> int \<Rightarrow> int \<Rightarrow> ('a, 'b) mutex_sys_scheme \<Rightarrow> bool
      \<Rightarrow> (OPERATE_RET \<times> nat \<times> ('a, 'b) mutex_sys_scheme) run" where
  "tkl_mutex_create_init malloc r1 r2 r3 r4 s handle_null =
     (if handle_null then Done (OPRT_INVALID_PARM, 0, s)
      else run_bind (of_option (malloc (mx_mem s) TKL_MUTEX_SIZE)) (\<lambda>(p, a).
        let s1 = s\<lparr>mx_mem := a\<rparr>
        in if p = 0 then Done (OPRT_MALLOC_FAILED, 0, s1)
           else let attr = pthread_mutexattr_init
           in if 0 \<noteq> r1 then Done (OPRT_OS_ADAPTER_MUTEX_CREAT_FAILED, 0, s1)
           else let attr = pthread_mutexattr_settype attr PTHREAD_MUTEX_RECURSIVE
           in if 0 \<noteq> r2 then Done (OPRT_OS_ADAPTER_MUTEX_CREAT_FAILED, 0, s1)
           else if 0 \<noteq> r3 then Done (OPRT_OS_ADAPTER_MUTEX_CREAT_FAILED, 0, s1)
           else let s2 = s1\<lparr>mx_locks := (mx_locks s1)(p \<mapsto> pthread_mutex_init attr)\<rparr>
                in if 0 \<noteq> r4 then Done (OPRT_OS_ADAPTER_MUTEX_RELEASE_FAILED, 0, s2)
                   else Done (OPRT_OK, p, s2)))"

definition tkl_mutex_lock :: "('a, 'b) mutex_sys_scheme \<Rightarrow> nat \<Rightarrow> nat \<Rightarrow> (OPERATE_RET \<times> ('a, 'b) mutex_sys_scheme) run" where
  "tkl_mutex_lock s t handle =
     (if handle = 0 then Done (OPRT_INVALID_PARM, s)
      else case mx_locks s handle of
             None \<Rightarrow> Fault
           | Some m \<Rightarrow>
               (case pthread_mutex_lock t m of
                  None \<Rightarrow> Wait
                | Some (ret, m') \<Rightarrow>
                    Done (if ret \<noteq> 0 then OPRT_OS_ADAPTER_MUTEX_LOCK_FAILED else OPRT_OK,
                          s\<lparr>mx_locks := (mx_locks s)(handle \<mapsto> m')\<rparr>)))"

definition tkl_mutex_unlock :: "('a, 'b) mutex_sys_scheme \<Rightarrow> nat \<Rightarrow> nat \<Rightarrow> (OPERATE_RET \<times> ('a, 'b) mutex_sys_scheme) run" where
  "tkl_mutex_unlock s t handle =
     (if handle = 0 then Done (OPRT_INVALID_PARM, s)
      else case mx_locks s handle of
             None \<Rightarrow> Fault
           | Some m \<Rightarrow>
               (case pthread_mutex_unlock t m of
                  None \<Rightarrow> Fault
                | Some (ret, m') \<Rightarrow>
                    Done (if ret \<noteq> 0 then OPRT_OS_ADAPTER_MUTEX_UNLOCK_FAILED else OPRT_OK,
                          s\<lparr>mx_locks := (mx_locks s)(handle \<mapsto> m')\<rparr>)))"

definition tkl_mutex_release ::
    "'a free_fn \<Rightarrow> ('a, 'b) mutex_sys_scheme \<Rightarrow> nat \<Rightarrow> (OPERATE_RET \<times> ('a, 'b) mutex_sys_scheme) run" where
  "tkl_mutex_release free s handle =
     (if handle = 0 then Done (OPRT_INVALID_PARM, s)
      else case mx_locks s handle of
             None \<Rightarrow> Fault
           | Some m \<Rightarrow>
               if pthread_mutex_destroy m \<noteq> 0 then Done (OPRT_OS_ADAPTER_MUTEX_RELEASE_FAILED, s)
               else run_bind (of_option (free (mx_mem s) handle)) (\<lambda>a.
                      Done (OPRT_OK, s\<lparr>mx_mem := a, mx_locks := (mx_locks s)(handle := None)\<rparr>)))"

definition tkl_mutex_trylock :: "nat \<Rightarrow> OPERATE_RET" where
  "tkl_mutex_trylock handle = OPRT_NOT_FOUND"

section \<open>Exclusion\<close>

text \<open>A recursive mutex: free, and held once by a thread.\<close>

abbreviation free_mutex :: pmutex where
  "free_mutex \<equiv> \<lparr>pm_kind = PTHREAD_MUTEX_RECURSIVE, pm_owner = None, pm_depth = 0\<rparr>"

abbreviation held_mutex :: "nat \<Rightarrow> pmutex" where
  "held_mutex t \<equiv> \<lparr>pm_kind = PTHREAD_MUTEX_RECURSIVE, pm_owner = Some t, pm_depth = 1\<rparr>"

lemma mutex_attr_simps [simp]:
  "pthread_mutex_init (pthread_mutexattr_settype attr PTHREAD_MUTEX_RECURSIVE) = free_mutex"
  by (simp add: pthread_mutex_init_def pthread_mutexattr_settype_def)

text \<open>A free mutex is taken at once, and while a thread has it every other thread waits.\<close>

lemma lock_free:
  "handle \<noteq> 0 \<Longrightarrow> mx_locks s handle = Some free_mutex \<Longrightarrow>
   tkl_mutex_lock s t handle = Done (OPRT_OK, s\<lparr>mx_locks := (mx_locks s)(handle \<mapsto> held_mutex t)\<rparr>)"
  by (simp add: tkl_mutex_lock_def pthread_mutex_lock_def)

lemma lock_held:
  "handle \<noteq> 0 \<Longrightarrow> mx_locks s handle = Some m \<Longrightarrow> pm_owner m = Some u \<Longrightarrow> u \<noteq> t \<Longrightarrow> tkl_mutex_lock s t handle = Wait"
  by (simp add: tkl_mutex_lock_def pthread_mutex_lock_def)

lemma unlock_held:
  "handle \<noteq> 0 \<Longrightarrow> mx_locks s handle = Some (held_mutex t) \<Longrightarrow>
   tkl_mutex_unlock s t handle = Done (OPRT_OK, s\<lparr>mx_locks := (mx_locks s)(handle \<mapsto> free_mutex)\<rparr>)"
  by (simp add: tkl_mutex_unlock_def pthread_mutex_unlock_def)

fun mutex_calls :: "('a, 'b) mutex_sys_scheme \<Rightarrow> nat \<Rightarrow> nat \<Rightarrow> bool list \<Rightarrow> (OPERATE_RET list \<times> ('a, 'b) mutex_sys_scheme) run" where
  "mutex_calls s t h [] = Done ([], s)"
| "mutex_calls s t h (c # cs) =
     run_bind (if c then tkl_mutex_lock s t h else tkl_mutex_unlock s t h) (\<lambda>(r, s1).
       run_bind (mutex_calls s1 t h cs) (\<lambda>(rs, s2). Done (r # rs, s2)))"

text \<open>How deep a thread holds the mutex after a list of lock (\<open>True\<close>) and unlock calls.\<close>

fun nesting :: "nat \<Rightarrow> bool list \<Rightarrow> nat" where
  "nesting d [] = d"
| "nesting d (c # cs) = nesting (if c then d + 1 else d - 1) cs"

definition held_by :: "nat \<Rightarrow> nat \<Rightarrow> pmutex" where
  "held_by t d = (if d = 0 then free_mutex else \<lparr>pm_kind = PTHREAD_MUTEX_RECURSIVE, pm_owner = Some t, pm_depth = d\<rparr>)"

text \<open>What the calls answer: a lock succeeds, an unlock does if the mutex is held.\<close>

fun mutex_answers :: "nat \<Rightarrow> bool list \<Rightarrow> OPERATE_RET list" where
  "mutex_answers d [] = []"
| "mutex_answers d (c # cs) =
     (if \<not> c \<and> d = 0 then OPRT_OS_ADAPTER_MUTEX_UNLOCK_FAILED else OPRT_OK) # mutex_answers (if c then d + 1 else d - 1) cs"

lemma mutex_calls_nesting:
  assumes "h \<noteq> 0" "mx_locks s h = Some (held_by t d)" "d + length cs < 2 ^ 32"
  shows "\<exists>s'. mutex_calls s t h cs = Done (mutex_answers d cs, s') \<and> mx_locks s' h = Some (held_by t (nesting d cs))"
  using assms(2,3)
proof (induction cs arbitrary: s d)
  case (Cons c cs)
  let ?d = "if c then d + 1 else d - 1" and ?r = "if \<not> c \<and> d = 0 then OPRT_OS_ADAPTER_MUTEX_UNLOCK_FAILED else OPRT_OK"
  obtain s1 where s1: "(if c then tkl_mutex_lock s t h else tkl_mutex_unlock s t h) = Done (?r, s1)" "mx_locks s1 h = Some (held_by t ?d)"
    using Cons.prems assms(1)
    by (cases c; cases "d = 0"; cases "d = 1")
       (auto simp: tkl_mutex_lock_def tkl_mutex_unlock_def pthread_mutex_lock_def pthread_mutex_unlock_def held_by_def EPERM_def)
  have "?d + length cs < 2 ^ 32" using Cons.prems(2) by auto
  from Cons.IH [OF s1(2) this] obtain s2 where
    "mutex_calls s1 t h cs = Done (mutex_answers ?d cs, s2)" "mx_locks s2 h = Some (held_by t (nesting ?d cs))" by blast
  then show ?case using s1(1) by (auto simp del: of_nat_Suc)
qed simp

lemma created_mutex_free:
  "tkl_mutex_create_init malloc r1 r2 r3 r4 s False = Done (OPRT_OK, h, s1) \<Longrightarrow> h \<noteq> 0 \<and> mx_locks s1 h = Some free_mutex"
  by (auto simp: tkl_mutex_create_init_def Let_def split: if_splits elim!: run_bind_DoneE)

text \<open>
  C20: A mutex made by \<open>tkl_mutex_create_init\<close> is recursive and exclusive.  Whatever lock and unlock calls a
  thread makes on it, fewer than \<open>2\<^sup>3\<^sup>2\<close>, none of them waits or is undefined, every lock succeeds, and an unlock
  succeeds exactly if the thread holds the mutex; afterwards another thread gets the mutex at once when the
  calls are balanced (an unlock of a mutex that is not held counts for nothing) and has to wait
  otherwise; releasing the mutex is refused in the second case.  With the default kind of mutex the second
  of two nested locks would wait for ever.
\<close>

theorem mutex_recursive_exclusive:
  assumes "tkl_mutex_create_init malloc r1 r2 r3 r4 s0 False = Done (OPRT_OK, h, s)" "length cs < 2 ^ 32" "u \<noteq> t"
  shows "\<exists>s'. mutex_calls s t h cs = Done (mutex_answers 0 cs, s')
    \<and> (nesting 0 cs = 0 \<longrightarrow> (\<exists>s''. tkl_mutex_lock s' u h = Done (OPRT_OK, s'')))
    \<and> (nesting 0 cs \<noteq> 0 \<longrightarrow> tkl_mutex_lock s' u h = Wait \<and> tkl_mutex_release free s' h = Done (OPRT_OS_ADAPTER_MUTEX_RELEASE_FAILED, s'))"
proof -
  have h: "h \<noteq> 0" "mx_locks s h = Some (held_by t 0)" using created_mutex_free [OF assms(1)] by (simp_all add: held_by_def)
  from mutex_calls_nesting [OF h, of cs] assms(2) obtain s' where
    s': "mutex_calls s t h cs = Done (mutex_answers 0 cs, s')" "mx_locks s' h = Some (held_by t (nesting 0 cs))" by auto
  have "nesting 0 cs = 0 \<Longrightarrow> \<exists>s''. tkl_mutex_lock s' u h = Done (OPRT_OK, s'')"
    using s'(2) lock_free [OF h(1), of s' u] by (simp add: held_by_def)
  moreover have "nesting 0 cs \<noteq> 0 \<Longrightarrow> tkl_mutex_lock s' u h = Wait \<and> tkl_mutex_release free s' h = Done (OPRT_OS_ADAPTER_MUTEX_RELEASE_FAILED, s')"
    using s'(2) h(1) assms(3) lock_held [OF h(1), of s' _ t u]
    by (auto simp: held_by_def tkl_mutex_release_def pthread_mutex_destroy_def EBUSY_def)
  ultimately show ?thesis using s'(1) by (intro exI [of _ s']) simp
qed

theorem mutex_recursive_exclusive_witness:
  "\<exists>s. tkl_mutex_create_init (\<lambda>a n. Some (8, a)) 0 0 0 0 \<lparr>mx_mem = (), mx_locks = Map.empty\<rparr> False = Done (OPRT_OK, 8, s)
   \<and> (\<exists>s'. mutex_calls s 1 8 [True, True, False] = Done ([OPRT_OK, OPRT_OK, OPRT_OK], s') \<and> tkl_mutex_lock s' 2 8 = Wait)
   \<and> (\<exists>s' s''. mutex_calls s 1 8 [True, True, False, False] = Done ([OPRT_OK, OPRT_OK, OPRT_OK, OPRT_OK], s')
        \<and> tkl_mutex_lock s' 2 8 = Done (OPRT_OK, s''))"
proof -
  obtain s where c: "tkl_mutex_create_init (\<lambda>a n. Some (8, a)) 0 0 0 0 \<lparr>mx_mem = (), mx_locks = Map.empty\<rparr> False = Done (OPRT_OK, 8, s)"
    by (simp add: tkl_mutex_create_init_def)
  have "\<exists>s'. mutex_calls s 1 8 [True, True, False] = Done ([OPRT_OK, OPRT_OK, OPRT_OK], s') \<and> tkl_mutex_lock s' 2 8 = Wait"
    using mutex_recursive_exclusive [OF c, of "[True, True, False]" 2 1 "\<lambda>a p. None"] by (auto simp del: mutex_calls.simps)
  moreover have "\<exists>s' s''. mutex_calls s 1 8 [True, True, False, False] = Done ([OPRT_OK, OPRT_OK, OPRT_OK, OPRT_OK], s')
        \<and> tkl_mutex_lock s' 2 8 = Done (OPRT_OK, s'')"
    using mutex_recursive_exclusive [OF c, of "[True, True, False, False]" 2 1 "\<lambda>a p. None"] by (auto simp del: mutex_calls.simps)
  ultimately show ?thesis using c by blast
qed

end
