(* ===== verification/Tuya_Smartpointer.thy ===== *)
theory Tuya_Smartpointer
  imports Tkl_Mutex
begin

text \<open>
  The reference counter of \<open>include/utilities/src/tuya_smartpointer.c\<close>, in its multi-threaded form
  (\<open>OPERATING_SYSTEM\<close> is not \<open>SYSTEM_NON_OS\<close>), over the mutexes of \<open>Tkl_Mutex\<close> and the system memory.
  The structures are kept as a map from their addresses, and so are the bytes that a structure's data
  pointer leads to.  Results of the mutex calls are ignored, as in the code.
  The second half interleaves the steps of several threads: a call is cut at every access to shared
  memory, so that the loads and stores of the counter are steps of their own.
\<close>

record SMARTPOINTER_T =
  sp_mutex :: nat
  sp_malk :: bool
  sp_rfc :: u32
  sp_data_len :: u32
  sp_data :: nat

record 'a sp_sys = "'a mutex_sys" +
  ss_objs :: "nat \<rightharpoonup> SMARTPOINTER_T"
  ss_bytes :: "nat \<Rightarrow> bytes"

text \<open>\<open>sizeof(SMARTPOINTER_T)\<close>.\<close>

definition SMARTPOINTER_SIZE :: nat where "SMARTPOINTER_SIZE = 32"

section \<open>The operations\<close>

text \<open>\<open>tkl_system_free\<close>: what was kept at the address is gone.\<close>

definition sp_free :: "'a free_fn \<Rightarrow> 'a sp_sys \<Rightarrow> nat \<Rightarrow> 'a sp_sys run" where
  "sp_free free s p =
     run_bind (of_option (free (mx_mem s) p)) (\<lambda>a. Done (s\<lparr>mx_mem := a, ss_objs := (ss_objs s)(p := None)\<rparr>))"

text \<open>\<open>data\<close> is the address and the content of the caller's buffer.\<close>

definition tuya_smartpointer_create ::
    "'a malloc_fn \<Rightarrow> int \<Rightarrow> int \<Rightarrow> int \<Rightarrow> int \<Rightarrow> 'a sp_sys \<Rightarrow> nat \<Rightarrow> u32 \<Rightarrow> bool \<Rightarrow> u32 \<Rightarrow> (nat \<times> 'a sp_sys) run" where
  "tuya_smartpointer_create malloc r1 r2 r3 r4 s data data_len malk cnt =
     (if 0 = data_len \<or> data = 0 then Done (0, s)
      else run_bind (of_option (malloc (mx_mem s) (if malk then SMARTPOINTER_SIZE + unat data_len else SMARTPOINTER_SIZE))) (\<lambda>(p, a).
        let s1 = s\<lparr>mx_mem := a\<rparr>
        in if p = 0 then Done (0, s1)
           else run_bind (tkl_mutex_create_init malloc r1 r2 r3 r4 s1 False) (\<lambda>(_, h, s2).
             let d = (if malk then p + SMARTPOINTER_SIZE else data);
                 s3 = (if malk then s2\<lparr>ss_bytes := (ss_bytes s2)(d := take (unat data_len) (ss_bytes s2 data))\<rparr> else s2)
             in Done (p, s3\<lparr>ss_objs := (ss_objs s3)(p \<mapsto>
                  \<lparr>sp_mutex = h, sp_malk = False, sp_rfc = cnt, sp_data_len = data_len, sp_data = d\<rparr>)\<rparr>))))"

text \<open>The accesses of a thread to the structure at \<open>p\<close>.\<close>

definition sp_read :: "'a sp_sys \<Rightarrow> nat \<Rightarrow> SMARTPOINTER_T run" where
  "sp_read s p = of_option (ss_objs s p)"

definition SP_LOCK :: "'a sp_sys \<Rightarrow> nat \<Rightarrow> nat \<Rightarrow> 'a sp_sys run" where
  "SP_LOCK s t p = run_bind (sp_read s p) (\<lambda>o'. run_bind (tkl_mutex_lock s t (sp_mutex o')) (\<lambda>(_, s'). Done s'))"

definition SP_UNLOCK :: "'a sp_sys \<Rightarrow> nat \<Rightarrow> nat \<Rightarrow> 'a sp_sys run" where
  "SP_UNLOCK s t p = run_bind (sp_read s p) (\<lambda>o'. run_bind (tkl_mutex_unlock s t (sp_mutex o')) (\<lambda>(_, s'). Done s'))"

definition SP_RELEASE_LOCK :: "'a free_fn \<Rightarrow> 'a sp_sys \<Rightarrow> nat \<Rightarrow> 'a sp_sys run" where
  "SP_RELEASE_LOCK free s p = run_bind (sp_read s p) (\<lambda>o'. run_bind (tkl_mutex_release free s (sp_mutex o')) (\<lambda>(_, s'). Done s'))"

definition sp_load :: "'a sp_sys \<Rightarrow> nat \<Rightarrow> u32 run" where
  "sp_load s p = run_bind (sp_read s p) (\<lambda>o'. Done (sp_rfc o'))"

definition sp_store :: "'a sp_sys \<Rightarrow> nat \<Rightarrow> u32 \<Rightarrow> 'a sp_sys run" where
  "sp_store s p v = run_bind (sp_read s p) (\<lambda>o'. Done (s\<lparr>ss_objs := (ss_objs s)(p \<mapsto> o'\<lparr>sp_rfc := v\<rparr>)\<rparr>))"

definition tuya_smartpointer_get :: "'a sp_sys \<Rightarrow> nat \<Rightarrow> nat \<Rightarrow> 'a sp_sys run" where
  "tuya_smartpointer_get s t p =
     (if p = 0 then Done s
      else run_bind (SP_LOCK s t p) (\<lambda>s1.
           run_bind (sp_load s1 p) (\<lambda>v.
           run_bind (sp_store s1 p (v + 1)) (\<lambda>s2.
           SP_UNLOCK s2 t p))))"

text \<open>The end of \<open>tuya_smartpointer_put\<close> and all of \<open>tuya_smartpointer_del\<close>.\<close>

definition sp_release :: "'a free_fn \<Rightarrow> 'a sp_sys \<Rightarrow> nat \<Rightarrow> 'a sp_sys run" where
  "sp_release free s p =
     run_bind (SP_RELEASE_LOCK free s p) (\<lambda>s1.
     run_bind (sp_read s1 p) (\<lambda>o'.
     run_bind (if \<not> sp_malk o' then sp_free free s1 (sp_data o') else Done s1) (\<lambda>s2.
     sp_free free s2 p)))"

definition tuya_smartpointer_put :: "'a free_fn \<Rightarrow> 'a sp_sys \<Rightarrow> nat \<Rightarrow> nat \<Rightarrow> 'a sp_sys run" where
  "tuya_smartpointer_put free s t p =
     (if p = 0 then Done s
      else run_bind (SP_LOCK s t p) (\<lambda>s1.
           run_bind (sp_load s1 p) (\<lambda>v.
           run_bind (sp_store s1 p (v - 1)) (\<lambda>s2.
           run_bind (SP_UNLOCK s2 t p) (\<lambda>s3.
           if v - 1 = 0 then sp_release free s3 p else Done s3)))))"

definition tuya_smartpointer_del :: "'a free_fn \<Rightarrow> 'a sp_sys \<Rightarrow> nat \<Rightarrow> 'a sp_sys run" where
  "tuya_smartpointer_del free s p = sp_release free s p"

section \<open>Several threads\<close>

text \<open>
  Where a thread is inside a call on the structure: \<open>Get1\<close> and \<open>Put1\<close> have the lock, \<open>Get2\<close> and \<open>Put2\<close> have
  loaded the counter, \<open>Get3\<close> and \<open>Put3\<close> have stored it, and \<open>Put4\<close> has given the lock back; the argument is
  the local copy of the counter.
\<close>

datatype pc = Out | Get1 | Get2 u32 | Get3 | Put1 | Put2 u32 | Put3 u32 | Put4 u32

text \<open>The memory, how many references each thread owns, and where it is.\<close>

record 'a sp_conf =
  sc_sys :: "'a sp_sys"
  sc_refs :: "nat \<Rightarrow> nat"
  sc_pc :: "nat \<Rightarrow> pc"

definition ref_total :: "nat \<Rightarrow> (nat \<Rightarrow> nat) \<Rightarrow> nat" where
  "ref_total N r = (\<Sum>t<N. r t)"

definition goto :: "nat \<Rightarrow> pc \<Rightarrow> 'a sp_conf \<Rightarrow> 'a sp_conf" where
  "goto t q c = c\<lparr>sc_pc := (sc_pc c)(t := q)\<rparr>"

definition with_refs :: "nat \<Rightarrow> nat \<Rightarrow> 'a sp_conf \<Rightarrow> 'a sp_conf" where
  "with_refs t n c = c\<lparr>sc_refs := (sc_refs c)(t := n)\<rparr>"

definition with_sys :: "'a sp_sys \<Rightarrow> 'a sp_conf \<Rightarrow> 'a sp_conf" where
  "with_sys s c = c\<lparr>sc_sys := s\<rparr>"

lemma conf_simps [simp]:
  "sc_sys (goto t q c) = sc_sys c" "sc_refs (goto t q c) = sc_refs c" "sc_pc (goto t q c) = (sc_pc c)(t := q)"
  "sc_sys (with_refs t n c) = sc_sys c" "sc_refs (with_refs t n c) = (sc_refs c)(t := n)" "sc_pc (with_refs t n c) = sc_pc c"
  "sc_sys (with_sys s c) = s" "sc_refs (with_sys s c) = sc_refs c" "sc_pc (with_sys s c) = sc_pc c"
  by (simp_all add: goto_def with_refs_def with_sys_def)

text \<open>
  A thread may call \<open>tuya_smartpointer_get\<close> or \<open>tuya_smartpointer_put\<close> if it owns a reference; a reference
  may be handed to another thread; and there are fewer than 2^32 references.
\<close>

inductive sp_step :: "'a free_fn \<Rightarrow> nat \<Rightarrow> nat \<Rightarrow> 'a sp_conf \<Rightarrow> 'a sp_conf \<Rightarrow> bool" for free N p where
  get_lock: "t < N \<Longrightarrow> sc_pc c t = Out \<Longrightarrow> 0 < sc_refs c t \<Longrightarrow> SP_LOCK (sc_sys c) t p = Done s
      \<Longrightarrow> sp_step free N p c (goto t Get1 (with_sys s c))"
| get_load: "t < N \<Longrightarrow> sc_pc c t = Get1 \<Longrightarrow> sp_load (sc_sys c) p = Done v \<Longrightarrow> sp_step free N p c (goto t (Get2 v) c)"
| get_store: "t < N \<Longrightarrow> sc_pc c t = Get2 v \<Longrightarrow> ref_total N (sc_refs c) + 1 < 4294967296 \<Longrightarrow> sp_store (sc_sys c) p (v + 1) = Done s
      \<Longrightarrow> sp_step free N p c (goto t Get3 (with_refs t (sc_refs c t + 1) (with_sys s c)))"
| get_unlock: "t < N \<Longrightarrow> sc_pc c t = Get3 \<Longrightarrow> SP_UNLOCK (sc_sys c) t p = Done s \<Longrightarrow> sp_step free N p c (goto t Out (with_sys s c))"
| put_lock: "t < N \<Longrightarrow> sc_pc c t = Out \<Longrightarrow> 0 < sc_refs c t \<Longrightarrow> SP_LOCK (sc_sys c) t p = Done s
      \<Longrightarrow> sp_step free N p c (goto t Put1 (with_sys s c))"
| put_load: "t < N \<Longrightarrow> sc_pc c t = Put1 \<Longrightarrow> sp_load (sc_sys c) p = Done v \<Longrightarrow> sp_step free N p c (goto t (Put2 v) c)"
| put_store: "t < N \<Longrightarrow> sc_pc c t = Put2 v \<Longrightarrow> sp_store (sc_sys c) p (v - 1) = Done s
      \<Longrightarrow> sp_step free N p c (goto t (Put3 (v - 1)) (with_refs t (sc_refs c t - 1) (with_sys s c)))"
| put_unlock: "t < N \<Longrightarrow> sc_pc c t = Put3 v \<Longrightarrow> SP_UNLOCK (sc_sys c) t p = Done s \<Longrightarrow> sp_step free N p c (goto t (Put4 v) (with_sys s c))"
| put_end: "t < N \<Longrightarrow> sc_pc c t = Put4 v \<Longrightarrow> v \<noteq> 0 \<Longrightarrow> sp_step free N p c (goto t Out c)"
| put_release: "t < N \<Longrightarrow> sc_pc c t = Put4 0 \<Longrightarrow> sp_release free (sc_sys c) p = Done s \<Longrightarrow> sp_step free N p c (goto t Out (with_sys s c))"
| hand_over: "t < N \<Longrightarrow> u < N \<Longrightarrow> t \<noteq> u \<Longrightarrow> sc_pc c t = Out \<Longrightarrow> 0 < sc_refs c t
      \<Longrightarrow> sp_step free N p c (with_refs u (sc_refs c u + 1) (with_refs t (sc_refs c t - 1) c))"

text \<open>What a thread does next is defined: it returns or waits for the lock.\<close>

definition next_safe :: "'a free_fn \<Rightarrow> nat \<Rightarrow> 'a sp_conf \<Rightarrow> nat \<Rightarrow> bool" where
  "next_safe free p c t \<longleftrightarrow>
     (case sc_pc c t of
        Out \<Rightarrow> 0 < sc_refs c t \<longrightarrow> SP_LOCK (sc_sys c) t p \<noteq> Fault
      | Get1 \<Rightarrow> sp_load (sc_sys c) p \<noteq> Fault
      | Get2 v \<Rightarrow> sp_store (sc_sys c) p (v + 1) \<noteq> Fault
      | Get3 \<Rightarrow> SP_UNLOCK (sc_sys c) t p \<noteq> Fault
      | Put1 \<Rightarrow> sp_load (sc_sys c) p \<noteq> Fault
      | Put2 v \<Rightarrow> sp_store (sc_sys c) p (v - 1) \<noteq> Fault
      | Put3 v \<Rightarrow> SP_UNLOCK (sc_sys c) t p \<noteq> Fault
      | Put4 v \<Rightarrow> v = 0 \<longrightarrow> sp_release free (sc_sys c) p \<noteq> Fault)"

text \<open>A thread that runs its steps alone performs the call.\<close>

lemma put_steps:
  assumes "t < N" "sc_pc c t = Out" "0 < sc_refs c t" "p \<noteq> 0" "tuya_smartpointer_put free (sc_sys c) t p = Done s'"
  shows "\<exists>c'. (sp_step free N p)\<^sup>*\<^sup>* c c' \<and> sc_sys c' = s' \<and> sc_pc c' = sc_pc c \<and> sc_refs c' = (sc_refs c)(t := sc_refs c t - 1)"
proof -
  from assms(4,5) obtain s1 v s2 s3 where
    r: "SP_LOCK (sc_sys c) t p = Done s1" "sp_load s1 p = Done v" "sp_store s1 p (v - 1) = Done s2" "SP_UNLOCK s2 t p = Done s3"
      "(if v - 1 = 0 then sp_release free s3 p else Done s3) = Done s'"
    by (auto simp: tuya_smartpointer_put_def elim!: run_bind_DoneE split: if_splits)
  let ?c1 = "goto t Put1 (with_sys s1 c)"
  let ?c2 = "goto t (Put2 v) ?c1"
  let ?c3 = "goto t (Put3 (v - 1)) (with_refs t (sc_refs ?c2 t - 1) (with_sys s2 ?c2))"
  let ?c4 = "goto t (Put4 (v - 1)) (with_sys s3 ?c3)"
  let ?c5 = "goto t Out (with_sys s' ?c4)"
  have "sp_step free N p c ?c1" by (rule put_lock) (use assms r in simp_all)
  moreover have "sp_step free N p ?c1 ?c2" by (rule put_load) (use assms r in simp_all)
  moreover have "sp_step free N p ?c2 ?c3" by (rule put_store) (use assms r in simp_all)
  moreover have "sp_step free N p ?c3 ?c4" by (rule put_unlock) (use assms r in simp_all)
  moreover have "sp_step free N p ?c4 ?c5"
  proof (cases "v - 1 = 0")
    case True
    then show ?thesis using assms r by (intro put_release) simp_all
  next
    case False
    then have "with_sys s' ?c4 = ?c4" using r(5) by (simp add: with_sys_def goto_def)
    then show ?thesis using put_end [of t N ?c4 "v - 1" free p] assms(1) False by simp
  qed
  ultimately have "(sp_step free N p)\<^sup>*\<^sup>* c ?c5" by (meson converse_rtranclp_into_rtranclp rtranclp.rtrancl_refl)
  then show ?thesis using assms(2) by (intro exI [of _ ?c5]) (auto simp: fun_upd_idem)
qed

section \<open>The invariant of the reference count\<close>

definition inside :: "pc \<Rightarrow> bool" where
  "inside q \<longleftrightarrow> (case q of Out \<Rightarrow> False | Put4 v \<Rightarrow> False | _ \<Rightarrow> True)"

definition releaser :: "pc \<Rightarrow> bool" where
  "releaser q \<longleftrightarrow> q = Put3 0 \<or> q = Put4 0"

lemma inside_simps [simp]:
  "\<not> inside Out" "inside Get1" "inside (Get2 v)" "inside Get3" "inside Put1" "inside (Put2 v)" "inside (Put3 v)" "\<not> inside (Put4 v)"
  by (simp_all add: inside_def)

lemma releaser_simps [simp]:
  "\<not> releaser Out" "\<not> releaser Get1" "\<not> releaser (Get2 v)" "\<not> releaser Get3" "\<not> releaser Put1" "\<not> releaser (Put2 v)"
  "releaser (Put3 v) \<longleftrightarrow> v = 0" "releaser (Put4 v) \<longleftrightarrow> v = 0"
  by (simp_all add: releaser_def)

text \<open>What the local copy of a thread and its references say about the counter \<open>v\<close>.\<close>

fun pc_ok :: "u32 \<Rightarrow> nat \<Rightarrow> pc \<Rightarrow> bool" where
  "pc_ok v r Out \<longleftrightarrow> True"
| "pc_ok v r Get1 \<longleftrightarrow> 0 < r"
| "pc_ok v r (Get2 w) \<longleftrightarrow> 0 < r \<and> w = v"
| "pc_ok v r Get3 \<longleftrightarrow> 0 < r"
| "pc_ok v r Put1 \<longleftrightarrow> 0 < r"
| "pc_ok v r (Put2 w) \<longleftrightarrow> 0 < r \<and> w = v"
| "pc_ok v r (Put3 w) \<longleftrightarrow> w = v"
| "pc_ok v r (Put4 w) \<longleftrightarrow> (w = 0 \<longrightarrow> v = 0)"

text \<open>The structure \<open>ob\<close> at \<open>p\<close> and its mutex \<open>lk\<close>, while a thread may still use them.\<close>

definition sp_alive :: "nat \<Rightarrow> nat \<Rightarrow> nat \<Rightarrow> nat \<Rightarrow> SMARTPOINTER_T \<Rightarrow> pmutex \<Rightarrow> 'a sp_conf \<Rightarrow> bool" where
  "sp_alive N p m d ob lk c \<longleftrightarrow>
     ss_objs (sc_sys c) p = Some ob \<and> sp_mutex ob = m \<and> \<not> sp_malk ob \<and> sp_data ob = d
     \<and> unat (sp_rfc ob) = ref_total N (sc_refs c) \<and> (\<forall>t<N. pc_ok (sp_rfc ob) (sc_refs c t) (sc_pc c t))
     \<and> mx_locks (sc_sys c) m = Some lk \<and> (lk = free_mutex \<or> (\<exists>t<N. lk = held_mutex t))
     \<and> (\<forall>t<N. inside (sc_pc c t) \<longleftrightarrow> pm_owner lk = Some t)
     \<and> (ref_total N (sc_refs c) = 0 \<longrightarrow> (\<exists>t<N. releaser (sc_pc c t)))
     \<and> (\<forall>t<N. \<forall>u<N. releaser (sc_pc c t) \<longrightarrow> releaser (sc_pc c u) \<longrightarrow> t = u)"

definition sp_dead :: "nat \<Rightarrow> nat \<Rightarrow> 'a sp_conf \<Rightarrow> bool" where
  "sp_dead N p c \<longleftrightarrow>
     ss_objs (sc_sys c) p = None \<and> ref_total N (sc_refs c) = 0 \<and> (\<forall>t<N. \<not> inside (sc_pc c t) \<and> \<not> releaser (sc_pc c t))"

lemma total_upd:
  assumes "t < N" shows "ref_total N (r(t := x)) + r t = ref_total N r + x"
proof -
  have "sum (r(t := x)) ({..<N} - {t}) = sum r ({..<N} - {t})" by (rule sum.cong) auto
  then show ?thesis using assms by (simp add: ref_total_def sum.remove [of "{..<N}" t r] sum.remove [of "{..<N}" t "r(t := x)"] del: fun_upd_apply) simp
qed

lemma total_pos: "t < N \<Longrightarrow> 0 < r t \<Longrightarrow> 0 < ref_total N r"
  by (metis total_upd add_gr_0 add.commute fun_upd_triv)

lemma pc_ok_cong: "pc_ok v r q \<Longrightarrow> \<not> inside q \<Longrightarrow> (releaser q \<Longrightarrow> v' = 0) \<Longrightarrow> pc_ok v' r' q"
  by (cases q) auto

lemma pc_ok_refs: "pc_ok v r q \<Longrightarrow> (0 < r \<Longrightarrow> 0 < r') \<Longrightarrow> pc_ok v r' q"
  by (cases q) auto

text \<open>The code on a live structure.\<close>

lemma lock_alive:
  assumes "ss_objs s p = Some o'" "sp_mutex o' \<noteq> 0" "mx_locks s (sp_mutex o') = Some lk" "lk = free_mutex \<or> pm_owner lk = Some u \<and> u \<noteq> t"
  shows "SP_LOCK s t p = (if lk = free_mutex then Done (s\<lparr>mx_locks := (mx_locks s)(sp_mutex o' \<mapsto> held_mutex t)\<rparr>) else Wait)"
proof (cases "lk = free_mutex")
  case True
  then show ?thesis using assms by (simp add: SP_LOCK_def sp_read_def lock_free)
next
  case False
  then show ?thesis using assms lock_held [OF assms(2,3)] by (simp add: SP_LOCK_def sp_read_def)
qed

lemma unlock_alive:
  assumes "ss_objs s p = Some o'" "sp_mutex o' \<noteq> 0" "mx_locks s (sp_mutex o') = Some (held_mutex t)"
  shows "SP_UNLOCK s t p = Done (s\<lparr>mx_locks := (mx_locks s)(sp_mutex o' \<mapsto> free_mutex)\<rparr>)"
  using assms by (simp add: SP_UNLOCK_def sp_read_def unlock_held)

lemma alive_lock_step:
  assumes a: "sp_alive N p m d ob lk c" and m: "m \<noteq> 0" and t: "t < N" and q: "sc_pc c t = Out" "0 < sc_refs c t"
    and l: "SP_LOCK (sc_sys c) t p = Done s" and new: "q' = Get1 \<or> q' = Put1"
  shows "sp_alive N p m d ob (held_mutex t) (goto t q' (with_sys s c)) \<and> mx_mem s = mx_mem (sc_sys c)"
proof -
  have own: "pm_owner lk \<noteq> Some t" using a t q(1) by (auto simp: sp_alive_def)
  have free: "lk = free_mutex"
  proof (rule ccontr)
    assume "lk \<noteq> free_mutex"
    then obtain u where "pm_owner lk = Some u" "u \<noteq> t" using a own by (auto simp: sp_alive_def)
    then show False using lock_alive [of "sc_sys c" p ob lk u t] a m l \<open>lk \<noteq> free_mutex\<close> by (auto simp: sp_alive_def)
  qed
  then have s: "s = (sc_sys c)\<lparr>mx_locks := (mx_locks (sc_sys c))(m \<mapsto> held_mutex t)\<rparr>"
    using lock_alive [of "sc_sys c" p ob lk undefined t] a m l by (auto simp: sp_alive_def)
  have out: "\<forall>u<N. \<not> inside (sc_pc c u)" using a free by (simp add: sp_alive_def)
  have pos: "0 < ref_total N (sc_refs c)" by (rule total_pos [of t]) (use t q in simp_all)
  show ?thesis using a t q new out pos s by (auto simp: sp_alive_def)
qed

lemma alive_unlock_step:
  assumes a: "sp_alive N p m d ob lk c" and m: "m \<noteq> 0" and t: "t < N" and q: "sc_pc c t = Get3 \<and> q' = Out \<or> sc_pc c t = Put3 v \<and> q' = Put4 v"
    and l: "SP_UNLOCK (sc_sys c) t p = Done s"
  shows "sp_alive N p m d ob free_mutex (goto t q' (with_sys s c)) \<and> mx_mem s = mx_mem (sc_sys c)"
proof -
  have own: "pm_owner lk = Some t" using a t q by (auto simp: sp_alive_def)
  then have lk: "lk = held_mutex t" using a by (auto simp: sp_alive_def)
  then have s: "s = (sc_sys c)\<lparr>mx_locks := (mx_locks (sc_sys c))(m \<mapsto> free_mutex)\<rparr>"
    using unlock_alive [of "sc_sys c" p ob t] a m l by (auto simp: sp_alive_def)
  have in1: "\<forall>u<N. inside (sc_pc c u) \<longleftrightarrow> u = t" using a own by (auto simp: sp_alive_def)
  have ok: "pc_ok (sp_rfc ob) (sc_refs c t) q'" using a t q by (auto simp: sp_alive_def)
  have rel: "releaser q' = releaser (sc_pc c t)" "\<not> inside q'" using q by auto
  have "\<forall>u<N. \<not> inside (((sc_pc c)(t := q')) u)" using in1 rel by auto
  moreover have "ref_total N (sc_refs c) = 0 \<longrightarrow> (\<exists>u<N. releaser (((sc_pc c)(t := q')) u))"
    using a rel by (auto simp: sp_alive_def)
  ultimately show ?thesis using a s ok rel by (auto simp: sp_alive_def)
qed

lemma alive_load_step:
  assumes a: "sp_alive N p m d ob lk c" and t: "t < N" and q: "sc_pc c t = Get1 \<and> q' = Get2 v \<or> sc_pc c t = Put1 \<and> q' = Put2 v"
    and l: "sp_load (sc_sys c) p = Done v"
  shows "sp_alive N p m d ob lk (goto t q' c)"
proof -
  have v: "v = sp_rfc ob" using a l by (auto simp: sp_alive_def sp_load_def sp_read_def)
  have "pc_ok (sp_rfc ob) (sc_refs c t) q'" "inside q'" "inside (sc_pc c t)" "\<not> releaser q'" "\<not> releaser (sc_pc c t)"
    using a t q v by (auto simp: sp_alive_def)
  then show ?thesis using a by (auto simp: sp_alive_def)
qed

text \<open>While a reference exists nobody is about to release the structure.\<close>

lemma no_releaser:
  assumes "sp_alive N p m d ob lk c" "0 < ref_total N (sc_refs c)" "u < N"
  shows "\<not> releaser (sc_pc c u)"
proof
  assume "releaser (sc_pc c u)"
  moreover have "pc_ok (sp_rfc ob) (sc_refs c u) (sc_pc c u)" "unat (sp_rfc ob) \<noteq> 0" using assms by (auto simp: sp_alive_def)
  ultimately show False by (auto simp: releaser_def)
qed

lemma alive_store_step:
  assumes a: "sp_alive N p m d ob lk c" and t: "t < N" and st: "sp_store (sc_sys c) p w = Done s"
    and q: "sc_pc c t = Get2 v \<and> q' = Get3 \<and> w = v + 1 \<and> n = sc_refs c t + 1 \<and> ref_total N (sc_refs c) + 1 < 4294967296
      \<or> sc_pc c t = Put2 v \<and> q' = Put3 w \<and> w = v - 1 \<and> n = sc_refs c t - 1"
  shows "sp_alive N p m d (ob\<lparr>sp_rfc := w\<rparr>) lk (goto t q' (with_refs t n (with_sys s c))) \<and> mx_mem s = mx_mem (sc_sys c)"
proof -
  have in1: "inside (sc_pc c t)" "0 < sc_refs c t" and v: "v = sp_rfc ob" using a t q by (auto simp: sp_alive_def)
  then have pos: "0 < ref_total N (sc_refs c)" using t by (auto intro: total_pos)
  have s: "s = (sc_sys c)\<lparr>ss_objs := (ss_objs (sc_sys c))(p \<mapsto> ob\<lparr>sp_rfc := w\<rparr>)\<rparr>"
    using a st by (auto simp: sp_alive_def sp_store_def sp_read_def)
  have uv: "unat v = ref_total N (sc_refs c)" using a v by (simp add: sp_alive_def)
  let ?r = "(sc_refs c)(t := n)"
  have uw: "unat w = ref_total N ?r"
    using q total_upd [OF t, of "sc_refs c" n] uv pos in1(2) unat_add_small [of v 1] unat_sub_ge [of 1 v] by auto
  have others: "\<not> inside (sc_pc c u)" if "u < N" "u \<noteq> t" for u using a t in1 that by (auto simp: sp_alive_def)
  note nr = no_releaser [OF a pos]
  have ok: "pc_ok w (?r u) (((sc_pc c)(t := q')) u)" if u: "u < N" for u
  proof (cases "u = t")
    case True then show ?thesis using q by auto
  next
    case False
    have "pc_ok (sp_rfc ob) (sc_refs c u) (sc_pc c u)" using a u by (simp add: sp_alive_def)
    from pc_ok_cong [OF this others [OF u False]] nr [OF u] False show ?thesis by simp
  qed
  have "ref_total N ?r = 0 \<longleftrightarrow> w = 0" using uw by (metis unat_eq_0)
  moreover have "w = 0 \<longrightarrow> releaser q'" using q uw total_pos [of t N ?r] t by auto
  ultimately have rel: "ref_total N ?r = 0 \<longrightarrow> (\<exists>u<N. releaser (((sc_pc c)(t := q')) u))" using t by auto
  have uniq: "\<forall>u<N. \<forall>x<N. releaser (((sc_pc c)(t := q')) u) \<longrightarrow> releaser (((sc_pc c)(t := q')) x) \<longrightarrow> u = x" using nr by auto
  have "inside q'" using q by auto
  then have "\<forall>u<N. inside (((sc_pc c)(t := q')) u) \<longleftrightarrow> pm_owner lk = Some u" using a in1 by (auto simp: sp_alive_def)
  then show ?thesis using a s uw ok rel uniq by (simp add: sp_alive_def)
qed

lemma alive_end_step:
  assumes a: "sp_alive N p m d ob lk c" and q: "sc_pc c t = Put4 v" "v \<noteq> 0"
  shows "sp_alive N p m d ob lk (goto t Out c)"
proof -
  have "\<not> inside (sc_pc c t)" "\<not> releaser (sc_pc c t)" using q by auto
  then show ?thesis using a by (auto simp: sp_alive_def)
qed

lemma total_hand_over:
  assumes "t < N" "u < N" "t \<noteq> u" "0 < r t"
  shows "ref_total N (r(t := r t - 1, u := r u + 1)) = ref_total N r"
  using total_upd [OF assms(1), of r "r t - 1"] total_upd [OF assms(2), of "r(t := r t - 1)" "r u + 1"] assms(3,4) by simp

lemma alive_hand_over_step:
  assumes a: "sp_alive N p m d ob lk c" and t: "t < N" "u < N" "t \<noteq> u" and q: "sc_pc c t = Out" "0 < sc_refs c t"
  shows "sp_alive N p m d ob lk (with_refs u (sc_refs c u + 1) (with_refs t (sc_refs c t - 1) c))"
proof -
  let ?r = "(sc_refs c)(t := sc_refs c t - 1, u := sc_refs c u + 1)"
  have "pc_ok (sp_rfc ob) (?r x) (sc_pc c x)" if x: "x < N" for x
    using pc_ok_refs [of "sp_rfc ob" "sc_refs c x" "sc_pc c x" "?r x"] a x q by (cases "x = t") (auto simp: sp_alive_def)
  then show ?thesis using a total_hand_over [of t N u "sc_refs c"] t q(2) by (simp add: sp_alive_def)
qed

lemma release_unheld:
  assumes a: "sp_alive N p m d ob lk c" and t: "t < N" "sc_pc c t = Put4 0"
  shows "lk = free_mutex" "ref_total N (sc_refs c) = 0" "\<forall>u<N. u \<noteq> t \<longrightarrow> \<not> inside (sc_pc c u) \<and> \<not> releaser (sc_pc c u)"
proof -
  have "pc_ok (sp_rfc ob) (sc_refs c t) (sc_pc c t)" using a t(1) by (simp add: sp_alive_def)
  then have v0: "sp_rfc ob = 0" using t(2) by simp
  then show tot: "ref_total N (sc_refs c) = 0" using a by (simp add: sp_alive_def)
  have nr: "\<not> releaser (sc_pc c u)" if "u < N" "u \<noteq> t" for u using a t that by (auto simp: sp_alive_def)
  moreover have "\<not> inside (sc_pc c u)" if u: "u < N" "u \<noteq> t" for u
  proof -
    have "sc_refs c u = 0" using tot total_pos [OF u(1), of "sc_refs c"] by auto
    moreover have "pc_ok (sp_rfc ob) (sc_refs c u) (sc_pc c u)" using a u(1) by (simp add: sp_alive_def)
    ultimately show ?thesis using nr [OF u] v0 by (cases "sc_pc c u") auto
  qed
  ultimately show "\<forall>u<N. u \<noteq> t \<longrightarrow> \<not> inside (sc_pc c u) \<and> \<not> releaser (sc_pc c u)" by blast
  with t have "\<forall>u<N. \<not> inside (sc_pc c u)" by (metis inside_simps(8))
  then show "lk = free_mutex" using a by (auto simp: sp_alive_def)
qed

context allocator
begin

text \<open>The structure, its mutex and its data are three blocks of a live set \<open>L\<close>.\<close>

definition sp_blocks :: "(nat \<times> nat) set \<Rightarrow> nat \<Rightarrow> nat \<Rightarrow> nat \<Rightarrow> nat \<Rightarrow> nat \<Rightarrow> nat \<Rightarrow> bool" where
  "sp_blocks L p cp m cm d cd \<longleftrightarrow> (p, cp) \<in> L \<and> (m, cm) \<in> L \<and> (d, cd) \<in> L \<and> p \<noteq> m \<and> p \<noteq> d \<and> m \<noteq> d \<and> m \<noteq> 0"

definition sp_inv :: "nat \<Rightarrow> nat \<Rightarrow> nat \<Rightarrow> nat \<Rightarrow> nat \<Rightarrow> nat \<Rightarrow> nat \<Rightarrow> (nat \<times> nat) set \<Rightarrow> 's sp_conf \<Rightarrow> bool" where
  "sp_inv N p cp m cm d cd L c \<longleftrightarrow>
     (\<exists>ob lk. sp_alive N p m d ob lk c) \<and> rep (mx_mem (sc_sys c)) L
     \<or> sp_dead N p c \<and> rep (mx_mem (sc_sys c)) (L - {(p, cp), (m, cm), (d, cd)})"

lemma release_result_sp:
  assumes "rep (mx_mem s) L" "sp_blocks L p cp m cm d cd" "ss_objs s p = Some ob" "sp_mutex ob = m" "\<not> sp_malk ob" "sp_data ob = d"
    and "mx_locks s m = Some free_mutex"
  shows "\<exists>s'. sp_release release s p = Done s' \<and> ss_objs s' p = None \<and> rep (mx_mem s') (L - {(p, cp), (m, cm), (d, cd)})"
proof -
  have b: "(p, cp) \<in> L" "(m, cm) \<in> L" "(d, cd) \<in> L" "p \<noteq> m" "p \<noteq> d" "m \<noteq> d" "m \<noteq> 0" using assms(2) by (auto simp: sp_blocks_def)
  from release_result [OF assms(1) b(2)] obtain a1 where a1: "release (mx_mem s) m = Some a1" "rep a1 (L - {(m, cm)})" by blast
  have "(d, cd) \<in> L - {(m, cm)}" using b by auto
  from release_result [OF a1(2) this] obtain a2 where a2: "release a1 d = Some a2" "rep a2 (L - {(m, cm)} - {(d, cd)})" by blast
  have "(p, cp) \<in> L - {(m, cm)} - {(d, cd)}" using b by auto
  from release_result [OF a2(2) this] obtain a3 where a3: "release a2 p = Some a3" "rep a3 (L - {(m, cm)} - {(d, cd)} - {(p, cp)})" by blast
  have "L - {(m, cm)} - {(d, cd)} - {(p, cp)} = L - {(p, cp), (m, cm), (d, cd)}" by auto
  with a3(2) have "rep a3 (L - {(p, cp), (m, cm), (d, cd)})" by simp
  then show ?thesis using assms(3-7) b(5,7) a1(1) a2(1) a3(1)
    by (simp add: sp_release_def SP_RELEASE_LOCK_def sp_read_def tkl_mutex_release_def pthread_mutex_destroy_def sp_free_def)
qed

lemma sp_step_inv:
  assumes "sp_step release N p c c'" "sp_inv N p cp m cm d cd L c" "sp_blocks L p cp m cm d cd"
  shows "sp_inv N p cp m cm d cd L c'"
proof (cases "sp_dead N p c")
  case True
  then have dead: "ss_objs (sc_sys c) p = None" "ref_total N (sc_refs c) = 0" "\<forall>t<N. \<not> inside (sc_pc c t) \<and> \<not> releaser (sc_pc c t)"
    by (auto simp: sp_dead_def)
  have r0: "sc_refs c t = 0" if "t < N" for t using dead(2) total_pos [OF that, of "sc_refs c"] by auto
  have mem: "rep (mx_mem (sc_sys c)) (L - {(p, cp), (m, cm), (d, cd)})"
    using assms(2) dead(1) by (auto simp: sp_inv_def sp_alive_def)
  from assms(1) show ?thesis
  proof cases
    case (put_end t v)
    then show ?thesis using dead mem by (auto simp: sp_inv_def sp_dead_def)
  qed (use dead r0 in \<open>force+\<close>)
next
  case False
  with assms(2) obtain ob lk where a: "sp_alive N p m d ob lk c" and mem: "rep (mx_mem (sc_sys c)) L" by (auto simp: sp_inv_def)
  have m: "m \<noteq> 0" using assms(3) by (simp add: sp_blocks_def)
  have keep: "sp_inv N p cp m cm d cd L x" if "sp_alive N p m d ob' lk' x" "mx_mem (sc_sys x) = mx_mem (sc_sys c)" for ob' lk' x
    using that mem by (auto simp: sp_inv_def)
  from assms(1) show ?thesis
  proof cases
    case (get_lock t s) then show ?thesis using alive_lock_step [OF a m, of t s Get1] by (auto intro!: keep)
  next
    case (get_load t v) then show ?thesis using alive_load_step [OF a, of t "Get2 v" v] by (auto intro!: keep)
  next
    case (get_store t v s) then show ?thesis using alive_store_step [OF a, of t "v + 1" s v Get3 "sc_refs c t + 1"] by (auto intro!: keep)
  next
    case (get_unlock t s) then show ?thesis using alive_unlock_step [OF a m, of t Out undefined s] by (auto intro!: keep)
  next
    case (put_lock t s) then show ?thesis using alive_lock_step [OF a m, of t s Put1] by (auto intro!: keep)
  next
    case (put_load t v) then show ?thesis using alive_load_step [OF a, of t "Put2 v" v] by (auto intro!: keep)
  next
    case (put_store t v s) then show ?thesis using alive_store_step [OF a, of t "v - 1" s v "Put3 (v - 1)" "sc_refs c t - 1"] by (auto intro!: keep)
  next
    case (put_unlock t v s) then show ?thesis using alive_unlock_step [OF a m, of t "Put4 v" v s] by (auto intro!: keep)
  next
    case (put_end t v) then show ?thesis using alive_end_step [OF a, of t v] by (auto intro!: keep)
  next
    case (put_release t s)
    note ru = release_unheld [OF a put_release(2,3)]
    from release_result_sp [OF mem assms(3)] a ru(1) put_release(4) have "ss_objs s p = None" "rep (mx_mem s) (L - {(p, cp), (m, cm), (d, cd)})"
      by (auto simp: sp_alive_def)
    then show ?thesis using ru put_release by (auto simp: sp_inv_def sp_dead_def)
  next
    case (hand_over t u) then show ?thesis using alive_hand_over_step [OF a, of t u] by (auto intro!: keep)
  qed
qed

lemma sp_safe:
  assumes "sp_inv N p cp m cm d cd L c" "sp_blocks L p cp m cm d cd" "t < N"
  shows "next_safe release p c t"
proof (cases "sp_dead N p c")
  case True
  then have "\<not> inside (sc_pc c t)" "\<not> releaser (sc_pc c t)" "sc_refs c t = 0"
    using assms(3) total_pos [OF assms(3), of "sc_refs c"] by (auto simp: sp_dead_def)
  then show ?thesis by (cases "sc_pc c t") (auto simp: next_safe_def)
next
  case False
  with assms(1) obtain ob lk where a: "sp_alive N p m d ob lk c" and mem: "rep (mx_mem (sc_sys c)) L" by (auto simp: sp_inv_def)
  have o: "ss_objs (sc_sys c) p = Some ob" "sp_mutex ob = m" "mx_locks (sc_sys c) m = Some lk" "m \<noteq> 0"
    using a assms(2) by (auto simp: sp_alive_def sp_blocks_def)
  have k: "pm_kind lk = PTHREAD_MUTEX_RECURSIVE" using a by (auto simp: sp_alive_def)
  have lock: "SP_LOCK (sc_sys c) t p \<noteq> Fault" "SP_UNLOCK (sc_sys c) t p \<noteq> Fault"
    using o k by (auto simp: SP_LOCK_def SP_UNLOCK_def sp_read_def tkl_mutex_lock_def tkl_mutex_unlock_def pthread_mutex_unlock_def
        split: option.splits prod.splits)
  have rel: "sp_release release (sc_sys c) p \<noteq> Fault" if "sc_pc c t = Put4 0"
    using release_result_sp [OF mem assms(2) o(1,2)] release_unheld(1) [OF a assms(3) that] a by (auto simp: sp_alive_def)
  show ?thesis using o lock rel by (auto simp: next_safe_def sp_load_def sp_store_def sp_read_def split: pc.split)
qed

lemma sp_reach_inv:
  assumes "(sp_step release N p)\<^sup>*\<^sup>* c c'" "sp_inv N p cp m cm d cd L c" "sp_blocks L p cp m cm d cd"
  shows "sp_inv N p cp m cm d cd L c'"
  using assms(1) by (induction rule: rtranclp_induct) (use assms(2,3) sp_step_inv in blast)+

lemma fresh_sp_blocks:
  assumes "rep s (insert (m, cm) (insert (p, cp) L))" "(p, cp) \<notin> L" "(m, cm) \<notin> insert (p, cp) L" "(d, cd) \<in> L" "m \<noteq> 0"
  shows "sp_blocks (insert (m, cm) (insert (p, cp) L)) p cp m cm d cd"
proof -
  have "x \<noteq> y" if "(x, a) \<in> insert (m, cm) (insert (p, cp) L)" "(y, b) \<in> insert (m, cm) (insert (p, cp) L)" "(x, a) \<noteq> (y, b)" for x y a b
    using live_apart [OF assms(1) that(1,2)] live_nonnull [OF assms(1) that(1)] live_nonnull [OF assms(1) that(2)] that(3)
    by (auto simp: apart_def)
  from this [of p cp m cm] this [of p cp d cd] this [of m cm d cd] show ?thesis using assms by (auto simp: sp_blocks_def)
qed

text \<open>The last reference is put by one thread alone.\<close>

lemma put_last:
  assumes "rep (mx_mem s) L" "sp_blocks L p cp m cm d cd" "ss_objs s p = Some ob" "sp_mutex ob = m" "\<not> sp_malk ob" "sp_data ob = d"
    and "mx_locks s m = Some free_mutex" "sp_rfc ob = 1" "p \<noteq> 0"
  shows "\<exists>s'. tuya_smartpointer_put release s t p = Done s'"
proof -
  have m: "m \<noteq> 0" using assms(2) by (simp add: sp_blocks_def)
  let ?s1 = "s\<lparr>mx_locks := (mx_locks s)(m \<mapsto> held_mutex t)\<rparr>"
  let ?s2 = "?s1\<lparr>ss_objs := (ss_objs s)(p \<mapsto> ob\<lparr>sp_rfc := 0\<rparr>)\<rparr>"
  let ?s3 = "?s2\<lparr>mx_locks := (mx_locks ?s2)(m \<mapsto> free_mutex)\<rparr>"
  have "SP_LOCK s t p = Done ?s1" using lock_alive [OF assms(3), of free_mutex] assms(4,7) m by simp
  moreover have "SP_UNLOCK ?s2 t p = Done ?s3" using unlock_alive [of ?s2 p "ob\<lparr>sp_rfc := 0\<rparr>" t] assms(4) m by simp
  moreover have "\<exists>s'. sp_release release ?s3 p = Done s'"
    using release_result_sp [of ?s3 L p cp m cm d cd "ob\<lparr>sp_rfc := 0\<rparr>"] assms by auto
  ultimately show ?thesis using assms(3,8,9) by (auto simp: tuya_smartpointer_put_def sp_load_def sp_store_def sp_read_def)
qed

text \<open>What a successful creation leaves: fresh blocks for the structure and the mutex.\<close>

lemma create_blocks:
  assumes "rep (mx_mem s) L" "tuya_smartpointer_create alloc 0 0 0 0 s data len malk cnt = Done (p, s1)" "p \<noteq> 0"
    and "ss_objs s1 p = Some ob" "sp_mutex ob \<noteq> 0" "32 + unat len < lim" "40 < lim"
  shows "\<exists>cp cm. rep (mx_mem s1) (insert (sp_mutex ob, cm) (insert (p, cp) L)) \<and> (p, cp) \<notin> L \<and> (sp_mutex ob, cm) \<notin> insert (p, cp) L
    \<and> (malk \<longrightarrow> 32 + unat len \<le> cp) \<and> mx_locks s1 (sp_mutex ob) = Some free_mutex
    \<and> \<not> sp_malk ob \<and> sp_rfc ob = cnt \<and> sp_data ob = (if malk then p + SMARTPOINTER_SIZE else data)"
proof -
  let ?n = "if malk then SMARTPOINTER_SIZE + unat len else SMARTPOINTER_SIZE"
  have n: "0 < ?n" "?n < lim" using assms(6) by (auto simp: SMARTPOINTER_SIZE_def)
  from alloc_result [OF assms(1) n] obtain q a L1 where q: "alloc (mx_mem s) ?n = Some (q, a)" "rep a L1"
    "q = 0 \<and> L1 = L \<or> (\<exists>c\<ge>?n. (q, c) \<notin> L \<and> L1 = insert (q, c) L)" by blast
  have len: "len \<noteq> 0" "data \<noteq> 0" using assms(2,3) by (auto simp: tuya_smartpointer_create_def split: if_splits)
  have m40: "0 < TKL_MUTEX_SIZE" "TKL_MUTEX_SIZE < lim" using assms(7) by (simp_all add: TKL_MUTEX_SIZE_def)
  from alloc_result [OF q(2) m40] obtain h b L2 where h: "alloc a TKL_MUTEX_SIZE = Some (h, b)" "rep b L2"
    "h = 0 \<and> L2 = L1 \<or> (\<exists>c\<ge>TKL_MUTEX_SIZE. (h, c) \<notin> L1 \<and> L2 = insert (h, c) L1)" by blast
  have q0: "q \<noteq> 0" "p = q" using assms(2,3) len q(1) h(1)
    by (auto simp: tuya_smartpointer_create_def tkl_mutex_create_init_def Let_def split: if_splits)
  then have res: "ob = \<lparr>sp_mutex = h, sp_malk = False, sp_rfc = cnt, sp_data_len = len, sp_data = if malk then p + SMARTPOINTER_SIZE else data\<rparr>
      \<and> mx_mem s1 = b \<and> (h \<noteq> 0 \<longrightarrow> mx_locks s1 h = Some free_mutex)"
    using assms(2,4) len q(1) h(1)
    by (auto simp: tuya_smartpointer_create_def tkl_mutex_create_init_def Let_def split: if_splits)
  then show ?thesis using q(3) h(2,3) q0 assms(5) by (auto simp: SMARTPOINTER_SIZE_def split: if_splits)
qed

end

section \<open>Properties\<close>

text \<open>
  C7: Reference counting is safe between threads.  For a smart pointer on the system memory that was created with
  \<open>malk = FALSE\<close>, whose mutex could be created and whose count is positive and that of the references handed out,
  any interleaving of the single accesses of
  \<open>tuya_smartpointer_get\<close> and \<open>tuya_smartpointer_put\<close> by threads that own a reference (loads and stores of the
  counter, lock and unlock, the final release), with references passed between threads, never touches a
  structure or mutex that is gone.  While references are left the counter is exactly their number; when the last one is
  put and the calls have returned, the structure, its mutex and the data are released, and nothing else.
\<close>

theorem smartpointer_released_once:
  assumes "tkl_live i (mx_mem s) L" "(data, cd) \<in> L" "32 + unat len < 2 ^ 32"
    and "tuya_smartpointer_create (tkl_system_malloc buf) 0 0 0 0 s data len False cnt = Done (p, s1)" "p \<noteq> 0"
    and "ss_objs s1 p = Some ob" "sp_mutex ob \<noteq> 0" "0 < cnt"
    and "ref_total N r = unat cnt" "(sp_step tkl_system_free N p)\<^sup>*\<^sup>* \<lparr>sc_sys = s1, sc_refs = r, sc_pc = (\<lambda>_. Out)\<rparr> c"
  shows "(\<forall>t<N. next_safe tkl_system_free p c t)
    \<and> (0 < ref_total N (sc_refs c) \<longrightarrow> (\<exists>ob'. ss_objs (sc_sys c) p = Some ob' \<and> unat (sp_rfc ob') = ref_total N (sc_refs c) \<and> sp_data ob' = data))
    \<and> (ref_total N (sc_refs c) = 0 \<and> (\<forall>t<N. sc_pc c t = Out) \<longrightarrow>
        ss_objs (sc_sys c) p = None \<and> tkl_live i (mx_mem (sc_sys c)) (L - {(data, cd)}))"
proof -
  let ?c0 = "\<lparr>sc_sys = s1, sc_refs = r, sc_pc = (\<lambda>_. Out)\<rparr>" and ?m = "sp_mutex ob"
  from tkl.create_blocks [OF assms(1,4-7,3)] obtain cp cm where
    b: "tkl_live i (mx_mem s1) (insert (?m, cm) (insert (p, cp) L))" "(p, cp) \<notin> L" "(?m, cm) \<notin> insert (p, cp) L"
      "mx_locks s1 ?m = Some free_mutex" "\<not> sp_malk ob" "sp_rfc ob = cnt" "sp_data ob = data" by auto
  let ?L = "insert (?m, cm) (insert (p, cp) L)"
  have blocks: "tkl.sp_blocks ?L p cp ?m cm data cd" by (rule tkl.fresh_sp_blocks [OF b(1-3) assms(2,7)])
  have "sp_alive N p ?m data ob free_mutex ?c0"
    using assms(6,8,9) b by (auto simp: sp_alive_def) (metis neq0_conv unat_eq_0 word_neq_0_conv)+
  then have inv0: "tkl.sp_inv i N p cp ?m cm data cd ?L ?c0" using b(1) by (auto simp: tkl.sp_inv_def)
  note inv = tkl.sp_reach_inv [OF assms(10) inv0 blocks]
  have minus: "?L - {(p, cp), (?m, cm), (data, cd)} = L - {(data, cd)}" using b(2,3) by auto
  have "ss_objs (sc_sys c) p = None \<and> tkl_live i (mx_mem (sc_sys c)) (L - {(data, cd)})"
    if "ref_total N (sc_refs c) = 0" "\<forall>t<N. sc_pc c t = Out"
    using inv that minus by (auto simp: tkl.sp_inv_def sp_alive_def sp_dead_def)
  moreover have "\<exists>ob'. ss_objs (sc_sys c) p = Some ob' \<and> unat (sp_rfc ob') = ref_total N (sc_refs c) \<and> sp_data ob' = data"
    if "0 < ref_total N (sc_refs c)" using inv that by (auto simp: tkl.sp_inv_def sp_alive_def sp_dead_def)
  ultimately show ?thesis using tkl.sp_safe [OF inv blocks] by blast
qed

text \<open>
  \<open>tuya_smartpointer_create\<close> never stores its argument \<open>malk\<close>.  For \<open>malk = TRUE\<close> the data lies inside the block of the
  structure, and the release at the last \<open>tuya_smartpointer_put\<close> (or \<open>tuya_smartpointer_del\<close>) hands
  \<open>tkl_system_free\<close> the address of that data: an address in the middle of a block, at which no block of the
  memory starts.
\<close>

theorem smartpointer_malk_frees_interior:
  assumes "tkl_live i (mx_mem s) L" "32 + unat len < 2 ^ 32"
    and "tuya_smartpointer_create (tkl_system_malloc buf) 0 0 0 0 s data len True cnt = Done (p, s1)" "p \<noteq> 0"
    and "ss_objs s1 p = Some ob" "sp_mutex ob \<noteq> 0"
  shows "\<exists>L1. tkl_live i (mx_mem s1) L1 \<and> L \<subseteq> L1 \<and> (\<forall>n. (p + SMARTPOINTER_SIZE, n) \<notin> L1)
    \<and> sp_release free s1 p =
        run_bind (SP_RELEASE_LOCK free s1 p) (\<lambda>s2. run_bind (sp_free free s2 (p + SMARTPOINTER_SIZE)) (\<lambda>s3. sp_free free s3 p))"
proof -
  have len: "0 < unat len" using assms(3,4) by (auto simp: tuya_smartpointer_create_def unat_gt_0 split: if_splits)
  from tkl.create_blocks [OF assms(1,3-6,2)] obtain cp cm where
    b: "tkl_live i (mx_mem s1) (insert (sp_mutex ob, cm) (insert (p, cp) L))" "32 + unat len \<le> cp" "\<not> sp_malk ob"
      "sp_data ob = p + SMARTPOINTER_SIZE" by auto
  let ?L = "insert (sp_mutex ob, cm) (insert (p, cp) L)"
  have "(p + SMARTPOINTER_SIZE, n) \<notin> ?L" for n
  proof
    assume n: "(p + SMARTPOINTER_SIZE, n) \<in> ?L"
    from tkl.live_apart [OF b(1) n, of "(p, cp)"] tkl.live_nonnull [OF b(1) n] b(2) len show False
      by (auto simp: apart_def SMARTPOINTER_SIZE_def)
  qed
  moreover have "sp_release free s1 p =
      run_bind (SP_RELEASE_LOCK free s1 p) (\<lambda>s2. run_bind (sp_free free s2 (p + SMARTPOINTER_SIZE)) (\<lambda>s3. sp_free free s3 p))"
  proof (cases "SP_RELEASE_LOCK free s1 p")
    case (Done s2)
    then have "ss_objs s2 p = Some ob" using assms(5)
      by (auto simp: SP_RELEASE_LOCK_def sp_read_def tkl_mutex_release_def elim!: run_bind_DoneE split: if_splits option.splits)
    then show ?thesis using Done b(3,4) by (simp add: sp_release_def sp_read_def)
  qed (simp_all add: sp_release_def)
  ultimately show ?thesis using b(1) by (intro exI [of _ ?L]) auto
qed

section \<open>Examples\<close>

text \<open>A structure with a given count on a concrete memory.\<close>

lemma example_create:
  assumes "0 < unat len" "unat len < 60"
  shows "\<exists>s q c p s1 ob. tkl_live 0 (mx_mem s) {(q, c)} \<and> tuya_smartpointer_create (tkl_system_malloc 4096) 0 0 0 0 s q len malk cnt = Done (p, s1)
    \<and> p \<noteq> 0 \<and> ss_objs s1 p = Some ob \<and> sp_mutex ob \<noteq> 0"
proof -
  let ?n = "if malk then SMARTPOINTER_SIZE + unat len else SMARTPOINTER_SIZE"
  have "0 < ?n" "?n < 100" using assms by (auto simp: SMARTPOINTER_SIZE_def)
  from example_memory [OF this] obtain t q c t1 p t2 h where e: "tkl_live 0 t {(q, c)}" "q \<noteq> 0" "tkl_system_malloc 4096 t ?n = Some (p, t1)" "p \<noteq> 0"
    "tkl_system_malloc 4096 t1 40 = Some (h, t2)" "h \<noteq> 0" by blast
  let ?s = "\<lparr>mx_mem = t, mx_locks = Map.empty, ss_objs = Map.empty, ss_bytes = \<lambda>_. [1, 2, 3, 4]\<rparr>"
  let ?d = "if malk then p + SMARTPOINTER_SIZE else q"
  let ?s2 = "?s\<lparr>mx_mem := t2, mx_locks := [h \<mapsto> free_mutex]\<rparr>"
  let ?s3 = "if malk then ?s2\<lparr>ss_bytes := (ss_bytes ?s2)(?d := take (unat len) (ss_bytes ?s2 q))\<rparr> else ?s2"
  let ?ob = "\<lparr>sp_mutex = h, sp_malk = False, sp_rfc = cnt, sp_data_len = len, sp_data = ?d\<rparr>"
  let ?s1 = "?s3\<lparr>ss_objs := (ss_objs ?s3)(p \<mapsto> ?ob)\<rparr>"
  have "len \<noteq> 0" using assms(1) by auto
  then have "tuya_smartpointer_create (tkl_system_malloc 4096) 0 0 0 0 ?s q len malk cnt = Done (p, ?s1)"
    using e by (simp add: tuya_smartpointer_create_def tkl_mutex_create_init_def TKL_MUTEX_SIZE_def Let_def)
  then show ?thesis using e(1,4,6)
    by (intro exI [of _ ?s] exI [of _ q] exI [of _ c] exI [of _ p] exI [of _ ?s1] exI [of _ ?ob]) simp
qed

theorem smartpointer_released_once_witness:
  "\<exists>s q c p s1 c'. tkl_live 0 (mx_mem s) {(q, c)} \<and> tuya_smartpointer_create (tkl_system_malloc 4096) 0 0 0 0 s q 4 False 1 = Done (p, s1)
    \<and> (sp_step tkl_system_free 1 p)\<^sup>*\<^sup>* \<lparr>sc_sys = s1, sc_refs = (\<lambda>_. 1), sc_pc = (\<lambda>_. Out)\<rparr> c' \<and> ref_total 1 (sc_refs c') = 0
    \<and> ss_objs (sc_sys c') p = None \<and> tkl_live 0 (mx_mem (sc_sys c')) {}"
proof -
  from example_create [of 4 False 1] obtain s q c p s1 ob where e: "tkl_live 0 (mx_mem s) {(q, c)}"
    "tuya_smartpointer_create (tkl_system_malloc 4096) 0 0 0 0 s q 4 False 1 = Done (p, s1)" "p \<noteq> 0" "ss_objs s1 p = Some ob" "sp_mutex ob \<noteq> 0" by auto
  have l: "32 + unat (4 :: u32) < 2 ^ 32" by simp
  from tkl.create_blocks [OF e l] obtain cp cm where
    b: "tkl_live 0 (mx_mem s1) (insert (sp_mutex ob, cm) (insert (p, cp) {(q, c)}))" "(p, cp) \<notin> {(q, c)}" "(sp_mutex ob, cm) \<notin> insert (p, cp) {(q, c)}"
      "mx_locks s1 (sp_mutex ob) = Some free_mutex" "\<not> sp_malk ob" "sp_rfc ob = 1" "sp_data ob = q" by auto
  have "tkl.sp_blocks (insert (sp_mutex ob, cm) (insert (p, cp) {(q, c)})) p cp (sp_mutex ob) cm q c"
    by (rule tkl.fresh_sp_blocks [OF b(1-3) insertI1 e(5)])
  from tkl.put_last [OF b(1) this e(4) refl b(5,7,4,6) e(3), of 0] obtain s' where put: "tuya_smartpointer_put tkl_system_free s1 0 p = Done s'" ..
  let ?c0 = "\<lparr>sc_sys = s1, sc_refs = (\<lambda>_. 1), sc_pc = (\<lambda>_. Out)\<rparr>"
  from put_steps [of 0 1 ?c0 p tkl_system_free s'] put e(3) obtain c' where
    c': "(sp_step tkl_system_free 1 p)\<^sup>*\<^sup>* ?c0 c'" "sc_pc c' = (\<lambda>_. Out)" "sc_refs c' = (\<lambda>_. 1)(0 := 0)" by auto
  have "ref_total 1 (\<lambda>_. 1) = unat (1 :: u32)" by (simp add: ref_total_def)
  from smartpointer_released_once [OF e(1) insertI1 l e(2-5) _ this c'(1)] c' have "ss_objs (sc_sys c') p = None" "tkl_live 0 (mx_mem (sc_sys c')) {}"
    by (auto simp: ref_total_def)
  moreover have "ref_total 1 (sc_refs c') = 0" using c'(3) by (simp add: ref_total_def)
  ultimately show ?thesis using e(1,2) c'(1) by blast
qed

theorem smartpointer_malk_frees_interior_witness:
  "\<exists>s q c p s1 L1. tkl_live 0 (mx_mem s) {(q, c)} \<and> tuya_smartpointer_create (tkl_system_malloc 4096) 0 0 0 0 s q 4 True 1 = Done (p, s1)
    \<and> tkl_live 0 (mx_mem s1) L1 \<and> (\<forall>n. (p + 32, n) \<notin> L1)"
proof -
  from example_create [of 4 True 1] obtain s q c p s1 ob where e: "tkl_live 0 (mx_mem s) {(q, c)}"
    "tuya_smartpointer_create (tkl_system_malloc 4096) 0 0 0 0 s q 4 True 1 = Done (p, s1)" "p \<noteq> 0" "ss_objs s1 p = Some ob" "sp_mutex ob \<noteq> 0" by auto
  have l: "32 + unat (4 :: u32) < 2 ^ 32" by simp
  from smartpointer_malk_frees_interior [OF e(1) l e(2-5)] e(1,2) show ?thesis by (fastforce simp: SMARTPOINTER_SIZE_def)
qed

end
