(* ===== verification/Tkl_Semaphore.thy ===== *)
theory Tkl_Semaphore
  imports Tkl_Mutex
begin

text \<open>
  The semaphore of \<open>tkl_semaphore.c\<close>: a block of the system memory with a POSIX semaphore.  The
  semaphore calls and the clock are answered by a kernel \<open>os\<close>, a function of the state of the world; a call
  that blocks is answered when it returns.  A wait with a timeout repeats the call as long as a signal
  handler interrupts it, which is a loop that need not end: \<open>None\<close> is a wait that never returns.
\<close>

section \<open>The adapter\<close>

datatype sem_call =
    Sem_Init nat u32
  | Sem_Wait nat
  | Sem_Timedwait nat "int \<times> int"
  | Sem_Post nat
  | Sem_Destroy nat
  | Clock_Realtime

record sem_reply =
  sm_ret :: int
  sm_errno :: int
  sm_time :: "int \<times> int"

type_synonym 'w sem_os = "'w \<Rightarrow> sem_call \<Rightarrow> sem_reply \<times> 'w"

definition TKL_SEM_WAIT_FOREVER :: u32 where "TKL_SEM_WAIT_FOREVER = 0xFFFFFFFF"

text \<open>\<open>sizeof(TKL_SEM_MANAGE)\<close>.\<close>

definition TKL_SEM_SIZE :: nat where "TKL_SEM_SIZE = 32"

text \<open>
  The results: the code, or the number that \<open>sem_init\<close> gave; the handle stored through the pointer
  (\<open>None\<close>: nothing is stored, \<open>Some 0\<close>: \<open>NULL\<close>); and the new states of memory and world.
\<close>

definition tkl_semaphore_create_init ::
    "'a malloc_fn \<Rightarrow> 'a free_fn \<Rightarrow> 'w sem_os \<Rightarrow> 'a \<Rightarrow> 'w \<Rightarrow> bool \<Rightarrow> u32 \<Rightarrow> u32 \<Rightarrow> ((OPERATE_RET + int) \<times> nat option \<times> 'a \<times> 'w) option" where
  "tkl_semaphore_create_init malloc free os a w handle_null sem_cnt sem_max =
     (if handle_null then Some (Inl OPRT_INVALID_PARM, None, a, w)
      else case malloc a TKL_SEM_SIZE of
             None \<Rightarrow> None
           | Some (p, a1) \<Rightarrow>
               if p = 0 then Some (Inl OPRT_MALLOC_FAILED, None, a1, w)
               else case os w (Sem_Init p sem_cnt) of
                      (r, w1) \<Rightarrow>
                        if sm_ret r \<noteq> 0
                        then (case free a1 p of None \<Rightarrow> None | Some a2 \<Rightarrow> Some (Inr (sm_ret r), Some 0, a2, w1))
                        else Some (Inl OPRT_OK, Some p, a1, w1))"

text \<open>The time limit, in seconds and nanoseconds.\<close>

definition sem_deadline :: "int \<times> int \<Rightarrow> u32 \<Rightarrow> int \<times> int" where
  "sem_deadline now timeout =
     (let sec = fst now + uint (timeout div 1000);
          nsec = snd now + uint ((timeout mod 1000) * 1000000)
      in if nsec \<ge> 1000000000 then (sec + nsec div 1000000000, nsec mod 1000000000) else (sec, nsec))"

definition interrupted :: "sem_reply \<Rightarrow> bool" where
  "interrupted r \<longleftrightarrow> sm_ret r = -1 \<and> sm_errno r = EINTR"

partial_function (option) timedwait_loop :: "'w sem_os \<Rightarrow> nat \<Rightarrow> int \<times> int \<Rightarrow> 'w \<Rightarrow> (int \<times> 'w) option" where
  "timedwait_loop os h ts w =
     (case os w (Sem_Timedwait h ts) of
        (r, w1) \<Rightarrow> if interrupted r then timedwait_loop os h ts w1 else Some (sm_ret r, w1))"

definition tkl_semaphore_wait :: "'w sem_os \<Rightarrow> 'w \<Rightarrow> nat \<Rightarrow> u32 \<Rightarrow> (OPERATE_RET \<times> 'w) option" where
  "tkl_semaphore_wait os w handle timeout =
     (if handle = 0 then Some (OPRT_INVALID_PARM, w)
      else map_option (\<lambda>(ret, w'). (if 0 \<noteq> ret then OPRT_OS_ADAPTER_SEM_WAIT_FAILED else OPRT_OK, w'))
             (if timeout = TKL_SEM_WAIT_FOREVER
              then (case os w (Sem_Wait handle) of (r, w1) \<Rightarrow> Some (sm_ret r, w1))
              else (case os w Clock_Realtime of (r, w1) \<Rightarrow> timedwait_loop os handle (sem_deadline (sm_time r) timeout) w1)))"

definition tkl_semaphore_post :: "'w sem_os \<Rightarrow> 'w \<Rightarrow> nat \<Rightarrow> OPERATE_RET \<times> 'w" where
  "tkl_semaphore_post os w handle =
     (if handle = 0 then (OPRT_INVALID_PARM, w)
      else case os w (Sem_Post handle) of
             (r, w1) \<Rightarrow> (if sm_ret r \<noteq> 0 then OPRT_OS_ADAPTER_SEM_POST_FAILED else OPRT_OK, w1))"

definition tkl_semaphore_release :: "'a free_fn \<Rightarrow> 'w sem_os \<Rightarrow> 'a \<Rightarrow> 'w \<Rightarrow> nat \<Rightarrow> (OPERATE_RET \<times> 'a \<times> 'w) option" where
  "tkl_semaphore_release free os a w handle =
     (if handle = 0 then Some (OPRT_INVALID_PARM, a, w)
      else case os w (Sem_Destroy handle) of
             (r, w1) \<Rightarrow>
               (case free a handle of
                  None \<Rightarrow> None
                | Some a1 \<Rightarrow> Some (if sm_ret r \<noteq> 0 then OPRT_OS_ADAPTER_SEM_RELEASE_FAILED else OPRT_OK, a1, w1)))"

section \<open>When a wait returns\<close>

text \<open>The world after \<open>k\<close> attempts, and the answer to the next one.\<close>

definition after :: "'w sem_os \<Rightarrow> nat \<Rightarrow> int \<times> int \<Rightarrow> nat \<Rightarrow> 'w \<Rightarrow> 'w" where
  "after os h ts k w = ((\<lambda>w. snd (os w (Sem_Timedwait h ts))) ^^ k) w"

definition attempt :: "'w sem_os \<Rightarrow> nat \<Rightarrow> int \<times> int \<Rightarrow> nat \<Rightarrow> 'w \<Rightarrow> sem_reply" where
  "attempt os h ts k w = fst (os (after os h ts k w) (Sem_Timedwait h ts))"

lemma after_Suc: "after os h ts (Suc k) w = after os h ts k (snd (os w (Sem_Timedwait h ts)))"
  by (simp add: after_def funpow_Suc_right del: funpow.simps(2))

lemma attempt_Suc: "attempt os h ts (Suc k) w = attempt os h ts k (snd (os w (Sem_Timedwait h ts)))"
  by (simp add: attempt_def after_Suc)

lemma timedwait_first:
  "\<forall>j<k. interrupted (attempt os h ts j w) \<Longrightarrow> \<not> interrupted (attempt os h ts k w) \<Longrightarrow>
   timedwait_loop os h ts w = Some (sm_ret (attempt os h ts k w), after os h ts (Suc k) w)"
proof (induction k arbitrary: w)
  case 0
  then show ?case by (subst timedwait_loop.simps) (simp add: attempt_def after_def case_prod_beta)
next
  case (Suc k)
  let ?w = "snd (os w (Sem_Timedwait h ts))"
  have "interrupted (attempt os h ts 0 w)" using Suc.prems(1) by blast
  then have i: "interrupted (fst (os w (Sem_Timedwait h ts)))" by (simp add: attempt_def after_def)
  have "\<forall>j<k. interrupted (attempt os h ts j ?w)" "\<not> interrupted (attempt os h ts k ?w)"
    using Suc.prems by (metis attempt_Suc Suc_mono, metis attempt_Suc)
  from Suc.IH [OF this] i show ?case
    by (subst timedwait_loop.simps) (simp add: attempt_Suc after_Suc case_prod_beta)
qed

lemma timedwait_ends:
  "timedwait_loop os h ts w = Some y \<Longrightarrow> \<exists>k. \<not> interrupted (attempt os h ts k w)"
proof (induction os h ts w y rule: timedwait_loop.raw_induct [rotated, consumes 1])
  case (1 loop os h ts w y)
  show ?case
  proof (cases "interrupted (fst (os w (Sem_Timedwait h ts)))")
    case True
    then have "loop os h ts (snd (os w (Sem_Timedwait h ts))) = Some y" using 1(2) by (simp add: case_prod_beta)
    from 1(1) [OF this] obtain k where "\<not> interrupted (attempt os h ts k (snd (os w (Sem_Timedwait h ts))))" ..
    then have "\<not> interrupted (attempt os h ts (Suc k) w)" by (simp add: attempt_Suc)
    then show ?thesis ..
  next
    case False
    then have "\<not> interrupted (attempt os h ts 0 w)" by (simp add: attempt_def after_def)
    then show ?thesis ..
  qed
qed

text \<open>The deadline is the given number of milliseconds after the clock, and normalised.\<close>

lemma sem_deadline_ns:
  "fst (sem_deadline now timeout) * 1000000000 + snd (sem_deadline now timeout) =
   fst now * 1000000000 + snd now + uint timeout * 1000000"
proof -
  have m: "uint (timeout mod 1000) = uint timeout mod 1000" by (simp add: uint_mod)
  have n: "uint ((timeout mod 1000) * 1000000) = (uint timeout mod 1000) * 1000000"
    by (simp add: uint_word_ariths m)
  have "uint timeout div 1000 * 1000 + uint timeout mod 1000 = uint timeout" by simp
  then have "uint timeout div 1000 * 1000000000 + uint timeout mod 1000 * 1000000 = uint timeout * 1000000"
    by linarith
  then show ?thesis by (simp add: sem_deadline_def Let_def n uint_div)
qed

lemma sem_deadline_normal:
  assumes "0 \<le> snd now"
  shows "0 \<le> snd (sem_deadline now timeout) \<and> snd (sem_deadline now timeout) < 1000000000"
  using assms by (simp add: sem_deadline_def Let_def)

text \<open>
  C10: A wait with a timeout returns if and only if one of its calls of \<open>sem_timedwait\<close> is not interrupted by
  a signal handler.  It then returns the verdict of the first such call, success exactly if that call took
  the semaphore, and every call is given the same deadline, which is exactly \<open>timeout\<close> milliseconds after
  the time the clock showed at the start.
\<close>

theorem semaphore_wait_returns:
  assumes h: "handle \<noteq> 0" and t: "timeout \<noteq> TKL_SEM_WAIT_FOREVER"
    and c: "os w Clock_Realtime = (r, w1)"
  defines "ts \<equiv> sem_deadline (sm_time r) timeout"
  shows "(tkl_semaphore_wait os w handle timeout \<noteq> None \<longleftrightarrow> (\<exists>k. \<not> interrupted (attempt os handle ts k w1))) \<and>
         (\<forall>k. \<not> interrupted (attempt os handle ts k w1) \<and> (\<forall>j<k. interrupted (attempt os handle ts j w1)) \<longrightarrow>
              tkl_semaphore_wait os w handle timeout =
                Some (if sm_ret (attempt os handle ts k w1) = 0 then OPRT_OK else OPRT_OS_ADAPTER_SEM_WAIT_FAILED,
                      after os handle ts (Suc k) w1)) \<and>
         fst ts * 1000000000 + snd ts = fst (sm_time r) * 1000000000 + snd (sm_time r) + uint timeout * 1000000"
proof -
  have w: "tkl_semaphore_wait os w handle timeout =
      map_option (\<lambda>(ret, w'). (if 0 \<noteq> ret then OPRT_OS_ADAPTER_SEM_WAIT_FAILED else OPRT_OK, w'))
        (timedwait_loop os handle ts w1)"
    using h t c by (simp add: tkl_semaphore_wait_def ts_def)
  have first: "timedwait_loop os handle ts w1 =
      Some (sm_ret (attempt os handle ts k w1), after os handle ts (Suc k) w1)"
    if "\<not> interrupted (attempt os handle ts k w1)" "\<forall>j<k. interrupted (attempt os handle ts j w1)" for k
    using timedwait_first [OF that(2) that(1)] .
  have "timedwait_loop os handle ts w1 \<noteq> None" if "\<exists>k. \<not> interrupted (attempt os handle ts k w1)"
  proof -
    from that obtain k where "\<not> interrupted (attempt os handle ts k w1)" "\<forall>j<k. interrupted (attempt os handle ts j w1)"
      unfolding exists_least_iff [of "\<lambda>k. \<not> interrupted (attempt os handle ts k w1)"] by blast
    from first [OF this] show ?thesis by simp
  qed
  then have "timedwait_loop os handle ts w1 \<noteq> None \<longleftrightarrow> (\<exists>k. \<not> interrupted (attempt os handle ts k w1))"
    using timedwait_ends by fastforce
  with w first sem_deadline_ns [of "sm_time r" timeout] show ?thesis by (auto simp: ts_def)
qed

text \<open>A kernel that interrupts the wait twice and then grants the semaphore; the state counts the calls.\<close>

definition two_signals :: "nat sem_os" where
  "two_signals n c =
     (case c of
        Clock_Realtime \<Rightarrow> (\<lparr>sm_ret = 0, sm_errno = 0, sm_time = (100, 900000000)\<rparr>, n)
      | Sem_Timedwait h ts \<Rightarrow> (\<lparr>sm_ret = if n < 2 then -1 else 0, sm_errno = EINTR, sm_time = (0, 0)\<rparr>, Suc n)
      | _ \<Rightarrow> (\<lparr>sm_ret = 0, sm_errno = 0, sm_time = (0, 0)\<rparr>, n))"

theorem semaphore_wait_returns_witness:
  "tkl_semaphore_wait two_signals 0 7 1500 = Some (OPRT_OK, 3) \<and> sem_deadline (100, 900000000) 1500 = (102, 400000000)"
proof -
  let ?r = "\<lparr>sm_ret = 0, sm_errno = 0, sm_time = (100, 900000000)\<rparr> :: sem_reply"
  let ?ts = "sem_deadline (100, 900000000) 1500"
  have c: "two_signals 0 Clock_Realtime = (?r, 0)" by (simp add: two_signals_def)
  have a: "after two_signals 7 ?ts k n = n + k" for k n
    by (induction k arbitrary: n) (simp_all add: after_Suc two_signals_def, simp add: after_def)
  have i: "interrupted (attempt two_signals 7 ?ts k 0) \<longleftrightarrow> k < 2" for k
    by (simp add: attempt_def a interrupted_def two_signals_def)
  have r: "sm_ret (attempt two_signals 7 ?ts 2 0) = 0"
    by (simp add: attempt_def a two_signals_def)
  have t: "(1500 :: u32) \<noteq> TKL_SEM_WAIT_FOREVER" by (simp add: TKL_SEM_WAIT_FOREVER_def)
  have "tkl_semaphore_wait two_signals 0 7 1500 = Some (OPRT_OK, 3)"
    using semaphore_wait_returns [of 7 1500 two_signals 0 ?r 0, OF _ t c, THEN conjunct2, THEN conjunct1, rule_format, of 2] i r a
    by simp
  moreover have "sem_deadline (100, 900000000) 1500 = (102, 400000000)" by (simp add: sem_deadline_def)
  ultimately show ?thesis by simp
qed

end
