(* ===== verification/Tkl_Thread.thy ===== *)
theory Tkl_Thread
  imports Tkl_Memory "HOL-Library.Multiset"
begin

text \<open>
  The threads of \<open>tkl_thread.c\<close>: a handle is a block of the system memory with the identity, the function
  and the argument of the thread, and the new thread reads the block when it starts.  A thread that was
  created but has not read its block yet is pending; functions and arguments are opaque numbers, 0 the null
  pointer.  \<open>None\<close> is an access to memory that was released.
\<close>

section \<open>The adapter\<close>

record THREAD_DATA =
  td_id :: nat
  td_func :: nat
  td_arg :: nat

text \<open>The memory, the blocks, the pending threads with their blocks, the calls made, and the names.\<close>

record 'a thr_sys =
  th_mem :: 'a
  th_data :: "nat \<rightharpoonup> THREAD_DATA"
  th_pending :: "nat \<rightharpoonup> nat"
  th_called :: "(nat \<times> nat \<times> nat) list"
  th_names :: "nat \<Rightarrow> string"

text \<open>\<open>sizeof(THREAD_DATA)\<close>.\<close>

definition THREAD_DATA_SIZE :: nat where "THREAD_DATA_SIZE = 24"

text \<open>The start of the thread \<open>t\<close>, whose argument is \<open>arg\<close>: the call it makes is recorded.\<close>

definition tkl_thread_wrap_func :: "'a thr_sys \<Rightarrow> nat \<Rightarrow> nat \<Rightarrow> 'a thr_sys option" where
  "tkl_thread_wrap_func s t arg =
     (if arg = 0 then Some s
      else case th_data s arg of
             None \<Rightarrow> None
           | Some d \<Rightarrow> Some (if td_func d \<noteq> 0 then s\<lparr>th_called := (t, td_func d, td_arg d) # th_called s\<rparr> else s))"

text \<open>
  The reply of \<open>pthread_create\<close> is \<open>ret\<close>, and the identity it stores is \<open>tid\<close>.  The result has the handle
  stored through the pointer argument, if one is stored.
\<close>

definition tkl_thread_create ::
    "'a malloc_fn \<Rightarrow> int \<Rightarrow> nat \<Rightarrow> 'a thr_sys \<Rightarrow> bool \<Rightarrow> string \<Rightarrow> u32 \<Rightarrow> u32 \<Rightarrow> nat \<Rightarrow> nat \<Rightarrow> (OPERATE_RET \<times> nat option \<times> 'a thr_sys) option" where
  "tkl_thread_create malloc ret tid s thread_null name stack_size priority func arg =
     (if thread_null then Some (OPRT_INVALID_PARM, None, s)
      else case malloc (th_mem s) THREAD_DATA_SIZE of
             None \<Rightarrow> None
           | Some (p, a) \<Rightarrow>
               if p = 0 then Some (OPRT_MALLOC_FAILED, None, s\<lparr>th_mem := a\<rparr>)
               else if ret \<noteq> 0
               then Some (OPRT_OS_ADAPTER_THRD_CREAT_FAILED, None,
                          s\<lparr>th_mem := a, th_data := (th_data s)(p \<mapsto> \<lparr>td_id = 0, td_func = func, td_arg = arg\<rparr>)\<rparr>)
               else Some (OPRT_OK, Some p,
                          s\<lparr>th_mem := a, th_data := (th_data s)(p \<mapsto> \<lparr>td_id = tid, td_func = func, td_arg = arg\<rparr>),
                            th_pending := (th_pending s)(tid \<mapsto> p)\<rparr>))"

definition tkl_thread_release :: "'a free_fn \<Rightarrow> 'a thr_sys \<Rightarrow> nat \<Rightarrow> (OPERATE_RET \<times> 'a thr_sys) option" where
  "tkl_thread_release free s thread =
     (if thread = 0 then Some (OPRT_INVALID_PARM, s)
      else case free (th_mem s) thread of
             None \<Rightarrow> None
           | Some a \<Rightarrow> Some (OPRT_OK, s\<lparr>th_mem := a, th_data := (th_data s)(thread := None)\<rparr>))"

definition tkl_thread_get_watermark :: "nat \<Rightarrow> OPERATE_RET \<times> u32" where
  "tkl_thread_get_watermark thread = (OPRT_OK, -1)"

text \<open>The calling thread is \<open>self\<close>.\<close>

definition tkl_thread_get_id :: "nat \<Rightarrow> OPERATE_RET \<times> nat" where
  "tkl_thread_get_id self = (OPRT_OK, self)"

text \<open>\<open>prctl(PR_SET_NAME)\<close> keeps 15 characters.\<close>

definition tkl_thread_set_self_name :: "'a thr_sys \<Rightarrow> nat \<Rightarrow> string option \<Rightarrow> OPERATE_RET \<times> 'a thr_sys" where
  "tkl_thread_set_self_name s self name =
     (case name of
        None \<Rightarrow> (OPRT_INVALID_PARM, s)
      | Some n \<Rightarrow> (OPRT_OK, s\<lparr>th_names := (th_names s)(self := take 15 n)\<rparr>))"

definition tkl_thread_is_self :: "'a thr_sys \<Rightarrow> nat \<Rightarrow> nat \<Rightarrow> bool \<Rightarrow> (OPERATE_RET \<times> bool option) option" where
  "tkl_thread_is_self s self thread is_self_null =
     (if thread = 0 \<or> is_self_null then Some (OPRT_INVALID_PARM, None)
      else case th_data s thread of
             None \<Rightarrow> None
           | Some d \<Rightarrow> Some (OPRT_OK, Some (td_id d = self)))"

definition tkl_thread_diagnose :: "nat \<Rightarrow> OPERATE_RET" where
  "tkl_thread_diagnose thread = OPRT_NOT_SUPPORTED"

section \<open>Threads at work\<close>

text \<open>
  Creations by any thread, with any outcome, the starts of the new threads, and releases of handles whose
  thread has started, in any order.  \<open>req\<close> collects the functions that were asked for with success, and
  \<open>own\<close> maps each handle that was given out and not released to the thread that was created with it.
\<close>

type_synonym thr_ghost = "(nat \<times> nat \<times> nat) list \<times> (nat \<rightharpoonup> nat)"

inductive thr_step :: "'a malloc_fn \<Rightarrow> 'a free_fn \<Rightarrow> 'a thr_sys \<times> thr_ghost \<Rightarrow> 'a thr_sys \<times> thr_ghost \<Rightarrow> bool"
  for malloc free where
  create: "tkl_thread_create malloc ret tid s False name sz prio func arg = Some (r, h, s') \<Longrightarrow> func \<noteq> 0 \<Longrightarrow>
    th_pending s tid = None \<Longrightarrow>
    thr_step malloc free (s, req, own)
      (s', if r = OPRT_OK then (tid, func, arg) # req else req, case h of None \<Rightarrow> own | Some p \<Rightarrow> own(p \<mapsto> tid))"
| start: "th_pending s t = Some p \<Longrightarrow> tkl_thread_wrap_func s t p = Some s' \<Longrightarrow>
    thr_step malloc free (s, req, own) (s'\<lparr>th_pending := (th_pending s')(t := None)\<rparr>, req, own)"
| release: "own p \<noteq> None \<Longrightarrow> p \<notin> ran (th_pending s) \<Longrightarrow> tkl_thread_release free s p = Some (r, s') \<Longrightarrow>
    thr_step malloc free (s, req, own) (s', req, own(p := None))"

inductive_cases thr_stepE: "thr_step malloc free x y"

text \<open>What the pending threads are going to call.\<close>

definition call_of :: "'a thr_sys \<Rightarrow> nat \<Rightarrow> nat \<times> nat \<times> nat" where
  "call_of s t = (let d = the (th_data s (the (th_pending s t))) in (t, td_func d, td_arg d))"

definition pending_calls :: "'a thr_sys \<Rightarrow> (nat \<times> nat \<times> nat) multiset" where
  "pending_calls s = image_mset (call_of s) (mset_set (dom (th_pending s)))"

lemma pending_calls_cong:
  assumes "th_pending s' = th_pending s" "\<And>p. p \<in> ran (th_pending s) \<Longrightarrow> th_data s' p = th_data s p"
  shows "pending_calls s' = pending_calls s"
proof -
  have "call_of s' t = call_of s t" if "t \<in> dom (th_pending s)" for t
  proof -
    from that obtain p where p: "th_pending s t = Some p" by auto
    then have "p \<in> ran (th_pending s)" by (rule ranI)
    from assms(2) [OF this] p assms(1) show ?thesis by (simp add: call_of_def)
  qed
  then show ?thesis unfolding pending_calls_def assms(1)
    by (intro image_mset_cong) (metis finite_set_mset_mset_set mset_set.infinite empty_iff set_mset_empty)
qed

lemma pending_calls_add:
  assumes "finite (dom (th_pending s))" "th_pending s t = None" "th_data s p = None" "\<And>q. q \<in> ran (th_pending s) \<Longrightarrow> th_data s q \<noteq> None"
    and "th_pending s' = (th_pending s)(t \<mapsto> p)" "th_data s' = (th_data s)(p \<mapsto> d)"
  shows "pending_calls s' = add_mset (t, td_func d, td_arg d) (pending_calls s)"
proof -
  let ?s = "s'\<lparr>th_pending := th_pending s\<rparr>"
  have dom: "mset_set (dom (th_pending s')) = add_mset t (mset_set (dom (th_pending s)))"
    using assms(1,2,5) by (auto simp: domIff)
  have "p \<notin> ran (th_pending s)" using assms(3) assms(4) [of p] by auto
  then have "pending_calls ?s = pending_calls s" using assms(6) by (intro pending_calls_cong) auto
  moreover have "image_mset (call_of s') (mset_set (dom (th_pending s))) = image_mset (call_of ?s) (mset_set (dom (th_pending s)))"
    using assms(1,2,5) by (intro image_mset_cong) (auto simp: call_of_def)
  moreover have "call_of s' t = (t, td_func d, td_arg d)" using assms(5,6) by (simp add: call_of_def)
  ultimately show ?thesis using dom by (simp add: pending_calls_def)
qed

lemma pending_calls_remove:
  assumes "finite (dom (th_pending s))" "th_pending s t = Some p" "th_data s p = Some d"
    and "th_pending s' = (th_pending s)(t := None)" "th_data s' = th_data s"
  shows "pending_calls s = add_mset (t, td_func d, td_arg d) (pending_calls s')"
proof -
  have dom: "dom (th_pending s) = insert t (dom (th_pending s'))" "t \<notin> dom (th_pending s')" "finite (dom (th_pending s'))"
    using assms(1,2,4) by (auto simp: domIff)
  have "image_mset (call_of s) (mset_set (dom (th_pending s'))) = image_mset (call_of s') (mset_set (dom (th_pending s')))"
    using dom(3) assms(4,5) by (intro image_mset_cong) (auto simp: call_of_def)
  moreover have "call_of s t = (t, td_func d, td_arg d)" using assms(2,3) by (simp add: call_of_def)
  ultimately show ?thesis unfolding pending_calls_def dom(1) using dom(2,3) by simp
qed

context allocator
begin

text \<open>Every block of a thread is live, and every pending thread has one of its own.\<close>

definition thr_mem_ok :: "'s thr_sys \<Rightarrow> bool" where
  "thr_mem_ok s \<longleftrightarrow> (\<exists>L. rep (th_mem s) L \<and> (\<forall>p\<in>dom (th_data s). \<exists>c. (p, c) \<in> L))"

definition thr_inv :: "'s thr_sys \<times> thr_ghost \<Rightarrow> bool" where
  "thr_inv x \<longleftrightarrow> (case x of (s, req, own) \<Rightarrow>
     thr_mem_ok s \<and> finite (dom (th_pending s)) \<and> inj_on (th_pending s) (dom (th_pending s)) \<and>
     (\<forall>t p. th_pending s t = Some p \<longrightarrow> p \<noteq> 0 \<and> (\<exists>d. th_data s p = Some d \<and> td_id d = t \<and> td_func d \<noteq> 0)) \<and>
     (\<forall>p t. own p = Some t \<longrightarrow> p \<noteq> 0 \<and> (\<exists>d. th_data s p = Some d \<and> td_id d = t)) \<and>
     mset req = mset (th_called s) + pending_calls s)"

lemma thr_create_block:
  assumes "thr_mem_ok s" "THREAD_DATA_SIZE < lim"
  shows "\<exists>p a. alloc (th_mem s) THREAD_DATA_SIZE = Some (p, a) \<and>
    (if p = 0 then thr_mem_ok (s\<lparr>th_mem := a\<rparr>)
     else th_data s p = None \<and> thr_mem_ok (s\<lparr>th_mem := a, th_data := (th_data s)(p \<mapsto> d)\<rparr>))"
proof -
  from assms(1) obtain L where L: "rep (th_mem s) L" "\<forall>p \<in> dom (th_data s). \<exists>c. (p, c) \<in> L" by (auto simp: thr_mem_ok_def)
  from alloc_result [OF L(1) _ assms(2)] obtain p a L' where
    p: "alloc (th_mem s) THREAD_DATA_SIZE = Some (p, a)" "rep a L'" "p = 0 \<and> L' = L \<or> (\<exists>c. (p, c) \<notin> L \<and> L' = insert (p, c) L)"
    by (auto simp: THREAD_DATA_SIZE_def)
  have "p \<notin> dom (th_data s)" if "(p, k) \<notin> L" "L' = insert (p, k) L" for k
  proof
    assume "p \<in> dom (th_data s)"
    then obtain k' where "(p, k') \<in> L" using L(2) by auto
    then show False using live_apart [OF p(2), of "(p, k)" "(p, k')"] live_nonnull [OF p(2)] that by (auto simp: apart_def)
  qed
  moreover have "\<forall>q\<in>dom (th_data s). \<exists>c. (q, c) \<in> L'" "p \<noteq> 0 \<Longrightarrow> \<exists>k. (p, k) \<in> L'" using p(3) L(2) by auto
  ultimately show ?thesis using p unfolding thr_mem_ok_def
    by (intro exI [of _ p] exI [of _ a]) (auto intro!: exI [of _ L'])
qed

lemma thr_inv_create:
  assumes inv: "thr_inv (s, req, own)" and lim: "THREAD_DATA_SIZE < lim"
    and c: "tkl_thread_create alloc ret tid s False name sz prio func arg = Some (r, h, s')" "func \<noteq> 0" "th_pending s tid = None"
  shows "thr_inv (s', if r = OPRT_OK then (tid, func, arg) # req else req, case h of None \<Rightarrow> own | Some p \<Rightarrow> own(p \<mapsto> tid))"
proof -
  let ?d = "\<lparr>td_id = if ret = 0 then tid else 0, td_func = func, td_arg = arg\<rparr>"
  from inv have i: "thr_mem_ok s" "finite (dom (th_pending s))" "inj_on (th_pending s) (dom (th_pending s))"
    "\<And>t p. th_pending s t = Some p \<Longrightarrow> p \<noteq> 0 \<and> (\<exists>d. th_data s p = Some d \<and> td_id d = t \<and> td_func d \<noteq> 0)"
    "\<And>p t. own p = Some t \<Longrightarrow> p \<noteq> 0 \<and> (\<exists>d. th_data s p = Some d \<and> td_id d = t)"
    "mset req = mset (th_called s) + pending_calls s" by (auto simp: thr_inv_def)
  from thr_create_block [OF i(1) lim, of ?d] obtain p a where p: "alloc (th_mem s) THREAD_DATA_SIZE = Some (p, a)"
    "p = 0 \<Longrightarrow> thr_mem_ok (s\<lparr>th_mem := a\<rparr>)"
    "p \<noteq> 0 \<Longrightarrow> th_data s p = None" "p \<noteq> 0 \<Longrightarrow> thr_mem_ok (s\<lparr>th_mem := a, th_data := (th_data s)(p \<mapsto> ?d)\<rparr>)" by auto
  have ran: "q \<in> ran (th_pending s) \<Longrightarrow> th_data s q \<noteq> None" for q using i(4) by (auto simp: ran_def)
  consider (none) "p = 0" "r = OPRT_MALLOC_FAILED" "h = None" "s' = s\<lparr>th_mem := a\<rparr>"
    | (fail) "p \<noteq> 0" "r = OPRT_OS_ADAPTER_THRD_CREAT_FAILED" "h = None" "s' = s\<lparr>th_mem := a, th_data := (th_data s)(p \<mapsto> ?d)\<rparr>"
    | (ok) "p \<noteq> 0" "r = OPRT_OK" "h = Some p" "ret = 0"
        "s' = s\<lparr>th_mem := a, th_data := (th_data s)(p \<mapsto> ?d), th_pending := (th_pending s)(tid \<mapsto> p)\<rparr>"
    using c(1) p(1) by (auto simp: tkl_thread_create_def split: if_splits)
  then show ?thesis
  proof cases
    case none
    moreover from none(4) have "pending_calls s' = pending_calls s" by (intro pending_calls_cong) auto
    ultimately show ?thesis using i p(2) by (auto simp: thr_inv_def)
  next
    case fail
    have "p \<notin> ran (th_pending s)" using ran [of p] p(3) fail(1) by auto
    then have "pending_calls s' = pending_calls s" using fail(4) by (intro pending_calls_cong) auto
    moreover have "th_data s' q = th_data s q" if "th_pending s t = Some q" for t q
      using that fail p(3) i(4) [OF that] by auto
    moreover have "th_data s' q = th_data s q" if "own q = Some t" for t q
      using that fail p(3) i(5) [OF that] by auto
    ultimately show ?thesis using fail i p(4) by (auto simp: thr_inv_def)
  next
    case ok
    have new: "p \<notin> ran (th_pending s)" using ran [of p] p(3) ok(1) by auto
    have "pending_calls s' = add_mset (tid, func, arg) (pending_calls s)"
      using pending_calls_add [OF i(2) c(3) p(3) [OF ok(1)] ran, of s' ?d] ok(5) by simp
    moreover have "inj_on (th_pending s') (dom (th_pending s'))"
      using i(3) new c(3) ok(5) by (auto simp: inj_on_def ran_def)
    moreover have "q \<noteq> 0 \<and> (\<exists>d. th_data s' q = Some d \<and> td_id d = t \<and> td_func d \<noteq> 0)" if "th_pending s' t = Some q" for t q
      using that ok i(4) [of t q] p(3) c(2) by (cases "t = tid") auto
    moreover have "thr_mem_ok s'" using p(4) ok(1,5) by (simp add: thr_mem_ok_def)
    moreover have "q \<noteq> 0 \<and> (\<exists>d. th_data s' q = Some d \<and> td_id d = t)" if "(own(p \<mapsto> tid)) q = Some t" for t q
      using that ok i(5) [of q t] p(3) by (cases "q = p") auto
    ultimately show ?thesis using ok i by (simp add: thr_inv_def)
  qed
qed

lemma thr_inv_start:
  assumes inv: "thr_inv (s, req, own)" and t: "th_pending s t = Some p"
  shows "\<exists>s'. tkl_thread_wrap_func s t p = Some s' \<and> thr_inv (s'\<lparr>th_pending := (th_pending s')(t := None)\<rparr>, req, own)"
proof -
  from inv have i: "thr_mem_ok s" "finite (dom (th_pending s))" "inj_on (th_pending s) (dom (th_pending s))"
    "\<And>t p. th_pending s t = Some p \<Longrightarrow> p \<noteq> 0 \<and> (\<exists>d. th_data s p = Some d \<and> td_id d = t \<and> td_func d \<noteq> 0)"
    "\<And>p t. own p = Some t \<Longrightarrow> p \<noteq> 0 \<and> (\<exists>d. th_data s p = Some d \<and> td_id d = t)"
    "mset req = mset (th_called s) + pending_calls s" by (auto simp: thr_inv_def)
  from i(4) [OF t] obtain d where d: "p \<noteq> 0" "th_data s p = Some d" "td_func d \<noteq> 0" by auto
  let ?s = "s\<lparr>th_called := (t, td_func d, td_arg d) # th_called s\<rparr>" and ?m = "(th_pending s)(t := None)"
  have w: "tkl_thread_wrap_func s t p = Some ?s" using d by (simp add: tkl_thread_wrap_func_def)
  have "pending_calls s = add_mset (t, td_func d, td_arg d) (pending_calls (?s\<lparr>th_pending := ?m\<rparr>))"
    by (rule pending_calls_remove [OF i(2) t d(2)]) simp_all
  then have "thr_inv (?s\<lparr>th_pending := ?m\<rparr>, req, own)"
    using i by (auto simp: thr_inv_def thr_mem_ok_def inj_on_def domIff)
  then show ?thesis using w by simp
qed

lemma thr_inv_release:
  assumes inv: "thr_inv (s, req, own)" and o: "own p \<noteq> None" and p: "p \<notin> ran (th_pending s)"
  shows "\<exists>r s'. tkl_thread_release release s p = Some (r, s') \<and> thr_inv (s', req, own(p := None))"
proof -
  from inv have i: "thr_mem_ok s" "finite (dom (th_pending s))" "inj_on (th_pending s) (dom (th_pending s))"
    "\<And>t p. th_pending s t = Some p \<Longrightarrow> p \<noteq> 0 \<and> (\<exists>d. th_data s p = Some d \<and> td_id d = t \<and> td_func d \<noteq> 0)"
    "\<And>p t. own p = Some t \<Longrightarrow> p \<noteq> 0 \<and> (\<exists>d. th_data s p = Some d \<and> td_id d = t)"
    "mset req = mset (th_called s) + pending_calls s" by (auto simp: thr_inv_def)
  from i(1) obtain L where L: "rep (th_mem s) L" "\<forall>p\<in>dom (th_data s). \<exists>c. (p, c) \<in> L" by (auto simp: thr_mem_ok_def)
  from i(5) o have "p \<in> dom (th_data s)" by blast
  then obtain c where c: "(p, c) \<in> L" using L(2) by blast
  from release_result [OF L(1) c] obtain a where a: "release (th_mem s) p = Some a" "rep a (L - {(p, c)})" by blast
  let ?s = "s\<lparr>th_mem := a, th_data := (th_data s)(p := None)\<rparr>"
  have "tkl_thread_release release s p = Some (OPRT_OK, ?s)"
    using a(1) live_nonnull [OF L(1) c] by (simp add: tkl_thread_release_def)
  moreover have "thr_mem_ok ?s" using a(2) L(2) unfolding thr_mem_ok_def by (intro exI [of _ "L - {(p, c)}"]) auto
  moreover have "pending_calls ?s = pending_calls s" using p by (intro pending_calls_cong) auto
  moreover have "th_data ?s q = th_data s q" if "th_pending s t = Some q" for t q
    using that p by (auto simp: ran_def)
  ultimately show ?thesis using i by (auto simp: thr_inv_def)
qed

lemma thr_step_inv: "thr_step alloc release x y \<Longrightarrow> thr_inv x \<Longrightarrow> THREAD_DATA_SIZE < lim \<Longrightarrow> thr_inv y"
  by (erule thr_stepE) (use thr_inv_create thr_inv_start thr_inv_release in \<open>fastforce+\<close>)

lemma thr_reach_inv: "(thr_step alloc release)\<^sup>*\<^sup>* x y \<Longrightarrow> thr_inv x \<Longrightarrow> THREAD_DATA_SIZE < lim \<Longrightarrow> thr_inv y"
  by (induction rule: rtranclp_induct) (auto intro: thr_step_inv)

end

section \<open>Properties\<close>

text \<open>
  C11: Every function handed to \<open>tkl_thread_create\<close> with success is called exactly once, with its argument and
  in the thread that was created.  In any interleaving of creations by any threads, failing or not, of thread
  starts and of releases of handles whose thread has started, the calls made and those of the threads still
  to start are exactly the requests, every thread still to start does so without an access to released
  memory, and every handle that was given out and not released, its thread started or not, identifies
  that thread and no other to \<open>tkl_thread_is_self\<close>.
\<close>

theorem thread_requests_served:
  assumes "tkl_live i (th_mem s) L" "th_data s = Map.empty" "th_pending s = Map.empty" "th_called s = []"
    and "(thr_step (tkl_system_malloc buf) tkl_system_free)\<^sup>*\<^sup>* (s, [], Map.empty) (s', req, own)"
  shows "mset req = mset (th_called s') + pending_calls s' \<and>
    (\<forall>t p. th_pending s' t = Some p \<longrightarrow> tkl_thread_wrap_func s' t p \<noteq> None \<and>
        (\<forall>self. tkl_thread_is_self s' self p False = Some (OPRT_OK, Some (self = t)))) \<and>
    (\<forall>t p self. own p = Some t \<longrightarrow> tkl_thread_is_self s' self p False = Some (OPRT_OK, Some (self = t)))"
proof -
  have "tkl.thr_inv i (s, [], Map.empty)"
    using assms(1-4) by (auto simp: tkl.thr_inv_def tkl.thr_mem_ok_def pending_calls_def)
  from tkl.thr_reach_inv [OF assms(5) this] have inv: "tkl.thr_inv i (s', req, own)" by (simp add: THREAD_DATA_SIZE_def)
  have "tkl_thread_wrap_func s' t p \<noteq> None \<and> (\<forall>self. tkl_thread_is_self s' self p False = Some (OPRT_OK, Some (self = t)))"
    if "th_pending s' t = Some p" for t p
  proof -
    from inv that obtain d where "p \<noteq> 0" "th_data s' p = Some d" "td_id d = t" by (fastforce simp: tkl.thr_inv_def)
    then show ?thesis by (auto simp: tkl_thread_wrap_func_def tkl_thread_is_self_def)
  qed
  moreover have "tkl_thread_is_self s' self p False = Some (OPRT_OK, Some (self = t))" if "own p = Some t" for t p self
  proof -
    from inv that obtain d where "p \<noteq> 0" "th_data s' p = Some d" "td_id d = t" by (fastforce simp: tkl.thr_inv_def)
    then show ?thesis by (auto simp: tkl_thread_is_self_def)
  qed
  ultimately show ?thesis using inv by (auto simp: tkl.thr_inv_def)
qed

text \<open>
  \<open>tkl_thread_release\<close> does not terminate the thread.  When it is called before the new thread has read its
  block, it reports success and the thread is still going to start, and when it does it reads released
  memory.
\<close>

theorem thread_release_race:
  assumes "tkl_thread_create malloc ret tid s False name sz prio func arg = Some (OPRT_OK, Some p, s1)"
    and "tkl_thread_release free s1 p = Some (r, s2)"
  shows "r = OPRT_OK \<and> th_pending s2 tid = Some p \<and> tkl_thread_wrap_func s2 tid p = None"
  using assms by (auto simp: tkl_thread_create_def tkl_thread_release_def tkl_thread_wrap_func_def split: option.splits if_splits)

section \<open>Examples\<close>

definition thr_start :: "tkl_mem \<Rightarrow> tkl_mem thr_sys" where
  "thr_start t = \<lparr>th_mem = t, th_data = Map.empty, th_pending = Map.empty, th_called = [], th_names = \<lambda>_. []\<rparr>"

lemma example_thread:
  "\<exists>t q c p s1. tkl_live 0 t {(q, c)} \<and> p \<noteq> 0 \<and>
     tkl_thread_create (tkl_system_malloc 4096) 0 7 (thr_start t) False ''worker'' 0 0 11 22 = Some (OPRT_OK, Some p, s1) \<and>
     th_pending s1 = [7 \<mapsto> p] \<and> th_data s1 = [p \<mapsto> \<lparr>td_id = 7, td_func = 11, td_arg = 22\<rparr>] \<and> th_called s1 = []"
proof -
  from example_memory [of THREAD_DATA_SIZE] obtain t q c t1 p where
    e: "tkl_live 0 t {(q, c)}" "tkl_system_malloc 4096 t THREAD_DATA_SIZE = Some (p, t1)" "p \<noteq> 0"
    by (auto simp: THREAD_DATA_SIZE_def)
  then show ?thesis
    by (intro exI [of _ t] exI [of _ q] exI [of _ c] exI [of _ p]) (simp add: tkl_thread_create_def thr_start_def)
qed

theorem thread_requests_served_witness:
  "\<exists>t s' p. (thr_step (tkl_system_malloc 4096) tkl_system_free)\<^sup>*\<^sup>* (thr_start t, [], Map.empty) (s', [(7, 11, 22)], [p \<mapsto> 7]) \<and>
     th_pending s' = Map.empty \<and> mset (th_called s') = {#(7, 11, 22)#} \<and>
     tkl_thread_is_self s' 7 p False = Some (OPRT_OK, Some True) \<and> tkl_thread_is_self s' 8 p False = Some (OPRT_OK, Some False)"
proof -
  from example_thread obtain t q c p s1 where e: "tkl_live 0 t {(q, c)}" "p \<noteq> 0"
    "tkl_thread_create (tkl_system_malloc 4096) 0 7 (thr_start t) False ''worker'' 0 0 11 22 = Some (OPRT_OK, Some p, s1)"
    "th_pending s1 = [7 \<mapsto> p]" "th_data s1 = [p \<mapsto> \<lparr>td_id = 7, td_func = 11, td_arg = 22\<rparr>]" "th_called s1 = []" by blast
  let ?st = "thr_step (tkl_system_malloc 4096) tkl_system_free"
  have 1: "?st (thr_start t, [], Map.empty) (s1, [(7, 11, 22)], [p \<mapsto> 7])"
    using thr_step.create [OF e(3), of tkl_system_free "[]" Map.empty] by (simp add: thr_start_def)
  obtain s2 where s2: "tkl_thread_wrap_func s1 7 p = Some s2" "th_pending s2 = [7 \<mapsto> p]"
    using e by (simp add: tkl_thread_wrap_func_def)
  let ?s = "s2\<lparr>th_pending := (th_pending s2)(7 := None)\<rparr>"
  have 2: "?st (s1, [(7, 11, 22)], [p \<mapsto> 7]) (?s, [(7, 11, 22)], [p \<mapsto> 7])"
    by (rule thr_step.start [OF _ s2(1)]) (simp add: e(4))
  have steps: "?st\<^sup>*\<^sup>* (thr_start t, [], Map.empty) (?s, [(7, 11, 22)], [p \<mapsto> 7])"
    by (rule converse_rtranclp_into_rtranclp, rule 1, rule r_into_rtranclp, rule 2)
  have m: "tkl_live 0 (th_mem (thr_start t)) {(q, c)}" "th_data (thr_start t) = Map.empty"
    "th_pending (thr_start t) = Map.empty" "th_called (thr_start t) = []" using e(1) by (simp_all add: thr_start_def)
  note r = thread_requests_served [OF m steps]
  from r have "mset (th_called ?s) = {#(7, 11, 22)#}" using s2(2) by (simp add: pending_calls_def)
  moreover from r have "tkl_thread_is_self ?s self p False = Some (OPRT_OK, Some (self = 7))" for self by simp
  ultimately show ?thesis using steps s2(2) by (intro exI [of _ t] exI [of _ ?s] exI [of _ p]) simp
qed

theorem thread_release_race_witness:
  "\<exists>t p s1 s2. tkl_thread_create (tkl_system_malloc 4096) 0 7 (thr_start t) False ''worker'' 0 0 11 22 = Some (OPRT_OK, Some p, s1) \<and>
     tkl_thread_release tkl_system_free s1 p = Some (OPRT_OK, s2) \<and> tkl_thread_wrap_func s2 7 p = None"
proof -
  from example_thread obtain t q c p s1 where e: "tkl_live 0 t {(q, c)}" "p \<noteq> 0"
    "tkl_thread_create (tkl_system_malloc 4096) 0 7 (thr_start t) False ''worker'' 0 0 11 22 = Some (OPRT_OK, Some p, s1)" by blast
  obtain k where "tkl_live 0 (th_mem s1) (insert (p, k) {(q, c)})"
    using tkl.alloc_result [OF e(1), of THREAD_DATA_SIZE 4096] e(2,3)
    by (auto simp: tkl_thread_create_def thr_start_def THREAD_DATA_SIZE_def split: if_splits)
  from tkl.release_result [OF this insertI1] obtain a where "tkl_system_free (th_mem s1) p = Some a" by blast
  then obtain s2 where s2: "tkl_thread_release tkl_system_free s1 p = Some (OPRT_OK, s2)"
    using e(2) by (simp add: tkl_thread_release_def)
  from thread_release_race [OF e(3) s2] e(3) s2 show ?thesis by blast
qed

end
