(* ===== verification/Tkl_System.thy ===== *)
theory Tkl_System
  imports Byte_Memory
begin

text \<open>
  The system adapter of \<open>tkl_system.c\<close> (clock, sleep, random numbers) with the small adapters
  \<open>tkl_rtc.c\<close>, \<open>tkl_watchdog.c\<close>, \<open>tkl_pinmux.c\<close> and \<open>tkl_output.c\<close>.  The C library and the kernel are a
  function \<open>os\<close> from the state of the world and a call to the reply and the new state.  The loop around
  \<open>getrandom\<close> repeats interrupted calls and need not end: \<open>None\<close> is a call that never returns.
\<close>

section \<open>Calls of the system\<close>

datatype os_call =
    Getrandom nat
  | Urandom_Open
  | Urandom_Read nat
  | Urandom_Close
  | Clock_Monotonic
  | Time
  | Getpid
  | Srand u32
  | Rand
  | Sleep nat
  | Usleep nat
  | Printf string
  | Fflush_Stdout

text \<open>
  The result (for \<open>fopen\<close> zero is the null pointer), \<open>errno\<close> after the call, the bytes stored through the
  pointer argument and the time stored by the clock.
\<close>

record os_reply =
  rp_ret :: int
  rp_errno :: int
  rp_bytes :: bytes
  rp_time :: "int \<times> int"

type_synonym 'w system = "'w \<Rightarrow> os_call \<Rightarrow> os_reply \<times> 'w"

section \<open>Random numbers\<close>

text \<open>
  The loop of \<open>__sys_random_bytes\<close>, from the number of bytes obtained so far; \<open>has_getrandom\<close> is the
  build condition \<open>TKL_HAS_GETRANDOM\<close>.
\<close>

partial_function (option) getrandom_loop :: "'w system \<Rightarrow> nat \<Rightarrow> nat \<Rightarrow> bytes \<Rightarrow> 'w \<Rightarrow> (nat \<times> bytes \<times> 'w) option" where
  "getrandom_loop os len got buf w =
     (if got < len
      then (case os w (Getrandom (len - got)) of
              (r, w1) \<Rightarrow>
                if rp_ret r \<le> 0
                then (if rp_errno r = EINTR then getrandom_loop os len got buf w1 else Some (got, buf, w1))
                else getrandom_loop os len (got + nat (rp_ret r)) (memcpy_at buf got (rp_bytes r) (nat (rp_ret r))) w1)
      else Some (got, buf, w))"

definition urandom_bytes :: "'w system \<Rightarrow> nat \<Rightarrow> bytes \<Rightarrow> 'w \<Rightarrow> int \<times> bytes \<times> 'w" where
  "urandom_bytes os len buf w =
     (let (fp, w1) = os w Urandom_Open
      in if rp_ret fp = 0 then (-1, buf, w1)
         else let (rd, w2) = os w1 (Urandom_Read len);
                  (_, w3) = os w2 Urandom_Close
              in (if rp_ret rd = int len then 0 else -1, memcpy_at buf 0 (rp_bytes rd) (nat (rp_ret rd)), w3))"

definition sys_random_bytes :: "bool \<Rightarrow> 'w system \<Rightarrow> nat \<Rightarrow> bytes \<Rightarrow> 'w \<Rightarrow> (int \<times> bytes \<times> 'w) option" where
  "sys_random_bytes has_getrandom os len buf w =
     (if has_getrandom
      then (case getrandom_loop os len 0 buf w of
              None \<Rightarrow> None
            | Some (got, buf1, w1) \<Rightarrow> Some (if got = len then (0, buf1, w1) else urandom_bytes os len buf1 w1))
      else Some (urandom_bytes os len buf w))"

text \<open>The static variable \<open>s_seeded\<close> goes in and comes out.\<close>

definition tkl_system_get_random :: "bool \<Rightarrow> 'w system \<Rightarrow> u32 \<Rightarrow> bool \<Rightarrow> 'w \<Rightarrow> (int \<times> bool \<times> 'w) option" where
  "tkl_system_get_random has_getrandom os lim s_seeded w =
     (case sys_random_bytes has_getrandom os 4 [0, 0, 0, 0] w of
        None \<Rightarrow> None
      | Some (ok, buf, w1) \<Rightarrow>
          let (v, s_seeded1, w2) =
                (if ok \<noteq> 0
                 then let (s1, w2) =
                            (if \<not> s_seeded
                             then let (ts, w2) = os w1 Clock_Monotonic;
                                      (pid, w3) = os w2 Getpid;
                                      (_, w4) = os w3 (Srand (of_int (snd (rp_time ts)) XOR of_int (rp_ret pid)))
                                  in (True, w4)
                             else (s_seeded, w1));
                          (rnd, w3) = os w2 Rand
                      in (of_int (rp_ret rnd), s1, w3)
                 else (of_nat (le_value buf), s_seeded, w1));
              v = v AND 0x7FFFFFFF
          in Some (if lim = 0 then sint (v AND 0xFF) else sint (v mod lim), s_seeded1, w2))"

section \<open>Clock, sleep and the rest\<close>

definition tkl_system_get_tick_count :: "'w system \<Rightarrow> 'w \<Rightarrow> u64 \<times> 'w" where
  "tkl_system_get_tick_count os w =
     (let (r, w1) = os w Clock_Monotonic
      in (1000 * of_int (fst (rp_time r)) + of_int (snd (rp_time r)) div 1000000, w1))"

definition tkl_system_get_millisecond :: "'w system \<Rightarrow> 'w \<Rightarrow> u64 \<times> 'w" where
  "tkl_system_get_millisecond os w =
     (let (r, w1) = os w Clock_Monotonic
      in (1000 * of_int (fst (rp_time r)) + of_int (snd (rp_time r)) div 1000000, w1))"

definition tkl_system_sleep :: "'w system \<Rightarrow> u32 \<Rightarrow> 'w \<Rightarrow> 'w" where
  "tkl_system_sleep os num_ms w =
     (let s = unat (num_ms div 1000);
          ms = unat (num_ms mod 1000);
          w1 = (if s \<noteq> 0 then snd (os w (Sleep s)) else w)
      in if ms \<noteq> 0 then snd (os w1 (Usleep (ms * 1000))) else w1)"

text \<open>\<open>tkl_system_reset\<close> ends the process; the result is its exit status.\<close>

definition tkl_system_reset :: "'w system \<Rightarrow> 'w \<Rightarrow> int \<times> 'w" where
  "tkl_system_reset os w = (0, snd (os w (Printf (''Rev Restart Req'' @ [CHR 0x0D, CHR 0x0A]))))"

datatype TUYA_RESET_REASON_E =
    TUYA_RESET_REASON_POWERON | TUYA_RESET_REASON_HW_WDOG | TUYA_RESET_REASON_FAULT | TUYA_RESET_REASON_SW_WDOG
  | TUYA_RESET_REASON_SOFTWARE | TUYA_RESET_REASON_DEEPSLEEP | TUYA_RESET_REASON_EXTERNAL | TUYA_RESET_REASON_UNKNOWN
  | TUYA_RESET_REASON_FIB | TUYA_RESET_REASON_CRASH | TUYA_RESET_REASON_FLASH | TUYA_RESET_REASON_FATAL
  | TUYA_RESET_REASON_BROWNOUT | TUYA_RESET_REASON_UNSUPPORT

definition tkl_system_get_reset_reason :: TUYA_RESET_REASON_E where
  "tkl_system_get_reset_reason = TUYA_RESET_REASON_UNKNOWN"

definition tkl_cpu_sleep_mode_set :: "bool \<Rightarrow> nat \<Rightarrow> OPERATE_RET" where
  "tkl_cpu_sleep_mode_set enable mode = OPRT_OK"

definition tkl_system_get_cpu_info :: OPERATE_RET where
  "tkl_system_get_cpu_info = OPRT_NOT_FOUND"

definition tkl_system_enter_critical :: u32 where
  "tkl_system_enter_critical = 0"

definition tkl_system_exit_critical :: "u32 \<Rightarrow> 'w \<Rightarrow> 'w" where
  "tkl_system_exit_critical irq_mask w = w"

text \<open>\<open>tkl_rtc.c\<close>; \<open>ctime\<close> is the text of a time.\<close>

definition tkl_rtc_init :: OPERATE_RET where "tkl_rtc_init = OPRT_OK"
definition tkl_rtc_deinit :: OPERATE_RET where "tkl_rtc_deinit = OPRT_OK"

definition tkl_rtc_time_set :: "(int \<Rightarrow> string) \<Rightarrow> 'w system \<Rightarrow> u32 \<Rightarrow> 'w \<Rightarrow> OPERATE_RET \<times> 'w" where
  "tkl_rtc_time_set ctime os time_sec w =
     (OPRT_OK, snd (os w (Printf (''clock -> '' @ ctime (uint time_sec) @ '' '' @ [CHR 0x0D, CHR 0x0A]))))"

definition tkl_rtc_time_get :: "'w system \<Rightarrow> 'w \<Rightarrow> OPERATE_RET \<times> u32 \<times> 'w" where
  "tkl_rtc_time_get os w = (let (r, w1) = os w Time in (OPRT_OK, of_int (fst (rp_time r)), w1))"

text \<open>\<open>tkl_watchdog.c\<close>\<close>

definition tkl_watchdog_init :: "u32 \<Rightarrow> u32" where "tkl_watchdog_init interval_ms = 0"
definition tkl_watchdog_deinit :: OPERATE_RET where "tkl_watchdog_deinit = OPRT_OK"
definition tkl_watchdog_refresh :: OPERATE_RET where "tkl_watchdog_refresh = OPRT_OK"

text \<open>\<open>tkl_pinmux.c\<close>; \<open>None\<close> is an access past the end of the array.\<close>

definition tkl_io_pinmux_config :: "nat \<Rightarrow> nat \<Rightarrow> OPERATE_RET" where
  "tkl_io_pinmux_config pin pin_func = OPRT_OK"

definition tkl_multi_io_pinmux_config :: "(nat \<times> nat) list option \<Rightarrow> u16 \<Rightarrow> OPERATE_RET option" where
  "tkl_multi_io_pinmux_config cfg num =
     (case cfg of
        None \<Rightarrow> Some (if num \<noteq> 0 then OPRT_INVALID_PARM else OPRT_OK)
      | Some c \<Rightarrow> if unat num \<le> length c then Some OPRT_OK else None)"

definition tkl_io_pin_to_func :: "u32 \<Rightarrow> nat \<Rightarrow> int" where
  "tkl_io_pin_to_func pin pin_type = -1"

text \<open>\<open>tkl_output.c\<close>\<close>

definition tkl_log_output :: "'w system \<Rightarrow> string \<Rightarrow> 'w \<Rightarrow> 'w" where
  "tkl_log_output os str w = (let (_, w1) = os w (Printf str); (_, w2) = os w1 Fflush_Stdout in w2)"

definition tkl_log_close :: OPERATE_RET where "tkl_log_close = OPRT_OK"
definition tkl_log_open :: OPERATE_RET where "tkl_log_open = OPRT_OK"

section \<open>Random numbers: they arrive, and in range\<close>

text \<open>
  What \<open>getrandom\<close> promises: it gives at least one and at most the requested number of bytes, or fails; and
  \<open>patience\<close> bounds how many more of the calls are interrupted.
\<close>

definition getrandom_ok :: "'w system \<Rightarrow> ('w \<Rightarrow> nat) \<Rightarrow> bool" where
  "getrandom_ok os patience \<longleftrightarrow>
     (\<forall>w n. 0 < n \<longrightarrow>
        (let (r, w1) = os w (Getrandom n)
         in (0 < rp_ret r \<and> rp_ret r \<le> int n \<and> length (rp_bytes r) = nat (rp_ret r)) \<or>
            (rp_ret r \<le> 0 \<and> rp_errno r \<noteq> EINTR) \<or>
            (rp_ret r \<le> 0 \<and> rp_errno r = EINTR \<and> patience w1 < patience w)))"

text \<open>The loop returns, and what it has filled is at most the buffer.\<close>

lemma getrandom_loop_returns:
  assumes ok: "getrandom_ok os patience"
  shows "got \<le> len \<Longrightarrow> length buf = len \<Longrightarrow>
         \<exists>got' buf' w'. getrandom_loop os len got buf w = Some (got', buf', w') \<and> got' \<le> len \<and> length buf' = len"
proof (induction "(len - got, patience w)" arbitrary: got buf w rule: wf_induct_rule [OF wf_lex_prod [OF wf_less_than wf_less_than]])
  case (1 got w buf)
  obtain r w1 where r: "os w (Getrandom (len - got)) = (r, w1)" by (metis surj_pair)
  note unfold = getrandom_loop.simps [of os len got buf w]
  show ?case
  proof (cases "got < len")
    case False
    then show ?thesis using 1(2,3) unfold by simp
  next
    case True
    then have "0 < len - got" by simp
    with ok r consider
        (some) "0 < rp_ret r" "rp_ret r \<le> int (len - got)" "length (rp_bytes r) = nat (rp_ret r)"
      | (fail) "rp_ret r \<le> 0" "rp_errno r \<noteq> EINTR"
      | (again) "rp_ret r \<le> 0" "rp_errno r = EINTR" "patience w1 < patience w"
      unfolding getrandom_ok_def Let_def by (smt (verit) case_prod_conv)
    then show ?thesis
    proof cases
      case some
      let ?got = "got + nat (rp_ret r)" and ?buf = "memcpy_at buf got (rp_bytes r) (nat (rp_ret r))"
      have g: "?got \<le> len" using some(2) True by linarith
      have l: "length ?buf = len" using g some(3) 1(3) by simp
      have "len - ?got < len - got" using some(1) True by linarith
      then have "((len - ?got, patience w1), len - got, patience w) \<in> less_than <*lex*> less_than" by simp
      from 1(1) [OF this g l] show ?thesis using unfold True r some(1) by simp
    next
      case fail
      then show ?thesis using unfold True r 1(2,3) by simp
    next
      case again
      have "((len - got, patience w1), len - got, patience w) \<in> less_than <*lex*> less_than"
        using again(3) by simp
      from 1(1) [OF this 1(2,3)] show ?thesis using unfold True r again by simp
    qed
  qed
qed

lemma masked_sint:
  fixes v m :: u32
  shows "0 \<le> sint ((v AND 0x7FFFFFFF) AND 0xFF) \<and> sint ((v AND 0x7FFFFFFF) AND 0xFF) < 256"
    and "m \<noteq> 0 \<Longrightarrow> 0 \<le> sint ((v AND 0x7FFFFFFF) mod m) \<and> sint ((v AND 0x7FFFFFFF) mod m) < uint m"
proof -
  have small: "sint x = uint x" if "uint x < 2147483648" for x :: u32
  proof -
    have "- (2 ^ 31) \<le> uint x" by (rule order_trans [of _ 0]) simp_all
    with that show ?thesis by (simp add: sint_uint signed_take_bit_int_eq_self)
  qed
  have mask: "uint (x AND y) \<le> uint y" for x y :: u32
    by (simp add: uint_and)
  have a: "uint ((v AND 0x7FFFFFFF) AND 0xFF) \<le> 255" using mask [of _ "0xFF"] by simp
  show "0 \<le> sint ((v AND 0x7FFFFFFF) AND 0xFF) \<and> sint ((v AND 0x7FFFFFFF) AND 0xFF) < 256"
    using a by (simp add: small)
  have b: "uint (v AND 0x7FFFFFFF) \<le> 2147483647" using mask [of v "0x7FFFFFFF"] by simp
  assume "m \<noteq> 0"
  then have "0 < uint m" by (metis uint_0_iff uint_ge_0 order_le_less)
  then have "uint ((v AND 0x7FFFFFFF) mod m) < uint m" by (simp add: uint_mod)
  moreover have "uint ((v AND 0x7FFFFFFF) mod m) \<le> uint (v AND 0x7FFFFFFF)"
    by (simp add: uint_mod zmod_le_nonneg_dividend)
  ultimately show "0 \<le> sint ((v AND 0x7FFFFFFF) mod m) \<and> sint ((v AND 0x7FFFFFFF) mod m) < uint m"
    using b by (simp add: small)
qed

lemma sys_random_bytes_returns:
  assumes "getrandom_ok os patience" "length buf = len"
  shows "\<exists>x. sys_random_bytes has_getrandom os len buf w = Some x"
  using getrandom_loop_returns [OF assms(1), of 0 len buf w] assms(2)
  by (cases has_getrandom) (fastforce simp: sys_random_bytes_def)+

text \<open>
  \<open>tkl_system_get_random\<close> returns whenever the kernel does not interrupt \<open>getrandom\<close> forever, whatever
  the kernel, \<open>/dev/urandom\<close> and \<open>rand\<close> answer, and the number is never negative and below the range, or
  below 256 for a range of 0.  The flag that says that the fallback generator was seeded is never cleared.
\<close>

theorem random_in_range:
  assumes "getrandom_ok os patience"
  shows "\<exists>v s_seeded' w'. tkl_system_get_random has_getrandom os lim s_seeded w = Some (v, s_seeded', w') \<and>
           0 \<le> v \<and> v < (if lim = 0 then 256 else uint lim) \<and> (s_seeded \<longrightarrow> s_seeded')"
proof -
  obtain ok buf w1 where b: "sys_random_bytes has_getrandom os 4 [0, 0, 0, 0] w = Some (ok, buf, w1)"
    using sys_random_bytes_returns [OF assms, of "[0, 0, 0, 0]" 4 has_getrandom w] by auto
  show ?thesis
    unfolding tkl_system_get_random_def b
    using masked_sint by (simp add: Let_def case_prod_beta)
qed

text \<open>A kernel that interrupts once, then gives two bytes, then fails, on a system without \<open>/dev/urandom\<close>.\<close>

definition poor_system :: "nat system" where
  "poor_system n c =
     (case c of
        Getrandom k \<Rightarrow>
          (\<lparr>rp_ret = if n = 1 then int (min 2 k) else -1, rp_errno = if n = 0 then EINTR else 38,
            rp_bytes = take k [1, 2], rp_time = (0, 0)\<rparr>, Suc n)
      | Rand \<Rightarrow> (\<lparr>rp_ret = 1804289383, rp_errno = 0, rp_bytes = [], rp_time = (0, 0)\<rparr>, n)
      | _ \<Rightarrow> (\<lparr>rp_ret = 0, rp_errno = 0, rp_bytes = [], rp_time = (3, 14)\<rparr>, n))"

theorem random_in_range_witness:
  "\<exists>v s w. tkl_system_get_random True poor_system 100 True 0 = Some (v, s, w) \<and> 0 \<le> v \<and> v < 100 \<and> s"
proof -
  have "getrandom_ok poor_system (\<lambda>n. 1 - n)"
    by (auto simp: getrandom_ok_def poor_system_def EINTR_def)
  from random_in_range [OF this, of True 100 True 0] show ?thesis by simp
qed

text \<open>The clock counts milliseconds, and a sleep asks for exactly the time given.\<close>

lemma tick_count_value:
  assumes "os w Clock_Monotonic = (r, w1)" "rp_time r = (s, ns)"
    and "0 \<le> s" "s < 1000000000000" "0 \<le> ns" "ns < 1000000000"
  shows "uint (fst (tkl_system_get_tick_count os w)) = s * 1000 + ns div 1000000"
    and "tkl_system_get_millisecond os w = tkl_system_get_tick_count os w"
proof -
  have u: "uint (of_int x :: u64) = x" if "0 \<le> x" "x < 10000000000000000" for x
    using that by (simp add: uint_word_of_int)
  have "(of_int ns :: u64) div 1000000 = of_int (ns div 1000000)"
    using assms(5,6) by (simp add: word_uint_eq_iff uint_div u)
  then have "(1000 * of_int s + of_int ns div 1000000 :: u64) = of_int (s * 1000 + ns div 1000000)"
    by simp
  moreover have "0 \<le> s * 1000 + ns div 1000000" "s * 1000 + ns div 1000000 < 10000000000000000"
    using assms(3-6) by linarith+
  ultimately have "uint (1000 * of_int s + of_int ns div 1000000 :: u64) = s * 1000 + ns div 1000000"
    by (metis u)
  then show "uint (fst (tkl_system_get_tick_count os w)) = s * 1000 + ns div 1000000"
    using assms(1,2) by (simp add: tkl_system_get_tick_count_def)
qed (simp add: tkl_system_get_tick_count_def tkl_system_get_millisecond_def)

lemma sleep_total:
  "\<exists>s us. tkl_system_sleep os num_ms w =
     (let w1 = (if s = 0 then w else snd (os w (Sleep s))) in if us = 0 then w1 else snd (os w1 (Usleep us))) \<and>
     s * 1000000 + us = unat num_ms * 1000 \<and> us < 1000000"
proof (intro exI conjI)
  let ?s = "unat (num_ms div 1000)" and ?us = "unat (num_ms mod 1000) * 1000"
  show "tkl_system_sleep os num_ms w =
     (let w1 = (if ?s = 0 then w else snd (os w (Sleep ?s))) in if ?us = 0 then w1 else snd (os w1 (Usleep ?us)))"
    by (simp add: tkl_system_sleep_def Let_def)
  have "unat num_ms div 1000 * 1000 + unat num_ms mod 1000 = unat num_ms" by simp
  then have "unat num_ms div 1000 * 1000000 + unat num_ms mod 1000 * 1000 = unat num_ms * 1000" by linarith
  then show "?s * 1000000 + ?us = unat num_ms * 1000" by (simp add: unat_div unat_mod)
  show "?us < 1000000" by (simp add: unat_mod)
qed

end
