(* ===== verification/Tkl_Wired.thy ===== *)
theory Tkl_Wired
  imports Fd_Ledger
begin

text \<open>
  The wired network of \<open>tkl_wired.c\<close>: the state of the interfaces, asked from the kernel one by one, and
  a thread that reports changes to a callback.  Callbacks are opaque numbers, 0 the null pointer, and
  the calls made to them are results.  Interface names are C strings without their terminator; the kernel
  gives names of at most 15 characters.
\<close>

section \<open>State\<close>

datatype TKL_WIRED_STAT_E = TKL_WIRED_LINK_DOWN | TKL_WIRED_LINK_UP

record wired_dev =
  wired_event_cb :: nat
  wired_event_thread :: nat

record NW_IP_S =
  nw_ip :: string
  nw_mask :: string
  nw_gw :: string
  nw_dns :: string
  nw_dhcpen :: bool

text \<open>The names that \<open>if_nameindex\<close> stores.\<close>

fun name_list :: "string \<Rightarrow> bytes \<Rightarrow> string list" where
  "name_list acc [] = []"
| "name_list acc (b # bs) = (if b = 0 then rev acc # name_list [] bs else name_list (char_of (unat b) # acc) bs)"

section \<open>Operations\<close>

definition is_loopback_interface :: "string \<Rightarrow> bool" where
  "is_loopback_interface if_name \<longleftrightarrow> if_name = ''lo'' \<or> take 8 if_name = ''loopback''"

text \<open>The interface flags are in \<open>sr_fd\<close> of the reply; \<open>IFF_UP\<close> is the lowest bit.\<close>

definition get_status_by_name :: "'w kernel \<Rightarrow> string \<Rightarrow> ('w, 'd, OPERATE_RET \<times> TKL_WIRED_STAT_E option) prog" where
  "get_status_by_name os if_name = do {
     sk \<leftarrow> syscall os (Socket 2);
     if sr_rc sk < 0 then ret (OPRT_SOCK_ERR, None)
     else do {
       r \<leftarrow> syscall os (Ioctl (sr_rc sk) (SIOCGIFFLAGS if_name));
       if sr_rc r < 0 then do { syscall os (Close (sr_rc sk)); ret (OPRT_COM_ERROR, None) }
       else do {
         syscall os (Close (sr_rc sk));
         ret (OPRT_OK, Some (if odd (sr_fd r) then TKL_WIRED_LINK_UP else TKL_WIRED_LINK_DOWN))
       }
     }
   }"

text \<open>The loop over the interfaces of \<open>tkl_wired_get_status\<close> and \<open>tkl_wired_set_status_cb\<close>.\<close>

fun if_status_loop :: "'w kernel \<Rightarrow> string list \<Rightarrow> TKL_WIRED_STAT_E \<Rightarrow> ('w, 'd, TKL_WIRED_STAT_E) prog" where
  "if_status_loop os [] status = ret status"
| "if_status_loop os (n # ns) status =
     (if is_loopback_interface n then if_status_loop os ns status
      else do {
        (r, if_status) \<leftarrow> get_status_by_name os n;
        case if_status of
          None \<Rightarrow> if_status_loop os ns status
        | Some st \<Rightarrow> if st = TKL_WIRED_LINK_UP then ret st else if_status_loop os ns st
      })"

definition tkl_wired_get_status :: "'w kernel \<Rightarrow> ('w, 'd, OPERATE_RET \<times> TKL_WIRED_STAT_E) prog" where
  "tkl_wired_get_status os = do {
     l \<leftarrow> syscall os If_Nameindex;
     if sr_rc l = 0 then ret (OPRT_NOT_FOUND, TKL_WIRED_LINK_DOWN)
     else do {
       status \<leftarrow> if_status_loop os (name_list [] (sr_data l)) TKL_WIRED_LINK_DOWN;
       syscall os If_Freenameindex;
       ret (OPRT_OK, status)
     }
   }"

text \<open>
  One round of the loop of \<open>wifi_status_event_cb\<close>, from the status reported last (none at the start), with
  the callback made.
\<close>

definition wifi_status_event_cb ::
    "'w kernel \<Rightarrow> TKL_WIRED_STAT_E option \<Rightarrow> ('w, wired_dev, TKL_WIRED_STAT_E \<times> (nat \<times> TKL_WIRED_STAT_E) list) prog" where
  "wifi_status_event_cb os last_stat = do {
     (r, stat) \<leftarrow> tkl_wired_get_status os;
     d \<leftarrow> dev;
     syscall os (Sleep 3);
     ret (stat, if Some stat \<noteq> last_stat then [(wired_event_cb d, stat)] else [])
   }"

text \<open>The result of a failed \<open>pthread_create\<close> is handed on as it is.\<close>

definition tkl_wired_set_status_cb ::
    "'w kernel \<Rightarrow> nat \<Rightarrow> ('w, wired_dev, (OPERATE_RET + int) \<times> (nat \<times> TKL_WIRED_STAT_E) list) prog" where
  "tkl_wired_set_status_cb os cb =
     (if cb = 0 then ret (Inl OPRT_OK, [])
      else do {
        l \<leftarrow> syscall os If_Nameindex;
        if sr_rc l = 0 then ret (Inl OPRT_NOT_FOUND, [])
        else do {
          status \<leftarrow> if_status_loop os (name_list [] (sr_data l)) TKL_WIRED_LINK_DOWN;
          syscall os If_Freenameindex;
          set_dev (\<lambda>d. d\<lparr>wired_event_cb := cb\<rparr>);
          d \<leftarrow> dev;
          if wired_event_thread d = 0
          then do {
            r \<leftarrow> syscall os (Thread_Create 0);
            if sr_rc r \<noteq> 0 then ret (Inr (sr_rc r), [])
            else do {
              set_dev (\<lambda>d. d\<lparr>wired_event_thread := nat (sr_fd r)\<rparr>);
              ret (Inl OPRT_OK, [(cb, status)])
            }
          }
          else ret (Inl OPRT_OK, [(cb, status)])
        }
      })"

text \<open>The address is the four bytes of the reply.\<close>

definition inet_ntoa :: "bytes \<Rightarrow> string" where
  "inet_ntoa a = dec_digits (unat (a ! 0)) @ ''.'' @ dec_digits (unat (a ! 1)) @ ''.'' @
     dec_digits (unat (a ! 2)) @ ''.'' @ dec_digits (unat (a ! 3))"

definition get_ip_by_name :: "'w kernel \<Rightarrow> string \<Rightarrow> NW_IP_S \<Rightarrow> ('w, 'd, OPERATE_RET \<times> NW_IP_S) prog" where
  "get_ip_by_name os if_name ip = do {
     sk \<leftarrow> syscall os (Socket 1);
     if sr_rc sk = -1 then ret (OPRT_COM_ERROR, ip)
     else do {
       a \<leftarrow> syscall os (Ioctl (sr_rc sk) (SIOCGIFADDR (take 15 if_name)));
       if sr_rc a < 0 then do { syscall os (Close (sr_rc sk)); ret (OPRT_COM_ERROR, ip) }
       else do {
         m \<leftarrow> syscall os (Ioctl (sr_rc sk) (SIOCGIFNETMASK (take 15 if_name)));
         if sr_rc m < 0
         then do { syscall os (Close (sr_rc sk)); ret (OPRT_COM_ERROR, ip\<lparr>nw_ip := inet_ntoa (sr_data a)\<rparr>) }
         else do {
           syscall os (Close (sr_rc sk));
           ret (OPRT_OK, ip\<lparr>nw_ip := inet_ntoa (sr_data a), nw_mask := inet_ntoa (sr_data m)\<rparr>)
         }
       }
     }
   }"

definition tkl_wired_set_ip :: "NW_IP_S \<Rightarrow> OPERATE_RET" where
  "tkl_wired_set_ip ip = OPRT_NOT_SUPPORTED"

fun ip_loop :: "'w kernel \<Rightarrow> string list \<Rightarrow> NW_IP_S \<Rightarrow> ('w, 'd, OPERATE_RET \<times> NW_IP_S) prog" where
  "ip_loop os [] ip = ret (OPRT_NOT_FOUND, ip)"
| "ip_loop os (n # ns) ip =
     (if is_loopback_interface n then ip_loop os ns ip
      else do {
        (r, if_status) \<leftarrow> get_status_by_name os n;
        if if_status = Some TKL_WIRED_LINK_UP
        then do {
          (r, ip1) \<leftarrow> get_ip_by_name os n ip;
          if r = OPRT_OK then ret (OPRT_OK, ip1) else ip_loop os ns ip1
        }
        else ip_loop os ns ip
      })"

definition tkl_wired_get_ip :: "'w kernel \<Rightarrow> NW_IP_S \<Rightarrow> ('w, 'd, OPERATE_RET \<times> NW_IP_S) prog" where
  "tkl_wired_get_ip os ip = do {
     l \<leftarrow> syscall os If_Nameindex;
     if sr_rc l = 0 then ret (OPRT_NOT_FOUND, ip)
     else do {
       (rt, ip1) \<leftarrow> ip_loop os (name_list [] (sr_data l)) ip;
       syscall os If_Freenameindex;
       ret (rt, ip1)
     }
   }"

definition tkl_wired_get_mac :: "OPERATE_RET \<times> bytes" where
  "tkl_wired_get_mac = (OPRT_OK, [0xc8, 0x5b, 0x76, 0x4d, 0x75, 0xcd])"

definition tkl_wired_set_mac :: "bytes \<Rightarrow> OPERATE_RET" where
  "tkl_wired_set_mac mac = OPRT_OK"

section \<open>No descriptor is left open\<close>

definition wired_start :: wired_dev where
  "wired_start = \<lparr>wired_event_cb = 0, wired_event_thread = 0\<rparr>"

text \<open>The adapter keeps no descriptor.\<close>

interpretation wired: fd_owner "\<lambda>_ :: wired_dev. Map.empty :: unit \<rightharpoonup> int" "\<lambda>_. True" wired_start
  by unfold_locales simp_all

lemma wired_acc_set: "wired.acc [] s \<Longrightarrow> wired.acc [] (s\<lparr>m_dev := d\<rparr>)"
  by (rule wired.acc_same) simp_all

lemma wired_safe_by_name: "wired.safe (get_status_by_name os n)"
  unfolding wired.safe_def get_status_by_name_def
  by (intro allI impI wp_bind [of "syscall os (Socket _)"], erule wired.wp_acc_call)
    (auto intro!: wp_if wp_return wp_bind [of "syscall os (Ioctl _ _)"] wired.close_safe wired.safe_return elim!: wired.ioctl_acc split: if_splits)

lemma wired_safe_status_loop: "wired.safe (if_status_loop os ns st)"
  by (induction ns arbitrary: st)
    (auto intro!: wired.safe_return wired.safe_bind wired_safe_by_name split: option.split)

lemma wired_safe_names: "wired.safe (syscall os If_Nameindex)" "wired.safe (syscall os If_Freenameindex)"
  "wired.safe (syscall os (Sleep k))" "wired.safe (syscall os (Thread_Create k))"
  by (auto intro!: wired.safe_call)

lemma wired_safe_dev: "wired.safe dev" "wired.safe (set_dev f)"
  unfolding wired.safe_def by (auto intro!: wp_dev wp_set_dev wired_acc_set)

lemmas wired_safe_rules = wired.safe_return wired.safe_bind wired_safe_names wired_safe_dev wired_safe_status_loop

lemma wired_safe_get_status: "wired.safe (tkl_wired_get_status os)"
  unfolding tkl_wired_get_status_def by (auto intro!: wired_safe_rules)

lemma wired_safe_event: "wired.safe (wifi_status_event_cb os l)"
  unfolding wifi_status_event_cb_def by (auto intro!: wired_safe_rules wired_safe_get_status)

lemma wired_safe_set_cb: "wired.safe (tkl_wired_set_status_cb os cb)"
  unfolding tkl_wired_set_status_cb_def by (auto intro!: wired_safe_rules)

lemma wired_safe_ip_by_name: "wired.safe (get_ip_by_name os n ip)"
  unfolding wired.safe_def get_ip_by_name_def
  by (intro allI impI wp_bind [of "syscall os (Socket _)"], erule wired.socket_acc)
    (auto intro!: wp_if wp_return wp_bind [of "syscall os (Ioctl _ _)"] wired.close_safe wired.safe_return elim!: wired.ioctl_acc)

lemma wired_safe_ip_loop: "wired.safe (ip_loop os ns ip)"
  by (induction ns arbitrary: ip)
    (auto intro!: wired.safe_return wired.safe_bind wired_safe_by_name wired_safe_ip_by_name)

lemma wired_safe_get_ip: "wired.safe (tkl_wired_get_ip os ip)"
  unfolding tkl_wired_get_ip_def by (auto intro!: wired_safe_rules wired_safe_ip_loop)

datatype wired_op =
    W_Get_Status
  | W_Set_Status_Cb nat
  | W_Get_Ip NW_IP_S
  | W_Event "TKL_WIRED_STAT_E option"

fun wired_exec :: "'w kernel \<Rightarrow> wired_op \<Rightarrow> ('w, wired_dev, unit) prog" where
  "wired_exec os W_Get_Status = do { tkl_wired_get_status os; ret () }"
| "wired_exec os (W_Set_Status_Cb cb) = do { tkl_wired_set_status_cb os cb; ret () }"
| "wired_exec os (W_Get_Ip ip) = do { tkl_wired_get_ip os ip; ret () }"
| "wired_exec os (W_Event l) = do { wifi_status_event_cb os l; ret () }"

interpretation wired_driver: fd_driver "\<lambda>_ :: wired_dev. Map.empty :: unit \<rightharpoonup> int" "\<lambda>_. True" wired_start wired_exec
proof
  show "wired.safe (wired_exec os x)" for os :: "'w kernel" and x
    by (cases x) (auto intro!: wired.safe_bind wired.safe_return wired_safe_get_status wired_safe_set_cb wired_safe_get_ip wired_safe_event)
qed

text \<open>
  Whatever the kernel answers, no sequence of wired network calls and rounds of the event thread leaves
  a descriptor open or closes one that is not, every error path of the queries included.
\<close>

theorem wired_no_descriptor_left:
  assumes "run_state (run_ops (wired_exec os) ops) \<lparr>m_os = w, m_log = [], m_dev = wired_start\<rparr> = (rs, s)" "fds_fresh (m_log s)"
  shows "open_fds (m_log s) = {} \<and> closes_ok (m_log s)"
  using wired_driver.session_accounted(3) [OF assms] by (simp add: balanced_def)

section \<open>What is reported\<close>

text \<open>
  A network at rest: the kernel names the interfaces, opens sockets, and answers for every name with its state
  (or an error) and its address and mask (or an error).
\<close>

definition network :: "'w kernel \<Rightarrow> string list \<Rightarrow> (string \<Rightarrow> TKL_WIRED_STAT_E option) \<Rightarrow> (string \<Rightarrow> (bytes \<times> bytes) option) \<Rightarrow> bool" where
  "network os names st addr \<longleftrightarrow> (\<forall>n\<in>set names. length n \<le> 15) \<and>
     (\<forall>w. sr_rc (fst (os w If_Nameindex)) \<noteq> 0 \<and> name_list [] (sr_data (fst (os w If_Nameindex))) = names) \<and>
     (\<forall>w k. 0 \<le> sr_rc (fst (os w (Socket k)))) \<and>
     (\<forall>w fd n. case st n of
        None \<Rightarrow> sr_rc (fst (os w (Ioctl fd (SIOCGIFFLAGS n)))) < 0
      | Some x \<Rightarrow> 0 \<le> sr_rc (fst (os w (Ioctl fd (SIOCGIFFLAGS n)))) \<and>
          (odd (sr_fd (fst (os w (Ioctl fd (SIOCGIFFLAGS n))))) \<longleftrightarrow> x = TKL_WIRED_LINK_UP)) \<and>
     (\<forall>w fd n. case addr n of
        None \<Rightarrow> sr_rc (fst (os w (Ioctl fd (SIOCGIFADDR n)))) < 0
      | Some (a, m) \<Rightarrow> 0 \<le> sr_rc (fst (os w (Ioctl fd (SIOCGIFADDR n)))) \<and> sr_data (fst (os w (Ioctl fd (SIOCGIFADDR n)))) = a \<and>
          0 \<le> sr_rc (fst (os w (Ioctl fd (SIOCGIFNETMASK n)))) \<and> sr_data (fst (os w (Ioctl fd (SIOCGIFNETMASK n)))) = m)"

lemma status_by_name_run:
  assumes "network os names st addr"
  shows "\<exists>r s'. run_state (get_status_by_name os n) s = ((r, st n), s')"
proof -
  let ?sk = "os (m_os s) (Socket 2)"
  let ?f = "fst (os (snd ?sk) (Ioctl (sr_rc (fst ?sk)) (SIOCGIFFLAGS n)))"
  have "0 \<le> sr_rc (fst ?sk)" "case st n of None \<Rightarrow> sr_rc ?f < 0 | Some x \<Rightarrow> 0 \<le> sr_rc ?f \<and> (odd (sr_fd ?f) \<longleftrightarrow> x = TKL_WIRED_LINK_UP)"
    using assms unfolding network_def by blast+
  then show ?thesis
    by (auto simp: get_status_by_name_def run_syscall split: option.splits) (metis TKL_WIRED_STAT_E.exhaust)
qed

lemma status_loop_run:
  assumes "network os names st addr"
  shows "\<exists>s'. run_state (if_status_loop os ns TKL_WIRED_LINK_DOWN) s =
    (if \<exists>n\<in>set ns. \<not> is_loopback_interface n \<and> st n = Some TKL_WIRED_LINK_UP then TKL_WIRED_LINK_UP else TKL_WIRED_LINK_DOWN, s')"
proof (induction ns arbitrary: s)
  case (Cons n ns)
  obtain r s1 where run: "run_state (get_status_by_name os n) s = ((r, st n), s1)"
    using status_by_name_run [OF assms] by blast
  consider (lo) "is_loopback_interface n" | (none) "\<not> is_loopback_interface n" "st n = None"
    | (up) "\<not> is_loopback_interface n" "st n = Some TKL_WIRED_LINK_UP"
    | (down) "\<not> is_loopback_interface n" "st n = Some TKL_WIRED_LINK_DOWN"
    by (metis TKL_WIRED_STAT_E.exhaust option.exhaust)
  then show ?case
    by cases (use Cons.IH [of s] Cons.IH [of s1] run in \<open>simp_all split del: if_split\<close>)
qed simp

lemma get_ip_by_name_run:
  assumes "network os names st addr" "n \<in> set names"
  shows "\<exists>s' r. run_state (get_ip_by_name os n ip) s = (case addr n of
      None \<Rightarrow> (OPRT_COM_ERROR, ip)
    | Some (a, m) \<Rightarrow> (OPRT_OK, ip\<lparr>nw_ip := inet_ntoa a, nw_mask := inet_ntoa m\<rparr>), s')"
proof -
  let ?sk = "os (m_os s) (Socket 1)"
  let ?a = "os (snd ?sk) (Ioctl (sr_rc (fst ?sk)) (SIOCGIFADDR n))"
  let ?m = "fst (os (snd ?a) (Ioctl (sr_rc (fst ?sk)) (SIOCGIFNETMASK n)))"
  have n: "take 15 n = n" using assms by (simp add: network_def)
  have sk: "0 \<le> sr_rc (fst ?sk)" using assms(1) by (simp add: network_def)
  have ad: "\<forall>w fd. case addr n of None \<Rightarrow> sr_rc (fst (os w (Ioctl fd (SIOCGIFADDR n)))) < 0
      | Some (a, m) \<Rightarrow> 0 \<le> sr_rc (fst (os w (Ioctl fd (SIOCGIFADDR n)))) \<and> sr_data (fst (os w (Ioctl fd (SIOCGIFADDR n)))) = a \<and>
          0 \<le> sr_rc (fst (os w (Ioctl fd (SIOCGIFNETMASK n)))) \<and> sr_data (fst (os w (Ioctl fd (SIOCGIFNETMASK n)))) = m"
    using assms(1) unfolding network_def by blast
  show ?thesis
  proof (cases "addr n")
    case None
    then show ?thesis using ad sk by (auto simp: get_ip_by_name_def run_syscall n not_less)
  next
    case (Some x)
    obtain a m where x: "x = (a, m)" by (metis surj_pair)
    have "0 \<le> sr_rc (fst ?a)" "sr_data (fst ?a) = a" "0 \<le> sr_rc ?m" "sr_data ?m = m"
      using ad Some x by auto
    then show ?thesis using Some x sk by (simp add: get_ip_by_name_def run_syscall n)
  qed
qed

definition has_address :: "(string \<Rightarrow> TKL_WIRED_STAT_E option) \<Rightarrow> (string \<Rightarrow> (bytes \<times> bytes) option) \<Rightarrow> string \<Rightarrow> bool" where
  "has_address st addr n \<longleftrightarrow> \<not> is_loopback_interface n \<and> st n = Some TKL_WIRED_LINK_UP \<and> addr n \<noteq> None"

lemma ip_loop_run:
  assumes "network os names st addr" "set ns \<subseteq> set names"
  shows "\<exists>s'. run_state (ip_loop os ns ip) s = (case find (has_address st addr) ns of
      None \<Rightarrow> (OPRT_NOT_FOUND, ip)
    | Some n \<Rightarrow> (OPRT_OK, ip\<lparr>nw_ip := inet_ntoa (fst (the (addr n))), nw_mask := inet_ntoa (snd (the (addr n)))\<rparr>), s')"
  using assms(2)
proof (induction ns arbitrary: s)
  case (Cons n ns)
  obtain r s1 where run: "run_state (get_status_by_name os n) s = ((r, st n), s1)"
    using status_by_name_run [OF assms(1)] by blast
  have "n \<in> set names" "set ns \<subseteq> set names" using Cons.prems by simp_all
  note ip = get_ip_by_name_run [OF assms(1) this(1), of ip s1] and IH = Cons.IH [OF this(2)]
  show ?case
  proof (cases "is_loopback_interface n \<or> st n \<noteq> Some TKL_WIRED_LINK_UP")
    case True
    then show ?thesis using IH [of s] IH [of s1] run by (auto simp: has_address_def)
  next
    case up: False
    show ?thesis
    proof (cases "addr n")
      case None
      then obtain s2 where "run_state (get_ip_by_name os n ip) s1 = ((OPRT_COM_ERROR, ip), s2)" using ip by auto
      then show ?thesis using up run None IH [of s2] by (simp add: has_address_def)
    next
      case (Some x)
      then obtain s2 where "run_state (get_ip_by_name os n ip) s1 =
          ((OPRT_OK, ip\<lparr>nw_ip := inet_ntoa (fst x), nw_mask := inet_ntoa (snd x)\<rparr>), s2)" using ip by (auto split: prod.splits)
      then show ?thesis using up run Some by (simp add: has_address_def)
    qed
  qed
qed simp

lemma get_status_run:
  assumes "network os names st addr"
  shows "fst (run_state (tkl_wired_get_status os) s) =
      (OPRT_OK, if \<exists>n\<in>set names. \<not> is_loopback_interface n \<and> st n = Some TKL_WIRED_LINK_UP then TKL_WIRED_LINK_UP else TKL_WIRED_LINK_DOWN)"
proof -
  let ?l = "os (m_os s) If_Nameindex"
  have "sr_rc (fst ?l) \<noteq> 0" "name_list [] (sr_data (fst ?l)) = names" using assms by (auto simp: network_def)
  then show ?thesis
    using status_loop_run [OF assms, of names "s\<lparr>m_os := snd ?l, m_log := (If_Nameindex, fst ?l) # m_log s\<rparr>"]
    by (auto simp: tkl_wired_get_status_def run_syscall split del: if_split)
qed

lemma get_ip_run:
  assumes "network os names st addr"
  shows "fst (run_state (tkl_wired_get_ip os ip) s) = (case find (has_address st addr) names of
        None \<Rightarrow> (OPRT_NOT_FOUND, ip)
      | Some n \<Rightarrow> (OPRT_OK, ip\<lparr>nw_ip := inet_ntoa (fst (the (addr n))), nw_mask := inet_ntoa (snd (the (addr n)))\<rparr>))"
proof -
  let ?l = "os (m_os s) If_Nameindex"
  have "sr_rc (fst ?l) \<noteq> 0" "name_list [] (sr_data (fst ?l)) = names" using assms by (auto simp: network_def)
  then show ?thesis
    using ip_loop_run [OF assms subset_refl, of ip "s\<lparr>m_os := snd ?l, m_log := (If_Nameindex, fst ?l) # m_log s\<rparr>"]
    by (auto simp: tkl_wired_get_ip_def run_syscall split: option.splits split del: if_split)
qed

text \<open>
  C21: On a network at rest (the kernel names the interfaces, opens sockets and always gives the same answers)
  the wired status is \<open>UP\<close> exactly if an interface that is not the loopback has its flag \<open>IFF_UP\<close> set, whatever
  its cable and address, and the address reported is that of the first such interface that has one, with
  its mask; without one the answer is \<open>OPRT_NOT_FOUND\<close> and the caller's record is unchanged.  The header
  \<open>tkl_wired.h\<close> documents \<open>UP\<close> as cable plugged and address got, which the code does not test.
\<close>

theorem wired_reports_network:
  assumes "network os names st addr"
  shows "fst (run_state (tkl_wired_get_status os) s) =
      (OPRT_OK, if \<exists>n\<in>set names. \<not> is_loopback_interface n \<and> st n = Some TKL_WIRED_LINK_UP then TKL_WIRED_LINK_UP else TKL_WIRED_LINK_DOWN)
    \<and> fst (run_state (tkl_wired_get_ip os ip) s) = (case find (has_address st addr) names of
        None \<Rightarrow> (OPRT_NOT_FOUND, ip)
      | Some n \<Rightarrow> (OPRT_OK, ip\<lparr>nw_ip := inet_ntoa (fst (the (addr n))), nw_mask := inet_ntoa (snd (the (addr n)))\<rparr>))"
  using get_status_run [OF assms] get_ip_run [OF assms] by blast

text \<open>
  C22: Against its documentation (\<open>tkl_wired.h\<close>: cable plugged and address got), \<open>tkl_wired_get_status\<close> answers
  \<open>UP\<close> on a network where no interface has an address, as soon as an interface other than the loopback has
  \<open>IFF_UP\<close> set, while \<open>tkl_wired_get_ip\<close> finds no address there.
\<close>

theorem wired_up_without_address:
  assumes "network os names st addr" "n \<in> set names" "\<not> is_loopback_interface n" "st n = Some TKL_WIRED_LINK_UP"
    and "addr = (\<lambda>_. None)"
  shows "fst (run_state (tkl_wired_get_status os) s) = (OPRT_OK, TKL_WIRED_LINK_UP)
    \<and> fst (run_state (tkl_wired_get_ip os ip) s) = (OPRT_NOT_FOUND, ip)"
proof -
  have "find (has_address st addr) names = None" using assms(5) by (simp add: find_None_iff has_address_def)
  then show ?thesis using get_status_run [OF assms(1), of s] get_ip_run [OF assms(1), of ip s] assms(2-4) by auto
qed

section \<open>The event thread\<close>

text \<open>Some rounds of the thread, with the states it saw and the callbacks it made.\<close>

fun monitor :: "'w kernel \<Rightarrow> nat \<Rightarrow> TKL_WIRED_STAT_E option \<Rightarrow> ('w, wired_dev, TKL_WIRED_STAT_E list \<times> (nat \<times> TKL_WIRED_STAT_E) list) prog" where
  "monitor os 0 last_stat = ret ([], [])"
| "monitor os (Suc k) last_stat = do {
     (stat, cb) \<leftarrow> wifi_status_event_cb os last_stat;
     (sts, cbs) \<leftarrow> monitor os k (Some stat);
     ret (stat # sts, cb @ cbs)
   }"

lemma quiet_status_by_name: "quiet (get_status_by_name os n)"
  unfolding get_status_by_name_def by (intro quiet_rules)

lemma quiet_status_loop: "quiet (if_status_loop os ns st)"
  by (induction ns arbitrary: st) (auto intro!: quiet_rules quiet_status_by_name split: option.split)

lemma quiet_get_status: "quiet (tkl_wired_get_status os)"
  unfolding tkl_wired_get_status_def by (intro quiet_rules quiet_status_loop)

lemma event_cb_run:
  "wp (wifi_status_event_cb os l) (\<lambda>(stat, cb) s'. m_dev s' = m_dev s \<and>
     cb = (if Some stat \<noteq> l then [(wired_event_cb (m_dev s), stat)] else [])) s"
  unfolding wifi_status_event_cb_def
  by (intro wp_bind, rule wp_quiet [OF quiet_get_status], intro wp_case_prod wp_bind wp_dev wp_syscall wp_return) simp

lemma monitor_run:
  "run_state (monitor os k l) s = ((sts, cbs), s') \<Longrightarrow>
   m_dev s' = m_dev s \<and> length sts = k \<and> map fst cbs = replicate (length cbs) (wired_event_cb (m_dev s)) \<and>
   (case l of None \<Rightarrow> map snd cbs = remdups_adj sts | Some x \<Rightarrow> x # map snd cbs = remdups_adj (x # sts))"
proof (induction k arbitrary: l s sts cbs s')
  case (Suc k)
  obtain stat cb s1 where 1: "run_state (wifi_status_event_cb os l) s = ((stat, cb), s1)" by (metis surj_pair)
  obtain sts1 cbs1 s2 where 2: "run_state (monitor os k (Some stat)) s1 = ((sts1, cbs1), s2)" by (metis surj_pair)
  from wpD [OF event_cb_run 1] have cb: "m_dev s1 = m_dev s" "cb = (if Some stat \<noteq> l then [(wired_event_cb (m_dev s), stat)] else [])" by auto
  have "sts = stat # sts1" "cbs = cb @ cbs1" "s' = s2" using Suc.prems 1 2 by auto
  with Suc.IH [OF 2] cb show ?case by (cases l) (auto split: if_splits)
qed (auto split: option.split)

text \<open>
  The event thread reports every change of the wired status and nothing else: over any number of rounds,
  against any kernel, the states passed to the registered callback are the states it saw with repetitions
  left out, the first state included.
\<close>

theorem wired_changes_reported:
  assumes "run_state (monitor os k None) s = ((sts, cbs), s')"
  shows "cbs = map (Pair (wired_event_cb (m_dev s))) (remdups_adj sts) \<and> length sts = k"
proof -
  from monitor_run [OF assms] have m: "map fst cbs = replicate (length cbs) (wired_event_cb (m_dev s))" "map snd cbs = remdups_adj sts" by simp_all
  have "cbs = zip (map fst cbs) (map snd cbs)" by (simp add: zip_map_fst_snd)
  also have "\<dots> = map (Pair (wired_event_cb (m_dev s))) (map snd cbs)"
    unfolding m(1) by (rule nth_equalityI) simp_all
  finally have "cbs = map (Pair (wired_event_cb (m_dev s))) (remdups_adj sts)" by (simp only: m(2))
  then show ?thesis using monitor_run [OF assms] by blast
qed

section \<open>Examples\<close>

text \<open>A kernel with a loopback and one wired interface, whose cable is plugged in after the first two rounds.\<close>

definition lan_kernel :: "nat \<Rightarrow> nat kernel" where
  "lan_kernel plugged n c =
     (case c of
        If_Nameindex \<Rightarrow> (reply 1 0 (text_bytes ''lo'' @ [0] @ text_bytes ''eth0'' @ [0]), n)
      | Socket k \<Rightarrow> (reply 3 0 [], n)
      | Ioctl fd (SIOCGIFFLAGS i) \<Rightarrow> (reply 0 (if i = ''lo'' \<or> plugged \<le> n then 1 else 0) [], n)
      | Ioctl fd (SIOCGIFADDR i) \<Rightarrow> (reply 0 0 [192, 168, 1, 10], n)
      | Ioctl fd (SIOCGIFNETMASK i) \<Rightarrow> (reply 0 0 [255, 255, 255, 0], n)
      | Sleep k \<Rightarrow> (reply 0 0 [], Suc n)
      | _ \<Rightarrow> (reply 0 0 [], n))"

lemma lan_names: "name_list [] (text_bytes ''lo'' @ 0 # text_bytes ''eth0'' @ [0]) = [''lo'', ''eth0'']"
  by code_simp

abbreviation no_ip :: NW_IP_S where
  "no_ip \<equiv> \<lparr>nw_ip = [], nw_mask = [], nw_gw = [], nw_dns = [], nw_dhcpen = False\<rparr>"

lemma loopback_names: "is_loopback_interface ''lo''" "\<not> is_loopback_interface ''eth0''"
  by (simp_all add: is_loopback_interface_def)

theorem wired_reports_network_witness:
  "network (lan_kernel 0) [''lo'', ''eth0''] (\<lambda>_. Some TKL_WIRED_LINK_UP) (\<lambda>_. Some ([192, 168, 1, 10], [255, 255, 255, 0])) \<and>
   fst (run_state (tkl_wired_get_status (lan_kernel 0)) \<lparr>m_os = 0, m_log = [], m_dev = wired_start\<rparr>) = (OPRT_OK, TKL_WIRED_LINK_UP) \<and>
   nw_ip (snd (fst (run_state (tkl_wired_get_ip (lan_kernel 0) no_ip) \<lparr>m_os = 0, m_log = [], m_dev = wired_start\<rparr>))) = ''192.168.1.10''"
proof -
  have n: "network (lan_kernel 0) [''lo'', ''eth0''] (\<lambda>_. Some TKL_WIRED_LINK_UP) (\<lambda>_. Some ([192, 168, 1, 10], [255, 255, 255, 0]))"
    by (simp add: network_def lan_kernel_def lan_names)
  have "inet_ntoa [192, 168, 1, 10] = ''192.168.1.10''" by code_simp
  then show ?thesis
    using wired_reports_network [OF n, of "\<lparr>m_os = 0, m_log = [], m_dev = wired_start\<rparr>" no_ip] n loopback_names
    by (simp add: has_address_def)
qed

text \<open>The same interfaces before an address was assigned.\<close>

definition no_address_kernel :: "nat kernel" where
  "no_address_kernel n c = (case c of Ioctl fd (SIOCGIFADDR i) \<Rightarrow> (reply (-1) 0 [], n) | _ \<Rightarrow> lan_kernel 0 n c)"

theorem wired_up_without_address_witness:
  "network no_address_kernel [''lo'', ''eth0''] (\<lambda>_. Some TKL_WIRED_LINK_UP) (\<lambda>_. None) \<and>
   fst (run_state (tkl_wired_get_status no_address_kernel) \<lparr>m_os = 0, m_log = [], m_dev = wired_start\<rparr>) = (OPRT_OK, TKL_WIRED_LINK_UP) \<and>
   fst (run_state (tkl_wired_get_ip no_address_kernel no_ip) \<lparr>m_os = 0, m_log = [], m_dev = wired_start\<rparr>) = (OPRT_NOT_FOUND, no_ip)"
proof -
  have n: "network no_address_kernel [''lo'', ''eth0''] (\<lambda>_. Some TKL_WIRED_LINK_UP) (\<lambda>_. None)"
    by (simp add: network_def no_address_kernel_def lan_kernel_def lan_names)
  show ?thesis
    using wired_up_without_address [OF n, of "''eth0''" "\<lparr>m_os = 0, m_log = [], m_dev = wired_start\<rparr>" no_ip] n loopback_names by simp
qed

theorem wired_no_descriptor_left_witness:
  "\<exists>rs s. run_state (run_ops (wired_exec (lan_kernel 2)) [W_Get_Status, W_Set_Status_Cb 5])
     \<lparr>m_os = 0, m_log = [], m_dev = wired_start\<rparr> = (rs, s) \<and> wired_event_cb (m_dev s) = 5 \<and> open_fds (m_log s) = {} \<and> closes_ok (m_log s)"
proof -
  obtain rs s where r: "run_state (run_ops (wired_exec (lan_kernel 2)) [W_Get_Status, W_Set_Status_Cb 5])
     \<lparr>m_os = 0, m_log = [], m_dev = wired_start\<rparr> = (rs, s)" by (metis surj_pair)
  have "let s = snd (run_state (run_ops (wired_exec (lan_kernel 2)) [W_Get_Status, W_Set_Status_Cb 5])
      \<lparr>m_os = 0, m_log = [], m_dev = wired_start\<rparr>) in fds_fresh (m_log s) \<and> wired_event_cb (m_dev s) = 5" by code_simp
  then have "fds_fresh (m_log s) \<and> wired_event_cb (m_dev s) = 5" using r by simp
  then show ?thesis using wired_no_descriptor_left [OF r] r by blast
qed

theorem wired_changes_reported_witness:
  "\<exists>s'. run_state (monitor (lan_kernel 2) 4 None) \<lparr>m_os = 0, m_log = [], m_dev = wired_start\<lparr>wired_event_cb := 5\<rparr>\<rparr> =
     (([TKL_WIRED_LINK_DOWN, TKL_WIRED_LINK_DOWN, TKL_WIRED_LINK_UP, TKL_WIRED_LINK_UP],
       [(5, TKL_WIRED_LINK_DOWN), (5, TKL_WIRED_LINK_UP)]), s')"
proof -
  obtain sts cbs s' where r: "run_state (monitor (lan_kernel 2) 4 None) \<lparr>m_os = 0, m_log = [], m_dev = wired_start\<lparr>wired_event_cb := 5\<rparr>\<rparr> = ((sts, cbs), s')"
    by (metis surj_pair)
  have "fst (fst (run_state (monitor (lan_kernel 2) 4 None) \<lparr>m_os = 0, m_log = [], m_dev = wired_start\<lparr>wired_event_cb := 5\<rparr>\<rparr>)) =
      [TKL_WIRED_LINK_DOWN, TKL_WIRED_LINK_DOWN, TKL_WIRED_LINK_UP, TKL_WIRED_LINK_UP]" by code_simp
  then have "sts = [TKL_WIRED_LINK_DOWN, TKL_WIRED_LINK_DOWN, TKL_WIRED_LINK_UP, TKL_WIRED_LINK_UP]" using r by simp
  then show ?thesis using wired_changes_reported [OF r] r by simp
qed

end
