(* ===== verification/Tkl_Uart.thy ===== *)
theory Tkl_Uart
  imports Posix_World
begin

text \<open>
  The serial ports of \<open>tkl_uart.c\<close>.  The build option \<open>TKL_UART_REDIRECT_LOG_TO_STDOUT\<close> is the argument
  \<open>redirect\<close>: without it the ports are the terminals \<open>/dev/ttyAMA0\<close> to \<open>2\<close>, with it port 0 is the console and port 1
  a datagram socket.  \<open>None\<close> is an access outside the array of ports or through a null pointer.  Callbacks
  are opaque numbers, 0 the null pointer, that \<open>cb\<close> turns into programs; the threads that wait for input are
  given by one round of their loops.  Constants are those of Linux.
\<close>

section \<open>Types\<close>

datatype TUYA_UART_DATA_LEN_E =
  TUYA_UART_DATA_LEN_5BIT | TUYA_UART_DATA_LEN_6BIT | TUYA_UART_DATA_LEN_7BIT | TUYA_UART_DATA_LEN_8BIT
datatype TUYA_UART_STOP_LEN_E = TUYA_UART_STOP_LEN_1BIT | TUYA_UART_STOP_LEN_1_5BIT1 | TUYA_UART_STOP_LEN_2BIT
datatype TUYA_UART_PARITY_TYPE_E = TUYA_UART_PARITY_TYPE_NONE | TUYA_UART_PARITY_TYPE_ODD | TUYA_UART_PARITY_TYPE_EVEN
datatype TUYA_UART_FLOWCTRL_TYPE_E =
  TUYA_UART_FLOWCTRL_NONE | TUYA_UART_FLOWCTRL_RTSCTS | TUYA_UART_FLOWCTRL_XONXOFF | TUYA_UART_FLOWCTRL_DTRDSR

record TUYA_UART_BASE_CFG_T =
  ua_baudrate :: u32
  ua_parity :: TUYA_UART_PARITY_TYPE_E
  ua_databits :: TUYA_UART_DATA_LEN_E
  ua_stopbits :: TUYA_UART_STOP_LEN_E
  ua_flowctrl :: TUYA_UART_FLOWCTRL_TYPE_E

record uart_dev_t =
  ud_fd :: int
  ud_tid :: nat
  ud_rx_cb :: nat
  ud_readchar :: u8
  ud_readbuff :: bytes

type_synonym uart_devs = "uart_dev_t list"

definition uart_start :: uart_devs where
  "uart_start = replicate 3 \<lparr>ud_fd = 0, ud_tid = 0, ud_rx_cb = 0, ud_readchar = 0, ud_readbuff = replicate 1024 0\<rparr>"

definition TUYA_UART_GET_PORT_NUMBER :: "u32 \<Rightarrow> nat" where
  "TUYA_UART_GET_PORT_NUMBER port_id = unat (port_id AND 0xFFFF)"

definition g_uart_devname :: "string list" where
  "g_uart_devname = [''/dev/ttyAMA0'', ''/dev/ttyAMA1'', ''/dev/ttyAMA2'']"

definition upd_uart :: "nat \<Rightarrow> (uart_dev_t \<Rightarrow> uart_dev_t) \<Rightarrow> uart_devs \<Rightarrow> uart_devs" where
  "upd_uart port f d = d[port := f (d ! port)]"

text \<open>A call returns, or ends the process.\<close>

datatype uart_outcome = U_Ret OPERATE_RET | U_Exit int

section \<open>Line settings\<close>

definition baud_to_flag :: "u32 \<Rightarrow> u32" where
  "baud_to_flag baud =
     (if baud = 9600 then 0x000D else if baud = 19200 then 0x000E else if baud = 38400 then 0x000F
      else if baud = 57600 then 0x1001 else if baud = 115200 then 0x1002 else if baud = 230400 then 0x1003
      else if baud = 460800 then 0x1004 else if baud = 921600 then 0x1007 else 0x1002)"

definition CSIZE :: u32 where "CSIZE = 0x30"
definition CS7 :: u32 where "CS7 = 0x20"
definition CS8 :: u32 where "CS8 = 0x30"
definition CSTOPB :: u32 where "CSTOPB = 0x40"
definition CREAD :: u32 where "CREAD = 0x80"
definition PARENB :: u32 where "PARENB = 0x100"
definition PARODD :: u32 where "PARODD = 0x200"
definition CLOCAL :: u32 where "CLOCAL = 0x800"
definition CBAUD :: u32 where "CBAUD = 0x100F"
definition ICANON :: u32 where "ICANON = 0x2"
definition ECHO :: u32 where "ECHO = 0x8"
definition IXON :: u32 where "IXON = 0x400"
definition ICRNL :: u32 where "ICRNL = 0x100"
definition VTIME :: nat where "VTIME = 5"
definition VMIN :: nat where "VMIN = 6"

text \<open>The functions of the C library: raw mode, and the speed, which is also kept in the control flags.\<close>

definition cfmakeraw :: "termios \<Rightarrow> termios" where
  "cfmakeraw t = t\<lparr>c_iflag := c_iflag t AND NOT 0x5EB, c_oflag := c_oflag t AND NOT 0x1, c_lflag := c_lflag t AND NOT 0x804B,
     c_cflag := (c_cflag t AND NOT (CSIZE OR PARENB)) OR CS8, c_cc := (c_cc t)(VMIN := 1, VTIME := 0)\<rparr>"

definition cfsetispeed :: "u32 \<Rightarrow> termios \<Rightarrow> termios" where
  "cfsetispeed speed t = t\<lparr>c_ispeed := speed, c_cflag := (c_cflag t AND NOT CBAUD) OR speed\<rparr>"

definition cfsetospeed :: "u32 \<Rightarrow> termios \<Rightarrow> termios" where
  "cfsetospeed speed t = t\<lparr>c_ospeed := speed, c_cflag := (c_cflag t AND NOT CBAUD) OR speed\<rparr>"

text \<open>The settings that \<open>__configure_uart\<close> makes from those of the terminal.\<close>

definition uart_termios :: "TUYA_UART_BASE_CFG_T \<Rightarrow> termios \<Rightarrow> termios" where
  "uart_termios cfg t0 =
     (let t = cfmakeraw t0;
          speed = baud_to_flag (ua_baudrate cfg);
          t = cfsetospeed speed (cfsetispeed speed t);
          f = c_cflag t AND NOT CSIZE;
          f = f OR (case ua_databits cfg of TUYA_UART_DATA_LEN_7BIT \<Rightarrow> CS7 | _ \<Rightarrow> CS8);
          f = f AND NOT (PARENB OR PARODD);
          f = (if ua_parity cfg = TUYA_UART_PARITY_TYPE_ODD then f OR (PARENB OR PARODD)
               else if ua_parity cfg = TUYA_UART_PARITY_TYPE_EVEN then f OR PARENB else f);
          f = (if ua_stopbits cfg = TUYA_UART_STOP_LEN_2BIT then f OR CSTOPB else f AND NOT CSTOPB);
          f = f OR (CLOCAL OR CREAD)
      in t\<lparr>c_cflag := f, c_iflag := 0, c_oflag := 0, c_lflag := 0, c_cc := (c_cc t)(VTIME := 0, VMIN := 0)\<rparr>)"

definition configure_uart :: "'w kernel \<Rightarrow> int \<Rightarrow> TUYA_UART_BASE_CFG_T option \<Rightarrow> ('w, 'd, OPERATE_RET option) prog" where
  "configure_uart os fd cfg = do {
     g \<leftarrow> syscall os (Tcgetattr fd);
     if sr_rc g \<noteq> 0 then ret (Some OPRT_COM_ERROR)
     else case cfg of
            None \<Rightarrow> ret None
          | Some c \<Rightarrow> do {
              r \<leftarrow> syscall os (Tcsetattr fd (uart_termios c (sr_tio g)));
              ret (Some (if sr_rc r \<noteq> 0 then OPRT_COM_ERROR else OPRT_OK))
            }
   }"

section \<open>Operations\<close>

text \<open>
  \<open>pthread_create\<close> of the handler with the given number (0: \<open>__irq_handler\<close>, 1: \<open>__udp_irq_handler\<close>, 2:
  \<open>__uart_irq_handler\<close>); its result is ignored.
\<close>

definition start_handler :: "'w kernel \<Rightarrow> nat \<Rightarrow> nat \<Rightarrow> ('w, uart_devs, unit) prog" where
  "start_handler os port handler = do {
     r \<leftarrow> syscall os (Thread_Create handler);
     set_dev (upd_uart port (\<lambda>u. if sr_rc r = 0 then u\<lparr>ud_tid := nat (sr_fd r)\<rparr> else u))
   }"

definition init_redirect :: "'w kernel \<Rightarrow> nat \<Rightarrow> ('w, uart_devs, uart_outcome) prog" where
  "init_redirect os port_num =
     (if port_num = 0 then do {
        f \<leftarrow> syscall os (Open ''/dev/stdin'');
        set_dev (upd_uart 0 (\<lambda>u. u\<lparr>ud_fd := sr_rc f\<rparr>));
        if sr_rc f < 0 then ret (U_Ret OPRT_COM_ERROR)
        else do {
          g \<leftarrow> syscall os (Tcgetattr (sr_rc f));
          syscall os (Tcsetattr (sr_rc f) (let t = sr_tio g in
            t\<lparr>c_lflag := c_lflag t AND (NOT ICANON AND NOT ECHO), c_iflag := c_iflag t AND (NOT IXON AND NOT ICRNL)\<rparr>));
          start_handler os 0 0;
          ret (U_Ret OPRT_OK)
        }
      }
      else if port_num = 1 then do {
        f \<leftarrow> syscall os (Socket 2);
        set_dev (upd_uart 1 (\<lambda>u. u\<lparr>ud_fd := sr_rc f\<rparr>));
        syscall os (Fcntl (sr_rc f));
        b \<leftarrow> syscall os (Bind (sr_rc f) ''172.16.208.90'' 7878);
        if sr_rc b = -1 then ret (U_Exit 1)
        else do { start_handler os 1 1; ret (U_Ret OPRT_OK) }
      }
      else ret (U_Ret OPRT_OK))"

definition init_tty :: "'w kernel \<Rightarrow> nat \<Rightarrow> TUYA_UART_BASE_CFG_T option \<Rightarrow> ('w, uart_devs, uart_outcome option) prog" where
  "init_tty os port_num cfg =
     (if port_num \<ge> length g_uart_devname then ret (Some (U_Ret OPRT_INVALID_PARM))
      else do {
        f \<leftarrow> syscall os (Open (g_uart_devname ! port_num));
        if sr_rc f < 0 then ret (Some (U_Ret OPRT_COM_ERROR))
        else do {
          syscall os (Fcntl (sr_rc f));
          c \<leftarrow> configure_uart os (sr_rc f) cfg;
          case c of
            None \<Rightarrow> ret None
          | Some r \<Rightarrow>
              if r \<noteq> OPRT_OK then do { syscall os (Close (sr_rc f)); ret (Some (U_Ret OPRT_COM_ERROR)) }
              else do {
                set_dev (upd_uart port_num (\<lambda>u. u\<lparr>ud_fd := sr_rc f\<rparr>));
                start_handler os port_num 2;
                ret (Some (U_Ret OPRT_OK))
              }
        }
      })"

definition tkl_uart_init :: "bool \<Rightarrow> 'w kernel \<Rightarrow> u32 \<Rightarrow> TUYA_UART_BASE_CFG_T option \<Rightarrow> ('w, uart_devs, uart_outcome option) prog" where
  "tkl_uart_init redirect os port_id cfg =
     (let port_num = TUYA_UART_GET_PORT_NUMBER port_id
      in if port_num \<ge> 3 then ret (Some (U_Ret OPRT_INVALID_PARM))
         else if redirect then do { r \<leftarrow> init_redirect os port_num; ret (Some r) }
         else init_tty os port_num cfg)"

definition tkl_uart_deinit :: "bool \<Rightarrow> 'w kernel \<Rightarrow> u32 \<Rightarrow> ('w, uart_devs, OPERATE_RET option) prog" where
  "tkl_uart_deinit redirect os port_id =
     (let port_num = TUYA_UART_GET_PORT_NUMBER port_id
      in do {
        d \<leftarrow> dev;
        if port_num \<ge> length d then ret None
        else do {
          syscall os (Close (ud_fd (d ! port_num)));
          if port_num = 1 \<or> \<not> redirect
          then do {
            syscall os (Thread_Cancel (ud_tid (d ! port_num)));
            syscall os (Thread_Join (ud_tid (d ! port_num)));
            ret (Some OPRT_OK)
          }
          else ret (Some OPRT_OK)
        }
      })"

definition tkl_uart_write :: "bool \<Rightarrow> 'w kernel \<Rightarrow> u32 \<Rightarrow> bytes \<Rightarrow> u16 \<Rightarrow> ('w, uart_devs, int option) prog" where
  "tkl_uart_write redirect os port_id buff len =
     (let port_num = TUYA_UART_GET_PORT_NUMBER port_id; b = take (unat len) buff
      in do {
        d \<leftarrow> dev;
        if redirect
        then (if port_num = 0 then do { r \<leftarrow> syscall os (Write 1 b); ret (Some (sr_rc r)) }
              else if port_num = 1
              then do { r \<leftarrow> syscall os (Sendto (ud_fd (d ! 1)) b ''172.16.61.117'' 7878); ret (Some (sr_rc r)) }
              else ret (Some (-1)))
        else if port_num \<ge> length d then ret None
        else do { r \<leftarrow> syscall os (Write (ud_fd (d ! port_num)) b); ret (Some (sr_rc r)) }
      })"

definition tkl_uart_rx_irq_cb_reg :: "u32 \<Rightarrow> nat \<Rightarrow> ('w, uart_devs, unit option) prog" where
  "tkl_uart_rx_irq_cb_reg port_id rx_cb =
     (let port_num = TUYA_UART_GET_PORT_NUMBER port_id
      in do {
        d \<leftarrow> dev;
        if port_num \<ge> length d then ret None
        else do { set_dev (upd_uart port_num (\<lambda>u. u\<lparr>ud_rx_cb := rx_cb\<rparr>)); ret (Some ()) }
      })"

definition tkl_uart_tx_irq_cb_reg :: "u32 \<Rightarrow> nat \<Rightarrow> ('w, uart_devs, unit) prog" where
  "tkl_uart_tx_irq_cb_reg port_id tx_cb = ret ()"

text \<open>The result and the bytes stored in the buffer.\<close>

definition tkl_uart_read :: "bool \<Rightarrow> 'w kernel \<Rightarrow> u32 \<Rightarrow> u16 \<Rightarrow> ('w, uart_devs, (int \<times> bytes) option) prog" where
  "tkl_uart_read redirect os port_id len =
     (let port_num = TUYA_UART_GET_PORT_NUMBER port_id
      in do {
        d \<leftarrow> dev;
        if redirect
        then (if port_num = 0
              then do { r \<leftarrow> syscall os (Read (ud_fd (d ! 0)) (unat len)); ret (Some (sr_rc r, sr_data r)) }
              else if port_num = 1 then ret (Some (1, [ud_readchar (d ! 1)]))
              else ret (Some (-1, [])))
        else if port_num \<ge> length d then ret None
        else do { r \<leftarrow> syscall os (Read (ud_fd (d ! port_num)) (unat len)); ret (Some (sr_rc r, sr_data r)) }
      })"

definition tkl_uart_set_tx_int :: "u32 \<Rightarrow> bool \<Rightarrow> OPERATE_RET" where
  "tkl_uart_set_tx_int port_id enable = OPRT_NOT_SUPPORTED"

definition tkl_uart_set_rx_flowctrl :: "u32 \<Rightarrow> bool \<Rightarrow> OPERATE_RET" where
  "tkl_uart_set_rx_flowctrl port_id enable = OPRT_NOT_SUPPORTED"

definition tkl_uart_wait_for_data :: "u32 \<Rightarrow> int \<Rightarrow> OPERATE_RET" where
  "tkl_uart_wait_for_data port_id timeout_ms = OPRT_NOT_SUPPORTED"

definition tkl_uart_ioctl :: "u32 \<Rightarrow> u32 \<Rightarrow> OPERATE_RET" where
  "tkl_uart_ioctl port_id cmd = OPRT_NOT_SUPPORTED"

section \<open>Input\<close>

text \<open>
  A round of \<open>__irq_handler\<close>: the port is the index of the structure it was given, and the results are those
  of the callbacks.
\<close>

definition irq_handler :: "'w kernel \<Rightarrow> (nat \<Rightarrow> nat \<Rightarrow> ('w, uart_devs, 'b) prog) \<Rightarrow> nat \<Rightarrow> ('w, uart_devs, 'b list) prog" where
  "irq_handler os cb port = do {
     d \<leftarrow> dev;
     r \<leftarrow> syscall os (Select (ud_fd (d ! port)));
     d \<leftarrow> dev;
     if sr_fd r \<noteq> 0 \<and> ud_rx_cb (d ! port) \<noteq> 0
     then do { x \<leftarrow> cb (ud_rx_cb (d ! port)) 0; ret [x] }
     else ret []
   }"

text \<open>\<open>__uart_irq_handler\<close> has the same body.\<close>

definition uart_irq_handler :: "'w kernel \<Rightarrow> (nat \<Rightarrow> nat \<Rightarrow> ('w, uart_devs, 'b) prog) \<Rightarrow> nat \<Rightarrow> ('w, uart_devs, 'b list) prog" where
  "uart_irq_handler os cb port = irq_handler os cb port"

text \<open>The loop over the bytes of a datagram, from byte \<open>i\<close>.\<close>

function udp_loop :: "(nat \<Rightarrow> nat \<Rightarrow> ('w, uart_devs, 'b) prog) \<Rightarrow> nat \<Rightarrow> int \<Rightarrow> nat \<Rightarrow> ('w, uart_devs, 'b list) prog" where
  "udp_loop cb port readlen i =
     (if int i < readlen
      then do {
        set_dev (upd_uart port (\<lambda>u. u\<lparr>ud_readchar := ud_readbuff u ! i\<rparr>));
        d \<leftarrow> dev;
        xs \<leftarrow> (if ud_rx_cb (d ! port) \<noteq> 0 then do { x \<leftarrow> cb (ud_rx_cb (d ! port)) 1; ret [x] } else ret []);
        ys \<leftarrow> udp_loop cb port readlen (Suc i);
        ret (xs @ ys)
      }
      else ret [])"
  by pat_completeness auto
termination by (relation "measure (\<lambda>(cb, port, readlen, i). nat (readlen - int i))") auto

declare udp_loop.simps [simp del]

definition udp_irq_handler :: "'w kernel \<Rightarrow> (nat \<Rightarrow> nat \<Rightarrow> ('w, uart_devs, 'b) prog) \<Rightarrow> nat \<Rightarrow> ('w, uart_devs, 'b list) prog" where
  "udp_irq_handler os cb port = do {
     d \<leftarrow> dev;
     r \<leftarrow> syscall os (Select (ud_fd (d ! port)));
     if sr_fd r \<noteq> 0
     then do {
       d \<leftarrow> dev;
       m \<leftarrow> syscall os (Recvfrom (ud_fd (d ! port)) 1024);
       set_dev (upd_uart port (\<lambda>u. u\<lparr>ud_readbuff := store_into (ud_readbuff u) (sr_data m)\<rparr>));
       udp_loop cb port (sr_rc m) 0
     }
     else ret []
   }"

section \<open>The settings of a terminal\<close>

lemmas uart_flags = CSIZE_def CS7_def CS8_def CSTOPB_def CREAD_def PARENB_def PARODD_def CLOCAL_def CBAUD_def

lemma u32_eqI: "(\<forall>n\<in>set [0..<32]. bit a n = bit b n) \<Longrightarrow> a = b" for a b :: u32
  by (rule bit_word_eqI) simp

lemma baud_bits:
  "n \<in> {4, 5, 6, 7, 8, 9, 10, 11, 13, 14, 15, 16, 17, 18, 19, 20, 21, 22, 23, 24, 25, 26, 27, 28, 29, 30, 31} \<Longrightarrow>
   \<not> bit (baud_to_flag b) n"
  by (auto simp: baud_to_flag_def)

text \<open>Every bit of the control flags.\<close>

lemma uart_cflag_bits:
  assumes "n < 32"
  shows "bit (c_cflag (uart_termios cfg t)) n \<longleftrightarrow>
    (if n \<in> {0, 1, 2, 3, 12} then bit (baud_to_flag (ua_baudrate cfg)) n
     else if n = 4 then ua_databits cfg \<noteq> TUYA_UART_DATA_LEN_7BIT
     else if n = 6 then ua_stopbits cfg = TUYA_UART_STOP_LEN_2BIT
     else if n = 8 then ua_parity cfg \<noteq> TUYA_UART_PARITY_TYPE_NONE
     else if n = 9 then ua_parity cfg = TUYA_UART_PARITY_TYPE_ODD
     else if n \<in> {5, 7, 11} then True
     else bit (c_cflag t) n)"
proof -
  have db: "(case ua_databits cfg of TUYA_UART_DATA_LEN_7BIT \<Rightarrow> CS7 | _ \<Rightarrow> CS8) =
      (if ua_databits cfg = TUYA_UART_DATA_LEN_7BIT then CS7 else CS8)" by (cases "ua_databits cfg") simp_all
  have "\<forall>n\<in>set [0..<32]. bit (c_cflag (uart_termios cfg t)) n \<longleftrightarrow>
    (if n \<in> {0, 1, 2, 3, 12} then bit (baud_to_flag (ua_baudrate cfg)) n
     else if n = 4 then ua_databits cfg \<noteq> TUYA_UART_DATA_LEN_7BIT
     else if n = 6 then ua_stopbits cfg = TUYA_UART_STOP_LEN_2BIT
     else if n = 8 then ua_parity cfg \<noteq> TUYA_UART_PARITY_TYPE_NONE
     else if n = 9 then ua_parity cfg = TUYA_UART_PARITY_TYPE_ODD
     else if n \<in> {5, 7, 11} then True
     else bit (c_cflag t) n)"
    by (cases "ua_databits cfg = TUYA_UART_DATA_LEN_7BIT"; cases "ua_parity cfg"; cases "ua_stopbits cfg = TUYA_UART_STOP_LEN_2BIT")
      (simp_all add: uart_termios_def db Let_def cfsetospeed_def cfsetispeed_def cfmakeraw_def uart_flags upt_rec bit_simps baud_bits)
  then show ?thesis using assms by simp
qed

text \<open>
  What the kernel makes of the control flags: the low four bits and the bit \<open>0x1000\<close> select a speed in bits per
  second from its table, bits 4 and 5 the word length from 5 up, bit 6 the second stop bit, bits 8 and 9 the parity.
\<close>

definition baud_table :: "nat list" where
  "baud_table = [0, 50, 75, 110, 134, 150, 200, 300, 600, 1200, 1800, 2400, 4800, 9600, 19200, 38400,
     57600, 115200, 230400, 460800, 500000, 576000, 921600]"

definition tty_speed :: "u32 \<Rightarrow> nat" where
  "tty_speed f = baud_table ! (unat (f AND 0xF) + (if f AND 0x1000 = 0 then 0 else 15))"

definition tty_word_length :: "u32 \<Rightarrow> nat" where
  "tty_word_length f = 5 + unat (f AND 0x30) div 16"

definition tty_stop_bits :: "u32 \<Rightarrow> nat" where
  "tty_stop_bits f = (if f AND 0x40 = 0 then 1 else 2)"

definition tty_parity :: "u32 \<Rightarrow> TUYA_UART_PARITY_TYPE_E" where
  "tty_parity f = (if f AND 0x100 = 0 then TUYA_UART_PARITY_TYPE_NONE
     else if f AND 0x200 = 0 then TUYA_UART_PARITY_TYPE_EVEN else TUYA_UART_PARITY_TYPE_ODD)"

text \<open>
  The line that a configuration gets: its speed if it is one of eight and 115200 bits per second otherwise, words of
  7 bits if it says so and of 8 bits otherwise, two stop bits if it says so and one otherwise, its parity; input
  and output raw and without waiting.
\<close>

definition line_is :: "TUYA_UART_BASE_CFG_T \<Rightarrow> termios \<Rightarrow> bool" where
  "line_is cfg t \<longleftrightarrow>
     (let speed = (if unat (ua_baudrate cfg) \<in> {9600, 19200, 38400, 57600, 115200, 230400, 460800, 921600}
                   then unat (ua_baudrate cfg) else 115200)
      in tty_speed (c_cflag t) = speed \<and> tty_speed (c_ispeed t) = speed \<and> tty_speed (c_ospeed t) = speed) \<and>
     tty_word_length (c_cflag t) = (if ua_databits cfg = TUYA_UART_DATA_LEN_7BIT then 7 else 8) \<and>
     tty_parity (c_cflag t) = ua_parity cfg \<and>
     tty_stop_bits (c_cflag t) = (if ua_stopbits cfg = TUYA_UART_STOP_LEN_2BIT then 2 else 1) \<and>
     c_cflag t AND 0x880 = 0x880 \<and>
     c_iflag t = 0 \<and> c_oflag t = 0 \<and> c_lflag t = 0 \<and> c_cc t VMIN = 0 \<and> c_cc t VTIME = 0"

lemma single_bit: "c AND 2 ^ n \<noteq> 0 \<longleftrightarrow> bit c n" for c :: "'a::len word"
  by (simp add: and_exp_eq_0_iff_not_bit)

lemma tty_bits:
  "tty_parity f = (if \<not> bit f 8 then TUYA_UART_PARITY_TYPE_NONE
     else if bit f 9 then TUYA_UART_PARITY_TYPE_ODD else TUYA_UART_PARITY_TYPE_EVEN)"
  "tty_stop_bits f = (if bit f 6 then 2 else 1)"
  using single_bit [of f 8] single_bit [of f 9] single_bit [of f 6] by (auto simp: tty_parity_def tty_stop_bits_def)

lemma baud_to_flag_speed:
  "tty_speed (baud_to_flag b) =
     (if unat b \<in> {9600, 19200, 38400, 57600, 115200, 230400, 460800, 921600} then unat b else 115200)"
proof -
  have u: "unat b = 9600 \<longleftrightarrow> b = 9600" "unat b = 19200 \<longleftrightarrow> b = 19200" "unat b = 38400 \<longleftrightarrow> b = 38400" "unat b = 57600 \<longleftrightarrow> b = 57600"
    "unat b = 115200 \<longleftrightarrow> b = 115200" "unat b = 230400 \<longleftrightarrow> b = 230400" "unat b = 460800 \<longleftrightarrow> b = 460800" "unat b = 921600 \<longleftrightarrow> b = 921600"
    by (simp_all add: word_unat_eq_iff)
  show ?thesis by (auto simp: u baud_to_flag_def tty_speed_def baud_table_def)
qed

lemma tty_speed_masked: "tty_speed (f AND CBAUD) = tty_speed f"
  by (simp add: tty_speed_def CBAUD_def and.assoc)

lemma uart_termios_line: "line_is cfg (uart_termios cfg t)"
proof -
  let ?f = "c_cflag (uart_termios cfg t)"
  have "?f AND CBAUD = baud_to_flag (ua_baudrate cfg)"
    by (rule u32_eqI) (simp add: uart_flags upt_rec bit_simps uart_cflag_bits baud_bits)
  then have s: "tty_speed ?f = tty_speed (baud_to_flag (ua_baudrate cfg))" using tty_speed_masked [of ?f] by simp
  have i: "c_ispeed (uart_termios cfg t) = baud_to_flag (ua_baudrate cfg)" "c_ospeed (uart_termios cfg t) = baud_to_flag (ua_baudrate cfg)"
    "c_iflag (uart_termios cfg t) = 0" "c_oflag (uart_termios cfg t) = 0" "c_lflag (uart_termios cfg t) = 0"
    "c_cc (uart_termios cfg t) VMIN = 0" "c_cc (uart_termios cfg t) VTIME = 0"
    by (simp_all add: uart_termios_def Let_def cfsetospeed_def cfsetispeed_def VMIN_def VTIME_def)
  have "?f AND 0x30 = (if ua_databits cfg = TUYA_UART_DATA_LEN_7BIT then 0x20 else 0x30)"
    by (rule u32_eqI) (simp add: uart_flags upt_rec bit_simps uart_cflag_bits)
  then have w: "tty_word_length ?f = (if ua_databits cfg = TUYA_UART_DATA_LEN_7BIT then 7 else 8)" by (simp add: tty_word_length_def)
  have c: "?f AND 0x880 = 0x880"
    by (rule u32_eqI) (simp add: uart_flags upt_rec bit_simps uart_cflag_bits)
  have p: "tty_parity ?f = ua_parity cfg" "tty_stop_bits ?f = (if ua_stopbits cfg = TUYA_UART_STOP_LEN_2BIT then 2 else 1)"
    unfolding tty_bits by (cases "ua_parity cfg"; simp add: uart_cflag_bits)+
  show ?thesis unfolding line_is_def Let_def s i w p c baud_to_flag_speed by simp
qed

text \<open>
  C23: Opening a port as a terminal.  A successful \<open>tkl_uart_init\<close> has given the terminal, and the kernel has
  accepted, raw settings that the kernel reads as the speed, word length, parity and stop bits of the
  configuration, with these exceptions: word lengths of 5 and 6 bits become 8, one and a half stop bits one, and
  speeds other than 9600, 19200, 38400, 57600, 115200, 230400, 460800 and 921600 become 115200.  The flow control of the
  configuration is not looked at.  Then the port holds the descriptor, which is open.  Every
  failure leaves the ports as they were and closes what was opened.
\<close>

theorem uart_opens_configured:
  assumes "run_state (tkl_uart_init False os port_id (Some cfg)) s = (r, s')" "length (m_dev s) = 3"
    and port: "port = TUYA_UART_GET_PORT_NUMBER port_id" "port < 3"
  shows "\<exists>l. m_log s' = l @ m_log s \<and>
    (if r = Some (U_Ret OPRT_OK)
     then \<exists>f t rep. (Open (g_uart_devname ! port), f) \<in> set l \<and> 0 \<le> sr_rc f \<and> (Tcsetattr (sr_rc f) t, rep) \<in> set l \<and> sr_rc rep = 0 \<and>
            line_is cfg t \<and> ud_fd (m_dev s' ! port) = sr_rc f \<and> (\<forall>x c. (Close x, c) \<notin> set l)
     else r = Some (U_Ret OPRT_COM_ERROR) \<and> m_dev s' = m_dev s \<and>
          (\<forall>p f. (Open p, f) \<in> set l \<and> 0 \<le> sr_rc f \<longrightarrow> (\<exists>c. (Close (sr_rc f), c) \<in> set l)))"
proof -
  let ?n = "g_uart_devname ! port"
  obtain f w1 where 1: "os (m_os s) (Open ?n) = (f, w1)" by (metis surj_pair)
  obtain x w2 where 2: "os w1 (Fcntl (sr_rc f)) = (x, w2)" by (metis surj_pair)
  obtain g w3 where 3: "os w2 (Tcgetattr (sr_rc f)) = (g, w3)" by (metis surj_pair)
  let ?t = "uart_termios cfg (sr_tio g)"
  obtain h w4 where 4: "os w3 (Tcsetattr (sr_rc f) ?t) = (h, w4)" by (metis surj_pair)
  have len: "port < length g_uart_devname" using port(2) by (simp add: g_uart_devname_def)
  note run = tkl_uart_init_def init_tty_def configure_uart_def run_syscall start_handler_def set_dev_def upd_uart_def
  consider (noopen) "sr_rc f < 0" | (noget) "0 \<le> sr_rc f" "sr_rc g \<noteq> 0" | (noset) "0 \<le> sr_rc f" "sr_rc g = 0" "sr_rc h \<noteq> 0"
    | (ok) "0 \<le> sr_rc f" "sr_rc g = 0" "sr_rc h = 0" by linarith
  then show ?thesis
  proof cases
    case noopen
    then show ?thesis using assms(1) port len 1 by (intro exI [of _ "[(Open ?n, f)]"]) (auto simp: run Let_def)
  next
    case noget
    obtain c w where "os w3 (Close (sr_rc f)) = (c, w)" by (metis surj_pair)
    then show ?thesis using noget assms(1) port len 1 2 3
      by (intro exI [of _ "[(Close (sr_rc f), c), (Tcgetattr (sr_rc f), g), (Fcntl (sr_rc f), x), (Open ?n, f)]"]) (auto simp: run Let_def)
  next
    case noset
    obtain c w where "os w4 (Close (sr_rc f)) = (c, w)" by (metis surj_pair)
    then show ?thesis using noset assms(1) port len 1 2 3 4
      by (intro exI [of _ "[(Close (sr_rc f), c), (Tcsetattr (sr_rc f) ?t, h), (Tcgetattr (sr_rc f), g), (Fcntl (sr_rc f), x), (Open ?n, f)]"])
        (auto simp: run Let_def)
  next
    case ok
    obtain c w where "os w4 (Thread_Create 2) = (c, w)" by (metis surj_pair)
    then have r: "r = Some (U_Ret OPRT_OK)" "ud_fd (m_dev s' ! port) = sr_rc f"
      and l: "m_log s' = [(Thread_Create 2, c), (Tcsetattr (sr_rc f) ?t, h), (Tcgetattr (sr_rc f), g), (Fcntl (sr_rc f), x), (Open ?n, f)] @ m_log s"
      using ok assms(1,2) port len 1 2 3 4 by (auto simp: run Let_def)
    show ?thesis unfolding l r(1) using ok r(2) uart_termios_line [of cfg "sr_tio g"]
      by (intro exI [of _ "[(Thread_Create 2, c), (Tcsetattr (sr_rc f) ?t, h), (Tcgetattr (sr_rc f), g), (Fcntl (sr_rc f), x), (Open ?n, f)]"]) auto
  qed
qed

section \<open>Received bytes\<close>

text \<open>A callback that reads one byte from the port it is told.\<close>

definition reader :: "bool \<Rightarrow> 'w kernel \<Rightarrow> nat \<Rightarrow> nat \<Rightarrow> ('w, uart_devs, (int \<times> bytes) option) prog" where
  "reader redirect os c port = tkl_uart_read redirect os (of_nat port) 1"

lemma port_number_small:
  assumes "n < 65536"
  shows "TUYA_UART_GET_PORT_NUMBER (of_nat n) = n"
proof -
  have m: "(0xFFFF :: u32) = mask 16" by (simp add: mask_eq_exp_minus_1)
  have "unat (take_bit 16 (of_nat n :: u32)) = n"
    using assms by (simp add: unsigned_take_bit_eq unat_of_nat take_bit_nat_eq_self)
  then show ?thesis
    unfolding TUYA_UART_GET_PORT_NUMBER_def m by (simp add: take_bit_eq_mask [symmetric] take_bit_nat_eq_self)
qed

lemma udp_loop_reads:
  assumes "1 < length (m_dev s)" "ud_rx_cb (m_dev s ! 1) \<noteq> 0" "n \<le> length (ud_readbuff (m_dev s ! 1))"
  shows "\<exists>s'. run_state (udp_loop (reader True os) 1 (int n) i) s = (map (\<lambda>b. Some (1, [b])) (drop i (take n (ud_readbuff (m_dev s ! 1)))), s')"
  using assms
proof (induction "n - i" arbitrary: i s)
  case 0
  then show ?case by (subst udp_loop.simps) simp
next
  case (Suc k)
  let ?u = "\<lambda>u. u\<lparr>ud_readchar := ud_readbuff u ! i\<rparr>"
  let ?s = "s\<lparr>m_dev := upd_uart 1 ?u (m_dev s)\<rparr>"
  have i: "i < n" "k = n - Suc i" using Suc.hyps(2) by auto
  have d: "m_dev ?s ! 1 = ?u (m_dev s ! 1)" "length (m_dev ?s) = length (m_dev s)" using Suc.prems(1) by (simp_all add: upd_uart_def)
  have r: "run_state (reader True os c 1) ?s = (Some (1, [ud_readbuff (m_dev s ! 1) ! i]), ?s)" for c
    using d by (simp add: reader_def tkl_uart_read_def port_number_small [of 1, simplified] dev_def Let_def)
  obtain s' where IH: "run_state (udp_loop (reader True os) 1 (int n) (Suc i)) ?s =
      (map (\<lambda>b. Some (1, [b])) (drop (Suc i) (take n (ud_readbuff (m_dev s ! 1)))), s')"
    using Suc.hyps(1) [OF i(2), of ?s] Suc.prems d by auto
  have "drop i (take n (ud_readbuff (m_dev s ! 1))) = ud_readbuff (m_dev s ! 1) ! i # drop (Suc i) (take n (ud_readbuff (m_dev s ! 1)))"
    using i(1) Suc.prems(3) by (simp add: Cons_nth_drop_Suc [symmetric])
  then show ?case using i(1) Suc.prems(2) d r IH
    by (subst udp_loop.simps) (simp add: set_dev_def dev_def)
qed

text \<open>
  Every byte of a datagram is handed over exactly once and in order: when port 1 of the redirected build
  has a callback that reads a byte from the port it is told, the calls made for a datagram of up to 1024 bytes return its
  bytes one after the other.
\<close>

theorem uart_datagram_delivered:
  assumes "length (m_dev s) = 3" "ud_rx_cb (m_dev s ! 1) \<noteq> 0" "length (ud_readbuff (m_dev s ! 1)) = 1024"
    and "os (m_os s) (Select (ud_fd (m_dev s ! 1))) = (sel, w1)" "sr_fd sel \<noteq> 0"
    and "os w1 (Recvfrom (ud_fd (m_dev s ! 1)) 1024) = (m, w2)" "sr_rc m = int (length (sr_data m))" "length (sr_data m) \<le> 1024"
  shows "fst (run_state (udp_irq_handler os (reader True os) 1) s) = map (\<lambda>b. Some (1, [b])) (sr_data m)"
proof -
  let ?u = "\<lambda>u. u\<lparr>ud_readbuff := store_into (ud_readbuff u) (sr_data m)\<rparr>"
  let ?s = "s\<lparr>m_os := w2, m_log := [(Recvfrom (ud_fd (m_dev s ! 1)) 1024, m), (Select (ud_fd (m_dev s ! 1)), sel)] @ m_log s,
      m_dev := upd_uart 1 ?u (m_dev s)\<rparr>"
  have d: "m_dev ?s ! 1 = ?u (m_dev s ! 1)" "length (m_dev ?s) = 3" using assms(1) by (simp_all add: upd_uart_def)
  have b: "take (length (sr_data m)) (ud_readbuff (m_dev ?s ! 1)) = sr_data m" "length (ud_readbuff (m_dev ?s ! 1)) = 1024"
    using d(1) assms(3,8) by (simp_all add: store_into_def)
  from udp_loop_reads [of ?s "length (sr_data m)" os 0] obtain s' where
    "run_state (udp_loop (reader True os) 1 (int (length (sr_data m))) 0) ?s = (map (\<lambda>b. Some (1, [b])) (sr_data m), s')"
    using b d assms(2,8) by auto
  then show ?thesis using assms(4-7) by (simp add: udp_irq_handler_def run_syscall dev_def set_dev_def)
qed

text \<open>
  The input thread of a terminal port reports port 0, whatever port has input: a callback that reads from
  the port it is told reads from the terminal of port 0, and the input of the other ports is not read.
\<close>

theorem uart_input_reported_as_port_0:
  assumes "length (m_dev s) = 3" "port < 3" "ud_rx_cb (m_dev s ! port) \<noteq> 0"
    and "os (m_os s) (Select (ud_fd (m_dev s ! port))) = (sel, w1)" "sr_fd sel \<noteq> 0"
    and "run_state (uart_irq_handler os (reader False os) port) s = (xs, s')"
  shows "\<exists>r. m_log s' = (Read (ud_fd (m_dev s ! 0)) 1, r) # (Select (ud_fd (m_dev s ! port)), sel) # m_log s \<and> xs = [Some (sr_rc r, sr_data r)]"
proof -
  have "m_dev s \<noteq> []" using assms(1) by auto
  then show ?thesis using assms
    by (auto simp: uart_irq_handler_def irq_handler_def reader_def tkl_uart_read_def run_syscall dev_def Let_def port_number_small [of 0, simplified])
qed

section \<open>Examples\<close>

definition uart_cfg :: TUYA_UART_BASE_CFG_T where
  "uart_cfg = \<lparr>ua_baudrate = 9600, ua_parity = TUYA_UART_PARITY_TYPE_EVEN, ua_databits = TUYA_UART_DATA_LEN_8BIT,
     ua_stopbits = TUYA_UART_STOP_LEN_1BIT, ua_flowctrl = TUYA_UART_FLOWCTRL_NONE\<rparr>"

text \<open>A kernel that opens every terminal, finds every descriptor ready and delivers three bytes.\<close>

definition uart_kernel :: "unit kernel" where
  "uart_kernel w c = (case c of
      Open p \<Rightarrow> (reply 5 0 [], w)
    | Select fd \<Rightarrow> (reply 1 1 [], w)
    | Recvfrom fd n \<Rightarrow> (reply 3 0 [10, 20, 30], w)
    | Read fd n \<Rightarrow> (reply 1 0 [7], w)
    | _ \<Rightarrow> (reply 0 0 [], w))"

abbreviation uart_boot :: "(unit, uart_devs) machine" where
  "uart_boot \<equiv> \<lparr>m_os = (), m_log = [], m_dev = uart_start[1 := (uart_start ! 1)\<lparr>ud_fd := 4, ud_rx_cb := 9\<rparr>]\<rparr>"

theorem uart_opens_configured_witness:
  "\<exists>s' t rep. run_state (tkl_uart_init False uart_kernel 2 (Some uart_cfg)) uart_boot = (Some (U_Ret OPRT_OK), s') \<and>
     (Tcsetattr 5 t, rep) \<in> set (m_log s') \<and> line_is uart_cfg t \<and> ud_fd (m_dev s' ! 2) = 5"
proof -
  obtain r s' where r: "run_state (tkl_uart_init False uart_kernel 2 (Some uart_cfg)) uart_boot = (r, s')" by (metis surj_pair)
  have p: "2 = TUYA_UART_GET_PORT_NUMBER 2" using port_number_small [of 2] by simp
  have ok: "r = Some (U_Ret OPRT_OK) \<and> ud_fd (m_dev s' ! 2) = 5" using r
    by (auto simp: tkl_uart_init_def init_tty_def configure_uart_def run_syscall start_handler_def set_dev_def upd_uart_def
        p [symmetric] uart_kernel_def g_uart_devname_def uart_start_def)
  have "length (m_dev uart_boot) = 3" by (simp add: uart_start_def)
  from uart_opens_configured [OF r this p] ok r show ?thesis by fastforce
qed

theorem uart_datagram_delivered_witness:
  "fst (run_state (udp_irq_handler uart_kernel (reader True uart_kernel) 1) uart_boot) = [Some (1, [10]), Some (1, [20]), Some (1, [30])]"
  using uart_datagram_delivered [of uart_boot uart_kernel "reply 1 1 []" "()" "reply 3 0 [10, 20, 30]" "()"]
  by (simp add: uart_start_def uart_kernel_def)

theorem uart_input_reported_as_port_0_witness:
  "\<exists>xs s' r. run_state (uart_irq_handler uart_kernel (reader False uart_kernel) 1) uart_boot = (xs, s') \<and> fst (hd (m_log s')) = Read 0 1"
proof -
  obtain xs s' where r: "run_state (uart_irq_handler uart_kernel (reader False uart_kernel) 1) uart_boot = (xs, s')" by (metis surj_pair)
  from uart_input_reported_as_port_0 [OF _ _ _ _ _ r, of "reply 1 1 []" "()"] r show ?thesis
    by (auto simp: uart_start_def uart_kernel_def)
qed

end
