(* ===== verification/C_Text.thy ===== *)
theory C_Text
  imports Tuya_Prelude
begin

text \<open>
  What the sources use of the C library on text: strings in character arrays, \<open>strstr\<close> and \<open>strncmp\<close>, decimal
  output, \<open>atoi\<close> and the conversions of \<open>sscanf\<close>.  An array is the list of all its characters; a string is what
  stands before the first zero character.  \<open>None\<close> is an access outside an array or another use that the C
  standard leaves undefined.
\<close>

section \<open>Strings in arrays\<close>

abbreviation nul :: char where "nul \<equiv> CHR 0x00"

definition cstr :: "char list \<Rightarrow> string option" where
  "cstr arr = (if nul \<in> set arr then Some (takeWhile (\<lambda>c. c \<noteq> nul) arr) else None)"

text \<open>Storing a string with its terminator.\<close>

definition put_str :: "char list \<Rightarrow> string \<Rightarrow> char list option" where
  "put_str arr s = (if length s < length arr then Some (s @ nul # drop (Suc (length s)) arr) else None)"

definition fits :: "nat \<Rightarrow> string \<Rightarrow> string option" where
  "fits cap s = (if length s < cap then Some s else None)"

lemma fits_Some [simp]: "fits cap s = Some t \<longleftrightarrow> t = s \<and> length s < cap"
  by (auto simp: fits_def)

lemma takeWhile_nul [simp]: "nul \<notin> set s \<Longrightarrow> takeWhile (\<lambda>c. c \<noteq> nul) (s @ nul # r) = s"
  by (induction s) auto

lemma cstr_put_str: "put_str arr s = Some arr' \<Longrightarrow> nul \<notin> set s \<Longrightarrow> cstr arr' = Some s \<and> length arr' = length arr"
  by (auto simp: put_str_def cstr_def split: if_splits)

lemma cstr_append [simp]: "nul \<notin> set t \<Longrightarrow> cstr (t @ nul # r) = Some t"
  by (auto simp: cstr_def)

text \<open>\<open>strncmp(s, p, strlen(p)) == 0\<close> and \<open>strstr(s, p) != NULL\<close>.\<close>

definition starts :: "string \<Rightarrow> string \<Rightarrow> bool" where
  "starts p s \<longleftrightarrow> take (length p) s = p"

fun strstr :: "string \<Rightarrow> string \<Rightarrow> bool" where
  "strstr [] p \<longleftrightarrow> p = []"
| "strstr (c # s) p \<longleftrightarrow> starts p (c # s) \<or> strstr s p"

lemma strstr_iff: "strstr s p \<longleftrightarrow> (\<exists>a b. s = a @ p @ b)"
proof (induction s)
  case (Cons c s)
  have "starts p (c # s) \<longleftrightarrow> (\<exists>b. c # s = p @ b)"
    by (auto simp: starts_def) (metis append_take_drop_id)
  moreover have "(\<exists>a b. c # s = a @ p @ b) \<longleftrightarrow> (\<exists>b. c # s = p @ b) \<or> (\<exists>a b. s = a @ p @ b)"
    by (metis Cons_eq_append_conv append_Cons append_Nil)
  ultimately show ?case using Cons.IH by auto
qed auto

section \<open>Numbers\<close>

text \<open>\<open>printf\<close> with \<open>%d\<close>.\<close>

definition int_text :: "int \<Rightarrow> string" where
  "int_text i = (if i < 0 then CHR ''-'' # dec_digits (nat (- i)) else dec_digits (nat i))"

definition INT_MIN :: int where "INT_MIN = - (2 ^ 31)"
definition INT_MAX :: int where "INT_MAX = 2 ^ 31 - 1"

definition digit :: "char \<Rightarrow> bool" where
  "digit c \<longleftrightarrow> 48 \<le> (of_char c :: nat) \<and> (of_char c :: nat) \<le> 57"

definition digits_value :: "string \<Rightarrow> nat" where
  "digits_value ds = foldl (\<lambda>v c. 10 * v + (of_char c - 48)) 0 ds"

lemma digits_value_snoc [simp]: "digits_value (ds @ [c]) = 10 * digits_value ds + (of_char c - 48)"
  by (simp add: digits_value_def)

lemma of_char_digit: "k < 10 \<Longrightarrow> of_char (char_of (48 + k) :: char) = (48 + k :: nat)"
  by simp

lemma dec_digits_value: "(\<forall>c \<in> set (dec_digits n). digit c) \<and> dec_digits n \<noteq> [] \<and> digits_value (dec_digits n) = n"
proof (induction n rule: dec_digits.induct)
  case (1 n)
  show ?case
  proof (cases "n < 10")
    case True
    then show ?thesis
      by (subst (1 2 3) dec_digits.simps) (simp add: digit_def digits_value_def)
  next
    case False
    then show ?thesis using 1
      by (subst (1 2 3) dec_digits.simps) (auto simp: digit_def)
  qed
qed

lemma dec_digits_length: "n < 10 ^ Suc k \<Longrightarrow> length (dec_digits n) \<le> Suc k"
proof (induction k arbitrary: n)
  case 0
  then show ?case by (subst dec_digits.simps) simp
next
  case (Suc k)
  have "n div 10 < 10 ^ Suc k" using Suc.prems by (simp add: div_less_iff_less_mult)
  from Suc.IH [OF this] show ?case by (subst dec_digits.simps) simp
qed

lemma int_text_length:
  assumes "INT_MIN \<le> i" "i \<le> INT_MAX"
  shows "length (int_text i) \<le> 11"
proof -
  have "nat i < 10 ^ Suc 9" "nat (- i) < 10 ^ Suc 9" using assms by (simp_all add: INT_MIN_def INT_MAX_def nat_less_iff)
  from this [THEN dec_digits_length] show ?thesis by (auto simp: int_text_def)
qed

section \<open>Conversions of \<open>sscanf\<close>\<close>

text \<open>Each conversion reads from the front: a value and the rest, a mismatch that ends the call, or a value that the type cannot hold.\<close>

datatype 'a scan = Match 'a string | Mismatch | Undefined

definition isspace :: "char \<Rightarrow> bool" where
  "isspace c \<longleftrightarrow> c = CHR '' '' \<or> 9 \<le> (of_char c :: nat) \<and> (of_char c :: nat) \<le> 13"

definition skip_ws :: "string \<Rightarrow> string" where
  "skip_ws = dropWhile isspace"

definition sign_of :: "string \<Rightarrow> bool \<times> string" where
  "sign_of s = (case s of [] \<Rightarrow> (False, []) | c # r \<Rightarrow> if c = CHR ''-'' then (True, r) else if c = CHR ''+'' then (False, r) else (False, s))"

definition scan_d :: "string \<Rightarrow> int scan" where
  "scan_d s = (let (neg, r) = sign_of (skip_ws s); ds = takeWhile digit r;
                   v = (if neg then - int (digits_value ds) else int (digits_value ds))
               in if ds = [] then Mismatch
                  else if INT_MIN \<le> v \<and> v \<le> INT_MAX then Match v (dropWhile digit r) else Undefined)"

definition scan_s :: "string \<Rightarrow> string scan" where
  "scan_s s = (let r = skip_ws s; t = takeWhile (\<lambda>c. \<not> isspace c) r
               in if t = [] then Mismatch else Match t (dropWhile (\<lambda>c. \<not> isspace c) r))"

text \<open>\<open>%[^\n]\<close>.\<close>

definition scan_line :: "string \<Rightarrow> string scan" where
  "scan_line s = (let t = takeWhile (\<lambda>c. c \<noteq> CHR 0x0A) s in if t = [] then Mismatch else Match t (dropWhile (\<lambda>c. c \<noteq> CHR 0x0A) s))"

definition xdigit :: "char \<Rightarrow> nat option" where
  "xdigit c = (let n = of_char c in
     if 48 \<le> n \<and> n \<le> 57 then Some (n - 48)
     else if 97 \<le> n \<and> n \<le> 102 then Some (n - 87)
     else if 65 \<le> n \<and> n \<le> 70 then Some (n - 55) else None)"

text \<open>\<open>%02x\<close>: at most two characters, the sign and the prefix \<open>0x\<close> counted.\<close>

definition scan_x2 :: "string \<Rightarrow> int scan" where
  "scan_x2 s = (case skip_ws s of
     [] \<Rightarrow> Mismatch
   | c # r \<Rightarrow>
       if c = CHR ''-'' \<or> c = CHR ''+''
       then (case r of [] \<Rightarrow> Mismatch
             | d # r' \<Rightarrow> (case xdigit d of None \<Rightarrow> Mismatch | Some v \<Rightarrow> Match (if c = CHR ''-'' then - int v else int v) r'))
       else (case xdigit c of
               None \<Rightarrow> Mismatch
             | Some h \<Rightarrow> (case r of [] \<Rightarrow> Match (int h) []
                 | d # r' \<Rightarrow> if c = CHR ''0'' \<and> (d = CHR ''x'' \<or> d = CHR ''X'') then Mismatch
                     else (case xdigit d of None \<Rightarrow> Match (int h) r | Some v \<Rightarrow> Match (int (16 * h + v)) r'))))"

text \<open>A character of the format that stands for itself.\<close>

definition scan_lit :: "char \<Rightarrow> string \<Rightarrow> unit scan" where
  "scan_lit c s = (case s of [] \<Rightarrow> Mismatch | d # r \<Rightarrow> if d = c then Match () r else Mismatch)"

text \<open>One conversion of a call: what it stores, and the rest of the call if it matched.\<close>

definition conv :: "'a scan \<Rightarrow> ('a \<Rightarrow> 's option) \<Rightarrow> 's \<Rightarrow> ('s \<Rightarrow> string \<Rightarrow> 's option) \<Rightarrow> 's option" where
  "conv sc store s rest = (case sc of Undefined \<Rightarrow> None | Mismatch \<Rightarrow> Some s | Match v r \<Rightarrow> Option.bind (store v) (\<lambda>s'. rest s' r))"

lemma conv_simps [simp]:
  "conv (Match v r) store s rest = Option.bind (store v) (\<lambda>s'. rest s' r)"
  "conv Mismatch store s rest = Some s"
  "conv Undefined store s rest = None"
  by (simp_all add: conv_def)

text \<open>\<open>atoi\<close>: 0 if no number stands at the front.\<close>

definition atoi :: "string \<Rightarrow> int option" where
  "atoi s = (case scan_d s of Match v _ \<Rightarrow> Some v | Mismatch \<Rightarrow> Some 0 | Undefined \<Rightarrow> None)"

lemma digit_not_sign: "digit c \<Longrightarrow> c \<noteq> CHR ''-'' \<and> c \<noteq> CHR ''+'' \<and> \<not> isspace c"
  by (auto simp: digit_def isspace_def)

text \<open>Reading back a printed number.\<close>

lemma scan_d_int_text:
  assumes "INT_MIN \<le> i" "i \<le> INT_MAX" "r = [] \<or> \<not> digit (hd r)"
  shows "scan_d (int_text i @ r) = Match i r"
proof -
  have stop: "takeWhile digit (dec_digits n @ r) = dec_digits n \<and> dropWhile digit (dec_digits n @ r) = r" for n
    using dec_digits_value [of n] assms(3)
    by (cases r) (auto simp: takeWhile_append2 dropWhile_append2 takeWhile_eq_all_conv)
  show ?thesis
  proof (cases "i < 0")
    case True
    then show ?thesis using stop [of "nat (- i)"] assms dec_digits_value [of "nat (- i)"]
      by (simp add: scan_d_def int_text_def skip_ws_def isspace_def sign_of_def Let_def)
  next
    case False
    have "sign_of (skip_ws (dec_digits (nat i) @ r)) = (False, dec_digits (nat i) @ r)"
      using dec_digits_value [of "nat i"] digit_not_sign
      by (cases "dec_digits (nat i)") (auto simp: skip_ws_def sign_of_def)
    then show ?thesis using False stop [of "nat i"] assms dec_digits_value [of "nat i"]
      by (simp add: scan_d_def int_text_def Let_def)
  qed
qed

lemma scan_s_token:
  assumes "t \<noteq> []" "\<forall>c \<in> set t. \<not> isspace c" "r = [] \<or> isspace (hd r)"
  shows "scan_s (t @ r) = Match t r"
proof -
  have "skip_ws (t @ r) = t @ r" using assms(1,2) by (cases t) (auto simp: skip_ws_def)
  moreover have "takeWhile (\<lambda>c. \<not> isspace c) (t @ r) = t" "dropWhile (\<lambda>c. \<not> isspace c) (t @ r) = r"
    using assms(2,3) by (cases r; auto simp: takeWhile_append2 dropWhile_append2)+
  ultimately show ?thesis using assms(1) by (simp add: scan_s_def Let_def)
qed

section \<open>Hexadecimal digits\<close>

definition hex_char :: "nat \<Rightarrow> char" where
  "hex_char n = (if n < 10 then char_of (48 + n) else char_of (87 + n))"

text \<open>What a hexadecimal digit is not.\<close>

definition plain_hex :: "nat \<Rightarrow> bool" where
  "plain_hex n \<longleftrightarrow> xdigit (hex_char n) = Some n \<and> \<not> isspace (hex_char n) \<and>
     hex_char n \<notin> set [nul, CHR ''-'', CHR ''+'', CHR ''x'', CHR ''X'']"

lemma plain_hex_table: "list_all plain_hex [0, 1, 2, 3, 4, 5, 6, 7, 8, 9, 10, 11, 12, 13, 14, 15]"
  by code_simp

lemma plain_hex: "n < 16 \<Longrightarrow> plain_hex n"
proof -
  assume "n < 16"
  then have "n \<in> set [0, 1, 2, 3, 4, 5, 6, 7, 8, 9, 10, 11, 12, 13, 14, 15]" by simp presburger
  then show ?thesis using plain_hex_table by (simp only: list_all_iff)
qed

lemma hex_char_facts:
  assumes "n < 16"
  shows "xdigit (hex_char n) = Some n" "\<not> isspace (hex_char n)" "hex_char n \<noteq> nul"
    "hex_char n \<noteq> CHR ''-''" "hex_char n \<noteq> CHR ''+''" "hex_char n \<noteq> CHR ''x''" "hex_char n \<noteq> CHR ''X''"
  using plain_hex [OF assms] by (simp_all add: plain_hex_def)

lemma unat_div_16 [simp]: "unat (b :: u8) div 16 < 16"
  by (rule less_mult_imp_div_less) simp

lemmas byte_hex_facts [simp] = hex_char_facts [OF unat_div_16] hex_char_facts [of "unat b mod 16" for b :: u8, simplified]

end
