(* ===== verification/Wpa_Reply.thy ===== *)
theory Wpa_Reply
  imports C_Text "HOL-Library.Signed_Division"
begin

text \<open>
  The reader of replies in \<open>tkl_wifi/wpa_s/wpa_command.c\<close>: the lines of the text that the supplicant sends, the
  fields in them, the list of networks of a scan and the answers to the other commands.  The reply is the
  whole array of characters, so that reading past its end shows; the array \<open>line\<close> keeps what earlier lines
  left in it.  Arrays that the code only uses as strings are strings, and the sizes of the arrays are in the
  stores (\<open>fits\<close>).
\<close>

section \<open>Lines\<close>

definition eol :: "char \<Rightarrow> bool" where
  "eol c \<longleftrightarrow> c = CHR 0x0A \<or> c = CHR 0x0D"

datatype line_res = No_Line | Line string | Bad

function skip_eol :: "char list \<Rightarrow> nat \<Rightarrow> nat option" where
  "skip_eol buf j =
     (if j < length buf then (if buf ! j \<noteq> nul \<and> eol (buf ! j) then skip_eol buf (Suc j) else Some j) else None)"
  by pat_completeness auto
termination by (relation "measure (\<lambda>(buf, j). length buf - j)") auto

declare skip_eol.simps [simp del]

lemma skip_eol_ge: "skip_eol buf k = Some j \<Longrightarrow> k \<le> j \<and> j < length buf"
  by (induction buf k rule: skip_eol.induct) (subst (asm) (2) skip_eol.simps, auto split: if_splits)

text \<open>The loop, from position \<open>i\<close>, with the start of the current line and the number of the last line ended; \<open>cap\<close> is the size of \<open>line\<close>.\<close>

function line_loop :: "nat \<Rightarrow> int \<Rightarrow> char list \<Rightarrow> nat \<Rightarrow> nat \<Rightarrow> int \<Rightarrow> line_res" where
  "line_loop cap index buf i linestart endcnt =
     (if i < length buf
      then let c = buf ! i in
        if eol c \<or> c = nul
        then (if index = endcnt + 1
              then (if i - linestart < cap then Line (take (i - linestart) (drop linestart buf)) else Bad)
              else case skip_eol buf (Suc i) of
                     None \<Rightarrow> Bad
                   | Some j \<Rightarrow> if buf ! j = nul then No_Line else line_loop cap index buf (Suc j) j (endcnt + 1))
        else line_loop cap index buf (Suc i) linestart endcnt
      else Bad)"
  by pat_completeness auto
termination
  by (relation "measure (\<lambda>(cap, index, buf, i, linestart, endcnt). length buf - i)") (auto dest: skip_eol_ge)

declare line_loop.simps [simp del]

definition get_line_from_buf :: "nat \<Rightarrow> int \<Rightarrow> char list \<Rightarrow> line_res" where
  "get_line_from_buf cap index buf = line_loop cap index buf 0 0 (-1)"

text \<open>A line that was found has a number within the length of the buffer.\<close>

lemma line_loop_Line:
  assumes "line_loop cap index buf i st e = Line l"
  shows "i < length buf \<and> (index = e + 1 \<or> line_loop cap index buf (Suc i) st e = Line l \<or>
    (\<exists>j. i < j \<and> j < length buf \<and> line_loop cap index buf (Suc j) j (e + 1) = Line l))"
  using assms by (subst (asm) line_loop.simps) (fastforce simp: Let_def Suc_le_eq dest: skip_eol_ge split: option.splits if_splits)

lemma line_loop_bound: "line_loop cap index buf i st e = Line l \<Longrightarrow> index - e \<le> int (length buf - i)"
proof (induction "length buf - i" arbitrary: i st e rule: less_induct)
  case less
  from line_loop_Line [OF less.prems] have i: "i < length buf" by blast
  consider "index = e + 1" | "line_loop cap index buf (Suc i) st e = Line l"
    | j where "i < j" "j < length buf" "line_loop cap index buf (Suc j) j (e + 1) = Line l"
    using line_loop_Line [OF less.prems] by blast
  then show ?case
  proof cases
    case 2
    have "index - e \<le> int (length buf - Suc i)" by (rule less.hyps [OF _ 2]) (use i in simp)
    then show ?thesis using i by simp
  next
    case (3 j)
    have "index - (e + 1) \<le> int (length buf - Suc j)" by (rule less.hyps [OF _ 3(3)]) (use 3 i in simp)
    then show ?thesis using 3(1,2) i by simp
  qed (use i in simp)
qed

lemma get_line_bound: "get_line_from_buf cap index buf = Line l \<Longrightarrow> index < int (length buf)"
  unfolding get_line_from_buf_def by (drule line_loop_bound) simp

text \<open>
  A loop over the lines from number \<open>i\<close> on: its body goes on to the next line, leaves the loop, or uses memory
  that it may not.
\<close>

datatype 's flow = Next 's | Leave 's | Fault

function each_line :: "(char list \<Rightarrow> 's \<Rightarrow> 's flow) \<Rightarrow> char list \<Rightarrow> int \<Rightarrow> char list \<Rightarrow> 's \<Rightarrow> 's flow" where
  "each_line body reply i line s =
     (case get_line_from_buf (length line) i reply of
        Bad \<Rightarrow> Fault
      | No_Line \<Rightarrow> Next s
      | Line l \<Rightarrow> let line' = l @ nul # drop (Suc (length l)) line in
          (case body line' s of
             Next s' \<Rightarrow> each_line body reply (i + 1) line' s'
           | Leave s' \<Rightarrow> Leave s'
           | Fault \<Rightarrow> Fault))"
  by pat_completeness auto
termination
  by (relation "measure (\<lambda>(body, reply, i, line, s). nat (int (length reply) - i))") (auto dest: get_line_bound)

declare each_line.simps [simp del]

text \<open>The string in \<open>line\<close>, which always holds a terminator.\<close>

abbreviation text_of :: "char list \<Rightarrow> string" where
  "text_of \<equiv> takeWhile (\<lambda>c. c \<noteq> nul)"

fun finish :: "'s flow \<Rightarrow> 's option" where
  "finish (Next s) = Some s"
| "finish (Leave s) = Some s"
| "finish Fault = None"

fun flow_of :: "'s option \<Rightarrow> 's flow" where
  "flow_of (Some s) = Next s"
| "flow_of None = Fault"

section \<open>The list of networks\<close>

datatype WIFI_KEY = WIFI_KEY_WPA2PSK | WIFI_KEY_WPAPSK | WIFI_KEY_WEP | WIFI_KEY_NONE | WIFI_KEY_OTHER

record wifi_scan_res =
  mac_addr :: string
  freq :: int
  sig :: int
  key_mgmt :: WIFI_KEY
  ssid :: string

definition zero_scan_res :: wifi_scan_res where
  "zero_scan_res = \<lparr> mac_addr = [], freq = 0, sig = 0, key_mgmt = WIFI_KEY_WPA2PSK, ssid = [] \<rparr>"

text \<open>The first \<open>num\<close> elements of the array, and the size of the array.\<close>

record wifi_scan_list =
  nets :: "wifi_scan_res list"
  room :: nat

fun reduce_loop :: "wifi_scan_res list \<Rightarrow> wifi_scan_res \<Rightarrow> wifi_scan_res list" where
  "reduce_loop [] res = [res]"
| "reduce_loop (e # es) res =
     (if ssid e = ssid res \<and> key_mgmt e = key_mgmt res then (if sig e < sig res then res else e) # es
      else e # reduce_loop es res)"

definition wpa_reduce_repeat_ssid :: "wifi_scan_list \<Rightarrow> wifi_scan_res \<Rightarrow> wifi_scan_list option" where
  "wpa_reduce_repeat_ssid lst res =
     (let es = reduce_loop (nets lst) res in if length es \<le> room lst then Some (lst\<lparr>nets := es\<rparr>) else None)"

text \<open>\<open>sscanf(line, "%s\t%d\t%d\t%s\t%[^\n]s", ...)\<close>, on the structure \<open>ap\<close> and the array \<open>key_type\<close>.\<close>

definition scan_fields :: "string \<Rightarrow> wifi_scan_res \<times> string \<Rightarrow> (wifi_scan_res \<times> string) option" where
  "scan_fields line = (\<lambda>(ap, kt).
     conv (scan_s line) (\<lambda>v. map_option (\<lambda>m. (ap\<lparr>mac_addr := m\<rparr>, kt)) (fits 18 v)) (ap, kt) (\<lambda>(ap, kt) r.
     conv (scan_d (skip_ws r)) (\<lambda>v. Some (ap\<lparr>freq := v\<rparr>, kt)) (ap, kt) (\<lambda>(ap, kt) r.
     conv (scan_d (skip_ws r)) (\<lambda>v. Some (ap\<lparr>sig := v\<rparr>, kt)) (ap, kt) (\<lambda>(ap, kt) r.
     conv (scan_s (skip_ws r)) (\<lambda>v. map_option (\<lambda>k. (ap, k)) (fits 64 v)) (ap, kt) (\<lambda>(ap, kt) r.
     conv (scan_line (skip_ws r)) (\<lambda>v. map_option (\<lambda>n. (ap\<lparr>ssid := n\<rparr>, kt)) (fits 128 v)) (ap, kt) (\<lambda>s r. Some s))))))"

definition key_of :: "string \<Rightarrow> WIFI_KEY" where
  "key_of key_type =
     (if strstr key_type ''WPA2'' then WIFI_KEY_WPA2PSK
      else if strstr key_type ''WPA'' then WIFI_KEY_WPAPSK
      else if strstr key_type ''WEP'' then WIFI_KEY_WEP
      else if starts ''[ESS]'' key_type then WIFI_KEY_NONE
      else WIFI_KEY_OTHER)"

definition scan_r_line :: "string \<Rightarrow> (wifi_scan_res \<times> string) \<times> wifi_scan_list \<Rightarrow> ((wifi_scan_res \<times> string) \<times> wifi_scan_list) option" where
  "scan_r_line line = (\<lambda>(s, lst).
     Option.bind (scan_fields line s) (\<lambda>(ap, kt).
       let ap = ap\<lparr>key_mgmt := key_of kt\<rparr> in
       map_option (\<lambda>lst'. ((ap, kt), lst')) (wpa_reduce_repeat_ssid lst ap)))"

definition wpa_get_scan_r :: "char list \<Rightarrow> wifi_scan_list \<Rightarrow> wifi_scan_list option" where
  "wpa_get_scan_r reply lst =
     map_option snd (finish (each_line (\<lambda>line s. flow_of (scan_r_line (text_of line) s)) reply 1 (replicate 512 nul)
       ((zero_scan_res, []), lst)))"

section \<open>Answers to the commands\<close>

datatype WIFI_COMMAND =
    WIFI_COMMAND_SCAN
  | WIFI_COMMAND_ADDNETWORK
  | WIFI_COMMAND_SETNETWORK_SSID
  | WIFI_COMMAND_SETNETWORK_SCANSSID
  | WIFI_COMMAND_SETNETWORK_PSK
  | WIFI_COMMAND_SETNETWORK_KEYMETH
  | WIFI_COMMAND_SETNETWORK_AUTHALG
  | WIFI_COMMAND_SETNETWORK_WEPKEY0
  | WIFI_COMMAND_SETNETWORK_WEPTXKEYID
  | WIFI_COMMAND_ENABLENETWORK
  | WIFI_COMMAND_SELECTNETWORK
  | WIFI_COMMAND_RECONFIGURE
  | WIFI_COMMAND_REATTACH
  | WIFI_COMMAND_GET_STATUS
  | WIFI_COMMAND_GET_SIGNAL
  | WIFI_COMMAND_SAVECONFIG
  | WIFI_COMMAND_SCAN_R
  | WIFI_COMMAND_LISTNETWORK
  | WIFI_COMMAND_DISABLENETWORK
  | WIFI_COMMAND_GET_CHANNEL
  | WIFI_COMMAND_DISCONNECT
  | WIFI_COMMAND_RECONNCET
  | WIFI_COMMAND_REMOVENETWORK
  | WIFI_COMMAND_GET_CURRENT_SSID
  | WIFI_COMMAND_BLACKLIST_CLEAR
  | WIFI_COMMAND_GET_BSSID
  | WIFI_COMMAND_SET_COUNTRY
  | WIFI_COMMAND_GET_COUNTRY
  | WIFI_COMMAND_GET_WIFI_INFO

datatype WIFI_COMMAND_ACK = WIFI_COMMAND_ACK_INT | WIFI_COMMAND_ACK_OK | WIFI_COMMAND_ACK_STRING

definition wifi_command_pack_sum :: "(WIFI_COMMAND \<times> WIFI_COMMAND_ACK) list" where
  "wifi_command_pack_sum =
     [(WIFI_COMMAND_SCAN, WIFI_COMMAND_ACK_OK),
      (WIFI_COMMAND_ADDNETWORK, WIFI_COMMAND_ACK_INT),
      (WIFI_COMMAND_SETNETWORK_SSID, WIFI_COMMAND_ACK_OK),
      (WIFI_COMMAND_SETNETWORK_SCANSSID, WIFI_COMMAND_ACK_OK),
      (WIFI_COMMAND_SETNETWORK_PSK, WIFI_COMMAND_ACK_OK),
      (WIFI_COMMAND_SETNETWORK_KEYMETH, WIFI_COMMAND_ACK_OK),
      (WIFI_COMMAND_SETNETWORK_AUTHALG, WIFI_COMMAND_ACK_OK),
      (WIFI_COMMAND_SETNETWORK_WEPKEY0, WIFI_COMMAND_ACK_OK),
      (WIFI_COMMAND_SETNETWORK_WEPTXKEYID, WIFI_COMMAND_ACK_OK),
      (WIFI_COMMAND_ENABLENETWORK, WIFI_COMMAND_ACK_OK),
      (WIFI_COMMAND_SELECTNETWORK, WIFI_COMMAND_ACK_OK),
      (WIFI_COMMAND_RECONFIGURE, WIFI_COMMAND_ACK_OK),
      (WIFI_COMMAND_REATTACH, WIFI_COMMAND_ACK_OK),
      (WIFI_COMMAND_GET_STATUS, WIFI_COMMAND_ACK_INT),
      (WIFI_COMMAND_GET_SIGNAL, WIFI_COMMAND_ACK_INT),
      (WIFI_COMMAND_SAVECONFIG, WIFI_COMMAND_ACK_OK),
      (WIFI_COMMAND_SCAN_R, WIFI_COMMAND_ACK_STRING),
      (WIFI_COMMAND_LISTNETWORK, WIFI_COMMAND_ACK_INT),
      (WIFI_COMMAND_DISABLENETWORK, WIFI_COMMAND_ACK_OK),
      (WIFI_COMMAND_GET_CHANNEL, WIFI_COMMAND_ACK_INT),
      (WIFI_COMMAND_DISCONNECT, WIFI_COMMAND_ACK_OK),
      (WIFI_COMMAND_RECONNCET, WIFI_COMMAND_ACK_OK),
      (WIFI_COMMAND_REMOVENETWORK, WIFI_COMMAND_ACK_OK),
      (WIFI_COMMAND_GET_CURRENT_SSID, WIFI_COMMAND_ACK_STRING),
      (WIFI_COMMAND_BLACKLIST_CLEAR, WIFI_COMMAND_ACK_OK),
      (WIFI_COMMAND_GET_BSSID, WIFI_COMMAND_ACK_STRING),
      (WIFI_COMMAND_SET_COUNTRY, WIFI_COMMAND_ACK_OK),
      (WIFI_COMMAND_GET_COUNTRY, WIFI_COMMAND_ACK_STRING),
      (WIFI_COMMAND_GET_WIFI_INFO, WIFI_COMMAND_ACK_STRING)]"

definition WIFI_SCANING :: int where "WIFI_SCANING = 1"
definition WIFI_CONNECTED :: int where "WIFI_CONNECTED = 2"
definition WIFI_UNCONNECTED :: int where "WIFI_UNCONNECTED = 3"

record WF_CONNECTED_AP_INFO_S =
  ai_ssid :: string
  ai_passwd :: string
  ai_bssid :: bytes
  ai_security :: u32
  ai_key_mgmt :: string
  ai_chan :: int

definition zero_ap_info :: WF_CONNECTED_AP_INFO_S where
  "zero_ap_info = \<lparr> ai_ssid = [], ai_passwd = [], ai_bssid = replicate 6 0, ai_security = 0, ai_key_mgmt = [], ai_chan = 0 \<rparr>"

text \<open>What \<open>res\<close> points to; a command that meets memory of another type writes outside its type.\<close>

datatype wifi_res =
    R_int int
  | R_char u8
  | R_list wifi_scan_list
  | R_text "char list"
  | R_bytes bytes
  | R_info WF_CONNECTED_AP_INFO_S

text \<open>\<open>atoi(&line[k])\<close>, which reads what earlier lines left if the line is shorter.\<close>

definition atoi_at :: "char list \<Rightarrow> nat \<Rightarrow> int option" where
  "atoi_at line k = Option.bind (cstr (drop k line)) atoi"

text \<open>The loops that look for a number after a word: \<open>Leave\<close> with it at the first line that holds the word.\<close>

definition find_number :: "string \<Rightarrow> nat \<Rightarrow> char list \<Rightarrow> int option" where
  "find_number word k reply =
     (case each_line (\<lambda>line s. if strstr (text_of line) word
                                then (case atoi_at line k of None \<Rightarrow> Fault | Some v \<Rightarrow> Leave v) else Next s)
             reply 0 (replicate 256 nul) 0 of
        Next s \<Rightarrow> Some 0 | Leave v \<Rightarrow> Some v | Fault \<Rightarrow> None)"

definition wpa_status_loop :: "char list \<Rightarrow> int \<Rightarrow> int option" where
  "wpa_status_loop reply res =
     finish (each_line (\<lambda>line s.
       if strstr (text_of line) ''wpa_state=COMPLETED'' then Leave WIFI_CONNECTED
       else if strstr (text_of line) ''wpa_state=SCANNING'' then Leave WIFI_SCANING
       else Next WIFI_UNCONNECTED) reply 0 (replicate 256 nul) res)"

definition list_loop :: "char list \<Rightarrow> int option" where
  "list_loop reply =
     finish (each_line (\<lambda>line s. if strstr (text_of line) ''[DISABLED]'' then Next s else Leave 1) reply 1 (replicate 256 nul) 0)"

text \<open>\<open>strncpy(res, line + 5, strlen(line) - 5)\<close> stores no terminator.\<close>

definition ssid_loop :: "char list \<Rightarrow> char list \<Rightarrow> char list option" where
  "ssid_loop reply res =
     finish (each_line (\<lambda>line s.
       let l = text_of line in
       if starts ''ssid='' l
       then (if length l - 5 \<le> length s then Next (memcpy_at s 0 (drop 5 l) (length l - 5)) else Fault)
       else Next s) reply 0 (replicate 256 nul) res)"

text \<open>\<open>sscanf\<close> with \<open>%02x:%02x:%02x:%02x:%02x:%02x\<close>: the values it assigns.\<close>

fun scan_hex :: "nat \<Rightarrow> string \<Rightarrow> int list" where
  "scan_hex 0 s = []"
| "scan_hex (Suc k) s =
     (case scan_x2 s of Match v r \<Rightarrow> v # (case scan_lit CHR '':'' r of Match _ r' \<Rightarrow> scan_hex k r' | _ \<Rightarrow> []) | _ \<Rightarrow> [])"

text \<open>Variables that were not assigned are indeterminate here.\<close>

definition bssid_loop :: "char list \<Rightarrow> bytes \<Rightarrow> bytes option" where
  "bssid_loop reply res =
     finish (each_line (\<lambda>line s.
       let l = text_of line in
       if starts ''bssid='' l
       then (let vs = scan_hex 6 (drop 6 l) in if length vs = 6 then Leave (memcpy_at s 0 (map word_of_int vs) 6) else Fault)
       else Next s) reply 0 (replicate 256 nul) res)"

text \<open>One line of \<open>STATUS\<close> for the connected access point: \<open>a1\<close> to \<open>a6\<close>, the local structure and the caller's.\<close>

definition info_line :: "string \<Rightarrow> int list \<times> WF_CONNECTED_AP_INFO_S \<times> WF_CONNECTED_AP_INFO_S \<Rightarrow>
    (int list \<times> WF_CONNECTED_AP_INFO_S \<times> WF_CONNECTED_AP_INFO_S) flow" where
  "info_line l = (\<lambda>(as, ai, p).
     if starts ''bssid='' l
     then let vs = scan_hex 6 (drop 6 l); as' = vs @ drop (length vs) as; b = map word_of_int as' in
       Next (as', ai\<lparr>ai_bssid := b\<rparr>, p\<lparr>ai_bssid := b\<rparr>)
     else if starts ''ssid='' l
     then flow_of (map_option (\<lambda>ai'. (as, ai', p\<lparr>ai_ssid := ai_ssid ai'\<rparr>))
       (conv (scan_s (drop 5 l)) (\<lambda>v. map_option (\<lambda>t. ai\<lparr>ai_ssid := t\<rparr>) (fits 36 v)) ai (\<lambda>s r. Some s)))
     else if starts ''passphrase='' l
     then flow_of (map_option (\<lambda>ai'. (as, ai', p\<lparr>ai_passwd := ai_passwd ai'\<rparr>))
       (conv (scan_s (drop 11 l)) (\<lambda>v. map_option (\<lambda>t. ai\<lparr>ai_passwd := t\<rparr>) (fits 65 v)) ai (\<lambda>s r. Some s)))
     else if starts ''key_mgmt='' l
     then flow_of (map_option (\<lambda>ai'. (as, ai', p\<lparr>ai_key_mgmt := ai_key_mgmt ai'\<rparr>))
       (conv (scan_s (drop 9 l)) (\<lambda>v. map_option (\<lambda>t. ai\<lparr>ai_key_mgmt := t\<rparr>) (fits 12 v)) ai (\<lambda>s r. Some s)))
     else if starts ''freq='' l
     then flow_of (Option.bind (conv (scan_d (drop 5 l)) (\<lambda>v. Some (ai\<lparr>ai_chan := v\<rparr>)) ai (\<lambda>s r. Some s)) (\<lambda>ai'.
       if INT_MIN \<le> ai_chan ai' - 2412 then Some (as, ai', p\<lparr>ai_chan := (ai_chan ai' - 2412) sdiv 5 + 1\<rparr>) else None))
     else Leave (as, ai, ai))"

definition info_loop :: "char list \<Rightarrow> WF_CONNECTED_AP_INFO_S \<Rightarrow> WF_CONNECTED_AP_INFO_S option" where
  "info_loop reply p =
     map_option (snd \<circ> snd)
       (finish (each_line (\<lambda>line. info_line (text_of line)) reply 0 (replicate 256 nul) (replicate 6 0, zero_ap_info, p)))"

text \<open>\<open>sscanf(reply, "%d", res) == 0\<close>: an empty reply is an input failure, which is not 0.\<close>

definition int_reply :: "char list \<Rightarrow> int \<Rightarrow> int option" where
  "int_reply reply res = Option.bind (cstr reply) (\<lambda>s.
     if skip_ws s = [] then Some res
     else case scan_d s of Match v _ \<Rightarrow> Some v | Mismatch \<Rightarrow> Some (-1) | Undefined \<Rightarrow> None)"

definition analyse_ok :: "char list \<Rightarrow> nat \<Rightarrow> int" where
  "analyse_ok reply res_len = (let n = (if res_len > 2 then 2 else res_len) in if take n reply = take n ''OK'' then 0 else -1)"

definition on_int :: "wifi_res \<Rightarrow> (int \<Rightarrow> int option) \<Rightarrow> wifi_res option" where
  "on_int res f = (case res of R_int r \<Rightarrow> map_option R_int (f r) | _ \<Rightarrow> None)"

definition analyse_int :: "WIFI_COMMAND \<Rightarrow> char list \<Rightarrow> wifi_res \<Rightarrow> wifi_res option" where
  "analyse_int cmd reply res =
     (if cmd = WIFI_COMMAND_GET_SIGNAL
      then (case res of R_char c \<Rightarrow> map_option (\<lambda>v. R_char (word_of_int v)) (find_number ''RSSI'' 5 reply) | _ \<Rightarrow> None)
      else if cmd = WIFI_COMMAND_GET_CHANNEL then on_int res (\<lambda>_. find_number ''FREQUENCY'' 10 reply)
      else if cmd = WIFI_COMMAND_GET_STATUS then on_int res (wpa_status_loop reply)
      else if cmd = WIFI_COMMAND_LISTNETWORK then on_int res (\<lambda>_. list_loop reply)
      else on_int res (int_reply reply))"

definition analyse_string :: "WIFI_COMMAND \<Rightarrow> char list \<Rightarrow> wifi_res \<Rightarrow> wifi_res option" where
  "analyse_string cmd reply res =
     (if cmd = WIFI_COMMAND_SCAN_R
      then (case res of R_list l \<Rightarrow> map_option R_list (wpa_get_scan_r reply l) | _ \<Rightarrow> None)
      else if cmd = WIFI_COMMAND_GET_CURRENT_SSID
      then (case res of R_text t \<Rightarrow> map_option R_text (ssid_loop reply t) | _ \<Rightarrow> None)
      else if cmd = WIFI_COMMAND_GET_BSSID
      then (case res of R_bytes b \<Rightarrow> map_option R_bytes (bssid_loop reply b) | _ \<Rightarrow> None)
      else if cmd = WIFI_COMMAND_GET_WIFI_INFO
      then (case res of R_info p \<Rightarrow> map_option R_info (info_loop reply p) | _ \<Rightarrow> None)
      else Some res)"

definition wifi_reply_analyse :: "WIFI_COMMAND \<Rightarrow> char list \<Rightarrow> wifi_res \<Rightarrow> nat \<Rightarrow> (int \<times> wifi_res) option" where
  "wifi_reply_analyse cmd reply res res_len =
     (case map_of wifi_command_pack_sum cmd of
        None \<Rightarrow> Some (-1, res)
      | Some WIFI_COMMAND_ACK_OK \<Rightarrow> (case res of R_int _ \<Rightarrow> Some (0, R_int (analyse_ok reply res_len)) | _ \<Rightarrow> None)
      | Some WIFI_COMMAND_ACK_INT \<Rightarrow> map_option (\<lambda>r. (0, r)) (analyse_int cmd reply res)
      | Some WIFI_COMMAND_ACK_STRING \<Rightarrow> map_option (\<lambda>r. (0, r)) (analyse_string cmd reply res))"

section \<open>Lines of a text\<close>

text \<open>The reference: the text up to the first end of line, then the pieces that are not empty.\<close>

function segs :: "string \<Rightarrow> string list" where
  "segs t = (case dropWhile eol t of
     [] \<Rightarrow> []
   | c # r \<Rightarrow> takeWhile (\<lambda>c. \<not> eol c) (c # r) # segs (dropWhile (\<lambda>c. \<not> eol c) r))"
  by pat_completeness auto
termination
proof (relation "measure length", goal_cases)
  case (2 t c r)
  have "length (c # r) \<le> length t" unfolding 2 [symmetric] by (rule length_dropWhile_le)
  then show ?case using length_dropWhile_le [of "\<lambda>c. \<not> eol c" r] by simp
qed simp

declare segs.simps [simp del]

definition split_lines :: "string \<Rightarrow> string list" where
  "split_lines t = takeWhile (\<lambda>c. \<not> eol c) t # segs (dropWhile (\<lambda>c. \<not> eol c) t)"

lemma segs_Nil [simp]: "segs [] = []"
  by (subst segs.simps) simp

lemma segs_eol: "eol c \<Longrightarrow> segs (c # t) = segs t"
  by (subst (1 2) segs.simps) simp

lemma segs_skip: "segs (dropWhile eol t) = segs t"
  by (induction t) (auto simp: segs_eol)

lemma segs_other: "\<not> eol c \<Longrightarrow> segs (c # t) = (c # takeWhile (\<lambda>c. \<not> eol c) t) # segs (dropWhile (\<lambda>c. \<not> eol c) t)"
  by (subst segs.simps) simp

lemma skip_eol_text:
  assumes "k \<le> length t"
  shows "skip_eol (t @ nul # r) k = Some (k + length (takeWhile eol (drop k t)))"
  using assms
proof (induction "length t - k" arbitrary: k rule: less_induct)
  case less
  show ?case
  proof (cases "k < length t")
    case True
    then have d: "drop k t = t ! k # drop (Suc k) t" by (rule Cons_nth_drop_Suc [symmetric])
    have n: "eol (t ! k) \<Longrightarrow> t ! k \<noteq> nul" by (auto simp: eol_def)
    show ?thesis using True n less.hyps [of "Suc k"]
      by (subst skip_eol.simps) (auto simp: d nth_append)
  next
    case False
    then have "k = length t" using less.prems by simp
    then show ?thesis by (subst skip_eol.simps) simp
  qed
qed

text \<open>The lines still to come, in the middle of the line that began at \<open>st\<close>.\<close>

definition ahead :: "string \<Rightarrow> nat \<Rightarrow> nat \<Rightarrow> string list" where
  "ahead t st i = (take (i - st) (drop st t) @ takeWhile (\<lambda>c. \<not> eol c) (drop i t)) # segs (dropWhile (\<lambda>c. \<not> eol c) (drop i t))"

lemma ahead_step:
  assumes "st \<le> i" "i < length t" "\<not> eol (t ! i)"
  shows "ahead t st (Suc i) = ahead t st i"
proof -
  have "drop i t = t ! i # drop (Suc i) t" using assms(2) by (rule Cons_nth_drop_Suc [symmetric])
  moreover have "take (Suc i - st) (drop st t) = take (i - st) (drop st t) @ [t ! i]"
    using assms(1,2) by (simp add: Suc_diff_le take_Suc_conv_app_nth)
  ultimately show ?thesis using assms(3) by (simp add: ahead_def)
qed

lemma ahead_eol:
  assumes "i < length t" "eol (t ! i)" "j = Suc i + length (takeWhile eol (drop (Suc i) t))"
  shows "ahead t st i = take (i - st) (drop st t) # (if j < length t then ahead t j (Suc j) else [])"
    and "j < length t \<Longrightarrow> \<not> eol (t ! j)" and "j \<le> length t"
proof -
  have d: "drop i t = t ! i # drop (Suc i) t" using assms(1) by (rule Cons_nth_drop_Suc [symmetric])
  have dj: "dropWhile eol (drop (Suc i) t) = drop j t" using assms(3) by (simp add: dropWhile_eq_drop add.commute)
  show le: "j \<le> length t" using assms(1,3) length_takeWhile_le [of eol "drop (Suc i) t"] by simp
  show ne: "\<not> eol (t ! j)" if "j < length t"
    using dj that hd_dropWhile [of eol "drop (Suc i) t"] by (simp add: hd_drop_conv_nth)
  have "segs (drop (Suc i) t) = segs (drop j t)" using segs_skip [of "drop (Suc i) t"] dj by simp
  also have "\<dots> = (if j < length t then ahead t j (Suc j) else [])"
  proof (cases "j < length t")
    case True
    then have "drop j t = t ! j # drop (Suc j) t" by (rule Cons_nth_drop_Suc [symmetric])
    then show ?thesis using True segs_other [OF ne [OF True]] by (simp add: ahead_def)
  qed (use le in simp)
  finally show "ahead t st i = take (i - st) (drop st t) # (if j < length t then ahead t j (Suc j) else [])"
    using assms(2) by (simp add: ahead_def d segs_eol)
qed

definition pick_line :: "nat \<Rightarrow> string list \<Rightarrow> nat \<Rightarrow> line_res" where
  "pick_line cap ls n = (if n < length ls then (if length (ls ! n) < cap then Line (ls ! n) else Bad) else No_Line)"

lemma pick_line_simps [simp]:
  "pick_line cap [] n = No_Line"
  "pick_line cap (l # ls) 0 = (if length l < cap then Line l else Bad)"
  "pick_line cap (l # ls) (Suc n) = pick_line cap ls n"
  by (simp_all add: pick_line_def)

text \<open>A text ends in an end of line if something follows every other character.\<close>

definition ended :: "string \<Rightarrow> bool" where
  "ended t \<longleftrightarrow> t \<noteq> [] \<and> eol (last t)"

lemma ended_more: "ended t \<Longrightarrow> i < length t \<Longrightarrow> \<not> eol (t ! i) \<Longrightarrow> Suc i < length t"
  by (metis One_nat_def Suc_lessI diff_Suc_1 ended_def last_conv_nth)

lemma line_loop_pick:
  assumes "nul \<notin> set t" "ended t" "st \<le> i" "i < length t"
  shows "line_loop cap (e + 1 + int n) (t @ nul # r) i st e = pick_line cap (ahead t st i) n"
  using assms(3,4)
proof (induction "length t - i" arbitrary: i st e n rule: less_induct)
  case less
  have c: "(t @ nul # r) ! i = t ! i" "t ! i \<noteq> nul"
    using less.prems(2) assms(1) by (auto simp: nth_append) (metis nth_mem)
  show ?case
  proof (cases "eol (t ! i)")
    case False
    have "line_loop cap (e + 1 + int n) (t @ nul # r) i st e = line_loop cap (e + 1 + int n) (t @ nul # r) (Suc i) st e"
      using less.prems(2) c False by (subst line_loop.simps) simp
    also have "\<dots> = pick_line cap (ahead t st (Suc i)) n"
      using less.prems ended_more [OF assms(2) less.prems(2) False] by (intro less.hyps) auto
    finally show ?thesis using ahead_step [OF less.prems False] by simp
  next
    case True
    define j where "j = Suc i + length (takeWhile eol (drop (Suc i) t))"
    note a = ahead_eol [OF less.prems(2) True j_def]
    have sk: "skip_eol (t @ nul # r) (Suc i) = Some j" using skip_eol_text [of "Suc i" t r] less.prems(2) by (simp add: j_def)
    have cj: "(t @ nul # r) ! j = (if j < length t then t ! j else nul)" using a(3) by (simp add: nth_append)
    have njn: "j < length t \<Longrightarrow> t ! j \<noteq> nul" using assms(1) by (metis nth_mem)
    show ?thesis
    proof (cases n)
      case 0
      then show ?thesis using less.prems c True by (subst line_loop.simps) (simp add: a(1))
    next
      case (Suc m)
      have u: "line_loop cap (e + 1 + int n) (t @ nul # r) i st e =
          (if j < length t then line_loop cap (e + 1 + 1 + int m) (t @ nul # r) (Suc j) j (e + 1) else No_Line)"
        using less.prems(2) c True njn Suc by (subst line_loop.simps) (simp add: sk cj algebra_simps)
      have "line_loop cap (e + 1 + 1 + int m) (t @ nul # r) (Suc j) j (e + 1) = pick_line cap (ahead t j (Suc j)) m"
        if "j < length t"
        using less.prems that ended_more [OF assms(2) that a(2) [OF that]] by (intro less.hyps) (auto simp: j_def)
      then show ?thesis unfolding u a(1) using Suc by simp
    qed
  qed
qed

lemma get_line_split:
  assumes "nul \<notin> set t" "ended t"
  shows "get_line_from_buf cap (int n) (t @ nul # r) = pick_line cap (split_lines t) n"
  using line_loop_pick [OF assms, of 0 0 cap "-1" n r] assms(2)
  by (simp add: get_line_from_buf_def ahead_def split_lines_def ended_def)

lemma segs_parts: "l \<in> set (segs t) \<Longrightarrow> set l \<subseteq> set t"
proof (induction t rule: segs.induct)
  case (1 t)
  show ?case
  proof (cases "dropWhile eol t")
    case Nil
    with 1(2) show ?thesis by (subst (asm) segs.simps) simp
  next
    case (Cons c r)
    have sub: "set (c # r) \<subseteq> set t" using set_dropWhileD Cons by (metis subsetI)
    from Cons 1(2) have "l = takeWhile (\<lambda>c. \<not> eol c) (c # r) \<or> l \<in> set (segs (dropWhile (\<lambda>c. \<not> eol c) r))"
      by (subst (asm) segs.simps) auto
    then show ?thesis
    proof
      assume "l = takeWhile (\<lambda>c. \<not> eol c) (c # r)"
      then show ?thesis using sub by (metis set_takeWhileD subset_iff)
    next
      assume "l \<in> set (segs (dropWhile (\<lambda>c. \<not> eol c) r))"
      then have "set l \<subseteq> set (dropWhile (\<lambda>c. \<not> eol c) r)" using 1(1) [OF Cons] by blast
      then show ?thesis using sub by (meson order_trans set_dropWhileD set_subset_Cons subsetI)
    qed
  qed
qed

lemma split_lines_parts: "l \<in> set (split_lines t) \<Longrightarrow> set l \<subseteq> set t"
  by (auto simp: split_lines_def dest!: set_takeWhileD) (meson in_mono segs_parts set_dropWhileD)

text \<open>The lines of a text that was put together from them.\<close>

definition unlines :: "string list \<Rightarrow> string" where
  "unlines ls = concat (map (\<lambda>l. l @ [CHR 0x0A]) ls)"

lemma unlines_simps [simp]: "unlines [] = []" "unlines (l # ls) = l @ CHR 0x0A # unlines ls"
  by (simp_all add: unlines_def)

definition line_text :: "string \<Rightarrow> bool" where
  "line_text l \<longleftrightarrow> (\<forall>c \<in> set l. \<not> eol c \<and> c \<noteq> nul)"

lemma eol_nl [simp]: "eol (CHR 0x0A)"
  by (simp add: eol_def)

lemma line_text_split:
  "line_text l \<Longrightarrow> takeWhile (\<lambda>c. \<not> eol c) (l @ CHR 0x0A # t) = l \<and> dropWhile (\<lambda>c. \<not> eol c) (l @ CHR 0x0A # t) = CHR 0x0A # t"
  by (induction l) (auto simp: line_text_def)

lemma segs_unlines: "\<forall>l \<in> set ls. line_text l \<and> l \<noteq> [] \<Longrightarrow> segs (unlines ls) = ls"
proof (induction ls)
  case (Cons l ls)
  then obtain c u where l: "l = c # u" "\<not> eol c" "line_text u" by (cases l) (auto simp: line_text_def)
  then show ?case using Cons line_text_split [of u "unlines ls"] by (simp add: segs_other segs_eol)
qed simp

lemma split_unlines:
  assumes "line_text l" "\<forall>l \<in> set ls. line_text l \<and> l \<noteq> []"
  shows "split_lines (unlines (l # ls)) = l # ls" "ended (unlines (l # ls))" "nul \<notin> set (unlines (l # ls))"
proof -
  show "split_lines (unlines (l # ls)) = l # ls"
    using line_text_split [OF assms(1)] segs_unlines [OF assms(2)] by (simp add: split_lines_def segs_eol)
  have "unlines (l # ls) \<noteq> [] \<and> last (unlines (l # ls)) = CHR 0x0A" by (induction ls arbitrary: l) auto
  then show "ended (unlines (l # ls))" by (simp add: ended_def)
  show "nul \<notin> set (unlines (l # ls))" using assms by (auto simp: unlines_def line_text_def)
qed

text \<open>A loop over the lines that looks only at the text of each.\<close>

fun run_lines :: "(string \<Rightarrow> 's \<Rightarrow> 's flow) \<Rightarrow> string list \<Rightarrow> 's \<Rightarrow> 's flow" where
  "run_lines f [] s = Next s"
| "run_lines f (l # ls) s = (case f l s of Next s' \<Rightarrow> run_lines f ls s' | Leave s' \<Rightarrow> Leave s' | Fault \<Rightarrow> Fault)"

lemma each_line_run:
  assumes t: "nul \<notin> set t" "ended t" and cap: "\<forall>l \<in> set (split_lines t). length l < length line"
  shows "each_line (\<lambda>line. f (text_of line)) (t @ nul # r) (int n) line s = run_lines f (drop n (split_lines t)) s"
  using cap
proof (induction "length (split_lines t) - n" arbitrary: n line s rule: less_induct)
  case less
  note g = get_line_split [OF t, of "length line" n r]
  show ?case
  proof (cases "n < length (split_lines t)")
    case False
    then show ?thesis by (subst each_line.simps) (simp add: g pick_line_def)
  next
    case True
    define l where "l = split_lines t ! n"
    have l: "length l < length line" "nul \<notin> set l" "drop n (split_lines t) = l # drop (Suc n) (split_lines t)"
      using True less.prems split_lines_parts [of l t] t(1) by (auto simp: l_def Cons_nth_drop_Suc)
    have e: "each_line (\<lambda>line. f (text_of line)) (t @ nul # r) (int n) line s =
        (case f l s of Next s' \<Rightarrow> each_line (\<lambda>line. f (text_of line)) (t @ nul # r) (int n + 1) (l @ nul # drop (Suc (length l)) line) s'
         | Leave s' \<Rightarrow> Leave s' | Fault \<Rightarrow> Fault)"
      using True l by (subst each_line.simps) (simp add: g pick_line_def l_def [symmetric])
    have "each_line (\<lambda>line. f (text_of line)) (t @ nul # r) (int (Suc n)) (l @ nul # drop (Suc (length l)) line) s' =
        run_lines f (drop (Suc n) (split_lines t)) s'" for s'
      using True less.prems l(1) by (intro less.hyps) auto
    then show ?thesis using e l(3) by (simp add: add.commute split: flow.splits)
  qed
qed

section \<open>The networks of a scan\<close>

text \<open>A line of \<open>SCAN_RESULTS\<close> as the supplicant documents it: address, frequency, signal level, flags and name, separated by tabs.\<close>

definition net_line :: "wifi_scan_res \<times> string \<Rightarrow> string" where
  "net_line = (\<lambda>(n, flags). mac_addr n @ [CHR 0x09] @ int_text (freq n) @ [CHR 0x09] @ int_text (sig n) @ [CHR 0x09] @ flags @ [CHR 0x09] @ ssid n)"

definition token :: "nat \<Rightarrow> string \<Rightarrow> bool" where
  "token cap t \<longleftrightarrow> t \<noteq> [] \<and> length t < cap \<and> (\<forall>c \<in> set t. \<not> isspace c \<and> c \<noteq> nul)"

definition int_range :: "int \<Rightarrow> bool" where
  "int_range i \<longleftrightarrow> INT_MIN \<le> i \<and> i \<le> INT_MAX"

text \<open>What a network of a scan has, but for its name.\<close>

definition net_ok :: "wifi_scan_res \<times> string \<Rightarrow> bool" where
  "net_ok = (\<lambda>(n, flags). token 18 (mac_addr n) \<and> int_range (freq n) \<and> int_range (sig n) \<and> token 64 flags)"

definition ssid_ok :: "string \<Rightarrow> bool" where
  "ssid_ok t \<longleftrightarrow> t \<noteq> [] \<and> length t < 128 \<and> \<not> isspace (hd t) \<and> line_text t"

text \<open>What the code makes of it.\<close>

definition net_of :: "wifi_scan_res \<times> string \<Rightarrow> wifi_scan_res" where
  "net_of = (\<lambda>(n, flags). n\<lparr>key_mgmt := key_of flags\<rparr>)"

lemma tab_facts [simp]: "isspace (CHR 0x09)" "\<not> eol (CHR 0x09)" "\<not> digit (CHR 0x09)"
  by (simp_all add: isspace_def eol_def digit_def)

lemma skip_ws_tab [simp]: "skip_ws (CHR 0x09 # s) = skip_ws s"
  by (simp add: skip_ws_def)

lemma skip_ws_id: "s \<noteq> [] \<Longrightarrow> \<not> isspace (hd s) \<Longrightarrow> skip_ws s = s"
  by (cases s) (simp_all add: skip_ws_def)

lemma int_text_start: "int_text i \<noteq> [] \<and> \<not> isspace (hd (int_text i))"
proof (cases "i < 0")
  case False
  obtain c u where "dec_digits (nat i) = c # u" "digit c"
    using dec_digits_value [of "nat i"] by (metis list.set_intros(1) neq_Nil_conv)
  then show ?thesis using False digit_not_sign by (simp add: int_text_def)
qed (simp add: int_text_def isspace_def)

lemma skip_int_text [simp]: "skip_ws (int_text i @ r) = int_text i @ r"
  using int_text_start [of i] by (intro skip_ws_id) auto

lemma skip_token [simp]: "token cap t \<Longrightarrow> skip_ws (t @ r) = t @ r"
  by (intro skip_ws_id) (auto simp: token_def)

lemma scan_s_tok [simp]: "token cap t \<Longrightarrow> scan_s (t @ CHR 0x09 # r) = Match t (CHR 0x09 # r)"
  by (intro scan_s_token) (auto simp: token_def)

lemma scan_d_tok [simp]: "int_range i \<Longrightarrow> scan_d (int_text i @ CHR 0x09 # r) = Match i (CHR 0x09 # r)"
  by (intro scan_d_int_text) (auto simp: int_range_def)

lemma scan_line_Nil [simp]: "scan_line (skip_ws []) = Mismatch"
  by (simp add: scan_line_def skip_ws_def)

lemma scan_line_ssid: "ssid_ok t \<Longrightarrow> scan_line (skip_ws t) = Match t []"
proof -
  assume t: "ssid_ok t"
  then have "\<forall>c \<in> set t. c \<noteq> CHR 0x0A" by (auto simp: ssid_ok_def line_text_def eol_def)
  then have tw: "takeWhile (\<lambda>c. c \<noteq> CHR 0x0A) t = t" "dropWhile (\<lambda>c. c \<noteq> CHR 0x0A) t = []" by simp_all
  show ?thesis using t by (simp add: scan_line_def skip_ws_id ssid_ok_def tw)
qed

lemma scan_fields_net:
  assumes "net_ok (n, flags)" "ssid_ok (ssid n) \<or> ssid n = []"
  shows "scan_fields (net_line (n, flags)) (ap, kt) =
    Some (n\<lparr>key_mgmt := key_mgmt ap, ssid := (if ssid n = [] then ssid ap else ssid n)\<rparr>, flags)"
proof -
  have k: "token 18 (mac_addr n)" "int_range (freq n)" "int_range (sig n)" "token 64 flags"
    using assms(1) by (auto simp: net_ok_def)
  have f: "fits 18 (mac_addr n) = Some (mac_addr n)" "fits 64 flags = Some flags"
    using k by (simp_all add: token_def)
  show ?thesis
  proof (cases "ssid n = []")
    case True
    then show ?thesis using k by (simp add: scan_fields_def net_line_def f)
  next
    case False
    then have s: "ssid_ok (ssid n)" "fits 128 (ssid n) = Some (ssid n)" using assms(2) by (auto simp: ssid_ok_def)
    then show ?thesis using k False by (simp add: scan_fields_def net_line_def f s(2) scan_line_ssid [OF s(1)])
  qed
qed

text \<open>The reduction keeps, of the networks with one name and one kind of key, the strongest.\<close>

abbreviation net_key :: "wifi_scan_res \<Rightarrow> string \<times> WIFI_KEY" where
  "net_key n \<equiv> (ssid n, key_mgmt n)"

definition strongest :: "wifi_scan_res list \<Rightarrow> wifi_scan_res list \<Rightarrow> bool" where
  "strongest seen es \<longleftrightarrow> distinct (map net_key es) \<and> set es \<subseteq> set seen \<and>
     (\<forall>n \<in> set seen. \<exists>e \<in> set es. net_key e = net_key n \<and> sig n \<le> sig e)"

lemma reduce_loop_keys: "net_key ` set (reduce_loop es n) = insert (net_key n) (net_key ` set es)"
  by (induction es) auto

lemma reduce_loop_distinct: "distinct (map net_key es) \<Longrightarrow> distinct (map net_key (reduce_loop es n))"
proof (induction es)
  case (Cons e es)
  then show ?case using reduce_loop_keys [of es n] by auto
qed simp

lemma reduce_loop_set: "set (reduce_loop es n) \<subseteq> insert n (set es)"
  by (induction es) auto

lemma reduce_loop_length: "length (reduce_loop es n) \<le> Suc (length es)"
  by (induction es) auto

lemma reduce_loop_covers:
  "(\<exists>e \<in> set (reduce_loop es n). net_key e = net_key n \<and> sig n \<le> sig e) \<and>
   (\<forall>x \<in> set es. \<exists>e \<in> set (reduce_loop es n). net_key e = net_key x \<and> sig x \<le> sig e)"
  by (induction es) fastforce+

lemma reduce_strongest:
  assumes "strongest seen es"
  shows "strongest (seen @ [n]) (reduce_loop es n)"
  unfolding strongest_def
proof (intro conjI ballI)
  show "distinct (map net_key (reduce_loop es n))" using assms by (intro reduce_loop_distinct) (simp add: strongest_def)
  show "set (reduce_loop es n) \<subseteq> set (seen @ [n])" using assms reduce_loop_set [of es n] by (auto simp: strongest_def)
  fix x assume "x \<in> set (seen @ [n])"
  then consider "x = n" | e where "e \<in> set es" "net_key e = net_key x" "sig x \<le> sig e"
    using assms by (auto simp: strongest_def)
  then show "\<exists>e \<in> set (reduce_loop es n). net_key e = net_key x \<and> sig x \<le> sig e"
    using reduce_loop_covers [of es n] by cases (blast, metis order_trans)
qed

text \<open>Reading the lines of well-formed networks.\<close>

lemma run_scan_nets:
  assumes "\<forall>p \<in> set ps. net_ok p \<and> ssid_ok (ssid (fst p))" "strongest seen (nets lst)"
    "length (nets lst) + length ps \<le> room lst"
  shows "\<exists>s' lst'. run_lines (\<lambda>l s. flow_of (scan_r_line l s)) (map net_line ps) (s, lst) = Next (s', lst') \<and>
    room lst' = room lst \<and> strongest (seen @ map net_of ps) (nets lst')"
  using assms
proof (induction ps arbitrary: s lst seen)
  case (Cons p ps)
  obtain n flags where p: "p = (n, flags)" by force
  obtain ap kt where s: "s = (ap, kt)" by force
  define lst1 where "lst1 = lst\<lparr>nets := reduce_loop (nets lst) (net_of p)\<rparr>"
  have ok: "net_ok (n, flags)" "ssid_ok (ssid n)" using Cons.prems(1) p by auto
  then have ne: "ssid n \<noteq> []" by (simp add: ssid_ok_def)
  have len: "length (nets lst1) + length ps \<le> room lst1"
    using Cons.prems(3) reduce_loop_length [of "nets lst" "net_of p"] by (simp add: lst1_def)
  have step: "scan_r_line (net_line p) (s, lst) = Some ((net_of p, flags), lst1)"
    using scan_fields_net [OF ok(1) disjI1 [OF ok(2)], of ap kt] ne len
    by (simp add: scan_r_line_def p s net_of_def wpa_reduce_repeat_ssid_def lst1_def Let_def)
  have "strongest (seen @ [net_of p]) (nets lst1)" using reduce_strongest [OF Cons.prems(2)] by (simp add: lst1_def)
  from Cons.IH [OF _ this len, of "(net_of p, flags)"] Cons.prems(1) show ?case
    by (auto simp: step lst1_def)
qed simp

lemma eol_isspace: "eol c \<Longrightarrow> isspace c"
  by (auto simp: eol_def isspace_def)

lemma digit_plain: "digit c \<Longrightarrow> \<not> eol c \<and> c \<noteq> nul"
  by (auto simp: eol_def digit_def)

lemma line_text_token: "token cap t \<Longrightarrow> line_text t"
  by (auto simp: token_def line_text_def dest: eol_isspace)

lemma line_text_int [simp]: "line_text (int_text i)"
  using dec_digits_value [of "nat i"] dec_digits_value [of "nat (- i)"] digit_plain
  by (auto simp: int_text_def line_text_def eol_def)

lemma line_text_append [simp]: "line_text (s @ t) \<longleftrightarrow> line_text s \<and> line_text t"
  by (auto simp: line_text_def)

lemma line_text_Cons [simp]: "line_text (c # t) \<longleftrightarrow> \<not> eol c \<and> c \<noteq> nul \<and> line_text t"
  by (auto simp: line_text_def)

lemma line_text_Nil [simp]: "line_text []"
  by (simp add: line_text_def)

lemma net_line_text:
  assumes "net_ok (n, flags)" "ssid_ok (ssid n) \<or> ssid n = []"
  shows "line_text (net_line (n, flags)) \<and> net_line (n, flags) \<noteq> []"
proof -
  have "line_text (mac_addr n)" "line_text flags" "line_text (ssid n)"
    using assms line_text_token by (auto simp: net_ok_def ssid_ok_def line_text_def)
  then show ?thesis by (simp add: net_line_def)
qed

lemma net_line_length:
  assumes "net_ok (n, flags)" "length (ssid n) < 128"
  shows "length (net_line (n, flags)) < 512"
  using assms int_text_length [of "freq n"] int_text_length [of "sig n"]
  by (simp add: net_ok_def net_line_def token_def int_range_def)

text \<open>The reply to \<open>SCAN_RESULTS\<close>: a heading, then the networks.\<close>

definition scan_reply :: "string \<Rightarrow> (wifi_scan_res \<times> string) list \<Rightarrow> string" where
  "scan_reply heading ps = unlines (heading # map net_line ps)"

lemma scan_reply_nul:
  assumes "line_text heading" "\<forall>p \<in> set ps. net_ok p \<and> (ssid_ok (ssid (fst p)) \<or> ssid (fst p) = [])"
  shows "nul \<notin> set (scan_reply heading ps)"
proof -
  have "\<forall>l \<in> set (map net_line ps). line_text l \<and> l \<noteq> []" using assms(2) net_line_text by fastforce
  from split_unlines(3) [OF assms(1) this] show ?thesis by (simp only: scan_reply_def not_False_eq_True)
qed

lemma wpa_get_scan_r_run:
  assumes "line_text heading" "length heading < 512"
    and "\<forall>p \<in> set ps. net_ok p \<and> (ssid_ok (ssid (fst p)) \<or> ssid (fst p) = [])"
  shows "wpa_get_scan_r (scan_reply heading ps @ nul # r) lst =
    map_option snd (finish (run_lines (\<lambda>l s. flow_of (scan_r_line l s)) (map net_line ps) ((zero_scan_res, []), lst)))"
proof -
  have lines: "\<forall>l \<in> set (map net_line ps). line_text l \<and> l \<noteq> []"
    using assms(3) net_line_text by fastforce
  have short: "\<forall>l \<in> set (map net_line ps). length l < 512"
    using assms(3) net_line_length by (fastforce simp: ssid_ok_def)
  note t = split_unlines [OF assms(1) lines]
  have "each_line (\<lambda>line. (\<lambda>l s. flow_of (scan_r_line l s)) (text_of line)) (unlines (heading # map net_line ps) @ nul # r) (int 1)
      (replicate 512 nul) ((zero_scan_res, []), lst) =
    run_lines (\<lambda>l s. flow_of (scan_r_line l s)) (drop 1 (split_lines (unlines (heading # map net_line ps)))) ((zero_scan_res, []), lst)"
    using assms(2) short t by (intro each_line_run) (simp_all del: unlines_simps)
  then show ?thesis unfolding wpa_get_scan_r_def scan_reply_def t(1) by simp
qed

lemma scan_reply_read:
  assumes "line_text heading" "length heading < 512"
    and "\<forall>p \<in> set ps. net_ok p \<and> ssid_ok (ssid (fst p))" "length ps \<le> cap"
  shows "\<exists>es. wpa_get_scan_r (scan_reply heading ps @ nul # r) \<lparr> nets = [], room = cap \<rparr> = Some \<lparr> nets = es, room = cap \<rparr> \<and>
    distinct (map (\<lambda>n. (ssid n, key_mgmt n)) es) \<and> set es \<subseteq> net_of ` set ps \<and>
    (\<forall>p \<in> set ps. \<exists>e \<in> set es. ssid e = ssid (net_of p) \<and> key_mgmt e = key_mgmt (net_of p) \<and> sig (net_of p) \<le> sig e)"
proof -
  let ?l = "\<lparr> nets = [], room = cap \<rparr>"
  have "strongest [] (nets ?l)" by (simp add: strongest_def)
  from run_scan_nets [OF assms(3) this, of "(zero_scan_res, [])"] assms(4)
  obtain s' lst' where r: "run_lines (\<lambda>l s. flow_of (scan_r_line l s)) (map net_line ps) ((zero_scan_res, []), ?l) = Next (s', lst')"
    and lst': "room lst' = cap" "strongest (map net_of ps) (nets lst')" by auto
  have "wpa_get_scan_r (scan_reply heading ps @ nul # r) ?l = Some \<lparr> nets = nets lst', room = cap \<rparr>"
    using wpa_get_scan_r_run [OF assms(1,2), of ps r ?l] assms(3) r lst'(1) by simp
  then show ?thesis using lst'(2) by (auto simp: strongest_def)
qed

section \<open>The connected access point\<close>

text \<open>An address as the supplicant prints it.\<close>

fun mac_text :: "bytes \<Rightarrow> string" where
  "mac_text [] = []"
| "mac_text [b] = [hex_char (unat b div 16), hex_char (unat b mod 16)]"
| "mac_text (b # bs) = hex_char (unat b div 16) # hex_char (unat b mod 16) # CHR '':'' # mac_text bs"

lemma scan_x2_hex [simp]: "scan_x2 (hex_char (unat b div 16) # hex_char (unat b mod 16) # r) = Match (uint (b :: u8)) r"
proof -
  have "16 * (unat b div 16) + unat b mod 16 = unat b" by simp
  then have "int (16 * (unat b div 16) + unat b mod 16) = uint b" by (metis uint_nat)
  then show ?thesis by (simp add: scan_x2_def skip_ws_def)
qed

lemma scan_hex_mac: "scan_hex (length bs) (mac_text bs) = map uint bs"
  by (induction bs rule: mac_text.induct) (simp_all add: scan_lit_def)

lemma hex_not_eol: "n < 16 \<Longrightarrow> \<not> eol (hex_char n)"
  using eol_isspace hex_char_facts(2) by blast

lemma line_text_mac [simp]: "line_text (mac_text bs)"
  by (induction bs rule: mac_text.induct) (simp_all add: hex_not_eol, simp add: eol_def)

lemma length_mac [simp]: "length (mac_text bs) \<le> 3 * length bs"
  by (induction bs rule: mac_text.induct) simp_all

text \<open>The reply to \<open>STATUS\<close> of a connected station: the lines come in this order.\<close>

definition status_lines :: "bytes \<Rightarrow> int \<Rightarrow> string \<Rightarrow> int \<Rightarrow> string list \<Rightarrow> string list" where
  "status_lines bs f name n others =
     [''bssid='' @ mac_text bs, ''freq='' @ int_text f, ''ssid='' @ name, ''id='' @ int_text n] @ others"

lemma info_lines_status:
  assumes "length bs = 6" "int_range f" "INT_MIN \<le> f - 2412" "token 36 name"
  shows "run_lines info_line (status_lines bs f name n others) (replicate 6 0, zero_ap_info, p) =
    Leave (map uint bs, zero_ap_info\<lparr>ai_ssid := name, ai_bssid := bs, ai_chan := f\<rparr>,
           zero_ap_info\<lparr>ai_ssid := name, ai_bssid := bs, ai_chan := f\<rparr>)"
proof -
  have "scan_hex 6 (mac_text bs) = map uint bs" using scan_hex_mac [of bs] assms(1) by simp
  moreover have "map (word_of_int \<circ> uint) bs = (bs :: bytes)" by (simp add: map_idI)
  moreover have "scan_d (int_text f) = Match f []" using scan_d_int_text [of f "[]"] assms(2) by (simp add: int_range_def)
  moreover have "scan_s name = Match name []" using scan_s_token [of name "[]"] assms(4) by (auto simp: token_def)
  moreover have "length name < 36" using assms(4) by (simp add: token_def)
  ultimately show ?thesis using assms(1,3)
    by (simp add: status_lines_def info_line_def starts_def zero_ap_info_def fits_def)
qed

lemma info_loop_run:
  assumes "nul \<notin> set t" "ended t" "\<forall>l \<in> set (split_lines t). length l < 256"
  shows "info_loop (t @ nul # r) p = map_option (snd \<circ> snd) (finish (run_lines info_line (split_lines t) (replicate 6 0, zero_ap_info, p)))"
  using each_line_run [OF assms(1,2), of "replicate 256 nul" info_line r 0] assms(3) by (simp add: info_loop_def)

section \<open>The kinds of key\<close>

text \<open>
  The flags of a network as the supplicant prints them: capabilities in brackets, with the ciphers of WPA2 and WPA behind a
  dash, for example \<open>[WPA2-PSK-CCMP][WPS][ESS]\<close>.
\<close>

datatype ap_cap = Cap_WPA2 string | Cap_WPA string | Cap_WEP | Cap_ESS | Cap_Other string

fun cap_body :: "ap_cap \<Rightarrow> string" where
  "cap_body (Cap_WPA2 x) = ''WPA2-'' @ x"
| "cap_body (Cap_WPA x) = ''WPA-'' @ x"
| "cap_body Cap_WEP = ''WEP''"
| "cap_body Cap_ESS = ''ESS''"
| "cap_body (Cap_Other x) = x"

definition cap_text :: "ap_cap \<Rightarrow> string" where
  "cap_text c = ''['' @ cap_body c @ '']''"

definition flags_text :: "ap_cap list \<Rightarrow> string" where
  "flags_text cs = concat (map cap_text cs)"

text \<open>The free parts name neither WPA nor WEP and have no brackets.\<close>

definition plain_cap :: "string \<Rightarrow> bool" where
  "plain_cap x \<longleftrightarrow> \<not> strstr x ''WPA'' \<and> \<not> strstr x ''WEP'' \<and> CHR ''['' \<notin> set x \<and> CHR '']'' \<notin> set x"

fun cap_ok :: "ap_cap \<Rightarrow> bool" where
  "cap_ok (Cap_WPA2 x) = plain_cap x"
| "cap_ok (Cap_WPA x) = plain_cap x"
| "cap_ok (Cap_Other x) = (plain_cap x \<and> x \<noteq> ''ESS'')"
| "cap_ok c = True"

text \<open>The kind of key that the interface promises: the best that the network offers, none for one that only says \<open>[ESS]\<close> first.\<close>

definition kind_of :: "ap_cap list \<Rightarrow> WIFI_KEY" where
  "kind_of cs =
     (if \<exists>x. Cap_WPA2 x \<in> set cs then WIFI_KEY_WPA2PSK
      else if \<exists>x. Cap_WPA x \<in> set cs then WIFI_KEY_WPAPSK
      else if Cap_WEP \<in> set cs then WIFI_KEY_WEP
      else if cs \<noteq> [] \<and> hd cs = Cap_ESS then WIFI_KEY_NONE
      else WIFI_KEY_OTHER)"

lemma starts_sep: "c \<notin> set p \<Longrightarrow> starts p (a @ c # b) \<longleftrightarrow> starts p a"
proof (induction p arbitrary: a)
  case (Cons x p)
  then show ?case by (cases a) (auto simp: starts_def)
qed (simp add: starts_def)

lemma starts_close: "c \<notin> set a \<Longrightarrow> c \<notin> set q \<Longrightarrow> starts (q @ [c]) (a @ c # b) \<longleftrightarrow> a = q"
proof (induction q arbitrary: a)
  case Nil
  then show ?case by (cases a) (auto simp: starts_def)
next
  case (Cons x q)
  then show ?case by (cases a) (auto simp: starts_def)
qed

lemma strstr_sep: "c \<notin> set p \<Longrightarrow> p \<noteq> [] \<Longrightarrow> strstr (a @ c # b) p \<longleftrightarrow> strstr a p \<or> strstr b p"
proof (induction a)
  case Nil
  then show ?case by (cases p) (auto simp: starts_def)
next
  case (Cons x a)
  then show ?case using starts_sep [of c p "x # a" b] by simp
qed

lemma strstr_flags:
  assumes "p \<noteq> []" "CHR ''['' \<notin> set p" "CHR '']'' \<notin> set p"
  shows "strstr (flags_text cs) p \<longleftrightarrow> (\<exists>c\<in>set cs. strstr (cap_body c) p)"
proof (induction cs)
  case Nil
  then show ?case using assms(1) by (simp add: flags_text_def)
next
  case (Cons c cs)
  have "strstr (flags_text (c # cs)) p \<longleftrightarrow> strstr ([] @ CHR ''['' # (cap_body c @ CHR '']'' # flags_text cs)) p"
    by (simp add: flags_text_def cap_text_def)
  also have "\<dots> \<longleftrightarrow> strstr (cap_body c) p \<or> strstr (flags_text cs) p"
    using assms by (subst strstr_sep) (auto simp: strstr_sep)
  finally show ?case using Cons by simp
qed

lemma cap_body_kinds:
  assumes "cap_ok c"
  shows "strstr (cap_body c) ''WPA2'' \<longleftrightarrow> (\<exists>x. c = Cap_WPA2 x)"
    "strstr (cap_body c) ''WPA'' \<longleftrightarrow> (\<exists>x. c = Cap_WPA2 x) \<or> (\<exists>x. c = Cap_WPA x)"
    "strstr (cap_body c) ''WEP'' \<longleftrightarrow> c = Cap_WEP"
proof -
  have two: "strstr x ''WPA2'' \<Longrightarrow> strstr x ''WPA''" for x unfolding strstr_iff by (metis append_Cons append_assoc append_Nil)
  have dash: "strstr (a @ CHR ''-'' # x) p \<longleftrightarrow> strstr a p \<or> strstr x p" if "p \<in> {''WPA2'', ''WPA'', ''WEP''}" for a x p
    using that by (intro strstr_sep) auto
  have d: "strstr (''WPA2-'' @ x) p \<longleftrightarrow> strstr ''WPA2'' p \<or> strstr x p" "strstr (''WPA-'' @ x) p \<longleftrightarrow> strstr ''WPA'' p \<or> strstr x p"
    if "p \<in> {''WPA2'', ''WPA'', ''WEP''}" for x p using dash [OF that, of "''WPA2''" x] dash [OF that, of "''WPA''" x] by simp_all
  show "strstr (cap_body c) ''WPA2'' \<longleftrightarrow> (\<exists>x. c = Cap_WPA2 x)"
    "strstr (cap_body c) ''WPA'' \<longleftrightarrow> (\<exists>x. c = Cap_WPA2 x) \<or> (\<exists>x. c = Cap_WPA x)"
    "strstr (cap_body c) ''WEP'' \<longleftrightarrow> c = Cap_WEP"
    using assms two by (cases c; auto simp: d plain_cap_def starts_def simp del: append.simps)+
qed

lemma starts_ess:
  assumes "list_all cap_ok cs"
  shows "starts ''[ESS]'' (flags_text cs) \<longleftrightarrow> cs \<noteq> [] \<and> hd cs = Cap_ESS"
proof (cases cs)
  case (Cons c cs')
  have "starts ''[ESS]'' (flags_text cs) \<longleftrightarrow> starts ''ESS]'' (cap_body c @ CHR '']'' # flags_text cs')"
    by (simp add: Cons flags_text_def cap_text_def starts_def)
  also have "\<dots> \<longleftrightarrow> cap_body c = ''ESS''" if "CHR '']'' \<notin> set (cap_body c)"
    using starts_close [of "CHR '']''" "cap_body c" "''ESS''"] that by simp
  finally show ?thesis using assms Cons by (cases c) (auto simp: plain_cap_def)
qed (simp add: flags_text_def starts_def)

lemma key_of_flags:
  assumes "list_all cap_ok cs"
  shows "key_of (flags_text cs) = kind_of cs"
proof -
  have "\<And>c. c \<in> set cs \<Longrightarrow> cap_ok c" using assms by (simp add: list_all_iff)
  then have "strstr (flags_text cs) ''WPA2'' \<longleftrightarrow> (\<exists>x. Cap_WPA2 x \<in> set cs)"
    "strstr (flags_text cs) ''WPA'' \<longleftrightarrow> (\<exists>x. Cap_WPA2 x \<in> set cs) \<or> (\<exists>x. Cap_WPA x \<in> set cs)"
    "strstr (flags_text cs) ''WEP'' \<longleftrightarrow> Cap_WEP \<in> set cs"
    by (auto simp: strstr_flags cap_body_kinds)
  then show ?thesis using starts_ess [OF assms] by (auto simp: key_of_def kind_of_def)
qed

section \<open>Properties\<close>

text \<open>
  C24: For a text that ends in an end of line, \<open>get_line_from_buf\<close> finds the lines of the reference splitter and no
  others, whatever stands in the buffer after the text: line \<open>n\<close> is copied if it fits into \<open>line\<close>.  For a text put
  together from lines, these are the lines.
\<close>

theorem wpa_lines_exact:
  assumes "nul \<notin> set t" "ended t"
  shows "get_line_from_buf cap (int n) (t @ nul # r) =
      (if n < length (split_lines t)
       then (if length (split_lines t ! n) < cap then Line (split_lines t ! n) else Bad) else No_Line) \<and>
    (\<forall>l ls. t = unlines (l # ls) \<and> line_text l \<and> (\<forall>l \<in> set ls. line_text l \<and> l \<noteq> []) \<longrightarrow> split_lines t = l # ls)"
  using get_line_split [OF assms] split_unlines(1) by (simp add: pick_line_def)

text \<open>
  C25: Reading back a scan: if the supplicant lists networks in its documented format, with flags of at most 63
  characters, names that are neither empty nor start with a blank and have at most 127 characters, and no more
  networks than the list has room for, the list that \<open>wpa_get_scan_r\<close> builds has each name and kind of key once,
  holds only networks of the reply with all their fields, and for every network of the reply the one with its
  name and kind of key that has at least its signal.  The kind of key is WPA2 if WPA2 is among the
  capabilities, else WPA if that is, else WEP if that is, else none if the first capability is \<open>ESS\<close>, else
  another one.
\<close>

theorem wpa_scan_read_back:
  assumes "line_text heading" "length heading < 512"
    and "\<forall>(n, caps) \<in> set ps. net_ok (n, flags_text caps) \<and> list_all cap_ok caps \<and> ssid_ok (ssid n)" "length ps \<le> cap"
  shows "\<exists>es. wpa_get_scan_r (scan_reply heading (map (\<lambda>(n, caps). (n, flags_text caps)) ps) @ nul # r) \<lparr> nets = [], room = cap \<rparr> =
      Some \<lparr> nets = es, room = cap \<rparr> \<and>
    distinct (map (\<lambda>n. (ssid n, key_mgmt n)) es) \<and> set es \<subseteq> (\<lambda>(n, caps). n\<lparr>key_mgmt := kind_of caps\<rparr>) ` set ps \<and>
    (\<forall>(n, caps) \<in> set ps. \<exists>e \<in> set es. ssid e = ssid n \<and> key_mgmt e = kind_of caps \<and> sig n \<le> sig e)"
proof -
  let ?ps = "map (\<lambda>(n, caps). (n, flags_text caps)) ps"
  have "\<forall>p \<in> set ?ps. net_ok p \<and> ssid_ok (ssid (fst p))" "length ?ps \<le> cap" using assms(3,4) by auto
  from scan_reply_read [OF assms(1,2) this, of r] obtain es where
    es: "wpa_get_scan_r (scan_reply heading ?ps @ nul # r) \<lparr> nets = [], room = cap \<rparr> = Some \<lparr> nets = es, room = cap \<rparr>"
      "distinct (map (\<lambda>n. (ssid n, key_mgmt n)) es)" "set es \<subseteq> net_of ` set ?ps"
      "\<forall>p \<in> set ?ps. \<exists>e \<in> set es. ssid e = ssid (net_of p) \<and> key_mgmt e = key_mgmt (net_of p) \<and> sig (net_of p) \<le> sig e" by blast
  have k: "net_of (n, flags_text caps) = n\<lparr>key_mgmt := kind_of caps\<rparr>" if "(n, caps) \<in> set ps" for n caps
    using assms(3) that by (auto simp: net_of_def key_of_flags)
  then have "net_of ` set ?ps = (\<lambda>(n, caps). n\<lparr>key_mgmt := kind_of caps\<rparr>) ` set ps"
    unfolding set_map image_image by (intro image_cong) auto
  moreover have "\<exists>e \<in> set es. ssid e = ssid n \<and> key_mgmt e = kind_of caps \<and> sig n \<le> sig e" if "(n, caps) \<in> set ps" for n caps
    using es(4) k [OF that] that by force
  ultimately show ?thesis using es(1-3) by auto
qed

text \<open>
  A network that hides its name takes the name of the network before it: its line ends after the last tab, so
  \<open>sscanf\<close> assigns no name, and \<open>ap\<close> keeps the one of the line before.  If its signal is stronger, the list has
  its address under the other network's name, and the address of the named network is gone.
\<close>

theorem wpa_hidden_takes_name:
  assumes "line_text heading" "length heading < 512"
    and "net_ok (a, fa)" "ssid_ok (ssid a)" "net_ok (b, fb)" "ssid b = []" "key_of fa = key_of fb" "sig a < sig b" "0 < cap"
  shows "wpa_get_scan_r (scan_reply heading [(a, fa), (b, fb)] @ nul # r) \<lparr> nets = [], room = cap \<rparr> =
    Some \<lparr> nets = [b\<lparr>ssid := ssid a, key_mgmt := key_of fa\<rparr>], room = cap \<rparr>"
proof -
  have "ssid a \<noteq> []" using assms(4) by (simp add: ssid_ok_def)
  then have a: "scan_fields (net_line (a, fa)) (ap, kt) = Some (a\<lparr>key_mgmt := key_mgmt ap\<rparr>, fa)" for ap kt
    using scan_fields_net [OF assms(3), of ap kt] assms(4) by simp
  have b: "scan_fields (net_line (b, fb)) (ap, kt) = Some (b\<lparr>key_mgmt := key_mgmt ap, ssid := ssid ap\<rparr>, fb)" for ap kt
    using scan_fields_net [OF assms(5), of ap kt] assms(6) by simp
  let ?a = "a\<lparr>key_mgmt := key_of fa\<rparr>" and ?b = "b\<lparr>ssid := ssid a, key_mgmt := key_of fa\<rparr>"
  have "scan_r_line (net_line (a, fa)) (s, \<lparr> nets = [], room = cap \<rparr>) = Some ((?a, fa), \<lparr> nets = [?a], room = cap \<rparr>)" for s
    using assms(9) by (cases s) (simp add: scan_r_line_def a wpa_reduce_repeat_ssid_def Let_def)
  moreover have "scan_r_line (net_line (b, fb)) ((?a, fa), \<lparr> nets = [?a], room = cap \<rparr>) = Some ((?b, fb), \<lparr> nets = [?b], room = cap \<rparr>)"
    using assms(7-9) by (simp add: scan_r_line_def b wpa_reduce_repeat_ssid_def Let_def)
  ultimately show ?thesis
    using wpa_get_scan_r_run [OF assms(1,2), of "[(a, fa), (b, fb)]"] assms(3-6) by simp
qed

text \<open>
  The reply to \<open>STATUS\<close> of a connected station gives the address and the name, but the frequency instead of
  the channel: \<open>id=\<close> is a line without a branch of its own, at which the local structure, whose \<open>chan\<close> is the
  frequency, is copied over the channel computed before, and reading stops, so that the key management that
  follows is never read.
\<close>

theorem wpa_info_frequency_for_channel:
  assumes "length bs = 6" "int_range f" "INT_MIN \<le> f - 2412" "token 36 name"
    and "\<forall>l \<in> set others. line_text l \<and> l \<noteq> [] \<and> length l < 256" "int_range n"
  shows "info_loop (unlines (status_lines bs f name n others) @ nul # r) p =
    Some \<lparr> ai_ssid = name, ai_passwd = [], ai_bssid = bs, ai_security = 0, ai_key_mgmt = [], ai_chan = f \<rparr>"
proof -
  let ?ls = "status_lines bs f name n others"
  have ls: "?ls = (''bssid='' @ mac_text bs) # tl ?ls" by (simp add: status_lines_def)
  have plain: "line_text (''bssid='' @ mac_text bs)" "\<forall>l \<in> set (tl ?ls). line_text l \<and> l \<noteq> []"
    using assms(4,5) line_text_token by (auto simp: status_lines_def eol_def)
  have short: "\<forall>l \<in> set ?ls. length l < 256"
    using assms length_mac [of bs] int_text_length [of f] int_text_length [of n]
    by (auto simp: status_lines_def token_def int_range_def)
  note t = split_unlines [OF plain, folded ls]
  show ?thesis using info_loop_run [OF t(3,2), of r p] short info_lines_status [OF assms(1-4), of n others p]
    by (simp add: t(1) zero_ap_info_def)
qed

text \<open>Concrete replies.\<close>

definition demo_net :: "string \<Rightarrow> int \<Rightarrow> string \<Rightarrow> wifi_scan_res" where
  "demo_net mac level name = \<lparr> mac_addr = mac, freq = 2437, sig = level, key_mgmt = WIFI_KEY_WPA2PSK, ssid = name \<rparr>"

definition demo_nets :: "(wifi_scan_res \<times> ap_cap list) list" where
  "demo_nets = [(demo_net ''02:00:00:00:00:01'' (-70) ''home'', [Cap_WPA2 ''PSK-CCMP'', Cap_ESS]),
                (demo_net ''02:00:00:00:00:02'' (-40) ''home'', [Cap_WPA2 ''PSK-CCMP'', Cap_ESS])]"

lemma demo_nets_ok: "\<forall>(n, caps) \<in> set demo_nets. net_ok (n, flags_text caps) \<and> list_all cap_ok caps \<and> ssid_ok (ssid n)"
  by code_simp

abbreviation demo_scan :: "(wifi_scan_res \<times> string) list" where
  "demo_scan \<equiv> map (\<lambda>(n, caps). (n, flags_text caps)) demo_nets"

theorem wpa_lines_exact_witness:
  "get_line_from_buf 256 (int 1) (''a=1'' @ [CHR 0x0A] @ ''b=2'' @ [CHR 0x0A] @ nul # [nul]) = Line ''b=2''"
proof -
  have "nul \<notin> set (''a=1'' @ [CHR 0x0A] @ ''b=2'' @ [CHR 0x0A])" "ended (''a=1'' @ [CHR 0x0A] @ ''b=2'' @ [CHR 0x0A])"
    "split_lines (''a=1'' @ [CHR 0x0A] @ ''b=2'' @ [CHR 0x0A]) = [''a=1'', ''b=2'']" by code_simp+
  from wpa_lines_exact [OF this(1,2), of 256 1 "[nul]"] this(3) show ?thesis by simp
qed

theorem wpa_scan_read_back_witness:
  "\<exists>es. wpa_get_scan_r (scan_reply ''bssid'' (map (\<lambda>(n, caps). (n, flags_text caps)) demo_nets) @ nul # []) \<lparr> nets = [], room = 128 \<rparr> =
       Some \<lparr> nets = es, room = 128 \<rparr> \<and>
     distinct (map (\<lambda>n. (ssid n, key_mgmt n)) es) \<and> (\<exists>e \<in> set es. ssid e = ''home'' \<and> key_mgmt e = WIFI_KEY_WPA2PSK \<and> -40 \<le> sig e)"
proof -
  have "line_text ''bssid''" "length ''bssid'' < 512" "length demo_nets \<le> 128" by code_simp+
  note w = wpa_scan_read_back [OF this(1,2) demo_nets_ok this(3), of "[]"]
  have "(demo_net ''02:00:00:00:00:02'' (-40) ''home'', [Cap_WPA2 ''PSK-CCMP'', Cap_ESS]) \<in> set demo_nets" by (simp add: demo_nets_def)
  moreover have "kind_of [Cap_WPA2 ''PSK-CCMP'', Cap_ESS] = WIFI_KEY_WPA2PSK" by (auto simp: kind_of_def)
  ultimately show ?thesis using w by (fastforce simp: demo_net_def)
qed

theorem wpa_hidden_takes_name_witness:
  "wpa_get_scan_r (scan_reply ''bssid'' [(demo_net ''02:00:00:00:00:01'' (-70) ''home'', ''[ESS]''), (demo_net ''02:00:00:00:00:02'' (-40) [], ''[ESS]'')] @ nul # [])
     \<lparr> nets = [], room = 128 \<rparr> =
   Some \<lparr> nets = [\<lparr> mac_addr = ''02:00:00:00:00:02'', freq = 2437, sig = -40, key_mgmt = WIFI_KEY_NONE, ssid = ''home'' \<rparr>], room = 128 \<rparr>"
proof -
  have h: "line_text ''bssid''" "length ''bssid'' < 512" by code_simp+
  have n: "net_ok (demo_net ''02:00:00:00:00:01'' (-70) ''home'', ''[ESS]'')" "ssid_ok (ssid (demo_net ''02:00:00:00:00:01'' (-70) ''home''))"
    "net_ok (demo_net ''02:00:00:00:00:02'' (-40) [], ''[ESS]'')" "key_of ''[ESS]'' = WIFI_KEY_NONE" by code_simp+
  show ?thesis using wpa_hidden_takes_name [OF h n(1,2,3) _ refl, of 128 "[]"] by (simp add: demo_net_def n(4))
qed

theorem wpa_info_frequency_for_channel_witness:
  "map_option ai_chan (info_loop (unlines (status_lines [2, 0, 0, 0, 0, 1] 2437 ''home'' 0 [''key_mgmt=WPA2-PSK'']) @ nul # []) zero_ap_info) = Some 2437"
proof -
  have "length [2, 0, 0, 0, 0, 1 :: u8] = 6" "int_range 2437" "INT_MIN \<le> 2437 - 2412" "token 36 ''home''"
    "\<forall>l \<in> set [''key_mgmt=WPA2-PSK'']. line_text l \<and> l \<noteq> [] \<and> length l < 256" "int_range 0" by code_simp+
  from wpa_info_frequency_for_channel [OF this, of "[]" zero_ap_info] show ?thesis by simp
qed

end
