(* ===== verification/Wpa_Command.thy ===== *)
theory Wpa_Command
  imports Wpa_Reply "HOL-Library.Monad_Syntax"
begin

text \<open>
  The commands of \<open>tkl_wifi/wpa_s/wpa_command.c\<close>.  The supplicant behind \<open>wpa_ctrl_open\<close> and \<open>wpa_ctrl_request\<close> is
  a parameter: a function from its state and a command to its reaction and its next state.  The state passed
  from call to call is that of the supplicant and the log of the requests sent.  \<open>None\<close> is an access to memory
  that is not there (an overflow, a dead local array) or a loop that does not return.
\<close>

section \<open>The control interface\<close>

text \<open>No connection, a request that fails or times out, or a reply.\<close>

datatype ctrl_reply = No_Connection | Failed | Answer string

type_synonym 's supplicant = "'s \<Rightarrow> string \<Rightarrow> ctrl_reply \<times> 's"

record 's link =
  sup :: 's
  sent :: "string list"

record wifi_network =
  net_id :: int
  net_ssid :: string
  psk :: string
  net_key_mgmt :: WIFI_KEY

text \<open>What \<open>value\<close> points to.\<close>

datatype wifi_value = V_null | V_str string | V_int int | V_net wifi_network

definition WPA_ALL_NETWORK :: int where "WPA_ALL_NETWORK = -1"
definition PSK_WPA_HEX_LEN :: nat where "PSK_WPA_HEX_LEN = 64"

abbreviation quoted :: "string \<Rightarrow> string" where
  "quoted s \<equiv> CHR 0x22 # s @ [CHR 0x22]"

section \<open>Commands\<close>

text \<open>\<open>sprintf(command, ...)\<close> into the array of 128 characters; \<open>Inl\<close> is a return before anything is sent.\<close>

definition to_command :: "string \<Rightarrow> (int + string) option" where
  "to_command s = map_option Inr (fits 128 s)"

definition set_network :: "int \<Rightarrow> string \<Rightarrow> (int + string) option" where
  "set_network i rest = to_command (''SET_NETWORK '' @ int_text i @ '' '' @ rest)"

text \<open>The number and the parameter in \<open>id+parameter\<close>, by way of \<open>wep_command[36]\<close> and \<open>wep_params[35]\<close>.\<close>

definition wep_split :: "string \<Rightarrow> (int \<times> string) option" where
  "wep_split v =
     (if length v < 36 \<and> CHR ''+'' \<in> set v
      then map_option (\<lambda>i. (i, tl (dropWhile (\<lambda>c. c \<noteq> CHR ''+'') v))) (atoi (takeWhile (\<lambda>c. c \<noteq> CHR ''+'') v))
      else None)"

definition on_net :: "wifi_value \<Rightarrow> (wifi_network \<Rightarrow> (int + string) option) \<Rightarrow> (int + string) option" where
  "on_net v f = (case v of V_net n \<Rightarrow> f n | _ \<Rightarrow> None)"

definition on_wep :: "wifi_value \<Rightarrow> string \<Rightarrow> (int + string) option" where
  "on_wep v key = (case v of V_str s \<Rightarrow> Option.bind (wep_split s) (\<lambda>(i, p). set_network i (key @ p)) | _ \<Rightarrow> None)"

definition on_id :: "wifi_value \<Rightarrow> string \<Rightarrow> string \<Rightarrow> (int + string) option" where
  "on_id v one all = (case v of V_int i \<Rightarrow> to_command (if i \<noteq> WPA_ALL_NETWORK then one @ int_text i else all) | _ \<Rightarrow> None)"

fun build_command :: "WIFI_COMMAND \<Rightarrow> wifi_value \<Rightarrow> (int + string) option" where
  "build_command WIFI_COMMAND_SCAN v =
     (case v of V_null \<Rightarrow> to_command ''SCAN'' | V_str s \<Rightarrow> to_command (''SCAN '' @ s) | _ \<Rightarrow> None)"
| "build_command WIFI_COMMAND_ADDNETWORK v = to_command ''ADD_NETWORK''"
| "build_command WIFI_COMMAND_SETNETWORK_SSID v = on_net v (\<lambda>n. set_network (net_id n) (''ssid '' @ quoted (net_ssid n)))"
| "build_command WIFI_COMMAND_SETNETWORK_SCANSSID v = on_net v (\<lambda>n. set_network (net_id n) ''scan_ssid 1'')"
| "build_command WIFI_COMMAND_SETNETWORK_PSK v = on_net v (\<lambda>n.
     set_network (net_id n) (''psk '' @ (if length (psk n) < PSK_WPA_HEX_LEN then quoted (psk n) else psk n)))"
| "build_command WIFI_COMMAND_SETNETWORK_AUTHALG v = on_wep v ''auth_alg ''"
| "build_command WIFI_COMMAND_SETNETWORK_WEPKEY0 v = on_net v (\<lambda>n.
     if length (psk n) = 5 \<or> length (psk n) = 13 then set_network (net_id n) (''wep_key0 '' @ quoted (psk n))
     else if length (psk n) = 10 \<or> length (psk n) = 26 then set_network (net_id n) (''wep_key0 '' @ psk n)
     else to_command [])"
| "build_command WIFI_COMMAND_SETNETWORK_WEPTXKEYID v = on_wep v ''wep_tx_keyidx ''"
| "build_command WIFI_COMMAND_SETNETWORK_KEYMETH v = on_net v (\<lambda>n.
     if net_key_mgmt n \<noteq> WIFI_KEY_NONE \<and> net_key_mgmt n \<noteq> WIFI_KEY_WEP then Some (Inl (-4))
     else set_network (net_id n) ''key_mgmt NONE'')"
| "build_command WIFI_COMMAND_ENABLENETWORK v = on_id v ''ENABLE_NETWORK  '' ''ENABLE_NETWORK all''"
| "build_command WIFI_COMMAND_SELECTNETWORK v = (case v of V_int i \<Rightarrow> to_command (''SELECT_NETWORK '' @ int_text i) | _ \<Rightarrow> None)"
| "build_command WIFI_COMMAND_REATTACH v = to_command ''REATTACH''"
| "build_command WIFI_COMMAND_RECONFIGURE v = to_command ''RECONFIGURE''"
| "build_command WIFI_COMMAND_GET_SIGNAL v = to_command ''SIGNAL_POLL''"
| "build_command WIFI_COMMAND_GET_CHANNEL v = to_command ''SIGNAL_POLL''"
| "build_command WIFI_COMMAND_GET_CURRENT_SSID v = to_command ''STATUS''"
| "build_command WIFI_COMMAND_GET_BSSID v = to_command ''STATUS''"
| "build_command WIFI_COMMAND_GET_STATUS v = to_command ''STATUS''"
| "build_command WIFI_COMMAND_GET_WIFI_INFO v = to_command ''STATUS''"
| "build_command WIFI_COMMAND_SAVECONFIG v = to_command ''SAVE_CONFIG''"
| "build_command WIFI_COMMAND_SCAN_R v = to_command ''SCAN_RESULTS''"
| "build_command WIFI_COMMAND_LISTNETWORK v = to_command ''LIST_NETWORKS''"
| "build_command WIFI_COMMAND_DISABLENETWORK v = on_id v ''DISABLE_NETWORK '' ''DISABLE_NETWORK all''"
| "build_command WIFI_COMMAND_DISCONNECT v = to_command ''DISCONNECT''"
| "build_command WIFI_COMMAND_RECONNCET v = to_command ''RECONNCET''"
| "build_command WIFI_COMMAND_REMOVENETWORK v = on_id v ''REMOVE_NETWORK '' ''REMOVE_NETWORK all''"
| "build_command WIFI_COMMAND_BLACKLIST_CLEAR v = to_command ''BLACKLIST clear''"
| "build_command WIFI_COMMAND_SET_COUNTRY v = (case v of V_str s \<Rightarrow> to_command (''set country '' @ s) | _ \<Rightarrow> None)"
| "build_command WIFI_COMMAND_GET_COUNTRY v = to_command ''get country''"

text \<open>\<open>reply[4096]\<close>, cleared before the request, with what \<open>recv\<close> stored of the answer.\<close>

definition reply_array :: "string \<Rightarrow> char list" where
  "reply_array a = take 4096 a @ replicate (4096 - length a) nul"

definition wifi_send_command ::
    "'s supplicant \<Rightarrow> WIFI_COMMAND \<Rightarrow> wifi_value \<Rightarrow> wifi_res \<Rightarrow> nat \<Rightarrow> 's link \<Rightarrow> (int \<times> wifi_res \<times> 's link) option" where
  "wifi_send_command ctrl cmd value res res_len k =
     (case build_command cmd value of
        None \<Rightarrow> None
      | Some (Inl e) \<Rightarrow> Some (e, res, k)
      | Some (Inr command) \<Rightarrow>
          (case ctrl (sup k) command of
             (No_Connection, s') \<Rightarrow> Some (-1, res, k\<lparr>sup := s'\<rparr>)
           | (Failed, s') \<Rightarrow> Some (0, res, k\<lparr>sup := s', sent := sent k @ [command]\<rparr>)
           | (Answer a, s') \<Rightarrow> do {
               cstr (reply_array a);
               (ret, res') \<leftarrow> wifi_reply_analyse cmd (reply_array a) res res_len;
               Some (0, res', k\<lparr>sup := s', sent := sent k @ [command]\<rparr>) }))"

text \<open>Commands with an \<open>int\<close> as result: what they return and what is in it afterwards.\<close>

definition send_int :: "'s supplicant \<Rightarrow> WIFI_COMMAND \<Rightarrow> wifi_value \<Rightarrow> int \<Rightarrow> 's link \<Rightarrow> (int \<times> int \<times> 's link) option" where
  "send_int ctrl cmd value r k =
     Option.bind (wifi_send_command ctrl cmd value (R_int r) 4 k)
       (\<lambda>(ret, res, k'). case res of R_int r' \<Rightarrow> Some (ret, r', k') | _ \<Rightarrow> None)"

text \<open>The pattern \<open>(ret == 0) && (res == 0)\<close>, which returns 0, otherwise -1; \<open>ret < 0 || res != 0\<close> gives the same.\<close>

definition send_ok :: "'s supplicant \<Rightarrow> WIFI_COMMAND \<Rightarrow> wifi_value \<Rightarrow> 's link \<Rightarrow> (int \<times> 's link) option" where
  "send_ok ctrl cmd value k =
     Option.bind (send_int ctrl cmd value 0 k) (\<lambda>(ret, res, k'). Some (if ret = 0 \<and> res = 0 then 0 else -1, k'))"

definition wifi_scan :: "'s supplicant \<Rightarrow> 's link \<Rightarrow> (int \<times> 's link) option" where
  "wifi_scan ctrl = send_ok ctrl WIFI_COMMAND_SCAN V_null"

definition wifi_disable_network :: "'s supplicant \<Rightarrow> int \<Rightarrow> 's link \<Rightarrow> (int \<times> 's link) option" where
  "wifi_disable_network ctrl i = send_ok ctrl WIFI_COMMAND_DISABLENETWORK (V_int i)"

definition wifi_disable_all_network :: "'s supplicant \<Rightarrow> 's link \<Rightarrow> (int \<times> 's link) option" where
  "wifi_disable_all_network ctrl = wifi_disable_network ctrl WPA_ALL_NETWORK"

definition wifi_remove_network :: "'s supplicant \<Rightarrow> int \<Rightarrow> 's link \<Rightarrow> (int \<times> 's link) option" where
  "wifi_remove_network ctrl i = send_ok ctrl WIFI_COMMAND_REMOVENETWORK (V_int i)"

definition wifi_remove_all_network :: "'s supplicant \<Rightarrow> 's link \<Rightarrow> (int \<times> 's link) option" where
  "wifi_remove_all_network ctrl = wifi_remove_network ctrl WPA_ALL_NETWORK"

definition wifi_reconfigure :: "'s supplicant \<Rightarrow> 's link \<Rightarrow> (int \<times> 's link) option" where
  "wifi_reconfigure ctrl = send_ok ctrl WIFI_COMMAND_RECONFIGURE V_null"

definition wifi_blacklist_clear :: "'s supplicant \<Rightarrow> 's link \<Rightarrow> (int \<times> 's link) option" where
  "wifi_blacklist_clear ctrl = send_ok ctrl WIFI_COMMAND_BLACKLIST_CLEAR V_null"

definition wifi_enable_network :: "'s supplicant \<Rightarrow> int \<Rightarrow> 's link \<Rightarrow> (int \<times> 's link) option" where
  "wifi_enable_network ctrl i = send_ok ctrl WIFI_COMMAND_ENABLENETWORK (V_int i)"

definition wifi_enable_all_network :: "'s supplicant \<Rightarrow> 's link \<Rightarrow> (int \<times> 's link) option" where
  "wifi_enable_all_network ctrl = wifi_enable_network ctrl WPA_ALL_NETWORK"

definition wifi_disconnect_network :: "'s supplicant \<Rightarrow> 's link \<Rightarrow> (int \<times> 's link) option" where
  "wifi_disconnect_network ctrl = send_ok ctrl WIFI_COMMAND_DISCONNECT V_null"

definition wifi_reconnect_network :: "'s supplicant \<Rightarrow> 's link \<Rightarrow> (int \<times> 's link) option" where
  "wifi_reconnect_network ctrl = send_ok ctrl WIFI_COMMAND_RECONNCET V_null"

text \<open>Results other than an \<open>int\<close>; a failure to connect is \<open>-1\<close>.\<close>

definition wifi_get_int :: "'s supplicant \<Rightarrow> WIFI_COMMAND \<Rightarrow> int \<Rightarrow> 's link \<Rightarrow> ((int \<times> int) \<times> 's link) option" where
  "wifi_get_int ctrl cmd v k = Option.bind (send_int ctrl cmd V_null v k) (\<lambda>(ret, r, k'). Some ((if ret < 0 then -1 else 0, r), k'))"

definition wifi_get_signal :: "'s supplicant \<Rightarrow> u8 \<Rightarrow> 's link \<Rightarrow> ((int \<times> u8) \<times> 's link) option" where
  "wifi_get_signal ctrl v k =
     Option.bind (wifi_send_command ctrl WIFI_COMMAND_GET_SIGNAL V_null (R_char v) 4 k)
       (\<lambda>(ret, res, k'). case res of R_char c \<Rightarrow> Some ((if ret < 0 then -1 else 0, c), k') | _ \<Rightarrow> None)"

definition wifi_get_current_channel :: "'s supplicant \<Rightarrow> int \<Rightarrow> 's link \<Rightarrow> ((int \<times> int) \<times> 's link) option" where
  "wifi_get_current_channel ctrl = wifi_get_int ctrl WIFI_COMMAND_GET_CHANNEL"

definition wifi_get_status :: "'s supplicant \<Rightarrow> int \<Rightarrow> 's link \<Rightarrow> ((int \<times> int) \<times> 's link) option" where
  "wifi_get_status ctrl = wifi_get_int ctrl WIFI_COMMAND_GET_STATUS"

definition wifi_get_listnetwork :: "'s supplicant \<Rightarrow> int \<Rightarrow> 's link \<Rightarrow> ((int \<times> int) \<times> 's link) option" where
  "wifi_get_listnetwork ctrl = wifi_get_int ctrl WIFI_COMMAND_LISTNETWORK"

definition wifi_get_ap_info :: "'s supplicant \<Rightarrow> WF_CONNECTED_AP_INFO_S \<Rightarrow> 's link \<Rightarrow> ((int \<times> WF_CONNECTED_AP_INFO_S) \<times> 's link) option" where
  "wifi_get_ap_info ctrl p k =
     Option.bind (wifi_send_command ctrl WIFI_COMMAND_GET_WIFI_INFO V_null (R_info zero_ap_info) 128 k)
       (\<lambda>(ret, res, k'). case res of R_info i \<Rightarrow> Some (if ret < 0 then (-1, p) else (0, i), k') | _ \<Rightarrow> None)"

definition wifi_get_current_ssid :: "'s supplicant \<Rightarrow> 's link \<Rightarrow> ((int \<times> char list) \<times> 's link) option" where
  "wifi_get_current_ssid ctrl k =
     Option.bind (wifi_send_command ctrl WIFI_COMMAND_GET_CURRENT_SSID V_null (R_text (replicate 128 nul)) 128 k)
       (\<lambda>(ret, res, k'). case res of R_text t \<Rightarrow> Some ((if ret = 0 then 0 else -1, t), k') | _ \<Rightarrow> None)"

definition wifi_get_current_connect_ap_bssid :: "'s supplicant \<Rightarrow> 's link \<Rightarrow> ((int \<times> bytes) \<times> 's link) option" where
  "wifi_get_current_connect_ap_bssid ctrl k =
     Option.bind (wifi_send_command ctrl WIFI_COMMAND_GET_BSSID V_null (R_bytes (replicate 6 0)) 6 k)
       (\<lambda>(ret, res, k'). case res of R_bytes b \<Rightarrow> Some ((if ret < 0 then -1 else 0, b), k') | _ \<Rightarrow> None)"

text \<open>The first \<open>int\<close> of the array \<open>res\<close> is all that is written of it, and nothing reads it.\<close>

definition wifi_set_country :: "'s supplicant \<Rightarrow> string \<Rightarrow> 's link \<Rightarrow> (int \<times> 's link) option" where
  "wifi_set_country ctrl country k =
     Option.bind (wifi_send_command ctrl WIFI_COMMAND_SET_COUNTRY (V_str country) (R_int 0) 32 k)
       (\<lambda>(ret, res, k'). Some (if ret < 0 then -1 else 0, k'))"

definition wifi_get_country :: "'s supplicant \<Rightarrow> char list \<Rightarrow> 's link \<Rightarrow> ((int \<times> char list) \<times> 's link) option" where
  "wifi_get_country ctrl country k = do {
     s \<leftarrow> cstr country;
     (ret, res, k') \<leftarrow> wifi_send_command ctrl WIFI_COMMAND_GET_COUNTRY V_null (R_text country) (length s) k;
     (case res of R_text t \<Rightarrow> Some ((if ret < 0 then -1 else 0, t), k') | _ \<Rightarrow> None) }"

section \<open>Scans\<close>

text \<open>\<open>strcat(params, channel)\<close> after \<open>sprintf(channel, "%d,", ...)\<close>, into \<open>params[128]\<close> and \<open>channel[6]\<close>.\<close>

fun channel_loop :: "int list \<Rightarrow> string \<Rightarrow> string option" where
  "channel_loop [] params = Some params"
| "channel_loop (f # fs) params = do {
     channel \<leftarrow> fits 6 (int_text f @ '','');
     params' \<leftarrow> fits 128 (params @ channel);
     channel_loop fs params' }"

text \<open>\<open>freq\<close> is the array behind the pointer; the loop reads \<open>num\<close> elements of it.\<close>

definition wifi_scan_channel :: "'s supplicant \<Rightarrow> int \<Rightarrow> int list option \<Rightarrow> 's link \<Rightarrow> (int \<times> 's link) option" where
  "wifi_scan_channel ctrl num fp k =
     (case fp of
        None \<Rightarrow> Some (-1, k)
      | Some fs \<Rightarrow>
          if num > 21 then Some (-1, k)
          else if num = 0 then wifi_scan ctrl k
          else if num > int (length fs) then None
          else do {
            params \<leftarrow> channel_loop (take (nat num) fs) ''freq='';
            send_ok ctrl WIFI_COMMAND_SCAN (V_str (butlast params)) k })"

text \<open>
  Local arrays of \<open>struct wifi_scan_res\<close>.  Each gets an address of its own when its function is entered and is
  taken away when the function returns, so that a pointer that outlives the function leads nowhere.
\<close>

record frames =
  fr_next :: nat
  fr_live :: "nat \<rightharpoonup> wifi_scan_res list"

definition no_frames :: frames where
  "no_frames = \<lparr> fr_next = 0, fr_live = Map.empty \<rparr>"

definition enter_array :: "wifi_scan_res list \<Rightarrow> frames \<Rightarrow> nat \<times> frames" where
  "enter_array a st = (fr_next st, \<lparr> fr_next = Suc (fr_next st), fr_live = (fr_live st)(fr_next st \<mapsto> a) \<rparr>)"

definition leave_array :: "nat \<Rightarrow> frames \<Rightarrow> frames" where
  "leave_array p st = st\<lparr>fr_live := (fr_live st)(p := None)\<rparr>"

definition store_array :: "nat \<Rightarrow> wifi_scan_res list \<Rightarrow> frames \<Rightarrow> frames option" where
  "store_array p a st = (if fr_live st p = None then None else Some (st\<lparr>fr_live := (fr_live st)(p \<mapsto> a)\<rparr>))"

text \<open>\<open>p[i]\<close>: the array is live and has the element.\<close>

definition read_array :: "frames \<Rightarrow> nat \<Rightarrow> nat \<Rightarrow> wifi_scan_res option" where
  "read_array st p i = Option.bind (fr_live st p) (\<lambda>a. if i < length a then Some (a ! i) else None)"

text \<open>\<open>struct wifi_scan_list\<close> as its users have it: the number of networks and the address of the array.\<close>

record scan_ref =
  sl_num :: nat
  sl_ssid :: nat

text \<open>
  \<open>wifi_get_scan_result\<close> clears its local array \<open>ssid_list\<close>, stores its address in \<open>list->ssid\<close>, has the reply
  read into it and returns.
\<close>

definition wifi_get_scan_result :: "'s supplicant \<Rightarrow> frames \<Rightarrow> 's link \<Rightarrow> ((int \<times> scan_ref) \<times> frames \<times> 's link) option" where
  "wifi_get_scan_result ctrl st k =
     (let (ssid_list, st) = enter_array (replicate 128 zero_scan_res) st in do {
        (ret, res, k) \<leftarrow> wifi_send_command ctrl WIFI_COMMAND_SCAN_R V_null (R_list \<lparr> nets = [], room = 128 \<rparr>) (128 * 160) k;
        (case res of
           R_list l \<Rightarrow> do {
             st \<leftarrow> store_array ssid_list (nets l @ replicate (128 - length (nets l)) zero_scan_res) st;
             let list = \<lparr> sl_num = length (nets l), sl_ssid = ssid_list \<rparr>;
             Some ((if ret < 0 then -1 else 0, list), leave_array ssid_list st, k) }
         | _ \<Rightarrow> None) })"

partial_function (option) block_scan_loop ::
    "'s supplicant \<Rightarrow> int \<Rightarrow> int \<Rightarrow> scan_ref \<Rightarrow> frames \<Rightarrow> 's link \<Rightarrow> ((int \<times> scan_ref) \<times> frames \<times> 's link) option" where
  "block_scan_loop ctrl timeout status list st k =
     Option.bind (wifi_get_status ctrl status k) (\<lambda>((ret, status'), k').
       if ret < 0 then Some ((-1, list), st, k')
       else if status' \<noteq> WIFI_SCANING \<or> timeout = 0
       then Option.bind (wifi_get_scan_result ctrl st k') (\<lambda>((ret', list'), st', k''). Some ((if ret' < 0 then -1 else 0, list'), st', k''))
       else block_scan_loop ctrl (timeout - 1) status' list st k')"

definition wifi_get_block_scan_result ::
    "'s supplicant \<Rightarrow> int \<Rightarrow> scan_ref \<Rightarrow> frames \<Rightarrow> 's link \<Rightarrow> ((int \<times> scan_ref) \<times> frames \<times> 's link) option" where
  "wifi_get_block_scan_result ctrl timeout list st k =
     Option.bind (wifi_scan ctrl k) (\<lambda>(ret, k'). block_scan_loop ctrl timeout 0 list st k')"

section \<open>Joining a network\<close>

definition wep_length :: "nat \<Rightarrow> bool" where
  "wep_length n \<longleftrightarrow> n = 5 \<or> n = 13 \<or> n = 16 \<or> n = 10 \<or> n = 26 \<or> n = 32"

text \<open>The loop over the networks of the scan, from the index \<open>i\<close> with \<open>n\<close> of them left; it may change the kind of key.\<close>

fun wep_loop :: "frames \<Rightarrow> scan_ref \<Rightarrow> nat \<Rightarrow> nat \<Rightarrow> wifi_network \<Rightarrow> wifi_network option" where
  "wep_loop st list i 0 net = Some net"
| "wep_loop st list i (Suc n) net = do {
     e \<leftarrow> read_array st (sl_ssid list) i;
     wep_loop st list (Suc i) n
       (if key_mgmt e = WIFI_KEY_WEP \<and> starts (net_ssid net) (ssid e) then net\<lparr>net_key_mgmt := WIFI_KEY_WEP\<rparr> else net) }"

text \<open>
  The search for a WEP network of that name, with the array \<open>scan_r\<close> of \<open>wifi_join_network\<close> itself, which is
  not initialised, at address \<open>scan_r\<close>.
\<close>

definition wep_probe ::
    "'s supplicant \<Rightarrow> wifi_network \<Rightarrow> nat \<Rightarrow> frames \<Rightarrow> 's link \<Rightarrow> (wifi_network \<times> frames \<times> 's link) option" where
  "wep_probe ctrl net scan_r st k =
     (if wep_length (length (psk net))
      then do {
        ((ret, list), st, k) \<leftarrow> wifi_get_block_scan_result ctrl 3 \<lparr> sl_num = 0, sl_ssid = scan_r \<rparr> st k;
        net \<leftarrow> wep_loop st list 0 (sl_num list) net;
        Some (net, st, k) }
      else Some (net, st, k))"

text \<open>A step \<open>ret = wifi_send_command(...); if (ret < 0 || res != 0) return -2;\<close>: \<open>None\<close> inside is the step's success.\<close>

definition join_step :: "'s supplicant \<Rightarrow> WIFI_COMMAND \<Rightarrow> wifi_value \<Rightarrow> int \<Rightarrow> 's link \<Rightarrow> (int option \<times> int \<times> 's link) option" where
  "join_step ctrl cmd value r k =
     Option.bind (send_int ctrl cmd value r k) (\<lambda>(ret, res, k'). Some (if ret < 0 \<or> res \<noteq> 0 then Some (-2) else None, res, k'))"

fun join_steps :: "'s supplicant \<Rightarrow> (WIFI_COMMAND \<times> wifi_value) list \<Rightarrow> int \<Rightarrow> 's link \<Rightarrow> (int \<times> 's link) option" where
  "join_steps ctrl [] r k = Some (0, k)"
| "join_steps ctrl ((cmd, value) # cs) r k =
     Option.bind (join_step ctrl cmd value r k) (\<lambda>(stop, r', k').
       case stop of Some e \<Rightarrow> Some (e, k') | None \<Rightarrow> join_steps ctrl cs r' k')"

definition key_steps :: "wifi_network \<Rightarrow> (WIFI_COMMAND \<times> wifi_value) list" where
  "key_steps net =
     (if net_key_mgmt net = WIFI_KEY_NONE then [(WIFI_COMMAND_SETNETWORK_KEYMETH, V_net net)]
      else if net_key_mgmt net = WIFI_KEY_WEP
      then [(WIFI_COMMAND_SETNETWORK_KEYMETH, V_net net),
            (WIFI_COMMAND_SETNETWORK_AUTHALG, V_str (int_text (net_id net) @ ''+SHARED OPEN'')),
            (WIFI_COMMAND_SETNETWORK_WEPKEY0, V_net net),
            (WIFI_COMMAND_SETNETWORK_WEPTXKEYID, V_str (int_text (net_id net) @ ''+0''))]
      else [(WIFI_COMMAND_SETNETWORK_PSK, V_net net)])"

definition network_steps :: "wifi_network \<Rightarrow> (WIFI_COMMAND \<times> wifi_value) list" where
  "network_steps net =
     [(WIFI_COMMAND_SETNETWORK_SSID, V_net net)] @ key_steps net @
     [(WIFI_COMMAND_SETNETWORK_SCANSSID, V_net net), (WIFI_COMMAND_SELECTNETWORK, V_int (net_id net))]"

definition wifi_join_network :: "'s supplicant \<Rightarrow> wifi_network \<Rightarrow> 's link \<Rightarrow> ((int \<times> wifi_network) \<times> 's link) option" where
  "wifi_join_network ctrl net k = do {
     let (scan_r, st) = enter_array [] no_frames;
     (net, st, k) \<leftarrow> wep_probe ctrl net scan_r st k;
     (ret, k) \<leftarrow> wifi_blacklist_clear ctrl k;
     (ret, i, k) \<leftarrow> send_int ctrl WIFI_COMMAND_ADDNETWORK V_null (net_id net) k;
     let net' = net\<lparr>net_id := i\<rparr>;
     if ret < 0 then Some ((-1, net'), k)
     else do { (ret, k) \<leftarrow> join_steps ctrl (network_steps net') 0 k; Some ((ret, net'), k) } }"

definition wifi_save_network :: "'s supplicant \<Rightarrow> 's link \<Rightarrow> (int \<times> 's link) option" where
  "wifi_save_network ctrl k = do {
     (ret, k) \<leftarrow> wifi_enable_all_network ctrl k;
     if ret < 0 then Some (ret, k)
     else do {
       ((ret, status), k) \<leftarrow> wifi_get_status ctrl 0 k;
       if ret = 0 \<and> status = WIFI_CONNECTED
       then do {
         (ret, res, k) \<leftarrow> send_int ctrl WIFI_COMMAND_SAVECONFIG V_null 0 k;
         Some (if res = 0 then 0 else -1, k) }
       else Some (-1, k) } }"

definition network_get_status :: "int \<Rightarrow> int \<times> int" where
  "network_get_status status = (0, status)"

text \<open>The commands given to \<open>system\<close>.\<close>

definition dhcp_reset :: "string list" where
  "dhcp_reset = [''killall dhcpcd'' @ [CHR 0x0A]]"

definition wifi_goto_lowermode :: "int \<Rightarrow> string list" where
  "wifi_goto_lowermode state =
     (if state \<noteq> 0 then [''iptables -A OUTPUT  -j DROP -o wlan0'', ''iptables -A INPUT -j DROP -i wlan0''] else [''iptables -F''])"

section \<open>The monitor connection\<close>

text \<open>The static variables \<open>monitor_conn\<close> and \<open>exit_sockets\<close>, with the connections closed so far.\<close>

record monitor =
  monitor_conn :: "nat option"
  exit_sockets :: "int \<times> int"
  conn_closed :: "nat list"

text \<open>The answers of \<open>wpa_ctrl_open\<close>, \<open>wpa_ctrl_attach\<close> and \<open>socketpair\<close> are arguments.\<close>

definition wifi_connect_moni_socket :: "nat option \<Rightarrow> int \<Rightarrow> (int \<times> int) option \<Rightarrow> monitor \<Rightarrow> int \<times> monitor" where
  "wifi_connect_moni_socket opened attach pair mo =
     (case opened of
        None \<Rightarrow> (-1, mo\<lparr>monitor_conn := None\<rparr>)
      | Some c \<Rightarrow>
          if attach \<noteq> 0 then (-1, mo\<lparr>monitor_conn := None, conn_closed := conn_closed mo @ [c]\<rparr>)
          else case pair of
                 None \<Rightarrow> (-1, mo\<lparr>monitor_conn := None, conn_closed := conn_closed mo @ [c]\<rparr>)
               | Some ab \<Rightarrow> (0, mo\<lparr>monitor_conn := Some c, exit_sockets := ab\<rparr>))"

text \<open>The result of \<open>poll\<close>, whether the connection has input, and what \<open>wpa_ctrl_recv\<close> returns.\<close>

definition wifi_ctrl_recv :: "int \<Rightarrow> bool \<Rightarrow> int \<Rightarrow> monitor \<Rightarrow> int" where
  "wifi_ctrl_recv polled ready received mo =
     (case monitor_conn mo of
        None \<Rightarrow> -1
      | Some c \<Rightarrow> if polled < 0 then polled
                  else if polled > 0 then (if ready then received else -2) else 1)"

text \<open>\<open>wpa_ctrl_close(NULL)\<close> does nothing.\<close>

definition wifi_monitor_release :: "monitor \<Rightarrow> monitor" where
  "wifi_monitor_release mo =
     mo\<lparr>monitor_conn := None, conn_closed := conn_closed mo @ (case monitor_conn mo of None \<Rightarrow> [] | Some c \<Rightarrow> [c])\<rparr>"

section \<open>Replies\<close>

lemma reply_array_short: "length a < 4096 \<Longrightarrow> reply_array a = a @ nul # replicate (4095 - length a) nul"
  by (simp add: reply_array_def Suc_diff_Suc flip: replicate_Suc)

lemma cstr_reply: "length a < 4096 \<Longrightarrow> nul \<notin> set a \<Longrightarrow> cstr (reply_array a) = Some a"
  by (simp add: reply_array_short)

definition ack_ok :: "WIFI_COMMAND \<Rightarrow> bool" where
  "ack_ok cmd \<longleftrightarrow> map_of wifi_command_pack_sum cmd = Some WIFI_COMMAND_ACK_OK"

text \<open>The two answers to a command that is only acknowledged.\<close>

definition ack :: "bool \<Rightarrow> string" where
  "ack b = (if b then ''OK'' else ''FAIL'') @ [CHR 0x0A]"

lemma ack_props: "length (ack b) < 4096" "nul \<notin> set (ack b)" "analyse_ok (reply_array (ack b)) 4 = (if b then 0 else -1)"
  by (auto simp: ack_def analyse_ok_def reply_array_def Let_def)

abbreviation after :: "'s link \<Rightarrow> 's \<Rightarrow> string \<Rightarrow> 's link" where
  "after k s' c \<equiv> k\<lparr>sup := s', sent := sent k @ [c]\<rparr>"

lemma send_int_ack:
  assumes "ack_ok cmd" "build_command cmd v = Some (Inr c)" "ctrl (sup k) c = (Answer (ack b), s')"
  shows "send_int ctrl cmd v r k = Some (0, if b then 0 else -1, after k s' c)"
  using assms ack_props cstr_reply [OF ack_props(1,2)]
  by (simp add: send_int_def wifi_send_command_def wifi_reply_analyse_def ack_ok_def)

lemma send_int_failed:
  assumes "build_command cmd v = Some (Inr c)" "ctrl (sup k) c = (Failed, s')"
  shows "send_int ctrl cmd v r k = Some (0, r, after k s' c)"
  using assms by (simp add: send_int_def wifi_send_command_def)

lemma send_int_number:
  assumes "ctrl (sup k) ''ADD_NETWORK'' = (Answer (int_text n @ [CHR 0x0A]), s')" "int_range n"
  shows "send_int ctrl WIFI_COMMAND_ADDNETWORK V_null r k = Some (0, n, after k s' ''ADD_NETWORK'')"
proof -
  have a: "length (int_text n @ [CHR 0x0A]) < 4096" "nul \<notin> set (int_text n @ [CHR 0x0A])"
    using int_text_length [of n] assms(2) line_text_int [of n] by (auto simp: int_range_def line_text_def)
  have "scan_d (int_text n @ [CHR 0x0A]) = Match n [CHR 0x0A]"
    using assms(2) by (intro scan_d_int_text) (auto simp: int_range_def digit_def)
  moreover have "skip_ws (int_text n @ [CHR 0x0A]) \<noteq> []" using int_text_start [of n] by simp
  ultimately have "int_reply (reply_array (int_text n @ [CHR 0x0A])) r = Some n"
    using cstr_reply [OF a] by (simp add: int_reply_def)
  then show ?thesis using assms(1) cstr_reply [OF a]
    by (simp add: send_int_def wifi_send_command_def wifi_reply_analyse_def wifi_command_pack_sum_def
        analyse_int_def on_int_def to_command_def fits_def)
qed

section \<open>Steps of joining\<close>

text \<open>What a step sends.\<close>

definition step_text :: "WIFI_COMMAND \<times> wifi_value \<Rightarrow> string" where
  "step_text = (\<lambda>(cmd, v). case build_command cmd v of Some (Inr c) \<Rightarrow> c | _ \<Rightarrow> [])"

definition sendable :: "WIFI_COMMAND \<times> wifi_value \<Rightarrow> bool" where
  "sendable = (\<lambda>(cmd, v). ack_ok cmd \<and> (\<exists>c. build_command cmd v = Some (Inr c)))"

lemma sendableD: "sendable (cmd, v) \<Longrightarrow> ack_ok cmd \<and> build_command cmd v = Some (Inr (step_text (cmd, v)))"
  by (auto simp: sendable_def step_text_def)

lemma join_steps_ack:
  assumes "\<And>s c. c \<in> step_text ` set cs \<Longrightarrow> \<exists>s'. ctrl s c = (Answer (ack (accepts c)), s')" "\<forall>x \<in> set cs. sendable x"
  shows "\<exists>k'. join_steps ctrl cs r k = Some (if list_all accepts (map step_text cs) then 0 else -2, k') \<and>
    sent k' = sent k @ takeWhile accepts (map step_text cs) @ take 1 (dropWhile accepts (map step_text cs))"
  using assms
proof (induction cs arbitrary: r k)
  case (Cons x cs)
  obtain cmd v where x: "x = (cmd, v)" by force
  let ?c = "step_text (cmd, v)"
  obtain s' where s': "ctrl (sup k) ?c = (Answer (ack (accepts ?c)), s')" using Cons.prems(1) [of ?c] x by auto
  have st: "join_step ctrl cmd v r k = Some (if accepts ?c then None else Some (-2), if accepts ?c then 0 else -1, after k s' ?c)"
    using send_int_ack [of cmd v ?c ctrl k "accepts ?c" s' r] s' sendableD [of cmd v] Cons.prems(2) x by (simp add: join_step_def)
  show ?case
  proof (cases "accepts ?c")
    case True
    obtain k' where "join_steps ctrl cs 0 (after k s' ?c) = Some (if list_all accepts (map step_text cs) then 0 else -2, k')"
      "sent k' = sent (after k s' ?c) @ takeWhile accepts (map step_text cs) @ take 1 (dropWhile accepts (map step_text cs))"
      using Cons.IH [of 0 "after k s' ?c"] Cons.prems by auto
    then show ?thesis using st True x by simp
  next
    case False
    then show ?thesis using st x by simp
  qed
qed simp

lemma join_steps_failed:
  assumes "\<And>s c. \<exists>s'. ctrl s c = (Failed, s')" "\<forall>x \<in> set cs. sendable x"
  shows "\<exists>k'. join_steps ctrl cs 0 k = Some (0, k') \<and> sent k' = sent k @ map step_text cs"
  using assms(2)
proof (induction cs arbitrary: k)
  case (Cons x cs)
  obtain cmd v where x: "x = (cmd, v)" by force
  obtain s' where s': "ctrl (sup k) (step_text (cmd, v)) = (Failed, s')" using assms(1) by blast
  have "join_step ctrl cmd v 0 k = Some (None, 0, after k s' (step_text (cmd, v)))"
    using send_int_failed [of cmd v _ ctrl k s' 0] s' sendableD [of cmd v] Cons.prems x by (simp add: join_step_def)
  moreover obtain k' where "join_steps ctrl cs 0 (after k s' (step_text (cmd, v))) = Some (0, k')"
    "sent k' = sent (after k s' (step_text (cmd, v))) @ map step_text cs"
    using Cons by fastforce
  ultimately show ?case using x by simp
qed simp

text \<open>A network whose strings are terminated within their arrays.\<close>

definition net_fits :: "wifi_network \<Rightarrow> bool" where
  "net_fits net \<longleftrightarrow> length (net_ssid net) < 36 \<and> length (psk net) < 68 \<and> int_range (net_id net)"

lemma set_network_fits: "int_range i \<Longrightarrow> length rest < 100 \<Longrightarrow> set_network i rest = Some (Inr (''SET_NETWORK '' @ int_text i @ '' '' @ rest))"
  using int_text_length [of i] by (simp add: set_network_def to_command_def fits_def int_range_def)

lemma int_text_no_plus: "CHR ''+'' \<notin> set (int_text i)"
  using dec_digits_value [of "nat i"] dec_digits_value [of "nat (- i)"] digit_not_sign by (auto simp: int_text_def)

lemma wep_split_int:
  assumes "int_range i" "length p < 20"
  shows "wep_split (int_text i @ CHR ''+'' # p) = Some (i, p)"
proof -
  have "takeWhile (\<lambda>c. c \<noteq> CHR ''+'') (int_text i @ CHR ''+'' # p) = int_text i"
    "dropWhile (\<lambda>c. c \<noteq> CHR ''+'') (int_text i @ CHR ''+'' # p) = CHR ''+'' # p"
    using int_text_no_plus [of i] by (simp_all add: takeWhile_append dropWhile_append)
  moreover have "atoi (int_text i) = Some i"
    using scan_d_int_text [of i "[]"] assms(1) by (simp add: atoi_def int_range_def)
  moreover have "length (int_text i) \<le> 11" using int_text_length assms(1) by (simp add: int_range_def)
  ultimately show ?thesis using assms(2) by (simp add: wep_split_def)
qed

lemmas ack_table = ack_ok_def wifi_command_pack_sum_def

text \<open>What the steps send, for every network that fits.\<close>

definition psk_text :: "string \<Rightarrow> string" where
  "psk_text p = (if length p < 64 then quoted p else p)"

lemma step_builds:
  assumes "net_fits net"
  shows "build_command WIFI_COMMAND_SETNETWORK_SSID (V_net net) =
      Some (Inr (''SET_NETWORK '' @ int_text (net_id net) @ '' ssid '' @ quoted (net_ssid net)))"
    and "build_command WIFI_COMMAND_SETNETWORK_PSK (V_net net) =
      Some (Inr (''SET_NETWORK '' @ int_text (net_id net) @ '' psk '' @ psk_text (psk net)))"
    and "build_command WIFI_COMMAND_SETNETWORK_SCANSSID (V_net net) =
      Some (Inr (''SET_NETWORK '' @ int_text (net_id net) @ '' scan_ssid 1''))"
    and "build_command WIFI_COMMAND_SELECTNETWORK (V_int (net_id net)) = Some (Inr (''SELECT_NETWORK '' @ int_text (net_id net)))"
    and "net_key_mgmt net = WIFI_KEY_NONE \<or> net_key_mgmt net = WIFI_KEY_WEP \<Longrightarrow>
      build_command WIFI_COMMAND_SETNETWORK_KEYMETH (V_net net) = Some (Inr (''SET_NETWORK '' @ int_text (net_id net) @ '' key_mgmt NONE''))"
    and "build_command WIFI_COMMAND_SETNETWORK_AUTHALG (V_str (int_text (net_id net) @ ''+SHARED OPEN'')) =
      Some (Inr (''SET_NETWORK '' @ int_text (net_id net) @ '' auth_alg SHARED OPEN''))"
    and "build_command WIFI_COMMAND_SETNETWORK_WEPTXKEYID (V_str (int_text (net_id net) @ ''+0'')) =
      Some (Inr (''SET_NETWORK '' @ int_text (net_id net) @ '' wep_tx_keyidx 0''))"
    and "\<exists>c. build_command WIFI_COMMAND_SETNETWORK_WEPKEY0 (V_net net) = Some (Inr c)"
  using assms int_text_length [of "net_id net"] wep_split_int [of "net_id net" "''SHARED OPEN''"] wep_split_int [of "net_id net" "''0''"]
  by (auto simp: on_net_def on_wep_def net_fits_def set_network_fits psk_text_def PSK_WPA_HEX_LEN_def to_command_def fits_def int_range_def)

lemma network_steps_sendable: "net_fits net \<Longrightarrow> \<forall>x \<in> set (network_steps net). sendable x"
  using step_builds [of net] by (auto simp: network_steps_def key_steps_def sendable_def ack_table)

definition join_script :: "wifi_network \<Rightarrow> string list" where
  "join_script net =
     [''SET_NETWORK '' @ int_text (net_id net) @ '' ssid '' @ quoted (net_ssid net),
      (if net_key_mgmt net = WIFI_KEY_NONE then ''SET_NETWORK '' @ int_text (net_id net) @ '' key_mgmt NONE''
       else ''SET_NETWORK '' @ int_text (net_id net) @ '' psk '' @ psk_text (psk net)),
      ''SET_NETWORK '' @ int_text (net_id net) @ '' scan_ssid 1'',
      ''SELECT_NETWORK '' @ int_text (net_id net)]"

lemma network_steps_script:
  assumes "net_fits net" "net_key_mgmt net \<noteq> WIFI_KEY_WEP"
  shows "map step_text (network_steps net) = join_script net"
  using assms(2) step_builds [OF assms(1)]
  by (simp add: network_steps_def key_steps_def step_text_def join_script_def)

lemma simple_builds:
  "build_command WIFI_COMMAND_BLACKLIST_CLEAR V_null = Some (Inr ''BLACKLIST clear'')"
  "build_command WIFI_COMMAND_ADDNETWORK V_null = Some (Inr ''ADD_NETWORK'')"
  "build_command WIFI_COMMAND_SCAN V_null = Some (Inr ''SCAN'')"
  "build_command WIFI_COMMAND_GET_STATUS V_null = Some (Inr ''STATUS'')"
  "build_command WIFI_COMMAND_SCAN_R V_null = Some (Inr ''SCAN_RESULTS'')"
  by (simp_all add: to_command_def fits_def)

lemma script_not_add: "c \<in> set (join_script net) \<Longrightarrow> c \<noteq> ''ADD_NETWORK''"
  by (auto simp: join_script_def split: if_splits)

section \<open>Status and scans\<close>

text \<open>What the lines of \<open>STATUS\<close> say: the first that names one of the two states decides.\<close>

definition status_of :: "string list \<Rightarrow> int" where
  "status_of ls = (case filter (\<lambda>l. strstr l ''wpa_state=COMPLETED'' \<or> strstr l ''wpa_state=SCANNING'') ls of
     [] \<Rightarrow> WIFI_UNCONNECTED | l # _ \<Rightarrow> if strstr l ''wpa_state=COMPLETED'' then WIFI_CONNECTED else WIFI_SCANING)"

definition status_line :: "string \<Rightarrow> int \<Rightarrow> int flow" where
  "status_line l s = (if strstr l ''wpa_state=COMPLETED'' then Leave WIFI_CONNECTED
     else if strstr l ''wpa_state=SCANNING'' then Leave WIFI_SCANING else Next WIFI_UNCONNECTED)"

lemma run_status: "finish (run_lines status_line ls s) = Some (if ls = [] then s else status_of ls)"
proof (induction ls arbitrary: s)
  case (Cons l ls)
  then show ?case by (cases ls) (auto simp: status_line_def status_of_def)
qed simp

lemma status_loop_reads:
  assumes "nul \<notin> set t" "ended t" "\<forall>l \<in> set (split_lines t). length l < 256"
  shows "wpa_status_loop (t @ nul # r) res = Some (status_of (split_lines t))"
proof -
  have "wpa_status_loop (t @ nul # r) res = finish (run_lines status_line (split_lines t) res)"
    using each_line_run [OF assms(1,2), of "replicate 256 nul" status_line r 0] assms(3)
    by (simp add: wpa_status_loop_def status_line_def [abs_def])
  moreover have "split_lines t \<noteq> []" by (simp add: split_lines_def)
  ultimately show ?thesis by (simp add: run_status)
qed

lemma get_status_reads:
  assumes "ctrl (sup k) ''STATUS'' = (Answer t, s')" "length t < 4096" "nul \<notin> set t" "ended t" "\<forall>l \<in> set (split_lines t). length l < 256"
  shows "wifi_get_status ctrl v k = Some ((0, status_of (split_lines t)), after k s' ''STATUS'')"
  using assms(1) cstr_reply [OF assms(2,3)] status_loop_reads [OF assms(3-5)]
  by (simp add: wifi_get_status_def wifi_get_int_def send_int_def wifi_send_command_def to_command_def fits_def
      wifi_reply_analyse_def wifi_command_pack_sum_def analyse_int_def on_int_def reply_array_short [OF assms(2)])

lemma get_scan_result_reads:
  assumes "ctrl (sup k) ''SCAN_RESULTS'' = (Answer t, s')" "length t < 4096" "nul \<notin> set t"
    and "\<And>r. wpa_get_scan_r (t @ nul # r) \<lparr> nets = [], room = 128 \<rparr> = Some l"
  shows "\<exists>st'. wifi_get_scan_result ctrl st k =
      Some ((0, \<lparr> sl_num = length (nets l), sl_ssid = fr_next st \<rparr>), st', after k s' ''SCAN_RESULTS'') \<and> fr_live st' (fr_next st) = None"
  using assms(1) cstr_reply [OF assms(2,3)] assms(4)
  by (simp add: wifi_get_scan_result_def enter_array_def store_array_def leave_array_def wifi_send_command_def to_command_def fits_def
      wifi_reply_analyse_def wifi_command_pack_sum_def analyse_string_def reply_array_short [OF assms(2)])

text \<open>Scans of some channels.\<close>

definition commas :: "int list \<Rightarrow> string" where
  "commas fs = concat (map (\<lambda>f. int_text f @ '','') fs)"

lemma channel_loop_text:
  assumes "\<forall>f \<in> set fs. 0 \<le> f \<and> f < 10000" "length params + 5 * length fs < 128"
  shows "channel_loop fs params = Some (params @ commas fs) \<and> length (commas fs) \<le> 5 * length fs"
  using assms
proof (induction fs arbitrary: params)
  case (Cons f fs)
  have "nat f < 10 ^ Suc 3" using Cons.prems(1) by (simp add: nat_less_iff)
  then have l: "length (int_text f) \<le> 4" using dec_digits_length [of "nat f" 3] Cons.prems(1) by (simp add: int_text_def)
  have "channel_loop fs (params @ int_text f @ '','') = Some ((params @ int_text f @ '','') @ commas fs) \<and> length (commas fs) \<le> 5 * length fs"
    using Cons.prems l by (intro Cons.IH) auto
  then show ?case using l Cons.prems(2) by (simp add: fits_def commas_def)
qed (simp add: commas_def)

section \<open>Properties\<close>

text \<open>
  C26: Joining a network against a supplicant that names the new network \<open>n\<close> and accepts or refuses each of the
  other commands: after clearing the list of blocked stations and adding a network, the code sends the name
  in quotes, the key (a passphrase in quotes, 64 digits as they are, nothing but \<open>key_mgmt NONE\<close> for an open
  network), the wish to be found when hidden, and the selection, in this order and with the number \<open>n\<close>; it stops
  at the first of these commands that is refused and returns -2, and otherwise returns 0.  Whether the
  clearing of the list is refused makes no difference.  The password must not have a length of WEP keys (5, 10,
  13, 16, 26 or 32), the key must not be a WEP key, and name and password must fit into the command.
\<close>

theorem wpa_join_script:
  assumes sup: "\<And>s c. \<exists>s'. ctrl s c = (Answer (if c = ''ADD_NETWORK'' then int_text n @ [CHR 0x0A] else ack (accepts c)), s')"
    and net: "net_fits net" "int_range n" "\<not> wep_length (length (psk net))" "net_key_mgmt net \<noteq> WIFI_KEY_WEP"
  shows "\<exists>k'. wifi_join_network ctrl net k =
      Some ((if list_all accepts (join_script (net\<lparr>net_id := n\<rparr>)) then 0 else -2, net\<lparr>net_id := n\<rparr>), k') \<and>
    sent k' = sent k @ [''BLACKLIST clear'', ''ADD_NETWORK''] @ takeWhile accepts (join_script (net\<lparr>net_id := n\<rparr>)) @
      take 1 (dropWhile accepts (join_script (net\<lparr>net_id := n\<rparr>)))"
proof -
  let ?net = "net\<lparr>net_id := n\<rparr>"
  have nf: "net_fits ?net" using net by (simp add: net_fits_def)
  have sc: "map step_text (network_steps ?net) = join_script ?net" by (rule network_steps_script) (use nf net in simp_all)
  obtain s1 where s1: "ctrl (sup k) ''BLACKLIST clear'' = (Answer (ack (accepts ''BLACKLIST clear'')), s1)"
    using sup [of "sup k" "''BLACKLIST clear''"] by auto
  obtain s2 where s2: "ctrl s1 ''ADD_NETWORK'' = (Answer (int_text n @ [CHR 0x0A]), s2)" using sup [of s1 "''ADD_NETWORK''"] by auto
  let ?k1 = "after k s1 ''BLACKLIST clear''" and ?k2 = "after (after k s1 ''BLACKLIST clear'') s2 ''ADD_NETWORK''"
  have "send_int ctrl WIFI_COMMAND_BLACKLIST_CLEAR V_null 0 k = Some (0, if accepts ''BLACKLIST clear'' then 0 else -1, ?k1)"
    by (rule send_int_ack) (simp_all add: ack_table to_command_def fits_def s1)
  then obtain b where b: "wifi_blacklist_clear ctrl k = Some (b, ?k1)"
    by (simp add: wifi_blacklist_clear_def send_ok_def)
  have a: "send_int ctrl WIFI_COMMAND_ADDNETWORK V_null (net_id net) ?k1 = Some (0, n, ?k2)"
    using send_int_number [of ctrl ?k1 n s2] s2 net(2) by simp
  have "\<exists>s'. ctrl s c = (Answer (ack (accepts c)), s')" if "c \<in> step_text ` set (network_steps ?net)" for s c
  proof -
    have "c \<in> set (join_script ?net)" using that by (simp add: sc [symmetric])
    then have "c \<noteq> ''ADD_NETWORK''" by (rule script_not_add)
    then show ?thesis using sup [of s c] by simp
  qed
  from join_steps_ack [where cs = "network_steps ?net" and r = 0 and k = ?k2 and accepts = accepts and ctrl = ctrl, OF this network_steps_sendable [OF nf]]
  obtain k' where "join_steps ctrl (network_steps ?net) 0 ?k2 = Some (if list_all accepts (join_script ?net) then 0 else -2, k')"
    "sent k' = sent ?k2 @ takeWhile accepts (join_script ?net) @ take 1 (dropWhile accepts (join_script ?net))"
    unfolding sc by blast
  then show ?thesis using b a net(3) by (simp add: wifi_join_network_def wep_probe_def enter_array_def)
qed

lemma id_builds:
  assumes "int_range i"
  shows "\<exists>c. build_command WIFI_COMMAND_ENABLENETWORK (V_int i) = Some (Inr c)" "\<exists>c. build_command WIFI_COMMAND_REMOVENETWORK (V_int i) = Some (Inr c)"
    "\<exists>c. build_command WIFI_COMMAND_DISCONNECT V_null = Some (Inr c)"
  using int_text_length [of i] assms by (auto simp: on_id_def to_command_def fits_def int_range_def)

text \<open>A supplicant that never answers.\<close>

definition mute :: "'s supplicant \<Rightarrow> bool" where
  "mute ctrl \<longleftrightarrow> (\<forall>s c. fst (ctrl s c) = Failed)"

lemma mute_int: "mute ctrl \<Longrightarrow> build_command cmd v = Some (Inr c) \<Longrightarrow> \<exists>k'. send_int ctrl cmd v r k = Some (0, r, k')"
  using send_int_failed [of cmd v c ctrl k "snd (ctrl (sup k) c)" r] by (auto simp: mute_def prod_eq_iff)

lemma mute_ok: "mute ctrl \<Longrightarrow> build_command cmd v = Some (Inr c) \<Longrightarrow> \<exists>k'. send_ok ctrl cmd v k = Some (0, k')"
  using mute_int [of ctrl cmd v c 0 k] by (auto simp: send_ok_def)

lemma mute_scan:
  assumes "mute ctrl"
  shows "\<exists>k'. wifi_scan ctrl k = Some (0, k')" "\<exists>k' list st'. wifi_get_block_scan_result ctrl 3 list0 st k = Some ((0, list), st', k') \<and> sl_num list = 0"
proof -
  show scan: "\<exists>k'. wifi_scan ctrl k = Some (0, k')" for k
    using mute_ok [OF assms simple_builds(3)] by (simp add: wifi_scan_def)
  have status: "\<exists>k'. wifi_get_status ctrl 0 k = Some ((0, 0), k')" for k
    using mute_int [OF assms simple_builds(4), of 0 k] by (auto simp: wifi_get_status_def wifi_get_int_def)
  have result: "\<exists>k' list st'. wifi_get_scan_result ctrl st k = Some ((0, list), st', k') \<and> sl_num list = 0" for k
  proof -
    obtain s' where "ctrl (sup k) ''SCAN_RESULTS'' = (Failed, s')" using assms by (metis mute_def prod.collapse)
    then show ?thesis
      by (simp add: wifi_get_scan_result_def enter_array_def store_array_def wifi_send_command_def to_command_def fits_def)
  qed
  obtain k1 k2 k3 list st' where "wifi_scan ctrl k = Some (0, k1)" "wifi_get_status ctrl 0 k1 = Some ((0, 0), k2)"
    "wifi_get_scan_result ctrl st k2 = Some ((0, list), st', k3)" "sl_num list = 0" using scan status result by meson
  then show "\<exists>k' list st'. wifi_get_block_scan_result ctrl 3 list0 st k = Some ((0, list), st', k') \<and> sl_num list = 0"
    by (simp add: wifi_get_block_scan_result_def block_scan_loop.simps [of ctrl 3] WIFI_SCANING_def)
qed

text \<open>
  C27: Requests that fail, for example because the supplicant does not answer in time, count as acknowledged:
  \<open>wifi_send_command\<close> returns 0 for them and the result keeps its initial 0.  Joining any network then returns 0,
  with the number the caller had in it, and so do a scan and the enabling, removal and disconnection of networks.
\<close>

theorem wpa_timeout_is_success:
  assumes "\<And>s c. fst (ctrl s c) = Failed" "net_fits net" "int_range i"
  shows "(\<exists>k'. wifi_join_network ctrl net k = Some ((0, net), k')) \<and> (\<exists>k'. wifi_scan ctrl k = Some (0, k')) \<and>
    (\<exists>k'. wifi_enable_network ctrl i k = Some (0, k')) \<and> (\<exists>k'. wifi_remove_network ctrl i k = Some (0, k')) \<and>
    (\<exists>k'. wifi_disconnect_network ctrl k = Some (0, k'))"
proof -
  have m: "mute ctrl" using assms(1) by (simp add: mute_def)
  have probe: "\<exists>st' k'. wep_probe ctrl net p st k = Some (net, st', k')" for p st k
    using mute_scan(2) [OF m, of "\<lparr> sl_num = 0, sl_ssid = p \<rparr>" st k] by (auto simp: wep_probe_def)
  have clear: "\<exists>k'. wifi_blacklist_clear ctrl k = Some (0, k')" for k
    using mute_ok [OF m simple_builds(1)] by (simp add: wifi_blacklist_clear_def)
  have "\<exists>s'. ctrl s c = (Failed, s')" for s c using assms(1) by (metis prod.collapse)
  then have steps: "\<exists>k'. join_steps ctrl (network_steps net) 0 k = Some (0, k')" for k
    using join_steps_failed [where ctrl = ctrl, OF _ network_steps_sendable [OF assms(2)]] by blast
  let ?st = "snd (enter_array [] no_frames)"
  obtain st1 k1 k2 k3 k4 where j: "wep_probe ctrl net 0 ?st k = Some (net, st1, k1)" "wifi_blacklist_clear ctrl k1 = Some (0, k2)"
    "send_int ctrl WIFI_COMMAND_ADDNETWORK V_null (net_id net) k2 = Some (0, net_id net, k3)"
    "join_steps ctrl (network_steps net) 0 k3 = Some (0, k4)"
    using probe clear mute_int [OF m simple_builds(2)] steps by meson
  have "wifi_join_network ctrl net k = Some ((0, net), k4)" using j by (simp add: wifi_join_network_def enter_array_def no_frames_def)
  then show ?thesis
    using mute_scan(1) [OF m] id_builds [OF assms(3)] mute_ok [OF m]
    unfolding wifi_enable_network_def wifi_remove_network_def wifi_disconnect_network_def by meson
qed

text \<open>
  C28: Joining a network whose password has a length that WEP keys can have (5, 10, 13, 16, 26 or 32 characters,
  among them many WPA passphrases) reads a dead array as soon as the scan finds a network:
  \<open>wifi_get_scan_result\<close> returns the number of networks with a pointer to its own local array, and
  \<open>wifi_join_network\<close> looks for the name in it; the array is gone when \<open>wifi_get_block_scan_result\<close> returns.
\<close>

theorem wpa_join_reads_dead_array:
  assumes "wep_length (length (psk net))"
    and "ctrl (sup k) ''SCAN'' = (Answer (ack b), s1)" "ctrl s1 ''STATUS'' = (Answer t, s2)"
    and "ctrl s2 ''SCAN_RESULTS'' = (Answer (scan_reply heading ps), s3)"
    and t: "length t < 4096" "nul \<notin> set t" "ended t" "\<forall>l \<in> set (split_lines t). length l < 256" "status_of (split_lines t) \<noteq> WIFI_SCANING"
    and ps: "line_text heading" "length heading < 512" "\<forall>p \<in> set ps. net_ok p \<and> ssid_ok (ssid (fst p))" "0 < length ps" "length ps \<le> 128"
      "length (scan_reply heading ps) < 4096"
  shows "(\<forall>list0 st. \<exists>list st' k'. wifi_get_block_scan_result ctrl 3 list0 st k = Some ((0, list), st', k') \<and>
      0 < sl_num list \<and> fr_live st' (sl_ssid list) = None) \<and>
    wifi_join_network ctrl net k = None"
proof -
  let ?k1 = "after k s1 ''SCAN''"
  have "send_int ctrl WIFI_COMMAND_SCAN V_null 0 k = Some (0, if b then 0 else -1, ?k1)"
    by (rule send_int_ack) (simp_all add: ack_table to_command_def fits_def assms(2))
  then obtain r where scan: "wifi_scan ctrl k = Some (r, ?k1)" by (simp add: wifi_scan_def send_ok_def)
  have st: "wifi_get_status ctrl 0 ?k1 = Some ((0, status_of (split_lines t)), after ?k1 s2 ''STATUS'')"
    by (rule get_status_reads [OF _ t(1-4)]) (simp add: assms(3))
  obtain es where es: "wpa_get_scan_r (scan_reply heading ps @ nul # r) \<lparr> nets = [], room = 128 \<rparr> = Some \<lparr> nets = es r, room = 128 \<rparr>"
    "\<forall>p \<in> set ps. \<exists>e \<in> set (es r). ssid e = ssid (net_of p)" for r
    using scan_reply_read [OF ps(1,2,3,5)] by metis
  define x where "x = es []"
  have nul: "nul \<notin> set (scan_reply heading ps)"
    using ps(1,3) by (intro scan_reply_nul) auto
  have any: "wpa_get_scan_r (scan_reply heading ps @ nul # r) l = wpa_get_scan_r (scan_reply heading ps @ nul # []) l" for r l
    using wpa_get_scan_r_run [OF ps(1,2), of ps] ps(3) by simp
  have "wpa_get_scan_r (scan_reply heading ps @ nul # r) \<lparr> nets = [], room = 128 \<rparr> = Some \<lparr> nets = x, room = 128 \<rparr>" for r
    using es(1) [of "[]"] unfolding any [of r] x_def .
  then have result: "\<exists>st'. wifi_get_scan_result ctrl st (after ?k1 s2 ''STATUS'') =
      Some ((0, \<lparr> sl_num = length x, sl_ssid = fr_next st \<rparr>), st', after (after ?k1 s2 ''STATUS'') s3 ''SCAN_RESULTS'') \<and>
      fr_live st' (fr_next st) = None" for st
    using get_scan_result_reads [of ctrl "after ?k1 s2 ''STATUS''" "scan_reply heading ps" s3 "\<lparr> nets = x, room = 128 \<rparr>" st]
      assms(4) ps(6) nul by simp
  have x: "0 < length x" using es(2) [of "[]"] ps(4) by (cases ps) (auto simp: x_def)
  have block: "\<exists>list st' k'. wifi_get_block_scan_result ctrl 3 list0 st k = Some ((0, list), st', k') \<and>
      0 < sl_num list \<and> fr_live st' (sl_ssid list) = None" for list0 st
    using scan st t(5) result [of st] x by (auto simp: wifi_get_block_scan_result_def block_scan_loop.simps [of ctrl 3])
  have "wep_loop st' list 0 (sl_num list) net = None" if "0 < sl_num list" "fr_live st' (sl_ssid list) = None" for list st'
    using that by (cases "sl_num list") (simp_all add: read_array_def)
  then have "wep_probe ctrl net p st k = None" for p st
    using block [of "\<lparr> sl_num = 0, sl_ssid = p \<rparr>" st] assms(1) by (auto simp: wep_probe_def)
  then show ?thesis using block by (simp add: wifi_join_network_def split_def)
qed

text \<open>
  C29: A scan of up to 21 channels given by frequencies below 10000 stays within \<open>channel[6]\<close>, \<open>params[128]\<close> and
  \<open>command[128]\<close>, and sends one command with exactly these frequencies in order, separated by commas.
\<close>

theorem wifi_scan_channel_sends:
  assumes "fs \<noteq> []" "length fs \<le> 21" "\<forall>f \<in> set fs. 0 \<le> f \<and> f < 10000"
    and "ctrl (sup k) (''SCAN freq='' @ butlast (commas fs)) = (Answer (ack b), s')"
  shows "wifi_scan_channel ctrl (int (length fs)) (Some fs) k =
    Some (if b then 0 else -1, k\<lparr>sup := s', sent := sent k @ [''SCAN freq='' @ butlast (concat (map (\<lambda>f. int_text f @ '','') fs))]\<rparr>)"
proof -
  have c: "channel_loop fs ''freq='' = Some (''freq='' @ commas fs)" "length (commas fs) \<le> 5 * length fs"
    using channel_loop_text [of fs "''freq=''"] assms(2,3) by simp_all
  have "commas fs \<noteq> []" using assms(1) by (cases fs) (simp_all add: commas_def)
  then have bl: "butlast (''freq='' @ commas fs) = ''freq='' @ butlast (commas fs)" by (simp add: butlast_append)
  have "build_command WIFI_COMMAND_SCAN (V_str (''freq='' @ butlast (commas fs))) = Some (Inr (''SCAN freq='' @ butlast (commas fs)))"
    using c(2) assms(2) by (simp add: to_command_def fits_def)
  from send_int_ack [OF _ this, of ctrl k b s' 0] assms(4)
  have "send_ok ctrl WIFI_COMMAND_SCAN (V_str (''freq='' @ butlast (commas fs))) k =
      Some (if b then 0 else -1, after k s' (''SCAN freq='' @ butlast (commas fs)))"
    by (simp add: send_ok_def ack_table)
  then show ?thesis using assms(1,2) c(1) bl unfolding wifi_scan_channel_def commas_def by simp
qed

text \<open>
  \<open>wifi_get_status\<close> on a reply of whole lines: the first line that names the state \<open>COMPLETED\<close> or \<open>SCANNING\<close>
  decides, and without such a line the station is not connected.
\<close>

theorem wifi_status_decided:
  assumes "ctrl (sup k) ''STATUS'' = (Answer (unlines (l # ls)), s')" "length (unlines (l # ls)) < 4096"
    and "line_text l" "\<forall>l \<in> set ls. line_text l \<and> l \<noteq> []" "\<forall>x \<in> set (l # ls). length x < 256"
  shows "wifi_get_status ctrl v k =
    Some ((0, case filter (\<lambda>l. strstr l ''wpa_state=COMPLETED'' \<or> strstr l ''wpa_state=SCANNING'') (l # ls) of
                [] \<Rightarrow> WIFI_UNCONNECTED
              | d # _ \<Rightarrow> if strstr d ''wpa_state=COMPLETED'' then WIFI_CONNECTED else WIFI_SCANING),
          k\<lparr>sup := s', sent := sent k @ [''STATUS'']\<rparr>)"
proof -
  note t = split_unlines [OF assms(3,4)]
  show ?thesis using get_status_reads [of ctrl k "unlines (l # ls)" s' v] assms(1,2,5) t(2,3) unfolding t(1) status_of_def by blast
qed

text \<open>Concrete supplicants: one that knows one network, and one that never answers.\<close>

definition demo_sup :: "unit supplicant" where
  "demo_sup s c =
     (Answer (if c = ''ADD_NETWORK'' then int_text 2 @ [CHR 0x0A]
              else if c = ''STATUS'' then unlines [''wpa_state=COMPLETED'']
              else if c = ''SCAN_RESULTS'' then scan_reply ''bssid'' demo_scan
              else ack True), s)"

definition plain_sup :: "unit supplicant" where
  "plain_sup s c = (Answer (if c = ''ADD_NETWORK'' then int_text 2 @ [CHR 0x0A] else ack (c \<noteq> ''SELECT_NETWORK 2'')), s)"

definition mute_sup :: "unit supplicant" where
  "mute_sup s c = (Failed, s)"

abbreviation "fresh_link \<equiv> \<lparr> sup = (), sent = [] \<rparr>"

definition demo_wifi :: "string \<Rightarrow> wifi_network" where
  "demo_wifi p = \<lparr> net_id = 0, net_ssid = ''home'', psk = p, net_key_mgmt = WIFI_KEY_WPA2PSK \<rparr>"

theorem wpa_join_script_witness:
  "\<exists>k'. wifi_join_network plain_sup (demo_wifi ''secret phrase 1'') fresh_link = Some ((-2, (demo_wifi ''secret phrase 1'')\<lparr>net_id := 2\<rparr>), k') \<and> length (sent k') = 6"
proof -
  have n: "net_fits (demo_wifi ''secret phrase 1'')" "int_range 2" "\<not> wep_length (length (psk (demo_wifi ''secret phrase 1'')))"
    "net_key_mgmt (demo_wifi ''secret phrase 1'') \<noteq> WIFI_KEY_WEP" by code_simp+
  let ?js = "join_script ((demo_wifi ''secret phrase 1'')\<lparr>net_id := 2\<rparr>)" and ?a = "\<lambda>c. c \<noteq> ''SELECT_NETWORK 2''"
  have j: "\<not> list_all ?a ?js" "length (takeWhile ?a ?js) = 3" "length (take 1 (dropWhile ?a ?js)) = 1" by code_simp+
  have "\<exists>s'. plain_sup s c = (Answer (if c = ''ADD_NETWORK'' then int_text 2 @ [CHR 0x0A] else ack (?a c)), s')" for s c
    by (simp add: plain_sup_def)
  from wpa_join_script [where accepts = ?a, OF this n] j show ?thesis by fastforce
qed

theorem wpa_timeout_is_success_witness:
  "\<exists>k'. wifi_join_network mute_sup (demo_wifi ''secret phrase 1'') fresh_link = Some ((0, demo_wifi ''secret phrase 1''), k')"
proof -
  have "fst (mute_sup s c) = Failed" for s c by (simp add: mute_sup_def)
  moreover have "net_fits (demo_wifi ''secret phrase 1'')" "int_range 0" by code_simp+
  ultimately show ?thesis using wpa_timeout_is_success [of mute_sup] by blast
qed

theorem wpa_join_reads_dead_array_witness:
  "wifi_join_network demo_sup (demo_wifi ''0123456789'') fresh_link = None"
proof -
  let ?t = "unlines [''wpa_state=COMPLETED'']"
  have w: "wep_length (length (psk (demo_wifi ''0123456789'')))" by code_simp
  have t: "length ?t < 4096" "nul \<notin> set ?t" "ended ?t" "\<forall>l \<in> set (split_lines ?t). length l < 256" "status_of (split_lines ?t) \<noteq> WIFI_SCANING"
    by code_simp+
  have p: "line_text ''bssid''" "length ''bssid'' < 512" "0 < length demo_scan" "length demo_scan \<le> 128" "length (scan_reply ''bssid'' demo_scan) < 4096"
    by code_simp+
  have s: "demo_sup (sup fresh_link) ''SCAN'' = (Answer (ack True), ())" "demo_sup () ''STATUS'' = (Answer ?t, ())"
    "demo_sup () ''SCAN_RESULTS'' = (Answer (scan_reply ''bssid'' demo_scan), ())" by (simp_all add: demo_sup_def)
  have o: "\<forall>p \<in> set demo_scan. net_ok p \<and> ssid_ok (ssid (fst p))" by code_simp
  show ?thesis using wpa_join_reads_dead_array [where ctrl = demo_sup, OF w s t p(1,2) o p(3-5)] by blast
qed

theorem wifi_scan_channel_sends_witness:
  "wifi_scan_channel plain_sup (int (length [2412, 2437])) (Some [2412, 2437]) fresh_link =
     Some (0, \<lparr> sup = (), sent = [''SCAN freq=2412,2437''] \<rparr>)"
proof -
  have "butlast (concat (map (\<lambda>f. int_text f @ '','') [2412, 2437 :: int])) = ''2412,2437''" by code_simp
  moreover have "plain_sup (sup fresh_link) (''SCAN freq='' @ butlast (commas [2412, 2437])) = (Answer (ack True), ())"
    by (simp add: plain_sup_def)
  ultimately show ?thesis
    using wifi_scan_channel_sends [where ctrl = plain_sup and fs = "[2412, 2437]" and k = fresh_link and b = True and s' = "()"] by simp
qed

theorem wifi_status_decided_witness:
  "\<exists>k'. wifi_get_status demo_sup 0 fresh_link = Some ((0, WIFI_CONNECTED), k')"
proof -
  have "length (unlines [''wpa_state=COMPLETED'']) < 4096" "line_text ''wpa_state=COMPLETED''"
    "strstr ''wpa_state=COMPLETED'' ''wpa_state=COMPLETED''" by code_simp+
  moreover have "demo_sup (sup fresh_link) ''STATUS'' = (Answer (unlines [''wpa_state=COMPLETED'']), ())" by (simp add: demo_sup_def)
  ultimately show ?thesis
    using wifi_status_decided [of demo_sup fresh_link "''wpa_state=COMPLETED''" "[]" "()" 0] by simp
qed

end
