(* ===== verification/Linux_Wifi.thy ===== *)
theory Linux_Wifi
  imports Tkl_Wired Wpa_Command
begin

text \<open>
  The Linux side of the wireless adapter, \<open>tkl_wifi/linux_wifi.c\<close>: queries and settings of an interface through
  sockets, the configuration files and processes of the supplicant, the access point and the DHCP programs, and
  raw frames.  Functions that only make system calls are programs over the kernel of \<open>Posix_World\<close>; those that
  can leave an array, run forever or talk to the supplicant of \<open>Wpa_Command\<close> are partial functions on the machine,
  with \<open>None\<close> for the first two.  The wireless extensions library and the names that the build configuration
  chooses are the parameter \<open>wlan\<close>.  Interface names have at most 15 characters.
\<close>

section \<open>The environment\<close>

text \<open>An access point in the list that the library's scan gives; the frequency is its raw structure.\<close>

record wireless_scan =
  has_ap_addr :: bool
  ap_addr :: bytes
  ws_essid :: string
  ws_freq :: bytes
  has_stats :: bool
  ws_qual :: u8
  key_flags :: u16

text \<open>
  Names and paths of the build, and what the library computes from the structures the kernel fills in: the
  version in the range information, the channel of a frequency and back, the list of a scan, and the fields
  \<open>essid_on\<close> and \<open>has_essid\<close> of the basic configuration.
\<close>

record wlan_env =
  WLAN_DEV :: string
  WLAN_AP :: string
  WIFI_DB_PATH :: string
  we_version_compiled :: "bytes \<Rightarrow> nat"
  iw_freq_to_channel :: "bytes \<Rightarrow> bytes \<Rightarrow> int"
  iw_channel_to_freq :: "int \<Rightarrow> bytes \<Rightarrow> int \<times> bytes"
  iw_scan_result :: "bytes \<Rightarrow> wireless_scan list"
  iw_essid :: "bytes \<Rightarrow> bool \<times> int"

definition WIFI_STATION_CONF :: "wlan_env \<Rightarrow> string" where
  "WIFI_STATION_CONF wl = WIFI_DB_PATH wl @ ''/wpa_0_8.conf''"

definition WIFI_HOSTAPD_CONF :: "wlan_env \<Rightarrow> string" where
  "WIFI_HOSTAPD_CONF wl = WIFI_DB_PATH wl @ ''/hostapd.conf''"

definition WIFI_DHCPD_CONF :: "wlan_env \<Rightarrow> string" where
  "WIFI_DHCPD_CONF wl = WIFI_DB_PATH wl @ ''/udhcpd.conf''"

definition WPA_CTRL_INTERFACE :: string where
  "WPA_CTRL_INTERFACE = ''/var/run/wpa_supplicant''"

section \<open>Interfaces\<close>

text \<open>\<open>IFF_UP\<close> is 1 and \<open>IFF_RUNNING\<close> 0x40; \<open>ifr_flags\<close> has 16 bits.\<close>

definition wifi_enable :: "'w kernel \<Rightarrow> string \<Rightarrow> bool \<Rightarrow> ('w, 'd, int) prog" where
  "wifi_enable os ifname enable = do {
     sk \<leftarrow> syscall os (Socket 2);
     if sr_rc sk < 0 then ret (-1)
     else do {
       f \<leftarrow> syscall os (Ioctl (sr_rc sk) (SIOCGIFFLAGS ifname));
       if sr_rc f < 0 then do { syscall os (Close (sr_rc sk)); ret (-1) }
       else do {
         r \<leftarrow> syscall os (Ioctl (sr_rc sk) (SIOCSIFFLAGS ifname
           (if enable then set_bit 0 (word_of_int (sr_fd f)) else unset_bit 0 (word_of_int (sr_fd f)))));
         if sr_rc r < 0 then do { syscall os (Close (sr_rc sk)); ret (-1) }
         else do { syscall os (Close (sr_rc sk)); ret 0 }
       }
     }
   }"

definition EADDRNOTAVAIL :: int where "EADDRNOTAVAIL = 99"

text \<open>The result and the string in \<open>ip\<close>.\<close>

definition wifi_get_ip :: "'w kernel \<Rightarrow> string \<Rightarrow> ('w, 'd, int \<times> string) prog" where
  "wifi_get_ip os ifname = do {
     sk \<leftarrow> syscall os (Socket 2);
     if sr_rc sk < 0 then ret (-1, [])
     else do {
       f \<leftarrow> syscall os (Ioctl (sr_rc sk) (SIOCGIFFLAGS ifname));
       if sr_rc f < 0 then do { syscall os (Close (sr_rc sk)); ret (-1, []) }
       else if \<not> bit (sr_fd f) 6 then do { syscall os (Close (sr_rc sk)); ret (-1, []) }
       else do {
         a \<leftarrow> syscall os (Ioctl (sr_rc sk) (SIOCGIFADDR ifname));
         if sr_rc a < 0
         then do { syscall os (Close (sr_rc sk)); ret (if sr_errno a = EADDRNOTAVAIL then 1 else -1, []) }
         else do { syscall os (Close (sr_rc sk)); ret (0, inet_ntoa (sr_data a)) }
       }
     }
   }"

text \<open>After a failed \<open>ioctl\<close> the function goes on with the cleared structure and closes the descriptor again.\<close>

definition wifi_get_ip_mask :: "'w kernel \<Rightarrow> string \<Rightarrow> ('w, 'd, int \<times> string option) prog" where
  "wifi_get_ip_mask os ifname = do {
     sk \<leftarrow> syscall os (Socket 2);
     if sr_rc sk < 0 then ret (-1, None)
     else do {
       m \<leftarrow> syscall os (Ioctl (sr_rc sk) (SIOCGIFNETMASK ifname));
       if sr_rc m < 0
       then do {
         syscall os (Close (sr_rc sk));
         syscall os (Close (sr_rc sk));
         ret (0, Some (inet_ntoa [0, 0, 0, 0]))
       }
       else do { syscall os (Close (sr_rc sk)); ret (0, Some (inet_ntoa (sr_data m))) }
     }
   }"

text \<open>
  The flags share their place with the address: the low half of the structure then holds \<open>AF_INET\<close>, which is 2,
  so that 0x43 is written whatever the flags were.
\<close>

definition wifi_set_ip :: "'w kernel \<Rightarrow> string \<Rightarrow> string \<Rightarrow> ('w, 'd, int) prog" where
  "wifi_set_ip os ifname ip = do {
     sk \<leftarrow> syscall os (Socket 1);
     if sr_rc sk < 0 then ret (-1)
     else do {
       a \<leftarrow> syscall os (Ioctl (sr_rc sk) (SIOCSIFADDR ifname ip));
       if sr_rc a < 0 then ret (-1)
       else do {
         f \<leftarrow> syscall os (Ioctl (sr_rc sk) (SIOCSIFFLAGS ifname 0x43));
         if sr_rc f < 0 then do { syscall os (Close (sr_rc sk)); ret (-1) }
         else do { syscall os (Close (sr_rc sk)); ret 0 }
       }
     }
   }"

definition wifi_get_mac :: "'w kernel \<Rightarrow> string \<Rightarrow> ('w, 'd, int \<times> bytes option) prog" where
  "wifi_get_mac os ifname = do {
     sk \<leftarrow> syscall os (Socket 1);
     if sr_rc sk < 0 then ret (-1, None)
     else do {
       h \<leftarrow> syscall os (Ioctl (sr_rc sk) (SIOCGIFHWADDR (take 15 ifname)));
       if sr_rc h < 0 then do { syscall os (Close (sr_rc sk)); ret (-1, None) }
       else do { syscall os (Close (sr_rc sk)); ret (0, Some (take 6 (sr_data h))) }
     }
   }"

definition wifi_set_mac :: "'w kernel \<Rightarrow> string \<Rightarrow> bytes \<Rightarrow> ('w, 'd, int) prog" where
  "wifi_set_mac os ifname mac = do {
     sk \<leftarrow> syscall os (Socket 1);
     if sr_rc sk < 0 then ret (-1)
     else do {
       h \<leftarrow> syscall os (Ioctl (sr_rc sk) (SIOCSIFHWADDR (take 15 ifname) (take 6 mac)));
       if sr_rc h < 0 then do { syscall os (Close (sr_rc sk)); ret (-1) }
       else do { syscall os (Close (sr_rc sk)); ret 0 }
     }
   }"

section \<open>Wireless extensions\<close>

text \<open>The families are \<open>AF_INET\<close>, \<open>AF_IPX\<close>, \<open>AF_AX25\<close> and \<open>AF_APPLETALK\<close>, the type is \<open>SOCK_DGRAM\<close>.\<close>

fun open_family :: "'w kernel \<Rightarrow> nat list \<Rightarrow> ('w, 'd, int) prog" where
  "open_family os [] = ret (-1)"
| "open_family os (f # fs) = do {
     sk \<leftarrow> syscall os (Family_Socket f 2);
     if sr_rc sk \<ge> 0 then ret (sr_rc sk) else open_family os fs
   }"

definition iw_sockets_open :: "'w kernel \<Rightarrow> ('w, 'd, int) prog" where
  "iw_sockets_open os = open_family os [2, 4, 3, 5]"

text \<open>The socket stays open if the driver does not know the channel or refuses the frequency.\<close>

definition wifi_set_channel :: "wlan_env \<Rightarrow> 'w kernel \<Rightarrow> string \<Rightarrow> int \<Rightarrow> ('w, 'd, int) prog" where
  "wifi_set_channel wl os ifname channel = do {
     fd \<leftarrow> iw_sockets_open os;
     if fd < 0 then ret (-1)
     else do {
       rg \<leftarrow> syscall os (Iw_Get_Range_Info fd ifname);
       if sr_rc rg < 0 \<or> we_version_compiled wl (sr_data rg) < 14
       then do { syscall os (Close fd); ret (-1) }
       else if fst (iw_channel_to_freq wl channel (sr_data rg)) \<noteq> channel then ret (-1)
       else do {
         r \<leftarrow> syscall os (Ioctl fd (SIOCSIWFREQ ifname (snd (iw_channel_to_freq wl channel (sr_data rg)))));
         if sr_rc r < 0 then ret (-1)
         else do { syscall os (Close fd); ret (sr_rc r) }
       }
     }
   }"

text \<open>The channel number is cut to 8 bits.\<close>

definition wifi_get_channel :: "wlan_env \<Rightarrow> 'w kernel \<Rightarrow> string \<Rightarrow> ('w, 'd, int \<times> u8 option) prog" where
  "wifi_get_channel wl os ifname = do {
     fd \<leftarrow> iw_sockets_open os;
     if fd < 0 then ret (-1, None)
     else do {
       rg \<leftarrow> syscall os (Iw_Get_Range_Info fd ifname);
       if sr_rc rg < 0 \<or> we_version_compiled wl (sr_data rg) < 14
       then do { syscall os (Close fd); ret (-1, None) }
       else do {
         r \<leftarrow> syscall os (Ioctl fd (SIOCGIWFREQ ifname));
         if sr_rc r < 0 then do { syscall os (Close fd); ret (-1, None) }
         else do {
           syscall os (Close fd);
           ret (sr_rc r, Some (word_of_int (iw_freq_to_channel wl (sr_data r) (sr_data rg))))
         }
       }
     }
   }"

definition wifi_get_mode :: "'w kernel \<Rightarrow> string \<Rightarrow> ('w, 'd, int \<times> int option) prog" where
  "wifi_get_mode os ifname = do {
     fd \<leftarrow> iw_sockets_open os;
     if fd < 0 then ret (-1, None)
     else do {
       r \<leftarrow> syscall os (Ioctl fd (SIOCGIWMODE ifname));
       if sr_rc r < 0 then do { syscall os (Close fd); ret (-1, None) }
       else do { syscall os (Close fd); ret (0, Some (sr_fd r)) }
     }
   }"

definition lower :: "char \<Rightarrow> char" where
  "lower c = (if 65 \<le> (of_char c :: nat) \<and> (of_char c :: nat) \<le> 90 then char_of ((of_char c :: nat) + 32) else c)"

text \<open>\<open>strncasecmp(a, b, n) == 0\<close>.\<close>

definition same_prefix :: "nat \<Rightarrow> string \<Rightarrow> string \<Rightarrow> bool" where
  "same_prefix n a b \<longleftrightarrow> map lower (take n a) = map lower (take n b)"

definition iw_operation_mode :: "string list" where
  "iw_operation_mode = [''Auto'', ''Ad-Hoc'', ''Managed'', ''Master'', ''Repeater'', ''Secondary'', ''Monitor'']"

definition mode_index :: "string \<Rightarrow> nat" where
  "mode_index mode = length (takeWhile (\<lambda>m. \<not> same_prefix 3 mode m) iw_operation_mode)"

text \<open>The result of the request is not looked at.\<close>

definition wifi_set_mode :: "'w kernel \<Rightarrow> string \<Rightarrow> string \<Rightarrow> ('w, 'd, int) prog" where
  "wifi_set_mode os ifname mode =
     (let k = mode_index mode in
      if k \<ge> 7 \<or> k = 1 \<or> k = 4 \<or> k = 5 then ret (-1)
      else do {
        sk \<leftarrow> syscall os (Socket 2);
        if sr_rc sk < 0 then ret (-1)
        else do {
          syscall os (Ioctl (sr_rc sk) (SIOCSIWMODE ifname k));
          syscall os (Close (sr_rc sk));
          ret 0
        }
      })"

definition wifi_check_essid_on :: "wlan_env \<Rightarrow> 'w kernel \<Rightarrow> string \<Rightarrow> ('w, 'd, int) prog" where
  "wifi_check_essid_on wl os ifname = do {
     fd \<leftarrow> iw_sockets_open os;
     if fd < 0 then ret (-1)
     else do {
       r \<leftarrow> syscall os (Iw_Get_Basic_Config fd ifname);
       if sr_rc r < 0 then do { syscall os (Close fd); ret (-1) }
       else do {
         syscall os (Close fd);
         ret (if fst (iw_essid wl (sr_data r)) \<and> snd (iw_essid wl (sr_data r)) = 1 then 1 else sr_rc r)
       }
     }
   }"


section \<open>The machine\<close>

text \<open>The connection to the supplicant is part of the adapter's state.\<close>

record 's wifi_link =
  wl_link :: "'s link"

definition run :: "('m, 'a) state \<Rightarrow> 'm \<Rightarrow> ('a \<times> 'm) option" where
  "run p m = Some (run_state p m)"

definition link_op ::
    "('s link \<Rightarrow> ('a \<times> 's link) option) \<Rightarrow> ('w, ('s, 'z) wifi_link_scheme) machine \<Rightarrow> ('a \<times> ('w, ('s, 'z) wifi_link_scheme) machine) option" where
  "link_op f m = map_option (\<lambda>(r, k). (r, m\<lparr>m_dev := (m_dev m)\<lparr>wl_link := k\<rparr>\<rparr>)) (f (wl_link (m_dev m)))"

definition bytes_chars :: "bytes \<Rightarrow> char list" where
  "bytes_chars = map (\<lambda>b. char_of (unat b))"

text \<open>What \<open>fgets\<close> takes: at most \<open>n\<close> characters, up to and with the end of the line.\<close>

fun fgets_line :: "nat \<Rightarrow> char list \<Rightarrow> char list" where
  "fgets_line 0 cs = []"
| "fgets_line (Suc n) [] = []"
| "fgets_line (Suc n) (c # cs) = (if c = CHR 0x0A then [c] else c # fgets_line n cs)"

lemma fgets_line_nonempty: "0 < n \<Longrightarrow> cs \<noteq> [] \<Longrightarrow> fgets_line n cs \<noteq> []"
  by (cases n; cases cs) auto

text \<open>The loop that appends what \<open>fgets\<close> gives with \<open>strcat\<close>.\<close>

function cat_lines :: "nat \<Rightarrow> char list \<Rightarrow> string" where
  "cat_lines n cs = (if n = 0 \<or> cs = [] then [] else let l = fgets_line n cs in text_of l @ cat_lines n (drop (length l) cs))"
  by pat_completeness auto
termination by (relation "measure (\<lambda>(n, cs). length cs)") (simp_all add: fgets_line_nonempty diff_less)

declare cat_lines.simps [simp del]

section \<open>Processes\<close>

definition process_kill :: "'w kernel \<Rightarrow> string \<Rightarrow> ('w, 'd, unit) prog" where
  "process_kill os proc = do {
     syscall os (System (snprintf 128 (''killall -9 '' @ [CHR 0x27] @ proc @ [CHR 0x27] @ '' '')));
     ret ()
   }"

definition process_alive :: "'w kernel \<Rightarrow> string \<Rightarrow> ('w, 'd) machine \<Rightarrow> (int \<times> ('w, 'd) machine) option" where
  "process_alive os proc m = do {
     (p, m) \<leftarrow> run (syscall os (Popen (snprintf 150 (''ps -ef | grep '' @ proc @ '' | grep -v grep | wc -l'')))) m;
     if sr_rc p = 0 then Some (-1, m)
     else do {
       cnt \<leftarrow> (if sr_data p = [] then Some 0 else atoi (text_of (fgets_line 99 (bytes_chars (sr_data p)))));
       (_, m) \<leftarrow> run (syscall os Pclose) m;
       Some (if cnt = 0 then 0 else if cnt = 1 then 1 else -1, m)
     }
   }"

definition wpa_ctrl_iface_ready :: "'w kernel \<Rightarrow> string \<Rightarrow> ('w, 'd, bool) prog" where
  "wpa_ctrl_iface_ready os ifname =
     (if ifname = [] then ret False
      else do {
        a \<leftarrow> syscall os (Access (snprintf 256 (WPA_CTRL_INTERFACE @ ''/'' @ ifname)));
        ret (sr_rc a = 0)
      })"

definition process_kill_if_running :: "'w kernel \<Rightarrow> string \<Rightarrow> ('w, 'd) machine \<Rightarrow> (unit \<times> ('w, 'd) machine) option" where
  "process_kill_if_running os proc m = do {
     (alive, m) \<leftarrow> process_alive os proc m;
     if alive \<noteq> 0 then run (process_kill os proc) m else Some ((), m)
   }"

section \<open>Scans\<close>

record AP_IF_S =
  af_channel :: u8
  af_rssi :: u8
  af_bssid :: bytes
  af_ssid :: string
  af_s_len :: u8
  af_security :: u8

definition zero_ap :: AP_IF_S where
  "zero_ap = \<lparr>af_channel = 0, af_rssi = 0, af_bssid = replicate 6 0, af_ssid = [], af_s_len = 0, af_security = 0\<rparr>"

definition upper_hex :: "nat \<Rightarrow> char" where
  "upper_hex n = (if n < 10 then char_of (48 + n) else char_of (55 + n))"

definition byte_hex :: "u8 \<Rightarrow> string" where
  "byte_hex b = [upper_hex (unat b div 16), upper_hex (unat b mod 16)]"

definition iw_ether_ntop :: "bytes \<Rightarrow> string" where
  "iw_ether_ntop a = byte_hex (a ! 0) @ '':'' @ byte_hex (a ! 1) @ '':'' @ byte_hex (a ! 2) @ '':'' @
     byte_hex (a ! 3) @ '':'' @ byte_hex (a ! 4) @ '':'' @ byte_hex (a ! 5)"

definition iw_sawap_ntop :: "bytes \<Rightarrow> string" where
  "iw_sawap_ntop a =
     (if a = replicate 6 0 then ''Not-Associated''
      else if a = replicate 6 0xff then ''Invalid''
      else if a = replicate 6 0x44 then ''None''
      else iw_ether_ntop a)"

text \<open>One element of the list; \<open>x\<close> are the values that the six variables happen to hold before \<open>sscanf\<close>.\<close>

definition scan_node :: "wlan_env \<Rightarrow> bytes \<Rightarrow> int list \<Rightarrow> wireless_scan \<Rightarrow> AP_IF_S" where
  "scan_node wl rg x node =
     (let l = min 32 (length (ws_essid node));
          vs = scan_hex 6 (iw_sawap_ntop (ap_addr node))
      in zero_ap\<lparr>af_s_len := of_nat l, af_ssid := take l (ws_essid node),
                 af_channel := word_of_int (iw_freq_to_channel wl (ws_freq node) rg),
                 af_bssid := map word_of_int (vs @ drop (length vs) x),
                 af_rssi := (if has_stats node then ws_qual node else 0),
                 af_security := (if bit (key_flags node) 15 then 0 else if bit (key_flags node) 13 then 0
                                 else if bit (key_flags node) 11 then 4 else 0)\<rparr>)"

text \<open>
  The loop over the list from \<open>node\<close> on, with \<open>cnt\<close> elements stored so far.  \<open>continue\<close> goes back to the test of the
  loop with the same \<open>node\<close>.
\<close>

partial_function (option) scan_loop ::
    "wlan_env \<Rightarrow> bytes \<Rightarrow> (nat \<Rightarrow> int list) \<Rightarrow> nat \<Rightarrow> nat \<Rightarrow> wireless_scan list \<Rightarrow> AP_IF_S list option" where
  "scan_loop wl rg old max_ap cnt node =
     (case node of
        [] \<Rightarrow> Some []
      | n # next_node \<Rightarrow>
          if \<not> has_ap_addr n then scan_loop wl rg old max_ap cnt node
          else if cnt \<ge> max_ap then Some []
          else Option.bind (scan_loop wl rg old max_ap (Suc cnt) next_node) (\<lambda>aps. Some (scan_node wl rg (old cnt) n # aps)))"

declare scan_loop.simps [code]

text \<open>The elements stored at the front of the cleared array; the result is their number.\<close>

definition wifi_scan_ap ::
    "wlan_env \<Rightarrow> 'w kernel \<Rightarrow> (nat \<Rightarrow> int list) \<Rightarrow> string \<Rightarrow> nat \<Rightarrow> ('w, 'd) machine \<Rightarrow> (AP_IF_S list \<times> ('w, 'd) machine) option" where
  "wifi_scan_ap wl os x ifname max_ap m = do {
     (fd, m) \<leftarrow> run (iw_sockets_open os) m;
     if fd < 0 then Some ([], m)
     else do {
       (rg, m) \<leftarrow> run (syscall os (Iw_Get_Range_Info fd ifname)) m;
       if sr_rc rg < 0 \<or> we_version_compiled wl (sr_data rg) < 14
       then do { (_, m) \<leftarrow> run (syscall os (Close fd)) m; Some ([], m) }
       else do {
         (sc, m) \<leftarrow> run (syscall os (Iw_Scan fd ifname)) m;
         if sr_rc sc < 0 then do { (_, m) \<leftarrow> run (syscall os (Close fd)) m; Some ([], m) }
         else do {
           aps \<leftarrow> scan_loop wl (sr_data rg) x max_ap 0 (iw_scan_result wl (sr_data sc));
           (_, m) \<leftarrow> run (syscall os (Close fd)) m;
           Some (aps, m)
         }
       }
     }
   }"


section \<open>The station\<close>

definition wpa_conf :: "string \<Rightarrow> string option \<Rightarrow> string" where
  "wpa_conf sid key =
     (case key of
        Some (c # k) \<Rightarrow>
          unlines [''ctrl_interface='' @ WPA_CTRL_INTERFACE, ''update_config=1'', ''network={'', ''key_mgmt=WPA-PSK'',
                   ''ssid='' @ quoted sid, ''psk='' @ quoted (c # k), ''}'']
      | _ \<Rightarrow>
          unlines [''ctrl_interface='' @ WPA_CTRL_INTERFACE, ''update_config=1'', ''network={'',
                   ''ssid='' @ quoted sid, ''key_mgmt=NONE'', ''}''])"

text \<open>Create a file anew, with mode 0x666, and write a text to it: the common end of the three configuration functions.\<close>

definition write_conf :: "'w kernel \<Rightarrow> string \<Rightarrow> bytes \<Rightarrow> ('w, 'd, int) prog" where
  "write_conf os path content = do {
     syscall os (Unlink path);
     fd \<leftarrow> syscall os (Creat path 0x666);
     if sr_rc fd < 0 then ret (-1)
     else do {
       w \<leftarrow> syscall os (Write (sr_rc fd) content);
       if sr_rc w < 0 then do { syscall os (Close (sr_rc fd)); ret (-1) }
       else do { syscall os (Close (sr_rc fd)); ret 0 }
     }
   }"

text \<open>
  The text is put into \<open>buf[1024]\<close> after the file was created; an overflow ends the model before.
\<close>

definition wpa_config_prepare :: "wlan_env \<Rightarrow> 'w kernel \<Rightarrow> string \<Rightarrow> string option \<Rightarrow> ('w, 'd) machine \<Rightarrow> (int \<times> ('w, 'd) machine) option" where
  "wpa_config_prepare wl os sid key m = do {
     buf \<leftarrow> fits 1024 (wpa_conf sid key);
     run (write_conf os (WIFI_STATION_CONF wl) (text_bytes buf)) m
   }"

fun wait_ctrl :: "'w kernel \<Rightarrow> string \<Rightarrow> nat \<Rightarrow> ('w, 'd, unit) prog" where
  "wait_ctrl os path 0 = ret ()"
| "wait_ctrl os path (Suc n) = do {
     a \<leftarrow> syscall os (Access path);
     syscall os (Usleep 100000);
     if sr_rc a = 0 then ret () else wait_ctrl os path n
   }"

definition ensure_dir :: "'w kernel \<Rightarrow> string \<Rightarrow> nat \<Rightarrow> ('w, 'd, unit) prog" where
  "ensure_dir os path mode = do {
     d \<leftarrow> syscall os (Open_Dir path);
     if sr_rc d = 0 then do { syscall os (Make_Dir path mode); ret () } else do { syscall os Close_Dir; ret () }
   }"

text \<open>The modes are 0666 and 0755.\<close>

definition start_wpa :: "wlan_env \<Rightarrow> 'w kernel \<Rightarrow> ('w, 'd, unit) prog" where
  "start_wpa wl os = do {
     ensure_dir os ''/var/run'' 438;
     ensure_dir os WPA_CTRL_INTERFACE 493;
     syscall os (System ''systemctl stop wpa_supplicant 2>/dev/null'');
     syscall os (Usleep 500000);
     syscall os (System ''killall wpa_supplicant 2>/dev/null'');
     syscall os (Usleep 200000);
     syscall os (System (snprintf 128 (''wpa_supplicant -i '' @ WLAN_DEV wl @ '' -Dnl80211 -c '' @ WIFI_STATION_CONF wl @ '' -B'')));
     wait_ctrl os (snprintf 256 (WPA_CTRL_INTERFACE @ ''/'' @ WLAN_DEV wl)) 50
   }"

text \<open>The rest of the text from the first occurrence of a word on.\<close>

fun strstr_at :: "string \<Rightarrow> string \<Rightarrow> string option" where
  "strstr_at [] p = (if p = [] then Some [] else None)"
| "strstr_at (c # s) p = (if starts p (c # s) then Some (c # s) else strstr_at s p)"

definition strncpy :: "nat \<Rightarrow> string \<Rightarrow> char list \<Rightarrow> char list" where
  "strncpy n s dst = take n (s @ replicate n nul) @ drop n dst"

text \<open>\<open>sscanf(p, "%s", tmp)\<close> into a cleared array.\<close>

definition token_into :: "nat \<Rightarrow> string \<Rightarrow> string option" where
  "token_into cap p = (case scan_s p of Match t _ \<Rightarrow> fits cap t | _ \<Rightarrow> Some [])"

definition get_passwd_and_ssid_from_wpa_file ::
    "wlan_env \<Rightarrow> 'w kernel \<Rightarrow> char list \<Rightarrow> char list \<Rightarrow> ('w, 'd) machine \<Rightarrow> ((int \<times> char list \<times> char list) \<times> ('w, 'd) machine) option" where
  "get_passwd_and_ssid_from_wpa_file wl os sid passwd m = do {
     (f, m) \<leftarrow> run (syscall os (Open (WIFI_STATION_CONF wl))) m;
     if sr_rc f < 0 then Some ((-1, sid, passwd), m)
     else do {
       (t, m) \<leftarrow> run (syscall os (Read_Text (sr_rc f))) m;
       str \<leftarrow> fits 1024 (cat_lines 1023 (bytes_chars (sr_data t)));
       case strstr_at str ''ssid='' of
         None \<Rightarrow> do { (_, m) \<leftarrow> run (syscall os (Close (sr_rc f))) m; Some ((-1, sid, passwd), m) }
       | Some p \<Rightarrow> do {
           tmp_ssid \<leftarrow> token_into 33 (drop 5 p);
           case strstr_at str ''psk='' of
             None \<Rightarrow> do { (_, m) \<leftarrow> run (syscall os (Close (sr_rc f))) m; Some ((-1, sid, passwd), m) }
           | Some q \<Rightarrow> do {
               tmp_pwd \<leftarrow> token_into 65 (drop 4 q);
               (_, m) \<leftarrow> run (syscall os (Close (sr_rc f))) m;
               Some ((0, strncpy 32 tmp_ssid sid, strncpy 64 tmp_pwd passwd), m)
             }
         }
     }
   }"

definition start_udhcpc :: "wlan_env \<Rightarrow> 'w kernel \<Rightarrow> ('w, 'd, unit) prog" where
  "start_udhcpc wl os = do {
     syscall os (System ''killall udhcpc'');
     syscall os (System (snprintf 128 (''udhcpc -i '' @ WLAN_DEV wl @ '' -R &'')));
     ret ()
   }"

text \<open>The variable \<open>tmp\<close> holds \<open>junk\<close> before; the signal is stored unless \<open>rssi\<close> is a null pointer.\<close>

definition wifi_get_curr_rssi ::
    "'s supplicant \<Rightarrow> u8 \<Rightarrow> bool \<Rightarrow> ('w, ('s, 'z) wifi_link_scheme) machine \<Rightarrow> ((int \<times> u8 option) \<times> ('w, ('s, 'z) wifi_link_scheme) machine) option" where
  "wifi_get_curr_rssi ctrl junk rssi m = do {
     ((r, tmp), m) \<leftarrow> link_op (wifi_get_signal ctrl junk) m;
     Some (if r \<noteq> 0 then (-1, None) else if rssi then (0, Some tmp) else (-1, None), m)
   }"

definition wifi_get_connected_ap_info ::
    "'s supplicant \<Rightarrow> wlan_env \<Rightarrow> 'w kernel \<Rightarrow> char list \<Rightarrow> char list \<Rightarrow> ('w, ('s, 'z) wifi_link_scheme) machine \<Rightarrow>
      ((int \<times> char list \<times> char list) \<times> ('w, ('s, 'z) wifi_link_scheme) machine) option" where
  "wifi_get_connected_ap_info ctrl wl os sid passwd m = do {
     ((r, info), m) \<leftarrow> link_op (wifi_get_ap_info ctrl zero_ap_info) m;
     if r < 0 then Some ((-1, sid, passwd), m)
     else do {
       sid \<leftarrow> put_str sid (ai_ssid info);
       passwd \<leftarrow> put_str passwd (ai_passwd info);
       if ai_ssid info = [] \<or> ai_passwd info = []
       then do {
         ((r, sid, passwd), m) \<leftarrow> get_passwd_and_ssid_from_wpa_file wl os sid passwd m;
         Some ((if r < 0 then -1 else 0, sid, passwd), m)
       }
       else Some ((0, sid, passwd), m)
     }
   }"

definition wifi_get_bssid ::
    "'s supplicant \<Rightarrow> ('w, ('s, 'z) wifi_link_scheme) machine \<Rightarrow> ((int \<times> bytes) \<times> ('w, ('s, 'z) wifi_link_scheme) machine) option" where
  "wifi_get_bssid ctrl m = do {
     ((r, b), m) \<leftarrow> link_op (wifi_get_current_connect_ap_bssid ctrl) m;
     Some ((if r < 0 then -1 else 0, b), m)
   }"

definition station_network :: "string \<Rightarrow> string option \<Rightarrow> wifi_network option" where
  "station_network sid passwd = do {
     s \<leftarrow> fits 36 sid;
     case passwd of
       Some (c # k) \<Rightarrow> map_option (\<lambda>p. \<lparr>net_id = 0, net_ssid = s, psk = p, net_key_mgmt = WIFI_KEY_WPA2PSK\<rparr>) (fits 68 (c # k))
     | _ \<Rightarrow> Some \<lparr>net_id = 0, net_ssid = s, psk = [], net_key_mgmt = WIFI_KEY_NONE\<rparr>
   }"

definition wifi_station_connect ::
    "'s supplicant \<Rightarrow> wlan_env \<Rightarrow> 'w kernel \<Rightarrow> string \<Rightarrow> string option \<Rightarrow> ('w, ('s, 'z) wifi_link_scheme) machine \<Rightarrow>
      (int \<times> ('w, ('s, 'z) wifi_link_scheme) machine) option" where
  "wifi_station_connect ctrl wl os sid passwd m = do {
     net \<leftarrow> station_network sid passwd;
     (alive, m) \<leftarrow> process_alive os ''wpa_supplicant'' m;
     (alive, m) \<leftarrow> (if alive = 1
        then do { (ready, m) \<leftarrow> run (wpa_ctrl_iface_ready os (WLAN_DEV wl)) m; Some (if ready then 1 else 0, m) }
        else Some (alive, m));
     if alive = 0
     then do {
       (c, m) \<leftarrow> wpa_config_prepare wl os sid passwd m;
       if c \<noteq> 0 then Some (-1, m)
       else do {
         (_, m) \<leftarrow> run (start_wpa wl os) m;
         (_, m) \<leftarrow> run (syscall os (Usleep 500)) m;
         (_, m) \<leftarrow> run (start_udhcpc wl os) m;
         Some (0, m)
       }
     }
     else if alive = 1
     then do {
       ((j, net), m) \<leftarrow> link_op (wifi_join_network ctrl net) m;
       if j < 0 then Some (-1, m)
       else do {
         (dhcp, m) \<leftarrow> process_alive os ''udhcpc'' m;
         if dhcp = 0
         then do {
           (_, m) \<leftarrow> run (syscall os (Usleep 666)) m;
           (_, m) \<leftarrow> run (start_udhcpc wl os) m;
           Some (0, m)
         }
         else Some (0, m)
       }
     }
     else Some (-1, m)
   }"

definition wifi_disconnect ::
    "'s supplicant \<Rightarrow> 'w kernel \<Rightarrow> ('w, ('s, 'z) wifi_link_scheme) machine \<Rightarrow> (int \<times> ('w, ('s, 'z) wifi_link_scheme) machine) option" where
  "wifi_disconnect ctrl os m = do {
     (r, m) \<leftarrow> link_op (wifi_disconnect_network ctrl) m;
     if r < 0 then Some (-1, m)
     else do {
       (_, m) \<leftarrow> run (process_kill os ''udhcpc'') m;
       (_, m) \<leftarrow> run (syscall os (Usleep 200)) m;
       Some (0, m)
     }
   }"


section \<open>The access point\<close>

datatype WF_AP_AUTH_MODE_E =
    WAAM_OPEN | WAAM_WEP | WAAM_WPA_PSK | WAAM_WPA2_PSK | WAAM_WPA_WPA2_PSK | WAAM_WPA_WPA3_SAE | WAAM_UNKNOWN

record WF_AP_CFG_IF_S =
  cfg_ssid :: string
  cfg_s_len :: u8
  cfg_passwd :: string
  cfg_p_len :: u8
  cfg_chan :: u8
  cfg_md :: WF_AP_AUTH_MODE_E
  cfg_ssid_hidden :: u8
  cfg_max_conn :: u8
  cfg_ms_interval :: u16
  cfg_ip :: NW_IP_S

abbreviation num :: "'l::len word \<Rightarrow> string" where
  "num w \<equiv> dec_digits (unat w)"

definition ap_maximum :: "WF_AP_CFG_IF_S \<Rightarrow> string" where
  "ap_maximum cfg = (if cfg_max_conn cfg \<noteq> 0 then num (cfg_max_conn cfg) else ''3'')"

definition ap_interval :: "WF_AP_CFG_IF_S \<Rightarrow> string" where
  "ap_interval cfg = (if cfg_ms_interval cfg \<noteq> 0 then num (cfg_ms_interval cfg) else ''100'')"

text \<open>The lines that all modes start with.\<close>

definition hostapd_head :: "wlan_env \<Rightarrow> WF_AP_CFG_IF_S \<Rightarrow> string list" where
  "hostapd_head wl cfg =
     [''interface='' @ WLAN_AP wl, ''ctrl_interface_group=0'', ''#driver=nl80211'', ''ieee80211n=1'',
      ''ssid='' @ cfg_ssid cfg, ''hw_mode=g'', ''channel='' @ num (cfg_chan cfg), ''max_num_sta='' @ ap_maximum cfg, ''macaddr_acl=0'']"

definition hidden_line :: "WF_AP_CFG_IF_S \<Rightarrow> string" where
  "hidden_line cfg = ''ignore_broadcast_ssid='' @ num (cfg_ssid_hidden cfg)"

text \<open>\<open>None\<close> is the return for a mode that is not known; the mode with WPA3 leaves the text empty.\<close>

definition hostapd_conf :: "wlan_env \<Rightarrow> WF_AP_CFG_IF_S \<Rightarrow> string option" where
  "hostapd_conf wl cfg =
     (case cfg_md cfg of
        WAAM_OPEN \<Rightarrow> Some (unlines (hostapd_head wl cfg @ [''#auth_algs=0'', ''beacon_int='' @ ap_interval cfg, hidden_line cfg]))
      | WAAM_WEP \<Rightarrow> Some (unlines (hostapd_head wl cfg @
          [''#auth_algs=1'', hidden_line cfg, ''wep_default_key=0'', ''wep_key0=1234567890'', ''wep_key1='' @ quoted ''vwxyz'',
           ''wep_key2=0102030405060708090a0b0c0d'', ''wep_key3='' @ quoted ''.2.4.6.8.0.23'', ''wep_key_len_broadcast=13'',
           ''wep_key_len_unicast=13'']) @ ''wep_rekey_period=300'')
      | WAAM_WPA_PSK \<Rightarrow> Some (unlines (hostapd_head wl cfg @
          [''auth_algs=1'', hidden_line cfg, ''wpa=1'', ''wpa_passphrase='' @ cfg_passwd cfg, ''wpa_key_mgmt=WPA-PSK'',
           ''#wpa_pairwise=TKIP CCMP'', ''rsn_pairwise=TKIP CCMP'']))
      | WAAM_WPA2_PSK \<Rightarrow> Some (unlines (hostapd_head wl cfg @
          [''auth_algs=1'', hidden_line cfg, ''wpa=3'', ''wpa_passphrase='' @ cfg_passwd cfg, ''wpa_key_mgmt=WPA-PSK'',
           ''wpa_pairwise=TKIP CCMP'', ''rsn_pairwise=TKIP CCMP'']))
      | WAAM_WPA_WPA2_PSK \<Rightarrow> Some (unlines (hostapd_head wl cfg @
          [''auth_algs=1'', hidden_line cfg, ''wpa=3'', ''wpa_passphrase='' @ cfg_passwd cfg, ''wpa_key_mgmt=WPA-PSK'',
           ''wpa_pairwise=TKIP CCMP'', ''rsn_pairwise=TKIP CCMP'']))
      | WAAM_WPA_WPA3_SAE \<Rightarrow> Some []
      | WAAM_UNKNOWN \<Rightarrow> None)"

definition hostapd_conf_prepare :: "wlan_env \<Rightarrow> 'w kernel \<Rightarrow> WF_AP_CFG_IF_S \<Rightarrow> ('w, 'd) machine \<Rightarrow> (int \<times> ('w, 'd) machine) option" where
  "hostapd_conf_prepare wl os cfg m =
     (case hostapd_conf wl cfg of
        None \<Rightarrow> Some (-1, m)
      | Some t \<Rightarrow> do {
          buf \<leftarrow> fits 1024 t;
          run (write_conf os (WIFI_HOSTAPD_CONF wl) (text_bytes buf)) m
        })"

record UDHCPD_IP_T =
  ud_ifname :: string
  ud_ip_start :: string
  ud_ip_end :: string
  ud_ip_route :: string
  ud_ip_mask :: string

text \<open>The terminating zero is written too.\<close>

definition udhcpd_conf_prepare :: "wlan_env \<Rightarrow> 'w kernel \<Rightarrow> UDHCPD_IP_T \<Rightarrow> ('w, 'd, int) prog" where
  "udhcpd_conf_prepare wl os u = write_conf os (WIFI_DHCPD_CONF wl)
     (text_bytes (snprintf 256 (unlines
        [''interface'' @ CHR 0x09 # ud_ifname u, ''start'' @ CHR 0x09 # ud_ip_start u, ''end'' @ CHR 0x09 # ud_ip_end u,
         ''opt subnet'' @ CHR 0x09 # ud_ip_mask u, ''opt lease 28800'', ''opt router'' @ CHR 0x09 # ud_ip_route u,
         ''opt dns '' @ ud_ip_route u, ''opt domain Realtek''])) @ [0])"

text \<open>The characters up to and with the third dot, and the number of dots met.\<close>

fun dot_loop :: "nat \<Rightarrow> string \<Rightarrow> string \<times> nat" where
  "dot_loop dot [] = ([], dot)"
| "dot_loop dot (c # s) =
     (let dot = (if c = CHR ''.'' then Suc dot else dot) in
      if dot = 3 then ([c], dot) else (case dot_loop dot s of (p, k) \<Rightarrow> (c # p, k)))"

text \<open>The result and what is put into \<open>dst\<close>, an array of 13 characters.\<close>

definition ip_prepare :: "string \<Rightarrow> (int \<times> string) option" where
  "ip_prepare src =
     (case dot_loop 0 (snprintf 16 src) of (p, dot) \<Rightarrow>
        if dot \<noteq> 3 then Some (-1, []) else map_option (Pair 0) (fits 13 p))"

definition dhcp_range :: "string \<Rightarrow> WF_AP_CFG_IF_S \<Rightarrow> string \<Rightarrow> UDHCPD_IP_T" where
  "dhcp_range ifname cfg pre =
     \<lparr>ud_ifname = ifname, ud_ip_start = snprintf 16 (pre @ ''2''), ud_ip_end = snprintf 16 (pre @ ''254''),
      ud_ip_route = nw_ip (cfg_ip cfg), ud_ip_mask = nw_mask (cfg_ip cfg)\<rparr>"

definition wifi_ap_start :: "wlan_env \<Rightarrow> 'w kernel \<Rightarrow> string \<Rightarrow> WF_AP_CFG_IF_S \<Rightarrow> ('w, 'd) machine \<Rightarrow> (int \<times> ('w, 'd) machine) option" where
  "wifi_ap_start wl os ifname cfg m = do {
     (_, m) \<leftarrow> process_kill_if_running os ''hostapd'' m;
     (_, m) \<leftarrow> process_kill_if_running os ''udhcpd'' m;
     (r, m) \<leftarrow> hostapd_conf_prepare wl os cfg m;
     if r < 0 then Some (-1, m)
     else do {
       (_, m) \<leftarrow> run (syscall os (System (snprintf 128 (''hostapd '' @ WIFI_HOSTAPD_CONF wl @ '' &'')))) m;
       (r, m) \<leftarrow> run (wifi_set_ip os ifname (nw_ip (cfg_ip cfg))) m;
       if r < 0 then Some (-1, m)
       else do {
         (_, m) \<leftarrow> run (syscall os (System ''mkdir -p /var/lib/misc'')) m;
         (_, m) \<leftarrow> run (syscall os (System ''touch /var/lib/misc/udhcpd.leases'')) m;
         (r, pre) \<leftarrow> ip_prepare (nw_ip (cfg_ip cfg));
         if r \<noteq> 0 then Some (-1, m)
         else do {
           (r, m) \<leftarrow> run (udhcpd_conf_prepare wl os (dhcp_range ifname cfg pre)) m;
           if r < 0
           then do { (_, m) \<leftarrow> run (syscall os (System ''killall -9 hostapd'')) m; Some (-1, m) }
           else do {
             (_, m) \<leftarrow> run (syscall os (System (snprintf 128 (''udhcpd -f '' @ WIFI_DHCPD_CONF wl @ '' &'')))) m;
             Some (0, m)
           }
         }
       }
     }
   }"

definition wifi_ap_stop :: "'w kernel \<Rightarrow> ('w, 'd, int) prog" where
  "wifi_ap_stop os = do { process_kill os ''hostapd''; process_kill os ''udhcpd''; ret 0 }"

section \<open>Raw frames\<close>

text \<open>\<open>PF_PACKET\<close> is 17 and \<open>SOCK_RAW\<close> 3.\<close>

definition wifi_create_rawsocket :: "'w kernel \<Rightarrow> ('w, 'd, int) prog" where
  "wifi_create_rawsocket os = do { sk \<leftarrow> syscall os (Family_Socket 17 3); ret (sr_rc sk) }"

definition wifi_bind_rawsocket :: "'w kernel \<Rightarrow> string \<Rightarrow> int \<Rightarrow> ('w, 'd, int) prog" where
  "wifi_bind_rawsocket os device rawsock = do {
     i \<leftarrow> syscall os (Ioctl rawsock (SIOCGIFINDEX device));
     if sr_rc i < 0 then ret (sr_rc i)
     else do { b \<leftarrow> syscall os (Bind_Packet rawsock (sr_fd i)); ret (sr_rc b) }
   }"

definition t_radiotap :: bytes where
  "t_radiotap = [0x00, 0x00, 0x0d, 0x00, 0x04, 0x80, 0x02, 0x00, 0x20, 0x00, 0x00, 0x00, 0x00]"

definition wifi_send_rawpacket :: "'w kernel \<Rightarrow> int \<Rightarrow> bytes \<Rightarrow> ('w, 'd, int) prog" where
  "wifi_send_rawpacket os rawsock pkt = do {
     p \<leftarrow> syscall os (Malloc (length pkt + length t_radiotap));
     if sr_fd p = 0 then ret (-1)
     else do {
       w \<leftarrow> syscall os (Write rawsock (t_radiotap @ pkt));
       syscall os (Free (sr_fd p));
       ret (sr_rc w)
     }
   }"

text \<open>The result and the bytes stored.\<close>

definition wifi_recv_rawpacket :: "'w kernel \<Rightarrow> int \<Rightarrow> nat \<Rightarrow> ('w, 'd, int \<times> bytes) prog" where
  "wifi_recv_rawpacket os rawsock pkt_len = do { r \<leftarrow> syscall os (Read rawsock pkt_len); ret (sr_rc r, sr_data r) }"

end
