(* ===== verification/Tkl_Wifi.thy ===== *)
theory Tkl_Wifi
  imports Linux_Wifi
begin

text \<open>
  The wireless interface of the adapter, \<open>tkl_wifi/tkl_wifi.c\<close>, over the functions of \<open>Linux_Wifi\<close> and the
  supplicant of \<open>Wpa_Command\<close>.  Callbacks are opaque numbers, 0 the null pointer, and the calls made to them
  are results.  \<open>None\<close> is a null pointer or array misused, a variable read before it is set, or a loop that does
  not end; numbers that an uninitialised variable may hold where the code goes on with them are arguments.
\<close>

section \<open>State\<close>

datatype WF_STATION_STAT_E =
    WSS_IDLE | WSS_CONNECTING | WSS_PASSWD_WRONG | WSS_NO_AP_FOUND | WSS_CONN_FAIL | WSS_CONN_SUCCESS | WSS_GOT_IP | WSS_DHCP_FAIL

datatype WF_EVENT_E = WFE_CONNECTED | WFE_CONNECT_FAILED | WFE_DISCONNECTED

datatype WF_WK_MD_E = WWM_POWERDOWN | WWM_SNIFFER | WWM_STATION | WWM_SOFTAP | WWM_STATIONAP | WWM_UNKNOWN

datatype WF_IF_E = WF_STATION | WF_AP

datatype COUNTRY_CODE_E = COUNTRY_CODE_CN | COUNTRY_CODE_US | COUNTRY_CODE_JP | COUNTRY_CODE_EU | Other_Country int

record 's tkl_wifi_t = "'s wifi_link" +
  event_cb :: nat
  event_flag :: bool
  sta_conn_flag :: bool
  snifffer_cb :: nat
  snifffer_flag :: bool
  mgnt_cb :: nat
  mgnt_flag :: bool
  tw_sta :: "string option"
  tw_ap :: "string option"
  apcfg :: WF_AP_CFG_IF_S

text \<open>Results are codes of the adapter or a bare number.\<close>

type_synonym wres = "OPERATE_RET + int"

type_synonym ('w, 's) wifi_m = "('w, 's tkl_wifi_t) machine"

definition zero_ip :: NW_IP_S where
  "zero_ip = \<lparr>nw_ip = [], nw_mask = [], nw_gw = [], nw_dns = [], nw_dhcpen = False\<rparr>"

section \<open>Status\<close>

text \<open>The comparison with an address of ones is a copy, whose result is never null.\<close>

definition is_valid_mac :: "byte_ptr \<Rightarrow> bool" where
  "is_valid_mac mac = (case mac of
     None \<Rightarrow> False
   | Some b \<Rightarrow> if bit (b ! 0) 0 then False else if take 6 b = replicate 6 0 then False else True)"

definition station_stat :: "bool \<Rightarrow> int \<Rightarrow> bool \<Rightarrow> WF_STATION_STAT_E \<Rightarrow> WF_STATION_STAT_E" where
  "station_stat f_get_ap_mac f_essid_on f_get_ip stat =
     (let stat = (if \<not> f_get_ap_mac \<or> f_essid_on = 0 then WSS_CONN_FAIL else stat);
          stat = (if f_get_ap_mac \<and> f_essid_on = 1 \<and> \<not> f_get_ip then WSS_CONN_SUCCESS else stat)
      in if f_get_ap_mac \<and> f_essid_on = 1 \<and> f_get_ip then WSS_GOT_IP else stat)"

text \<open>The new content of \<open>*stat\<close>; \<open>mode\<close> holds \<open>junk\<close> if the mode cannot be read.  \<open>WIFI_MODE_MANAGED\<close> is 2.\<close>

definition tkl_wifi_station_get_status ::
    "'s supplicant \<Rightarrow> wlan_env \<Rightarrow> 'w kernel \<Rightarrow> int \<Rightarrow> WF_STATION_STAT_E \<Rightarrow> ('w, 's) wifi_m \<Rightarrow> (WF_STATION_STAT_E \<times> ('w, 's) wifi_m) option" where
  "tkl_wifi_station_get_status ctrl wl os junk stat m = do {
     ((_, md), m) \<leftarrow> run (wifi_get_mode os (WLAN_DEV wl)) m;
     if case_option junk id md \<noteq> 2 then Some (WSS_IDLE, m)
     else do {
       (a, m) \<leftarrow> run (syscall os (Access (''/var/run/wpa_supplicant/'' @ WLAN_DEV wl))) m;
       if sr_rc a \<noteq> 0 then Some (WSS_IDLE, m)
       else do {
         ((r1, mac), m) \<leftarrow> wifi_get_bssid ctrl m;
         ((r2, ip), m) \<leftarrow> run (wifi_get_ip os (WLAN_DEV wl)) m;
         (essid_on, m) \<leftarrow> run (wifi_check_essid_on wl os (WLAN_DEV wl)) m;
         Some (station_stat (r1 = 0 \<and> is_valid_mac (Some mac)) essid_on (r2 = 0 \<and> ip \<noteq> []) stat, m)
       }
     }
   }"

section \<open>The event thread\<close>

text \<open>The variables of the thread; the event is not set at the start.\<close>

record event_vars =
  ev_stat :: WF_STATION_STAT_E
  ev_last_stat :: WF_STATION_STAT_E
  ev_last_state :: "WF_EVENT_E option"
  ev_wf_event :: "WF_EVENT_E option"

definition event_start :: event_vars where
  "event_start = \<lparr>ev_stat = WSS_IDLE, ev_last_stat = WSS_IDLE, ev_last_state = None, ev_wf_event = None\<rparr>"

text \<open>What a round does once the status is known: the event reported, if any, and the time it sleeps.\<close>

definition event_decide :: "event_vars \<Rightarrow> ((WF_EVENT_E option \<times> nat) \<times> event_vars) option" where
  "event_decide v =
     (let stat = ev_stat v in
      if stat = WSS_IDLE then Some ((None, 1), v)
      else
        let v = (if stat \<noteq> WSS_CONN_SUCCESS \<and> stat \<noteq> WSS_GOT_IP then v\<lparr>ev_wf_event := Some WFE_DISCONNECTED\<rparr> else v);
            v = (if stat = WSS_CONN_FAIL then v\<lparr>ev_wf_event := Some WFE_CONNECT_FAILED\<rparr>
                 else if stat = WSS_GOT_IP \<or> stat = WSS_CONN_SUCCESS then v\<lparr>ev_wf_event := Some WFE_CONNECTED\<rparr> else v)
        in if (stat = WSS_GOT_IP \<or> stat = WSS_CONN_SUCCESS) \<and> ev_last_stat v \<noteq> stat
           then Some ((Some WFE_CONNECTED, 0), v\<lparr>ev_last_stat := stat, ev_last_state := Some WFE_CONNECTED\<rparr>)
           else case ev_wf_event v of
                  None \<Rightarrow> None
                | Some e \<Rightarrow> if ev_last_state v = Some e then Some ((None, 1), v)
                            else Some ((Some e, 3), v\<lparr>ev_last_state := Some e\<rparr>))"

text \<open>One round of the loop of \<open>wifi_status_event_cb\<close>, with the callback made.\<close>

definition wifi_event_round ::
    "'s supplicant \<Rightarrow> wlan_env \<Rightarrow> 'w kernel \<Rightarrow> int \<Rightarrow> event_vars \<Rightarrow> ('w, 's) wifi_m \<Rightarrow>
      (((nat \<times> WF_EVENT_E) option \<times> event_vars) \<times> ('w, 's) wifi_m) option" where
  "wifi_event_round ctrl wl os junk v m =
     (if \<not> sta_conn_flag (m_dev m)
      then do { (_, m) \<leftarrow> run (syscall os (Sleep 1)) m; Some ((None, v), m) }
      else do {
        (stat, m) \<leftarrow> tkl_wifi_station_get_status ctrl wl os junk (ev_stat v) m;
        ((ev, naptime), v) \<leftarrow> event_decide (v\<lparr>ev_stat := stat\<rparr>);
        cb \<leftarrow> (case ev of None \<Rightarrow> Some None
               | Some e \<Rightarrow> if event_cb (m_dev m) = 0 then None else Some (Some (event_cb (m_dev m), e)));
        (_, m) \<leftarrow> (if naptime = 0 then Some (reply 0 0 [], m) else run (syscall os (Sleep naptime)) m);
        Some ((cb, v), m)
      })"

definition tkl_wifi_init :: "wlan_env \<Rightarrow> 'w kernel \<Rightarrow> nat \<Rightarrow> ('w, 's tkl_wifi_t, wres) prog" where
  "tkl_wifi_init wl os cb =
     (if cb = 0 then ret (Inl OPRT_INVALID_PARM)
      else do {
        set_dev (\<lambda>d. d\<lparr>event_cb := cb, tw_sta := Some (WLAN_DEV wl), tw_ap := Some (WLAN_AP wl)\<rparr>);
        r \<leftarrow> syscall os (Thread_Create 0);
        if sr_rc r \<noteq> 0 then ret (Inr (sr_rc r)) else ret (Inl OPRT_OK)
      })"

section \<open>Channel, scan and addresses\<close>

text \<open>The number is passed on as a \<open>char\<close>.\<close>

definition tkl_wifi_set_cur_channel :: "wlan_env \<Rightarrow> 'w kernel \<Rightarrow> u8 \<Rightarrow> ('w, 's) wifi_m \<Rightarrow> (wres \<times> ('w, 's) wifi_m) option" where
  "tkl_wifi_set_cur_channel wl os chan m = do {
     ifname \<leftarrow> tw_sta (m_dev m);
     (r, m) \<leftarrow> run (wifi_set_channel wl os ifname (sint chan)) m;
     Some (Inl (if r \<noteq> 0 then OPRT_COM_ERROR else OPRT_OK), m)
   }"

definition tkl_wifi_get_cur_channel :: "wlan_env \<Rightarrow> 'w kernel \<Rightarrow> bool \<Rightarrow> ('w, 's) wifi_m \<Rightarrow> ((wres \<times> u8 option) \<times> ('w, 's) wifi_m) option" where
  "tkl_wifi_get_cur_channel wl os chan m =
     (if \<not> chan then Some ((Inl OPRT_INVALID_PARM, None), m)
      else do {
        ifname \<leftarrow> tw_sta (m_dev m);
        ((r, c), m) \<leftarrow> run (wifi_get_channel wl os ifname) m;
        Some (if r \<noteq> 0 then (Inl OPRT_COM_ERROR, None) else (Inl OPRT_OK, Some (case_option 0 id c)), m)
      })"

definition MAX_AP_SEARCH :: nat where "MAX_AP_SEARCH = 64"

text \<open>
  The result, the block handed out with its address and the records in it, and \<open>*num\<close>.  A block that could
  not be had is cleared all the same.
\<close>

definition tkl_wifi_scan_ap ::
    "wlan_env \<Rightarrow> 'w kernel \<Rightarrow> (nat \<Rightarrow> int list) \<Rightarrow> string option \<Rightarrow> ('w, 's) wifi_m \<Rightarrow>
      ((wres \<times> (int \<times> AP_IF_S list) option) \<times> ('w, 's) wifi_m) option" where
  "tkl_wifi_scan_ap wl os x sid m = do {
     ifname \<leftarrow> tw_sta (m_dev m);
     (p, m) \<leftarrow> run (syscall os (Malloc (MAX_AP_SEARCH * 45))) m;
     if sr_fd p = 0 then None
     else do {
       (_, m) \<leftarrow> run (wifi_enable os ifname True) m;
       (aps, m) \<leftarrow> wifi_scan_ap wl os x ifname MAX_AP_SEARCH m;
       if aps = [] then Some ((Inl OPRT_COM_ERROR, None), m)
       else case sid of
         None \<Rightarrow> Some ((Inl OPRT_OK, Some (sr_fd p, aps)), m)
       | Some s \<Rightarrow> do {
           (q, m) \<leftarrow> run (syscall os (Malloc 45)) m;
           if sr_fd q = 0 then None
           else do {
             (_, m) \<leftarrow> run (syscall os (Free (sr_fd p))) m;
             Some ((Inl OPRT_OK, Some (sr_fd q, [case_option zero_ap id (find (\<lambda>a. af_ssid a = s) aps)])), m)
           }
         }
     }
   }"

definition tkl_wifi_release_ap :: "'w kernel \<Rightarrow> int \<Rightarrow> ('w, 's) wifi_m \<Rightarrow> (wres \<times> ('w, 's) wifi_m) option" where
  "tkl_wifi_release_ap os ap m =
     (if ap = 0 then Some (Inl OPRT_INVALID_PARM, m)
      else do { (_, m) \<leftarrow> run (syscall os (Free ap)) m; Some (Inl OPRT_OK, m) })"

definition tkl_wifi_set_ip :: "WF_IF_E \<Rightarrow> NW_IP_S \<Rightarrow> wres" where
  "tkl_wifi_set_ip wif ip = Inl OPRT_OK"

text \<open>\<open>strrchr(gw, '.')\<close>, cut there, and \<open>".1"\<close> appended.\<close>

definition gateway :: "string \<Rightarrow> string option" where
  "gateway ip = (if CHR ''.'' \<in> set ip then Some (rev (tl (dropWhile (\<lambda>c. c \<noteq> CHR ''.'') (rev ip))) @ ''.1'') else None)"

text \<open>The result and what the cleared structure \<open>*ip\<close> holds then; the flag tells whether \<open>ip\<close> is not null.\<close>

definition tkl_wifi_get_ip :: "'w kernel \<Rightarrow> WF_IF_E \<Rightarrow> bool \<Rightarrow> ('w, 's) wifi_m \<Rightarrow> ((wres \<times> NW_IP_S) \<times> ('w, 's) wifi_m) option" where
  "tkl_wifi_get_ip os wif ip m =
     (if \<not> ip then Some ((Inl OPRT_COM_ERROR, zero_ip), m)
      else if wif = WF_AP then Some ((Inl OPRT_OK, cfg_ip (apcfg (m_dev m))), m)
      else do {
        ifname \<leftarrow> tw_sta (m_dev m);
        ((r, a), m) \<leftarrow> run (wifi_get_ip os ifname) m;
        if r = 1 then Some ((Inl OPRT_OK, zero_ip), m)
        else if r \<noteq> 0 then Some ((Inl OPRT_COM_ERROR, zero_ip), m)
        else do {
          ((r, k), m) \<leftarrow> run (wifi_get_ip_mask os ifname) m;
          let ip = zero_ip\<lparr>nw_ip := a\<rparr>;
          if r \<noteq> 0 then Some ((Inl OPRT_COM_ERROR, ip), m)
          else
            let ip = ip\<lparr>nw_mask := case_option [] id k\<rparr> in
            case gateway a of
              None \<Rightarrow> Some ((Inl OPRT_COM_ERROR, ip\<lparr>nw_gw := a\<rparr>), m)
            | Some g \<Rightarrow> map_option (\<lambda>g. ((Inl OPRT_OK, ip\<lparr>nw_gw := g\<rparr>), m)) (fits 16 g)
        }
      })"

definition tkl_wifi_set_mac :: "'w kernel \<Rightarrow> WF_IF_E \<Rightarrow> bytes \<Rightarrow> ('w, 's) wifi_m \<Rightarrow> (wres \<times> ('w, 's) wifi_m) option" where
  "tkl_wifi_set_mac os wif mac m = do {
     ifname \<leftarrow> tw_sta (m_dev m);
     (r, m) \<leftarrow> run (wifi_set_mac os ifname mac) m;
     Some (Inl (if r < 0 then OPRT_COM_ERROR else OPRT_OK), m)
   }"

definition tkl_wifi_get_mac :: "'w kernel \<Rightarrow> WF_IF_E \<Rightarrow> ('w, 's) wifi_m \<Rightarrow> ((wres \<times> bytes option) \<times> ('w, 's) wifi_m) option" where
  "tkl_wifi_get_mac os wif m = do {
     ifname \<leftarrow> tw_sta (m_dev m);
     ((r, a), m) \<leftarrow> run (wifi_get_mac os ifname) m;
     Some (if r < 0 then (Inl OPRT_COM_ERROR, None) else (Inl OPRT_OK, a), m)
   }"


section \<open>Modes\<close>

text \<open>The results are only reported in the log.\<close>

definition tkl_wifi_set_work_mode :: "'w kernel \<Rightarrow> WF_WK_MD_E \<Rightarrow> ('w, 's) wifi_m \<Rightarrow> (wres \<times> ('w, 's) wifi_m) option" where
  "tkl_wifi_set_work_mode os mode m =
     map_option (\<lambda>(r, m). (Inl OPRT_OK, m))
       (case mode of
          WWM_POWERDOWN \<Rightarrow> do { i \<leftarrow> tw_sta (m_dev m); run (wifi_enable os i False) m }
        | WWM_SNIFFER \<Rightarrow> do { i \<leftarrow> tw_sta (m_dev m); run (wifi_set_mode os i ''Monitor'') m }
        | WWM_STATION \<Rightarrow> do { i \<leftarrow> tw_sta (m_dev m); run (wifi_set_mode os i ''Managed'') m }
        | WWM_SOFTAP \<Rightarrow> do {
            i \<leftarrow> tw_ap (m_dev m);
            (_, m) \<leftarrow> run (wifi_enable os i False) m;
            (_, m) \<leftarrow> run (wifi_set_mode os i ''Master'') m;
            run (wifi_enable os i True) m
          }
        | WWM_STATIONAP \<Rightarrow> do {
            i \<leftarrow> tw_sta (m_dev m);
            (r1, m) \<leftarrow> run (wifi_set_mode os i ''Managed'') m;
            i2 \<leftarrow> tw_ap (m_dev m);
            run (wifi_set_mode os i2 ''Master'') m
          }
        | WWM_UNKNOWN \<Rightarrow> Some (0, m))"

text \<open>
  Managed, Master and Monitor are 2, 3 and 6.  The second result is not looked at: \<open>junk\<close> is what \<open>wf2_mode\<close>
  holds if it was not set.
\<close>

definition tkl_wifi_get_work_mode :: "'w kernel \<Rightarrow> int \<Rightarrow> ('w, 's) wifi_m \<Rightarrow> ((wres \<times> WF_WK_MD_E option) \<times> ('w, 's) wifi_m) option" where
  "tkl_wifi_get_work_mode os junk m = do {
     i \<leftarrow> tw_sta (m_dev m);
     ((r, md), m) \<leftarrow> run (wifi_get_mode os i) m;
     if r < 0 then Some ((Inl OPRT_COM_ERROR, None), m)
     else if md = Some 2
     then do {
       i2 \<leftarrow> tw_ap (m_dev m);
       ((_, md2), m) \<leftarrow> run (wifi_get_mode os i2) m;
       Some ((Inl OPRT_OK, Some (if case_option junk id md2 = 3 then WWM_STATIONAP else WWM_STATION)), m)
     }
     else if md = Some 3 then Some ((Inl OPRT_OK, Some WWM_SOFTAP), m)
     else if md = Some 6 then Some ((Inl OPRT_OK, Some WWM_SNIFFER), m)
     else Some ((Inr (-1), None), m)
   }"

section \<open>The access point\<close>

definition WIFI_AP_DEFAULT_IP :: string where
  "WIFI_AP_DEFAULT_IP = ''192.168.31.1''"

text \<open>The copy with the default address is what is remembered; the original is what is started.\<close>

definition tkl_wifi_start_ap :: "wlan_env \<Rightarrow> 'w kernel \<Rightarrow> WF_AP_CFG_IF_S option \<Rightarrow> ('w, 's) wifi_m \<Rightarrow> (wres \<times> ('w, 's) wifi_m) option" where
  "tkl_wifi_start_ap wl os cfg m =
     (case cfg of
        None \<Rightarrow> Some (Inl OPRT_INVALID_PARM, m)
      | Some cfg \<Rightarrow> do {
          i \<leftarrow> tw_ap (m_dev m);
          (_, m) \<leftarrow> run (wifi_enable os i True) m;
          if cfg_chan cfg = 0 \<or> cfg_chan cfg > 14 then Some (Inr (-1), m)
          else do {
            let tmp_cfg = (if nw_ip (cfg_ip cfg) = [] then cfg\<lparr>cfg_ip := (cfg_ip cfg)\<lparr>nw_ip := WIFI_AP_DEFAULT_IP\<rparr>\<rparr> else cfg);
            (r, m) \<leftarrow> wifi_ap_start wl os i cfg m;
            if r < 0 then Some (Inl OPRT_COM_ERROR, m)
            else Some (Inl OPRT_OK, m\<lparr>m_dev := (m_dev m)\<lparr>apcfg := tmp_cfg\<rparr>\<rparr>)
          }
        })"

definition tkl_wifi_stop_ap :: "'w kernel \<Rightarrow> ('w, 's) wifi_m \<Rightarrow> (wres \<times> ('w, 's) wifi_m) option" where
  "tkl_wifi_stop_ap os m = do {
     (r, m) \<leftarrow> run (wifi_ap_stop os) m;
     i \<leftarrow> tw_ap (m_dev m);
     (_, m) \<leftarrow> run (wifi_enable os i False) m;
     Some (Inl (if r = 0 then OPRT_OK else OPRT_COM_ERROR), m)
   }"

section \<open>The station\<close>

text \<open>
  The result and what is stored in \<open>*fast_ap_info\<close>, which is never anything.  The block of 114 bytes keeps the
  channel, the address, the name and the password; the arrays in it hold what the memory held before.
\<close>

definition tkl_wifi_get_connected_ap_info ::
    "'s supplicant \<Rightarrow> wlan_env \<Rightarrow> 'w kernel \<Rightarrow> char list \<Rightarrow> char list \<Rightarrow> bool \<Rightarrow> ('w, 's) wifi_m \<Rightarrow> ((wres \<times> int option) \<times> ('w, 's) wifi_m) option" where
  "tkl_wifi_get_connected_ap_info ctrl wl os old_ssid old_passwd fast_ap_info m =
     (if \<not> fast_ap_info then Some ((Inl OPRT_INVALID_PARM, None), m)
      else do {
        (p, m) \<leftarrow> run (syscall os (Malloc 114)) m;
        if sr_fd p = 0 then Some ((Inr (-1), None), m)
        else do {
          i \<leftarrow> tw_sta (m_dev m);
          ((r, chan), m) \<leftarrow> run (wifi_get_channel wl os i) m;
          if r < 0 then Some ((Inr (-1), None), m)
          else do {
            ((r, bssid), m) \<leftarrow> wifi_get_bssid ctrl m;
            if r < 0 then Some ((Inr (-1), None), m)
            else do {
              ((r, ssid_passwd), m) \<leftarrow> wifi_get_connected_ap_info ctrl wl os old_ssid old_passwd m;
              if r < 0 then Some ((Inl OPRT_COM_ERROR, None), m)
              else Some ((Inl OPRT_OK, None), m)
            }
          }
        }
      })"

definition tkl_wifi_station_fast_connect ::
    "'s supplicant \<Rightarrow> wlan_env \<Rightarrow> 'w kernel \<Rightarrow> char list \<Rightarrow> char list \<Rightarrow> ('w, 's) wifi_m \<Rightarrow> (wres \<times> ('w, 's) wifi_m) option" where
  "tkl_wifi_station_fast_connect ctrl wl os sid passwd m = do {
     sid \<leftarrow> cstr sid;
     passwd \<leftarrow> cstr passwd;
     (r, m) \<leftarrow> wifi_station_connect ctrl wl os sid (Some passwd) m;
     Some (Inl (if r < 0 then OPRT_COM_ERROR else OPRT_OK), m)
   }"

definition tkl_wifi_station_connect ::
    "'s supplicant \<Rightarrow> wlan_env \<Rightarrow> 'w kernel \<Rightarrow> string \<Rightarrow> string option \<Rightarrow> ('w, 's) wifi_m \<Rightarrow> (wres \<times> ('w, 's) wifi_m) option" where
  "tkl_wifi_station_connect ctrl wl os sid passwd m = do {
     let m = m\<lparr>m_dev := (m_dev m)\<lparr>sta_conn_flag := True\<rparr>\<rparr>;
     (r, m) \<leftarrow> wifi_station_connect ctrl wl os sid passwd m;
     Some (Inl (if r < 0 then OPRT_COM_ERROR else OPRT_OK), m)
   }"

definition tkl_wifi_station_disconnect :: "'s supplicant \<Rightarrow> 'w kernel \<Rightarrow> ('w, 's) wifi_m \<Rightarrow> (wres \<times> ('w, 's) wifi_m) option" where
  "tkl_wifi_station_disconnect ctrl os m = do {
     let m = m\<lparr>m_dev := (m_dev m)\<lparr>sta_conn_flag := False\<rparr>\<rparr>;
     (r, m) \<leftarrow> wifi_disconnect ctrl os m;
     if r < 0 then Some (Inl OPRT_COM_ERROR, m)
     else do {
       i \<leftarrow> tw_sta (m_dev m);
       (_, m) \<leftarrow> run (wifi_enable os i False) m;
       (_, m) \<leftarrow> run (syscall os (Usleep 100)) m;
       (_, m) \<leftarrow> run (wifi_enable os i True) m;
       Some (Inl OPRT_OK, m)
     }
   }"

definition tkl_wifi_station_get_conn_ap_rssi :: "'s supplicant \<Rightarrow> u8 \<Rightarrow> bool \<Rightarrow> ('w, 's) wifi_m \<Rightarrow> ((wres \<times> u8 option) \<times> ('w, 's) wifi_m) option" where
  "tkl_wifi_station_get_conn_ap_rssi ctrl junk rssi m = do {
     ((r, v), m) \<leftarrow> wifi_get_curr_rssi ctrl junk rssi m;
     Some (if r < 0 then (Inr (-1), None) else (Inl OPRT_OK, v), m)
   }"

definition tkl_wifi_get_bssid :: "'s supplicant \<Rightarrow> ('w, 's) wifi_m \<Rightarrow> ((wres \<times> bytes) \<times> ('w, 's) wifi_m) option" where
  "tkl_wifi_get_bssid ctrl m = do {
     ((r, b), m) \<leftarrow> wifi_get_bssid ctrl m;
     Some ((if r < 0 then Inr (-1) else Inl OPRT_OK, b), m)
   }"

fun country_name :: "COUNTRY_CODE_E \<Rightarrow> string option" where
  "country_name COUNTRY_CODE_CN = Some ''CN''"
| "country_name COUNTRY_CODE_US = Some ''US''"
| "country_name COUNTRY_CODE_JP = Some ''JP''"
| "country_name COUNTRY_CODE_EU = Some ''EU''"
| "country_name (Other_Country c) = None"

definition tkl_wifi_set_country_code :: "'s supplicant \<Rightarrow> 'w kernel \<Rightarrow> COUNTRY_CODE_E \<Rightarrow> ('w, 's) wifi_m \<Rightarrow> (wres \<times> ('w, 's) wifi_m) option" where
  "tkl_wifi_set_country_code ctrl os ccode m =
     (case country_name ccode of
        None \<Rightarrow> Some (Inr (-1), m)
      | Some country \<Rightarrow> do {
          i \<leftarrow> tw_sta (m_dev m);
          (_, m) \<leftarrow> run (wifi_enable os i False) m;
          (_, m) \<leftarrow> link_op (wifi_set_country ctrl country) m;
          (_, m) \<leftarrow> run (wifi_enable os i True) m;
          Some (Inl OPRT_OK, m)
        })"

section \<open>Frames from the air\<close>

text \<open>The length of the radiotap header at the front of a buffer: 16 bits at offset 2, low byte first.\<close>

definition it_len :: "bytes \<Rightarrow> nat" where
  "it_len buf = unat (buf ! 2) + 256 * unat (buf ! 3)"

text \<open>
  One round of \<open>sniffer_process\<close> on what \<open>recvfrom\<close> returned and the buffer of 512 bytes it left: the frame
  handed to the callback, by its bytes and the length given.
\<close>

definition sniffer_round :: "int \<Rightarrow> bytes \<Rightarrow> (bytes \<times> nat) option" where
  "sniffer_round rev_num rev_buffer =
     (let skipLen = it_len rev_buffer in
      if rev_num > int skipLen then Some (drop skipLen rev_buffer, nat (rev_num - int skipLen)) else None)"

text \<open>One round of \<open>mgnt_process\<close>, with the buffer of 8192 bytes.\<close>

definition mgnt_round :: "int \<Rightarrow> bytes \<Rightarrow> (bytes \<times> nat) option" where
  "mgnt_round r pkt =
     (if r > -1
      then let skipLen = it_len pkt in if r > int skipLen then Some (drop skipLen pkt, nat r) else None
      else None)"

text \<open>The rounds of both threads over the bytes that arrive, while the flag and the callback are set; the calls of the callback.\<close>

fun sniffer_rounds :: "'w kernel \<Rightarrow> int \<Rightarrow> bytes \<Rightarrow> nat \<Rightarrow> ('w, 's tkl_wifi_t, (nat \<times> bytes \<times> nat) list) prog" where
  "sniffer_rounds os sock buf 0 = ret []"
| "sniffer_rounds os sock buf (Suc n) = do {
     d \<leftarrow> dev;
     if snifffer_cb d = 0 \<or> \<not> snifffer_flag d
     then do {
       set_dev (\<lambda>d. d\<lparr>snifffer_cb := 0\<rparr>);
       syscall os (Close sock);
       ret []
     }
     else do {
       r \<leftarrow> syscall os (Recvfrom sock 512);
       let buf = store_into buf (sr_data r);
       cbs \<leftarrow> sniffer_rounds os sock buf n;
       ret ((case sniffer_round (sr_rc r) buf of None \<Rightarrow> [] | Some c \<Rightarrow> [(snifffer_cb d, c)]) @ cbs)
     }
   }"

text \<open>The socket is not closed if it cannot be bound; \<open>n\<close> bounds the rounds observed.\<close>

definition sniffer_process :: "'w kernel \<Rightarrow> bytes \<Rightarrow> nat \<Rightarrow> ('w, 's) wifi_m \<Rightarrow> ((nat \<times> bytes \<times> nat) list \<times> ('w, 's) wifi_m) option" where
  "sniffer_process os rev_buffer n m = do {
     wlan \<leftarrow> tw_sta (m_dev m);
     (_, m) \<leftarrow> run (syscall os Thread_Detach) m;
     (sock, m) \<leftarrow> run (wifi_create_rawsocket os) m;
     if sock = -1 then Some ([], m)
     else do {
       (b, m) \<leftarrow> run (wifi_bind_rawsocket os wlan sock) m;
       if b = -1 then Some ([], m) else run (sniffer_rounds os sock rev_buffer n) m
     }
   }"

text \<open>\<open>pthread_join\<close> waits for the round in which the thread sees the flag.\<close>

definition tkl_wifi_set_sniffer :: "'w kernel \<Rightarrow> bool \<Rightarrow> nat \<Rightarrow> ('w, 's) wifi_m \<Rightarrow> (wres \<times> ('w, 's) wifi_m) option" where
  "tkl_wifi_set_sniffer os en cb m =
     (if en
      then do {
        (_, m) \<leftarrow> tkl_wifi_set_work_mode os WWM_SNIFFER m;
        let m = m\<lparr>m_dev := (m_dev m)\<lparr>snifffer_cb := cb, snifffer_flag := True\<rparr>\<rparr>;
        (_, m) \<leftarrow> run (syscall os (Thread_Create 1)) m;
        Some (Inl OPRT_OK, m)
      }
      else do {
        let m = m\<lparr>m_dev := (m_dev m)\<lparr>snifffer_flag := False\<rparr>\<rparr>;
        (_, m) \<leftarrow> run (syscall os (Thread_Join 1)) m;
        (_, m) \<leftarrow> tkl_wifi_set_work_mode os WWM_STATION m;
        Some (Inl OPRT_OK, m)
      })"

definition tkl_wifi_send_mgnt :: "wlan_env \<Rightarrow> 'w kernel \<Rightarrow> bytes \<Rightarrow> ('w, 'd, wres) prog" where
  "tkl_wifi_send_mgnt wl os buf = do {
     sk \<leftarrow> syscall os (Family_Socket 17 3);
     if sr_rc sk < 0 then ret (Inr (-1))
     else do {
       i \<leftarrow> syscall os (Ioctl (sr_rc sk) (SIOCGIFINDEX (take 15 (WLAN_AP wl))));
       if sr_rc i < 0 then do { syscall os (Close (sr_rc sk)); ret (Inr (-1)) }
       else do {
         b \<leftarrow> syscall os (Bind_Packet (sr_rc sk) (sr_fd i));
         if sr_rc b < 0 then do { syscall os (Close (sr_rc sk)); ret (Inr (-1)) }
         else do {
           p \<leftarrow> syscall os (Setsockopt (sr_rc sk));
           if sr_rc p < 0 then do { syscall os (Close (sr_rc sk)); ret (Inr (-1)) }
           else do {
             n \<leftarrow> wifi_send_rawpacket os (sr_rc sk) buf;
             if n < 0 then do { syscall os (Close (sr_rc sk)); ret (Inr (-1)) }
             else do { syscall os (Close (sr_rc sk)); ret (Inl OPRT_OK) }
           }
         }
       }
     }
   }"

fun mgnt_rounds :: "'w kernel \<Rightarrow> int \<Rightarrow> bytes \<Rightarrow> nat \<Rightarrow> ('w, 's tkl_wifi_t, (nat \<times> bytes \<times> nat) list) prog" where
  "mgnt_rounds os sock pkt 0 = ret []"
| "mgnt_rounds os sock pkt (Suc n) = do {
     d \<leftarrow> dev;
     if \<not> mgnt_flag d then ret []
     else do {
       (r, bs) \<leftarrow> wifi_recv_rawpacket os sock 8192;
       let pkt = store_into pkt bs;
       cbs \<leftarrow> mgnt_rounds os sock pkt n;
       ret ((case mgnt_round r pkt of None \<Rightarrow> [] | Some c \<Rightarrow> [(mgnt_cb d, c)]) @ cbs)
     }
   }"

definition mgnt_process :: "wlan_env \<Rightarrow> 'w kernel \<Rightarrow> nat \<Rightarrow> ('w, 's tkl_wifi_t, (nat \<times> bytes \<times> nat) list) prog" where
  "mgnt_process wl os n = do {
     sock \<leftarrow> wifi_create_rawsocket os;
     if sock = -1 then ret []
     else do {
       b \<leftarrow> wifi_bind_rawsocket os (WLAN_AP wl) sock;
       if b = -1 then ret [] else mgnt_rounds os sock (replicate 8192 0) n
     }
   }"

definition tkl_wifi_register_recv_mgnt_callback :: "wlan_env \<Rightarrow> 'w kernel \<Rightarrow> bool \<Rightarrow> nat \<Rightarrow> ('w, 's) wifi_m \<Rightarrow> (wres \<times> ('w, 's) wifi_m) option" where
  "tkl_wifi_register_recv_mgnt_callback wl os enable recv_cb m =
     (if enable
      then do {
        i \<leftarrow> tw_sta (m_dev m);
        i2 \<leftarrow> tw_ap (m_dev m);
        ((r, c), m) \<leftarrow> run (wifi_get_channel wl os i) m;
        (_, m) \<leftarrow> (if r = 0
          then do {
            (_, m) \<leftarrow> run (wifi_enable os i2 True) m;
            run (wifi_set_channel wl os i2 (sint (case_option 0 id c))) m
          }
          else Some (0, m));
        (_, m) \<leftarrow> run (wifi_set_mode os i2 ''Monitor'') m;
        let m = m\<lparr>m_dev := (m_dev m)\<lparr>mgnt_cb := recv_cb, mgnt_flag := True\<rparr>\<rparr>;
        (_, m) \<leftarrow> run (syscall os (Thread_Create 2)) m;
        Some (Inl OPRT_OK, m)
      }
      else do {
        let m = m\<lparr>m_dev := (m_dev m)\<lparr>mgnt_flag := False\<rparr>\<rparr>;
        (_, m) \<leftarrow> run (syscall os (Thread_Join 2)) m;
        Some (Inl OPRT_OK, m\<lparr>m_dev := (m_dev m)\<lparr>mgnt_cb := 0\<rparr>\<rparr>)
      })"

definition tkl_wifi_set_rf_calibrated :: wres where
  "tkl_wifi_set_rf_calibrated = Inl OPRT_COM_ERROR"

definition tkl_wifi_set_lp_mode :: "bool \<Rightarrow> u8 \<Rightarrow> wres" where
  "tkl_wifi_set_lp_mode enable dtim = Inl OPRT_COM_ERROR"

definition tkl_wifi_ioctl :: "int \<Rightarrow> wres" where
  "tkl_wifi_ioctl cmd = Inl OPRT_NOT_FOUND"

end
