(* ===== verification/Wifi_Correct.thy ===== *)
theory Wifi_Correct
  imports Tkl_Wifi
begin

text \<open>
  What the wireless adapter of \<open>Linux_Wifi\<close> and \<open>Tkl_Wifi\<close> does: which of its functions release their
  descriptors, what the event thread reports, what a scan gives, the addresses and configuration files derived
  for the access point and the station, and the frames handed on.
\<close>

section \<open>Descriptors\<close>

definition zero_ap_cfg :: WF_AP_CFG_IF_S where
  "zero_ap_cfg = \<lparr>cfg_ssid = [], cfg_s_len = 0, cfg_passwd = [], cfg_p_len = 0, cfg_chan = 0, cfg_md = WAAM_OPEN,
     cfg_ssid_hidden = 0, cfg_max_conn = 0, cfg_ms_interval = 0, cfg_ip = zero_ip\<rparr>"

text \<open>The static variable \<open>s_tkl_wifi\<close> at the start, with a connection that has sent nothing.\<close>

definition s_tkl_wifi :: "'s \<Rightarrow> 's tkl_wifi_t" where
  "s_tkl_wifi s0 = \<lparr>wl_link = \<lparr>sup = s0, sent = []\<rparr>, event_cb = 0, event_flag = False, sta_conn_flag = False, snifffer_cb = 0,
     snifffer_flag = False, mgnt_cb = 0, mgnt_flag = False, tw_sta = None, tw_ap = None, apcfg = zero_ap_cfg\<rparr>"

interpretation wifi: fd_owner "\<lambda>_ :: 's tkl_wifi_t. Map.empty :: unit \<rightharpoonup> int" "\<lambda>_. True" "s_tkl_wifi s0" for s0 :: 's
  by unfold_locales simp_all

lemma wifi_safe_call:
  "wifi.safe (syscall os (System c))" "wifi.safe (syscall os (Unlink p))" "wifi.safe (syscall os (Thread_Create n))"
  "wifi.safe (syscall os (Malloc n))" "wifi.safe (syscall os (Free a))" "wifi.safe (syscall os (Access p))"
  "wifi.safe (syscall os (Open_Dir p))" "wifi.safe (syscall os Close_Dir)" "wifi.safe (syscall os (Make_Dir p n))" "wifi.safe (syscall os (Usleep n))"
  by (auto intro!: wifi.safe_call)


lemma open_family_acc:
  fixes s :: "('w, 's tkl_wifi_t) machine"
  assumes "wifi.acc [] s"
  shows "wp (open_family os fs) (\<lambda>fd s'. wifi.acc (if 0 \<le> fd then [fd] else []) s' \<and> depth s' = depth s) s"
  using assms
proof (induction fs arbitrary: s)
  case (Cons f fs)
  show ?case unfolding open_family.simps
  proof (rule wp_bind, rule wifi.wp_acc_call [OF Cons.prems])
    fix r and s' :: "('w, 's tkl_wifi_t) machine"
    assume a: "wifi.acc (case new_fd (Family_Socket f 2) r of None \<Rightarrow> [] | Some fd \<Rightarrow> [fd]) s'" and d: "depth s' = depth s"
    show "wp (if 0 \<le> sr_rc r then ret (sr_rc r) else open_family os fs)
      (\<lambda>fd s'. wifi.acc (if 0 \<le> fd then [fd] else []) s' \<and> depth s' = depth s) s'"
    proof (cases "0 \<le> sr_rc r")
      case True
      then show ?thesis using a d by (simp add: wp_def)
    next
      case False
      then have "wifi.acc [] s'" using a by simp
      from Cons.IH [OF this] show ?thesis using False d by simp
    qed
  qed simp_all
qed (simp add: wp_def)

lemma safe_iw:
  fixes f :: "int \<Rightarrow> ('w, 's tkl_wifi_t, 'a) prog"
  assumes "\<And>fd. fd < 0 \<Longrightarrow> wifi.safe (f fd)" "\<And>fd. 0 \<le> fd \<Longrightarrow> wifi.ends fd (f fd)"
  shows "wifi.safe (State_Monad.bind (iw_sockets_open os) f)"
  unfolding wifi.safe_def iw_sockets_open_def
proof (intro allI impI wp_bind, rule wp_mono, erule open_family_acc)
  fix s fd and s' :: "('w, 's tkl_wifi_t) machine"
  assume a: "wifi.acc (if 0 \<le> fd then [fd] else []) s' \<and> depth s' = depth s"
  have "wp (f fd) (\<lambda>r s''. wifi.acc [] s'' \<and> depth s'' = depth s') s'"
    using a assms [of fd] unfolding wifi.ends_def wifi.safe_def by (cases "0 \<le> fd") auto
  then show "wp (f fd) (\<lambda>r s'. wifi.acc [] s' \<and> depth s' = depth s) s'" using a by simp
qed

lemmas wifi_fd_rules = wifi.safe_return wifi.ends_close wifi.ends_call wifi.ends_if

lemma wifi_safe_queries:
  "wifi.safe (wifi_enable os i b)" "wifi.safe (wifi_get_ip os i)" "wifi.safe (wifi_get_mac os i)" "wifi.safe (wifi_set_mac os i a)"
  unfolding wifi_enable_def wifi_get_ip_def wifi_get_mac_def wifi_set_mac_def
  by (rule wifi.safe_open; auto intro!: wifi_fd_rules)+

lemma wifi_safe_iw:
  "wifi.safe (wifi_get_channel wl os i)" "wifi.safe (wifi_get_mode os i)" "wifi.safe (wifi_check_essid_on wl os i)"
  unfolding wifi_get_channel_def wifi_get_mode_def wifi_check_essid_on_def
  by (rule safe_iw; auto intro!: wifi_fd_rules)+

lemma wifi_safe_set_mode: "wifi.safe (wifi_set_mode os i md)"
  unfolding wifi_set_mode_def Let_def
  by (rule if_split [THEN iffD2], intro conjI impI wifi.safe_return, rule wifi.safe_open) (auto intro!: wifi_fd_rules)

lemma wifi_safe_conf: "wifi.safe (write_conf os p c)"
  unfolding write_conf_def
  by (rule wifi.safe_bind [OF wifi_safe_call(2)], rule wifi.safe_open) (auto intro!: wifi_fd_rules)

lemma wifi_safe_send: "wifi.safe (tkl_wifi_send_mgnt wl os buf)"
  unfolding tkl_wifi_send_mgnt_def wifi_send_rawpacket_def
  by (rule wifi.safe_open) (auto intro!: wifi_fd_rules)

lemma wifi_safe_dev: "wifi.safe (set_dev f :: ('w, 's tkl_wifi_t, unit) prog)"
  unfolding wifi.safe_def by (auto intro!: wp_set_dev wifi.acc_same)

lemma wifi_safe_init: "wifi.safe (tkl_wifi_init wl os cb)"
  unfolding tkl_wifi_init_def by (auto intro!: wifi.safe_return wifi.safe_bind wifi_safe_dev wifi_safe_call)

text \<open>The functions of the adapter that are meant to leave nothing open, one after the other.\<close>

datatype wifi_op =
    Wifi_Init nat
  | Wifi_Enable string bool
  | Wifi_Get_Ip string
  | Wifi_Get_Mac string
  | Wifi_Set_Mac string bytes
  | Wifi_Get_Channel string
  | Wifi_Get_Mode string
  | Wifi_Set_Mode string string
  | Wifi_Essid_On string
  | Wifi_Write_Conf string bytes
  | Wifi_Send_Mgnt bytes

fun wifi_exec :: "wlan_env \<Rightarrow> 'w kernel \<Rightarrow> wifi_op \<Rightarrow> ('w, 's tkl_wifi_t, unit) prog" where
  "wifi_exec wl os (Wifi_Init cb) = do { tkl_wifi_init wl os cb; ret () }"
| "wifi_exec wl os (Wifi_Enable i b) = do { wifi_enable os i b; ret () }"
| "wifi_exec wl os (Wifi_Get_Ip i) = do { wifi_get_ip os i; ret () }"
| "wifi_exec wl os (Wifi_Get_Mac i) = do { wifi_get_mac os i; ret () }"
| "wifi_exec wl os (Wifi_Set_Mac i a) = do { wifi_set_mac os i a; ret () }"
| "wifi_exec wl os (Wifi_Get_Channel i) = do { wifi_get_channel wl os i; ret () }"
| "wifi_exec wl os (Wifi_Get_Mode i) = do { wifi_get_mode os i; ret () }"
| "wifi_exec wl os (Wifi_Set_Mode i md) = do { wifi_set_mode os i md; ret () }"
| "wifi_exec wl os (Wifi_Essid_On i) = do { wifi_check_essid_on wl os i; ret () }"
| "wifi_exec wl os (Wifi_Write_Conf p c) = do { write_conf os p c; ret () }"
| "wifi_exec wl os (Wifi_Send_Mgnt b) = do { tkl_wifi_send_mgnt wl os b; ret () }"

interpretation wifi_driver: fd_driver "\<lambda>_ :: 's tkl_wifi_t. Map.empty :: unit \<rightharpoonup> int" "\<lambda>_. True" "s_tkl_wifi s0" "wifi_exec wl" for s0 :: 's and wl
proof
  show "wifi.safe (wifi_exec wl os x)" for os :: "'w kernel" and x
    by (cases x) (auto intro!: wifi.safe_bind wifi.safe_return wifi_safe_init wifi_safe_queries wifi_safe_iw wifi_safe_set_mode wifi_safe_conf wifi_safe_send)
qed

text \<open>
  C34: Whatever the kernel answers, no sequence of the queries and settings of the interface, of the writing of a
  configuration file and of the sending of a management frame leaves a descriptor open or closes one that is
  not open.  The exceptions in the adapter are \<open>wifi_set_ip\<close>, \<open>wifi_set_channel\<close> and \<open>wifi_get_ip_mask\<close>.
\<close>

theorem wifi_no_descriptor_left:
  assumes "run_state (run_ops (wifi_exec wl os) ops) \<lparr>m_os = w, m_log = [], m_dev = s_tkl_wifi s0\<rparr> = (rs, s)" "fds_fresh (m_log s)"
  shows "open_fds (m_log s) = {} \<and> closes_ok (m_log s)"
  using wifi_driver.session_accounted(3) [OF assms] by (simp add: balanced_def)

text \<open>
  C35: Three functions of the interface lose count of their descriptor on an error path: \<open>wifi_set_ip\<close> keeps its
  socket if the kernel refuses the address, \<open>wifi_set_channel\<close> keeps it if the driver does not know the
  channel or refuses the frequency, and \<open>wifi_get_ip_mask\<close>, if the kernel has no mask, closes its socket twice
  and reports success with the mask 0.0.0.0.
\<close>

theorem wifi_descriptor_lost:
  assumes "\<And>w k. sr_rc (fst (os w (Socket k))) = fd" "\<And>w f k. sr_rc (fst (os w (Family_Socket f k))) = fd" "0 \<le> fd"
    and "\<And>w. sr_rc (fst (os w (Ioctl fd (SIOCSIFADDR i ip)))) < 0" "\<And>w. sr_rc (fst (os w (Ioctl fd (SIOCGIFNETMASK i)))) < 0"
    and "\<And>w. 0 \<le> sr_rc (fst (os w (Iw_Get_Range_Info fd i)))" "\<And>b. 14 \<le> we_version_compiled wl b"
    and "\<And>b. fst (iw_channel_to_freq wl ch b) \<noteq> ch"
    and "m_log s = []"
  shows "fst (run_state (wifi_set_ip os i ip) s) = -1 \<and> open_fds (m_log (snd (run_state (wifi_set_ip os i ip) s))) = {fd} \<and>
    fst (run_state (wifi_set_channel wl os i ch) s) = -1 \<and> open_fds (m_log (snd (run_state (wifi_set_channel wl os i ch) s))) = {fd} \<and>
    fst (run_state (wifi_get_ip_mask os i) s) = (0, Some ''0.0.0.0'') \<and> \<not> closes_ok (m_log (snd (run_state (wifi_get_ip_mask os i) s)))"
proof -
  have "inet_ntoa [0, 0, 0, 0] = ''0.0.0.0''" by code_simp
  moreover have "\<not> we_version_compiled wl b < 14" for b using assms(7) [of b] by simp
  moreover have "\<not> sr_rc (fst (os w (Iw_Get_Range_Info fd i))) < 0" for w using assms(6) [of w] by simp
  ultimately show ?thesis using assms(1-5,8,9)
    by (simp add: wifi_set_ip_def wifi_set_channel_def wifi_get_ip_mask_def iw_sockets_open_def run_syscall)
qed


section \<open>The event thread\<close>

text \<open>Some rounds of the thread, with the states it acted on and the callbacks it made.\<close>

fun wifi_event_rounds ::
    "'s supplicant \<Rightarrow> wlan_env \<Rightarrow> 'w kernel \<Rightarrow> int \<Rightarrow> nat \<Rightarrow> event_vars \<Rightarrow> ('w, 's) wifi_m \<Rightarrow>
      ((WF_STATION_STAT_E list \<times> (nat \<times> WF_EVENT_E) list \<times> event_vars) \<times> ('w, 's) wifi_m) option" where
  "wifi_event_rounds ctrl wl os junk 0 v m = Some (([], [], v), m)"
| "wifi_event_rounds ctrl wl os junk (Suc n) v m = do {
     ((cb, v'), m') \<leftarrow> wifi_event_round ctrl wl os junk v m;
     ((stats, cbs, v''), m'') \<leftarrow> wifi_event_rounds ctrl wl os junk n v' m';
     Some (((if sta_conn_flag (m_dev m) then ev_stat v' # stats else stats), (case cb of None \<Rightarrow> cbs | Some c \<Rightarrow> c # cbs), v''), m'')
   }"

definition event_of :: "WF_STATION_STAT_E \<Rightarrow> WF_EVENT_E" where
  "event_of stat = (if stat = WSS_GOT_IP \<or> stat = WSS_CONN_SUCCESS then WFE_CONNECTED else WFE_CONNECT_FAILED)"

definition ok_stat :: "WF_STATION_STAT_E \<Rightarrow> bool" where
  "ok_stat s \<longleftrightarrow> s \<in> {WSS_IDLE, WSS_CONN_FAIL, WSS_CONN_SUCCESS, WSS_GOT_IP}"

lemma station_stat_ok: "ok_stat s \<Longrightarrow> ok_stat (station_stat a e i s)"
  by (auto simp: station_stat_def ok_stat_def Let_def)

lemma get_status_ok:
  assumes "tkl_wifi_station_get_status ctrl wl os junk s m = Some (s', m')" "ok_stat s"
  shows "ok_stat s'"
  using assms by (auto simp: tkl_wifi_station_get_status_def ok_stat_def [of WSS_IDLE] split: Option.bind_splits if_splits intro!: station_stat_ok)

lemma event_decide_ok:
  assumes "ok_stat (ev_stat v)"
  shows "\<exists>ev t v'. event_decide v = Some ((ev, t), v') \<and> ev_stat v' = ev_stat v \<and>
    (ev_stat v = WSS_IDLE \<longrightarrow> ev = None \<and> v' = v) \<and>
    (ev_stat v \<noteq> WSS_IDLE \<longrightarrow> ev_last_state v' = Some (event_of (ev_stat v)) \<and>
       (case ev of None \<Rightarrow> ev_last_state v = Some (event_of (ev_stat v)) | Some e \<Rightarrow> e = event_of (ev_stat v)))"
  using assms unfolding ok_stat_def
  by (elim insertE) (auto simp: event_decide_def event_of_def Let_def)


text \<open>The status query changes nothing of the adapter's variables but the connection.\<close>

definition same_vars :: "('w, 's) wifi_m \<Rightarrow> ('w, 's) wifi_m \<Rightarrow> bool" where
  "same_vars m m' \<longleftrightarrow> (\<exists>k. m_dev m' = (m_dev m)\<lparr>wl_link := k\<rparr>)"

lemma same_vars_refl: "same_vars m m"
  unfolding same_vars_def by (rule exI [of _ "wl_link (m_dev m)"]) simp

lemma same_vars_trans: "same_vars m m' \<Longrightarrow> same_vars m' m'' \<Longrightarrow> same_vars m m''"
  by (auto simp: same_vars_def)

lemma same_vars_fields: "same_vars m m' \<Longrightarrow> event_cb (m_dev m') = event_cb (m_dev m) \<and> sta_conn_flag (m_dev m') = sta_conn_flag (m_dev m)"
  by (auto simp: same_vars_def)

lemma run_quiet: "quiet p \<Longrightarrow> run p m = Some (r, m') \<Longrightarrow> same_vars m m'"
  unfolding quiet_def wp_def run_def same_vars_def
  by (rule exI [of _ "wl_link (m_dev m)"]) (force split: prod.splits)

lemma quiet_open_family: "quiet (open_family os fs)"
  by (induction fs) (auto intro!: quiet_rules quiet_syscall)

lemma quiet_queries: "quiet (wifi_get_mode os i)" "quiet (wifi_get_ip os i)" "quiet (wifi_check_essid_on wl os i)"
  unfolding wifi_get_mode_def wifi_get_ip_def wifi_check_essid_on_def iw_sockets_open_def
  by (auto intro!: quiet_rules quiet_open_family quiet_syscall)

lemma get_bssid_same: "wifi_get_bssid ctrl m = Some (x, m') \<Longrightarrow> same_vars m m'"
  by (auto simp: wifi_get_bssid_def link_op_def same_vars_def split: Option.bind_splits)

lemma get_status_same:
  assumes "tkl_wifi_station_get_status ctrl wl os junk s m = Some (s', m')"
  shows "same_vars m m'"
proof -
  have acc: "quiet (syscall os (Access p))" for p by (auto intro: quiet_syscall)
  show ?thesis using assms
    by (auto simp: tkl_wifi_station_get_status_def split: Option.bind_splits if_splits
      dest!: run_quiet [OF quiet_queries(1)] run_quiet [OF quiet_queries(2)] run_quiet [OF quiet_queries(3)] run_quiet [OF acc] get_bssid_same)
      (meson same_vars_trans)+
qed

lemma event_round_acts:
  assumes "wifi_event_round ctrl wl os junk v m = Some ((cb, v'), m')" "ok_stat (ev_stat v)"
  shows "same_vars m m' \<and>
    (if sta_conn_flag (m_dev m)
     then ok_stat (ev_stat v') \<and>
       (if ev_stat v' = WSS_IDLE then cb = None \<and> ev_last_state v' = ev_last_state v
        else ev_last_state v' = Some (event_of (ev_stat v')) \<and>
          (case cb of None \<Rightarrow> ev_last_state v = Some (event_of (ev_stat v')) | Some (c, e) \<Rightarrow> c = event_cb (m_dev m) \<and> e = event_of (ev_stat v')))
     else cb = None \<and> v' = v)"
proof (cases "sta_conn_flag (m_dev m)")
  case False
  have "quiet (syscall os (Sleep 1))" by (auto intro: quiet_syscall)
  then show ?thesis using False assms(1) by (auto simp: wifi_event_round_def split: Option.bind_splits dest: run_quiet)
next
  case True
  then obtain s1 m1 where q: "tkl_wifi_station_get_status ctrl wl os junk (ev_stat v) m = Some (s1, m1)"
    using assms(1) by (auto simp: wifi_event_round_def split: Option.bind_splits)
  have ok: "ok_stat s1" using get_status_ok [OF q assms(2)] .
  obtain ev t v1 where d: "event_decide (v\<lparr>ev_stat := s1\<rparr>) = Some ((ev, t), v1)" "ev_stat v1 = s1"
    and c: "s1 = WSS_IDLE \<longrightarrow> ev = None \<and> v1 = v\<lparr>ev_stat := s1\<rparr>"
      "s1 \<noteq> WSS_IDLE \<longrightarrow> ev_last_state v1 = Some (event_of s1) \<and>
       (case ev of None \<Rightarrow> ev_last_state v = Some (event_of s1) | Some e \<Rightarrow> e = event_of s1)"
    using event_decide_ok [of "v\<lparr>ev_stat := s1\<rparr>"] ok by (auto split: option.splits)
  have sl: "quiet (syscall os (Sleep t))" by (auto intro: quiet_syscall)
  have m1: "same_vars m m1" "event_cb (m_dev m1) = event_cb (m_dev m)" using get_status_same [OF q] same_vars_fields by blast+
  have s: "v' = v1" "same_vars m1 m'"
    "cb = map_option (Pair (event_cb (m_dev m))) ev"
    using assms(1) True q d(1) m1(2) by (auto simp: wifi_event_round_def same_vars_refl split: Option.bind_splits if_splits option.splits dest: run_quiet [OF sl])
  show ?thesis using True c d(2) ok same_vars_trans [OF m1(1) s(2)] unfolding s(1,3) by (cases ev) auto
qed

text \<open>With a callback registered, a round comes to an end whenever the status query does: no variable is read before it is set.\<close>

lemma event_round_returns:
  assumes "tkl_wifi_station_get_status ctrl wl os junk (ev_stat v) m = Some (s1, m1)" "ok_stat (ev_stat v)" "event_cb (m_dev m) \<noteq> 0"
  shows "\<exists>r. wifi_event_round ctrl wl os junk v m = Some r"
proof -
  obtain ev t v1 where "event_decide (v\<lparr>ev_stat := s1\<rparr>) = Some ((ev, t), v1)"
    using event_decide_ok [of "v\<lparr>ev_stat := s1\<rparr>"] get_status_ok [OF assms(1,2)] by auto
  moreover have "event_cb (m_dev m1) = event_cb (m_dev m)" using get_status_same [OF assms(1)] same_vars_fields by blast
  ultimately show ?thesis using assms by (cases ev) (auto simp: wifi_event_round_def run_def case_prod_beta)
qed


lemma event_rounds_reported:
  assumes "wifi_event_rounds ctrl wl os junk n v m = Some ((stats, cbs, v'), m')" "ok_stat (ev_stat v)"
  shows "(\<forall>c\<in>set cbs. fst c = event_cb (m_dev m) \<and> snd c \<noteq> WFE_DISCONNECTED) \<and>
    (case ev_last_state v of
       None \<Rightarrow> remdups_adj (map snd cbs) = remdups_adj (map event_of (filter (\<lambda>s. s \<noteq> WSS_IDLE) stats))
     | Some x \<Rightarrow> remdups_adj (x # map snd cbs) = remdups_adj (x # map event_of (filter (\<lambda>s. s \<noteq> WSS_IDLE) stats)))"
  using assms
proof (induction n arbitrary: v m stats cbs)
  case (Suc n)
  obtain cb v1 m1 stats1 cbs1 where r: "wifi_event_round ctrl wl os junk v m = Some ((cb, v1), m1)"
    and rs: "wifi_event_rounds ctrl wl os junk n v1 m1 = Some ((stats1, cbs1, v'), m')"
    and st: "stats = (if sta_conn_flag (m_dev m) then ev_stat v1 # stats1 else stats1)"
    and cbs: "cbs = (case cb of None \<Rightarrow> cbs1 | Some c \<Rightarrow> c # cbs1)"
    using Suc.prems(1) by (auto split: Option.bind_splits)
  note act = event_round_acts [OF r Suc.prems(2)]
  have cb: "event_cb (m_dev m1) = event_cb (m_dev m)" using act same_vars_fields by blast
  have ok: "ok_stat (ev_stat v1)" using act Suc.prems(2) by (auto split: if_splits)
  note IH = Suc.IH [OF rs ok]
  have ev: "event_of s \<noteq> WFE_DISCONNECTED" for s by (simp add: event_of_def)
  consider (off) "\<not> sta_conn_flag (m_dev m)" | (idle) "sta_conn_flag (m_dev m)" "ev_stat v1 = WSS_IDLE"
    | (quiet) "sta_conn_flag (m_dev m)" "ev_stat v1 \<noteq> WSS_IDLE" "cb = None"
    | (call) c e where "sta_conn_flag (m_dev m)" "ev_stat v1 \<noteq> WSS_IDLE" "cb = Some (c, e)"
    by (cases cb) auto
  then show ?case
  proof cases
    case call
    then show ?thesis using act IH st cbs cb ev by (cases "ev_last_state v") (auto split: if_splits)
  qed (use act IH st cbs cb in \<open>auto split: if_splits option.splits\<close>)
qed (auto split: option.splits)

text \<open>
  C33: Over any number of rounds of the event thread, against any kernel and supplicant, the events passed to
  the registered callback are those of the states seen while not idle: with repetitions left out on both sides
  the two sequences agree, so that no change is lost and none is invented.  \<open>WFE_DISCONNECTED\<close> is never
  reported; the loss of a connection is reported as \<open>WFE_CONNECT_FAILED\<close>.
\<close>

theorem wifi_events_reported:
  assumes "wifi_event_rounds ctrl wl os junk n event_start m = Some ((stats, cbs, v'), m')"
  shows "remdups_adj (map snd cbs) = remdups_adj (map event_of (filter (\<lambda>s. s \<noteq> WSS_IDLE) stats)) \<and>
    (\<forall>c\<in>set cbs. fst c = event_cb (m_dev m) \<and> snd c \<noteq> WFE_DISCONNECTED)"
proof -
  have "ok_stat (ev_stat event_start)" "ev_last_state event_start = None" by (simp_all add: event_start_def ok_stat_def)
  then show ?thesis using event_rounds_reported [OF assms] by simp
qed


section \<open>Scans\<close>

definition plain_upper :: "nat \<Rightarrow> bool" where
  "plain_upper n \<longleftrightarrow> xdigit (upper_hex n) = Some n \<and> \<not> isspace (upper_hex n) \<and>
     upper_hex n \<notin> set [CHR ''-'', CHR ''+'', CHR ''x'', CHR ''X'']"

lemma plain_upper_table: "list_all plain_upper [0, 1, 2, 3, 4, 5, 6, 7, 8, 9, 10, 11, 12, 13, 14, 15]"
  by code_simp

lemma plain_upper:
  assumes "n < 16"
  shows "xdigit (upper_hex n) = Some n" "\<not> isspace (upper_hex n)" "upper_hex n \<noteq> CHR ''-''" "upper_hex n \<noteq> CHR ''+''"
    "upper_hex n \<noteq> CHR ''x''" "upper_hex n \<noteq> CHR ''X''"
proof -
  have "n \<in> set [0, 1, 2, 3, 4, 5, 6, 7, 8, 9, 10, 11, 12, 13, 14, 15]" using assms by simp presburger
  then have "plain_upper n" using plain_upper_table by (simp only: list_all_iff)
  then show "xdigit (upper_hex n) = Some n" "\<not> isspace (upper_hex n)" "upper_hex n \<noteq> CHR ''-''" "upper_hex n \<noteq> CHR ''+''"
    "upper_hex n \<noteq> CHR ''x''" "upper_hex n \<noteq> CHR ''X''" by (simp_all add: plain_upper_def)
qed

lemmas upper_facts = plain_upper [OF unat_div_16] plain_upper [of "unat b mod 16" for b :: u8, simplified]

lemma scan_x2_byte: "scan_x2 (byte_hex b @ r) = Match (int (unat b)) r"
proof -
  have "16 * (unat b div 16) + unat b mod 16 = unat b" by simp
  then show ?thesis by (simp add: scan_x2_def byte_hex_def skip_ws_def upper_facts)
qed

lemma length_six: "length a = 6 \<Longrightarrow> a = [a ! 0, a ! 1, a ! 2, a ! 3, a ! 4, a ! 5]"
  by (auto simp: numeral_eq_Suc length_Suc_conv)

lemma scan_hex_ether: "length a = 6 \<Longrightarrow> scan_hex 6 (iw_ether_ntop a) = map (\<lambda>b. int (unat b)) a"
proof -
  assume "length a = 6"
  note six = length_six [OF this]
  have lit: "scan_lit CHR '':'' (CHR '':'' # r) = Match () r" for r by (simp add: scan_lit_def)
  have last: "scan_x2 (byte_hex b) = Match (int (unat b)) []" for b using scan_x2_byte [of b "[]"] by simp
  have "scan_hex 6 (iw_ether_ntop a) = map (\<lambda>b. int (unat b)) [a ! 0, a ! 1, a ! 2, a ! 3, a ! 4, a ! 5]"
    by (simp add: iw_ether_ntop_def scan_x2_byte last lit numeral_eq_Suc scan_lit_def)
  then show ?thesis unfolding six [symmetric] .
qed

lemma scan_loop_simps [simp]:
  "scan_loop wl rg x max_ap c [] = Some []"
  "has_ap_addr n \<Longrightarrow> scan_loop wl rg x max_ap c (n # ns) =
     (if c < max_ap then map_option ((#) (scan_node wl rg (x c) n)) (scan_loop wl rg x max_ap (Suc c) ns) else Some [])"
  by (subst scan_loop.simps, simp add: map_option_case split: option.split)+

text \<open>The loop does not come back from an entry without an address: whatever it returns, it returns for other lists.\<close>

lemma scan_loop_returns: "scan_loop wl rg x max_ap c nodes = Some aps \<Longrightarrow> nodes = [] \<or> has_ap_addr (hd nodes)"
  by (rule scan_loop.raw_induct [where P = "\<lambda>wl rg x max_ap c nodes aps. nodes = [] \<or> has_ap_addr (hd nodes)"])
    (fastforce split: list.splits if_splits)+

lemma scan_loop_diverges [simp]: "\<not> has_ap_addr n \<Longrightarrow> scan_loop wl rg x max_ap c (n # ns) = None"
  using scan_loop_returns [of wl rg x max_ap c "n # ns"] by (cases "scan_loop wl rg x max_ap c (n # ns)") auto

lemma scan_loop_reads:
  assumes "\<forall>n \<in> set nodes. has_ap_addr n"
  shows "scan_loop wl rg x max_ap c nodes = Some (map (\<lambda>(k, n). scan_node wl rg (x k) n) (zip [c..<max_ap] nodes))"
  using assms
proof (induction nodes arbitrary: c)
  case (Cons n ns)
  then show ?case by (cases "c < max_ap") (simp_all add: upt_conv_Cons)
qed simp

lemma scan_loop_stuck: "n \<in> set (take (Suc max_ap - c) nodes) \<Longrightarrow> \<not> has_ap_addr n \<Longrightarrow> c \<le> max_ap \<Longrightarrow> scan_loop wl rg x max_ap c nodes = None"
proof (induction nodes arbitrary: c)
  case (Cons k ns)
  show ?case
  proof (cases "has_ap_addr k")
    case True
    then have "n \<in> set (take (max_ap - c) ns)" using Cons.prems by (auto simp: Suc_diff_le)
    moreover from this have "c < max_ap" by (cases "max_ap - c") auto
    moreover have "Suc max_ap - Suc c = max_ap - c" by simp
    ultimately have "scan_loop wl rg x max_ap (Suc c) ns = None" using Cons.prems Cons.IH [of "Suc c"] by simp
    then show ?thesis using True \<open>c < max_ap\<close> by simp
  qed simp
qed simp

definition plain_addr :: "bytes \<Rightarrow> bool" where
  "plain_addr a \<longleftrightarrow> length a = 6 \<and> a \<noteq> replicate 6 0 \<and> a \<noteq> replicate 6 0xff \<and> a \<noteq> replicate 6 0x44"

lemma scan_node_bssid:
  assumes "plain_addr (ap_addr n)" "length j = 6"
  shows "af_bssid (scan_node wl rg j n) = ap_addr n"
proof -
  have "scan_hex 6 (iw_sawap_ntop (ap_addr n)) = map (\<lambda>b. int (unat b)) (ap_addr n)"
    using scan_hex_ether [of "ap_addr n"] assms(1) by (simp add: plain_addr_def iw_sawap_ntop_def)
  then show ?thesis using assms by (simp add: scan_node_def Let_def plain_addr_def comp_def)
qed


text \<open>A kernel with memory and a driver that supports scanning and whose scan gives a list of access points.\<close>

definition scanner :: "wlan_env \<Rightarrow> 'w kernel \<Rightarrow> string \<Rightarrow> wireless_scan list \<Rightarrow> bool" where
  "scanner wl os i nodes \<longleftrightarrow>
     (\<forall>w n. sr_fd (fst (os w (Malloc n))) \<noteq> 0) \<and> (\<forall>w f k. 0 \<le> sr_rc (fst (os w (Family_Socket f k)))) \<and>
     (\<forall>w fd. 0 \<le> sr_rc (fst (os w (Iw_Get_Range_Info fd i)))) \<and> (\<forall>b. 14 \<le> we_version_compiled wl b) \<and>
     (\<forall>w fd. 0 \<le> sr_rc (fst (os w (Iw_Scan fd i))) \<and> iw_scan_result wl (sr_data (fst (os w (Iw_Scan fd i)))) = nodes)"

lemma iw_open_first:
  assumes "\<forall>w f k. 0 \<le> sr_rc (fst (os w (Family_Socket f k)))"
  shows "\<exists>fd s'. run_state (iw_sockets_open os) s = (fd, s') \<and> 0 \<le> fd \<and> m_dev s' = m_dev s"
  using assms by (simp add: iw_sockets_open_def run_syscall)

lemma wifi_scan_ap_run:
  assumes "scanner wl os i nodes"
  shows "\<exists>rg m'. wifi_scan_ap wl os x i k m = map_option (\<lambda>aps. (aps, m')) (scan_loop wl rg x k 0 nodes)"
proof -
  obtain fd m1 where o: "run_state (iw_sockets_open os) m = (fd, m1)" "0 \<le> fd"
    using iw_open_first [of os m] assms by (auto simp: scanner_def)
  have s: "\<not> sr_rc (fst (os w (Iw_Get_Range_Info fd i))) < 0" "\<not> we_version_compiled wl b < 14"
    "\<not> sr_rc (fst (os w (Iw_Scan fd i))) < 0" "iw_scan_result wl (sr_data (fst (os w (Iw_Scan fd i)))) = nodes" for w b fd
    using assms by (simp_all add: scanner_def not_less)
  let ?call = "\<lambda>c m. snd (run_state (syscall os c) m)"
  have "wifi_scan_ap wl os x i k m =
      map_option (\<lambda>aps. (aps, ?call (Close fd) (?call (Iw_Scan fd i) (?call (Iw_Get_Range_Info fd i) m1))))
        (scan_loop wl (sr_data (fst (os (m_os m1) (Iw_Get_Range_Info fd i)))) x k 0 nodes)"
    using o by (cases "scan_loop wl (sr_data (fst (os (m_os m1) (Iw_Get_Range_Info fd i)))) x k 0 nodes")
      (simp_all add: wifi_scan_ap_def run_def run_syscall s)
  then show ?thesis by blast
qed

lemma scan_ap_enters:
  assumes "scanner wl os i nodes" "tw_sta (m_dev m) = Some i"
  shows "\<exists>p rg m'. tkl_wifi_scan_ap wl os x None m =
      map_option (\<lambda>aps. (if aps = [] then (Inl OPRT_COM_ERROR, None) else (Inl OPRT_OK, Some (p, aps)), m')) (scan_loop wl rg x 64 0 nodes)"
    "\<exists>q rg m'. tkl_wifi_scan_ap wl os x (Some s) m =
      map_option (\<lambda>aps. if aps = [] then ((Inl OPRT_COM_ERROR, None), m' False) else
        ((Inl OPRT_OK, Some (q, [case_option zero_ap id (find (\<lambda>a. af_ssid a = s) aps)])), m' True)) (scan_loop wl rg x 64 0 nodes)"
proof -
  have mal: "sr_fd (fst (os w (Malloc n))) \<noteq> 0" for w n using assms(1) by (simp add: scanner_def)
  let ?m1 = "m\<lparr>m_os := snd (os (m_os m) (Malloc 2880)), m_log := (Malloc 2880, fst (os (m_os m) (Malloc 2880))) # m_log m\<rparr>"
  obtain e m2 where e: "run_state (wifi_enable os i True) ?m1 = (e, m2)" by (metis surj_pair)
  obtain rg m3 where sc: "wifi_scan_ap wl os x i 64 m2 = map_option (\<lambda>aps. (aps, m3)) (scan_loop wl rg x 64 0 nodes)"
    using wifi_scan_ap_run [OF assms(1)] by blast
  show "\<exists>p rg m'. tkl_wifi_scan_ap wl os x None m =
      map_option (\<lambda>aps. (if aps = [] then (Inl OPRT_COM_ERROR, None) else (Inl OPRT_OK, Some (p, aps)), m')) (scan_loop wl rg x 64 0 nodes)"
    by (rule exI, rule exI [of _ rg], rule exI [of _ m3], cases "scan_loop wl rg x 64 0 nodes")
      (auto simp: tkl_wifi_scan_ap_def assms(2) MAX_AP_SEARCH_def run_def run_syscall mal e sc)
  let ?q = "os (m_os m3) (Malloc 45)"
  let ?m4 = "m3\<lparr>m_os := snd ?q, m_log := (Malloc 45, fst ?q) # m_log m3\<rparr>"
  let ?m5 = "snd (run_state (syscall os (Free (sr_fd (fst (os (m_os m) (Malloc 2880)))))) ?m4)"
  show "\<exists>q rg m'. tkl_wifi_scan_ap wl os x (Some s) m =
      map_option (\<lambda>aps. if aps = [] then ((Inl OPRT_COM_ERROR, None), m' False) else
        ((Inl OPRT_OK, Some (q, [case_option zero_ap id (find (\<lambda>a. af_ssid a = s) aps)])), m' True)) (scan_loop wl rg x 64 0 nodes)"
    by (rule exI [of _ "sr_fd (fst ?q)"], rule exI [of _ rg], rule exI [of _ "\<lambda>b. if b then ?m5 else m3"], cases "scan_loop wl rg x 64 0 nodes")
      (auto simp: tkl_wifi_scan_ap_def assms(2) MAX_AP_SEARCH_def run_def run_syscall mal e sc)
qed


lemma take_min_length [simp]: "take (min n (length xs)) xs = take n xs"
  by (cases "n \<le> length xs") simp_all

text \<open>
  C36: With memory to be had and a driver that supports scanning and lists at least one access point, each with an
  address that is not all 00, all FF or all 44 (which \<open>iw_sawap_ntop\<close> prints as words), a scan of all networks
  hands out one record for each of the first 64 access points, in order, with the address and the first 32
  characters of the name of each: the address survives being printed by \<open>iw_sawap_ntop\<close> and read back by \<open>sscanf\<close>.
\<close>

theorem wifi_scan_reads:
  assumes "scanner wl os i nodes" "tw_sta (m_dev m) = Some i" "nodes \<noteq> []"
    and "\<forall>n \<in> set nodes. has_ap_addr n \<and> plain_addr (ap_addr n)" "\<And>k. length (x k) = 6"
  shows "\<exists>p aps m'. tkl_wifi_scan_ap wl os x None m = Some ((Inl OPRT_OK, Some (p, aps)), m') \<and> length aps = min 64 (length nodes) \<and>
    map af_bssid aps = map ap_addr (take 64 nodes) \<and> map af_ssid aps = map (\<lambda>n. take 32 (ws_essid n)) (take 64 nodes)"
proof -
  let ?aps = "\<lambda>rg. map (\<lambda>(k, n). scan_node wl rg (x k) n) (zip [0..<64] nodes)"
  have take: "map snd (zip [0..<64] nodes) = take 64 nodes" by (simp add: map_snd_zip_take)
  have b: "map af_bssid (?aps rg) = map ap_addr (take 64 nodes)" for rg
    unfolding take [symmetric] using assms(4,5) by (auto simp: set_zip intro!: scan_node_bssid)
  have s: "map af_ssid (?aps rg) = map (\<lambda>n. take 32 (ws_essid n)) (take 64 nodes)" for rg
    unfolding take [symmetric] by (auto simp: scan_node_def Let_def zero_ap_def)
  have "?aps rg \<noteq> []" for rg using assms(3) by (cases nodes) (auto simp: upt_conv_Cons)
  then show ?thesis
    using scan_ap_enters(1) [OF assms(1,2), of x] scan_loop_reads [of nodes wl _ x 64 0] assms(4) b s by auto
qed

text \<open>
  C37: A scan never returns if one of the first 65 entries of the driver's list has no address: the loop of
  \<open>wifi_scan_ap\<close> continues without going on to the next entry and comes to the same entry again, for ever.
\<close>

theorem wifi_scan_hangs:
  assumes "scanner wl os i nodes" "tw_sta (m_dev m) = Some i" "n \<in> set (take 65 nodes)" "\<not> has_ap_addr n"
  shows "tkl_wifi_scan_ap wl os x sid m = None"
  using scan_ap_enters(1) [OF assms(1,2), of x] scan_ap_enters(2) [OF assms(1,2), of x] scan_loop_stuck [of n 64 0 nodes wl _ x] assms(3,4)
  by (cases sid) auto

text \<open>
  A scan for a name that no access point has succeeds, with one record of zeros.
\<close>

theorem wifi_scan_absent:
  assumes "scanner wl os i nodes" "tw_sta (m_dev m) = Some i" "nodes \<noteq> []" "\<forall>n \<in> set nodes. has_ap_addr n \<and> take 32 (ws_essid n) \<noteq> s"
  shows "\<exists>q m'. tkl_wifi_scan_ap wl os x (Some s) m = Some ((Inl OPRT_OK, Some (q, [zero_ap])), m')"
proof -
  let ?aps = "\<lambda>rg. map (\<lambda>(k, n). scan_node wl rg (x k) n) (zip [0..<64] nodes)"
  have "?aps rg \<noteq> []" for rg using assms(3) by (cases nodes) (auto simp: upt_conv_Cons)
  moreover have "af_ssid (scan_node wl rg j n) = take 32 (ws_essid n)" for rg j n
    by (simp add: scan_node_def Let_def zero_ap_def)
  then have "find (\<lambda>a. af_ssid a = s) (?aps rg) = None" for rg
    using assms(4) by (auto simp: find_None_iff dest!: set_zip_rightD)
  ultimately show ?thesis
    using scan_ap_enters(2) [OF assms(1,2), of x s] scan_loop_reads [of nodes wl _ x 64 0] assms(4) by auto
qed

section \<open>Addresses\<close>

lemma dec_digits_no_dot: "CHR ''.'' \<notin> set (dec_digits n)"
  using dec_digits_value [of n] by (auto simp: digit_def)

lemma dot_loop_part:
  assumes "CHR ''.'' \<notin> set p" "k < 2"
  shows "dot_loop k (p @ CHR ''.'' # r) = (case dot_loop (Suc k) r of (q, d) \<Rightarrow> (p @ CHR ''.'' # q, d))"
  using assms by (induction p) (auto simp: Let_def split: prod.splits)

lemma dot_loop_last: "CHR ''.'' \<notin> set p \<Longrightarrow> dot_loop (Suc (Suc 0)) (p @ CHR ''.'' # r) = (p @ ''.'', 3)"
  by (induction p) (auto simp: Let_def)

lemma byte_digits: "length (dec_digits (unat (b :: u8))) \<le> 3"
proof -
  have "unat b < 10 ^ Suc 2" by (rule less_trans [OF unat_u8_less]) simp
  from dec_digits_length [OF this] show ?thesis by simp
qed

text \<open>
  From the address of the interface, in the form \<open>inet_ntoa\<close> gives it, \<open>ip_prepare\<close> takes the first three
  numbers with their dots, which fit into its array, so that the DHCP server hands out the numbers 2 to 254 of
  that network; and \<open>tkl_wifi_get_ip\<close> takes the address with 1 as its last number for the gateway.
\<close>

theorem wifi_derived_addresses:
  assumes "pre = dec_digits (unat a) @ ''.'' @ dec_digits (unat b) @ ''.'' @ dec_digits (unat c) @ ''.''"
    and "nw_ip (cfg_ip cfg) = inet_ntoa [a, b, c, d]"
  shows "ip_prepare (nw_ip (cfg_ip cfg)) = Some (0, pre) \<and>
    ud_ip_start (dhcp_range i cfg pre) = pre @ ''2'' \<and> ud_ip_end (dhcp_range i cfg pre) = pre @ ''254'' \<and>
    gateway (nw_ip (cfg_ip cfg)) = Some (pre @ ''1'')"
proof -
  have len: "length pre \<le> 12" using byte_digits [of a] byte_digits [of b] byte_digits [of c] by (simp add: assms(1))
  have ip: "nw_ip (cfg_ip cfg) = pre @ dec_digits (unat d)" by (simp add: assms inet_ntoa_def)
  have "take 15 (pre @ dec_digits (unat d)) = pre @ dec_digits (unat d)" using len byte_digits [of d] by simp
  then have "dot_loop 0 (snprintf 16 (nw_ip (cfg_ip cfg))) = (pre, 3)"
    unfolding ip snprintf_def assms(1) by (simp add: dot_loop_part dec_digits_no_dot dot_loop_last)
  then have "ip_prepare (nw_ip (cfg_ip cfg)) = Some (0, pre)" using len by (simp add: ip_prepare_def fits_def)
  moreover have "snprintf 16 (pre @ ''2'') = pre @ ''2''" "snprintf 16 (pre @ ''254'') = pre @ ''254''"
    using len by (simp_all add: snprintf_def)
  moreover have "dropWhile (\<lambda>c. c \<noteq> CHR ''.'') (rev (nw_ip (cfg_ip cfg))) = rev pre"
    unfolding ip assms(1) using dec_digits_no_dot [of "unat d"] by (subst rev_append, subst dropWhile_append2) auto
  then have "gateway (nw_ip (cfg_ip cfg)) = Some (pre @ ''1'')"
    using ip by (simp add: gateway_def assms(1))
  ultimately show ?thesis by (simp add: dhcp_range_def)
qed


section \<open>The access point\<close>

text \<open>
  C38: An access point without an address of its own cannot be started: the default address goes into the copy
  that is only remembered, the original goes to \<open>wifi_ap_start\<close>, and that fails.
\<close>

theorem wifi_default_address_lost:
  assumes "tkl_wifi_start_ap wl os (Some cfg) m = Some (r, m')" "nw_ip (cfg_ip cfg) = []"
  shows "r \<noteq> Inl OPRT_OK \<and> (0 < cfg_chan cfg \<and> cfg_chan cfg \<le> 14 \<longrightarrow> r = Inl OPRT_COM_ERROR)"
proof -
  have ip: "ip_prepare [] = Some (-1, [])" by (simp add: ip_prepare_def snprintf_def)
  have "r1 < 0" if "wifi_ap_start wl os i cfg m1 = Some (r1, m2)" for i m1 r1 and m2 :: "('a, 'b) wifi_m"
    using that by (auto simp: wifi_ap_start_def assms(2) ip split: Option.bind_splits if_splits)
  then show ?thesis using assms(1) by (auto simp: tkl_wifi_start_ap_def not_less word_gt_0 Let_def split: Option.bind_splits if_splits)
qed

section \<open>Frames\<close>

text \<open>
  A management frame that is sent is handed back unchanged by the sniffer: once the bytes that
  \<open>wifi_send_rawpacket\<close> writes arrive in its buffer of 512 bytes, the sniffer's callback gets exactly the frame
  and its length.
\<close>

theorem wifi_sniffer_reads_sent:
  assumes "0 < length frame" "length frame + 13 \<le> 512" "length buf = 512" "m_log s = []"
    and "sr_fd (fst (os (m_os s) (Malloc (length frame + 13)))) \<noteq> 0"
  shows "\<exists>a r b bs f. m_log (snd (run_state (wifi_send_rawpacket os fd frame) s)) = [a, (Write fd bs, r), b] \<and>
    sniffer_round (int (length bs)) (store_into buf bs) = Some (f, length frame) \<and> take (length frame) f = frame"
proof -
  have t: "length t_radiotap = 13" "it_len (store_into buf (t_radiotap @ frame)) = 13"
    by (simp_all add: t_radiotap_def it_len_def store_into_def)
  have "drop 13 (store_into buf (t_radiotap @ frame)) = frame @ drop (13 + length frame) buf"
    by (simp add: store_into_def t(1))
  then show ?thesis using assms t by (simp add: wifi_send_rawpacket_def sniffer_round_def run_syscall)
qed

text \<open>
  The management callback is told the wrong length: the pointer is moved behind the radiotap header but the
  length is that of the whole packet.  The bytes of the packet are there, with as many stale bytes counted in as
  the header has, and if packet and header together are longer than the array the callback is sent beyond its
  end.
\<close>

theorem wifi_mgnt_length_wrong:
  assumes "length pkt = 8192" "r \<le> 8192" "mgnt_round r pkt = Some (f, n)"
  shows "n = nat r \<and> take (n - it_len pkt) f = drop (it_len pkt) (take n pkt) \<and> (length f < n \<longleftrightarrow> 8192 < n + it_len pkt)"
  using assms by (auto simp: mgnt_round_def Let_def drop_take split: if_splits)

section \<open>The station's configuration file\<close>

lemma fgets_line_split: "CHR 0x0A \<notin> set l \<Longrightarrow> length l < n \<Longrightarrow> fgets_line n (l @ CHR 0x0A # r) = l @ [CHR 0x0A]"
  by (induction l arbitrary: n) (case_tac n; auto)+

lemma text_of_plain: "nul \<notin> set l \<Longrightarrow> text_of l = l"
  by (induction l) auto

lemma cat_lines_unlines: "\<forall>l \<in> set ls. CHR 0x0A \<notin> set l \<and> nul \<notin> set l \<and> length l < n \<Longrightarrow> cat_lines n (unlines ls) = unlines ls"
proof (induction ls)
  case Nil
  then show ?case by (simp add: cat_lines.simps)
next
  case (Cons l ls)
  have "fgets_line n (l @ CHR 0x0A # unlines ls) = l @ [CHR 0x0A]" using Cons.prems by (intro fgets_line_split) auto
  moreover have "text_of (l @ [CHR 0x0A]) = l @ [CHR 0x0A]" using Cons.prems by (intro text_of_plain) auto
  moreover have "0 < n" using Cons.prems by auto
  ultimately show ?case using Cons by (subst cat_lines.simps) (simp add: Let_def)
qed

lemma bytes_chars_text: "bytes_chars (text_bytes s) = s"
proof -
  have "char_of (unat (of_char c :: u8)) = c" for c
  proof -
    have "(of_char c :: u8) = of_nat (of_char c)" by (cases c) (simp add: of_char_def)
    then have "unat (of_char c :: u8) = take_bit 8 (of_char c :: nat)" by (simp add: unsigned_of_nat)
    then show ?thesis by (simp add: char_of_eq_iff take_bit_eq_mod)
  qed
  then show ?thesis by (simp add: bytes_chars_def text_bytes_def comp_def)
qed

lemma starts_stop: "c \<notin> set p \<Longrightarrow> starts p (u @ c # r) \<Longrightarrow> starts p u"
proof -
  assume c: "c \<notin> set p" and s: "starts p (u @ c # r)"
  have "length p \<le> length u"
  proof (rule ccontr)
    assume "\<not> length p \<le> length u"
    then have "c \<in> set (take (length p) (u @ c # r))" by (auto simp: take_Cons' in_set_conv_nth not_le)
    then show False using c s unfolding starts_def by (simp only:)
  qed
  then show ?thesis using s by (simp add: starts_def)
qed

lemma strstr_at_past: "c \<notin> set p \<Longrightarrow> \<not> strstr u p \<Longrightarrow> strstr_at (u @ c # r) p = strstr_at (c # r) p"
proof (induction u)
  case (Cons d u)
  have "\<not> starts p ((d # u) @ c # r)" using starts_stop [of c p "d # u" r] Cons.prems by auto
  then show ?case using Cons by simp
qed simp

lemma conf_text:
  assumes "key \<noteq> []" "\<not> strstr name ''psk=''"
  shows "strstr_at (wpa_conf name (Some key)) ''ssid='' = Some (''ssid='' @ quoted name @ CHR 0x0A # unlines [''psk='' @ quoted key, ''}''])"
    "strstr_at (wpa_conf name (Some key)) ''psk='' = Some (''psk='' @ quoted key @ CHR 0x0A # unlines [''}''])"
proof -
  obtain c k where k: "key = c # k" using assms(1) by (cases key) auto
  show "strstr_at (wpa_conf name (Some key)) ''ssid='' = Some (''ssid='' @ quoted name @ CHR 0x0A # unlines [''psk='' @ quoted key, ''}''])"
    by (simp add: wpa_conf_def k WPA_CTRL_INTERFACE_def starts_def)
  have past: "strstr_at (name @ CHR 0x22 # r) ''psk='' = strstr_at (CHR 0x22 # r) ''psk=''" for r
    using assms(2) by (intro strstr_at_past) simp_all
  show "strstr_at (wpa_conf name (Some key)) ''psk='' = Some (''psk='' @ quoted key @ CHR 0x0A # unlines [''}''])"
    by (simp add: wpa_conf_def k WPA_CTRL_INTERFACE_def starts_def past)
qed

lemma token_quoted:
  assumes "\<forall>c \<in> set t. \<not> isspace c"
  shows "token_into cap (quoted t @ CHR 0x0A # r) = fits cap (quoted t)"
proof -
  have "scan_s (quoted t @ CHR 0x0A # r) = Match (quoted t) (CHR 0x0A # r)"
    using assms by (intro scan_s_token) (auto simp: isspace_def)
  then show ?thesis by (simp add: token_into_def)
qed

text \<open>
  C39: The name and password, both without blanks, that are read back from the station's configuration file are
  not those written: the quotes around them stay, and with them a name of 31 or 32 characters or a password
  of 63 overflows the array it is read into.
\<close>

theorem wpa_file_keeps_quotes:
  assumes "\<And>w. 0 \<le> sr_rc (fst (os w (Open (WIFI_STATION_CONF wl))))"
    and "\<And>w fd. sr_data (fst (os w (Read_Text fd))) = text_bytes (wpa_conf name (Some key))"
    and "\<forall>c \<in> set name \<union> set key. \<not> isspace c \<and> c \<noteq> nul" "key \<noteq> []" "length name \<le> 32" "length key \<le> 63" "\<not> strstr name ''psk=''"
  shows "if length name \<le> 30 \<and> length key \<le> 62
    then \<exists>m'. get_passwd_and_ssid_from_wpa_file wl os sid passwd m = Some ((0, strncpy 32 (quoted name) sid, strncpy 64 (quoted key) passwd), m')
    else get_passwd_and_ssid_from_wpa_file wl os sid passwd m = None"
proof -
  obtain c k where k: "key = c # k" using assms(4) by (cases key) auto
  have "isspace (CHR 0x0A)" by (simp add: isspace_def)
  then have "CHR 0x0A \<notin> set l \<and> nul \<notin> set l" if "\<forall>c \<in> set l. \<not> isspace c \<and> c \<noteq> nul" for l using that by blast
  from this [of name] this [of key] have lines: "CHR 0x0A \<notin> set name" "nul \<notin> set name" "CHR 0x0A \<noteq> c" "CHR 0x0A \<notin> set k" "nul \<noteq> c" "nul \<notin> set k"
    "length name < 1000" "length k < 1000" using assms(3,5,6) by (auto simp: k)
  have "cat_lines 1023 (wpa_conf name (Some key)) = wpa_conf name (Some key)"
    unfolding wpa_conf_def k option.case list.case
    by (rule cat_lines_unlines) (use lines in \<open>simp add: k WPA_CTRL_INTERFACE_def\<close>)
  then have str: "fits 1024 (cat_lines 1023 (bytes_chars (text_bytes (wpa_conf name (Some key))))) = Some (wpa_conf name (Some key))"
    using assms(5,6) by (simp add: bytes_chars_text) (simp add: k wpa_conf_def WPA_CTRL_INTERFACE_def)
  have tok: "token_into 33 (quoted name @ CHR 0x0A # r) = (if length name \<le> 30 then Some (quoted name) else None)"
    "token_into 65 (quoted key @ CHR 0x0A # r) = (if length key \<le> 62 then Some (quoted key) else None)" for r
    using token_quoted [of name 33 r] token_quoted [of key 65 r] assms(3) by (auto simp: fits_def)
  have "strstr_at (wpa_conf name (Some key)) ''ssid='' = Some p \<Longrightarrow> token_into 33 (drop 5 p) = (if length name \<le> 30 then Some (quoted name) else None)"
    "strstr_at (wpa_conf name (Some key)) ''psk='' = Some p \<Longrightarrow> token_into 65 (drop 4 p) = (if length key \<le> 62 then Some (quoted key) else None)" for p
    using conf_text [OF assms(4,7)] tok by auto
  moreover have "\<exists>p. strstr_at (wpa_conf name (Some key)) ''ssid='' = Some p" "\<exists>p. strstr_at (wpa_conf name (Some key)) ''psk='' = Some p"
    using conf_text [OF assms(4,7)] by blast+
  moreover have "\<not> sr_rc (fst (os w (Open (WIFI_STATION_CONF wl)))) < 0" for w using assms(1) [of w] by simp
  ultimately show ?thesis
    by (auto simp: get_passwd_and_ssid_from_wpa_file_def run_def run_syscall assms(2) str)
qed


section \<open>Connecting\<close>

text \<open>
  What the calls change outside the process, oldest first: files removed, created with their mode and descriptor,
  written and closed, and the commands run.
\<close>

datatype effect = Removed string | Created string nat int | Wrote int bytes | Closed int | Ran string

fun effects :: "(sys_call \<times> sys_reply) list \<Rightarrow> effect list" where
  "effects [] = []"
| "effects ((Unlink p, r) # l) = effects l @ [Removed p]"
| "effects ((Creat p md, r) # l) = effects l @ [Created p md (sr_rc r)]"
| "effects ((Write fd b, r) # l) = effects l @ [Wrote fd b]"
| "effects ((Close fd, r) # l) = effects l @ [Closed fd]"
| "effects ((System c, r) # l) = effects l @ [Ran c]"
| "effects (_ # l) = effects l"

abbreviation after_run :: "('m, 'a) state \<Rightarrow> 'm \<Rightarrow> 'm" where
  "after_run p m \<equiv> snd (run_state p m)"

lemma wait_ctrl_log:
  "effects (m_log (after_run (wait_ctrl os p n) m)) = effects (m_log m) \<and> m_dev (after_run (wait_ctrl os p n) m) = m_dev m"
  by (induction n arbitrary: m) (simp_all add: run_syscall)

lemma ensure_dir_log:
  "effects (m_log (after_run (ensure_dir os p md) m)) = effects (m_log m) \<and> m_dev (after_run (ensure_dir os p md) m) = m_dev m"
  by (simp add: ensure_dir_def run_syscall)

definition supplicant_commands :: "wlan_env \<Rightarrow> string list" where
  "supplicant_commands wl =
     [''systemctl stop wpa_supplicant 2>/dev/null'', ''killall wpa_supplicant 2>/dev/null'',
      take 127 (''wpa_supplicant -i '' @ WLAN_DEV wl @ '' -Dnl80211 -c '' @ WIFI_STATION_CONF wl @ '' -B'')]"

lemma start_wpa_log:
  "effects (m_log (after_run (start_wpa wl os) m)) = effects (m_log m) @ map Ran (supplicant_commands wl) \<and>
   m_dev (after_run (start_wpa wl os) m) = m_dev m"
proof -
  let ?m1 = "after_run (ensure_dir os ''/var/run'' 438) m"
  let ?m2 = "after_run (ensure_dir os WPA_CTRL_INTERFACE 493) ?m1"
  have "effects (m_log ?m2) = effects (m_log m)" "m_dev ?m2 = m_dev m"
    using ensure_dir_log by metis+
  then show ?thesis
    by (simp add: start_wpa_def case_prod_beta run_syscall wait_ctrl_log snprintf_def supplicant_commands_def)
qed

definition dhcp_commands :: "wlan_env \<Rightarrow> string list" where
  "dhcp_commands wl = [''killall udhcpc'', take 127 (''udhcpc -i '' @ WLAN_DEV wl @ '' -R &'')]"

lemma start_udhcpc_log:
  "effects (m_log (after_run (start_udhcpc wl os) m)) = effects (m_log m) @ map Ran (dhcp_commands wl) \<and>
   m_dev (after_run (start_udhcpc wl os) m) = m_dev m"
  by (simp add: start_udhcpc_def run_syscall dhcp_commands_def snprintf_def)

text \<open>No process of a name is counted, and files can be created and written.\<close>

definition idle_host :: "'w kernel \<Rightarrow> bool" where
  "idle_host os \<longleftrightarrow>
     (\<forall>w c. sr_rc (fst (os w (Popen c))) \<noteq> 0 \<and>
        (sr_data (fst (os w (Popen c))) = [] \<or> atoi (text_of (fgets_line 99 (bytes_chars (sr_data (fst (os w (Popen c))))))) = Some 0)) \<and>
     (\<forall>w p md. 0 \<le> sr_rc (fst (os w (Creat p md)))) \<and> (\<forall>w fd b. 0 \<le> sr_rc (fst (os w (Write fd b))))"

lemma process_alive_idle:
  assumes "idle_host os"
  shows "\<exists>m'. process_alive os p m = Some (0, m') \<and> effects (m_log m') = effects (m_log m) \<and> m_dev m' = m_dev m"
proof -
  define c where "c = snprintf 150 (''ps -ef | grep '' @ p @ '' | grep -v grep | wc -l'')"
  have h: "sr_rc (fst (os (m_os m) (Popen c))) \<noteq> 0"
    "sr_data (fst (os (m_os m) (Popen c))) \<noteq> [] \<Longrightarrow> atoi (text_of (fgets_line 99 (bytes_chars (sr_data (fst (os (m_os m) (Popen c))))))) = Some 0"
    using assms unfolding idle_host_def by auto
  show ?thesis unfolding process_alive_def c_def [symmetric]
    by (cases "sr_data (fst (os (m_os m) (Popen c))) = []") (simp_all add: run_def run_syscall h)
qed

lemma write_conf_idle:
  assumes "idle_host os"
  shows "\<exists>fd m'. run (write_conf os p c) m = Some (0, m') \<and> 0 \<le> fd \<and>
    effects (m_log m') = effects (m_log m) @ [Removed p, Created p 0x666 fd, Wrote fd c, Closed fd] \<and> m_dev m' = m_dev m"
  using assms by (simp add: write_conf_def run_def run_syscall idle_host_def not_less)

lemma wpa_conf_length:
  assumes "length name < 36" "\<forall>k. key = Some k \<longrightarrow> length k < 68"
  shows "fits 1024 (wpa_conf name key) = Some (wpa_conf name key)"
  using assms by (auto simp: wpa_conf_def WPA_CTRL_INTERFACE_def split: option.split list.split)

text \<open>The file that the supplicant is to read: the control interface, and one network by name, with its passphrase or open.\<close>

definition station_lines :: "string \<Rightarrow> string option \<Rightarrow> string list" where
  "station_lines name key =
     [''ctrl_interface=/var/run/wpa_supplicant'', ''update_config=1'', ''network={''] @
     (if key = None \<or> key = Some [] then [''ssid='' @ quoted name, ''key_mgmt=NONE'']
      else [''key_mgmt=WPA-PSK'', ''ssid='' @ quoted name, ''psk='' @ quoted (the key)]) @
     [''}'']"

lemma wpa_conf_lines: "wpa_conf name key = unlines (station_lines name key)"
  by (simp add: wpa_conf_def station_lines_def WPA_CTRL_INTERFACE_def split: option.split list.split)

text \<open>
  C40: With no supplicant running and a disk that can be written, connecting to a network whose name and password
  fit their arrays succeeds and does the following to files and processes, in this order and nothing else (but
  for the directories of the control interface): it removes the station's configuration file, creates it
  anew, writes to it the lines of that network (name and passphrase in quotes, or an open network if there is no
  password), closes it, stops a supplicant of the system, starts one on the interface with that file, and starts
  the DHCP client anew.  The control interface is not used.
\<close>

theorem wifi_connect_starts:
  assumes "idle_host os" "length name < 36" "\<forall>k. key = Some k \<longrightarrow> length k < 68"
  shows "\<exists>m' fd. wifi_station_connect ctrl wl os name key m = Some (0, m') \<and> 0 \<le> fd \<and>
    effects (m_log m') = effects (m_log m) @
      [Removed (WIFI_STATION_CONF wl), Created (WIFI_STATION_CONF wl) 0x666 fd,
       Wrote fd (text_bytes (unlines (station_lines name key))), Closed fd,
       Ran ''systemctl stop wpa_supplicant 2>/dev/null'', Ran ''killall wpa_supplicant 2>/dev/null'',
       Ran (take 127 (''wpa_supplicant -i '' @ WLAN_DEV wl @ '' -Dnl80211 -c '' @ WIFI_STATION_CONF wl @ '' -B'')),
       Ran ''killall udhcpc'', Ran (take 127 (''udhcpc -i '' @ WLAN_DEV wl @ '' -R &''))] \<and> m_dev m' = m_dev m"
proof -
  have net: "\<exists>net. station_network name key = Some net"
    using assms(2,3) by (auto simp: station_network_def fits_def split: option.split list.split)
  let ?conf = "WIFI_STATION_CONF wl" and ?text = "text_bytes (wpa_conf name key)"
  obtain m1 where 1: "process_alive os ''wpa_supplicant'' m = Some (0, m1)" "effects (m_log m1) = effects (m_log m)"
    "m_dev m1 = m_dev m" using process_alive_idle [OF assms(1)] by blast
  obtain fd m2 where 2: "run (write_conf os ?conf ?text) m1 = Some (0, m2)" "0 \<le> fd"
    "effects (m_log m2) = effects (m_log m1) @ [Removed ?conf, Created ?conf 0x666 fd, Wrote fd ?text, Closed fd]" "m_dev m2 = m_dev m1"
    using write_conf_idle [OF assms(1)] by blast
  let ?m3 = "after_run (start_wpa wl os) m2"
  let ?m4 = "after_run (syscall os (Usleep 500)) ?m3"
  let ?m5 = "after_run (start_udhcpc wl os) ?m4"
  have "wifi_station_connect ctrl wl os name key m = Some (0, ?m5)"
    using net 1(1) 2(1) by (auto simp: wifi_station_connect_def wpa_config_prepare_def wpa_conf_length [OF assms(2,3)])
      (simp add: run_def case_prod_beta)
  moreover have "effects (m_log ?m4) = effects (m_log ?m3)" "m_dev ?m4 = m_dev ?m3"
    by (simp_all add: run_syscall)
  ultimately show ?thesis using 1 2 start_wpa_log [of wl os m2] start_udhcpc_log [of wl os ?m4]
    by (intro exI [of _ ?m5] exI [of _ fd]) (simp add: supplicant_commands_def dhcp_commands_def wpa_conf_lines)
qed

section \<open>Examples\<close>

text \<open>An environment, and a kernel without an address or mask for the interface whose station file holds a network.\<close>

definition demo_wlan :: "wireless_scan list \<Rightarrow> wlan_env" where
  "demo_wlan nodes = \<lparr>WLAN_DEV = ''wlan0'', WLAN_AP = ''wlan1'', WIFI_DB_PATH = ''db'', we_version_compiled = \<lambda>_. 22,
     iw_freq_to_channel = \<lambda>_ _. 6, iw_channel_to_freq = \<lambda>_ _. (-2, []), iw_scan_result = \<lambda>_. nodes, iw_essid = \<lambda>_. (True, 1)\<rparr>"

definition air_kernel :: "unit kernel" where
  "air_kernel u c =
     (case c of
        Malloc n \<Rightarrow> (reply 0 4096 [], u)
      | Socket k \<Rightarrow> (reply 3 0 [], u)
      | Family_Socket f k \<Rightarrow> (reply 3 0 [], u)
      | Creat p md \<Rightarrow> (reply 4 0 [], u)
      | Open p \<Rightarrow> (reply 5 0 [], u)
      | Read_Text fd \<Rightarrow> (reply 0 0 (text_bytes (wpa_conf ''home'' (Some ''secret''))), u)
      | Popen cmd \<Rightarrow> (reply 1 0 [], u)
      | Ioctl fd (SIOCGIWMODE i) \<Rightarrow> (reply 0 2 [], u)
      | Ioctl fd (SIOCSIFADDR i ip) \<Rightarrow> (reply (-1) 0 [], u)
      | Ioctl fd (SIOCGIFNETMASK i) \<Rightarrow> (reply (-1) 0 [], u)
      | _ \<Rightarrow> (reply 0 0 [], u))"

definition demo_wifi_m :: "(unit, unit) wifi_m" where
  "demo_wifi_m = \<lparr>m_os = (), m_log = [], m_dev = (s_tkl_wifi ())\<lparr>event_cb := 7, sta_conn_flag := True, tw_sta := Some ''wlan0'', tw_ap := Some ''wlan1''\<rparr>\<rparr>"

definition demo_node :: "bool \<Rightarrow> wireless_scan" where
  "demo_node b = \<lparr>has_ap_addr = b, ap_addr = [0, 0x1b, 0xfc, 2, 0xa0, 7], ws_essid = ''home'', ws_freq = [], has_stats = True, ws_qual = 60, key_flags = 0x800\<rparr>"

lemma demo_scanner: "scanner (demo_wlan nodes) air_kernel i nodes"
  by (simp add: scanner_def demo_wlan_def air_kernel_def)

theorem wifi_no_descriptor_left_witness:
  "\<exists>rs s. run_state (run_ops (wifi_exec (demo_wlan []) air_kernel) [Wifi_Init 7, Wifi_Enable ''wlan0'' True, Wifi_Get_Channel ''wlan0''])
     \<lparr>m_os = (), m_log = [], m_dev = s_tkl_wifi ()\<rparr> = (rs, s) \<and> event_cb (m_dev s) = 7 \<and> open_fds (m_log s) = {} \<and> closes_ok (m_log s)"
proof -
  obtain rs s where r: "run_state (run_ops (wifi_exec (demo_wlan []) air_kernel) [Wifi_Init 7, Wifi_Enable ''wlan0'' True, Wifi_Get_Channel ''wlan0''])
     \<lparr>m_os = (), m_log = [], m_dev = s_tkl_wifi ()\<rparr> = (rs, s)" by (metis surj_pair)
  have "let s = snd (run_state (run_ops (wifi_exec (demo_wlan []) air_kernel) [Wifi_Init 7, Wifi_Enable ''wlan0'' True, Wifi_Get_Channel ''wlan0''])
     \<lparr>m_os = (), m_log = [], m_dev = s_tkl_wifi ()\<rparr>) in fds_fresh (m_log s) \<and> event_cb (m_dev s) = 7" by code_simp
  then have "fds_fresh (m_log s) \<and> event_cb (m_dev s) = 7" using r by simp
  then show ?thesis using wifi_no_descriptor_left [OF r] r by blast
qed

theorem wifi_descriptor_lost_witness:
  "open_fds (m_log (snd (run_state (wifi_set_ip air_kernel ''wlan0'' ''10.0.0.1'') demo_wifi_m))) = {3} \<and>
   fst (run_state (wifi_set_channel (demo_wlan []) air_kernel ''wlan0'' 200) demo_wifi_m) = -1 \<and>
   fst (run_state (wifi_get_ip_mask air_kernel ''wlan0'') demo_wifi_m) = (0, Some ''0.0.0.0'')"
  using wifi_descriptor_lost [of air_kernel 3 "''wlan0''" "''10.0.0.1''" "demo_wlan []" 200 demo_wifi_m]
  by (simp add: air_kernel_def demo_wlan_def demo_wifi_m_def)

lemma demo_status:
  "\<exists>m'. tkl_wifi_station_get_status mute_sup (demo_wlan []) air_kernel 0 st m = Some (WSS_CONN_FAIL, m') \<and> same_vars m m'"
proof -
  have "tkl_wifi_station_get_status mute_sup (demo_wlan []) air_kernel 0 st m \<noteq> None \<and>
      map_option fst (tkl_wifi_station_get_status mute_sup (demo_wlan []) air_kernel 0 st m) = Some WSS_CONN_FAIL"
    by (simp add: tkl_wifi_station_get_status_def run_def wifi_get_mode_def iw_sockets_open_def run_syscall air_kernel_def demo_wlan_def
        wifi_get_bssid_def link_op_def wifi_get_current_connect_ap_bssid_def wifi_send_command_def to_command_def fits_def mute_sup_def
        case_prod_beta station_stat_def is_valid_mac_def)
  then show ?thesis using get_status_same by fastforce
qed

lemma demo_round:
  assumes "sta_conn_flag (m_dev m)" "event_cb (m_dev m) = 7"
  shows "\<exists>m'. wifi_event_round mute_sup (demo_wlan []) air_kernel 0 v m =
      Some ((if ev_last_state v = Some WFE_CONNECT_FAILED then None else Some (7, WFE_CONNECT_FAILED),
        v\<lparr>ev_stat := WSS_CONN_FAIL, ev_wf_event := Some WFE_CONNECT_FAILED, ev_last_state := Some WFE_CONNECT_FAILED\<rparr>), m') \<and> same_vars m m'"
proof -
  obtain m1 where q: "tkl_wifi_station_get_status mute_sup (demo_wlan []) air_kernel 0 (ev_stat v) m = Some (WSS_CONN_FAIL, m1)" "same_vars m m1"
    using demo_status by blast
  have e: "event_cb (m_dev m1) = 7" using same_vars_fields [OF q(2)] assms(2) by simp
  have "quiet (syscall air_kernel (Sleep k))" for k by (auto intro: quiet_syscall)
  then have nap: "\<exists>r m2. run (syscall air_kernel (Sleep k)) m1 = Some (r, m2) \<and> same_vars m m2" for k
    using run_quiet same_vars_trans [OF q(2)] by (metis run_def surj_pair)
  have d: "event_decide (v\<lparr>ev_stat := WSS_CONN_FAIL\<rparr>) =
      Some ((if ev_last_state v = Some WFE_CONNECT_FAILED then (None, 1) else (Some WFE_CONNECT_FAILED, 3)),
        v\<lparr>ev_stat := WSS_CONN_FAIL, ev_wf_event := Some WFE_CONNECT_FAILED, ev_last_state := Some WFE_CONNECT_FAILED\<rparr>)"
    by (cases v) (simp add: event_decide_def)
  show ?thesis using nap [of 1] nap [of 3] q(1) e assms(1) by (auto simp: wifi_event_round_def d)
qed

theorem wifi_events_reported_witness:
  "\<exists>stats cbs v' m'. wifi_event_rounds mute_sup (demo_wlan []) air_kernel 0 2 event_start demo_wifi_m = Some ((stats, cbs, v'), m') \<and>
     stats = [WSS_CONN_FAIL, WSS_CONN_FAIL] \<and> remdups_adj (map snd cbs) = [WFE_CONNECT_FAILED] \<and> fst (hd cbs) = 7"
proof -
  have "sta_conn_flag (m_dev demo_wifi_m)" "event_cb (m_dev demo_wifi_m) = 7" by (simp_all add: demo_wifi_m_def)
  from demo_round [OF this, of event_start] obtain v1 m1 where 1: "wifi_event_round mute_sup (demo_wlan []) air_kernel 0 event_start demo_wifi_m =
      Some ((Some (7, WFE_CONNECT_FAILED), v1), m1)" "ev_last_state v1 = Some WFE_CONNECT_FAILED" "ev_stat v1 = WSS_CONN_FAIL"
    and m1: "same_vars demo_wifi_m m1" by (auto simp: event_start_def)
  have f: "sta_conn_flag (m_dev m1)" "event_cb (m_dev m1) = 7" using same_vars_fields [OF m1] by (simp_all add: demo_wifi_m_def)
  from demo_round [OF this, of v1] 1 obtain v2 m2 where 2: "wifi_event_round mute_sup (demo_wlan []) air_kernel 0 v1 m1 = Some ((None, v2), m2)"
    "ev_stat v2 = WSS_CONN_FAIL" by auto
  have r: "wifi_event_rounds mute_sup (demo_wlan []) air_kernel 0 2 event_start demo_wifi_m =
      Some (([WSS_CONN_FAIL, WSS_CONN_FAIL], [(7, WFE_CONNECT_FAILED)], v2), m2)"
    using 1 2 f by (simp add: numeral_2_eq_2 demo_wifi_m_def)
  then show ?thesis using wifi_events_reported [OF r] by (auto simp: event_of_def)
qed

theorem wifi_scan_reads_witness:
  "\<exists>p aps m'. tkl_wifi_scan_ap (demo_wlan [demo_node True]) air_kernel (\<lambda>_. replicate 6 0) None demo_wifi_m = Some ((Inl OPRT_OK, Some (p, aps)), m') \<and>
     map af_bssid aps = [[0, 0x1b, 0xfc, 2, 0xa0, 7]] \<and> map af_ssid aps = [''home'']"
proof -
  have "plain_addr (ap_addr (demo_node True))" "has_ap_addr (demo_node True)" by code_simp+
  moreover have "tw_sta (m_dev demo_wifi_m) = Some ''wlan0''" by (simp add: demo_wifi_m_def)
  ultimately show ?thesis
    using wifi_scan_reads [OF demo_scanner, of demo_wifi_m "''wlan0''" "[demo_node True]" "\<lambda>_. replicate 6 0"] by (fastforce simp: demo_node_def)
qed

theorem wifi_scan_hangs_witness:
  "tkl_wifi_scan_ap (demo_wlan [demo_node True, demo_node False]) air_kernel (\<lambda>_. replicate 6 0) None demo_wifi_m = None"
  by (rule wifi_scan_hangs [OF demo_scanner, of demo_wifi_m "''wlan0''" "demo_node False"]) (simp_all add: demo_wifi_m_def demo_node_def)

theorem wifi_scan_absent_witness:
  "\<exists>q m'. tkl_wifi_scan_ap (demo_wlan [demo_node True]) air_kernel (\<lambda>_. replicate 6 0) (Some ''office'') demo_wifi_m = Some ((Inl OPRT_OK, Some (q, [zero_ap])), m')"
  by (rule wifi_scan_absent [OF demo_scanner, of demo_wifi_m "''wlan0''"]) (simp_all add: demo_wifi_m_def demo_node_def)

theorem wifi_derived_addresses_witness:
  "ip_prepare ''192.168.4.1'' = Some (0, ''192.168.4.'') \<and> gateway ''192.168.4.1'' = Some ''192.168.4.1''"
proof -
  have t: "inet_ntoa [192, 168, 4, 1] = ''192.168.4.1''" "dec_digits (unat (192 :: u8)) @ ''.'' @ dec_digits (unat (168 :: u8)) @ ''.'' @ dec_digits (unat (4 :: u8)) @ ''.'' = ''192.168.4.''"
    by code_simp+
  show ?thesis
    using wifi_derived_addresses [OF t(2) [symmetric], of "zero_ap_cfg\<lparr>cfg_ip := zero_ip\<lparr>nw_ip := ''192.168.4.1''\<rparr>\<rparr>" 1] t(1) by simp
qed

theorem wifi_default_address_lost_witness:
  "\<exists>m'. tkl_wifi_start_ap (demo_wlan []) air_kernel (Some (zero_ap_cfg\<lparr>cfg_chan := 6\<rparr>)) demo_wifi_m = Some (Inl OPRT_COM_ERROR, m')"
proof -
  have "case hostapd_conf (demo_wlan []) (zero_ap_cfg\<lparr>cfg_chan := 6\<rparr>) of None \<Rightarrow> False | Some t \<Rightarrow> length t < 1024" by code_simp
  then obtain t where conf: "hostapd_conf (demo_wlan []) (zero_ap_cfg\<lparr>cfg_chan := 6\<rparr>) = Some t" "fits 1024 t = Some t"
    by (auto simp: fits_def split: option.splits)
  have "tkl_wifi_start_ap (demo_wlan []) air_kernel (Some (zero_ap_cfg\<lparr>cfg_chan := 6\<rparr>)) demo_wifi_m \<noteq> None"
    by (simp add: tkl_wifi_start_ap_def demo_wifi_m_def run_def case_prod_beta wifi_ap_start_def process_kill_if_running_def process_alive_def
        wifi_enable_def run_syscall air_kernel_def wifi_set_ip_def hostapd_conf_prepare_def conf write_conf_def zero_ip_def)
  then obtain r m' where s: "tkl_wifi_start_ap (demo_wlan []) air_kernel (Some (zero_ap_cfg\<lparr>cfg_chan := 6\<rparr>)) demo_wifi_m = Some (r, m')" by auto
  from wifi_default_address_lost [OF s] s show ?thesis by (simp add: zero_ap_cfg_def zero_ip_def)
qed

theorem wifi_sniffer_reads_sent_witness:
  "\<exists>bs f. sniffer_round (int (length bs)) (store_into (replicate 512 0) bs) = Some (f, 2) \<and> take 2 f = [0x80, 0 :: u8]"
proof -
  define buf :: bytes where "buf = replicate 512 0"
  have "length buf = 512" by (simp only: buf_def length_replicate)
  moreover have "m_log demo_wifi_m = []" "sr_fd (fst (air_kernel (m_os demo_wifi_m) (Malloc n))) \<noteq> 0" for n
    by (simp_all add: demo_wifi_m_def air_kernel_def)
  ultimately have "\<exists>bs f. sniffer_round (int (length bs)) (store_into buf bs) = Some (f, 2) \<and> take 2 f = [0x80, 0 :: u8]"
    using wifi_sniffer_reads_sent [of "[0x80, 0]" buf demo_wifi_m air_kernel 3] by (auto simp: numeral_2_eq_2)
  then show ?thesis unfolding buf_def .
qed

theorem wifi_mgnt_length_wrong_witness:
  "\<exists>pkt f. length pkt = 8192 \<and> mgnt_round 20 pkt = Some (f, 20) \<and> take 20 f = take 20 pkt"
proof -
  define pkt :: bytes where "pkt = replicate 8192 0"
  have len: "length pkt = 8192" by (simp only: pkt_def length_replicate)
  have "pkt ! 2 = 0" "pkt ! 3 = 0" unfolding pkt_def by (rule nth_replicate, simp)+
  then have l: "it_len pkt = 0" by (simp add: it_len_def)
  then have r: "mgnt_round 20 pkt = Some (pkt, 20)" by (simp add: mgnt_round_def)
  have "take (20 - it_len pkt) pkt = drop (it_len pkt) (take 20 pkt)" using wifi_mgnt_length_wrong [OF len _ r] by simp
  then show ?thesis using len r by blast
qed

theorem wpa_file_keeps_quotes_witness:
  "\<exists>m'. get_passwd_and_ssid_from_wpa_file (demo_wlan []) air_kernel (replicate 33 nul) (replicate 65 nul) demo_wifi_m =
     Some ((0, strncpy 32 (quoted ''home'') (replicate 33 nul), strncpy 64 (quoted ''secret'') (replicate 65 nul)), m')"
proof -
  have "list_all (\<lambda>c. \<not> isspace c \<and> c \<noteq> nul) (''home'' @ ''secret'')" "\<not> strstr ''home'' ''psk=''" by code_simp+
  then show ?thesis
    using wpa_file_keeps_quotes [of air_kernel "demo_wlan []" "''home''" "''secret''" "replicate 33 nul" "replicate 65 nul" demo_wifi_m]
    by (simp add: air_kernel_def list_all_iff)
qed

theorem wifi_connect_starts_witness:
  "\<exists>m' fd. idle_host air_kernel \<and>
     wifi_station_connect mute_sup (demo_wlan []) air_kernel ''home'' (Some ''secret'') demo_wifi_m = Some (0, m') \<and>
     take 3 (effects (m_log m')) =
       [Removed (WIFI_STATION_CONF (demo_wlan [])), Created (WIFI_STATION_CONF (demo_wlan [])) 0x666 fd,
        Wrote fd (text_bytes (unlines (station_lines ''home'' (Some ''secret''))))] \<and> length (effects (m_log m')) = 9"
proof -
  have i: "idle_host air_kernel" by (simp add: idle_host_def air_kernel_def)
  from wifi_connect_starts [OF i, of "''home''" "Some ''secret''" mute_sup "demo_wlan []" demo_wifi_m] show ?thesis
    using i by (auto simp: demo_wifi_m_def)
qed

end
