(* ===== verification/Bt_Dbus.thy ===== *)
theory Bt_Dbus
  imports C_Text Posix_World
begin

text \<open>
  The Bluetooth peripheral of \<open>tkl_bt/bt_dbus_api.c\<close>: the table of services and characteristics with the handles
  given to the application, notifications, the reading of advertising data, connection events and start-up.
  The BlueZ client library and GLib are reached by calls that are recorded in a list (\<open>bt_act\<close>); what they return is an
  argument.  Objects of the library are numbers, \<open>None\<close> is the null pointer.  A call of a registered function
  is recorded with the number of the function and the event it is given.
\<close>

section \<open>Identifiers\<close>

text \<open>\<open>%0kx\<close> for a number of at most \<open>k\<close> digits.\<close>

fun hex_text :: "nat \<Rightarrow> nat \<Rightarrow> string" where
  "hex_text 0 n = []"
| "hex_text (Suc k) n = hex_text k (n div 16) @ [hex_char (n mod 16)]"

datatype TKL_BLE_UUID_T =
    TKL_BLE_UUID_TYPE_16 u16
  | TKL_BLE_UUID_TYPE_32 u32
  | TKL_BLE_UUID_TYPE_128 bytes
  | UUID_TYPE_OTHER

definition uuid_base :: string where
  "uuid_base = ''-0000-1000-8000-00805f9b34fb''"

definition byte_text :: "u8 \<Rightarrow> string" where
  "byte_text b = hex_text 2 (unat b)"

text \<open>\<open>mem\<close> is whether \<open>malloc\<close> succeeds.\<close>

definition uuid_to_string :: "bool \<Rightarrow> TKL_BLE_UUID_T \<Rightarrow> string option" where
  "uuid_to_string mem u =
     (if \<not> mem then None
      else case u of
        TKL_BLE_UUID_TYPE_16 w \<Rightarrow> Some (snprintf 40 (''0000'' @ hex_text 4 (unat w) @ uuid_base))
      | TKL_BLE_UUID_TYPE_32 w \<Rightarrow> Some (snprintf 40 (''0000'' @ hex_text 8 (unat w) @ uuid_base))
      | TKL_BLE_UUID_TYPE_128 b \<Rightarrow> Some (snprintf 40
          (concat (map (\<lambda>i. byte_text (b ! i)) [15, 14, 13, 12]) @ ''-'' @ concat (map (\<lambda>i. byte_text (b ! i)) [11, 10]) @ ''-'' @
           concat (map (\<lambda>i. byte_text (b ! i)) [9, 8]) @ ''-'' @ concat (map (\<lambda>i. byte_text (b ! i)) [7, 6]) @ ''-'' @
           concat (map (\<lambda>i. byte_text (b ! i)) [5, 4, 3, 2, 1, 0])))
      | UUID_TYPE_OTHER \<Rightarrow> None)"

section \<open>State\<close>

text \<open>Settings of an advertisement.\<close>

datatype ad_call =
    Discoverable bool
  | Manufacturer u16 bytes
  | Appearance u16
  | Local_Name bytes
  | Services "string list"
  | Service_Data string bytes
  | Interval nat nat

definition TKL_BLE_EVT_STACK_INIT :: nat where "TKL_BLE_EVT_STACK_INIT = 1"
definition TKL_BLE_GAP_EVT_CONNECT :: nat where "TKL_BLE_GAP_EVT_CONNECT = 4"
definition TKL_BLE_GAP_EVT_DISCONNECT :: nat where "TKL_BLE_GAP_EVT_DISCONNECT = 5"
definition TKL_BLE_GATT_EVT_WRITE_REQ :: nat where "TKL_BLE_GATT_EVT_WRITE_REQ = 7"
definition TKL_BLE_GATT_EVT_READ_CHAR_VALUE :: nat where "TKL_BLE_GATT_EVT_READ_CHAR_VALUE = 11"
definition BLE_CONN_HANDLE :: u16 where "BLE_CONN_HANDLE = 1"

text \<open>The handlers that are set for the characteristics of an application.\<close>

datatype char_cb = On_Local_Char_Read | On_Local_Char_Write | On_Local_Char_Start_Notify | On_Local_Char_Stop_Notify | On_Local_Char_Updated

text \<open>The fields of an event that are set: type and connection; type, characteristic and data.\<close>

datatype bt_act =
    Gap_Call nat nat u16
  | Gatt_Call nat nat u16 bytes
  | Start_Advertising "nat option" nat
  | Stop_Advertising "nat option" "nat option"
  | Adv_Set nat ad_call
  | Disconnect nat
  | Set_Value string string bytes
  | Add_Service nat string
  | Add_Characteristic nat string string u8
  | Set_Char_Cb nat char_cb
  | Register_Application "nat option" nat
  | Unregister_Application nat nat
  | Notify "nat option" string string bytes
  | Power_On nat
  | Free nat
  | Quit_Loop nat

record bt_dev =
  is_bluez_inc_init :: bool
  gap_evt_cb :: "nat option"
  gatt_evt_cb :: "nat option"
  default_adapter :: "nat option"
  advertisement :: "nat option"
  app :: "nat option"
  agent :: "nat option"
  loop :: "nat option"
  cleanup_in_progress :: bool
  sg_device :: "nat option"
  serv_map :: "(string \<times> u16) list"
  char_map :: "(string \<times> u16) list"
  acts :: "bt_act list"

definition bt_start :: bt_dev where
  "bt_start = \<lparr> is_bluez_inc_init = False, gap_evt_cb = None, gatt_evt_cb = None, default_adapter = None, advertisement = None,
     app = None, agent = None, loop = None, cleanup_in_progress = False, sg_device = None, serv_map = [], char_map = [], acts = [] \<rparr>"

definition act :: "bt_act list \<Rightarrow> bt_dev \<Rightarrow> bt_dev" where
  "act as d = d\<lparr>acts := acts d @ as\<rparr>"

section \<open>Handles of characteristics\<close>

text \<open>The tables hold \<open>serv_count\<close> and \<open>char_count\<close> entries.\<close>

definition MAX_SERVS :: nat where "MAX_SERVS = 10"
definition MAX_CHARS :: nat where "MAX_CHARS = 32"

definition add_serv_info :: "string \<Rightarrow> bt_dev \<Rightarrow> u16 \<times> bt_dev" where
  "add_serv_info s d =
     (if length (serv_map d) < MAX_SERVS
      then let i = of_nat (length (serv_map d)) in (i, d\<lparr>serv_map := serv_map d @ [(s, i)]\<rparr>)
      else (0xFFFF, d))"

definition add_char_info :: "string \<Rightarrow> bt_dev \<Rightarrow> u16 \<times> bt_dev" where
  "add_char_info s d =
     (if length (char_map d) < MAX_CHARS
      then let i = of_nat (length (char_map d) + length (serv_map d) * 10) in (i, d\<lparr>char_map := char_map d @ [(s, i)]\<rparr>)
      else (0xFFFF, d))"

definition get_serv_index_by_uuid :: "string \<Rightarrow> bt_dev \<Rightarrow> u16" where
  "get_serv_index_by_uuid u d = (case find (\<lambda>e. fst e = u) (serv_map d) of None \<Rightarrow> 0xFFFF | Some e \<Rightarrow> snd e)"

definition get_char_index_by_uuid :: "string \<Rightarrow> bt_dev \<Rightarrow> u16" where
  "get_char_index_by_uuid u d = (case find (\<lambda>e. fst e = u) (char_map d) of None \<Rightarrow> 0xFFFF | Some e \<Rightarrow> snd e)"

definition get_serv_uuid_by_char_index :: "u16 \<Rightarrow> bt_dev \<Rightarrow> string option" where
  "get_serv_uuid_by_char_index c d = map_option fst (find (\<lambda>e. snd e = c div 10) (serv_map d))"

definition get_char_uuid_by_char_index :: "u16 \<Rightarrow> bt_dev \<Rightarrow> string option" where
  "get_char_uuid_by_char_index c d = map_option fst (find (\<lambda>e. snd e = c) (char_map d))"

section \<open>Services\<close>

record TKL_BLE_CHAR_PARAMS_T =
  handle :: u16
  char_uuid :: TKL_BLE_UUID_T
  property :: u8

record TKL_BLE_SERVICE_PARAMS_T =
  svc_uuid :: TKL_BLE_UUID_T
  p_char :: "TKL_BLE_CHAR_PARAMS_T list"

text \<open>What is returned by \<open>binc_create_application\<close>, by \<open>malloc\<close> and by the calls that add service \<open>i\<close> and its characteristic \<open>j\<close>.\<close>

record gatt_env =
  ge_app :: "nat option"
  ge_mem_s :: "nat \<Rightarrow> bool"
  ge_add_s :: "nat \<Rightarrow> int"
  ge_mem_c :: "nat \<Rightarrow> nat \<Rightarrow> bool"
  ge_add_c :: "nat \<Rightarrow> nat \<Rightarrow> int"

definition add_char :: "gatt_env \<Rightarrow> nat \<Rightarrow> nat \<Rightarrow> string \<Rightarrow> nat \<Rightarrow> TKL_BLE_CHAR_PARAMS_T \<Rightarrow> bt_dev \<Rightarrow> TKL_BLE_CHAR_PARAMS_T \<times> bt_dev" where
  "add_char ge a i s j c d =
     (case uuid_to_string (ge_mem_c ge i j) (char_uuid c) of
        None \<Rightarrow> (c, d)
      | Some cs \<Rightarrow>
          let d = act [Add_Characteristic a s cs (property c)] d in
          if ge_add_c ge i j \<noteq> 0 then (c, d)
          else let (h, d) = add_char_info cs d in (c\<lparr>handle := h\<rparr>, d))"

fun add_chars :: "gatt_env \<Rightarrow> nat \<Rightarrow> nat \<Rightarrow> string \<Rightarrow> nat \<Rightarrow> TKL_BLE_CHAR_PARAMS_T list \<Rightarrow> bt_dev \<Rightarrow> TKL_BLE_CHAR_PARAMS_T list \<times> bt_dev" where
  "add_chars ge a i s j [] d = ([], d)"
| "add_chars ge a i s j (c # cs) d =
     (let (c', d) = add_char ge a i s j c d; (cs', d) = add_chars ge a i s (Suc j) cs d in (c' # cs', d))"

definition add_service :: "gatt_env \<Rightarrow> nat \<Rightarrow> nat \<Rightarrow> TKL_BLE_SERVICE_PARAMS_T \<Rightarrow> bt_dev \<Rightarrow> TKL_BLE_SERVICE_PARAMS_T \<times> bt_dev" where
  "add_service ge a i sv d =
     (case uuid_to_string (ge_mem_s ge i) (svc_uuid sv) of
        None \<Rightarrow> (sv, d)
      | Some s \<Rightarrow>
          let d = act [Add_Service a s] d in
          if ge_add_s ge i \<noteq> 0 then (sv, d)
          else let (cs, d) = add_chars ge a i s 0 (p_char sv) d; (_, d) = add_serv_info s d in (sv\<lparr>p_char := cs\<rparr>, d))"

fun add_services :: "gatt_env \<Rightarrow> nat \<Rightarrow> nat \<Rightarrow> TKL_BLE_SERVICE_PARAMS_T list \<Rightarrow> bt_dev \<Rightarrow> TKL_BLE_SERVICE_PARAMS_T list \<times> bt_dev" where
  "add_services ge a i [] d = ([], d)"
| "add_services ge a i (sv # svs) d =
     (let (sv', d) = add_service ge a i sv d; (svs', d) = add_services ge a (Suc i) svs d in (sv' # svs', d))"

definition char_cbs :: "nat \<Rightarrow> bt_act list" where
  "char_cbs a = map (Set_Char_Cb a)
     [On_Local_Char_Read, On_Local_Char_Write, On_Local_Char_Start_Notify, On_Local_Char_Stop_Notify, On_Local_Char_Updated]"

definition bluez_inc_add_gatt :: "gatt_env \<Rightarrow> TKL_BLE_SERVICE_PARAMS_T list \<Rightarrow> bt_dev \<Rightarrow> TKL_BLE_SERVICE_PARAMS_T list \<times> bt_dev" where
  "bluez_inc_add_gatt ge svs d =
     (let d = d\<lparr>app := ge_app ge\<rparr> in
      case ge_app ge of
        None \<Rightarrow> (svs, d)
      | Some a \<Rightarrow> let (svs', d) = add_services ge a 0 svs d in (svs', act (char_cbs a @ [Register_Application (default_adapter d) a]) d))"

definition bluez_inc_gatt_value_notify :: "u16 \<Rightarrow> u16 \<Rightarrow> bytes \<Rightarrow> bt_dev \<Rightarrow> int \<times> bt_dev" where
  "bluez_inc_gatt_value_notify conn_handle h data d =
     (case (get_serv_uuid_by_char_index h d, get_char_uuid_by_char_index h d) of
        (Some s, Some c) \<Rightarrow> (0, act [Notify (app d) s c data] d)
      | _ \<Rightarrow> (-2, d))"

section \<open>Events\<close>

datatype ConnectionState = BINC_DISCONNECTED | BINC_CONNECTED | BINC_CONNECTING | BINC_DISCONNECTING

definition gap_call :: "nat \<Rightarrow> u16 \<Rightarrow> bt_dev \<Rightarrow> bt_dev" where
  "gap_call t h d = (case gap_evt_cb d of None \<Rightarrow> d | Some f \<Rightarrow> act [Gap_Call f t h] d)"

definition gatt_call :: "nat \<Rightarrow> u16 \<Rightarrow> bytes \<Rightarrow> bt_dev \<Rightarrow> bt_dev" where
  "gatt_call t h data d = (case gatt_evt_cb d of None \<Rightarrow> d | Some f \<Rightarrow> act [Gatt_Call f t h data] d)"

text \<open>The event is cleared first: a state that is neither of the two leaves type 0.\<close>

definition on_central_state_changed :: "nat \<Rightarrow> nat \<Rightarrow> ConnectionState \<Rightarrow> bt_dev \<Rightarrow> bt_dev" where
  "on_central_state_changed adapter device state d =
     (let d = (if state = BINC_CONNECTED then act [Stop_Advertising (Some adapter) (advertisement d)] (d\<lparr>sg_device := Some device\<rparr>)
               else if state = BINC_DISCONNECTED then d\<lparr>sg_device := None\<rparr> else d)
      in gap_call (if state = BINC_CONNECTED then TKL_BLE_GAP_EVT_CONNECT
                   else if state = BINC_DISCONNECTED then TKL_BLE_GAP_EVT_DISCONNECT else 0) BLE_CONN_HANDLE d)"

definition on_local_char_read :: "string \<Rightarrow> string \<Rightarrow> bt_dev \<Rightarrow> bt_dev" where
  "on_local_char_read service_uuid uuid d =
     gatt_call TKL_BLE_GATT_EVT_READ_CHAR_VALUE (get_char_index_by_uuid uuid d) []
       (act [Set_Value service_uuid uuid [0x06, 0x6f, 0x01, 0x00, 0xff, 0xe6, 0x07, 0x03, 0x03, 0x10, 0x04, 0x00, 0x01]] d)"

definition on_local_char_write :: "string \<Rightarrow> bytes \<Rightarrow> bt_dev \<Rightarrow> bt_dev" where
  "on_local_char_write uuid data d = gatt_call TKL_BLE_GATT_EVT_WRITE_REQ (get_char_index_by_uuid uuid d) data d"

definition bluez_inc_disconnect :: "bt_dev \<Rightarrow> bt_dev" where
  "bluez_inc_disconnect d = (case sg_device d of None \<Rightarrow> d | Some x \<Rightarrow> act [Disconnect x] d)"

section \<open>Start and end\<close>

text \<open>The adapter found, whether it has power, and the main loop made.\<close>

definition bluez_inc_init :: "nat option \<Rightarrow> bool \<Rightarrow> nat \<Rightarrow> nat option \<Rightarrow> nat option \<Rightarrow> bt_dev \<Rightarrow> bt_dev" where
  "bluez_inc_init adapter powered lp gap gatt d =
     (if is_bluez_inc_init d then d
      else let d = d\<lparr>is_bluez_inc_init := True, gap_evt_cb := gap, gatt_evt_cb := gatt, loop := Some lp, default_adapter := adapter\<rparr> in
        case adapter of None \<Rightarrow> d | Some a \<Rightarrow> if powered then d else act [Power_On a] d)"

definition bluez_inc_deinit :: "bt_dev \<Rightarrow> bt_dev" where
  "bluez_inc_deinit d = d"

definition free_opt :: "nat option \<Rightarrow> bt_act list" where
  "free_opt x = (case x of None \<Rightarrow> [] | Some a \<Rightarrow> [Free a])"

definition callback :: "nat option \<Rightarrow> bt_dev \<Rightarrow> bt_dev" where
  "callback data d =
     (let d = (act (free_opt (agent d)) d)\<lparr>agent := None\<rparr>;
          d = (case default_adapter d of
                 Some ad \<Rightarrow>
                   let d = (case app d of None \<Rightarrow> d | Some a \<Rightarrow> (act [Unregister_Application ad a, Free a] d)\<lparr>app := None\<rparr>);
                       d = (case advertisement d of None \<Rightarrow> d
                              | Some v \<Rightarrow> (act [Stop_Advertising (Some ad) (Some v), Free v] d)\<lparr>advertisement := None\<rparr>)
                   in (act [Free ad] d)\<lparr>default_adapter := None\<rparr>
               | None \<Rightarrow> (act (free_opt (app d) @ free_opt (advertisement d)) d)\<lparr>app := None, advertisement := None\<rparr>)
      in case data of None \<Rightarrow> d | Some l \<Rightarrow> act [Quit_Loop l] d)"

text \<open>The handler of signals; the result says whether the process ends.\<close>

definition cleanup_handler :: "int \<Rightarrow> bt_dev \<Rightarrow> bool \<times> bt_dev" where
  "cleanup_handler signo d =
     (if signo = 2
      then (if cleanup_in_progress d then (True, d) else (True, callback (loop d) (d\<lparr>cleanup_in_progress := True\<rparr>)))
      else (False, d))"

section \<open>Advertising data\<close>

text \<open>Reads outside the buffer are \<open>None\<close>; 16-bit values are stored low byte first.\<close>

definition read_at :: "bytes \<Rightarrow> nat \<Rightarrow> u8 option" where
  "read_at buf i = (if i < length buf then Some (buf ! i) else None)"

definition le16 :: "u8 \<Rightarrow> u8 \<Rightarrow> u16" where
  "le16 lo hi = of_nat (unat lo + 256 * unat hi)"

definition read16 :: "bytes \<Rightarrow> nat \<Rightarrow> u16 option" where
  "read16 buf i = do { lo \<leftarrow> read_at buf i; hi \<leftarrow> read_at buf (Suc i); Some (le16 lo hi) }"

definition slice :: "bytes \<Rightarrow> nat \<Rightarrow> nat \<Rightarrow> bytes" where
  "slice buf off n = take n (drop off buf)"

definition uuid16_text :: "u16 \<Rightarrow> string" where
  "uuid16_text w = snprintf 40 (''0000'' @ hex_text 4 (unat w) @ uuid_base)"

text \<open>The local variables of the reader: settings made at once, identifiers, name and service data.\<close>

record ad_state =
  ad_calls :: "ad_call list"
  service_uuids_list :: "string list"
  local_name :: "bytes option"
  temp_service_data :: "(string \<times> bytes) list"

definition ad_start :: ad_state where
  "ad_start = \<lparr> ad_calls = [], service_uuids_list = [], local_name = None, temp_service_data = [] \<rparr>"

text \<open>\<open>for (int i = 0; i < payload_len; i += 2)\<close>: an odd length reads one byte too many.\<close>

function uuid_loop :: "bytes \<Rightarrow> nat \<Rightarrow> nat \<Rightarrow> nat \<Rightarrow> string list \<Rightarrow> string list option" where
  "uuid_loop buf off i n us =
     (if i < n then Option.bind (read16 buf (off + i)) (\<lambda>w. uuid_loop buf off (i + 2) n (us @ [uuid16_text w])) else Some us)"
  by pat_completeness auto
termination by (relation "measure (\<lambda>(buf, off, i, n, us). n - i)") auto

declare uuid_loop.simps [simp del]

text \<open>\<open>g_hash_table_insert\<close> replaces the value of a key that is there.\<close>

fun ht_insert :: "string \<Rightarrow> bytes \<Rightarrow> (string \<times> bytes) list \<Rightarrow> (string \<times> bytes) list" where
  "ht_insert k v [] = [(k, v)]"
| "ht_insert k v ((k', v') # es) = (if k' = k then (k, v) # es else (k', v') # ht_insert k v es)"

definition ad_one :: "bytes \<Rightarrow> nat \<Rightarrow> nat \<Rightarrow> u8 \<Rightarrow> ad_state \<Rightarrow> ad_state option" where
  "ad_one buf off n ad_type st =
     (if ad_type = 0x01
      then (if 1 \<le> n then Option.bind (read_at buf off) (\<lambda>flags. Some (st\<lparr>ad_calls := ad_calls st @ [Discoverable (flags AND 2 \<noteq> 0)]\<rparr>)) else Some st)
      else if ad_type = 0x02 \<or> ad_type = 0x03
      then map_option (\<lambda>us. st\<lparr>service_uuids_list := us\<rparr>) (uuid_loop buf off 0 n (service_uuids_list st))
      else if ad_type = 0x08 \<or> ad_type = 0x09
      then Some (if local_name st = None then st\<lparr>local_name := Some (takeWhile (\<lambda>b. b \<noteq> 0) (slice buf off n))\<rparr> else st)
      else if ad_type = 0xFF
      then (if 2 \<le> n then Option.bind (read16 buf off) (\<lambda>m. Some (st\<lparr>ad_calls := ad_calls st @ [Manufacturer m (slice buf (off + 2) (n - 2))]\<rparr>)) else Some st)
      else if ad_type = 0x16
      then (if 2 \<le> n then Option.bind (read16 buf off) (\<lambda>u.
              Some (st\<lparr>temp_service_data := ht_insert (uuid16_text u) (slice buf (off + 2) (n - 2)) (temp_service_data st)\<rparr>)) else Some st)
      else if ad_type = 0x19
      then (if n = 2 then Option.bind (read16 buf off) (\<lambda>a. Some (st\<lparr>ad_calls := ad_calls st @ [Appearance a]\<rparr>)) else Some st)
      else Some st)"

function ad_loop :: "bytes \<Rightarrow> nat \<Rightarrow> nat \<Rightarrow> ad_state \<Rightarrow> ad_state option" where
  "ad_loop buf cursor remaining st =
     (if 0 < remaining
      then Option.bind (read_at buf cursor) (\<lambda>ad_len.
        if ad_len = 0 \<or> remaining \<le> unat ad_len then Some st
        else Option.bind (read_at buf (cursor + 1)) (\<lambda>ad_type.
          Option.bind (ad_one buf (cursor + 2) (unat ad_len - 1) ad_type st) (\<lambda>st'.
            ad_loop buf (cursor + unat ad_len + 1) (remaining - (unat ad_len + 1)) st')))
      else Some st)"
  by pat_completeness auto
termination by (relation "measure (\<lambda>(buf, cursor, remaining, st). remaining)") auto

declare ad_loop.simps [simp del]

text \<open>
  A datum is its length and the pointer to its bytes.  The order in which the service data are set is that of the
  hash table, which is not specified; it is the order of insertion here.
\<close>

type_synonym TKL_BLE_DATA_T = "u16 \<times> byte_ptr"

definition ad_final :: "ad_state \<Rightarrow> ad_call list" where
  "ad_final st = ad_calls st @ (case local_name st of None \<Rightarrow> [] | Some n \<Rightarrow> [Local_Name n]) @
     (if service_uuids_list st \<noteq> [] then [Services (service_uuids_list st)] else []) @
     map (\<lambda>(k, v). Service_Data k v) (temp_service_data st)"

definition parse_and_update_adv_data :: "nat \<Rightarrow> TKL_BLE_DATA_T option \<Rightarrow> bt_dev \<Rightarrow> bt_dev option" where
  "parse_and_update_adv_data adv p d =
     (case p of
        Some (len, Some buf) \<Rightarrow>
          if len = 0 then Some d
          else map_option (\<lambda>st. act (map (Adv_Set adv) (ad_final st)) d) (ad_loop buf 0 (unat len) ad_start)
      | _ \<Rightarrow> Some d)"

text \<open>The advertisement of the adapter, or one that is created.\<close>

definition get_adv :: "nat option \<Rightarrow> nat option \<Rightarrow> bt_dev \<Rightarrow> nat option \<times> bt_dev" where
  "get_adv current created d =
     (let v = (case current of None \<Rightarrow> created | Some c \<Rightarrow> Some c) in (v, d\<lparr>advertisement := v\<rparr>))"

definition bluez_inc_update_adv ::
    "nat option \<Rightarrow> nat option \<Rightarrow> TKL_BLE_DATA_T option \<Rightarrow> TKL_BLE_DATA_T option \<Rightarrow> bt_dev \<Rightarrow> bt_dev option" where
  "bluez_inc_update_adv current created p_adv p_scan_rsp d =
     (let (v, d) = get_adv current created d in
      case v of
        None \<Rightarrow> Some d
      | Some a \<Rightarrow> do {
          d \<leftarrow> parse_and_update_adv_data a p_adv d;
          d \<leftarrow> parse_and_update_adv_data a p_scan_rsp d;
          Some (act [Adv_Set a (Interval 20 100), Start_Advertising (default_adapter d) a] d) })"

definition bluez_inc_start_adv :: "nat option \<Rightarrow> nat option \<Rightarrow> bt_dev \<Rightarrow> bt_dev" where
  "bluez_inc_start_adv current created d =
     (let (v, d) = get_adv current created d in
      case v of None \<Rightarrow> d | Some a \<Rightarrow> act [Start_Advertising (default_adapter d) a] d)"

section \<open>Services that are all added\<close>

abbreviation uuid_text :: "TKL_BLE_UUID_T \<Rightarrow> string" where
  "uuid_text u \<equiv> the (uuid_to_string True u)"

definition valid_services :: "TKL_BLE_SERVICE_PARAMS_T list \<Rightarrow> bool" where
  "valid_services svs \<longleftrightarrow> (\<forall>sv \<in> set svs. svc_uuid sv \<noteq> UUID_TYPE_OTHER \<and> (\<forall>c \<in> set (p_char sv). char_uuid c \<noteq> UUID_TYPE_OTHER))"

definition no_failure :: "gatt_env \<Rightarrow> bool" where
  "no_failure ge \<longleftrightarrow> (\<forall>i. ge_mem_s ge i \<and> ge_add_s ge i = 0 \<and> (\<forall>j. ge_mem_c ge i j \<and> ge_add_c ge i j = 0))"

text \<open>The characteristics of all services in order, each with the number of its service and its identifier.\<close>

fun all_chars :: "nat \<Rightarrow> TKL_BLE_SERVICE_PARAMS_T list \<Rightarrow> (nat \<times> string) list" where
  "all_chars s [] = []"
| "all_chars s (sv # svs) = map (\<lambda>c. (s, uuid_text (char_uuid c))) (p_char sv) @ all_chars (Suc s) svs"

definition char_entries :: "nat \<Rightarrow> (nat \<times> string) list \<Rightarrow> (string \<times> u16) list" where
  "char_entries k xs = map (\<lambda>(c, s, t). (t, of_nat (c + s * 10))) (enumerate k xs)"

definition serv_entries :: "nat \<Rightarrow> TKL_BLE_SERVICE_PARAMS_T list \<Rightarrow> (string \<times> u16) list" where
  "serv_entries k svs = map (\<lambda>(i, sv). (uuid_text (svc_uuid sv), of_nat i)) (enumerate k svs)"

lemma entries_simps [simp]:
  "char_entries k [] = []" "char_entries k ((s, t) # xs) = (t, of_nat (k + s * 10)) # char_entries (Suc k) xs"
  "char_entries k (xs @ ys) = char_entries k xs @ char_entries (k + length xs) ys"
  "length (char_entries k xs) = length xs"
  "serv_entries k [] = []" "serv_entries k (sv # svs) = (uuid_text (svc_uuid sv), of_nat k) # serv_entries (Suc k) svs"
  "length (serv_entries k svs) = length svs"
  by (simp_all add: char_entries_def serv_entries_def enumerate_append_eq)

lemma uuid_to_string_valid: "u \<noteq> UUID_TYPE_OTHER \<Longrightarrow> \<exists>t. uuid_to_string True u = Some t"
  by (cases u) (simp_all add: uuid_to_string_def)

lemma act_simps [simp]:
  "serv_map (act as d) = serv_map d" "char_map (act as d) = char_map d" "app (act as d) = app d" "default_adapter (act as d) = default_adapter d"
  by (simp_all add: act_def)

text \<open>What a run of additions leaves alone.\<close>

definition same_ends :: "bt_dev \<Rightarrow> bt_dev \<Rightarrow> bool" where
  "same_ends d d' \<longleftrightarrow> app d' = app d \<and> default_adapter d' = default_adapter d"

lemma same_ends_trans: "same_ends d d' \<Longrightarrow> same_ends d' d'' \<Longrightarrow> same_ends d d''"
  by (simp add: same_ends_def)

lemma add_chars_all:
  assumes "no_failure ge" "\<forall>c \<in> set cs. char_uuid c \<noteq> UUID_TYPE_OTHER" "length (char_map d) + length cs \<le> 32"
    and "add_chars ge a i s j cs d = (cs', d')"
  shows "char_map d' = char_map d @ char_entries (length (char_map d)) (map (\<lambda>c. (length (serv_map d), uuid_text (char_uuid c))) cs) \<and>
    serv_map d' = serv_map d \<and> same_ends d d' \<and>
    map handle cs' = map snd (char_entries (length (char_map d)) (map (\<lambda>c. (length (serv_map d), uuid_text (char_uuid c))) cs))"
  using assms(2-)
proof (induction cs arbitrary: j d cs' d')
  case (Cons c cs)
  let ?u = "uuid_text (char_uuid c)" and ?h = "of_nat (length (char_map d) + length (serv_map d) * 10) :: u16"
  define d1 where "d1 = (act [Add_Characteristic a s ?u (property c)] d)\<lparr>char_map := char_map d @ [(?u, ?h)]\<rparr>"
  obtain t where t: "uuid_to_string True (char_uuid c) = Some t" using uuid_to_string_valid Cons.prems(1) by fastforce
  have "add_char ge a i s j c d = (c\<lparr>handle := ?h\<rparr>, d1)"
    using assms(1) Cons.prems(2) by (simp add: t add_char_def add_char_info_def no_failure_def Let_def MAX_CHARS_def d1_def)
  moreover obtain cs1 where r: "add_chars ge a i s (Suc j) cs d1 = (cs1, d')" "cs' = c\<lparr>handle := ?h\<rparr> # cs1"
    using calculation Cons.prems(3) by (auto simp: Let_def split: prod.splits)
  moreover have f: "char_map d1 = char_map d @ [(?u, ?h)]" "serv_map d1 = serv_map d" "same_ends d d1"
    by (simp_all add: d1_def same_ends_def)
  ultimately show ?case
    using Cons.IH [of d1 "Suc j" cs1 d'] Cons.prems(1,2) by (auto intro: same_ends_trans)
qed (simp add: same_ends_def)

lemma add_services_all:
  assumes "no_failure ge" "valid_services svs" "length (char_map d) + length (all_chars (length (serv_map d)) svs) \<le> 32"
    "length (serv_map d) + length svs \<le> 10" "add_services ge a i svs d = (svs', d')"
  shows "char_map d' = char_map d @ char_entries (length (char_map d)) (all_chars (length (serv_map d)) svs) \<and>
    serv_map d' = serv_map d @ serv_entries (length (serv_map d)) svs \<and> same_ends d d' \<and>
    concat (map (\<lambda>sv. map handle (p_char sv)) svs') = map snd (char_entries (length (char_map d)) (all_chars (length (serv_map d)) svs))"
  using assms(2-)
proof (induction svs arbitrary: i d svs' d')
  case (Cons sv svs)
  let ?u = "uuid_text (svc_uuid sv)" and ?cs = "map (\<lambda>c. (length (serv_map d), uuid_text (char_uuid c))) (p_char sv)"
  obtain cs d1 where c: "add_chars ge a i ?u 0 (p_char sv) (act [Add_Service a ?u] d) = (cs, d1)" by force
  have d1: "char_map d1 = char_map d @ char_entries (length (char_map d)) ?cs" "serv_map d1 = serv_map d" "same_ends d d1"
    "map handle cs = map snd (char_entries (length (char_map d)) ?cs)"
    using add_chars_all [OF assms(1) _ _ c] Cons.prems(1,2) by (auto simp: valid_services_def same_ends_def)
  define d2 where "d2 = d1\<lparr>serv_map := serv_map d1 @ [(?u, of_nat (length (serv_map d1)))]\<rparr>"
  obtain t where t: "uuid_to_string True (svc_uuid sv) = Some t" using uuid_to_string_valid Cons.prems(1) by (fastforce simp: valid_services_def)
  have "add_service ge a i sv d = (sv\<lparr>p_char := cs\<rparr>, d2)"
    using assms(1) Cons.prems(1,3) c d1(2) by (simp add: t add_service_def add_serv_info_def no_failure_def valid_services_def Let_def MAX_SERVS_def d2_def)
  then obtain r where r: "add_services ge a (Suc i) svs d2 = (r, d')" "svs' = sv\<lparr>p_char := cs\<rparr> # r"
    using Cons.prems(4) by (auto simp: Let_def split: prod.splits)
  have d2: "char_map d2 = char_map d1" "serv_map d2 = serv_map d @ [(?u, of_nat (length (serv_map d)))]" "same_ends d1 d2"
    using d1(2) by (simp_all add: d2_def same_ends_def)
  show ?case
    using Cons.IH [OF _ _ _ r(1)] Cons.prems(1-3) d1 d2 r(2) same_ends_trans [of d d1 d2] same_ends_trans [of d d2 d']
    by (simp add: valid_services_def add.assoc)
qed (simp add: same_ends_def)

section \<open>Notifications\<close>

lemma all_chars_services: "(s, t) \<in> set (all_chars k svs) \<Longrightarrow> k \<le> s \<and> s < k + length svs"
  by (induction svs arbitrary: k) fastforce+

lemma all_chars_sorted: "sorted (map fst (all_chars k svs))"
proof (induction svs arbitrary: k)
  case (Cons sv svs)
  have "sorted (map fst (map (\<lambda>c. (k, uuid_text (char_uuid c))) cs))" for cs :: "TKL_BLE_CHAR_PARAMS_T list"
    by (induction cs) auto
  moreover have "k \<le> fst x" if "x \<in> set (all_chars (Suc k) svs)" for x
    using all_chars_services [of "fst x" "snd x" "Suc k" svs] that by simp
  ultimately show ?case using Cons by (auto simp: sorted_append)
qed simp

lemma char_entries_nth: "c < length xs \<Longrightarrow> char_entries k xs ! c = (snd (xs ! c), of_nat (k + c + fst (xs ! c) * 10))"
  by (simp add: char_entries_def nth_enumerate_eq case_prod_beta)

lemma serv_entries_nth: "i < length svs \<Longrightarrow> serv_entries k svs ! i = (uuid_text (svc_uuid (svs ! i)), of_nat (k + i))"
  by (simp add: serv_entries_def nth_enumerate_eq)

lemma unat_of_nat_u16: "m < 65536 \<Longrightarrow> unat (of_nat m :: u16) = m"
  by (rule of_nat_inverse) simp_all

lemma of_nat_u16_inj: "m < 65536 \<Longrightarrow> n < 65536 \<Longrightarrow> (of_nat m :: u16) = of_nat n \<longleftrightarrow> m = n"
  by (metis unat_of_nat_u16)

lemma of_nat_u16_div10: "m < 65536 \<Longrightarrow> (of_nat m :: u16) div 10 = of_nat (m div 10)"
  by (simp add: word_eq_unat unat_div unat_of_nat_u16)

lemma find_first:
  assumes "c < length xs" "P (xs ! c)" "\<And>c'. c' < c \<Longrightarrow> \<not> P (xs ! c')"
  shows "find P xs = Some (xs ! c)"
  using assms by (auto simp: find_Some_iff)

text \<open>
  Where a notification goes: the characteristic at position \<open>c\<close> among all, in service \<open>s\<close>, has the handle \<open>c + 10 s\<close>,
  and the service is looked up under a tenth of it.
\<close>

lemma notify_goes:
  assumes "no_failure ge" "ge_app ge = Some a" "valid_services svs" "length (all_chars 0 svs) \<le> 32" "length svs \<le> 10"
    and "bluez_inc_add_gatt ge svs bt_start = (svs', d)" "c < length (all_chars 0 svs)" "all_chars 0 svs ! c = (s, t)"
    and "h = concat (map (\<lambda>sv. map handle (p_char sv)) svs') ! c"
  shows "h = of_nat (c + 10 * s) \<and> s < length svs \<and> bluez_inc_gatt_value_notify conn h data d =
    (if s + c div 10 < length svs then (0, act [Notify (Some a) (uuid_text (svc_uuid (svs ! (s + c div 10)))) t data] d) else (-2, d))"
proof -
  let ?d0 = "bt_start\<lparr>app := Some a\<rparr>"
  obtain d1 where r: "add_services ge a 0 svs ?d0 = (svs', d1)" and d: "d = act (char_cbs a @ [Register_Application (default_adapter d1) a]) d1"
    using assms(2,6) by (auto simp: bluez_inc_add_gatt_def Let_def split: prod.splits)
  have m: "char_map d = char_entries 0 (all_chars 0 svs)" "serv_map d = serv_entries 0 svs" "app d = Some a"
    "concat (map (\<lambda>sv. map handle (p_char sv)) svs') = map snd (char_entries 0 (all_chars 0 svs))"
    using add_services_all [OF assms(1,3) _ _ r] assms(4,5) d by (simp_all add: bt_start_def same_ends_def)
  have sl: "s < length svs" using all_chars_services [of s t 0 svs] assms(7,8) by (metis add_0 nth_mem)
  have h: "h = of_nat (c + s * 10)" using assms(7,8,9) m(4) by (simp add: char_entries_nth)
  have mono: "c' + fst (all_chars 0 svs ! c') * 10 < c + s * 10" if "c' < c" for c'
    using sorted_nth_mono [OF all_chars_sorted, of c' c 0 svs] that assms(7,8) by simp
  have small: "c + s * 10 < 65536" using assms(4,5,7) sl by simp
  have "find (\<lambda>e. snd e = h) (char_map d) = Some (char_map d ! c)"
  proof (rule find_first)
    show "\<not> snd (char_map d ! c') = h" if "c' < c" for c'
      using mono [OF that] small that assms(7) unfolding m(1) h
      by (simp add: char_entries_nth of_nat_u16_inj del: of_nat_add of_nat_mult)
  qed (use assms(7,8) in \<open>simp_all add: m(1) h char_entries_nth\<close>)
  then have cu: "get_char_uuid_by_char_index h d = Some t"
    using assms(7,8) by (simp add: get_char_uuid_by_char_index_def m(1) char_entries_nth)
  have hd: "h div 10 = of_nat (s + c div 10)"
    using of_nat_u16_div10 [OF small] by (simp add: h add.commute del: of_nat_add of_nat_mult)
  have su: "get_serv_uuid_by_char_index h d =
      (if s + c div 10 < length svs then Some (uuid_text (svc_uuid (svs ! (s + c div 10)))) else None)"
  proof (cases "s + c div 10 < length svs")
    case True
    have "find (\<lambda>e. snd e = h div 10) (serv_map d) = Some (serv_map d ! (s + c div 10))"
      using True assms(5) unfolding m(2) hd
      by (intro find_first) (simp_all add: serv_entries_nth of_nat_u16_inj del: of_nat_add of_nat_mult)
    then show ?thesis using True by (simp add: get_serv_uuid_by_char_index_def m(2) serv_entries_nth)
  next
    case False
    have "find (\<lambda>e. snd e = h div 10) (serv_map d) = None"
      unfolding find_None_iff m(2) hd using False small assms(5)
      by (auto simp: in_set_conv_nth serv_entries_nth of_nat_u16_inj simp del: of_nat_add of_nat_mult)
    then show ?thesis using False by (simp add: get_serv_uuid_by_char_index_def)
  qed
  show ?thesis using h sl cu su m(3) by (simp add: bluez_inc_gatt_value_notify_def mult.commute)
qed

section \<open>Structures of advertising data\<close>

text \<open>
  The structures of the Bluetooth specification that the reader knows, and any other, with their encoding: length, type
  and payload.  Lists of services are complete or not, names are complete or shortened.
\<close>

datatype ad =
    AD_Flags u8
  | AD_Services bool "u16 list"
  | AD_Name bool bytes
  | AD_Manufacturer u16 bytes
  | AD_Service_Data u16 bytes
  | AD_Appearance u16
  | AD_Other u8 bytes

definition put16 :: "u16 \<Rightarrow> bytes" where
  "put16 w = [of_nat (unat w mod 256), of_nat (unat w div 256)]"

fun ad_type_of :: "ad \<Rightarrow> u8" where
  "ad_type_of (AD_Flags f) = 0x01"
| "ad_type_of (AD_Services complete us) = (if complete then 0x03 else 0x02)"
| "ad_type_of (AD_Name complete n) = (if complete then 0x09 else 0x08)"
| "ad_type_of (AD_Manufacturer m b) = 0xFF"
| "ad_type_of (AD_Service_Data u b) = 0x16"
| "ad_type_of (AD_Appearance a) = 0x19"
| "ad_type_of (AD_Other t b) = t"

fun ad_payload :: "ad \<Rightarrow> bytes" where
  "ad_payload (AD_Flags f) = [f]"
| "ad_payload (AD_Services complete us) = concat (map put16 us)"
| "ad_payload (AD_Name complete n) = n"
| "ad_payload (AD_Manufacturer m b) = put16 m @ b"
| "ad_payload (AD_Service_Data u b) = put16 u @ b"
| "ad_payload (AD_Appearance a) = put16 a"
| "ad_payload (AD_Other t b) = b"

definition ad_bytes :: "ad \<Rightarrow> bytes" where
  "ad_bytes x = of_nat (length (ad_payload x) + 1) # ad_type_of x # ad_payload x"

definition ad_ok :: "ad \<Rightarrow> bool" where
  "ad_ok x \<longleftrightarrow> length (ad_payload x) \<le> 254 \<and>
     (case x of AD_Other t b \<Rightarrow> t \<notin> {0x01, 0x02, 0x03, 0x08, 0x09, 0xFF, 0x16, 0x19} | _ \<Rightarrow> True)"

text \<open>What the reader does with each structure.\<close>

fun ad_apply :: "ad \<Rightarrow> ad_state \<Rightarrow> ad_state" where
  "ad_apply (AD_Flags f) st = st\<lparr>ad_calls := ad_calls st @ [Discoverable (f AND 2 \<noteq> 0)]\<rparr>"
| "ad_apply (AD_Services complete us) st = st\<lparr>service_uuids_list := service_uuids_list st @ map uuid16_text us\<rparr>"
| "ad_apply (AD_Name complete n) st = (if local_name st = None then st\<lparr>local_name := Some (takeWhile (\<lambda>b. b \<noteq> 0) n)\<rparr> else st)"
| "ad_apply (AD_Manufacturer m b) st = st\<lparr>ad_calls := ad_calls st @ [Manufacturer m b]\<rparr>"
| "ad_apply (AD_Service_Data u b) st = st\<lparr>temp_service_data := ht_insert (uuid16_text u) b (temp_service_data st)\<rparr>"
| "ad_apply (AD_Appearance a) st = st\<lparr>ad_calls := ad_calls st @ [Appearance a]\<rparr>"
| "ad_apply (AD_Other t b) st = st"

lemma length_put16 [simp]: "length (put16 w) = 2"
  by (simp add: put16_def)

lemma unat_of_small_u8: "n < 256 \<Longrightarrow> unat (of_nat n :: u8) = n"
  by (rule of_nat_inverse) simp_all

lemma le16_put16: "le16 (of_nat (unat w mod 256)) (of_nat (unat w div 256)) = (w :: u16)"
proof -
  have "unat w < 65536" using unsigned_less [of w, where 'a = nat] by simp
  then have "unat w div 256 < 256" by simp
  then show ?thesis by (simp add: le16_def unat_of_small_u8 del: of_nat_add of_nat_mult)
qed

text \<open>A part of the buffer.\<close>

lemma read_part: "i < length p \<Longrightarrow> read_at (pre @ p @ post) (length pre + i) = Some (p ! i)"
  by (simp add: read_at_def nth_append)

lemma slice_part: "slice (pre @ p @ q @ post) (length pre + length p) (length q) = q"
  by (simp add: slice_def)

lemma read16_part: "read16 (pre @ put16 w @ post) (length pre) = Some w"
  using read_part [of 0 "put16 w" pre post] read_part [of 1 "put16 w" pre post] le16_put16 [of w]
  by (simp add: read16_def put16_def)

lemma uuid_loop_part:
  "uuid_loop (pre @ concat (map put16 vs) @ concat (map put16 us) @ post) (length pre) (2 * length vs) (2 * (length vs + length us)) acc =
     Some (acc @ map uuid16_text us)"
proof (induction us arbitrary: vs acc)
  case (Cons u us)
  have len: "length (concat (map put16 vs)) = 2 * length vs" by (induction vs) simp_all
  have "read16 (pre @ concat (map put16 vs) @ concat (map put16 (u # us)) @ post) (length pre + 2 * length vs) = Some u"
    using read16_part [of "pre @ concat (map put16 vs)" u "concat (map put16 us) @ post"] len by simp
  moreover have "uuid_loop (pre @ concat (map put16 vs) @ concat (map put16 (u # us)) @ post) (length pre) (2 * length vs + 2)
      (2 * (length vs + length (u # us))) (acc @ [uuid16_text u]) = Some (acc @ map uuid16_text (u # us))"
    using Cons.IH [of "vs @ [u]" "acc @ [uuid16_text u]"] by simp
  ultimately show ?case by (subst uuid_loop.simps) simp
qed (subst uuid_loop.simps, simp)

lemma ad_one_part:
  assumes "ad_ok x"
  shows "ad_one (pre @ ad_payload x @ post) (length pre) (length (ad_payload x)) (ad_type_of x) st = Some (ad_apply x st)"
proof (cases x)
  case (AD_Flags f)
  then show ?thesis using read_part [of 0 "[f]" pre post] by (simp add: ad_one_def)
next
  case (AD_Services complete us)
  have "length (concat (map put16 us)) = 2 * length us" by (induction us) simp_all
  then show ?thesis using AD_Services uuid_loop_part [of pre "[]" us post "service_uuids_list st"] by (simp add: ad_one_def)
next
  case (AD_Name complete n)
  then show ?thesis using slice_part [of pre "[]" n post] by (simp add: ad_one_def)
next
  case (AD_Manufacturer m b)
  then show ?thesis using read16_part [of pre m "b @ post"] slice_part [of pre "put16 m" b post] by (simp add: ad_one_def)
next
  case (AD_Service_Data u b)
  then show ?thesis using read16_part [of pre u "b @ post"] slice_part [of pre "put16 u" b post] by (simp add: ad_one_def)
next
  case (AD_Appearance a)
  then show ?thesis using read16_part [of pre a post] by (simp add: ad_one_def)
next
  case (AD_Other t b)
  then show ?thesis using assms by (simp add: ad_one_def ad_ok_def)
qed

lemma ad_loop_reads:
  assumes "\<forall>x \<in> set xs. ad_ok x" "rest = [] \<or> hd rest = 0"
  shows "ad_loop (pre @ concat (map ad_bytes xs) @ rest) (length pre) (length (concat (map ad_bytes xs) @ rest)) st =
    Some (fold ad_apply xs st)"
  using assms(1)
proof (induction xs arbitrary: pre st)
  case Nil
  show ?case
  proof (cases rest)
    case (Cons r rs)
    then show ?thesis using assms(2) read_part [of 0 rest pre "[]"] by (subst ad_loop.simps) simp
  qed (subst ad_loop.simps, simp)
next
  case (Cons x xs)
  let ?n = "length (ad_payload x)" and ?tl = "concat (map ad_bytes xs) @ rest"
  let ?buf = "pre @ concat (map ad_bytes (x # xs)) @ rest"
  have ok: "ad_ok x" "?n \<le> 254" using Cons.prems by (auto simp: ad_ok_def)
  have buf: "?buf = pre @ ad_bytes x @ ?tl" "?buf = (pre @ [of_nat (?n + 1), ad_type_of x]) @ ad_payload x @ ?tl"
    by (simp_all add: ad_bytes_def)
  have len_x: "length (ad_bytes x) = ?n + 2" by (simp add: ad_bytes_def)
  have len: "unat (of_nat (?n + 1) :: u8) = ?n + 1" using ok(2) by (intro unat_of_small_u8) simp
  have hd0: "read_at ?buf (length pre) = Some (of_nat (?n + 1))" "read_at ?buf (length pre + 1) = Some (ad_type_of x)"
    unfolding buf(1) using read_part [of 0 "ad_bytes x" pre ?tl] read_part [of 1 "ad_bytes x" pre ?tl] by (simp_all add: ad_bytes_def)
  have one: "ad_one ?buf (length pre + 2) ?n (ad_type_of x) st = Some (ad_apply x st)"
    unfolding buf(2) using ad_one_part [OF ok(1), of "pre @ [of_nat (?n + 1), ad_type_of x]" ?tl st] by simp
  have rest: "ad_loop ?buf (length pre + ?n + 2) (length ?tl) (ad_apply x st) = Some (fold ad_apply xs (ad_apply x st))"
    using Cons.IH [of "pre @ ad_bytes x" "ad_apply x st"] Cons.prems by (simp add: len_x)
  have nz: "(of_nat (?n + 1) :: u8) \<noteq> 0" using len by (metis add_is_0 one_neq_zero unat_0)
  have total: "length (concat (map ad_bytes (x # xs)) @ rest) = ?n + 2 + length ?tl" by (simp add: ad_bytes_def)
  show ?case unfolding total using hd0 one rest nz len
    by (subst ad_loop.simps) (simp del: of_nat_add of_nat_Suc)
qed

section \<open>The meaning of advertising data\<close>

text \<open>The identifier of 128 bits for one of 16 bits.\<close>

definition base_uuid :: "u16 \<Rightarrow> string" where
  "base_uuid u = ''0000'' @ hex_text 4 (unat u) @ ''-0000-1000-8000-00805f9b34fb''"

fun ad_now :: "ad \<Rightarrow> ad_call list" where
  "ad_now (AD_Flags f) = [Discoverable (bit f 1)]"
| "ad_now (AD_Manufacturer m b) = [Manufacturer m b]"
| "ad_now (AD_Appearance a) = [Appearance a]"
| "ad_now x = []"

fun ad_names :: "ad \<Rightarrow> bytes list" where
  "ad_names (AD_Name complete n) = [takeWhile (\<lambda>b. b \<noteq> 0) n]"
| "ad_names x = []"

fun ad_services :: "ad \<Rightarrow> string list" where
  "ad_services (AD_Services complete us) = map base_uuid us"
| "ad_services x = []"

fun ad_service_data :: "ad \<Rightarrow> (string \<times> bytes) list" where
  "ad_service_data (AD_Service_Data u b) = [(base_uuid u, b)]"
| "ad_service_data x = []"

text \<open>The keys in the order of their first occurrence, each with its last value.\<close>

definition last_values :: "(string \<times> bytes) list \<Rightarrow> (string \<times> bytes) list" where
  "last_values ps = map (\<lambda>k. (k, the (map_of (rev ps) k))) (rev (remdups (rev (map fst ps))))"

definition ad_meaning :: "ad list \<Rightarrow> ad_call list" where
  "ad_meaning xs =
     concat (map ad_now xs) @
     map Local_Name (take 1 (concat (map ad_names xs))) @
     (let us = concat (map ad_services xs) in if us = [] then [] else [Services us]) @
     map (\<lambda>(k, v). Service_Data k v) (last_values (concat (map ad_service_data xs)))"

lemma uuid16_text_base: "uuid16_text u = base_uuid u"
proof -
  have "length (hex_text k n) = k" for k n by (induction k arbitrary: n) simp_all
  then show ?thesis by (simp add: uuid16_text_def base_uuid_def snprintf_def uuid_base_def)
qed

lemma flag_bit: "f AND 2 \<noteq> 0 \<longleftrightarrow> bit f 1" for f :: u8
  using and_exp_eq_0_iff_not_bit [of f 1] by simp

lemma ht_insert_map:
  "distinct ks \<Longrightarrow> ht_insert k v (map (\<lambda>k. (k, f k)) ks) =
     map (\<lambda>x. (x, (f(k := v)) x)) (if k \<in> set ks then ks else ks @ [k])"
  by (induction ks) auto

lemma last_values_snoc: "last_values (ps @ [(k, v)]) = ht_insert k v (last_values ps)"
proof -
  let ?ks = "rev (remdups (rev (map fst ps)))"
  have f: "(\<lambda>k'. the (map_of (rev (ps @ [(k, v)])) k')) = (\<lambda>k'. the (map_of (rev ps) k'))(k := v)" by auto
  have ks: "rev (remdups (rev (map fst (ps @ [(k, v)])))) = (if k \<in> set ?ks then ?ks else ?ks @ [k])" by auto
  have "distinct ?ks" by simp
  from ht_insert_map [OF this, of k v "\<lambda>k'. the (map_of (rev ps) k')"] show ?thesis
    unfolding last_values_def ks f by simp
qed

text \<open>The state of the reader after some structures.\<close>

lemma ad_state_meaning:
  "fold ad_apply xs ad_start =
     \<lparr> ad_calls = concat (map ad_now xs), service_uuids_list = concat (map ad_services xs),
       local_name = (case concat (map ad_names xs) of [] \<Rightarrow> None | n # _ \<Rightarrow> Some n),
       temp_service_data = last_values (concat (map ad_service_data xs)) \<rparr>"
proof (induction xs rule: rev_induct)
  case Nil
  then show ?case by (simp add: ad_start_def last_values_def)
next
  case (snoc x xs)
  define ns where "ns = concat (map ad_names xs)"
  have "fold ad_apply (xs @ [x]) ad_start =
      ad_apply x \<lparr> ad_calls = concat (map ad_now xs), service_uuids_list = concat (map ad_services xs),
        local_name = (case ns of [] \<Rightarrow> None | n # _ \<Rightarrow> Some n), temp_service_data = last_values (concat (map ad_service_data xs)) \<rparr>"
    using snoc by (simp add: ns_def)
  also have "\<dots> = \<lparr> ad_calls = concat (map ad_now xs) @ ad_now x, service_uuids_list = concat (map ad_services xs) @ ad_services x,
        local_name = (case ns @ ad_names x of [] \<Rightarrow> None | n # _ \<Rightarrow> Some n),
        temp_service_data = last_values (concat (map ad_service_data xs) @ ad_service_data x) \<rparr>"
    by (cases x; cases ns) (simp_all add: flag_bit uuid16_text_base last_values_snoc)
  finally show ?case by (simp add: ns_def)
qed

lemma ad_final_meaning: "ad_final (fold ad_apply xs ad_start) = ad_meaning xs"
  unfolding ad_state_meaning ad_final_def ad_meaning_def by (auto simp: Let_def split: list.split)

section \<open>Properties\<close>

text \<open>
  C30: Reading back advertising data: if the buffer holds well-formed structures (flags, complete or incomplete lists
  of 16-bit services, complete or shortened names, manufacturer and service data, appearance, and others, whose
  types are none of these), followed by nothing or by zero padding, the settings made on the advertisement are exactly these:
  for every flags structure whether the device is discoverable, manufacturer data and appearance, in the order of the
  structures; then the first name, up to a zero byte; then one list with all services, if there are any; then the
  last data of every service with service data.  Identifiers are written as 128-bit ones.  Nothing outside the
  buffer is read.
\<close>

theorem adv_data_read_back:
  assumes "\<forall>x \<in> set xs. ad_ok x" "rest = [] \<or> hd rest = 0" "len \<noteq> 0" "unat len = length (concat (map ad_bytes xs) @ rest)"
  shows "parse_and_update_adv_data adv (Some (len, Some (concat (map ad_bytes xs) @ rest))) d =
    Some (d\<lparr>acts := acts d @ map (Adv_Set adv) (ad_meaning xs)\<rparr>)"
  using ad_loop_reads [OF assms(1,2), of "[]" ad_start] assms(3,4) ad_final_meaning
  by (simp add: parse_and_update_adv_data_def act_def)

text \<open>
  C31: Among the first ten characteristics of all services, a notification under the handle that the application
  was given goes to the characteristic and the service it was given for.
\<close>

theorem gatt_notify_routes:
  assumes "no_failure ge" "ge_app ge = Some a" "valid_services svs" "length (all_chars 0 svs) \<le> 32" "length svs \<le> 10"
    and "bluez_inc_add_gatt ge svs bt_start = (svs', d)" "c < length (all_chars 0 svs)" "all_chars 0 svs ! c = (s, t)" "c < 10"
  shows "bluez_inc_gatt_value_notify conn (concat (map (\<lambda>sv. map handle (p_char sv)) svs') ! c) data d =
    (0, d\<lparr>acts := acts d @ [Notify (Some a) (uuid_text (svc_uuid (svs ! s))) t data]\<rparr>)"
  using notify_goes [OF assms(1-8) refl, of conn data, THEN conjunct2] assms(9) by (simp add: act_def)

text \<open>
  From the eleventh characteristic on, a notification goes to another service, or is refused: the handle
  \<open>c + 10 s\<close> is taken for the service \<open>s + c div 10\<close>.
\<close>

theorem gatt_notify_wrong_service:
  assumes "no_failure ge" "ge_app ge = Some a" "valid_services svs" "length (all_chars 0 svs) \<le> 32" "length svs \<le> 10"
    and "bluez_inc_add_gatt ge svs bt_start = (svs', d)" "c < length (all_chars 0 svs)" "all_chars 0 svs ! c = (s, t)" "10 \<le> c"
  shows "bluez_inc_gatt_value_notify conn (concat (map (\<lambda>sv. map handle (p_char sv)) svs') ! c) data d =
      (if s + c div 10 < length svs
       then (0, d\<lparr>acts := acts d @ [Notify (Some a) (uuid_text (svc_uuid (svs ! (s + c div 10)))) t data]\<rparr>) else (-2, d)) \<and>
    s + c div 10 \<noteq> s"
  using notify_goes [OF assms(1-8) refl, of conn data, THEN conjunct2] assms(9) by (simp add: act_def div_greater_zero_iff)

text \<open>
  The text of a 32-bit identifier is never an identifier: with four zeros in front of its eight digits it has 40
  characters, of which the array holds 39, and its first dash comes after 12 digits instead of 8.
\<close>

theorem uuid32_text_malformed:
  "\<exists>t. uuid_to_string True (TKL_BLE_UUID_TYPE_32 w) = Some t \<and> length t = 39 \<and> take 4 t = ''0000'' \<and>
     CHR ''-'' \<notin> set (take 12 t) \<and> t ! 12 = CHR ''-''"
proof -
  have len: "length (hex_text k n) = k" for k n by (induction k arbitrary: n) simp_all
  have dash: "CHR ''-'' \<notin> set (hex_text k n)" for k n
  proof (induction k arbitrary: n)
    case (Suc k)
    then show ?case using hex_char_facts(4) [of "n mod 16"] by auto
  qed simp
  show ?thesis using len [of 8 "unat w"] dash [of 8 "unat w"]
    by (simp add: uuid_to_string_def snprintf_def uuid_base_def nth_append)
qed

text \<open>Concrete services: two with six characteristics each.\<close>

definition demo_svc :: "u16 \<Rightarrow> u16 list \<Rightarrow> TKL_BLE_SERVICE_PARAMS_T" where
  "demo_svc u cs = \<lparr> svc_uuid = TKL_BLE_UUID_TYPE_16 u,
     p_char = map (\<lambda>c. \<lparr> handle = 0, char_uuid = TKL_BLE_UUID_TYPE_16 c, property = 0x10 \<rparr>) cs \<rparr>"

definition demo_svcs :: "TKL_BLE_SERVICE_PARAMS_T list" where
  "demo_svcs = [demo_svc 0xFD50 [1, 2, 3, 4, 5, 6], demo_svc 0x1910 [7, 8, 9, 10, 11, 12]]"

definition demo_env :: gatt_env where
  "demo_env = \<lparr> ge_app = Some 7, ge_mem_s = (\<lambda>i. True), ge_add_s = (\<lambda>i. 0), ge_mem_c = (\<lambda>i j. True), ge_add_c = (\<lambda>i j. 0) \<rparr>"

lemma demo_env_ok: "no_failure demo_env" "ge_app demo_env = Some 7"
  by (simp_all add: no_failure_def demo_env_def)

lemma demo_svcs_ok:
  "valid_services demo_svcs" "length (all_chars 0 demo_svcs) = 12" "length demo_svcs = 2"
  "all_chars 0 demo_svcs ! 9 = (1, ''0000000a-0000-1000-8000-00805f9b34fb'')" "all_chars 0 demo_svcs ! 10 = (1, ''0000000b-0000-1000-8000-00805f9b34fb'')"
  by code_simp+

theorem adv_data_read_back_witness:
  "parse_and_update_adv_data 3 (Some (13, Some (concat (map ad_bytes [AD_Flags 6, AD_Services True [0x0A], AD_Name False [0x68, 0x69]]) @ [0, 0]))) bt_start =
     Some (bt_start\<lparr>acts := [Adv_Set 3 (Discoverable True), Adv_Set 3 (Local_Name [0x68, 0x69]),
       Adv_Set 3 (Services [''0000000a-0000-1000-8000-00805f9b34fb''])]\<rparr>)"
proof -
  let ?xs = "[AD_Flags 6, AD_Services True [0x0A], AD_Name False [0x68, 0x69]]"
  have "\<forall>x \<in> set ?xs. ad_ok x" "[0, 0] = [] \<or> hd [0, 0 :: u8] = 0" "(13 :: u16) \<noteq> 0"
    "unat (13 :: u16) = length (concat (map ad_bytes ?xs) @ [0, 0])"
    by (simp_all add: ad_ok_def ad_bytes_def)
  note a = adv_data_read_back [OF this, of 3 bt_start]
  have "ad_meaning ?xs = [Discoverable True, Local_Name [0x68, 0x69], Services [''0000000a-0000-1000-8000-00805f9b34fb'']]" by code_simp
  then show ?thesis using a by (simp add: bt_start_def)
qed

theorem gatt_notify_routes_witness:
  "\<exists>svs' d. bluez_inc_add_gatt demo_env demo_svcs bt_start = (svs', d) \<and>
     fst (bluez_inc_gatt_value_notify 1 (concat (map (\<lambda>sv. map handle (p_char sv)) svs') ! 9) [0x55] d) = 0"
proof -
  obtain svs' d where r: "bluez_inc_add_gatt demo_env demo_svcs bt_start = (svs', d)" by force
  have "bluez_inc_gatt_value_notify 1 (concat (map (\<lambda>sv. map handle (p_char sv)) svs') ! 9) [0x55] d =
      (0, d\<lparr>acts := acts d @ [Notify (Some 7) (uuid_text (svc_uuid (demo_svcs ! 1))) ''0000000a-0000-1000-8000-00805f9b34fb'' [0x55]]\<rparr>)"
    by (rule gatt_notify_routes [OF demo_env_ok demo_svcs_ok(1) _ _ r]) (simp_all add: demo_svcs_ok)
  then show ?thesis using r by auto
qed

theorem gatt_notify_wrong_service_witness:
  "\<exists>svs' d. bluez_inc_add_gatt demo_env demo_svcs bt_start = (svs', d) \<and>
     bluez_inc_gatt_value_notify 1 (concat (map (\<lambda>sv. map handle (p_char sv)) svs') ! 10) [0x55] d = (-2, d)"
proof -
  obtain svs' d where r: "bluez_inc_add_gatt demo_env demo_svcs bt_start = (svs', d)" by force
  have b: "length (all_chars 0 demo_svcs) \<le> 32" "length demo_svcs \<le> 10" "10 < length (all_chars 0 demo_svcs)"
    by (simp_all add: demo_svcs_ok)
  have "bluez_inc_gatt_value_notify 1 (concat (map (\<lambda>sv. map handle (p_char sv)) svs') ! 10) [0x55] d = (-2, d)"
    using gatt_notify_wrong_service [OF demo_env_ok demo_svcs_ok(1) b(1,2) r b(3) demo_svcs_ok(5), of 1 "[0x55]"]
    by (simp add: demo_svcs_ok)
  then show ?thesis using r by blast
qed

end
