(* ===== verification/Tkl_Bluetooth.thy ===== *)
theory Tkl_Bluetooth
  imports Bt_Dbus
begin

text \<open>
  The Bluetooth interface of the adapter, \<open>tkl_bt/tkl_bluetooth.c\<close>, over the peripheral of \<open>Bt_Dbus\<close> and the
  advertising commands of \<open>tkl_bt/bt_hci_adv_api.c\<close>.  The controller is reached through \<open>hci_open_dev\<close>,
  \<open>hci_send_req\<close> and \<open>hci_close_dev\<close>; what the first two return is an argument, and the calls are recorded.
  \<open>None\<close> is a copy beyond the end of an array.
\<close>

section \<open>Commands to the controller\<close>

text \<open>The fields that the code sets: intervals, type and channels; on or off; length and the array of 31 bytes.\<close>

datatype hci_cmd =
    LE_Set_Advertising_Parameters u16 u16 u8 u8
  | LE_Set_Advertise_Enable bool
  | LE_Set_Advertising_Data u8 bytes
  | LE_Set_Scan_Response_Data u8 bytes

datatype hci_act = Hci_Open int | Hci_Send int hci_cmd | Hci_Close int

text \<open>What \<open>hci_open_dev\<close> and \<open>hci_send_req\<close> return.\<close>

type_synonym hci_env = "int \<times> int"

definition hci_request :: "hci_env \<Rightarrow> hci_cmd \<Rightarrow> hci_act list \<Rightarrow> OPERATE_RET \<times> hci_act list" where
  "hci_request e c lg =
     (if fst e < 0 then (OPRT_COM_ERROR, lg)
      else (if snd e \<noteq> 0 then OPRT_RECV_ERR else OPRT_OK, lg @ [Hci_Open (fst e), Hci_Send (fst e) c, Hci_Close (fst e)]))"

text \<open>The parameter \<open>advtype\<close> is overwritten.\<close>

definition tuya_hci_le_set_adv_params :: "hci_env \<Rightarrow> u16 \<Rightarrow> u16 \<Rightarrow> u8 \<Rightarrow> hci_act list \<Rightarrow> OPERATE_RET \<times> hci_act list" where
  "tuya_hci_le_set_adv_params e mn mx advtype = (let advtype = 1 in hci_request e (LE_Set_Advertising_Parameters mn mx advtype 7))"

definition tuya_hci_le_set_adv_enable :: "hci_env \<Rightarrow> bool \<Rightarrow> hci_act list \<Rightarrow> OPERATE_RET \<times> hci_act list" where
  "tuya_hci_le_set_adv_enable e enable = hci_request e (LE_Set_Advertise_Enable enable)"

text \<open>\<open>memcpy(data_cp.data, data, len)\<close> into the cleared array of 31 bytes.\<close>

definition copy31 :: "bytes \<Rightarrow> u8 \<Rightarrow> bytes option" where
  "copy31 data len =
     (if unat len \<le> 31 \<and> unat len \<le> length data then Some (memcpy_at (replicate 31 0) 0 data (unat len)) else None)"

definition set_data :: "(u8 \<Rightarrow> bytes \<Rightarrow> hci_cmd) \<Rightarrow> hci_env \<Rightarrow> byte_ptr \<Rightarrow> u8 \<Rightarrow> hci_act list \<Rightarrow> (OPERATE_RET \<times> hci_act list) option" where
  "set_data c e data len lg =
     (case data of
        None \<Rightarrow> Some (OPRT_INVALID_PARM, lg)
      | Some b \<Rightarrow>
          if len = 0 then Some (OPRT_INVALID_PARM, lg)
          else if fst e < 0 then Some (OPRT_COM_ERROR, lg)
          else map_option (\<lambda>arr. hci_request e (c len arr) lg) (copy31 b len))"

definition tuya_hci_le_set_adv_data :: "hci_env \<Rightarrow> byte_ptr \<Rightarrow> u8 \<Rightarrow> hci_act list \<Rightarrow> (OPERATE_RET \<times> hci_act list) option" where
  "tuya_hci_le_set_adv_data = set_data LE_Set_Advertising_Data"

definition tuya_hci_le_set_scan_rsp_data :: "hci_env \<Rightarrow> byte_ptr \<Rightarrow> u8 \<Rightarrow> hci_act list \<Rightarrow> (OPERATE_RET \<times> hci_act list) option" where
  "tuya_hci_le_set_scan_rsp_data = set_data LE_Set_Scan_Response_Data"

section \<open>The interface\<close>

record ble_dev =
  bt :: bt_dev
  tkl_gap_cb :: "nat option"
  tkl_gatt_cb :: "nat option"
  tuya_conn_handle :: u16
  sg_min_adv_interval :: u16
  sg_max_adv_interval :: u16
  hci :: "hci_act list"

definition ble_start :: ble_dev where
  "ble_start = \<lparr> bt = bt_start, tkl_gap_cb = None, tkl_gatt_cb = None, tuya_conn_handle = 0, sg_min_adv_interval = 0, sg_max_adv_interval = 0, hci = [] \<rparr>"

text \<open>What the library returns when the stack is initialised: adapter, power and main loop.\<close>

type_synonym stack_env = "nat option \<times> bool \<times> nat"

definition init_bt :: "stack_env \<Rightarrow> ble_dev \<Rightarrow> ble_dev" where
  "init_bt e s = (case e of (adapter, powered, lp) \<Rightarrow> s\<lparr>bt := bluez_inc_init adapter powered lp (tkl_gap_cb s) (tkl_gatt_cb s) (bt s)\<rparr>)"

definition tuya_gap_init_callback :: "ble_dev \<Rightarrow> ble_dev" where
  "tuya_gap_init_callback s =
     (case tkl_gap_cb s of None \<Rightarrow> s | Some f \<Rightarrow> s\<lparr>bt := act [Gap_Call f TKL_BLE_EVT_STACK_INIT (tuya_conn_handle s)] (bt s)\<rparr>)"

definition tkl_ble_stack_init :: "stack_env \<Rightarrow> u8 \<Rightarrow> ble_dev \<Rightarrow> OPERATE_RET \<times> ble_dev" where
  "tkl_ble_stack_init e role s = (OPRT_OK, tuya_gap_init_callback (init_bt e s))"

definition tkl_ble_stack_deinit :: "u8 \<Rightarrow> ble_dev \<Rightarrow> OPERATE_RET \<times> ble_dev" where
  "tkl_ble_stack_deinit role s = (OPRT_OK, s\<lparr>bt := bluez_inc_deinit (bt s)\<rparr>)"

definition tkl_ble_gap_callback_register :: "nat option \<Rightarrow> ble_dev \<Rightarrow> OPERATE_RET \<times> ble_dev" where
  "tkl_ble_gap_callback_register f s = (OPRT_OK, s\<lparr>tkl_gap_cb := f\<rparr>)"

definition tkl_ble_gatt_callback_register :: "nat option \<Rightarrow> ble_dev \<Rightarrow> OPERATE_RET \<times> ble_dev" where
  "tkl_ble_gatt_callback_register f s = (OPRT_OK, s\<lparr>tkl_gatt_cb := f\<rparr>)"

record TKL_BLE_GAP_ADV_PARAMS_T =
  adv_type :: u8
  adv_interval_min :: u16
  adv_interval_max :: u16
  adv_channel_map :: u8

definition tkl_ble_gap_adv_start :: "nat option \<Rightarrow> nat option \<Rightarrow> TKL_BLE_GAP_ADV_PARAMS_T \<Rightarrow> ble_dev \<Rightarrow> OPERATE_RET \<times> ble_dev" where
  "tkl_ble_gap_adv_start current created p s =
     (OPRT_OK, s\<lparr>sg_min_adv_interval := adv_interval_min p, sg_max_adv_interval := adv_interval_max p,
                  bt := bluez_inc_start_adv current created (bt s)\<rparr>)"

text \<open>Called by the library when advertising has started, with what its three commands meet.\<close>

definition binc_start_adv_success_cb :: "hci_env \<Rightarrow> hci_env \<Rightarrow> hci_env \<Rightarrow> ble_dev \<Rightarrow> ble_dev" where
  "binc_start_adv_success_cb e1 e2 e3 s =
     (let lg = snd (tuya_hci_le_set_adv_enable e1 False (hci s));
          lg = snd (tuya_hci_le_set_adv_params e2 (sg_min_adv_interval s) (sg_max_adv_interval s) 0 lg);
          lg = snd (tuya_hci_le_set_adv_enable e3 True lg)
      in s\<lparr>hci := lg\<rparr>)"

definition tkl_ble_gap_adv_stop :: "hci_env \<Rightarrow> ble_dev \<Rightarrow> OPERATE_RET \<times> ble_dev" where
  "tkl_ble_gap_adv_stop e s = (OPRT_OK, s\<lparr>hci := snd (tuya_hci_le_set_adv_enable e False (hci s))\<rparr>)"

text \<open>The length has 16 bits, the parameter it is passed to 8; the results are not looked at.\<close>

definition tkl_ble_gap_adv_rsp_data_set :: "hci_env \<Rightarrow> hci_env \<Rightarrow> TKL_BLE_DATA_T \<Rightarrow> TKL_BLE_DATA_T \<Rightarrow> ble_dev \<Rightarrow> (OPERATE_RET \<times> ble_dev) option" where
  "tkl_ble_gap_adv_rsp_data_set e1 e2 p_adv p_scan_rsp s = do {
     (_, lg) \<leftarrow> tuya_hci_le_set_adv_data e1 (snd p_adv) (ucast (fst p_adv)) (hci s);
     (_, lg) \<leftarrow> tuya_hci_le_set_scan_rsp_data e2 (snd p_scan_rsp) (ucast (fst p_scan_rsp)) lg;
     Some (OPRT_OK, s\<lparr>hci := lg\<rparr>) }"

definition tkl_ble_gap_adv_rsp_data_update :: "hci_env \<Rightarrow> hci_env \<Rightarrow> TKL_BLE_DATA_T \<Rightarrow> TKL_BLE_DATA_T \<Rightarrow> ble_dev \<Rightarrow> (OPERATE_RET \<times> ble_dev) option" where
  "tkl_ble_gap_adv_rsp_data_update e1 e2 p_adv p_scan_rsp s = do {
     (_, lg) \<leftarrow> tuya_hci_le_set_adv_data e1 (snd p_adv) (ucast (fst p_adv)) (hci s);
     (_, lg) \<leftarrow> tuya_hci_le_set_scan_rsp_data e2 (snd p_scan_rsp) (ucast (fst p_scan_rsp)) lg;
     Some (OPRT_OK, s\<lparr>hci := lg\<rparr>) }"

definition tkl_ble_gap_disconnect :: "u16 \<Rightarrow> u8 \<Rightarrow> ble_dev \<Rightarrow> OPERATE_RET \<times> ble_dev" where
  "tkl_ble_gap_disconnect conn_handle hci_reason s = (OPRT_OK, s\<lparr>bt := bluez_inc_disconnect (bt s)\<rparr>)"

definition tkl_ble_gatts_service_add ::
    "stack_env \<Rightarrow> gatt_env \<Rightarrow> TKL_BLE_SERVICE_PARAMS_T list \<Rightarrow> ble_dev \<Rightarrow> (OPERATE_RET \<times> TKL_BLE_SERVICE_PARAMS_T list) \<times> ble_dev" where
  "tkl_ble_gatts_service_add e ge svs s =
     (let s = init_bt e s; (svs', d) = bluez_inc_add_gatt ge svs (bt s) in ((OPRT_OK, svs'), s\<lparr>bt := d\<rparr>))"

definition tkl_ble_gatts_value_notify :: "u16 \<Rightarrow> u16 \<Rightarrow> bytes \<Rightarrow> ble_dev \<Rightarrow> int \<times> ble_dev" where
  "tkl_ble_gatts_value_notify conn_handle char_handle data s =
     (let (r, d) = bluez_inc_gatt_value_notify conn_handle char_handle data (bt s) in (r, s\<lparr>bt := d\<rparr>))"

section \<open>Sessions\<close>

text \<open>Calls of the application, and events of the library.\<close>

datatype ble_op =
    Stack_Init stack_env
  | Stack_Deinit
  | Register_Gap "nat option"
  | Register_Gatt "nat option"
  | Adv_Start "nat option" "nat option" TKL_BLE_GAP_ADV_PARAMS_T
  | Adv_Started hci_env hci_env hci_env
  | Adv_Stop hci_env
  | Adv_Data hci_env hci_env TKL_BLE_DATA_T TKL_BLE_DATA_T
  | Gap_Disconnect
  | Service_Add stack_env gatt_env "TKL_BLE_SERVICE_PARAMS_T list"
  | Value_Notify u16 u16 bytes
  | Central_State nat nat ConnectionState
  | Char_Read string string
  | Char_Write string bytes

definition on_bt :: "(bt_dev \<Rightarrow> bt_dev) \<Rightarrow> ble_dev \<Rightarrow> ble_dev" where
  "on_bt f s = s\<lparr>bt := f (bt s)\<rparr>"

fun ble_exec :: "ble_op \<Rightarrow> ble_dev \<Rightarrow> ble_dev option" where
  "ble_exec (Stack_Init e) s = Some (snd (tkl_ble_stack_init e 1 s))"
| "ble_exec Stack_Deinit s = Some (snd (tkl_ble_stack_deinit 1 s))"
| "ble_exec (Register_Gap f) s = Some (snd (tkl_ble_gap_callback_register f s))"
| "ble_exec (Register_Gatt f) s = Some (snd (tkl_ble_gatt_callback_register f s))"
| "ble_exec (Adv_Start c n p) s = Some (snd (tkl_ble_gap_adv_start c n p s))"
| "ble_exec (Adv_Started e1 e2 e3) s = Some (binc_start_adv_success_cb e1 e2 e3 s)"
| "ble_exec (Adv_Stop e) s = Some (snd (tkl_ble_gap_adv_stop e s))"
| "ble_exec (Adv_Data e1 e2 p q) s = map_option snd (tkl_ble_gap_adv_rsp_data_set e1 e2 p q s)"
| "ble_exec Gap_Disconnect s = Some (snd (tkl_ble_gap_disconnect 1 0x13 s))"
| "ble_exec (Service_Add e ge svs) s = Some (snd (tkl_ble_gatts_service_add e ge svs s))"
| "ble_exec (Value_Notify c h b) s = Some (snd (tkl_ble_gatts_value_notify c h b s))"
| "ble_exec (Central_State a v st) s = Some (on_bt (on_central_state_changed a v st) s)"
| "ble_exec (Char_Read u c) s = Some (on_bt (on_local_char_read u c) s)"
| "ble_exec (Char_Write c b) s = Some (on_bt (on_local_char_write c b) s)"

fun ble_run :: "ble_op list \<Rightarrow> ble_dev \<Rightarrow> ble_dev option" where
  "ble_run [] s = Some s"
| "ble_run (x # xs) s = Option.bind (ble_exec x s) (ble_run xs)"

text \<open>A property that every call and event keeps holds after every session.\<close>

locale ble_session =
  fixes good :: "ble_dev \<Rightarrow> bool"
  assumes step: "good s \<Longrightarrow> ble_exec x s = Some s' \<Longrightarrow> good s'"
begin

lemma run: "good s \<Longrightarrow> ble_run xs s = Some s' \<Longrightarrow> good s'"
  by (induction xs arbitrary: s) (auto simp: bind_eq_Some_conv dest: step)

end

section \<open>Devices of the controller\<close>

text \<open>The record of the controller: requests, each with its own opening and closing.\<close>

definition paired :: "hci_act list \<Rightarrow> bool" where
  "paired lg \<longleftrightarrow> (\<exists>rs. lg = concat (map (\<lambda>(d, c). [Hci_Open d, Hci_Send d c, Hci_Close d]) rs) \<and> (\<forall>(d, c) \<in> set rs. 0 \<le> d))"

lemma paired_Nil: "paired []"
  by (auto simp: paired_def intro!: exI [of _ "[]"])

lemma paired_request: "paired lg \<Longrightarrow> paired (snd (hci_request e c lg))"
  unfolding paired_def hci_request_def
  by (auto intro!: exI [of _ "_ @ [(fst e, c)]"])

lemma paired_set_data: "paired lg \<Longrightarrow> set_data c e b len lg = Some (r, lg') \<Longrightarrow> paired lg'"
  using paired_request [of lg e] by (auto simp: set_data_def split: option.splits if_splits) (metis snd_conv)

lemma hci_unchanged [simp]:
  "hci (init_bt e s) = hci s" "hci (tuya_gap_init_callback s) = hci s" "hci (on_bt f s) = hci s"
  by (simp_all add: init_bt_def tuya_gap_init_callback_def on_bt_def split: prod.splits option.splits)

lemmas ble_defs = tkl_ble_stack_init_def tkl_ble_stack_deinit_def tkl_ble_gap_callback_register_def tkl_ble_gatt_callback_register_def
  tkl_ble_gap_adv_start_def binc_start_adv_success_cb_def tkl_ble_gap_adv_stop_def tkl_ble_gap_adv_rsp_data_set_def tkl_ble_gap_disconnect_def
  tkl_ble_gatts_service_add_def tkl_ble_gatts_value_notify_def tuya_hci_le_set_adv_enable_def tuya_hci_le_set_adv_params_def
  tuya_hci_le_set_adv_data_def tuya_hci_le_set_scan_rsp_data_def

interpretation controller: ble_session "\<lambda>s. paired (hci s)"
proof
  fix s x s'
  assume "paired (hci s)" "ble_exec x s = Some s'"
  then show "paired (hci s')"
    by (cases x) (auto simp: ble_defs Let_def bind_eq_Some_conv intro!: paired_request intro: paired_set_data split: prod.splits)
qed

section \<open>Events\<close>

text \<open>Calls that report nothing of a connection to the application.\<close>

fun silent :: "bt_act \<Rightarrow> bool" where
  "silent (Gap_Call f t h) \<longleftrightarrow> t = TKL_BLE_EVT_STACK_INIT"
| "silent (Gatt_Call f t h b) \<longleftrightarrow> False"
| "silent _ \<longleftrightarrow> True"

definition quiet_ext :: "bt_dev \<Rightarrow> bt_dev \<Rightarrow> bool" where
  "quiet_ext d d' \<longleftrightarrow> gap_evt_cb d' = gap_evt_cb d \<and> gatt_evt_cb d' = gatt_evt_cb d \<and> is_bluez_inc_init d' = is_bluez_inc_init d \<and>
     (\<exists>as. acts d' = acts d @ as \<and> list_all silent as)"

lemma quiet_ext_refl: "quiet_ext d d"
  by (simp add: quiet_ext_def)

lemma quiet_ext_trans: "quiet_ext d d' \<Longrightarrow> quiet_ext d' d'' \<Longrightarrow> quiet_ext d d''"
  by (fastforce simp: quiet_ext_def)

lemma quiet_ext_act: "list_all silent as \<Longrightarrow> quiet_ext d (act as d)"
  by (auto simp: quiet_ext_def act_def)

lemma quiet_ext_fields:
  "quiet_ext d (d\<lparr>serv_map := x\<rparr>)" "quiet_ext d (d\<lparr>char_map := x\<rparr>)" "quiet_ext d (d\<lparr>app := y\<rparr>)" "quiet_ext d (d\<lparr>advertisement := y\<rparr>)"
  "quiet_ext d (d\<lparr>sg_device := y\<rparr>)"
  by (simp_all add: quiet_ext_def)

lemma quiet_add_char: "quiet_ext d (snd (add_char ge a i s j c d))"
proof (cases "uuid_to_string (ge_mem_c ge i j) (char_uuid c)")
  case (Some cs)
  let ?d = "act [Add_Characteristic a s cs (property c)] d"
  have "quiet_ext d ?d" by (rule quiet_ext_act) simp
  moreover have "quiet_ext ?d (snd (add_char_info cs ?d))" by (simp add: add_char_info_def quiet_ext_refl quiet_ext_fields Let_def)
  ultimately have "quiet_ext d (snd (add_char_info cs ?d))" by (rule quiet_ext_trans)
  then show ?thesis using Some \<open>quiet_ext d ?d\<close> by (auto simp: add_char_def Let_def split: prod.splits)
qed (simp add: add_char_def quiet_ext_refl)

lemma quiet_add_chars: "quiet_ext d (snd (add_chars ge a i s j cs d))"
proof (induction cs arbitrary: j d)
  case (Cons c cs)
  obtain c' d1 where c: "add_char ge a i s j c d = (c', d1)" by force
  have "quiet_ext d d1" using quiet_add_char [of d ge a i s j c] c by simp
  then have "quiet_ext d (snd (add_chars ge a i s (Suc j) cs d1))" using Cons.IH by (rule quiet_ext_trans)
  then show ?case using c by (auto simp: Let_def split: prod.splits)
qed (simp add: quiet_ext_refl)

lemma quiet_add_service: "quiet_ext d (snd (add_service ge a i sv d))"
proof (cases "uuid_to_string (ge_mem_s ge i) (svc_uuid sv)")
  case (Some u)
  let ?d = "act [Add_Service a u] d"
  obtain cs d1 where c: "add_chars ge a i u 0 (p_char sv) ?d = (cs, d1)" by force
  have "quiet_ext d ?d" by (rule quiet_ext_act) simp
  moreover have "quiet_ext ?d d1" using quiet_add_chars [of ?d ge a i u 0 "p_char sv"] c by simp
  moreover have "quiet_ext d1 (snd (add_serv_info u d1))" by (simp add: add_serv_info_def quiet_ext_refl quiet_ext_fields Let_def)
  ultimately have "quiet_ext d d1" "quiet_ext d (snd (add_serv_info u d1))" by (blast intro: quiet_ext_trans)+
  then show ?thesis using Some c \<open>quiet_ext d ?d\<close> by (auto simp: add_service_def Let_def split: prod.splits)
qed (simp add: add_service_def quiet_ext_refl)

lemma quiet_add_services: "quiet_ext d (snd (add_services ge a i svs d))"
proof (induction svs arbitrary: i d)
  case (Cons sv svs)
  obtain sv' d1 where c: "add_service ge a i sv d = (sv', d1)" by force
  have "quiet_ext d d1" using quiet_add_service [of d ge a i sv] c by simp
  then have "quiet_ext d (snd (add_services ge a (Suc i) svs d1))" using Cons.IH by (rule quiet_ext_trans)
  then show ?case using c by (auto simp: Let_def split: prod.splits)
qed (simp add: quiet_ext_refl)

lemma quiet_add_gatt: "quiet_ext d (snd (bluez_inc_add_gatt ge svs d))"
proof (cases "ge_app ge")
  case (Some a)
  let ?d = "d\<lparr>app := Some a\<rparr>"
  obtain svs' d1 where r: "add_services ge a 0 svs ?d = (svs', d1)" by force
  have "quiet_ext d ?d" by (rule quiet_ext_fields)
  moreover have "quiet_ext ?d d1" using quiet_add_services [of ?d ge a 0 svs] r by simp
  moreover have "quiet_ext d1 (act (char_cbs a @ [Register_Application (default_adapter d1) a]) d1)"
    by (rule quiet_ext_act) (simp add: char_cbs_def)
  ultimately show ?thesis using Some r by (auto simp: bluez_inc_add_gatt_def Let_def intro: quiet_ext_trans)
qed (simp add: bluez_inc_add_gatt_def quiet_ext_fields)

text \<open>The state after a start without callbacks: nothing about a connection is reported.\<close>

definition deaf :: "ble_dev \<Rightarrow> bool" where
  "deaf s \<longleftrightarrow> is_bluez_inc_init (bt s) \<and> gap_evt_cb (bt s) = None \<and> gatt_evt_cb (bt s) = None \<and> list_all silent (acts (bt s))"

lemma deaf_ext: "deaf s \<Longrightarrow> quiet_ext (bt s) (bt s') \<Longrightarrow> deaf s'"
  by (auto simp: deaf_def quiet_ext_def)

lemma deaf_init: "deaf s \<Longrightarrow> init_bt e s = s"
  by (cases e) (simp add: init_bt_def bluez_inc_init_def deaf_def)

lemma quiet_central: "gap_evt_cb d = None \<Longrightarrow> quiet_ext d (on_central_state_changed a v st d)"
  by (auto simp: on_central_state_changed_def gap_call_def quiet_ext_def act_def Let_def split: option.splits)

lemma quiet_char:
  "gatt_evt_cb d = None \<Longrightarrow> quiet_ext d (on_local_char_read u c d)" "gatt_evt_cb d = None \<Longrightarrow> quiet_ext d (on_local_char_write c b d)"
  by (auto simp: on_local_char_read_def on_local_char_write_def gatt_call_def quiet_ext_def act_def split: option.splits)

lemma quiet_bt:
  "quiet_ext d (bluez_inc_disconnect d)" "quiet_ext d (bluez_inc_start_adv c n d)" "quiet_ext d (snd (bluez_inc_gatt_value_notify ch h b d))"
  by (auto simp: bluez_inc_disconnect_def bluez_inc_start_adv_def get_adv_def bluez_inc_gatt_value_notify_def quiet_ext_def act_def Let_def
      split: option.splits)

interpretation late: ble_session deaf
proof
  fix s x s'
  assume d: "deaf s" and e: "ble_exec x s = Some s'"
  have cb: "gap_evt_cb (bt s) = None" "gatt_evt_cb (bt s) = None" using d by (simp_all add: deaf_def)
  have "quiet_ext (bt s) (bt s')"
  proof (cases x)
    case (Stack_Init v)
    then show ?thesis using e deaf_init [OF d]
      by (auto simp: ble_defs tuya_gap_init_callback_def quiet_ext_refl intro!: quiet_ext_act split: option.splits)
  next
    case (Service_Add v ge svs)
    then show ?thesis using e deaf_init [OF d, of v] quiet_add_gatt [of "bt s" ge svs] by (auto simp: ble_defs Let_def split: prod.splits)
  next
    case (Value_Notify c h b)
    then show ?thesis using e quiet_bt(3) [of "bt s" c h b] by (auto simp: ble_defs split: prod.splits)
  qed (use e cb in \<open>auto simp: ble_defs on_bt_def bluez_inc_deinit_def bind_eq_Some_conv quiet_ext_refl Let_def
         intro: quiet_central quiet_char quiet_bt split: prod.splits\<close>)
  then show "deaf s'" by (rule deaf_ext [OF d])
qed

section \<open>Properties\<close>

text \<open>
  In every session of calls and events, whatever the controller answers, the record of the controller is a sequence
  of requests that each open a device, send one command and close that device: no device is left open, closed twice or
  used after it was closed.
\<close>

theorem hci_devices_closed:
  assumes "ble_run ops ble_start = Some s"
  shows "\<exists>rs. hci s = concat (map (\<lambda>(d, c). [Hci_Open d, Hci_Send d c, Hci_Close d]) rs) \<and> (\<forall>(d, c) \<in> set rs. 0 \<le> d)"
  using controller.run [OF _ assms] paired_Nil by (simp add: ble_start_def paired_def)

text \<open>
  C32: If the application adds its services before it registers its callbacks, it never hears of a connection, a
  read or a write: adding services initialises the stack with the callbacks of that moment, none, and every later
  initialisation returns at once.  This holds for every sequence of calls and events that follows, registrations
  and \<open>tkl_ble_stack_init\<close> included.
\<close>

theorem ble_late_callbacks_lost:
  assumes "ble_run (Service_Add e ge svs # ops) ble_start = Some s"
  shows "\<forall>x \<in> set (acts (bt s)). (\<forall>f t h. x = Gap_Call f t h \<longrightarrow> t = TKL_BLE_EVT_STACK_INIT) \<and> (\<forall>f t h b. x \<noteq> Gatt_Call f t h b)"
proof -
  obtain adapter powered lp where e: "e = (adapter, powered, lp)" by (cases e)
  let ?s1 = "init_bt e ble_start"
  have "deaf ?s1" by (simp add: deaf_def init_bt_def bluez_inc_init_def ble_start_def bt_start_def e act_def Let_def split: option.splits)
  then have "deaf (snd (tkl_ble_gatts_service_add e ge svs ble_start))"
    using deaf_ext [of ?s1] quiet_add_gatt [of "bt ?s1" ge svs] by (auto simp: tkl_ble_gatts_service_add_def Let_def split: prod.splits)
  then have "deaf s" using late.run assms by simp
  then have "\<forall>x \<in> set (acts (bt s)). silent x" by (simp add: deaf_def list_all_iff)
  then show ?thesis by fastforce
qed

text \<open>
  Starting advertising with any parameters and any answers of a controller that opens: when the library reports
  that advertising has started, the controller is sent off, the parameters and on, in this order, with the intervals of the
  application, but always with type 1 and all channels, whatever type and channels the application asked for.
\<close>

theorem adv_start_parameters:
  assumes "0 \<le> fst e1" "0 \<le> fst e2" "0 \<le> fst e3"
  shows "map_option (\<lambda>s'. drop (length (hci s)) (hci s')) (ble_run [Adv_Start c n p, Adv_Started e1 e2 e3] s) =
    Some (concat (map (\<lambda>(d, c). [Hci_Open d, Hci_Send d c, Hci_Close d])
      [(fst e1, LE_Set_Advertise_Enable False),
       (fst e2, LE_Set_Advertising_Parameters (adv_interval_min p) (adv_interval_max p) 1 7),
       (fst e3, LE_Set_Advertise_Enable True)]))"
  using assms by (simp add: ble_defs hci_request_def Let_def)

text \<open>A session: services are added, callbacks registered, the stack initialised, and a central connects and writes.\<close>

definition demo_session :: "ble_op list" where
  "demo_session = [Service_Add (Some 1, True, 2) demo_env [], Register_Gap (Some 10), Register_Gatt (Some 11), Stack_Init (Some 1, True, 2),
     Central_State 1 5 BINC_CONNECTED, Char_Write ''2b10'' [1], Adv_Stop (3, 0)]"

definition demo_end :: ble_dev where
  "demo_end = the (ble_run demo_session ble_start)"

lemma demo_session_run: "ble_run demo_session ble_start = Some demo_end"
  by (simp add: demo_end_def demo_session_def ble_defs)

theorem hci_devices_closed_witness:
  "\<exists>rs. hci demo_end = concat (map (\<lambda>(d, c). [Hci_Open d, Hci_Send d c, Hci_Close d]) rs)"
  using hci_devices_closed [OF demo_session_run] by blast

theorem ble_late_callbacks_lost_witness:
  "Gatt_Call 11 TKL_BLE_GATT_EVT_WRITE_REQ 0xFFFF [1] \<notin> set (acts (bt demo_end)) \<and> Gap_Call 10 TKL_BLE_GAP_EVT_CONNECT 1 \<notin> set (acts (bt demo_end))"
  using ble_late_callbacks_lost [OF demo_session_run [unfolded demo_session_def]]
  by (auto simp: TKL_BLE_EVT_STACK_INIT_def TKL_BLE_GAP_EVT_CONNECT_def)

theorem adv_start_parameters_witness:
  "map_option (\<lambda>s'. length (hci s')) (ble_run [Adv_Start (Some 4) None \<lparr> adv_type = 0, adv_interval_min = 32, adv_interval_max = 64, adv_channel_map = 7 \<rparr>,
     Adv_Started (3, 0) (4, 0) (5, 0)] ble_start) = Some 9"
  using adv_start_parameters [of "(3, 0)" "(4, 0)" "(5, 0)" ble_start "Some 4" None
      "\<lparr> adv_type = 0, adv_interval_min = 32, adv_interval_max = 64, adv_channel_map = 7 \<rparr>"]
  by (auto simp: ble_start_def)

end
