(* ===== verification/Spec2Isabelle.thy ===== *)
theory Spec2Isabelle
  imports Tuya_Ringbuf Tkl_Memory Tuya_Queue Tuya_Hashmap Tuya_Tools Tkl_Queue Tkl_Pwm Tkl_Gpio Tkl_I2c Tkl_Spi
    Tkl_Flash Tkl_Ota Tuya_Smartpointer Tkl_Semaphore Tkl_Thread Tkl_System Tkl_Wired Tkl_Uart
    Wifi_Correct Tkl_Bluetooth
begin

text \<open>
  A verification library for the Linux port of TuyaOpen (\<open>src/tuyaos_adapter\<close>), the layer that gives
  the Tuya runtime its containers, its memory, its message queues and its peripherals on a Linux board.

  \<^bold>\<open>The program.\<close>  The utilities under \<open>include/utilities/src\<close> are plain data structures used by every
  other part: a byte ring buffer, a memory heap over one fixed area, doubly linked lists, a queue of
  items, hash chains and a hash map, and string and number helpers.  The adapter under \<open>src\<close> implements
  the \<open>tkl_\<close> interfaces: \<open>tkl_memory.c\<close> puts the system heap on the memory heap, \<open>tkl_queue.c\<close> passes
  messages between threads, and the drivers reach the hardware through system calls.

  \<^bold>\<open>Foundations.\<close>
  \<^item> \<open>Tuya_Prelude\<close>: machine integers, error codes, list and word lemmas, \<open>memcpy\<close>.
  \<^item> \<open>Byte_Memory\<close>: memory as a function from addresses to bytes, with the little-endian fields that
    the heap keeps in it.
  \<^item> \<open>Fifo_Spec\<close>, \<open>Allocator_Spec\<close>: the abstract contracts, as locales, of a byte stream and of an
    allocator (live regions are disjoint and keep their contents; what is released may be handed out
    again).  They are interpreted on the ring buffer and on the heap.
  \<^item> \<open>Posix_World\<close>: the kernel as a parameter that answers system calls, drivers as programs in the
    state monad over the world, a log of calls and the static variables of the driver, and a
    weakest-precondition calculus for them.
  \<^item> \<open>Fd_Ledger\<close>: the locales \<open>fd_owner\<close> and \<open>fd_driver\<close>, which account for file descriptors and for the
    mutex over any sequence of driver calls; interpreted on GPIO, PWM, I2C, SPI,
    the wired network and the wireless adapter.

  \<^bold>\<open>Components.\<close>
  \<^item> \<open>Tuya_Ringbuf\<close> (\<open>tuya_ringbuf.c\<close>): the record \<open>ringbuff\<close> and all operations.  Any session of writes
    and reads is a FIFO of bytes.
  \<^item> \<open>Tuya_Mem_Heap\<close> (\<open>tuya_mem_heap.c\<close>): block headers, free list and guard bytes in byte memory, all
    operations, 64-bit address arithmetic.  \<open>Mem_Heap_Layout\<close> states when memory is a row of blocks
    with a sorted free list, \<open>Mem_Heap_Steps\<close> follows the pointer writes of splitting, linking and
    merging, \<open>Mem_Heap_Correct\<close> shows that each operation keeps the layout, and \<open>Mem_Heap_Api\<close> holds the
    properties of the public functions.  The loops over the free list are partial functions into
    options, \<open>None\<close> meaning that they run forever; the layout shows that they return.
  \<^item> \<open>Tkl_Memory\<close> (\<open>tkl_memory.c\<close>): the system heap over the memory heap, initialised on first use.
  \<^item> \<open>Tuya_List\<close> (\<open>tuya_list.c\<close>), \<open>Tuya_Hlist\<close> (\<open>tuya_hlist.h\<close>): link fields as stores; the operations
    are those of lists on well-formed rings and chains, where traversals return.
  \<^item> \<open>Tuya_Queue\<close> (\<open>tuya_queue.c\<close>): items in heap blocks on a ring; any session is a bounded
    double-ended queue, whose mutex is locked and unlocked in turn, so that every lock taken is given back.
  \<^item> \<open>Crc32_Table\<close>, \<open>Tuya_Hashmap\<close> (\<open>tuya_hashmap.c\<close>): the CRC table is that of the polynomial; insertion,
    lookup, removal and the removal of a missing key.
  \<^item> \<open>Tuya_Tools\<close> (\<open>tuya_tools.c\<close>): hexadecimal and decimal conversions, comparison, sorting, bit counts.
  \<^item> \<open>Tkl_Queue\<close> (\<open>tkl_queue.c\<close>): posts and fetches cut at the condition wait, so that the steps of any
    number of threads interleave; the step relation \<open>tq_step\<close> and its reachable states.
  \<^item> \<open>Tkl_Pwm\<close>, \<open>Tkl_Gpio\<close>, \<open>Tkl_I2c\<close>, \<open>Tkl_Spi\<close> (\<open>tkl_pwm.c\<close>, \<open>tkl_gpio.c\<close>, \<open>tkl_i2c.c\<close>, \<open>tkl_spi.c\<close>): every
    function of each driver against an arbitrary kernel, every failing call included.
  \<^item> \<open>C_Stdio\<close>, \<open>Stdio_Laws\<close>: files and streams of the C library and POSIX (names, inodes, buffered
    streams, a limited disk, directories whose entries carry a type, loss of power), with the laws that their
    clients use;
    \<open>Tkl_Fs\<close> (\<open>tkl_fs.c\<close>): every function over them.
  \<^item> \<open>Byte_Device\<close>: the locale of a device that keeps what is written; \<open>Tkl_Flash\<close> (\<open>tkl_flash.c\<close>): the flash
    file, its creation and its partitions, an interpretation of that locale; \<open>Tkl_Ota\<close> (\<open>tkl_ota.c\<close>): the
    transfer of an upgrade image in packets.
  \<^item> \<open>Tkl_Mutex\<close> (\<open>tkl_mutex.c\<close>), \<open>Tuya_Smartpointer\<close> (\<open>tuya_smartpointer.c\<close>): mutexes of the kind
    their attribute asks for, recursive here, and the reference counter on them, with the single accesses of any number of threads interleaved (\<open>sp_step\<close>).
  \<^item> \<open>Tkl_Semaphore\<close> (\<open>tkl_semaphore.c\<close>): waits as loops that need not end; \<open>Tkl_Thread\<close> (\<open>tkl_thread.c\<close>):
    creation, start and release of threads as the step relation \<open>thr_step\<close>, which carries the calls asked
    for and the handle of each thread beside the state.
  \<^item> \<open>Tkl_System\<close> (\<open>tkl_system.c\<close>, \<open>tkl_rtc.c\<close>, \<open>tkl_watchdog.c\<close>, \<open>tkl_pinmux.c\<close>, \<open>tkl_output.c\<close>): clock, sleep,
    random numbers and the adapters that do nothing on Linux.
  \<^item> \<open>Tkl_Wired\<close> (\<open>tkl_wired.c\<close>), \<open>Tkl_Uart\<close> (\<open>tkl_uart.c\<close>): the wired network and the serial ports as programs
    over system calls; their threads are given by rounds of their loops.
  \<^item> \<open>C_Text\<close>: strings in arrays, decimal output and the conversions of \<open>sscanf\<close>; \<open>Wpa_Reply\<close>, \<open>Wpa_Command\<close>
    (\<open>tkl_wifi/wpa_s/wpa_command.c\<close>): the reading of the supplicant's replies and every command sent to it,
    with the supplicant behind the control socket as a parameter.  The local arrays of scan results live in a
    store of frames, from which an array is gone when its function returns.
  \<^item> \<open>Linux_Wifi\<close> (\<open>tkl_wifi/linux_wifi.c\<close>), \<open>Tkl_Wifi\<close> (\<open>tkl_wifi/tkl_wifi.c\<close>): every function of the wireless
    adapter over system calls, the supplicant and the wireless extensions library; \<open>Wifi_Correct\<close>: which functions
    release their descriptors, the events of the status thread, scans, the files and commands of station and
    access point, and raw frames.  Threads are given by rounds of their loops.
  \<^item> \<open>Bt_Dbus\<close> (\<open>tkl_bt/bt_dbus_api.c\<close>), \<open>Tkl_Bluetooth\<close> (\<open>tkl_bt/tkl_bluetooth.c\<close>, \<open>tkl_bt/bt_hci_adv_api.c\<close>): the
    Bluetooth peripheral with its handles, notifications, advertising data and callbacks, over recorded calls of
    the BlueZ library; the locale \<open>ble_session\<close> carries an invariant over sessions of calls and events.

  \<^bold>\<open>What the properties show.\<close>  Refinement of an abstract specification (ring buffer, heap, lists,
  queues), functional results on every branch, round trips (hexadecimal text, files, PWM settings, scan results),
  persistence of flash writes over a loss of power and exactness of upgrade images, equivalence with
  reference definitions (CRC, bit counts, lines of a text), bounds (timeouts, random numbers), safety of sessions of calls
  and of interleaved threads (descriptors, mutexes, reference counts, invariants), and when waits and
  loops end.  Where the code departs from its comments or its purpose the property states what it does.

  \<^bold>\<open>Assumptions.\<close>  The area handed to the heap, the results of \<open>malloc\<close>, of the threads library and of
  the clock are arguments.  The kernel is an arbitrary function; properties that speak about
  descriptors assume of it only that it does not hand out a descriptor that is in use.  Operations
  under a mutex are single steps; the message queue is cut at its waits, and the smart pointer and the
  threads at their accesses to shared memory.  Loops that need not end are partial functions into
  options, \<open>None\<close> meaning that they do not return; there is no fuel.  A loss of power takes file contents
  that were not synchronised and never directory entries.  The hash table of service data in an
  advertisement is listed in the order of first insertion, which GLib leaves open.

  \<^bold>\<open>Not modelled.\<close>  Vendored code (\<open>wpa_cli\<close>, \<open>iwlib\<close>, the BlueZ client library, the SDL, ALSA, MNN and opus
  headers); keyword spotting, voice activity, camera and JPEG, which are calls into libraries without
  source; the tables of function pointers under \<open>include/init\<close>, which hold no logic.  What the wireless
  adapter uses of \<open>iwlib\<close> beyond opening a socket and printing an address is the parameter \<open>wlan_env\<close>.  Messages
  printed for the user are left out, except where printing is all that a function does.
\<close>

end
